(* ===== verification/MoPrelude.thy ===== *)
theory MoPrelude
  imports Main "HOL-Library.Word" "HOL-Library.Monad_Syntax" "HOL-Library.Multiset"
begin

unbundle bit_operations_syntax

text \<open>
  Shared vocabulary of the development.

  C values: a byte (\<open>unsigned char\<close>) is an \<open>8 word\<close>, an \<open>unsigned int\<close> that takes part in bit
  operations is a \<open>32 word\<close>. Loop counters and lengths of type \<open>unsigned int\<close> are \<open>nat\<close> with the
  wrap-around written out by \<open>wrap32\<close>; the conversion of such a counter to the \<open>int\<close> a function
  returns is \<open>to_int32\<close>.

  A pointer to an array is an \<open>option\<close> of a list: \<open>None\<close> is \<open>NULL\<close>, \<open>Some xs\<close> points to the cells
  \<open>xs\<close>. A computation that may leave the defined behaviour of C has type \<open>'a option\<close>: \<open>None\<close> means
  that the call has no defined result (it reads or writes outside an array, or it never returns);
  \<open>Some r\<close> means that it returns \<open>r\<close> without any such access. An equation \<open>f x = Some r\<close> is
  therefore a total-correctness and memory-safety statement at once.
\<close>

named_theorems mem_simps \<open>evaluation of checked array accesses\<close>
named_theorems bits_simps \<open>bits of bytes and byte strings\<close>

section \<open>Machine integers\<close>

type_synonym byte = "8 word"
type_synonym u32 = "32 word"
type_synonym 'a ptr = "'a list option"

text \<open>Arithmetic on \<open>unsigned int\<close> counters wraps at 32 bits.\<close>

definition wrap32 :: "nat \<Rightarrow> nat" where
  "wrap32 n = n mod 2 ^ 32"

text \<open>Conversion of an \<open>unsigned int\<close> to \<open>int\<close> (two's complement).\<close>

definition to_int32 :: "nat \<Rightarrow> int" where
  "to_int32 n = (if wrap32 n < 2 ^ 31 then int (wrap32 n) else int (wrap32 n) - 2 ^ 32)"

lemma wrap32_small [simp]: "n < 2 ^ 32 \<Longrightarrow> wrap32 n = n"
  by (simp add: wrap32_def)

lemma to_int32_small [simp]: "n < 2 ^ 31 \<Longrightarrow> to_int32 n = int n"
  by (simp add: to_int32_def wrap32_def)

section \<open>Checked array accesses\<close>

definition rd :: "'a list \<Rightarrow> nat \<Rightarrow> 'a option" where
  "rd xs i = (if i < length xs then Some (xs ! i) else None)"

definition wr :: "'a list \<Rightarrow> nat \<Rightarrow> 'a \<Rightarrow> 'a list option" where
  "wr xs i v = (if i < length xs then Some (xs[i := v]) else None)"

lemma rd_in [simp, mem_simps]: "i < length xs \<Longrightarrow> rd xs i = Some (xs ! i)"
  by (simp add: rd_def)

lemma rd_out [simp, mem_simps]: "length xs \<le> i \<Longrightarrow> rd xs i = None"
  by (simp add: rd_def)

lemma wr_in [simp, mem_simps]: "i < length xs \<Longrightarrow> wr xs i v = Some (xs[i := v])"
  by (simp add: wr_def)

lemma wr_out [simp, mem_simps]: "length xs \<le> i \<Longrightarrow> wr xs i v = None"
  by (simp add: wr_def)

text \<open>Checked block accesses: \<open>memcpy\<close> from and to an offset.\<close>

definition rdn :: "'a list \<Rightarrow> nat \<Rightarrow> nat \<Rightarrow> 'a list option" where
  "rdn xs off n = (if off + n \<le> length xs then Some (take n (drop off xs)) else None)"

definition wrn :: "'a list \<Rightarrow> nat \<Rightarrow> 'a list \<Rightarrow> 'a list option" where
  "wrn xs off ys = (if off + length ys \<le> length xs
     then Some (take off xs @ ys @ drop (off + length ys) xs) else None)"

lemma rdn_in [simp, mem_simps]: "off + n \<le> length xs \<Longrightarrow> rdn xs off n = Some (take n (drop off xs))"
  by (simp add: rdn_def)

lemma rdn_out [simp, mem_simps]: "length xs < off + n \<Longrightarrow> rdn xs off n = None"
  by (simp add: rdn_def)

lemma wrn_in [simp, mem_simps]: "off + length ys \<le> length xs \<Longrightarrow>
    wrn xs off ys = Some (take off xs @ ys @ drop (off + length ys) xs)"
  by (simp add: wrn_def)

lemma wrn_out [simp, mem_simps]: "length xs < off + length ys \<Longrightarrow> wrn xs off ys = None"
  by (simp add: wrn_def)

section \<open>Counting loops\<close>

text \<open>
  \<open>foldM f xs s\<close> runs the body \<open>f\<close> for every element of \<open>xs\<close> in order, stopping at the first
  undefined access. \<open>for (i = a; i < b; i++)\<close> is \<open>foldM f [a..<b]\<close>.
\<close>

fun foldM :: "('a \<Rightarrow> 's \<Rightarrow> 's option) \<Rightarrow> 'a list \<Rightarrow> 's \<Rightarrow> 's option" where
  "foldM f [] s = Some s"
| "foldM f (x # xs) s = Option.bind (f x s) (foldM f xs)"

lemma foldM_append [simp]: "foldM f (xs @ ys) s = Option.bind (foldM f xs s) (foldM f ys)"
  by (induction xs arbitrary: s) (auto split: bind_splits)

lemma foldM_Some:
  assumes "\<And>x s. x \<in> set xs \<Longrightarrow> f x s = Some (g x s)"
  shows "foldM f xs s = Some (fold g xs s)"
  using assms by (induction xs arbitrary: s) auto

lemma foldM_range_inv:
  assumes "a \<le> b" and "I a s"
    and "\<And>i s. a \<le> i \<Longrightarrow> i < b \<Longrightarrow> I i s \<Longrightarrow> \<exists>s'. f i s = Some s' \<and> I (Suc i) s'"
  shows "\<exists>s'. foldM f [a..<b] s = Some s' \<and> I b s'"
  using assms
proof (induction "b - a" arbitrary: a s)
  case 0
  then show ?case by simp
next
  case (Suc n)
  then have lt: "a < b" by simp
  obtain s1 where s1: "f a s = Some s1" "I (Suc a) s1"
    using Suc.prems lt by blast
  have "\<exists>s'. foldM f [Suc a..<b] s1 = Some s' \<and> I b s'"
    using Suc.hyps(1) [of "Suc a" s1] Suc.hyps(2) Suc.prems(3) s1(2) lt by simp
  then show ?case using lt s1(1) by (simp add: upt_conv_Cons)
qed

lemma foldM_rev_range_inv:
  assumes "a \<le> b" and "I b s"
    and "\<And>i s. a \<le> i \<Longrightarrow> i < b \<Longrightarrow> I (Suc i) s \<Longrightarrow> \<exists>s'. f i s = Some s' \<and> I i s'"
  shows "\<exists>s'. foldM f (rev [a..<b]) s = Some s' \<and> I a s'"
  using assms
proof (induction "b - a" arbitrary: b s)
  case 0
  then show ?case by simp
next
  case (Suc n)
  then obtain b' where b: "b = Suc b'" "a \<le> b'" by (cases b) auto
  obtain s1 where s1: "f b' s = Some s1" "I b' s1"
    using Suc.prems b by blast
  have "\<exists>s'. foldM f (rev [a..<b']) s1 = Some s' \<and> I a s'"
    using Suc.hyps(1) [of b' s1] Suc.hyps(2) Suc.prems(3) s1(2) b by simp
  then show ?case using b s1(1) by simp
qed

lemma fold_range_inv:
  assumes "a \<le> b" and "I a s"
    and "\<And>i s. a \<le> i \<Longrightarrow> i < b \<Longrightarrow> I i s \<Longrightarrow> I (Suc i) (f i s)"
  shows "I b (fold f [a..<b] s)"
  using assms
proof (induction "b - a" arbitrary: a s)
  case 0
  then show ?case by simp
next
  case (Suc n)
  then have "a < b" by simp
  then show ?case using Suc.hyps(1) [of "Suc a" "f a s"] Suc.hyps(2) Suc.prems
    by (simp add: upt_conv_Cons)
qed

lemma foldM_map: "foldM f (map g xs) s = foldM (\<lambda>x. f (g x)) xs s"
  by (induction xs arbitrary: s) (auto split: bind_splits)

lemma foldM_shift: "foldM f [a..<a + k] s = foldM (\<lambda>i. f (i + a)) [0..<k] s"
  using foldM_map [of f "\<lambda>i. i + a" "[0..<k]" s] by (simp add: map_add_upt add.commute)

lemma foldM_cong:
  assumes "\<And>x s. x \<in> set xs \<Longrightarrow> f x s = g x s"
  shows "foldM f xs s = foldM g xs s"
  using assms by (induction xs arbitrary: s) (auto split: bind_splits)

text \<open>Loops that fill a region \<open>off ..\<close> of a buffer, or mark cells of a cleared region.\<close>

lemma foldM_copy:
  assumes "\<And>i. i < n \<Longrightarrow> h i = Some (c i)" and "off = length pre" and "n \<le> length buf"
  shows "foldM (\<lambda>i p. do { v \<leftarrow> h i; wr p (i + off) v }) [0..<n] (pre @ buf) =
    Some (pre @ map c [0..<n] @ drop n buf)"
  using assms(1,3)
proof (induction n)
  case 0
  then show ?case by simp
next
  case (Suc n)
  then have "drop n buf = buf ! n # drop (Suc n) buf" by (simp add: Cons_nth_drop_Suc)
  with Suc assms(2) show ?case by (simp add: list_update_append)
qed

lemma foldM_mark:
  assumes "\<And>i. i < n \<Longrightarrow> h i = Some (c i)" and "off = length pre" and "n \<le> m"
  shows "foldM (\<lambda>i p. do { b \<leftarrow> h i; if b then wr p (i + off) 1 else Some p }) [0..<n]
      (pre @ replicate m (0 :: 'a :: zero_neq_one)) =
    Some (pre @ map (\<lambda>i. of_bool (c i)) [0..<n] @ replicate (m - n) 0)"
  using assms(1,3)
proof (induction n)
  case 0
  then show ?case by simp
next
  case (Suc n)
  then have "replicate (m - n) (0 :: 'a) = 0 # replicate (m - Suc n) 0"
    by (metis Suc_diff_Suc Suc_le_lessD replicate_Suc)
  with Suc assms(2) show ?case by (simp add: list_update_append)
qed

text \<open>A loop that writes cell \<open>i\<close> of a buffer in its \<open>i\<close>-th round fills the buffer.\<close>

lemma foldM_wr_fill:
  assumes "n \<le> length xs"
  shows "foldM (\<lambda>i xs. wr xs i (g i)) [0..<n] xs = Some (map g [0..<n] @ drop n xs)"
  using assms
proof (induction n)
  case 0
  then show ?case by simp
next
  case (Suc n)
  then have "drop n xs = xs ! n # drop (Suc n) xs" by (simp add: Cons_nth_drop_Suc)
  with Suc show ?case by (simp add: list_update_append)
qed

lemma foldM_option_fill:
  assumes "n \<le> length xs" and "\<And>i. i < n \<Longrightarrow> h i = Some (g i)"
  shows "foldM (\<lambda>i xs. Option.bind (h i) (\<lambda>v. wr xs i (c i v))) [0..<n] xs =
    Some (map (\<lambda>i. c i (g i)) [0..<n] @ drop n xs)"
proof -
  have "foldM (\<lambda>i xs. Option.bind (h i) (\<lambda>v. wr xs i (c i v))) is s =
    foldM (\<lambda>i xs. wr xs i (c i (g i))) is s"
    if "set is \<subseteq> {0..<n}" for "is" s
    using that assms(2) by (induction "is" arbitrary: s) (auto split: bind_splits)
  then show ?thesis using foldM_wr_fill [OF assms(1)] by simp
qed

lemma foldM_option_fill_rev:
  assumes "n \<le> length xs" and "\<And>i. i < n \<Longrightarrow> h i = Some (g i)"
  shows "foldM (\<lambda>i xs. Option.bind (h i) (\<lambda>v. wr xs i (c i v))) (rev [0..<n]) xs =
    Some (map (\<lambda>i. c i (g i)) [0..<n] @ drop n xs)"
  using assms
proof (induction n arbitrary: xs)
  case 0
  then show ?case by simp
next
  case (Suc n)
  then have "drop n (xs[n := c n (g n)]) = c n (g n) # drop (Suc n) xs"
    by (metis Cons_nth_drop_Suc Suc_le_lessD drop_update_cancel length_list_update lessI
        nth_list_update_eq)
  with Suc show ?case by simp
qed

section \<open>Lists\<close>

lemma nth_take_drop: "k < n \<Longrightarrow> i + n \<le> length xs \<Longrightarrow> take n (drop i xs) ! k = xs ! (i + k)"
  by simp

lemma list_update_Cons_numeral [simp]:
  "(x # xs)[numeral n := v] = x # xs[pred_numeral n := v]"
  by (simp add: numeral_eq_Suc)

lemma list_eq_iff_nth: "xs = ys \<longleftrightarrow> length xs = length ys \<and> (\<forall>i<length xs. xs ! i = ys ! i)"
  by (auto intro: nth_equalityI)

end
