(* ===== verification/MoFifo.thy ===== *)
theory MoFifo
  imports MoPrelude
begin

text \<open>
  What a queue promises to its clients, and what follows for every sequence of operations: nothing
  is lost, duplicated or reordered. \<open>rep s xs\<close> says that \<open>s\<close> holds \<open>xs\<close>, oldest first; \<open>fresh c s\<close>
  that the resource \<open>c\<close> (what \<open>malloc\<close> returned) may be used in \<open>s\<close>. The task queue of the thread
  pool and the buffers of the download client provide the contract.
\<close>

datatype ('c, 'a) queue_op = Enq 'c 'a | Deq

fun run_queue :: "('c \<Rightarrow> 'a \<Rightarrow> 's \<Rightarrow> 's option) \<Rightarrow> ('s \<Rightarrow> ('a option \<times> 's) option) \<Rightarrow>
    ('c, 'a) queue_op list \<Rightarrow> 's \<Rightarrow> ('a list \<times> 's) option" where
  "run_queue enq deq [] s = Some ([], s)"
| "run_queue enq deq (Enq c x # ops) s = do { s \<leftarrow> enq c x s; run_queue enq deq ops s }"
| "run_queue enq deq (Deq # ops) s = do {
     (r, s) \<leftarrow> deq s;
     (out, s) \<leftarrow> run_queue enq deq ops s;
     Some ((case r of None \<Rightarrow> [] | Some x \<Rightarrow> [x]) @ out, s)
   }"

fun enqueued :: "('c, 'a) queue_op list \<Rightarrow> 'a list" where
  "enqueued [] = []"
| "enqueued (Enq c x # ops) = x # enqueued ops"
| "enqueued (Deq # ops) = enqueued ops"

text \<open>Every \<open>Enq\<close> of a run is given a resource that is fresh when it is reached.\<close>

fun all_fresh :: "('c \<Rightarrow> 's \<Rightarrow> bool) \<Rightarrow> ('c \<Rightarrow> 'a \<Rightarrow> 's \<Rightarrow> 's option) \<Rightarrow> ('s \<Rightarrow> ('a option \<times> 's) option) \<Rightarrow>
    ('c, 'a) queue_op list \<Rightarrow> 's \<Rightarrow> bool" where
  "all_fresh fresh enq deq [] s = True"
| "all_fresh fresh enq deq (Enq c x # ops) s =
     (fresh c s \<and> (case enq c x s of None \<Rightarrow> True | Some s' \<Rightarrow> all_fresh fresh enq deq ops s'))"
| "all_fresh fresh enq deq (Deq # ops) s =
     (case deq s of None \<Rightarrow> True | Some (r, s') \<Rightarrow> all_fresh fresh enq deq ops s')"

locale fifo =
  fixes rep :: "'s \<Rightarrow> 'a list \<Rightarrow> bool"
    and fresh :: "'c \<Rightarrow> 's \<Rightarrow> bool"
    and enq :: "'c \<Rightarrow> 'a \<Rightarrow> 's \<Rightarrow> 's option"
    and deq :: "'s \<Rightarrow> ('a option \<times> 's) option"
  assumes enq_rep: "rep s xs \<Longrightarrow> fresh c s \<Longrightarrow> \<exists>s'. enq c x s = Some s' \<and> rep s' (xs @ [x])"
    and deq_Nil: "rep s [] \<Longrightarrow> \<exists>s'. deq s = Some (None, s') \<and> rep s' []"
    and deq_Cons: "rep s (x # xs) \<Longrightarrow> \<exists>s'. deq s = Some (Some x, s') \<and> rep s' xs"
begin

lemma run_fifo:
  assumes "rep s xs" and "all_fresh fresh enq deq ops s"
  shows "\<exists>out s' ys. run_queue enq deq ops s = Some (out, s') \<and> rep s' ys \<and> xs @ enqueued ops = out @ ys"
  using assms
proof (induction ops arbitrary: s xs)
  case Nil
  then show ?case by auto
next
  case (Cons op ops)
  show ?case
  proof (cases op)
    case (Enq c x)
    then obtain s1 where "enq c x s = Some s1" "rep s1 (xs @ [x])"
      using Cons.prems enq_rep by fastforce
    then show ?thesis using Cons.IH [of s1 "xs @ [x]"] Cons.prems(2) Enq by simp
  next
    case Deq
    show ?thesis
    proof (cases xs)
      case Nil
      then obtain s1 where "deq s = Some (None, s1)" "rep s1 []"
        using Cons.prems deq_Nil by blast
      then show ?thesis using Cons.IH [of s1 "[]"] Cons.prems(2) Deq Nil by auto
    next
      case (Cons x xs')
      then obtain s1 where "deq s = Some (Some x, s1)" "rep s1 xs'"
        using Cons.prems deq_Cons by blast
      then show ?thesis using Cons.IH [of s1 xs'] Cons.prems(2) Deq Cons by auto
    qed
  qed
qed

end

end
