(* ===== verification/MoSearch.thy ===== *)
theory MoSearch
  imports MoPrelude
begin

text \<open>
  Substring search of \<open>moSdk/Utils/Search/src/search.c\<close>: brute force, Knuth-Morris-Pratt,
  Boyer-Moore and Sunday, with the generators of their tables. The tables are arrays of
  \<open>unsigned char\<close>, so their entries are taken modulo 256.
\<close>

section \<open>Error codes\<close>

abbreviation (input) MOUTILS_SEARCH_ERR_OK :: int where
  "MOUTILS_SEARCH_ERR_OK \<equiv> 0"

abbreviation (input) MOUTILS_SEARCH_ERR_INPUTPARAMNULL :: int where
  "MOUTILS_SEARCH_ERR_INPUTPARAMNULL \<equiv> -12000"

abbreviation (input) MOUTILS_SEARCH_ERR_PATLENLARGER :: int where
  "MOUTILS_SEARCH_ERR_PATLENLARGER \<equiv> -12001"

abbreviation (input) MOUTILS_SEARCH_ERR_PATNOTEXIST :: int where
  "MOUTILS_SEARCH_ERR_PATNOTEXIST \<equiv> -12002"

abbreviation (input) MOUTILS_SEARCH_ERR_MALLOCFAILED :: int where
  "MOUTILS_SEARCH_ERR_MALLOCFAILED \<equiv> -12003"

abbreviation (input) MOUTILS_SEARCH_ERR_INVALIDLEN :: int where
  "MOUTILS_SEARCH_ERR_INVALIDLEN \<equiv> -12004"

section \<open>Reference specification\<close>

definition occurs :: "'a list \<Rightarrow> 'a list \<Rightarrow> nat \<Rightarrow> bool" where
  "occurs src pat i \<longleftrightarrow> i + length pat \<le> length src \<and> take (length pat) (drop i src) = pat"

definition search_spec :: "'a list \<Rightarrow> 'a list \<Rightarrow> int" where
  "search_spec src pat =
     (case find (occurs src pat) [0..<Suc (length src)] of
        Some i \<Rightarrow> int i | None \<Rightarrow> MOUTILS_SEARCH_ERR_PATNOTEXIST)"

section \<open>Forward comparison and brute force\<close>

text \<open>
  The inner loop \<open>for(i = 0; i < patternLen; i++)\<close> of the brute-force and KMP searches: it
  returns the index at which it stops, \<open>patternLen\<close> when every byte agrees.
\<close>

function cmpFrom :: "byte list \<Rightarrow> nat \<Rightarrow> byte list \<Rightarrow> nat \<Rightarrow> nat \<Rightarrow> nat option" where
  "cmpFrom src offset pat patternLen i =
     (if i < patternLen
      then do {
        a \<leftarrow> rd src (offset + i);
        b \<leftarrow> rd pat i;
        if a \<noteq> b then Some i else cmpFrom src offset pat patternLen (Suc i)
      }
      else Some i)"
  by pat_completeness auto
termination
  by (relation "measure (\<lambda>(src, offset, pat, patternLen, i). patternLen - i)") auto

declare cmpFrom.simps [simp del]

partial_function (option) bfLoop :: "byte list \<Rightarrow> nat \<Rightarrow> byte list \<Rightarrow> nat \<Rightarrow> nat \<Rightarrow> int option" where
  "bfLoop src srcLen pat patternLen offset =
     (if wrap32 (offset + patternLen) \<le> srcLen
      then do {
        i \<leftarrow> cmpFrom src offset pat patternLen 0;
        if i \<ge> patternLen then Some (to_int32 offset)
        else bfLoop src srcLen pat patternLen (wrap32 (Suc offset))
      }
      else Some MOUTILS_SEARCH_ERR_PATNOTEXIST)"

definition moUtils_Search_BF :: "byte ptr \<Rightarrow> nat \<Rightarrow> byte ptr \<Rightarrow> nat \<Rightarrow> int option" where
  "moUtils_Search_BF pSrc srcLen pPattern patternLen =
     (case (pSrc, pPattern) of
        (Some src, Some pat) \<Rightarrow>
          if srcLen < patternLen then Some MOUTILS_SEARCH_ERR_PATLENLARGER
          else if 0 = patternLen \<or> 0 = srcLen then Some MOUTILS_SEARCH_ERR_INVALIDLEN
          else bfLoop src srcLen pat patternLen 0
      | _ \<Rightarrow> Some MOUTILS_SEARCH_ERR_INPUTPARAMNULL)"

section \<open>Knuth-Morris-Pratt\<close>

text \<open>The innermost loop of \<open>genPMT\<close>, over \<open>k\<close>; it returns the \<open>k\<close> at which it stops.\<close>

function pmtCmp :: "byte list \<Rightarrow> nat \<Rightarrow> nat \<Rightarrow> nat \<Rightarrow> nat option" where
  "pmtCmp pat i j k =
     (if k < j
      then do {
        a \<leftarrow> rd pat k;
        b \<leftarrow> rd pat (i - j + k);
        if a \<noteq> b then Some k else pmtCmp pat i j (Suc k)
      }
      else Some k)"
  by pat_completeness auto
termination
  by (relation "measure (\<lambda>(pat, i, j, k). j - k)") auto

declare pmtCmp.simps [simp del]

text \<open>The body of \<open>genPMT\<close> for one \<open>i\<close>: the last \<open>j\<close> whose comparison succeeds gives \<open>pmValue\<close>.\<close>

definition pmtValue :: "byte list \<Rightarrow> nat \<Rightarrow> nat option" where
  "pmtValue pat i =
     foldM (\<lambda>j pmValue. do {
              k \<leftarrow> pmtCmp pat i j 0;
              Some (if k \<ge> j then j + 1 else pmValue)
            }) [0..<i] 0"

definition genPMT :: "byte list \<Rightarrow> byte list \<Rightarrow> nat \<Rightarrow> byte list option" where
  "genPMT pmt pat patternLen =
     foldM (\<lambda>i pmt. do {
              pmValue \<leftarrow> pmtValue pat i;
              wr pmt i (word_of_nat pmValue)
            }) [0..<patternLen] pmt"

definition genKmpNext :: "byte list \<Rightarrow> byte list \<Rightarrow> nat \<Rightarrow> byte list option" where
  "genKmpNext next pmt patternLen =
     foldM (\<lambda>i next. do {
              p \<leftarrow> rd pmt i;
              wr next i (word_of_nat (i + 1) - p)
            }) [0..<patternLen] next"

text \<open>
  \<open>mallocOk\<close> says whether \<open>malloc\<close> of the \<open>patternLen\<close> bytes of the temporary table succeeds; the
  fresh memory is written before it is read, so its initial contents are irrelevant.
\<close>

definition moUtils_Search_KMP_GenNextArray ::
    "bool \<Rightarrow> byte ptr \<Rightarrow> byte ptr \<Rightarrow> nat \<Rightarrow> (int \<times> byte ptr) option" where
  "moUtils_Search_KMP_GenNextArray mallocOk pNext pPattern patternLen =
     (case (pNext, pPattern) of
        (Some next, Some pat) \<Rightarrow>
          if \<not> mallocOk then Some (MOUTILS_SEARCH_ERR_MALLOCFAILED, pNext)
          else do {
            pmt \<leftarrow> genPMT (replicate patternLen 0) pat patternLen;
            next' \<leftarrow> genKmpNext next pmt patternLen;
            Some (MOUTILS_SEARCH_ERR_OK, Some next')
          }
      | _ \<Rightarrow> Some (MOUTILS_SEARCH_ERR_INPUTPARAMNULL, pNext))"

partial_function (option) kmpLoop ::
    "byte list \<Rightarrow> nat \<Rightarrow> byte list \<Rightarrow> nat \<Rightarrow> byte list \<Rightarrow> nat \<Rightarrow> int option" where
  "kmpLoop src srcLen pat patternLen next i =
     (if i \<le> srcLen - patternLen
      then do {
        j \<leftarrow> cmpFrom src i pat patternLen 0;
        if j \<ge> patternLen then Some (to_int32 i)
        else do {
          d \<leftarrow> rd next j;
          kmpLoop src srcLen pat patternLen next (wrap32 (i + unat d))
        }
      }
      else Some MOUTILS_SEARCH_ERR_PATNOTEXIST)"

definition moUtils_Search_KMP ::
    "byte ptr \<Rightarrow> nat \<Rightarrow> byte ptr \<Rightarrow> nat \<Rightarrow> byte ptr \<Rightarrow> int option" where
  "moUtils_Search_KMP pSrc srcLen pPattern patternLen pNext =
     (case (pSrc, pPattern, pNext) of
        (Some src, Some pat, Some next) \<Rightarrow>
          if patternLen > srcLen then Some MOUTILS_SEARCH_ERR_PATLENLARGER
          else if 0 = patternLen \<or> 0 = srcLen then Some MOUTILS_SEARCH_ERR_INVALIDLEN
          else kmpLoop src srcLen pat patternLen next 0
      | _ \<Rightarrow> Some MOUTILS_SEARCH_ERR_INPUTPARAMNULL)"

section \<open>Boyer-Moore\<close>

definition MOUTILS_SEARCH_BM_BCT_LEN :: nat where
  "MOUTILS_SEARCH_BM_BCT_LEN = 256"

definition moUtils_Search_BM_GenBCT :: "byte ptr \<Rightarrow> byte ptr \<Rightarrow> nat \<Rightarrow> (int \<times> byte ptr) option" where
  "moUtils_Search_BM_GenBCT pBct pPattern patternLen =
     (case (pBct, pPattern) of
        (Some bct, Some pat) \<Rightarrow> do {
          bct \<leftarrow> foldM (\<lambda>i bct. wr bct i 0) [0..<MOUTILS_SEARCH_BM_BCT_LEN] bct;
          bct \<leftarrow> foldM (\<lambda>i bct. wr bct i (word_of_nat patternLen)) [0..<MOUTILS_SEARCH_BM_BCT_LEN] bct;
          bct \<leftarrow> foldM (\<lambda>j bct. do {
                    c \<leftarrow> rd pat j;
                    wr bct (unat c) (word_of_nat (patternLen - j - 1))
                  }) [0..<patternLen] bct;
          Some (MOUTILS_SEARCH_ERR_OK, Some bct)
        }
      | _ \<Rightarrow> Some (MOUTILS_SEARCH_ERR_INPUTPARAMNULL, pBct))"

text \<open>
  The two comparison loops of \<open>moUtils_Search_BM_GenGST\<close> (over \<open>k\<close>, against a start \<open>a\<close> and a
  start \<open>b\<close>): \<open>isPrevExist\<close> and \<open>isMatchToHead\<close>.
\<close>

function gstCmp :: "byte list \<Rightarrow> nat \<Rightarrow> nat \<Rightarrow> nat \<Rightarrow> nat \<Rightarrow> bool option" where
  "gstCmp pat a b len k =
     (if k < len
      then do {
        x \<leftarrow> rd pat (a + k);
        y \<leftarrow> rd pat (b + k);
        if x = y then gstCmp pat a b len (Suc k) else Some False
      }
      else Some True)"
  by pat_completeness auto
termination
  by (relation "measure (\<lambda>(pat, a, b, len, k). len - k)") auto

declare gstCmp.simps [simp del]

text \<open>\<open>for(j = i - 1; j >= 0; j--)\<close>: the previous occurrence of the whole good suffix.\<close>

fun gstPrev :: "byte list \<Rightarrow> nat \<Rightarrow> nat \<Rightarrow> nat \<Rightarrow> nat option option" where
  "gstPrev pat i len 0 = Some None"
| "gstPrev pat i len (Suc j) = do {
     isPrevExist \<leftarrow> gstCmp pat j i len 0;
     if isPrevExist then Some (Some (i - j)) else gstPrev pat i len j
   }"

text \<open>\<open>while((++tmpStartPos) < patternLen)\<close>: the longest shorter suffix that is a prefix.\<close>

function gstHead :: "byte list \<Rightarrow> nat \<Rightarrow> nat \<Rightarrow> nat option option" where
  "gstHead pat patternLen tmpStartPos =
     (if tmpStartPos + 1 < patternLen
      then do {
        isMatchToHead \<leftarrow> gstCmp pat 0 (tmpStartPos + 1) (patternLen - (tmpStartPos + 1)) 0;
        if isMatchToHead then Some (Some (tmpStartPos + 1))
        else gstHead pat patternLen (tmpStartPos + 1)
      }
      else Some None)"
  by pat_completeness auto
termination
  by (relation "measure (\<lambda>(pat, patternLen, tmpStartPos). patternLen - tmpStartPos)") auto

declare gstHead.simps [simp del]

definition gstValue :: "byte list \<Rightarrow> nat \<Rightarrow> nat \<Rightarrow> nat option" where
  "gstValue pat patternLen i = do {
     m \<leftarrow> gstPrev pat i (patternLen - i) i;
     case m of
       Some d \<Rightarrow> Some d
     | None \<Rightarrow> do {
         l \<leftarrow> gstHead pat patternLen i;
         Some (case l of Some d \<Rightarrow> d | None \<Rightarrow> patternLen)
       }
   }"

definition moUtils_Search_BM_GenGST :: "byte ptr \<Rightarrow> byte ptr \<Rightarrow> nat \<Rightarrow> (int \<times> byte ptr) option" where
  "moUtils_Search_BM_GenGST pGst pPattern patternLen =
     (case (pGst, pPattern) of
        (Some gst, Some pat) \<Rightarrow> do {
          gst \<leftarrow> foldM (\<lambda>i gst. do {
                    d \<leftarrow> gstValue pat patternLen i;
                    wr gst i (word_of_nat d)
                  }) (rev [0..<patternLen]) gst;
          Some (MOUTILS_SEARCH_ERR_OK, Some gst)
        }
      | _ \<Rightarrow> Some (MOUTILS_SEARCH_ERR_INPUTPARAMNULL, pGst))"

text \<open>
  The backward comparison \<open>for(j = patternLen - 1; j >= 0; j--)\<close>: \<open>Some None\<close> when the pattern is
  found, \<open>Some (Some j)\<close> for the last mismatching index.
\<close>

fun bmCmp :: "byte list \<Rightarrow> nat \<Rightarrow> byte list \<Rightarrow> nat \<Rightarrow> nat option option" where
  "bmCmp src i pat 0 = Some None"
| "bmCmp src i pat (Suc j) = do {
     a \<leftarrow> rd pat j;
     b \<leftarrow> rd src (wrap32 (i + j));
     if a = b then bmCmp src i pat j else Some (Some j)
   }"

partial_function (option) bmLoop ::
    "byte list \<Rightarrow> nat \<Rightarrow> byte list \<Rightarrow> nat \<Rightarrow> byte list \<Rightarrow> byte list \<Rightarrow> nat \<Rightarrow> int option" where
  "bmLoop src srcLen pat patternLen bct gst i =
     (if i \<le> srcLen - patternLen
      then do {
        m \<leftarrow> bmCmp src i pat patternLen;
        case m of
          None \<Rightarrow> Some (to_int32 i)
        | Some j \<Rightarrow> do {
            next \<leftarrow> (if j = patternLen - 1
                     then do { c \<leftarrow> rd src (wrap32 (i + j)); rd bct (unat c) }
                     else rd gst (j + 1));
            bmLoop src srcLen pat patternLen bct gst (wrap32 (i + unat next))
          }
      }
      else Some MOUTILS_SEARCH_ERR_PATNOTEXIST)"

definition moUtils_Search_BM ::
    "byte ptr \<Rightarrow> nat \<Rightarrow> byte ptr \<Rightarrow> nat \<Rightarrow> byte ptr \<Rightarrow> byte ptr \<Rightarrow> int option" where
  "moUtils_Search_BM pSrc srcLen pPattern patternLen pBct pGst =
     (case (pSrc, pPattern, pBct, pGst) of
        (Some src, Some pat, Some bct, Some gst) \<Rightarrow>
          if srcLen < patternLen then Some MOUTILS_SEARCH_ERR_PATLENLARGER
          else if 0 = patternLen \<or> 0 = srcLen then Some MOUTILS_SEARCH_ERR_INVALIDLEN
          else bmLoop src srcLen pat patternLen bct gst 0
      | _ \<Rightarrow> Some MOUTILS_SEARCH_ERR_INPUTPARAMNULL)"

section \<open>Sunday\<close>

definition MOUTILS_SEARCH_SUNDAY_NEXTTABLE_LEN :: nat where
  "MOUTILS_SEARCH_SUNDAY_NEXTTABLE_LEN = 256"

definition moUtils_Search_Sunday_GenNextTable ::
    "byte ptr \<Rightarrow> byte ptr \<Rightarrow> nat \<Rightarrow> (int \<times> byte ptr) option" where
  "moUtils_Search_Sunday_GenNextTable pNext pPattern patternLen =
     (case (pNext, pPattern) of
        (Some next, Some pat) \<Rightarrow> do {
          next \<leftarrow> foldM (\<lambda>i next. wr next i (word_of_nat (patternLen + 1)))
                    [0..<MOUTILS_SEARCH_SUNDAY_NEXTTABLE_LEN] next;
          next \<leftarrow> foldM (\<lambda>i next. do {
                    c \<leftarrow> rd pat i;
                    wr next (unat c) (word_of_nat (patternLen - i))
                  }) [0..<patternLen] next;
          Some (MOUTILS_SEARCH_ERR_OK, Some next)
        }
      | _ \<Rightarrow> Some (MOUTILS_SEARCH_ERR_INPUTPARAMNULL, pNext))"

text \<open>
  The inner loop of \<open>moUtils_Search_Sunday\<close> over \<open>j\<close>. It changes the outer index \<open>i\<close> too: on a
  mismatch with room to the right it jumps and breaks; on a mismatch in the last window it
  increments \<open>i\<close> and goes on comparing. The result is \<open>(isMatched, i)\<close>.
\<close>

function sundayCmp ::
    "byte list \<Rightarrow> nat \<Rightarrow> byte list \<Rightarrow> nat \<Rightarrow> byte list \<Rightarrow> bool \<Rightarrow> nat \<Rightarrow> nat \<Rightarrow> (bool \<times> nat) option" where
  "sundayCmp src srcLen pat patternLen next isMatched i j =
     (if j < patternLen
      then do {
        a \<leftarrow> rd src (wrap32 (i + j));
        b \<leftarrow> rd pat j;
        if a \<noteq> b
        then if wrap32 (i + patternLen) < srcLen
             then do {
               c \<leftarrow> rd src (wrap32 (i + patternLen));
               d \<leftarrow> rd next (unat c);
               Some (False, wrap32 (i + unat d))
             }
             else sundayCmp src srcLen pat patternLen next False (wrap32 (Suc i)) (Suc j)
        else sundayCmp src srcLen pat patternLen next isMatched i (Suc j)
      }
      else Some (isMatched, i))"
  by pat_completeness auto
termination
  by (relation "measure (\<lambda>(src, srcLen, pat, patternLen, next, isMatched, i, j). patternLen - j)") auto

declare sundayCmp.simps [simp del]

partial_function (option) sundayLoop ::
    "byte list \<Rightarrow> nat \<Rightarrow> byte list \<Rightarrow> nat \<Rightarrow> byte list \<Rightarrow> nat \<Rightarrow> int option" where
  "sundayLoop src srcLen pat patternLen next i =
     (if i \<le> srcLen - patternLen
      then do {
        (isMatched, i) \<leftarrow> sundayCmp src srcLen pat patternLen next True i 0;
        if isMatched then Some (to_int32 i)
        else sundayLoop src srcLen pat patternLen next i
      }
      else Some MOUTILS_SEARCH_ERR_PATNOTEXIST)"

definition moUtils_Search_Sunday ::
    "byte ptr \<Rightarrow> nat \<Rightarrow> byte ptr \<Rightarrow> nat \<Rightarrow> byte ptr \<Rightarrow> int option" where
  "moUtils_Search_Sunday pSrc srcLen pPattern patternLen pNext =
     (case (pSrc, pPattern, pNext) of
        (Some src, Some pat, Some next) \<Rightarrow>
          if srcLen < patternLen then Some MOUTILS_SEARCH_ERR_PATLENLARGER
          else if 0 = patternLen \<or> 0 = srcLen then Some MOUTILS_SEARCH_ERR_INVALIDLEN
          else sundayLoop src srcLen pat patternLen next 0
      | _ \<Rightarrow> Some MOUTILS_SEARCH_ERR_INPUTPARAMNULL)"


section \<open>Occurrences and the specification\<close>

lemma occurs_nth:
  "occurs src pat i \<longleftrightarrow>
     i + length pat \<le> length src \<and> (\<forall>k<length pat. src ! (i + k) = pat ! k)"
  unfolding occurs_def list_eq_iff_nth [of "take (length pat) (drop i src)" pat] by auto

lemma search_spec_found:
  assumes "occurs src pat i" and "\<And>k. k < i \<Longrightarrow> \<not> occurs src pat k"
  shows "search_spec src pat = int i"
proof -
  have "i \<le> length src" using assms(1) by (simp add: occurs_def)
  then have "find (occurs src pat) [0..<Suc (length src)] = Some i"
    using assms by (auto simp: find_Some_iff nth_append intro!: exI [of _ i])
  then show ?thesis by (simp add: search_spec_def)
qed

lemma search_spec_absent:
  assumes "\<And>k. \<not> occurs src pat k"
  shows "search_spec src pat = MOUTILS_SEARCH_ERR_PATNOTEXIST"
proof -
  have "find (occurs src pat) [0..<Suc (length src)] = None"
    using assms by (simp add: find_None_iff)
  then show ?thesis by (simp add: search_spec_def)
qed

section \<open>The interface of a skipping search\<close>

text \<open>
  KMP, Boyer-Moore and Sunday share one scheme: look at the window at offset \<open>i\<close>, return on a
  match, else skip by a shift that is positive and passes over no occurrence. \<open>valid\<close> collects
  the preconditions of the concrete search.
\<close>

locale skip_search =
  fixes valid :: "byte list \<Rightarrow> byte list \<Rightarrow> bool"
    and loop :: "byte list \<Rightarrow> byte list \<Rightarrow> nat \<Rightarrow> int option"
    and shift :: "byte list \<Rightarrow> byte list \<Rightarrow> nat \<Rightarrow> nat"
  assumes valid_len: "valid src pat \<Longrightarrow> length pat \<le> length src"
    and loop_hit: "valid src pat \<Longrightarrow> occurs src pat i \<Longrightarrow> loop src pat i = Some (int i)"
    and loop_skip: "valid src pat \<Longrightarrow> i < length src - length pat \<Longrightarrow> \<not> occurs src pat i \<Longrightarrow>
      loop src pat i = loop src pat (i + shift src pat i)"
    and shift_pos: "valid src pat \<Longrightarrow> i \<le> length src - length pat \<Longrightarrow> \<not> occurs src pat i \<Longrightarrow>
      0 < shift src pat i"
    and shift_safe: "valid src pat \<Longrightarrow> i \<le> length src - length pat \<Longrightarrow> \<not> occurs src pat i \<Longrightarrow>
      i < k \<Longrightarrow> k < i + shift src pat i \<Longrightarrow> \<not> occurs src pat k"
begin

lemma loop_finds:
  assumes "valid src pat" and "occurs src pat k" and "\<And>m. m < k \<Longrightarrow> \<not> occurs src pat m"
    and "i \<le> k"
  shows "loop src pat i = Some (int k)"
  using assms(4)
proof (induction "k - i" arbitrary: i rule: less_induct)
  case less
  show ?case
  proof (cases "i = k")
    case True
    then show ?thesis using loop_hit assms(1,2) by simp
  next
    case False
    then have lt: "i < k" using less.prems by simp
    have last: "k \<le> length src - length pat" using assms(2) by (auto simp: occurs_def)
    have no: "\<not> occurs src pat i" using assms(3) lt by blast
    let ?d = "shift src pat i"
    have pos: "0 < ?d" using shift_pos assms(1) no lt last by simp
    have le: "i + ?d \<le> k"
    proof (rule ccontr)
      assume "\<not> i + ?d \<le> k"
      then show False using shift_safe [OF assms(1) _ no lt] assms(2) lt last by simp
    qed
    then have "loop src pat (i + ?d) = Some (int k)" using less.hyps [of "i + ?d"] pos lt by simp
    then show ?thesis using loop_skip [OF assms(1) _ no] lt last by simp
  qed
qed

end

locale total_skip_search = skip_search +
  assumes loop_end: "valid src pat \<Longrightarrow> length src - length pat < i \<Longrightarrow> i \<le> Suc (length src) \<Longrightarrow>
      loop src pat i = Some MOUTILS_SEARCH_ERR_PATNOTEXIST"
    and shift_le: "valid src pat \<Longrightarrow> i \<le> length src - length pat \<Longrightarrow> \<not> occurs src pat i \<Longrightarrow>
      i + shift src pat i \<le> Suc (length src)"
    and loop_skip_last: "valid src pat \<Longrightarrow> \<not> occurs src pat (length src - length pat) \<Longrightarrow>
      loop src pat (length src - length pat) =
        loop src pat (length src - length pat + shift src pat (length src - length pat))"
begin

lemma loop_fails:
  assumes "valid src pat" and "\<And>k. \<not> occurs src pat k" and "i \<le> Suc (length src)"
  shows "loop src pat i = Some MOUTILS_SEARCH_ERR_PATNOTEXIST"
  using assms(3)
proof (induction "Suc (length src - length pat) - i" arbitrary: i rule: less_induct)
  case less
  show ?case
  proof (cases "length src - length pat < i")
    case True
    then show ?thesis using loop_end assms(1) less.prems by simp
  next
    case False
    then have le: "i \<le> length src - length pat" by simp
    let ?d = "shift src pat i"
    have pos: "0 < ?d" using shift_pos assms le by simp
    have "loop src pat i = loop src pat (i + ?d)"
      using loop_skip [OF assms(1), of i] loop_skip_last [OF assms(1)] assms(2) le
      by (cases "i = length src - length pat") auto
    moreover have "loop src pat (i + ?d) = Some MOUTILS_SEARCH_ERR_PATNOTEXIST"
      using less.hyps [of "i + ?d"] pos le shift_le [OF assms(1) le] assms(2) by simp
    ultimately show ?thesis by simp
  qed
qed

lemma loop_correct:
  assumes "valid src pat"
  shows "loop src pat 0 = Some (search_spec src pat)"
proof (cases "\<exists>k. occurs src pat k")
  case True
  then obtain k where k: "occurs src pat k" "\<And>m. m < k \<Longrightarrow> \<not> occurs src pat m"
    using exists_least_iff [of "occurs src pat"] by blast
  show ?thesis using loop_finds [OF assms k, of 0] search_spec_found [OF k] by simp
next
  case False
  then have no: "\<not> occurs src pat k" for k by blast
  show ?thesis using loop_fails [OF assms no, of 0] search_spec_absent [OF no] by simp
qed

end

section \<open>The comparison loops\<close>

lemma cmpFrom_spec:
  assumes "i + length pat \<le> length src" and "k \<le> length pat"
  shows "\<exists>j. cmpFrom src i pat (length pat) k = Some j \<and> k \<le> j \<and> j \<le> length pat \<and>
    (\<forall>m. k \<le> m \<longrightarrow> m < j \<longrightarrow> src ! (i + m) = pat ! m) \<and>
    (j < length pat \<longrightarrow> src ! (i + j) \<noteq> pat ! j)"
  using assms(2)
proof (induction "length pat - k" arbitrary: k)
  case 0
  then show ?case by (auto simp: cmpFrom.simps [of src i pat _ k])
next
  case (Suc n)
  then have k: "k < length pat" by simp
  show ?case
  proof (cases "src ! (i + k) = pat ! k")
    case True
    have "n = length pat - Suc k" "Suc k \<le> length pat" using Suc.hyps(2) k by auto
    then obtain j where j: "cmpFrom src i pat (length pat) (Suc k) = Some j" "Suc k \<le> j"
      "j \<le> length pat" "\<forall>m. Suc k \<le> m \<longrightarrow> m < j \<longrightarrow> src ! (i + m) = pat ! m"
      "j < length pat \<longrightarrow> src ! (i + j) \<noteq> pat ! j"
      using Suc.hyps(1) by blast
    have "cmpFrom src i pat (length pat) k = Some j"
      using j(1) True k assms(1) by (simp add: cmpFrom.simps [of src i pat _ k])
    moreover have "\<forall>m. k \<le> m \<longrightarrow> m < j \<longrightarrow> src ! (i + m) = pat ! m"
      using j(4) True by (metis Suc_leI le_neq_implies_less)
    ultimately show ?thesis using j by (intro exI [of _ j]) simp
  next
    case False
    then show ?thesis using k assms(1) by (auto simp: cmpFrom.simps [of src i pat _ k])
  qed
qed

lemma cmpFrom_occurs:
  assumes "occurs src pat i"
  shows "cmpFrom src i pat (length pat) 0 = Some (length pat)"
proof -
  have len: "i + length pat \<le> length src" using assms by (simp add: occurs_nth)
  from cmpFrom_spec [OF len, of 0] obtain j where "cmpFrom src i pat (length pat) 0 = Some j"
    "j \<le> length pat" "j < length pat \<longrightarrow> src ! (i + j) \<noteq> pat ! j" by blast
  moreover have "\<not> j < length pat" using calculation(3) assms by (auto simp: occurs_nth)
  ultimately show ?thesis by simp
qed

lemma cmpFrom_mismatch:
  assumes "\<not> occurs src pat i" and "i \<le> length src - length pat" and "length pat \<le> length src"
  obtains j where "cmpFrom src i pat (length pat) 0 = Some j" and "j < length pat"
    and "\<And>m. m < j \<Longrightarrow> src ! (i + m) = pat ! m" and "src ! (i + j) \<noteq> pat ! j"
proof -
  have len: "i + length pat \<le> length src" using assms(2,3) by simp
  from cmpFrom_spec [OF len, of 0] obtain j where
    j: "cmpFrom src i pat (length pat) 0 = Some j" "j \<le> length pat"
    "\<And>m. m < j \<Longrightarrow> src ! (i + m) = pat ! m" "j < length pat \<longrightarrow> src ! (i + j) \<noteq> pat ! j"
    by auto
  moreover have "j < length pat"
    using assms j(2,3) by (cases "j = length pat") (auto simp: occurs_nth)
  ultimately show thesis using that by blast
qed


section \<open>Brute force\<close>

definition search_input :: "nat \<Rightarrow> byte list \<Rightarrow> byte list \<Rightarrow> bool" where
  "search_input maxPat src pat \<longleftrightarrow>
     0 < length pat \<and> length pat \<le> maxPat \<and> length pat \<le> length src \<and> length src < 2 ^ 31"

lemma search_inputD:
  assumes "search_input m src pat"
  shows "0 < length pat" "length pat \<le> m" "length pat \<le> length src" "length src < 2 ^ 31"
  using assms by (auto simp: search_input_def)

lemma bfLoop_unfold:
  assumes "search_input m src pat" and "i \<le> length src - length pat"
  shows "bfLoop src (length src) pat (length pat) i =
    (if occurs src pat i then Some (int i) else bfLoop src (length src) pat (length pat) (Suc i))"
proof -
  note b = search_inputD [OF assms(1)]
  have len: "i + length pat \<le> length src" "i + length pat < 2 ^ 32" "Suc i < 2 ^ 32" "i < 2 ^ 31"
    using assms(2) b by auto
  show ?thesis
  proof (cases "occurs src pat i")
    case True
    then show ?thesis using len
      by (simp add: bfLoop.simps [of src "length src" pat "length pat" i] cmpFrom_occurs)
  next
    case False
    then obtain j where "cmpFrom src i pat (length pat) 0 = Some j" "j < length pat"
      using cmpFrom_mismatch [OF False assms(2) b(3)] by metis
    with False len show ?thesis
      by (simp add: bfLoop.simps [of src "length src" pat "length pat" i])
  qed
qed

interpretation bf: total_skip_search "search_input m"
  "\<lambda>src pat. bfLoop src (length src) pat (length pat)" "\<lambda>src pat i. 1" for m
proof unfold_locales
  fix src pat :: "byte list" and i
  assume valid: "search_input m src pat"
  note b = search_inputD [OF valid]
  show "length pat \<le> length src" by (rule b(3))
  show "bfLoop src (length src) pat (length pat) i = Some (int i)" if "occurs src pat i"
    using bfLoop_unfold [OF valid, of i] that by (auto simp: occurs_def)
  show "bfLoop src (length src) pat (length pat) i = bfLoop src (length src) pat (length pat) (i + 1)"
    if "i < length src - length pat" "\<not> occurs src pat i"
    using bfLoop_unfold [OF valid, of i] that by simp
  show "bfLoop src (length src) pat (length pat) i = Some (- 12002)"
    if "length src - length pat < i" "i \<le> Suc (length src)"
  proof -
    have "i + length pat < 2 ^ 32" "\<not> i + length pat \<le> length src" using that b by auto
    then show ?thesis by (simp add: bfLoop.simps [of src "length src" pat "length pat" i])
  qed
  show "bfLoop src (length src) pat (length pat) (length src - length pat) =
    bfLoop src (length src) pat (length pat) (length src - length pat + 1)"
    if "\<not> occurs src pat (length src - length pat)"
    using bfLoop_unfold [OF valid, of "length src - length pat"] that by simp
qed simp_all

text \<open>
  Brute force: on any source shorter than 2 GB and any non-empty pattern no longer than it,
  the search returns, reads only inside both arrays, and its result is the offset of the first
  occurrence, or the not-found code when there is none.
\<close>

theorem moUtils_Search_BF_correct:
  assumes "search_input m src pat"
  shows "moUtils_Search_BF (Some src) (length src) (Some pat) (length pat) = Some (search_spec src pat)"
  using bf.loop_correct [OF assms] search_inputD [OF assms] by (auto simp: moUtils_Search_BF_def)

theorem moUtils_Search_BF_correct_witness:
  "search_input 2 [1, 2, 1, 3] [1, 3] \<and>
   moUtils_Search_BF (Some [1, 2, 1, 3]) 4 (Some [1, 3]) 2 = Some 2"
proof -
  have i: "search_input 2 [1, 2, 1, 3] [1, 3]" by (simp add: search_input_def)
  have "search_spec [1, 2, 1, 3 :: byte] [1, 3] = 2" by code_simp
  then show ?thesis using i moUtils_Search_BF_correct [OF i] by (simp add: eval_nat_numeral)
qed

section \<open>KMP tables\<close>

definition isBorder :: "byte list \<Rightarrow> nat \<Rightarrow> nat \<Rightarrow> bool" where
  "isBorder pat i b \<longleftrightarrow> (\<forall>k<b. pat ! k = pat ! (i - b + k))"

text \<open>The longest proper border of the first \<open>i\<close> bytes of the pattern.\<close>

definition border :: "byte list \<Rightarrow> nat \<Rightarrow> nat" where
  "border pat i = last (filter (isBorder pat i) [0..<i])"

lemma border_props:
  assumes "0 < i"
  shows "border pat i < i" "isBorder pat i (border pat i)"
    "border pat i < c \<Longrightarrow> c < i \<Longrightarrow> \<not> isBorder pat i c"
proof -
  let ?f = "filter (isBorder pat i) [0..<i]"
  have ne: "?f \<noteq> []"
    using assms by (auto simp: filter_empty_conv isBorder_def intro!: bexI [of _ 0])
  have "last ?f \<in> set ?f" using ne by (rule last_in_set)
  then show "border pat i < i" "isBorder pat i (border pat i)" by (auto simp: border_def)
  show "\<not> isBorder pat i c" if c: "border pat i < c" "c < i"
  proof
    assume "isBorder pat i c"
    then have "c \<in> set ?f" using c by simp
    then obtain n where n: "n < length ?f" "?f ! n = c" by (metis in_set_conv_nth)
    have "sorted ?f" by (simp add: sorted_wrt_filter)
    then have "c \<le> last ?f"
      using n ne by (auto simp: last_conv_nth intro!: sorted_nth_mono)
    then show False using c(1) by (simp add: border_def)
  qed
qed

lemma pmtCmp_spec:
  assumes "j \<le> i" and "i \<le> length pat" and "k \<le> j"
  shows "\<exists>k'. pmtCmp pat i j k = Some k' \<and>
    (k' \<ge> j \<longleftrightarrow> (\<forall>m. k \<le> m \<longrightarrow> m < j \<longrightarrow> pat ! m = pat ! (i - j + m)))"
  using assms(3)
proof (induction "j - k" arbitrary: k)
  case 0
  then have "k = j" by simp
  then show ?case by (simp add: pmtCmp.simps [of pat i j j])
next
  case (Suc n)
  then have k: "k < j" "n = j - Suc k" "Suc k \<le> j" by auto
  then have rds: "rd pat k = Some (pat ! k)" "rd pat (i - j + k) = Some (pat ! (i - j + k))"
    using assms(1,2) by auto
  show ?case
  proof (cases "pat ! k = pat ! (i - j + k)")
    case True
    have "(\<forall>m. k \<le> m \<longrightarrow> m < j \<longrightarrow> pat ! m = pat ! (i - j + m)) \<longleftrightarrow>
      (\<forall>m. Suc k \<le> m \<longrightarrow> m < j \<longrightarrow> pat ! m = pat ! (i - j + m))"
      using True by (metis Suc_leD le_antisym not_less_eq_eq)
    then show ?thesis using Suc.hyps(1) [OF k(2,3)] True k(1) rds
      by (simp add: pmtCmp.simps [of pat i j k])
  next
    case False
    then show ?thesis using k rds by (auto simp: pmtCmp.simps [of pat i j k])
  qed
qed

lemma pmtValue_eq:
  assumes "i \<le> length pat"
  shows "pmtValue pat i = Some (if i = 0 then 0 else Suc (border pat i))"
proof -
  have "foldM (\<lambda>j pmValue. do { k \<leftarrow> pmtCmp pat i j 0; Some (if k \<ge> j then j + 1 else pmValue) }) [0..<n] 0
    = Some (if n = 0 then 0 else Suc (last (filter (isBorder pat i) [0..<n])))" if "n \<le> i" for n
    using that
  proof (induction n)
    case 0
    then show ?case by simp
  next
    case (Suc n)
    then obtain k where k: "pmtCmp pat i n 0 = Some k" "k \<ge> n \<longleftrightarrow> isBorder pat i n"
      using pmtCmp_spec [of n i pat 0] assms by (auto simp: isBorder_def)
    show ?case using Suc k by (auto simp: isBorder_def)
  qed
  from this [of i] show ?thesis by (simp add: pmtValue_def border_def)
qed

text \<open>The table \<open>moUtils_Search_KMP_GenNextArray\<close> computes, entry by entry.\<close>

definition kmpNext :: "byte list \<Rightarrow> byte list" where
  "kmpNext pat = map (\<lambda>i. word_of_nat (if i = 0 then 1 else i - border pat i)) [0..<length pat]"

lemma GenNextArray_eq:
  assumes "length pat \<le> length buf"
  shows "moUtils_Search_KMP_GenNextArray True (Some buf) (Some pat) (length pat) =
    Some (0, Some (kmpNext pat @ drop (length pat) buf))"
proof -
  let ?pm = "\<lambda>i. if i = 0 then 0 else Suc (border pat i)"
  let ?pmt = "map (\<lambda>i. word_of_nat (?pm i)) [0..<length pat] :: byte list"
  have pmt: "genPMT (replicate (length pat) 0) pat (length pat) = Some ?pmt"
    unfolding genPMT_def
    using foldM_option_fill [of "length pat" "replicate (length pat) 0" "pmtValue pat" ?pm
        "\<lambda>i v. word_of_nat v"] pmtValue_eq [of _ pat] by simp
  have next': "genKmpNext buf ?pmt (length pat) =
    Some (map (\<lambda>i. word_of_nat (i + 1) - word_of_nat (?pm i)) [0..<length pat] @ drop (length pat) buf)"
    unfolding genKmpNext_def
    using foldM_option_fill [of "length pat" buf "rd ?pmt" "\<lambda>i. word_of_nat (?pm i)"
        "\<lambda>i p. word_of_nat (i + 1) - p"] assms by simp
  have "word_of_nat (i + 1) - word_of_nat (?pm i) =
    (word_of_nat (if i = 0 then 1 else i - border pat i) :: byte)" for i
    using border_props(1) [of i pat] by (cases i) (auto simp: of_nat_diff)
  then have "map (\<lambda>i. word_of_nat (i + 1) - word_of_nat (?pm i)) [0..<length pat] = kmpNext pat"
    by (simp add: kmpNext_def)
  then show ?thesis using pmt next' by (simp add: moUtils_Search_KMP_GenNextArray_def)
qed

text \<open>The shift KMP makes after a mismatch at index \<open>j\<close> of the pattern.\<close>

definition kmpShift :: "byte list \<Rightarrow> byte list \<Rightarrow> nat \<Rightarrow> nat" where
  "kmpShift src pat i =
     (case cmpFrom src i pat (length pat) 0 of
        Some j \<Rightarrow> if j = 0 then 1 else j - border pat j | None \<Rightarrow> 1)"

lemma kmpShift_safe:
  assumes "\<not> occurs src pat i" and "i \<le> length src - length pat" and "length pat \<le> length src"
    and "i < k" and "k < i + kmpShift src pat i"
  shows "\<not> occurs src pat k"
proof
  assume occ: "occurs src pat k"
  obtain j where j: "cmpFrom src i pat (length pat) 0 = Some j" "j < length pat"
    "\<And>m. m < j \<Longrightarrow> src ! (i + m) = pat ! m" using cmpFrom_mismatch [OF assms(1-3)] by metis
  have j0: "0 < j" and sh: "k - i < j - border pat j"
    using assms(4,5) j(1) by (auto simp: kmpShift_def split: if_splits)
  let ?c = "j - (k - i)"
  have "isBorder pat j ?c"
    unfolding isBorder_def
  proof (intro allI impI)
    fix m assume m: "m < ?c"
    have "pat ! m = src ! (k + m)" using occ m j(2) by (simp add: occurs_nth)
    also have "\<dots> = src ! (i + ((k - i) + m))" using assms(4) by simp
    also have "\<dots> = pat ! ((k - i) + m)" using j(3) m by simp
    finally show "pat ! m = pat ! (j - ?c + m)" using sh by simp
  qed
  moreover have "border pat j < ?c" "?c < j" using sh assms(4) j0 by auto
  ultimately show False using border_props(3) [OF j0] by blast
qed

lemma kmpLoop_unfold:
  assumes "search_input 256 src pat" and "i \<le> length src - length pat"
  shows "kmpLoop src (length src) pat (length pat) (kmpNext pat @ rest) i =
    (if occurs src pat i then Some (int i)
     else kmpLoop src (length src) pat (length pat) (kmpNext pat @ rest) (i + kmpShift src pat i))"
    "\<not> occurs src pat i \<Longrightarrow> 0 < kmpShift src pat i \<and> kmpShift src pat i \<le> length pat"
proof -
  note b = search_inputD [OF assms(1)]
  have small: "i < 2 ^ 31" "i + length pat \<le> length src" using assms(2) b by auto
  have miss: "0 < kmpShift src pat i \<and> kmpShift src pat i \<le> length pat \<and>
    kmpLoop src (length src) pat (length pat) (kmpNext pat @ rest) i =
    kmpLoop src (length src) pat (length pat) (kmpNext pat @ rest) (i + kmpShift src pat i)"
    if no: "\<not> occurs src pat i"
  proof -
    obtain j where j: "cmpFrom src i pat (length pat) 0 = Some j" "j < length pat"
      using cmpFrom_mismatch [OF no assms(2) b(3)] by metis
    have sh: "0 < kmpShift src pat i \<and> kmpShift src pat i \<le> length pat \<and> kmpShift src pat i < 256"
      using j b border_props(1) [of j pat] by (auto simp: kmpShift_def)
    have "rd (kmpNext pat @ rest) j = Some (word_of_nat (kmpShift src pat i))"
      using j by (simp add: kmpNext_def nth_append kmpShift_def)
    moreover have "unat (word_of_nat (kmpShift src pat i) :: byte) = kmpShift src pat i"
      using sh by (simp add: unat_of_nat take_bit_nat_eq_self)
    moreover have "wrap32 (i + kmpShift src pat i) = i + kmpShift src pat i"
      using sh small b by simp
    ultimately show ?thesis using j assms(2) sh
      by (simp add: kmpLoop.simps [of src "length src" pat "length pat" _ i])
  qed
  show "kmpLoop src (length src) pat (length pat) (kmpNext pat @ rest) i =
    (if occurs src pat i then Some (int i)
     else kmpLoop src (length src) pat (length pat) (kmpNext pat @ rest) (i + kmpShift src pat i))"
    using miss assms(2) small
    by (simp add: kmpLoop.simps [of src "length src" pat "length pat" _ i] cmpFrom_occurs)
  show "\<not> occurs src pat i \<Longrightarrow> 0 < kmpShift src pat i \<and> kmpShift src pat i \<le> length pat"
    using miss by blast
qed

interpretation kmp: total_skip_search "search_input 256"
  "\<lambda>src pat. kmpLoop src (length src) pat (length pat) (kmpNext pat @ rest)" kmpShift for rest
proof unfold_locales
  fix src pat :: "byte list" and i k
  assume valid: "search_input 256 src pat"
  note b = search_inputD [OF valid]
  note unfold = kmpLoop_unfold [OF valid]
  show "length pat \<le> length src" by (rule b(3))
  show "kmpLoop src (length src) pat (length pat) (kmpNext pat @ rest) i = Some (int i)"
    if "occurs src pat i" using unfold(1) [of i] that by (auto simp: occurs_def)
  show "kmpLoop src (length src) pat (length pat) (kmpNext pat @ rest) i =
    kmpLoop src (length src) pat (length pat) (kmpNext pat @ rest) (i + kmpShift src pat i)"
    if "i < length src - length pat" "\<not> occurs src pat i" using unfold(1) [of i] that by simp
  show "0 < kmpShift src pat i" if "i \<le> length src - length pat" "\<not> occurs src pat i"
    using unfold(2) that by blast
  show "\<not> occurs src pat k"
    if "i \<le> length src - length pat" "\<not> occurs src pat i" "i < k" "k < i + kmpShift src pat i"
    using kmpShift_safe that b(3) by blast
  show "kmpLoop src (length src) pat (length pat) (kmpNext pat @ rest) i = Some (- 12002)"
    if "length src - length pat < i"
    using that by (simp add: kmpLoop.simps [of src "length src" pat "length pat" _ i])
  show "i + kmpShift src pat i \<le> Suc (length src)"
    if "i \<le> length src - length pat" "\<not> occurs src pat i"
    using unfold(2) [OF that] that b by auto
  show "kmpLoop src (length src) pat (length pat) (kmpNext pat @ rest) (length src - length pat) =
    kmpLoop src (length src) pat (length pat) (kmpNext pat @ rest)
      (length src - length pat + kmpShift src pat (length src - length pat))"
    if "\<not> occurs src pat (length src - length pat)"
    using unfold(1) [of "length src - length pat"] that by simp
qed

text \<open>
  C1. Knuth-Morris-Pratt: for every pattern of at most 256 bytes the table generator fills the
  caller's buffer, and the search with that table returns the offset of the first occurrence or
  the not-found code, reading only inside the arrays.
\<close>

theorem moUtils_Search_KMP_correct:
  assumes "search_input 256 src pat" and "length pat \<le> length buf"
  shows "\<exists>next. moUtils_Search_KMP_GenNextArray True (Some buf) (Some pat) (length pat) =
      Some (MOUTILS_SEARCH_ERR_OK, Some next) \<and>
    moUtils_Search_KMP (Some src) (length src) (Some pat) (length pat) (Some next) =
      Some (search_spec src pat)"
  using kmp.loop_correct [OF assms(1)] GenNextArray_eq [OF assms(2)] search_inputD [OF assms(1)]
  by (auto simp: moUtils_Search_KMP_def)


theorem moUtils_Search_KMP_correct_witness:
  "search_input 256 [1, 1, 2] [1, 2] \<and>
   (\<exists>next. moUtils_Search_KMP_GenNextArray True (Some [0, 0]) (Some [1, 2]) 2 = Some (0, Some next) \<and>
     moUtils_Search_KMP (Some [1, 1, 2]) 3 (Some [1, 2]) 2 (Some next) = Some 1)"
proof -
  have i: "search_input 256 [1, 1, 2] [1, 2]" by (simp add: search_input_def)
  have l: "length [1, 2 :: byte] \<le> length [0, 0 :: byte]" by simp
  have "search_spec [1, 1, 2 :: byte] [1, 2] = 1" by code_simp
  then show ?thesis using i moUtils_Search_KMP_correct [OF i l] by (simp add: eval_nat_numeral)
qed

section \<open>Tables indexed by a byte\<close>

text \<open>The value left in cell \<open>c\<close> by a loop that writes \<open>f j\<close> to cell \<open>pat[j]\<close>, from default \<open>d\<close>.\<close>

definition lastOcc :: "(nat \<Rightarrow> nat) \<Rightarrow> nat \<Rightarrow> byte list \<Rightarrow> nat \<Rightarrow> nat \<Rightarrow> nat" where
  "lastOcc f d pat n c = fold (\<lambda>j v. if unat (pat ! j) = c then f j else v) [0..<n] d"

lemma lastOcc_cases:
  obtains "lastOcc f d pat n c = d" "\<And>j. j < n \<Longrightarrow> unat (pat ! j) \<noteq> c"
  | j where "lastOcc f d pat n c = f j" "j < n" "unat (pat ! j) = c"
      "\<And>m. j < m \<Longrightarrow> m < n \<Longrightarrow> unat (pat ! m) \<noteq> c"
proof -
  have "(lastOcc f d pat n c = d \<and> (\<forall>j<n. unat (pat ! j) \<noteq> c)) \<or>
    (\<exists>j<n. lastOcc f d pat n c = f j \<and> unat (pat ! j) = c \<and> (\<forall>m. j < m \<longrightarrow> m < n \<longrightarrow> unat (pat ! m) \<noteq> c))"
  proof (induction n)
    case 0
    then show ?case by (simp add: lastOcc_def)
  next
    case (Suc n)
    then show ?case
      by (cases "unat (pat ! n) = c") (auto simp: lastOcc_def less_Suc_eq)
  qed
  then show thesis using that by blast
qed

lemma foldM_byte_table:
  assumes "n \<le> length pat"
  shows "foldM (\<lambda>j tb. do { c \<leftarrow> rd pat j; wr tb (unat c) (word_of_nat (f j)) }) [0..<n]
      (map (\<lambda>c. word_of_nat d) [0..<256] @ rest) =
    Some (map (\<lambda>c. word_of_nat (lastOcc f d pat n c)) [0..<256] @ (rest :: byte list))"
  using assms
proof (induction n)
  case 0
  then show ?case by (simp add: lastOcc_def)
next
  case (Suc n)
  let ?t = "\<lambda>n. map (\<lambda>c. word_of_nat (lastOcc f d pat n c)) [0..<256] :: byte list"
  have lt: "unat (pat ! n) < 256" using unsigned_less [of "pat ! n"] by simp
  have upd: "(?t n)[unat (pat ! n) := word_of_nat (f n)] = ?t (Suc n)"
    by (rule nth_equalityI) (auto simp: nth_list_update lastOcc_def)
  have "(?t n @ rest)[unat (pat ! n) := word_of_nat (f n)] = ?t (Suc n) @ rest"
    using lt by (simp only: list_update_append length_map length_upt upd) simp
  then show ?case using Suc lt by simp
qed

section \<open>Boyer-Moore: the tables\<close>

definition bmBctVal :: "byte list \<Rightarrow> nat \<Rightarrow> nat" where
  "bmBctVal pat = lastOcc (\<lambda>j. length pat - j - 1) (length pat) pat (length pat)"

definition bmBct :: "byte list \<Rightarrow> byte list" where
  "bmBct pat = map (\<lambda>c. word_of_nat (bmBctVal pat c)) [0..<256]"

lemma GenBCT_eq:
  assumes "256 \<le> length buf"
  shows "moUtils_Search_BM_GenBCT (Some buf) (Some pat) (length pat) =
    Some (0, Some (bmBct pat @ drop 256 buf))"
proof -
  have fill: "foldM (\<lambda>i b. wr b i v) [0..<256] b = Some (map (\<lambda>c. v) [0..<256] @ drop 256 b)"
    if "256 \<le> length b" for b :: "byte list" and v
    using foldM_wr_fill [OF that, of "\<lambda>_. v"] by simp
  show ?thesis
    using assms foldM_byte_table [of "length pat" pat "\<lambda>j. length pat - j - 1" "length pat" "drop 256 buf"]
    by (simp add: moUtils_Search_BM_GenBCT_def MOUTILS_SEARCH_BM_BCT_LEN_def fill bmBct_def bmBctVal_def
        del: upt_rec_numeral)
qed

lemma gstCmp_spec:
  assumes "a + len \<le> length pat" and "b + len \<le> length pat" and "k \<le> len"
  shows "gstCmp pat a b len k = Some (\<forall>m. k \<le> m \<longrightarrow> m < len \<longrightarrow> pat ! (a + m) = pat ! (b + m))"
  using assms(3)
proof (induction "len - k" arbitrary: k)
  case 0
  then have "k = len" by simp
  then show ?case by (simp add: gstCmp.simps [of pat a b len len])
next
  case (Suc n)
  then have k: "k < len" "n = len - Suc k" "Suc k \<le> len" by auto
  have "(\<forall>m. k \<le> m \<longrightarrow> m < len \<longrightarrow> pat ! (a + m) = pat ! (b + m)) \<longleftrightarrow>
    pat ! (a + k) = pat ! (b + k) \<and> (\<forall>m. Suc k \<le> m \<longrightarrow> m < len \<longrightarrow> pat ! (a + m) = pat ! (b + m))"
    using k(1) by (metis Suc_leD le_antisym le_refl not_less_eq_eq)
  then show ?case using Suc.hyps(1) [OF k(2,3)] k(1) assms(1,2)
    by (simp add: gstCmp.simps [of pat a b len k])
qed

definition matchAt :: "byte list \<Rightarrow> nat \<Rightarrow> nat \<Rightarrow> bool" where
  "matchAt pat i j \<longleftrightarrow> (\<forall>m<length pat - i. pat ! (j + m) = pat ! (i + m))"

lemma gstPrev_spec:
  assumes "i \<le> length pat" and "n \<le> i"
  shows "(gstPrev pat i (length pat - i) n = Some None \<and> (\<forall>j<n. \<not> matchAt pat i j)) \<or>
    (\<exists>j<n. gstPrev pat i (length pat - i) n = Some (Some (i - j)) \<and> matchAt pat i j \<and>
       (\<forall>j'. j < j' \<longrightarrow> j' < n \<longrightarrow> \<not> matchAt pat i j'))"
  using assms(2)
proof (induction n)
  case 0
  then show ?case by simp
next
  case (Suc n)
  then have cmp: "gstCmp pat n i (length pat - i) 0 = Some (matchAt pat i n)"
    using gstCmp_spec [of n "length pat - i" pat i 0] assms(1) by (simp add: matchAt_def)
  show ?case
  proof (cases "matchAt pat i n")
    case True
    then show ?thesis using cmp by (intro disjI2 exI [of _ n]) auto
  next
    case False
    then show ?thesis using cmp Suc by (auto simp: less_Suc_eq)
  qed
qed

lemma gstHead_spec:
  shows "(gstHead pat (length pat) t = Some None \<and>
      (\<forall>u. t < u \<longrightarrow> u < length pat \<longrightarrow> \<not> matchAt pat u 0)) \<or>
    (\<exists>u. t < u \<and> u < length pat \<and> gstHead pat (length pat) t = Some (Some u) \<and> matchAt pat u 0 \<and>
       (\<forall>v. t < v \<longrightarrow> v < u \<longrightarrow> \<not> matchAt pat v 0))"
proof (induction "length pat - t" arbitrary: t rule: less_induct)
  case less
  show ?case
  proof (cases "t + 1 < length pat")
    case False
    then show ?thesis by (auto simp: gstHead.simps [of pat _ t])
  next
    case True
    then have cmp: "gstCmp pat 0 (t + 1) (length pat - (t + 1)) 0 = Some (matchAt pat (t + 1) 0)"
      using gstCmp_spec [of 0 "length pat - (t + 1)" pat "t + 1" 0] by (simp add: matchAt_def)
    show ?thesis
    proof (cases "matchAt pat (t + 1) 0")
      case True
      then show ?thesis using cmp \<open>t + 1 < length pat\<close>
        by (intro disjI2 exI [of _ "t + 1"]) (auto simp: gstHead.simps [of pat _ t])
    next
      case False
      then have eq: "gstHead pat (length pat) t = gstHead pat (length pat) (t + 1)"
        using cmp \<open>t + 1 < length pat\<close> by (simp add: gstHead.simps [of pat _ t])
      have ext: "\<not> matchAt pat u 0" if "t < u" "t + 1 < u \<Longrightarrow> \<not> matchAt pat u 0" for u
        using that False by (cases "u = t + 1") auto
      have lt: "length pat - (t + 1) < length pat - t" using \<open>t + 1 < length pat\<close> by simp
      from less [OF lt] show ?thesis
      proof (elim disjE exE conjE)
        assume "gstHead pat (length pat) (t + 1) = Some None"
          "\<forall>u. t + 1 < u \<longrightarrow> u < length pat \<longrightarrow> \<not> matchAt pat u 0"
        then show ?thesis using eq ext by auto
      next
        fix u assume "t + 1 < u" "u < length pat" "gstHead pat (length pat) (t + 1) = Some (Some u)"
          "matchAt pat u 0" "\<forall>v. t + 1 < v \<longrightarrow> v < u \<longrightarrow> \<not> matchAt pat v 0"
        then show ?thesis using eq ext by (intro disjI2 exI [of _ u]) auto
      qed
    qed
  qed
qed

text \<open>A shift \<open>s\<close> keeps the matched suffix that starts at \<open>i\<close>.\<close>

definition keepsSuffix :: "byte list \<Rightarrow> nat \<Rightarrow> nat \<Rightarrow> bool" where
  "keepsSuffix pat i s \<longleftrightarrow> (\<forall>m. i \<le> m \<longrightarrow> s \<le> m \<longrightarrow> m < length pat \<longrightarrow> pat ! (m - s) = pat ! m)"

lemma keepsSuffix_match:
  assumes "keepsSuffix pat i s" and "s \<le> i"
  shows "matchAt pat i (i - s)"
  unfolding matchAt_def
proof (intro allI impI)
  fix m assume "m < length pat - i"
  then have "pat ! (i + m - s) = pat ! (i + m)" using assms by (simp add: keepsSuffix_def)
  moreover have "i + m - s = i - s + m" using assms(2) by simp
  ultimately show "pat ! (i - s + m) = pat ! (i + m)" by simp
qed

lemma keepsSuffix_head:
  assumes "keepsSuffix pat i s" and "i \<le> s"
  shows "matchAt pat s 0"
  unfolding matchAt_def
proof (intro allI impI)
  fix m assume m: "m < length pat - s"
  have "pat ! (s + m - s) = pat ! (s + m)"
    using assms m unfolding keepsSuffix_def by (metis add.commute le_add1 le_trans less_diff_conv)
  then show "pat ! (0 + m) = pat ! (s + m)" by simp
qed

lemma gstValue_spec:
  assumes "i < length pat"
  shows "\<exists>d. gstValue pat (length pat) i = Some d \<and> 0 < d \<and> d \<le> length pat \<and>
    (\<forall>s. 0 < s \<longrightarrow> s < d \<longrightarrow> \<not> keepsSuffix pat i s)"
proof -
  have le: "i \<le> length pat" "i \<le> i" using assms by auto
  consider j where "j < i" "gstPrev pat i (length pat - i) i = Some (Some (i - j))"
      "\<forall>j'. j < j' \<longrightarrow> j' < i \<longrightarrow> \<not> matchAt pat i j'"
    | "gstPrev pat i (length pat - i) i = Some None" "\<forall>j<i. \<not> matchAt pat i j"
    using gstPrev_spec [OF le] by blast
  then show ?thesis
  proof cases
    case 1
    have "\<not> keepsSuffix pat i s" if "0 < s" "s < i - j" for s
    proof -
      have "s \<le> i" "j < i - s" "i - s < i" using that 1(1) by auto
      then show ?thesis using keepsSuffix_match [of pat i s] 1(3) by blast
    qed
    then show ?thesis using 1 assms by (intro exI [of _ "i - j"]) (auto simp: gstValue_def)
  next
    case 2
    have small: "\<not> keepsSuffix pat i s" if "0 < s" "s \<le> i" for s
      using keepsSuffix_match [of pat i s] 2(2) that by auto
    consider u where "i < u" "u < length pat" "gstHead pat (length pat) i = Some (Some u)"
        "\<forall>v. i < v \<longrightarrow> v < u \<longrightarrow> \<not> matchAt pat v 0"
      | "gstHead pat (length pat) i = Some None"
        "\<forall>u. i < u \<longrightarrow> u < length pat \<longrightarrow> \<not> matchAt pat u 0"
      using gstHead_spec [of pat i] by blast
    then show ?thesis
    proof cases
      case 1
      have "\<not> keepsSuffix pat i s" if "0 < s" "s < u" for s
        using small [of s] keepsSuffix_head [of pat i s] 1(4) that by (cases "s \<le> i") auto
      then show ?thesis using 1 2(1) by (intro exI [of _ u]) (auto simp: gstValue_def)
    next
      case no: 2
      have "\<not> keepsSuffix pat i s" if "0 < s" "s < length pat" for s
        using small [of s] keepsSuffix_head [of pat i s] no(2) that by (cases "s \<le> i") auto
      then show ?thesis using no 2(1) assms by (intro exI [of _ "length pat"]) (auto simp: gstValue_def)
    qed
  qed
qed

definition bmGstVal :: "byte list \<Rightarrow> nat \<Rightarrow> nat" where
  "bmGstVal pat i = (case gstValue pat (length pat) i of Some d \<Rightarrow> d | None \<Rightarrow> 0)"

definition bmGst :: "byte list \<Rightarrow> byte list" where
  "bmGst pat = map (\<lambda>i. word_of_nat (bmGstVal pat i)) [0..<length pat]"

lemma GenGST_eq:
  assumes "length pat \<le> length buf"
  shows "moUtils_Search_BM_GenGST (Some buf) (Some pat) (length pat) =
    Some (0, Some (bmGst pat @ drop (length pat) buf))"
proof -
  have "gstValue pat (length pat) i = Some (bmGstVal pat i)" if "i < length pat" for i
    using gstValue_spec [OF that] by (auto simp: bmGstVal_def)
  then show ?thesis
    using foldM_option_fill_rev [OF assms, of "gstValue pat (length pat)" "bmGstVal pat"
        "\<lambda>i d. word_of_nat d"]
    by (simp add: moUtils_Search_BM_GenGST_def bmGst_def)
qed


section \<open>Boyer-Moore: the search\<close>

lemma bmCmp_spec:
  assumes "i + length pat \<le> length src" and "length src < 2 ^ 31" and "n \<le> length pat"
  shows "(bmCmp src i pat n = Some None \<and> (\<forall>m<n. src ! (i + m) = pat ! m)) \<or>
    (\<exists>j<n. bmCmp src i pat n = Some (Some j) \<and> src ! (i + j) \<noteq> pat ! j \<and>
       (\<forall>m. j < m \<longrightarrow> m < n \<longrightarrow> src ! (i + m) = pat ! m))"
  using assms(3)
proof (induction n)
  case 0
  then show ?case by simp
next
  case (Suc n)
  then have rds: "rd pat n = Some (pat ! n)" "rd src (wrap32 (i + n)) = Some (src ! (i + n))"
    using assms(1,2) by auto
  show ?case
  proof (cases "src ! (i + n) = pat ! n")
    case True
    then show ?thesis using rds Suc by (auto simp: less_Suc_eq)
  next
    case False
    then show ?thesis using rds by (intro disjI2 exI [of _ n]) auto
  qed
qed

definition bmShift :: "byte list \<Rightarrow> byte list \<Rightarrow> nat \<Rightarrow> nat" where
  "bmShift src pat i =
     (case bmCmp src i pat (length pat) of
        Some (Some j) \<Rightarrow> if j = length pat - 1 then bmBctVal pat (unat (src ! (i + j)))
                         else bmGstVal pat (j + 1)
      | _ \<Rightarrow> 1)"

lemma bmCmp_occurs:
  assumes "occurs src pat i" and "length src < 2 ^ 31"
  shows "bmCmp src i pat (length pat) = Some None"
  using bmCmp_spec [of i pat src "length pat"] assms by (auto simp: occurs_nth)

lemma bmCmp_mismatch:
  assumes "\<not> occurs src pat i" and "search_input 255 src pat" and "i \<le> length src - length pat"
  obtains j where "bmCmp src i pat (length pat) = Some (Some j)" "j < length pat"
    "src ! (i + j) \<noteq> pat ! j" "\<And>m. j < m \<Longrightarrow> m < length pat \<Longrightarrow> src ! (i + m) = pat ! m"
proof -
  have len: "i + length pat \<le> length src" "length src < 2 ^ 31"
    using assms(2,3) by (auto simp: search_input_def)
  then have "\<not> (\<forall>m<length pat. src ! (i + m) = pat ! m)" using assms(1) by (simp add: occurs_nth)
  then show thesis using bmCmp_spec [OF len, of "length pat"] that by blast
qed

lemma bmGstVal_props:
  assumes "i < length pat"
  shows "0 < bmGstVal pat i" "bmGstVal pat i \<le> length pat"
    "0 < s \<Longrightarrow> s < bmGstVal pat i \<Longrightarrow> \<not> keepsSuffix pat i s"
  using gstValue_spec [OF assms] by (auto simp: bmGstVal_def)

lemma bmShift_bounds:
  assumes "\<not> occurs src pat i" and "search_input 255 src pat" and "i \<le> length src - length pat"
  shows "0 < bmShift src pat i \<and> bmShift src pat i \<le> length pat"
proof -
  obtain j where j: "bmCmp src i pat (length pat) = Some (Some j)" "j < length pat"
    "src ! (i + j) \<noteq> pat ! j" using bmCmp_mismatch [OF assms] by metis
  show ?thesis
  proof (cases "j = length pat - 1")
    case False
    then show ?thesis using j bmGstVal_props(1,2) [of "j + 1" pat] by (simp add: bmShift_def)
  next
    case True
    let ?c = "unat (src ! (i + j))"
    have sh: "bmShift src pat i = bmBctVal pat ?c" using j(1) True by (simp add: bmShift_def)
    show ?thesis
    proof (cases rule: lastOcc_cases [of "\<lambda>j. length pat - j - 1" "length pat" pat "length pat" ?c])
      case 1
      then show ?thesis using sh assms(2) by (simp add: bmBctVal_def search_input_def)
    next
      case (2 m)
      then have "m \<noteq> j" using j(3) by (metis word_unat_eq_iff)
      then have "m < length pat - 1" using 2(2) True by simp
      then show ?thesis using sh 2(1) by (simp add: bmBctVal_def)
    qed
  qed
qed

lemma bmShift_safe:
  assumes "\<not> occurs src pat i" and "search_input 255 src pat" and "i \<le> length src - length pat"
    and "i < k" and "k < i + bmShift src pat i"
  shows "\<not> occurs src pat k"
proof
  assume "occurs src pat k"
  then have occ: "src ! (k + m) = pat ! m" if "m < length pat" for m using that by (simp add: occurs_nth)
  obtain j where j: "bmCmp src i pat (length pat) = Some (Some j)" "j < length pat"
    "src ! (i + j) \<noteq> pat ! j" "\<And>m. j < m \<Longrightarrow> m < length pat \<Longrightarrow> src ! (i + m) = pat ! m"
    using bmCmp_mismatch [OF assms(1-3)] by metis
  define s where "s = k - i"
  have s: "0 < s" "k = i + s" "s < bmShift src pat i" using assms(4,5) by (auto simp: s_def)
  have at: "src ! (i + m) = pat ! (m - s)" if "s \<le> m" "m < length pat" for m
    using occ [of "m - s"] s(2) that by simp
  show False
  proof (cases "j = length pat - 1")
    case False
    have "keepsSuffix pat (j + 1) s"
      unfolding keepsSuffix_def using j(4) at by (metis Suc_eq_plus1 Suc_le_lessD)
    moreover have "j + 1 < length pat" using False j(2) by simp
    ultimately show False using bmGstVal_props(3) [of "j + 1" pat s] s j(1) False
      by (simp add: bmShift_def)
  next
    case True
    let ?c = "unat (src ! (i + j))"
    have sh: "bmShift src pat i = bmBctVal pat ?c" using j(1) True by (simp add: bmShift_def)
    have lt: "s < length pat" using s(3) bmShift_bounds [OF assms(1-3)] by simp
    have c: "pat ! (length pat - 1 - s) = src ! (i + j)" using at [of j] True lt j(2) by simp
    show False
    proof (cases rule: lastOcc_cases [of "\<lambda>j. length pat - j - 1" "length pat" pat "length pat" ?c])
      case 1
      then show False using c lt by (metis diff_less_Suc less_imp_diff_less diff_Suc_1 j(2)
            diff_less gr_implies_not0 le_less_trans not_gr_zero zero_less_one diff_le_self)
    next
      case (2 m)
      have "length pat - 1 - s \<le> m"
        using 2(4) [of "length pat - 1 - s"] c j(2) by (metis diff_le_self diff_less leI
            le_less_trans less_nat_zero_code not_gr_zero zero_less_one)
      then show False using s(3) sh 2(1,2) lt by (simp add: bmBctVal_def)
    qed
  qed
qed

lemma bmLoop_unfold:
  assumes "search_input 255 src pat" and "i \<le> length src - length pat"
  shows "bmLoop src (length src) pat (length pat) (bmBct pat @ r1) (bmGst pat @ r2) i =
    (if occurs src pat i then Some (int i)
     else bmLoop src (length src) pat (length pat) (bmBct pat @ r1) (bmGst pat @ r2)
       (i + bmShift src pat i))"
proof -
  note b = search_inputD [OF assms(1)]
  note unf = bmLoop.simps [of src "length src" pat "length pat" _ _ i]
  have len: "i + length pat \<le> length src" "i < 2 ^ 31" using assms(2) b by auto
  show ?thesis
  proof (cases "occurs src pat i")
    case True
    then show ?thesis using bmCmp_occurs [OF True b(4)] assms(2) len by (simp add: unf)
  next
    case False
    obtain j where j: "bmCmp src i pat (length pat) = Some (Some j)" "j < length pat"
      using bmCmp_mismatch [OF False assms] by metis
    have bounds: "bmShift src pat i \<le> length pat" "bmShift src pat i < 256"
      using bmShift_bounds [OF False assms] b(2) by auto
    have "i + j < length src" using j(2) len by simp
    then have idx: "wrap32 (i + j) = i + j" using b(4) by simp
    have byte: "unat (src ! (i + j)) < 256" using unsigned_less [of "src ! (i + j)"] by simp
    have "(if j = length pat - 1
          then do { c \<leftarrow> rd src (wrap32 (i + j)); rd (bmBct pat @ r1) (unat c) }
          else rd (bmGst pat @ r2) (j + 1)) = Some (word_of_nat (bmShift src pat i))"
    proof (cases "j = length pat - 1")
      case True
      have "rd src (wrap32 (i + j)) = Some (src ! (i + j))"
        using \<open>i + j < length src\<close> by (simp add: idx)
      then show ?thesis using j(1) True byte by (simp add: bmBct_def nth_append bmShift_def)
    next
      case False
      then have "j + 1 < length pat" using j(2) by simp
      then show ?thesis using j False by (simp add: bmGst_def nth_append bmShift_def)
    qed
    moreover have "unat (word_of_nat (bmShift src pat i) :: byte) = bmShift src pat i"
      using bounds(2) by (simp add: unat_of_nat take_bit_nat_eq_self)
    moreover have "wrap32 (i + bmShift src pat i) = i + bmShift src pat i"
      using bounds len b by simp
    ultimately show ?thesis using j(1) assms(2) False by (simp add: unf)
  qed
qed

interpretation bm: total_skip_search "search_input 255"
  "\<lambda>src pat. bmLoop src (length src) pat (length pat) (bmBct pat @ r1) (bmGst pat @ r2)"
  bmShift for r1 r2
proof unfold_locales
  fix src pat :: "byte list" and i k
  let ?loop = "\<lambda>src pat. bmLoop src (length src) pat (length pat) (bmBct pat @ r1) (bmGst pat @ r2)"
  assume valid: "search_input 255 src pat"
  note b = search_inputD [OF valid]
  note unfold = bmLoop_unfold [OF valid]
  show "length pat \<le> length src" by (rule b(3))
  show "?loop src pat i = Some (int i)" if "occurs src pat i"
    using unfold [of i] that by (auto simp: occurs_def)
  show "?loop src pat i = ?loop src pat (i + bmShift src pat i)"
    if "i < length src - length pat" "\<not> occurs src pat i" using unfold [of i] that by simp
  show "0 < bmShift src pat i" if "i \<le> length src - length pat" "\<not> occurs src pat i"
    using bmShift_bounds [OF that(2) valid that(1)] by blast
  show "\<not> occurs src pat k"
    if "i \<le> length src - length pat" "\<not> occurs src pat i" "i < k" "k < i + bmShift src pat i"
    using bmShift_safe [OF that(2) valid that(1,3,4)] .
  show "?loop src pat i = Some (- 12002)" if "length src - length pat < i"
    using that by (simp add: bmLoop.simps [of src "length src" pat "length pat" _ _ i])
  show "i + bmShift src pat i \<le> Suc (length src)"
    if "i \<le> length src - length pat" "\<not> occurs src pat i"
    using bmShift_bounds [OF that(2) valid that(1)] that b by auto
  show "?loop src pat (length src - length pat) =
    ?loop src pat (length src - length pat + bmShift src pat (length src - length pat))"
    if "\<not> occurs src pat (length src - length pat)"
    using unfold [of "length src - length pat"] that by simp
qed

text \<open>
  C2. Boyer-Moore: for every pattern of at most 255 bytes both table generators fill the caller's
  buffers, and the search with these tables returns the offset of the first occurrence or the
  not-found code, reading only inside the arrays.
\<close>

theorem moUtils_Search_BM_correct:
  assumes "search_input 255 src pat" and "256 \<le> length bctBuf" and "length pat \<le> length gstBuf"
  shows "\<exists>bct gst. moUtils_Search_BM_GenBCT (Some bctBuf) (Some pat) (length pat) =
      Some (MOUTILS_SEARCH_ERR_OK, Some bct) \<and>
    moUtils_Search_BM_GenGST (Some gstBuf) (Some pat) (length pat) =
      Some (MOUTILS_SEARCH_ERR_OK, Some gst) \<and>
    moUtils_Search_BM (Some src) (length src) (Some pat) (length pat) (Some bct) (Some gst) =
      Some (search_spec src pat)"
  using bm.loop_correct [OF assms(1)] GenBCT_eq [OF assms(2)] GenGST_eq [OF assms(3)]
    search_inputD [OF assms(1)]
  by (auto simp: moUtils_Search_BM_def)

theorem moUtils_Search_BM_correct_witness:
  "search_input 255 [1, 1, 2] [1, 2] \<and>
   (\<exists>bct gst. moUtils_Search_BM_GenBCT (Some (replicate 256 0)) (Some [1, 2]) 2 = Some (0, Some bct) \<and>
     moUtils_Search_BM_GenGST (Some [0, 0]) (Some [1, 2]) 2 = Some (0, Some gst) \<and>
     moUtils_Search_BM (Some [1, 1, 2]) 3 (Some [1, 2]) 2 (Some bct) (Some gst) = Some 1)"
proof -
  have i: "search_input 255 [1, 1, 2] [1, 2]" by (simp add: search_input_def)
  have l: "256 \<le> length (replicate 256 (0 :: byte))" "length [1, 2 :: byte] \<le> length [0, 0 :: byte]"
    by simp_all
  have n: "length [1, 1, 2 :: byte] = 3" "length [1, 2 :: byte] = 2" by simp_all
  have "search_spec [1, 1, 2 :: byte] [1, 2] = 1" by code_simp
  then show ?thesis using i moUtils_Search_BM_correct [OF i l] unfolding n by (simp only: simp_thms)
qed

section \<open>Sunday\<close>

definition sundayShift :: "byte list \<Rightarrow> byte list \<Rightarrow> nat \<Rightarrow> nat" where
  "sundayShift src pat i =
     lastOcc (\<lambda>j. length pat - j) (length pat + 1) pat (length pat) (unat (src ! (i + length pat)))"

definition sundayNext :: "byte list \<Rightarrow> byte list" where
  "sundayNext pat =
     map (\<lambda>c. word_of_nat (lastOcc (\<lambda>j. length pat - j) (length pat + 1) pat (length pat) c)) [0..<256]"

lemma Sunday_GenNextTable_eq:
  assumes "256 \<le> length buf"
  shows "moUtils_Search_Sunday_GenNextTable (Some buf) (Some pat) (length pat) =
    Some (0, Some (sundayNext pat @ drop 256 buf))"
  using foldM_byte_table [of "length pat" pat "\<lambda>j. length pat - j" "length pat + 1" "drop 256 buf"]
    foldM_wr_fill [OF assms, of "\<lambda>_. word_of_nat (length pat + 1)"]
  by (simp add: moUtils_Search_Sunday_GenNextTable_def MOUTILS_SEARCH_SUNDAY_NEXTTABLE_LEN_def
      sundayNext_def del: upt_rec_numeral)

lemma sundayShift_bounds: "0 < sundayShift src pat i \<and> sundayShift src pat i \<le> Suc (length pat)"
  unfolding sundayShift_def
  by (rule lastOcc_cases [of "\<lambda>j. length pat - j" "length pat + 1" pat "length pat"
        "unat (src ! (i + length pat))"]) simp_all

lemma sundayShift_safe:
  assumes "i < k" and "k < i + sundayShift src pat i"
  shows "\<not> occurs src pat k"
proof
  assume occ: "occurs src pat k"
  define s where "s = k - i"
  have s: "0 < s" "k = i + s" "s < sundayShift src pat i" using assms by (auto simp: s_def)
  have le: "s \<le> length pat" using s(3) sundayShift_bounds [of src pat i] by simp
  let ?c = "unat (src ! (i + length pat))"
  have lt: "length pat - s < length pat" using s(1) le by simp
  then have "src ! (k + (length pat - s)) = pat ! (length pat - s)" using occ by (simp add: occurs_nth)
  moreover have "k + (length pat - s) = i + length pat" using s(2) le by simp
  ultimately have at: "unat (pat ! (length pat - s)) = ?c" by simp
  show False
  proof (cases rule: lastOcc_cases [of "\<lambda>j. length pat - j" "length pat + 1" pat "length pat" ?c])
    case 1
    then show False using at lt by auto
  next
    case (2 m)
    then have "length pat - s \<le> m" using at lt by (metis leI)
    then show False using s(3) 2(1,2) le by (simp add: sundayShift_def)
  qed
qed


lemma sundayCmp_match:
  assumes "i + length pat \<le> length src" and "length src < 2 ^ 31"
    and "\<forall>m. j \<le> m \<longrightarrow> m < length pat \<longrightarrow> src ! (i + m) = pat ! m"
  shows "sundayCmp src srcLen pat (length pat) tb b i j = Some (b, i)"
  using assms(3)
proof (induction "length pat - j" arbitrary: j)
  case 0
  then show ?case by (simp add: sundayCmp.simps [of _ _ _ _ _ _ i j])
next
  case (Suc n)
  then have "j < length pat" "n = length pat - Suc j" by auto
  then show ?case using Suc.hyps(1) [of "Suc j"] Suc.prems assms(1,2)
    by (simp add: sundayCmp.simps [of _ _ _ _ _ _ i j])
qed

lemma sundayCmp_jump:
  assumes "i + length pat < length src" and "length src < 2 ^ 31" and "length pat \<le> 254"
    and "j < length pat" and "src ! (i + j) \<noteq> pat ! j"
  shows "sundayCmp src (length src) pat (length pat) (sundayNext pat @ rest) b i j =
    Some (False, i + sundayShift src pat i)"
proof -
  let ?c = "unat (src ! (i + length pat))"
  have "?c < 256" using unsigned_less [of "src ! (i + length pat)"] by simp
  then have "rd (sundayNext pat @ rest) ?c = Some (word_of_nat (sundayShift src pat i))"
    by (simp add: sundayNext_def sundayShift_def nth_append)
  moreover have "unat (word_of_nat (sundayShift src pat i) :: byte) = sundayShift src pat i"
    using sundayShift_bounds [of src pat i] assms(3)
    by (simp add: unat_of_nat take_bit_nat_eq_self)
  moreover have "wrap32 (i + sundayShift src pat i) = i + sundayShift src pat i"
    using sundayShift_bounds [of src pat i] assms(1-3) by simp
  ultimately show ?thesis using assms by (simp add: sundayCmp.simps [of _ _ _ _ _ _ i j])
qed

lemma sundayCmp_mismatch:
  assumes "i + length pat < length src" and "length src < 2 ^ 31" and "length pat \<le> 254"
    and "j \<le> m" and "m < length pat" and "src ! (i + m) \<noteq> pat ! m"
  shows "sundayCmp src (length src) pat (length pat) (sundayNext pat @ rest) b i j =
    Some (False, i + sundayShift src pat i)"
  using assms(4)
proof (induction "m - j" arbitrary: j)
  case 0
  then show ?case using sundayCmp_jump [OF assms(1-3,5,6)] by simp
next
  case (Suc n)
  then have j: "j < m" "n = m - Suc j" by auto
  show ?case
  proof (cases "src ! (i + j) = pat ! j")
    case True
    have "wrap32 (i + j) = i + j" using j assms by simp
    then show ?thesis using Suc.hyps(1) [of "Suc j"] True j assms
      by (simp add: sundayCmp.simps [of _ _ _ _ _ _ i j])
  next
    case False
    then show ?thesis using sundayCmp_jump [OF assms(1-3) _ False] j assms(5) by simp
  qed
qed

text \<open>In the last window a mismatch that is not at the last index makes the loop read past \<open>src\<close>.\<close>

lemma sundayCmp_overread:
  assumes "length src = length pat" and "length src < 2 ^ 31" and "0 < i" and "i \<le> j"
    and "j < length pat"
  shows "sundayCmp src (length src) pat (length pat) tb b i j = None"
  using assms(3-5)
proof (induction "length pat - j" arbitrary: i j b)
  case 0
  then show ?case by simp
next
  case (Suc n)
  have small: "wrap32 (i + j) = i + j" "wrap32 (i + length pat) = i + length pat" "wrap32 (Suc i) = Suc i"
    using Suc.prems assms(1,2) by auto
  show ?case
  proof (cases "i + j < length src \<and> Suc j < length pat")
    case True
    then have "n = length pat - Suc j" using Suc.hyps(2) by simp
    then show ?thesis using Suc.hyps(1) [of "Suc j"] Suc.prems True small assms(1)
      by (simp add: sundayCmp.simps [of _ _ _ _ _ _ i j])
  next
    case False
    then have "rd src (wrap32 (i + j)) = None" using Suc.prems small assms(1) by auto
    then show ?thesis using Suc.prems by (simp add: sundayCmp.simps [of _ _ _ _ _ _ i j])
  qed
qed

lemma sundayLoop_unfold:
  assumes "search_input 254 src pat" and "i \<le> length src - length pat"
  shows "occurs src pat i \<Longrightarrow>
      sundayLoop src (length src) pat (length pat) tb i = Some (int i)"
    and "\<not> occurs src pat i \<Longrightarrow> i < length src - length pat \<Longrightarrow>
      sundayLoop src (length src) pat (length pat) (sundayNext pat @ rest) i =
      sundayLoop src (length src) pat (length pat) (sundayNext pat @ rest) (i + sundayShift src pat i)"
proof -
  note b = search_inputD [OF assms(1)]
  note unf = sundayLoop.simps [of src "length src" pat "length pat" _ i]
  have len: "i + length pat \<le> length src" "i < 2 ^ 31" using assms(2) b by auto
  show "sundayLoop src (length src) pat (length pat) tb i = Some (int i)" if "occurs src pat i"
    using sundayCmp_match [OF len(1) b(4), of 0] that assms(2) len by (simp add: unf occurs_nth)
  show "sundayLoop src (length src) pat (length pat) (sundayNext pat @ rest) i =
    sundayLoop src (length src) pat (length pat) (sundayNext pat @ rest) (i + sundayShift src pat i)"
    if no: "\<not> occurs src pat i" and lt: "i < length src - length pat"
  proof -
    obtain m where "m < length pat" "src ! (i + m) \<noteq> pat ! m" using no len by (auto simp: occurs_nth)
    then show ?thesis using sundayCmp_mismatch [of i pat src 0 m rest True] lt b
      by (simp add: unf)
  qed
qed

interpretation sunday: skip_search "search_input 254"
  "\<lambda>src pat. sundayLoop src (length src) pat (length pat) (sundayNext pat @ rest)" sundayShift for rest
proof unfold_locales
  fix src pat :: "byte list" and i k
  let ?loop = "\<lambda>src pat. sundayLoop src (length src) pat (length pat) (sundayNext pat @ rest)"
  assume valid: "search_input 254 src pat"
  note b = search_inputD [OF valid]
  note unfold = sundayLoop_unfold [OF valid]
  show "length pat \<le> length src" by (rule b(3))
  show "?loop src pat i = Some (int i)" if "occurs src pat i"
    using unfold(1) [of i] that by (auto simp: occurs_def)
  show "?loop src pat i = ?loop src pat (i + sundayShift src pat i)"
    if "i < length src - length pat" "\<not> occurs src pat i" using unfold(2) [of i] that by simp
  show "0 < sundayShift src pat i" using sundayShift_bounds by blast
  show "\<not> occurs src pat k" if "i < k" "k < i + sundayShift src pat i"
    using sundayShift_safe that by blast
qed

text \<open>
  Sunday, pattern present: for every pattern of at most 254 bytes the table generator fills the
  caller's 256-byte table, and when the pattern occurs the search with that table returns the
  offset of its first occurrence, reading only inside the arrays.
\<close>

theorem moUtils_Search_Sunday_finds:
  assumes "search_input 254 src pat" and "256 \<le> length buf" and "occurs src pat k"
  shows "\<exists>next. moUtils_Search_Sunday_GenNextTable (Some buf) (Some pat) (length pat) =
      Some (MOUTILS_SEARCH_ERR_OK, Some next) \<and>
    moUtils_Search_Sunday (Some src) (length src) (Some pat) (length pat) (Some next) =
      Some (search_spec src pat)"
proof -
  obtain k where k: "occurs src pat k" "\<And>m. m < k \<Longrightarrow> \<not> occurs src pat m"
    using exists_least_iff [of "occurs src pat"] assms(3) by blast
  show ?thesis
    using sunday.loop_finds [OF assms(1) k, of 0] search_spec_found [OF k]
      Sunday_GenNextTable_eq [OF assms(2)] search_inputD [OF assms(1)]
    by (auto simp: moUtils_Search_Sunday_def)
qed

theorem moUtils_Search_Sunday_finds_witness:
  "search_input 254 [1, 1, 2] [1, 2] \<and>
   (\<exists>next. moUtils_Search_Sunday_GenNextTable (Some (replicate 256 0)) (Some [1, 2]) 2 = Some (0, Some next) \<and>
     moUtils_Search_Sunday (Some [1, 1, 2]) 3 (Some [1, 2]) 2 (Some next) = Some 1)"
proof -
  have i: "search_input 254 [1, 1, 2] [1, 2]" by (simp add: search_input_def)
  have l: "256 \<le> length (replicate 256 (0 :: byte))" by (simp only: length_replicate)
  have o1: "occurs [1, 1, 2 :: byte] [1, 2] 1" by (simp add: occurs_def)
  have n: "length [1, 1, 2 :: byte] = 3" "length [1, 2 :: byte] = 2" by simp_all
  have "search_spec [1, 1, 2 :: byte] [1, 2] = 1" by code_simp
  then show ?thesis using i moUtils_Search_Sunday_finds [OF i l o1] unfolding n by (simp only: simp_thms)
qed

text \<open>
  Sunday, the out-of-bounds read: when source and pattern have the same length and differ
  before their last byte, the search has no defined result, whatever the table, because its inner
  loop goes on comparing with an incremented offset and reads past the end of the source.
\<close>

theorem moUtils_Search_Sunday_overread:
  assumes "length src = length pat" and "length src < 2 ^ 31"
    and "m + 1 < length pat" and "src ! m \<noteq> pat ! m"
  shows "moUtils_Search_Sunday (Some src) (length src) (Some pat) (length pat) (Some next) = None"
proof -
  have "sundayCmp src (length src) pat (length pat) next True 0 j = None" if "j \<le> m" for j
    using that
  proof (induction "m - j" arbitrary: j)
    case 0
    then have "j = m" by simp
    then show ?case
      using sundayCmp_overread [OF assms(1,2), of 1 "Suc m" "next" False] assms
      by (simp add: sundayCmp.simps [of _ _ _ _ _ _ 0 m])
  next
    case (Suc n)
    then have j: "j < m" "n = m - Suc j" by auto
    show ?case
      using Suc.hyps(1) [of "Suc j"] sundayCmp_overread [OF assms(1,2), of 1 "Suc j" "next" False] j assms
      by (simp add: sundayCmp.simps [of _ _ _ _ _ _ 0 j])
  qed
  from this [of 0] have "sundayLoop src (length src) pat (length pat) next 0 = None"
    using assms(1) by (simp add: sundayLoop.simps [of src _ pat _ _ 0])
  then show ?thesis using assms(1,3) by (auto simp: moUtils_Search_Sunday_def)
qed

theorem moUtils_Search_Sunday_overread_witness:
  "moUtils_Search_Sunday (Some [97, 98]) 2 (Some [120, 98]) 2 (Some (replicate 256 3)) = None"
proof -
  let ?s = "[97, 98] :: byte list" and ?p = "[120, 98] :: byte list"
  have h: "length ?s = length ?p" "length ?s < 2 ^ 31" "0 + 1 < length ?p" "?s ! 0 \<noteq> ?p ! 0"
    by simp_all
  have n: "length ?s = 2" "length ?p = 2" by simp_all
  show ?thesis using moUtils_Search_Sunday_overread [OF h] unfolding n .
qed

section \<open>KMP on patterns longer than 256 bytes\<close>

text \<open>A zero entry of the table at the mismatching index makes the search loop for ever.\<close>

definition kmpStuck :: "byte list \<Rightarrow> nat \<Rightarrow> byte list \<Rightarrow> nat \<Rightarrow> byte list \<Rightarrow> nat \<Rightarrow> bool" where
  "kmpStuck src srcLen pat patternLen next i \<longleftrightarrow>
     i \<le> srcLen - patternLen \<and> i < 2 ^ 32 \<and>
     (\<exists>j<patternLen. cmpFrom src i pat patternLen 0 = Some j \<and> rd next j = Some 0)"

lemma kmpLoop_stuck:
  assumes "kmpStuck src srcLen pat patternLen tb i"
  shows "kmpLoop src srcLen pat patternLen tb i = None"
proof (rule ccontr)
  assume "kmpLoop src srcLen pat patternLen tb i \<noteq> None"
  then obtain r where ret: "kmpLoop src srcLen pat patternLen tb i = Some r" by blast
  have "\<not> kmpStuck src srcLen pat patternLen tb i"
  proof (rule kmpLoop.raw_induct [where P = "\<lambda>src srcLen pat patternLen tb i r.
        \<not> kmpStuck src srcLen pat patternLen tb i", OF _ ret], rule notI)
    fix f :: "byte list \<Rightarrow> nat \<Rightarrow> byte list \<Rightarrow> nat \<Rightarrow> byte list \<Rightarrow> nat \<Rightarrow> int option"
      and src srcLen pat patternLen tb i r
    assume IH: "\<And>src srcLen pat patternLen tb i r. f src srcLen pat patternLen tb i = Some r \<Longrightarrow>
        \<not> kmpStuck src srcLen pat patternLen tb i"
      and eq: "(if i \<le> srcLen - patternLen
        then do { j \<leftarrow> cmpFrom src i pat patternLen 0;
          if j \<ge> patternLen then Some (to_int32 i)
          else do { d \<leftarrow> rd tb j; f src srcLen pat patternLen tb (wrap32 (i + unat d)) } }
        else Some (- 12002)) = Some r"
      and st: "kmpStuck src srcLen pat patternLen tb i"
    from st eq have "f src srcLen pat patternLen tb i = Some r" by (auto simp: kmpStuck_def)
    from IH [OF this] st show False by blast
  qed
  then show False using assms by blast
qed

text \<open>
  C3. KMP, the table overflow: the entries of the next-table are single bytes, so a pattern whose
  first 256 bytes have no border gets the shift 256 stored as 0. The search with the generated
  table then never returns on any source that agrees with these 256 bytes and differs at the
  following one.
\<close>

theorem moUtils_Search_KMP_diverges:
  assumes "256 < length pat" and "border pat 256 = 0" and "length pat \<le> length buf"
    and "length pat \<le> length src" and "length src < 2 ^ 31"
    and "\<forall>m<256. src ! m = pat ! m" and "src ! 256 \<noteq> pat ! 256"
  shows "\<exists>next. moUtils_Search_KMP_GenNextArray True (Some buf) (Some pat) (length pat) =
      Some (MOUTILS_SEARCH_ERR_OK, Some next) \<and>
    moUtils_Search_KMP (Some src) (length src) (Some pat) (length pat) (Some next) = None"
proof -
  let ?next = "kmpNext pat @ drop (length pat) buf"
  have no: "\<not> occurs src pat 0" using assms(1,7) by (auto simp: occurs_nth)
  obtain j where j: "cmpFrom src 0 pat (length pat) 0 = Some j" "j < length pat"
    "\<And>m. m < j \<Longrightarrow> src ! (0 + m) = pat ! m" "src ! (0 + j) \<noteq> pat ! j"
    using cmpFrom_mismatch [OF no _ assms(4)] by blast
  have "j = 256" using j(3) [of 256] j(4) assms(6,7) by (metis add_0 linorder_neqE_nat)
  then have "rd ?next j = Some 0"
    using assms(1,2) by (simp add: kmpNext_def nth_append)
  then have "kmpStuck src (length src) pat (length pat) ?next 0"
    using j(1,2) by (auto simp: kmpStuck_def)
  from kmpLoop_stuck [OF this] show ?thesis
    using GenNextArray_eq [OF assms(3)] assms(1,4) by (auto simp: moUtils_Search_KMP_def)
qed

lemma border_marker:
  assumes "\<And>m. 0 < m \<Longrightarrow> m < i \<Longrightarrow> pat ! m \<noteq> pat ! 0" and "0 < i"
  shows "border pat i = 0"
proof (rule ccontr)
  assume pos: "border pat i \<noteq> 0"
  have lt: "border pat i < i" and b: "isBorder pat i (border pat i)"
    using border_props(1,2) [OF assms(2)] by auto
  have "pat ! 0 = pat ! (i - border pat i + 0)" using b pos by (auto simp: isBorder_def)
  then show False using assms(1) [of "i - border pat i"] lt pos by simp
qed

lemma nth_Cons_replicate:
  "0 < m \<Longrightarrow> m \<le> k \<Longrightarrow> (x # replicate k y @ r) ! m = y"
  "n = Suc k \<Longrightarrow> (x # replicate k y @ z # r) ! n = z"
  by (cases m) (auto simp: nth_append)

theorem moUtils_Search_KMP_diverges_witness:
  "\<exists>next. moUtils_Search_KMP_GenNextArray True (Some (replicate 257 0)) (Some (1 # replicate 256 0)) 257 =
      Some (0, Some next) \<and>
    moUtils_Search_KMP (Some (1 # replicate 255 0 @ [2])) 257 (Some (1 # replicate 256 0)) 257 (Some next) =
      None"
proof -
  let ?p = "1 # replicate 256 0 :: byte list" and ?s = "1 # replicate 255 0 @ [2] :: byte list"
    and ?b = "replicate 257 0 :: byte list"
  have n: "length ?p = 257" "length ?s = 257" "length ?b = 257"
    by (simp_all only: length_replicate length_Cons length_append list.size)
  have pn: "?p ! m = 0" if "0 < m" "m < 257" for m
    using nth_Cons_replicate(1) [of m 256 1 0 "[]"] that by (simp only: append_Nil2) simp
  have sn: "?s ! m = 0" if "0 < m" "m < 256" for m
    using nth_Cons_replicate(1) [of m 255 1 0 "[2]"] that by (simp only: append_Nil2) simp
  have s256: "?s ! 256 = 2"
    by (rule nth_Cons_replicate(2)) simp
  have h: "256 < length ?p" "border ?p 256 = 0" "length ?p \<le> length ?b" "length ?p \<le> length ?s"
      "length ?s < 2 ^ 31" "\<forall>m<256. ?s ! m = ?p ! m" "?s ! 256 \<noteq> ?p ! 256"
  proof -
    show "border ?p 256 = 0"
      by (rule border_marker) (simp_all only: pn nth_Cons_0, simp_all)
    show "\<forall>m<256. ?s ! m = ?p ! m"
    proof (intro allI impI)
      fix m :: nat assume "m < 256"
      then show "?s ! m = ?p ! m" using pn [of m] sn [of m] by (cases "m = 0") simp_all
    qed
    show "?s ! 256 \<noteq> ?p ! 256" unfolding s256 using pn [of 256] by simp
  qed (simp_all only: n, simp_all)
  show ?thesis using moUtils_Search_KMP_diverges [OF h] unfolding n .
qed

end
