(* ===== verification/MoSort.thy ===== *)
theory MoSort
  imports MoPrelude
begin

text \<open>
  The sorting library \<open>moSdk/Sort/src/moSort.c\<close>: direct insertion, selection and bubble sort of an
  array of \<open>int\<close> in place, each in both directions. The two static functions of an algorithm
  differ only in the comparison, which is a parameter \<open>le\<close> of the model: \<open>(\<le>)\<close> for
  \<open>MOSORT_DST_SEQUENCE_L2B\<close> (from little to big) and \<open>(\<ge>)\<close> for \<open>MOSORT_DST_SEQUENCE_B2L\<close>.
  The algorithms are proved once, for the comparators of the locale \<open>comparator\<close>.
\<close>

datatype MOSORT_DST_SEQUENCE =
  MOSORT_DST_SEQUENCE_L2B | MOSORT_DST_SEQUENCE_B2L | MOSORT_DST_SEQUENCE_OTHER int

section \<open>Direct insertion sort\<close>

text \<open>\<open>for(j = i + 1; j > k; j--) pArray[j] = pArray[j - 1];\<close>\<close>

definition shiftUp :: "nat \<Rightarrow> nat \<Rightarrow> 'a list \<Rightarrow> 'a list option" where
  "shiftUp i k pArray =
     foldM (\<lambda>j pArray. do {
       v \<leftarrow> rd pArray (j - 1);
       wr pArray j v
     }) (rev [k + 1..<i + 2]) pArray"

text \<open>The loop over \<open>k\<close>, which places the element \<open>i + 1\<close> among the elements \<open>0 .. i\<close>.\<close>

definition insertNode :: "('a \<Rightarrow> 'a \<Rightarrow> bool) \<Rightarrow> nat \<Rightarrow> 'a list \<Rightarrow> 'a list option" where
  "insertNode le i pArray =
     foldM (\<lambda>k pArray. do {
       node \<leftarrow> rd pArray (i + 1);
       v \<leftarrow> rd pArray k;
       if le node v
       then do {
         pArray \<leftarrow> shiftUp i k pArray;
         wr pArray k node
       }
       else Some pArray
     }) [0..<i + 1] pArray"

definition directInsertSort :: "('a \<Rightarrow> 'a \<Rightarrow> bool) \<Rightarrow> nat \<Rightarrow> 'a list \<Rightarrow> 'a list option" where
  "directInsertSort le arrayLength pArray = foldM (insertNode le) [0..<arrayLength - 1] pArray"

section \<open>Selection sort\<close>

text \<open>
  \<open>selectMax\<close> is the loop over \<open>j\<close>, whose state is \<open>(maxValue, maxPos)\<close>. The counters of this
  algorithm and of bubble sort are \<open>int\<close>, starting at the conversion of \<open>arrayLength - 1\<close>.
\<close>

definition selectMax :: "('a \<Rightarrow> 'a \<Rightarrow> bool) \<Rightarrow> 'a list \<Rightarrow> nat \<Rightarrow> ('a \<times> nat) \<Rightarrow> ('a \<times> nat) option" where
  "selectMax le pArray i s =
     foldM (\<lambda>j (maxValue, maxPos). do {
       v \<leftarrow> rd pArray j;
       if \<not> le v maxValue then Some (v, j) else Some (maxValue, maxPos)
     }) (rev [0..<i]) s"

definition swap :: "nat \<Rightarrow> nat \<Rightarrow> 'a list \<Rightarrow> 'a list option" where
  "swap i j pArray = do {
     tmp \<leftarrow> rd pArray i;
     v \<leftarrow> rd pArray j;
     pArray \<leftarrow> wr pArray i v;
     wr pArray j tmp
   }"

definition selectStep :: "('a \<Rightarrow> 'a \<Rightarrow> bool) \<Rightarrow> nat \<Rightarrow> 'a list \<Rightarrow> 'a list option" where
  "selectStep le i pArray = do {
     v \<leftarrow> rd pArray i;
     (maxValue, maxPos) \<leftarrow> selectMax le pArray i (v, i);
     if maxPos \<noteq> i then swap i maxPos pArray else Some pArray
   }"

text \<open>The values of \<open>i\<close> in \<open>for(i = arrayLength - 1; i >= 1; i--)\<close>, for \<open>arrayLength\<close> at least 1.\<close>

definition downTo1 :: "nat \<Rightarrow> nat list" where
  "downTo1 arrayLength = rev [1..<nat (to_int32 (arrayLength - 1)) + 1]"

definition selectSort :: "('a \<Rightarrow> 'a \<Rightarrow> bool) \<Rightarrow> nat \<Rightarrow> 'a list \<Rightarrow> 'a list option" where
  "selectSort le arrayLength pArray = foldM (selectStep le) (downTo1 arrayLength) pArray"

section \<open>Bubble sort\<close>

definition bubbleUp :: "('a \<Rightarrow> 'a \<Rightarrow> bool) \<Rightarrow> nat \<Rightarrow> 'a list \<Rightarrow> 'a list option" where
  "bubbleUp le i pArray =
     foldM (\<lambda>j pArray. do {
       v \<leftarrow> rd pArray j;
       w \<leftarrow> rd pArray (j + 1);
       if \<not> le v w then swap j (j + 1) pArray else Some pArray
     }) [0..<i] pArray"

definition bubbleSort :: "('a \<Rightarrow> 'a \<Rightarrow> bool) \<Rightarrow> nat \<Rightarrow> 'a list \<Rightarrow> 'a list option" where
  "bubbleSort le arrayLength pArray = foldM (bubbleUp le) (downTo1 arrayLength) pArray"

section \<open>The exported functions\<close>

text \<open>The six static functions.\<close>

definition directInsertSortL2B :: "int list \<Rightarrow> nat \<Rightarrow> int list option" where
  "directInsertSortL2B pArray arrayLength = directInsertSort (\<le>) arrayLength pArray"

definition directInsertSortB2L :: "int list \<Rightarrow> nat \<Rightarrow> int list option" where
  "directInsertSortB2L pArray arrayLength = directInsertSort (\<ge>) arrayLength pArray"

definition selectSortL2B :: "int list \<Rightarrow> nat \<Rightarrow> int list option" where
  "selectSortL2B pArray arrayLength = selectSort (\<le>) arrayLength pArray"

definition selectSortB2L :: "int list \<Rightarrow> nat \<Rightarrow> int list option" where
  "selectSortB2L pArray arrayLength = selectSort (\<ge>) arrayLength pArray"

definition bubbleSortL2B :: "int list \<Rightarrow> nat \<Rightarrow> int list option" where
  "bubbleSortL2B pArray arrayLength = bubbleSort (\<le>) arrayLength pArray"

definition bubbleSortB2L :: "int list \<Rightarrow> nat \<Rightarrow> int list option" where
  "bubbleSortB2L pArray arrayLength = bubbleSort (\<ge>) arrayLength pArray"

text \<open>
  The guards and the \<open>switch\<close>, the same in the three exported functions. The result is the
  return value and the array afterwards; it is \<open>None\<close> when an access leaves the array.
\<close>

definition sortDispatch ::
  "(int list \<Rightarrow> nat \<Rightarrow> int list option) \<Rightarrow> (int list \<Rightarrow> nat \<Rightarrow> int list option) \<Rightarrow>
   int ptr \<Rightarrow> nat \<Rightarrow> MOSORT_DST_SEQUENCE \<Rightarrow> (int \<times> int ptr) option" where
  "sortDispatch sortL2B sortB2L pArray arrayLength seq =
     (case pArray of
        None \<Rightarrow> Some (-1, None)
      | Some xs \<Rightarrow>
          if arrayLength \<le> 1 then Some (0, Some xs)
          else (case seq of
              MOSORT_DST_SEQUENCE_B2L \<Rightarrow> map_option (\<lambda>ys. (0, Some ys)) (sortB2L xs arrayLength)
            | MOSORT_DST_SEQUENCE_L2B \<Rightarrow> map_option (\<lambda>ys. (0, Some ys)) (sortL2B xs arrayLength)
            | MOSORT_DST_SEQUENCE_OTHER _ \<Rightarrow> Some (-2, Some xs)))"

definition moSort_directInsertSort :: "int ptr \<Rightarrow> nat \<Rightarrow> MOSORT_DST_SEQUENCE \<Rightarrow> (int \<times> int ptr) option" where
  "moSort_directInsertSort = sortDispatch directInsertSortL2B directInsertSortB2L"

definition moSort_selectSort :: "int ptr \<Rightarrow> nat \<Rightarrow> MOSORT_DST_SEQUENCE \<Rightarrow> (int \<times> int ptr) option" where
  "moSort_selectSort = sortDispatch selectSortL2B selectSortB2L"

definition moSort_bubbleSort :: "int ptr \<Rightarrow> nat \<Rightarrow> MOSORT_DST_SEQUENCE \<Rightarrow> (int \<times> int ptr) option" where
  "moSort_bubbleSort = sortDispatch bubbleSortL2B bubbleSortB2L"

section \<open>Effects of the loops on the array\<close>

lemma shiftUp_eq:
  assumes "k \<le> i" and "i + 1 < length xs"
  shows "shiftUp i k xs =
    Some (take (k + 1) xs @ take (i + 1 - k) (drop k xs) @ drop (i + 2) xs)"
  using assms
proof (induction "i - k" arbitrary: i xs)
  case 0
  then have i: "i = k" by simp
  have "drop k xs = xs ! k # drop (Suc k) xs" using 0 by (simp add: Cons_nth_drop_Suc)
  then show ?case using 0 i unfolding shiftUp_def
    by (simp add: upd_conv_take_nth_drop)
next
  case (Suc n)
  then obtain i' where i': "i = Suc i'" "k \<le> i'" "n = i' - k" by (cases i) auto
  let ?ys = "xs[i + 1 := xs ! i]"
  have "shiftUp i k xs = shiftUp i' k ?ys"
    using Suc.prems i' unfolding shiftUp_def by simp
  also have "\<dots> = Some (take (k + 1) ?ys @ take (i' + 1 - k) (drop k ?ys) @ drop (i' + 2) ?ys)"
    using Suc.hyps(1) [OF i'(3), of ?ys] i' Suc.prems by simp
  also have "\<dots> = Some (take (k + 1) xs @ take (i + 1 - k) (drop k xs) @ drop (i + 2) xs)"
  proof -
    have "drop (i' + 2) ?ys = xs ! i # drop (i + 2) xs"
      using Suc.prems i' by (simp add: Cons_nth_drop_Suc [symmetric])
    moreover have "take (i + 1 - k) (drop k xs) = take (i' + 1 - k) (drop k xs) @ [xs ! i]"
      using Suc.prems i' take_Suc_conv_app_nth [of "i' + 1 - k" "drop k xs"]
      by (simp add: Suc_diff_le)
    ultimately show ?thesis using Suc.prems i'
      by (simp add: drop_update_swap take_update_swap list_update_beyond)
  qed
  finally show ?case .
qed

lemma swap_eq:
  "i < length xs \<Longrightarrow> j < length xs \<Longrightarrow> swap i j xs = Some (xs[i := xs ! j, j := xs ! i])"
  by (simp add: swap_def)

lemma downTo1_eq:
  assumes "0 < n" and "n \<le> 2 ^ 31"
  shows "downTo1 n = rev [1..<n]"
proof -
  have "to_int32 (n - 1) = int (n - 1)" using assms by simp
  then have "nat (to_int32 (n - 1)) + 1 = n" using assms(1) by simp
  then show ?thesis unfolding downTo1_def by simp
qed

section \<open>Sorting for an arbitrary comparator\<close>

text \<open>
  What a comparison has to satisfy for the three algorithms to sort with it. The invariants of the
  loops are stated with \<open>sorted_wrt le\<close> on a prefix or suffix of the array.
\<close>

locale comparator =
  fixes le :: "'a \<Rightarrow> 'a \<Rightarrow> bool"
  assumes total: "le x y \<or> le y x"
    and trans: "le x y \<Longrightarrow> le y z \<Longrightarrow> le x z"
begin

lemma refl: "le x x"
  using total by blast

lemma not_le: "\<not> le x y \<Longrightarrow> le y x"
  using total by blast

lemma insert_step:
  assumes i: "i + 1 < length xs" and k: "k \<le> i"
    and sorted: "sorted_wrt le (take (i + 1) xs)"
    and below: "\<forall>m<k. le (xs ! m) (xs ! (i + 1))"
    and hit: "le (xs ! (i + 1)) (xs ! k)"
  shows "\<exists>zs. shiftUp i k xs = Some zs \<and> length zs = length xs \<and>
    mset (zs[k := xs ! (i + 1)]) = mset xs \<and>
    sorted_wrt le (take (i + 1) (zs[k := xs ! (i + 1)])) \<and>
    (\<forall>m<k + 1. le (zs[k := xs ! (i + 1)] ! m) (zs[k := xs ! (i + 1)] ! (i + 1))) \<and>
    drop (i + 2) (zs[k := xs ! (i + 1)]) = drop (i + 2) xs"
proof -
  let ?x = "xs ! (i + 1)"
  define A where "A = take k xs"
  define B where "B = take (i - k) (drop k xs)"
  define y where "y = xs ! i"
  define D where "D = drop (i + 2) xs"
  have BY: "take (i + 1 - k) (drop k xs) = B @ [y]"
    using i k take_Suc_conv_app_nth [of "i - k" "drop k xs"] unfolding B_def y_def
    by (simp add: Suc_diff_le)
  have pre: "take (i + 1) xs = A @ B @ [y]"
    using BY k take_add [of k "i + 1 - k" xs] unfolding A_def by simp
  have xs: "xs = A @ (B @ [y]) @ ?x # D"
    using id_take_nth_drop [OF i] pre unfolding D_def by simp
  have lenA: "length A = k" and lenB: "length B = i - k" using i k unfolding A_def B_def by simp_all
  have sh: "shiftUp i k xs = Some (take (k + 1) xs @ (B @ [y]) @ D)"
    using shiftUp_eq [OF k i] BY unfolding D_def by simp
  have upd: "(take (k + 1) xs @ (B @ [y]) @ D)[k := ?x] = A @ ?x # B @ y # D"
    using i k unfolding A_def
    by (simp add: list_update_append take_Suc_conv_app_nth list_update_append1)
  have s: "sorted_wrt le (A @ B @ [y])" using sorted pre by simp
  have xk: "xs ! k = hd (B @ [y])" by (subst xs) (simp add: lenA nth_append hd_conv_nth)
  have hB: "\<forall>b \<in> set (B @ [y]). le ?x b"
  proof
    fix b assume "b \<in> set (B @ [y])"
    moreover have "sorted_wrt le (B @ [y])" using s by (simp add: sorted_wrt_append)
    ultimately have "le (hd (B @ [y])) b" using refl by (cases B) auto
    then show "le ?x b" using hit trans unfolding xk by blast
  qed
  have hA: "\<forall>a \<in> set A. le a ?x"
    using below i k unfolding A_def by (auto simp: in_set_conv_nth)
  have sorted': "sorted_wrt le (A @ ?x # B @ [y])"
    using s hA hB by (auto simp: sorted_wrt_append)
  have le_y: "le (zs ! m) y" if "zs = A @ ?x # B @ y # D" "m < k + 1" for zs m
    using that lenA hA hB s by (auto simp: nth_append sorted_wrt_append less_Suc_eq)
  have yi: "(A @ ?x # B @ y # D) ! (i + 1) = y" using lenA lenB k by (simp add: nth_append)
  have "take (i + 1) (A @ ?x # B @ y # D) = A @ ?x # B" using lenA lenB k by (simp add: Suc_diff_le)
  then have 1: "sorted_wrt le (take (i + 1) (A @ ?x # B @ y # D))"
    using sorted' by (simp add: sorted_wrt_append)
  have 2: "drop (i + 2) (A @ ?x # B @ y # D) = D" using lenA lenB k by (simp add: Suc_diff_le)
  have 3: "mset (A @ ?x # B @ y # D) = mset xs" by (subst (2) xs) simp
  have 4: "length (take (k + 1) xs @ (B @ [y]) @ D) = length xs"
    using arg_cong [OF xs, of length] lenA i k by simp
  show ?thesis unfolding sh using upd 1 2 3 4 yi le_y [OF HOL.refl] unfolding D_def [symmetric]
    by simp
qed

lemma insertNode_sorts:
  assumes i: "i + 1 < length xs" and sorted: "sorted_wrt le (take (i + 1) xs)"
  shows "\<exists>ys. insertNode le i xs = Some ys \<and> length ys = length xs \<and> mset ys = mset xs \<and>
    sorted_wrt le (take (i + 2) ys) \<and> drop (i + 2) ys = drop (i + 2) xs"
proof -
  define I where "I = (\<lambda>k ys. length ys = length xs \<and> mset ys = mset xs \<and>
    sorted_wrt le (take (i + 1) ys) \<and> (\<forall>m<k. le (ys ! m) (ys ! (i + 1))) \<and>
    drop (i + 2) ys = drop (i + 2) xs)"
  have "\<exists>ys. insertNode le i xs = Some ys \<and> I (i + 1) ys"
    unfolding insertNode_def
  proof (rule foldM_range_inv)
    show "I 0 xs" using sorted unfolding I_def by simp
  next
    fix k ys assume k: "0 \<le> k" "k < i + 1" and I: "I k ys"
    have i': "i + 1 < length ys" using I i unfolding I_def by simp
    show "\<exists>s'. do {
        node \<leftarrow> rd ys (i + 1); v \<leftarrow> rd ys k;
        if le node v then do { pArray \<leftarrow> shiftUp i k ys; wr pArray k node } else Some ys
      } = Some s' \<and> I (Suc k) s'"
    proof (cases "le (ys ! (i + 1)) (ys ! k)")
      case True
      obtain zs where zs: "shiftUp i k ys = Some zs" "length zs = length ys"
        "I (Suc k) (zs[k := ys ! (i + 1)])"
        using insert_step [OF i' _ _ _ True] k I unfolding I_def by fastforce
      then show ?thesis using True i' k by simp
    next
      case False
      then show ?thesis using I i' k not_le unfolding I_def by (auto simp: less_Suc_eq)
    qed
  qed simp
  then obtain ys where ys: "insertNode le i xs = Some ys" "I (i + 1) ys" by blast
  have "take (i + 2) ys = take (i + 1) ys @ [ys ! (i + 1)]"
    using ys(2) i take_Suc_conv_app_nth [of "i + 1" ys] unfolding I_def by simp
  moreover have "\<forall>y \<in> set (take (i + 1) ys). le y (ys ! (i + 1))"
    using ys(2) i unfolding I_def by (auto simp: in_set_conv_nth)
  ultimately show ?thesis using ys unfolding I_def by (auto simp: sorted_wrt_append)
qed

lemma directInsertSort_sorts:
  assumes "1 < n" and "n \<le> length xs"
  shows "\<exists>ys. directInsertSort le n xs = Some ys \<and> mset ys = mset xs \<and>
    sorted_wrt le (take n ys) \<and> drop n ys = drop n xs"
proof -
  define I where "I = (\<lambda>i ys. length ys = length xs \<and> mset ys = mset xs \<and>
    sorted_wrt le (take (i + 1) ys) \<and> drop (i + 1) ys = drop (i + 1) xs)"
  have "\<exists>ys. directInsertSort le n xs = Some ys \<and> I (n - 1) ys"
    unfolding directInsertSort_def
  proof (rule foldM_range_inv)
    show "I 0 xs" using assms unfolding I_def by (cases xs) auto
  next
    fix i ys assume i: "0 \<le> i" "i < n - 1" and I: "I i ys"
    have "drop (i + 2) ys = drop (i + 2) xs"
      using I unfolding I_def by (metis add_Suc_right drop_drop one_add_one plus_1_eq_Suc add.commute)
    then show "\<exists>s'. insertNode le i ys = Some s' \<and> I (Suc i) s'"
      using insertNode_sorts [of i ys] I i assms unfolding I_def by fastforce
  qed simp
  then show ?thesis using assms unfolding I_def by auto
qed

text \<open>Selection and bubble sort move the largest element of \<open>0 .. i\<close> to \<open>i\<close> in their round \<open>i\<close>.\<close>

definition places_max :: "nat \<Rightarrow> 'a list \<Rightarrow> 'a list \<Rightarrow> bool" where
  "places_max i xs ys \<longleftrightarrow> mset ys = mset xs \<and> drop (i + 1) ys = drop (i + 1) xs \<and>
     (\<forall>m<i. le (ys ! m) (ys ! i))"

definition top_sorted :: "nat \<Rightarrow> 'a list \<Rightarrow> nat \<Rightarrow> 'a list \<Rightarrow> bool" where
  "top_sorted n xs i ys \<longleftrightarrow> mset ys = mset xs \<and> drop n ys = drop n xs \<and>
     sorted_wrt le (drop i (take n ys)) \<and>
     (\<forall>a \<in> set (take i ys). \<forall>b \<in> set (drop i (take n ys)). le a b)"

lemma top_sorted_step:
  assumes top: "top_sorted n xs (Suc i) ys" and n: "i < n" "n \<le> length xs"
    and max: "places_max i ys zs"
  shows "top_sorted n xs i zs"
proof -
  have len: "length ys = length xs" "length zs = length xs"
    using top max unfolding top_sorted_def places_max_def by (metis size_mset)+
  have d: "drop (Suc i) zs = drop (Suc i) ys" using max unfolding places_max_def by simp
  have "mset (take (Suc i) zs) + mset (drop (Suc i) zs) =
    mset (take (Suc i) ys) + mset (drop (Suc i) ys)"
    using max unfolding places_max_def by (metis append_take_drop_id mset_append)
  then have "mset (take (Suc i) zs) = mset (take (Suc i) ys)" using d by simp
  then have st: "set (take (Suc i) zs) = set (take (Suc i) ys)" by (rule mset_eq_setD)
  have dt: "drop (Suc i) (take n zs) = drop (Suc i) (take n ys)"
    using d by (simp add: drop_take)
  have split: "drop i (take n zs) = zs ! i # drop (Suc i) (take n ys)"
    using n len by (subst Cons_nth_drop_Suc [symmetric]) (simp_all add: dt)
  have tk: "take (Suc i) zs = take i zs @ [zs ! i]"
    using n len by (simp add: take_Suc_conv_app_nth)
  have below: "\<forall>a \<in> set (take i zs). le a (zs ! i)"
    using max n len unfolding places_max_def by (auto simp: in_set_conv_nth)
  have dn: "drop n zs = drop n ys"
    using d n by (metis Suc_leI drop_drop le_add_diff_inverse2)
  have up: "\<forall>a \<in> set (take i zs @ [zs ! i]). \<forall>b \<in> set (drop (Suc i) (take n ys)). le a b"
    using top st unfolding top_sorted_def tk by simp
  show ?thesis
    using top max up below split dn unfolding top_sorted_def places_max_def by auto
qed

lemma top_sorted_loop:
  assumes step: "\<And>i ys. 0 < i \<Longrightarrow> i < length ys \<Longrightarrow> \<exists>zs. f i ys = Some zs \<and> places_max i ys zs"
    and n: "1 < n" "n \<le> length xs" "n \<le> 2 ^ 31"
  shows "\<exists>ys. foldM f (downTo1 n) xs = Some ys \<and> mset ys = mset xs \<and>
    sorted_wrt le (take n ys) \<and> drop n ys = drop n xs"
proof -
  have "\<exists>ys. foldM f (rev [1..<n]) xs = Some ys \<and> top_sorted n xs 1 ys"
  proof (rule foldM_rev_range_inv)
    show "top_sorted n xs n xs" unfolding top_sorted_def by simp
  next
    fix i ys assume i: "1 \<le> i" "i < n" and top: "top_sorted n xs (Suc i) ys"
    have "length ys = length xs" using top unfolding top_sorted_def by (metis size_mset)
    then show "\<exists>zs. f i ys = Some zs \<and> top_sorted n xs i zs"
      using step [of i ys] top_sorted_step [OF top i(2) n(2)] i n by fastforce
  qed (use n in simp)
  then obtain ys where ys: "foldM f (rev [1..<n]) xs = Some ys" "top_sorted n xs 1 ys" by blast
  have len: "length ys = length xs" using ys(2) unfolding top_sorted_def by (metis size_mset)
  then obtain z zs where tn: "take n ys = z # zs" using n by (cases "take n ys") auto
  then have "take 1 ys = [z]" using n by (cases ys; cases n) auto
  then have "sorted_wrt le (take n ys)" using ys(2) unfolding top_sorted_def tn by auto
  then show ?thesis using ys n downTo1_eq [of n] unfolding top_sorted_def by auto
qed

lemma selectMax_eq:
  assumes "i < length xs"
  shows "\<exists>p. selectMax le xs i (xs ! i, i) = Some (xs ! p, p) \<and> p \<le> i \<and>
    (\<forall>m\<le>i. le (xs ! m) (xs ! p))"
proof -
  define I where "I = (\<lambda>j s. fst s = xs ! snd s \<and> snd s \<le> i \<and>
    (\<forall>m. j \<le> m \<longrightarrow> m \<le> i \<longrightarrow> le (xs ! m) (xs ! snd s)))"
  have "\<exists>s. selectMax le xs i (xs ! i, i) = Some s \<and> I 0 s"
    unfolding selectMax_def
  proof (rule foldM_rev_range_inv)
    show "I i (xs ! i, i)" using refl unfolding I_def by auto
  next
    fix j and s :: "'a \<times> nat"
    assume j: "0 \<le> j" "j < i" and I: "I (Suc j) s"
    obtain v p where s: "s = (v, p)" by (cases s)
    have "le (xs ! m) (xs ! j)" if "\<not> le (xs ! j) v" "j \<le> m" "m \<le> i" for m
      using that I not_le trans refl unfolding I_def s
      by (metis Suc_leI fst_conv le_neq_implies_less snd_conv)
    moreover have "le (xs ! m) (xs ! p)" if "le (xs ! j) v" "j \<le> m" "m \<le> i" for m
      using that I unfolding I_def s
      by (metis Suc_leI fst_conv le_neq_implies_less snd_conv)
    ultimately show "\<exists>s'. (case s of (maxValue, maxPos) \<Rightarrow> do {
        v \<leftarrow> rd xs j;
        if \<not> le v maxValue then Some (v, j) else Some (maxValue, maxPos)
      }) = Some s' \<and> I j s'"
      using I j assms unfolding I_def s by auto
  qed simp
  then show ?thesis unfolding I_def by auto
qed

lemma mset_swap_list:
  "i < length xs \<Longrightarrow> j < length xs \<Longrightarrow> mset (xs[i := xs ! j, j := xs ! i]) = mset xs"
  by (rule mset_swap)

lemma selectStep_places_max:
  assumes "0 < i" and i: "i < length xs"
  shows "\<exists>ys. selectStep le i xs = Some ys \<and> places_max i xs ys"
proof -
  obtain p where p: "selectMax le xs i (xs ! i, i) = Some (xs ! p, p)" "p \<le> i"
    "\<forall>m\<le>i. le (xs ! m) (xs ! p)" using selectMax_eq [OF i] by blast
  show ?thesis
  proof (cases "p = i")
    case True
    then show ?thesis using p i unfolding selectStep_def places_max_def by auto
  next
    case False
    let ?ys = "xs[i := xs ! p, p := xs ! i]"
    have "selectStep le i xs = Some ?ys"
      using p i False by (simp add: selectStep_def swap_eq)
    moreover have "places_max i xs ?ys"
      using p i False mset_swap_list [of i xs p] unfolding places_max_def
      by (auto simp: nth_list_update)
    ultimately show ?thesis by blast
  qed
qed

lemma bubbleUp_places_max:
  assumes "0 < i" and i: "i < length xs"
  shows "\<exists>ys. bubbleUp le i xs = Some ys \<and> places_max i xs ys"
proof -
  define I where "I = (\<lambda>j ys. mset ys = mset xs \<and> drop (i + 1) ys = drop (i + 1) xs \<and>
    (\<forall>m<j. le (ys ! m) (ys ! j)))"
  have "\<exists>ys. bubbleUp le i xs = Some ys \<and> I i ys"
    unfolding bubbleUp_def
  proof (rule foldM_range_inv)
    show "I 0 xs" unfolding I_def by simp
  next
    fix j ys assume j: "0 \<le> j" "j < i" and I: "I j ys"
    have len: "length ys = length xs" using I unfolding I_def by (metis size_mset)
    let ?zs = "ys[j := ys ! (j + 1), j + 1 := ys ! j]"
    have dz: "drop (i + 1) ?zs = drop (i + 1) ys" using j by (simp only: drop_update_cancel)
    have "I (Suc j) ?zs" if "\<not> le (ys ! j) (ys ! (j + 1))"
      using I j i len dz not_le [OF that] mset_swap_list [of j ys "j + 1"] unfolding I_def
      by (auto simp: nth_list_update less_Suc_eq)
    moreover have "I (Suc j) ys" if "le (ys ! j) (ys ! (j + 1))"
      using I that trans unfolding I_def by (auto simp: less_Suc_eq)
    ultimately show "\<exists>s'. do {
        v \<leftarrow> rd ys j; w \<leftarrow> rd ys (j + 1);
        if \<not> le v w then swap j (j + 1) ys else Some ys
      } = Some s' \<and> I (Suc j) s'"
      using j i len by (auto simp: swap_eq)
  qed simp
  then show ?thesis unfolding I_def places_max_def by auto
qed

lemmas selectSort_sorts = top_sorted_loop [OF selectStep_places_max, folded selectSort_def]
lemmas bubbleSort_sorts = top_sorted_loop [OF bubbleUp_places_max, folded bubbleSort_def]

end

text \<open>The two comparisons of the code are comparators.\<close>

interpretation l2b: comparator "(\<le>) :: int \<Rightarrow> int \<Rightarrow> bool"
  by unfold_locales auto

interpretation b2l: comparator "(\<ge>) :: int \<Rightarrow> int \<Rightarrow> bool"
  by unfold_locales auto

section \<open>The exported functions sort\<close>

text \<open>What all three functions promise: the first \<open>n\<close> elements are sorted, the rest is untouched.\<close>

fun in_sequence :: "MOSORT_DST_SEQUENCE \<Rightarrow> int list \<Rightarrow> int list" where
  "in_sequence MOSORT_DST_SEQUENCE_L2B xs = sort xs"
| "in_sequence MOSORT_DST_SEQUENCE_B2L xs = rev (sort xs)"
| "in_sequence (MOSORT_DST_SEQUENCE_OTHER _) xs = xs"

definition sort_spec :: "int ptr \<Rightarrow> nat \<Rightarrow> MOSORT_DST_SEQUENCE \<Rightarrow> int \<times> int ptr" where
  "sort_spec pArray n seq =
     (case pArray of
        None \<Rightarrow> (-1, None)
      | Some xs \<Rightarrow>
          (case seq of MOSORT_DST_SEQUENCE_OTHER _ \<Rightarrow> if 1 < n then -2 else 0 | _ \<Rightarrow> 0,
           Some (in_sequence seq (take n xs) @ drop n xs)))"

lemma sorts_iff_sort:
  assumes "mset ys = mset xs" and "drop n ys = drop n xs" and "sorted_wrt (\<le>) (take n ys)"
  shows "ys = sort (take n xs) @ drop n xs"
proof -
  have "mset (take n ys) + mset (drop n ys) = mset (take n xs) + mset (drop n xs)"
    using assms(1) by (metis append_take_drop_id mset_append)
  then have "sort (take n xs) = take n ys"
    using assms by (intro properties_for_sort) auto
  then show ?thesis using assms(2) by (metis append_take_drop_id)
qed

lemma sorts_iff_sort_rev:
  assumes "mset ys = mset (xs :: int list)" and "drop n ys = drop n xs"
    and "sorted_wrt (\<ge>) (take n ys)"
  shows "ys = rev (sort (take n xs)) @ drop n xs"
proof -
  have "mset (take n ys) + mset (drop n ys) = mset (take n xs) + mset (drop n xs)"
    using assms(1) by (metis append_take_drop_id mset_append)
  then have "sort (take n xs) = rev (take n ys)"
    using assms by (intro properties_for_sort) (auto simp: sorted_wrt_rev)
  then show ?thesis using assms(2) by (metis append_take_drop_id rev_rev_ident)
qed

text \<open>The sorts of the two directions behave as the dispatching function needs them.\<close>

definition sorts_by :: "(int \<Rightarrow> int \<Rightarrow> bool) \<Rightarrow> (int list \<Rightarrow> nat \<Rightarrow> int list option) \<Rightarrow> int list \<Rightarrow> nat \<Rightarrow> bool" where
  "sorts_by le f xs n \<longleftrightarrow> (\<exists>ys. f xs n = Some ys \<and> mset ys = mset xs \<and>
     sorted_wrt le (take n ys) \<and> drop n ys = drop n xs)"

definition valid_array :: "'a ptr \<Rightarrow> nat \<Rightarrow> bool" where
  "valid_array p n \<longleftrightarrow> (case p of None \<Rightarrow> True | Some xs \<Rightarrow> n \<le> length xs)"

lemma sortDispatch_eq:
  assumes "valid_array p n"
    and up: "\<And>xs. n \<le> length xs \<Longrightarrow> 1 < n \<Longrightarrow> sorts_by (\<le>) f xs n"
    and down: "\<And>xs. n \<le> length xs \<Longrightarrow> 1 < n \<Longrightarrow> sorts_by (\<ge>) g xs n"
  shows "sortDispatch f g p n seq = Some (sort_spec p n seq)"
proof (cases p)
  case None
  then show ?thesis by (simp add: sortDispatch_def sort_spec_def)
next
  case (Some xs)
  then have n: "n \<le> length xs" using assms(1) unfolding valid_array_def by simp
  show ?thesis
  proof (cases "n \<le> 1")
    case True
    then have "length (take n xs) \<le> 1" by simp
    then have "in_sequence seq (take n xs) = take n xs"
      by (cases "take n xs"; cases seq) auto
    then show ?thesis using Some True
      by (auto simp: sortDispatch_def sort_spec_def split: MOSORT_DST_SEQUENCE.split)
  next
    case False
    obtain us where us: "f xs n = Some us" "us = sort (take n xs) @ drop n xs"
      using up [OF n] False sorts_iff_sort unfolding sorts_by_def by fastforce
    obtain ds where ds: "g xs n = Some ds" "ds = rev (sort (take n xs)) @ drop n xs"
      using down [OF n] False sorts_iff_sort_rev unfolding sorts_by_def by fastforce
    show ?thesis using Some False us ds
      by (cases seq) (simp_all add: sortDispatch_def sort_spec_def)
  qed
qed

text \<open>
  C4. Direct insertion sort: for every array with at least \<open>arrayLength\<close> elements (or \<open>NULL\<close>) and every
  sequence argument, the call stays inside the array and returns exactly what is promised: \<open>-1\<close> for
  \<open>NULL\<close>, \<open>-2\<close> for an unknown sequence, else 0 with the first \<open>arrayLength\<close> elements sorted in the
  requested direction and the rest untouched.
\<close>

theorem moSort_directInsertSort_sorts:
  assumes "valid_array pArray arrayLength"
  shows "moSort_directInsertSort pArray arrayLength seq = Some (sort_spec pArray arrayLength seq)"
  unfolding moSort_directInsertSort_def using assms
  by (rule sortDispatch_eq)
    (simp_all add: sorts_by_def directInsertSortL2B_def directInsertSortB2L_def
      l2b.directInsertSort_sorts b2l.directInsertSort_sorts)

theorem moSort_directInsertSort_sorts_witness:
  "moSort_directInsertSort (Some [3, 1, 2, 0]) 3 MOSORT_DST_SEQUENCE_B2L = Some (0, Some [3, 2, 1, 0])"
  using moSort_directInsertSort_sorts [of "Some [3, 1, 2, 0]" 3 MOSORT_DST_SEQUENCE_B2L]
  by (simp add: valid_array_def sort_spec_def eval_nat_numeral)

text \<open>
  Selection sort: the same promise as direct insertion sort, for lengths up to \<open>2^31\<close>, the range
  in which its \<open>int\<close> counter starts at \<open>arrayLength - 1\<close>.
\<close>

theorem moSort_selectSort_sorts:
  assumes "valid_array pArray arrayLength" and "arrayLength \<le> 2 ^ 31"
  shows "moSort_selectSort pArray arrayLength seq = Some (sort_spec pArray arrayLength seq)"
  unfolding moSort_selectSort_def using assms(1)
  by (rule sortDispatch_eq)
    (simp_all only: sorts_by_def selectSortL2B_def selectSortB2L_def
      l2b.selectSort_sorts b2l.selectSort_sorts assms(2))

theorem moSort_selectSort_sorts_witness:
  "moSort_selectSort (Some [3, 1, 2]) 3 MOSORT_DST_SEQUENCE_L2B = Some (0, Some [1, 2, 3])"
  using moSort_selectSort_sorts [of "Some [3, 1, 2]" 3 MOSORT_DST_SEQUENCE_L2B]
  by (simp add: valid_array_def sort_spec_def)

text \<open>
  Bubble sort: the same promise, for lengths up to \<open>2^31\<close>.
\<close>

theorem moSort_bubbleSort_sorts:
  assumes "valid_array pArray arrayLength" and "arrayLength \<le> 2 ^ 31"
  shows "moSort_bubbleSort pArray arrayLength seq = Some (sort_spec pArray arrayLength seq)"
  unfolding moSort_bubbleSort_def using assms(1)
  by (rule sortDispatch_eq)
    (simp_all only: sorts_by_def bubbleSortL2B_def bubbleSortB2L_def
      l2b.bubbleSort_sorts b2l.bubbleSort_sorts assms(2))

theorem moSort_bubbleSort_sorts_witness:
  "moSort_bubbleSort (Some [3, 1, 2]) 3 MOSORT_DST_SEQUENCE_B2L = Some (0, Some [3, 2, 1])"
  using moSort_bubbleSort_sorts [of "Some [3, 1, 2]" 3 MOSORT_DST_SEQUENCE_B2L]
  by (simp add: valid_array_def sort_spec_def)

lemma downTo1_large:
  assumes "2 ^ 31 < n" and "n < 2 ^ 32"
  shows "downTo1 n = []"
proof -
  have "to_int32 (n - 1) < 0" using assms by (simp add: to_int32_def wrap32_def)
  then show ?thesis by (simp add: downTo1_def)
qed

text \<open>
  Beyond \<open>2^31\<close> elements the counter of selection sort and bubble sort starts negative: both
  report success and leave the array as it is, sorted or not.
\<close>

theorem moSort_large_unsorted:
  assumes "2 ^ 31 < arrayLength" and "arrayLength < 2 ^ 32" and "\<forall>v. seq \<noteq> MOSORT_DST_SEQUENCE_OTHER v"
  shows "moSort_selectSort (Some xs) arrayLength seq = Some (0, Some xs) \<and>
    moSort_bubbleSort (Some xs) arrayLength seq = Some (0, Some xs)"
  using assms downTo1_large [OF assms(1,2)]
  by (cases seq) (simp_all add: moSort_selectSort_def moSort_bubbleSort_def sortDispatch_def
    selectSortL2B_def selectSortB2L_def bubbleSortL2B_def bubbleSortB2L_def
    selectSort_def bubbleSort_def)

theorem moSort_large_unsorted_witness:
  "moSort_selectSort (Some (1 # replicate (2 ^ 31) 0)) (2 ^ 31 + 1) MOSORT_DST_SEQUENCE_L2B =
    Some (0, Some (1 # replicate (2 ^ 31) 0))"
  by (rule moSort_large_unsorted [THEN conjunct1]) simp_all

end
