(* ===== verification/MoCheck.thy ===== *)
theory MoCheck
  imports MoPrelude
begin

text \<open>
  The checksum of \<open>moSdk/Utils/Check/src/checkSum.c\<close>: the sum of the bytes modulo 256. The property
  shows that the pair of functions detects every change of a single byte.
\<close>

abbreviation (input) MOUTILS_CHECK_ERR_OK :: int where
  "MOUTILS_CHECK_ERR_OK \<equiv> 0"

abbreviation (input) MOUTILS_CHECK_ERR_INPUTPARAMNULL :: int where
  "MOUTILS_CHECK_ERR_INPUTPARAMNULL \<equiv> -13000"

abbreviation (input) MOUTILS_CHECK_ERR_CHECKSUMFAILED :: int where
  "MOUTILS_CHECK_ERR_CHECKSUMFAILED \<equiv> -13002"

section \<open>The two functions\<close>

text \<open>
  \<open>pSum\<close> points to one byte: \<open>None\<close> is \<open>NULL\<close>. The result is the return value and the byte behind
  \<open>pSum\<close> afterwards.
\<close>

definition moUtils_Check_getSum :: "byte ptr \<Rightarrow> nat \<Rightarrow> byte option \<Rightarrow> (int \<times> byte option) option" where
  "moUtils_Check_getSum pSrc len pSum =
     (case (pSrc, pSum) of
        (Some src, Some _) \<Rightarrow>
          if len = 0 then Some (MOUTILS_CHECK_ERR_INPUTPARAMNULL, pSum)
          else do {
            s \<leftarrow> foldM (\<lambda>i s. do {
              b \<leftarrow> rd src i;
              Some (s + b)
            }) [0..<len] 0;
            Some (MOUTILS_CHECK_ERR_OK, Some s)
          }
      | _ \<Rightarrow> Some (MOUTILS_CHECK_ERR_INPUTPARAMNULL, pSum))"

definition moUtils_Check_checkSum :: "byte ptr \<Rightarrow> nat \<Rightarrow> byte \<Rightarrow> int option" where
  "moUtils_Check_checkSum pSrc len s =
     (if pSrc = None \<or> len = 0 then Some MOUTILS_CHECK_ERR_INPUTPARAMNULL
      else do {
        (_, rightSum) \<leftarrow> moUtils_Check_getSum pSrc len (Some 0);
        if rightSum \<noteq> Some s then Some MOUTILS_CHECK_ERR_CHECKSUMFAILED
        else Some MOUTILS_CHECK_ERR_OK
      })"

section \<open>Correctness\<close>

lemma sum_loop:
  assumes "len \<le> length src"
  shows "foldM (\<lambda>i s. do { b \<leftarrow> rd src i; Some (s + b) }) [0..<len] (0 :: byte) =
    Some (sum_list (take len src))"
  using assms by (induction len) (simp_all add: take_Suc_conv_app_nth)

lemma getSum_eq:
  assumes "0 < len" and "len \<le> length src"
  shows "moUtils_Check_getSum (Some src) len (Some s) = Some (MOUTILS_CHECK_ERR_OK, Some (sum_list (take len src)))"
  using assms by (simp add: moUtils_Check_getSum_def sum_loop)

lemma checkSum_eq:
  assumes "0 < len" and "len \<le> length src"
  shows "moUtils_Check_checkSum (Some src) len s =
    Some (if s = sum_list (take len src) then MOUTILS_CHECK_ERR_OK else MOUTILS_CHECK_ERR_CHECKSUMFAILED)"
  using assms by (auto simp: moUtils_Check_checkSum_def getSum_eq)

lemma sum_list_update_group:
  "i < length xs \<Longrightarrow> sum_list (xs[i := v]) = sum_list xs - xs ! i + (v :: 'a :: ab_group_add)"
  by (induction xs arbitrary: i) (auto split: nat.split)

text \<open>
  The checksum written by \<open>getSum\<close> is accepted by \<open>checkSum\<close> on the same data, and is rejected
  with \<open>MOUTILS_CHECK_ERR_CHECKSUMFAILED\<close> after any single byte of the data has been changed.
\<close>

theorem moUtils_Check_detects_change:
  assumes "0 < len" and "len \<le> length src" and "i < len" and "v \<noteq> src ! i"
  shows "\<exists>s. moUtils_Check_getSum (Some src) len (Some old) = Some (MOUTILS_CHECK_ERR_OK, Some s) \<and>
    moUtils_Check_checkSum (Some src) len s = Some MOUTILS_CHECK_ERR_OK \<and>
    moUtils_Check_checkSum (Some (src[i := v])) len s = Some MOUTILS_CHECK_ERR_CHECKSUMFAILED"
proof -
  have "sum_list (take len (src[i := v])) = sum_list (take len src) - src ! i + v"
    using assms by (simp add: take_update_swap sum_list_update_group)
  moreover have "x \<noteq> x - src ! i + v" for x :: byte
    using assms(4) by (simp add: algebra_simps)
  ultimately show ?thesis
    using assms getSum_eq [OF assms(1,2)] by (simp add: checkSum_eq)
qed

theorem moUtils_Check_detects_change_witness:
  "moUtils_Check_checkSum (Some [200, 100, 7]) 3 51 = Some MOUTILS_CHECK_ERR_OK \<and>
   moUtils_Check_checkSum (Some [200, 101, 7]) 3 51 = Some MOUTILS_CHECK_ERR_CHECKSUMFAILED"
proof -
  have "moUtils_Check_getSum (Some [200, 100, 7]) 3 (Some 0) = Some (MOUTILS_CHECK_ERR_OK, Some 51)"
    by (simp add: getSum_eq)
  then show ?thesis
    using moUtils_Check_detects_change [of 3 "[200, 100, 7]" 1 101 0] by simp
qed

end
