(* ===== verification/MoBits.thy ===== *)
theory MoBits
  imports MoPrelude
begin

text \<open>
  Byte strings as strings of bits, most significant bit of each byte first, the order in which the
  DES code numbers the bits of its blocks. \<open>testBit\<close> and \<open>setBit\<close> are the two idioms of that code,
  \<open>p[bytesPos] & (1U << (8 - bitsPos - 1))\<close> and \<open>p[bytesPos] |= (1U << (8 - bitsPos - 1))\<close>.
\<close>

definition testBit :: "byte list \<Rightarrow> nat \<Rightarrow> nat \<Rightarrow> bool option" where
  "testBit p bytesPos bitsPos = do {
     b \<leftarrow> rd p bytesPos;
     Some (b AND push_bit (8 - bitsPos - 1) 1 \<noteq> 0)
   }"

definition setBit :: "byte list \<Rightarrow> nat \<Rightarrow> nat \<Rightarrow> byte list option" where
  "setBit p bytesPos bitsPos = do {
     b \<leftarrow> rd p bytesPos;
     wr p bytesPos (b OR push_bit (8 - bitsPos - 1) 1)
   }"

section \<open>The bits of a byte string\<close>

definition bits :: "byte list \<Rightarrow> bool list" where
  "bits xs = map (\<lambda>i. bit (xs ! (i div 8)) (7 - i mod 8)) [0..<8 * length xs]"

definition byte_of_bits :: "bool list \<Rightarrow> byte" where
  "byte_of_bits bs = horner_sum of_bool 2 (rev bs)"

definition unbits :: "bool list \<Rightarrow> byte list" where
  "unbits bs = map (\<lambda>k. byte_of_bits (take 8 (drop (8 * k) bs))) [0..<length bs div 8]"

lemma div_lt: "i div 8 < n \<longleftrightarrow> i < 8 * n" for i n :: nat
  by (simp add: div_less_iff_less_mult mult.commute)

lemma length_bits [simp]: "length (bits xs) = 8 * length xs"
  by (simp add: bits_def)

lemma nth_bits: "i < 8 * length xs \<Longrightarrow> bits xs ! i = bit (xs ! (i div 8)) (7 - i mod 8)"
  by (simp add: bits_def)

lemma bits_Nil [simp]: "bits [] = []"
  by (simp add: bits_def)

lemma bits_append [bits_simps]: "bits (xs @ ys) = bits xs @ bits ys"
proof (rule nth_equalityI)
  fix i assume "i < length (bits (xs @ ys))"
  then have i: "i < 8 * length xs + 8 * length ys" by simp
  show "bits (xs @ ys) ! i = (bits xs @ bits ys) ! i"
  proof (cases "i < 8 * length xs")
    case True
    then show ?thesis using i by (simp add: nth_append nth_bits div_lt)
  next
    case False
    then obtain j where j: "i = 8 * length xs + j" by (metis le_Suc_ex not_less)
    then show ?thesis using i by (simp add: nth_append nth_bits)
  qed
qed simp

lemma bits_Cons: "bits (x # xs) = bits [x] @ bits xs"
  using bits_append [of "[x]" xs] by simp

lemma length_unbits [simp]: "length (unbits bs) = length bs div 8"
  by (simp add: unbits_def)

lemma bit_byte_of_bits:
  assumes "length bs = 8" and "n < 8"
  shows "bit (byte_of_bits bs) n = bs ! (7 - n)"
  using assms by (simp add: byte_of_bits_def bit_horner_sum_bit_word_iff rev_nth)

lemma bits_unbits [simp]:
  assumes "8 dvd length bs"
  shows "bits (unbits bs) = bs"
proof (rule nth_equalityI)
  show "length (bits (unbits bs)) = length bs" using assms by simp
next
  fix i assume "i < length (bits (unbits bs))"
  then have i: "i < length bs" using assms by simp
  obtain m where m: "length bs = 8 * m" using assms by blast
  have d: "i div 8 < m" using i m by (simp add: div_lt)
  then have d': "8 * (i div 8) + 8 \<le> length bs" using m by linarith
  have "bits (unbits bs) ! i = bit (byte_of_bits (take 8 (drop (8 * (i div 8)) bs))) (7 - i mod 8)"
    using i m d d' by (simp add: nth_bits unbits_def)
  also have "\<dots> = take 8 (drop (8 * (i div 8)) bs) ! (i mod 8)"
    using d' by (subst bit_byte_of_bits) simp_all
  also have "\<dots> = bs ! i" using d' by (simp add: nth_take_drop)
  finally show "bits (unbits bs) ! i = bs ! i" .
qed

lemma bits_inject: "bits xs = bits ys \<longleftrightarrow> xs = ys"
proof
  assume eq: "bits xs = bits ys"
  then have len: "length xs = length ys" by (metis length_bits mult_left_cancel zero_neq_numeral)
  show "xs = ys"
  proof (rule nth_equalityI [OF len])
    fix i assume i: "i < length xs"
    show "xs ! i = ys ! i"
    proof (rule bit_eqI)
      fix n assume "possible_bit TYPE(byte) n"
      then have n: "n < 8" by (simp add: possible_bit_word)
      define j where "j = 7 - n"
      have j: "j < 8" "n = 7 - j" using n unfolding j_def by linarith+
      have k: "8 * i + j < 8 * length xs" "8 * i + j < 8 * length ys" using i j len by linarith+
      have "(8 * i + j) div 8 = i" "(8 * i + j) mod 8 = j" using j by simp_all
      then show "bit (xs ! i) n = bit (ys ! i) n"
        using arg_cong [OF eq, of "\<lambda>b. b ! (8 * i + j)"] k by (simp only: nth_bits j)
    qed
  qed
qed simp

lemma unbits_bits [simp]: "unbits (bits xs) = xs"
  using bits_inject [of "unbits (bits xs)" xs] by simp

lemma bits_replicate_zero [bits_simps]: "bits (replicate n 0) = replicate (8 * n) False"
  by (rule nth_equalityI) (auto simp: nth_bits)

section \<open>Bit tests and bit updates of the code\<close>

lemma testBit_bits [bits_simps]:
  assumes "bytesPos < length p" and "bitsPos < 8"
  shows "testBit p bytesPos bitsPos = Some (bits p ! (8 * bytesPos + bitsPos))"
proof -
  have "8 * bytesPos + bitsPos < 8 * length p" using assms by linarith
  moreover have "(8 * bytesPos + bitsPos) div 8 = bytesPos" "(8 * bytesPos + bitsPos) mod 8 = bitsPos"
    using assms by simp_all
  ultimately show ?thesis using assms
    by (simp add: testBit_def nth_bits bit_iff_and_push_bit_not_eq_0)
qed

lemma setBit_bits:
  assumes "bytesPos < length p" and "bitsPos < 8"
  shows "\<exists>q. setBit p bytesPos bitsPos = Some q \<and> length q = length p \<and>
    bits q = (bits p)[8 * bytesPos + bitsPos := True]"
proof -
  let ?q = "p[bytesPos := p ! bytesPos OR push_bit (8 - bitsPos - 1) 1]"
  have "bits ?q = (bits p)[8 * bytesPos + bitsPos := True]"
  proof (rule nth_equalityI)
    fix i assume "i < length (bits ?q)"
    then have i: "i < 8 * length p" by simp
    have e: "i = 8 * bytesPos + bitsPos \<longleftrightarrow> i div 8 = bytesPos \<and> i mod 8 = bitsPos"
      using assms by auto
    have x: "i div 8 < length p" using i by (simp add: div_lt)
    have m: "i mod 8 < 8" by simp
    show "bits ?q ! i = (bits p)[8 * bytesPos + bitsPos := True] ! i"
    proof (cases "i div 8 = bytesPos")
      case True
      have "7 - i mod 8 = 7 - bitsPos \<longleftrightarrow> i mod 8 = bitsPos"
        using assms(2) m by linarith
      then show ?thesis using assms i e True
        by (auto simp: nth_bits nth_list_update bit_simps)
    next
      case False
      then show ?thesis using i e x by (simp add: nth_bits nth_list_update)
    qed
  qed simp
  then show ?thesis using assms(1) unfolding setBit_def by auto
qed

text \<open>
  A loop that tests one bit per round and sets the bit \<open>off + i\<close> of a cleared region appends the
  tested bits to the region.
\<close>

lemma setBits_loop:
  assumes "\<And>i. i < n \<Longrightarrow> h i = Some (c i)"
    and "\<And>i. i < n \<Longrightarrow> f i < length p \<and> g i < 8 \<and> 8 * f i + g i = length pre + i"
    and "bits p = pre @ replicate m False" and "n \<le> m"
  shows "\<exists>q. foldM (\<lambda>i p. do { b \<leftarrow> h i; if b then setBit p (f i) (g i) else Some p }) [0..<n] p = Some q \<and>
    length q = length p \<and> bits q = (pre @ map c [0..<n]) @ replicate (m - n) False"
proof (rule foldM_range_inv [where I = "\<lambda>i q. length q = length p \<and>
    bits q = (pre @ map c [0..<i]) @ replicate (m - i) False"])
  fix i q
  assume i: "0 \<le> i" "i < n"
    and q: "length q = length p \<and> bits q = (pre @ map c [0..<i]) @ replicate (m - i) False"
  have "m - i = Suc (m - Suc i)" using i assms(4) by simp
  then have r: "replicate (m - i) False = False # replicate (m - Suc i) False" by simp
  have fg: "f i < length q" "g i < 8" "8 * f i + g i = length (pre @ map c [0..<i])"
    using assms(2) [OF i(2)] q by simp_all
  obtain q' where q': "setBit q (f i) (g i) = Some q'" "length q' = length q"
    "bits q' = (bits q)[length (pre @ map c [0..<i]) := True]"
    using setBit_bits [OF fg(1,2)] unfolding fg(3) by blast
  show "\<exists>s'. do { b \<leftarrow> h i; if b then setBit q (f i) (g i) else Some q } = Some s' \<and>
    length s' = length p \<and> bits s' = (pre @ map c [0..<Suc i]) @ replicate (m - Suc i) False"
  proof (cases "c i")
    case True
    then show ?thesis using q q' assms(1) [OF i(2)] r
      by (simp add: list_update_append)
  next
    case False
    then show ?thesis using q assms(1) [OF i(2)] r by simp
  qed
qed (use assms in auto)

section \<open>Permutations by a table\<close>

text \<open>
  \<open>permute tab bs\<close> is the standard's notation: output bit \<open>i\<close> is the input bit whose number, counted
  from 1, is entry \<open>i\<close> of the table. \<open>bitTable\<close> is the loop of the code that does this on bytes:
  clear the \<open>dstLen\<close> bytes of the destination, then set bit \<open>i\<close> when the source bit is set.
\<close>

definition permute :: "nat list \<Rightarrow> 'a list \<Rightarrow> 'a list" where
  "permute tab bs = map (\<lambda>p. bs ! (p - 1)) tab"

definition bitTable :: "nat list \<Rightarrow> nat \<Rightarrow> nat \<Rightarrow> byte list \<Rightarrow> byte list option" where
  "bitTable tab tabLen dstLen src =
     foldM (\<lambda>i dst. do {
       entry \<leftarrow> rd tab i;
       b \<leftarrow> testBit src ((entry - 1) div 8) ((entry - 1) mod 8);
       if b then setBit dst (i div 8) (i mod 8) else Some dst
     }) [0..<tabLen] (replicate dstLen 0)"

definition table_ok :: "nat list \<Rightarrow> nat \<Rightarrow> bool" where
  "table_ok tab n \<longleftrightarrow> (\<forall>p \<in> set tab. 1 \<le> p \<and> p \<le> n)"

lemma length_permute [simp]: "length (permute tab bs) = length tab"
  by (simp add: permute_def)

lemma permute_cong_take:
  "table_ok tab n \<Longrightarrow> n \<le> length bs \<Longrightarrow> permute tab (take n bs) = permute tab bs"
  unfolding permute_def table_ok_def by (auto simp: Suc_le_eq intro!: nth_take)

lemma permute_permute:
  assumes "table_ok tab (length tab')"
  shows "permute tab (permute tab' bs) = permute (permute tab tab') bs"
  using assms unfolding permute_def table_ok_def by auto

lemma permute_id: "permute [1..<Suc (length bs)] bs = bs"
  by (rule nth_equalityI) (auto simp: permute_def nth_upt simp del: upt_Suc)

lemma bitTable_eq:
  assumes "table_ok tab (8 * length src)" and "length tab = 8 * n"
  shows "bitTable tab (8 * n) n src = Some (unbits (permute tab (bits src)))"
proof -
  let ?h = "\<lambda>i. do { entry \<leftarrow> rd tab i; testBit src ((entry - 1) div 8) ((entry - 1) mod 8) }"
  have h: "?h i = Some (permute tab (bits src) ! i)" if "i < 8 * n" for i
  proof -
    have "tab ! i \<in> set tab" using that assms(2) by simp
    then have "1 \<le> tab ! i" "tab ! i \<le> 8 * length src" using assms(1) unfolding table_ok_def by auto
    then have "(tab ! i - 1) div 8 < length src" by (simp add: div_lt)
    then show ?thesis using that assms(2)
      by (simp add: testBit_bits permute_def mult_div_mod_eq)
  qed
  have "\<exists>q. foldM (\<lambda>i p. do { b \<leftarrow> ?h i; if b then setBit p (i div 8) (i mod 8) else Some p })
      [0..<8 * n] (replicate n 0) = Some q \<and> length q = length (replicate n (0 :: byte)) \<and>
    bits q = ([] @ map (\<lambda>i. permute tab (bits src) ! i) [0..<8 * n]) @ replicate (8 * n - 8 * n) False"
    by (rule setBits_loop, rule h) (auto simp: bits_replicate_zero div_lt)
  then obtain q where q: "bitTable tab (8 * n) n src = Some q"
    "bits q = map (\<lambda>i. permute tab (bits src) ! i) [0..<8 * n]"
    unfolding bitTable_def by auto
  have "bits q = permute tab (bits src)"
    using q(2) assms(2) map_nth [of "permute tab (bits src)"] by simp
  then have "q = unbits (permute tab (bits src))" by (metis unbits_bits)
  then show ?thesis using q(1) by simp
qed

end
