(* ===== verification/MoCrypt.thy ===== *)
theory MoCrypt
  imports MoBits
begin

text \<open>The method enumeration of \<open>moSdk/inc/moCrypt.h\<close>, shared by the DES and BASE64 components.\<close>

datatype MOCRYPT_METHOD =
  MOCRYPT_METHOD_ENCRYPT | MOCRYPT_METHOD_DECRYPT | MOCRYPT_METHOD_OTHER int

end
