(* ===== verification/MoDES.thy ===== *)
theory MoDES
  imports MoCrypt
begin

text \<open>
  DES and triple DES of \<open>moSdk/Crypto/DES/src/moCrypt_DES.c\<close>: key expansion, the round function, the
  encryption and decryption of one block, and the ECB and CBC modes, with the tables of the source.
  The static functions are called with local arrays only, so their \<open>NULL\<close> guards never fire and
  they always return 0; the model of such a function returns its output array. Source and
  destination buffers do not overlap. Logging and the debug dump are left out.
\<close>

section \<open>Constants and tables\<close>

abbreviation (input) MOCRYPT_DES_ERR_OK :: int where
  "MOCRYPT_DES_ERR_OK \<equiv> 0"

abbreviation (input) MOCRYPT_DES_ERR_INPUTNULL :: int where
  "MOCRYPT_DES_ERR_INPUTNULL \<equiv> -23000"

abbreviation (input) MOCRYPT_DES_ERR_MALLOCFAILED :: int where
  "MOCRYPT_DES_ERR_MALLOCFAILED \<equiv> -23001"

abbreviation (input) MOCRYPT_DES_ERR_INPUTERROR :: int where
  "MOCRYPT_DES_ERR_INPUTERROR \<equiv> -23003"

abbreviation (input) MOCRYPT_DES_KEYLEN :: nat where
  "MOCRYPT_DES_KEYLEN \<equiv> 8"

abbreviation (input) KEYEX_ARRAY_LEN :: nat where
  "KEYEX_ARRAY_LEN \<equiv> 16"

abbreviation (input) KEYEX_ELE_LEN :: nat where
  "KEYEX_ELE_LEN \<equiv> 6"

abbreviation (input) KEYEX_RE_TABLE_LEN :: nat where
  "KEYEX_RE_TABLE_LEN \<equiv> 56"

abbreviation (input) KEYEX_RE_KEY_LEN :: nat where
  "KEYEX_RE_KEY_LEN \<equiv> 7"

abbreviation (input) KEYEX_RE_KEY_HALF_BITSLEN :: nat where
  "KEYEX_RE_KEY_HALF_BITSLEN \<equiv> 28"

abbreviation (input) UNIT_LEN_BYTES :: nat where
  "UNIT_LEN_BYTES \<equiv> 8"

abbreviation (input) UNIT_LEN_BITS :: nat where
  "UNIT_LEN_BITS \<equiv> 64"

abbreviation (input) UNIT_HALF_LEN_BYTES :: nat where
  "UNIT_HALF_LEN_BYTES \<equiv> 4"

abbreviation (input) UNIT_HALF_LEN_BITS :: nat where
  "UNIT_HALF_LEN_BITS \<equiv> 32"

abbreviation (input) SBOX_SUBTABLE_NUM :: nat where
  "SBOX_SUBTABLE_NUM \<equiv> 8"

abbreviation (input) UNIT_LOOP_CNT :: nat where
  "UNIT_LOOP_CNT \<equiv> 16"

definition gKeyExReplaceTable :: "nat list" where
  "gKeyExReplaceTable = [
    57, 49, 41, 33, 25, 17, 9, 1, 58, 50, 42, 34, 26, 18, 10, 2,
    59, 51, 43, 35, 27, 19, 11, 3, 60, 52, 44, 36, 63, 55, 47, 39,
    31, 23, 15, 7, 62, 54, 46, 38, 30, 22, 14, 6, 61, 53, 45, 37,
    29, 21, 13, 5, 28, 20, 12, 4]"

definition gCompressedTable :: "nat list" where
  "gCompressedTable = [
    14, 17, 11, 24, 1, 5, 3, 28, 15, 6, 21, 10, 23, 19, 12, 4,
    26, 8, 16, 7, 27, 20, 13, 2, 41, 52, 31, 37, 47, 55, 30, 40,
    51, 45, 33, 48, 44, 49, 39, 56, 34, 53, 46, 42, 50, 36, 29, 32]"

definition gLoopLeftShiftTable :: "nat list" where
  "gLoopLeftShiftTable = [
    1, 1, 2, 2, 2, 2, 2, 2, 1, 2, 2, 2, 2, 2, 2, 1]"

definition gRoundExReplaceTable :: "nat list" where
  "gRoundExReplaceTable = [
    32, 1, 2, 3, 4, 5, 4, 5, 6, 7, 8, 9, 8, 9, 10, 11,
    12, 13, 12, 13, 14, 15, 16, 17, 16, 17, 18, 19, 20, 21, 20, 21,
    22, 23, 24, 25, 24, 25, 26, 27, 28, 29, 28, 29, 30, 31, 32, 1]"

definition gRoundPboxTable :: "nat list" where
  "gRoundPboxTable = [
    16, 7, 20, 21, 29, 12, 28, 17, 1, 15, 23, 26, 5, 18, 31, 10,
    2, 8, 24, 14, 32, 27, 3, 9, 19, 13, 30, 6, 22, 11, 4, 25]"

definition gIpTable :: "nat list" where
  "gIpTable = [
    58, 50, 42, 34, 26, 18, 10, 2, 60, 52, 44, 36, 28, 20, 12, 4,
    62, 54, 46, 38, 30, 22, 14, 6, 64, 56, 48, 40, 32, 24, 16, 8,
    57, 49, 41, 33, 25, 17, 9, 1, 59, 51, 43, 35, 27, 19, 11, 3,
    61, 53, 45, 37, 29, 21, 13, 5, 63, 55, 47, 39, 31, 23, 15, 7]"

definition gIpInvTable :: "nat list" where
  "gIpInvTable = [
    40, 8, 48, 16, 56, 24, 64, 32, 39, 7, 47, 15, 55, 23, 63, 31,
    38, 6, 46, 14, 54, 22, 62, 30, 37, 5, 45, 13, 53, 21, 61, 29,
    36, 4, 44, 12, 52, 20, 60, 28, 35, 3, 43, 11, 51, 19, 59, 27,
    34, 2, 42, 10, 50, 18, 58, 26, 33, 1, 41, 9, 49, 17, 57, 25]"

definition gRoundSboxTable :: "byte list list" where
  "gRoundSboxTable = [
    [14, 4, 13, 1, 2, 15, 11, 8, 3, 10, 6, 12, 5, 9, 0, 7,
     0, 15, 7, 4, 14, 2, 13, 1, 10, 6, 12, 11, 9, 5, 3, 8,
     4, 1, 14, 8, 13, 6, 2, 11, 15, 12, 9, 7, 3, 10, 5, 0,
     15, 12, 8, 2, 4, 9, 1, 7, 5, 11, 3, 14, 10, 0, 6, 13],
    [15, 1, 8, 14, 6, 11, 3, 4, 9, 7, 2, 13, 12, 0, 5, 10,
     3, 13, 4, 7, 15, 2, 8, 14, 12, 0, 1, 10, 6, 9, 11, 5,
     0, 14, 7, 11, 10, 4, 13, 1, 5, 8, 12, 6, 9, 3, 2, 15,
     13, 8, 10, 1, 3, 15, 4, 2, 11, 6, 7, 12, 0, 5, 14, 9],
    [10, 0, 9, 14, 6, 3, 15, 5, 1, 13, 12, 7, 11, 4, 2, 8,
     13, 7, 0, 9, 3, 4, 6, 10, 2, 8, 5, 14, 12, 11, 15, 1,
     13, 6, 4, 9, 8, 15, 3, 0, 11, 1, 2, 12, 5, 10, 14, 7,
     1, 10, 13, 0, 6, 9, 8, 7, 4, 15, 14, 3, 11, 5, 2, 12],
    [7, 13, 14, 3, 0, 6, 9, 10, 1, 2, 8, 5, 11, 12, 4, 15,
     13, 8, 11, 5, 6, 15, 0, 3, 4, 7, 2, 12, 1, 10, 14, 9,
     10, 6, 9, 0, 12, 11, 7, 13, 15, 1, 3, 14, 5, 2, 8, 4,
     3, 15, 0, 6, 10, 1, 13, 8, 9, 4, 5, 11, 12, 7, 2, 14],
    [2, 12, 4, 1, 7, 10, 11, 6, 8, 5, 3, 15, 13, 0, 14, 9,
     14, 11, 2, 12, 4, 7, 13, 1, 5, 0, 15, 10, 3, 9, 8, 6,
     4, 2, 1, 11, 10, 13, 7, 8, 15, 9, 12, 5, 6, 3, 0, 14,
     11, 8, 12, 7, 1, 14, 2, 13, 6, 15, 0, 9, 10, 4, 5, 3],
    [12, 1, 10, 15, 9, 2, 6, 8, 0, 13, 3, 4, 14, 7, 5, 11,
     10, 15, 4, 2, 7, 12, 0, 5, 6, 1, 13, 14, 0, 11, 3, 8,
     9, 14, 15, 5, 2, 8, 12, 3, 7, 0, 4, 10, 1, 13, 11, 6,
     4, 3, 2, 12, 9, 5, 15, 10, 11, 14, 1, 7, 6, 0, 8, 13],
    [4, 11, 2, 14, 15, 0, 8, 13, 3, 12, 9, 7, 5, 10, 6, 1,
     13, 0, 11, 7, 4, 0, 1, 10, 14, 3, 5, 12, 2, 15, 8, 6,
     1, 4, 11, 13, 12, 3, 7, 14, 10, 15, 6, 8, 0, 5, 9, 2,
     6, 11, 13, 8, 1, 4, 10, 7, 9, 5, 0, 15, 14, 2, 3, 12],
    [13, 2, 8, 4, 6, 15, 11, 1, 10, 9, 3, 14, 5, 0, 12, 7,
     1, 15, 13, 8, 10, 3, 7, 4, 12, 5, 6, 11, 0, 14, 9, 2,
     7, 11, 4, 1, 9, 12, 14, 2, 0, 6, 10, 13, 15, 3, 5, 8,
     2, 1, 14, 7, 4, 10, 8, 13, 15, 12, 9, 0, 3, 5, 6, 11]]"

section \<open>Key expansion\<close>

definition keyExReplace :: "byte list \<Rightarrow> byte list option" where
  "keyExReplace pKey = bitTable gKeyExReplaceTable KEYEX_RE_TABLE_LEN KEYEX_RE_KEY_LEN pKey"

text \<open>The three loops of \<open>splitReKey\<close> copy one bit each round into a byte that is 0 or 1.\<close>

definition splitReKey :: "byte list \<Rightarrow> (byte list \<times> byte list) option" where
  "splitReKey pReKey = do {
     pLeft \<leftarrow> foldM (\<lambda>i pLeft. do {
       b \<leftarrow> testBit pReKey (i div 8) (i mod 8);
       if b then wr pLeft i 1 else Some pLeft
     }) [0..<KEYEX_RE_KEY_HALF_BITSLEN] (replicate KEYEX_RE_KEY_HALF_BITSLEN 0);
     pRight \<leftarrow> foldM (\<lambda>i pRight. do {
       b \<leftarrow> testBit pReKey 3 (i + 4);
       if b then wr pRight i 1 else Some pRight
     }) [0..<4] (replicate KEYEX_RE_KEY_HALF_BITSLEN 0);
     pRight \<leftarrow> foldM (\<lambda>i pRight. do {
       b \<leftarrow> testBit pReKey (i div 8 + 4) (i mod 8);
       if b then wr pRight (i + 4) 1 else Some pRight
     }) [0..<KEYEX_RE_KEY_HALF_BITSLEN - 4] pRight;
     Some (pLeft, pRight)
   }"

text \<open>
  \<open>mallocOk n\<close> says whether \<open>malloc(n)\<close> succeeds. The result is the return value and the array; the
  callers ignore the return value.
\<close>

definition loopLeftShiftArray :: "(nat \<Rightarrow> bool) \<Rightarrow> byte list \<Rightarrow> nat \<Rightarrow> nat \<Rightarrow> (int \<times> byte list) option" where
  "loopLeftShiftArray mallocOk pArray arrLen shiftNum =
     (if shiftNum mod arrLen = 0 then Some (0, pArray)
      else
        let realShiftNum = (if shiftNum > arrLen then shiftNum mod arrLen else shiftNum) in
        if \<not> mallocOk arrLen then Some (MOCRYPT_DES_ERR_MALLOCFAILED, pArray)
        else do {
          pTmp \<leftarrow> foldM (\<lambda>i pTmp. do {
            v \<leftarrow> rd pArray i;
            wr pTmp (i - realShiftNum) v
          }) [realShiftNum..<arrLen] (replicate arrLen 0);
          pTmp \<leftarrow> foldM (\<lambda>i pTmp. do {
            v \<leftarrow> rd pArray i;
            wr pTmp (arrLen - realShiftNum + i) v
          }) [0..<realShiftNum] pTmp;
          pArray \<leftarrow> wrn pArray 0 pTmp;
          Some (0, pArray)
        })"

definition joinHalf2ReKey :: "byte list \<Rightarrow> byte list \<Rightarrow> byte list option" where
  "joinHalf2ReKey pLeft pRight = do {
     pReKey \<leftarrow> foldM (\<lambda>i pReKey. do {
       b \<leftarrow> rd pLeft i;
       if b \<noteq> 0 then setBit pReKey (i div 8) (i mod 8) else Some pReKey
     }) [0..<KEYEX_RE_KEY_HALF_BITSLEN] (replicate KEYEX_RE_KEY_LEN 0);
     pReKey \<leftarrow> foldM (\<lambda>i pReKey. do {
       b \<leftarrow> rd pRight i;
       if b \<noteq> 0 then setBit pReKey 3 (i + 4) else Some pReKey
     }) [0..<4] pReKey;
     foldM (\<lambda>i pReKey. do {
       b \<leftarrow> rd pRight (i + 4);
       if b \<noteq> 0 then setBit pReKey (i div 8 + 4) (i mod 8) else Some pReKey
     }) [0..<KEYEX_RE_KEY_HALF_BITSLEN - 4] pReKey
   }"

definition compReKey :: "byte list \<Rightarrow> byte list option" where
  "compReKey pReKey = bitTable gCompressedTable (KEYEX_ELE_LEN * 8) KEYEX_ELE_LEN pReKey"

definition keyExGetKey ::
    "(nat \<Rightarrow> bool) \<Rightarrow> byte list \<Rightarrow> byte list \<Rightarrow> nat \<Rightarrow> byte list \<Rightarrow> (int \<times> byte list) option" where
  "keyExGetKey mallocOk pLeft pRight loopCnt pCurKeyEx =
     (if loopCnt \<ge> KEYEX_ARRAY_LEN then Some (-2, pCurKeyEx)
      else do {
        leftPart \<leftarrow> rdn pLeft 0 KEYEX_RE_KEY_HALF_BITSLEN;
        rightPart \<leftarrow> rdn pRight 0 KEYEX_RE_KEY_HALF_BITSLEN;
        loopNum \<leftarrow> foldM (\<lambda>i loopNum. do {
          s \<leftarrow> rd gLoopLeftShiftTable i;
          Some (loopNum + s)
        }) [0..<loopCnt + 1] 0;
        (_, leftPart) \<leftarrow> loopLeftShiftArray mallocOk leftPart KEYEX_RE_KEY_HALF_BITSLEN loopNum;
        (_, rightPart) \<leftarrow> loopLeftShiftArray mallocOk rightPart KEYEX_RE_KEY_HALF_BITSLEN loopNum;
        curReKey \<leftarrow> joinHalf2ReKey leftPart rightPart;
        pCurKeyEx \<leftarrow> compReKey curReKey;
        Some (0, pCurKeyEx)
      })"

definition keyExpand :: "(nat \<Rightarrow> bool) \<Rightarrow> byte list \<Rightarrow> byte list list option" where
  "keyExpand mallocOk pKey = do {
     replaceKey \<leftarrow> keyExReplace pKey;
     (leftHalf, rightHalf) \<leftarrow> splitReKey replaceKey;
     foldM (\<lambda>i pKeyEx. do {
       row \<leftarrow> rd pKeyEx i;
       (_, row) \<leftarrow> keyExGetKey mallocOk leftHalf rightHalf i row;
       wr pKeyEx i row
     }) [0..<KEYEX_ARRAY_LEN] (replicate KEYEX_ARRAY_LEN (replicate KEYEX_ELE_LEN 0))
   }"

section \<open>One round\<close>

definition roundExReplace :: "byte list \<Rightarrow> byte list option" where
  "roundExReplace pOrg = bitTable gRoundExReplaceTable (KEYEX_ELE_LEN * 8) KEYEX_ELE_LEN pOrg"

text \<open>The \<open>len\<close> bytes that \<open>roundXor\<close> writes; the caller puts them at the destination pointer.\<close>

definition roundXor :: "byte list \<Rightarrow> byte list \<Rightarrow> nat \<Rightarrow> byte list option" where
  "roundXor pPart1 pPart2 len =
     foldM (\<lambda>i pXor. do {
       v \<leftarrow> do { a \<leftarrow> rd pPart1 i; b \<leftarrow> rd pPart2 i; Some (a XOR b) };
       wr pXor i v
     }) [0..<len] (replicate len 0)"

definition roundSboxSplitKey :: "byte list \<Rightarrow> byte list option" where
  "roundSboxSplitKey pBytes =
     foldM (\<lambda>i pBits. foldM (\<lambda>j pBits. do {
       b \<leftarrow> testBit pBytes i j;
       if b then wr pBits (i * 8 + j) 1 else Some pBits
     }) [0..<8] pBits) [0..<KEYEX_ELE_LEN] (replicate (KEYEX_ELE_LEN * 8) 0)"

text \<open>The body of the loop over the eight groups of six bits in \<open>roundSbox\<close>.\<close>

definition sboxStep :: "byte list \<Rightarrow> nat \<Rightarrow> byte list \<Rightarrow> byte list option" where
  "sboxStep pOrgBits i pDst = do {
     b0 \<leftarrow> rd pOrgBits (0 + i * KEYEX_ELE_LEN);
     b5 \<leftarrow> rd pOrgBits (5 + i * KEYEX_ELE_LEN);
     let rowNum = push_bit 1 b0 OR push_bit 0 b5;
     b1 \<leftarrow> rd pOrgBits (1 + i * KEYEX_ELE_LEN);
     b2 \<leftarrow> rd pOrgBits (2 + i * KEYEX_ELE_LEN);
     b3 \<leftarrow> rd pOrgBits (3 + i * KEYEX_ELE_LEN);
     b4 \<leftarrow> rd pOrgBits (4 + i * KEYEX_ELE_LEN);
     let columnNum = push_bit 3 b1 OR push_bit 2 b2 OR push_bit 1 b3 OR push_bit 0 b4;
     subtable \<leftarrow> rd gRoundSboxTable i;
     val \<leftarrow> rd subtable (unat rowNum * 16 + unat columnNum);
     let idx = i div 2;
     d \<leftarrow> rd pDst idx;
     if i mod 2 = 0 then wr pDst idx (d OR push_bit 4 val)
     else wr pDst idx (d OR val)
   }"

definition roundSbox :: "byte list \<Rightarrow> byte list option" where
  "roundSbox pOrg = do {
     pOrgBits \<leftarrow> roundSboxSplitKey pOrg;
     foldM (sboxStep pOrgBits) [0..<SBOX_SUBTABLE_NUM] (replicate UNIT_HALF_LEN_BYTES 0)
   }"

definition roundPbox :: "byte list \<Rightarrow> byte list option" where
  "roundPbox pValue = bitTable gRoundPboxTable UNIT_HALF_LEN_BITS UNIT_HALF_LEN_BYTES pValue"

definition cryptRound :: "byte list \<Rightarrow> byte list \<Rightarrow> byte list \<Rightarrow> (byte list \<times> byte list) option" where
  "cryptRound pLeft pRight pCurKeyEx = do {
     orgLeft \<leftarrow> rdn pLeft 0 UNIT_HALF_LEN_BYTES;
     orgRight \<leftarrow> rdn pRight 0 UNIT_HALF_LEN_BYTES;
     pLeft \<leftarrow> wrn pLeft 0 orgRight;
     exOrgRight \<leftarrow> roundExReplace orgRight;
     xorOrgRight \<leftarrow> roundXor exOrgRight pCurKeyEx KEYEX_ELE_LEN;
     sboxRight \<leftarrow> roundSbox xorOrgRight;
     sboxRight \<leftarrow> roundPbox sboxRight;
     right \<leftarrow> roundXor sboxRight orgLeft UNIT_HALF_LEN_BYTES;
     pRight \<leftarrow> wrn pRight 0 right;
     Some (pLeft, pRight)
   }"

section \<open>One block\<close>

definition ipConv :: "byte list \<Rightarrow> byte list option" where
  "ipConv pSrc = bitTable gIpTable UNIT_LEN_BITS UNIT_LEN_BYTES pSrc"

definition ipInvConv :: "byte list \<Rightarrow> byte list option" where
  "ipInvConv pSrc = bitTable gIpInvTable UNIT_LEN_BITS UNIT_LEN_BYTES pSrc"

definition splitUnit2Half :: "byte list \<Rightarrow> (byte list \<times> byte list) option" where
  "splitUnit2Half pSrc = do {
     pLeftHalf \<leftarrow> foldM (\<lambda>i p. do { v \<leftarrow> rd pSrc i; wr p i v })
       [0..<UNIT_HALF_LEN_BYTES] (replicate UNIT_HALF_LEN_BYTES 0);
     pRightHalf \<leftarrow> foldM (\<lambda>i p. do { v \<leftarrow> rd pSrc (i + UNIT_HALF_LEN_BYTES); wr p i v })
       [0..<UNIT_HALF_LEN_BYTES] (replicate UNIT_HALF_LEN_BYTES 0);
     Some (pLeftHalf, pRightHalf)
   }"

definition joinHalf2Unit :: "byte list \<Rightarrow> byte list \<Rightarrow> byte list option" where
  "joinHalf2Unit pLeftHalf pRightHalf = do {
     pDst \<leftarrow> foldM (\<lambda>i p. do { v \<leftarrow> rd pLeftHalf i; wr p i v })
       [0..<UNIT_HALF_LEN_BYTES] (replicate UNIT_LEN_BYTES 0);
     foldM (\<lambda>i p. do { v \<leftarrow> rd pRightHalf i; wr p (i + UNIT_HALF_LEN_BYTES) v })
       [0..<UNIT_HALF_LEN_BYTES] pDst
   }"

definition unitEncrypt :: "byte list list \<Rightarrow> byte list \<Rightarrow> byte list option" where
  "unitEncrypt keyEx pSrcUnit = do {
     tmp \<leftarrow> ipConv pSrcUnit;
     halves \<leftarrow> splitUnit2Half tmp;
     (leftHalf, rightHalf) \<leftarrow> foldM (\<lambda>loopCnt (leftHalf, rightHalf). do {
       k \<leftarrow> rd keyEx loopCnt;
       cryptRound leftHalf rightHalf k
     }) [0..<UNIT_LOOP_CNT] halves;
     let (leftHalf, rightHalf) = (rightHalf, leftHalf);
     tmp \<leftarrow> joinHalf2Unit leftHalf rightHalf;
     ipInvConv tmp
   }"

definition unitDecrypt :: "byte list list \<Rightarrow> byte list \<Rightarrow> byte list option" where
  "unitDecrypt keyEx pSrcUnit = do {
     tmp \<leftarrow> ipConv pSrcUnit;
     halves \<leftarrow> splitUnit2Half tmp;
     (leftHalf, rightHalf) \<leftarrow> foldM (\<lambda>loopCnt (leftHalf, rightHalf). do {
       k \<leftarrow> rd keyEx (UNIT_LOOP_CNT - loopCnt - 1);
       cryptRound leftHalf rightHalf k
     }) [0..<UNIT_LOOP_CNT] halves;
     let (leftHalf, rightHalf) = (rightHalf, leftHalf);
     tmp \<leftarrow> joinHalf2Unit leftHalf rightHalf;
     ipInvConv tmp
   }"

section \<open>ECB and CBC\<close>

text \<open>
  The loops over the blocks. \<open>pSrc + cnt * UNIT_LEN_BYTES\<close> is read with \<open>rdn\<close> and the block is
  stored at \<open>pDst + cnt * UNIT_LEN_BYTES\<close> with \<open>wrn\<close>. \<open>ecbEnCrypt\<close> and \<open>ecbDeCrypt\<close> differ in the
  function applied to a block.
\<close>

definition ecbUnits ::
    "(byte list \<Rightarrow> byte list option) \<Rightarrow> byte list \<Rightarrow> nat \<Rightarrow> byte list \<Rightarrow> byte list option" where
  "ecbUnits unit pSrc srcLen pDst =
     foldM (\<lambda>cnt pDst. do {
       srcUnit \<leftarrow> rdn pSrc (cnt * UNIT_LEN_BYTES) UNIT_LEN_BYTES;
       dstUnit \<leftarrow> unit srcUnit;
       wrn pDst (cnt * UNIT_LEN_BYTES) dstUnit
     }) [0..<srcLen div UNIT_LEN_BYTES] pDst"

definition ecbEnCrypt ::
    "(nat \<Rightarrow> bool) \<Rightarrow> byte list \<Rightarrow> nat \<Rightarrow> byte list \<Rightarrow> byte list \<Rightarrow> byte list option" where
  "ecbEnCrypt mallocOk pSrc srcLen pKey pDst = do {
     keyEx \<leftarrow> keyExpand mallocOk pKey;
     ecbUnits (unitEncrypt keyEx) pSrc srcLen pDst
   }"

definition ecbDeCrypt ::
    "(nat \<Rightarrow> bool) \<Rightarrow> byte list \<Rightarrow> nat \<Rightarrow> byte list \<Rightarrow> byte list \<Rightarrow> byte list option" where
  "ecbDeCrypt mallocOk pSrc srcLen pKey pDst = do {
     keyEx \<leftarrow> keyExpand mallocOk pKey;
     ecbUnits (unitDecrypt keyEx) pSrc srcLen pDst
   }"

definition cbcEnUnits ::
    "(byte list \<Rightarrow> byte list option) \<Rightarrow> byte list \<Rightarrow> nat \<Rightarrow> byte list \<Rightarrow> byte list \<Rightarrow> byte list option" where
  "cbcEnUnits unit pSrc srcLen pIv pDst = do {
     firstUnit \<leftarrow> roundXor pSrc pIv UNIT_LEN_BYTES;
     dstUnit \<leftarrow> unit firstUnit;
     pDst \<leftarrow> wrn pDst 0 dstUnit;
     foldM (\<lambda>cnt pDst. do {
       srcUnit \<leftarrow> rdn pSrc (cnt * UNIT_LEN_BYTES) UNIT_LEN_BYTES;
       prev \<leftarrow> rdn pDst ((cnt - 1) * UNIT_LEN_BYTES) UNIT_LEN_BYTES;
       curUnit \<leftarrow> roundXor srcUnit prev UNIT_LEN_BYTES;
       dstUnit \<leftarrow> unit curUnit;
       wrn pDst (cnt * UNIT_LEN_BYTES) dstUnit
     }) [1..<srcLen div UNIT_LEN_BYTES] pDst
   }"

definition cbcEnCrypt ::
    "(nat \<Rightarrow> bool) \<Rightarrow> byte list \<Rightarrow> nat \<Rightarrow> byte list \<Rightarrow> byte list \<Rightarrow> byte list \<Rightarrow> byte list option" where
  "cbcEnCrypt mallocOk pSrc srcLen pKey pIv pDst = do {
     keyEx \<leftarrow> keyExpand mallocOk pKey;
     cbcEnUnits (unitEncrypt keyEx) pSrc srcLen pIv pDst
   }"

definition cbcDeUnits ::
    "(byte list \<Rightarrow> byte list option) \<Rightarrow> byte list \<Rightarrow> nat \<Rightarrow> byte list \<Rightarrow> byte list \<Rightarrow> byte list option" where
  "cbcDeUnits unit pSrc srcLen pIv pDst = do {
     srcUnit \<leftarrow> rdn pSrc 0 UNIT_LEN_BYTES;
     firstUnit \<leftarrow> unit srcUnit;
     dstUnit \<leftarrow> roundXor firstUnit pIv UNIT_LEN_BYTES;
     pDst \<leftarrow> wrn pDst 0 dstUnit;
     foldM (\<lambda>cnt pDst. do {
       srcUnit \<leftarrow> rdn pSrc (cnt * UNIT_LEN_BYTES) UNIT_LEN_BYTES;
       curUnit \<leftarrow> unit srcUnit;
       prev \<leftarrow> rdn pSrc ((cnt - 1) * UNIT_LEN_BYTES) UNIT_LEN_BYTES;
       dstUnit \<leftarrow> roundXor curUnit prev UNIT_LEN_BYTES;
       wrn pDst (cnt * UNIT_LEN_BYTES) dstUnit
     }) [1..<srcLen div UNIT_LEN_BYTES] pDst
   }"

definition cbcDeCrypt ::
    "(nat \<Rightarrow> bool) \<Rightarrow> byte list \<Rightarrow> nat \<Rightarrow> byte list \<Rightarrow> byte list \<Rightarrow> byte list \<Rightarrow> byte list option" where
  "cbcDeCrypt mallocOk pSrc srcLen pKey pIv pDst = do {
     keyEx \<leftarrow> keyExpand mallocOk pKey;
     cbcDeUnits (unitDecrypt keyEx) pSrc srcLen pIv pDst
   }"

text \<open>
  The local array \<open>key\<close> of the two exported DES functions: the first bytes of the user's key, padded
  with zeros. The source fills it and then passes \<open>pKey\<close> itself on; only its reads matter.
\<close>

definition desKey :: "byte list \<Rightarrow> nat \<Rightarrow> byte list option" where
  "desKey pKey keyLen =
     (if MOCRYPT_DES_KEYLEN < keyLen then rdn pKey 0 MOCRYPT_DES_KEYLEN
      else if MOCRYPT_DES_KEYLEN > keyLen then do {
        k \<leftarrow> rdn pKey 0 keyLen;
        wrn (replicate MOCRYPT_DES_KEYLEN 0) 0 k
      }
      else rdn pKey 0 MOCRYPT_DES_KEYLEN)"

text \<open>
  The exported functions return the return value, the destination buffer and the number behind
  \<open>pDstLen\<close> afterwards.
\<close>

type_synonym des_result = "(int \<times> byte ptr \<times> nat option) option"

definition moCrypt_DES_ECB ::
    "(nat \<Rightarrow> bool) \<Rightarrow> MOCRYPT_METHOD \<Rightarrow> byte ptr \<Rightarrow> nat \<Rightarrow> byte ptr \<Rightarrow> nat \<Rightarrow>
     byte ptr \<Rightarrow> nat option \<Rightarrow> des_result" where
  "moCrypt_DES_ECB mallocOk method pSrc srcLen pKey keyLen pDst pDstLen =
     (case (pSrc, pKey, pDst, pDstLen) of
        (Some src, Some ukey, Some dst, Some _) \<Rightarrow>
          if srcLen = 0 then Some (MOCRYPT_DES_ERR_INPUTERROR, pDst, pDstLen)
          else if srcLen mod UNIT_LEN_BYTES \<noteq> 0 then Some (MOCRYPT_DES_ERR_INPUTERROR, pDst, pDstLen)
          else do {
            _ \<leftarrow> desKey ukey keyLen;
            (case method of
               MOCRYPT_METHOD_ENCRYPT \<Rightarrow> do {
                 dst \<leftarrow> ecbEnCrypt mallocOk src srcLen ukey dst;
                 Some (MOCRYPT_DES_ERR_OK, Some dst, Some srcLen)
               }
             | MOCRYPT_METHOD_DECRYPT \<Rightarrow> do {
                 dst \<leftarrow> ecbDeCrypt mallocOk src srcLen ukey dst;
                 Some (MOCRYPT_DES_ERR_OK, Some dst, Some srcLen)
               }
             | MOCRYPT_METHOD_OTHER _ \<Rightarrow> Some (MOCRYPT_DES_ERR_INPUTERROR, pDst, pDstLen))
          }
      | _ \<Rightarrow> Some (MOCRYPT_DES_ERR_INPUTNULL, pDst, pDstLen))"

definition moCrypt_DES_CBC ::
    "(nat \<Rightarrow> bool) \<Rightarrow> MOCRYPT_METHOD \<Rightarrow> byte ptr \<Rightarrow> nat \<Rightarrow> byte ptr \<Rightarrow> nat \<Rightarrow>
     byte ptr \<Rightarrow> byte ptr \<Rightarrow> nat option \<Rightarrow> des_result" where
  "moCrypt_DES_CBC mallocOk method pSrc srcLen pKey keyLen pIv pDst pDstLen =
     (case (pSrc, pKey, pIv, pDst, pDstLen) of
        (Some src, Some ukey, Some iv, Some dst, Some _) \<Rightarrow>
          if srcLen = 0 then Some (MOCRYPT_DES_ERR_INPUTERROR, pDst, pDstLen)
          else if srcLen mod UNIT_LEN_BYTES \<noteq> 0 then Some (MOCRYPT_DES_ERR_INPUTERROR, pDst, pDstLen)
          else do {
            _ \<leftarrow> desKey ukey keyLen;
            (case method of
               MOCRYPT_METHOD_ENCRYPT \<Rightarrow> do {
                 dst \<leftarrow> cbcEnCrypt mallocOk src srcLen ukey iv dst;
                 Some (MOCRYPT_DES_ERR_OK, Some dst, Some srcLen)
               }
             | MOCRYPT_METHOD_DECRYPT \<Rightarrow> do {
                 dst \<leftarrow> cbcDeCrypt mallocOk src srcLen ukey iv dst;
                 Some (MOCRYPT_DES_ERR_OK, Some dst, Some srcLen)
               }
             | MOCRYPT_METHOD_OTHER _ \<Rightarrow> Some (MOCRYPT_DES_ERR_INPUTERROR, pDst, pDstLen))
          }
      | _ \<Rightarrow> Some (MOCRYPT_DES_ERR_INPUTNULL, pDst, pDstLen))"

section \<open>Triple DES\<close>

definition des3Key :: "byte list \<Rightarrow> nat \<Rightarrow> byte list option" where
  "des3Key pKey keyLen =
     (if keyLen \<ge> MOCRYPT_DES_KEYLEN * 3 then rdn pKey 0 (MOCRYPT_DES_KEYLEN * 3)
      else do {
        k \<leftarrow> rdn pKey 0 keyLen;
        wrn (replicate (MOCRYPT_DES_KEYLEN * 3) 0) 0 k
      })"

text \<open>
  The three passes. \<open>des method src srcLen key dst\<close> is the call of the single DES function of the
  mode; a pass that fails ends the function with its code. \<open>pTmp\<close> is fresh memory, written before
  it is read.
\<close>

definition des3Passes ::
    "(MOCRYPT_METHOD \<Rightarrow> byte ptr \<Rightarrow> nat \<Rightarrow> byte ptr \<Rightarrow> byte ptr \<Rightarrow> nat option \<Rightarrow> des_result) \<Rightarrow>
     MOCRYPT_METHOD \<Rightarrow> byte ptr \<Rightarrow> nat \<Rightarrow> byte list \<Rightarrow> byte ptr \<Rightarrow> nat option \<Rightarrow> des_result" where
  "des3Passes des method pSrc srcLen key pDst pDstLen = do {
     let isEnc = (method = MOCRYPT_METHOD_ENCRYPT);
     let outer = (if isEnc then MOCRYPT_METHOD_ENCRYPT else MOCRYPT_METHOD_DECRYPT);
     let inner = (if isEnc then MOCRYPT_METHOD_DECRYPT else MOCRYPT_METHOD_ENCRYPT);
     (ret, pDst, pDstLen) \<leftarrow> des outer pSrc srcLen
        (Some (drop (if isEnc then 0 else MOCRYPT_DES_KEYLEN * 2) key)) pDst pDstLen;
     if ret \<noteq> MOCRYPT_DES_ERR_OK then Some (ret, pDst, pDstLen)
     else do {
       len \<leftarrow> pDstLen;
       (ret, pTmp, pDstLen) \<leftarrow> des inner pDst len
          (Some (drop MOCRYPT_DES_KEYLEN key)) (Some (replicate srcLen 0)) pDstLen;
       if ret \<noteq> MOCRYPT_DES_ERR_OK then Some (ret, pDst, pDstLen)
       else do {
         len \<leftarrow> pDstLen;
         (ret, pDst, pDstLen) \<leftarrow> des outer pTmp len
            (Some (drop (if isEnc then MOCRYPT_DES_KEYLEN * 2 else 0) key)) pDst pDstLen;
         Some (ret, pDst, pDstLen)
       }
     }
   }"

definition moCrypt_DES3_ECB ::
    "(nat \<Rightarrow> bool) \<Rightarrow> MOCRYPT_METHOD \<Rightarrow> byte ptr \<Rightarrow> nat \<Rightarrow> byte ptr \<Rightarrow> nat \<Rightarrow>
     byte ptr \<Rightarrow> nat option \<Rightarrow> des_result" where
  "moCrypt_DES3_ECB mallocOk method pSrc srcLen pKey keyLen pDst pDstLen =
     (case (pSrc, pKey, pDst, pDstLen) of
        (Some src, Some ukey, Some dst, Some _) \<Rightarrow>
          if srcLen = 0 then Some (MOCRYPT_DES_ERR_INPUTERROR, pDst, pDstLen)
          else if srcLen mod UNIT_LEN_BYTES \<noteq> 0 then Some (MOCRYPT_DES_ERR_INPUTERROR, pDst, pDstLen)
          else do {
            key \<leftarrow> des3Key ukey keyLen;
            if \<not> mallocOk srcLen then Some (MOCRYPT_DES_ERR_MALLOCFAILED, pDst, pDstLen)
            else des3Passes (\<lambda>m s n k. moCrypt_DES_ECB mallocOk m s n k MOCRYPT_DES_KEYLEN)
              method pSrc srcLen key pDst pDstLen
          }
      | _ \<Rightarrow> Some (MOCRYPT_DES_ERR_INPUTNULL, pDst, pDstLen))"

definition moCrypt_DES3_CBC ::
    "(nat \<Rightarrow> bool) \<Rightarrow> MOCRYPT_METHOD \<Rightarrow> byte ptr \<Rightarrow> nat \<Rightarrow> byte ptr \<Rightarrow> nat \<Rightarrow>
     byte ptr \<Rightarrow> byte ptr \<Rightarrow> nat option \<Rightarrow> des_result" where
  "moCrypt_DES3_CBC mallocOk method pSrc srcLen pKey keyLen pIv pDst pDstLen =
     (case (pSrc, pKey, pIv, pDst, pDstLen) of
        (Some src, Some ukey, Some iv, Some dst, Some _) \<Rightarrow>
          if srcLen = 0 then Some (MOCRYPT_DES_ERR_INPUTERROR, pDst, pDstLen)
          else if srcLen mod UNIT_LEN_BYTES \<noteq> 0 then Some (MOCRYPT_DES_ERR_INPUTERROR, pDst, pDstLen)
          else do {
            key \<leftarrow> des3Key ukey keyLen;
            if \<not> mallocOk srcLen then Some (MOCRYPT_DES_ERR_MALLOCFAILED, pDst, pDstLen)
            else des3Passes (\<lambda>m s n k. moCrypt_DES_CBC mallocOk m s n k MOCRYPT_DES_KEYLEN pIv)
              method pSrc srcLen key pDst pDstLen
          }
      | _ \<Rightarrow> Some (MOCRYPT_DES_ERR_INPUTNULL, pDst, pDstLen))"

section \<open>The tables\<close>

lemma tables_ok [simp]:
  "table_ok gKeyExReplaceTable 64" "table_ok gCompressedTable 56" "table_ok gRoundExReplaceTable 32"
  "table_ok gRoundPboxTable 32" "table_ok gIpTable 64" "table_ok gIpInvTable 64"
  by (simp_all add: table_ok_def gKeyExReplaceTable_def gCompressedTable_def
    gRoundExReplaceTable_def gRoundPboxTable_def gIpTable_def gIpInvTable_def)

lemma tables_length [simp]:
  "length gKeyExReplaceTable = 56" "length gCompressedTable = 48" "length gLoopLeftShiftTable = 16"
  "length gRoundExReplaceTable = 48" "length gRoundPboxTable = 32" "length gIpTable = 64"
  "length gIpInvTable = 64" "length gRoundSboxTable = 8"
  by (simp_all add: gKeyExReplaceTable_def gCompressedTable_def gLoopLeftShiftTable_def
    gRoundExReplaceTable_def gRoundPboxTable_def gIpTable_def gIpInvTable_def gRoundSboxTable_def)

lemma ip_inverse:
  "permute gIpTable gIpInvTable = [1..<65]" "permute gIpInvTable gIpTable = [1..<65]"
  by (simp_all add: permute_def gIpTable_def gIpInvTable_def upt_rec)

lemma sbox_entries:
  "\<forall>t \<in> set gRoundSboxTable. length t = 64 \<and> (\<forall>v \<in> set t. v < 16)"
  by (simp add: gRoundSboxTable_def)

section \<open>Reference: DES on bit strings\<close>

text \<open>
  DES as the standard writes it, on strings of bits, over the tables of the source. The refinement
  lemmas below show that the byte-level code computes it.
\<close>

definition xor_bits :: "bool list \<Rightarrow> bool list \<Rightarrow> bool list" where
  "xor_bits = map2 (\<noteq>)"

definition nibble :: "byte \<Rightarrow> bool list" where
  "nibble v = map (\<lambda>k. bit v (3 - k)) [0..<4]"

definition sbox_row :: "bool list \<Rightarrow> nat \<Rightarrow> nat" where
  "sbox_row bs i = 2 * of_bool (bs ! (6 * i)) + of_bool (bs ! (6 * i + 5))"

definition sbox_column :: "bool list \<Rightarrow> nat \<Rightarrow> nat" where
  "sbox_column bs i = 8 * of_bool (bs ! (6 * i + 1)) + 4 * of_bool (bs ! (6 * i + 2)) +
     2 * of_bool (bs ! (6 * i + 3)) + of_bool (bs ! (6 * i + 4))"

definition sbox_value :: "bool list \<Rightarrow> nat \<Rightarrow> byte" where
  "sbox_value bs i = gRoundSboxTable ! i ! (16 * sbox_row bs i + sbox_column bs i)"

definition des_f :: "bool list \<Rightarrow> bool list \<Rightarrow> bool list" where
  "des_f r k =
     permute gRoundPboxTable
       (concat (map (\<lambda>i. nibble (sbox_value (xor_bits (permute gRoundExReplaceTable r) k) i)) [0..<8]))"

definition feistel :: "bool list \<Rightarrow> bool list \<times> bool list \<Rightarrow> bool list \<times> bool list" where
  "feistel k lr = (snd lr, xor_bits (fst lr) (des_f (snd lr) k))"

definition des_ref :: "bool list list \<Rightarrow> bool list \<Rightarrow> bool list" where
  "des_ref ks bs =
     (let b = permute gIpTable bs;
          (l, r) = fold feistel ks (take 32 b, drop 32 b)
      in permute gIpInvTable (r @ l))"

text \<open>The round keys: PC-1, rotation of the two halves by the accumulated shift, PC-2.\<close>

definition key_shift :: "nat \<Rightarrow> nat" where
  "key_shift i = sum_list (take (i + 1) gLoopLeftShiftTable)"

definition des_keys :: "(nat \<Rightarrow> nat) \<Rightarrow> bool list \<Rightarrow> bool list list" where
  "des_keys shift kb =
     (let b = permute gKeyExReplaceTable kb
      in map (\<lambda>i. permute gCompressedTable (rotate (shift i) (take 28 b) @ rotate (shift i) (drop 28 b)))
           [0..<16])"

section \<open>The key expansion computes the round keys\<close>

lemma table_ok_mono: "table_ok tab n \<Longrightarrow> n \<le> m \<Longrightarrow> table_ok tab m"
  unfolding table_ok_def by (meson order_trans)

lemma keyExReplace_eq:
  "8 \<le> length pKey \<Longrightarrow> keyExReplace pKey = Some (unbits (permute gKeyExReplaceTable (bits pKey)))"
  using bitTable_eq [of gKeyExReplaceTable pKey 7] table_ok_mono [of gKeyExReplaceTable 64]
  by (simp add: keyExReplace_def)

lemma of_bool_neq_zero [simp]: "(of_bool b :: byte) \<noteq> 0 \<longleftrightarrow> b" "(of_bool b :: byte) = 0 \<longleftrightarrow> \<not> b"
  by simp_all

lemma splitReKey_eq:
  assumes "length k = 7"
  shows "splitReKey k = Some (map of_bool (take 28 (bits k)), map of_bool (drop 28 (bits k)))"
proof -
  have l: "foldM (\<lambda>i p. do { b \<leftarrow> testBit k (i div 8) (i mod 8); if b then wr p i 1 else Some p })
      [0..<28] (replicate 28 (0 :: byte)) = Some (map of_bool (take 28 (bits k)))"
  proof -
    have "testBit k (i div 8) (i mod 8) = Some (bits k ! i)" if "i < 28" for i
      using that assms by (simp add: testBit_bits div_lt)
    from foldM_mark [of 28 "\<lambda>i. testBit k (i div 8) (i mod 8)", OF this, of 0 "[]" 28]
    have "foldM (\<lambda>i p. do { b \<leftarrow> testBit k (i div 8) (i mod 8); if b then wr p i 1 else Some p })
      [0..<28] (replicate 28 (0 :: byte)) = Some (map (\<lambda>i. of_bool (bits k ! i)) [0..<28])"
      unfolding add_0_right by simp
    also have "map (\<lambda>i. of_bool (bits k ! i) :: byte) [0..<28] = map of_bool (take 28 (bits k))"
      using assms by (auto simp: list_eq_iff_nth simp del: upt_Suc)
    finally show ?thesis .
  qed
  have r1: "foldM (\<lambda>i p. do { b \<leftarrow> testBit k 3 (i + 4); if b then wr p i 1 else Some p })
      [0..<4] (replicate 28 (0 :: byte)) = Some (map (\<lambda>i. of_bool (bits k ! (28 + i))) [0..<4] @ replicate 24 (0 :: byte))"
  proof -
    have "testBit k 3 (i + 4) = Some (bits k ! (28 + i))" if "i < 4" for i
      using that assms by (simp add: testBit_bits add.commute)
    from foldM_mark [of 4 "\<lambda>i. testBit k 3 (i + 4)", OF this, of 0 "[]" 28]
    show ?thesis unfolding add_0_right by simp
  qed
  have r2: "foldM (\<lambda>i p. do { b \<leftarrow> testBit k (i div 8 + 4) (i mod 8); if b then wr p (i + 4) 1 else Some p })
      [0..<24] (map (\<lambda>i. of_bool (bits k ! (28 + i))) [0..<4] @ replicate 24 (0 :: byte)) =
      Some (map of_bool (drop 28 (bits k)))"
  proof -
    have h: "testBit k (i div 8 + 4) (i mod 8) = Some (bits k ! (32 + i))" if "i < 24" for i
    proof -
      have "i div 8 < 3" using that by (simp add: div_lt)
      then show ?thesis using assms by (simp add: testBit_bits add.commute add.left_commute)
    qed
    have e: "map (\<lambda>i. of_bool (bits k ! (28 + i)) :: byte) [0..<4] @
        map (\<lambda>i. of_bool (bits k ! (32 + i))) [0..<24] = map of_bool (drop 28 (bits k))"
      by (rule nth_equalityI) (use assms in \<open>auto simp: nth_append simp del: upt_Suc\<close>)
    from foldM_mark [of 24 "\<lambda>i. testBit k (i div 8 + 4) (i mod 8)", OF h, of 4
      "map (\<lambda>i. of_bool (bits k ! (28 + i)) :: byte) [0..<4]" 24]
    show ?thesis using e by simp
  qed
  show ?thesis using l r1 r2 by (simp add: splitReKey_def)
qed

lemma loopLeftShiftArray_eq:
  assumes "length arr = n" and "0 < n"
  shows "loopLeftShiftArray m arr n s =
    Some (if s mod n = 0 \<or> m n then 0 else MOCRYPT_DES_ERR_MALLOCFAILED,
          if m n then rotate s arr else arr)"
proof (cases "s mod n = 0 \<or> \<not> m n")
  case True
  then show ?thesis using assms by (auto simp: loopLeftShiftArray_def Let_def rotate_drop_take)
next
  case False
  define r where "r = (if s > n then s mod n else s)"
  have "s \<noteq> n" using False by auto
  then have "r = s mod n" unfolding r_def by simp
  then have r: "r = s mod n" "0 < r" "r < n" using False assms(2) by simp_all
  have "foldM (\<lambda>i p. do { v \<leftarrow> rd arr i; wr p (i - r) v }) [r..<n] (replicate n 0) =
    foldM (\<lambda>i p. do { v \<leftarrow> rd arr (i + r); wr p (i + 0) v }) [0..<n - r] ([] @ replicate n 0)"
    using foldM_shift [of "\<lambda>i p. do { v \<leftarrow> rd arr i; wr p (i - r) v }" r "n - r" "replicate n 0"] r
    by simp
  also have "\<dots> = Some ([] @ map (\<lambda>i. arr ! (i + r)) [0..<n - r] @ drop (n - r) (replicate n 0))"
    by (rule foldM_copy) (use assms in auto)
  also have "\<dots> = Some (drop r arr @ replicate r 0)"
    using assms r by (simp add: list_eq_iff_nth nth_append add.commute)
  finally have 1: "foldM (\<lambda>i p. do { v \<leftarrow> rd arr i; wr p (i - r) v }) [r..<n] (replicate n 0) =
    Some (drop r arr @ replicate r 0)" .
  have "foldM (\<lambda>i p. do { v \<leftarrow> rd arr i; wr p (i + (n - r)) v }) [0..<r] (drop r arr @ replicate r 0) =
    Some (drop r arr @ map (\<lambda>i. arr ! i) [0..<r] @ drop r (replicate r 0))"
    by (rule foldM_copy) (use assms r in auto)
  also have "\<dots> = Some (drop r arr @ take r arr)"
    using assms r by (simp add: list_eq_iff_nth nth_append)
  finally have 2: "foldM (\<lambda>i p. do { v \<leftarrow> rd arr i; wr p (n - r + i) v }) [0..<r] (drop r arr @ replicate r 0) =
    Some (drop r arr @ take r arr)" by (simp add: add.commute)
  have "rotate s arr = drop r arr @ take r arr" using assms r by (simp add: rotate_drop_take)
  then show ?thesis using False assms 1 2 r_def
    by (simp add: loopLeftShiftArray_def Let_def)
qed

lemma joinHalf2ReKey_eq:
  assumes "length l = 28" and "length r = 28"
  shows "joinHalf2ReKey l r = Some (unbits (map (\<lambda>x. x \<noteq> 0) (l @ r)))"
proof -
  have "\<exists>q. foldM (\<lambda>i p. do { b \<leftarrow> do { v \<leftarrow> rd l i; Some (v \<noteq> 0) };
        if b then setBit p (i div 8) (i mod 8) else Some p }) [0..<28] (replicate 7 0) = Some q \<and>
      length q = length (replicate 7 (0::byte)) \<and>
      bits q = ([] @ map (\<lambda>i. l ! i \<noteq> 0) [0..<28]) @ replicate (56 - 28) False"
    by (rule setBits_loop) (auto simp: assms bits_replicate_zero div_lt)
  then obtain q1 where q1: "foldM (\<lambda>i p. do { b \<leftarrow> rd l i;
        if b \<noteq> 0 then setBit p (i div 8) (i mod 8) else Some p }) [0..<28] (replicate 7 0) = Some q1"
      "length q1 = 7" "bits q1 = map (\<lambda>i. l ! i \<noteq> 0) [0..<28] @ replicate 28 False"
    by auto
  have "\<exists>q. foldM (\<lambda>i p. do { b \<leftarrow> do { v \<leftarrow> rd r i; Some (v \<noteq> 0) };
        if b then setBit p 3 (i + 4) else Some p }) [0..<4] q1 = Some q \<and> length q = length q1 \<and>
      bits q = (map (\<lambda>i. l ! i \<noteq> 0) [0..<28] @ map (\<lambda>i. r ! i \<noteq> 0) [0..<4]) @ replicate (28 - 4) False"
    by (rule setBits_loop) (use q1 assms in auto)
  then obtain q2 where q2: "foldM (\<lambda>i p. do { b \<leftarrow> rd r i;
        if b \<noteq> 0 then setBit p 3 (i + 4) else Some p }) [0..<4] q1 = Some q2" "length q2 = 7"
      "bits q2 = (map (\<lambda>i. l ! i \<noteq> 0) [0..<28] @ map (\<lambda>i. r ! i \<noteq> 0) [0..<4]) @ replicate 24 False"
    using q1 by auto
  have "\<exists>q. foldM (\<lambda>i p. do { b \<leftarrow> do { v \<leftarrow> rd r (i + 4); Some (v \<noteq> 0) };
        if b then setBit p (i div 8 + 4) (i mod 8) else Some p }) [0..<24] q2 = Some q \<and>
      length q = length q2 \<and>
      bits q = ((map (\<lambda>i. l ! i \<noteq> 0) [0..<28] @ map (\<lambda>i. r ! i \<noteq> 0) [0..<4]) @
        map (\<lambda>i. r ! (i + 4) \<noteq> 0) [0..<24]) @ replicate (24 - 24) False"
  proof (rule setBits_loop)
    fix i :: nat assume "i < 24"
    moreover from this have "i div 8 < 3" by (simp add: div_lt)
    ultimately show "i div 8 + 4 < length q2 \<and> i mod 8 < 8 \<and> 8 * (i div 8 + 4) + i mod 8 =
      length (map (\<lambda>i. l ! i \<noteq> 0) [0..<28] @ map (\<lambda>i. r ! i \<noteq> 0) [0..<4]) + i"
      using q2 by (simp add: add.commute add.left_commute)
  qed (use q2 assms in auto)
  then obtain q3 where q3: "foldM (\<lambda>i p. do { b \<leftarrow> rd r (i + 4);
        if b \<noteq> 0 then setBit p (i div 8 + 4) (i mod 8) else Some p }) [0..<24] q2 = Some q3"
      "bits q3 = (map (\<lambda>i. l ! i \<noteq> 0) [0..<28] @ map (\<lambda>i. r ! i \<noteq> 0) [0..<4]) @
        map (\<lambda>i. r ! (i + 4) \<noteq> 0) [0..<24]"
    by auto
  have "bits q3 = map (\<lambda>x. x \<noteq> 0) (l @ r)"
    unfolding q3(2) using assms by (auto simp: list_eq_iff_nth nth_append simp del: upt_Suc)
  then have "q3 = unbits (map (\<lambda>x. x \<noteq> 0) (l @ r))" by (metis unbits_bits)
  then show ?thesis using q1 q2 q3 by (simp add: joinHalf2ReKey_def)
qed

lemma compReKey_eq:
  "length bs = 56 \<Longrightarrow> compReKey (unbits bs) = Some (unbits (permute gCompressedTable bs))"
  using bitTable_eq [of gCompressedTable "unbits bs" 6] by (simp add: compReKey_def)

lemma sum_table_loop:
  "n \<le> length t \<Longrightarrow> foldM (\<lambda>i s. do { v \<leftarrow> rd t i; Some (s + v) }) [0..<n] (0 :: nat) =
     Some (sum_list (take n t))"
  by (induction n) (simp_all add: take_Suc_conv_app_nth)

definition used_shift :: "(nat \<Rightarrow> bool) \<Rightarrow> nat \<Rightarrow> nat" where
  "used_shift mallocOk i = (if mallocOk 28 then key_shift i else 0)"

lemma keyExGetKey_eq:
  assumes "length l = 28" and "length r = 28" and "i < 16"
  shows "keyExGetKey m (map of_bool l) (map of_bool r) i z =
    Some (0, unbits (permute gCompressedTable (rotate (used_shift m i) l @ rotate (used_shift m i) r)))"
proof -
  have n: "foldM (\<lambda>i s. do { v \<leftarrow> rd gLoopLeftShiftTable i; Some (s + v) }) [0..<Suc i] 0 = Some (key_shift i)"
    using sum_table_loop [of "i + 1" gLoopLeftShiftTable] assms(3) unfolding key_shift_def by simp
  have sh: "loopLeftShiftArray m (map of_bool x) 28 (key_shift i) =
      Some (if key_shift i mod 28 = 0 \<or> m 28 then 0 else MOCRYPT_DES_ERR_MALLOCFAILED,
        map of_bool (rotate (used_shift m i) x))" if "length x = 28" for x
    using loopLeftShiftArray_eq [of "map of_bool x" 28 m "key_shift i"] that
    by (simp add: used_shift_def rotate_map)
  have "(map (\<lambda>x. x \<noteq> 0) (map of_bool a) :: bool list) = a" for a
    by (simp add: list_eq_iff_nth)
  then have j: "joinHalf2ReKey (map of_bool a) (map of_bool b) = Some (unbits (a @ b))"
    if "length a = 28" "length b = 28" for a b
    using joinHalf2ReKey_eq [of "map of_bool a" "map of_bool b"] that
    by (simp add: o_def)
  show ?thesis
    using assms unfolding keyExGetKey_def
    by (simp add: n sh j compReKey_eq del: upt_Suc)
qed

lemma keyExpand_eq:
  assumes "8 \<le> length pKey"
  shows "keyExpand m pKey = Some (map unbits (des_keys (used_shift m) (bits pKey)))"
proof -
  let ?b = "permute gKeyExReplaceTable (bits pKey)"
  let ?K = "\<lambda>i. unbits (permute gCompressedTable
    (rotate (used_shift m i) (take 28 ?b) @ rotate (used_shift m i) (drop 28 ?b)))"
  have g: "keyExGetKey m (map of_bool (take 28 ?b)) (map of_bool (drop 28 ?b)) i z = Some (0, ?K i)"
    if "i < 16" for i z using keyExGetKey_eq that by simp
  have "\<exists>s. foldM (\<lambda>i ks. do {
      row \<leftarrow> rd ks i;
      (_, row) \<leftarrow> keyExGetKey m (map of_bool (take 28 ?b)) (map of_bool (drop 28 ?b)) i row;
      wr ks i row
    }) [0..<16] (replicate 16 (replicate 6 0)) = Some s \<and>
    s = map ?K [0..<16] @ replicate (16 - 16) (replicate 6 0)"
  proof (rule foldM_range_inv [where I = "\<lambda>i s. s = map ?K [0..<i] @ replicate (16 - i) (replicate 6 0)"])
    fix i s
    assume i: "0 \<le> i" "i < (16 :: nat)" and s: "s = map ?K [0..<i] @ replicate (16 - i) (replicate 6 0)"
    have r: "replicate (16 - i) (replicate 6 (0 :: byte)) = replicate 6 0 # replicate (16 - Suc i) (replicate 6 0)"
      using i by (metis Suc_diff_Suc replicate_Suc)
    show "\<exists>s'. do {
        row \<leftarrow> rd s i;
        (_, row) \<leftarrow> keyExGetKey m (map of_bool (take 28 ?b)) (map of_bool (drop 28 ?b)) i row;
        wr s i row
      } = Some s' \<and> s' = map ?K [0..<Suc i] @ replicate (16 - Suc i) (replicate 6 0)"
      using i s by (simp add: g r list_update_append)
  qed simp_all
  then show ?thesis using assms
    by (simp add: keyExpand_def keyExReplace_eq splitReKey_eq des_keys_def Let_def o_def)
qed

lemma length_des_keys [simp]: "length (des_keys sh b) = 16"
  by (simp add: des_keys_def Let_def)

lemma des_keys_length: "k \<in> set (des_keys sh b) \<Longrightarrow> length k = 48"
  by (auto simp: des_keys_def Let_def)

section \<open>A round computes the Feistel step\<close>

lemma length_xor_bits [simp]: "length (xor_bits a b) = min (length a) (length b)"
  by (simp add: xor_bits_def)

lemma xor_bits_cancel: "length a = length b \<Longrightarrow> xor_bits (xor_bits a b) b = a"
  by (rule nth_equalityI) (auto simp: xor_bits_def)

lemma xor_bits_commute: "length a = length b \<Longrightarrow> xor_bits a b = xor_bits b a"
  by (rule nth_equalityI) (auto simp: xor_bits_def)

lemma bits_xor:
  assumes "length a = length b"
  shows "bits (map2 (XOR) a b) = xor_bits (bits a) (bits b)"
  using assms by (intro nth_equalityI) (auto simp: xor_bits_def nth_bits bit_xor_iff div_lt)

lemma roundXor_eq:
  assumes "n \<le> length a" and "n \<le> length b"
  shows "roundXor a b n = Some (map2 (XOR) (take n a) (take n b))"
proof -
  have "roundXor a b n = Some ([] @ map (\<lambda>i. a ! i XOR b ! i) [0..<n] @ drop n (replicate n 0))"
    using foldM_copy [of n "\<lambda>i. do { x \<leftarrow> rd a i; y \<leftarrow> rd b i; Some (x XOR y) }" "\<lambda>i. a ! i XOR b ! i" 0 "[]"
      "replicate n 0"] assms unfolding roundXor_def add_0_right by simp
  also have "map (\<lambda>i. a ! i XOR b ! i) [0..<n] = map2 (XOR) (take n a) (take n b)"
    by (rule nth_equalityI) (use assms in auto)
  finally show ?thesis by simp
qed

lemma roundSboxSplitKey_eq:
  assumes "length p = 6"
  shows "roundSboxSplitKey p = Some (map of_bool (bits p))"
proof -
  let ?I = "\<lambda>i q. q = map of_bool (take (8 * i) (bits p)) @ replicate (48 - 8 * i) (0 :: byte)"
  have "\<exists>q. foldM (\<lambda>i pBits. foldM (\<lambda>j pBits. do {
       b \<leftarrow> testBit p i j;
       if b then wr pBits (j + i * 8) 1 else Some pBits
     }) [0..<8] pBits) [0..<6] (replicate 48 0) = Some q \<and> ?I 6 q"
  proof (rule foldM_range_inv [where I = ?I])
    fix i q assume i: "0 \<le> i" "i < (6 :: nat)" and q: "?I i q"
    have t: "testBit p i j = Some (bits p ! (8 * i + j))" if "j < 8" for j
      using that i assms by (simp add: testBit_bits)
    have "foldM (\<lambda>j pBits. do { b \<leftarrow> testBit p i j; if b then wr pBits (j + i * 8) 1 else Some pBits }) [0..<8] q =
      Some (map of_bool (take (8 * i) (bits p)) @ map (\<lambda>j. of_bool (bits p ! (8 * i + j))) [0..<8] @
        replicate (48 - 8 * i - 8) 0)"
      unfolding q by (rule foldM_mark, erule t) (use i assms in auto)
    moreover have "map of_bool (take (8 * i) (bits p)) @ map (\<lambda>j. of_bool (bits p ! (8 * i + j)) :: byte) [0..<8] =
      map of_bool (take (8 * Suc i) (bits p))"
      by (rule nth_equalityI) (use i assms in \<open>auto simp: nth_append simp del: upt_Suc\<close>)
    ultimately show "\<exists>s'. foldM (\<lambda>j pBits. do { b \<leftarrow> testBit p i j;
        if b then wr pBits (j + i * 8) 1 else Some pBits }) [0..<8] q = Some s' \<and> ?I (Suc i) s'"
      by (simp add: diff_diff_left del: append_assoc)
  qed simp_all
  moreover have comm: "i * 8 + j = j + i * 8" for i j :: nat by simp
  ultimately show ?thesis using assms unfolding roundSboxSplitKey_def comm by simp
qed

lemma sbox_index:
  "unat (push_bit 1 (of_bool a) OR push_bit 0 (of_bool b) :: byte) = 2 * of_bool a + of_bool b"
  "unat (push_bit 3 (of_bool a) OR push_bit 2 (of_bool b) OR push_bit 1 (of_bool c) OR
     push_bit 0 (of_bool d) :: byte) = 8 * of_bool a + 4 * of_bool b + 2 * of_bool c + of_bool d"
  by (cases a; cases b; simp) (cases a; cases b; cases c; cases d; simp)

lemma sbox_index_bound: "16 * sbox_row bs i + sbox_column bs i < 64"
  unfolding sbox_row_def sbox_column_def by (auto simp: of_bool_def)

lemma sbox_value_lt16: "i < 8 \<Longrightarrow> sbox_value bs i < 16"
  using sbox_entries sbox_index_bound [of bs i] unfolding sbox_value_def
  by (metis nth_mem tables_length(8))

lemma bit_lt16:
  assumes "v < (16 :: byte)" and "4 \<le> n"
  shows "\<not> bit v n"
proof -
  have "unat v < 16" using assms(1) by (simp add: word_less_nat_alt)
  also have "(16 :: nat) \<le> 2 ^ n" using power_increasing [of 4 n "2 :: nat"] assms(2) by simp
  finally have "\<not> bit (unat v) n" by (simp add: bit_iff_odd)
  then show ?thesis by (simp add: bit_unsigned_iff)
qed

lemma length_nibble [simp]: "length (nibble v) = 4"
  by (simp add: nibble_def)

lemma bits_two_nibbles:
  assumes "v < 16" and "w < 16"
  shows "bits [push_bit 4 v OR w] = nibble v @ nibble w"
proof (rule nth_equalityI)
  fix i assume "i < length (bits [push_bit 4 v OR w])"
  then have i: "i < 8" by simp
  show "bits [push_bit 4 v OR w] ! i = (nibble v @ nibble w) ! i"
  proof (cases "i < 4")
    case True
    then have "\<not> bit w (7 - i)" "4 \<le> 7 - i" "7 - i < 8"
      using bit_lt16 [OF assms(2), of "7 - i"] by simp_all
    then show ?thesis using True
      by (simp add: nth_bits nth_append nibble_def bit_or_iff bit_push_bit_iff)
  next
    case False
    then show ?thesis using i
      by (auto simp: nth_bits nth_append nibble_def bit_or_iff bit_push_bit_iff)
  qed
qed simp

lemma roundSbox_step:
  assumes "length bs = 48" and "i < 8" and "length d = 4"
  shows "sboxStep (map of_bool bs) i d = Some (d[i div 2 := d ! (i div 2) OR
       (if i mod 2 = 0 then push_bit 4 (sbox_value bs i) else sbox_value bs i)])"
proof -
  have idx: "i div 2 < 4" using assms(2) by (simp add: div_less_iff_less_mult)
  have i: "i * 6 < 48" "1 + i * 6 < 48" "2 + i * 6 < 48" "3 + i * 6 < 48" "4 + i * 6 < 48" "5 + i * 6 < 48"
    using assms(2) by linarith+
  have t: "length (gRoundSboxTable ! i) = 64" using sbox_entries assms(2) by (metis nth_mem tables_length(8))
  have row: "unat (push_bit 1 (of_bool (bs ! (i * 6))) OR push_bit 0 (of_bool (bs ! (5 + i * 6))) :: byte) =
      sbox_row bs i"
    unfolding sbox_index sbox_row_def by (simp add: mult.commute add.commute)
  have col: "unat (push_bit 3 (of_bool (bs ! (1 + i * 6))) OR push_bit 2 (of_bool (bs ! (2 + i * 6))) OR
      push_bit 1 (of_bool (bs ! (3 + i * 6))) OR push_bit 0 (of_bool (bs ! (4 + i * 6))) :: byte) =
      sbox_column bs i"
    unfolding sbox_index sbox_column_def by (simp add: mult.commute add.commute)
  have v: "rd (gRoundSboxTable ! i) (sbox_row bs i * 16 + sbox_column bs i) = Some (sbox_value bs i)"
    using t sbox_index_bound [of bs i] by (simp add: sbox_value_def mult.commute)
  show ?thesis
    using assms i idx row col v unfolding sboxStep_def
    by (simp only: Let_def rd_in wr_in length_map nth_map bind.bind_lunit tables_length add_0
      split: if_split) simp
qed

lemma upt8: "[0..<8] = [0, 1, 2, 3, 4, 5, 6, 7 :: nat]"
  by (simp add: upt_rec)

lemma replicate4: "replicate 4 x = [x, x, x, x]"
  by (simp add: eval_nat_numeral)

lemma roundSbox_eq:
  assumes "length p = 6"
  shows "roundSbox p = Some (unbits (concat (map (\<lambda>i. nibble (sbox_value (bits p) i)) [0..<8])))"
proof -
  let ?v = "sbox_value (bits p)"
  let ?g = "\<lambda>i d. d[i div 2 := d ! (i div 2) OR (if i mod 2 = 0 then push_bit 4 (?v i) else ?v i)]"
  have l: "length (bits p) = 48" using assms by simp
  have len: "length (fold ?g xs (replicate 4 0)) = 4" for xs
    by (induction xs rule: rev_induct) simp_all
  have "\<exists>s. roundSbox p = Some s \<and> s = fold ?g [0..<8] (replicate 4 0)"
    unfolding roundSbox_def roundSboxSplitKey_eq [OF assms] bind.bind_lunit
  proof (rule foldM_range_inv [where I = "\<lambda>i s. s = fold ?g [0..<i] (replicate 4 0)"])
    fix i s assume "0 \<le> i" "i < (8::nat)" "s = fold ?g [0..<i] (replicate 4 0)"
    then show "\<exists>s'. sboxStep (map of_bool (bits p)) i s = Some s' \<and> s' = fold ?g [0..<Suc i] (replicate 4 0)"
      by (subst roundSbox_step [OF l]) (simp_all add: len)
  qed simp_all
  then have 1: "roundSbox p = Some (fold ?g [0..<8] (replicate 4 0))" by blast
  have 2: "fold ?g [0..<8] (replicate 4 0) =
      [push_bit 4 (?v 0) OR ?v 1, push_bit 4 (?v 2) OR ?v 3, push_bit 4 (?v 4) OR ?v 5, push_bit 4 (?v 6) OR ?v 7]"
    unfolding upt8 replicate4 by simp
  have "bits [push_bit 4 (?v 0) OR ?v 1, push_bit 4 (?v 2) OR ?v 3, push_bit 4 (?v 4) OR ?v 5,
      push_bit 4 (?v 6) OR ?v 7] = concat (map (\<lambda>i. nibble (?v i)) [0..<8])"
  proof -
    have "bits [push_bit 4 (?v i) OR ?v (Suc i)] = nibble (?v i) @ nibble (?v (Suc i))" if "i < 7" for i
      using bits_two_nibbles sbox_value_lt16 that by simp
    from this [of 0] this [of 2] this [of 4] this [of 6] show ?thesis
      unfolding upt8 bits_Cons [of _ "_ # _"] by simp
  qed
  from arg_cong [OF this, of unbits] show ?thesis unfolding 1 2 unbits_bits by simp
qed

lemma length_concat_nibbles [simp]: "length (concat (map (\<lambda>i. nibble (f i)) xs)) = 4 * length xs"
  by (induction xs) simp_all

lemma length_des_f [simp]: "length (des_f r k) = 32"
  by (simp add: des_f_def)

lemma cryptRound_eq:
  assumes "length l = 4" and "length r = 4" and "length k = 6"
  shows "cryptRound l r k = Some (r, unbits (xor_bits (bits l) (des_f (bits r) (bits k))))"
proof -
  let ?e = "unbits (permute gRoundExReplaceTable (bits r))"
  have e: "roundExReplace r = Some ?e"
    using bitTable_eq [of gRoundExReplaceTable r 6] assms by (simp add: roundExReplace_def)
  let ?x = "map2 (XOR) ?e k"
  have bx: "bits ?x = xor_bits (permute gRoundExReplaceTable (bits r)) (bits k)"
    using assms by (subst bits_xor) simp_all
  have x: "roundXor ?e k 6 = Some ?x" using assms by (simp add: roundXor_eq)
  let ?s = "concat (map (\<lambda>i. nibble (sbox_value (bits ?x) i)) [0..<8])"
  have s: "roundSbox ?x = Some (unbits ?s)" using assms by (intro roundSbox_eq) simp
  have f: "permute gRoundPboxTable ?s = des_f (bits r) (bits k)" unfolding des_f_def bx ..
  have p: "roundPbox (unbits ?s) = Some (unbits (des_f (bits r) (bits k)))"
    using bitTable_eq [of gRoundPboxTable "unbits ?s" 4] f by (simp add: roundPbox_def del: upt_Suc)
  have "bits (map2 (XOR) (unbits (des_f (bits r) (bits k))) l) = xor_bits (bits l) (des_f (bits r) (bits k))"
    using assms by (subst bits_xor) (simp_all add: xor_bits_commute)
  then have "map2 (XOR) (unbits (des_f (bits r) (bits k))) l = unbits (xor_bits (bits l) (des_f (bits r) (bits k)))"
    using unbits_bits by metis
  then have y: "roundXor (unbits (des_f (bits r) (bits k))) l 4 =
      Some (unbits (xor_bits (bits l) (des_f (bits r) (bits k))))"
    using assms by (simp add: roundXor_eq)
  show ?thesis using assms by (simp add: cryptRound_def e x s p y)
qed

lemma feistel_length:
  "length (fst lr) = 32 \<Longrightarrow> length (snd lr) = 32 \<Longrightarrow>
    length (fst (fold feistel ks lr)) = 32 \<and> length (snd (fold feistel ks lr)) = 32"
  by (induction ks arbitrary: lr) (simp_all add: feistel_def)

lemma rounds_eq:
  assumes "\<forall>k \<in> set ks. length k = 6" and "length (fst lr) = 32" and "length (snd lr) = 32"
  shows "foldM (\<lambda>k (l, r). cryptRound l r k) ks (map_prod unbits unbits lr) =
    Some (map_prod unbits unbits (fold feistel (map bits ks) lr))"
  using assms
proof (induction ks arbitrary: lr)
  case (Cons k ks)
  obtain l r where lr: "lr = (l, r)" by (cases lr)
  have "cryptRound (unbits l) (unbits r) k = Some (unbits r, unbits (xor_bits l (des_f r (bits k))))"
    using Cons.prems lr by (simp add: cryptRound_eq)
  then show ?case using Cons.IH [of "feistel (bits k) lr"] Cons.prems lr
    by (simp add: feistel_def)
qed simp

lemma foldM_nth:
  "n = length xs \<Longrightarrow> foldM (\<lambda>i s. do { x \<leftarrow> rd xs i; f x s }) [0..<n] s = foldM f xs s"
proof -
  assume n: "n = length xs"
  have "foldM (\<lambda>i s. do { x \<leftarrow> rd xs i; f x s }) [0..<n] s = foldM (\<lambda>i. f (xs ! i)) [0..<n] s"
    by (rule foldM_cong) (simp add: n)
  also have "\<dots> = foldM f (map (\<lambda>i. xs ! i) [0..<n]) s" by (simp add: foldM_map)
  finally show ?thesis by (simp add: n map_nth)
qed

lemma foldM_nth_rev:
  "n = length xs \<Longrightarrow> foldM (\<lambda>i s. do { x \<leftarrow> rd xs (n - i - 1); f x s }) [0..<n] s = foldM f (rev xs) s"
proof -
  assume n: "n = length xs"
  have "foldM (\<lambda>i s. do { x \<leftarrow> rd xs (n - i - 1); f x s }) [0..<n] s =
    foldM (\<lambda>i s. do { x \<leftarrow> rd (rev xs) i; f x s }) [0..<n] s"
    by (rule foldM_cong) (simp add: n rev_nth)
  then show ?thesis using foldM_nth [of n "rev xs"] n by simp
qed

section \<open>A block\<close>

definition valid_keyEx :: "byte list list \<Rightarrow> bool" where
  "valid_keyEx ks \<longleftrightarrow> length ks = 16 \<and> (\<forall>k \<in> set ks. length k = 6)"

lemma map_nth_part: "i + n \<le> length xs \<Longrightarrow> map (\<lambda>k. xs ! (k + i)) [0..<n] = take n (drop i xs)"
  by (rule nth_equalityI) (auto simp: add.commute)

lemma splitUnit2Half_eq:
  "length b = 64 \<Longrightarrow> splitUnit2Half (unbits b) = Some (unbits (take 32 b), unbits (drop 32 b))"
proof -
  assume b: "length b = 64"
  define x where "x = unbits b"
  have x: "length x = 8" "b = bits x" using b unfolding x_def by simp_all
  have 1: "foldM (\<lambda>i p. do { v \<leftarrow> rd x i; wr p i v }) [0..<4] (replicate 4 0) = Some (take 4 x)"
    using foldM_copy [of 4 "\<lambda>i. rd x i" "\<lambda>i. x ! i" 0 "[]" "replicate 4 0"] x
    using map_nth_part [of 0 4 x] unfolding add_0_right by simp
  have 2: "foldM (\<lambda>i p. do { v \<leftarrow> rd x (i + 4); wr p i v }) [0..<4] (replicate 4 0) = Some (drop 4 x)"
    using foldM_copy [of 4 "\<lambda>i. rd x (i + 4)" "\<lambda>i. x ! (i + 4)" 0 "[]" "replicate 4 0"] x
    using map_nth_part [of 4 4 x] unfolding add_0_right by simp
  have "b = bits (take 4 x) @ bits (drop 4 x)" unfolding x(2) by (simp flip: bits_append)
  then have "take 32 b = bits (take 4 x)" "drop 32 b = bits (drop 4 x)" using x by simp_all
  then show ?thesis unfolding x_def [symmetric] by (simp add: splitUnit2Half_def 1 2)
qed

lemma joinHalf2Unit_eq:
  assumes "length l = 4" and "length r = 4"
  shows "joinHalf2Unit l r = Some (l @ r)"
proof -
  have 1: "foldM (\<lambda>i p. do { v \<leftarrow> rd l i; wr p i v }) [0..<4] (replicate 8 0) = Some (l @ replicate 4 0)"
    using foldM_copy [of 4 "\<lambda>i. rd l i" "\<lambda>i. l ! i" 0 "[]" "replicate 8 0"] assms
      map_nth_part [of 0 4 l] unfolding add_0_right by simp
  have 2: "foldM (\<lambda>i p. do { v \<leftarrow> rd r i; wr p (i + 4) v }) [0..<4] (l @ replicate 4 0) = Some (l @ r)"
  proof -
    have "foldM (\<lambda>i p. do { v \<leftarrow> rd r i; wr p (i + 4) v }) [0..<4] (l @ replicate 4 0) =
        Some (l @ map (\<lambda>i. r ! i) [0..<4] @ drop 4 (replicate 4 0))"
      by (rule foldM_copy) (use assms in auto)
    also have "map (\<lambda>i. r ! i) [0..<4] = r" using map_nth [of r] assms by simp
    finally show ?thesis by simp
  qed
  show ?thesis unfolding joinHalf2Unit_def 1 bind.bind_lunit 2 ..
qed

lemma unit_frame:
  assumes "length x = 8" and "\<forall>k \<in> set ks. length k = 6"
  shows "do {
     tmp \<leftarrow> ipConv x;
     halves \<leftarrow> splitUnit2Half tmp;
     (leftHalf, rightHalf) \<leftarrow> foldM (\<lambda>k (l, r). cryptRound l r k) ks halves;
     let (leftHalf, rightHalf) = (rightHalf, leftHalf);
     tmp \<leftarrow> joinHalf2Unit leftHalf rightHalf;
     ipInvConv tmp
   } = Some (unbits (des_ref (map bits ks) (bits x)))"
proof -
  let ?b = "permute gIpTable (bits x)"
  let ?lr = "fold feistel (map bits ks) (take 32 ?b, drop 32 ?b)"
  obtain L R where lr: "?lr = (L, R)" by (cases ?lr)
  have len: "length L = 32" "length R = 32"
    using feistel_length [of "(take 32 ?b, drop 32 ?b)" "map bits ks"] lr by simp_all
  have ip: "ipConv x = Some (unbits ?b)"
    using bitTable_eq [of gIpTable x 8] assms by (simp add: ipConv_def)
  have rnd: "foldM (\<lambda>k (l, r). cryptRound l r k) ks (unbits (take 32 ?b), unbits (drop 32 ?b)) =
      Some (unbits L, unbits R)"
    using rounds_eq [of ks "(take 32 ?b, drop 32 ?b)"] assms(2) lr by simp
  have "bits (unbits R @ unbits L) = R @ L" using len by (simp add: bits_append)
  then have inv: "ipInvConv (unbits R @ unbits L) = Some (unbits (permute gIpInvTable (R @ L)))"
    using bitTable_eq [of gIpInvTable "unbits R @ unbits L" 8] len by (simp add: ipInvConv_def)
  show ?thesis
    by (simp add: ip splitUnit2Half_eq rnd joinHalf2Unit_eq len inv des_ref_def lr)
qed

lemma unitEncrypt_eq:
  assumes "length x = 8" and "valid_keyEx ks"
  shows "unitEncrypt ks x = Some (unbits (des_ref (map bits ks) (bits x)))"
proof -
  have "foldM (\<lambda>i (l, r). do { k \<leftarrow> rd ks i; cryptRound l r k }) [0..<16] s =
      foldM (\<lambda>k (l, r). cryptRound l r k) ks s" for s
    using foldM_nth [of 16 ks "\<lambda>k (l, r). cryptRound l r k" s] assms(2)
    by (simp add: valid_keyEx_def case_prod_beta')
  then show ?thesis
    unfolding unitEncrypt_def using unit_frame [OF assms(1), of ks] assms(2)
    by (simp add: valid_keyEx_def)
qed

lemma unitDecrypt_eq:
  assumes "length x = 8" and "valid_keyEx ks"
  shows "unitDecrypt ks x = Some (unbits (des_ref (rev (map bits ks)) (bits x)))"
proof -
  have "foldM (\<lambda>i (l, r). do { k \<leftarrow> rd ks (16 - i - 1); cryptRound l r k }) [0..<16] s =
      foldM (\<lambda>k (l, r). cryptRound l r k) (rev ks) s" for s
    using foldM_nth_rev [of 16 ks "\<lambda>k (l, r). cryptRound l r k" s] assms(2)
    by (simp add: valid_keyEx_def case_prod_beta')
  then show ?thesis
    unfolding unitDecrypt_def using unit_frame [OF assms(1), of "rev ks"] assms(2)
    by (simp add: valid_keyEx_def rev_map)
qed

section \<open>Decryption inverts encryption\<close>

lemma feistel_inverse:
  assumes "length (fst lr) = 32" and "length (snd lr) = 32"
  shows "feistel k (prod.swap (feistel k lr)) = prod.swap lr"
  using assms by (cases lr) (simp add: feistel_def xor_bits_cancel)

lemma feistel_rounds_inverse:
  assumes "length (fst lr) = 32" and "length (snd lr) = 32"
  shows "fold feistel (rev ks) (prod.swap (fold feistel ks lr)) = prod.swap lr"
  using assms
proof (induction ks arbitrary: lr)
  case (Cons k ks)
  have "length (fst (feistel k lr)) = 32" "length (snd (feistel k lr)) = 32"
    using Cons.prems by (simp_all add: feistel_def)
  then show ?case using Cons.IH [of "feistel k lr"] Cons.prems by (simp add: feistel_inverse)
qed simp

lemma des_ref_inverse:
  assumes "length bs = 64"
  shows "des_ref (rev ks) (des_ref ks bs) = bs"
proof -
  let ?b = "permute gIpTable bs"
  obtain L R where lr: "fold feistel ks (take 32 ?b, drop 32 ?b) = (L, R)"
    by (cases "fold feistel ks (take 32 ?b, drop 32 ?b)")
  have len: "length L = 32" "length R = 32"
    using feistel_length [of "(take 32 ?b, drop 32 ?b)" ks] lr by simp_all
  have 1: "permute gIpTable (permute gIpInvTable (R @ L)) = R @ L"
    using permute_permute [of gIpTable gIpInvTable "R @ L"] permute_id [of "R @ L"] len
    by (simp add: ip_inverse)
  have 2: "fold feistel (rev ks) (R, L) = (drop 32 ?b, take 32 ?b)"
    using feistel_rounds_inverse [of "(take 32 ?b, drop 32 ?b)" ks] lr by simp
  have 3: "permute gIpInvTable ?b = bs"
    using permute_permute [of gIpInvTable gIpTable bs] permute_id [of bs] assms
    by (simp add: ip_inverse)
  show ?thesis using len by (simp add: des_ref_def lr 1 2 3)
qed

lemma length_des_ref [simp]: "length (des_ref ks bs) = 64"
  by (simp add: des_ref_def Let_def case_prod_beta)

section \<open>The loops over the blocks\<close>

definition blk :: "nat \<Rightarrow> 'a list \<Rightarrow> 'a list" where
  "blk i xs = take 8 (drop (i * 8) xs)"

lemma rdn_blk: "8 * n \<le> length xs \<Longrightarrow> i < n \<Longrightarrow> rdn xs (i * 8) 8 = Some (blk i xs)"
  by (simp add: rdn_def blk_def)

lemma length_blk [simp]: "8 * n \<le> length xs \<Longrightarrow> i < n \<Longrightarrow> length (blk i xs) = 8"
  by (simp add: blk_def)

lemma length_concat_blocks:
  "(\<And>i. i < n \<Longrightarrow> length (f i) = 8) \<Longrightarrow> length (concat (map f [0..<n])) = 8 * n"
  by (induction n) simp_all

lemma blk_concat:
  assumes "\<And>i. i < n \<Longrightarrow> length (f i) = 8" and "i < n"
  shows "blk i (concat (map f [0..<n]) @ r) = f i"
  using assms
proof (induction n arbitrary: r)
  case (Suc n)
  have len: "length (concat (map f [0..<n])) = 8 * n" using Suc.prems by (simp add: length_concat_blocks)
  show ?case
  proof (cases "i = n")
    case True
    then show ?thesis using Suc.prems(1) [of n] len by (simp add: blk_def)
  next
    case False
    then show ?thesis using Suc.IH [of "f n @ r"] Suc.prems by simp
  qed
qed simp

lemma concat_blk: "8 * n \<le> length xs \<Longrightarrow> concat (map (\<lambda>i. blk i xs) [0..<n]) = take (8 * n) xs"
proof (induction n)
  case (Suc n)
  then show ?case using take_add [of "8 * n" 8 xs] by (simp add: blk_def mult.commute add.commute)
qed simp

text \<open>
  A loop that writes block \<open>i\<close> of the destination in its round \<open>i\<close>, from block \<open>m\<close> on, when
  the blocks below \<open>m\<close> are already there.
\<close>

lemma foldM_blocks:
  assumes "\<And>i d. m \<le> i \<Longrightarrow> i < n \<Longrightarrow> d = concat (map f [0..<i]) @ drop (8 * i) dst \<Longrightarrow>
      h i d = Some (f i)"
    and "\<And>i. i < n \<Longrightarrow> length (f i) = 8" and "8 * n \<le> length dst" and "m \<le> n"
    and "d0 = concat (map f [0..<m]) @ drop (8 * m) dst"
  shows "foldM (\<lambda>i d. do { y \<leftarrow> h i d; wrn d (i * 8) y }) [m..<n] d0 =
    Some (concat (map f [0..<n]) @ drop (8 * n) dst)"
proof -
  have "\<exists>s. foldM (\<lambda>i d. do { y \<leftarrow> h i d; wrn d (i * 8) y }) [m..<n] d0 = Some s \<and>
      s = concat (map f [0..<n]) @ drop (8 * n) dst"
  proof (rule foldM_range_inv [where I = "\<lambda>i s. s = concat (map f [0..<i]) @ drop (8 * i) dst"])
    fix i d assume i: "m \<le> i" "i < n" and d: "d = concat (map f [0..<i]) @ drop (8 * i) dst"
    have len: "length (concat (map f [0..<i])) = 8 * i" using assms(2) i by (simp add: length_concat_blocks)
    have "wrn d (i * 8) (f i) = Some (concat (map f [0..<i]) @ f i @ drop (8 * i + 8) dst)"
      using i assms(2) [OF i(2)] assms(3) len unfolding d wrn_def by (simp add: mult.commute add.commute)
    then show "\<exists>s'. do { y \<leftarrow> h i d; wrn d (i * 8) y } = Some s' \<and>
        s' = concat (map f [0..<Suc i]) @ drop (8 * Suc i) dst"
      using assms(1) [OF i d] by (simp add: add.commute)
  qed (use assms in simp_all)
  then show ?thesis by blast
qed

lemma ecbUnits_eq:
  assumes u: "\<And>x. length x = 8 \<Longrightarrow> u x = Some (g x) \<and> length (g x) = 8"
    and "8 * n \<le> length src" and "8 * n \<le> length dst"
  shows "ecbUnits u src (8 * n) dst =
    Some (concat (map (\<lambda>i. g (blk i src)) [0..<n]) @ drop (8 * n) dst)"
proof -
  have "foldM (\<lambda>i d. do { y \<leftarrow> do { x \<leftarrow> rdn src (i * 8) 8; u x }; wrn d (i * 8) y }) [0..<n] dst =
      Some (concat (map (\<lambda>i. g (blk i src)) [0..<n]) @ drop (8 * n) dst)"
    by (rule foldM_blocks) (use assms in \<open>simp_all add: rdn_blk [of n] del: rdn_in\<close>)
  then show ?thesis by (simp add: ecbUnits_def)
qed

primrec cbc_chain :: "(byte list \<Rightarrow> byte list) \<Rightarrow> byte list \<Rightarrow> byte list \<Rightarrow> nat \<Rightarrow> byte list" where
  "cbc_chain g src iv 0 = g (map2 (XOR) (blk 0 src) (take 8 iv))"
| "cbc_chain g src iv (Suc i) = g (map2 (XOR) (blk (Suc i) src) (cbc_chain g src iv i))"

lemma length_cbc_chain:
  assumes "\<And>x. length x = 8 \<Longrightarrow> length (g x) = 8" and "8 \<le> length iv" and "8 * n \<le> length src" and "i < n"
  shows "length (cbc_chain g src iv i) = 8"
  using assms(4)
proof (induction i)
  case 0
  then show ?case using assms length_blk [of n src 0] by simp
next
  case (Suc i)
  then show ?case using assms length_blk [of n src "Suc i"] by simp
qed

lemma cbcEnUnits_eq:
  assumes u: "\<And>x. length x = 8 \<Longrightarrow> u x = Some (g x) \<and> length (g x) = 8"
    and n: "0 < n" "8 * n \<le> length src" "8 * n \<le> length dst" and iv: "8 \<le> length iv"
  shows "cbcEnUnits u src (8 * n) iv dst =
    Some (concat (map (cbc_chain g src iv) [0..<n]) @ drop (8 * n) dst)"
proof -
  let ?f = "cbc_chain g src iv"
  have len: "length (?f i) = 8" if "i < n" for i
    using length_cbc_chain [of g iv n src i] u iv n that by blast
  have b0: "length (blk 0 src) = 8" using n length_blk [of n src 0] by simp
  have f0: "roundXor src iv 8 = Some (map2 (XOR) (blk 0 src) (take 8 iv))"
    using n iv by (simp add: roundXor_eq blk_def)
  have u0: "u (map2 (XOR) (blk 0 src) (take 8 iv)) = Some (?f 0)"
    using u [of "map2 (XOR) (blk 0 src) (take 8 iv)"] b0 iv by simp
  have w0: "wrn dst 0 (?f 0) = Some (concat (map ?f [0..<1]) @ drop (8 * 1) dst)"
    using len [of 0] n by simp
  have "foldM (\<lambda>i d. do { y \<leftarrow> do {
        s \<leftarrow> rdn src (i * 8) 8; p \<leftarrow> rdn d ((i - 1) * 8) 8; x \<leftarrow> roundXor s p 8; u x };
        wrn d (i * 8) y }) [1..<n] (concat (map ?f [0..<1]) @ drop (8 * 1) dst) =
      Some (concat (map ?f [0..<n]) @ drop (8 * n) dst)"
  proof (rule foldM_blocks)
    fix i d assume i: "1 \<le> i" "i < n" and d: "d = concat (map ?f [0..<i]) @ drop (8 * i) dst"
    obtain j where j: "i = Suc j" using i by (cases i) auto
    have "length d = length dst"
      using length_concat_blocks [of i ?f] len i n unfolding d by simp
    then have p: "rdn d ((i - 1) * 8) 8 = Some (?f j)"
      using rdn_blk [of i d j] blk_concat [of i ?f j "drop (8 * i) dst"] len i n j unfolding d by simp
    have s: "rdn src (i * 8) 8 = Some (blk i src)" using rdn_blk i n by blast
    have x: "roundXor (blk i src) (?f j) 8 = Some (map2 (XOR) (blk i src) (?f j))"
      using len [of j] i j n by (subst roundXor_eq) (simp_all add: length_blk [of n])
    have "u (map2 (XOR) (blk i src) (?f j)) = Some (?f i)"
      using u [of "map2 (XOR) (blk i src) (?f j)"] len [of j] i j n by (simp add: length_blk [of n])
    then show "do { s \<leftarrow> rdn src (i * 8) 8; p \<leftarrow> rdn d ((i - 1) * 8) 8; x \<leftarrow> roundXor s p 8; u x } = Some (?f i)"
      unfolding p s x bind.bind_lunit .
  qed (use len n in simp_all)
  moreover have "wrn dst 0 (g (map2 (XOR) (blk 0 src) (take 8 iv))) =
      Some (g (map2 (XOR) (blk 0 src) (take 8 iv)) @ drop 8 dst)" using w0 by simp
  ultimately show ?thesis using u0 by (simp add: cbcEnUnits_def f0)
qed

definition cbc_prev :: "byte list \<Rightarrow> byte list \<Rightarrow> nat \<Rightarrow> byte list" where
  "cbc_prev src iv i = (if i = 0 then take 8 iv else blk (i - 1) src)"

lemma cbcDeUnits_eq:
  assumes u: "\<And>x. length x = 8 \<Longrightarrow> u x = Some (g x) \<and> length (g x) = 8"
    and n: "0 < n" "8 * n \<le> length src" "8 * n \<le> length dst" and iv: "8 \<le> length iv"
  shows "cbcDeUnits u src (8 * n) iv dst =
    Some (concat (map (\<lambda>i. map2 (XOR) (g (blk i src)) (cbc_prev src iv i)) [0..<n]) @ drop (8 * n) dst)"
proof -
  let ?f = "\<lambda>i. map2 (XOR) (g (blk i src)) (cbc_prev src iv i)"
  have gl: "length (g (blk i src)) = 8" if "i < n" for i
    using u [of "blk i src"] length_blk [OF n(2) that] by blast
  have pl: "length (cbc_prev src iv i) = 8" if "i < n" for i
    using iv length_blk [OF n(2), of "i - 1"] that unfolding cbc_prev_def by simp
  have len: "length (?f i) = 8" if "i < n" for i using gl pl that by simp
  have s0: "rdn src 0 8 = Some (blk 0 src)" using rdn_blk [of n src 0] n by simp
  have u0: "u (blk 0 src) = Some (g (blk 0 src))" using u length_blk [OF n(2,1)] by blast
  have f0: "roundXor (g (blk 0 src)) iv 8 = Some (?f 0)"
    using gl [OF n(1)] iv by (simp add: roundXor_eq cbc_prev_def)
  have w0: "wrn dst 0 (?f 0) = Some (concat (map ?f [0..<1]) @ drop (8 * 1) dst)"
    using len [of 0] n by simp
  have "foldM (\<lambda>i d. do { y \<leftarrow> do {
        s \<leftarrow> rdn src (i * 8) 8; c \<leftarrow> u s; p \<leftarrow> rdn src ((i - 1) * 8) 8; roundXor c p 8 };
        wrn d (i * 8) y }) [1..<n] (concat (map ?f [0..<1]) @ drop (8 * 1) dst) =
      Some (concat (map ?f [0..<n]) @ drop (8 * n) dst)"
  proof (rule foldM_blocks)
    fix i d assume i: "1 \<le> i" "i < n" and d: "d = concat (map ?f [0..<i]) @ drop (8 * i) dst"
    have "rdn src (i * 8) 8 = Some (blk i src)" using rdn_blk i n by blast
    moreover have "rdn src ((i - 1) * 8) 8 = Some (cbc_prev src iv i)"
      using rdn_blk [OF n(2), of "i - 1"] i by (simp add: cbc_prev_def)
    moreover have "u (blk i src) = Some (g (blk i src))" using u length_blk [OF n(2) i(2)] by blast
    moreover have "roundXor (g (blk i src)) (cbc_prev src iv i) 8 = Some (?f i)"
      using gl [OF i(2)] pl [OF i(2)] by (simp add: roundXor_eq)
    ultimately show "do { s \<leftarrow> rdn src (i * 8) 8; c \<leftarrow> u s; p \<leftarrow> rdn src ((i - 1) * 8) 8;
        roundXor c p 8 } = Some (?f i)" by simp
  qed (use len n in simp_all)
  then show ?thesis by (simp add: cbcDeUnits_def s0 u0 f0 w0)
qed

section \<open>Block ciphers and their modes\<close>

text \<open>
  What the modes rely on: on valid keys the two functions are total on blocks of 8 bytes, keep the
  length and invert each other.
\<close>

locale block_cipher =
  fixes enc dec :: "'k \<Rightarrow> byte list \<Rightarrow> byte list option"
    and valid :: "'k \<Rightarrow> bool"
  assumes enc_dec: "valid k \<Longrightarrow> length x = 8 \<Longrightarrow> \<exists>y. enc k x = Some y \<and> length y = 8 \<and> dec k y = Some x"
    and dec_enc: "valid k \<Longrightarrow> length y = 8 \<Longrightarrow> \<exists>x. dec k y = Some x \<and> length x = 8 \<and> enc k x = Some y"
begin

definition E :: "'k \<Rightarrow> byte list \<Rightarrow> byte list" where
  "E k x = the (enc k x)"

definition D :: "'k \<Rightarrow> byte list \<Rightarrow> byte list" where
  "D k x = the (dec k x)"

lemma enc_E: "valid k \<Longrightarrow> length x = 8 \<Longrightarrow> enc k x = Some (E k x) \<and> length (E k x) = 8"
  using enc_dec unfolding E_def by fastforce

lemma dec_D: "valid k \<Longrightarrow> length x = 8 \<Longrightarrow> dec k x = Some (D k x) \<and> length (D k x) = 8"
  using dec_enc unfolding D_def by fastforce

lemma D_E: "valid k \<Longrightarrow> length x = 8 \<Longrightarrow> D k (E k x) = x"
  using enc_dec unfolding E_def D_def by fastforce

lemma E_D: "valid k \<Longrightarrow> length x = 8 \<Longrightarrow> E k (D k x) = x"
  using dec_enc unfolding E_def D_def by fastforce

lemma ecb_inverse:
  assumes k: "valid k" and src: "8 * n \<le> length src"
  shows "\<exists>c. length c = 8 * n \<and>
    (\<forall>dst. 8 * n \<le> length dst \<longrightarrow> ecbUnits (enc k) src (8 * n) dst = Some (c @ drop (8 * n) dst)) \<and>
    (\<forall>r dst. 8 * n \<le> length dst \<longrightarrow>
       ecbUnits (dec k) (c @ r) (8 * n) dst = Some (take (8 * n) src @ drop (8 * n) dst))"
proof -
  define f where "f = (\<lambda>i. E k (blk i src))"
  define c where "c = concat (map f [0..<n])"
  have fl: "length (f i) = 8" if "i < n" for i
    using enc_E [OF k] length_blk [OF src that] unfolding f_def by blast
  have cl: "length c = 8 * n" using length_concat_blocks [of n f] fl unfolding c_def by blast
  have e: "ecbUnits (enc k) src (8 * n) dst = Some (c @ drop (8 * n) dst)" if "8 * n \<le> length dst" for dst
    using ecbUnits_eq [of "enc k" "E k" n src dst] enc_E [OF k] src that unfolding c_def f_def by blast
  have "D k (blk i (c @ r)) = blk i src" if "i < n" for i r
    using blk_concat [of n f i r] fl that D_E [OF k, of "blk i src"] length_blk [OF src that]
    unfolding c_def f_def by simp
  then have m: "map (\<lambda>i. D k (blk i (c @ r))) [0..<n] = map (\<lambda>i. blk i src) [0..<n]" for r
    by simp
  have d: "ecbUnits (dec k) (c @ r) (8 * n) dst = Some (take (8 * n) src @ drop (8 * n) dst)"
    if "8 * n \<le> length dst" for r dst
    using ecbUnits_eq [of "dec k" "D k" n "c @ r" dst] dec_D [OF k] cl that concat_blk [OF src] m by simp
  show ?thesis using cl e d by blast
qed

lemma xor_cancel: "length a = length b \<Longrightarrow> map2 (XOR) (map2 (XOR) a b) b = (a :: byte list)"
  by (rule nth_equalityI) (simp_all add: xor.assoc)

lemma cbc_inverse:
  assumes k: "valid k" and n: "0 < n" and src: "8 * n \<le> length src" and iv: "8 \<le> length iv"
  shows "\<exists>c. length c = 8 * n \<and>
    (\<forall>dst. 8 * n \<le> length dst \<longrightarrow> cbcEnUnits (enc k) src (8 * n) iv dst = Some (c @ drop (8 * n) dst)) \<and>
    (\<forall>r dst. 8 * n \<le> length dst \<longrightarrow>
       cbcDeUnits (dec k) (c @ r) (8 * n) iv dst = Some (take (8 * n) src @ drop (8 * n) dst))"
proof -
  define f where "f = cbc_chain (E k) src iv"
  define c where "c = concat (map f [0..<n])"
  have fl: "length (f i) = 8" if "i < n" for i
    using length_cbc_chain [of "E k" iv n src i] enc_E [OF k] iv src that unfolding f_def by blast
  have cl: "length c = 8 * n" using length_concat_blocks [of n f] fl unfolding c_def by blast
  have e: "cbcEnUnits (enc k) src (8 * n) iv dst = Some (c @ drop (8 * n) dst)" if "8 * n \<le> length dst" for dst
    using cbcEnUnits_eq [of "enc k" "E k" n src dst iv] enc_E [OF k] n src iv that unfolding c_def f_def by blast
  have p: "map2 (XOR) (D k (blk i (c @ r))) (cbc_prev (c @ r) iv i) = blk i src" if i: "i < n" for i r
  proof -
    have b: "blk j (c @ r) = f j" if "j < n" for j
      using blk_concat [of n f j r] fl that unfolding c_def by blast
    have l: "length (blk i src) = 8" using length_blk [OF src i] .
    show ?thesis
    proof (cases i)
      case 0
      then have "D k (blk i (c @ r)) = map2 (XOR) (blk i src) (take 8 iv)"
        using b [OF i] D_E [OF k, of "map2 (XOR) (blk i src) (take 8 iv)"] l iv by (simp add: f_def)
      then show ?thesis using 0 l iv by (simp add: cbc_prev_def xor_cancel)
    next
      case (Suc j)
      then have j: "length (f j) = 8" using fl i by simp
      have "D k (blk i (c @ r)) = map2 (XOR) (blk i src) (f j)"
        using b [OF i] D_E [OF k, of "map2 (XOR) (blk i src) (f j)"] l j Suc by (simp add: f_def)
      then show ?thesis using Suc l j b [of j] i by (simp add: cbc_prev_def xor_cancel)
    qed
  qed
  have d: "cbcDeUnits (dec k) (c @ r) (8 * n) iv dst = Some (take (8 * n) src @ drop (8 * n) dst)"
    if "8 * n \<le> length dst" for r dst
  proof -
    have "concat (map (\<lambda>i. map2 (XOR) (D k (blk i (c @ r))) (cbc_prev (c @ r) iv i)) [0..<n]) =
        take (8 * n) src" unfolding concat_blk [OF src, symmetric]
      by (rule arg_cong [where f = concat]) (simp add: p)
    then show ?thesis
      using cbcDeUnits_eq [of "dec k" "D k" n "c @ r" dst iv] dec_D [OF k] n cl iv that
      by simp
  qed
  show ?thesis using cl e d by blast
qed

lemma cbc_inverse_dec:
  assumes k: "valid k" and n: "0 < n" and src: "8 * n \<le> length src" and iv: "8 \<le> length iv"
  shows "\<exists>c. length c = 8 * n \<and>
    (\<forall>dst. 8 * n \<le> length dst \<longrightarrow> cbcDeUnits (dec k) src (8 * n) iv dst = Some (c @ drop (8 * n) dst)) \<and>
    (\<forall>r dst. 8 * n \<le> length dst \<longrightarrow>
       cbcEnUnits (enc k) (c @ r) (8 * n) iv dst = Some (take (8 * n) src @ drop (8 * n) dst))"
proof -
  define f where "f = (\<lambda>i. map2 (XOR) (D k (blk i src)) (cbc_prev src iv i))"
  define c where "c = concat (map f [0..<n])"
  have bl: "length (blk i src) = 8" if "i < n" for i using length_blk [OF src that] .
  have pl: "length (cbc_prev src iv i) = 8" if "i < n" for i
    using iv bl [of "i - 1"] that unfolding cbc_prev_def by simp
  have dl: "length (D k (blk i src)) = 8" if "i < n" for i using dec_D [OF k bl [OF that]] by blast
  have fl: "length (f i) = 8" if "i < n" for i using dl pl that unfolding f_def by simp
  have cl: "length c = 8 * n" using length_concat_blocks [of n f] fl unfolding c_def by blast
  have e: "cbcDeUnits (dec k) src (8 * n) iv dst = Some (c @ drop (8 * n) dst)" if "8 * n \<le> length dst" for dst
    using cbcDeUnits_eq [of "dec k" "D k" n src dst iv] dec_D [OF k] n src iv that unfolding c_def f_def by blast
  have b: "blk j (c @ r) = f j" if "j < n" for j r
    using blk_concat [of n f j r] fl that unfolding c_def by blast
  have p: "cbc_chain (E k) (c @ r) iv i = blk i src" if "i < n" for i r
    using that
  proof (induction i)
    case 0
    then show ?case using b [of 0 r] dl [of 0] pl [of 0] E_D [OF k bl [of 0]] iv
      by (simp add: f_def cbc_prev_def xor_cancel)
  next
    case (Suc i)
    then show ?case using b [of "Suc i" r] dl [of "Suc i"] bl [of i] E_D [OF k bl [of "Suc i"]]
      by (simp add: f_def cbc_prev_def xor_cancel)
  qed
  have d: "cbcEnUnits (enc k) (c @ r) (8 * n) iv dst = Some (take (8 * n) src @ drop (8 * n) dst)"
    if "8 * n \<le> length dst" for r dst
  proof -
    have "concat (map (cbc_chain (E k) (c @ r) iv) [0..<n]) = take (8 * n) src"
      unfolding concat_blk [OF src, symmetric] by (rule arg_cong [where f = concat]) (simp add: p)
    then show ?thesis
      using cbcEnUnits_eq [of "enc k" "E k" n "c @ r" dst iv] enc_E [OF k] n cl iv that
      by simp
  qed
  show ?thesis using cl e d by blast
qed

end

text \<open>Exchanging the two functions gives a block cipher again.\<close>

sublocale block_cipher \<subseteq> inverse: block_cipher dec enc valid
  by unfold_locales (fact dec_enc, fact enc_dec)

interpretation des: block_cipher unitEncrypt unitDecrypt valid_keyEx
proof unfold_locales
  fix k and x :: "byte list" assume k: "valid_keyEx k" and x: "length x = 8"
  show "\<exists>y. unitEncrypt k x = Some y \<and> length y = 8 \<and> unitDecrypt k y = Some x"
    using k x des_ref_inverse [of "bits x" "map bits k"]
    by (simp add: unitEncrypt_eq unitDecrypt_eq)
  show "\<exists>y. unitDecrypt k x = Some y \<and> length y = 8 \<and> unitEncrypt k y = Some x"
    using k x des_ref_inverse [of "bits x" "rev (map bits k)"]
    by (simp add: unitEncrypt_eq unitDecrypt_eq)
qed

section \<open>Messages and triple DES\<close>

fun opposite :: "MOCRYPT_METHOD \<Rightarrow> MOCRYPT_METHOD" where
  "opposite MOCRYPT_METHOD_ENCRYPT = MOCRYPT_METHOD_DECRYPT"
| "opposite MOCRYPT_METHOD_DECRYPT = MOCRYPT_METHOD_ENCRYPT"
| "opposite (MOCRYPT_METHOD_OTHER v) = MOCRYPT_METHOD_OTHER v"

definition proper :: "MOCRYPT_METHOD \<Rightarrow> bool" where
  "proper m \<longleftrightarrow> m = MOCRYPT_METHOD_ENCRYPT \<or> m = MOCRYPT_METHOD_DECRYPT"

lemma proper_simps [simp]: "proper MOCRYPT_METHOD_ENCRYPT" "proper MOCRYPT_METHOD_DECRYPT"
  "\<not> proper (MOCRYPT_METHOD_OTHER v)"
  by (simp_all add: proper_def)

lemma proper_cases: "proper m \<Longrightarrow> (m = MOCRYPT_METHOD_ENCRYPT \<Longrightarrow> P) \<Longrightarrow> (m = MOCRYPT_METHOD_DECRYPT \<Longrightarrow> P) \<Longrightarrow> P"
  unfolding proper_def by blast

lemma proper_opposite [simp]: "proper (opposite m) = proper m" "opposite (opposite m) = m"
  by (cases m; simp)+

text \<open>
  \<open>crypts run m key L src c\<close>: run with method \<open>m\<close> on a source that starts with the first \<open>L\<close> bytes
  of \<open>src\<close>, the function stores \<open>c\<close> in the first \<open>L\<close> bytes of any destination, leaves the rest and
  reports the length.
\<close>

type_synonym run = "MOCRYPT_METHOD \<Rightarrow> byte ptr \<Rightarrow> nat \<Rightarrow> byte ptr \<Rightarrow> byte ptr \<Rightarrow> nat option \<Rightarrow> des_result"

definition crypts :: "run \<Rightarrow> MOCRYPT_METHOD \<Rightarrow> byte list \<Rightarrow> nat \<Rightarrow> byte list \<Rightarrow> byte list \<Rightarrow> bool" where
  "crypts run m key L src c \<longleftrightarrow> length c = L \<and>
     (\<forall>dst d. L \<le> length dst \<longrightarrow> run m (Some src) L (Some key) (Some dst) (Some d) =
        Some (MOCRYPT_DES_ERR_OK, Some (c @ drop L dst), Some L))"

text \<open>
  What the triple passes rely on: each of the two methods undoes the other. \<open>ok\<close> stands for a
  condition on the other arguments of the mode.
\<close>

locale message_cipher =
  fixes run :: run and ok :: bool
  assumes pass: "ok \<Longrightarrow> proper m \<Longrightarrow> 8 \<le> length key \<Longrightarrow> 0 < L \<Longrightarrow> 8 dvd L \<Longrightarrow> L \<le> length src \<Longrightarrow>
    \<exists>c. crypts run m key L src c \<and> (\<forall>r. crypts run (opposite m) key L (c @ r) (take L src))"
    and key_prefix: "length k = 8 \<Longrightarrow> run m s L (Some (k @ r)) dst d = run m s L (Some k) dst d"
begin

lemma crypts_key: "length k = 8 \<Longrightarrow> crypts run m (k @ r) L src c = crypts run m k L src c"
  by (simp add: crypts_def key_prefix)

lemma crypts_unique:
  assumes "crypts run m key L src c" and "crypts run m key L src c'"
  shows "c = c'"
proof -
  have "run m (Some src) L (Some key) (Some (replicate L 0)) (Some 0) = Some (0, Some c, Some L)"
    using assms(1) unfolding crypts_def by (auto dest!: spec [of _ "replicate L 0"])
  moreover have "run m (Some src) L (Some key) (Some (replicate L 0)) (Some 0) = Some (0, Some c', Some L)"
    using assms(2) unfolding crypts_def by (auto dest!: spec [of _ "replicate L 0"])
  ultimately show ?thesis by simp
qed

lemma crypts_length: "crypts run m key L src c \<Longrightarrow> length c = L"
  by (simp add: crypts_def)

lemma pass_prefix:
  assumes "ok" "proper m" "8 \<le> length key" "0 < L" "8 dvd L" "L \<le> length src"
    and c: "crypts run m key L src c"
  shows "crypts run m key L (take L src @ r) c"
proof -
  obtain d where d: "crypts run m key L src d" "\<And>r. crypts run (opposite m) key L (d @ r) (take L src)"
    using pass [OF assms(1-6)] by blast
  then have "d = c" using crypts_unique c by blast
  have len: "L \<le> length c" using c crypts_length by simp
  obtain x where x: "crypts run (opposite m) key L c x" "\<And>r. crypts run m key L (x @ r) (take L c)"
    using pass [OF assms(1) _ assms(3-5), of "opposite m" c] assms(2) len by auto
  have "x = take L src" using crypts_unique x(1) d(2) [of "[]"] \<open>d = c\<close> by simp
  then show ?thesis using x(2) [of r] c crypts_length by simp
qed

lemma passes:
  assumes "proper m" and "L \<le> length dst"
    and 1: "crypts run m (drop (if m = MOCRYPT_METHOD_ENCRYPT then 0 else 16) key) L src c1"
    and 2: "\<And>r. crypts run (opposite m) (drop 8 key) L (c1 @ r) c2"
    and 3: "crypts run m (drop (if m = MOCRYPT_METHOD_ENCRYPT then 16 else 0) key) L c2 c3"
  shows "des3Passes run m (Some src) L key (Some dst) (Some d) = Some (0, Some (c3 @ drop L dst), Some L)"
proof -
  let ?o1 = "if m = MOCRYPT_METHOD_ENCRYPT then 0 else 16"
  let ?o3 = "if m = MOCRYPT_METHOD_ENCRYPT then 16 else 0"
  have r1: "run m (Some src) L (Some (drop ?o1 key)) (Some dst) (Some d) =
      Some (0, Some (c1 @ drop L dst), Some L)"
    using 1 assms(2) unfolding crypts_def by blast
  have r2: "run (opposite m) (Some (c1 @ drop L dst)) L (Some (drop 8 key)) (Some (replicate L 0)) (Some L) =
      Some (0, Some c2, Some L)"
    using 2 [of "drop L dst"] unfolding crypts_def by simp
  have "L \<le> length (c1 @ drop L dst)" using 1 crypts_length by simp
  then have r3: "run m (Some c2) L (Some (drop ?o3 key)) (Some (c1 @ drop L dst)) (Some L) =
      Some (0, Some (c3 @ drop L dst), Some L)"
    using 3 1 unfolding crypts_def by auto
  show ?thesis using assms(1) r1 r2 r3
    by (elim proper_cases) (simp_all add: des3Passes_def)
qed

lemma triple:
  assumes ok "proper m" "24 \<le> length key" "0 < L" "8 dvd L" "L \<le> length src"
  shows "\<exists>c. length c = L \<and>
    (\<forall>dst d. L \<le> length dst \<longrightarrow> des3Passes run m (Some src) L key (Some dst) (Some d) =
       Some (0, Some (c @ drop L dst), Some L)) \<and>
    (\<forall>r dst d. L \<le> length dst \<longrightarrow> des3Passes run (opposite m) (Some (c @ r)) L key (Some dst) (Some d) =
       Some (0, Some (take L src @ drop L dst), Some L))"
proof -
  let ?k1 = "drop (if m = MOCRYPT_METHOD_ENCRYPT then 0 else 16) key"
  let ?k3 = "drop (if m = MOCRYPT_METHOD_ENCRYPT then 16 else 0) key"
  have k: "8 \<le> length ?k1" "8 \<le> length (drop 8 key)" "8 \<le> length ?k3" using assms(3) by auto
  obtain c1 where c1: "crypts run m ?k1 L src c1" "\<And>r. crypts run (opposite m) ?k1 L (c1 @ r) (take L src)"
    using pass [OF assms(1,2) k(1) assms(4-6)] by blast
  have l1: "L \<le> length c1" using c1 crypts_length by simp
  obtain c2 where c2: "crypts run (opposite m) (drop 8 key) L c1 c2"
    "\<And>r. crypts run m (drop 8 key) L (c2 @ r) (take L c1)"
    using pass [OF assms(1) _ k(2) assms(4,5) l1, of "opposite m"] assms(2) by auto
  have l2: "L \<le> length c2" using c2 crypts_length by simp
  obtain c3 where c3: "crypts run m ?k3 L c2 c3" "\<And>r. crypts run (opposite m) ?k3 L (c3 @ r) (take L c2)"
    using pass [OF assms(1,2) k(3) assms(4,5) l2] by blast
  have t: "take L c1 = c1" "take L c2 = c2" using c1 c2 crypts_length by simp_all
  have c2': "crypts run (opposite m) (drop 8 key) L (c1 @ r) c2" for r
    using pass_prefix [OF assms(1) _ k(2) assms(4,5) l1 c2(1)] assms(2) t by simp
  have "des3Passes run m (Some src) L key (Some dst) (Some d) = Some (0, Some (c3 @ drop L dst), Some L)"
    if "L \<le> length dst" for dst d
    by (rule passes [OF assms(2) that c1(1) c2' c3(1)])
  moreover have "des3Passes run (opposite m) (Some (c3 @ r)) L key (Some dst) (Some d) =
      Some (0, Some (take L src @ drop L dst), Some L)" if "L \<le> length dst" for r dst d
  proof (rule passes [of _ _ _ _ _ c2 c1])
    show "crypts run (opposite m) (drop (if opposite m = MOCRYPT_METHOD_ENCRYPT then 0 else 16) key) L (c3 @ r) c2"
      using c3(2) [of r] t assms(2) by (elim proper_cases) auto
    show "crypts run (opposite (opposite m)) (drop 8 key) L (c2 @ r') c1" for r'
      using c2(2) [of r'] t by simp
    show "crypts run (opposite m) (drop (if opposite m = MOCRYPT_METHOD_ENCRYPT then 16 else 0) key) L c1 (take L src)"
      using c1(2) [of "[]"] assms(2) by (elim proper_cases) auto
  qed (use assms that in simp_all)
  ultimately show ?thesis using c3 crypts_length by blast
qed

lemma triple_same_key:
  assumes ok "proper m" "0 < L" "8 dvd L" "L \<le> length src" "length k = 8"
    and c: "crypts run m k L src c" and "L \<le> length dst"
  shows "des3Passes run m (Some src) L (k @ k @ k) (Some dst) (Some d) = Some (0, Some (c @ drop L dst), Some L)"
proof (rule passes [of _ _ _ _ _ c "take L src"])
  have k8: "8 \<le> length k" using assms by simp
  have d: "drop 8 (k @ k @ k) = k @ k" "drop 16 (k @ k @ k) = k" using assms(6) by simp_all
  have off: "drop (if b then 0 else 16) (k @ k @ k) = (if b then k @ k @ k else k)"
    "drop (if b then 16 else 0) (k @ k @ k) = (if b then k else k @ k @ k)" for b
    using d by simp_all
  show "crypts run m (drop (if m = MOCRYPT_METHOD_ENCRYPT then 0 else 16) (k @ k @ k)) L src c"
    unfolding off using c crypts_key [OF assms(6)] by auto
  obtain x where x: "crypts run m k L src x" "\<And>r. crypts run (opposite m) k L (x @ r) (take L src)"
    using pass [OF assms(1,2) k8 assms(3-5)] by blast
  then have "x = c" using crypts_unique c by blast
  then show "crypts run (opposite m) (drop 8 (k @ k @ k)) L (c @ r) (take L src)" for r
    unfolding d using x(2) crypts_key [OF assms(6)] by simp
  show "crypts run m (drop (if m = MOCRYPT_METHOD_ENCRYPT then 16 else 0) (k @ k @ k)) L (take L src) c"
    unfolding off using pass_prefix [OF assms(1,2) k8 assms(3-5) c, of "[]"] crypts_key [OF assms(6)] by auto
qed (use assms in simp_all)

end

section \<open>The exported functions\<close>

lemma desKey_Some:
  assumes "keyLen \<le> length k"
  shows "\<exists>x. desKey k keyLen = Some x"
proof -
  have "8 < keyLen \<Longrightarrow> rdn k 0 8 = Some (take 8 k)" using assms by simp
  moreover have "keyLen < 8 \<Longrightarrow> \<exists>x. wrn (replicate 8 0) 0 (take keyLen k) = Some x"
    using assms by (simp add: wrn_def)
  ultimately show ?thesis using assms unfolding desKey_def
    by (cases keyLen "8 :: nat" rule: linorder_cases) simp_all
qed

definition key_schedule :: "(nat \<Rightarrow> bool) \<Rightarrow> byte list \<Rightarrow> byte list list" where
  "key_schedule mallocOk key = map unbits (des_keys (used_shift mallocOk) (bits key))"

lemma valid_key_schedule: "valid_keyEx (key_schedule m key)"
  unfolding valid_keyEx_def key_schedule_def using des_keys_length by fastforce

lemma keyExpand_key_schedule: "8 \<le> length key \<Longrightarrow> keyExpand m key = Some (key_schedule m key)"
  by (simp add: keyExpand_eq key_schedule_def)

lemma key_schedule_prefix:
  assumes "length k = 8"
  shows "key_schedule m (k @ r) = key_schedule m k"
proof -
  have "permute gKeyExReplaceTable (bits (k @ r)) = permute gKeyExReplaceTable (bits k)"
    using permute_cong_take [of gKeyExReplaceTable 64 "bits (k @ r)"] assms
    by (simp add: bits_append)
  then show ?thesis by (simp add: key_schedule_def des_keys_def)
qed

lemma ECB_eq:
  assumes "8 \<le> length key" and "keyLen \<le> length key" and "0 < n"
  shows "moCrypt_DES_ECB m MOCRYPT_METHOD_ENCRYPT (Some src) (8 * n) (Some key) keyLen (Some dst) (Some d) =
      map_option (\<lambda>x. (0, Some x, Some (8 * n))) (ecbUnits (unitEncrypt (key_schedule m key)) src (8 * n) dst)"
    and "moCrypt_DES_ECB m MOCRYPT_METHOD_DECRYPT (Some src) (8 * n) (Some key) keyLen (Some dst) (Some d) =
      map_option (\<lambda>x. (0, Some x, Some (8 * n))) (ecbUnits (unitDecrypt (key_schedule m key)) src (8 * n) dst)"
  using assms desKey_Some [OF assms(2)] keyExpand_key_schedule [OF assms(1), of m]
  by (auto simp: moCrypt_DES_ECB_def ecbEnCrypt_def ecbDeCrypt_def map_option_case
    split: option.split bind_splits)

lemma CBC_eq:
  assumes "8 \<le> length key" and "keyLen \<le> length key" and "0 < n"
  shows "moCrypt_DES_CBC m MOCRYPT_METHOD_ENCRYPT (Some src) (8 * n) (Some key) keyLen (Some iv) (Some dst) (Some d) =
      map_option (\<lambda>x. (0, Some x, Some (8 * n))) (cbcEnUnits (unitEncrypt (key_schedule m key)) src (8 * n) iv dst)"
    and "moCrypt_DES_CBC m MOCRYPT_METHOD_DECRYPT (Some src) (8 * n) (Some key) keyLen (Some iv) (Some dst) (Some d) =
      map_option (\<lambda>x. (0, Some x, Some (8 * n))) (cbcDeUnits (unitDecrypt (key_schedule m key)) src (8 * n) iv dst)"
  using assms desKey_Some [OF assms(2)] keyExpand_key_schedule [OF assms(1), of m]
  by (auto simp: moCrypt_DES_CBC_def cbcEnCrypt_def cbcDeCrypt_def map_option_case
    split: option.split bind_splits)

lemma ecb_pass:
  assumes "proper mt" "8 \<le> length key" "keyLen \<le> length key" "0 < L" "8 dvd L" "L \<le> length src"
  shows "\<exists>c. crypts (\<lambda>mt s n k. moCrypt_DES_ECB m mt s n k keyLen) mt key L src c \<and>
    (\<forall>r. crypts (\<lambda>mt s n k. moCrypt_DES_ECB m mt s n k keyLen) (opposite mt) key L (c @ r) (take L src))"
proof -
  obtain n where L: "L = 8 * n" using assms(5) by blast
  then have n: "0 < n" "8 * n \<le> length src" using assms by simp_all
  note v = valid_key_schedule [of m key]
  note eqs = ECB_eq [OF assms(2,3) n(1), of m]
  from assms(1) show ?thesis
  proof (rule proper_cases)
    assume mt: "mt = MOCRYPT_METHOD_ENCRYPT"
    show ?thesis using des.ecb_inverse [OF v n(2)] n unfolding crypts_def L mt by (auto simp: eqs min_def)
  next
    assume mt: "mt = MOCRYPT_METHOD_DECRYPT"
    show ?thesis using des.inverse.ecb_inverse [OF v n(2)] n unfolding crypts_def L mt
      by (auto simp: eqs min_def)
  qed
qed

lemma cbc_pass:
  assumes "8 \<le> length iv" "proper mt" "8 \<le> length key" "keyLen \<le> length key" "0 < L" "8 dvd L" "L \<le> length src"
  shows "\<exists>c. crypts (\<lambda>mt s n k. moCrypt_DES_CBC m mt s n k keyLen (Some iv)) mt key L src c \<and>
    (\<forall>r. crypts (\<lambda>mt s n k. moCrypt_DES_CBC m mt s n k keyLen (Some iv)) (opposite mt) key L (c @ r) (take L src))"
proof -
  obtain n where L: "L = 8 * n" using assms(6) by blast
  then have n: "0 < n" "8 * n \<le> length src" using assms by simp_all
  note v = valid_key_schedule [of m key]
  note eqs = CBC_eq [OF assms(3,4) n(1), of m]
  from assms(2) show ?thesis
  proof (rule proper_cases)
    assume mt: "mt = MOCRYPT_METHOD_ENCRYPT"
    show ?thesis using des.cbc_inverse [OF v n assms(1)] n unfolding crypts_def L mt by (auto simp: eqs min_def)
  next
    assume mt: "mt = MOCRYPT_METHOD_DECRYPT"
    show ?thesis using des.cbc_inverse_dec [OF v n assms(1)] n unfolding crypts_def L mt
      by (auto simp: eqs min_def)
  qed
qed

lemma desKey_8_prefix:
  assumes "length k = 8"
  shows "desKey (k @ r) 8 = Some k" "desKey k 8 = Some k"
  using assms by (simp_all add: desKey_def)

interpretation ecb: message_cipher "\<lambda>mt s n k. moCrypt_DES_ECB mallocOk mt s n k MOCRYPT_DES_KEYLEN" True
  for mallocOk
proof unfold_locales
  fix k :: "byte list" and mt s L r dst d assume k: "length k = 8"
  show "moCrypt_DES_ECB mallocOk mt s L (Some (k @ r)) 8 dst d = moCrypt_DES_ECB mallocOk mt s L (Some k) 8 dst d"
    using k desKey_8_prefix [OF k] keyExpand_key_schedule [of "k @ r" mallocOk] keyExpand_key_schedule [of k mallocOk]
      key_schedule_prefix [OF k, of mallocOk r]
    by (simp add: moCrypt_DES_ECB_def ecbEnCrypt_def ecbDeCrypt_def split: option.split MOCRYPT_METHOD.split)
qed (rule ecb_pass)

interpretation cbc: message_cipher "\<lambda>mt s n k. moCrypt_DES_CBC mallocOk mt s n k MOCRYPT_DES_KEYLEN (Some iv)"
  "8 \<le> length iv" for mallocOk iv
proof unfold_locales
  fix k :: "byte list" and mt s L r dst d assume k: "length k = 8"
  show "moCrypt_DES_CBC mallocOk mt s L (Some (k @ r)) 8 (Some iv) dst d =
      moCrypt_DES_CBC mallocOk mt s L (Some k) 8 (Some iv) dst d"
    using k desKey_8_prefix [OF k] keyExpand_key_schedule [of "k @ r" mallocOk] keyExpand_key_schedule [of k mallocOk]
      key_schedule_prefix [OF k, of mallocOk r]
    by (simp add: moCrypt_DES_CBC_def cbcEnCrypt_def cbcDeCrypt_def split: option.split MOCRYPT_METHOD.split)
qed (rule cbc_pass)

lemma des3Key_24:
  assumes "keyLen \<le> length k"
  shows "\<exists>x. des3Key k keyLen = Some x \<and> length x = 24"
proof (cases "24 \<le> keyLen")
  case True
  then show ?thesis using assms by (simp add: des3Key_def)
next
  case False
  then show ?thesis using assms by (simp add: des3Key_def wrn_def)
qed

section \<open>Properties\<close>

text \<open>
  C5. ECB computes DES: with the key length 8, the exported function stores in each block of the
  destination the bit-level DES of the source block under the 16 round keys (in reverse order for
  decryption), over the tables of the source, touches nothing behind them, and reports the length.
  (Any other key length gives the same result instead of an error: \<open>moCrypt_DES_ECB_ignores_keyLen\<close>.)
\<close>

theorem moCrypt_DES_ECB_computes_des:
  assumes "8 \<le> length key" and "0 < n"
    and "8 * n \<le> length src" and "8 * n \<le> length dst" and "mallocOk 28"
  shows "moCrypt_DES_ECB mallocOk MOCRYPT_METHOD_ENCRYPT (Some src) (8 * n) (Some key) 8 (Some dst) (Some d) =
      Some (0, Some (concat (map (\<lambda>i. unbits (des_ref (des_keys key_shift (bits key)) (bits (blk i src))))
        [0..<n]) @ drop (8 * n) dst), Some (8 * n)) \<and>
    moCrypt_DES_ECB mallocOk MOCRYPT_METHOD_DECRYPT (Some src) (8 * n) (Some key) 8 (Some dst) (Some d) =
      Some (0, Some (concat (map (\<lambda>i. unbits (des_ref (rev (des_keys key_shift (bits key))) (bits (blk i src))))
        [0..<n]) @ drop (8 * n) dst), Some (8 * n))"
proof -
  have "used_shift mallocOk = key_shift" using assms(5) by (simp add: used_shift_def fun_eq_iff)
  then have ks: "key_schedule mallocOk key = map unbits (des_keys key_shift (bits key))"
    by (simp add: key_schedule_def)
  have b: "map bits (key_schedule mallocOk key) = des_keys key_shift (bits key)"
    unfolding ks map_map by (rule map_idI) (simp add: des_keys_length)
  note v = valid_key_schedule [of mallocOk key]
  have e: "length x = 8 \<Longrightarrow> unitEncrypt (key_schedule mallocOk key) x =
      Some (unbits (des_ref (des_keys key_shift (bits key)) (bits x))) \<and>
      length (unbits (des_ref (des_keys key_shift (bits key)) (bits x))) = 8" for x
    using unitEncrypt_eq [OF _ v] b by simp
  have d: "length x = 8 \<Longrightarrow> unitDecrypt (key_schedule mallocOk key) x =
      Some (unbits (des_ref (rev (des_keys key_shift (bits key))) (bits x))) \<and>
      length (unbits (des_ref (rev (des_keys key_shift (bits key))) (bits x))) = 8" for x
    using unitDecrypt_eq [OF _ v] b by simp
  have "ecbUnits (unitEncrypt (key_schedule mallocOk key)) src (8 * n) dst =
      Some (concat (map (\<lambda>i. unbits (des_ref (des_keys key_shift (bits key)) (bits (blk i src)))) [0..<n]) @
        drop (8 * n) dst)"
    by (rule ecbUnits_eq [OF _ assms(3,4)]) (rule e)
  moreover have "ecbUnits (unitDecrypt (key_schedule mallocOk key)) src (8 * n) dst =
      Some (concat (map (\<lambda>i. unbits (des_ref (rev (des_keys key_shift (bits key))) (bits (blk i src)))) [0..<n]) @
        drop (8 * n) dst)"
    by (rule ecbUnits_eq [OF _ assms(3,4)]) (rule d)
  ultimately show ?thesis unfolding ECB_eq [OF assms(1) assms(1) assms(2)] by simp
qed

theorem moCrypt_DES_ECB_computes_des_witness:
  "moCrypt_DES_ECB (\<lambda>_. True) MOCRYPT_METHOD_ENCRYPT (Some [1, 2, 3, 4, 5, 6, 7, 8]) 8
      (Some [9, 8, 7, 6, 5, 4, 3, 2]) 8 (Some [0, 0, 0, 0, 0, 0, 0, 0, 42]) (Some 0) =
    Some (0, Some (unbits (des_ref (des_keys key_shift (bits [9, 8, 7, 6, 5, 4, 3, 2]))
      (bits [1, 2, 3, 4, 5, 6, 7, 8])) @ [42]), Some 8)"
  using moCrypt_DES_ECB_computes_des [of "[9, 8, 7, 6, 5, 4, 3, 2]" 1 "[1, 2, 3, 4, 5, 6, 7, 8]"
    "[0, 0, 0, 0, 0, 0, 0, 0, 42]" "\<lambda>_. True" 0]
  by (simp add: blk_def)

text \<open>
  The key length changes nothing: a key of which \<open>keyLen\<close> bytes can be read and which has at least 8 bytes
  encrypts and decrypts as with the key length 8, for a smaller and for a larger \<open>keyLen\<close>. The comments want
  an error for \<open>keyLen != 8\<close>, or zeros behind the first \<open>keyLen\<close> bytes.
\<close>

lemma moCrypt_DES_ECB_ignores_keyLen:
  assumes "8 \<le> length key" and "keyLen \<le> length key" and "0 < n" and "proper mt"
  shows "moCrypt_DES_ECB m mt (Some src) (8 * n) (Some key) keyLen (Some dst) (Some d) =
    moCrypt_DES_ECB m mt (Some src) (8 * n) (Some key) 8 (Some dst) (Some d)"
  using assms(4) by (elim proper_cases) (simp_all only: ECB_eq [OF assms(1,2,3)] ECB_eq [OF assms(1,1,3)])

text \<open>
  C6. ECB round trip: for a key of at least 8 bytes and a positive multiple of 8 bytes, decrypting what
  was encrypted (or encrypting what was decrypted) restores the source, and neither call touches the
  destination behind the message.
\<close>

theorem moCrypt_DES_ECB_roundtrip:
  assumes "8 \<le> length key" and "keyLen \<le> length key" and "0 < L" and "8 dvd L"
    and "L \<le> length src" and "L \<le> length dst" and "L \<le> length dst'" and "proper mt"
  shows "\<exists>c. length c = L \<and>
    moCrypt_DES_ECB m mt (Some src) L (Some key) keyLen (Some dst) (Some d) =
      Some (0, Some (c @ drop L dst), Some L) \<and>
    moCrypt_DES_ECB m (opposite mt) (Some (c @ drop L dst)) L (Some key) keyLen (Some dst') (Some d') =
      Some (0, Some (take L src @ drop L dst'), Some L)"
  using ecb_pass [OF assms(8,1-5), of m] assms(6,7) unfolding crypts_def by blast

theorem moCrypt_DES_ECB_roundtrip_witness:
  "\<exists>c. moCrypt_DES_ECB (\<lambda>_. True) MOCRYPT_METHOD_ENCRYPT (Some [1, 2, 3, 4, 5, 6, 7, 8]) 8
      (Some [9, 8, 7, 6, 5, 4, 3, 2]) 8 (Some [0, 0, 0, 0, 0, 0, 0, 0]) (Some 0) = Some (0, Some c, Some 8) \<and>
    moCrypt_DES_ECB (\<lambda>_. True) MOCRYPT_METHOD_DECRYPT (Some c) 8
      (Some [9, 8, 7, 6, 5, 4, 3, 2]) 8 (Some [0, 0, 0, 0, 0, 0, 0, 0]) (Some 0) =
      Some (0, Some [1, 2, 3, 4, 5, 6, 7, 8], Some 8)"
  using moCrypt_DES_ECB_roundtrip [of "[9, 8, 7, 6, 5, 4, 3, 2]" 8 8 "[1, 2, 3, 4, 5, 6, 7, 8]"
    "[0, 0, 0, 0, 0, 0, 0, 0]" "[0, 0, 0, 0, 0, 0, 0, 0]" MOCRYPT_METHOD_ENCRYPT "\<lambda>_. True" 0 0]
  by auto

text \<open>
  CBC round trip: the same with an initial vector of at least 8 bytes.
\<close>

theorem moCrypt_DES_CBC_roundtrip:
  assumes "8 \<le> length key" and "keyLen \<le> length key" and "8 \<le> length iv" and "0 < L" and "8 dvd L"
    and "L \<le> length src" and "L \<le> length dst" and "L \<le> length dst'" and "proper mt"
  shows "\<exists>c. length c = L \<and>
    moCrypt_DES_CBC m mt (Some src) L (Some key) keyLen (Some iv) (Some dst) (Some d) =
      Some (0, Some (c @ drop L dst), Some L) \<and>
    moCrypt_DES_CBC m (opposite mt) (Some (c @ drop L dst)) L (Some key) keyLen (Some iv) (Some dst') (Some d') =
      Some (0, Some (take L src @ drop L dst'), Some L)"
  using cbc_pass [OF assms(3,9,1,2,4-6), of m] assms(7,8) unfolding crypts_def by blast

theorem moCrypt_DES_CBC_roundtrip_witness:
  "\<exists>c. moCrypt_DES_CBC (\<lambda>_. True) MOCRYPT_METHOD_ENCRYPT (Some [1, 2, 3, 4, 5, 6, 7, 8]) 8
      (Some [9, 8, 7, 6, 5, 4, 3, 2]) 8 (Some [1, 1, 1, 1, 1, 1, 1, 1]) (Some [0, 0, 0, 0, 0, 0, 0, 0]) (Some 0) =
      Some (0, Some c, Some 8) \<and>
    moCrypt_DES_CBC (\<lambda>_. True) MOCRYPT_METHOD_DECRYPT (Some c) 8
      (Some [9, 8, 7, 6, 5, 4, 3, 2]) 8 (Some [1, 1, 1, 1, 1, 1, 1, 1]) (Some [0, 0, 0, 0, 0, 0, 0, 0]) (Some 0) =
      Some (0, Some [1, 2, 3, 4, 5, 6, 7, 8], Some 8)"
  using moCrypt_DES_CBC_roundtrip [of "[9, 8, 7, 6, 5, 4, 3, 2]" 8 "[1, 1, 1, 1, 1, 1, 1, 1]" 8
    "[1, 2, 3, 4, 5, 6, 7, 8]" "[0, 0, 0, 0, 0, 0, 0, 0]" "[0, 0, 0, 0, 0, 0, 0, 0]"
    MOCRYPT_METHOD_ENCRYPT "\<lambda>_. True" 0 0]
  by auto

text \<open>
  Triple DES round trip, ECB and CBC: for a user key of any length (it is padded or cut to 24 bytes)
  and a positive multiple of 8 bytes, when the temporary buffer can be allocated, the three passes of
  the opposite method undo the three passes, and the destination behind the message is untouched.
\<close>

theorem moCrypt_DES3_roundtrip:
  assumes "keyLen \<le> length key" and "8 \<le> length iv" and "0 < L" and "8 dvd L"
    and "L \<le> length src" and "L \<le> length dst" and "L \<le> length dst'" and "proper mt" and "m L"
  shows "(\<exists>c. length c = L \<and>
      moCrypt_DES3_ECB m mt (Some src) L (Some key) keyLen (Some dst) (Some d) =
        Some (0, Some (c @ drop L dst), Some L) \<and>
      moCrypt_DES3_ECB m (opposite mt) (Some (c @ drop L dst)) L (Some key) keyLen (Some dst') (Some d') =
        Some (0, Some (take L src @ drop L dst'), Some L)) \<and>
    (\<exists>c. length c = L \<and>
      moCrypt_DES3_CBC m mt (Some src) L (Some key) keyLen (Some iv) (Some dst) (Some d) =
        Some (0, Some (c @ drop L dst), Some L) \<and>
      moCrypt_DES3_CBC m (opposite mt) (Some (c @ drop L dst)) L (Some key) keyLen (Some iv) (Some dst') (Some d') =
        Some (0, Some (take L src @ drop L dst'), Some L))"
proof -
  obtain k where k: "des3Key key keyLen = Some k" "24 \<le> length k"
    using des3Key_24 [OF assms(1)] by force
  have "L mod 8 = 0" using assms(4) by simp
  then show ?thesis
    using ecb.triple [OF TrueI assms(8) k(2) assms(3-5), of m]
      cbc.triple [OF assms(2,8) k(2) assms(3-5), of m] assms k(1)
    by (fastforce simp: moCrypt_DES3_ECB_def moCrypt_DES3_CBC_def)
qed

theorem moCrypt_DES3_roundtrip_witness:
  "\<exists>c. moCrypt_DES3_ECB (\<lambda>_. True) MOCRYPT_METHOD_ENCRYPT (Some [1, 2, 3, 4, 5, 6, 7, 8]) 8
      (Some [9, 8, 7]) 3 (Some [0, 0, 0, 0, 0, 0, 0, 0]) (Some 0) = Some (0, Some c, Some 8) \<and>
    moCrypt_DES3_ECB (\<lambda>_. True) MOCRYPT_METHOD_DECRYPT (Some c) 8
      (Some [9, 8, 7]) 3 (Some [0, 0, 0, 0, 0, 0, 0, 0]) (Some 0) =
      Some (0, Some [1, 2, 3, 4, 5, 6, 7, 8], Some 8)"
  using moCrypt_DES3_roundtrip [of 3 "[9, 8, 7]" "[1, 1, 1, 1, 1, 1, 1, 1]" 8 "[1, 2, 3, 4, 5, 6, 7, 8]"
    "[0, 0, 0, 0, 0, 0, 0, 0]" "[0, 0, 0, 0, 0, 0, 0, 0]" MOCRYPT_METHOD_ENCRYPT "\<lambda>_. True" 0 0]
  by auto

text \<open>
  With the same 8 bytes three times as its key, triple DES is single DES, in both modes.
\<close>

theorem moCrypt_DES3_same_key:
  assumes "length k = 8" and "8 \<le> length iv" and "0 < L" and "8 dvd L"
    and "L \<le> length src" and "L \<le> length dst" and "proper mt" and "m L"
  shows "moCrypt_DES3_ECB m mt (Some src) L (Some (k @ k @ k)) 24 (Some dst) (Some d) =
      moCrypt_DES_ECB m mt (Some src) L (Some k) 8 (Some dst) (Some d) \<and>
    moCrypt_DES3_CBC m mt (Some src) L (Some (k @ k @ k)) 24 (Some iv) (Some dst) (Some d) =
      moCrypt_DES_CBC m mt (Some src) L (Some k) 8 (Some iv) (Some dst) (Some d)"
proof -
  have k8: "8 \<le> length k" using assms by simp
  have key: "des3Key (k @ k @ k) 24 = Some (k @ k @ k)" using assms(1) by (simp add: des3Key_def)
  have L8: "L mod 8 = 0" using assms(4) by simp
  obtain c where c: "crypts (\<lambda>mt s n k. moCrypt_DES_ECB m mt s n k 8) mt k L src c"
    using ecb.pass [OF TrueI assms(7) k8 assms(3-5), of m] by blast
  obtain c' where c': "crypts (\<lambda>mt s n k. moCrypt_DES_CBC m mt s n k 8 (Some iv)) mt k L src c'"
    using cbc.pass [OF assms(2,7) k8 assms(3-5), of m] by blast
  have "moCrypt_DES_ECB m mt (Some src) L (Some k) 8 (Some dst) (Some d) =
      Some (0, Some (c @ drop L dst), Some L)"
    using c assms(6) unfolding crypts_def by blast
  moreover have "moCrypt_DES_CBC m mt (Some src) L (Some k) 8 (Some iv) (Some dst) (Some d) =
      Some (0, Some (c' @ drop L dst), Some L)"
    using c' assms(6) unfolding crypts_def by blast
  ultimately show ?thesis
    using ecb.triple_same_key [OF TrueI assms(7,3-5,1) c assms(6)]
      cbc.triple_same_key [OF assms(2,7,3-5,1) c' assms(6)] assms(3,8) key L8
    by (simp add: moCrypt_DES3_ECB_def moCrypt_DES3_CBC_def)
qed

theorem moCrypt_DES3_same_key_witness:
  "moCrypt_DES3_ECB (\<lambda>_. True) MOCRYPT_METHOD_ENCRYPT (Some [1, 2, 3, 4, 5, 6, 7, 8]) 8
      (Some ([9, 8, 7, 6, 5, 4, 3, 2] @ [9, 8, 7, 6, 5, 4, 3, 2] @ [9, 8, 7, 6, 5, 4, 3, 2])) 24
      (Some [0, 0, 0, 0, 0, 0, 0, 0]) (Some 0) =
    moCrypt_DES_ECB (\<lambda>_. True) MOCRYPT_METHOD_ENCRYPT (Some [1, 2, 3, 4, 5, 6, 7, 8]) 8
      (Some [9, 8, 7, 6, 5, 4, 3, 2]) 8 (Some [0, 0, 0, 0, 0, 0, 0, 0]) (Some 0)"
  by (rule moCrypt_DES3_same_key [of _ "replicate 8 1", THEN conjunct1]) simp_all

text \<open>
  Two entries of the S-boxes of the source are not those of DES: in the standard every row of an
  S-box is a permutation of 0 .. 15, and here exactly the second rows of S6 and S7 are not (both have
  a 0 where the 9 belongs).
\<close>

theorem gRoundSboxTable_rows:
  "[(t, r). t \<leftarrow> [0..<8], r \<leftarrow> [0..<4],
      sort (map unat (take 16 (drop (16 * r) (gRoundSboxTable ! t)))) \<noteq> [0..<16]] =
    [(5, 1), (6, 1)] \<and>
   gRoundSboxTable ! 5 ! 22 = 0 \<and> gRoundSboxTable ! 6 ! 21 = 0"
  by code_simp

lemma keyExReplace_short:
  assumes "length key < 8"
  shows "keyExReplace key = None"
proof -
  have "[0..<56] = 0 # [1..<56::nat]" by (simp add: upt_conv_Cons)
  moreover have "rd gKeyExReplaceTable 0 = Some 57" by (simp add: gKeyExReplaceTable_def)
  moreover have "testBit key 7 0 = None" using assms by (simp add: testBit_def rd_def)
  ultimately show ?thesis by (simp add: keyExReplace_def bitTable_def)
qed

text \<open>
  A key shorter than 8 bytes is read beyond its end, although the function has prepared a padded
  copy: with \<open>keyLen\<close> equal to the length of such a key neither mode has a defined result.
\<close>

theorem moCrypt_DES_short_key:
  assumes "length key < 8" and "0 < L" and "8 dvd L" and "proper mt"
  shows "moCrypt_DES_ECB m mt (Some src) L (Some key) (length key) (Some dst) (Some d) = None \<and>
    moCrypt_DES_CBC m mt (Some src) L (Some key) (length key) (Some iv) (Some dst) (Some d) = None"
proof -
  have "keyExpand m key = None" using keyExReplace_short [OF assms(1)] by (simp add: keyExpand_def)
  then show ?thesis using assms desKey_Some [OF order_refl, of key]
    by (elim proper_cases) (auto simp: moCrypt_DES_ECB_def moCrypt_DES_CBC_def ecbEnCrypt_def
      ecbDeCrypt_def cbcEnCrypt_def cbcDeCrypt_def)
qed

theorem moCrypt_DES_short_key_witness:
  "moCrypt_DES_ECB (\<lambda>_. True) MOCRYPT_METHOD_ENCRYPT (Some [1, 2, 3, 4, 5, 6, 7, 8]) 8
     (Some [9, 8, 7]) 3 (Some [0, 0, 0, 0, 0, 0, 0, 0]) (Some 0) = None"
proof -
  have n: "length [9, 8, 7 :: byte] = 3" by simp
  show ?thesis
    by (rule moCrypt_DES_short_key [of "[9, 8, 7]" 8, unfolded n, THEN conjunct1]) simp_all
qed

text \<open>
  Bad arguments: a length that is 0 or no multiple of 8 gives \<open>MOCRYPT_DES_ERR_INPUTERROR\<close>, a \<open>NULL\<close>
  source gives \<open>MOCRYPT_DES_ERR_INPUTNULL\<close>, in all four functions and for every method, and the
  destination and the length behind \<open>pDstLen\<close> stay as they are.
\<close>

theorem moCrypt_DES_bad_arguments:
  assumes "L = 0 \<or> \<not> 8 dvd L"
  shows "moCrypt_DES_ECB m mt (Some src) L (Some key) n (Some dst) (Some d) = Some (MOCRYPT_DES_ERR_INPUTERROR, Some dst, Some d) \<and>
    moCrypt_DES_CBC m mt (Some src) L (Some key) n (Some iv) (Some dst) (Some d) = Some (MOCRYPT_DES_ERR_INPUTERROR, Some dst, Some d) \<and>
    moCrypt_DES3_ECB m mt (Some src) L (Some key) n (Some dst) (Some d) = Some (MOCRYPT_DES_ERR_INPUTERROR, Some dst, Some d) \<and>
    moCrypt_DES3_CBC m mt (Some src) L (Some key) n (Some iv) (Some dst) (Some d) = Some (MOCRYPT_DES_ERR_INPUTERROR, Some dst, Some d) \<and>
    moCrypt_DES_ECB m mt None L' pKey n pDst pDstLen = Some (MOCRYPT_DES_ERR_INPUTNULL, pDst, pDstLen) \<and>
    moCrypt_DES_CBC m mt None L' pKey n pIv pDst pDstLen = Some (MOCRYPT_DES_ERR_INPUTNULL, pDst, pDstLen) \<and>
    moCrypt_DES3_ECB m mt None L' pKey n pDst pDstLen = Some (MOCRYPT_DES_ERR_INPUTNULL, pDst, pDstLen) \<and>
    moCrypt_DES3_CBC m mt None L' pKey n pIv pDst pDstLen = Some (MOCRYPT_DES_ERR_INPUTNULL, pDst, pDstLen)"
  using assms by (auto simp: moCrypt_DES_ECB_def moCrypt_DES_CBC_def moCrypt_DES3_ECB_def
    moCrypt_DES3_CBC_def dvd_eq_mod_eq_0)

theorem moCrypt_DES_bad_arguments_witness:
  "moCrypt_DES3_CBC (\<lambda>_. True) MOCRYPT_METHOD_DECRYPT (Some [1, 2, 3]) 3 (Some [7]) 1 (Some [5])
     (Some [0]) (Some 9) = Some (MOCRYPT_DES_ERR_INPUTERROR, Some [0], Some 9)"
proof -
  have "(3 :: nat) = 0 \<or> \<not> 8 dvd (3 :: nat)" by simp
  from moCrypt_DES_bad_arguments [OF this] show ?thesis by blast
qed

end
