(* ===== verification/MoFile.thy ===== *)
theory MoFile
  imports MoPrelude
begin

text \<open>
  The file helpers of \<open>moSdk/Utils/File/src/file.c\<close>, and the model of the file system that the
  file-processing components share.

  C strings are \<open>string\<close>s without the terminating NUL. What the operating system answers is a
  parameter: \<open>lstat\<close> and \<open>stat\<close> (\<open>None\<close> when the call fails), and \<open>popenOut cmd\<close>, what the shell
  command \<open>cmd\<close> run by \<open>popen\<close> prints (\<open>None\<close> when \<open>popen\<close> fails). A NULL \<open>char *\<close> is \<open>None\<close>.
\<close>

section \<open>The file system\<close>

text \<open>
  Regular files by path. \<open>fopen(p, "rb")\<close> succeeds when the path holds a file; \<open>fopen(p, "wb")\<close>
  succeeds when \<open>writable p\<close>, and leaves an empty file.
\<close>

type_synonym files = "string \<Rightarrow> byte list option"

text \<open>
  \<open>fread(buf, 1, n, fp)\<close> returns the next \<open>n\<close> bytes, or what is left: the successive reads of a
  file until the first empty one.
\<close>

function blocks_of :: "nat \<Rightarrow> 'a list \<Rightarrow> 'a list list" where
  "blocks_of n xs = (if n = 0 \<or> xs = [] then [] else take n xs # blocks_of n (drop n xs))"
  by pat_completeness auto
termination by (relation "measure (\<lambda>(n, xs). length xs)") auto

declare blocks_of.simps [simp del]

lemma blocks_of_Nil [simp]: "blocks_of n [] = []"
  by (simp add: blocks_of.simps)

lemma blocks_of_step: "0 < n \<Longrightarrow> xs \<noteq> [] \<Longrightarrow> blocks_of n xs = take n xs # blocks_of n (drop n xs)"
  by (simp add: blocks_of.simps)

lemma concat_blocks_of: "0 < n \<Longrightarrow> concat (blocks_of n xs) = xs"
  by (induction n xs rule: blocks_of.induct) (subst blocks_of.simps, simp)

lemma blocks_of_length: "b \<in> set (blocks_of n xs) \<Longrightarrow> 0 < length b \<and> length b \<le> n"
proof (induction n xs rule: blocks_of.induct)
  case (1 n xs)
  then show ?case by (cases "n = 0 \<or> xs = []") (auto simp: blocks_of_step blocks_of.simps [of 0])
qed

section \<open>Status of a path\<close>

datatype file_mode = S_IFREG | S_IFLNK | S_IFDIR | S_IFOTHER

record stat =
  st_mode :: file_mode
  st_size :: nat

abbreviation (input) MOUTILS_FILE_ERR_OK :: int where
  "MOUTILS_FILE_ERR_OK \<equiv> 0"

abbreviation (input) MOUTILS_FILE_ERR_INPUTPARAMNULL :: int where
  "MOUTILS_FILE_ERR_INPUTPARAMNULL \<equiv> -11000"

abbreviation (input) MOUTILS_FILE_ERR_MALLOCFAILED :: int where
  "MOUTILS_FILE_ERR_MALLOCFAILED \<equiv> -11001"

abbreviation (input) MOUTILS_FILE_ERR_NOTFILE :: int where
  "MOUTILS_FILE_ERR_NOTFILE \<equiv> -11003"

abbreviation (input) MOUTILS_FILE_ERR_STATFAILED :: int where
  "MOUTILS_FILE_ERR_STATFAILED \<equiv> -11004"

definition isFile :: "(string \<Rightarrow> stat option) \<Rightarrow> string option \<Rightarrow> bool" where
  "isFile lstat path =
     (case path of
        None \<Rightarrow> False
      | Some p \<Rightarrow>
          (case lstat p of
             None \<Rightarrow> False
           | Some st \<Rightarrow> if st_mode st = S_IFREG then True else st_mode st = S_IFLNK))"

definition isDir :: "(string \<Rightarrow> stat option) \<Rightarrow> string option \<Rightarrow> bool" where
  "isDir stat path =
     (case path of
        None \<Rightarrow> False
      | Some p \<Rightarrow>
          (case stat p of
             None \<Rightarrow> False
           | Some st \<Rightarrow> st_mode st = S_IFDIR))"

text \<open>The size is an \<open>off_t\<close> of 64 bits that the function returns as an \<open>int\<close>.\<close>

definition moUtils_File_getSize :: "(string \<Rightarrow> stat option) \<Rightarrow> string option \<Rightarrow> int" where
  "moUtils_File_getSize lstat pFilepath =
     (case pFilepath of
        None \<Rightarrow> MOUTILS_FILE_ERR_INPUTPARAMNULL
      | Some p \<Rightarrow>
          if isFile lstat (Some p)
          then (case lstat p of
                  None \<Rightarrow> MOUTILS_FILE_ERR_STATFAILED
                | Some st \<Rightarrow> to_int32 (st_size st))
          else MOUTILS_FILE_ERR_NOTFILE)"

section \<open>Splitting a path\<close>

definition strrchr :: "string \<Rightarrow> char \<Rightarrow> nat option" where
  "strrchr s c = (case filter (\<lambda>i. s ! i = c) [0..<length s] of [] \<Rightarrow> None | is \<Rightarrow> Some (last is))"

record MOUTILS_FILE_DIR_FILENAME =
  pDirpath :: "string option"
  pFilename :: "string option"

text \<open>
  \<open>mallocOk n\<close> says whether \<open>malloc(n)\<close> succeeds. The result is the return value and the structure
  afterwards.
\<close>

definition moUtils_File_getDirAndFilename ::
    "(nat \<Rightarrow> bool) \<Rightarrow> string option \<Rightarrow> MOUTILS_FILE_DIR_FILENAME option \<Rightarrow>
     int \<times> MOUTILS_FILE_DIR_FILENAME option" where
  "moUtils_File_getDirAndFilename mallocOk pFilepath pInfo =
     (case (pFilepath, pInfo) of
        (Some p, Some info) \<Rightarrow>
          if pDirpath info \<noteq> None \<and> pFilename info \<noteq> None
          then (MOUTILS_FILE_ERR_INPUTPARAMNULL, pInfo)
          else (case strrchr p (CHR ''/'') of
              None \<Rightarrow>
                if \<not> mallocOk 3 then (MOUTILS_FILE_ERR_MALLOCFAILED, Some (info\<lparr>pDirpath := None\<rparr>))
                else if \<not> mallocOk (length p + 1)
                then (MOUTILS_FILE_ERR_MALLOCFAILED, Some (info\<lparr>pDirpath := None, pFilename := None\<rparr>))
                else (MOUTILS_FILE_ERR_OK, Some (info\<lparr>pDirpath := Some ''./'', pFilename := Some p\<rparr>))
            | Some pos \<Rightarrow>
                let dirLen = pos + 1 + 1; filenameLen = length p - pos in
                if \<not> mallocOk dirLen then (MOUTILS_FILE_ERR_MALLOCFAILED, Some (info\<lparr>pDirpath := None\<rparr>))
                else if \<not> mallocOk filenameLen
                then (MOUTILS_FILE_ERR_MALLOCFAILED, Some (info\<lparr>pDirpath := None, pFilename := None\<rparr>))
                else (MOUTILS_FILE_ERR_OK,
                  Some (info\<lparr>pDirpath := Some (take (dirLen - 1) p),
                             pFilename := Some (take (filenameLen - 1) (drop (pos + 1) p))\<rparr>)))
      | _ \<Rightarrow> (MOUTILS_FILE_ERR_INPUTPARAMNULL, pInfo))"

section \<open>Absolute paths\<close>

text \<open>
  \<open>getAbsDirPath\<close> runs \<open>cd dir;pwd\<close> with \<open>popen\<close> and reads the output in blocks of 256, 512, ... bytes
  until a read is shorter than its block; the line feed at the end of that block is overwritten with
  the terminator. The stream is a pipe, on which the \<open>rewind\<close> before each read has no effect, so a
  read continues where the last one stopped. \<open>out\<close> is the output that is left; a read of nothing
  makes the code write to \<open>pBlk[-1]\<close>. The result is \<open>None\<close> when there is no defined result, and
  \<open>Some None\<close> when the function returns \<open>NULL\<close>.
\<close>

function readAbsDir :: "(nat \<Rightarrow> bool) \<Rightarrow> nat \<Rightarrow> string \<Rightarrow> string option option" where
  "readAbsDir mallocOk i out =
     (let blkSize = 256 * (i + 1) in
      if \<not> mallocOk blkSize then Some None
      else if blkSize \<le> length out then readAbsDir mallocOk (i + 1) (drop blkSize out)
      else if out = [] then None
      else Some (Some (butlast out)))"
  by pat_completeness auto
termination by (relation "measure (\<lambda>(m, i, out). length out)") auto

declare readAbsDir.simps [simp del]

definition moUtils_File_getAbsDirPath ::
    "(nat \<Rightarrow> bool) \<Rightarrow> (string \<Rightarrow> stat option) \<Rightarrow> (string \<Rightarrow> string option) \<Rightarrow> string option \<Rightarrow>
     string option option" where
  "moUtils_File_getAbsDirPath mallocOk stat popenOut dirpath =
     (case dirpath of
        None \<Rightarrow> Some None
      | Some d \<Rightarrow>
          if \<not> isDir stat (Some d) then Some None
          else if \<not> mallocOk (length d + 7 + 1) then Some None
          else (case popenOut (''cd '' @ d @ '';pwd'') of
              None \<Rightarrow> Some None
            | Some out \<Rightarrow> readAbsDir mallocOk 0 out))"

definition moUtils_File_getAbsFilePath ::
    "(nat \<Rightarrow> bool) \<Rightarrow> (string \<Rightarrow> stat option) \<Rightarrow> (string \<Rightarrow> string option) \<Rightarrow> string option \<Rightarrow>
     string option option" where
  "moUtils_File_getAbsFilePath mallocOk stat popenOut pFilepath =
     (case pFilepath of
        None \<Rightarrow> Some None
      | Some p \<Rightarrow>
          (case moUtils_File_getDirAndFilename mallocOk (Some p) (Some \<lparr>pDirpath = None, pFilename = None\<rparr>) of
             (ret, Some info) \<Rightarrow>
               if ret \<noteq> 0 then Some None
               else do {
                 absDir \<leftarrow> moUtils_File_getAbsDirPath mallocOk stat popenOut (pDirpath info);
                 (case (absDir, pFilename info) of
                    (Some d, Some n) \<Rightarrow>
                      Some (if mallocOk (length d + 1 + length n + 1) then Some (d @ ''/'' @ n) else None)
                  | _ \<Rightarrow> Some None)
               }
           | _ \<Rightarrow> Some None))"

datatype MOUTILS_FILE_ABSPATH_STATE =
  MOUTILS_FILE_ABSPATH_STATE_ERR | MOUTILS_FILE_ABSPATH_STATE_SAME | MOUTILS_FILE_ABSPATH_STATE_DIFF

text \<open>
  \<open>pState\<close> is the value behind the pointer, \<open>None\<close> when it is \<open>NULL\<close>: the guard for \<open>NULL\<close> arguments
  writes through it in that case too, so that the call has no defined result.
\<close>

definition moUtils_File_getFilepathSameState ::
    "(nat \<Rightarrow> bool) \<Rightarrow> (string \<Rightarrow> stat option) \<Rightarrow> (string \<Rightarrow> string option) \<Rightarrow>
     string option \<Rightarrow> string option \<Rightarrow> MOUTILS_FILE_ABSPATH_STATE option \<Rightarrow>
     (int \<times> MOUTILS_FILE_ABSPATH_STATE) option" where
  "moUtils_File_getFilepathSameState mallocOk stat popenOut pSrcFilepath pDstFilepath pState = do {
     _ \<leftarrow> pState;
     (case (pSrcFilepath, pDstFilepath) of
        (Some src, Some dst) \<Rightarrow>
          if src = dst then Some (MOUTILS_FILE_ERR_OK, MOUTILS_FILE_ABSPATH_STATE_SAME)
          else do {
            srcAbs \<leftarrow> moUtils_File_getAbsFilePath mallocOk stat popenOut (Some src);
            if srcAbs = None then Some (MOUTILS_FILE_ERR_MALLOCFAILED, MOUTILS_FILE_ABSPATH_STATE_ERR)
            else do {
              dstAbs \<leftarrow> moUtils_File_getAbsFilePath mallocOk stat popenOut (Some dst);
              if dstAbs = None then Some (MOUTILS_FILE_ERR_MALLOCFAILED, MOUTILS_FILE_ABSPATH_STATE_ERR)
              else if srcAbs = dstAbs
              then Some (MOUTILS_FILE_ERR_OK, MOUTILS_FILE_ABSPATH_STATE_SAME)
              else Some (MOUTILS_FILE_ERR_OK, MOUTILS_FILE_ABSPATH_STATE_DIFF)
            }
          }
      | _ \<Rightarrow> Some (MOUTILS_FILE_ERR_INPUTPARAMNULL, MOUTILS_FILE_ABSPATH_STATE_ERR))
   }"

section \<open>Correctness\<close>

lemma strrchr_None: "strrchr s c = None \<longleftrightarrow> c \<notin> set s"
proof -
  have "strrchr s c = None \<longleftrightarrow> filter (\<lambda>i. s ! i = c) [0..<length s] = []"
    unfolding strrchr_def by (auto split: list.split)
  then show ?thesis by (auto simp: filter_empty_conv in_set_conv_nth)
qed

lemma strrchr_Some:
  assumes "strrchr s c = Some i"
  shows "i < length s \<and> s ! i = c \<and> c \<notin> set (drop (Suc i) s)"
proof -
  let ?is = "filter (\<lambda>i. s ! i = c) [0..<length s]"
  have ne: "?is \<noteq> []" and l: "i = last ?is"
    using assms unfolding strrchr_def by (auto split: list.splits)
  then have "i \<in> set ?is" by (metis last_in_set)
  then have i: "i < length s" "s ! i = c" by auto
  have srt: "sorted ?is" by (simp add: sorted_wrt_filter)
  have "j \<le> i" if "j < length s" "s ! j = c" for j
  proof -
    have "j \<in> set ?is" using that by simp
    then obtain k where k: "k < length ?is" "?is ! k = j" by (metis in_set_conv_nth)
    then have "?is ! k \<le> ?is ! (length ?is - 1)" using srt by (intro sorted_nth_mono) auto
    then show ?thesis using k ne l by (simp add: last_conv_nth)
  qed
  note latest = this
  have "c \<notin> set (drop (Suc i) s)"
  proof
    assume "c \<in> set (drop (Suc i) s)"
    then obtain k where "k < length s - Suc i" "s ! (Suc i + k) = c" by (auto simp: in_set_conv_nth)
    moreover from this have "Suc i + k < length s" by linarith
    ultimately show False using latest [of "Suc i + k"] by simp
  qed
  then show ?thesis using i by blast
qed

text \<open>The three results of a search for a slash.\<close>

definition fresh_info :: "MOUTILS_FILE_DIR_FILENAME option" where
  "fresh_info = Some \<lparr>pDirpath = None, pFilename = None\<rparr>"

lemma getDirAndFilename_slash:
  assumes "strrchr p (CHR ''/'') = Some i" and "\<And>n. mallocOk n"
  shows "moUtils_File_getDirAndFilename mallocOk (Some p) fresh_info =
    (MOUTILS_FILE_ERR_OK, Some \<lparr>pDirpath = Some (take (i + 1) p), pFilename = Some (drop (i + 1) p)\<rparr>)"
  using assms strrchr_Some [OF assms(1)]
  by (simp add: moUtils_File_getDirAndFilename_def fresh_info_def Let_def)

lemma getDirAndFilename_no_slash:
  assumes "strrchr p (CHR ''/'') = None" and "\<And>n. mallocOk n"
  shows "moUtils_File_getDirAndFilename mallocOk (Some p) fresh_info =
    (MOUTILS_FILE_ERR_OK, Some \<lparr>pDirpath = Some ''./'', pFilename = Some p\<rparr>)"
  using assms by (simp add: moUtils_File_getDirAndFilename_def fresh_info_def)

text \<open>
  A path is split into a directory that ends with a slash and a file name without slashes; their
  concatenation is the path again, or the path after \<open>./\<close> when it has no slash.
\<close>

theorem moUtils_File_getDirAndFilename_splits:
  assumes "\<And>n. mallocOk n"
  shows "\<exists>d n. moUtils_File_getDirAndFilename mallocOk (Some p) fresh_info =
      (MOUTILS_FILE_ERR_OK, Some \<lparr>pDirpath = Some d, pFilename = Some n\<rparr>) \<and>
    d \<noteq> [] \<and> last d = CHR ''/'' \<and> CHR ''/'' \<notin> set n \<and>
    d @ n = (if CHR ''/'' \<in> set p then p else ''./'' @ p)"
proof (cases "strrchr p (CHR ''/'')")
  case None
  then show ?thesis using getDirAndFilename_no_slash [OF None assms] strrchr_None by force
next
  case (Some i)
  note s = strrchr_Some [OF Some]
  then have "last (take (i + 1) p) = CHR ''/''" by (simp add: take_Suc_conv_app_nth)
  moreover have "CHR ''/'' \<in> set p" using s by (metis nth_mem)
  moreover have "take (i + 1) p \<noteq> []" using s by (cases p) simp_all
  ultimately show ?thesis
    using getDirAndFilename_slash [OF Some assms] s
    by (intro exI [of _ "take (i + 1) p"] exI [of _ "drop (i + 1) p"]) simp
qed

theorem moUtils_File_getDirAndFilename_splits_witness:
  "\<exists>d n. moUtils_File_getDirAndFilename (\<lambda>_. True) (Some ''/tmp/a.txt'') fresh_info =
      (MOUTILS_FILE_ERR_OK, Some \<lparr>pDirpath = Some d, pFilename = Some n\<rparr>) \<and> d @ n = ''/tmp/a.txt''"
  using moUtils_File_getDirAndFilename_splits [of "\<lambda>_. True" "''/tmp/a.txt''"] by auto

text \<open>
  The absolute path of a directory is what \<open>pwd\<close> prints as long as that is shorter than 255
  characters. With 255 characters the function writes before its buffer, and from 256 up to 766 it
  returns the path without its first 256 characters.
\<close>

theorem moUtils_File_getAbsDirPath_length:
  assumes "isDir stat (Some d)" and "\<And>n. mallocOk n"
    and "popenOut (''cd '' @ d @ '';pwd'') = Some (dir @ [CHR 10])"
  shows "moUtils_File_getAbsDirPath mallocOk stat popenOut (Some d) =
    (if length dir < 255 then Some (Some dir)
     else if length dir = 255 then None
     else if length dir < 767 then Some (Some (drop 256 dir))
     else readAbsDir mallocOk 2 (drop 768 (dir @ [CHR 10])))"
proof -
  let ?out = "dir @ [CHR 10]"
  have r: "moUtils_File_getAbsDirPath mallocOk stat popenOut (Some d) = readAbsDir mallocOk 0 ?out"
    using assms by (simp add: moUtils_File_getAbsDirPath_def)
  have 0: "readAbsDir mallocOk 0 ?out =
      (if 256 \<le> length ?out then readAbsDir mallocOk 1 (drop 256 ?out) else Some (Some dir))"
    using assms(2) by (simp add: readAbsDir.simps [of _ 0])
  have 1: "readAbsDir mallocOk 1 out =
      (if 512 \<le> length out then readAbsDir mallocOk 2 (drop 512 out)
       else if out = [] then None else Some (Some (butlast out)))" for out
    using assms(2) by (subst readAbsDir.simps) (simp add: numeral_2_eq_2)
  show ?thesis unfolding r 0 1 by (auto simp: butlast_append)
qed

theorem moUtils_File_getAbsDirPath_length_witness:
  "moUtils_File_getAbsDirPath (\<lambda>_. True) (\<lambda>_. Some \<lparr>st_mode = S_IFDIR, st_size = 0\<rparr>)
     (\<lambda>_. Some (replicate 255 CHR ''d'' @ [CHR 10])) (Some ''x'') = None"
proof -
  have n: "length (replicate 255 CHR ''d'') = 255" by simp
  have "\<not> 255 < (255 :: nat)" by simp
  then show ?thesis
    using moUtils_File_getAbsDirPath_length [of "\<lambda>_. Some \<lparr>st_mode = S_IFDIR, st_size = 0\<rparr>" "''x''" "\<lambda>_. True"
      "\<lambda>_. Some (replicate 255 CHR ''d'' @ [CHR 10])" "replicate 255 CHR ''d''"]
    unfolding n by (simp add: isDir_def)
qed

section \<open>The operating system seen by the file operations\<close>

text \<open>
  What the file-processing components take from the system: whether an allocation of a given size
  succeeds, the answers of \<open>stat\<close> and \<open>lstat\<close>, the output of a shell command, whether a path can be
  opened for writing, whether a thread can be created, and a progress figure computed in floating
  point.
\<close>

record os =
  os_malloc :: "nat \<Rightarrow> bool"
  os_stat :: "string \<Rightarrow> stat option"
  os_lstat :: "string \<Rightarrow> stat option"
  os_popen :: "string \<Rightarrow> string option"
  os_writable :: "string \<Rightarrow> bool"
  os_thread :: bool
  os_percent :: "nat \<Rightarrow> int \<Rightarrow> int"

text \<open>A system in which everything succeeds, for the examples.\<close>

definition sample_os :: os where
  "sample_os = \<lparr>os_malloc = (\<lambda>_. True), os_stat = (\<lambda>_. Some \<lparr>st_mode = S_IFDIR, st_size = 0\<rparr>),
     os_lstat = (\<lambda>_. Some \<lparr>st_mode = S_IFREG, st_size = 4\<rparr>), os_popen = (\<lambda>_. Some (''/w'' @ [CHR 10])),
     os_writable = (\<lambda>_. True), os_thread = True, os_percent = (\<lambda>_ _. 50)\<rparr>"

end
