(* ===== verification/MoBase64.thy ===== *)
theory MoBase64
  imports MoCrypt MoFile
begin

text \<open>
  BASE64 of \<open>moSdk/Crypto/BASE64/src/moCrypt_BASE64.c\<close>: encoding and decoding of a byte string, and of
  a file in blocks of 768 bytes, to another file or in place through a temporary file. The encoder
  is compared with the definition of RFC 4648 on bit strings.
\<close>

section \<open>Symbols\<close>

definition gMap :: "byte list" where
  "gMap = [
    65, 66, 67, 68, 69, 70, 71, 72,
    73, 74, 75, 76, 77, 78, 79, 80,
    81, 82, 83, 84, 85, 86, 87, 88,
    89, 90, 97, 98, 99, 100, 101, 102,
    103, 104, 105, 106, 107, 108, 109, 110,
    111, 112, 113, 114, 115, 116, 117, 118,
    119, 120, 121, 122, 48, 49, 50, 51,
    52, 53, 54, 55, 56, 57, 43, 47]"

abbreviation (input) PADDING_SYMB :: byte where
  "PADDING_SYMB \<equiv> 61"

abbreviation (input) ENCRYPT_BLOCK_SIZE :: nat where
  "ENCRYPT_BLOCK_SIZE \<equiv> 3"

abbreviation (input) DECRYPT_BLOCK_SIZE :: nat where
  "DECRYPT_BLOCK_SIZE \<equiv> 4"

definition convertFromNumToBase64Symbol :: "byte \<Rightarrow> byte option" where
  "convertFromNumToBase64Symbol num = rd gMap (unat num)"

text \<open>The character constants: \<open>A\<close> is 65, \<open>a\<close> is 97, \<open>0\<close> is 48, \<open>+\<close> is 43.\<close>

definition convertFromBase64SymbolTonum :: "byte \<Rightarrow> byte" where
  "convertFromBase64SymbolTonum num =
     (if 65 \<le> num \<and> num \<le> 90 then num - 65
      else if 97 \<le> num \<and> num \<le> 122 then num - 97 + 26
      else if 48 \<le> num \<and> num \<le> 57 then num - 48 + 52
      else if num = 43 then 62
      else 63)"

section \<open>Encoding\<close>

text \<open>Each cell of the destination first gets a 6-bit number and is then replaced by its symbol.\<close>

definition putSymbol :: "nat \<Rightarrow> byte \<Rightarrow> byte list \<Rightarrow> byte list option" where
  "putSymbol pos v pDst = do {
     pDst \<leftarrow> wr pDst pos v;
     x \<leftarrow> rd pDst pos;
     s \<leftarrow> convertFromNumToBase64Symbol x;
     wr pDst pos s
   }"

definition encryptBlock :: "byte list \<Rightarrow> nat \<Rightarrow> byte list \<Rightarrow> byte list option" where
  "encryptBlock src curBlk pDst = do {
     let d = wrap32 (curBlk * DECRYPT_BLOCK_SIZE);
     a \<leftarrow> rd src (curBlk * ENCRYPT_BLOCK_SIZE + 0);
     pDst \<leftarrow> putSymbol (d + 0) (drop_bit 2 (a AND 0xfc)) pDst;
     b \<leftarrow> rd src (curBlk * ENCRYPT_BLOCK_SIZE + 1);
     pDst \<leftarrow> putSymbol (d + 1) (push_bit 4 (a AND 0x03) OR drop_bit 4 (b AND 0xf0)) pDst;
     c \<leftarrow> rd src (curBlk * ENCRYPT_BLOCK_SIZE + 2);
     pDst \<leftarrow> putSymbol (d + 2) (push_bit 2 (b AND 0x0f) OR drop_bit 6 (c AND 0xc0)) pDst;
     putSymbol (d + 3) (c AND 0x3f) pDst
   }"

definition encryptLastBlock :: "byte list \<Rightarrow> nat \<Rightarrow> nat \<Rightarrow> byte list \<Rightarrow> byte list option" where
  "encryptLastBlock src completeBlockNum lastBlockBytes pDst = (
     let d = wrap32 (completeBlockNum * DECRYPT_BLOCK_SIZE) in
     if lastBlockBytes = 1 then do {
       a \<leftarrow> rd src (completeBlockNum * ENCRYPT_BLOCK_SIZE + 0);
       pDst \<leftarrow> putSymbol (d + 0) (drop_bit 2 (a AND 0xfc)) pDst;
       pDst \<leftarrow> putSymbol (d + 1) (push_bit 4 (a AND 0x03)) pDst;
       pDst \<leftarrow> wr pDst (d + 2) PADDING_SYMB;
       wr pDst (d + 3) PADDING_SYMB
     }
     else if lastBlockBytes = 2 then do {
       a \<leftarrow> rd src (completeBlockNum * ENCRYPT_BLOCK_SIZE + 0);
       pDst \<leftarrow> putSymbol (d + 0) (drop_bit 2 (a AND 0xfc)) pDst;
       b \<leftarrow> rd src (completeBlockNum * ENCRYPT_BLOCK_SIZE + 1);
       pDst \<leftarrow> putSymbol (d + 1) (push_bit 4 (a AND 0x03) OR drop_bit 4 (b AND 0xf0)) pDst;
       pDst \<leftarrow> putSymbol (d + 2) (push_bit 2 (b AND 0x0f)) pDst;
       wr pDst (d + 3) PADDING_SYMB
     }
     else Some pDst)"

text \<open>
  \<open>mallocOk n\<close> says whether \<open>malloc(n)\<close> succeeds. The result is the returned pointer and the number
  behind \<open>pDstLen\<close>.
\<close>

definition encryptChars ::
    "(nat \<Rightarrow> bool) \<Rightarrow> byte ptr \<Rightarrow> nat \<Rightarrow> nat option \<Rightarrow> (byte ptr \<times> nat option) option" where
  "encryptChars mallocOk psrc srcLen pDstLen =
     (case (psrc, pDstLen) of
        (Some src, Some _) \<Rightarrow>
          let completeBlockNum = srcLen div ENCRYPT_BLOCK_SIZE;
              lastBlockBytes = srcLen mod ENCRYPT_BLOCK_SIZE;
              allBlockNum = (if lastBlockBytes \<noteq> 0 then completeBlockNum + 1 else completeBlockNum) in
          if \<not> mallocOk (allBlockNum * DECRYPT_BLOCK_SIZE) then Some (None, pDstLen)
          else do {
            pDst \<leftarrow> foldM (encryptBlock src) [0..<completeBlockNum]
              (replicate (allBlockNum * DECRYPT_BLOCK_SIZE) 0);
            pDst \<leftarrow> encryptLastBlock src completeBlockNum lastBlockBytes pDst;
            Some (Some pDst, Some (wrap32 (allBlockNum * DECRYPT_BLOCK_SIZE)))
          }
      | _ \<Rightarrow> Some (None, pDstLen))"

section \<open>Decoding\<close>

text \<open>Accesses through a pointer plus a signed offset.\<close>

definition rdi :: "'a list \<Rightarrow> int \<Rightarrow> 'a option" where
  "rdi xs i = (if 0 \<le> i then rd xs (nat i) else None)"

definition wri :: "'a list \<Rightarrow> int \<Rightarrow> 'a \<Rightarrow> 'a list option" where
  "wri xs i v = (if 0 \<le> i then wr xs (nat i) v else None)"

text \<open>The loop that counts the padding symbols at \<open>src + srcLen - 1 - i\<close> for \<open>i < 2\<close>.\<close>

fun padLoop :: "byte list \<Rightarrow> nat \<Rightarrow> nat list \<Rightarrow> nat \<Rightarrow> nat option" where
  "padLoop src srcLen [] padSymbNum = Some padSymbNum"
| "padLoop src srcLen (i # is) padSymbNum = do {
     c \<leftarrow> rdi src (int srcLen - 1 - int i);
     if c = PADDING_SYMB then padLoop src srcLen is (padSymbNum + 1) else Some padSymbNum
   }"

definition decryptBlock :: "byte list \<Rightarrow> nat \<Rightarrow> byte list \<Rightarrow> byte list option" where
  "decryptBlock src blkCnt pDst = do {
     c0 \<leftarrow> rd src (blkCnt * DECRYPT_BLOCK_SIZE + 0);
     c1 \<leftarrow> rd src (blkCnt * DECRYPT_BLOCK_SIZE + 1);
     c2 \<leftarrow> rd src (blkCnt * DECRYPT_BLOCK_SIZE + 2);
     c3 \<leftarrow> rd src (blkCnt * DECRYPT_BLOCK_SIZE + 3);
     let var0 = convertFromBase64SymbolTonum c0;
     let var1 = convertFromBase64SymbolTonum c1;
     let var2 = convertFromBase64SymbolTonum c2;
     let var3 = convertFromBase64SymbolTonum c3;
     pDst \<leftarrow> wr pDst (blkCnt * ENCRYPT_BLOCK_SIZE + 0)
       (push_bit 2 (var0 AND 0x3f) OR drop_bit 4 (var1 AND 0x30));
     pDst \<leftarrow> wr pDst (blkCnt * ENCRYPT_BLOCK_SIZE + 1)
       (push_bit 4 (var1 AND 0x0f) OR drop_bit 2 (var2 AND 0x3c));
     wr pDst (blkCnt * ENCRYPT_BLOCK_SIZE + 2)
       (push_bit 6 (var2 AND 0x03) OR drop_bit 0 (var3 AND 0x3f))
   }"

definition decryptLastBlock :: "byte list \<Rightarrow> nat \<Rightarrow> int \<Rightarrow> nat \<Rightarrow> byte list \<Rightarrow> byte list option" where
  "decryptLastBlock src blkCnt completeBlockNum lastBlockBytes pDst =
     (if lastBlockBytes = 1 then do {
        c0 \<leftarrow> rd src (blkCnt * DECRYPT_BLOCK_SIZE + 0);
        c1 \<leftarrow> rd src (blkCnt * DECRYPT_BLOCK_SIZE + 1);
        let var0 = convertFromBase64SymbolTonum c0;
        let var1 = convertFromBase64SymbolTonum c1;
        wri pDst (completeBlockNum * 3)
          (push_bit 2 (var0 AND 0x3f) OR drop_bit 4 (var1 AND 0x30))
      }
      else if lastBlockBytes = 2 then do {
        c0 \<leftarrow> rd src (blkCnt * DECRYPT_BLOCK_SIZE + 0);
        c1 \<leftarrow> rd src (blkCnt * DECRYPT_BLOCK_SIZE + 1);
        c2 \<leftarrow> rd src (blkCnt * DECRYPT_BLOCK_SIZE + 2);
        let var0 = convertFromBase64SymbolTonum c0;
        let var1 = convertFromBase64SymbolTonum c1;
        let var2 = convertFromBase64SymbolTonum c2;
        pDst \<leftarrow> wri pDst (completeBlockNum * 3)
          (push_bit 2 (var0 AND 0x3f) OR drop_bit 4 (var1 AND 0x30));
        wri pDst (completeBlockNum * 3 + 1)
          (push_bit 4 (var1 AND 0x0f) OR drop_bit 2 (var2 AND 0x3c))
      }
      else Some pDst)"

text \<open>
  The size of the result is computed in \<open>int\<close>; a size of \<open>2^31\<close> or more has no defined value. A
  negative size is converted to \<open>size_t\<close> (64 bits) in the argument of \<open>malloc\<close>.
\<close>

definition decryptChars ::
    "(nat \<Rightarrow> bool) \<Rightarrow> byte ptr \<Rightarrow> nat \<Rightarrow> nat option \<Rightarrow> (byte ptr \<times> nat option) option" where
  "decryptChars mallocOk psrc srcLen pDstLen =
     (case (psrc, pDstLen) of
        (Some src, Some _) \<Rightarrow> do {
          padSymbNum \<leftarrow> padLoop src srcLen [0..<2] 0;
          let blockNum = int (srcLen div DECRYPT_BLOCK_SIZE);
          let (completeBlockNum, lastBlockBytes) =
            (if padSymbNum = 1 then (blockNum - 1, 2)
             else if padSymbNum = 2 then (blockNum - 1, 1)
             else (blockNum, 0));
          let size = completeBlockNum * 3 + int lastBlockBytes;
          if 2 ^ 31 \<le> size then None
          else if \<not> mallocOk (nat (size mod 2 ^ 64)) then Some (None, pDstLen)
          else do {
            pDst \<leftarrow> foldM (decryptBlock src) [0..<nat completeBlockNum] (replicate (nat (size mod 2 ^ 64)) 0);
            pDst \<leftarrow> decryptLastBlock src (nat completeBlockNum) completeBlockNum lastBlockBytes pDst;
            Some (Some pDst, Some (nat (size mod 2 ^ 32)))
          }
        }
      | _ \<Rightarrow> Some (None, pDstLen))"

section \<open>The exported function on byte strings\<close>

definition moCrypt_BASE64_Chars ::
    "(nat \<Rightarrow> bool) \<Rightarrow> MOCRYPT_METHOD \<Rightarrow> byte ptr \<Rightarrow> nat \<Rightarrow> nat option \<Rightarrow> (byte ptr \<times> nat option) option" where
  "moCrypt_BASE64_Chars mallocOk method src srcLen pDstLen =
     (if src = None \<or> pDstLen = None then Some (None, pDstLen)
      else if srcLen = 0 then Some (None, pDstLen)
      else (case method of
          MOCRYPT_METHOD_ENCRYPT \<Rightarrow> encryptChars mallocOk src srcLen pDstLen
        | MOCRYPT_METHOD_DECRYPT \<Rightarrow> decryptChars mallocOk src srcLen pDstLen
        | MOCRYPT_METHOD_OTHER _ \<Rightarrow> Some (None, pDstLen)))"

section \<open>Files\<close>

abbreviation (input) MOCRYPT_BASE64_ERR_OK :: int where
  "MOCRYPT_BASE64_ERR_OK \<equiv> 0"

abbreviation (input) MOCRYPT_BASE64_ERR_INPUTNULL :: int where
  "MOCRYPT_BASE64_ERR_INPUTNULL \<equiv> -22000"

abbreviation (input) MOCRYPT_BASE64_ERR_FILEOPENFAIL :: int where
  "MOCRYPT_BASE64_ERR_FILEOPENFAIL \<equiv> -22001"

abbreviation (input) MOCRYPT_BASE64_ERR_MALLOCFAILED :: int where
  "MOCRYPT_BASE64_ERR_MALLOCFAILED \<equiv> -22002"

abbreviation (input) MOCRYPT_BASE64_ERR_CREATETHREADFAIL :: int where
  "MOCRYPT_BASE64_ERR_CREATETHREADFAIL \<equiv> -22003"

abbreviation (input) MOCRYPT_BASE64_ERR_GETFILEDIFFSTATEFAIL :: int where
  "MOCRYPT_BASE64_ERR_GETFILEDIFFSTATEFAIL \<equiv> -22004"

abbreviation (input) MOCRYPT_BASE64_ERR_OTHER :: int where
  "MOCRYPT_BASE64_ERR_OTHER \<equiv> -22005"

abbreviation (input) CRYPT_FILE_BLOCKSIZE :: nat where
  "CRYPT_FILE_BLOCKSIZE \<equiv> 768"

text \<open>
  The state of the file operations: the files, and the numbers passed to the progress callback so
  far (\<open>hasFunc\<close> says whether there is one). \<open>os_percent o curCnt size\<close> is the progress the code
  computes in floating point from the block count and the file size.
\<close>

definition setProgress :: "bool \<Rightarrow> int \<Rightarrow> int list \<Rightarrow> int list" where
  "setProgress hasFunc prog trace = (if hasFunc then trace @ [prog] else trace)"

text \<open>
  The loop \<open>while((readNum = fread(buf, 1, CRYPT_FILE_BLOCKSIZE, fpSrc)) > 0)\<close> over the blocks of the
  source, the same in both functions. The unused part of \<open>buf\<close> is zero. The result is \<open>False\<close> when a
  block could not be converted, the bytes written so far, and the trace.
\<close>

fun cryptBlocks ::
    "os \<Rightarrow> MOCRYPT_METHOD \<Rightarrow> bool \<Rightarrow> int \<Rightarrow> byte list list \<Rightarrow> nat \<Rightarrow> byte list \<Rightarrow> int list \<Rightarrow>
     (bool \<times> byte list \<times> int list) option" where
  "cryptBlocks os method hasFunc filesize [] curCnt out trace = Some (True, out, trace)"
| "cryptBlocks os method hasFunc filesize (b # bs) curCnt out trace = do {
     let readNum = length b;
     let buf = b @ replicate (CRYPT_FILE_BLOCKSIZE - readNum) 0;
     (txt, len) \<leftarrow>
       (if method = MOCRYPT_METHOD_ENCRYPT then encryptChars (os_malloc os) (Some buf) readNum (Some 0)
        else decryptChars (os_malloc os) (Some buf) readNum (Some 0));
     (case (txt, len) of
        (Some t, Some n) \<Rightarrow> do {
          w \<leftarrow> rdn t 0 n;
          cryptBlocks os method hasFunc filesize bs (curCnt + 1) (out @ w)
            (setProgress hasFunc (os_percent os (curCnt + 1) filesize) trace)
        }
      | _ \<Rightarrow> Some (False, out, trace))
   }"

definition getTmpFilepath :: "os \<Rightarrow> string option \<Rightarrow> string option" where
  "getTmpFilepath os pSrcFilepath =
     (case pSrcFilepath of
        None \<Rightarrow> None
      | Some p \<Rightarrow>
          (case moUtils_File_getDirAndFilename (os_malloc os) (Some p) (Some \<lparr>pDirpath = None, pFilename = None\<rparr>) of
             (ret, Some info) \<Rightarrow>
               if ret \<noteq> 0 then None
               else (case (pDirpath info, pFilename info) of
                   (Some d, Some n) \<Rightarrow>
                     if \<not> os_malloc os (length d + 1 + length ''moBase64Temp_'' + length n + 1) then None
                     else Some (d @ ''/'' @ ''moBase64Temp_'' @ n)
                 | _ \<Rightarrow> None)
           | _ \<Rightarrow> None))"

definition cryptFileToSame ::
    "os \<Rightarrow> MOCRYPT_METHOD \<Rightarrow> string \<Rightarrow> bool \<Rightarrow> files \<times> int list \<Rightarrow> (int \<times> files \<times> int list) option" where
  "cryptFileToSame os method pSrcFilepath hasFunc st = (
     let (fs, trace) = st;
         fail = (\<lambda>err fs trace. Some (err, fs, setProgress hasFunc err trace)) in
     case getTmpFilepath os (Some pSrcFilepath) of
       None \<Rightarrow> fail MOCRYPT_BASE64_ERR_MALLOCFAILED fs trace
     | Some tmp \<Rightarrow>
         (case fs pSrcFilepath of
            None \<Rightarrow> fail MOCRYPT_BASE64_ERR_FILEOPENFAIL fs trace
          | Some content \<Rightarrow>
              if \<not> os_writable os tmp then fail MOCRYPT_BASE64_ERR_FILEOPENFAIL fs trace
              else do {
                let trace = setProgress hasFunc 10 trace;
                let filesize = moUtils_File_getSize (os_lstat os) (Some pSrcFilepath);
                (ok, out, trace) \<leftarrow>
                  cryptBlocks os method hasFunc filesize (blocks_of CRYPT_FILE_BLOCKSIZE content) 0 [] trace;
                let fs = fs(tmp \<mapsto> out);
                if \<not> ok then fail MOCRYPT_BASE64_ERR_MALLOCFAILED fs trace
                else do {
                  let trace = setProgress hasFunc 90 trace;
                  if \<not> os_writable os pSrcFilepath then fail MOCRYPT_BASE64_ERR_FILEOPENFAIL fs trace
                  else do {
                    let fs = fs(pSrcFilepath \<mapsto> []);
                    (case fs tmp of
                       None \<Rightarrow> fail MOCRYPT_BASE64_ERR_FILEOPENFAIL fs trace
                     | Some tmpContent \<Rightarrow>
                         let fs = fs(pSrcFilepath \<mapsto> concat (blocks_of CRYPT_FILE_BLOCKSIZE tmpContent));
                             trace = setProgress hasFunc 95 trace
                         in Some (MOCRYPT_BASE64_ERR_OK, fs(tmp := None), trace))
                  }
                }
              }))"

definition cryptFileToDiff ::
    "os \<Rightarrow> MOCRYPT_METHOD \<Rightarrow> string \<Rightarrow> string \<Rightarrow> bool \<Rightarrow> files \<times> int list \<Rightarrow>
     (int \<times> files \<times> int list) option" where
  "cryptFileToDiff os method pSrcFilepath pDstFilepath hasFunc st = (
     let (fs, trace) = st;
         fail = (\<lambda>err fs trace. Some (err, fs, setProgress hasFunc err trace)) in
     case fs pSrcFilepath of
       None \<Rightarrow> fail MOCRYPT_BASE64_ERR_FILEOPENFAIL fs trace
     | Some content \<Rightarrow>
         if \<not> os_writable os pDstFilepath then fail MOCRYPT_BASE64_ERR_FILEOPENFAIL fs trace
         else do {
           let trace = setProgress hasFunc 10 trace;
           let filesize = moUtils_File_getSize (os_lstat os) (Some pSrcFilepath);
           (ok, out, trace) \<leftarrow>
             cryptBlocks os method hasFunc filesize (blocks_of CRYPT_FILE_BLOCKSIZE content) 0 [] trace;
           let fs = fs(pDstFilepath \<mapsto> out);
           if \<not> ok then fail MOCRYPT_BASE64_ERR_MALLOCFAILED fs trace
           else Some (MOCRYPT_BASE64_ERR_OK, fs,
             setProgress hasFunc 95 (setProgress hasFunc 90 trace))
         })"

definition cryptFile ::
    "os \<Rightarrow> MOCRYPT_METHOD \<Rightarrow> string \<Rightarrow> string \<Rightarrow> bool \<Rightarrow> files \<times> int list \<Rightarrow>
     (int \<times> files \<times> int list) option" where
  "cryptFile os method pSrcFilepath pDstFilepath hasFunc st = do {
     let (fs, trace) = st;
     let trace = setProgress hasFunc 0 trace;
     (ret, sameState) \<leftarrow> moUtils_File_getFilepathSameState (os_malloc os) (os_stat os) (os_popen os)
       (Some pSrcFilepath) (Some pDstFilepath) (Some MOUTILS_FILE_ABSPATH_STATE_ERR);
     if ret \<noteq> 0 then Some (MOCRYPT_BASE64_ERR_GETFILEDIFFSTATEFAIL, fs, trace)
     else do {
       let trace = setProgress hasFunc 5 trace;
       (ret, fs, trace) \<leftarrow>
         (case sameState of
            MOUTILS_FILE_ABSPATH_STATE_SAME \<Rightarrow>
              cryptFileToSame os method pSrcFilepath hasFunc (fs, trace)
          | MOUTILS_FILE_ABSPATH_STATE_DIFF \<Rightarrow>
              cryptFileToDiff os method pSrcFilepath pDstFilepath hasFunc (fs, trace)
          | _ \<Rightarrow> Some (MOCRYPT_BASE64_ERR_OTHER, fs, trace));
       Some (ret, fs, if ret = MOCRYPT_BASE64_ERR_OK then setProgress hasFunc 100 trace else trace)
     }
   }"

text \<open>
  The exported function. Without a callback the work is done in the call. With a callback it is done
  by a thread: the model returns the state after the thread has run, and the value the caller gets.
  \<open>strcpy\<close> into the two path fields of 256 bytes has no defined result for longer paths.
\<close>

definition moCrypt_BASE64_File ::
    "os \<Rightarrow> MOCRYPT_METHOD \<Rightarrow> string option \<Rightarrow> string option \<Rightarrow> bool \<Rightarrow> files \<times> int list \<Rightarrow>
     (int \<times> files \<times> int list) option" where
  "moCrypt_BASE64_File os method pSrcFilepath pDstFilepath hasFunc st =
     (case (pSrcFilepath, pDstFilepath) of
        (Some src, Some dst) \<Rightarrow>
          if \<not> hasFunc then cryptFile os method src dst False st
          else if \<not> os_malloc os 528 then Some (MOCRYPT_BASE64_ERR_MALLOCFAILED, st)
          else if 256 \<le> length src \<or> 256 \<le> length dst then None
          else if \<not> os_thread os then Some (MOCRYPT_BASE64_ERR_CREATETHREADFAIL, st)
          else do {
            (_, st) \<leftarrow> cryptFile os method src dst True st;
            Some (MOCRYPT_BASE64_ERR_OK, st)
          }
      | _ \<Rightarrow> Some (MOCRYPT_BASE64_ERR_INPUTNULL, st))"

section \<open>RFC 4648\<close>

text \<open>
  The reference: the bits of the data, cut into groups of six (the last one filled with zeros), each
  group written as the symbol of its number, and padding up to a multiple of four symbols.
\<close>

definition sextet :: "bool list \<Rightarrow> byte" where
  "sextet bs = byte_of_bits ([False, False] @ take 6 (bs @ replicate 6 False))"

function sextets :: "bool list \<Rightarrow> byte list" where
  "sextets bs = (if bs = [] then [] else sextet bs # sextets (drop 6 bs))"
  by pat_completeness auto
termination by (relation "measure length") auto

declare sextets.simps [simp del]

definition base64 :: "byte list \<Rightarrow> byte list" where
  "base64 xs = map (\<lambda>v. gMap ! unat v) (sextets (bits xs)) @
     replicate ((3 - length xs mod 3) mod 3) PADDING_SYMB"

definition sym :: "byte \<Rightarrow> byte" where
  "sym v = gMap ! unat v"

lemma upt_8_rev: "[0..<8] = [0, 1, 2, 3, 4, 5, 6, 7 :: nat]"
  by (simp add: upt_rec)

lemma bits_single: "bits [a] = [bit a 7, bit a 6, bit a 5, bit a 4, bit a 3, bit a 2, bit a 1, bit a 0]"
  unfolding bits_def by (simp add: upt_8_rev)

lemma byte_eq_iff:
  "(v :: byte) = w \<longleftrightarrow> (bit v 0 = bit w 0 \<and> bit v 1 = bit w 1 \<and> bit v 2 = bit w 2 \<and> bit v 3 = bit w 3 \<and>
     bit v 4 = bit w 4 \<and> bit v 5 = bit w 5 \<and> bit v 6 = bit w 6 \<and> bit v 7 = bit w 7)"
proof
  assume h: "bit v 0 = bit w 0 \<and> bit v 1 = bit w 1 \<and> bit v 2 = bit w 2 \<and> bit v 3 = bit w 3 \<and>
     bit v 4 = bit w 4 \<and> bit v 5 = bit w 5 \<and> bit v 6 = bit w 6 \<and> bit v 7 = bit w 7"
  show "v = w"
  proof (rule bit_eqI)
    fix n assume "possible_bit TYPE(byte) n"
    then have "n \<in> {0, 1, 2, 3, 4, 5, 6, 7}" by (auto simp: possible_bit_word)
    then show "bit v n = bit w n" using h by auto
  qed
qed simp

text \<open>The four numbers of a block in the words of the code.\<close>

definition num0 :: "byte \<Rightarrow> byte" where
  "num0 a = drop_bit 2 (a AND 0xfc)"

definition num1 :: "byte \<Rightarrow> byte \<Rightarrow> byte" where
  "num1 a b = push_bit 4 (a AND 0x03) OR drop_bit 4 (b AND 0xf0)"

definition num2 :: "byte \<Rightarrow> byte \<Rightarrow> byte" where
  "num2 b c = push_bit 2 (b AND 0x0f) OR drop_bit 6 (c AND 0xc0)"

definition num3 :: "byte \<Rightarrow> byte" where
  "num3 c = c AND 0x3f"

lemmas num_defs = num0_def num1_def num2_def num3_def

lemma byte_mask_bits:
  "bit (0xfc :: byte) n \<longleftrightarrow> n \<in> {2, 3, 4, 5, 6, 7}"
  "bit (0x03 :: byte) n \<longleftrightarrow> n \<in> {0, 1}"
  "bit (0xf0 :: byte) n \<longleftrightarrow> n \<in> {4, 5, 6, 7}"
  "bit (0x0f :: byte) n \<longleftrightarrow> n \<in> {0, 1, 2, 3}"
  "bit (0xc0 :: byte) n \<longleftrightarrow> n \<in> {6, 7}"
  "bit (0x3f :: byte) n \<longleftrightarrow> n \<in> {0, 1, 2, 3, 4, 5}"
  "bit (0x30 :: byte) n \<longleftrightarrow> n \<in> {4, 5}"
  "bit (0x3c :: byte) n \<longleftrightarrow> n \<in> {2, 3, 4, 5}"
proof -
  have "n \<ge> 8 \<Longrightarrow> \<not> bit (x :: byte) n" for x using bit_imp_le_length [of x n] by auto
  moreover have "n < 8 \<Longrightarrow> n \<in> {0, 1, 2, 3, 4, 5, 6, 7}" by auto
  ultimately show
    "bit (0xfc :: byte) n \<longleftrightarrow> n \<in> {2, 3, 4, 5, 6, 7}" "bit (0x03 :: byte) n \<longleftrightarrow> n \<in> {0, 1}"
    "bit (0xf0 :: byte) n \<longleftrightarrow> n \<in> {4, 5, 6, 7}" "bit (0x0f :: byte) n \<longleftrightarrow> n \<in> {0, 1, 2, 3}"
    "bit (0xc0 :: byte) n \<longleftrightarrow> n \<in> {6, 7}" "bit (0x3f :: byte) n \<longleftrightarrow> n \<in> {0, 1, 2, 3, 4, 5}"
    "bit (0x30 :: byte) n \<longleftrightarrow> n \<in> {4, 5}" "bit (0x3c :: byte) n \<longleftrightarrow> n \<in> {2, 3, 4, 5}"
    by (cases "n < 8"; auto)+
qed

lemma byte_ops_bits:
  "bit (drop_bit k (a :: byte)) n \<longleftrightarrow> bit a (k + n)"
  "bit (push_bit k (a :: byte)) n \<longleftrightarrow> k \<le> n \<and> n < 8 \<and> bit a (n - k)"
  by (simp_all add: bit_drop_bit_eq bit_push_bit_iff)

lemma sextet_bits:
  "sextet (b5 # b4 # b3 # b2 # b1 # b0 # bs) = byte_of_bits [False, False, b5, b4, b3, b2, b1, b0]"
  by (simp add: sextet_def)

lemma num_bits:
  "num0 a = byte_of_bits [False, False, bit a 7, bit a 6, bit a 5, bit a 4, bit a 3, bit a 2]"
  "num1 a b = byte_of_bits [False, False, bit a 1, bit a 0, bit b 7, bit b 6, bit b 5, bit b 4]"
  "num2 b c = byte_of_bits [False, False, bit b 3, bit b 2, bit b 1, bit b 0, bit c 7, bit c 6]"
  "num3 c = byte_of_bits [False, False, bit c 5, bit c 4, bit c 3, bit c 2, bit c 1, bit c 0]"
  by (simp_all add: byte_eq_iff bit_byte_of_bits num_defs bit_and_iff bit_or_iff byte_mask_bits byte_ops_bits)

lemma bit_zero_byte: "bit (0 :: byte) n = False"
  by simp

lemma base64_Cons3: "base64 (a # b # c # r) =
    [sym (num0 a), sym (num1 a b), sym (num2 b c), sym (num3 c)] @ base64 r"
proof -
  have "sextets (bits (a # b # c # r)) = [num0 a, num1 a b, num2 b c, num3 c] @ sextets (bits r)"
    unfolding bits_Cons [of a] bits_Cons [of b] bits_Cons [of c] bits_single num_bits
    by (subst sextets.simps, subst sextets.simps, subst sextets.simps, subst sextets.simps)
      (simp add: sextet_bits)
  moreover have "length (a # b # c # r) mod 3 = length r mod 3" by simp
  ultimately show ?thesis by (simp add: base64_def sym_def)
qed

lemma base64_two: "base64 [a, b] = [sym (num0 a), sym (num1 a b), sym (num2 b 0), PADDING_SYMB]"
proof -
  have "sextet [bit b 3, bit b 2, bit b 1, bit b 0] = num2 b 0"
    unfolding num_bits by (simp add: sextet_def numeral_eq_Suc)
  then have "sextets (bits [a, b]) = [num0 a, num1 a b, num2 b 0]"
    unfolding bits_Cons [of a] bits_single num_bits(1,2)
    by (subst sextets.simps, subst sextets.simps, subst sextets.simps, subst sextets.simps)
      (simp add: sextet_bits)
  then show ?thesis by (simp add: base64_def sym_def)
qed

lemma base64_one: "base64 [a] = [sym (num0 a), sym (num1 a 0), PADDING_SYMB, PADDING_SYMB]"
proof -
  have "sextet [bit a 1, bit a 0] = num1 a 0"
    unfolding num_bits by (simp add: sextet_def numeral_eq_Suc)
  then have "sextets (bits [a]) = [num0 a, num1 a 0]"
    unfolding bits_single num_bits(1)
    by (subst sextets.simps, subst sextets.simps, subst sextets.simps)
      (simp add: sextet_bits)
  then show ?thesis by (simp add: base64_def sym_def numeral_2_eq_2)
qed

lemma base64_Nil [simp]: "base64 [] = []"
  by (simp add: base64_def sextets.simps)

fun three_step :: "byte list \<Rightarrow> bool" where
  "three_step (a # b # c # r) = three_step r"
| "three_step _ = True"

lemma base64_append: "3 dvd length xs \<Longrightarrow> base64 (xs @ ys) = base64 xs @ base64 ys"
proof (induction xs rule: three_step.induct)
  case (1 a b c r)
  then have "3 dvd length r" by simp presburger
  then show ?case using 1 by (simp add: base64_Cons3)
qed (auto dest!: dvd_imp_le)

lemma length_base64: "length (base64 xs) = 4 * ((length xs + 2) div 3)"
proof (induction xs rule: three_step.induct)
  case (1 a b c r)
  have "(length (a # b # c # r) + 2) div 3 = Suc ((length r + 2) div 3)" by simp
  then show ?case using 1 by (simp add: base64_Cons3)
qed (auto simp: base64_one base64_two)

section \<open>The encoder computes BASE64\<close>

lemma num_lt64: "num0 a < 64" "num1 a b < 64" "num2 b c < 64" "num3 c < 64"
proof -
  have m: "x AND 0x3f < (64 :: byte)" for x
    using word_and_le1 [of x "0x3f"] by (simp add: and.commute le_less_trans)
  have "num0 a AND 0x3f = num0 a" "num1 a b AND 0x3f = num1 a b" "num2 b c AND 0x3f = num2 b c"
    "num3 c AND 0x3f = num3 c"
    by (simp_all add: byte_eq_iff num_defs bit_and_iff bit_or_iff byte_mask_bits byte_ops_bits)
  then show "num0 a < 64" "num1 a b < 64" "num2 b c < 64" "num3 c < 64" using m by metis+
qed

lemma length_gMap [simp]: "length gMap = 64"
  by (simp add: gMap_def)

lemma convertFromNumToBase64Symbol_eq: "v < 64 \<Longrightarrow> convertFromNumToBase64Symbol v = Some (sym v)"
  by (simp add: convertFromNumToBase64Symbol_def sym_def word_less_nat_alt)

lemma putSymbol_eq:
  "pos < length d \<Longrightarrow> v < 64 \<Longrightarrow> putSymbol pos v d = Some (d[pos := sym v])"
  by (simp add: putSymbol_def convertFromNumToBase64Symbol_eq)

lemma encryptBlock_eq:
  assumes "src = xs @ a # b # c # r" and "length xs = 3 * i" and "d = ys @ zs"
    and "length ys = 4 * i" and "4 \<le> length zs" and "i < 2 ^ 30"
  shows "encryptBlock src i d =
    Some (ys @ [sym (num0 a), sym (num1 a b), sym (num2 b c), sym (num3 c)] @ drop 4 zs)"
proof -
  obtain z0 z1 z2 z3 z where z: "zs = z0 # z1 # z2 # z3 # z"
    using assms(5) by (auto simp: numeral_eq_Suc Suc_le_length_iff)
  have "rd src (i * 3 + 0) = Some a" "rd src (i * 3 + 1) = Some b" "rd src (i * 3 + 2) = Some c"
    using assms(1,2) by (simp_all add: nth_append mult.commute)
  moreover have "wrap32 (i * 4) = length ys" using assms(4,6) by simp
  moreover note lt = num_lt64 [unfolded num_defs]
  ultimately show ?thesis
    using assms(3) z unfolding encryptBlock_def num_defs
    by (simp add: putSymbol_eq lt list_update_append Let_def)
qed

lemma encryptLastBlock_eq:
  assumes "length xs = 3 * i" and "d = ys @ zs" and "length ys = 4 * i" and "length zs = 4" and "i < 2 ^ 30"
  shows "encryptLastBlock (xs @ a # r) i 1 d = Some (ys @ base64 [a])"
    and "encryptLastBlock (xs @ a # b # r) i 2 d = Some (ys @ base64 [a, b])"
proof -
  obtain z0 z1 z2 z3 where z: "zs = [z0, z1, z2, z3]"
    using assms(4) by (auto simp: numeral_eq_Suc length_Suc_conv)
  have r: "rd (xs @ a # r) (i * 3 + 0) = Some a" "rd (xs @ a # b # r) (i * 3 + 0) = Some a"
    "rd (xs @ a # b # r) (i * 3 + 1) = Some b"
    using assms(1) by (simp_all add: nth_append mult.commute)
  have w: "wrap32 (i * 4) = length ys" using assms(3,5) by simp
  have e: "push_bit 4 (a AND 0x03) = num1 a 0" "push_bit 2 (b AND 0x0f) = num2 b 0" for a b
    by (simp_all add: num_defs)
  note lt = num_lt64
  show "encryptLastBlock (xs @ a # r) i 1 d = Some (ys @ base64 [a])"
    using assms(2) z r w e lt unfolding encryptLastBlock_def num0_def [symmetric]
    by (simp add: putSymbol_eq list_update_append Let_def base64_one)
  show "encryptLastBlock (xs @ a # b # r) i 2 d = Some (ys @ base64 [a, b])"
    using assms(2) z r w e lt unfolding encryptLastBlock_def num0_def [symmetric] num1_def [symmetric]
    by (simp add: putSymbol_eq list_update_append Let_def base64_two)
qed

lemma split_block3:
  "3 * i + 3 \<le> length xs \<Longrightarrow>
    xs = take (3 * i) xs @ xs ! (3 * i) # xs ! (3 * i + 1) # xs ! (3 * i + 2) # drop (3 * i + 3) xs"
  by (simp add: Cons_nth_drop_Suc numeral_3_eq_3)

lemma base64_take_block:
  assumes "3 * i + 3 \<le> length xs"
  shows "base64 (take (3 * Suc i) xs) = base64 (take (3 * i) xs) @
    [sym (num0 (xs ! (3 * i))), sym (num1 (xs ! (3 * i)) (xs ! (3 * i + 1))),
     sym (num2 (xs ! (3 * i + 1)) (xs ! (3 * i + 2))), sym (num3 (xs ! (3 * i + 2)))]"
proof -
  have "take (3 * Suc i) xs = take (3 * i) xs @ [xs ! (3 * i), xs ! (3 * i + 1), xs ! (3 * i + 2)]"
  proof -
    have "take (3 * Suc i) xs = take (3 * i) xs @ take 3 (drop (3 * i) xs)"
      using take_add [of "3 * i" 3 xs] by (simp add: add.commute)
    also have "drop (3 * i) xs = xs ! (3 * i) # xs ! (3 * i + 1) # xs ! (3 * i + 2) # drop (3 * i + 3) xs"
      using split_block3 [OF assms] assms
      by (metis append_same_eq append_take_drop_id same_append_eq)
    finally show ?thesis by simp
  qed
  then show ?thesis using assms by (simp add: base64_append base64_Cons3)
qed

lemma encrypt_loop:
  assumes "3 * q \<le> length src" and "q \<le> 2 ^ 30" and "4 * q \<le> m"
  shows "foldM (encryptBlock src) [0..<q] (replicate m 0) =
    Some (base64 (take (3 * q) src) @ replicate (m - 4 * q) 0)"
proof -
  have "\<exists>s. foldM (encryptBlock src) [0..<q] (replicate m 0) = Some s \<and>
      s = base64 (take (3 * q) src) @ replicate (m - 4 * q) 0"
  proof (rule foldM_range_inv [where I = "\<lambda>i s. s = base64 (take (3 * i) src) @ replicate (m - 4 * i) 0"])
    fix i s assume i: "0 \<le> i" "i < q" and s: "s = base64 (take (3 * i) src) @ replicate (m - 4 * i) 0"
    have b: "3 * i + 3 \<le> length src" using i assms by simp
    have l: "length (base64 (take (3 * i) src)) = 4 * i" using b by (simp add: length_base64)
    have "encryptBlock src i s = Some (base64 (take (3 * Suc i) src) @ drop 4 (replicate (m - 4 * i) 0))"
      unfolding base64_take_block [OF b] append_assoc
      by (rule encryptBlock_eq [OF split_block3 [OF b] _ s l]) (use i assms b in simp_all)
    then show "\<exists>s'. encryptBlock src i s = Some s' \<and>
        s' = base64 (take (3 * Suc i) src) @ replicate (m - 4 * Suc i) 0" by simp
  qed simp_all
  then show ?thesis by blast
qed

text \<open>Encoding, for lengths whose encoded size fits an \<open>unsigned int\<close>.\<close>

lemma encryptChars_eq:
  assumes "n \<le> length src" and "n \<le> 3 * (2 ^ 30 - 1)" and "mallocOk (4 * ((n + 2) div 3))"
  shows "encryptChars mallocOk (Some src) n (Some d) =
    Some (Some (base64 (take n src)), Some (4 * ((n + 2) div 3)))"
proof -
  define q where "q = n div 3"
  define r where "r = n mod 3"
  have n: "n = 3 * q + r" "r < 3" unfolding q_def r_def by simp_all
  define blocks where "blocks = (if r \<noteq> 0 then q + 1 else q)"
  have bl: "blocks = (n + 2) div 3" using n unfolding blocks_def by (cases "r = 0"; cases "r = 1") auto
  have "n < 3 * 2 ^ 30 - 2" using assms(2) by simp
  then have q: "3 * q \<le> length src" "q < 2 ^ 30" "blocks < 2 ^ 30"
    using n assms(1) unfolding blocks_def by (cases "r = 0"; simp; linarith)+
  have w: "wrap32 (blocks * 4) = blocks * 4" using q by simp
  have loop: "foldM (encryptBlock src) [0..<q] (replicate (blocks * 4) 0) =
      Some (base64 (take (3 * q) src) @ replicate (blocks * 4 - 4 * q) 0)"
    by (rule encrypt_loop) (use q blocks_def in auto)
  have l: "length (base64 (take (3 * q) src)) = 4 * q" "length (take (3 * q) src) = 3 * q"
    using q by (simp_all add: length_base64)
  have last: "encryptLastBlock src q r (base64 (take (3 * q) src) @ replicate (blocks * 4 - 4 * q) 0) =
      Some (base64 (take n src))"
  proof -
    consider "r = 0" | "r = 1" | "r = 2" using n(2) by linarith
    then show ?thesis
    proof cases
      case 1
      then show ?thesis using n by (simp add: encryptLastBlock_def blocks_def Let_def)
    next
      case 2
      then have s: "src = take (3 * q) src @ src ! (3 * q) # drop (3 * q + 1) src"
        using assms(1) n by (simp add: id_take_nth_drop)
      have t: "take n src = take (3 * q) src @ [src ! (3 * q)]"
        using assms(1) n 2 by (simp add: take_Suc_conv_app_nth)
      have "encryptLastBlock (take (3 * q) src @ src ! (3 * q) # drop (3 * q + 1) src) q 1
          (base64 (take (3 * q) src) @ replicate (blocks * 4 - 4 * q) 0) =
        Some (base64 (take (3 * q) src) @ base64 [src ! (3 * q)])"
        by (rule encryptLastBlock_eq(1) [OF l(2) refl l(1)]) (use 2 q blocks_def in simp_all)
      from this [folded s] show ?thesis using 2 t l by (simp add: base64_append)
    next
      case 3
      then have s: "src = take (3 * q) src @ src ! (3 * q) # src ! (3 * q + 1) # drop (3 * q + 2) src"
        using assms(1) n by (simp add: Cons_nth_drop_Suc)
      have t: "take n src = take (3 * q) src @ [src ! (3 * q), src ! (3 * q + 1)]"
        using assms(1) n 3 by (simp add: take_Suc_conv_app_nth)
      have "encryptLastBlock (take (3 * q) src @ src ! (3 * q) # src ! (3 * q + 1) # drop (3 * q + 2) src) q 2
          (base64 (take (3 * q) src) @ replicate (blocks * 4 - 4 * q) 0) =
        Some (base64 (take (3 * q) src) @ base64 [src ! (3 * q), src ! (3 * q + 1)])"
        by (rule encryptLastBlock_eq(2) [OF l(2) refl l(1)]) (use 3 q blocks_def in simp_all)
      from this [folded s] show ?thesis using 3 t l by (simp add: base64_append)
    qed
  qed
  have m: "mallocOk (blocks * 4)" using assms(3) bl by (simp add: mult.commute)
  show ?thesis
    using loop last w m unfolding mult.commute [of blocks 4]
    by (simp only: encryptChars_def prod.case option.case Let_def q_def [symmetric] r_def [symmetric]
      blocks_def [symmetric] bl [symmetric] bind.bind_lunit not_True_eq_False if_False
      mult.commute [of blocks 4])
qed

section \<open>The decoder inverts the encoder\<close>

lemma symbols_invert:
  "list_all (\<lambda>i. convertFromBase64SymbolTonum (gMap ! i) = word_of_nat i \<and> gMap ! i \<noteq> PADDING_SYMB) [0..<64]"
  by code_simp

lemma symbol_value:
  assumes "v < 64"
  shows "convertFromBase64SymbolTonum (sym v) = v" and "sym v \<noteq> PADDING_SYMB"
proof -
  have "unat v < 64" using assms by (simp add: word_less_nat_alt)
  then have "convertFromBase64SymbolTonum (gMap ! unat v) = word_of_nat (unat v) \<and> gMap ! unat v \<noteq> PADDING_SYMB"
    using symbols_invert unfolding list_all_iff by simp
  then show "convertFromBase64SymbolTonum (sym v) = v" "sym v \<noteq> PADDING_SYMB"
    by (simp_all add: sym_def)
qed

lemmas symbol_values [simp] = symbol_value [OF num_lt64(1)] symbol_value [OF num_lt64(2)]
  symbol_value [OF num_lt64(3)] symbol_value [OF num_lt64(4)]

lemma nums_invert:
  "push_bit 2 (num0 a AND 0x3f) OR drop_bit 4 (num1 a b AND 0x30) = a"
  "push_bit 4 (num1 a b AND 0x0f) OR drop_bit 2 (num2 b c AND 0x3c) = b"
  "push_bit 6 (num2 b c AND 0x03) OR drop_bit 0 (num3 c AND 0x3f) = c"
  by (simp_all add: byte_eq_iff num_defs bit_and_iff bit_or_iff byte_mask_bits byte_ops_bits)

lemma decryptBlock_eq:
  assumes "src = xs @ [sym (num0 a), sym (num1 a b), sym (num2 b c), sym (num3 c)] @ r"
    and "length xs = 4 * i" and "d = ys @ zs" and "length ys = 3 * i" and "3 \<le> length zs"
  shows "decryptBlock src i d = Some (ys @ [a, b, c] @ drop 3 zs)"
proof -
  obtain z0 z1 z2 z where z: "zs = z0 # z1 # z2 # z"
    using assms(5) by (auto simp: numeral_eq_Suc Suc_le_length_iff)
  have "rd src (i * 4 + 0) = Some (sym (num0 a))" "rd src (i * 4 + 1) = Some (sym (num1 a b))"
    "rd src (i * 4 + 2) = Some (sym (num2 b c))" "rd src (i * 4 + 3) = Some (sym (num3 c))"
    using assms(1,2) by (simp_all add: nth_append mult.commute)
  moreover have "i * 3 = length ys" using assms(4) by simp
  ultimately show ?thesis
    using assms(3) z unfolding decryptBlock_def
    by (simp add: Let_def list_update_append nums_invert [simplified])
qed

lemma base64_split:
  assumes "3 * i + 3 \<le> length x"
  shows "\<exists>a b c. take (3 * Suc i) x = take (3 * i) x @ [a, b, c] \<and>
    base64 x = base64 (take (3 * i) x) @ [sym (num0 a), sym (num1 a b), sym (num2 b c), sym (num3 c)] @
      base64 (drop (3 * i + 3) x)"
proof -
  let ?a = "x ! (3 * i)" and ?b = "x ! (3 * i + 1)" and ?c = "x ! (3 * i + 2)"
  have s: "x = take (3 * i) x @ [?a, ?b, ?c] @ drop (3 * i + 3) x"
    using split_block3 [OF assms] by simp
  have "take (3 * Suc i) (take (3 * i) x @ [?a, ?b, ?c] @ drop (3 * i + 3) x) = take (3 * i) x @ [?a, ?b, ?c]"
    using assms by simp
  then have 1: "take (3 * Suc i) x = take (3 * i) x @ [?a, ?b, ?c]" by (simp only: s [symmetric])
  have "base64 (take (3 * i) x @ [?a, ?b, ?c] @ drop (3 * i + 3) x) =
      base64 (take (3 * i) x) @ base64 ([?a, ?b, ?c] @ drop (3 * i + 3) x)"
    using assms by (simp add: base64_append)
  then have "base64 x = base64 (take (3 * i) x) @ base64 ([?a, ?b, ?c] @ drop (3 * i + 3) x)"
    by (simp only: s [symmetric])
  then show ?thesis using 1 by (auto simp: base64_Cons3)
qed

lemma decrypt_loop:
  assumes "3 * q \<le> length x" and "3 * q \<le> m"
  shows "foldM (decryptBlock (base64 x @ rest)) [0..<q] (replicate m 0) =
    Some (take (3 * q) x @ replicate (m - 3 * q) 0)"
proof -
  have "\<exists>s. foldM (decryptBlock (base64 x @ rest)) [0..<q] (replicate m 0) = Some s \<and>
      s = take (3 * q) x @ replicate (m - 3 * q) 0"
  proof (rule foldM_range_inv [where I = "\<lambda>i s. s = take (3 * i) x @ replicate (m - 3 * i) 0"])
    fix i s assume i: "0 \<le> i" "i < q" and s: "s = take (3 * i) x @ replicate (m - 3 * i) 0"
    have b: "3 * i + 3 \<le> length x" using i assms by simp
    obtain a b' c where x: "take (3 * Suc i) x = take (3 * i) x @ [a, b', c]"
      "base64 x = base64 (take (3 * i) x) @ [sym (num0 a), sym (num1 a b'), sym (num2 b' c), sym (num3 c)] @
        base64 (drop (3 * i + 3) x)" using base64_split [OF b] by blast
    have "decryptBlock (base64 x @ rest) i s = Some (take (3 * i) x @ [a, b', c] @ drop 3 (replicate (m - 3 * i) 0))"
      by (rule decryptBlock_eq [of _ "base64 (take (3 * i) x)" _ _ _ "base64 (drop (3 * i + 3) x) @ rest",
        OF _ _ s]) (use b i assms x(2) in \<open>simp_all add: length_base64\<close>)
    then show "\<exists>s'. decryptBlock (base64 x @ rest) i s = Some s' \<and> s' = take (3 * Suc i) x @ replicate (m - 3 * Suc i) 0"
      unfolding x(1) by simp
  qed simp_all
  then show ?thesis by blast
qed

lemmas three_induct = three_step.induct [case_names three nil one two]

lemma base64_end:
  "x \<noteq> [] \<Longrightarrow> \<exists>ys u v. base64 x = ys @ [u, v] \<and>
     (if v \<noteq> PADDING_SYMB then 0 else if u \<noteq> PADDING_SYMB then 1 else 2) = (3 - length x mod 3) mod 3"
proof (induction x rule: three_induct)
  case (three a b c r)
  show ?case
  proof (cases "r = []")
    case True
    then show ?thesis
      by (intro exI [of _ "[sym (num0 a), sym (num1 a b)]"] exI [of _ "sym (num2 b c)"]
        exI [of _ "sym (num3 c)"]) (simp add: base64_Cons3)
  next
    case False
    then obtain ys u v where i: "base64 r = ys @ [u, v]"
      "(if v \<noteq> PADDING_SYMB then 0 else if u \<noteq> PADDING_SYMB then 1 else 2) = (3 - length r mod 3) mod 3"
      using three by blast
    have "length (a # b # c # r) mod 3 = length r mod 3" by simp
    then show ?thesis using i
      by (intro exI [of _ "[sym (num0 a), sym (num1 a b), sym (num2 b c), sym (num3 c)] @ ys"]
        exI [of _ u] exI [of _ v]) (simp only: base64_Cons3 append_assoc)
  qed
next
  case (one v)
  then show ?case
    by (intro exI [of _ "[sym (num0 v), sym (num1 v 0)]"] exI [of _ PADDING_SYMB])
      (simp add: base64_one)
next
  case (two v va)
  then show ?case
    by (intro exI [of _ "[sym (num0 v), sym (num1 v va)]"] exI [of _ "sym (num2 va 0)"]
        exI [of _ PADDING_SYMB]) (simp add: base64_two)
qed simp

lemma padLoop_eq:
  "padLoop (ys @ [u, v] @ rest) (length ys + 2) [0..<2] 0 =
    Some (if v \<noteq> PADDING_SYMB then 0 else if u \<noteq> PADDING_SYMB then 1 else 2)"
proof -
  have "[0..<2] = [0, 1 :: nat]" by (simp add: upt_rec)
  moreover have "rdi (ys @ [u, v] @ rest) (int (length ys + 2) - 1 - int 0) = Some v"
    by (simp add: rdi_def nth_append nat_add_distrib)
  moreover have "rdi (ys @ [u, v] @ rest) (int (length ys + 2) - 1 - int 1) = Some u"
    by (simp add: rdi_def nth_append)
  ultimately show ?thesis by (simp only: padLoop.simps bind.bind_lunit) simp
qed

lemma wri_append:
  "n = int (length xs) \<Longrightarrow> wri (xs @ y # ys) n v = Some (xs @ v # ys)"
  by (simp add: wri_def list_update_append)

lemma decryptLast_eq:
  assumes "q = length x div 3" and "r = length x mod 3"
  shows "decryptLastBlock (base64 x @ rest) q (int q) r (take (3 * q) x @ replicate r 0) = Some x"
proof -
  have n: "length x = 3 * q + r" "r < 3" using assms by simp_all
  have y: "length (take (3 * q) x) = 3 * q" "length (base64 (take (3 * q) x)) = 4 * q"
    using n by (simp_all add: length_base64)
  have b: "base64 x = base64 (take (3 * q) x) @ base64 (drop (3 * q) x)"
    using base64_append [of "take (3 * q) x" "drop (3 * q) x"] y by simp
  have nx: "int q * 3 = int (length (take (3 * q) x))" using y by simp
  consider "r = 0" | "r = 1" | "r = 2" using n(2) by linarith
  then show ?thesis
  proof cases
    case 1
    then show ?thesis using n by (simp add: decryptLastBlock_def)
  next
    case 2
    then have "length (drop (3 * q) x) = Suc 0" using n by simp
    then obtain a where a: "drop (3 * q) x = [a]" unfolding length_Suc_conv length_0_conv by blast
    then have x: "take (3 * q) x @ [a] = x" using append_take_drop_id [of "3 * q" x] by simp
    have rd: "rd (base64 x @ rest) (q * 4 + 0) = Some (sym (num0 a))"
      "rd (base64 x @ rest) (q * 4 + 1) = Some (sym (num1 a 0))"
      unfolding b a base64_one using y by (simp_all add: nth_append mult.commute)
    have "wri (take (3 * q) x @ replicate r 0) (int q * 3) a = Some x"
      using 2 wri_append [OF nx, of 0 "[]" a] x by simp
    then show ?thesis using 2
      by (simp only: decryptLastBlock_def rd bind.bind_lunit Let_def symbol_values nums_invert if_True)
        simp
  next
    case 3
    then have "length (drop (3 * q) x) = Suc (Suc 0)" using n by simp
    then obtain a b' where a: "drop (3 * q) x = [a, b']" unfolding length_Suc_conv length_0_conv by blast
    then have x: "take (3 * q) x @ [a, b'] = x" using append_take_drop_id [of "3 * q" x] by simp
    have rd: "rd (base64 x @ rest) (q * 4 + 0) = Some (sym (num0 a))"
      "rd (base64 x @ rest) (q * 4 + 1) = Some (sym (num1 a b'))"
      "rd (base64 x @ rest) (q * 4 + 2) = Some (sym (num2 b' 0))"
      unfolding b a base64_two using y by (simp_all add: nth_append mult.commute)
    have w1: "wri (take (3 * q) x @ replicate r 0) (int q * 3) a = Some (take (3 * q) x @ [a, 0])"
      using 3 wri_append [OF nx, of 0 "[0]" a] by (simp add: numeral_2_eq_2)
    have w2: "wri (take (3 * q) x @ [a, 0]) (int q * 3 + 1) b' = Some x"
      using wri_append [of "int q * 3 + 1" "take (3 * q) x @ [a]" 0 "[]" b'] nx x by simp
    show ?thesis using 3 w2
      by (simp only: decryptLastBlock_def rd bind.bind_lunit Let_def symbol_values nums_invert w1 [unfolded 3] if_True)
        simp
  qed
qed

lemma decryptChars_eq:
  assumes "x \<noteq> []" and "length x < 2 ^ 31" and "mallocOk (length x)"
  shows "decryptChars mallocOk (Some (base64 x @ rest)) (length (base64 x)) (Some d) =
    Some (Some x, Some (length x))"
proof -
  define q where "q = length x div 3"
  define r where "r = length x mod 3"
  have n: "length x = 3 * q + r" "r < 3" unfolding q_def r_def by simp_all
  obtain ys u v where e: "base64 x = ys @ [u, v]"
    "(if v \<noteq> PADDING_SYMB then 0 else if u \<noteq> PADDING_SYMB then 1 else 2) = (3 - r) mod 3"
    using base64_end [OF assms(1)] unfolding r_def by blast
  have pad: "padLoop (base64 x @ rest) (length (base64 x)) [0..<2] 0 = Some ((3 - r) mod 3)"
    using padLoop_eq [of ys u v rest] e by simp
  have bn: "length (base64 x) div 4 = (if r = 0 then q else q + 1)"
    unfolding length_base64 using n by auto
  define blocks where "blocks = length (base64 x) div 4"
  have c: "(if (3 - r) mod 3 = 1 then (int blocks - 1, 2) else if (3 - r) mod 3 = 2 then (int blocks - 1, 1)
      else (int blocks, 0)) = (int q, r)"
  proof -
    consider "r = 0" | "r = 1" | "r = 2" using n(2) by linarith
    then show ?thesis by cases (auto simp: blocks_def bn)
  qed
  have size: "int q * 3 + int r = int (length x)" using n by simp
  have sz: "nat (int (length x) mod 2 ^ 64) = length x" "nat (int (length x) mod 2 ^ 32) = length x"
    using assms(2) by (simp_all add: nat_mod_distrib nat_power_eq)
  have loop: "foldM (decryptBlock (base64 x @ rest)) [0..<q] (replicate (length x) 0) =
      Some (take (3 * q) x @ replicate r 0)"
    using decrypt_loop [of q x "length x" rest] n by simp
  have last: "decryptLastBlock (base64 x @ rest) q (int q) r (take (3 * q) x @ replicate r 0) = Some x"
    by (rule decryptLast_eq) (simp_all add: q_def r_def)
  have lt: "\<not> 2 ^ 31 \<le> int (length x)" using assms(2) by simp
  show ?thesis
    by (simp only: decryptChars_def prod.case option.case pad bind.bind_lunit Let_def
      blocks_def [symmetric] c size sz loop last lt assms(3) if_False not_True_eq_False nat_int)
qed

section \<open>Files block by block\<close>

lemma blocks_of_base64: "blocks_of 768 (base64 x) = map base64 (blocks_of 576 x)"
proof (induction x rule: length_induct)
  case (1 x)
  show ?case
  proof (cases "x = []")
    case False
    have "base64 x = base64 (take 576 x) @ base64 (drop 576 x)" if "576 \<le> length x"
      using base64_append [of "take 576 x" "drop 576 x"] that by simp
    then have "take 768 (base64 x) = base64 (take 576 x) \<and> drop 768 (base64 x) = base64 (drop 576 x)"
      if "576 \<le> length x" using that by (simp add: length_base64)
    moreover have "take 768 (base64 x) = base64 (take 576 x) \<and> drop 768 (base64 x) = base64 (drop 576 x)"
      if "\<not> 576 \<le> length x"
    proof -
      have "(length x + 2) div 3 \<le> 192" using that by linarith
      then show ?thesis using that by (simp add: length_base64)
    qed
    moreover have "base64 x \<noteq> []" using base64_end [OF False] by auto
    ultimately have s: "take 768 (base64 x) = base64 (take 576 x)" "drop 768 (base64 x) = base64 (drop 576 x)"
      "base64 x \<noteq> []" by blast+
    have "length (drop 576 x) < length x" using False by simp
    then have "blocks_of 768 (base64 (drop 576 x)) = map base64 (blocks_of 576 (drop 576 x))" using 1 by blast
    then show ?thesis using False s by (simp add: blocks_of_step)
  qed simp
qed

lemma concat_base64_blocks: "concat (map base64 (blocks_of 768 x)) = base64 x"
proof (induction x rule: length_induct)
  case (1 x)
  show ?case
  proof (cases "x = []")
    case False
    have "base64 (take 768 x) @ base64 (drop 768 x) = base64 x"
    proof (cases "768 \<le> length x")
      case True
      then have "3 dvd length (take 768 x)" by simp
      then show ?thesis using base64_append [of "take 768 x" "drop 768 x"] by simp
    qed simp
    then show ?thesis using False 1 by (simp add: blocks_of_step)
  qed simp
qed

lemma encrypt_one_block:
  assumes "\<And>n. os_malloc os n" and "0 < length b" and "length b \<le> 768"
  shows "encryptChars (os_malloc os) (Some (b @ replicate (768 - length b) 0)) (length b) (Some 0) =
    Some (Some (base64 b), Some (length (base64 b)))"
  using encryptChars_eq [of "length b" "b @ replicate (768 - length b) 0" "os_malloc os" 0] assms
  by (simp add: length_base64)

text \<open>The progress reported for \<open>n\<close> blocks after \<open>cnt\<close> earlier ones.\<close>

definition block_progress :: "os \<Rightarrow> bool \<Rightarrow> int \<Rightarrow> nat \<Rightarrow> nat \<Rightarrow> int list" where
  "block_progress os hasFunc sz cnt n =
     (if hasFunc then map (\<lambda>i. os_percent os i sz) [cnt + 1..<cnt + 1 + n] else [])"

lemma block_progress_Suc:
  "setProgress hasFunc (os_percent os (Suc cnt) sz) trace @ block_progress os hasFunc sz (Suc cnt) n =
    trace @ block_progress os hasFunc sz cnt (Suc n)"
  by (simp add: setProgress_def block_progress_def upt_conv_Cons del: upt_Suc)

lemma cryptBlocks_encrypt:
  assumes "\<And>n. os_malloc os n" and "\<forall>b \<in> set bs. 0 < length b \<and> length b \<le> 768"
  shows "cryptBlocks os MOCRYPT_METHOD_ENCRYPT hasFunc sz bs cnt out trace =
    Some (True, out @ concat (map base64 bs), trace @ block_progress os hasFunc sz cnt (length bs))"
  using assms(2)
proof (induction bs arbitrary: cnt out trace)
  case (Cons b bs)
  then show ?case
    using encrypt_one_block [OF assms(1), of b]
    by (simp add: block_progress_Suc del: replicate.simps)
qed (simp add: block_progress_def)

lemma cryptBlocks_decrypt:
  assumes "\<And>n. os_malloc os n" and "\<forall>b \<in> set bs. 0 < length b \<and> length b \<le> 576"
  shows "cryptBlocks os MOCRYPT_METHOD_DECRYPT hasFunc sz (map base64 bs) cnt out trace =
    Some (True, out @ concat bs, trace @ block_progress os hasFunc sz cnt (length bs))"
  using assms(2)
proof (induction bs arbitrary: cnt out trace)
  case (Cons b bs)
  have "decryptChars (os_malloc os) (Some (base64 b @ r)) (length (base64 b)) (Some 0) =
      Some (Some b, Some (length b))" for r
    by (rule decryptChars_eq) (use Cons.prems assms(1) in auto)
  then show ?case using Cons
    by (simp add: block_progress_Suc del: replicate.simps)
qed (simp add: block_progress_def)

section \<open>Whole files\<close>

text \<open>The progress of a whole run.\<close>

definition run_progress :: "os \<Rightarrow> bool \<Rightarrow> string \<Rightarrow> nat \<Rightarrow> int list" where
  "run_progress os hasFunc src n =
     (if hasFunc
      then [0, 5, 10] @ block_progress os True (moUtils_File_getSize (os_lstat os) (Some src)) 0 n @ [90, 95, 100]
      else [])"

definition able :: "os \<Rightarrow> bool \<Rightarrow> string \<Rightarrow> string \<Rightarrow> bool" where
  "able os hasFunc src dst \<longleftrightarrow> (\<forall>n. os_malloc os n) \<and>
     (hasFunc \<longrightarrow> length src < 256 \<and> length dst < 256 \<and> os_thread os)"

lemma able_malloc: "able os hasFunc src dst \<Longrightarrow> os_malloc os n"
  by (simp add: able_def)

text \<open>The conversion of a content by the block loop, in both directions.\<close>

definition converts :: "os \<Rightarrow> MOCRYPT_METHOD \<Rightarrow> byte list \<Rightarrow> byte list \<Rightarrow> bool" where
  "converts os mt x y \<longleftrightarrow> (\<forall>hasFunc sz trace. cryptBlocks os mt hasFunc sz (blocks_of 768 x) 0 [] trace =
     Some (True, y, trace @ block_progress os hasFunc sz 0 (length (blocks_of 768 x))))"

lemma converts_encrypt: "(\<And>n. os_malloc os n) \<Longrightarrow> converts os MOCRYPT_METHOD_ENCRYPT x (base64 x)"
  unfolding converts_def
  by (subst cryptBlocks_encrypt) (auto simp: concat_base64_blocks dest: blocks_of_length)

lemma converts_decrypt: "(\<And>n. os_malloc os n) \<Longrightarrow> converts os MOCRYPT_METHOD_DECRYPT (base64 x) x"
  unfolding converts_def blocks_of_base64
  by (subst cryptBlocks_decrypt) (auto simp: concat_blocks_of dest: blocks_of_length)

lemma cryptFileToDiff_eq:
  assumes "converts os mt x y" and "fs src = Some x" and "os_writable os dst"
  shows "cryptFileToDiff os mt src dst hasFunc (fs, trace) =
    Some (0, fs(dst \<mapsto> y), setProgress hasFunc 95 (setProgress hasFunc 90
      (setProgress hasFunc 10 trace @
        block_progress os hasFunc (moUtils_File_getSize (os_lstat os) (Some src)) 0 (length (blocks_of 768 x)))))"
  using assms by (simp add: cryptFileToDiff_def converts_def Let_def)

lemma cryptFileToSame_eq:
  assumes "converts os mt x y" and "fs src = Some x" and "getTmpFilepath os (Some src) = Some tmp"
    and "os_writable os tmp" and "os_writable os src" and "tmp \<noteq> src"
  shows "cryptFileToSame os mt src hasFunc (fs, trace) =
    Some (0, fs(src \<mapsto> y, tmp := None), setProgress hasFunc 95 (setProgress hasFunc 90
      (setProgress hasFunc 10 trace @
        block_progress os hasFunc (moUtils_File_getSize (os_lstat os) (Some src)) 0 (length (blocks_of 768 x)))))"
  using assms by (simp add: cryptFileToSame_def converts_def Let_def concat_blocks_of fun_upd_twist)

lemma getTmpFilepath_neq:
  assumes "getTmpFilepath os (Some p) = Some tmp"
  shows "tmp \<noteq> p"
proof (cases "strrchr p (CHR ''/'')")
  case None
  then show ?thesis using assms
    by (auto simp: getTmpFilepath_def moUtils_File_getDirAndFilename_def split: if_splits)
next
  case (Some i)
  then have "i < length p" using strrchr_Some by blast
  then have "length tmp > length p" using assms Some
    by (auto simp: getTmpFilepath_def moUtils_File_getDirAndFilename_def Let_def split: if_splits)
  then show ?thesis by blast
qed

lemma File_of_cryptFile:
  assumes "able os hasFunc src dst"
    and "cryptFile os mt src dst hasFunc st = Some (0, st')"
  shows "moCrypt_BASE64_File os mt (Some src) (Some dst) hasFunc st = Some (0, st')"
  using assms by (cases hasFunc) (simp_all add: moCrypt_BASE64_File_def able_def)

lemma File_diff:
  assumes "able os hasFunc src dst" and "converts os mt x y" and "fs src = Some x" and "os_writable os dst"
    and "moUtils_File_getFilepathSameState (os_malloc os) (os_stat os) (os_popen os) (Some src) (Some dst)
      (Some MOUTILS_FILE_ABSPATH_STATE_ERR) = Some (0, MOUTILS_FILE_ABSPATH_STATE_DIFF)"
  shows "moCrypt_BASE64_File os mt (Some src) (Some dst) hasFunc (fs, trace) =
    Some (0, fs(dst \<mapsto> y), trace @ run_progress os hasFunc src (length (blocks_of 768 x)))"
  by (rule File_of_cryptFile [OF assms(1)])
    (use assms(5) cryptFileToDiff_eq [where fs = fs and src = src and hasFunc = hasFunc, OF assms(2-4)] in
      \<open>simp add: cryptFile_def run_progress_def setProgress_def block_progress_def\<close>)

lemma File_same:
  assumes "able os hasFunc src src" and "converts os mt x y" and "fs src = Some x"
    and "getTmpFilepath os (Some src) = Some tmp" and "os_writable os tmp" and "os_writable os src"
  shows "moCrypt_BASE64_File os mt (Some src) (Some src) hasFunc (fs, trace) =
    Some (0, fs(src \<mapsto> y, tmp := None), trace @ run_progress os hasFunc src (length (blocks_of 768 x)))"
  by (rule File_of_cryptFile [OF assms(1)])
    (use cryptFileToSame_eq [where fs = fs and src = src and hasFunc = hasFunc,
      OF assms(2-6) getTmpFilepath_neq [OF assms(4)]] in
      \<open>simp add: cryptFile_def run_progress_def setProgress_def block_progress_def
        moUtils_File_getFilepathSameState_def\<close>)

lemma sample_os_able: "able sample_os False src dst" "os_writable sample_os p"
  by (simp_all add: able_def sample_os_def)

section \<open>Properties\<close>

text \<open>
  C7. Encoding is BASE64 as RFC 4648 defines it: for every length whose encoded size fits an
  \<open>unsigned int\<close>, the returned buffer holds exactly the encoding of the first \<open>srcLen\<close> bytes, and
  the reported length is its length.
\<close>

theorem moCrypt_BASE64_Chars_encodes:
  assumes "0 < n" and "n \<le> length src" and "n \<le> 3 * (2 ^ 30 - 1)" and "mallocOk (4 * ((n + 2) div 3))"
  shows "moCrypt_BASE64_Chars mallocOk MOCRYPT_METHOD_ENCRYPT (Some src) n (Some d) =
    Some (Some (base64 (take n src)), Some (length (base64 (take n src))))"
  using assms encryptChars_eq [of n src mallocOk d]
  by (simp add: moCrypt_BASE64_Chars_def length_base64)

theorem moCrypt_BASE64_Chars_encodes_witness:
  "moCrypt_BASE64_Chars (\<lambda>_. True) MOCRYPT_METHOD_ENCRYPT (Some [77, 97, 110, 33]) 4 (Some 0) =
    Some (Some [84, 87, 70, 117, 73, 81, 61, 61], Some 8)"
proof -
  have n: "0 < (4 :: nat)" "4 \<le> length [77, 97, 110, 33 :: byte]" "(4 :: nat) \<le> 3 * (2 ^ 30 - 1)" by simp_all
  have "base64 (take 4 [77, 97, 110, 33]) = [84, 87, 70, 117, 73, 81, 61, 61]"
    by (simp add: base64_Cons3 base64_one sym_def num_defs gMap_def)
  then show ?thesis
    using moCrypt_BASE64_Chars_encodes [OF n, of "\<lambda>_. True" 0] by simp
qed

text \<open>
  Decoding inverts encoding: for every non-empty byte string shorter than \<open>2^31\<close>, the decoder
  returns it from its encoding, reading and writing inside the buffers only.
\<close>

theorem moCrypt_BASE64_Chars_roundtrip:
  assumes "x \<noteq> []" and "length x < 2 ^ 31" and "\<And>n. mallocOk n"
  shows "\<exists>c n. moCrypt_BASE64_Chars mallocOk MOCRYPT_METHOD_ENCRYPT (Some x) (length x) (Some d) =
      Some (Some c, Some n) \<and> n = 4 * ((length x + 2) div 3) \<and>
    moCrypt_BASE64_Chars mallocOk MOCRYPT_METHOD_DECRYPT (Some c) n (Some d') = Some (Some x, Some (length x))"
proof -
  have "0 < length x" using assms(1) by simp
  moreover have "length x \<le> 3 * (2 ^ 30 - 1)" using assms(2) by simp
  moreover have "0 < length (base64 x)" using base64_end [OF assms(1)] by auto
  ultimately show ?thesis
    using encryptChars_eq [of "length x" x mallocOk d] decryptChars_eq [where rest = "[]" and d = d' and mallocOk = mallocOk, OF assms]
      assms(3)
    by (simp add: moCrypt_BASE64_Chars_def length_base64)
qed

theorem moCrypt_BASE64_Chars_roundtrip_witness:
  "\<exists>c. moCrypt_BASE64_Chars (\<lambda>_. True) MOCRYPT_METHOD_ENCRYPT (Some [77, 97]) 2 (Some 0) = Some (Some c, Some 4) \<and>
    moCrypt_BASE64_Chars (\<lambda>_. True) MOCRYPT_METHOD_DECRYPT (Some c) 4 (Some 0) = Some (Some [77, 97], Some 2)"
proof -
  have n: "length [77, 97 :: byte] = 2" by simp
  show ?thesis
    using moCrypt_BASE64_Chars_roundtrip [of "[77, 97]" "\<lambda>_. True" 0 0] unfolding n by auto
qed

text \<open>
  C8. A file encoded to another path and decoded from there to a third one has its content again, the
  intermediate file is the BASE64 text of the whole content although both runs work in blocks of 768
  bytes, nothing else changes, and a callback sees 0, 5, 10, the figures of the blocks, 90, 95, 100.
\<close>

theorem moCrypt_BASE64_File_roundtrip:
  assumes "able os hasFunc src dst" and "able os hasFunc dst back"
    and "fs src = Some x" and "os_writable os dst" and "os_writable os back"
    and "moUtils_File_getFilepathSameState (os_malloc os) (os_stat os) (os_popen os) (Some src) (Some dst)
      (Some MOUTILS_FILE_ABSPATH_STATE_ERR) = Some (0, MOUTILS_FILE_ABSPATH_STATE_DIFF)"
    and "moUtils_File_getFilepathSameState (os_malloc os) (os_stat os) (os_popen os) (Some dst) (Some back)
      (Some MOUTILS_FILE_ABSPATH_STATE_ERR) = Some (0, MOUTILS_FILE_ABSPATH_STATE_DIFF)"
  shows "moCrypt_BASE64_File os MOCRYPT_METHOD_ENCRYPT (Some src) (Some dst) hasFunc (fs, trace) =
      Some (0, fs(dst \<mapsto> base64 x), trace @ run_progress os hasFunc src (length (blocks_of 768 x))) \<and>
    moCrypt_BASE64_File os MOCRYPT_METHOD_DECRYPT (Some dst) (Some back) hasFunc (fs(dst \<mapsto> base64 x), trace) =
      Some (0, fs(dst \<mapsto> base64 x, back \<mapsto> x),
        trace @ run_progress os hasFunc dst (length (blocks_of 768 (base64 x))))"
proof -
  have m: "\<And>n. os_malloc os n" using able_malloc [OF assms(1)] .
  show ?thesis
    using File_diff [where fs = fs and trace = trace, OF assms(1) converts_encrypt [OF m] assms(3,4,6)]
      File_diff [where fs = "fs(dst \<mapsto> base64 x)" and trace = trace and x = "base64 x",
        OF assms(2) converts_decrypt [OF m] _ assms(5,7)] by simp
qed

theorem moCrypt_BASE64_File_roundtrip_witness:
  "moCrypt_BASE64_File sample_os MOCRYPT_METHOD_DECRYPT (Some ''b'') (Some ''c'') False
      ([''a'' \<mapsto> [77, 97, 110], ''b'' \<mapsto> base64 [77, 97, 110]], []) =
    Some (0, [''a'' \<mapsto> [77, 97, 110], ''b'' \<mapsto> base64 [77, 97, 110], ''c'' \<mapsto> [77, 97, 110]], [])"
proof -
  have d1: "moUtils_File_getFilepathSameState (os_malloc sample_os) (os_stat sample_os) (os_popen sample_os)
      (Some ''a'') (Some ''b'') (Some MOUTILS_FILE_ABSPATH_STATE_ERR) = Some (0, MOUTILS_FILE_ABSPATH_STATE_DIFF)"
    by code_simp
  have d2: "moUtils_File_getFilepathSameState (os_malloc sample_os) (os_stat sample_os) (os_popen sample_os)
      (Some ''b'') (Some ''c'') (Some MOUTILS_FILE_ABSPATH_STATE_ERR) = Some (0, MOUTILS_FILE_ABSPATH_STATE_DIFF)"
    by code_simp
  show ?thesis
    using moCrypt_BASE64_File_roundtrip [of sample_os False "''a''" "''b''" "''c''" "[''a'' \<mapsto> [77, 97, 110]]"
      "[77, 97, 110]" "[]", OF sample_os_able(1) sample_os_able(1) _ sample_os_able(2) sample_os_able(2) d1 d2]
    by (simp add: run_progress_def)
qed

text \<open>
  A file encoded in place and decoded in place has its content again, and the temporary file beside
  it is gone after each run.
\<close>

theorem moCrypt_BASE64_File_roundtrip_in_place:
  assumes "able os hasFunc src src" and "fs src = Some x"
    and "getTmpFilepath os (Some src) = Some tmp" and "os_writable os tmp" and "os_writable os src"
  shows "moCrypt_BASE64_File os MOCRYPT_METHOD_ENCRYPT (Some src) (Some src) hasFunc (fs, trace) =
      Some (0, fs(src \<mapsto> base64 x, tmp := None), trace @ run_progress os hasFunc src (length (blocks_of 768 x))) \<and>
    moCrypt_BASE64_File os MOCRYPT_METHOD_DECRYPT (Some src) (Some src) hasFunc
        (fs(src \<mapsto> base64 x, tmp := None), trace) =
      Some (0, fs(src \<mapsto> x, tmp := None),
        trace @ run_progress os hasFunc src (length (blocks_of 768 (base64 x))))"
proof -
  have m: "\<And>n. os_malloc os n" using able_malloc [OF assms(1)] .
  have n: "tmp \<noteq> src" by (rule getTmpFilepath_neq [OF assms(3)])
  show ?thesis
    using File_same [where fs = fs and trace = trace, OF assms(1) converts_encrypt [OF m] assms(2-5)]
      File_same [where fs = "fs(src \<mapsto> base64 x, tmp := None)" and trace = trace and x = "base64 x",
        OF assms(1) converts_decrypt [OF m] _ assms(3-5)] n
    by (simp add: fun_upd_twist)
qed

theorem moCrypt_BASE64_File_roundtrip_in_place_witness:
  "moCrypt_BASE64_File sample_os MOCRYPT_METHOD_ENCRYPT (Some ''d/a'') (Some ''d/a'') False
      ([''d/a'' \<mapsto> [77, 97, 110]], []) =
    Some (0, [''d/a'' \<mapsto> base64 [77, 97, 110]], [])"
proof -
  have t: "getTmpFilepath sample_os (Some ''d/a'') = Some ''d//moBase64Temp_a''" by code_simp
  show ?thesis
    using moCrypt_BASE64_File_roundtrip_in_place [of sample_os False "''d/a''" "[''d/a'' \<mapsto> [77, 97, 110]]"
      "[77, 97, 110]" "''d//moBase64Temp_a''" "[]", OF sample_os_able(1) _ t sample_os_able(2) sample_os_able(2)]
    by (simp add: run_progress_def fun_upd_idem)
qed

text \<open>
  Decoding a single padding symbol reads the byte before the buffer: the loop that counts the
  padding looks at two bytes without checking that there are two.
\<close>

theorem moCrypt_BASE64_Chars_underread:
  "moCrypt_BASE64_Chars mallocOk MOCRYPT_METHOD_DECRYPT (Some (PADDING_SYMB # r)) 1 (Some d) = None"
proof -
  have "[0..<2] = [0, 1 :: nat]" by (simp add: upt_rec)
  then show ?thesis by (simp add: moCrypt_BASE64_Chars_def decryptChars_def rdi_def)
qed

end
