(* ===== verification/MoRC4.thy ===== *)
theory MoRC4
  imports MoFile
begin

text \<open>
  RC4 of \<open>moSdk/Crypto/RC4/src/moCrypt_RC4.c\<close>: key scheduling, the key stream, encryption of a byte
  string in blocks of 1024 bytes, and of a file to another file or in place. Encryption and
  decryption are the same function. Logging is left out.
\<close>

abbreviation (input) VECTOR_LEN :: nat where
  "VECTOR_LEN \<equiv> 256"

abbreviation (input) BLOCK_SIZE :: nat where
  "BLOCK_SIZE \<equiv> 1024"

abbreviation (input) MOCRYPT_RC4_ERR_OK :: int where
  "MOCRYPT_RC4_ERR_OK \<equiv> 0"

abbreviation (input) MOCRYPT_RC4_ERR_INPUTPARAMNULL :: int where
  "MOCRYPT_RC4_ERR_INPUTPARAMNULL \<equiv> -20000"

abbreviation (input) MOCRYPT_RC4_ERR_MALLOCFAILED :: int where
  "MOCRYPT_RC4_ERR_MALLOCFAILED \<equiv> -20002"

abbreviation (input) MOCRYPT_RC4_ERR_INVALIDKEY :: int where
  "MOCRYPT_RC4_ERR_INVALIDKEY \<equiv> -20003"

abbreviation (input) MOCRYPT_RC4_ERR_CREATETHREADFAIL :: int where
  "MOCRYPT_RC4_ERR_CREATETHREADFAIL \<equiv> -20004"

abbreviation (input) MOCRYPT_RC4_ERR_GETFILEDIFFSTATEFAIL :: int where
  "MOCRYPT_RC4_ERR_GETFILEDIFFSTATEFAIL \<equiv> -20005"

abbreviation (input) MOCRYPT_RC4_ERR_GENTMPFILE :: int where
  "MOCRYPT_RC4_ERR_GENTMPFILE \<equiv> -20006"

abbreviation (input) MOCRYPT_RC4_ERR_OPENFILEFAILED :: int where
  "MOCRYPT_RC4_ERR_OPENFILEFAILED \<equiv> -20007"

section \<open>The cipher\<close>

definition isRightFormatKey :: "byte ptr \<Rightarrow> int \<Rightarrow> bool" where
  "isRightFormatKey key keylen =
     (if key = None then False else if keylen < 1 \<or> keylen > 256 then False else True)"

definition initVectorSAndT :: "byte list \<Rightarrow> nat \<Rightarrow> (byte list \<times> byte list) option" where
  "initVectorSAndT key keylen =
     foldM (\<lambda>i (vectorS, vectorT). do {
       vectorS \<leftarrow> wr vectorS i (word_of_nat i);
       k \<leftarrow> rd key (i mod keylen);
       vectorT \<leftarrow> wr vectorT i k;
       Some (vectorS, vectorT)
     }) [0..<VECTOR_LEN] (replicate VECTOR_LEN 0, replicate VECTOR_LEN 0)"

definition rangeVectorS :: "byte list \<Rightarrow> byte list \<Rightarrow> byte list option" where
  "rangeVectorS vectorS vectorT = do {
     (vectorS, _) \<leftarrow> foldM (\<lambda>i (vectorS, j). do {
       s \<leftarrow> rd vectorS i;
       t \<leftarrow> rd vectorT i;
       let j = (j + unat s + unat t) mod VECTOR_LEN;
       temp \<leftarrow> rd vectorS i;
       v \<leftarrow> rd vectorS j;
       vectorS \<leftarrow> wr vectorS i v;
       vectorS \<leftarrow> wr vectorS j temp;
       Some (vectorS, j)
     }) [0..<VECTOR_LEN] (vectorS, 0);
     Some vectorS
   }"

text \<open>The state of the stream loop is the stream, the vector and the counters \<open>i\<close> and \<open>j\<close>.\<close>

definition genCipherStream :: "nat \<Rightarrow> byte list \<Rightarrow> byte list option" where
  "genCipherStream txtLen vectorS = do {
     (stream, _) \<leftarrow> foldM (\<lambda>cnt (stream, vectorS, i, j). do {
       let i = (i + 1) mod VECTOR_LEN;
       s \<leftarrow> rd vectorS i;
       let j = (j + unat s) mod VECTOR_LEN;
       temp \<leftarrow> rd vectorS i;
       v \<leftarrow> rd vectorS j;
       vectorS \<leftarrow> wr vectorS i v;
       vectorS \<leftarrow> wr vectorS j temp;
       a \<leftarrow> rd vectorS i;
       b \<leftarrow> rd vectorS j;
       let idx = (unat a + unat b) mod 256;
       x \<leftarrow> rd vectorS idx;
       stream \<leftarrow> wr stream cnt x;
       Some (stream, vectorS, i, j)
     }) [0..<txtLen] (replicate txtLen 0, vectorS, 0, 0);
     Some stream
   }"

definition genCipherOrPlainTxt :: "byte list \<Rightarrow> byte list \<Rightarrow> nat \<Rightarrow> byte list option" where
  "genCipherOrPlainTxt txt stream txtLen =
     foldM (\<lambda>i txt. do {
       a \<leftarrow> rd txt i;
       b \<leftarrow> rd stream i;
       wr txt i (a XOR b)
     }) [0..<txtLen] txt"

definition blockEncryptDecrypt ::
    "(nat \<Rightarrow> bool) \<Rightarrow> byte list \<Rightarrow> nat \<Rightarrow> byte list \<Rightarrow> nat \<Rightarrow> (int \<times> byte list) option" where
  "blockEncryptDecrypt mallocOk key keylen txt txtLen = do {
     (vectorS, vectorT) \<leftarrow> initVectorSAndT key keylen;
     vectorS \<leftarrow> rangeVectorS vectorS vectorT;
     if \<not> mallocOk txtLen then Some (MOCRYPT_RC4_ERR_MALLOCFAILED, txt)
     else do {
       stream \<leftarrow> genCipherStream txtLen vectorS;
       txt \<leftarrow> genCipherOrPlainTxt txt stream txtLen;
       Some (MOCRYPT_RC4_ERR_OK, txt)
     }
   }"

text \<open>
  The loop over the blocks: \<open>txtLen\<close> is the \<open>int\<close> that counts down. The block at \<open>curPtr\<close> is passed
  as the list of its cells and put back.
\<close>

function cryptStringLoop ::
    "(nat \<Rightarrow> bool) \<Rightarrow> byte list \<Rightarrow> nat \<Rightarrow> byte list \<Rightarrow> nat \<Rightarrow> int \<Rightarrow> (int \<times> byte list) option" where
  "cryptStringLoop mallocOk key keylen txt curBlockNum txtLen =
     (if txtLen > 0
      then do {
        let curPtr = curBlockNum * BLOCK_SIZE;
        let curBlockLen = (if txtLen > int BLOCK_SIZE then BLOCK_SIZE else nat txtLen);
        blk \<leftarrow> rdn txt curPtr curBlockLen;
        (ret, blk) \<leftarrow> blockEncryptDecrypt mallocOk key keylen blk curBlockLen;
        txt \<leftarrow> wrn txt curPtr blk;
        if ret \<noteq> 0 then Some (ret, txt)
        else cryptStringLoop mallocOk key keylen txt (curBlockNum + 1) (txtLen - int BLOCK_SIZE)
      }
      else Some (0, txt))"
  by pat_completeness auto
termination by (relation "measure (\<lambda>(m, k, l, t, c, n). nat n)") auto

declare cryptStringLoop.simps [simp del]

definition moCrypt_RC4_cryptString ::
    "(nat \<Rightarrow> bool) \<Rightarrow> byte ptr \<Rightarrow> nat \<Rightarrow> byte ptr \<Rightarrow> int \<Rightarrow> (int \<times> byte ptr) option" where
  "moCrypt_RC4_cryptString mallocOk key keylen txt txtLen =
     (case (key, txt) of
        (Some k, Some t) \<Rightarrow>
          if \<not> isRightFormatKey key (to_int32 keylen) then Some (MOCRYPT_RC4_ERR_INVALIDKEY, txt)
          else map_option (\<lambda>(ret, t). (ret, Some t)) (cryptStringLoop mallocOk k keylen t 0 txtLen)
      | _ \<Rightarrow> Some (MOCRYPT_RC4_ERR_INPUTPARAMNULL, txt))"

section \<open>Files\<close>

text \<open>
  \<open>srcFilename\<close> and \<open>srcFileDir\<close> are buffers of \<open>strlen(srcFilepath) + 1\<close> bytes; the result is the
  return value, the name and the directory.
\<close>

definition getFileNameDirFromPath :: "string option \<Rightarrow> int \<times> string \<times> string" where
  "getFileNameDirFromPath srcFilepath =
     (case srcFilepath of
        None \<Rightarrow> (-1, [], [])
      | Some p \<Rightarrow>
          if length p = 0 then (-2, [], [])
          else (case strrchr p (CHR ''/'') of
              None \<Rightarrow> (0, p, [])
            | Some pos \<Rightarrow>
                let filenameLen = length p - (pos + 1) in
                if filenameLen = 0 then (-3, [], [])
                else (0, take filenameLen (drop (pos + 1) p), take (pos + 1) p)))"

definition genTempDstFilepath :: "os \<Rightarrow> string option \<Rightarrow> string option" where
  "genTempDstFilepath os srcFilepath =
     (case srcFilepath of
        None \<Rightarrow> None
      | Some p \<Rightarrow>
          if \<not> os_malloc os (length p + 1) then None
          else (case getFileNameDirFromPath (Some p) of
              (ret, name, dir) \<Rightarrow>
                if ret \<noteq> 0 then None
                else if \<not> os_malloc os (length name + length dir + length ''temp_'' + 1) then None
                else Some (dir @ ''temp_'' @ name)))"

definition setProgress :: "bool \<Rightarrow> int \<Rightarrow> int list \<Rightarrow> int list" where
  "setProgress hasFunc prog trace = (if hasFunc then trace @ [prog] else trace)"

text \<open>
  The loop over the blocks that \<open>fread\<close> delivers; a write to the destination is taken to succeed. The
  result is the return value, the bytes written and the trace.
\<close>

fun cryptFileLoop ::
    "os \<Rightarrow> byte list \<Rightarrow> nat \<Rightarrow> bool \<Rightarrow> int \<Rightarrow> byte list list \<Rightarrow> nat \<Rightarrow> byte list \<Rightarrow> int list \<Rightarrow>
     (int \<times> byte list \<times> int list) option" where
  "cryptFileLoop os key keylen hasFunc srcFilesize [] blockNum out trace = Some (0, out, trace)"
| "cryptFileLoop os key keylen hasFunc srcFilesize (b # bs) blockNum out trace = do {
     let readLen = length b;
     let readBuf = b @ replicate (BLOCK_SIZE - readLen) 0;
     (ret, buf) \<leftarrow> moCrypt_RC4_cryptString (os_malloc os) (Some key) keylen (Some readBuf) (int readLen);
     if ret \<noteq> 0 then Some (ret, out, trace)
     else do {
       readBuf \<leftarrow> buf;
       w \<leftarrow> rdn readBuf 0 readLen;
       cryptFileLoop os key keylen hasFunc srcFilesize bs (blockNum + 1) (out @ w)
         (setProgress hasFunc (os_percent os (blockNum + 1) srcFilesize) trace)
     }
   }"

definition cryptFileBlockly ::
    "os \<Rightarrow> byte list \<Rightarrow> int \<Rightarrow> byte list \<Rightarrow> nat \<Rightarrow> bool \<Rightarrow> int list \<Rightarrow> (int \<times> byte list \<times> int list) option" where
  "cryptFileBlockly os content srcFilesize key keylen hasFunc trace =
     (if srcFilesize < 0 then Some (MOCRYPT_RC4_ERR_INPUTPARAMNULL, [], trace)
      else cryptFileLoop os key keylen hasFunc srcFilesize (blocks_of BLOCK_SIZE content) 0 [] trace)"

text \<open>
  Copying the temporary file back. \<open>fread(readBuf, BLOCK_SIZE, 1, dstFd)\<close> returns 1 for a complete
  block and 0 otherwise, and always 0 on a stream that is not open for reading (\<open>readable\<close>);
  \<open>fwrite(readBuf, readLen, 1, srcFd)\<close> then writes one byte of the block. \<open>srcFd\<close> is at its start.
\<close>

definition copyContentsToDstfile :: "bool \<Rightarrow> byte list \<Rightarrow> byte list \<Rightarrow> int \<times> byte list" where
  "copyContentsToDstfile readable tmp src =
     (let bs = (if readable then filter (\<lambda>b. length b = BLOCK_SIZE) (blocks_of BLOCK_SIZE tmp) else []);
          written = map hd bs
      in (0, written @ drop (length written) src))"

text \<open>
  \<open>cryptFile\<close>: when source and destination are the same file, the destination is a temporary file,
  opened with mode \<open>"wb"\<close>, which is not deleted.
\<close>

definition cryptFile ::
    "os \<Rightarrow> string \<Rightarrow> string \<Rightarrow> byte list \<Rightarrow> nat \<Rightarrow> bool \<Rightarrow> files \<times> int list \<Rightarrow>
     (int \<times> files \<times> int list) option" where
  "cryptFile os srcFilepath dstFilepath key keylen hasFunc st = do {
     let (fs, trace) = st;
     let fail = (\<lambda>err fs trace. Some (err, fs, setProgress hasFunc err trace));
     let trace = setProgress hasFunc 0 trace;
     (ret, diffState) \<leftarrow> moUtils_File_getFilepathSameState (os_malloc os) (os_stat os) (os_popen os)
       (Some srcFilepath) (Some dstFilepath) (Some MOUTILS_FILE_ABSPATH_STATE_ERR);
     if ret \<noteq> 0 then fail MOCRYPT_RC4_ERR_GETFILEDIFFSTATEFAIL fs trace
     else do {
       let trace = setProgress hasFunc 5 trace;
       let same = (diffState = MOUTILS_FILE_ABSPATH_STATE_SAME);
       let dst = (if same then genTempDstFilepath os (Some srcFilepath) else Some dstFilepath);
       (case dst of
          None \<Rightarrow> fail MOCRYPT_RC4_ERR_GENTMPFILE fs trace
        | Some dst \<Rightarrow>
            (case fs srcFilepath of
               None \<Rightarrow> fail MOCRYPT_RC4_ERR_OPENFILEFAILED fs trace
             | Some content \<Rightarrow>
                 if same \<and> \<not> os_writable os srcFilepath then fail MOCRYPT_RC4_ERR_OPENFILEFAILED fs trace
                 else if \<not> os_writable os dst then fail MOCRYPT_RC4_ERR_OPENFILEFAILED fs trace
                 else do {
                   let trace = setProgress hasFunc 10 trace;
                   let srcFilesize = moUtils_File_getSize (os_lstat os) (Some srcFilepath);
                   (ret, out, trace) \<leftarrow> cryptFileBlockly os content srcFilesize key keylen hasFunc trace;
                   let fs = fs(dst \<mapsto> out);
                   if ret \<noteq> 0 then fail ret fs trace
                   else do {
                     let (ret, fs) =
                       (if same
                        then let (r, new) = copyContentsToDstfile False out content
                             in (r, fs(srcFilepath \<mapsto> new))
                        else (0, fs));
                     if ret \<noteq> 0 then fail ret fs trace
                     else Some (MOCRYPT_RC4_ERR_OK, fs,
                       setProgress hasFunc 100 (setProgress hasFunc 95 trace))
                   }
                 }))
     }
   }"

record MOCRYPT_RC4_FILEINFO =
  pSrcFilepath :: string
  pDstFilepath :: string
  pKey :: "byte list"
  keyLen :: nat
  pCallback :: bool

text \<open>With a callback the work is done by a thread; the state is the one after it has run.\<close>

definition moCrypt_RC4_cryptFile ::
    "os \<Rightarrow> MOCRYPT_RC4_FILEINFO option \<Rightarrow> files \<times> int list \<Rightarrow> (int \<times> files \<times> int list) option" where
  "moCrypt_RC4_cryptFile os pCryptInfo st =
     (case pCryptInfo of
        None \<Rightarrow> Some (MOCRYPT_RC4_ERR_INPUTPARAMNULL, st)
      | Some info \<Rightarrow>
          if \<not> isRightFormatKey (Some (pKey info)) (to_int32 (keyLen info))
          then Some (MOCRYPT_RC4_ERR_INVALIDKEY, st)
          else if \<not> pCallback info
          then cryptFile os (pSrcFilepath info) (pDstFilepath info) (pKey info) (keyLen info) False st
          else if \<not> os_malloc os 784 then Some (MOCRYPT_RC4_ERR_MALLOCFAILED, st)
          else if \<not> os_thread os then Some (MOCRYPT_RC4_ERR_CREATETHREADFAIL, st)
          else do {
            (_, st) \<leftarrow> cryptFile os (pSrcFilepath info) (pDstFilepath info) (pKey info) (keyLen info) True st;
            Some (MOCRYPT_RC4_ERR_OK, st)
          })"


section \<open>The cipher as pure functions\<close>

text \<open>
  The specification: a permutation of the 256 byte values, stirred by the key (\<open>rc4_schedule\<close>) and
  then stepped once for every byte of the key stream. The state of the generator is the permutation
  and the two indices.
\<close>

declare upt_rec_numeral [simp del]

definition exchange :: "'a list \<Rightarrow> nat \<Rightarrow> nat \<Rightarrow> 'a list" where
  "exchange S i j = S[i := S ! j, j := S ! i]"

definition schedule_step :: "byte list \<Rightarrow> nat \<Rightarrow> nat \<Rightarrow> byte list \<times> nat \<Rightarrow> byte list \<times> nat" where
  "schedule_step key keylen i = (\<lambda>(S, j).
     let j = (j + unat (S ! i) + unat (key ! (i mod keylen))) mod 256 in (exchange S i j, j))"

definition rc4_schedule :: "byte list \<Rightarrow> nat \<Rightarrow> byte list" where
  "rc4_schedule key keylen =
     fst (fold (schedule_step key keylen) [0..<256] (map word_of_nat [0..<256], 0))"

definition stream_step :: "byte list \<times> nat \<times> nat \<Rightarrow> byte list \<times> nat \<times> nat" where
  "stream_step = (\<lambda>(S, i, j).
     let i = (i + 1) mod 256; j = (j + unat (S ! i)) mod 256 in (exchange S i j, i, j))"

definition stream_out :: "byte list \<times> nat \<times> nat \<Rightarrow> byte" where
  "stream_out = (\<lambda>(S, i, j). S ! ((unat (S ! i) + unat (S ! j)) mod 256))"

definition stream_byte :: "byte list \<Rightarrow> nat \<Rightarrow> byte" where
  "stream_byte S n = stream_out ((stream_step ^^ Suc n) (S, 0, 0))"

definition rc4_byte :: "byte list \<Rightarrow> nat \<Rightarrow> nat \<Rightarrow> byte" where
  "rc4_byte key keylen = stream_byte (rc4_schedule key keylen)"

definition good_key :: "byte list \<Rightarrow> nat \<Rightarrow> bool" where
  "good_key key keylen \<longleftrightarrow> 0 < keylen \<and> keylen \<le> 256 \<and> keylen \<le> length key"

lemma length_exchange [simp]: "length (exchange S i j) = length S"
  by (simp add: exchange_def)

lemma mset_exchange: "i < length S \<Longrightarrow> j < length S \<Longrightarrow> mset (exchange S i j) = mset S"
  unfolding exchange_def by (rule mset_swap)

lemma wr_exchange: "i < length S \<Longrightarrow> j < length S \<Longrightarrow>
    Option.bind (wr S i (S ! j)) (\<lambda>S'. Option.bind (wr S' j (S ! i)) f) = f (exchange S i j)"
  by (simp add: exchange_def)

section \<open>Key scheduling\<close>

lemma initVectorSAndT_eq:
  assumes "good_key key keylen"
  shows "initVectorSAndT key keylen =
    Some (map word_of_nat [0..<256], map (\<lambda>i. key ! (i mod keylen)) [0..<256])"
proof -
  have key: "i mod keylen < length key" for i
    using assms mod_less_divisor [of keylen i] unfolding good_key_def by linarith
  let ?I = "\<lambda>n st. st = (map word_of_nat [0..<n] @ replicate (256 - n) 0,
    map (\<lambda>i. key ! (i mod keylen)) [0..<n] @ replicate (256 - n) 0)"
  have fill: "(map f [0..<i] @ replicate (256 - i) z)[i := f i] = map f [0..<i] @ f i # replicate (255 - i) z"
    if "i < 256" for f :: "nat \<Rightarrow> byte" and i z
  proof -
    have "256 - i = Suc (255 - i)" using that by simp
    then show ?thesis by (simp add: list_update_append)
  qed
  have "\<exists>st. initVectorSAndT key keylen = Some st \<and> ?I 256 st"
    unfolding initVectorSAndT_def
    by (rule foldM_range_inv [where I = ?I])
      (auto simp: key fill [of _ "\<lambda>i. key ! (i mod keylen)"] fill [of _ word_of_nat])
  then show ?thesis by simp
qed

lemma schedule_step_length [simp]: "length (fst (schedule_step key keylen i st)) = length (fst st)"
  by (simp add: schedule_step_def split_beta Let_def)

lemma schedule_steps_length [simp]:
  "length (fst (fold (schedule_step key keylen) xs st)) = length (fst st)"
  by (induction xs arbitrary: st) simp_all

lemma length_rc4_schedule [simp]: "length (rc4_schedule key keylen) = 256"
  by (simp add: rc4_schedule_def)

lemma mset_schedule_steps:
  assumes "length (fst st) = 256" and "set xs \<subseteq> {0..<256}"
  shows "mset (fst (fold (schedule_step key keylen) xs st)) = mset (fst st)"
  using assms
proof (induction xs arbitrary: st)
  case Nil
  then show ?case by simp
next
  case (Cons x xs)
  then have "mset (fst (schedule_step key keylen x st)) = mset (fst st)"
    by (cases st) (simp add: schedule_step_def Let_def mset_exchange)
  then show ?case using Cons by simp
qed

lemma mset_rc4_schedule: "mset (rc4_schedule key keylen) = mset (map word_of_nat [0..<256])"
  unfolding rc4_schedule_def by (subst mset_schedule_steps) simp_all

lemma rangeVectorS_eq:
  "rangeVectorS (map word_of_nat [0..<256]) (map (\<lambda>i. key ! (i mod keylen)) [0..<256]) =
    Some (rc4_schedule key keylen)"
proof -
  let ?S0 = "map word_of_nat [0..<256] :: byte list"
  let ?I = "\<lambda>n st. st = fold (schedule_step key keylen) [0..<n] (?S0, 0)"
  have len: "length S = 256" if "?I n (S, j)" for n S j
    using schedule_steps_length [of key keylen "[0..<n]" "(?S0, 0)"] that
    by (metis fst_conv length_map length_upt diff_zero)
  have "\<exists>st. foldM (\<lambda>i (vectorS, j). do {
       s \<leftarrow> rd vectorS i;
       t \<leftarrow> rd (map (\<lambda>i. key ! (i mod keylen)) [0..<256]) i;
       let j = (j + unat s + unat t) mod 256;
       temp \<leftarrow> rd vectorS i;
       v \<leftarrow> rd vectorS j;
       vectorS \<leftarrow> wr vectorS i v;
       vectorS \<leftarrow> wr vectorS j temp;
       Some (vectorS, j)
     }) [0..<256] (?S0, 0) = Some st \<and> ?I 256 st"
  proof (rule foldM_range_inv [where I = ?I])
    fix i st
    assume i: "i < (256 :: nat)" and st: "?I i st"
    obtain S j where Sj: "st = (S, j)" by force
    then have "length S = 256" using len st by metis
    moreover have "fold (schedule_step key keylen) [0..<Suc i] (?S0, 0) = schedule_step key keylen i (S, j)"
      using st Sj by simp
    ultimately show "\<exists>s'. (case st of (vectorS, j) \<Rightarrow> do {
       s \<leftarrow> rd vectorS i;
       t \<leftarrow> rd (map (\<lambda>i. key ! (i mod keylen)) [0..<256]) i;
       let j = (j + unat s + unat t) mod 256;
       temp \<leftarrow> rd vectorS i;
       v \<leftarrow> rd vectorS j;
       vectorS \<leftarrow> wr vectorS i v;
       vectorS \<leftarrow> wr vectorS j temp;
       Some (vectorS, j)
     }) = Some s' \<and> ?I (Suc i) s'"
      using i unfolding Sj by (simp add: schedule_step_def Let_def exchange_def)
  qed simp_all
  then show ?thesis by (auto simp: rangeVectorS_def rc4_schedule_def split: prod.split)
qed

section \<open>The key stream\<close>

lemma stream_step_length [simp]: "length (fst (stream_step st)) = length (fst st)"
  by (simp add: stream_step_def split_beta Let_def)

lemma stream_steps_length [simp]: "length (fst ((stream_step ^^ n) st)) = length (fst st)"
  by (induction n) simp_all

lemma genCipherStream_eq:
  assumes "length S = 256"
  shows "genCipherStream n S = Some (map (stream_byte S) [0..<n])"
proof -
  let ?I = "\<lambda>k st. st = (map (stream_byte S) [0..<k] @ replicate (n - k) 0, (stream_step ^^ k) (S, 0, 0))"
  have "\<exists>st. foldM (\<lambda>cnt (stream, vectorS, i, j). do {
       let i = (i + 1) mod 256;
       s \<leftarrow> rd vectorS i;
       let j = (j + unat s) mod 256;
       temp \<leftarrow> rd vectorS i;
       v \<leftarrow> rd vectorS j;
       vectorS \<leftarrow> wr vectorS i v;
       vectorS \<leftarrow> wr vectorS j temp;
       a \<leftarrow> rd vectorS i;
       b \<leftarrow> rd vectorS j;
       let idx = (unat a + unat b) mod 256;
       x \<leftarrow> rd vectorS idx;
       stream \<leftarrow> wr stream cnt x;
       Some (stream, vectorS, i, j)
     }) [0..<n] (replicate n 0, S, 0, 0) = Some st \<and> ?I n st"
  proof (rule foldM_range_inv [where I = ?I])
    fix k st
    assume k: "k < n" and st: "?I k st"
    obtain V i j where V: "(stream_step ^^ k) (S, 0, 0) = (V, i, j)" by (metis prod_cases3)
    then have l: "length V = 256"
      using stream_steps_length [of k "(S, 0, 0)"] assms by simp
    have "n - k = Suc (n - Suc k)" using k by simp
    then have fill: "(map (stream_byte S) [0..<k] @ replicate (n - k) 0)[k := stream_byte S k] =
        map (stream_byte S) [0..<Suc k] @ replicate (n - Suc k) 0"
      by (simp add: list_update_append)
    have step: "(stream_step ^^ Suc k) (S, 0, 0) = stream_step (V, i, j)" using V by simp
    have out: "stream_byte S k = stream_out (stream_step (V, i, j))"
      unfolding stream_byte_def step ..
    show "\<exists>s'. (case st of (stream, vectorS, i, j) \<Rightarrow> do {
       let i = (i + 1) mod 256;
       s \<leftarrow> rd vectorS i;
       let j = (j + unat s) mod 256;
       temp \<leftarrow> rd vectorS i;
       v \<leftarrow> rd vectorS j;
       vectorS \<leftarrow> wr vectorS i v;
       vectorS \<leftarrow> wr vectorS j temp;
       a \<leftarrow> rd vectorS i;
       b \<leftarrow> rd vectorS j;
       let idx = (unat a + unat b) mod 256;
       x \<leftarrow> rd vectorS idx;
       stream \<leftarrow> wr stream k x;
       Some (stream, vectorS, i, j)
     }) = Some s' \<and> ?I (Suc k) s'"
      unfolding st V step fill [symmetric] out using k l
      by (simp add: stream_step_def stream_out_def Let_def exchange_def)
  qed simp_all
  then show ?thesis by (auto simp: genCipherStream_def split: prod.split)
qed

lemma genCipherOrPlainTxt_eq:
  assumes "n \<le> length txt" and "length stream = n"
  shows "genCipherOrPlainTxt txt stream n = Some (map (\<lambda>i. txt ! i XOR stream ! i) [0..<n] @ drop n txt)"
proof -
  let ?I = "\<lambda>k t. t = map (\<lambda>i. txt ! i XOR stream ! i) [0..<k] @ drop k txt"
  have "\<exists>t. genCipherOrPlainTxt txt stream n = Some t \<and> ?I n t"
    unfolding genCipherOrPlainTxt_def
  proof (rule foldM_range_inv [where I = ?I])
    fix k t
    assume "k < n" and t: "?I k t"
    moreover from this assms have "drop k txt = txt ! k # drop (Suc k) txt" by (simp add: Cons_nth_drop_Suc)
    ultimately show "\<exists>s'. (do { a \<leftarrow> rd t k; b \<leftarrow> rd stream k; wr t k (a XOR b) }) = Some s' \<and> ?I (Suc k) s'"
      using assms by (simp add: nth_append list_update_append)
  qed simp_all
  then show ?thesis by simp
qed

lemma blockEncryptDecrypt_eq:
  assumes "good_key key keylen" and "mallocOk n" and "length blk = n"
  shows "blockEncryptDecrypt mallocOk key keylen blk n =
    Some (0, map (\<lambda>i. blk ! i XOR rc4_byte key keylen i) [0..<n])"
  using assms by (simp add: blockEncryptDecrypt_def initVectorSAndT_eq rangeVectorS_eq genCipherStream_eq
      genCipherOrPlainTxt_eq rc4_byte_def)

section \<open>Strings\<close>

text \<open>
  The key stream starts anew with every block of 1024 bytes. \<open>rc4_crypt key keylen n\<close> is what the
  program does to the first \<open>n\<close> bytes of a buffer.
\<close>

definition rc4_crypt :: "byte list \<Rightarrow> nat \<Rightarrow> nat \<Rightarrow> byte list \<Rightarrow> byte list" where
  "rc4_crypt key keylen n txt =
     map (\<lambda>i. txt ! i XOR rc4_byte key keylen (i mod 1024)) [0..<n] @ drop n txt"

lemma length_rc4_crypt [simp]: "n \<le> length txt \<Longrightarrow> length (rc4_crypt key keylen n txt) = length txt"
  by (simp add: rc4_crypt_def)

lemma rc4_crypt_0 [simp]: "rc4_crypt key keylen 0 txt = txt"
  by (simp add: rc4_crypt_def)

lemma rc4_crypt_split:
  assumes "1024 \<le> n" and "n \<le> length txt"
  shows "rc4_crypt key keylen n txt =
    map (\<lambda>i. txt ! i XOR rc4_byte key keylen i) [0..<1024] @ rc4_crypt key keylen (n - 1024) (drop 1024 txt)"
proof -
  let ?f = "\<lambda>i. txt ! i XOR rc4_byte key keylen (i mod 1024)"
  have "[0..<n] = [0..<1024] @ [1024..<1024 + (n - 1024)]"
    using assms upt_add_eq_append [of 0 1024 "n - 1024"] by simp
  moreover have "map ?f [1024..<1024 + (n - 1024)] = map (\<lambda>i. ?f (i + 1024)) [0..<n - 1024]"
    by (rule nth_equalityI) (simp_all add: add.commute)
  moreover have "map ?f [0..<1024] = map (\<lambda>i. txt ! i XOR rc4_byte key keylen i) [0..<1024]" by simp
  ultimately show ?thesis using assms by (simp add: rc4_crypt_def add.commute)
qed

lemma rc4_crypt_involution:
  assumes "n \<le> length txt"
  shows "rc4_crypt key keylen n (rc4_crypt key keylen n txt) = txt"
  using assms by (auto simp: rc4_crypt_def nth_append list_eq_iff_nth xor.assoc)

lemma cryptStringLoop_block:
  assumes "length pre = c * 1024" and "0 < n" and "m = min n 1024" and "m \<le> length rest"
    and "blockEncryptDecrypt mallocOk key keylen (take m rest) m = Some (0, blk)" and "length blk = m"
  shows "cryptStringLoop mallocOk key keylen (pre @ rest) c (int n) =
    cryptStringLoop mallocOk key keylen (pre @ blk @ drop m rest) (Suc c) (int n - 1024)"
proof -
  have len: "(if int n > int 1024 then 1024 else nat (int n)) = m" using assms(3) by simp
  have "rdn (pre @ rest) (c * 1024) m = Some (take m rest)" using assms(1,4) by simp
  moreover have "wrn (pre @ rest) (c * 1024) blk = Some (pre @ blk @ drop m rest)"
    using assms(1,4,6) by simp
  ultimately show ?thesis using assms(2,5) unfolding cryptStringLoop.simps [of _ _ _ "pre @ rest"] len Let_def
    by simp
qed

lemma cryptStringLoop_eq:
  assumes "good_key key keylen" and "\<And>n. mallocOk n"
  shows "length pre = c * 1024 \<Longrightarrow> n \<le> length rest \<Longrightarrow>
    cryptStringLoop mallocOk key keylen (pre @ rest) c (int n) = Some (0, pre @ rc4_crypt key keylen n rest)"
proof (induction n arbitrary: pre rest c rule: less_induct)
  case (less n)
  let ?f = "\<lambda>i. rest ! i XOR rc4_byte key keylen i"
  consider "n = 0" | "0 < n" "n \<le> 1024" | "1024 < n" by linarith
  then show ?case
  proof cases
    case 1
    then show ?thesis by (simp add: cryptStringLoop.simps)
  next
    case 2
    have blk: "blockEncryptDecrypt mallocOk key keylen (take n rest) n = Some (0, map ?f [0..<n])"
      using assms less.prems by (subst blockEncryptDecrypt_eq) simp_all
    have "cryptStringLoop mallocOk key keylen (pre @ map ?f [0..<n] @ drop n rest) (Suc c) (int n - 1024) =
        Some (0, pre @ map ?f [0..<n] @ drop n rest)"
      using 2 by (simp add: cryptStringLoop.simps)
    then show ?thesis
      using cryptStringLoop_block [OF less.prems(1) 2(1) _ _ blk] 2 less.prems by (simp add: rc4_crypt_def)
  next
    case 3
    let ?pre = "pre @ map ?f [0..<1024]"
    have blk: "blockEncryptDecrypt mallocOk key keylen (take 1024 rest) 1024 = Some (0, map ?f [0..<1024])"
      using assms 3 less.prems by (subst blockEncryptDecrypt_eq) simp_all
    have "cryptStringLoop mallocOk key keylen (?pre @ drop 1024 rest) (Suc c) (int (n - 1024)) =
        Some (0, ?pre @ rc4_crypt key keylen (n - 1024) (drop 1024 rest))"
      by (rule less.IH) (use 3 less.prems in simp_all)
    moreover have "cryptStringLoop mallocOk key keylen (pre @ rest) c (int n) =
        cryptStringLoop mallocOk key keylen (pre @ map ?f [0..<1024] @ drop 1024 rest) (Suc c) (int n - 1024)"
      by (rule cryptStringLoop_block [OF less.prems(1) _ _ _ blk]) (use 3 less.prems in simp_all)
    moreover have "int n - 1024 = int (n - 1024)" using 3 by simp
    moreover have "rc4_crypt key keylen n rest =
        map ?f [0..<1024] @ rc4_crypt key keylen (n - 1024) (drop 1024 rest)"
      by (rule rc4_crypt_split) (use 3 less.prems in simp_all)
    ultimately show ?thesis by (metis append.assoc)
  qed
qed

lemma good_key_format: "good_key key keylen \<Longrightarrow> isRightFormatKey (Some key) (to_int32 keylen)"
  by (simp add: good_key_def isRightFormatKey_def)

lemma cryptString_eq:
  assumes "good_key key keylen" and "\<And>n. mallocOk n" and "n \<le> length txt"
  shows "moCrypt_RC4_cryptString mallocOk (Some key) keylen (Some txt) (int n) =
    Some (0, Some (rc4_crypt key keylen n txt))"
proof -
  have "cryptStringLoop mallocOk key keylen txt 0 (int n) = Some (0, rc4_crypt key keylen n txt)"
    using cryptStringLoop_eq [where pre = "[]" and c = 0 and rest = "txt", OF assms(1,2)] assms(3)
    unfolding append_Nil by simp
  then show ?thesis using good_key_format [OF assms(1)] by (simp add: moCrypt_RC4_cryptString_def)
qed

section \<open>Files\<close>

text \<open>The trace of a run: 0, 5, 10, a figure for every block, 95, 100.\<close>

definition run_trace :: "os \<Rightarrow> bool \<Rightarrow> string \<Rightarrow> nat \<Rightarrow> int list" where
  "run_trace os hasFunc src n =
     (if hasFunc
      then [0, 5, 10] @ map (\<lambda>i. os_percent os (Suc i) (moUtils_File_getSize (os_lstat os) (Some src))) [0..<n] @
        [95, 100]
      else [])"

lemma cryptFileLoop_eq:
  assumes "good_key key keylen" and "\<And>n. os_malloc os n"
  shows "(\<And>b. b \<in> set bs \<Longrightarrow> length b \<le> 1024) \<Longrightarrow>
    cryptFileLoop os key keylen hasFunc sz bs k out trace =
      Some (0, out @ concat (map (\<lambda>b. rc4_crypt key keylen (length b) b) bs),
        trace @ (if hasFunc then map (\<lambda>i. os_percent os (Suc i) sz) [k..<k + length bs] else []))"
proof (induction bs arbitrary: k out trace)
  case Nil
  then show ?case by simp
next
  case (Cons b bs)
  let ?buf = "b @ replicate (1024 - length b) 0"
  have crypt: "rc4_crypt key keylen (length b) ?buf =
      rc4_crypt key keylen (length b) b @ replicate (1024 - length b) 0"
    by (simp add: rc4_crypt_def nth_append)
  have "moCrypt_RC4_cryptString (os_malloc os) (Some key) keylen (Some ?buf) (int (length b)) =
      Some (0, Some (rc4_crypt key keylen (length b) b @ replicate (1024 - length b) 0))"
    using cryptString_eq [OF assms, of "length b" ?buf] crypt by simp
  moreover have "[k..<k + length (b # bs)] = k # [Suc k..<Suc k + length bs]"
    by (subst upt_conv_Cons) simp_all
  ultimately show ?case using Cons.IH Cons.prems by (simp add: Let_def setProgress_def)
qed

lemma rc4_crypt_blocks:
  "concat (map (\<lambda>b. rc4_crypt key keylen (length b) b) (blocks_of 1024 x)) = rc4_crypt key keylen (length x) x"
proof (induction x rule: length_induct)
  case (1 x)
  consider "x = []" | "x \<noteq> []" "length x \<le> 1024" | "1024 < length x" by linarith
  then show ?case
  proof cases
    case 2
    then show ?thesis by (simp add: blocks_of_step)
  next
    case 3
    then have "x \<noteq> []" by auto
    moreover have "rc4_crypt key keylen 1024 (take 1024 x) =
        map (\<lambda>i. x ! i XOR rc4_byte key keylen i) [0..<1024]"
      using 3 by (simp add: rc4_crypt_def)
    moreover have "concat (map (\<lambda>b. rc4_crypt key keylen (length b) b) (blocks_of 1024 (drop 1024 x))) =
        rc4_crypt key keylen (length x - 1024) (drop 1024 x)"
      using 1 3 by simp
    moreover have "min (length x) 1024 = 1024" using 3 by simp
    ultimately show ?thesis using rc4_crypt_split [of "length x" x key keylen] 3 by (simp add: blocks_of_step)
  qed simp
qed

lemma cryptFileBlockly_eq:
  assumes "good_key key keylen" and "\<And>n. os_malloc os n" and "0 \<le> sz"
  shows "cryptFileBlockly os x sz key keylen hasFunc trace =
    Some (0, rc4_crypt key keylen (length x) x,
      trace @ (if hasFunc then map (\<lambda>i. os_percent os (Suc i) sz) [0..<length (blocks_of 1024 x)] else []))"
  using assms(3) cryptFileLoop_eq [OF assms(1,2), of "blocks_of 1024 x" hasFunc sz 0 "[]" trace]
  by (simp add: cryptFileBlockly_def rc4_crypt_blocks blocks_of_length)

text \<open>The operations of a run that are expected to succeed, and the files as the run leaves them.\<close>

definition runs :: "os \<Rightarrow> string \<Rightarrow> byte list \<Rightarrow> nat \<Rightarrow> bool" where
  "runs os src key keylen \<longleftrightarrow> good_key key keylen \<and> (\<forall>n. os_malloc os n) \<and> os_thread os \<and>
     0 \<le> moUtils_File_getSize (os_lstat os) (Some src)"

lemma cryptFile_diff:
  assumes "runs os src key keylen" and "fs src = Some x" and "os_writable os dst"
    and "moUtils_File_getFilepathSameState (os_malloc os) (os_stat os) (os_popen os) (Some src) (Some dst)
      (Some MOUTILS_FILE_ABSPATH_STATE_ERR) = Some (0, MOUTILS_FILE_ABSPATH_STATE_DIFF)"
  shows "cryptFile os src dst key keylen hasFunc (fs, trace) =
    Some (0, fs(dst \<mapsto> rc4_crypt key keylen (length x) x),
      trace @ run_trace os hasFunc src (length (blocks_of 1024 x)))"
  using assms cryptFileBlockly_eq [of key keylen os "moUtils_File_getSize (os_lstat os) (Some src)" x hasFunc]
  by (simp add: cryptFile_def runs_def Let_def setProgress_def run_trace_def)

lemma cryptFile_same:
  assumes "runs os src key keylen" and "fs src = Some x" and "os_writable os src" and "os_writable os tmp"
    and "genTempDstFilepath os (Some src) = Some tmp"
  shows "cryptFile os src src key keylen hasFunc (fs, trace) =
    Some (0, fs(tmp \<mapsto> rc4_crypt key keylen (length x) x, src \<mapsto> x),
      trace @ run_trace os hasFunc src (length (blocks_of 1024 x)))"
  using assms cryptFileBlockly_eq [of key keylen os "moUtils_File_getSize (os_lstat os) (Some src)" x hasFunc]
  by (simp add: cryptFile_def runs_def Let_def setProgress_def run_trace_def copyContentsToDstfile_def
      moUtils_File_getFilepathSameState_def)

lemma moCrypt_RC4_cryptFile_eq:
  assumes "runs os (pSrcFilepath info) (pKey info) (keyLen info)"
    and "cryptFile os (pSrcFilepath info) (pDstFilepath info) (pKey info) (keyLen info) (pCallback info) st =
      Some (0, st')"
  shows "moCrypt_RC4_cryptFile os (Some info) st = Some (0, st')"
  using assms good_key_format
  by (cases "pCallback info") (simp_all add: moCrypt_RC4_cryptFile_def runs_def)

lemma genTempDstFilepath_ends:
  assumes "genTempDstFilepath os (Some p) = Some tmp"
  shows "tmp \<noteq> p"
proof -
  have "length tmp > length p"
    using assms strrchr_Some [of p "CHR ''/''"]
    by (fastforce simp: genTempDstFilepath_def getFileNameDirFromPath_def Let_def
        split: if_splits option.splits)
  then show ?thesis by auto
qed

text \<open>A key for the examples.\<close>

definition sample_key :: "byte list" where
  "sample_key = [75, 101, 121]"

lemma sample_key_good: "good_key sample_key 3"
  by (simp add: good_key_def sample_key_def)

text \<open>
  C9. Encrypting and decrypting a string is the XOR with the RC4 key stream of the key, where the
  stream starts again at every block of 1024 bytes: byte \<open>i\<close> is combined with stream byte
  \<open>i mod 1024\<close>. Bytes after \<open>txtLen\<close> are untouched.
\<close>

theorem moCrypt_RC4_cryptString_stream:
  assumes "0 < keylen" and "keylen \<le> 256" and "keylen \<le> length key" and "\<And>n. mallocOk n"
    and "n \<le> length txt"
  shows "\<exists>txt'. moCrypt_RC4_cryptString mallocOk (Some key) keylen (Some txt) (int n) = Some (0, Some txt') \<and>
    length txt' = length txt \<and> drop n txt' = drop n txt \<and>
    (\<forall>i<n. txt' ! i = txt ! i XOR rc4_byte key keylen (i mod 1024))"
proof -
  have "good_key key keylen" using assms(1-3) by (simp add: good_key_def)
  then show ?thesis
    using cryptString_eq [OF _ assms(4,5)] assms(5) by (auto simp: rc4_crypt_def nth_append)
qed

theorem moCrypt_RC4_cryptString_stream_witness:
  "\<exists>txt'. moCrypt_RC4_cryptString (\<lambda>_. True) (Some sample_key) 3 (Some (replicate 1025 0)) 1025 =
      Some (0, Some txt') \<and> txt' ! 1024 = txt' ! 0"
proof -
  have key: "3 \<le> length sample_key" by (simp add: sample_key_def)
  have i: "(1025 :: int) = int 1025" by simp
  show ?thesis unfolding i
    using moCrypt_RC4_cryptString_stream [of 3 sample_key "\<lambda>_. True" 1025 "replicate 1025 0"] key
    by (fastforce simp del: replicate.simps of_nat_numeral)
qed

text \<open>
  Encryption is its own inverse: applying it twice with one key restores the string.
\<close>

theorem moCrypt_RC4_cryptString_roundtrip:
  assumes "0 < keylen" and "keylen \<le> 256" and "keylen \<le> length key" and "\<And>n. mallocOk n"
    and "n \<le> length txt"
  shows "\<exists>c. moCrypt_RC4_cryptString mallocOk (Some key) keylen (Some txt) (int n) = Some (0, Some c) \<and>
    moCrypt_RC4_cryptString mallocOk (Some key) keylen (Some c) (int n) = Some (0, Some txt)"
proof -
  have k: "good_key key keylen" using assms(1-3) by (simp add: good_key_def)
  show ?thesis
    using cryptString_eq [OF k assms(4,5)] cryptString_eq [OF k assms(4), of n "rc4_crypt key keylen n txt"]
      assms(5) rc4_crypt_involution by simp
qed

theorem moCrypt_RC4_cryptString_roundtrip_witness:
  "\<exists>c. moCrypt_RC4_cryptString (\<lambda>_. True) (Some sample_key) 3 (Some [1, 2, 3]) (int 2) = Some (0, Some c) \<and>
    moCrypt_RC4_cryptString (\<lambda>_. True) (Some sample_key) 3 (Some c) (int 2) = Some (0, Some [1, 2, 3])"
  by (rule moCrypt_RC4_cryptString_roundtrip) (simp_all add: sample_key_def)

text \<open>
  The state vector is a permutation of the 256 byte values after the key schedule, and stays one
  while the key stream is generated, so that every byte of the stream is read from inside it.
\<close>

theorem rangeVectorS_permutes:
  assumes "0 < keylen" and "keylen \<le> 256" and "keylen \<le> length key"
  shows "\<exists>S T S'. initVectorSAndT key keylen = Some (S, T) \<and> rangeVectorS S T = Some S' \<and>
    mset S' = mset (map word_of_nat [0..<256]) \<and>
    mset (fst ((stream_step ^^ n) (S', 0, 0))) = mset (map word_of_nat [0..<256])"
proof -
  have "good_key key keylen" using assms by (simp add: good_key_def)
  moreover have "mset (fst ((stream_step ^^ n) (S, 0, 0))) = mset S" if "length S = 256" for S
  proof (induction n)
    case (Suc n)
    obtain V i j where V: "(stream_step ^^ n) (S, 0, 0) = (V, i, j)" by (metis prod_cases3)
    then have "length V = 256" using stream_steps_length [of n "(S, 0, 0)"] that by simp
    then show ?case using Suc V by (simp add: stream_step_def Let_def mset_exchange)
  qed simp
  ultimately show ?thesis using initVectorSAndT_eq rangeVectorS_eq mset_rc4_schedule by simp
qed

theorem rangeVectorS_permutes_witness:
  "\<exists>S T S'. initVectorSAndT sample_key 3 = Some (S, T) \<and> rangeVectorS S T = Some S' \<and>
    mset S' = mset (map word_of_nat [0..<256])"
  using rangeVectorS_permutes [of 3 sample_key 0] by (auto simp: sample_key_def)

definition sample_info :: "string \<Rightarrow> string \<Rightarrow> MOCRYPT_RC4_FILEINFO" where
  "sample_info src dst = \<lparr>pSrcFilepath = src, pDstFilepath = dst, pKey = sample_key, keyLen = 3, pCallback = False\<rparr>"

lemma sample_os_runs: "runs sample_os src sample_key 3"
  using sample_key_good by (simp add: runs_def sample_os_def moUtils_File_getSize_def isFile_def)

text \<open>
  A file is encrypted to another file as one string is, with the key stream restarting every
  1024 bytes, whether or not a callback makes the work run in a thread; the callback sees the
  progress in order. Encrypting the result to a third file restores the content.
\<close>

theorem moCrypt_RC4_cryptFile_roundtrip:
  assumes "runs os (pSrcFilepath i) (pKey i) (keyLen i)" and "runs os (pSrcFilepath j) (pKey j) (keyLen j)"
    and "pKey j = pKey i" and "keyLen j = keyLen i" and "pSrcFilepath j = pDstFilepath i"
    and "fs (pSrcFilepath i) = Some x" and "os_writable os (pDstFilepath i)" and "os_writable os (pDstFilepath j)"
    and "\<And>k. k \<in> {i, j} \<Longrightarrow> moUtils_File_getFilepathSameState (os_malloc os) (os_stat os) (os_popen os)
      (Some (pSrcFilepath k)) (Some (pDstFilepath k)) (Some MOUTILS_FILE_ABSPATH_STATE_ERR) =
      Some (0, MOUTILS_FILE_ABSPATH_STATE_DIFF)"
  shows "\<exists>c. moCrypt_RC4_cryptString (os_malloc os) (Some (pKey i)) (keyLen i) (Some x) (int (length x)) =
      Some (0, Some c) \<and>
    moCrypt_RC4_cryptFile os (Some i) (fs, trace) = Some (0, fs(pDstFilepath i \<mapsto> c),
      trace @ run_trace os (pCallback i) (pSrcFilepath i) (length (blocks_of 1024 x))) \<and>
    moCrypt_RC4_cryptFile os (Some j) (fs(pDstFilepath i \<mapsto> c), trace) =
      Some (0, fs(pDstFilepath i \<mapsto> c, pDstFilepath j \<mapsto> x),
        trace @ run_trace os (pCallback j) (pSrcFilepath j) (length (blocks_of 1024 c)))"
proof -
  let ?c = "rc4_crypt (pKey i) (keyLen i) (length x) x"
  have undo: "rc4_crypt (pKey i) (keyLen i) (length ?c) ?c = x"
    using rc4_crypt_involution [of "length x" x] by simp
  have k: "good_key (pKey i) (keyLen i)" and m: "\<And>n. os_malloc os n" using assms(1) by (auto simp: runs_def)
  have i: "moUtils_File_getFilepathSameState (os_malloc os) (os_stat os) (os_popen os)
      (Some (pSrcFilepath i)) (Some (pDstFilepath i)) (Some MOUTILS_FILE_ABSPATH_STATE_ERR) =
      Some (0, MOUTILS_FILE_ABSPATH_STATE_DIFF)"
    and j: "moUtils_File_getFilepathSameState (os_malloc os) (os_stat os) (os_popen os)
      (Some (pSrcFilepath j)) (Some (pDstFilepath j)) (Some MOUTILS_FILE_ABSPATH_STATE_ERR) =
      Some (0, MOUTILS_FILE_ABSPATH_STATE_DIFF)"
    using assms(9) by blast+
  have "moCrypt_RC4_cryptFile os (Some i) (fs, trace) = Some (0, fs(pDstFilepath i \<mapsto> ?c),
      trace @ run_trace os (pCallback i) (pSrcFilepath i) (length (blocks_of 1024 x)))"
    by (rule moCrypt_RC4_cryptFile_eq [OF assms(1)]) (rule cryptFile_diff [where fs = fs and x = x, OF assms(1,6,7) i])
  moreover have "moCrypt_RC4_cryptFile os (Some j) (fs(pDstFilepath i \<mapsto> ?c), trace) =
      Some (0, fs(pDstFilepath i \<mapsto> ?c, pDstFilepath j \<mapsto> x),
        trace @ run_trace os (pCallback j) (pSrcFilepath j) (length (blocks_of 1024 ?c)))"
    by (rule moCrypt_RC4_cryptFile_eq [OF assms(2)])
      (use cryptFile_diff [where fs = "fs(pDstFilepath i \<mapsto> ?c)" and x = ?c, OF assms(2) _ assms(8) j] assms(3-5) undo in simp)
  ultimately show ?thesis using cryptString_eq [OF k m, of "length x" x] by simp
qed

theorem moCrypt_RC4_cryptFile_roundtrip_witness:
  "\<exists>c. moCrypt_RC4_cryptFile sample_os (Some (sample_info ''a'' ''b'')) (Map.empty(''a'' \<mapsto> [7]), []) =
      Some (0, Map.empty(''a'' \<mapsto> [7], ''b'' \<mapsto> c), []) \<and>
    moCrypt_RC4_cryptFile sample_os (Some (sample_info ''b'' ''c'')) (Map.empty(''a'' \<mapsto> [7], ''b'' \<mapsto> c), []) =
      Some (0, Map.empty(''a'' \<mapsto> [7], ''b'' \<mapsto> c, ''c'' \<mapsto> [7]), [])"
proof -
  have d: "moUtils_File_getFilepathSameState (os_malloc sample_os) (os_stat sample_os) (os_popen sample_os)
      (Some x) (Some y) (Some MOUTILS_FILE_ABSPATH_STATE_ERR) = Some (0, MOUTILS_FILE_ABSPATH_STATE_DIFF)"
    if "(x, y) \<in> {(''a'', ''b''), (''b'', ''c'')}" for x y
    using that by (elim insertE) (simp_all, code_simp+)
  have w: "os_writable sample_os p" for p by (simp add: sample_os_def)
  show ?thesis
    using moCrypt_RC4_cryptFile_roundtrip [of sample_os "sample_info ''a'' ''b''" "sample_info ''b'' ''c''"
        "Map.empty(''a'' \<mapsto> [7])" "[7]" "[]"] sample_os_runs w d
    by (force simp: sample_info_def run_trace_def)
qed

text \<open>
  In place nothing is encrypted: when source and destination are one file, the call reports
  success, the file keeps its content, and the encrypted content stays behind in a file whose name
  has the prefix \<open>temp_\<close>. The temporary file is opened for writing only, so copying it back reads
  nothing.
\<close>

theorem moCrypt_RC4_cryptFile_in_place:
  assumes "runs os (pSrcFilepath i) (pKey i) (keyLen i)" and "pDstFilepath i = pSrcFilepath i"
    and "genTempDstFilepath os (Some (pSrcFilepath i)) = Some tmp"
    and "fs (pSrcFilepath i) = Some x" and "os_writable os (pSrcFilepath i)" and "os_writable os tmp"
  shows "\<exists>c tr. moCrypt_RC4_cryptString (os_malloc os) (Some (pKey i)) (keyLen i) (Some x) (int (length x)) =
      Some (0, Some c) \<and>
    moCrypt_RC4_cryptFile os (Some i) (fs, trace) = Some (0, fs(tmp \<mapsto> c), tr)"
proof -
  let ?c = "rc4_crypt (pKey i) (keyLen i) (length x) x"
  let ?tr = "trace @ run_trace os (pCallback i) (pSrcFilepath i) (length (blocks_of 1024 x))"
  have k: "good_key (pKey i) (keyLen i)" and m: "\<And>n. os_malloc os n" using assms(1) by (auto simp: runs_def)
  have "fs(tmp \<mapsto> ?c, pSrcFilepath i \<mapsto> x) = fs(tmp \<mapsto> ?c)"
    using assms(4) genTempDstFilepath_ends [OF assms(3)] by (metis fun_upd_triv fun_upd_twist)
  then have "moCrypt_RC4_cryptFile os (Some i) (fs, trace) = Some (0, fs(tmp \<mapsto> ?c), ?tr)"
    by (intro moCrypt_RC4_cryptFile_eq [OF assms(1)])
      (use cryptFile_same [where fs = fs and x = x and tmp = tmp, OF assms(1,4,5,6,3)] assms(2) in simp)
  then show ?thesis using cryptString_eq [OF k m, of "length x" x] by simp
qed

theorem moCrypt_RC4_cryptFile_in_place_witness:
  "\<exists>c tr. moCrypt_RC4_cryptFile sample_os (Some (sample_info ''a'' ''a'')) (Map.empty(''a'' \<mapsto> [7]), []) =
      Some (0, Map.empty(''a'' \<mapsto> [7], ''temp_a'' \<mapsto> c), tr)"
proof -
  have t: "genTempDstFilepath sample_os (Some ''a'') = Some ''temp_a''" by code_simp
  have w: "os_writable sample_os p" for p by (simp add: sample_os_def)
  show ?thesis
    using moCrypt_RC4_cryptFile_in_place [of sample_os "sample_info ''a'' ''a''" "''temp_a''"
        "Map.empty(''a'' \<mapsto> [7])" "[7]" "[]"] sample_os_runs t w
    by (force simp: sample_info_def)
qed

end
