(* ===== verification/MoTaskQueue.thy ===== *)
theory MoTaskQueue
  imports MoFifo
begin

text \<open>
  The task queue of the thread pool, \<open>moSdk/Utils/ThreadPool/src/taskQueue.c\<close>: a doubly linked list
  on an explicit heap, with new tasks added at the head and taken at the tail.

  A pointer is \<open>None\<close> or the address of a node, and the heap maps the addresses of allocated nodes
  to their contents. An access to an address that is not allocated has no defined result. What
  \<open>malloc\<close> returns is an argument (\<open>None\<close> when it fails). The code between \<open>pthread_mutex_lock\<close> and
  \<open>pthread_mutex_unlock\<close> is one step. A task is a function pointer and its argument, both numbers
  here because the queue never looks at them.
\<close>

type_synonym addr = nat

record MOUTILS_TP_TASKINFO =
  pTaskFunc :: nat
  args4TaskFunc :: nat

record TASKNODE =
  taskInfo :: MOUTILS_TP_TASKINFO
  prev_node :: "addr option"
  next_node :: "addr option"

type_synonym heap = "addr \<Rightarrow> TASKNODE option"

record TASKDQUEUE =
  head :: "addr option"
  tail :: "addr option"
  taskNum :: nat
  sem :: nat

abbreviation (input) MOUTILS_TP_ERR_OK :: int where
  "MOUTILS_TP_ERR_OK \<equiv> 0"

abbreviation (input) MOUTILS_TP_ERR_INPUTPARAMNULL :: int where
  "MOUTILS_TP_ERR_INPUTPARAMNULL \<equiv> -10000"

abbreviation (input) MOUTILS_TP_ERR_MALLOCFAILED :: int where
  "MOUTILS_TP_ERR_MALLOCFAILED \<equiv> -10003"

abbreviation (input) MOUTILS_TP_ERR_MUTEXINITFAILED :: int where
  "MOUTILS_TP_ERR_MUTEXINITFAILED \<equiv> -10005"

abbreviation (input) MOUTILS_TP_ERR_SEMINITFAILED :: int where
  "MOUTILS_TP_ERR_SEMINITFAILED \<equiv> -10004"

section \<open>The operations\<close>

text \<open>Semaphores count up to \<open>SEM_VALUE_MAX\<close>; \<open>sem_post\<close> fails beyond it and its result is not used.\<close>

abbreviation (input) SEM_VALUE_MAX :: nat where
  "SEM_VALUE_MAX \<equiv> 2147483647"

definition sem_post :: "TASKDQUEUE \<Rightarrow> TASKDQUEUE" where
  "sem_post q = (if sem q < SEM_VALUE_MAX then q\<lparr>sem := sem q + 1\<rparr> else q)"

definition free_node :: "addr \<Rightarrow> heap \<Rightarrow> heap option" where
  "free_node a h = (case h a of None \<Rightarrow> None | Some _ \<Rightarrow> Some (h(a := None)))"

text \<open>\<open>mutexOk\<close> and \<open>semOk\<close> say whether \<open>pthread_mutex_init\<close> and \<open>sem_init\<close> succeed.\<close>

definition taskQueueInit :: "bool \<Rightarrow> bool \<Rightarrow> TASKDQUEUE option \<Rightarrow> int \<times> TASKDQUEUE option" where
  "taskQueueInit mutexOk semOk pQueue =
     (case pQueue of
        None \<Rightarrow> (MOUTILS_TP_ERR_INPUTPARAMNULL, None)
      | Some q \<Rightarrow>
          if \<not> mutexOk then (MOUTILS_TP_ERR_MUTEXINITFAILED, Some q)
          else if \<not> semOk then (MOUTILS_TP_ERR_SEMINITFAILED, Some q)
          else (MOUTILS_TP_ERR_OK, Some (q\<lparr>head := None, tail := None, taskNum := 0, sem := 0\<rparr>)))"

partial_function (option) freeNodes :: "addr option \<Rightarrow> heap \<Rightarrow> heap option" where
  "freeNodes pCurNode h =
     (case pCurNode of
        None \<Rightarrow> Some h
      | Some a \<Rightarrow>
          (case h a of
             None \<Rightarrow> None
           | Some n \<Rightarrow> freeNodes (next_node n) (h(a := None))))"

declare freeNodes.simps [code]

definition taskQueueUnInit :: "TASKDQUEUE option \<Rightarrow> heap \<Rightarrow> heap option" where
  "taskQueueUnInit pQueue h = (case pQueue of None \<Rightarrow> Some h | Some q \<Rightarrow> freeNodes (head q) h)"

text \<open>The critical section of \<open>taskQueueAddTask\<close>, for the new node \<open>pNewNode\<close>.\<close>

definition addNode ::
    "addr \<Rightarrow> MOUTILS_TP_TASKINFO \<Rightarrow> TASKDQUEUE \<times> heap \<Rightarrow> (TASKDQUEUE \<times> heap) option" where
  "addNode pNewNode info = (\<lambda>(q, h).
     let new = \<lparr>taskInfo = info, prev_node = None, next_node = None\<rparr> in
     (case head q of
        None \<Rightarrow> Some (q\<lparr>head := Some pNewNode, tail := Some pNewNode, taskNum := 1\<rparr>, h(pNewNode \<mapsto> new))
      | Some cur \<Rightarrow>
          let h = h(pNewNode \<mapsto> new\<lparr>next_node := Some cur\<rparr>) in
          (case h cur of
             None \<Rightarrow> None
           | Some n \<Rightarrow> Some (q\<lparr>head := Some pNewNode, taskNum := wrap32 (taskNum q + 1)\<rparr>,
               h(cur \<mapsto> n\<lparr>prev_node := Some pNewNode\<rparr>)))))"

definition taskQueueAddTask ::
    "addr option \<Rightarrow> MOUTILS_TP_TASKINFO \<Rightarrow> TASKDQUEUE option \<Rightarrow> heap \<Rightarrow>
     (int \<times> TASKDQUEUE option \<times> heap) option" where
  "taskQueueAddTask newNode info pQueue h =
     (case pQueue of
        None \<Rightarrow> Some (MOUTILS_TP_ERR_INPUTPARAMNULL, None, h)
      | Some q \<Rightarrow>
          (case newNode of
             None \<Rightarrow> Some (MOUTILS_TP_ERR_MALLOCFAILED, Some q, h)
           | Some a \<Rightarrow> do {
               (q, h) \<leftarrow> addNode a info (q, h);
               Some (MOUTILS_TP_ERR_OK, Some (sem_post q), h)
             }))"

text \<open>The node at the tail is unlinked but not changed; the code that runs the task frees it.\<close>

definition taskQueueGetTask ::
    "TASKDQUEUE option \<Rightarrow> heap \<Rightarrow> (addr option \<times> TASKDQUEUE option) option" where
  "taskQueueGetTask pQueue h =
     (case pQueue of
        None \<Rightarrow> Some (None, None)
      | Some q \<Rightarrow>
          (case tail q of
             None \<Rightarrow> Some (None, Some q)
           | Some pLastNode \<Rightarrow> do {
               n \<leftarrow> h pLastNode;
               (case prev_node n of
                  None \<Rightarrow> Some (Some pLastNode, Some (q\<lparr>head := None, tail := None, taskNum := 0\<rparr>))
                | Some p \<Rightarrow> Some (Some pLastNode,
                    Some (q\<lparr>tail := Some p, taskNum := wrap32 (taskNum q + (2 ^ 32 - 1))\<rparr>)))
             }))"

section \<open>The list of nodes\<close>

text \<open>
  \<open>dlist h p as\<close>: the addresses \<open>as\<close> are linked in both directions, the first one back to \<open>p\<close>. The
  forward link of the last node is free: \<open>taskQueueGetTask\<close> leaves it pointing to the node it has
  unlinked.
\<close>

fun dlist :: "heap \<Rightarrow> addr option \<Rightarrow> addr list \<Rightarrow> bool" where
  "dlist h p [] = True"
| "dlist h p (a # as) =
     (case h a of
        None \<Rightarrow> False
      | Some n \<Rightarrow> prev_node n = p \<and> (as \<noteq> [] \<longrightarrow> next_node n = Some (hd as)) \<and> dlist h (Some a) as)"

definition queue_of :: "TASKDQUEUE \<Rightarrow> heap \<Rightarrow> addr list \<Rightarrow> bool" where
  "queue_of q h as \<longleftrightarrow> distinct as \<and> dlist h None as \<and>
     head q = (if as = [] then None else Some (hd as)) \<and>
     tail q = (if as = [] then None else Some (last as)) \<and> taskNum q = wrap32 (length as)"

text \<open>The waiting tasks, in the order in which they were added.\<close>

definition tasks_of :: "heap \<Rightarrow> addr list \<Rightarrow> MOUTILS_TP_TASKINFO list" where
  "tasks_of h as = map (\<lambda>a. taskInfo (the (h a))) (rev as)"

lemma dlist_alloc: "dlist h p as \<Longrightarrow> a \<in> set as \<Longrightarrow> h a \<noteq> None"
  by (induction as arbitrary: p) (auto split: option.splits)

lemma dlist_cong: "(\<And>a. a \<in> set as \<Longrightarrow> h' a = h a) \<Longrightarrow> dlist h' p as = dlist h p as"
  by (induction as arbitrary: p) (auto split: option.splits)

lemma dlist_snoc:
  "dlist h p (as @ [a]) \<longleftrightarrow> dlist h p as \<and> (case h a of None \<Rightarrow> False
     | Some n \<Rightarrow> prev_node n = (if as = [] then p else Some (last as))) \<and>
     (as \<noteq> [] \<longrightarrow> (\<exists>n. h (last as) = Some n \<and> next_node n = Some a))"
  by (induction as arbitrary: p) (auto split: option.splits)

lemma queue_of_alloc: "queue_of q h as \<Longrightarrow> a \<in> set as \<Longrightarrow> h a \<noteq> None"
  unfolding queue_of_def using dlist_alloc by blast

lemma queue_of_cong: "(\<And>a. a \<in> set as \<Longrightarrow> h' a = h a) \<Longrightarrow> queue_of q h' as = queue_of q h as"
  using dlist_cong [of as h' h] by (simp add: queue_of_def)

lemma tasks_of_cong: "(\<And>a. a \<in> set as \<Longrightarrow> h' a = h a) \<Longrightarrow> tasks_of h' as = tasks_of h as"
  by (simp add: tasks_of_def)

lemma frame_simps [simp]:
  assumes "a \<notin> set as"
  shows "dlist (h(a := v)) p as = dlist h p as" and "queue_of q (h(a := v)) as = queue_of q h as"
    and "tasks_of (h(a := v)) as = tasks_of h as"
  using assms by (auto intro!: dlist_cong queue_of_cong tasks_of_cong)

lemma queue_of_sem_post [simp]: "queue_of (sem_post q) h as = queue_of q h as"
  by (simp add: queue_of_def sem_post_def)

lemma queue_of_sem [simp]: "queue_of (q\<lparr>sem := n\<rparr>) h as = queue_of q h as"
  by (simp add: queue_of_def)

lemma wrap32_Suc: "wrap32 (wrap32 n + 1) = wrap32 (Suc n)"
  by (simp add: wrap32_def mod_Suc_eq)

lemma wrap32_pred: "wrap32 (wrap32 (Suc n) + (2 ^ 32 - 1)) = wrap32 n"
proof -
  have "wrap32 (wrap32 (Suc n) + (2 ^ 32 - 1)) = wrap32 (Suc n + (2 ^ 32 - 1))"
    unfolding wrap32_def by (rule mod_add_left_eq)
  also have "Suc n + (2 ^ 32 - 1) = n + 2 ^ 32" by simp
  finally show ?thesis by (simp add: wrap32_def)
qed

lemma addNode_queue:
  assumes "queue_of q h as" and "h a = None"
  shows "\<exists>q' h'. addNode a info (q, h) = Some (q', h') \<and> queue_of q' h' (a # as) \<and>
    tasks_of h' (a # as) = tasks_of h as @ [info] \<and> sem q' = sem q \<and>
    (\<forall>b. b \<notin> set (a # as) \<longrightarrow> h' b = h b) \<and> dom h' = insert a (dom h)"
proof (cases as)
  case Nil
  then show ?thesis using assms
    by (auto simp: addNode_def queue_of_def tasks_of_def wrap32_def)
next
  case (Cons c cs)
  then obtain n where n: "h c = Some n" "prev_node n = None" "cs \<noteq> [] \<longrightarrow> next_node n = Some (hd cs)"
      "dlist h (Some c) cs" and c: "c \<notin> set cs" and d: "distinct cs"
    using assms(1) by (auto simp: queue_of_def split: option.splits)
  have "a \<notin> set as" using queue_of_alloc [OF assms(1)] assms(2) by blast
  then have a: "a \<noteq> c" "a \<notin> set cs" using Cons by auto
  let ?h = "h(a \<mapsto> \<lparr>taskInfo = info, prev_node = None, next_node = Some c\<rparr>, c \<mapsto> n\<lparr>prev_node := Some a\<rparr>)"
  have "dlist ?h (Some c) cs = dlist h (Some c) cs"
    by (rule dlist_cong) (use a c in auto)
  moreover have "addNode a info (q, h) = Some (q\<lparr>head := Some a, taskNum := wrap32 (taskNum q + 1)\<rparr>, ?h)"
    using assms(1) Cons n a by (simp add: addNode_def queue_of_def Let_def)
  moreover have "tasks_of ?h cs = tasks_of h cs"
    by (rule tasks_of_cong) (use a c in auto)
  moreover have "wrap32 (Suc (taskNum q)) = wrap32 (Suc (length as))"
    using assms(1) wrap32_Suc [of "length as"] by (simp add: queue_of_def)
  ultimately show ?thesis using assms(1) Cons n a c d
    by (auto simp: queue_of_def tasks_of_def)
qed

lemma GetTask_Nil: "queue_of q h [] \<Longrightarrow> taskQueueGetTask (Some q) h = Some (None, Some q)"
  by (simp add: queue_of_def taskQueueGetTask_def)

lemma GetTask_snoc:
  assumes "queue_of q h (as @ [a])"
  shows "\<exists>q'. taskQueueGetTask (Some q) h = Some (Some a, Some q') \<and> queue_of q' h as \<and> sem q' = sem q"
proof -
  obtain n where n: "h a = Some n" "prev_node n = (if as = [] then None else Some (last as))"
    using assms by (auto simp: queue_of_def dlist_snoc split: option.splits)
  have "tail q = Some a" using assms by (simp add: queue_of_def)
  moreover have "wrap32 (wrap32 (Suc (length as)) + 4294967295) = wrap32 (length as)"
    using wrap32_pred [of "length as"] by simp
  ultimately show ?thesis using assms n
    by (auto simp: taskQueueGetTask_def queue_of_def dlist_snoc)
qed

section \<open>The queue\<close>

text \<open>
  The queue of the program with one user: adding a task, and taking one the way the work thread does,
  which reads the task from the node and frees the node.
\<close>

definition add_task ::
    "addr option \<Rightarrow> MOUTILS_TP_TASKINFO \<Rightarrow> TASKDQUEUE \<times> heap \<Rightarrow> (TASKDQUEUE \<times> heap) option" where
  "add_task newNode info = (\<lambda>(q, h). do {
     (_, q, h) \<leftarrow> taskQueueAddTask newNode info (Some q) h;
     q \<leftarrow> q;
     Some (q, h)
   })"

definition take_task ::
    "TASKDQUEUE \<times> heap \<Rightarrow> (MOUTILS_TP_TASKINFO option \<times> TASKDQUEUE \<times> heap) option" where
  "take_task = (\<lambda>(q, h). do {
     (a, q) \<leftarrow> taskQueueGetTask (Some q) h;
     q \<leftarrow> q;
     (case a of
        None \<Rightarrow> Some (None, q, h)
      | Some a \<Rightarrow> do { n \<leftarrow> h a; h \<leftarrow> free_node a h; Some (Some (taskInfo n), q, h) })
   })"

definition holds_tasks :: "TASKDQUEUE \<times> heap \<Rightarrow> MOUTILS_TP_TASKINFO list \<Rightarrow> bool" where
  "holds_tasks = (\<lambda>(q, h) xs. \<exists>as. queue_of q h as \<and> tasks_of h as = xs)"

definition fresh_node :: "addr option \<Rightarrow> TASKDQUEUE \<times> heap \<Rightarrow> bool" where
  "fresh_node a = (\<lambda>(q, h). case a of None \<Rightarrow> False | Some a \<Rightarrow> h a = None)"

lemma add_task_holds:
  assumes "holds_tasks s xs" and "fresh_node c s"
  shows "\<exists>s'. add_task c x s = Some s' \<and> holds_tasks s' (xs @ [x])"
proof -
  obtain q h as a where s: "s = (q, h)" "queue_of q h as" "tasks_of h as = xs" "c = Some a" "h a = None"
    using assms by (cases s) (auto simp: holds_tasks_def fresh_node_def split: option.splits)
  then show ?thesis using addNode_queue [OF s(2,5), of x]
    by (auto simp: add_task_def taskQueueAddTask_def holds_tasks_def)
qed

lemma take_task_Nil: "holds_tasks s [] \<Longrightarrow> \<exists>s'. take_task s = Some (None, s') \<and> holds_tasks s' []"
  using GetTask_Nil by (cases s) (auto simp: holds_tasks_def tasks_of_def take_task_def)

lemma tasks_of_Cons: "tasks_of h as = x # xs \<Longrightarrow>
    \<exists>bs a. as = bs @ [a] \<and> taskInfo (the (h a)) = x \<and> tasks_of h bs = xs"
  by (cases as rule: rev_cases) (auto simp: tasks_of_def)

lemma take_task_Cons:
  assumes "holds_tasks s (x # xs)"
  shows "\<exists>s'. take_task s = Some (Some x, s') \<and> holds_tasks s' xs"
proof -
  obtain q h as a where s: "s = (q, h)" "queue_of q h (as @ [a])" "taskInfo (the (h a)) = x" "tasks_of h as = xs"
    using assms tasks_of_Cons by (cases s) (fastforce simp: holds_tasks_def)
  obtain q' where q': "taskQueueGetTask (Some q) h = Some (Some a, Some q')" "queue_of q' h as"
    using GetTask_snoc [OF s(2)] by blast
  obtain n where n: "h a = Some n" using queue_of_alloc [OF s(2), of a] by auto
  have "a \<notin> set as" using s(2) by (simp add: queue_of_def)
  then have "queue_of q' (h(a := None)) as" "tasks_of (h(a := None)) as = xs"
    using q'(2) s(4) by simp_all
  then show ?thesis using s q' n
    by (auto simp: take_task_def free_node_def holds_tasks_def)
qed

interpretation tq: fifo holds_tasks fresh_node add_task take_task
  by unfold_locales (fact add_task_holds, fact take_task_Nil, fact take_task_Cons)

section \<open>Freeing the list\<close>

lemma freeNodes_simps [simp]:
  "freeNodes None h = Some h"
  "h a = None \<Longrightarrow> freeNodes (Some a) h = None"
  "h a = Some n \<Longrightarrow> freeNodes (Some a) h = freeNodes (next_node n) (h(a := None))"
  by (subst freeNodes.simps, simp)+

lemma freeNodes_dlist:
  assumes "dlist h p as" and "distinct as" and "as \<noteq> []"
  shows "freeNodes (Some (hd as)) h =
    freeNodes (next_node (the (h (last as)))) (\<lambda>a. if a \<in> set as then None else h a)"
  using assms
proof (induction as arbitrary: h p)
  case Nil
  then show ?case by simp
next
  case (Cons a as)
  then obtain n where n: "h a = Some n" "as \<noteq> [] \<longrightarrow> next_node n = Some (hd as)" "dlist h (Some a) as"
    by (auto split: option.splits)
  show ?case
  proof (cases "as = []")
    case True
    then have "(\<lambda>b. if b \<in> set (a # as) then None else h b) = h(a := None)" by auto
    then show ?thesis using n True by simp
  next
    case False
    have "dlist (h(a := None)) (Some a) as"
      using n(3) Cons.prems(2) by simp
    then have "freeNodes (Some (hd as)) (h(a := None)) =
        freeNodes (next_node (the ((h(a := None)) (last as))))
          (\<lambda>b. if b \<in> set as then None else (h(a := None)) b)"
      by (rule Cons.IH) (use Cons.prems(2) False \<open>dlist (h(a := None)) (Some a) as\<close> in auto)
    moreover have "last as \<noteq> a" using Cons.prems(2) False by auto
    moreover have "(\<lambda>b. if b \<in> set as then None else (h(a := None)) b) =
        (\<lambda>b. if b \<in> set (a # as) then None else h b)" by auto
    ultimately show ?thesis using n False by simp
  qed
qed

text \<open>The node that was added first has no successor until a node is taken behind it.\<close>

definition dangling :: "heap \<Rightarrow> addr list \<Rightarrow> bool" where
  "dangling h as \<longleftrightarrow> as \<noteq> [] \<and> next_node (the (h (last as))) \<noteq> None"

section \<open>Properties\<close>

text \<open>
  C10. The task queue is a first-in first-out queue: for every sequence of additions and removals
  with fresh nodes from \<open>malloc\<close>, no operation accesses a node that is not allocated, and the tasks
  handed out followed by the tasks still waiting are the tasks that were waiting at first followed by
  the ones that were added, in that order.
\<close>

theorem taskQueue_fifo:
  assumes "holds_tasks s xs" and "all_fresh fresh_node add_task take_task ops s"
  shows "\<exists>out s' ys. run_queue add_task take_task ops s = Some (out, s') \<and> holds_tasks s' ys \<and>
    xs @ enqueued ops = out @ ys"
  using assms by (rule tq.run_fifo)

definition empty_queue :: TASKDQUEUE where
  "empty_queue = \<lparr>head = None, tail = None, taskNum = 0, sem = 0\<rparr>"

definition sample_task :: "nat \<Rightarrow> MOUTILS_TP_TASKINFO" where
  "sample_task f = \<lparr>pTaskFunc = f, args4TaskFunc = 0\<rparr>"

theorem taskQueue_fifo_witness:
  "\<exists>out s' ys. run_queue add_task take_task
      [Enq (Some 10) (sample_task 1), Enq (Some 20) (sample_task 2), Deq, Enq (Some 10) (sample_task 3)]
      (empty_queue, Map.empty) = Some (out, s') \<and> holds_tasks s' ys \<and>
    [sample_task 1, sample_task 2, sample_task 3] = out @ ys"
proof -
  let ?ops = "[Enq (Some 10) (sample_task 1), Enq (Some 20) (sample_task 2), Deq, Enq (Some 10) (sample_task 3)]"
  have e: "holds_tasks (empty_queue, Map.empty) []"
    by (auto simp: holds_tasks_def queue_of_def tasks_of_def empty_queue_def)
  have "all_fresh fresh_node add_task take_task ?ops (empty_queue, Map.empty)"
    by (simp add: fresh_node_def add_task_def take_task_def taskQueueAddTask_def taskQueueGetTask_def
        addNode_def free_node_def empty_queue_def sem_post_def Let_def)
  then show ?thesis using taskQueue_fifo [OF e, of ?ops] by simp
qed

text \<open>
  \<open>taskQueueUnInit\<close> frees exactly the nodes of the queue and returns when the node at the tail
  has no forward link; when the link still points to a node that was taken and freed (the state after
  a removal that left other nodes waiting) it reads freed memory.
\<close>

theorem taskQueueUnInit_safe_iff:
  assumes "queue_of q h as" and "\<And>a. dangling h as \<Longrightarrow> next_node (the (h (last as))) = Some a \<Longrightarrow> h a = None"
  shows "taskQueueUnInit (Some q) h =
    (if dangling h as then None else Some (\<lambda>a. if a \<in> set as then None else h a))"
proof (cases "as = []")
  case True
  then show ?thesis using assms(1) by (simp add: taskQueueUnInit_def queue_of_def dangling_def)
next
  case False
  then have "taskQueueUnInit (Some q) h =
      freeNodes (next_node (the (h (last as)))) (\<lambda>a. if a \<in> set as then None else h a)"
    using assms(1) freeNodes_dlist [of h None as] by (simp add: taskQueueUnInit_def queue_of_def)
  moreover have "freeNodes (Some a) (\<lambda>a. if a \<in> set as then None else h a) = None"
    if "next_node (the (h (last as))) = Some a" for a
    using assms(2) [of a] that False by (intro freeNodes_simps(2)) (simp add: dangling_def)
  ultimately show ?thesis using False
    by (cases "next_node (the (h (last as)))") (simp_all only: dangling_def freeNodes_simps(1) if_False if_True simp_thms option.distinct)
qed

theorem taskQueueUnInit_safe_iff_witness:
  "\<exists>q h. run_queue add_task take_task [Enq (Some 10) (sample_task 1), Enq (Some 20) (sample_task 2), Deq]
      (empty_queue, Map.empty) = Some ([sample_task 1], q, h) \<and> taskQueueUnInit (Some q) h = None"
proof -
  let ?q = "\<lparr>head = Some 20, tail = Some 20, taskNum = 1, sem = 2\<rparr>"
  let ?n = "\<lparr>taskInfo = sample_task 2, prev_node = None, next_node = Some 10\<rparr>"
  let ?h = "Map.empty(20 \<mapsto> ?n)"
  have "run_queue add_task take_task [Enq (Some 10) (sample_task 1), Enq (Some 20) (sample_task 2), Deq]
      (empty_queue, Map.empty) = Some ([sample_task 1], ?q, ?h)"
    by (simp add: add_task_def take_task_def taskQueueAddTask_def taskQueueGetTask_def addNode_def
        free_node_def empty_queue_def sem_post_def wrap32_def Let_def fun_eq_iff)
  moreover have "taskQueueUnInit (Some ?q) ?h = None"
    using taskQueueUnInit_safe_iff [of ?q ?h "[20]"] by (simp add: queue_of_def dangling_def)
  ultimately show ?thesis by blast
qed

end
