(* ===== verification/MoThreadPool.thy ===== *)
theory MoThreadPool
  imports MoTaskQueue
begin

text \<open>
  The thread pool of \<open>moSdk/Utils/ThreadPool/src/thMgr.c\<close> as a step relation: a pool of work threads
  that wait on the semaphore of the task queue, users that add tasks, and the thread that calls
  \<open>moUtils_TP_uninit\<close>. The critical sections of the queue's mutex, the operations on the semaphore
  and the reads and writes of \<open>state\<close> are atomic steps, and steps of different threads interleave
  freely. The fields \<open>added\<close>, \<open>taken\<close> and \<open>executed\<close> record what has happened and are not read
  by any step.
\<close>

section \<open>State\<close>

datatype THMGR_STATE = THMGR_STATE_RUN | THMGR_STATE_STOP

text \<open>
  The program counter of a work thread (\<open>workTh\<close>): before \<open>sem_wait\<close>, before the test of \<open>state\<close>,
  before \<open>taskQueueGetTask\<close>, before the call of the task in a node, before the \<open>free\<close> of the node,
  after \<open>pthread_exit\<close>.
\<close>

datatype workTh = WAIT | CHECK | GET | DO addr | FREE addr | EXIT

text \<open>
  The thread that owns the pool: using it, in the loop of \<open>sem_post\<close>, in the loop of
  \<open>pthread_join\<close>, after both loops.
\<close>

datatype owner = USING | POSTING nat | JOINING nat | JOINED

record THMGR_INFO =
  taskQueue :: TASKDQUEUE
  heap :: heap
  state :: THMGR_STATE
  workers :: "workTh list"
  owner :: owner
  pending :: nat
  added :: "MOUTILS_TP_TASKINFO list"
  taken :: "MOUTILS_TP_TASKINFO list"
  executed :: "MOUTILS_TP_TASKINFO list"

section \<open>Initialisation\<close>

text \<open>
  \<open>moUtils_TP_init\<close>: \<open>createOk i\<close> says whether the \<open>i\<close>-th \<open>pthread_create\<close> succeeds. The result is
  the pool, or how many created threads still run, with a pointer to the pool, when the pool is freed
  and \<open>NULL\<close> is returned: the loop over \<open>pthread_join\<close> runs up to \<open>thNum\<close>, which is set only when
  all threads exist.
\<close>

definition new_pool :: "nat \<Rightarrow> TASKDQUEUE \<Rightarrow> THMGR_INFO" where
  "new_pool thNum q = \<lparr>taskQueue = q, heap = Map.empty, state = THMGR_STATE_RUN,
     workers = replicate thNum WAIT, owner = USING, pending = 0, added = [], taken = [], executed = []\<rparr>"

fun createThreads :: "(nat \<Rightarrow> bool) \<Rightarrow> nat \<Rightarrow> nat \<Rightarrow> nat + unit" where
  "createThreads createOk i 0 = Inr ()"
| "createThreads createOk i (Suc n) =
     (if \<not> createOk i
      then (let joined = 0 in Inl (i - joined))
      else createThreads createOk (i + 1) n)"

definition moUtils_TP_init ::
    "(nat \<Rightarrow> bool) \<Rightarrow> bool \<Rightarrow> bool \<Rightarrow> (nat \<Rightarrow> bool) \<Rightarrow> nat \<Rightarrow> nat + THMGR_INFO" where
  "moUtils_TP_init mallocOk mutexOk semOk createOk thNum =
     (if \<not> mallocOk 0 then Inl 0
      else (case taskQueueInit mutexOk semOk (Some \<lparr>head = None, tail = None, taskNum = 0, sem = 0\<rparr>) of
          (ret, Some q) \<Rightarrow>
            if ret \<noteq> 0 then Inl 0
            else if \<not> mallocOk 1 then Inl 0
            else (case createThreads createOk 0 thNum of
                Inl running \<Rightarrow> Inl running
              | Inr _ \<Rightarrow> Inr (new_pool thNum q))
        | (ret, None) \<Rightarrow> Inl 0))"

section \<open>Steps\<close>

text \<open>
  A work thread. \<open>pthread_exit\<close> ends it; a task is taken to return, as the documentation of the
  interface demands (tasks must not block).
\<close>

inductive work_step :: "nat \<Rightarrow> THMGR_INFO \<Rightarrow> THMGR_INFO \<Rightarrow> bool" where
  wait: "i < length (workers p) \<Longrightarrow> workers p ! i = WAIT \<Longrightarrow> 0 < sem (taskQueue p) \<Longrightarrow>
     work_step i p (p\<lparr>taskQueue := (taskQueue p)\<lparr>sem := sem (taskQueue p) - 1\<rparr>,
       workers := (workers p)[i := CHECK]\<rparr>)"
| stop: "i < length (workers p) \<Longrightarrow> workers p ! i = CHECK \<Longrightarrow> state p = THMGR_STATE_STOP \<Longrightarrow>
     work_step i p (p\<lparr>workers := (workers p)[i := EXIT]\<rparr>)"
| go: "i < length (workers p) \<Longrightarrow> workers p ! i = CHECK \<Longrightarrow> state p = THMGR_STATE_RUN \<Longrightarrow>
     work_step i p (p\<lparr>workers := (workers p)[i := GET]\<rparr>)"
| get: "i < length (workers p) \<Longrightarrow> workers p ! i = GET \<Longrightarrow>
     taskQueueGetTask (Some (taskQueue p)) (heap p) = Some (Some a, Some q) \<Longrightarrow> heap p a = Some n \<Longrightarrow>
     work_step i p (p\<lparr>taskQueue := q, workers := (workers p)[i := DO a], taken := taken p @ [taskInfo n]\<rparr>)"
| get_null: "i < length (workers p) \<Longrightarrow> workers p ! i = GET \<Longrightarrow>
     taskQueueGetTask (Some (taskQueue p)) (heap p) = Some (None, Some q) \<Longrightarrow>
     work_step i p (p\<lparr>taskQueue := q, workers := (workers p)[i := WAIT]\<rparr>)"
| run: "i < length (workers p) \<Longrightarrow> workers p ! i = DO a \<Longrightarrow> heap p a = Some n \<Longrightarrow>
     work_step i p (p\<lparr>workers := (workers p)[i := FREE a], executed := executed p @ [taskInfo n]\<rparr>)"
| free: "i < length (workers p) \<Longrightarrow> workers p ! i = FREE a \<Longrightarrow> free_node a (heap p) = Some h \<Longrightarrow>
     work_step i p (p\<lparr>heap := h, workers := (workers p)[i := WAIT]\<rparr>)"

text \<open>
  The users. \<open>moUtils_TP_addTask\<close> is two steps, the critical section and the \<open>sem_post\<close> after it;
  \<open>pending\<close> counts the calls between the two. No call is in progress when \<open>moUtils_TP_uninit\<close> is
  called, and none is made afterwards.
\<close>

inductive user_step :: "THMGR_INFO \<Rightarrow> THMGR_INFO \<Rightarrow> bool" where
  add: "owner p = USING \<Longrightarrow> heap p a = None \<Longrightarrow> addNode a info (taskQueue p, heap p) = Some (q, h) \<Longrightarrow>
     user_step p (p\<lparr>taskQueue := q, heap := h, pending := pending p + 1, added := added p @ [info]\<rparr>)"
| post: "0 < pending p \<Longrightarrow>
     user_step p (p\<lparr>taskQueue := sem_post (taskQueue p), pending := pending p - 1\<rparr>)"

text \<open>\<open>moUtils_TP_uninit\<close> up to the point where it frees the queue and the pool.\<close>

inductive uninit_step :: "THMGR_INFO \<Rightarrow> THMGR_INFO \<Rightarrow> bool" where
  stop: "owner p = USING \<Longrightarrow> pending p = 0 \<Longrightarrow>
     uninit_step p (p\<lparr>state := THMGR_STATE_STOP, owner := POSTING 0\<rparr>)"
| post: "owner p = POSTING j \<Longrightarrow> j < length (workers p) \<Longrightarrow>
     uninit_step p (p\<lparr>taskQueue := sem_post (taskQueue p), owner := POSTING (j + 1)\<rparr>)"
| posted: "owner p = POSTING j \<Longrightarrow> \<not> j < length (workers p) \<Longrightarrow>
     uninit_step p (p\<lparr>owner := JOINING 0\<rparr>)"
| join: "owner p = JOINING j \<Longrightarrow> j < length (workers p) \<Longrightarrow> workers p ! j = EXIT \<Longrightarrow>
     uninit_step p (p\<lparr>owner := JOINING (j + 1)\<rparr>)"
| joined: "owner p = JOINING j \<Longrightarrow> \<not> j < length (workers p) \<Longrightarrow>
     uninit_step p (p\<lparr>owner := JOINED\<rparr>)"

inductive pool_step :: "THMGR_INFO \<Rightarrow> THMGR_INFO \<Rightarrow> bool" where
  work: "work_step i p p' \<Longrightarrow> pool_step p p'"
| user: "user_step p p' \<Longrightarrow> pool_step p p'"
| uninit: "uninit_step p p' \<Longrightarrow> pool_step p p'"

inductive pool_reach :: "THMGR_INFO \<Rightarrow> THMGR_INFO \<Rightarrow> bool" where
  start: "pool_reach p p"
| step: "pool_reach p p' \<Longrightarrow> pool_step p' p'' \<Longrightarrow> pool_reach p p''"

text \<open>A thread that is about to leave the defined behaviour, or the queue's impossible case.\<close>

definition work_fault :: "THMGR_INFO \<Rightarrow> nat \<Rightarrow> bool" where
  "work_fault p i \<longleftrightarrow>
     (case workers p ! i of
        GET \<Rightarrow> (case taskQueueGetTask (Some (taskQueue p)) (heap p) of Some (Some a, _) \<Rightarrow> heap p a = None | _ \<Rightarrow> True)
      | DO a \<Rightarrow> heap p a = None
      | FREE a \<Rightarrow> free_node a (heap p) = None
      | _ \<Rightarrow> False)"

section \<open>Counting threads\<close>

definition threads :: "(workTh \<Rightarrow> bool) \<Rightarrow> THMGR_INFO \<Rightarrow> nat" where
  "threads P p = length (filter P (workers p))"

lemma filter_update:
  "i < length ws \<Longrightarrow> length (filter P (ws[i := w])) + of_bool (P (ws ! i)) = length (filter P ws) + of_bool (P w)"
proof (induction ws arbitrary: i)
  case Nil
  then show ?case by simp
next
  case (Cons x ws)
  show ?case
  proof (cases i)
    case 0
    then show ?thesis by simp
  next
    case (Suc k)
    then show ?thesis using Cons.IH [of k] Cons.prems by simp
  qed
qed

lemma threads_update:
  assumes "i < length (workers p)" and "workers p' = (workers p)[i := w]" and "workers p ! i = v"
  shows "threads P p' + of_bool (P v) = threads P p + of_bool (P w)"
  using filter_update [OF assms(1), of P w] assms(2,3) by (simp add: threads_def)

lemma threads_same: "workers p' = workers p \<Longrightarrow> threads P p' = threads P p"
  by (simp add: threads_def)


section \<open>Invariants\<close>

definition holds :: "workTh \<Rightarrow> addr \<Rightarrow> bool" where
  "holds w a \<longleftrightarrow> w = DO a \<or> w = FREE a"

text \<open>
  Memory: the queue is a list of allocated nodes, and every node a thread works on is allocated,
  outside the queue and the thread's own. Order: the tasks taken and then the tasks waiting are the
  tasks added.
\<close>

definition has :: "workTh list \<Rightarrow> nat \<Rightarrow> addr \<Rightarrow> bool" where
  "has ws i a \<longleftrightarrow> i < length ws \<and> holds (ws ! i) a"

definition owned :: "workTh list \<Rightarrow> heap \<Rightarrow> addr list \<Rightarrow> bool" where
  "owned ws h as \<longleftrightarrow> (\<forall>i a. has ws i a \<longrightarrow> h a \<noteq> None \<and> a \<notin> set as) \<and>
     (\<forall>i j a. has ws i a \<longrightarrow> has ws j a \<longrightarrow> i = j)"

lemma has_update: "i < length ws \<Longrightarrow> has (ws[i := w]) j a = (if j = i then holds w a else has ws j a)"
  by (simp add: has_def)

lemma owned_update:
  assumes "owned ws h as" and "i < length ws" and "\<And>a. holds w a \<Longrightarrow> holds (ws ! i) a"
  shows "owned (ws[i := w]) h as"
proof -
  have "has (ws[i := w]) j a \<Longrightarrow> has ws j a" for j a
    using assms(2,3) by (auto simp: has_def nth_list_update split: if_splits)
  then show ?thesis using assms(1) unfolding owned_def by blast
qed

lemma owned_get:
  assumes "owned ws h (as @ [a])" and "i < length ws" and "h a \<noteq> None" and "a \<notin> set as"
  shows "owned (ws[i := DO a]) h as"
proof -
  have "has (ws[i := DO a]) j b \<longleftrightarrow> (if j = i then b = a else has ws j b)" for j b
    using assms(2) by (simp add: has_update holds_def eq_commute)
  moreover have "\<not> has ws j a" for j using assms(1) by (auto simp: owned_def)
  ultimately show ?thesis using assms(1,3,4) unfolding owned_def by (auto split: if_splits)
qed

lemma owned_free:
  assumes "owned ws h as" and "i < length ws" and "ws ! i = FREE a"
  shows "owned (ws[i := WAIT]) (h(a := None)) as"
proof -
  have "has ws i a" using assms(2,3) by (simp add: has_def holds_def)
  then have "j = i" if "has ws j a" for j using assms(1) that unfolding owned_def by blast
  moreover have "has (ws[i := WAIT]) j b \<longleftrightarrow> j \<noteq> i \<and> has ws j b" for j b
    using assms(2) by (simp add: has_update holds_def)
  ultimately show ?thesis using assms(1) unfolding owned_def by auto
qed

lemma owned_add:
  assumes "owned ws h as" and "h a = None" and "\<And>b. b \<notin> set (a # as) \<Longrightarrow> h' b = h b"
  shows "owned ws h' (a # as)"
proof -
  have "b \<noteq> a" "b \<notin> set as" "h b \<noteq> None" if "has ws j b" for j b
    using assms(1,2) that unfolding owned_def by fastforce+
  then show ?thesis using assms(1,3) unfolding owned_def by auto
qed

definition mem_inv :: "THMGR_INFO \<Rightarrow> addr list \<Rightarrow> bool" where
  "mem_inv p as \<longleftrightarrow> queue_of (taskQueue p) (heap p) as \<and> added p = taken p @ tasks_of (heap p) as \<and>
     owned (workers p) (heap p) as"

text \<open>
  Tokens: while the pool runs, every unit of the semaphore, every post still to be made and every
  thread between \<open>sem_wait\<close> and \<open>taskQueueGetTask\<close> has a waiting task of its own.
\<close>

definition token_inv :: "THMGR_INFO \<Rightarrow> addr list \<Rightarrow> bool" where
  "token_inv p as \<longleftrightarrow> threads ((=) GET) p \<le> length as \<and>
     (state p = THMGR_STATE_RUN \<longrightarrow>
        sem (taskQueue p) + pending p + threads ((=) CHECK) p + threads ((=) GET) p \<le> length as)"

text \<open>Execution: the tasks taken are the tasks executed and the tasks about to be executed.\<close>

fun hand :: "heap \<Rightarrow> workTh \<Rightarrow> MOUTILS_TP_TASKINFO list" where
  "hand h (DO a) = [taskInfo (the (h a))]"
| "hand h _ = []"

definition in_hand :: "THMGR_INFO \<Rightarrow> MOUTILS_TP_TASKINFO list" where
  "in_hand p = concat (map (hand (heap p)) (workers p))"

definition exec_inv :: "THMGR_INFO \<Rightarrow> bool" where
  "exec_inv p \<longleftrightarrow> mset (taken p) = mset (executed p) + mset (in_hand p)"

text \<open>
  Stopping: a thread that may still block on the semaphore finds a unit of it, now or after the posts
  that are still to come.
\<close>

definition may_block :: "workTh \<Rightarrow> bool" where
  "may_block w \<longleftrightarrow> w \<noteq> CHECK \<and> w \<noteq> EXIT"

definition stop_inv :: "THMGR_INFO \<Rightarrow> bool" where
  "stop_inv p \<longleftrightarrow> length (workers p) \<le> SEM_VALUE_MAX \<and>
     (case owner p of
        USING \<Rightarrow> state p = THMGR_STATE_RUN
      | POSTING j \<Rightarrow> state p = THMGR_STATE_STOP \<and> pending p = 0 \<and>
          threads may_block p \<le> sem (taskQueue p) + (length (workers p) - j)
      | JOINING j \<Rightarrow> state p = THMGR_STATE_STOP \<and> pending p = 0 \<and>
          threads may_block p \<le> sem (taskQueue p) \<and> (\<forall>k<length (workers p). k < j \<longrightarrow> workers p ! k = EXIT)
      | JOINED \<Rightarrow> state p = THMGR_STATE_STOP \<and> pending p = 0 \<and>
          (\<forall>k<length (workers p). workers p ! k = EXIT))"

definition pool_inv :: "THMGR_INFO \<Rightarrow> bool" where
  "pool_inv p \<longleftrightarrow> (\<exists>as. mem_inv p as \<and> token_inv p as) \<and> exec_inv p \<and> stop_inv p"

lemma in_hand_update:
  assumes "i < length (workers p)" and "workers p' = (workers p)[i := w]" and "workers p ! i = v"
    and "\<And>a j. j < length (workers p) \<Longrightarrow> j \<noteq> i \<Longrightarrow> workers p ! j = DO a \<Longrightarrow> heap p' a = heap p a"
  shows "mset (in_hand p') + mset (hand (heap p) v) = mset (in_hand p) + mset (hand (heap p') w)"
proof -
  have same: "hand (heap p') (workers p ! j) = hand (heap p) (workers p ! j)"
    if "j < length (workers p)" "j \<noteq> i" for j
    using assms(4) [OF that] by (cases "workers p ! j") simp_all
  have eq: "map (hand (heap p')) (take i (workers p)) = map (hand (heap p)) (take i (workers p))"
    "map (hand (heap p')) (drop (Suc i) (workers p)) = map (hand (heap p)) (drop (Suc i) (workers p))"
    by (rule nth_equalityI; use assms(1) same in simp)+
  have "workers p = take i (workers p) @ v # drop (Suc i) (workers p)"
    using assms(1,3) id_take_nth_drop by blast
  then have "in_hand p = concat (map (hand (heap p)) (take i (workers p))) @ hand (heap p) v @
      concat (map (hand (heap p)) (drop (Suc i) (workers p)))"
    unfolding in_hand_def by (metis concat.simps(2) concat_append list.simps(9) map_append)
  moreover have "in_hand p' = concat (map (hand (heap p)) (take i (workers p))) @ hand (heap p') w @
      concat (map (hand (heap p)) (drop (Suc i) (workers p)))"
    unfolding in_hand_def assms(2) upd_conv_take_nth_drop [OF assms(1)] eq [symmetric] by simp
  ultimately show ?thesis by simp
qed

lemma in_hand_same:
  assumes "workers p' = workers p" and "\<And>a j. j < length (workers p) \<Longrightarrow> workers p ! j = DO a \<Longrightarrow> heap p' a = heap p a"
  shows "in_hand p' = in_hand p"
proof -
  have "hand (heap p') (workers p ! j) = hand (heap p) (workers p ! j)" if "j < length (workers p)" for j
    using assms(2) [OF that] by (cases "workers p ! j") simp_all
  then have "map (hand (heap p')) (workers p) = map (hand (heap p)) (workers p)"
    by (intro nth_equalityI) simp_all
  then show ?thesis unfolding in_hand_def assms(1) by (rule arg_cong)
qed

section \<open>Work threads keep the invariants\<close>

text \<open>The memory invariant after a thread has moved to a program counter without a new node.\<close>

lemma mem_inv_move:
  assumes "mem_inv p as" and "i < length (workers p)" and "\<And>a. holds w a \<Longrightarrow> holds (workers p ! i) a"
    and "workers p' = (workers p)[i := w]" and "heap p' = heap p" and "taken p' = taken p" and "added p' = added p"
    and "queue_of (taskQueue p') (heap p) as"
  shows "mem_inv p' as"
  using assms owned_update [of "workers p" "heap p" as i w] by (simp add: mem_inv_def)

lemma mem_inv_get:
  assumes "mem_inv p (as @ [a])" and "i < length (workers p)" and "workers p ! i = GET"
    and "queue_of q (heap p) as" and "heap p a = Some n"
  shows "mem_inv (p\<lparr>taskQueue := q, workers := (workers p)[i := DO a], taken := taken p @ [taskInfo n]\<rparr>) as"
proof -
  have "a \<notin> set as" using assms(1) by (simp add: mem_inv_def queue_of_def)
  moreover have "tasks_of (heap p) (as @ [a]) = taskInfo n # tasks_of (heap p) as"
    using assms(5) by (simp add: tasks_of_def)
  ultimately show ?thesis using assms owned_get [of "workers p" "heap p" as a i] by (simp add: mem_inv_def)
qed

lemma mem_inv_free:
  assumes "mem_inv p as" and "i < length (workers p)" and "workers p ! i = FREE a"
  shows "mem_inv (p\<lparr>heap := (heap p)(a := None), workers := (workers p)[i := WAIT]\<rparr>) as"
proof -
  have "has (workers p) i a" using assms(2,3) by (simp add: has_def holds_def)
  then have "a \<notin> set as" using assms(1) by (simp add: mem_inv_def owned_def)
  then show ?thesis using assms owned_free [of "workers p" "heap p" as i a] by (simp add: mem_inv_def)
qed

text \<open>A thread that gets a task finds one.\<close>

lemma token_inv_get:
  assumes "token_inv p as" and "i < length (workers p)" and "workers p ! i = GET"
  shows "as \<noteq> []"
proof -
  have "GET \<in> set (workers p)" using assms(2,3) nth_mem by metis
  then have "0 < threads ((=) GET) p" unfolding threads_def by (simp add: filter_empty_conv)
  then show ?thesis using assms(1) by (auto simp: token_inv_def)
qed

lemma work_step_queue:
  assumes "work_step i p p'" and "mem_inv p as" and "token_inv p as"
  shows "\<exists>as'. mem_inv p' as' \<and> token_inv p' as'"
  using assms(1)
proof cases
  case wait
  have "mem_inv p' as" by (rule mem_inv_move [OF assms(2) wait(2)]) (use assms(2) wait in \<open>auto simp: mem_inv_def holds_def\<close>)
  moreover have "token_inv p' as"
    using assms(3) threads_update [of i p p' CHECK WAIT "(=) GET"] threads_update [of i p p' CHECK WAIT "(=) CHECK"] wait
    by (auto simp: token_inv_def)
  ultimately show ?thesis by blast
next
  case stop
  have "mem_inv p' as" by (rule mem_inv_move [OF assms(2) stop(2)]) (use assms(2) stop in \<open>auto simp: mem_inv_def holds_def\<close>)
  moreover have "token_inv p' as"
    using assms(3) threads_update [of i p p' EXIT CHECK "(=) GET"] stop by (auto simp: token_inv_def)
  ultimately show ?thesis by blast
next
  case go
  have "mem_inv p' as" by (rule mem_inv_move [OF assms(2) go(2)]) (use assms(2) go in \<open>auto simp: mem_inv_def holds_def\<close>)
  moreover have "token_inv p' as"
    using assms(3) threads_update [of i p p' GET CHECK "(=) GET"] threads_update [of i p p' GET CHECK "(=) CHECK"] go
    by (auto simp: token_inv_def)
  ultimately show ?thesis by blast
next
  case (get a q n)
  obtain bs b where as: "as = bs @ [b]"
    using token_inv_get [OF assms(3) get(2,3)] by (metis append_butlast_last_id)
  have "queue_of (taskQueue p) (heap p) (bs @ [b])" using assms(2) as by (simp add: mem_inv_def)
  then have b: "b = a" "queue_of q (heap p) bs" "sem q = sem (taskQueue p)"
    using GetTask_snoc get(4) by fastforce+
  have "mem_inv p' bs" unfolding get(1)
    by (rule mem_inv_get [OF _ get(2,3) b(2) get(5)]) (use assms(2) as b(1) in simp)
  moreover have "token_inv p' bs"
    using assms(3) threads_update [of i p p' "DO a" GET "(=) GET"] threads_update [of i p p' "DO a" GET "(=) CHECK"]
      get as b by (auto simp: token_inv_def)
  ultimately show ?thesis by blast
next
  case (get_null q)
  obtain bs b where as: "as = bs @ [b]"
    using token_inv_get [OF assms(3) get_null(2,3)] by (metis append_butlast_last_id)
  have "queue_of (taskQueue p) (heap p) (bs @ [b])" using assms(2) as by (simp add: mem_inv_def)
  then show ?thesis using GetTask_snoc get_null(4) by fastforce
next
  case (run a n)
  have "mem_inv p' as" by (rule mem_inv_move [OF assms(2) run(2)]) (use assms(2) run in \<open>auto simp: mem_inv_def holds_def\<close>)
  moreover have "token_inv p' as"
    using assms(3) threads_update [of i p p' "FREE a" "DO a" "(=) GET"]
      threads_update [of i p p' "FREE a" "DO a" "(=) CHECK"] run by (auto simp: token_inv_def)
  ultimately show ?thesis by blast
next
  case (free a h)
  then have h: "h = (heap p)(a := None)" by (simp add: free_node_def split: option.splits)
  have "mem_inv p' as" unfolding free(1) h by (rule mem_inv_free [OF assms(2) free(2,3)])
  moreover have "token_inv p' as"
    using assms(3) threads_update [of i p p' WAIT "FREE a" "(=) GET"]
      threads_update [of i p p' WAIT "FREE a" "(=) CHECK"] free by (auto simp: token_inv_def)
  ultimately show ?thesis by blast
qed

lemma work_step_exec:
  assumes "work_step i p p'" and "mem_inv p as" and "exec_inv p"
  shows "exec_inv p'"
  using assms(1)
proof cases
  case wait
  then show ?thesis using assms(3) in_hand_update [of i p p' CHECK WAIT] by (simp add: exec_inv_def)
next
  case stop
  then show ?thesis using assms(3) in_hand_update [of i p p' EXIT CHECK] by (simp add: exec_inv_def)
next
  case go
  then show ?thesis using assms(3) in_hand_update [of i p p' GET CHECK] by (simp add: exec_inv_def)
next
  case (get a q n)
  then show ?thesis using assms(3) in_hand_update [of i p p' "DO a" GET] by (simp add: exec_inv_def)
next
  case (get_null q)
  then show ?thesis using assms(3) in_hand_update [of i p p' WAIT GET] by (simp add: exec_inv_def)
next
  case (run a n)
  then show ?thesis using assms(3) in_hand_update [of i p p' "FREE a" "DO a"] by (simp add: exec_inv_def)
next
  case (free a h)
  then have h: "h = (heap p)(a := None)" by (simp add: free_node_def split: option.splits)
  have "has (workers p) i a" using free by (simp add: has_def holds_def)
  then have "b \<noteq> a" if "j < length (workers p)" "j \<noteq> i" "workers p ! j = DO b" for j b
    using assms(2) that unfolding mem_inv_def owned_def has_def holds_def by metis
  then show ?thesis using assms(3) in_hand_update [of i p p' WAIT "FREE a"] free(1-3) h
    by (simp add: exec_inv_def)
qed

lemma work_step_frame:
  assumes "work_step i p p'"
  shows "owner p' = owner p" and "state p' = state p" and "pending p' = pending p"
    and "length (workers p') = length (workers p)" and "i < length (workers p)" and "workers p ! i \<noteq> EXIT"
    and "\<And>j. workers p ! j = EXIT \<Longrightarrow> workers p' ! j = EXIT"
  using assms by (cases; auto simp: nth_list_update)+

lemma work_step_blocking:
  assumes "work_step i p p'" and "mem_inv p as" and "token_inv p as" and "state p = THMGR_STATE_STOP"
  shows "threads may_block p' + sem (taskQueue p) \<le> threads may_block p + sem (taskQueue p')"
  using assms(1)
proof cases
  case wait
  then show ?thesis using threads_update [of i p p' CHECK WAIT may_block] by (simp add: may_block_def)
next
  case stop
  then show ?thesis using threads_update [of i p p' EXIT CHECK may_block] by (simp add: may_block_def)
next
  case go
  then show ?thesis using assms(4) by simp
next
  case (get a q n)
  obtain bs b where "as = bs @ [b]"
    using token_inv_get [OF assms(3) get(2,3)] by (metis append_butlast_last_id)
  then have "sem q = sem (taskQueue p)" using GetTask_snoc [of "taskQueue p" "heap p" bs b] assms(2) get(4)
    by (auto simp: mem_inv_def)
  then show ?thesis using get threads_update [of i p p' "DO a" GET may_block] by (simp add: may_block_def)
next
  case (get_null q)
  obtain bs b where "as = bs @ [b]"
    using token_inv_get [OF assms(3) get_null(2,3)] by (metis append_butlast_last_id)
  then show ?thesis using GetTask_snoc [of "taskQueue p" "heap p" bs b] assms(2) get_null(4)
    by (auto simp: mem_inv_def)
next
  case (run a n)
  then show ?thesis using threads_update [of i p p' "FREE a" "DO a" may_block] by (simp add: may_block_def)
next
  case (free a h)
  then show ?thesis using threads_update [of i p p' WAIT "FREE a" may_block] by (simp add: may_block_def)
qed

lemma work_step_inv:
  assumes "work_step i p p'" and "pool_inv p"
  shows "pool_inv p'"
proof -
  obtain as where as: "mem_inv p as" "token_inv p as" using assms(2) by (auto simp: pool_inv_def)
  note frame = work_step_frame [OF assms(1)]
  have "stop_inv p'"
  proof (cases "state p = THMGR_STATE_STOP")
    case True
    show ?thesis using work_step_blocking [OF assms(1) as True] assms(2) frame
      by (auto simp: pool_inv_def stop_inv_def split: owner.splits)
  next
    case False
    then show ?thesis using assms(2) frame(1-4) by (auto simp: pool_inv_def stop_inv_def split: owner.splits)
  qed
  then show ?thesis using work_step_queue [OF assms(1) as] work_step_exec [OF assms(1) as(1)] assms(2)
    by (auto simp: pool_inv_def)
qed

section \<open>Users and the owner keep the invariants\<close>

lemma user_step_inv:
  assumes "user_step p p'" and "pool_inv p"
  shows "pool_inv p'"
  using assms(1)
proof cases
  case (add a info q h)
  obtain as where as: "mem_inv p as" "token_inv p as" using assms(2) by (auto simp: pool_inv_def)
  have q: "queue_of q h (a # as)" "tasks_of h (a # as) = tasks_of (heap p) as @ [info]"
      "sem q = sem (taskQueue p)" "\<And>b. b \<notin> set (a # as) \<Longrightarrow> h b = heap p b"
    using addNode_queue [of "taskQueue p" "heap p" as a info] as(1) add(3,4) by (auto simp: mem_inv_def)
  have own: "owned (workers p) (heap p) as" using as(1) by (simp add: mem_inv_def)
  have "h b = heap p b" if "j < length (workers p)" "workers p ! j = DO b" for j b
  proof -
    have "has (workers p) j b" using that by (simp add: has_def holds_def)
    then have "b \<notin> set as" "b \<noteq> a" using own add(3) unfolding owned_def by fastforce+
    then show ?thesis using q(4) [of b] by simp
  qed
  then have "in_hand p' = in_hand p" using add(1) by (intro in_hand_same) simp_all
  moreover have "mem_inv p' (a # as)"
    using add as(1) q(1,2) owned_add [OF own add(3) q(4)] by (simp add: mem_inv_def)
  moreover have "token_inv p' (a # as)"
    using as(2) add q(3) threads_same [of p' p] by (auto simp: token_inv_def)
  ultimately show ?thesis using assms(2) add threads_same [of p' p]
    by (auto simp: pool_inv_def exec_inv_def stop_inv_def)
next
  case post
  obtain as where as: "mem_inv p as" "token_inv p as" using assms(2) by (auto simp: pool_inv_def)
  have "mem_inv p' as" using as(1) post by (simp add: mem_inv_def)
  moreover have "token_inv p' as"
    using as(2) post threads_same [of p' p] by (auto simp: token_inv_def sem_post_def)
  moreover have "in_hand p' = in_hand p" using post by (intro in_hand_same) simp_all
  ultimately show ?thesis using assms(2) post
    by (auto simp: pool_inv_def exec_inv_def stop_inv_def split: owner.splits)
qed

lemma threads_le: "threads P p \<le> length (workers p)"
  by (simp add: threads_def)

lemma uninit_step_inv:
  assumes "uninit_step p p'" and "pool_inv p"
  shows "pool_inv p'"
proof -
  obtain as where as: "mem_inv p as" "token_inv p as" using assms(2) by (auto simp: pool_inv_def)
  have eq: "workers p' = workers p" "heap p' = heap p" "added p' = added p" "taken p' = taken p"
      "executed p' = executed p" and q: "queue_of (taskQueue p') (heap p) as"
    using assms(1) as(1) by (cases; auto simp: mem_inv_def)+
  have t: "threads P p' = threads P p" for P using threads_same [OF eq(1)] .
  have "mem_inv p' as" using as(1) eq q by (simp add: mem_inv_def)
  moreover have "token_inv p' as"
    using assms as(2) t by (cases; auto simp: token_inv_def sem_post_def pool_inv_def stop_inv_def)
  moreover have "in_hand p' = in_hand p" using eq by (intro in_hand_same) simp_all
  moreover have "stop_inv p'"
    using assms(1)
  proof cases
    case stop
    then show ?thesis using assms(2) threads_le [of may_block p] t
      by (auto simp: pool_inv_def stop_inv_def)
  next
    case (post j)
    then have "threads may_block p \<le> sem (taskQueue p) + (length (workers p) - j)" "length (workers p) \<le> SEM_VALUE_MAX"
      using assms(2) by (auto simp: pool_inv_def stop_inv_def)
    then have "threads may_block p \<le> sem (sem_post (taskQueue p)) + (length (workers p) - Suc j)"
      using threads_le [of may_block p] post(3) by (auto simp: sem_post_def)
    then show ?thesis using post assms(2) t by (auto simp: pool_inv_def stop_inv_def)
  next
    case (posted j)
    then show ?thesis using assms(2) t by (auto simp: pool_inv_def stop_inv_def)
  next
    case (join j)
    then show ?thesis using assms(2) t by (auto simp: pool_inv_def stop_inv_def less_Suc_eq)
  next
    case (joined j)
    then show ?thesis using assms(2) t by (auto simp: pool_inv_def stop_inv_def)
  qed
  ultimately show ?thesis using assms(2) eq by (auto simp: pool_inv_def exec_inv_def)
qed

lemma pool_step_inv: "pool_step p p' \<Longrightarrow> pool_inv p \<Longrightarrow> pool_inv p'"
  by (cases rule: pool_step.cases) (auto intro: work_step_inv user_step_inv uninit_step_inv)

lemma pool_reach_inv: "pool_reach p p' \<Longrightarrow> pool_inv p \<Longrightarrow> pool_inv p'"
  by (induction rule: pool_reach.induct) (auto intro: pool_step_inv)

lemma init_inv:
  assumes "moUtils_TP_init mallocOk mutexOk semOk createOk thNum = Inr p" and "thNum \<le> SEM_VALUE_MAX"
  shows "pool_inv p \<and> length (workers p) = thNum"
proof -
  have p: "p = new_pool thNum \<lparr>head = None, tail = None, taskNum = 0, sem = 0\<rparr>"
    using assms(1) by (auto simp: moUtils_TP_init_def taskQueueInit_def split: if_splits sum.splits)
  have "in_hand p = []" by (simp add: in_hand_def p new_pool_def)
  moreover have "mem_inv p []"
    by (auto simp: mem_inv_def p new_pool_def queue_of_def tasks_of_def owned_def has_def holds_def)
  moreover have "token_inv p []" by (simp add: token_inv_def threads_def p new_pool_def)
  ultimately show ?thesis using assms(2)
    by (auto simp: pool_inv_def exec_inv_def stop_inv_def p new_pool_def)
qed

section \<open>Progress\<close>

lemma pool_inv_no_fault:
  assumes "pool_inv p" and "i < length (workers p)"
  shows "\<not> work_fault p i"
proof -
  obtain as where as: "mem_inv p as" "token_inv p as" using assms(1) by (auto simp: pool_inv_def)
  have own: "has (workers p) i a \<Longrightarrow> heap p a \<noteq> None" for a
    using as(1) by (simp add: mem_inv_def owned_def)
  show ?thesis
  proof (cases "workers p ! i")
    case GET
    obtain bs b where "as = bs @ [b]"
      using token_inv_get [OF as(2) assms(2) GET] by (metis append_butlast_last_id)
    then have "queue_of (taskQueue p) (heap p) (bs @ [b])" using as(1) by (simp add: mem_inv_def)
    then show ?thesis using GetTask_snoc [of "taskQueue p" "heap p" bs b] queue_of_alloc [of "taskQueue p" "heap p" _ b]
        GET by (force simp: work_fault_def)
  qed (use own assms(2) in \<open>auto simp: work_fault_def has_def holds_def free_node_def split: option.splits\<close>)
qed

text \<open>How many steps a work thread can still make once the pool is stopping.\<close>

fun work_rank :: "workTh \<Rightarrow> nat" where
  "work_rank EXIT = 0"
| "work_rank CHECK = 1"
| "work_rank WAIT = 2"
| "work_rank (FREE a) = 3"
| "work_rank (DO a) = 4"
| "work_rank GET = 5"

definition pool_rank :: "THMGR_INFO \<Rightarrow> nat" where
  "pool_rank p = sum_list (map work_rank (workers p))"

lemma pool_rank_bound: "pool_rank p \<le> 5 * length (workers p)"
proof -
  have "work_rank w \<le> 5" for w by (cases w) simp_all
  then have "sum_list (map work_rank ws) \<le> 5 * length ws" for ws
    by (induction ws) (simp_all add: add_mono)
  then show ?thesis by (simp add: pool_rank_def)
qed

lemma sum_list_update_less:
  fixes f :: "'a \<Rightarrow> nat"
  shows "i < length ws \<Longrightarrow> f w < f (ws ! i) \<Longrightarrow> sum_list (map f (ws[i := w])) < sum_list (map f ws)"
proof (induction ws arbitrary: i)
  case Nil
  then show ?case by simp
next
  case (Cons x ws)
  then show ?case by (cases i) simp_all
qed

lemma work_step_rank:
  "work_step i p p' \<Longrightarrow> state p = THMGR_STATE_STOP \<Longrightarrow> pool_rank p' < pool_rank p"
  by (cases rule: work_step.cases) (auto simp: pool_rank_def intro!: sum_list_update_less)

lemma joining_can_step:
  assumes "pool_inv p" and "owner p = JOINING j" and "i < length (workers p)" and "workers p ! i \<noteq> EXIT"
  shows "\<exists>p'. work_step i p p'"
proof -
  note fault = pool_inv_no_fault [OF assms(1,3)]
  have st: "state p = THMGR_STATE_STOP" "threads may_block p \<le> sem (taskQueue p)"
    using assms(1,2) by (auto simp: pool_inv_def stop_inv_def)
  show ?thesis
  proof (cases "workers p ! i")
    case WAIT
    have "workers p ! i \<in> set (workers p)" using assms(3) by (rule nth_mem)
    then have "0 < threads may_block p" using WAIT unfolding threads_def
      by (auto simp: filter_empty_conv may_block_def)
    then show ?thesis using work_step.wait [OF assms(3) WAIT] st(2) by fastforce
  next
    case CHECK
    then show ?thesis using work_step.stop [OF assms(3) CHECK st(1)] by blast
  next
    case GET
    then obtain a q n where "taskQueueGetTask (Some (taskQueue p)) (heap p) = Some (Some a, q)" "heap p a = Some n"
      using fault by (auto simp: work_fault_def split: option.splits)
    moreover from this(1) have "q \<noteq> None"
      by (auto simp: taskQueueGetTask_def split: option.splits bind_splits)
    ultimately show ?thesis using work_step.get [OF assms(3) GET] by blast
  next
    case (DO a)
    then show ?thesis using fault work_step.run [OF assms(3) DO] by (auto simp: work_fault_def)
  next
    case (FREE a)
    then show ?thesis using fault work_step.free [OF assms(3) FREE] by (auto simp: work_fault_def)
  qed (use assms(4) in simp)
qed

section \<open>Properties\<close>

text \<open>
  C11. In every reachable state of a pool, with any number of threads and users and any interleaving,
  no work thread accesses a node that is not allocated or finds the queue empty after \<open>sem_wait\<close>,
  and the tasks are taken in the order in which they were added: the tasks taken followed by the
  tasks still in the queue are all tasks added.
\<close>

theorem thread_pool_safe:
  assumes "moUtils_TP_init mallocOk mutexOk semOk createOk thNum = Inr p\<^sub>0" and "thNum \<le> SEM_VALUE_MAX"
    and "pool_reach p\<^sub>0 p"
  shows "(\<forall>i<thNum. \<not> work_fault p i) \<and>
    (\<exists>as. queue_of (taskQueue p) (heap p) as \<and> added p = taken p @ tasks_of (heap p) as)"
proof -
  have inv: "pool_inv p" using init_inv [OF assms(1,2)] pool_reach_inv [OF assms(3)] by blast
  have "length (workers p) = thNum"
    using assms(3) init_inv [OF assms(1,2)]
  proof (induction rule: pool_reach.induct)
    case (step p p' p'')
    have "length (workers p'') = length (workers p')"
      using step.hyps(2) work_step_frame(4) by (cases rule: pool_step.cases) (auto elim: user_step.cases uninit_step.cases)
    then show ?case using step by simp
  qed simp
  then show ?thesis using pool_inv_no_fault [OF inv] inv by (auto simp: pool_inv_def mem_inv_def)
qed

definition sample_pool :: THMGR_INFO where
  "sample_pool = new_pool 2 empty_queue"

lemma sample_pool_init: "moUtils_TP_init (\<lambda>_. True) True True (\<lambda>_. True) 2 = Inr sample_pool"
  by (simp add: moUtils_TP_init_def taskQueueInit_def sample_pool_def empty_queue_def numeral_2_eq_2)

definition sample_added :: THMGR_INFO where
  "sample_added = sample_pool\<lparr>taskQueue := empty_queue\<lparr>head := Some 7, tail := Some 7, taskNum := 1\<rparr>,
     heap := Map.empty(7 \<mapsto> \<lparr>taskInfo = sample_task 1, prev_node = None, next_node = None\<rparr>),
     pending := 1, added := [sample_task 1]\<rparr>"

lemma sample_added_reach: "pool_reach sample_pool sample_added"
proof -
  have "user_step sample_pool (sample_pool\<lparr>taskQueue := empty_queue\<lparr>head := Some 7, tail := Some 7, taskNum := 1\<rparr>,
      heap := Map.empty(7 \<mapsto> \<lparr>taskInfo = sample_task 1, prev_node = None, next_node = None\<rparr>),
      pending := pending sample_pool + 1, added := added sample_pool @ [sample_task 1]\<rparr>)"
    by (rule user_step.add [where a = 7]) (simp_all add: sample_pool_def new_pool_def addNode_def empty_queue_def)
  then have "user_step sample_pool sample_added"
    by (simp add: sample_added_def sample_pool_def new_pool_def)
  then show ?thesis by (blast intro: pool_reach.intros pool_step.user)
qed

theorem thread_pool_safe_witness:
  "\<not> work_fault sample_added 0 \<and> \<not> work_fault sample_added 1 \<and>
    (\<exists>as. queue_of (taskQueue sample_added) (heap sample_added) as \<and>
      added sample_added = taken sample_added @ tasks_of (heap sample_added) as)"
  using thread_pool_safe [OF sample_pool_init _ sample_added_reach] by simp

text \<open>
  C12. Every task taken is executed exactly once: at any time the executed tasks and the tasks in the
  hands of work threads are the tasks taken, and when \<open>moUtils_TP_uninit\<close> has joined all threads,
  all of them have ended and exactly the tasks taken have been executed. Tasks still waiting then are
  dropped.
\<close>

theorem thread_pool_executes_once:
  assumes "moUtils_TP_init mallocOk mutexOk semOk createOk thNum = Inr p\<^sub>0" and "thNum \<le> SEM_VALUE_MAX"
    and "pool_reach p\<^sub>0 p"
  shows "mset (taken p) = mset (executed p) + mset (in_hand p) \<and>
    (owner p = JOINED \<longrightarrow> set (workers p) \<subseteq> {EXIT} \<and> mset (executed p) = mset (taken p))"
proof -
  have inv: "pool_inv p" using init_inv [OF assms(1,2)] pool_reach_inv [OF assms(3)] by blast
  then have "exec_inv p" and "owner p = JOINED \<longrightarrow> set (workers p) \<subseteq> {EXIT}"
    by (auto simp: pool_inv_def stop_inv_def in_set_conv_nth)
  moreover have "in_hand p = []" if "set (workers p) \<subseteq> {EXIT}"
    using that by (auto simp: in_hand_def)
  ultimately show ?thesis by (auto simp: exec_inv_def)
qed

theorem thread_pool_executes_once_witness:
  "mset (taken sample_added) = mset (executed sample_added) + mset (in_hand sample_added)"
  using thread_pool_executes_once [OF sample_pool_init _ sample_added_reach] by simp

text \<open>
  C13. \<open>moUtils_TP_uninit\<close> does not hang: once its posts are done, every work thread that has not
  ended can make a step, whatever the others do, and every such step brings the threads closer to
  their end, so that all of them have ended after at most five steps per thread.
\<close>

theorem thread_pool_stops:
  assumes "moUtils_TP_init mallocOk mutexOk semOk createOk thNum = Inr p\<^sub>0" and "thNum \<le> SEM_VALUE_MAX"
    and "pool_reach p\<^sub>0 p" and "owner p = JOINING j"
  shows "(\<forall>i<length (workers p). workers p ! i \<noteq> EXIT \<longrightarrow> (\<exists>p'. work_step i p p')) \<and>
    (\<forall>i p'. work_step i p p' \<longrightarrow> pool_rank p' < pool_rank p) \<and> pool_rank p \<le> 5 * length (workers p)"
proof -
  have inv: "pool_inv p" using init_inv [OF assms(1,2)] pool_reach_inv [OF assms(3)] by blast
  then have "state p = THMGR_STATE_STOP" using assms(4) by (auto simp: pool_inv_def stop_inv_def)
  then show ?thesis
    using joining_can_step [OF inv assms(4)] work_step_rank pool_rank_bound by blast
qed

theorem thread_pool_stops_witness:
  "\<exists>p. pool_reach sample_pool p \<and> owner p = JOINING 0 \<and> workers p = [WAIT, WAIT] \<and> (\<exists>p'. work_step 1 p p')"
proof -
  let ?q = "\<lambda>n. empty_queue\<lparr>sem := n\<rparr>"
  let ?p = "\<lambda>n ow. sample_pool\<lparr>taskQueue := ?q n, state := THMGR_STATE_STOP, owner := ow\<rparr>"

  have 0: "uninit_step sample_pool (?p 0 (POSTING 0))"
    using uninit_step.stop [of sample_pool] by (simp add: sample_pool_def new_pool_def empty_queue_def)
  have 1: "uninit_step (?p n (POSTING n)) (?p (Suc n) (POSTING (Suc n)))" if "n < 2" for n
    using uninit_step.post [of "?p n (POSTING n)" n] that
    by (simp add: sample_pool_def new_pool_def empty_queue_def sem_post_def)
  have 2: "uninit_step (?p (Suc (Suc 0)) (POSTING (Suc (Suc 0)))) (?p 2 (JOINING 0))"
    using uninit_step.posted [of "?p 2 (POSTING 2)" 2]
    by (simp add: sample_pool_def new_pool_def empty_queue_def numeral_2_eq_2)
  have go: "pool_reach a b \<Longrightarrow> uninit_step b c \<Longrightarrow> pool_reach a c" for a b c
    by (blast intro: pool_reach.step pool_step.uninit)
  have "pool_reach sample_pool (?p 2 (JOINING 0))"
    by (rule go [OF go [OF go [OF go [OF pool_reach.start 0] 1] 1] 2]) simp_all
  then show ?thesis
    using thread_pool_stops [OF sample_pool_init _ , of "?p 2 (JOINING 0)" 0]
    by (intro exI [of _ "?p 2 (JOINING 0)"]) (simp add: sample_pool_def new_pool_def numeral_2_eq_2)
qed

text \<open>
  When \<open>pthread_create\<close> fails for a thread other than the first, \<open>moUtils_TP_init\<close> frees the pool
  while all threads created before still run with a pointer to it: none of them is joined.
\<close>

theorem moUtils_TP_init_leaves_threads:
  assumes "mallocOk 0" and "mallocOk 1" and "mutexOk" and "semOk"
    and "k < thNum" and "\<not> createOk k" and "\<And>i. i < k \<Longrightarrow> createOk i"
  shows "moUtils_TP_init mallocOk mutexOk semOk createOk thNum = Inl k"
proof -
  have "createThreads createOk i n = Inl k" if "i \<le> k" "k < i + n" for i n
    using that
  proof (induction n arbitrary: i)
    case (Suc n)
    then show ?case using assms(6,7) by (cases "i = k") auto
  qed simp
  then show ?thesis using assms(1-5) by (simp add: moUtils_TP_init_def taskQueueInit_def)
qed

theorem moUtils_TP_init_leaves_threads_witness:
  "moUtils_TP_init (\<lambda>_. True) True True (\<lambda>i. i < 2) 4 = Inl 2"
  by (rule moUtils_TP_init_leaves_threads) simp_all

end
