(* ===== verification/MoMD5.thy ===== *)
theory MoMD5
  imports MoFile
begin

text \<open>
  MD5 of \<open>moSdk/Crypto/MD5/src/moCrypt_MD5.c\<close> and the macros of \<open>inc/utils.h\<close>: the update of the four
  state words by a block of 64 bytes, the padding, the digest of a C string and of a file. The
  reference it is compared with is RFC 1321 as a loop over tables. Debug output and logging are left
  out. A C string is the list of the bytes of its array.
\<close>

abbreviation (input) UNIT_LEN_BYTES :: nat where
  "UNIT_LEN_BYTES \<equiv> 64"

abbreviation (input) MOD_LEN_BYTES :: nat where
  "MOD_LEN_BYTES \<equiv> 56"

abbreviation (input) MOCRYPT_MD5_ERR_OK :: int where
  "MOCRYPT_MD5_ERR_OK \<equiv> 0"

abbreviation (input) MOCRYPT_MD5_ERR_INPUTNULL :: int where
  "MOCRYPT_MD5_ERR_INPUTNULL \<equiv> -21000"

abbreviation (input) MOCRYPT_MD5_ERR_MALLOCFAIL :: int where
  "MOCRYPT_MD5_ERR_MALLOCFAIL \<equiv> -21001"

abbreviation (input) MOCRYPT_MD5_ERR_FILENOTEXIST :: int where
  "MOCRYPT_MD5_ERR_FILENOTEXIST \<equiv> -21002"

abbreviation (input) MOCRYPT_MD5_ERR_WRONGFILEMODE :: int where
  "MOCRYPT_MD5_ERR_WRONGFILEMODE \<equiv> -21003"

abbreviation (input) MOCRYPT_MD5_ERR_OPENFILEFAIL :: int where
  "MOCRYPT_MD5_ERR_OPENFILEFAIL \<equiv> -21004"

section \<open>The macros\<close>

definition ROTATE_LEFT_SHIFT :: "u32 \<Rightarrow> nat \<Rightarrow> u32" where
  "ROTATE_LEFT_SHIFT a s = push_bit s a OR drop_bit (32 - s) a"

definition F :: "u32 \<Rightarrow> u32 \<Rightarrow> u32 \<Rightarrow> u32" where
  "F X Y Z = (X AND Y) OR (NOT X AND Z)"

definition G :: "u32 \<Rightarrow> u32 \<Rightarrow> u32 \<Rightarrow> u32" where
  "G X Y Z = (X AND Z) OR (Y AND NOT Z)"

definition H :: "u32 \<Rightarrow> u32 \<Rightarrow> u32 \<Rightarrow> u32" where
  "H X Y Z = X XOR Y XOR Z"

definition I :: "u32 \<Rightarrow> u32 \<Rightarrow> u32 \<Rightarrow> u32" where
  "I X Y Z = Y XOR (X OR NOT Z)"

text \<open>
  The four variables \<open>a\<close>, \<open>b\<close>, \<open>c\<close>, \<open>d\<close>, and the assignment that the macros make to their first
  argument. The constants \<open>t\<close> are of type \<open>long\<close>: the sum is reduced to 32 bits when it is assigned.
\<close>

type_synonym vars = "u32 \<times> u32 \<times> u32 \<times> u32"

definition md5_assign :: "(u32 \<Rightarrow> u32 \<Rightarrow> u32 \<Rightarrow> u32) \<Rightarrow> u32 \<Rightarrow> u32 \<Rightarrow> u32 \<Rightarrow> u32 \<Rightarrow> u32 \<Rightarrow> nat \<Rightarrow> u32 \<Rightarrow> u32" where
  "md5_assign f a b c d k s t = ROTATE_LEFT_SHIFT (a + (k + t + f b c d)) s + b"

text \<open>\<open>FF\<close> with \<open>a\<close>, \<open>d\<close>, \<open>c\<close>, \<open>b\<close> as its first argument.\<close>

definition FF_a :: "u32 \<Rightarrow> nat \<Rightarrow> u32 \<Rightarrow> vars \<Rightarrow> vars" where
  "FF_a k s t = (\<lambda>(a, b, c, d). (md5_assign F a b c d k s t, b, c, d))"

definition FF_d :: "u32 \<Rightarrow> nat \<Rightarrow> u32 \<Rightarrow> vars \<Rightarrow> vars" where
  "FF_d k s t = (\<lambda>(a, b, c, d). (a, b, c, md5_assign F d a b c k s t))"

definition FF_c :: "u32 \<Rightarrow> nat \<Rightarrow> u32 \<Rightarrow> vars \<Rightarrow> vars" where
  "FF_c k s t = (\<lambda>(a, b, c, d). (a, b, md5_assign F c d a b k s t, d))"

definition FF_b :: "u32 \<Rightarrow> nat \<Rightarrow> u32 \<Rightarrow> vars \<Rightarrow> vars" where
  "FF_b k s t = (\<lambda>(a, b, c, d). (a, md5_assign F b c d a k s t, c, d))"

text \<open>\<open>GG\<close> with \<open>a\<close>, \<open>d\<close>, \<open>c\<close>, \<open>b\<close> as its first argument.\<close>

definition GG_a :: "u32 \<Rightarrow> nat \<Rightarrow> u32 \<Rightarrow> vars \<Rightarrow> vars" where
  "GG_a k s t = (\<lambda>(a, b, c, d). (md5_assign G a b c d k s t, b, c, d))"

definition GG_d :: "u32 \<Rightarrow> nat \<Rightarrow> u32 \<Rightarrow> vars \<Rightarrow> vars" where
  "GG_d k s t = (\<lambda>(a, b, c, d). (a, b, c, md5_assign G d a b c k s t))"

definition GG_c :: "u32 \<Rightarrow> nat \<Rightarrow> u32 \<Rightarrow> vars \<Rightarrow> vars" where
  "GG_c k s t = (\<lambda>(a, b, c, d). (a, b, md5_assign G c d a b k s t, d))"

definition GG_b :: "u32 \<Rightarrow> nat \<Rightarrow> u32 \<Rightarrow> vars \<Rightarrow> vars" where
  "GG_b k s t = (\<lambda>(a, b, c, d). (a, md5_assign G b c d a k s t, c, d))"

text \<open>\<open>HH\<close> with \<open>a\<close>, \<open>d\<close>, \<open>c\<close>, \<open>b\<close> as its first argument.\<close>

definition HH_a :: "u32 \<Rightarrow> nat \<Rightarrow> u32 \<Rightarrow> vars \<Rightarrow> vars" where
  "HH_a k s t = (\<lambda>(a, b, c, d). (md5_assign H a b c d k s t, b, c, d))"

definition HH_d :: "u32 \<Rightarrow> nat \<Rightarrow> u32 \<Rightarrow> vars \<Rightarrow> vars" where
  "HH_d k s t = (\<lambda>(a, b, c, d). (a, b, c, md5_assign H d a b c k s t))"

definition HH_c :: "u32 \<Rightarrow> nat \<Rightarrow> u32 \<Rightarrow> vars \<Rightarrow> vars" where
  "HH_c k s t = (\<lambda>(a, b, c, d). (a, b, md5_assign H c d a b k s t, d))"

definition HH_b :: "u32 \<Rightarrow> nat \<Rightarrow> u32 \<Rightarrow> vars \<Rightarrow> vars" where
  "HH_b k s t = (\<lambda>(a, b, c, d). (a, md5_assign H b c d a k s t, c, d))"

text \<open>\<open>II\<close> with \<open>a\<close>, \<open>d\<close>, \<open>c\<close>, \<open>b\<close> as its first argument.\<close>

definition II_a :: "u32 \<Rightarrow> nat \<Rightarrow> u32 \<Rightarrow> vars \<Rightarrow> vars" where
  "II_a k s t = (\<lambda>(a, b, c, d). (md5_assign I a b c d k s t, b, c, d))"

definition II_d :: "u32 \<Rightarrow> nat \<Rightarrow> u32 \<Rightarrow> vars \<Rightarrow> vars" where
  "II_d k s t = (\<lambda>(a, b, c, d). (a, b, c, md5_assign I d a b c k s t))"

definition II_c :: "u32 \<Rightarrow> nat \<Rightarrow> u32 \<Rightarrow> vars \<Rightarrow> vars" where
  "II_c k s t = (\<lambda>(a, b, c, d). (a, b, md5_assign I c d a b k s t, d))"

definition II_b :: "u32 \<Rightarrow> nat \<Rightarrow> u32 \<Rightarrow> vars \<Rightarrow> vars" where
  "II_b k s t = (\<lambda>(a, b, c, d). (a, md5_assign I b c d a k s t, c, d))"

abbreviation (input) S11 :: nat where
  "S11 \<equiv> 7"

abbreviation (input) S12 :: nat where
  "S12 \<equiv> 12"

abbreviation (input) S13 :: nat where
  "S13 \<equiv> 17"

abbreviation (input) S14 :: nat where
  "S14 \<equiv> 22"

abbreviation (input) S21 :: nat where
  "S21 \<equiv> 5"

abbreviation (input) S22 :: nat where
  "S22 \<equiv> 9"

abbreviation (input) S23 :: nat where
  "S23 \<equiv> 14"

abbreviation (input) S24 :: nat where
  "S24 \<equiv> 20"

abbreviation (input) S31 :: nat where
  "S31 \<equiv> 4"

abbreviation (input) S32 :: nat where
  "S32 \<equiv> 11"

abbreviation (input) S33 :: nat where
  "S33 \<equiv> 16"

abbreviation (input) S34 :: nat where
  "S34 \<equiv> 23"

abbreviation (input) S41 :: nat where
  "S41 \<equiv> 6"

abbreviation (input) S42 :: nat where
  "S42 \<equiv> 10"

abbreviation (input) S43 :: nat where
  "S43 \<equiv> 15"

abbreviation (input) S44 :: nat where
  "S44 \<equiv> 21"

section \<open>The update by a block\<close>

record STATES =
  state :: "u32 list"

text \<open>The result is \<open>None\<close> when the block has fewer than 64 bytes or the state not four words.\<close>

definition md5_rounds :: "u32 list \<Rightarrow> vars \<Rightarrow> vars" where
  "md5_rounds M v = (
     let v = FF_a (M ! 0) S11 0xd76aa478 v in
     let v = FF_d (M ! 1) S12 0xe8c7b756 v in
     let v = FF_c (M ! 2) S13 0x242070db v in
     let v = FF_b (M ! 3) S14 0xc1bdceee v in
     let v = FF_a (M ! 4) S11 0xf57c0faf v in
     let v = FF_d (M ! 5) S12 0x4787c62a v in
     let v = FF_c (M ! 6) S13 0xa8304613 v in
     let v = FF_b (M ! 7) S14 0xfd469501 v in
     let v = FF_a (M ! 8) S11 0x698098d8 v in
     let v = FF_d (M ! 9) S12 0x8b44f7af v in
     let v = FF_c (M ! 10) S13 0xffff5bb1 v in
     let v = FF_b (M ! 11) S14 0x895cd7be v in
     let v = FF_a (M ! 12) S11 0x6b901122 v in
     let v = FF_d (M ! 13) S12 0xfd987193 v in
     let v = FF_c (M ! 14) S13 0xa679438e v in
     let v = FF_b (M ! 15) S14 0x49b40821 v in
     let v = GG_a (M ! 1) S21 0xf61e2562 v in
     let v = GG_d (M ! 6) S22 0xc040b340 v in
     let v = GG_c (M ! 11) S23 0x265e5a51 v in
     let v = GG_b (M ! 0) S24 0xe9b6c7aa v in
     let v = GG_a (M ! 5) S21 0xd62f105d v in
     let v = GG_d (M ! 10) S22 0x02441453 v in
     let v = GG_c (M ! 15) S23 0xd8a1e681 v in
     let v = GG_b (M ! 4) S24 0xe7d3fbc8 v in
     let v = GG_a (M ! 9) S21 0x21e1cde6 v in
     let v = GG_d (M ! 14) S22 0xc33707d6 v in
     let v = GG_c (M ! 3) S23 0xf4d50d87 v in
     let v = GG_b (M ! 8) S24 0x455a14ed v in
     let v = GG_a (M ! 13) S21 0xa9e3e905 v in
     let v = GG_d (M ! 2) S22 0xfcefa3f8 v in
     let v = GG_c (M ! 7) S23 0x676f02d9 v in
     let v = GG_b (M ! 12) S24 0x8d2a4c8a v in
     let v = HH_a (M ! 5) S31 0xfffa3942 v in
     let v = HH_d (M ! 8) S32 0x8771f681 v in
     let v = HH_c (M ! 11) S33 0x6d9d6122 v in
     let v = HH_b (M ! 14) S34 0xfde5380c v in
     let v = HH_a (M ! 1) S31 0xa4beea44 v in
     let v = HH_d (M ! 4) S32 0x4bdecfa9 v in
     let v = HH_c (M ! 7) S33 0xf6bb4b60 v in
     let v = HH_b (M ! 10) S34 0xbebfbc70 v in
     let v = HH_a (M ! 13) S31 0x289b7ec6 v in
     let v = HH_d (M ! 0) S32 0xeaa127fa v in
     let v = HH_c (M ! 3) S33 0xd4ef3085 v in
     let v = HH_b (M ! 6) S34 0x04881d05 v in
     let v = HH_a (M ! 9) S31 0xd9d4d039 v in
     let v = HH_d (M ! 12) S32 0xe6db99e5 v in
     let v = HH_c (M ! 15) S33 0x1fa27cf8 v in
     let v = HH_b (M ! 2) S34 0xc4ac5665 v in
     let v = II_a (M ! 0) S41 0xf4292244 v in
     let v = II_d (M ! 7) S42 0x432aff97 v in
     let v = II_c (M ! 14) S43 0xab9423a7 v in
     let v = II_b (M ! 5) S44 0xfc93a039 v in
     let v = II_a (M ! 12) S41 0x655b59c3 v in
     let v = II_d (M ! 3) S42 0x8f0ccc92 v in
     let v = II_c (M ! 10) S43 0xffeff47d v in
     let v = II_b (M ! 1) S44 0x85845dd1 v in
     let v = II_a (M ! 8) S41 0x6fa87e4f v in
     let v = II_d (M ! 15) S42 0xfe2ce6e0 v in
     let v = II_c (M ! 6) S43 0xa3014314 v in
     let v = II_b (M ! 13) S44 0x4e0811a1 v in
     let v = II_a (M ! 4) S41 0xf7537e82 v in
     let v = II_d (M ! 11) S42 0xbd3af235 v in
     let v = II_c (M ! 2) S43 0x2ad7d2bb v in
     II_b (M ! 9) S44 0xeb86d391 v)"

definition updateUnitStates :: "byte list \<Rightarrow> STATES \<Rightarrow> STATES option" where
  "updateUnitStates pStart pState = do {
     M \<leftarrow> foldM (\<lambda>i M. do {
       b0 \<leftarrow> rd pStart (i * 4 + 0);
       b1 \<leftarrow> rd pStart (i * 4 + 1);
       b2 \<leftarrow> rd pStart (i * 4 + 2);
       b3 \<leftarrow> rd pStart (i * 4 + 3);
       wr M i (push_bit 0 (ucast b0) + push_bit 8 (ucast b1) + push_bit 16 (ucast b2) + push_bit 24 (ucast b3))
     }) [0..<16] (replicate 16 0);
     a \<leftarrow> rd (state pState) 0;
     b \<leftarrow> rd (state pState) 1;
     c \<leftarrow> rd (state pState) 2;
     d \<leftarrow> rd (state pState) 3;
     let (a', b', c', d') = md5_rounds M (a, b, c, d);
     Some \<lparr>state = [a + a', b + b', c + c', d + d']\<rparr>
   }"

definition final :: "STATES \<Rightarrow> byte list \<Rightarrow> byte list option" where
  "final pState md5 =
     foldM (\<lambda>i md5. do {
       w \<leftarrow> rd (state pState) (i div 4);
       wr md5 i (ucast (drop_bit (i mod 4 * 8) w))
     }) [0..<16] md5"

definition INIT_STATES :: STATES where
  "INIT_STATES = \<lparr>state = [0x67452301, 0xefcdab89, 0x98badcfe, 0x10325476]\<rparr>"

section \<open>Strings\<close>

text \<open>
  \<open>strlen\<close> of an array: the position of its first zero byte; \<open>None\<close> when there is none inside it.
\<close>

definition strlen :: "byte list \<Rightarrow> nat option" where
  "strlen s = (let n = length (takeWhile (\<lambda>b. b \<noteq> 0) s) in if n < length s then Some n else None)"

text \<open>The eight bytes of an \<open>unsigned long long\<close> in memory, lowest first.\<close>

definition u64_bytes :: "64 word \<Rightarrow> byte list" where
  "u64_bytes n = map (\<lambda>i. ucast (drop_bit (8 * i) n)) [0..<8]"

record STR_INFO =
  orgBitsNum :: "64 word"
  orgUnitsNum :: nat
  appendUnitsNum :: nat
  pOrgUnit :: "byte ptr"
  pAppendUnit :: "byte ptr"
  states :: STATES

definition initStrInfo :: STR_INFO where
  "initStrInfo = \<lparr>orgBitsNum = 0, orgUnitsNum = 0, appendUnitsNum = 0, pOrgUnit = None, pAppendUnit = None,
     states = INIT_STATES\<rparr>"

text \<open>
  The length is an \<open>int\<close>: its shift by 3 is undefined from \<open>2 ^ 28\<close> bytes on. \<open>writeUnits\<close> fills the
  appended units: the rest of the data, the byte \<open>0x80\<close>, and the number of bits at the end.
\<close>

definition writeUnits :: "byte list \<Rightarrow> byte list \<Rightarrow> nat \<Rightarrow> 64 word \<Rightarrow> byte list option" where
  "writeUnits buf lastData unitsNum bitsNum = do {
     buf \<leftarrow> wrn buf 0 lastData;
     buf \<leftarrow> wr buf (length lastData) 0x80;
     wrn buf (unitsNum * UNIT_LEN_BYTES - 8) (u64_bytes bitsNum)
   }"

definition appendCont2Str :: "(nat \<Rightarrow> bool) \<Rightarrow> byte list \<Rightarrow> STR_INFO \<Rightarrow> (int \<times> STR_INFO) option" where
  "appendCont2Str mallocOk pCont pInfo = do {
     orgStrLen \<leftarrow> strlen pCont;
     if int orgStrLen \<ge> 2 ^ 28 then None
     else do {
       let pInfo = pInfo\<lparr>orgBitsNum := push_bit 3 (word_of_nat orgStrLen), orgUnitsNum := orgStrLen div UNIT_LEN_BYTES,
         pOrgUnit := Some pCont\<rparr>;
       let remainderBytesNum = orgStrLen mod UNIT_LEN_BYTES;
       let pInfo = pInfo\<lparr>appendUnitsNum := (if remainderBytesNum < MOD_LEN_BYTES then 1 else 2)\<rparr>;
       if \<not> mallocOk (appendUnitsNum pInfo * UNIT_LEN_BYTES) then Some (MOCRYPT_MD5_ERR_MALLOCFAIL, pInfo)
       else do {
         let buf = replicate (appendUnitsNum pInfo * UNIT_LEN_BYTES) 0;
         let orgLastUnitDataBytes = orgStrLen mod UNIT_LEN_BYTES;
         lastData \<leftarrow> rdn pCont (orgUnitsNum pInfo * UNIT_LEN_BYTES) orgLastUnitDataBytes;
         buf \<leftarrow> writeUnits buf lastData (appendUnitsNum pInfo) (orgBitsNum pInfo);
         Some (MOCRYPT_MD5_ERR_OK, pInfo\<lparr>pAppendUnit := Some buf\<rparr>)
       }
     }
   }"

text \<open>A loop of updates over consecutive units.\<close>

definition updateUnits :: "byte list \<Rightarrow> nat \<Rightarrow> STATES \<Rightarrow> STATES option" where
  "updateUnits p unitsNum st =
     foldM (\<lambda>i st. do { u \<leftarrow> rdn p (i * UNIT_LEN_BYTES) UNIT_LEN_BYTES; updateUnitStates u st }) [0..<unitsNum] st"

definition updateStrStates :: "STR_INFO \<Rightarrow> STR_INFO option" where
  "updateStrStates pInfo = do {
     org \<leftarrow> pOrgUnit pInfo;
     st \<leftarrow> updateUnits org (orgUnitsNum pInfo) (states pInfo);
     app \<leftarrow> pAppendUnit pInfo;
     st \<leftarrow> updateUnits app (appendUnitsNum pInfo) st;
     Some (pInfo\<lparr>states := st\<rparr>)
   }"

text \<open>\<open>pValue\<close> is the array of 16 bytes behind the pointer.\<close>

definition moCrypt_MD5_String :: "(nat \<Rightarrow> bool) \<Rightarrow> byte ptr \<Rightarrow> byte ptr \<Rightarrow> (int \<times> byte ptr) option" where
  "moCrypt_MD5_String mallocOk pCont pValue =
     (case (pCont, pValue) of
        (Some cont, Some md5) \<Rightarrow> do {
          (ret, info) \<leftarrow> appendCont2Str mallocOk cont initStrInfo;
          if ret \<noteq> 0 then Some (ret, pValue)
          else do {
            info \<leftarrow> updateStrStates info;
            md5 \<leftarrow> final (states info) md5;
            Some (MOCRYPT_MD5_ERR_OK, Some md5)
          }
        }
      | _ \<Rightarrow> Some (MOCRYPT_MD5_ERR_INPUTNULL, pValue))"

section \<open>Files\<close>

definition checkFile :: "os \<Rightarrow> string option \<Rightarrow> int" where
  "checkFile os pFilepath =
     (case pFilepath of
        None \<Rightarrow> MOCRYPT_MD5_ERR_INPUTNULL
      | Some p \<Rightarrow>
          (case os_stat os p of
             None \<Rightarrow> MOCRYPT_MD5_ERR_FILENOTEXIST
           | Some st \<Rightarrow>
               if st_mode st \<noteq> S_IFREG \<and> st_mode st \<noteq> S_IFLNK then MOCRYPT_MD5_ERR_WRONGFILEMODE
               else MOCRYPT_MD5_ERR_OK))"

record FILE_INFO =
  pFd :: "byte list option"
  orgCompleteUnitsNum :: nat
  file_states :: STATES

text \<open>
  The file is opened with mode \<open>"rb+"\<close>, which needs the permission to write it. An open stream is the
  list of bytes that are left to read.
\<close>

definition initFileInfo :: "os \<Rightarrow> files \<Rightarrow> string \<Rightarrow> int \<times> FILE_INFO" where
  "initFileInfo os fs pFilepath =
     (let info = \<lparr>pFd = None, orgCompleteUnitsNum = 0, file_states = INIT_STATES\<rparr> in
      (case fs pFilepath of
         None \<Rightarrow> (MOCRYPT_MD5_ERR_OPENFILEFAIL, info)
       | Some content \<Rightarrow>
           if \<not> os_writable os pFilepath then (MOCRYPT_MD5_ERR_OPENFILEFAIL, info)
           else (MOCRYPT_MD5_ERR_OK, info\<lparr>pFd := Some content\<rparr>)))"

text \<open>The loop over the complete units; the result also holds the bytes of the last, shorter read.\<close>

function readUnits :: "byte list \<Rightarrow> nat \<Rightarrow> STATES \<Rightarrow> (byte list \<times> nat \<times> STATES) option" where
  "readUnits fd unitsNum st =
     (if length (take UNIT_LEN_BYTES fd) = UNIT_LEN_BYTES
      then do {
        st \<leftarrow> updateUnitStates (take UNIT_LEN_BYTES fd) st;
        readUnits (drop UNIT_LEN_BYTES fd) (unitsNum + 1) st
      }
      else Some (take UNIT_LEN_BYTES fd, unitsNum, st))"
  by pat_completeness auto
termination by (relation "measure (\<lambda>(fd, n, st). length fd)") (auto simp: min_def split: if_splits)

declare readUnits.simps [simp del]

definition updateFileStates :: "(nat \<Rightarrow> bool) \<Rightarrow> FILE_INFO \<Rightarrow> (int \<times> FILE_INFO) option" where
  "updateFileStates mallocOk pInfo = do {
     fd \<leftarrow> pFd pInfo;
     (lastData, unitsNum, st) \<leftarrow> readUnits fd (orgCompleteUnitsNum pInfo) (file_states pInfo);
     let pInfo = pInfo\<lparr>orgCompleteUnitsNum := unitsNum, file_states := st\<rparr>;
     let appendUnitNum = (if length lastData < MOD_LEN_BYTES then 1 else 2);
     if \<not> mallocOk (appendUnitNum * UNIT_LEN_BYTES) then Some (MOCRYPT_MD5_ERR_MALLOCFAIL, pInfo)
     else do {
       let buf = replicate (appendUnitNum * UNIT_LEN_BYTES) 0;
       let bitsNum = push_bit 3 (word_of_nat unitsNum * 64 + word_of_nat (length lastData));
       buf \<leftarrow> writeUnits buf lastData appendUnitNum bitsNum;
       st \<leftarrow> updateUnits buf appendUnitNum st;
       Some (MOCRYPT_MD5_ERR_OK, pInfo\<lparr>file_states := st\<rparr>)
     }
   }"

definition moCrypt_MD5_File :: "os \<Rightarrow> files \<Rightarrow> string option \<Rightarrow> byte ptr \<Rightarrow> (int \<times> byte ptr) option" where
  "moCrypt_MD5_File os fs pSrcFilepath pValue =
     (case (pSrcFilepath, pValue) of
        (Some p, Some md5) \<Rightarrow>
          let ret = checkFile os (Some p) in
          if ret \<noteq> 0 then Some (ret, pValue)
          else (case initFileInfo os fs p of
              (ret, info) \<Rightarrow>
                if ret \<noteq> 0 then Some (ret, pValue)
                else do {
                  (ret, info) \<leftarrow> updateFileStates (os_malloc os) info;
                  if ret \<noteq> 0 then Some (ret, pValue)
                  else do {
                    md5 \<leftarrow> final (file_states info) md5;
                    Some (MOCRYPT_MD5_ERR_OK, Some md5)
                  }
                })
      | _ \<Rightarrow> Some (MOCRYPT_MD5_ERR_INPUTNULL, pValue))"

section \<open>RFC 1321\<close>

text \<open>
  The reference: 64 operations on a state that rotates, with the message word, the shift and the
  constant of each operation taken from tables, and a padding that is defined for a message of any
  length.
\<close>

definition md5_shift :: "nat \<Rightarrow> nat" where
  "md5_shift i = [[7, 12, 17, 22], [5, 9, 14, 20], [4, 11, 16, 23], [6, 10, 15, 21]] ! (i div 16) ! (i mod 4)"

definition md5_index :: "nat \<Rightarrow> nat" where
  "md5_index i = [i, 5 * i + 1, 3 * i + 5, 7 * i] ! (i div 16) mod 16"

definition md5_fun :: "nat \<Rightarrow> u32 \<Rightarrow> u32 \<Rightarrow> u32 \<Rightarrow> u32" where
  "md5_fun i = [F, G, H, I] ! (i div 16)"

definition md5_const :: "u32 list" where
  "md5_const = [
     0xd76aa478, 0xe8c7b756, 0x242070db, 0xc1bdceee,
     0xf57c0faf, 0x4787c62a, 0xa8304613, 0xfd469501,
     0x698098d8, 0x8b44f7af, 0xffff5bb1, 0x895cd7be,
     0x6b901122, 0xfd987193, 0xa679438e, 0x49b40821,
     0xf61e2562, 0xc040b340, 0x265e5a51, 0xe9b6c7aa,
     0xd62f105d, 0x02441453, 0xd8a1e681, 0xe7d3fbc8,
     0x21e1cde6, 0xc33707d6, 0xf4d50d87, 0x455a14ed,
     0xa9e3e905, 0xfcefa3f8, 0x676f02d9, 0x8d2a4c8a,
     0xfffa3942, 0x8771f681, 0x6d9d6122, 0xfde5380c,
     0xa4beea44, 0x4bdecfa9, 0xf6bb4b60, 0xbebfbc70,
     0x289b7ec6, 0xeaa127fa, 0xd4ef3085, 0x04881d05,
     0xd9d4d039, 0xe6db99e5, 0x1fa27cf8, 0xc4ac5665,
     0xf4292244, 0x432aff97, 0xab9423a7, 0xfc93a039,
     0x655b59c3, 0x8f0ccc92, 0xffeff47d, 0x85845dd1,
     0x6fa87e4f, 0xfe2ce6e0, 0xa3014314, 0x4e0811a1,
     0xf7537e82, 0xbd3af235, 0x2ad7d2bb, 0xeb86d391]"

definition md5_op :: "u32 list \<Rightarrow> nat \<Rightarrow> vars \<Rightarrow> vars" where
  "md5_op M i = (\<lambda>(a, b, c, d).
     (d, b + word_rotl (md5_shift i) (a + md5_fun i b c d + md5_const ! i + M ! md5_index i), b, c))"

definition le_word :: "byte list \<Rightarrow> u32" where
  "le_word bs = word_of_nat (unat (bs ! 0) + 2 ^ 8 * unat (bs ! 1) + 2 ^ 16 * unat (bs ! 2) + 2 ^ 24 * unat (bs ! 3))"

definition md5_compress :: "byte list \<Rightarrow> vars \<Rightarrow> vars" where
  "md5_compress blk v =
     (case (v, fold (md5_op (map (\<lambda>i. le_word (take 4 (drop (4 * i) blk))) [0..<16])) [0..<64] v) of
        ((a, b, c, d), (a', b', c', d')) \<Rightarrow> (a + a', b + b', c + c', d + d'))"

definition md5_pad :: "byte list \<Rightarrow> byte list" where
  "md5_pad x = x @ 0x80 # replicate ((119 - length x mod 64) mod 64) 0 @ u64_bytes (8 * word_of_nat (length x))"

definition md5_digest :: "vars \<Rightarrow> byte list" where
  "md5_digest = (\<lambda>(a, b, c, d). concat (map (\<lambda>w. map (\<lambda>i. ucast (drop_bit (8 * i) w)) [0..<4]) [a, b, c, d]))"

definition md5 :: "byte list \<Rightarrow> byte list" where
  "md5 x = md5_digest (fold md5_compress (blocks_of 64 (md5_pad x)) (0x67452301, 0xefcdab89, 0x98badcfe, 0x10325476))"

section \<open>The straight-line code is the loop of RFC 1321\<close>

lemma ROTATE_LEFT_SHIFT_eq:
  assumes "0 < s" and "s < 32"
  shows "ROTATE_LEFT_SHIFT a s = word_rotl s a"
proof (rule bit_word_eqI)
  fix n
  assume "n < LENGTH(32)"
  then have n: "n < 32" by simp
  show "bit (ROTATE_LEFT_SHIFT a s) n = bit (word_rotl s a) n"
  proof (cases "s \<le> n")
    case True
    then have "(n + (32 - s)) mod 32 = n - s" using n assms by (simp add: mod_if)
    moreover have "\<not> bit a (32 - s + n)" using True assms by (intro notI) (auto dest: bit_imp_le_length)
    ultimately show ?thesis using n assms True
      by (simp add: ROTATE_LEFT_SHIFT_def bit_or_iff bit_push_bit_iff bit_drop_bit_eq bit_word_rotl_iff)
  next
    case False
    then have "(n + (32 - s)) mod 32 = 32 - s + n" using n assms by simp
    then show ?thesis using n assms False
      by (simp add: ROTATE_LEFT_SHIFT_def bit_or_iff bit_push_bit_iff bit_drop_bit_eq bit_word_rotl_iff)
  qed
qed

text \<open>One operation of the reference with its parameters given.\<close>

definition md5_gen :: "(u32 \<Rightarrow> u32 \<Rightarrow> u32 \<Rightarrow> u32) \<Rightarrow> u32 \<Rightarrow> nat \<Rightarrow> u32 \<Rightarrow> vars \<Rightarrow> vars" where
  "md5_gen f k s t = (\<lambda>(a, b, c, d). (d, b + ROTATE_LEFT_SHIFT (a + (k + t + f b c d)) s, b, c))"

lemma md5_quad:
  "FF_b k4 s4 t4 (FF_c k3 s3 t3 (FF_d k2 s2 t2 (FF_a k1 s1 t1 v))) =
    md5_gen F k4 s4 t4 (md5_gen F k3 s3 t3 (md5_gen F k2 s2 t2 (md5_gen F k1 s1 t1 v)))"
  "GG_b k4 s4 t4 (GG_c k3 s3 t3 (GG_d k2 s2 t2 (GG_a k1 s1 t1 v))) =
    md5_gen G k4 s4 t4 (md5_gen G k3 s3 t3 (md5_gen G k2 s2 t2 (md5_gen G k1 s1 t1 v)))"
  "HH_b k4 s4 t4 (HH_c k3 s3 t3 (HH_d k2 s2 t2 (HH_a k1 s1 t1 v))) =
    md5_gen H k4 s4 t4 (md5_gen H k3 s3 t3 (md5_gen H k2 s2 t2 (md5_gen H k1 s1 t1 v)))"
  "II_b k4 s4 t4 (II_c k3 s3 t3 (II_d k2 s2 t2 (II_a k1 s1 t1 v))) =
    md5_gen I k4 s4 t4 (md5_gen I k3 s3 t3 (md5_gen I k2 s2 t2 (md5_gen I k1 s1 t1 v)))"
  by (cases v; simp add: FF_a_def FF_b_def FF_c_def FF_d_def GG_a_def GG_b_def GG_c_def GG_d_def HH_a_def
      HH_b_def HH_c_def HH_d_def II_a_def II_b_def II_c_def II_d_def md5_gen_def md5_assign_def add.commute)+

lemma md5_op_gen:
  assumes "0 < md5_shift i" and "md5_shift i < 32"
  shows "md5_op M i = md5_gen (md5_fun i) (M ! md5_index i) (md5_shift i) (md5_const ! i)"
  using ROTATE_LEFT_SHIFT_eq [OF assms]
  by (simp add: md5_op_def md5_gen_def fun_eq_iff add.assoc add.commute add.left_commute)

lemma upt_64:
  "[0..<64] =
    [0, 1, 2, 3, 4, 5, 6, 7, 8, 9, 10, 11, 12, 13, 14, 15,
     16, 17, 18, 19, 20, 21, 22, 23, 24, 25, 26, 27, 28, 29, 30, 31,
     32, 33, 34, 35, 36, 37, 38, 39, 40, 41, 42, 43, 44, 45, 46, 47,
     48, 49, 50, 51, 52, 53, 54, 55, 56, 57, 58, 59, 60, 61, 62, 63]"
  by code_simp

lemma md5_rounds_eq: "md5_rounds M v = fold (md5_op M) [0..<64] v"
proof -
  have rounds: "md5_rounds M v = fold (\<lambda>i. md5_gen (md5_fun i) (M ! md5_index i) (md5_shift i) (md5_const ! i)) [0..<64] v"
    unfolding md5_rounds_def Let_def md5_quad upt_64
    by (simp add: md5_fun_def md5_index_def md5_shift_def md5_const_def)
  have "md5_op M i = md5_gen (md5_fun i) (M ! md5_index i) (md5_shift i) (md5_const ! i)" if "i < 64" for i
  proof (rule md5_op_gen)
    have "i div 16 \<in> {0, 1, 2, 3}" "i mod 4 \<in> {0, 1, 2, 3}" using that by auto
    then show "0 < md5_shift i" "md5_shift i < 32" by (auto simp: md5_shift_def numeral_3_eq_3 numeral_2_eq_2)
  qed
  then have "fold (\<lambda>i. md5_gen (md5_fun i) (M ! md5_index i) (md5_shift i) (md5_const ! i)) [0..<64] v =
      fold (md5_op M) [0..<64] v"
    by (intro fold_cong) simp_all
  then show ?thesis using rounds by simp
qed

section \<open>Blocks\<close>

definition st_of :: "vars \<Rightarrow> STATES" where
  "st_of = (\<lambda>(a, b, c, d). \<lparr>state = [a, b, c, d]\<rparr>)"

lemma le_word_eq:
  "(push_bit 0 (ucast b0) + push_bit 8 (ucast b1) + push_bit 16 (ucast b2) + push_bit 24 (ucast b3) :: u32) =
    le_word [b0, b1, b2, b3]"
  by (simp add: le_word_def push_bit_eq_mult numeral_3_eq_3 numeral_2_eq_2)

lemma take_4_drop: "i + 4 \<le> length xs \<Longrightarrow> take 4 (drop i xs) = [xs ! i, xs ! (i + 1), xs ! (i + 2), xs ! (i + 3)]"
  by (simp add: list_eq_iff_nth less_Suc_eq numeral_eq_Suc)

lemma updateUnitStates_eq:
  assumes "length blk = 64"
  shows "updateUnitStates blk (st_of v) = Some (st_of (md5_compress blk v))"
proof -
  let ?w = "\<lambda>i. le_word (take 4 (drop (4 * i) blk))"
  have "foldM (\<lambda>i M. do {
       b0 \<leftarrow> rd blk (i * 4 + 0);
       b1 \<leftarrow> rd blk (i * 4 + 1);
       b2 \<leftarrow> rd blk (i * 4 + 2);
       b3 \<leftarrow> rd blk (i * 4 + 3);
       wr M i (push_bit 0 (ucast b0) + push_bit 8 (ucast b1) + push_bit 16 (ucast b2) + push_bit 24 (ucast b3))
     }) [0..<16] (replicate 16 0) = foldM (\<lambda>i M. wr M i (?w i)) [0..<16] (replicate 16 0)"
  proof (rule foldM_cong)
    fix i :: nat and M :: "u32 list"
    assume "i \<in> set [0..<16]"
    then have i: "4 * i + 4 \<le> length blk" using assms by simp
    show "(do {
       b0 \<leftarrow> rd blk (i * 4 + 0);
       b1 \<leftarrow> rd blk (i * 4 + 1);
       b2 \<leftarrow> rd blk (i * 4 + 2);
       b3 \<leftarrow> rd blk (i * 4 + 3);
       wr M i (push_bit 0 (ucast b0) + push_bit 8 (ucast b1) + push_bit 16 (ucast b2) + push_bit 24 (ucast b3))
     }) = wr M i (?w i)"
      unfolding le_word_eq take_4_drop [OF i] using i by (simp add: mult.commute)
  qed
  also have "\<dots> = Some (map ?w [0..<16])" by (subst foldM_wr_fill) simp_all
  finally show ?thesis
    by (cases v) (auto simp: updateUnitStates_def st_of_def md5_compress_def md5_rounds_eq split: prod.split)
qed

lemma blocks_of_append:
  "n dvd length xs \<Longrightarrow> 0 < n \<Longrightarrow> blocks_of n (xs @ ys) = blocks_of n xs @ blocks_of n ys"
proof (induction xs rule: length_induct)
  case (1 xs)
  show ?case
  proof (cases "xs = []")
    case False
    then have "n \<le> length xs" using 1(2) by (auto dest: dvd_imp_le)
    moreover have "n dvd length (drop n xs)" using 1(2) by (simp add: dvd_diff_nat)
    moreover have "length (drop n xs) < length xs" using False 1(3) by simp
    ultimately show ?thesis using 1(1) 1(3) False by (simp add: blocks_of_step)
  qed simp
qed

lemma updateUnits_eq:
  assumes "length p = 64 * n"
  shows "updateUnits (p @ rest) n (st_of v) = Some (st_of (fold md5_compress (blocks_of 64 p) v))"
  using assms
proof (induction n arbitrary: p rest)
  case 0
  then show ?case by (simp add: updateUnits_def)
next
  case (Suc n)
  let ?p = "take (64 * n) p" and ?u = "drop (64 * n) p"
  have u: "length ?u = 64" "length ?p = 64 * n" using Suc.prems by simp_all
  have "?p @ ?u @ rest = p @ rest" by (metis append.assoc append_take_drop_id)
  then have "updateUnits (p @ rest) n (st_of v) = Some (st_of (fold md5_compress (blocks_of 64 ?p) v))"
    using Suc.IH [OF u(2), of "?u @ rest"] by metis
  moreover have "take 64 (drop (64 * n) (p @ rest)) = ?u" using Suc.prems by simp
  moreover have "blocks_of 64 p = blocks_of 64 ?p @ [?u]"
    using blocks_of_append [of 64 ?p ?u] u blocks_of_step [of 64 ?u] by fastforce
  ultimately show ?case using Suc.prems u updateUnitStates_eq [of ?u]
    by (simp add: updateUnits_def mult.commute)
qed

lemma final_eq:
  assumes "length buf = 16"
  shows "final (st_of v) buf = Some (md5_digest v)"
proof -
  obtain a b c d where v: "v = (a, b, c, d)" by (cases v)
  have "foldM (\<lambda>i md5. Option.bind (rd [a, b, c, d] (i div 4)) (\<lambda>w. wr md5 i (ucast (drop_bit (i mod 4 * 8) w))))
      [0..<16] buf = Some (map (\<lambda>i. ucast (drop_bit (i mod 4 * 8) ([a, b, c, d] ! (i div 4)))) [0..<16] @ drop 16 buf)"
    by (rule foldM_option_fill) (use assms in auto)
  moreover have "map (\<lambda>i. ucast (drop_bit (i mod 4 * 8) ([a, b, c, d] ! (i div 4)))) [0..<16] = md5_digest v"
  proof -
    have "[0..<16] = [0, 1, 2, 3, 4, 5, 6, 7, 8, 9, 10, 11, 12, 13, 14, 15]" "[0..<4] = [0, 1, 2, 3]"
      by code_simp+
    then show ?thesis unfolding v md5_digest_def by simp
  qed
  ultimately show ?thesis using assms by (simp add: final_def st_of_def v)
qed

section \<open>Padding\<close>

text \<open>The units that both functions append after the complete units of the message.\<close>

definition last_units :: "byte list \<Rightarrow> byte list" where
  "last_units x = drop (64 * (length x div 64)) (md5_pad x)"

lemma md5_pad_split:
  "md5_pad x = take (64 * (length x div 64)) x @ last_units x"
proof -
  have "take (64 * (length x div 64)) (md5_pad x) = take (64 * (length x div 64)) x"
    by (simp add: md5_pad_def)
  then show ?thesis unfolding last_units_def by (metis append_take_drop_id)
qed

lemma length_u64_bytes [simp]: "length (u64_bytes n) = 8"
  by (simp add: u64_bytes_def)

lemma last_units_eq:
  assumes "r = length x mod 64" and "u = (if r < 56 then 1 else 2)"
  shows "last_units x = drop (64 * (length x div 64)) x @ 0x80 # replicate (64 * u - r - 9) 0 @
    u64_bytes (8 * word_of_nat (length x))" and "length (last_units x) = 64 * u"
proof -
  have "r < 64" using assms(1) by simp
  then have "(119 - r) mod 64 = 64 * u - r - 9" using assms(2) by (auto simp: mod_if)
  then show *: "last_units x = drop (64 * (length x div 64)) x @ 0x80 # replicate (64 * u - r - 9) 0 @
    u64_bytes (8 * word_of_nat (length x))" using assms(1) by (simp add: last_units_def md5_pad_def)
  have "length x - 64 * (length x div 64) = r" using assms(1) by (simp add: minus_mult_div_eq_mod)
  then show "length (last_units x) = 64 * u" unfolding * using assms(2) \<open>r < 64\<close> by auto
qed

lemma wrn_tail: "length ys = length zs \<Longrightarrow> wrn (pre @ zs) (length pre) ys = Some (pre @ ys)"
  by simp

lemma writeUnits_eq:
  assumes "r = length x mod 64" and "u = (if r < 56 then 1 else 2)"
  shows "writeUnits (replicate (u * 64) 0) (drop (64 * (length x div 64)) x) u (8 * word_of_nat (length x)) =
    Some (last_units x)"
proof -
  let ?d = "drop (64 * (length x div 64)) x"
  let ?pre = "?d @ 0x80 # replicate (64 * u - r - 9) 0"
  have d: "length ?d = r" using assms(1) by (simp add: minus_mult_div_eq_mod)
  have r: "r < 64" using assms(1) by simp
  then have "u * 64 - r = Suc (64 * u - r - 9 + 8)" using assms(2) by auto
  then have rep: "replicate (u * 64 - r) (0 :: byte) = 0 # replicate (64 * u - r - 9) 0 @ replicate 8 0"
    by (simp only: replicate_Suc replicate_add)
  have "wrn (replicate (u * 64) 0) 0 ?d = Some (?d @ 0 # replicate (64 * u - r - 9) 0 @ replicate 8 0)"
    using d r rep assms(2) by simp
  moreover have "wr (?d @ 0 # replicate (64 * u - r - 9) 0 @ replicate 8 0) r 0x80 =
      Some (?d @ 0x80 # replicate (64 * u - r - 9) 0 @ replicate 8 0)"
    using d by (simp add: list_update_append)
  moreover have "wrn (?pre @ replicate 8 0) (length ?pre) (u64_bytes (8 * word_of_nat (length x))) =
      Some (last_units x)"
    unfolding last_units_eq(1) [OF assms]
    using wrn_tail [of "u64_bytes (8 * word_of_nat (length x))" "replicate 8 0" ?pre] by simp
  moreover have "length ?pre = u * 64 - 8" using d r assms(2) by auto
  ultimately show ?thesis unfolding writeUnits_def d by simp
qed

section \<open>Properties\<close>

lemma INIT_STATES_eq: "INIT_STATES = st_of (0x67452301, 0xefcdab89, 0x98badcfe, 0x10325476)"
  by (simp add: INIT_STATES_def st_of_def)

lemma md5_two_parts:
  "md5 x = md5_digest (fold md5_compress (blocks_of 64 (last_units x))
     (fold md5_compress (blocks_of 64 (take (64 * (length x div 64)) x))
       (0x67452301, 0xefcdab89, 0x98badcfe, 0x10325476)))"
proof -
  have "64 dvd length (take (64 * (length x div 64)) x)" by simp
  then show ?thesis unfolding md5_def by (subst md5_pad_split) (simp add: blocks_of_append)
qed

lemma bits_number: "push_bit 3 (n :: 64 word) = 8 * n"
  by (simp add: push_bit_eq_mult)

lemma strlen_cstring: "0 \<notin> set x \<Longrightarrow> strlen (x @ 0 # rest) = Some (length x)"
  by (induction x) (auto simp: strlen_def Let_def split: if_splits)

lemma appendCont2Str_eq:
  assumes "0 \<notin> set x" and "length x < 2 ^ 28" and "\<And>n. mallocOk n"
  shows "appendCont2Str mallocOk (x @ 0 # rest) info = Some (0, info\<lparr>orgBitsNum := 8 * word_of_nat (length x),
     orgUnitsNum := length x div 64, pOrgUnit := Some (x @ 0 # rest),
     appendUnitsNum := (if length x mod 64 < 56 then 1 else 2), pAppendUnit := Some (last_units x)\<rparr>)"
proof -
  let ?u = "if length x mod 64 < 56 then 1 else 2 :: nat"
  have "rdn (x @ 0 # rest) (length x div 64 * 64) (length x mod 64) = Some (drop (64 * (length x div 64)) x)"
  proof -
    have "length x div 64 * 64 + length x mod 64 = length x" by (rule div_mult_mod_eq)
    then show ?thesis by (simp add: mult.commute minus_mult_div_eq_mod)
  qed
  moreover have "int (length x) < 2 ^ 28" using assms(2) by simp
  ultimately show ?thesis
    using strlen_cstring [OF assms(1)] assms(3) writeUnits_eq [OF refl refl, of x]
    by (simp add: appendCont2Str_def Let_def bits_number)
qed

text \<open>
  C14. The digest of a C string is the MD5 digest of RFC 1321 of the bytes before its first zero byte,
  for strings shorter than \<open>2 ^ 28\<close> bytes: the 64 straight-line operations, the units processed in
  place and the appended ones agree with the padded message of the reference.
\<close>

theorem moCrypt_MD5_String_correct:
  assumes "0 \<notin> set x" and "length x < 2 ^ 28" and "\<And>n. mallocOk n" and "length buf = 16"
  shows "moCrypt_MD5_String mallocOk (Some (x @ 0 # rest)) (Some buf) = Some (0, Some (md5 x))"
proof -
  let ?front = "take (64 * (length x div 64)) x"
  have "x @ 0 # rest = ?front @ drop (64 * (length x div 64)) x @ 0 # rest"
    by (metis append.assoc append_take_drop_id)
  moreover have "length ?front = 64 * (length x div 64)" by simp
  ultimately have "updateUnits (x @ 0 # rest) (length x div 64) (st_of v) =
      Some (st_of (fold md5_compress (blocks_of 64 ?front) v))" for v
    using updateUnits_eq [of ?front] by metis
  moreover have "updateUnits (last_units x) (if length x mod 64 < 56 then 1 else 2) (st_of v) =
      Some (st_of (fold md5_compress (blocks_of 64 (last_units x)) v))" for v
    using updateUnits_eq [OF last_units_eq(2) [OF refl refl], of x "[]" v] by simp
  ultimately show ?thesis
    using appendCont2Str_eq [where mallocOk = mallocOk and rest = rest and info = initStrInfo, OF assms(1-3)]
      final_eq [OF assms(4)]
    by (simp add: moCrypt_MD5_String_def updateStrStates_def initStrInfo_def INIT_STATES_eq md5_two_parts [of x])
qed

theorem moCrypt_MD5_String_correct_witness:
  "moCrypt_MD5_String (\<lambda>_. True) (Some ([97, 98, 99] @ 0 # [])) (Some (replicate 16 0)) =
    Some (0, Some (md5 [97, 98, 99]))"
  by (rule moCrypt_MD5_String_correct) simp_all

lemma readUnits_eq:
  "readUnits fd n (st_of v) = Some (drop (64 * (length fd div 64)) fd, n + length fd div 64,
     st_of (fold md5_compress (blocks_of 64 (take (64 * (length fd div 64)) fd)) v))"
proof (induction fd arbitrary: n v rule: length_induct)
  case (1 fd)
  show ?case
  proof (cases "64 \<le> length fd")
    case False
    then show ?thesis by (subst readUnits.simps) simp
  next
    case True
    let ?r = "drop 64 fd"
    have len: "length fd div 64 = Suc (length ?r div 64)" using True by (simp add: div_if)
    have "take (64 * (length fd div 64)) fd = take 64 fd @ take (64 * (length ?r div 64)) ?r"
      unfolding len by (simp add: take_add)
    moreover have "fd \<noteq> []" using True by auto
    ultimately have "blocks_of 64 (take (64 * (length fd div 64)) fd) =
        take 64 fd # blocks_of 64 (take (64 * (length ?r div 64)) ?r)"
      using True blocks_of_append [of 64 "take 64 fd"] blocks_of_step [of 64 "take 64 fd"] by simp
    moreover have "readUnits fd n (st_of v) = readUnits ?r (n + 1) (st_of (md5_compress (take 64 fd) v))"
      using True updateUnitStates_eq [of "take 64 fd"] by (subst readUnits.simps) simp
    moreover have "length ?r < length fd" using True by simp
    ultimately show ?thesis using 1 len by (simp add: add.commute)
  qed
qed

text \<open>
  The digest of a file is the MD5 digest of its content, whatever its length, and so the digest of
  a string and of a file with the same bytes agree; the file must be writable although it is only
  read.
\<close>

theorem moCrypt_MD5_File_correct:
  assumes "checkFile os (Some p) = 0" and "fs p = Some x" and "\<And>n. os_malloc os n" and "length buf = 16"
  shows "moCrypt_MD5_File os fs (Some p) (Some buf) =
    (if os_writable os p then Some (0, Some (md5 x)) else Some (MOCRYPT_MD5_ERR_OPENFILEFAIL, Some buf))"
proof (cases "os_writable os p")
  case False
  then show ?thesis using assms by (simp add: moCrypt_MD5_File_def initFileInfo_def Let_def)
next
  case True
  let ?u = "if length x mod 64 < 56 then 1 else 2 :: nat"
  have len: "length x - 64 * (length x div 64) = length x mod 64" by (rule minus_mult_div_eq_mod)
  have s: "word_of_nat (length x div 64) * 64 + word_of_nat (length x mod 64) = (word_of_nat (length x) :: 64 word)"
    by (metis div_mult_mod_eq of_nat_add of_nat_mult of_nat_numeral)
  have w: "writeUnits (replicate (?u * 64) 0) (drop (64 * (length x div 64)) x) ?u
      (push_bit 3 (word_of_nat (length x))) = Some (last_units x)"
    using writeUnits_eq [OF refl refl, of x] by (simp add: bits_number)
  have u: "updateUnits (last_units x) ?u (st_of v) = Some (st_of (fold md5_compress (blocks_of 64 (last_units x)) v))" for v
    using updateUnits_eq [OF last_units_eq(2) [OF refl refl], of x "[]" v] by simp
  show ?thesis using assms True w u final_eq [OF assms(4)] len s
    by (cases "length x mod 64 < 56") (simp_all add: moCrypt_MD5_File_def initFileInfo_def updateFileStates_def
        INIT_STATES_eq readUnits_eq md5_two_parts [of x] Let_def)
qed

theorem moCrypt_MD5_File_correct_witness:
  "moCrypt_MD5_File (sample_os\<lparr>os_stat := os_lstat sample_os\<rparr>) (Map.empty(''a'' \<mapsto> [97, 98, 99])) (Some ''a'')
     (Some (replicate 16 0)) = Some (0, Some (md5 [97, 98, 99]))"
  using moCrypt_MD5_File_correct [of "sample_os\<lparr>os_stat := os_lstat sample_os\<rparr>" "''a''"
      "Map.empty(''a'' \<mapsto> [97, 98, 99])" "[97, 98, 99]" "replicate 16 0"]
  by (simp add: checkFile_def sample_os_def)

end
