(* ===== verification/MoIni.thy ===== *)
theory MoIni
  imports MoFile
begin

text \<open>
  The parser of configuration files, \<open>moSdk/Utils/Conf/Ini/src/iniParser.c\<close>: classification of lines,
  the lists of sections and attributes, loading a file and looking a value up.

  C strings are \<open>string\<close>s without the terminating NUL. The linked lists are only extended at their
  end and never shared, so they are lists here; the head node of the section list, which carries the
  empty name and no attributes, is implicit in the list of sections after it. The local buffers of
  512 characters hold every piece of a line, which \<open>fgets\<close> limits to 511 characters. Logging is left
  out.
\<close>

abbreviation (input) MAX_LINE_LEN :: nat where
  "MAX_LINE_LEN \<equiv> 512"

abbreviation (input) MOUTILS_INI_SECTION_NAME_MAX_LEN :: nat where
  "MOUTILS_INI_SECTION_NAME_MAX_LEN \<equiv> 128"

abbreviation (input) MOUTILS_INI_ATTR_KEY_MAX_LEN :: nat where
  "MOUTILS_INI_ATTR_KEY_MAX_LEN \<equiv> 128"

abbreviation (input) MOUTILS_INI_ATTR_VALUE_MAX_LEN :: nat where
  "MOUTILS_INI_ATTR_VALUE_MAX_LEN \<equiv> 128"

abbreviation TABLE_SYMBOL :: char where
  "TABLE_SYMBOL \<equiv> CHR 0x09"

abbreviation SPACE_SYMBOL :: char where
  "SPACE_SYMBOL \<equiv> CHR 0x20"

abbreviation SEMICOLON_SYMBOL :: char where
  "SEMICOLON_SYMBOL \<equiv> CHR 0x3B"

abbreviation BRACKET_LEFT_SYMBOL :: char where
  "BRACKET_LEFT_SYMBOL \<equiv> CHR 0x5B"

abbreviation BRACKET_RIGHT_SYMBOL :: char where
  "BRACKET_RIGHT_SYMBOL \<equiv> CHR 0x5D"

abbreviation EQUAL_SYMBOL :: char where
  "EQUAL_SYMBOL \<equiv> CHR 0x3D"

abbreviation NEWLINE :: char where
  "NEWLINE \<equiv> CHR 0x0A"

abbreviation NUL :: char where
  "NUL \<equiv> CHR 0x00"

datatype LINE_TYPE = LINE_ERROR | LINE_SECTION | LINE_ATTR | LINE_COMMENT | LINE_SPACE

datatype FIRST_VALID_CHAR_TYPE = TYPE_INVALID | TYPE_SEMICOLON | TYPE_LEFT_BRACKET | TYPE_OTHER_VALID_CHAR

record MOUTILS_INI_ATTR_INFO =
  key :: string
  "value" :: string

record MOUTILS_INI_SECTION_INFO_NODE =
  sectionName :: string
  attrs :: "MOUTILS_INI_ATTR_INFO list"

section \<open>Sections and attributes\<close>

text \<open>
  The loop looks at a node only while it has a successor: \<open>cur\<close> is the name of the current node, the
  list holds the nodes after it.
\<close>

fun isNodeExist :: "string \<Rightarrow> string \<Rightarrow> MOUTILS_INI_SECTION_INFO_NODE list \<Rightarrow> bool" where
  "isNodeExist pSecName cur [] = False"
| "isNodeExist pSecName cur (s # ss) =
     (if cur = pSecName then True else isNodeExist pSecName (sectionName s) ss)"

text \<open>\<open>secNodeOk\<close> and \<open>attrNodeOk\<close> say whether \<open>malloc\<close> of a section or attribute node succeeds.\<close>

definition AddSecInfoNode ::
    "bool \<Rightarrow> bool \<Rightarrow> string option \<Rightarrow> MOUTILS_INI_SECTION_INFO_NODE list option \<Rightarrow>
     int \<times> MOUTILS_INI_SECTION_INFO_NODE list option" where
  "AddSecInfoNode secNodeOk attrNodeOk pSecName pSecInfoHeadNode =
     (case pSecName of
        None \<Rightarrow> (-1, pSecInfoHeadNode)
      | Some name \<Rightarrow>
          (case pSecInfoHeadNode of
             None \<Rightarrow> (-2, None)
           | Some secs \<Rightarrow>
               if isNodeExist name [] secs then (-3, Some secs)
               else if \<not> secNodeOk then (-4, Some secs)
               else if \<not> attrNodeOk then (-5, Some secs)
               else (0, Some (secs @ [\<lparr>sectionName = name, attrs = []\<rparr>]))))"

fun addToSection ::
    "bool \<Rightarrow> MOUTILS_INI_ATTR_INFO \<Rightarrow> string \<Rightarrow> MOUTILS_INI_SECTION_INFO_NODE list \<Rightarrow>
     int \<times> MOUTILS_INI_SECTION_INFO_NODE list" where
  "addToSection attrNodeOk info name [] = (-3, [])"
| "addToSection attrNodeOk info name (s # ss) =
     (if name = sectionName s
      then
        (if list_ex (\<lambda>a. key a = key info) (attrs s) then (-4, s # ss)
         else if \<not> attrNodeOk then (-5, s # ss)
         else (0, s\<lparr>attrs := attrs s @ [info]\<rparr> # ss))
      else (case addToSection attrNodeOk info name ss of (ret, ss) \<Rightarrow> (ret, s # ss)))"

definition AddAttrInfoNode ::
    "bool \<Rightarrow> MOUTILS_INI_ATTR_INFO option \<Rightarrow> string option \<Rightarrow> MOUTILS_INI_SECTION_INFO_NODE list option \<Rightarrow>
     int \<times> MOUTILS_INI_SECTION_INFO_NODE list option" where
  "AddAttrInfoNode attrNodeOk pAttrInfo pSecName pSecInfoHeadNode =
     (case (pAttrInfo, pSecName) of
        (Some info, Some name) \<Rightarrow>
          (case pSecInfoHeadNode of
             None \<Rightarrow> (-2, None)
           | Some secs \<Rightarrow> (case addToSection attrNodeOk info name secs of (ret, secs) \<Rightarrow> (ret, Some secs)))
      | _ \<Rightarrow> (-1, pSecInfoHeadNode))"

section \<open>Lines\<close>

definition is_blank :: "char \<Rightarrow> bool" where
  "is_blank c \<longleftrightarrow> c = TABLE_SYMBOL \<or> c = SPACE_SYMBOL"

fun firstValidChar :: "string \<Rightarrow> nat \<Rightarrow> char \<times> nat" where
  "firstValidChar [] ret = (NUL, ret)"
| "firstValidChar (c # cs) ret = (if is_blank c then firstValidChar cs (ret + 1) else (c, ret))"

definition GetFirstValidCharType :: "string option \<Rightarrow> int \<times> FIRST_VALID_CHAR_TYPE option" where
  "GetFirstValidCharType line =
     (case line of
        None \<Rightarrow> (-1, None)
      | Some l \<Rightarrow>
          (case firstValidChar l 0 of
             (c, ret) \<Rightarrow>
               (int ret, Some
                 (if c = SEMICOLON_SYMBOL then TYPE_SEMICOLON
                  else if c = BRACKET_LEFT_SYMBOL then TYPE_LEFT_BRACKET
                  else if c = NUL then TYPE_INVALID
                  else TYPE_OTHER_VALID_CHAR))))"

definition strchr :: "string \<Rightarrow> char \<Rightarrow> nat option" where
  "strchr s c = (let n = length (takeWhile (\<lambda>x. x \<noteq> c) s) in if n < length s then Some n else None)"

text \<open>The part of a line before its comment, from position \<open>pos\<close> on.\<close>

definition validLineInfo :: "string \<Rightarrow> nat \<Rightarrow> string" where
  "validLineInfo line pos =
     (case strchr line SEMICOLON_SYMBOL of
        Some p \<Rightarrow> take (p - pos) (drop pos line)
      | None \<Rightarrow> drop pos line)"

text \<open>The result is the return value and the buffer \<open>sectionName\<close>, \<open>None\<close> when it is not written.\<close>

definition GetSectionNameFromLine :: "string \<Rightarrow> nat \<Rightarrow> int \<times> string option" where
  "GetSectionNameFromLine line firstValidCharPos =
     (let valid = validLineInfo line firstValidCharPos in
      (case strrchr valid BRACKET_RIGHT_SYMBOL of
         None \<Rightarrow> (-2, None)
       | Some p \<Rightarrow>
           if \<not> list_all is_blank (drop (p + 1) valid) then (-2, None)
           else
             let temp = take (p - 1) (drop 1 valid) in
             if length temp \<ge> MOUTILS_INI_SECTION_NAME_MAX_LEN then (-3, None)
             else (0, Some temp)))"

text \<open>The two loops that skip blanks: \<open>i\<close> from the left, \<open>j\<close> from the right but never below 0.\<close>

fun skipLeft :: "string \<Rightarrow> int \<Rightarrow> int" where
  "skipLeft [] i = i"
| "skipLeft (c # cs) i = (if is_blank c then skipLeft cs (i + 1) else i)"

function skipRight :: "string \<Rightarrow> int \<Rightarrow> int" where
  "skipRight s j = (if j > 0 \<and> is_blank (s ! nat j) then skipRight s (j - 1) else j)"
  by pat_completeness auto
termination by (relation "measure (\<lambda>(s, j). nat j)") auto

declare skipRight.simps [simp del]

definition trimBlanks :: "string \<Rightarrow> string option" where
  "trimBlanks s =
     (let i = skipLeft s 0; j = skipRight s (int (length s) - 1) in
      if j < i then None else Some (take (nat (j - i + 1)) (drop (nat i) s)))"

definition GetAttrFromLine :: "string \<Rightarrow> nat \<Rightarrow> int \<times> (string \<times> string) option" where
  "GetAttrFromLine line firstValidCharPos =
     (let valid = validLineInfo line firstValidCharPos in
      (case strchr valid EQUAL_SYMBOL of
         None \<Rightarrow> (-2, None)
       | Some firstEqualPos \<Rightarrow>
           if strrchr valid EQUAL_SYMBOL \<noteq> Some firstEqualPos then (-3, None)
           else
             (case trimBlanks (take firstEqualPos valid) of
                None \<Rightarrow> (-4, None)
              | Some k \<Rightarrow>
                  (case trimBlanks (drop (firstEqualPos + 1) valid) of
                     None \<Rightarrow> (-4, None)
                   | Some v \<Rightarrow>
                       if length k = 0 \<or> length k \<ge> MOUTILS_INI_ATTR_KEY_MAX_LEN then (-4, None)
                       else if length v = 0 \<or> length v \<ge> MOUTILS_INI_ATTR_VALUE_MAX_LEN then (-5, None)
                       else (0, Some (k, v))))))"

text \<open>The type of a line, with the buffers that it fills: a section name, or a key and a value.\<close>

definition GetLineType :: "string \<Rightarrow> LINE_TYPE \<times> string option \<times> (string \<times> string) option" where
  "GetLineType line =
     (case GetFirstValidCharType (Some line) of
        (pos, type) \<Rightarrow>
          if pos < 0 then (LINE_ERROR, None, None)
          else (case type of
              Some TYPE_INVALID \<Rightarrow> (LINE_SPACE, None, None)
            | Some TYPE_SEMICOLON \<Rightarrow> (LINE_COMMENT, None, None)
            | Some TYPE_LEFT_BRACKET \<Rightarrow>
                (case GetSectionNameFromLine line (nat pos) of
                   (ret, name) \<Rightarrow> if ret = 0 then (LINE_SECTION, name, None) else (LINE_ERROR, None, None))
            | Some TYPE_OTHER_VALID_CHAR \<Rightarrow>
                (case GetAttrFromLine line (nat pos) of
                   (ret, kv) \<Rightarrow> if ret = 0 then (LINE_ATTR, None, kv) else (LINE_ERROR, None, None))
            | None \<Rightarrow> (LINE_ERROR, None, None)))"

section \<open>Files\<close>

text \<open>
  \<open>fgets(line, n + 1, fp)\<close>: at most \<open>n\<close> characters, up to and including a line feed. The first part
  is what is stored in the buffer, the second what is left to read.
\<close>

fun fgets :: "nat \<Rightarrow> string \<Rightarrow> string \<times> string" where
  "fgets 0 s = ([], s)"
| "fgets (Suc n) [] = ([], [])"
| "fgets (Suc n) (c # s) = (if c = NEWLINE then ([c], s) else (case fgets n s of (l, r) \<Rightarrow> (c # l, r)))"

lemma fgets_shorter: "0 < n \<Longrightarrow> s \<noteq> [] \<Longrightarrow> length (snd (fgets n s)) < length s"
proof (induction n s rule: fgets.induct)
  case (3 n c s)
  then show ?case by (cases "s = [] \<or> n = 0") (auto split: prod.splits elim: fgets.elims)
qed auto

lemma fgets_rest: "fgets 511 s = (l, r) \<Longrightarrow> s \<noteq> [] \<Longrightarrow> length r < length s"
  using fgets_shorter [of 511 s] by simp

text \<open>
  The body of the loop for one line: the name of the current section and the list of sections are
  updated, and a nonzero \<open>ret\<close> ends the loop.
\<close>

definition handleLine ::
    "bool \<Rightarrow> bool \<Rightarrow> string \<Rightarrow> string \<Rightarrow> MOUTILS_INI_SECTION_INFO_NODE list \<Rightarrow>
     (int \<times> string \<times> MOUTILS_INI_SECTION_INFO_NODE list) option" where
  "handleLine secNodeOk attrNodeOk line cur secs =
     (case GetLineType line of
        (LINE_SECTION, Some name, _) \<Rightarrow>
          (case AddSecInfoNode secNodeOk attrNodeOk (Some name) (Some secs) of
             (ret, Some secs) \<Rightarrow> if ret \<noteq> 0 then Some (-1, cur, secs) else Some (0, name, secs)
           | _ \<Rightarrow> None)
      | (LINE_ATTR, _, Some (k, v)) \<Rightarrow>
          if length cur = 0 then Some (-2, cur, secs)
          else (case AddAttrInfoNode attrNodeOk (Some \<lparr>key = k, value = v\<rparr>) (Some cur) (Some secs) of
              (ret, Some secs) \<Rightarrow> if ret \<noteq> 0 then Some (-3, cur, secs) else Some (0, cur, secs)
            | _ \<Rightarrow> None)
      | (LINE_ERROR, _, _) \<Rightarrow> Some (-4, cur, secs)
      | _ \<Rightarrow> Some (0, cur, secs))"

text \<open>
  \<open>line[strlen(line) - 1]\<close> is before the buffer when the first character of a line is NUL: then the
  result is \<open>None\<close>.
\<close>

function sectionLoop ::
    "bool \<Rightarrow> bool \<Rightarrow> string \<Rightarrow> string \<Rightarrow> MOUTILS_INI_SECTION_INFO_NODE list \<Rightarrow>
     (int \<times> MOUTILS_INI_SECTION_INFO_NODE list) option" where
  "sectionLoop secNodeOk attrNodeOk fp cur secs =
     (if fp = [] then Some (0, secs)
      else do {
        let (buf, rest) = fgets (MAX_LINE_LEN - 1) fp;
        let line = takeWhile (\<lambda>c. c \<noteq> NUL) buf;
        if line = [] then None
        else do {
          (ret, cur, secs) \<leftarrow> handleLine secNodeOk attrNodeOk
            (if last line = NEWLINE then butlast line else line) cur secs;
          if ret \<noteq> 0 then Some (ret, secs)
          else sectionLoop secNodeOk attrNodeOk rest cur secs
        }
      })"
  by pat_completeness auto
termination
  by (relation "measure (\<lambda>(a, b, fp, cur, secs). length fp)") (auto dest: fgets_rest [OF sym])

declare sectionLoop.simps [simp del]

definition GetSectionList ::
    "bool \<Rightarrow> bool \<Rightarrow> string option \<Rightarrow> MOUTILS_INI_SECTION_INFO_NODE list option \<Rightarrow>
     (int \<times> MOUTILS_INI_SECTION_INFO_NODE list option) option" where
  "GetSectionList secNodeOk attrNodeOk fp pSecInfoHeadNode =
     (case fp of
        None \<Rightarrow> Some (-1, pSecInfoHeadNode)
      | Some f \<Rightarrow>
          (case pSecInfoHeadNode of
             None \<Rightarrow> Some (-2, None)
           | Some secs \<Rightarrow> map_option (\<lambda>(ret, secs). (ret, Some secs)) (sectionLoop secNodeOk attrNodeOk f [] secs)))"

definition InitSecInfoList :: "bool \<Rightarrow> bool \<Rightarrow> MOUTILS_INI_SECTION_INFO_NODE list option" where
  "InitSecInfoList secNodeOk attrNodeOk =
     (if \<not> secNodeOk then None else if \<not> attrNodeOk then None else Some [])"

text \<open>
  \<open>fopenR\<close> gives the text of a file that can be opened for reading. The result is \<open>None\<close> when there
  is no defined result and \<open>Some None\<close> when \<open>NULL\<close> is returned; then all nodes have been freed.
\<close>

definition moUtils_Ini_Init ::
    "bool \<Rightarrow> bool \<Rightarrow> (string \<Rightarrow> string option) \<Rightarrow> string option \<Rightarrow>
     MOUTILS_INI_SECTION_INFO_NODE list option option" where
  "moUtils_Ini_Init secNodeOk attrNodeOk fopenR filepath =
     (case filepath of
        None \<Rightarrow> Some None
      | Some p \<Rightarrow>
          (case InitSecInfoList secNodeOk attrNodeOk of
             None \<Rightarrow> Some None
           | Some secs \<Rightarrow>
               (case fopenR p of
                  None \<Rightarrow> Some None
                | Some f \<Rightarrow> do {
                    (ret, secs) \<leftarrow> GetSectionList secNodeOk attrNodeOk (Some f) (Some secs);
                    Some (if ret \<noteq> 0 then None else secs)
                  })))"

section \<open>Lookup\<close>

definition moUtils_Ini_GetAttrValue ::
    "string option \<Rightarrow> string option \<Rightarrow> string option \<Rightarrow> MOUTILS_INI_SECTION_INFO_NODE list option \<Rightarrow>
     int \<times> string option" where
  "moUtils_Ini_GetAttrValue pSecName pAttrKey pAttrValue pSecInfoHeadNode =
     (case pSecInfoHeadNode of
        None \<Rightarrow> (-1, pAttrValue)
      | Some secs \<Rightarrow>
          (case (pSecName, pAttrKey, pAttrValue) of
             (Some name, Some k, Some _) \<Rightarrow>
               (case find (\<lambda>s. name = sectionName s) secs of
                  None \<Rightarrow> (-3, pAttrValue)
                | Some s \<Rightarrow>
                    (case find (\<lambda>a. k = key a) (attrs s) of
                       None \<Rightarrow> (-4, pAttrValue)
                     | Some a \<Rightarrow> (0, Some (value a))))
           | _ \<Rightarrow> (-2, pAttrValue)))"

definition moUtils_Ini_UnInit :: "MOUTILS_INI_SECTION_INFO_NODE list option \<Rightarrow> int" where
  "moUtils_Ini_UnInit pSecInfoHeadNode = (case pSecInfoHeadNode of None \<Rightarrow> -1 | Some _ \<Rightarrow> 0)"

section \<open>What a file contains\<close>

text \<open>
  The specification. An item is what a line says; \<open>renders line item\<close> relates a line to it, with
  blanks and comments wherever the format allows them.
\<close>

datatype item = Section string | Attr string string | Comment | Blank

definition blanks :: "string \<Rightarrow> bool" where
  "blanks b \<longleftrightarrow> list_all is_blank b"

text \<open>A comment at the end of a line, or nothing.\<close>

definition line_end :: "string \<Rightarrow> bool" where
  "line_end t \<longleftrightarrow> t = [] \<or> hd t = SEMICOLON_SYMBOL"

text \<open>A key or a value: no separators in it, no blanks at its ends, and a length that fits.\<close>

definition is_token :: "string \<Rightarrow> bool" where
  "is_token w \<longleftrightarrow> w \<noteq> [] \<and> length w < 128 \<and> SEMICOLON_SYMBOL \<notin> set w \<and> EQUAL_SYMBOL \<notin> set w \<and>
     \<not> is_blank (hd w) \<and> \<not> is_blank (last w) \<and> hd w \<noteq> NUL"

fun renders :: "string \<Rightarrow> item \<Rightarrow> bool" where
  "renders line (Section n) \<longleftrightarrow> length n < 128 \<and> SEMICOLON_SYMBOL \<notin> set n \<and>
     (\<exists>b1 b2 t. line = b1 @ [BRACKET_LEFT_SYMBOL] @ n @ [BRACKET_RIGHT_SYMBOL] @ b2 @ t \<and>
        blanks b1 \<and> blanks b2 \<and> line_end t)"
| "renders line (Attr k v) \<longleftrightarrow> is_token k \<and> is_token v \<and> hd k \<noteq> BRACKET_LEFT_SYMBOL \<and>
     (\<exists>b1 b2 b3 b4 t. line = b1 @ k @ b2 @ [EQUAL_SYMBOL] @ b3 @ v @ b4 @ t \<and>
        blanks b1 \<and> blanks b2 \<and> blanks b3 \<and> blanks b4 \<and> line_end t)"
| "renders line Comment \<longleftrightarrow> (\<exists>b t. line = b @ [SEMICOLON_SYMBOL] @ t \<and> blanks b)"
| "renders line Blank \<longleftrightarrow> blanks line"

text \<open>The sections of a file, and its assignments as triples of section, key and value.\<close>

fun section_names :: "item list \<Rightarrow> string list" where
  "section_names [] = []"
| "section_names (Section n # is) = n # section_names is"
| "section_names (_ # is) = section_names is"

fun assigned :: "string \<Rightarrow> item list \<Rightarrow> (string \<times> string \<times> string) list" where
  "assigned cur [] = []"
| "assigned cur (Section n # is) = assigned n is"
| "assigned cur (Attr k v # is) = (cur, k, v) # assigned cur is"
| "assigned cur (_ # is) = assigned cur is"

definition well_formed :: "item list \<Rightarrow> bool" where
  "well_formed is \<longleftrightarrow> distinct ([] # section_names is) \<and>
     distinct (map (\<lambda>(s, k, v). (s, k)) (assigned [] is)) \<and> (\<forall>(s, k, v) \<in> set (assigned [] is). s \<noteq> [])"

text \<open>A file: lines that fit the buffer with their line feed.\<close>

definition file_text :: "string list \<Rightarrow> string" where
  "file_text ls = concat (map (\<lambda>l. l @ [NEWLINE]) ls)"

definition good_line :: "string \<Rightarrow> bool" where
  "good_line l \<longleftrightarrow> length l \<le> 510 \<and> NEWLINE \<notin> set l \<and> NUL \<notin> set l"

section \<open>Lines are classified correctly\<close>

lemma blanks_simps [simp]: "blanks []" "blanks (c # b) \<longleftrightarrow> is_blank c \<and> blanks b" "blanks (a @ b) \<longleftrightarrow> blanks a \<and> blanks b"
  by (simp_all add: blanks_def)

lemma blanks_not_in: "blanks b \<Longrightarrow> \<not> is_blank c \<Longrightarrow> c \<notin> set b"
  by (auto simp: blanks_def list_all_iff)

lemma not_blank [simp]: "\<not> is_blank SEMICOLON_SYMBOL" "\<not> is_blank BRACKET_LEFT_SYMBOL"
  "\<not> is_blank BRACKET_RIGHT_SYMBOL" "\<not> is_blank EQUAL_SYMBOL" "\<not> is_blank NUL"
  by (simp_all add: is_blank_def)

lemma firstValidChar_blanks: "blanks b \<Longrightarrow> firstValidChar b n = (NUL, n + length b)"
  by (induction b arbitrary: n) simp_all

lemma firstValidChar_char: "blanks b \<Longrightarrow> \<not> is_blank c \<Longrightarrow> firstValidChar (b @ c # t) n = (c, n + length b)"
  by (induction b arbitrary: n) simp_all

lemma strchr_first:
  assumes "c \<notin> set p"
  shows "strchr (p @ c # t) c = Some (length p)"
proof -
  have "takeWhile (\<lambda>x. x \<noteq> c) (p @ c # t) = p" using assms by (induction p) auto
  then show ?thesis by (simp add: strchr_def Let_def)
qed

lemma strchr_absent: "c \<notin> set p \<Longrightarrow> strchr p c = None"
  by (induction p) (auto simp: strchr_def Let_def)

lemma strrchr_last:
  assumes "c \<notin> set t"
  shows "strrchr (p @ c # t) c = Some (length p)"
proof (cases "strrchr (p @ c # t) c")
  case None
  then show ?thesis using strrchr_None by fastforce
next
  case (Some i)
  note i = strrchr_Some [OF Some]
  have "\<not> i < length p"
  proof
    assume "i < length p"
    then have "drop (Suc i) (p @ c # t) = drop (Suc i) p @ c # t" by simp
    then show False using i by simp
  qed
  moreover have "\<not> length p < i"
  proof
    assume l: "length p < i"
    then have "(p @ c # t) ! i = t ! (i - length p - 1)" by (simp add: nth_append)
    moreover have "i < Suc (length p + length t)" using i by simp
    then have "i - length p - 1 < length t" using l by linarith
    ultimately show False using i assms nth_mem by metis
  qed
  ultimately show ?thesis using Some by simp
qed

lemma validLineInfo_eq:
  assumes "SEMICOLON_SYMBOL \<notin> set (pre @ body)" and "line_end t"
  shows "validLineInfo (pre @ body @ t) (length pre) = body"
proof (cases t)
  case Nil
  then show ?thesis using assms(1) strchr_absent [of SEMICOLON_SYMBOL "pre @ body"]
    by (simp add: validLineInfo_def)
next
  case (Cons c cs)
  then have "c = SEMICOLON_SYMBOL" using assms(2) by (simp add: line_end_def)
  then show ?thesis using assms(1) Cons strchr_first [of SEMICOLON_SYMBOL "pre @ body" cs]
    by (simp add: validLineInfo_def)
qed

lemma GetLineType_section:
  assumes "renders line (Section n)"
  shows "GetLineType line = (LINE_SECTION, Some n, None)"
proof -
  obtain b1 b2 t where l: "line = b1 @ ([BRACKET_LEFT_SYMBOL] @ n @ [BRACKET_RIGHT_SYMBOL] @ b2) @ t"
    and b: "blanks b1" "blanks b2" "line_end t" "length n < 128" "SEMICOLON_SYMBOL \<notin> set n"
    using assms by auto
  let ?body = "[BRACKET_LEFT_SYMBOL] @ n @ [BRACKET_RIGHT_SYMBOL] @ b2"
  have "validLineInfo line (length b1) = ?body"
    unfolding l by (rule validLineInfo_eq) (use b blanks_not_in [of _ SEMICOLON_SYMBOL] in auto)
  moreover have "strrchr ?body BRACKET_RIGHT_SYMBOL = Some (length n + 1)"
    using strrchr_last [of BRACKET_RIGHT_SYMBOL b2 "BRACKET_LEFT_SYMBOL # n"] b(2) blanks_not_in by simp
  moreover have "firstValidChar line 0 = (BRACKET_LEFT_SYMBOL, length b1)"
    unfolding l using firstValidChar_char [OF b(1), of BRACKET_LEFT_SYMBOL] by simp
  ultimately show ?thesis using b(2,4)
    by (simp add: GetLineType_def GetFirstValidCharType_def GetSectionNameFromLine_def blanks_def)
qed

lemma skipLeft_eq: "blanks b \<Longrightarrow> \<not> is_blank c \<Longrightarrow> skipLeft (b @ c # cs) i = i + int (length b)"
  by (induction b arbitrary: i) simp_all

lemma skipRight_eq:
  assumes "p \<noteq> []" and "\<not> is_blank (last p)" and "blanks b"
  shows "m \<le> length b \<Longrightarrow> skipRight (p @ b) (int (length p + m) - 1) = int (length p) - 1"
proof (induction m)
  case 0
  have "(p @ b) ! (length p - 1) = last p" using assms(1) by (simp add: nth_append last_conv_nth)
  moreover have "nat (int (length p) - 1) = length p - 1" by simp
  ultimately show ?case using assms(2) by (simp add: skipRight.simps)
next
  case (Suc m)
  have "is_blank (b ! m)" using assms(3) Suc.prems by (simp add: blanks_def list_all_length)
  moreover have "(p @ b) ! (length p + m) = b ! m" by (simp add: nth_append)
  moreover have "nat (int (length p + Suc m) - 1) = length p + m" by simp
  moreover have "0 < int (length p + Suc m) - 1" using assms(1) by (cases p) simp_all
  moreover have "int (length p + Suc m) - 1 - 1 = int (length p + m) - 1" by simp
  ultimately have "skipRight (p @ b) (int (length p + Suc m) - 1) = skipRight (p @ b) (int (length p + m) - 1)"
    by (metis skipRight.simps)
  then show ?case using Suc by simp
qed

lemma trimBlanks_eq:
  assumes "blanks b1" and "blanks b2" and "w \<noteq> []" and "\<not> is_blank (hd w)" and "\<not> is_blank (last w)"
  shows "trimBlanks (b1 @ w @ b2) = Some w"
proof -
  obtain c cs where w: "w = c # cs" using assms(3) by (cases w) auto
  have "skipLeft (b1 @ w @ b2) 0 = int (length b1)"
    using skipLeft_eq [OF assms(1), of c "cs @ b2" 0] assms(4) w by simp
  moreover have "skipRight (b1 @ w @ b2) (int (length (b1 @ w @ b2)) - 1) = int (length b1 + length w) - 1"
    using skipRight_eq [of "b1 @ w" b2 "length b2"] assms(2,3,5) by (simp add: add.assoc)
  moreover have "nat (int (length b1 + length w) - 1 - int (length b1) + 1) = length w" by simp
  ultimately show ?thesis using w by (simp add: trimBlanks_def Let_def)
qed

lemma GetLineType_attr:
  assumes "renders line (Attr k v)"
  shows "GetLineType line = (LINE_ATTR, None, Some (k, v))"
proof -
  obtain b1 b2 b3 b4 t where l: "line = b1 @ (k @ b2 @ [EQUAL_SYMBOL] @ b3 @ v @ b4) @ t"
    and b: "blanks b1" "blanks b2" "blanks b3" "blanks b4" "line_end t"
    and k: "is_token k" "hd k \<noteq> BRACKET_LEFT_SYMBOL" and v: "is_token v"
    using assms by auto
  let ?body = "k @ b2 @ [EQUAL_SYMBOL] @ b3 @ v @ b4"
  obtain c cs where c: "k = c # cs" using k by (cases k) (auto simp: is_token_def)
  have valid: "validLineInfo line (length b1) = ?body"
    unfolding l by (rule validLineInfo_eq)
      (use b k v blanks_not_in [of _ SEMICOLON_SYMBOL] in \<open>auto simp: is_token_def\<close>)
  have eq: "strchr ?body EQUAL_SYMBOL = Some (length (k @ b2))"
    "strrchr ?body EQUAL_SYMBOL = Some (length (k @ b2))"
    using strchr_first [of EQUAL_SYMBOL "k @ b2" "b3 @ v @ b4"] strrchr_last [of EQUAL_SYMBOL "b3 @ v @ b4" "k @ b2"]
      b k v blanks_not_in [of _ EQUAL_SYMBOL] by (auto simp: is_token_def)
  have "trimBlanks (k @ b2) = Some k" using trimBlanks_eq [of "[]" b2 k] b(2) k(1) by (simp add: is_token_def)
  moreover have "trimBlanks (b3 @ v @ b4) = Some v" using trimBlanks_eq [of b3 b4 v] b v by (simp add: is_token_def)
  moreover have "take (length (k @ b2)) ?body = k @ b2" "drop (length (k @ b2) + 1) ?body = b3 @ v @ b4" by simp_all
  ultimately have "GetAttrFromLine line (length b1) = (0, Some (k, v))"
    unfolding GetAttrFromLine_def valid Let_def eq using k(1) v by (simp add: is_token_def)
  moreover have "firstValidChar line 0 = (c, length b1)"
    unfolding l using firstValidChar_char [OF b(1), of c] c k(1) by (simp add: is_token_def)
  moreover have "c \<noteq> SEMICOLON_SYMBOL" "c \<noteq> NUL" "c \<noteq> BRACKET_LEFT_SYMBOL" using c k by (auto simp: is_token_def)
  ultimately show ?thesis by (simp add: GetLineType_def GetFirstValidCharType_def)
qed

lemma GetLineType_other:
  "renders line Comment \<Longrightarrow> GetLineType line = (LINE_COMMENT, None, None)"
  "renders line Blank \<Longrightarrow> GetLineType line = (LINE_SPACE, None, None)"
  using firstValidChar_char [of _ SEMICOLON_SYMBOL _ 0] firstValidChar_blanks [of line 0]
  by (auto simp: GetLineType_def GetFirstValidCharType_def)

lemmas GetLineType_simps = GetLineType_section GetLineType_attr GetLineType_other

section \<open>Sections are built up correctly\<close>

lemma isNodeExist_eq: "isNodeExist n cur secs \<longleftrightarrow> n \<in> set (butlast (cur # map sectionName secs))"
  by (induction secs arbitrary: cur) auto

text \<open>What the items add to a list of sections.\<close>

definition add_attr :: "string \<Rightarrow> string \<Rightarrow> MOUTILS_INI_SECTION_INFO_NODE \<Rightarrow> MOUTILS_INI_SECTION_INFO_NODE" where
  "add_attr k v s = s\<lparr>attrs := attrs s @ [\<lparr>key = k, value = v\<rparr>]\<rparr>"

fun build :: "MOUTILS_INI_SECTION_INFO_NODE list \<Rightarrow> item list \<Rightarrow> MOUTILS_INI_SECTION_INFO_NODE list" where
  "build secs [] = secs"
| "build secs (Section n # is) = build (secs @ [\<lparr>sectionName = n, attrs = []\<rparr>]) is"
| "build secs (Attr k v # is) = build (butlast secs @ [add_attr k v (last secs)]) is"
| "build secs (_ # is) = build secs is"

definition triples :: "MOUTILS_INI_SECTION_INFO_NODE list \<Rightarrow> (string \<times> string \<times> string) list" where
  "triples secs = concat (map (\<lambda>s. map (\<lambda>a. (sectionName s, key a, value a)) (attrs s)) secs)"

definition cur_name :: "MOUTILS_INI_SECTION_INFO_NODE list \<Rightarrow> string" where
  "cur_name secs = (if secs = [] then [] else sectionName (last secs))"

lemma triples_simps [simp]:
  "triples [] = []" "triples (xs @ ys) = triples xs @ triples ys"
  "triples [s] = map (\<lambda>a. (sectionName s, key a, value a)) (attrs s)"
  by (simp_all add: triples_def)

lemma cur_name_snoc [simp]: "cur_name (secs @ [s]) = sectionName s"
  by (simp add: cur_name_def)

lemma add_attr_simps [simp]:
  "sectionName (add_attr k v s) = sectionName s" "attrs (add_attr k v s) = attrs s @ [\<lparr>key = k, value = v\<rparr>]"
  by (simp_all add: add_attr_def)

lemma addToSection_last:
  assumes "name \<notin> set (map sectionName secs)" and "name = sectionName s"
    and "\<not> list_ex (\<lambda>a. key a = k) (attrs s)"
  shows "addToSection True \<lparr>key = k, value = v\<rparr> name (secs @ [s]) = (0, secs @ [add_attr k v s])"
  using assms by (induction secs) (auto simp: add_attr_def)

text \<open>
  The state of the loop in the middle of a well-formed file: \<open>done_ok secs is\<close> says that the sections
  so far and the items still to come do not collide.
\<close>

definition done_ok :: "MOUTILS_INI_SECTION_INFO_NODE list \<Rightarrow> item list \<Rightarrow> bool" where
  "done_ok secs is \<longleftrightarrow> distinct ([] # map sectionName secs @ section_names is) \<and>
     distinct (map (\<lambda>(s, k, v). (s, k)) (triples secs @ assigned (cur_name secs) is)) \<and>
     (\<forall>(s, k, v) \<in> set (assigned (cur_name secs) is). s \<noteq> [])"

lemma done_ok_section:
  "done_ok secs (Section n # is) \<Longrightarrow> done_ok (secs @ [\<lparr>sectionName = n, attrs = []\<rparr>]) is"
  by (simp add: done_ok_def)

lemma done_ok_attr:
  assumes "done_ok secs (Attr k v # is)"
  shows "\<exists>ss s. secs = ss @ [s] \<and> sectionName s \<noteq> [] \<and> sectionName s \<notin> set (map sectionName ss) \<and>
    \<not> list_ex (\<lambda>a. key a = k) (attrs s) \<and> done_ok (ss @ [add_attr k v s]) is"
proof -
  have "cur_name secs \<noteq> []" using assms by (simp add: done_ok_def)
  then have "secs \<noteq> []" by (auto simp: cur_name_def)
  then obtain ss s where s: "secs = ss @ [s]" by (metis append_butlast_last_id)
  have "\<not> list_ex (\<lambda>a. key a = k) (attrs s)"
  proof
    assume "list_ex (\<lambda>a. key a = k) (attrs s)"
    then obtain a where "a \<in> set (attrs s)" "key a = k" by (auto simp: list_ex_iff)
    then have "(sectionName s, k) \<in> set (map (\<lambda>(s, k, v). (s, k)) (triples secs))"
      using s by force
    then show False using assms s unfolding done_ok_def by auto
  qed
  moreover have "done_ok (ss @ [add_attr k v s]) is" using assms s by (auto simp: done_ok_def)
  ultimately show ?thesis using assms s by (auto simp: done_ok_def)
qed

lemma fgets_line:
  assumes "NEWLINE \<notin> set l" and "length l < n"
  shows "fgets n (l @ NEWLINE # rest) = (l @ [NEWLINE], rest)"
  using assms
proof (induction l arbitrary: n)
  case Nil
  then show ?case by (cases n) simp_all
next
  case (Cons c l)
  then show ?case by (cases n) auto
qed

lemma sectionLoop_line:
  assumes "good_line l" and "handleLine a b l cur secs = Some (0, cur', secs')"
  shows "sectionLoop a b (l @ NEWLINE # rest) cur secs = sectionLoop a b rest cur' secs'"
proof -
  have "fgets 511 (l @ NEWLINE # rest) = (l @ [NEWLINE], rest)"
    by (rule fgets_line) (use assms(1) in \<open>simp_all add: good_line_def\<close>)
  moreover have "takeWhile (\<lambda>c. c \<noteq> NUL) (l @ [NEWLINE]) = l @ [NEWLINE]"
    using assms(1) by (auto simp: good_line_def takeWhile_eq_all_conv)
  ultimately show ?thesis using assms(2) by (subst sectionLoop.simps) simp
qed

lemma sectionLoop_file:
  assumes "list_all2 renders ls is" and "list_all good_line ls" and "done_ok secs is"
  shows "sectionLoop True True (file_text ls) (cur_name secs) secs = Some (0, build secs is)"
  using assms
proof (induction ls "is" arbitrary: secs rule: list_all2_induct)
  case Nil
  then show ?case by (simp add: file_text_def sectionLoop.simps)
next
  case (Cons l ls i "is")
  have whole: "file_text (l # ls) = l @ NEWLINE # file_text ls" by (simp add: file_text_def)
  have good: "good_line l" "list_all good_line ls" using Cons.prems by simp_all
  note type = GetLineType_simps
  have "\<exists>secs'. handleLine True True l (cur_name secs) secs = Some (0, cur_name secs', secs') \<and>
    done_ok secs' is \<and> build secs (i # is) = build secs' is"
  proof (cases i)
    case (Section n)
    then have "\<not> isNodeExist n [] secs"
      using Cons.prems(2) in_set_butlastD [of n "[] # map sectionName secs"]
      by (auto simp: isNodeExist_eq done_ok_def)
    then show ?thesis using Section Cons.hyps(1) type(1) done_ok_section Cons.prems(2)
      by (auto simp: handleLine_def AddSecInfoNode_def intro!: exI [of _ "secs @ [\<lparr>sectionName = n, attrs = []\<rparr>]"])
  next
    case (Attr k v)
    then obtain ss s where s: "secs = ss @ [s]" "sectionName s \<noteq> []" "sectionName s \<notin> set (map sectionName ss)"
      "\<not> list_ex (\<lambda>a. key a = k) (attrs s)" "done_ok (ss @ [add_attr k v s]) is"
      using done_ok_attr Cons.prems(2) by blast
    then show ?thesis using Attr Cons.hyps(1) type(2) addToSection_last [OF s(3) refl s(4), of v]
      by (auto simp: handleLine_def AddAttrInfoNode_def intro!: exI [of _ "ss @ [add_attr k v s]"])
  next
    case Comment
    then show ?thesis using Cons type(3) by (auto simp: handleLine_def done_ok_def)
  next
    case Blank
    then show ?thesis using Cons type(4) by (auto simp: handleLine_def done_ok_def)
  qed
  then show ?case using sectionLoop_line [OF good(1)] Cons.IH good(2) unfolding whole by auto
qed

section \<open>Lookup\<close>

lemma build_names: "map sectionName (build secs is) = map sectionName secs @ section_names is" if "done_ok secs is"
  using that
proof (induction secs "is" rule: build.induct)
  case (2 secs n "is")
  then show ?case using done_ok_section by fastforce
next
  case (3 secs k v "is")
  then show ?case using done_ok_attr [OF 3(2)] by fastforce
qed (auto simp: done_ok_def)

lemma build_triples: "triples (build secs is) = triples secs @ assigned (cur_name secs) is" if "done_ok secs is"
  using that
proof (induction secs "is" rule: build.induct)
  case (2 secs n "is")
  then show ?case using done_ok_section by fastforce
next
  case (3 secs k v "is")
  then show ?case using done_ok_attr [OF 3(2)] by fastforce
qed (auto simp: done_ok_def)

lemma find_distinct:
  assumes "x \<in> set xs" and "distinct (map f xs)"
  shows "find (\<lambda>y. f x = f y) xs = Some x"
  using assms by (induction xs) (auto simp: image_iff)

lemma find_none: "k \<notin> f ` set xs \<Longrightarrow> find (\<lambda>y. k = f y) xs = None"
  by (auto simp: find_None_iff)

lemma lookup_triples:
  assumes "distinct (map sectionName secs)" and "distinct (map (\<lambda>(s, k, v). (s, k)) (triples secs))"
  shows "(s, k, v) \<in> set (triples secs) \<Longrightarrow>
      moUtils_Ini_GetAttrValue (Some s) (Some k) (Some buf) (Some secs) = (0, Some v)"
    and "s \<in> set (map sectionName secs) \<Longrightarrow> (\<And>v. (s, k, v) \<notin> set (triples secs)) \<Longrightarrow>
      moUtils_Ini_GetAttrValue (Some s) (Some k) (Some buf) (Some secs) = (-4, Some buf)"
    and "s \<notin> set (map sectionName secs) \<Longrightarrow>
      moUtils_Ini_GetAttrValue (Some s) (Some k) (Some buf) (Some secs) = (-3, Some buf)"
proof -
  have sec: "find (\<lambda>x. sectionName n = sectionName x) secs = Some n" if "n \<in> set secs" for n
    using find_distinct [OF that assms(1)] .
  have keys: "distinct (map key (attrs n))" if "n \<in> set secs" for n
  proof -
    obtain xs ys where "secs = xs @ [n] @ ys" using \<open>n \<in> set secs\<close> by (metis append_Cons append_Nil in_set_conv_decomp)
    then have "triples secs = triples xs @ triples [n] @ triples ys"
      using triples_simps(2) by (metis append.assoc)
    then have "distinct (map (\<lambda>(s, k, v). (s, k)) (triples [n]))" using assms(2) by auto
    then have "distinct (map (\<lambda>a. (sectionName n, key a)) (attrs n))" by (simp add: comp_def)
    then show ?thesis by (auto simp: distinct_map inj_on_def)
  qed
  show "moUtils_Ini_GetAttrValue (Some s) (Some k) (Some buf) (Some secs) = (0, Some v)"
    if tr: "(s, k, v) \<in> set (triples secs)"
  proof -
    obtain n a where n: "n \<in> set secs" "a \<in> set (attrs n)" "s = sectionName n" "k = key a" "v = value a"
      using tr by (auto simp: triples_def)
    then show ?thesis using sec [OF n(1)] find_distinct [OF n(2) keys [OF n(1)]]
      by (simp add: moUtils_Ini_GetAttrValue_def)
  qed
  show "moUtils_Ini_GetAttrValue (Some s) (Some k) (Some buf) (Some secs) = (-4, Some buf)"
    if s: "s \<in> set (map sectionName secs)" and tr: "\<And>v. (s, k, v) \<notin> set (triples secs)"
  proof -
    obtain n where n: "n \<in> set secs" "s = sectionName n" using s by auto
    then have "k \<notin> key ` set (attrs n)" using tr by (force simp: triples_def)
    then have "find (\<lambda>a. k = key a) (attrs n) = None" by (rule find_none)
    then show ?thesis using sec [OF n(1)] n(2) by (simp add: moUtils_Ini_GetAttrValue_def)
  qed
  show "moUtils_Ini_GetAttrValue (Some s) (Some k) (Some buf) (Some secs) = (-3, Some buf)"
    if "s \<notin> set (map sectionName secs)"
  proof -
    have "find (\<lambda>n. s = sectionName n) secs = None" using that by (intro find_none) simp
    then show ?thesis by (simp add: moUtils_Ini_GetAttrValue_def)
  qed
qed

section \<open>What every file leads to\<close>

text \<open>
  The invariant of the lists, for any text: two sections with one name are neighbours, and the keys of
  a section are pairwise different; names, keys and values fit their fields, keys and values are not
  empty.
\<close>

definition names_ok :: "string list \<Rightarrow> bool" where
  "names_ok ns \<longleftrightarrow> (\<forall>i j. i < j \<and> j < length ns \<and> ns ! i = ns ! j \<longrightarrow> j = Suc i)"

definition section_ok :: "MOUTILS_INI_SECTION_INFO_NODE \<Rightarrow> bool" where
  "section_ok s \<longleftrightarrow> length (sectionName s) < 128 \<and> distinct (map key (attrs s)) \<and>
     list_all (\<lambda>a. key a \<noteq> [] \<and> length (key a) < 128 \<and> value a \<noteq> [] \<and> length (value a) < 128) (attrs s)"

definition sections_ok :: "MOUTILS_INI_SECTION_INFO_NODE list \<Rightarrow> bool" where
  "sections_ok secs \<longleftrightarrow> names_ok (map sectionName secs) \<and> list_all section_ok secs"

lemma names_ok_snoc:
  assumes "names_ok ns" and "n \<notin> set (butlast ns)"
  shows "names_ok (ns @ [n])"
proof -
  have "Suc i = length ns" if "i < length ns" "ns ! i = n" for i
  proof (rule ccontr)
    assume "Suc i \<noteq> length ns"
    then have "i < length (butlast ns)" using that by simp
    then have "butlast ns ! i \<in> set (butlast ns)" by (rule nth_mem)
    then show False using that assms(2) \<open>i < length (butlast ns)\<close> by (simp add: nth_butlast)
  qed
  then show ?thesis using assms(1) unfolding names_ok_def
    by (auto simp: nth_append less_Suc_eq)
qed

lemma addToSection_ok:
  assumes "addToSection b info n secs = (ret, secs')" and "list_all section_ok secs"
    and "key info \<noteq> []" and "length (key info) < 128" and "value info \<noteq> []" and "length (value info) < 128"
  shows "list_all section_ok secs' \<and> map sectionName secs' = map sectionName secs"
  using assms(1,2)
proof (induction secs arbitrary: secs')
  case Nil
  then show ?case by simp
next
  case (Cons s secs)
  show ?case
  proof (cases "n = sectionName s")
    case True
    show ?thesis
    proof (cases "list_ex (\<lambda>a. key a = key info) (attrs s) \<or> \<not> b")
      case True
      then show ?thesis using Cons.prems \<open>n = sectionName s\<close> by (auto split: if_splits)
    next
      case False
      then have "key info \<notin> key ` set (attrs s)" by (auto simp: list_ex_iff)
      moreover have "secs' = s\<lparr>attrs := attrs s @ [info]\<rparr> # secs"
        using Cons.prems(1) False \<open>n = sectionName s\<close> by simp
      ultimately show ?thesis using Cons.prems(2) assms(3-6) by (simp add: section_ok_def)
    qed
  next
    case False
    then show ?thesis using Cons by (auto split: prod.splits)
  qed
qed

lemma GetLineType_cases:
  "GetLineType line \<in> {(LINE_SPACE, None, None), (LINE_COMMENT, None, None), (LINE_ERROR, None, None)} \<or>
    (\<exists>n. GetLineType line = (LINE_SECTION, Some n, None) \<and> length n < 128) \<or>
    (\<exists>k v. GetLineType line = (LINE_ATTR, None, Some (k, v)) \<and> k \<noteq> [] \<and> length k < 128 \<and> v \<noteq> [] \<and> length v < 128)"
  by (auto simp: GetLineType_def GetFirstValidCharType_def GetSectionNameFromLine_def GetAttrFromLine_def Let_def
      split: prod.splits option.splits if_splits)

lemma handleLine_ok:
  assumes "sections_ok secs"
  shows "\<exists>ret cur' secs'. handleLine a b line cur secs = Some (ret, cur', secs') \<and> sections_ok secs'"
proof -
  consider "GetLineType line \<in> {(LINE_SPACE, None, None), (LINE_COMMENT, None, None), (LINE_ERROR, None, None)}"
    | n where "GetLineType line = (LINE_SECTION, Some n, None)" "length n < 128"
    | k v where "GetLineType line = (LINE_ATTR, None, Some (k, v))" "k \<noteq> []" "length k < 128" "v \<noteq> []" "length v < 128"
    using GetLineType_cases [of line] by blast
  then show ?thesis
  proof cases
    case 1
    then show ?thesis using assms by (auto simp: handleLine_def)
  next
    case (2 n)
    have "sections_ok (secs @ [\<lparr>sectionName = n, attrs = []\<rparr>])" if "\<not> isNodeExist n [] secs"
    proof -
      have "n \<notin> set (butlast (map sectionName secs))" using that by (cases secs) (auto simp: isNodeExist_eq)
      then show ?thesis using assms names_ok_snoc 2(2) by (simp add: sections_ok_def section_ok_def)
    qed
    then show ?thesis using assms 2 by (auto simp: handleLine_def AddSecInfoNode_def)
  next
    case (3 k v)
    obtain ret secs' where r: "addToSection b \<lparr>key = k, value = v\<rparr> cur secs = (ret, secs')" by force
    then have "sections_ok secs'"
      using addToSection_ok [OF r] assms 3 by (simp add: sections_ok_def)
    then show ?thesis using assms 3 r by (auto simp: handleLine_def AddAttrInfoNode_def)
  qed
qed

lemma fgets_append: "fgets n s = (l, r) \<Longrightarrow> s = l @ r"
  by (induction n s arbitrary: l r rule: fgets.induct) (auto split: if_splits prod.splits)

lemma fgets_nonempty: "fgets (Suc n) s = (l, r) \<Longrightarrow> s \<noteq> [] \<Longrightarrow> l \<noteq> []"
  by (cases s) (auto split: if_splits prod.splits)

lemma sectionLoop_ok:
  "NUL \<notin> set fp \<Longrightarrow> sections_ok secs \<Longrightarrow>
    \<exists>ret secs'. sectionLoop a b fp cur secs = Some (ret, secs') \<and> sections_ok secs'"
proof (induction fp arbitrary: cur secs rule: length_induct)
  case (1 fp)
  show ?case
  proof (cases "fp = []")
    case True
    then show ?thesis using 1 by (simp add: sectionLoop.simps)
  next
    case False
    obtain l r where f: "fgets 511 fp = (l, r)" by force
    then have fp: "fp = l @ r" "l \<noteq> []" using fgets_append fgets_nonempty [of 510] False by auto
    let ?line = "if last l = NEWLINE then butlast l else l"
    have tw: "takeWhile (\<lambda>c. c \<noteq> NUL) l = l" using 1(2) fp by (auto simp: takeWhile_eq_all_conv)
    obtain ret cur' secs' where h: "handleLine a b ?line cur secs = Some (ret, cur', secs')" "sections_ok secs'"
      using handleLine_ok [OF 1(3)] by metis
    have "length r < length fp" "NUL \<notin> set r" using fp 1(2) by auto
    then have "\<exists>ret secs''. sectionLoop a b r cur' secs' = Some (ret, secs'') \<and> sections_ok secs''"
      using 1(1) h(2) by blast
    moreover have "sectionLoop a b fp cur secs = (if ret \<noteq> 0 then Some (ret, secs') else sectionLoop a b r cur' secs')"
      using False h(1) fp(2) by (simp add: sectionLoop.simps [of _ _ fp] f tw)
    ultimately show ?thesis using h(2) by simp
  qed
qed

section \<open>Properties\<close>

text \<open>
  C15. A well-formed configuration file is read as it is written: for every file whose lines render a
  well-formed sequence of sections and assignments, with blanks and comments wherever the format
  allows them, loading succeeds, and looking up a section and key gives the assigned value, -4 for a
  key that the section does not assign, and -3 for a section that the file does not have.
\<close>

theorem moUtils_Ini_correct:
  assumes "list_all2 renders ls is" and "list_all good_line ls" and "well_formed is"
    and "fopenR path = Some (file_text ls)"
  shows "\<exists>secs. moUtils_Ini_Init True True fopenR (Some path) = Some (Some secs) \<and>
    (\<forall>s k buf. moUtils_Ini_GetAttrValue (Some s) (Some k) (Some buf) (Some secs) =
      (if s \<notin> set (section_names is) then (-3, Some buf)
       else case map_of (map (\<lambda>(s, k, v). ((s, k), v)) (assigned [] is)) (s, k) of
           None \<Rightarrow> (-4, Some buf) | Some v \<Rightarrow> (0, Some v)))"
proof -
  have d: "done_ok [] is" using assms(3) by (simp add: well_formed_def done_ok_def cur_name_def)
  let ?secs = "build [] is" and ?m = "map (\<lambda>(s, k, v). ((s, k), v)) (assigned [] is)"
  have names: "map sectionName ?secs = section_names is" using build_names [OF d] by simp
  have tr: "triples ?secs = assigned [] is" using build_triples [OF d] by (simp add: cur_name_def)
  have dist: "distinct (map sectionName ?secs)" "distinct (map (\<lambda>(s, k, v). (s, k)) (triples ?secs))"
    using assms(3) unfolding names tr by (simp_all add: well_formed_def)
  have "moUtils_Ini_Init True True fopenR (Some path) = Some (Some ?secs)"
    using sectionLoop_file [OF assms(1,2) d] assms(4)
    by (simp add: moUtils_Ini_Init_def InitSecInfoList_def GetSectionList_def cur_name_def)
  moreover have "moUtils_Ini_GetAttrValue (Some s) (Some k) (Some buf) (Some ?secs) =
      (if s \<notin> set (section_names is) then (-3, Some buf)
       else case map_of ?m (s, k) of None \<Rightarrow> (-4, Some buf) | Some v \<Rightarrow> (0, Some v))" for s k buf
  proof (cases "map_of ?m (s, k)")
    case None
    then have "(s, k, v) \<notin> set (triples ?secs)" for v unfolding tr by (force simp: map_of_eq_None_iff)
    then show ?thesis using None lookup_triples(2,3) [OF dist] unfolding names by simp
  next
    case (Some v)
    then have t: "(s, k, v) \<in> set (triples ?secs)" unfolding tr by (auto dest!: map_of_SomeD)
    then have "s \<in> set (section_names is)" unfolding names [symmetric] by (auto simp: triples_def)
    then show ?thesis using Some lookup_triples(1) [OF dist t] by simp
  qed
  ultimately show ?thesis by blast
qed

theorem moUtils_Ini_correct_witness:
  "\<exists>secs. moUtils_Ini_Init True True (\<lambda>_. Some (file_text ['' ; x'', ''[a] ; y'', ''k = v 1''])) (Some ''f'') = Some (Some secs) \<and>
    moUtils_Ini_GetAttrValue (Some ''a'') (Some ''k'') (Some []) (Some secs) = (0, Some ''v 1'')"
proof -
  have "renders '' ; x'' Comment"
    by (simp add: exI [of _ "'' ''"] exI [of _ "'' x''"] is_blank_def)
  moreover have "renders ''[a] ; y'' (Section ''a'')"
    unfolding renders.simps
    by (intro conjI exI [of _ "[]"] exI [of _ "'' ''"] exI [of _ "''; y''"]) (simp_all add: is_blank_def line_end_def)
  moreover have "renders ''k = v 1'' (Attr ''k'' ''v 1'')"
    unfolding renders.simps
    by (intro conjI exI [of _ "[]"] exI [of _ "'' ''"])
      (simp_all add: is_blank_def line_end_def is_token_def)
  ultimately have "list_all2 renders ['' ; x'', ''[a] ; y'', ''k = v 1''] [Comment, Section ''a'', Attr ''k'' ''v 1'']"
    by simp
  moreover have "list_all good_line ['' ; x'', ''[a] ; y'', ''k = v 1'']" by (simp add: good_line_def)
  ultimately show ?thesis
    using moUtils_Ini_correct [of "['' ; x'', ''[a] ; y'', ''k = v 1'']" "[Comment, Section ''a'', Attr ''k'' ''v 1'']"
        "\<lambda>_. Some (file_text ['' ; x'', ''[a] ; y'', ''k = v 1''])" "''f''"]
    by (fastforce simp: well_formed_def)
qed

text \<open>
  Loading any text without NUL characters returns and stays inside its buffers, whatever is in it,
  and when it succeeds the sections satisfy the invariant: a name is repeated only by the next section,
  no key is repeated in a section, and all names, keys and values fit their fields.
\<close>

theorem moUtils_Ini_Init_total:
  assumes "\<And>t. fopenR path = Some t \<Longrightarrow> NUL \<notin> set t"
  shows "moUtils_Ini_Init a b fopenR (Some path) = Some None \<or>
    (\<exists>secs. moUtils_Ini_Init a b fopenR (Some path) = Some (Some secs) \<and> sections_ok secs)"
proof (cases "fopenR path")
  case None
  then show ?thesis by (simp add: moUtils_Ini_Init_def split: option.splits)
next
  case (Some t)
  have "sections_ok []" by (simp add: sections_ok_def names_ok_def)
  then obtain ret secs where "sectionLoop a b t [] [] = Some (ret, secs)" "sections_ok secs"
    using sectionLoop_ok assms Some by blast
  then show ?thesis using Some
    by (auto simp: moUtils_Ini_Init_def InitSecInfoList_def GetSectionList_def)
qed

theorem moUtils_Ini_Init_total_witness:
  "moUtils_Ini_Init True True (\<lambda>_. Some ''[x'') (Some ''f'') = Some None \<or>
    (\<exists>secs. moUtils_Ini_Init True True (\<lambda>_. Some ''[x'') (Some ''f'') = Some (Some secs) \<and> sections_ok secs)"
  by (rule moUtils_Ini_Init_total) simp

text \<open>
  A section that repeats the name of the section just before it is accepted as a new one, although
  the function is meant to refuse names that exist: the search for the name leaves out the last node
  of the list. The attributes added under the second heading go to the first of the two, and the second
  stays empty.
\<close>

theorem AddSecInfoNode_accepts_last:
  assumes "n \<notin> set ([] # map sectionName secs)"
  shows "\<exists>secs2 secs3. AddSecInfoNode True True (Some n) (Some secs) = (0, Some secs2) \<and>
    AddSecInfoNode True True (Some n) (Some secs2) = (0, Some secs3) \<and>
    map sectionName secs3 = map sectionName secs @ [n, n] \<and>
    AddAttrInfoNode True (Some info) (Some n) (Some secs3) =
      (0, Some (secs @ [\<lparr>sectionName = n, attrs = [info]\<rparr>, \<lparr>sectionName = n, attrs = []\<rparr>]))"
proof -
  let ?s = "\<lparr>sectionName = n, attrs = []\<rparr>"
  have "\<not> isNodeExist n [] secs" "\<not> isNodeExist n [] (secs @ [?s])"
    using assms in_set_butlastD [of n "[] # map sectionName secs"] by (auto simp: isNodeExist_eq butlast_append)
  moreover have "addToSection True info n (secs @ [?s, ?s]) =
      (0, secs @ [\<lparr>sectionName = n, attrs = [info]\<rparr>, ?s])"
    using assms by (induction secs) auto
  ultimately show ?thesis by (simp add: AddSecInfoNode_def AddAttrInfoNode_def)
qed

theorem AddSecInfoNode_accepts_last_witness:
  "\<exists>secs2 secs3. AddSecInfoNode True True (Some ''a'') (Some []) = (0, Some secs2) \<and>
    AddSecInfoNode True True (Some ''a'') (Some secs2) = (0, Some secs3) \<and>
    map sectionName secs3 = [''a'', ''a'']"
  using AddSecInfoNode_accepts_last [of "''a''" "[]" "\<lparr>key = ''k'', value = ''v''\<rparr>"] by auto

end
