(* ===== verification/MoNet.thy ===== *)
theory MoNet
  imports MoPrelude "HOL-Library.Signed_Division"
begin

text \<open>
  The helpers of the file server and its client, \<open>moSdk/Cps/Utils/src/moCpsUtils.c\<close>
  (\<open>moProject/moCloud/moCloudUtils/src/moCloudUtils.c\<close> holds the same text for most of them).

  A connected socket is a script of what the kernel does in the successive calls. For reading, the
  script says which bytes arrive, in which pieces, and where a call fails; for writing, how many
  bytes a call accepts. A call on an exhausted script blocks for ever. The result \<open>None\<close> therefore
  means that the function does not return, or that it accesses memory outside its buffer.
\<close>

text \<open>Constants of \<open>moCpsUtils.h\<close>; the interval is in seconds.\<close>

abbreviation (input) MOCPS_HEARTBEAT_INTEVAL :: int where "MOCPS_HEARTBEAT_INTEVAL \<equiv> 3"
abbreviation (input) MOCPS_IP_ADDR_MAXLEN :: nat where "MOCPS_IP_ADDR_MAXLEN \<equiv> 16"
abbreviation (input) MOCPS_INVALID_SOCKID :: int where "MOCPS_INVALID_SOCKID \<equiv> -1"

datatype errno = EINTR | EAGAIN | EOTHER

section \<open>Reading and writing sockets\<close>

text \<open>
  \<open>Arrive bs\<close> is a piece of the byte stream: a \<open>read\<close> of \<open>k\<close> bytes returns at most \<open>k\<close> of them and
  leaves the others for the next call. \<open>Arrive []\<close> is the end of the stream (\<open>read\<close> returns 0).
\<close>

datatype recv_event = Arrive "byte list" | Recv_err errno

fun sys_read :: "nat \<Rightarrow> recv_event list \<Rightarrow> ((errno + byte list) \<times> recv_event list) option" where
  "sys_read k [] = None"
| "sys_read k (Arrive bs # es) =
     Some (Inr (take k bs), if k < length bs then Arrive (drop k bs) # es else es)"
| "sys_read k (Recv_err e # es) = Some (Inl e, es)"

lemma sys_read_measure:
  assumes "sys_read k es = Some (Inr bs, es')"
  shows "length es' \<le> length es" and "length bs \<le> k"
  using assms by (cases es rule: list.exhaust; cases "hd es"; auto split: if_splits)+

lemma sys_read_err_measure: "sys_read k es = Some (Inl e, es') \<Longrightarrow> length es' < length es"
  by (cases es rule: list.exhaust; cases "hd es") (auto split: if_splits)

text \<open>The loop of \<open>readn\<close>: \<open>pos\<close> is \<open>ptr - buf\<close>, and \<open>len - left\<close> is what it returns.\<close>

function readn_loop ::
    "int \<Rightarrow> recv_event list \<Rightarrow> byte list \<Rightarrow> nat \<Rightarrow> int \<Rightarrow> (int \<times> byte list \<times> recv_event list) option" where
  "readn_loop len es buf pos left =
     (if left > 0 then
        case sys_read (nat left) es of
          None \<Rightarrow> None
        | Some (Inl EINTR, es') \<Rightarrow> readn_loop len es' buf pos left
        | Some (Inl EAGAIN, es') \<Rightarrow> Some (len - left, buf, es')
        | Some (Inl EOTHER, es') \<Rightarrow> Some (-1, buf, es')
        | Some (Inr bs, es') \<Rightarrow>
            if bs = [] then Some (-2, buf, es')
            else do {
              buf' \<leftarrow> wrn buf pos bs;
              readn_loop len es' buf' (pos + length bs) (left - int (length bs))
            }
      else Some (len - left, buf, es))"
  by pat_completeness auto
termination
  by (relation "measure (\<lambda>(len, es, buf, pos, left). nat left + length es)")
    (auto dest: sys_read_measure sys_read_err_measure simp: less_eq_Suc_le[symmetric] add_strict_mono
       intro!: add_less_le_mono)

declare readn_loop.simps [simp del]

definition readn :: "recv_event list \<Rightarrow> byte list \<Rightarrow> int \<Rightarrow> (int \<times> byte list \<times> recv_event list) option" where
  "readn sock buf len = readn_loop len sock buf 0 len"

text \<open>\<open>Accept n\<close>: the kernel takes at most \<open>n\<close> of the bytes it is given.\<close>

datatype send_event = Accept nat | Send_err errno

fun sys_write :: "byte list \<Rightarrow> send_event list \<Rightarrow> ((errno + nat) \<times> send_event list) option" where
  "sys_write bs [] = None"
| "sys_write bs (Accept n # es) = Some (Inr (min n (length bs)), es)"
| "sys_write bs (Send_err e # es) = Some (Inl e, es)"

lemma sys_write_measure: "sys_write bs es = Some (r, es') \<Longrightarrow> length es' < length es"
  by (cases es rule: list.exhaust; cases "hd es") auto

text \<open>The loop of \<open>writen\<close>; the last component of the result is what has been sent.\<close>

function writen_loop ::
    "int \<Rightarrow> send_event list \<Rightarrow> byte list \<Rightarrow> nat \<Rightarrow> int \<Rightarrow> byte list \<Rightarrow> (int \<times> byte list \<times> send_event list) option" where
  "writen_loop len es buf pos left sent =
     (if left > 0 then do {
        bs \<leftarrow> rdn buf pos (nat left);
        case sys_write bs es of
          None \<Rightarrow> None
        | Some (Inl EINTR, es') \<Rightarrow> writen_loop len es' buf pos left sent
        | Some (Inl EAGAIN, es') \<Rightarrow> Some (len - left, sent, es')
        | Some (Inl EOTHER, es') \<Rightarrow> Some (-1, sent, es')
        | Some (Inr n, es') \<Rightarrow>
            if n = 0 then Some (-2, sent, es')
            else writen_loop len es' buf (pos + n) (left - int n) (sent @ take n bs)
      }
      else Some (len - left, sent, es))"
  by pat_completeness auto
termination
  by (relation "measure (\<lambda>(len, es, buf, pos, left, sent). length es)") (auto dest: sys_write_measure)

declare writen_loop.simps [simp del]

definition writen :: "send_event list \<Rightarrow> byte list \<Rightarrow> int \<Rightarrow> (int \<times> byte list \<times> send_event list) option" where
  "writen sock buf len = writen_loop len sock buf 0 len []"

text \<open>\<open>inet_aton\<close> is the library's parser of dotted addresses.\<close>

definition isValidIpAddr :: "(string \<Rightarrow> 32 word option) \<Rightarrow> string option \<Rightarrow> int" where
  "isValidIpAddr inet_aton pIp =
     (case pIp of None \<Rightarrow> 0 | Some ip \<Rightarrow> if inet_aton ip = None then 0 else 1)"

section \<open>Integers in requests\<close>

text \<open>
  \<open>splitInt2Char\<close> shifts the \<open>int\<close> arithmetically and keeps the low byte. \<open>mergeChar2Int\<close> adds
  \<open>src[i] << (8 * i)\<close>; the shift of a byte with its top bit set into the sign bit of an \<open>int\<close> is
  undefined (C99 6.5.7), and so is an overflow of the addition.
\<close>

definition splitInt2Char :: "32 word \<Rightarrow> byte list" where
  "splitInt2Char src = map (\<lambda>i. ucast (signed_drop_bit (8 * i) src)) [0..<4]"

definition in_int32 :: "int \<Rightarrow> bool" where
  "in_int32 v \<longleftrightarrow> - (2 ^ 31) \<le> v \<and> v < 2 ^ 31"

definition shl_int32 :: "int \<Rightarrow> nat \<Rightarrow> int option" where
  "shl_int32 v n = (if 0 \<le> v \<and> in_int32 (v * 2 ^ n) then Some (v * 2 ^ n) else None)"

definition mergeChar2Int :: "byte list \<Rightarrow> int option" where
  "mergeChar2Int src = foldM (\<lambda>i ret. do {
     tmp \<leftarrow> rd src i;
     t \<leftarrow> shl_int32 (uint tmp) (8 * i);
     if in_int32 (ret + t) then Some (ret + t) else None
   }) [0..<4] 0"

text \<open>
  \<open>getNearestDivValue\<close>: a remainder by zero and an overflow are undefined. (\<open>INT_MIN % -1\<close> overflows
  on this platform, too.)
\<close>

definition getNearestDivValue :: "int \<Rightarrow> int \<Rightarrow> int option" where
  "getNearestDivValue srcValue d =
     (if srcValue < d then Some (-1)
      else if d = 0 \<or> (srcValue = - (2 ^ 31) \<and> d = -1) then None
      else let m = srcValue smod d in
        if m = 0 then Some srcValue
        else if in_int32 (d - m) \<and> in_int32 (srcValue + (d - m)) then Some (srcValue + (d - m))
        else None)"

section \<open>Stopping a thread\<close>

text \<open>
  \<open>ESRCH\<close> and \<open>EINVAL\<close> are 3 and 22. The results of the two \<open>pthread_kill\<close> calls and of
  \<open>pthread_join\<close> are arguments; the second component says which calls were made.
\<close>

datatype thr_call = Probe | Signal | Join

definition killThread :: "nat \<Rightarrow> int \<Rightarrow> int \<Rightarrow> int \<Rightarrow> int \<times> thr_call list" where
  "killThread thId probe sig join =
     (if thId > 0 then
        if probe \<noteq> 0 then
          (if probe = 3 then (-1, [Probe]) else if probe = 22 then (-2, [Probe]) else (-3, [Probe]))
        else if sig \<noteq> 0 then (-4, [Probe, Signal])
        else if join \<noteq> 0 then (-5, [Probe, Signal, Join])
        else (0, [Probe, Signal, Join])
      else (0, []))"


section \<open>The byte stream of a socket\<close>

definition stream :: "recv_event list \<Rightarrow> byte list" where
  "stream es = concat (map (case_recv_event (\<lambda>bs. bs) (\<lambda>_. [])) es)"

lemma stream_simps [simp]:
  "stream [] = []" "stream (Arrive bs # es) = bs @ stream es" "stream (Recv_err e # es) = stream es"
  by (simp_all add: stream_def)

text \<open>A clean script has no end of stream and no failure other than an interrupted call.\<close>

fun clean_event :: "recv_event \<Rightarrow> bool" where
  "clean_event (Arrive bs) = (bs \<noteq> [])"
| "clean_event (Recv_err e) = (e = EINTR)"

abbreviation clean :: "recv_event list \<Rightarrow> bool" where
  "clean \<equiv> list_all clean_event"

lemma sys_read_bytes:
  assumes "sys_read k es = Some (Inr bs, es')"
  shows "stream es = bs @ stream es'" and "0 < k \<Longrightarrow> clean es \<longleftrightarrow> bs \<noteq> [] \<and> clean es'"
  using assms by (cases es; cases "hd es"; auto split: if_splits)+

lemma sys_read_error:
  assumes "sys_read k es = Some (Inl e, es')"
  shows "stream es = stream es'" and "clean es \<longleftrightarrow> e = EINTR \<and> clean es'"
  using assms by (cases es; cases "hd es"; auto split: if_splits)+

lemma sys_read_None [simp]: "sys_read k es = None \<longleftrightarrow> es = []"
  by (cases es rule: list.exhaust; cases "hd es") auto

text \<open>
  The outcome of a read of \<open>n\<close> bytes to the cells from \<open>pos\<close> on: \<open>k\<close> bytes of the stream are moved
  to the buffer, and the call fails or falls short only when the script fails.
\<close>

definition read_outcome :: "recv_event list \<Rightarrow> byte list \<Rightarrow> nat \<Rightarrow> nat \<Rightarrow>
    (int \<times> byte list \<times> recv_event list) option \<Rightarrow> bool" where
  "read_outcome es buf pos n res \<longleftrightarrow>
     (case res of
        None \<Rightarrow> clean es \<and> length (stream es) < n
      | Some (r, buf', es') \<Rightarrow> \<exists>k \<le> n.
          buf' = take pos buf @ take k (stream es) @ drop (pos + k) buf \<and>
          k \<le> length (stream es) \<and> stream es' = drop k (stream es) \<and>
          (r = int (pos + k) \<or> k < n \<and> (r = -1 \<or> r = -2)) \<and>
          (clean es \<longrightarrow> k = n \<and> r = int (pos + n) \<and> clean es'))"

lemma read_outcome_piece:
  assumes "read_outcome es' (take pos buf @ bs @ drop (pos + length bs) buf) (pos + length bs) (n - length bs) res"
    and "stream es = bs @ stream es'" and "clean es \<longleftrightarrow> clean es'"
    and "length bs \<le> n" and "pos + n \<le> length buf"
  shows "read_outcome es buf pos n res"
proof (cases res)
  case None
  with assms show ?thesis by (auto simp: read_outcome_def)
next
  case (Some x)
  obtain r buf' es'' where x: "x = (r, buf', es'')" by (cases x)
  with assms(1) Some obtain k where k: "k \<le> n - length bs"
    "buf' = take (pos + length bs) (take pos buf @ bs @ drop (pos + length bs) buf) @ take k (stream es') @
       drop (pos + length bs + k) (take pos buf @ bs @ drop (pos + length bs) buf)"
    "k \<le> length (stream es')" "stream es'' = drop k (stream es')"
    "r = int (pos + length bs + k) \<or> k < n - length bs \<and> (r = -1 \<or> r = -2)"
    "clean es' \<longrightarrow> k = n - length bs \<and> r = int (pos + length bs + (n - length bs)) \<and> clean es''"
    unfolding read_outcome_def by auto
  have "pos < length buf" if "bs \<noteq> []" using assms(4,5) that by (cases bs) auto
  then have "buf' = take pos buf @ take (length bs + k) (stream es) @ drop (pos + (length bs + k)) buf"
    using k(1,2) assms(2,4,5) by (cases "bs = []") (auto simp: min_def ac_simps)
  moreover have "stream es'' = drop (length bs + k) (stream es)" using k(4) assms(2) by simp
  moreover have "length bs + k \<le> n" "length bs + k \<le> length (stream es)" using k(1,3) assms(2,4) by simp_all
  moreover have "r = int (pos + (length bs + k)) \<or> length bs + k < n \<and> (r = -1 \<or> r = -2)"
    using k(5) assms(4) by (simp add: add.assoc) linarith
  moreover have "length bs + k = n \<and> r = int (pos + n) \<and> clean es''" if "clean es"
    using k(6) assms(3,4) that by simp
  ultimately have "\<exists>k' \<le> n. buf' = take pos buf @ take k' (stream es) @ drop (pos + k') buf \<and>
      k' \<le> length (stream es) \<and> stream es'' = drop k' (stream es) \<and>
      (r = int (pos + k') \<or> k' < n \<and> (r = -1 \<or> r = -2)) \<and>
      (clean es \<longrightarrow> k' = n \<and> r = int (pos + n) \<and> clean es'')" by blast
  then show ?thesis by (simp add: read_outcome_def Some x)
qed

lemma readn_loop_outcome:
  assumes "len = int (pos + n)" and "left = int n" and "pos + n \<le> length buf"
  shows "read_outcome es buf pos n (readn_loop len es buf pos left)"
  using assms
proof (induction len es buf pos left arbitrary: n rule: readn_loop.induct)
  case (1 len es buf pos left)
  show ?case
  proof (cases "left > 0")
    case False
    then show ?thesis using 1 by (subst readn_loop.simps) (simp add: read_outcome_def)
  next
    case pos_left: True
    show ?thesis
    proof (cases "sys_read (nat left) es")
      case None
      then show ?thesis using pos_left 1(4) by (subst readn_loop.simps) (simp add: read_outcome_def)
    next
      case (Some x)
      then obtain r es' where x: "sys_read (nat left) es = Some (r, es')" by (cases x) auto
      show ?thesis
      proof (cases r)
        case (Inl e)
        note st = sys_read_error [OF x [unfolded Inl]]
        show ?thesis
        proof (cases e)
          case EINTR
          have "read_outcome es' buf pos n (readn_loop len es' buf pos left)"
            using 1(1) [OF pos_left x refl Inl EINTR] 1(3-5) by blast
          then show ?thesis using x Inl EINTR pos_left st
            by (subst readn_loop.simps) (auto simp: read_outcome_def split: option.splits)
        qed (use x Inl pos_left st 1(3-5) in \<open>subst readn_loop.simps, auto simp: read_outcome_def\<close>)+
      next
        case (Inr bs)
        note st = sys_read_bytes [OF x [unfolded Inr]] and le = sys_read_measure(2) [OF x [unfolded Inr]]
        show ?thesis
        proof (cases "bs = []")
          case True
          then show ?thesis using x Inr pos_left st 1(3-5)
            by (subst readn_loop.simps) (auto simp: read_outcome_def)
        next
          case False
          define buf' where "buf' = take pos buf @ bs @ drop (pos + length bs) buf"
          have n: "length bs \<le> n" using le 1(4) by simp
          then have w: "wrn buf pos bs = Some buf'" using 1(5) by (simp add: buf'_def)
          have len': "pos + length bs + (n - length bs) \<le> length buf'" using n 1(5) by (simp add: buf'_def)
          have "read_outcome es' buf' (pos + length bs) (n - length bs)
              (readn_loop len es' buf' (pos + length bs) (left - int (length bs)))"
            using 1(2) [OF pos_left x refl Inr False w, of "n - length bs"] 1(3,4) n len' by simp
          then have "read_outcome es buf pos n
              (readn_loop len es' buf' (pos + length bs) (left - int (length bs)))"
            unfolding buf'_def
            by (rule read_outcome_piece) (use st False pos_left n 1(5) in auto)
          then show ?thesis using x Inr pos_left False w by (subst readn_loop.simps) simp
        qed
      qed
    qed
  qed
qed


section \<open>Messages over a socket\<close>

text \<open>The bytes that the kernel accepts under a script without failures.\<close>

fun clean_send :: "send_event \<Rightarrow> bool" where
  "clean_send (Accept n) = (0 < n)"
| "clean_send (Send_err e) = (e = EINTR)"

definition capacity :: "send_event list \<Rightarrow> nat" where
  "capacity es = sum_list (map (case_send_event (\<lambda>n. n) (\<lambda>_. 0)) es)"

lemma capacity_simps [simp]:
  "capacity [] = 0" "capacity (Accept n # es) = n + capacity es" "capacity (Send_err e # es) = capacity es"
  by (simp_all add: capacity_def)

text \<open>The number of calls that take something; a message of \<open>n\<close> bytes needs at most \<open>n\<close> of them.\<close>

definition takers :: "send_event list \<Rightarrow> nat" where
  "takers es = sum_list (map (case_send_event (\<lambda>_. 1) (\<lambda>_. 0)) es)"

lemma takers_simps [simp]:
  "takers [] = 0" "takers (Accept n # es) = Suc (takers es)" "takers (Send_err e # es) = takers es"
  by (simp_all add: takers_def)

lemma takers_le_capacity: "list_all clean_send es \<Longrightarrow> takers es \<le> capacity es"
proof (induction es)
  case (Cons e es)
  then show ?case by (cases e) auto
qed simp

lemma writen_loop_sends:
  assumes "list_all clean_send es" and "n \<le> capacity es" and "left = int n" and "len = int (pos + n)"
    and "pos + n \<le> length buf"
  shows "\<exists>es'. writen_loop len es buf pos left sent = Some (len, sent @ take n (drop pos buf), es') \<and>
    list_all clean_send es' \<and> takers es \<le> takers es' + n"
  using assms
proof (induction len es buf pos left sent arbitrary: n rule: writen_loop.induct)
  case (1 len es buf pos left sent)
  show ?case
  proof (cases "left > 0")
    case False
    then show ?thesis using 1 by (subst writen_loop.simps) simp
  next
    case pos_left: True
    have r: "rdn buf pos (nat left) = Some (take n (drop pos buf))" using 1(5,7) by simp
    show ?thesis
    proof (cases es)
      case Nil
      then show ?thesis using 1(4,5) pos_left by simp
    next
      case (Cons e es')
      show ?thesis
      proof (cases e)
        case (Accept m)
        then have m: "0 < m" "list_all clean_send es'" using 1(3) Cons by auto
        define k where "k = min m n"
        have k: "0 < k" "k \<le> n" "n - k \<le> capacity es'" "min m (length (take n (drop pos buf))) = k"
          using m(1) pos_left 1(4,5,7) Cons Accept by (auto simp: k_def)
        obtain es'' where es'': "writen_loop len es' buf (pos + k) (left - int k) (sent @ take k (take n (drop pos buf))) =
            Some (len, (sent @ take k (take n (drop pos buf))) @ take (n - k) (drop (pos + k) buf), es'')"
          "list_all clean_send es''" "takers es' \<le> takers es'' + (n - k)"
          using 1(2) [OF pos_left r, of "(Inr k, es')" "Inr k" es' k "n - k"] m(2) k 1(5-7) Cons Accept by auto
        moreover have "take k (take n (drop pos buf)) @ take (n - k) (drop (pos + k) buf) = take n (drop pos buf)"
          using k(2) by (metis add.commute drop_drop le_add_diff_inverse min.absorb1 take_add take_take)
        moreover have "takers es \<le> takers es'' + n" using es''(3) k(1,2) Cons Accept by simp
        ultimately show ?thesis using pos_left r k(1,4) Cons Accept
          by (subst writen_loop.simps) (simp del: take_take)
      next
        case (Send_err x)
        then have x: "x = EINTR" "list_all clean_send es'" using 1(3) Cons by auto
        have "\<exists>es''. writen_loop len es' buf pos left sent = Some (len, sent @ take n (drop pos buf), es'') \<and>
            list_all clean_send es'' \<and> takers es' \<le> takers es'' + n"
          using 1(1) [OF pos_left r, of "(Inl EINTR, es')" "Inl EINTR" es' EINTR n] x(2) 1(4-7) Cons Send_err x(1) by simp
        then show ?thesis using pos_left r Cons Send_err x(1) by (subst writen_loop.simps) simp
      qed
    qed
  qed
qed


lemma readn_outcome:
  "n \<le> length buf \<Longrightarrow> read_outcome es buf 0 n (readn es buf (int n))"
  by (simp add: readn_def readn_loop_outcome)

lemma readn_clean:
  assumes "clean es" and "n \<le> length (stream es)" and "n \<le> length buf"
  obtains es' where "readn es buf (int n) = Some (int n, take n (stream es) @ drop n buf, es')"
    and "clean es'" and "stream es' = drop n (stream es)"
  using readn_outcome [OF assms(3), of es] assms(1,2) that
  by (auto simp: read_outcome_def split: option.splits)

lemma writen_clean:
  assumes "list_all clean_send out" and "n \<le> capacity out" and "n \<le> length buf"
  obtains out' where "writen out buf (int n) = Some (int n, take n buf, out')" and "list_all clean_send out'"
    and "takers out \<le> takers out' + n"
  using writen_loop_sends [OF assms(1,2) refl, of "int n" 0 buf "[]"] assms(3) that
  by (auto simp: writen_def)

text \<open>A read of more bytes than the array behind \<open>pos\<close> has: it blocks or writes behind the array.\<close>

lemma readn_loop_overflow:
  assumes "clean es" and "0 < left" and "pos \<le> length buf" and "int (length buf) < int pos + left"
  shows "readn_loop len es buf pos left = None"
  using assms
proof (induction len es buf pos left rule: readn_loop.induct)
  case (1 len es buf pos left)
  show ?case
  proof (cases es)
    case Nil
    then show ?thesis using 1(4) by (subst readn_loop.simps) simp
  next
    case (Cons e es')
    show ?thesis
    proof (cases e)
      case (Arrive bs)
      define got where "got = take (nat left) bs"
      define more where "more = (if nat left < length bs then Arrive (drop (nat left) bs) # es' else es')"
      have s: "sys_read (nat left) es = Some (Inr got, more)" using Cons Arrive by (simp add: got_def more_def)
      have g: "got \<noteq> []" "clean more" using 1(3,4) Cons Arrive by (auto simp: got_def more_def)
      have lg: "int (length got) \<le> left" using 1(4) by (simp add: got_def)
      show ?thesis
      proof (cases "pos + length got \<le> length buf")
        case True
        then obtain buf' where buf': "wrn buf pos got = Some buf'" "length buf' = length buf" by simp
        have "readn_loop len more buf' (pos + length got) (left - int (length got)) = None"
          using 1(2) [OF 1(4) s _ _ g(1) buf'(1)] g(2) lg True 1(6) buf'(2) by auto
        then show ?thesis using 1(4) s g(1) buf'(1) by (subst readn_loop.simps) simp
      next
        case False
        then show ?thesis using 1(4) s g(1) by (subst readn_loop.simps) simp
      qed
    next
      case (Recv_err x)
      then have "x = EINTR" "clean es'" using 1(3) Cons by auto
      then show ?thesis using 1(1) [OF 1(4), of "(Inl EINTR, es')" "Inl EINTR" es' EINTR] 1(4-6) Cons Recv_err
        by (subst readn_loop.simps) simp
    qed
  qed
qed


lemma readn_overflow: "clean es \<Longrightarrow> length buf < n \<Longrightarrow> readn es buf (int n) = None"
  unfolding readn_def by (rule readn_loop_overflow) auto

text \<open>
  C16. Reading from a socket, whatever the kernel does: \<open>readn\<close> blocks only when fewer bytes than
  asked for ever arrive; otherwise it moves a prefix of the stream to the front of the buffer,
  leaves the rest of the buffer and of the stream as they are, and reports how much that is or an
  error. It never writes outside the buffer, and without failures it delivers all the bytes.
\<close>

theorem readn_correct:
  assumes "n \<le> length buf"
  shows "case readn es buf (int n) of
     None \<Rightarrow> clean es \<and> length (stream es) < n
   | Some (r, buf', es') \<Rightarrow> \<exists>k \<le> n. buf' = take k (stream es) @ drop k buf \<and>
       k \<le> length (stream es) \<and> stream es' = drop k (stream es) \<and>
       (r = int k \<or> k < n \<and> (r = -1 \<or> r = -2)) \<and> (clean es \<longrightarrow> k = n \<and> r = int n \<and> clean es')"
  using readn_outcome [OF assms, of es] by (auto simp: read_outcome_def split: option.splits prod.splits)

theorem readn_correct_witness:
  "readn [Arrive [1], Recv_err EINTR, Arrive [2, 3, 4]] [0, 0, 9] 3 = Some (3, [1, 2, 3], [Arrive [4]])"
  using readn_correct [of 3 "[0, 0, 9]" "[Arrive [1], Recv_err EINTR, Arrive [2, 3, 4]]"]
  by (simp add: readn_def readn_loop.simps wrn_def)

text \<open>
  A message crosses a connection: when the peer's kernel takes all of it, in pieces and with
  interrupted calls, \<open>writen\<close> sends exactly the message, and a \<open>readn\<close> of the same length returns
  it, in whatever pieces it arrives, and leaves the bytes that follow it in the stream.
\<close>

theorem message_transfer:
  assumes "list_all clean_send out" and "length msg \<le> capacity out"
    and "clean es" and "stream es = fst (snd (the (writen out msg (int (length msg))))) @ rest"
    and "length buf = length msg"
  shows "(\<exists>out'. writen out msg (int (length msg)) = Some (int (length msg), msg, out')) \<and>
    (\<exists>es'. readn es buf (int (length msg)) = Some (int (length msg), msg, es') \<and> stream es' = rest)"
proof -
  obtain out' where w: "writen out msg (int (length msg)) = Some (int (length msg), msg, out')"
    using writen_clean [OF assms(1,2), of msg] by auto
  moreover have "length msg \<le> length (stream es)" using assms(4) w by simp
  then obtain es' where "readn es buf (int (length msg)) =
      Some (int (length msg), take (length msg) (stream es) @ drop (length msg) buf, es')"
    and "stream es' = drop (length msg) (stream es)"
    using readn_clean [OF assms(3), of "length msg" buf] assms(5) by auto
  ultimately show ?thesis using assms(4,5) by simp
qed

theorem message_transfer_witness:
  "readn [Arrive [7], Arrive [8, 9]] [0, 0] 2 = Some (2, [7, 8], [Arrive [9]])"
  using message_transfer [of "[Accept 1, Send_err EINTR, Accept 5]" "[7, 8]" "[Arrive [7], Arrive [8, 9]]" "[9]" "[0, 0]"]
  by (simp add: readn_def readn_loop.simps wrn_def writen_def writen_loop.simps rdn_def)

section \<open>Integers\<close>

lemma in_int32_nonneg [simp]: "0 \<le> v \<Longrightarrow> in_int32 v \<longleftrightarrow> v < 2147483648"
  by (simp add: in_int32_def)

lemma mergeChar2Int_eq:
  assumes "length src = 4"
  shows "mergeChar2Int src = (if uint (src ! 3) < 128
    then Some (uint (src ! 0) + uint (src ! 1) * 2 ^ 8 + uint (src ! 2) * 2 ^ 16 + uint (src ! 3) * 2 ^ 24)
    else None)"
proof -
  have b: "0 \<le> uint b" "uint b < 256" for b :: byte using uint_lt2p [of b] by simp_all
  have "shl_int32 (uint c) (8 * i) = Some (uint c * 2 ^ (8 * i))" if "i < 3" for i and c :: byte
    using that b [of c] by (cases "i = 0 \<or> i = 1 \<or> i = 2") (auto simp: shl_int32_def)
  then show ?thesis using assms b [of "src ! 0"] b [of "src ! 1"] b [of "src ! 2"] b [of "src ! 3"]
    by (simp add: mergeChar2Int_def upt_rec shl_int32_def numeral_2_eq_2 numeral_3_eq_3)
qed

lemma splitInt2Char_nth:
  assumes "i < 4"
  shows "uint (splitInt2Char x ! i) = (sint x div 2 ^ (8 * i)) mod 256"
proof -
  have low: "take_bit 8 (uint w) = sint w mod 256" for w :: "32 word"
    by (simp add: uint_sint take_bit_eq_mod mod_mod_cancel)
  have "uint (splitInt2Char x ! i) = take_bit 8 (uint (signed_drop_bit (8 * i) x))"
    using assms by (simp add: splitInt2Char_def unsigned_ucast_eq)
  also have "\<dots> = (sint x div 2 ^ (8 * i)) mod 256"
    unfolding low by (simp add: sint_signed_drop_bit_eq drop_bit_eq_div)
  finally show ?thesis .
qed

text \<open>
  An integer that is split into bytes and merged again is the same integer when it is not
  negative; for a negative one the merge shifts into the sign bit, which C leaves undefined.
\<close>

theorem merge_split_roundtrip:
  "mergeChar2Int (splitInt2Char x) = (if 0 \<le> sint x then Some (sint x) else None)"
proof -
  have l: "length (splitInt2Char x) = 4" by (simp add: splitInt2Char_def)
  have r: "- (2 ^ 31) \<le> sint x" "sint x < 2 ^ 31"
    using sint_greater_eq [of x] sint_less [of x] by simp_all
  define v where "v = sint x"
  define q1 q2 q3 where "q1 = v div 256" and "q2 = q1 div 256" and "q3 = q2 div 256"
  have q: "v div 2 ^ 8 = q1" "v div 2 ^ 16 = q2" "v div 2 ^ 24 = q3"
    by (simp_all add: q1_def q2_def q3_def flip: zdiv_zmult2_eq)
  have s: "v = 256 * q1 + v mod 256" "q1 = 256 * q2 + q1 mod 256" "q2 = 256 * q3 + q2 mod 256"
    by (simp_all add: q1_def q2_def q3_def)
  have q3: "- 128 \<le> q3 \<and> q3 < 128 \<and> (0 \<le> v \<longleftrightarrow> 0 \<le> q3)"
    using r s pos_mod_bound [of 256 v] pos_mod_bound [of 256 q1] pos_mod_bound [of 256 q2]
      pos_mod_sign [of 256 v] pos_mod_sign [of 256 q1] pos_mod_sign [of 256 q2]
    unfolding v_def [symmetric] by (auto simp del: pos_mod_bound pos_mod_sign)
  have "q3 mod 256 = (if 0 \<le> q3 then q3 else q3 + 256)"
    using q3 mod_pos_pos_trivial [of q3 256] mod_pos_pos_trivial [of "q3 + 256" 256] by simp
  with q3 have top: "q3 mod 256 < 128 \<longleftrightarrow> 0 \<le> v" and top3: "0 \<le> v \<Longrightarrow> q3 mod 256 = q3"
    by (auto split: if_splits)
  have n: "uint (splitInt2Char x ! i) = (v div 2 ^ k) mod 256" if "i < 4" and "8 * i = k" for i k
    unfolding v_def that(2) [symmetric] by (rule splitInt2Char_nth [OF that(1)])
  have "uint (splitInt2Char x ! 0) = (v div 2 ^ 0) mod 256" by (rule n) simp_all
  then have b0: "uint (splitInt2Char x ! 0) = v mod 256" by (simp only: power_0 div_by_1)
  have b1: "uint (splitInt2Char x ! 1) = q1 mod 256" unfolding q(1) [symmetric] by (rule n) simp_all
  have b2: "uint (splitInt2Char x ! 2) = q2 mod 256" unfolding q(2) [symmetric] by (rule n) simp_all
  have b3: "uint (splitInt2Char x ! 3) = q3 mod 256" unfolding q(3) [symmetric] by (rule n) simp_all
  have sum: "v mod 256 + (q1 mod 256) * 2 ^ 8 + (q2 mod 256) * 2 ^ 16 + q3 * 2 ^ 24 = v"
  proof -
    have "r0 + r1 * 2 ^ 8 + r2 * 2 ^ 16 + q3 * 2 ^ 24 = v"
      if "v = 256 * q1 + r0" "q1 = 256 * q2 + r1" "q2 = 256 * q3 + r2" for r0 r1 r2
      unfolding that by simp
    from this [OF s] show ?thesis .
  qed
  show ?thesis unfolding mergeChar2Int_eq [OF l] b0 b1 b2 b3 v_def [symmetric]
    by (cases "0 \<le> v", simp_all only: top if_True if_False) (simp only: top3 sum)
qed

theorem merge_split_roundtrip_witness: "mergeChar2Int (splitInt2Char 4097) = Some 4097"
  using merge_split_roundtrip [of 4097] by simp

text \<open>
  \<open>getNearestDivValue\<close> returns the least multiple of the divisor that is not below the value,
  and the error value when the value is below the divisor.
\<close>

theorem getNearestDivValue_correct:
  assumes "0 < d" and "d < 2 ^ 31" and "v + d \<le> 2 ^ 31"
  shows "if v < d then getNearestDivValue v d = Some (-1)
    else \<exists>r. getNearestDivValue v d = Some r \<and> d dvd r \<and> v \<le> r \<and> (\<forall>r'. d dvd r' \<and> v \<le> r' \<longrightarrow> r \<le> r')"
proof (cases "v < d")
  case False
  define m where "m = v mod d"
  have m: "v smod d = m" "0 \<le> m" "m < d" "v = d * (v div d) + m"
    using assms(1) False pos_mod_bound [of d v] pos_mod_sign [of d v]
    by (simp_all add: signed_modulo_int_def m_def signed_divide_int_def flip: minus_div_mult_eq_mod)
  have least: "d * (v div d) + d \<le> r'" if "d dvd r'" "v \<le> r'" "m \<noteq> 0" for r'
  proof -
    obtain c where c: "r' = d * c" using \<open>d dvd r'\<close> by blast
    then have "v div d < c" using that m(2-4) assms(1) by (smt (verit) mult_left_mono)
    then have "d * (v div d + 1) \<le> d * c" using assms(1) by (intro mult_left_mono) auto
    then show ?thesis using c by (simp add: algebra_simps)
  qed
  show ?thesis
  proof (cases "m = 0")
    case True
    then show ?thesis using False assms m by (auto simp: getNearestDivValue_def dvd_eq_mod_eq_0 m_def)
  next
    case nz: False
    have e: "v + (d - m) = d * (v div d) + d" using m(4) by simp
    have "getNearestDivValue v d = Some (d * (v div d) + d)"
      using False assms m nz e by (simp add: getNearestDivValue_def Let_def)
    moreover have "v \<le> d * (v div d) + d" using m(3) e by linarith
    ultimately show ?thesis using False least nz by auto
  qed
qed (simp add: getNearestDivValue_def)

theorem getNearestDivValue_correct_witness: "getNearestDivValue 13 8 = Some 16"
  using getNearestDivValue_correct [of 8 13] by (simp add: getNearestDivValue_def in_int32_def signed_modulo_int_def signed_divide_int_def)

end
