(* ===== verification/MoNodes.thy ===== *)
theory MoNodes
  imports MoPrelude
begin

text \<open>
  Singly linked lists of records behind a head node, the shape in which the file server keeps its
  clients and its files. A list that is only reached from its head, under a mutex, is the list of
  its records; \<open>NULL\<close> in place of the head node is \<open>None\<close>. The search loops of the code stop at the
  first record that matches.
\<close>

fun upd_first :: "('v \<Rightarrow> bool) \<Rightarrow> ('v \<Rightarrow> 'v) \<Rightarrow> 'v list \<Rightarrow> 'v list" where
  "upd_first P f [] = []"
| "upd_first P f (v # vs) = (if P v then f v # vs else v # upd_first P f vs)"

fun del_first :: "('v \<Rightarrow> bool) \<Rightarrow> 'v list \<Rightarrow> 'v list" where
  "del_first P [] = []"
| "del_first P (v # vs) = (if P v then vs else v # del_first P vs)"

lemma length_upd_first [simp]: "length (upd_first P f vs) = length vs"
  by (induction vs) auto

lemma map_upd_first [simp]: "(\<And>v. P v \<Longrightarrow> g (f v) = g v) \<Longrightarrow> map g (upd_first P f vs) = map g vs"
  by (induction vs) auto

lemma upd_first_none [simp]: "(\<And>v. v \<in> set vs \<Longrightarrow> \<not> P v) \<Longrightarrow> upd_first P f vs = vs"
  by (induction vs) auto

lemma upd_first_absent [simp]: "find P vs = None \<Longrightarrow> upd_first P f vs = vs"
  by (induction vs) (auto split: if_splits)

lemma find_key_iff: "find (\<lambda>v. key v = k) vs = None \<longleftrightarrow> k \<notin> set (map key vs)"
  by (auto simp: find_None_iff)

lemma set_upd_first: "set (upd_first P f vs) \<subseteq> set vs \<union> f ` {v \<in> set vs. P v}"
  by (induction vs) auto

lemma upd_first_elem: "c \<in> set (upd_first P f vs) \<Longrightarrow> \<exists>d \<in> set vs. c = d \<or> c = f d"
  using set_upd_first [of P f vs] by auto

lemma find_upd_first_same: "(\<And>v. P (f v) = P v) \<Longrightarrow> find P (upd_first P f vs) = map_option f (find P vs)"
  by (induction vs) auto

lemma find_upd_first_other:
  "(\<And>v. P v \<Longrightarrow> \<not> Q v \<and> \<not> Q (f v)) \<Longrightarrow> find Q (upd_first P f vs) = find Q vs"
  by (induction vs) auto

lemma del_first_split: "find P vs = Some v \<Longrightarrow> \<exists>us ws. vs = us @ v # ws \<and> del_first P vs = us @ ws \<and> (\<forall>u \<in> set us. \<not> P u)"
proof (induction vs)
  case (Cons w vs)
  show ?case
  proof (cases "P w")
    case True
    then show ?thesis using Cons.prems by (intro exI [of _ "[]"] exI [of _ vs]) auto
  next
    case False
    then obtain us ws where "vs = us @ v # ws" "del_first P vs = us @ ws" "\<forall>u \<in> set us. \<not> P u"
      using Cons by auto
    then show ?thesis using False by (intro exI [of _ "w # us"] exI [of _ ws]) auto
  qed
qed simp

lemma del_first_none [simp]: "(\<And>v. v \<in> set vs \<Longrightarrow> \<not> P v) \<Longrightarrow> del_first P vs = vs"
  by (induction vs) auto

lemma set_del_first: "set (del_first P vs) \<subseteq> set vs"
  by (induction vs) auto

lemma distinct_map_del_first: "distinct (map g vs) \<Longrightarrow> distinct (map g (del_first P vs))"
  using set_del_first by (induction vs) (auto, fastforce)

section \<open>Operations that update the record of one client\<close>

text \<open>
  Most operations on these lists search the record with a given key, change some of its fields and
  return 0, or return an error code when there is none. What a caller relies on is derived here
  once, for all of them.
\<close>

locale node_update =
  fixes nodes :: "'s \<Rightarrow> 'v list option" and key :: "'v \<Rightarrow> int" and f :: "'v \<Rightarrow> 'v"
    and missing :: int and upd :: "int \<Rightarrow> 's \<Rightarrow> (int \<times> 's) option"
  assumes key_f [simp]: "key (f v) = key v"
    and missing_error: "missing < 0"
    and upd_nodes: "nodes s = Some vs \<Longrightarrow> \<exists>s'. upd k s =
      Some (if find (\<lambda>v. key v = k) vs = None then missing else 0, s') \<and>
      nodes s' = Some (upd_first (\<lambda>v. key v = k) f vs)"
begin

abbreviation lookup :: "'s \<Rightarrow> int \<Rightarrow> 'v option" where
  "lookup s k \<equiv> find (\<lambda>v. key v = k) (the (nodes s))"

lemma total:
  assumes "nodes s = Some vs"
  obtains r s' where "upd k s = Some (r, s')" and "nodes s' = Some (upd_first (\<lambda>v. key v = k) f vs)"
    and "r = 0 \<longleftrightarrow> lookup s k \<noteq> None"
  using upd_nodes [OF assms, of k] assms missing_error by (auto split: if_splits)

lemma lookup_same: "nodes s = Some vs \<Longrightarrow> upd k s = Some (r, s') \<Longrightarrow> lookup s' k = map_option f (lookup s k)"
  using upd_nodes [of s vs k] by (auto simp: find_upd_first_same)

lemma lookup_other:
  "nodes s = Some vs \<Longrightarrow> upd k s = Some (r, s') \<Longrightarrow> k' \<noteq> k \<Longrightarrow> lookup s' k' = lookup s k'"
  using upd_nodes [of s vs k] by (auto intro!: find_upd_first_other)

lemma map_kept:
  assumes "nodes s = Some vs" and "upd k s = Some (r, s')" and "\<And>v. g (f v) = g v"
  shows "map g (the (nodes s')) = map g vs"
  using upd_nodes [OF assms(1), of k] assms(2,3) by auto

end

end
