(* ===== verification/MoCliMgr.thy ===== *)
theory MoCliMgr
  imports MoNodes MoNet
begin

text \<open>
  The client manager of the file server, \<open>moSdk/Cps/Server/src/cliMgr.c\<close>: the list of connected
  clients with their protocol state, and the thread that checks their heartbeats.

  Every operation runs under \<open>gMutex\<close> and is one step. An operation that dereferences the \<open>NULL\<close>
  head of an uninitialised module has no defined result (\<open>None\<close>). \<open>inet_addr\<close>, the results of
  \<open>malloc\<close> and \<open>pthread_create\<close>, and the values of \<open>clock()\<close> are arguments.
\<close>

datatype CLIMGR_CLI_STATE =
    CLIMGR_CLI_STATE_IDLE
  | CLIMGR_CLI_STATE_CTRLSOCKIN
  | CLIMGR_CLI_STATE_KEYAGREED
  | CLIMGR_CLI_STATE_HEARTBEAT
  | CLIMGR_CLI_STATE_STOPPED
  | CLIMGR_CLI_STATE_MAX

text \<open>The enumeration is compared with \<open><\<close> and \<open>>=\<close>; its order is that of the declaration.\<close>

fun state_no :: "CLIMGR_CLI_STATE \<Rightarrow> nat" where
  "state_no CLIMGR_CLI_STATE_IDLE = 0"
| "state_no CLIMGR_CLI_STATE_CTRLSOCKIN = 1"
| "state_no CLIMGR_CLI_STATE_KEYAGREED = 2"
| "state_no CLIMGR_CLI_STATE_HEARTBEAT = 3"
| "state_no CLIMGR_CLI_STATE_STOPPED = 4"
| "state_no CLIMGR_CLI_STATE_MAX = 5"

instantiation CLIMGR_CLI_STATE :: linorder
begin

definition less_eq_CLIMGR_CLI_STATE :: "CLIMGR_CLI_STATE \<Rightarrow> CLIMGR_CLI_STATE \<Rightarrow> bool" where
  "less_eq_CLIMGR_CLI_STATE a b \<longleftrightarrow> state_no a \<le> state_no b"

definition less_CLIMGR_CLI_STATE :: "CLIMGR_CLI_STATE \<Rightarrow> CLIMGR_CLI_STATE \<Rightarrow> bool" where
  "less_CLIMGR_CLI_STATE a b \<longleftrightarrow> state_no a < state_no b"

instance
proof
  fix a b c :: CLIMGR_CLI_STATE
  show "(a < b) = (a \<le> b \<and> \<not> b \<le> a)"
    unfolding less_CLIMGR_CLI_STATE_def less_eq_CLIMGR_CLI_STATE_def by (rule less_le_not_le)
  show "a \<le> a" unfolding less_eq_CLIMGR_CLI_STATE_def by (rule le_refl)
  show "a \<le> b \<Longrightarrow> b \<le> c \<Longrightarrow> a \<le> c" unfolding less_eq_CLIMGR_CLI_STATE_def by (rule le_trans)
  show "a \<le> b \<Longrightarrow> b \<le> a \<Longrightarrow> a = b"
    unfolding less_eq_CLIMGR_CLI_STATE_def by (cases a; cases b; simp)
  show "a \<le> b \<or> b \<le> a" unfolding less_eq_CLIMGR_CLI_STATE_def by (rule nat_le_linear)
qed

end

record CLIMGR_CLIINFO =
  cli_id :: "32 word"
  cli_addr :: string
  ctrlPort :: int
  ctrlSockId :: int
  cli_state :: CLIMGR_CLI_STATE
  lastHeartbeatTime :: int

datatype THR_RUNSTATE = THR_RUNSTATE_RUNNING | THR_RUNSTATE_STOPED

record CLIMGR =
  gpCliInfoListHead :: "CLIMGR_CLIINFO list option"
  gCheckHeartbeatThrRunning :: bool
  gCheckHeartbeatThrState :: THR_RUNSTATE
  gpNotifyInvalidCliFunc :: bool

abbreviation (input) CLOCKS_PER_SEC :: int where "CLOCKS_PER_SEC \<equiv> 1000000"

section \<open>Operations on the list\<close>

definition cliMgrInsertNewCli ::
    "(string \<Rightarrow> 32 word) \<Rightarrow> bool \<Rightarrow> string option \<Rightarrow> int \<Rightarrow> int \<Rightarrow> CLIMGR \<Rightarrow> (int \<times> CLIMGR) option" where
  "cliMgrInsertNewCli inet_addr mallocOk pAddr port sock m =
     (case pAddr of
        None \<Rightarrow> Some (-1, m)
      | Some a \<Rightarrow> do {
          cs \<leftarrow> gpCliInfoListHead m;
          if inet_addr a \<in> set (map cli_id cs) then Some (-3, m)
          else if \<not> mallocOk then Some (-4, m)
          else if length a \<ge> MOCPS_IP_ADDR_MAXLEN then None
          else Some (0, m\<lparr>gpCliInfoListHead := Some (cs @
            [\<lparr>cli_id = inet_addr a, cli_addr = a, ctrlPort = port, ctrlSockId = sock,
              cli_state = CLIMGR_CLI_STATE_CTRLSOCKIN, lastHeartbeatTime = 0\<rparr>])\<rparr>)
        })"

definition cliMgrRefreshHeartbeat :: "int \<Rightarrow> int \<Rightarrow> CLIMGR \<Rightarrow> (int \<times> CLIMGR) option" where
  "cliMgrRefreshHeartbeat clk sock m = do {
     cs \<leftarrow> gpCliInfoListHead m;
     case find (\<lambda>c. ctrlSockId c = sock) cs of
       None \<Rightarrow> Some (-1, m)
     | Some _ \<Rightarrow> Some (0, m\<lparr>gpCliInfoListHead :=
         Some (upd_first (\<lambda>c. ctrlSockId c = sock) (\<lambda>c. c\<lparr>lastHeartbeatTime := clk\<rparr>) cs)\<rparr>)
   }"

definition cliMgrDeleteCli :: "int \<Rightarrow> CLIMGR \<Rightarrow> (int \<times> CLIMGR) option" where
  "cliMgrDeleteCli sock m = do {
     cs \<leftarrow> gpCliInfoListHead m;
     case find (\<lambda>c. ctrlSockId c = sock) cs of
       None \<Rightarrow> Some (0, m)
     | Some _ \<Rightarrow> Some (0, m\<lparr>gpCliInfoListHead := Some (del_first (\<lambda>c. ctrlSockId c = sock) cs)\<rparr>)
   }"

definition cliMgrSetState :: "CLIMGR_CLI_STATE \<Rightarrow> int \<Rightarrow> CLIMGR \<Rightarrow> (int \<times> CLIMGR) option" where
  "cliMgrSetState st sock m =
     (if st \<ge> CLIMGR_CLI_STATE_MAX then Some (-1, m)
      else do {
        cs \<leftarrow> gpCliInfoListHead m;
        case find (\<lambda>c. ctrlSockId c = sock) cs of
          None \<Rightarrow> Some (-2, m)
        | Some _ \<Rightarrow> Some (0, m\<lparr>gpCliInfoListHead :=
            Some (upd_first (\<lambda>c. ctrlSockId c = sock) (\<lambda>c. c\<lparr>cli_state := st\<rparr>) cs)\<rparr>)
      })"

text \<open>\<open>cliMgrGetState\<close> stores to \<open>*state\<close> only when it finds the client.\<close>

definition cliMgrGetState :: "int \<Rightarrow> CLIMGR_CLI_STATE \<Rightarrow> CLIMGR \<Rightarrow> (int \<times> CLIMGR_CLI_STATE) option" where
  "cliMgrGetState sock st m = do {
     cs \<leftarrow> gpCliInfoListHead m;
     case find (\<lambda>c. ctrlSockId c = sock) cs of
       None \<Rightarrow> Some (-1, st)
     | Some c \<Rightarrow> Some (0, cli_state c)
   }"

section \<open>The heartbeat check\<close>

definition heartbeatTimeout :: "int \<Rightarrow> CLIMGR_CLIINFO \<Rightarrow> bool" where
  "heartbeatTimeout curTime c \<longleftrightarrow>
     (curTime - lastHeartbeatTime c) sdiv CLOCKS_PER_SEC > MOCPS_HEARTBEAT_INTEVAL * 2 + 1"

text \<open>
  One pass over the list: \<open>clk k\<close> is what the \<open>k\<close>-th call of \<open>clock()\<close> returns. The second component
  is the socket identifiers given to \<open>gpNotifyInvalidCliFunc\<close>, in order.
\<close>

fun checkHeartbeatPass :: "(nat \<Rightarrow> int) \<Rightarrow> nat \<Rightarrow> CLIMGR_CLIINFO list \<Rightarrow> CLIMGR_CLIINFO list \<times> int list" where
  "checkHeartbeatPass clk k [] = ([], [])"
| "checkHeartbeatPass clk k (c # cs) =
     (if cli_state c = CLIMGR_CLI_STATE_IDLE \<or> cli_state c = CLIMGR_CLI_STATE_CTRLSOCKIN
         \<or> cli_state c = CLIMGR_CLI_STATE_KEYAGREED then
        let (cs', ns) = checkHeartbeatPass clk k cs in (c # cs', ns)
      else if cli_state c = CLIMGR_CLI_STATE_HEARTBEAT then
        let (cs', ns) = checkHeartbeatPass clk (Suc k) cs in
        ((if heartbeatTimeout (clk k) c then c\<lparr>cli_state := CLIMGR_CLI_STATE_STOPPED\<rparr> else c) # cs', ns)
      else
        let (cs', ns) = checkHeartbeatPass clk k cs in (cs', ctrlSockId c # ns))"

text \<open>The body of the loop of \<open>checkHeartbeatThr\<close> after the \<open>select\<close>.\<close>

definition checkHeartbeatBody :: "(nat \<Rightarrow> int) \<Rightarrow> CLIMGR \<Rightarrow> (int list \<times> CLIMGR) option" where
  "checkHeartbeatBody clk m = do {
     cs \<leftarrow> gpCliInfoListHead m;
     let (cs', ns) = checkHeartbeatPass clk 0 cs;
     if ns \<noteq> [] \<and> \<not> gpNotifyInvalidCliFunc m then None
     else Some (ns, m\<lparr>gpCliInfoListHead := Some cs', gCheckHeartbeatThrState := THR_RUNSTATE_STOPED\<rparr>)
   }"

section \<open>Starting and stopping the module\<close>

text \<open>\<open>createRet\<close> is what \<open>pthread_create\<close> returns: 0, or a positive error number.\<close>

definition startCheckHeartbeatThr :: "int \<Rightarrow> CLIMGR \<Rightarrow> int \<times> CLIMGR" where
  "startCheckHeartbeatThr createRet m =
     (if createRet < 0 then (-1, m\<lparr>gCheckHeartbeatThrRunning := False\<rparr>)
      else (0, m\<lparr>gCheckHeartbeatThrRunning := True, gCheckHeartbeatThrState := THR_RUNSTATE_RUNNING\<rparr>))"

definition cliMgrInit :: "bool \<Rightarrow> int \<Rightarrow> bool \<Rightarrow> CLIMGR \<Rightarrow> int \<times> CLIMGR" where
  "cliMgrInit mallocOk createRet pFunc m =
     (if gpCliInfoListHead m \<noteq> None \<or> \<not> pFunc then (-1, m)
      else if \<not> mallocOk then (-2, m)
      else let (ret, m1) = startCheckHeartbeatThr createRet (m\<lparr>gpCliInfoListHead := Some []\<rparr>) in
        if ret < 0 then (-3, m1\<lparr>gpCliInfoListHead := None\<rparr>)
        else (0, m1\<lparr>gpNotifyInvalidCliFunc := True\<rparr>))"

text \<open>
  \<open>cliMgrUnInit\<close> clears the flag, waits in \<open>stopCheckHeartbeatThr\<close> until the state is not \<open>RUNNING\<close>,
  and then frees the list; \<open>gpCliInfoListHead->next\<close> of a \<open>NULL\<close> head is undefined.
\<close>

definition stopRequested :: "CLIMGR \<Rightarrow> CLIMGR" where
  "stopRequested m = m\<lparr>gCheckHeartbeatThrRunning := False\<rparr>"

definition stopReturns :: "CLIMGR \<Rightarrow> bool" where
  "stopReturns m \<longleftrightarrow> gCheckHeartbeatThrState m \<noteq> THR_RUNSTATE_RUNNING"

definition cliMgrFree :: "CLIMGR \<Rightarrow> CLIMGR option" where
  "cliMgrFree m = do {
     cs \<leftarrow> gpCliInfoListHead m;
     Some (m\<lparr>gpCliInfoListHead := None, gpNotifyInvalidCliFunc := False\<rparr>)
   }"


section \<open>The shared contract of the updates\<close>

interpretation refresh: node_update gpCliInfoListHead ctrlSockId "\<lambda>c. c\<lparr>lastHeartbeatTime := clk\<rparr>"
    "-1" "cliMgrRefreshHeartbeat clk" for clk
  by unfold_locales (auto simp: cliMgrRefreshHeartbeat_def split: option.splits)

text \<open>Setting a state, for the states that the function accepts.\<close>

definition real_state :: "CLIMGR_CLI_STATE \<Rightarrow> CLIMGR_CLI_STATE" where
  "real_state st = (if st \<ge> CLIMGR_CLI_STATE_MAX then CLIMGR_CLI_STATE_STOPPED else st)"

lemma real_state_less: "\<not> real_state st \<ge> CLIMGR_CLI_STATE_MAX"
  by (simp add: real_state_def less_eq_CLIMGR_CLI_STATE_def)

interpretation setState: node_update gpCliInfoListHead ctrlSockId "\<lambda>c. c\<lparr>cli_state := real_state st\<rparr>"
    "-2" "cliMgrSetState (real_state st)" for st
  by unfold_locales (auto simp: cliMgrSetState_def real_state_less split: option.splits)


section \<open>The invariant of the list\<close>

text \<open>The operations that the server performs on an initialised manager, and the heartbeat check.\<close>

datatype cli_op =
    InsertCli bool string int int
  | RefreshCli int int
  | DeleteCli int
  | SetStateCli CLIMGR_CLI_STATE int
  | CheckCli "nat \<Rightarrow> int"

fun cli_exec :: "(string \<Rightarrow> 32 word) \<Rightarrow> cli_op \<Rightarrow> CLIMGR \<Rightarrow> CLIMGR option" where
  "cli_exec inet_addr (InsertCli ok a port sock) m =
     map_option snd (cliMgrInsertNewCli inet_addr ok (Some a) port sock m)"
| "cli_exec inet_addr (RefreshCli clk sock) m = map_option snd (cliMgrRefreshHeartbeat clk sock m)"
| "cli_exec inet_addr (DeleteCli sock) m = map_option snd (cliMgrDeleteCli sock m)"
| "cli_exec inet_addr (SetStateCli st sock) m = map_option snd (cliMgrSetState st sock m)"
| "cli_exec inet_addr (CheckCli clk) m = map_option snd (checkHeartbeatBody clk m)"

fun is_check :: "cli_op \<Rightarrow> bool" where
  "is_check (CheckCli clk) = True"
| "is_check _ = False"

fun short_addr :: "cli_op \<Rightarrow> bool" where
  "short_addr (InsertCli ok a port sock) = (length a < MOCPS_IP_ADDR_MAXLEN)"
| "short_addr _ = True"

definition cli_inv :: "(string \<Rightarrow> 32 word) \<Rightarrow> CLIMGR \<Rightarrow> bool" where
  "cli_inv inet_addr m \<longleftrightarrow> gpNotifyInvalidCliFunc m \<and>
     (case gpCliInfoListHead m of
        None \<Rightarrow> False
      | Some cs \<Rightarrow> distinct (map cli_id cs) \<and>
          (\<forall>c \<in> set cs. length (cli_addr c) < MOCPS_IP_ADDR_MAXLEN \<and> cli_id c = inet_addr (cli_addr c)))"

lemma checkHeartbeatPass_notifies:
  "snd (checkHeartbeatPass clk k cs) = map ctrlSockId (filter (\<lambda>c. cli_state c \<ge> CLIMGR_CLI_STATE_STOPPED) cs)"
proof (induction clk k cs rule: checkHeartbeatPass.induct)
  case (2 clk k c cs)
  then show ?case by (cases "cli_state c") (simp_all add: split_beta less_eq_CLIMGR_CLI_STATE_def)
qed simp

text \<open>Every field but the state is kept by a pass.\<close>

lemma checkHeartbeatPass_keeps:
  assumes "\<And>c st. g (c\<lparr>cli_state := st\<rparr>) = g c"
  shows "map g (fst (checkHeartbeatPass clk k cs)) = map g (filter (\<lambda>c. cli_state c < CLIMGR_CLI_STATE_STOPPED) cs)"
  using assms
proof (induction clk k cs rule: checkHeartbeatPass.induct)
  case (2 clk k c cs)
  then show ?case by (cases "cli_state c") (simp_all add: split_beta less_CLIMGR_CLI_STATE_def)
qed simp

lemma checkHeartbeatPass_origin:
  "c \<in> set (fst (checkHeartbeatPass clk k cs)) \<Longrightarrow>
    \<exists>d \<in> set cs. c = d \<or> c = d\<lparr>cli_state := CLIMGR_CLI_STATE_STOPPED\<rparr>"
proof (induction clk k cs rule: checkHeartbeatPass.induct)
  case (2 clk k c cs)
  then show ?case by (cases "cli_state c") (auto simp: split_beta split: if_splits)
qed simp

lemma cli_exec_inv:
  assumes "cli_inv inet_addr m" and "short_addr x"
  shows "\<exists>m'. cli_exec inet_addr x m = Some m' \<and> cli_inv inet_addr m'"
proof -
  obtain cs where cs: "gpCliInfoListHead m = Some cs" "gpNotifyInvalidCliFunc m" "distinct (map cli_id cs)"
    "\<forall>c \<in> set cs. length (cli_addr c) < MOCPS_IP_ADDR_MAXLEN \<and> cli_id c = inet_addr (cli_addr c)"
    using assms(1) by (auto simp: cli_inv_def split: option.splits)
  show ?thesis
  proof (cases x)
    case (CheckCli clk)
    have "\<forall>c \<in> set (fst (checkHeartbeatPass clk 0 cs)).
        length (cli_addr c) < MOCPS_IP_ADDR_MAXLEN \<and> cli_id c = inet_addr (cli_addr c)"
      using cs(4) by (auto dest!: checkHeartbeatPass_origin)
    moreover have "distinct (map cli_id (fst (checkHeartbeatPass clk 0 cs)))"
      using checkHeartbeatPass_keeps [of cli_id clk 0 cs] cs(3) by (simp add: distinct_map_filter)
    ultimately show ?thesis using CheckCli cs(1,2) by (simp add: checkHeartbeatBody_def split_beta cli_inv_def)
  next
    case (RefreshCli clk sock)
    with cs show ?thesis
      by (auto simp: cliMgrRefreshHeartbeat_def cli_inv_def dest!: upd_first_elem split: option.splits)
  next
    case (SetStateCli st sock)
    with cs show ?thesis
      by (auto simp: cliMgrSetState_def cli_inv_def dest!: upd_first_elem split: option.splits)
  next
    case (DeleteCli sock)
    have "set (del_first P cs) \<subseteq> set cs" for P by (rule set_del_first)
    with DeleteCli cs show ?thesis
      by (auto simp: cliMgrDeleteCli_def cli_inv_def distinct_map_del_first split: option.splits)
  next
    case (InsertCli ok a port sock)
    with cs assms(2) show ?thesis by (auto simp: cliMgrInsertNewCli_def cli_inv_def)
  qed
qed

text \<open>
  C17. From an initialised manager, every sequence of insertions, refreshes, deletions, state changes
  and heartbeat checks runs without touching invalid memory, and afterwards every client is
  recorded at most once, under the identifier of its address.
\<close>

theorem cliMgr_invariant:
  assumes "cliMgrInit True 0 True m0 = (0, m)" and "list_all short_addr ops"
  shows "\<exists>m'. foldM (cli_exec inet_addr) ops m = Some m' \<and> cli_inv inet_addr m'"
proof -
  have "cli_inv inet_addr m"
    using assms(1) by (auto simp: cliMgrInit_def startCheckHeartbeatThr_def cli_inv_def split: if_splits)
  then show ?thesis using assms(2)
  proof (induction ops arbitrary: m)
    case (Cons x ops)
    then show ?case using cli_exec_inv [of inet_addr m x] by auto
  qed simp
qed


theorem cliMgr_invariant_witness:
  "\<exists>m'. foldM (cli_exec (\<lambda>a. of_nat (length a)))
     [InsertCli True ''10.0.0.1'' 4000 5, InsertCli True ''10.0.0.2'' 4000 6, DeleteCli 5]
     \<lparr>gpCliInfoListHead = Some [], gCheckHeartbeatThrRunning = True,
      gCheckHeartbeatThrState = THR_RUNSTATE_RUNNING, gpNotifyInvalidCliFunc = True\<rparr> = Some m' \<and>
   cli_inv (\<lambda>a. of_nat (length a)) m'"
  by (rule cliMgr_invariant [of "\<lparr>gpCliInfoListHead = None, gCheckHeartbeatThrRunning = False,
      gCheckHeartbeatThrState = THR_RUNSTATE_STOPED, gpNotifyInvalidCliFunc = False\<rparr>"])
    (simp_all add: cliMgrInit_def startCheckHeartbeatThr_def)

section \<open>Heartbeat timeouts\<close>

lemma checkHeartbeatPass_times_out:
  assumes "c \<in> set cs" and "cli_state c = CLIMGR_CLI_STATE_HEARTBEAT" and "\<And>k. heartbeatTimeout (clk k) c"
  shows "c\<lparr>cli_state := CLIMGR_CLI_STATE_STOPPED\<rparr> \<in> set (fst (checkHeartbeatPass clk k cs))"
  using assms
proof (induction clk k cs rule: checkHeartbeatPass.induct)
  case (2 clk k d cs)
  then show ?case by (cases "cli_state d") (auto simp: split_beta)
qed simp

lemma checkHeartbeatPass_in_time:
  assumes "c \<in> set cs" and "cli_state c < CLIMGR_CLI_STATE_STOPPED"
    and "\<And>k. cli_state c = CLIMGR_CLI_STATE_HEARTBEAT \<Longrightarrow> \<not> heartbeatTimeout (clk k) c"
  shows "c \<in> set (fst (checkHeartbeatPass clk k cs))"
  using assms
proof (induction clk k cs rule: checkHeartbeatPass.induct)
  case (2 clk k d cs)
  then show ?case by (cases "cli_state d") (auto simp: split_beta less_CLIMGR_CLI_STATE_def)
qed simp

lemma heartbeatTimeout_iff: "heartbeatTimeout t c \<longleftrightarrow> 8 * CLOCKS_PER_SEC \<le> t - lastHeartbeatTime c"
proof -
  have "(7 < d sdiv 1000000) \<longleftrightarrow> 8000000 \<le> d" for d :: int
    by (cases "d < 0") (auto simp: signed_divide_int_def sgn_if)
  then show ?thesis by (simp add: heartbeatTimeout_def)
qed

lemma checkHeartbeatBody_eq:
  assumes "gpCliInfoListHead m = Some cs" and "gpNotifyInvalidCliFunc m"
  shows "checkHeartbeatBody clk m = Some (snd (checkHeartbeatPass clk 0 cs),
    m\<lparr>gpCliInfoListHead := Some (fst (checkHeartbeatPass clk 0 cs)), gCheckHeartbeatThrState := THR_RUNSTATE_STOPED\<rparr>)"
  using assms by (simp add: checkHeartbeatBody_def split_beta)

text \<open>
  A client in the heartbeat state that has been silent for eight seconds is reported to the
  server and dropped from the list within two heartbeat checks, and no client is reported that is
  not stopped; a client that is in time, or whose heartbeats are not watched yet, is kept.
\<close>

theorem heartbeat_timeout:
  assumes "cli_inv inet_addr m" and "gpCliInfoListHead m = Some cs" and "c \<in> set cs"
    and "cli_state c = CLIMGR_CLI_STATE_HEARTBEAT"
    and "\<And>k. lastHeartbeatTime c + 8 * CLOCKS_PER_SEC \<le> clk1 k"
  shows "\<exists>ns1 m1 ns2 m2 cs2. checkHeartbeatBody clk1 m = Some (ns1, m1) \<and> checkHeartbeatBody clk2 m1 = Some (ns2, m2) \<and>
    ns1 = map ctrlSockId (filter (\<lambda>d. cli_state d \<ge> CLIMGR_CLI_STATE_STOPPED) cs) \<and>
    ctrlSockId c \<in> set ns2 \<and> gpCliInfoListHead m2 = Some cs2 \<and> cli_id c \<notin> cli_id ` set cs2 \<and>
    (\<forall>d. d \<in> set cs \<and> (cli_state d = CLIMGR_CLI_STATE_CTRLSOCKIN \<or> cli_state d = CLIMGR_CLI_STATE_KEYAGREED \<or>
       cli_state d = CLIMGR_CLI_STATE_HEARTBEAT \<and>
         (\<forall>k. clk1 k < lastHeartbeatTime d + 8 * CLOCKS_PER_SEC \<and> clk2 k < lastHeartbeatTime d + 8 * CLOCKS_PER_SEC))
       \<longrightarrow> d \<in> set cs2)"
proof -
  have inv: "gpNotifyInvalidCliFunc m" "distinct (map cli_id cs)" using assms(1,2) by (auto simp: cli_inv_def)
  define cs1 cs2 where "cs1 = fst (checkHeartbeatPass clk1 0 cs)" and "cs2 = fst (checkHeartbeatPass clk2 0 cs1)"
  let ?c = "c\<lparr>cli_state := CLIMGR_CLI_STATE_STOPPED\<rparr>"
  have c1: "?c \<in> set cs1" unfolding cs1_def
    by (rule checkHeartbeatPass_times_out [OF assms(3,4)])
      (use assms(5) in \<open>simp add: heartbeatTimeout_iff algebra_simps\<close>)
  have d1: "distinct (map cli_id cs1)"
    unfolding cs1_def using checkHeartbeatPass_keeps [of cli_id clk1 0 cs] inv(2) by (simp add: distinct_map_filter)
  have "cli_id c \<notin> cli_id ` set (filter (\<lambda>d. cli_state d < CLIMGR_CLI_STATE_STOPPED) cs1)"
  proof
    assume "cli_id c \<in> cli_id ` set (filter (\<lambda>d. cli_state d < CLIMGR_CLI_STATE_STOPPED) cs1)"
    then obtain d where d: "d \<in> set cs1" "cli_state d < CLIMGR_CLI_STATE_STOPPED" "cli_id d = cli_id ?c" by auto
    have "d = ?c" using d1 d(1,3) c1 by (metis distinct_map inj_onD)
    with d(2) show False by simp
  qed
  then have gone: "cli_id c \<notin> cli_id ` set cs2"
    using arg_cong [where f = set, OF checkHeartbeatPass_keeps [of cli_id clk2 0 cs1]] by (simp add: cs2_def)
  have told: "ctrlSockId c \<in> set (snd (checkHeartbeatPass clk2 0 cs1))"
    using c1 by (auto simp: checkHeartbeatPass_notifies intro: rev_image_eqI [of ?c])
  have kept: "d \<in> set cs2" if "d \<in> set cs" and "cli_state d = CLIMGR_CLI_STATE_CTRLSOCKIN \<or>
      cli_state d = CLIMGR_CLI_STATE_KEYAGREED \<or> cli_state d = CLIMGR_CLI_STATE_HEARTBEAT \<and>
      (\<forall>k. clk1 k < lastHeartbeatTime d + 8 * CLOCKS_PER_SEC \<and> clk2 k < lastHeartbeatTime d + 8 * CLOCKS_PER_SEC)" for d
  proof -
    have lt: "cli_state d < CLIMGR_CLI_STATE_STOPPED" using that(2) by (auto simp: less_CLIMGR_CLI_STATE_def)
    have t: "\<not> heartbeatTimeout (clk1 k) d \<and> \<not> heartbeatTimeout (clk2 k) d"
      if "cli_state d = CLIMGR_CLI_STATE_HEARTBEAT" for k
    proof -
      have "clk1 k < lastHeartbeatTime d + 8 * CLOCKS_PER_SEC \<and> clk2 k < lastHeartbeatTime d + 8 * CLOCKS_PER_SEC"
        using \<open>_ \<or> _ \<or> _\<close> that by simp
      then show ?thesis unfolding heartbeatTimeout_iff by linarith
    qed
    have "d \<in> set cs1" unfolding cs1_def by (rule checkHeartbeatPass_in_time [OF that(1) lt]) (simp add: t)
    then show ?thesis unfolding cs2_def by (rule checkHeartbeatPass_in_time [OF _ lt]) (simp add: t)
  qed
  show ?thesis using checkHeartbeatBody_eq [OF assms(2) inv(1), of clk1] gone told kept
    by (simp add: checkHeartbeatBody_eq [of _ cs1] inv(1) checkHeartbeatPass_notifies flip: cs1_def cs2_def)
qed


theorem heartbeat_timeout_witness:
  "\<exists>ns1 m1 ns2 m2 cs2.
     checkHeartbeatBody (\<lambda>_. 9000000)
       \<lparr>gpCliInfoListHead = Some [\<lparr>cli_id = 7, cli_addr = ''1.1.1.1'', ctrlPort = 1, ctrlSockId = 3,
          cli_state = CLIMGR_CLI_STATE_HEARTBEAT, lastHeartbeatTime = 0\<rparr>],
        gCheckHeartbeatThrRunning = True, gCheckHeartbeatThrState = THR_RUNSTATE_RUNNING,
        gpNotifyInvalidCliFunc = True\<rparr> = Some (ns1, m1) \<and>
     checkHeartbeatBody (\<lambda>_. 9000000) m1 = Some (ns2, m2) \<and> ns1 = [] \<and> 3 \<in> set ns2 \<and>
     gpCliInfoListHead m2 = Some cs2 \<and> 7 \<notin> cli_id ` set cs2"
proof -
  define c where "c = \<lparr>cli_id = 7, cli_addr = ''1.1.1.1'', ctrlPort = 1, ctrlSockId = 3,
    cli_state = CLIMGR_CLI_STATE_HEARTBEAT, lastHeartbeatTime = 0\<rparr>"
  define m where "m = \<lparr>gpCliInfoListHead = Some [c], gCheckHeartbeatThrRunning = True,
    gCheckHeartbeatThrState = THR_RUNSTATE_RUNNING, gpNotifyInvalidCliFunc = True\<rparr>"
  have c: "cli_id c = 7" "ctrlSockId c = 3" "cli_state c = CLIMGR_CLI_STATE_HEARTBEAT" "lastHeartbeatTime c = 0"
    by (simp_all add: c_def)
  have "cli_inv (\<lambda>_. 7) m" by (simp add: cli_inv_def m_def c_def)
  moreover have "filter (\<lambda>d. cli_state d \<ge> CLIMGR_CLI_STATE_STOPPED) [c] = []"
    by (simp add: c(3) less_eq_CLIMGR_CLI_STATE_def)
  ultimately show ?thesis
    unfolding c_def [symmetric] m_def [symmetric]
    using heartbeat_timeout [of "\<lambda>_. 7" m "[c]" c "\<lambda>_. 9000000" "\<lambda>_. 9000000"] c
    by (auto simp: m_def)
qed

section \<open>The checking thread and the stop\<close>

text \<open>
  The thread runs \<open>LoopTest\<close> (the test of the flag), then \<open>Waiting\<close> (the \<open>select\<close>), then the body.
  The owner of the module uses it, or is inside \<open>cliMgrUnInit\<close>. \<open>crashed\<close> is set when the thread
  accesses memory that is not valid.
\<close>

datatype chk_pc = NoThread | LoopTest | Waiting | Exited
datatype owner_pc = Using | Stopping | Stopped

record CMSYS =
  mgr :: CLIMGR
  chk :: chk_pc
  owner :: owner_pc
  crashed :: bool

inductive cm_step :: "CMSYS \<Rightarrow> CMSYS \<Rightarrow> bool" where
  test_run: "chk s = LoopTest \<Longrightarrow> gCheckHeartbeatThrRunning (mgr s) \<Longrightarrow> cm_step s (s\<lparr>chk := Waiting\<rparr>)"
| test_exit: "chk s = LoopTest \<Longrightarrow> \<not> gCheckHeartbeatThrRunning (mgr s) \<Longrightarrow> cm_step s (s\<lparr>chk := Exited\<rparr>)"
| wake: "chk s = Waiting \<Longrightarrow> checkHeartbeatBody clk (mgr s) = Some (ns, m') \<Longrightarrow>
    cm_step s (s\<lparr>chk := LoopTest, mgr := m'\<rparr>)"
| wake_bad: "chk s = Waiting \<Longrightarrow> checkHeartbeatBody clk (mgr s) = None \<Longrightarrow> cm_step s (s\<lparr>crashed := True\<rparr>)"
| use: "owner s = Using \<Longrightarrow> \<not> is_check op \<Longrightarrow> cli_exec inet_addr op (mgr s) = Some m' \<Longrightarrow> cm_step s (s\<lparr>mgr := m'\<rparr>)"
| uninit: "owner s = Using \<Longrightarrow> cm_step s (s\<lparr>mgr := stopRequested (mgr s), owner := Stopping\<rparr>)"
| stop: "owner s = Stopping \<Longrightarrow> stopReturns (mgr s) \<Longrightarrow> cliMgrFree (mgr s) = Some m' \<Longrightarrow>
    cm_step s (s\<lparr>mgr := m', owner := Stopped\<rparr>)"


abbreviation CLIMGR_initial :: CLIMGR where
  "CLIMGR_initial \<equiv> \<lparr>gpCliInfoListHead = None, gCheckHeartbeatThrRunning = False,
     gCheckHeartbeatThrState = THR_RUNSTATE_STOPED, gpNotifyInvalidCliFunc = False\<rparr>"

text \<open>The states after a successful \<open>cliMgrInit\<close>; the thread exists when \<open>pthread_create\<close> returned 0.\<close>

inductive cm_reach :: "int \<Rightarrow> CMSYS \<Rightarrow> bool" for createRet where
  init: "cliMgrInit True createRet True CLIMGR_initial = (0, m) \<Longrightarrow>
    cm_reach createRet \<lparr>mgr = m, chk = (if createRet = 0 then LoopTest else NoThread), owner = Using, crashed = False\<rparr>"
| step: "cm_reach createRet s \<Longrightarrow> cm_step s s' \<Longrightarrow> cm_reach createRet s'"

text \<open>
  The thread marks itself as stopped at the end of every pass, not when it exits: after its first
  pass, \<open>cliMgrUnInit\<close> does not wait for it and frees the list, and the thread dereferences the
  \<open>NULL\<close> head when it wakes up.
\<close>

theorem stop_does_not_wait:
  "\<exists>s. cm_reach 0 s \<and> owner s = Stopped \<and> crashed s"
proof -
  define m0 where "m0 = \<lparr>gpCliInfoListHead = Some [], gCheckHeartbeatThrRunning = True,
    gCheckHeartbeatThrState = THR_RUNSTATE_RUNNING, gpNotifyInvalidCliFunc = True\<rparr>"
  define m1 where "m1 = m0\<lparr>gCheckHeartbeatThrState := THR_RUNSTATE_STOPED\<rparr>"
  define m2 where "m2 = m1\<lparr>gCheckHeartbeatThrRunning := False, gpCliInfoListHead := None, gpNotifyInvalidCliFunc := False\<rparr>"
  let ?s = "\<lambda>m c ow cr. \<lparr>mgr = m, chk = c, owner = ow, crashed = cr\<rparr>"
  have "cm_reach 0 (?s m0 LoopTest Using False)"
    using cm_reach.init [of 0 m0] by (simp add: cliMgrInit_def startCheckHeartbeatThr_def m0_def)
  moreover have "cm_step (?s m0 LoopTest Using False) (?s m0 Waiting Using False)"
    using cm_step.test_run [of "?s m0 LoopTest Using False"] by (simp add: m0_def)
  moreover have "cm_step (?s m0 Waiting Using False) (?s m1 LoopTest Using False)"
    using cm_step.wake [of "?s m0 Waiting Using False" "\<lambda>_. 0" "[]" m1]
    by (simp add: m0_def m1_def checkHeartbeatBody_def)
  moreover have "cm_step (?s m1 LoopTest Using False) (?s m1 Waiting Using False)"
    using cm_step.test_run [of "?s m1 LoopTest Using False"] by (simp add: m0_def m1_def)
  moreover have "cm_step (?s m1 Waiting Using False) (?s (stopRequested m1) Waiting Stopping False)"
    using cm_step.uninit [of "?s m1 Waiting Using False"] by simp
  moreover have "cm_step (?s (stopRequested m1) Waiting Stopping False) (?s m2 Waiting Stopped False)"
    using cm_step.stop [of "?s (stopRequested m1) Waiting Stopping False" m2]
    by (simp add: m0_def m1_def m2_def stopRequested_def stopReturns_def cliMgrFree_def)
  moreover have "cm_step (?s m2 Waiting Stopped False) (?s m2 Waiting Stopped True)"
    using cm_step.wake_bad [of "?s m2 Waiting Stopped False" "\<lambda>_. 0"]
    by (simp add: m2_def checkHeartbeatBody_def)
  ultimately have "cm_reach 0 (?s m2 Waiting Stopped True)" by (meson cm_reach.step)
  then show ?thesis by (intro exI [of _ "?s m2 Waiting Stopped True"]) simp
qed

text \<open>While the owner uses the module, nothing crashes.\<close>

definition in_use :: "CMSYS \<Rightarrow> bool" where
  "in_use s \<longleftrightarrow> gpCliInfoListHead (mgr s) \<noteq> None \<and> gpNotifyInvalidCliFunc (mgr s)"

lemma cli_exec_in_use:
  assumes "gpCliInfoListHead m \<noteq> None" and "gpNotifyInvalidCliFunc m" and "cli_exec inet_addr x m = Some m'"
  shows "gpCliInfoListHead m' \<noteq> None \<and> gpNotifyInvalidCliFunc m'"
  using assms by (cases x) (auto simp: cliMgrInsertNewCli_def cliMgrRefreshHeartbeat_def cliMgrDeleteCli_def
    cliMgrSetState_def checkHeartbeatBody_def split_beta split: option.splits if_splits bind_splits)

lemma cm_reach_in_use:
  assumes "cm_reach createRet s"
  shows "owner s \<noteq> Stopped \<Longrightarrow> in_use s \<and> \<not> crashed s"
  using assms
proof (induction rule: cm_reach.induct)
  case (init m)
  then show ?case by (auto simp: in_use_def cliMgrInit_def startCheckHeartbeatThr_def split: if_splits)
next
  case (step s s')
  from step(2) show ?case
  proof cases
    case (use op inet_addr m')
    then show ?thesis using step cli_exec_in_use [of "mgr s" inet_addr op m'] by (simp add: in_use_def)
  qed (use step in \<open>auto simp: in_use_def stopRequested_def checkHeartbeatBody_def split_beta split: if_splits bind_splits\<close>)
qed

lemma cm_reach_no_thread:
  assumes "cm_reach createRet s" and "createRet \<noteq> 0"
  shows "chk s = NoThread \<and> owner s \<noteq> Stopped \<and> gCheckHeartbeatThrState (mgr s) = THR_RUNSTATE_RUNNING"
  using assms
proof (induction rule: cm_reach.induct)
  case (init m)
  then show ?case by (auto simp: cliMgrInit_def startCheckHeartbeatThr_def split: if_splits)
next
  case (step s s')
  from step(2) show ?case
  proof cases
    case (use op inet_addr m')
    then show ?thesis using step
      by (cases op) (auto simp: cliMgrInsertNewCli_def cliMgrRefreshHeartbeat_def cliMgrDeleteCli_def
        cliMgrSetState_def split: option.splits if_splits bind_splits)
  qed (use step in \<open>auto simp: stopRequested_def stopReturns_def\<close>)
qed

text \<open>
  A failing \<open>pthread_create\<close> returns a positive number, which \<open>startCheckHeartbeatThr\<close> takes for
  success: \<open>cliMgrInit\<close> reports success, there is no thread, and \<open>cliMgrUnInit\<close> never gets past its
  waiting loop.
\<close>

theorem create_failure_hangs:
  assumes "0 < createRet"
  shows "fst (cliMgrInit True createRet True CLIMGR_initial) = 0 \<and>
    (\<forall>s. \<not> (cm_reach createRet s \<and> (owner s = Stopped \<or> chk s \<noteq> NoThread)))"
  using assms cm_reach_no_thread [of createRet] by (auto simp: cliMgrInit_def startCheckHeartbeatThr_def)

theorem create_failure_hangs_witness:
  "fst (cliMgrInit True 11 True CLIMGR_initial) = 0 \<and>
    (\<forall>s. \<not> (cm_reach 11 s \<and> (owner s = Stopped \<or> chk s \<noteq> NoThread)))"
  by (rule create_failure_hangs) simp

end
