(* ===== verification/MoCpsProto.thy ===== *)
theory MoCpsProto
  imports MoNet
begin

text \<open>
  The messages between the file server and its client, \<open>moSdk/inc/moCpsUtils.h\<close>, and the CRC
  functions of \<open>moSdk/Utils/Check/src/crc.c\<close> that both sides call, which are stubs.

  A message is sent as the bytes of a struct. The layout is that of a little-endian 64-bit machine
  with 4-byte \<open>int\<close>s and \<open>enum\<close>s: 32 bytes for a request and for the fixed part of a response, 288
  for the response to a key agreement.
\<close>

abbreviation (input) MOCPS_MARK_MAXLEN :: nat where "MOCPS_MARK_MAXLEN \<equiv> 16"
abbreviation (input) MOCPS_CMDID_KEYAGREE :: u32 where "MOCPS_CMDID_KEYAGREE \<equiv> 0"
abbreviation (input) MOCPS_CMDID_HEARTBEAT :: u32 where "MOCPS_CMDID_HEARTBEAT \<equiv> 1"
abbreviation (input) MOCPS_CMDID_BYEBYE :: u32 where "MOCPS_CMDID_BYEBYE \<equiv> 2"
abbreviation (input) MOCPS_CMDID_SEND_DATAPORT :: u32 where "MOCPS_CMDID_SEND_DATAPORT \<equiv> 3"
abbreviation (input) MOCPS_CMDID_GETFILEINFO :: u32 where "MOCPS_CMDID_GETFILEINFO \<equiv> 4"
abbreviation (input) MOCPS_CMDID_GETDATA :: u32 where "MOCPS_CMDID_GETDATA \<equiv> 5"
abbreviation (input) MOCPS_CMDID_MAX :: u32 where "MOCPS_CMDID_MAX \<equiv> 6"

abbreviation (input) sizeof_REQUEST :: nat where "sizeof_REQUEST \<equiv> 32"
abbreviation (input) sizeof_RESPONSE_BASIC :: nat where "sizeof_RESPONSE_BASIC \<equiv> 32"
abbreviation (input) sizeof_KEYAGREE_RESPONSE :: nat where "sizeof_KEYAGREE_RESPONSE \<equiv> 288"

section \<open>Integers in memory\<close>

definition le32 :: "u32 \<Rightarrow> byte list" where
  "le32 w = map (\<lambda>i. ucast (drop_bit (8 * i) w)) [0..<4]"

definition un_le32 :: "byte list \<Rightarrow> u32" where
  "un_le32 bs = ucast (bs ! 0) OR push_bit 8 (ucast (bs ! 1)) OR push_bit 16 (ucast (bs ! 2)) OR push_bit 24 (ucast (bs ! 3))"

lemma length_le32 [simp]: "length (le32 w) = 4"
  by (simp add: le32_def)

lemma un_le32_le32 [simp]: "un_le32 (le32 w) = w"
proof (rule bit_word_eqI)
  fix n
  assume "n < LENGTH(32)"
  then have "n < 8 \<or> 8 \<le> n \<and> n < 16 \<or> 16 \<le> n \<and> n < 24 \<or> 24 \<le> n \<and> n < 32" by auto
  then show "bit (un_le32 (le32 w)) n = bit w n"
    by (auto simp: un_le32_def le32_def bit_or_iff bit_push_bit_iff bit_ucast_iff bit_drop_bit_eq)
qed

section \<open>Marks\<close>

definition MOCPS_MARK_CLIENT :: "byte list" where
  "MOCPS_MARK_CLIENT = map of_char ''MOCPS_CLIENT''"

definition MOCPS_MARK_SERVER :: "byte list" where
  "MOCPS_MARK_SERVER = map of_char ''MOCPS_SERVER''"

lemma mark_facts [simp]:
  "length MOCPS_MARK_CLIENT = 12" "length MOCPS_MARK_SERVER = 12"
  by (simp_all add: MOCPS_MARK_CLIENT_def MOCPS_MARK_SERVER_def)

text \<open>\<open>strncpy\<close> of a mark to a cleared field of 16 bytes.\<close>

definition mark_field :: "byte list \<Rightarrow> byte list" where
  "mark_field m = m @ replicate (MOCPS_MARK_MAXLEN - length m) 0"

text \<open>
  \<open>strcmp\<close> of the field with a mark compares one byte more than the mark has, the byte where the mark
  ends, and stops at the first difference.
\<close>

definition mark_is :: "byte list \<Rightarrow> byte list \<Rightarrow> bool" where
  "mark_is field m \<longleftrightarrow> take (Suc (length m)) field = m @ [0]"

section \<open>Messages\<close>

record MOCPS_CTRL_REQUEST =
  req_mark :: "byte list"
  isNeedResp :: u32
  req_cmdId :: u32
  req_res :: "byte list"
  req_crc32 :: u32

definition req_bytes :: "MOCPS_CTRL_REQUEST \<Rightarrow> byte list" where
  "req_bytes r = req_mark r @ le32 (isNeedResp r) @ le32 (req_cmdId r) @ req_res r @ le32 (req_crc32 r)"

definition bytes_req :: "byte list \<Rightarrow> MOCPS_CTRL_REQUEST" where
  "bytes_req bs = \<lparr>req_mark = take 16 bs, isNeedResp = un_le32 (take 4 (drop 16 bs)),
     req_cmdId = un_le32 (take 4 (drop 20 bs)), req_res = take 4 (drop 24 bs),
     req_crc32 = un_le32 (take 4 (drop 28 bs))\<rparr>"

record MOCPS_CTRL_RESPONSE_BASIC =
  resp_mark :: "byte list"
  resp_cmdId :: u32
  resp_res :: "byte list"
  bodyLen :: u32
  resp_crc32 :: u32

text \<open>\<open>resp_res\<close> is the reserved field with the byte of padding behind it.\<close>

definition resp_bytes :: "MOCPS_CTRL_RESPONSE_BASIC \<Rightarrow> byte list" where
  "resp_bytes r = resp_mark r @ le32 (resp_cmdId r) @ resp_res r @ le32 (bodyLen r) @ le32 (resp_crc32 r)"

definition bytes_resp :: "byte list \<Rightarrow> MOCPS_CTRL_RESPONSE_BASIC" where
  "bytes_resp bs = \<lparr>resp_mark = take 16 bs, resp_cmdId = un_le32 (take 4 (drop 16 bs)),
     resp_res = take 4 (drop 20 bs), bodyLen = un_le32 (take 4 (drop 24 bs)),
     resp_crc32 = un_le32 (take 4 (drop 28 bs))\<rparr>"

definition wf_req :: "MOCPS_CTRL_REQUEST \<Rightarrow> bool" where
  "wf_req r \<longleftrightarrow> length (req_mark r) = 16 \<and> length (req_res r) = 4"

definition wf_resp :: "MOCPS_CTRL_RESPONSE_BASIC \<Rightarrow> bool" where
  "wf_resp r \<longleftrightarrow> length (resp_mark r) = 16 \<and> length (resp_res r) = 4"

lemma length_req_bytes [simp]: "wf_req r \<Longrightarrow> length (req_bytes r) = 32"
  by (simp add: wf_req_def req_bytes_def)

lemma length_resp_bytes [simp]: "wf_resp r \<Longrightarrow> length (resp_bytes r) = 32"
  by (simp add: wf_resp_def resp_bytes_def)

lemma bytes_req_bytes [simp]: "wf_req r \<Longrightarrow> bytes_req (req_bytes r) = r"
  by (simp add: wf_req_def req_bytes_def bytes_req_def)

lemma bytes_resp_bytes [simp]: "wf_resp r \<Longrightarrow> bytes_resp (resp_bytes r) = r"
  by (simp add: wf_resp_def resp_bytes_def bytes_resp_def)

section \<open>Keys\<close>

datatype MOCPS_CRYPT_ALGO =
    MOCPS_CRYPT_ALGO_IDLE
  | MOCPS_CRYPT_ALGO_DES
  | MOCPS_CRYPT_ALGO_DES3
  | MOCPS_CRYPT_ALGO_AES
  | MOCPS_CRYPT_ALGO_RC4
  | MOCPS_CRYPT_ALGO_MAX

record MOCPS_CRYPT_INFO =
  cryptAlgoNo :: MOCPS_CRYPT_ALGO
  cryptKey :: "byte list"
  keyLen :: int

text \<open>
  A key as it is sent: the algorithm, the union of the keys (256 bytes, the RC4 key being the longest)
  and the length of the key. A number that is not one of the four algorithms is only ever looked at
  by a \<open>switch\<close>, where it takes the default branch, like \<open>MOCPS_CRYPT_ALGO_MAX\<close>.
\<close>

fun algo_no :: "MOCPS_CRYPT_ALGO \<Rightarrow> u32" where
  "algo_no MOCPS_CRYPT_ALGO_IDLE = 0"
| "algo_no MOCPS_CRYPT_ALGO_DES = 1"
| "algo_no MOCPS_CRYPT_ALGO_DES3 = 2"
| "algo_no MOCPS_CRYPT_ALGO_AES = 3"
| "algo_no MOCPS_CRYPT_ALGO_RC4 = 4"
| "algo_no MOCPS_CRYPT_ALGO_MAX = 5"

definition no_algo :: "u32 \<Rightarrow> MOCPS_CRYPT_ALGO" where
  "no_algo n = (if n = 0 then MOCPS_CRYPT_ALGO_IDLE else if n = 1 then MOCPS_CRYPT_ALGO_DES
     else if n = 2 then MOCPS_CRYPT_ALGO_DES3 else if n = 3 then MOCPS_CRYPT_ALGO_AES
     else if n = 4 then MOCPS_CRYPT_ALGO_RC4 else MOCPS_CRYPT_ALGO_MAX)"

lemma no_algo_no [simp]: "no_algo (algo_no a) = a"
  by (cases a) (simp_all add: no_algo_def)

definition crypt_bytes :: "MOCPS_CRYPT_INFO \<Rightarrow> byte list" where
  "crypt_bytes i = le32 (algo_no (cryptAlgoNo i)) @ cryptKey i @ le32 (word_of_int (keyLen i))"

definition bytes_crypt :: "byte list \<Rightarrow> MOCPS_CRYPT_INFO" where
  "bytes_crypt bs = \<lparr>cryptAlgoNo = no_algo (un_le32 (take 4 bs)), cryptKey = take 256 (drop 4 bs),
     keyLen = sint (un_le32 (take 4 (drop 260 bs)))\<rparr>"

definition wf_crypt :: "MOCPS_CRYPT_INFO \<Rightarrow> bool" where
  "wf_crypt i \<longleftrightarrow> length (cryptKey i) = 256 \<and> in_int32 (keyLen i)"

lemma length_crypt_bytes [simp]: "wf_crypt i \<Longrightarrow> length (crypt_bytes i) = 264"
  by (simp add: wf_crypt_def crypt_bytes_def)

lemma sint_word_of_int32: "in_int32 v \<Longrightarrow> sint (word_of_int v :: u32) = v"
  by (simp add: in_int32_def signed_take_bit_int_eq_self sint_sbintrunc')

lemma bytes_crypt_bytes [simp]: "wf_crypt i \<Longrightarrow> bytes_crypt (crypt_bytes i) = i"
  by (simp add: wf_crypt_def crypt_bytes_def bytes_crypt_def sint_word_of_int32)

record MOCPS_KEYAGREE_RESPONSE =
  ka_mark :: "byte list"
  ka_cmdId :: u32
  ka_crypt :: MOCPS_CRYPT_INFO
  ka_crc32 :: u32

definition ka_bytes :: "MOCPS_KEYAGREE_RESPONSE \<Rightarrow> byte list" where
  "ka_bytes r = ka_mark r @ le32 (ka_cmdId r) @ crypt_bytes (ka_crypt r) @ le32 (ka_crc32 r)"

definition bytes_ka :: "byte list \<Rightarrow> MOCPS_KEYAGREE_RESPONSE" where
  "bytes_ka bs = \<lparr>ka_mark = take 16 bs, ka_cmdId = un_le32 (take 4 (drop 16 bs)),
     ka_crypt = bytes_crypt (take 264 (drop 20 bs)), ka_crc32 = un_le32 (take 4 (drop 284 bs))\<rparr>"

definition wf_ka :: "MOCPS_KEYAGREE_RESPONSE \<Rightarrow> bool" where
  "wf_ka r \<longleftrightarrow> length (ka_mark r) = 16 \<and> wf_crypt (ka_crypt r)"

lemma length_ka_bytes [simp]: "wf_ka r \<Longrightarrow> length (ka_bytes r) = 288"
  by (simp add: wf_ka_def ka_bytes_def)

lemma bytes_ka_bytes [simp]: "wf_ka r \<Longrightarrow> bytes_ka (ka_bytes r) = r"
  by (simp add: wf_ka_def ka_bytes_def bytes_ka_def)

section \<open>The CRC stubs\<close>

text \<open>\<open>moUtils_Check_getCrc\<close> does not touch \<open>*pCrc\<close>; both functions return 0.\<close>

definition moUtils_Check_getCrc :: "byte list \<Rightarrow> nat \<Rightarrow> u32 \<Rightarrow> int \<times> u32" where
  "moUtils_Check_getCrc pSrc len crc = (0, crc)"

definition moUtils_Check_checkCrc :: "byte list \<Rightarrow> nat \<Rightarrow> u32 \<Rightarrow> int" where
  "moUtils_Check_checkCrc pSrc len crc = 0"

end
