(* ===== verification/MoConn.thy ===== *)
theory MoConn
  imports MoCpsProto
begin

text \<open>
  Connections and buffers of the file server and its client: a connection is what its peer sends
  (a script, see \<open>MoNet\<close>), what the kernel accepts, and what has been sent.
\<close>

record CONN =
  c_in :: "recv_event list"
  c_out :: "send_event list"
  c_sent :: "byte list"

definition conn_readn :: "CONN \<Rightarrow> byte list \<Rightarrow> int \<Rightarrow> (int \<times> byte list \<times> CONN) option" where
  "conn_readn c buf len = do {
     (r, buf, es) \<leftarrow> readn (c_in c) buf len;
     Some (r, buf, c\<lparr>c_in := es\<rparr>)
   }"

definition conn_writen :: "CONN \<Rightarrow> byte list \<Rightarrow> int \<Rightarrow> (int \<times> CONN) option" where
  "conn_writen c buf len = do {
     (r, bs, es) \<leftarrow> writen (c_out c) buf len;
     Some (r, c\<lparr>c_out := es, c_sent := c_sent c @ bs\<rparr>)
   }"

section \<open>Library functions\<close>

text \<open>\<open>strncpy\<close> to \<open>n\<close> cells, the last of which is then cleared.\<close>

definition copyStr :: "nat \<Rightarrow> string \<Rightarrow> string" where
  "copyStr n s = take (n - 1) s"

text \<open>\<open>atoi\<close> of the C library; a number that is not an \<open>int\<close> has no defined result.\<close>

fun atoi_digits :: "int \<Rightarrow> string \<Rightarrow> int" where
  "atoi_digits v [] = v"
| "atoi_digits v (c # cs) =
     (if 48 \<le> (of_char c :: nat) \<and> (of_char c :: nat) \<le> 57 then atoi_digits (10 * v + (of_char c - 48)) cs else v)"

definition atoi :: "string \<Rightarrow> int option" where
  "atoi s = (let s = dropWhile (\<lambda>c. of_char c = (32 :: nat) \<or> 9 \<le> (of_char c :: nat) \<and> (of_char c :: nat) \<le> 13) s;
     v = (case s of
        c # cs \<Rightarrow> if c = CHR ''-'' then - atoi_digits 0 cs
          else if c = CHR ''+'' then atoi_digits 0 cs else atoi_digits 0 s
      | [] \<Rightarrow> 0)
     in if in_int32 v then Some v else None)"

section \<open>Buffers\<close>

text \<open>\<open>memcpy\<close> from the start of one buffer to offset \<open>off\<close> of another; a negative length is a huge one.\<close>

definition memcpyTo :: "byte list \<Rightarrow> int \<Rightarrow> byte list \<Rightarrow> nat \<Rightarrow> (int \<times> byte list) option" where
  "memcpyTo src len dst off =
     (if len < 0 then None
      else do {
        bs \<leftarrow> rdn src 0 (nat len);
        dst \<leftarrow> wrn dst off bs;
        Some (0, dst)
      })"

lemma memcpyTo_ok:
  "n \<le> length src \<Longrightarrow> off + n \<le> length dst \<Longrightarrow>
   memcpyTo src (int n) dst off = Some (0, take off dst @ take n src @ drop (off + n) dst)"
  by (simp add: memcpyTo_def)

text \<open>The algorithms with which both sides copy: the calls of the ciphers are disabled by \<open>#if 0\<close>.\<close>

definition copies :: "MOCPS_CRYPT_INFO \<Rightarrow> bool" where
  "copies info \<longleftrightarrow> cryptAlgoNo info \<in> {MOCPS_CRYPT_ALGO_DES, MOCPS_CRYPT_ALGO_DES3, MOCPS_CRYPT_ALGO_AES, MOCPS_CRYPT_ALGO_RC4}"

section \<open>Connections that work\<close>

lemma conn_readn_clean:
  assumes "clean (c_in c)" and "n \<le> length (stream (c_in c))" and "n \<le> length buf"
  obtains es where "conn_readn c buf (int n) = Some (int n, take n (stream (c_in c)) @ drop n buf, c\<lparr>c_in := es\<rparr>)"
    and "clean es" and "stream es = drop n (stream (c_in c))"
  using readn_clean [OF assms] that by (force simp: conn_readn_def)

definition sends :: "CONN \<Rightarrow> nat \<Rightarrow> bool" where
  "sends c n \<longleftrightarrow> list_all clean_send (c_out c) \<and> n \<le> takers (c_out c)"

lemma conn_writen_sends:
  assumes "sends c (length buf + k)"
  obtains c' where "conn_writen c buf (int (length buf)) = Some (int (length buf), c')"
    and "c_in c' = c_in c" and "c_sent c' = c_sent c @ buf" and "sends c' k"
proof -
  have "list_all clean_send (c_out c)" "length buf \<le> capacity (c_out c)"
    using assms takers_le_capacity [of "c_out c"] by (auto simp: sends_def)
  then obtain es where "writen (c_out c) buf (int (length buf)) = Some (int (length buf), take (length buf) buf, es)"
    "list_all clean_send es" "takers (c_out c) \<le> takers es + length buf"
    using writen_clean [of "c_out c" "length buf" buf] by blast
  then show ?thesis using assms
    by (intro that [of "c\<lparr>c_out := es, c_sent := c_sent c @ buf\<rparr>"]) (auto simp: conn_writen_def sends_def)
qed

end
