(* ===== verification/MoCri.thy ===== *)
theory MoCri
  imports MoConn MoCliMgr
begin

text \<open>
  The running information of the clients of the file server, the first part of
  \<open>moSdk/Cps/Server/src/moCpsServer.c\<close> (functions \<open>cri...\<close>): for every client its sockets, its
  threads and its key, and the thread that removes the clients that are to be deleted.

  Every operation runs under \<open>gCriMutex\<close> and is one step. \<open>criMutexLost\<close> says that the checking
  thread has exited with the mutex locked; an operation that locks it then never returns (\<open>None\<close>).
\<close>

datatype THREAD_STATE =
    THREAD_STATE_DONOT_CREATE
  | THREAD_STATE_RUNNING
  | THREAD_STATE_DELETING
  | THREAD_STATE_DELETED

text \<open>\<open>cryptInfo\<close> is \<open>None\<close> while the field still has the contents that \<open>malloc\<close> left in it.\<close>

record CLI_RUNNING_INFO =
  cri_ip :: string
  ipValue :: "32 word"
  cri_ctrlSockId :: int
  cri_ctrlPort :: int
  ctrlThrId :: nat
  ctrlThrState :: THREAD_STATE
  dataSockId :: int
  dataPort :: int
  dataThrId :: nat
  dataThrState :: THREAD_STATE
  cryptInfo :: "MOCPS_CRYPT_INFO option"

record CRI =
  gpCriListHead :: "CLI_RUNNING_INFO list option"
  criMutexLost :: bool

abbreviation (input) MOCPS_INVALID_PORT :: int where "MOCPS_INVALID_PORT \<equiv> 0"
abbreviation (input) MOCPS_INVALID_THR_ID :: nat where "MOCPS_INVALID_THR_ID \<equiv> 0"

definition criLock :: "CRI \<Rightarrow> unit option" where
  "criLock s = (if criMutexLost s then None else Some ())"

section \<open>Starting and stopping\<close>

text \<open>\<open>createRet\<close> is what \<open>pthread_create\<close> returns.\<close>

definition criInit :: "bool \<Rightarrow> int \<Rightarrow> CRI \<Rightarrow> int \<times> CRI" where
  "criInit mallocOk createRet s =
     (if gpCriListHead s \<noteq> None then (-1, s)
      else if \<not> mallocOk then (-2, s)
      else if createRet < 0 then (-3, s)
      else (0, s\<lparr>gpCriListHead := Some []\<rparr>))"

definition criUnInit :: "CRI \<Rightarrow> CRI" where
  "criUnInit s = s\<lparr>gpCriListHead := None\<rparr>"

section \<open>Operations on the list\<close>

definition criInsertNewCliInfo ::
    "(string \<Rightarrow> 32 word) \<Rightarrow> bool \<Rightarrow> string option \<Rightarrow> int \<Rightarrow> int \<Rightarrow> CRI \<Rightarrow> (int \<times> CRI) option" where
  "criInsertNewCliInfo inet_addr mallocOk pIp sock port s =
     (case pIp of
        None \<Rightarrow> Some (-1, s)
      | Some ip \<Rightarrow> do {
          criLock s;
          case gpCriListHead s of
            None \<Rightarrow> Some (-2, s)
          | Some cs \<Rightarrow>
              if sock \<in> set (map cri_ctrlSockId cs) then Some (0, s)
              else if \<not> mallocOk then Some (-3, s)
              else let a = copyStr MOCPS_IP_ADDR_MAXLEN ip in
                Some (0, s\<lparr>gpCriListHead := Some (
                  \<lparr>cri_ip = a, ipValue = inet_addr a, cri_ctrlSockId = sock, cri_ctrlPort = port,
                   ctrlThrId = MOCPS_INVALID_THR_ID, ctrlThrState = THREAD_STATE_DONOT_CREATE,
                   dataSockId = MOCPS_INVALID_SOCKID, dataPort = MOCPS_INVALID_PORT,
                   dataThrId = MOCPS_INVALID_THR_ID, dataThrState = THREAD_STATE_DONOT_CREATE,
                   cryptInfo = None\<rparr> # cs)\<rparr>)
        })"

definition criDeleteCliInfo :: "int \<Rightarrow> CRI \<Rightarrow> (int \<times> CRI) option" where
  "criDeleteCliInfo sock s = do {
     criLock s;
     case gpCriListHead s of
       None \<Rightarrow> Some (-1, s)
     | Some cs \<Rightarrow> Some (0, s\<lparr>gpCriListHead := Some (upd_first (\<lambda>c. cri_ctrlSockId c = sock)
         (\<lambda>c. c\<lparr>ctrlThrState := THREAD_STATE_DELETING, dataThrState := THREAD_STATE_DELETING\<rparr>) cs)\<rparr>)
   }"

text \<open>\<open>recvInvalidCliInfo\<close> is what the client manager calls for a client whose heartbeat stopped.\<close>

definition recvInvalidCliInfo :: "int \<Rightarrow> CRI \<Rightarrow> (int \<times> CRI) option" where
  "recvInvalidCliInfo = criDeleteCliInfo"

definition criIsCliExist :: "32 word \<Rightarrow> CRI \<Rightarrow> int option" where
  "criIsCliExist ip s =
     (case gpCriListHead s of
        None \<Rightarrow> Some 0
      | Some cs \<Rightarrow> do {
          criLock s;
          Some (if ip \<in> set (map ipValue cs) then 1 else 0)
        })"

text \<open>The operations that search a client by its control socket and change its record.\<close>

definition criUpdate :: "(CLI_RUNNING_INFO \<Rightarrow> CLI_RUNNING_INFO) \<Rightarrow> int \<Rightarrow> CRI \<Rightarrow> (int \<times> CRI) option" where
  "criUpdate f sock s =
     (case gpCriListHead s of
        None \<Rightarrow> Some (-1, s)
      | Some cs \<Rightarrow> do {
          criLock s;
          case find (\<lambda>c. cri_ctrlSockId c = sock) cs of
            None \<Rightarrow> Some (-2, s)
          | Some _ \<Rightarrow> Some (0, s\<lparr>gpCriListHead := Some (upd_first (\<lambda>c. cri_ctrlSockId c = sock) f cs)\<rparr>)
        })"

definition criSetDataSockPort :: "int \<Rightarrow> int \<Rightarrow> CRI \<Rightarrow> (int \<times> CRI) option" where
  "criSetDataSockPort port = criUpdate (\<lambda>c. c\<lparr>dataSockId := MOCPS_INVALID_SOCKID, dataPort := port,
     dataThrId := MOCPS_INVALID_THR_ID, dataThrState := THREAD_STATE_DONOT_CREATE\<rparr>)"

definition criRefreshCtrlThrInfo :: "nat \<Rightarrow> int \<Rightarrow> CRI \<Rightarrow> (int \<times> CRI) option" where
  "criRefreshCtrlThrInfo thId = criUpdate (\<lambda>c. c\<lparr>ctrlThrId := thId, ctrlThrState := THREAD_STATE_RUNNING\<rparr>)"

definition criRefreshCryptInfo :: "MOCPS_CRYPT_INFO \<Rightarrow> int \<Rightarrow> CRI \<Rightarrow> (int \<times> CRI) option" where
  "criRefreshCryptInfo info = criUpdate (\<lambda>c. c\<lparr>cryptInfo := Some info\<rparr>)"

definition criGetCryptInfo :: "int \<Rightarrow> CRI \<Rightarrow> (int \<times> MOCPS_CRYPT_INFO option) option" where
  "criGetCryptInfo sock s =
     (case gpCriListHead s of
        None \<Rightarrow> Some (-2, None)
      | Some cs \<Rightarrow> do {
          criLock s;
          case find (\<lambda>c. cri_ctrlSockId c = sock) cs of
            None \<Rightarrow> Some (-3, None)
          | Some c \<Rightarrow> Some (0, cryptInfo c)
        })"

definition criSetDataSocketInfo :: "32 word \<Rightarrow> int \<Rightarrow> int \<Rightarrow> CRI \<Rightarrow> (int \<times> CRI) option" where
  "criSetDataSocketInfo ip sock port s =
     (case gpCriListHead s of
        None \<Rightarrow> Some (-1, s)
      | Some cs \<Rightarrow> do {
          criLock s;
          case find (\<lambda>c. ipValue c = ip) cs of
            None \<Rightarrow> Some (-3, s)
          | Some c \<Rightarrow>
              if port \<noteq> dataPort c then Some (-2, s)
              else Some (0, s\<lparr>gpCriListHead := Some (upd_first (\<lambda>c. ipValue c = ip) (\<lambda>c. c\<lparr>dataSockId := sock\<rparr>) cs)\<rparr>)
        })"

section \<open>The checking thread\<close>

text \<open>
  One pass over the list. \<open>pPreNode\<close> is the head node all the time, so unlinking a node
  (\<open>pPreNode->next = pCurNode->next\<close>) makes its successor the first node of the list; \<open>seen\<close> is what
  hangs between the head and \<open>pCurNode\<close>. The threads of a deleted client are killed and its record
  in the client manager is deleted. The result is the list, the killed threads and the manager.
\<close>

fun criCheckPass :: "CLI_RUNNING_INFO list \<Rightarrow> CLI_RUNNING_INFO list \<Rightarrow> CLIMGR \<Rightarrow>
    (CLI_RUNNING_INFO list \<times> nat list \<times> CLIMGR) option" where
  "criCheckPass seen [] m = Some (seen, [], m)"
| "criCheckPass seen (c # cs) m =
     (if ctrlThrState c = THREAD_STATE_DELETING then do {
        (r, m1) \<leftarrow> cliMgrDeleteCli (cri_ctrlSockId c) m;
        (cs', ks, m2) \<leftarrow> criCheckPass [] cs m1;
        Some (cs', ctrlThrId c # (if dataThrState c = THREAD_STATE_DELETING then [dataThrId c] else []) @ ks, m2)
      }
      else criCheckPass (seen @ [c]) cs m)"

text \<open>
  The body of the loop after the \<open>select\<close>. The first component says whether the loop goes on: with a
  \<open>NULL\<close> head the thread leaves the loop with the mutex locked.
\<close>

definition criCheckBody :: "CRI \<Rightarrow> CLIMGR \<Rightarrow> (bool \<times> nat list \<times> CRI \<times> CLIMGR) option" where
  "criCheckBody s m = do {
     criLock s;
     case gpCriListHead s of
       None \<Rightarrow> Some (False, [], s\<lparr>criMutexLost := True\<rparr>, m)
     | Some cs \<Rightarrow> do {
         (cs', ks, m') \<leftarrow> criCheckPass [] cs m;
         Some (True, ks, s\<lparr>gpCriListHead := Some cs'\<rparr>, m')
       }
   }"


section \<open>The shared contract of the updates\<close>

abbreviation cri_nodes :: "CRI \<Rightarrow> CLI_RUNNING_INFO list option" where
  "cri_nodes s \<equiv> if criMutexLost s then None else gpCriListHead s"

lemma criUpdate_nodes:
  assumes "cri_nodes s = Some vs"
  shows "\<exists>s'. criUpdate f k s = Some (if find (\<lambda>v. cri_ctrlSockId v = k) vs = None then -2 else 0, s') \<and>
    cri_nodes s' = Some (upd_first (\<lambda>v. cri_ctrlSockId v = k) f vs)"
proof -
  have s: "gpCriListHead s = Some vs" "\<not> criMutexLost s" using assms by (auto split: if_splits)
  show ?thesis
  proof (cases "find (\<lambda>v. cri_ctrlSockId v = k) vs")
    case None
    then show ?thesis using s by (simp add: criUpdate_def criLock_def)
  next
    case (Some c)
    then show ?thesis using s
      by (intro exI [of _ "s\<lparr>gpCriListHead := Some (upd_first (\<lambda>v. cri_ctrlSockId v = k) f vs)\<rparr>"])
        (simp add: criUpdate_def criLock_def)
  qed
qed

interpretation dataport: node_update cri_nodes cri_ctrlSockId
    "\<lambda>c. c\<lparr>dataSockId := MOCPS_INVALID_SOCKID, dataPort := port, dataThrId := MOCPS_INVALID_THR_ID,
       dataThrState := THREAD_STATE_DONOT_CREATE\<rparr>" "-2" "criSetDataSockPort port" for port
  by unfold_locales (simp_all add: criUpdate_nodes criSetDataSockPort_def del: if_split)

interpretation ctrlthr: node_update cri_nodes cri_ctrlSockId
    "\<lambda>c. c\<lparr>ctrlThrId := thId, ctrlThrState := THREAD_STATE_RUNNING\<rparr>" "-2" "criRefreshCtrlThrInfo thId" for thId
  by unfold_locales (simp_all add: criUpdate_nodes criRefreshCtrlThrInfo_def del: if_split)

interpretation crypt: node_update cri_nodes cri_ctrlSockId
    "\<lambda>c. c\<lparr>cryptInfo := Some info\<rparr>" "-2" "criRefreshCryptInfo info" for info
  by unfold_locales (simp_all add: criUpdate_nodes criRefreshCryptInfo_def del: if_split)

lemma criGetCryptInfo_lookup:
  "cri_nodes s = Some vs \<Longrightarrow> criGetCryptInfo k s = Some (case crypt.lookup s k of None \<Rightarrow> (-3, None) | Some c \<Rightarrow> (0, cryptInfo c))"
  by (auto simp: criGetCryptInfo_def criLock_def split: option.splits if_splits)

text \<open>
  The key that is stored for a client is the key that is read back for it, and storing it changes
  nothing for any other client.
\<close>

lemma refreshCrypt_stored:
  assumes "cri_nodes c = Some cs" and "sock \<in> set (map cri_ctrlSockId cs)"
  obtains c' where "criRefreshCryptInfo info sock c = Some (0, c')" and "criGetCryptInfo sock c' = Some (0, Some info)"
    and "\<And>other. other \<noteq> sock \<Longrightarrow> criGetCryptInfo other c' = criGetCryptInfo other c"
proof -
  obtain i where i: "crypt.lookup c sock = Some i"
    using assms by (cases "crypt.lookup c sock") (auto simp: find_None_iff simp del: if_split)
  obtain r c' where c': "criRefreshCryptInfo info sock c = Some (r, c')"
    "cri_nodes c' = Some (upd_first (\<lambda>v. cri_ctrlSockId v = sock) (\<lambda>c. c\<lparr>cryptInfo := Some info\<rparr>) cs)"
    "r = 0 \<longleftrightarrow> crypt.lookup c sock \<noteq> None"
    using crypt.total [OF assms(1)] by blast
  show ?thesis
  proof (rule that [of c'])
    show "criRefreshCryptInfo info sock c = Some (0, c')" using c'(1,3) i by simp
    show "criGetCryptInfo sock c' = Some (0, Some info)"
      using criGetCryptInfo_lookup [OF c'(2)] crypt.lookup_same [OF assms(1) c'(1)] i by simp
    show "criGetCryptInfo other c' = criGetCryptInfo other c" if "other \<noteq> sock" for other
      using criGetCryptInfo_lookup [OF c'(2)] criGetCryptInfo_lookup [OF assms(1)]
        crypt.lookup_other [OF assms(1) c'(1) that] by simp
  qed
qed

section \<open>What a pass removes\<close>

definition deleting :: "CLI_RUNNING_INFO \<Rightarrow> bool" where
  "deleting c \<longleftrightarrow> ctrlThrState c = THREAD_STATE_DELETING"

definition kills :: "CLI_RUNNING_INFO \<Rightarrow> nat list" where
  "kills c = ctrlThrId c # (if dataThrState c = THREAD_STATE_DELETING then [dataThrId c] else [])"

lemma cliMgrDeleteCli_total:
  "gpCliInfoListHead m \<noteq> None \<Longrightarrow> \<exists>m'. cliMgrDeleteCli k m = Some (0, m') \<and> gpCliInfoListHead m' \<noteq> None"
  by (auto simp: cliMgrDeleteCli_def split: option.splits)

lemma criCheckPass_total:
  assumes "gpCliInfoListHead m \<noteq> None"
  shows "\<exists>m'. criCheckPass seen cs m = Some (
      (if \<exists>c \<in> set cs. deleting c then rev (takeWhile (\<lambda>c. \<not> deleting c) (rev cs)) else seen @ cs),
      concat (map kills (filter deleting cs)), m') \<and> gpCliInfoListHead m' \<noteq> None"
  using assms
proof (induction cs arbitrary: seen m)
  case Nil
  then show ?case by simp
next
  case (Cons c cs)
  show ?case
  proof (cases "deleting c")
    case True
    obtain m1 where m1: "cliMgrDeleteCli (cri_ctrlSockId c) m = Some (0, m1)" "gpCliInfoListHead m1 \<noteq> None"
      using cliMgrDeleteCli_total [OF Cons.prems] by blast
    have "takeWhile Q (xs @ [c]) = takeWhile Q xs" if "\<not> Q c" for Q xs
      using that by (induction xs) auto
    from this [of "\<lambda>c. \<not> deleting c" "rev cs"] True
    have tw: "takeWhile (\<lambda>c. \<not> deleting c) (rev cs @ [c]) = takeWhile (\<lambda>c. \<not> deleting c) (rev cs)" by simp
    have none: "takeWhile (\<lambda>c. ctrlThrState c \<noteq> THREAD_STATE_DELETING) (rev cs) = rev cs"
      if "\<forall>x \<in> set cs. ctrlThrState x \<noteq> THREAD_STATE_DELETING"
      using that by (simp add: takeWhile_eq_all_conv)
    show ?thesis using Cons.IH [OF m1(2), of "[]"] True m1(1) tw
      by (cases "\<exists>c \<in> set cs. deleting c") (auto simp: deleting_def kills_def none)
  next
    case False
    then show ?thesis using Cons.IH [OF Cons.prems, of "seen @ [c]"]
      by (auto simp: deleting_def takeWhile_append)
  qed
qed

text \<open>
  The checking thread kills exactly the threads of the clients that are to be deleted, but it
  also forgets every client in front of the last one of them, although their threads go on running.
\<close>

theorem criCheck_forgets_clients:
  assumes "gpCriListHead s = Some (pre @ d # post)" and "\<not> criMutexLost s" and "gpCliInfoListHead m \<noteq> None"
    and "deleting d" and "list_all (\<lambda>c. \<not> deleting c) post"
  shows "\<exists>m'. criCheckBody s m = Some (True, concat (map kills (filter deleting pre)) @ kills d,
    s\<lparr>gpCriListHead := Some post\<rparr>, m')"
proof -
  have "takeWhile (\<lambda>c. \<not> deleting c) (rev post @ d # rev pre) = rev post"
    using assms(4,5) by (subst takeWhile_append2) (auto simp: list_all_iff)
  moreover have "filter deleting post = []" using assms(5) by (simp add: list_all_iff filter_empty_conv)
  ultimately show ?thesis
    using criCheckPass_total [OF assms(3), of "[]" "pre @ d # post"] assms(1,2,4)
    by (auto simp: criCheckBody_def criLock_def)
qed


abbreviation sample_cli :: "int \<Rightarrow> THREAD_STATE \<Rightarrow> CLI_RUNNING_INFO" where
  "sample_cli sock st \<equiv> \<lparr>cri_ip = ''1.1.1.1'', ipValue = of_int sock, cri_ctrlSockId = sock, cri_ctrlPort = 4000,
     ctrlThrId = nat sock + 100, ctrlThrState = st, dataSockId = -1, dataPort = 0, dataThrId = 0,
     dataThrState = THREAD_STATE_DONOT_CREATE, cryptInfo = None\<rparr>"

theorem criCheck_forgets_clients_witness:
  "\<exists>m'. criCheckBody \<lparr>gpCriListHead = Some [sample_cli 5 THREAD_STATE_RUNNING, sample_cli 6 THREAD_STATE_DELETING],
      criMutexLost = False\<rparr> (CLIMGR_initial\<lparr>gpCliInfoListHead := Some []\<rparr>) =
    Some (True, [106], \<lparr>gpCriListHead = Some [], criMutexLost = False\<rparr>, m')"
  using criCheck_forgets_clients [of "\<lparr>gpCriListHead = Some [sample_cli 5 THREAD_STATE_RUNNING,
      sample_cli 6 THREAD_STATE_DELETING], criMutexLost = False\<rparr>" "[sample_cli 5 THREAD_STATE_RUNNING]"
      "sample_cli 6 THREAD_STATE_DELETING" "[]" "CLIMGR_initial\<lparr>gpCliInfoListHead := Some []\<rparr>"]
  by (simp add: deleting_def kills_def)

text \<open>
  When the module is stopped while the thread sleeps, the thread exits with the mutex locked, and
  after a new \<open>criInit\<close> no client can be inserted any more.
\<close>

lemma criCheck_loses_mutex:
  assumes "\<not> criMutexLost s"
  shows "\<exists>s1. criCheckBody (criUnInit s) m = Some (False, [], s1, m) \<and>
    criInsertNewCliInfo inet_addr True (Some ip) sock port (snd (criInit True 0 s1)) = None"
  using assms by (simp add: criCheckBody_def criUnInit_def criLock_def criInsertNewCliInfo_def criInit_def)

section \<open>Deleting a client while it sends\<close>

text \<open>
  The control thread of a client (socket \<open>sock\<close>, thread \<open>tid\<close>) waits in \<open>pselect\<close>, which a signal
  ends, or serves a request, which first needs the mutex: \<open>Serve True\<close> is \<open>BYEBYE\<close>
  (\<open>criDeleteCliInfo\<close>), \<open>Serve False\<close> any other request (\<open>criGetCryptInfo\<close>). The checking thread keeps
  the mutex while it is in \<open>killThread\<close>, that is, until the control thread has ended (\<open>Joining\<close>). The
  signal does not end a wait for a mutex.
\<close>

datatype ctrl_pc = Selecting | Serve bool | Ended
datatype checker_pc = Sleeping | Joining

record SERVSYS =
  scri :: CRI
  smgr :: CLIMGR
  ctrl :: ctrl_pc
  checker :: checker_pc
  signalled :: bool

inductive serv_step :: "int \<Rightarrow> nat \<Rightarrow> SERVSYS \<Rightarrow> SERVSYS \<Rightarrow> bool" for sock tid where
  request: "ctrl s = Selecting \<Longrightarrow> serv_step sock tid s (s\<lparr>ctrl := Serve bye\<rparr>)"
| byebye: "ctrl s = Serve True \<Longrightarrow> checker s = Sleeping \<Longrightarrow> criDeleteCliInfo sock (scri s) = Some (r, c') \<Longrightarrow>
    serv_step sock tid s (s\<lparr>ctrl := Selecting, scri := c'\<rparr>)"
| other: "ctrl s = Serve False \<Longrightarrow> checker s = Sleeping \<Longrightarrow> criGetCryptInfo sock (scri s) = Some (r, i) \<Longrightarrow>
    serv_step sock tid s (s\<lparr>ctrl := Selecting\<rparr>)"
| interrupted: "ctrl s = Selecting \<Longrightarrow> signalled s \<Longrightarrow> serv_step sock tid s (s\<lparr>ctrl := Ended\<rparr>)"
| check: "checker s = Sleeping \<Longrightarrow> criCheckBody (scri s) (smgr s) = Some (True, ks, c', m') \<Longrightarrow>
    tid \<notin> set ks \<or> ctrl s = Ended \<Longrightarrow> serv_step sock tid s (s\<lparr>scri := c', smgr := m'\<rparr>)"
| kill: "checker s = Sleeping \<Longrightarrow> criCheckBody (scri s) (smgr s) = Some (True, ks, c', m') \<Longrightarrow>
    tid \<in> set ks \<Longrightarrow> ctrl s \<noteq> Ended \<Longrightarrow> serv_step sock tid s (s\<lparr>checker := Joining, signalled := True\<rparr>)"
| joined: "checker s = Joining \<Longrightarrow> ctrl s = Ended \<Longrightarrow> criCheckBody (scri s) (smgr s) = Some (True, ks, c', m') \<Longrightarrow>
    serv_step sock tid s (s\<lparr>checker := Sleeping, scri := c', smgr := m'\<rparr>)"

inductive_simps serv_step_joining:
  "serv_step sock tid \<lparr>scri = c, smgr = m, ctrl = Serve b, checker = Joining, signalled = g\<rparr> s'"

definition serv_start :: "int \<Rightarrow> nat \<Rightarrow> SERVSYS" where
  "serv_start sock tid =
     \<lparr>scri = snd (the (criRefreshCtrlThrInfo tid sock (snd (the (criInsertNewCliInfo (\<lambda>_. 0) True (Some ''1.1.1.1'') sock 4000
        \<lparr>gpCriListHead = Some [], criMutexLost = False\<rparr>))))),
      smgr = CLIMGR_initial\<lparr>gpCliInfoListHead := Some []\<rparr>, ctrl = Selecting, checker = Sleeping, signalled = False\<rparr>"

text \<open>
  A client that says goodbye and sends one more request deadlocks the server: the checking thread
  waits, with the mutex locked, for the end of the client's thread, and that thread waits for the
  mutex. No step is possible any more.
\<close>

theorem byebye_deadlock:
  "\<exists>s. (serv_step sock tid)\<^sup>*\<^sup>* (serv_start sock tid) s \<and> checker s = Joining \<and> ctrl s = Serve False \<and>
    (\<nexists>s'. serv_step sock tid s s')"
proof -
  define c where "c = scri (serv_start sock tid)"
  define m where "m = CLIMGR_initial\<lparr>gpCliInfoListHead := Some []\<rparr>"
  define i where "i = hd (the (gpCriListHead c))"
  have i: "c = \<lparr>gpCriListHead = Some [i], criMutexLost = False\<rparr>" "cri_ctrlSockId i = sock" "ctrlThrId i = tid"
    by (simp_all add: i_def c_def serv_start_def criInsertNewCliInfo_def criLock_def criRefreshCtrlThrInfo_def
      criUpdate_def Let_def)
  define i' where "i' = i\<lparr>ctrlThrState := THREAD_STATE_DELETING, dataThrState := THREAD_STATE_DELETING\<rparr>"
  define c' where "c' = \<lparr>gpCriListHead = Some [i'], criMutexLost = False\<rparr>"
  let ?s = "\<lambda>c p q g. \<lparr>scri = c, smgr = m, ctrl = p, checker = q, signalled = g\<rparr>"
  have "criCheckBody c' m = Some (True, [tid, dataThrId i], c'\<lparr>gpCriListHead := Some []\<rparr>, m)"
    by (simp add: criCheckBody_def criLock_def c'_def i'_def i(2,3) m_def cliMgrDeleteCli_def)
  then have 4: "serv_step sock tid (?s c' Selecting Sleeping False) (?s c' Selecting Joining True)"
    using serv_step.kill [of "?s c' Selecting Sleeping False" "[tid, dataThrId i]"] by simp
  have 1: "serv_start sock tid = ?s c Selecting Sleeping False" by (simp add: serv_start_def c_def m_def)
  have 2: "serv_step sock tid (?s c Selecting Sleeping False) (?s c (Serve True) Sleeping False)"
    using serv_step.request [of "?s c Selecting Sleeping False" sock tid True] by simp
  have 3: "serv_step sock tid (?s c (Serve True) Sleeping False) (?s c' Selecting Sleeping False)"
    using serv_step.byebye [of "?s c (Serve True) Sleeping False" sock 0 c' tid]
    by (simp add: i criDeleteCliInfo_def criLock_def c'_def i'_def)
  have 5: "serv_step sock tid (?s c' Selecting Joining True) (?s c' (Serve False) Joining True)"
    using serv_step.request [of "?s c' Selecting Joining True" sock tid False] by simp
  have "(serv_step sock tid)\<^sup>*\<^sup>* (serv_start sock tid) (?s c' (Serve False) Joining True)"
    unfolding 1 using 2 3 4 5 by (meson converse_rtranclp_into_rtranclp rtranclp.rtrancl_refl)
  then show ?thesis by (intro exI [of _ "?s c' (Serve False) Joining True"]) (simp add: serv_step_joining)
qed

end
