(* ===== verification/MoFm.thy ===== *)
theory MoFm
  imports MoNet MoNodes
begin

text \<open>
  The file manager of the file server, \<open>moSdk/Cps/Server/src/fileMgr.c\<close>: it lists the files of four
  subdirectories, hands the list out as an array of structs, and reads the files.

  What the operating system answers is a record of functions: the names that \<open>readdir\<close> gives for a
  directory, the type and size that \<open>stat\<close> gives for a path, whether \<open>mkdir\<close> succeeds, and the
  contents that \<open>fopen\<close> with mode \<open>r+\<close> makes readable. A head node that \<open>malloc\<close> returned has no
  defined \<open>next\<close> field until something is linked to it, and a freed head node stays in the array.
\<close>

abbreviation (input) MOCPS_FILETYPE_MAX :: nat where "MOCPS_FILETYPE_MAX \<equiv> 4"
abbreviation (input) DIRPATH_MAXLEN :: nat where "DIRPATH_MAXLEN \<equiv> 256"
abbreviation (input) FILENAME_MAXLEN :: nat where "FILENAME_MAXLEN \<equiv> 256"
abbreviation (input) FILEPATH_MAXLEN :: nat where "FILEPATH_MAXLEN \<equiv> 512"
abbreviation (input) FM_MEM_INC_SIZE :: nat where "FM_MEM_INC_SIZE \<equiv> 1048576"

definition gSubDirName :: "string list" where
  "gSubDirName = [''Videos'', ''Audios'', ''Pictures'', ''Others'']"

text \<open>\<open>fi_pad\<close> is the padding at the end of the struct; its bytes are what the stack happened to hold.\<close>

record MOCPS_BASIC_FILEINFO =
  fi_size :: int
  fi_filename :: string
  fi_type :: nat
  fi_pad :: "byte list"

record FM_FILEINFO =
  basicInfo :: MOCPS_BASIC_FILEINFO
  fi_fp :: "string option"
  readHdrNum :: int

datatype fm_head = HeadNull | HeadUninit | HeadList "FM_FILEINFO list" | HeadFreed

record FM =
  fl_dirPath :: string
  pFileList :: "fm_head list"
  fileNum :: "nat list"
  sumFileNum :: nat
  fileInfoLen :: nat
  pFileInfo :: "byte list option"
  fm_inited :: bool

record FSYS =
  readdir_names :: "string \<Rightarrow> string list option"
  stat_isdir :: "string \<Rightarrow> bool option"
  stat_isreg :: "string \<Rightarrow> bool option"
  stat_size :: "string \<Rightarrow> int"
  mkdir_ok :: "string \<Rightarrow> bool"
  fopen_content :: "string \<Rightarrow> byte list option"

section \<open>The struct that is handed out\<close>

text \<open>
  The layout on a little-endian 64-bit machine: \<open>long long size\<close>, \<open>char filename[256]\<close>,
  \<open>MOCPS_FILETYPE type\<close> and four bytes of padding. \<open>strncpy\<close> fills the name with zeros.
\<close>

definition le_bytes :: "nat \<Rightarrow> int \<Rightarrow> byte list" where
  "le_bytes n v = map (\<lambda>i. word_of_int (v div 2 ^ (8 * i))) [0..<n]"

definition str_bytes :: "nat \<Rightarrow> string \<Rightarrow> byte list" where
  "str_bytes n s = map of_char (take (n - 1) s) @ replicate (n - length (take (n - 1) s)) 0"

definition fileinfo_bytes :: "MOCPS_BASIC_FILEINFO \<Rightarrow> byte list" where
  "fileinfo_bytes b = le_bytes 8 (fi_size b) @ str_bytes FILENAME_MAXLEN (fi_filename b) @
     le_bytes 4 (int (fi_type b)) @ take 4 (fi_pad b @ [0, 0, 0, 0])"

abbreviation (input) sizeof_BASIC_FILEINFO :: nat where "sizeof_BASIC_FILEINFO \<equiv> 272"

section \<open>Directories\<close>

text \<open>\<open>snprintf\<close> to a path buffer cuts the path; \<open>sprintf\<close> to one must fit.\<close>

definition snpath :: "string \<Rightarrow> string \<Rightarrow> string" where
  "snpath d f = take (FILEPATH_MAXLEN - 1) (d @ ''/'' @ f)"

definition spath :: "string \<Rightarrow> string \<Rightarrow> string option" where
  "spath d f = (if length (d @ ''/'' @ f) < FILEPATH_MAXLEN then Some (d @ ''/'' @ f) else None)"

definition isDir :: "FSYS \<Rightarrow> string \<Rightarrow> string \<Rightarrow> bool" where
  "isDir fs d f = (stat_isdir fs (snpath d f) = Some True)"

definition isRegFile :: "FSYS \<Rightarrow> string \<Rightarrow> string \<Rightarrow> bool" where
  "isRegFile fs d f = (stat_isreg fs (snpath d f) = Some True)"

definition getSubdirPath :: "FM \<Rightarrow> nat \<Rightarrow> (int \<times> string) option" where
  "getSubdirPath fm t =
     (if t \<ge> MOCPS_FILETYPE_MAX then Some (-1, [])
      else map_option (Pair 0) (spath (fl_dirPath fm) (gSubDirName ! t)))"

definition getFileInfo :: "FSYS \<Rightarrow> byte list \<Rightarrow> string \<Rightarrow> string \<Rightarrow> nat \<Rightarrow> (int \<times> FM_FILEINFO option) option" where
  "getFileInfo fs pad d f t = do {
     filepath \<leftarrow> spath d f;
     if stat_isreg fs filepath = None then Some (-2, None)
     else Some (0, Some \<lparr>basicInfo = \<lparr>fi_size = stat_size fs filepath, fi_filename = take (FILENAME_MAXLEN - 1) f,
       fi_type = t, fi_pad = pad\<rparr>, fi_fp = None, readHdrNum = 0\<rparr>)
   }"

text \<open>
  The loop of \<open>getSubDirFilelist\<close> over the directory entries: the nodes linked so far are \<open>acc\<close>. The
  list keeps what was linked when the loop ends early.
\<close>

fun listFiles :: "FSYS \<Rightarrow> byte list \<Rightarrow> bool \<Rightarrow> string \<Rightarrow> nat \<Rightarrow> string list \<Rightarrow> FM_FILEINFO list \<Rightarrow>
    (int \<times> FM_FILEINFO list) option" where
  "listFiles fs pad mallocOk d t [] acc = Some (0, acc)"
| "listFiles fs pad mallocOk d t (f # names) acc =
     (if f = ''.'' \<or> f = ''..'' then listFiles fs pad mallocOk d t names acc
      else if isRegFile fs d f then do {
        (ret, info) \<leftarrow> getFileInfo fs pad d f t;
        case info of
          None \<Rightarrow> Some (-5, acc)
        | Some i \<Rightarrow> if \<not> mallocOk then Some (-6, acc)
            else listFiles fs pad mallocOk d t names (acc @ [i])
      }
      else listFiles fs pad mallocOk d t names acc)"

definition getSubDirFilelist :: "FSYS \<Rightarrow> byte list \<Rightarrow> bool \<Rightarrow> nat \<Rightarrow> FM \<Rightarrow> (int \<times> FM) option" where
  "getSubDirFilelist fs pad mallocOk t fm = do {
     (ret, subdirpath) \<leftarrow> getSubdirPath fm t;
     if ret < 0 then Some (-1, fm)
     else if pFileList fm ! t = HeadNull then Some (-2, fm)
     else case readdir_names fs subdirpath of
       None \<Rightarrow> Some (-4, fm)
     | Some names \<Rightarrow> do {
         (ret, fs') \<leftarrow> listFiles fs pad mallocOk subdirpath t names [];
         Some (ret, if fs' = [] then fm else fm\<lparr>pFileList := (pFileList fm)[t := HeadList fs'],
           fileNum := (fileNum fm)[t := fileNum fm ! t + length fs']\<rparr>)
       }
   }"

text \<open>\<open>createSubDir\<close> stores the head node that it allocates only in a local variable.\<close>

definition createSubDir :: "FSYS \<Rightarrow> bool \<Rightarrow> nat \<Rightarrow> FM \<Rightarrow> (int \<times> FM) option" where
  "createSubDir fs mallocOk t fm = do {
     (ret, subdirpath) \<leftarrow> getSubdirPath fm t;
     if ret < 0 then Some (-1, fm)
     else if \<not> mkdir_ok fs subdirpath then Some (-2, fm)
     else if pFileList fm ! t \<noteq> HeadNull then Some (-4, fm)
     else if \<not> mallocOk then Some (-5, fm)
     else Some (0, fm\<lparr>fileNum := (fileNum fm)[t := 0]\<rparr>)
   }"

text \<open>The loop of \<open>getSubdirExistState\<close>; bit \<open>t\<close> of the state says that subdirectory \<open>t\<close> exists.\<close>

fun existLoop :: "FSYS \<Rightarrow> string \<Rightarrow> string list \<Rightarrow> nat \<Rightarrow> int \<times> nat" where
  "existLoop fs d [] st = (0, st)"
| "existLoop fs d (f # names) st =
     (if f = ''.'' \<or> f = ''..'' then existLoop fs d names st
      else if f = gSubDirName ! 0 then
        (if isDir fs d f then existLoop fs d names (st OR 2 ^ 0) else (-2, st))
      else if f = gSubDirName ! 1 then
        (if isDir fs d f then existLoop fs d names (st OR 2 ^ 1) else (-3, st))
      else if f = gSubDirName ! 2 then
        (if isDir fs d f then existLoop fs d names (st OR 2 ^ 2) else (-4, st))
      else if f = gSubDirName ! 3 then
        (if isDir fs d f then existLoop fs d names (st OR 2 ^ 3) else (-5, st))
      else existLoop fs d names st)"

definition getSubdirExistState :: "FSYS \<Rightarrow> string \<Rightarrow> int \<times> nat" where
  "getSubdirExistState fs d =
     (case readdir_names fs d of None \<Rightarrow> (-1, 0) | Some names \<Rightarrow> existLoop fs d names 0)"

section \<open>The lists\<close>

text \<open>\<open>freeDirfileList\<close> reads \<open>next\<close> of the head node and frees the nodes.\<close>

fun freeHead :: "fm_head \<Rightarrow> fm_head option" where
  "freeHead HeadNull = Some HeadNull"
| "freeHead HeadUninit = None"
| "freeHead (HeadList fs) = Some HeadFreed"
| "freeHead HeadFreed = None"

definition freeDirfileList :: "nat \<Rightarrow> FM \<Rightarrow> FM option" where
  "freeDirfileList t fm = do {
     h \<leftarrow> freeHead (pFileList fm ! t);
     Some (fm\<lparr>pFileList := (pFileList fm)[t := h]\<rparr>)
   }"

definition unInitDirfileList :: "FM \<Rightarrow> FM option" where
  "unInitDirfileList fm = do {
     fm \<leftarrow> foldM freeDirfileList [0..<MOCPS_FILETYPE_MAX] fm;
     Some (fm\<lparr>fileNum := replicate MOCPS_FILETYPE_MAX 0, fl_dirPath := []\<rparr>)
   }"

text \<open>The loop over the subdirectories ends at the first failure.\<close>

fun subdirLoop :: "FSYS \<Rightarrow> byte list \<Rightarrow> bool \<Rightarrow> nat \<Rightarrow> nat list \<Rightarrow> FM \<Rightarrow> (int \<times> FM) option" where
  "subdirLoop fs pad mallocOk st [] fm = Some (0, fm)"
| "subdirLoop fs pad mallocOk st (t # ts) fm = do {
     (ret, fm) \<leftarrow> (if bit st t then getSubDirFilelist fs pad mallocOk t fm else createSubDir fs mallocOk t fm);
     if ret < 0 then Some (ret, fm) else subdirLoop fs pad mallocOk st ts fm
   }"

definition initDirfileList :: "FSYS \<Rightarrow> byte list \<Rightarrow> bool \<Rightarrow> (nat \<Rightarrow> bool) \<Rightarrow> string \<Rightarrow> FM \<Rightarrow> (int \<times> FM) option" where
  "initDirfileList fs pad mallocOk headOk pDirpath fm = (
     let fm = fm\<lparr>fl_dirPath := pDirpath,
           pFileList := map (\<lambda>i. if headOk i then HeadUninit else HeadNull) [0..<MOCPS_FILETYPE_MAX],
           fileNum := replicate MOCPS_FILETYPE_MAX 0\<rparr>;
         (ret, st) = getSubdirExistState fs pDirpath
     in if ret < 0 then do {
          fm \<leftarrow> foldM freeDirfileList [0..<MOCPS_FILETYPE_MAX] fm;
          Some (-1, fm)
        }
        else do {
          (ret, fm) \<leftarrow> subdirLoop fs pad mallocOk st [0..<MOCPS_FILETYPE_MAX] fm;
          if ret \<noteq> 0 then do {
            fm \<leftarrow> unInitDirfileList fm;
            Some (-2, fm)
          }
          else Some (0, fm)
        })"


section \<open>The array of structs\<close>

text \<open>\<open>pCurNode = pCurNode->next\<close>, \<open>i + 1\<close> times from the head node of list \<open>t\<close>.\<close>

definition fileNode :: "FM \<Rightarrow> nat \<Rightarrow> nat \<Rightarrow> FM_FILEINFO option" where
  "fileNode fm t i = (case pFileList fm ! t of HeadList fs \<Rightarrow> rd fs i | _ \<Rightarrow> None)"

definition fillInfos :: "FM \<Rightarrow> nat \<Rightarrow> byte list \<Rightarrow> byte list option" where
  "fillInfos fm t buf = (let startOffset = sum_list (take t (fileNum fm)) * sizeof_BASIC_FILEINFO in
     foldM (\<lambda>i buf. do {
       f \<leftarrow> fileNode fm t i;
       wrn buf (startOffset + i * sizeof_BASIC_FILEINFO) (fileinfo_bytes (basicInfo f))
     }) [0..<fileNum fm ! t] buf)"

text \<open>The sizes are \<open>int\<close>s; a sum that does not fit has no defined result.\<close>

definition initDirfileInfo :: "bool \<Rightarrow> FM \<Rightarrow> (int \<times> FM) option" where
  "initDirfileInfo mallocOk fm = (
     let sumNum = sum_list (fileNum fm); len = sumNum * sizeof_BASIC_FILEINFO;
         curMemSize = len + FM_MEM_INC_SIZE;
         fm = fm\<lparr>sumFileNum := sumNum, fileInfoLen := len, pFileInfo := None\<rparr>
     in if 2 ^ 31 \<le> curMemSize then None
        else if \<not> mallocOk then Some (-2, fm)
        else do {
          buf \<leftarrow> foldM (fillInfos fm) [0..<MOCPS_FILETYPE_MAX] (replicate curMemSize 0);
          Some (0, fm\<lparr>pFileInfo := Some buf\<rparr>)
        })"

definition unInitDirfileInfo :: "FM \<Rightarrow> FM" where
  "unInitDirfileInfo fm = fm\<lparr>pFileInfo := None, fileInfoLen := 0, sumFileNum := 0\<rparr>"

section \<open>The interface\<close>

definition fmInit :: "FSYS \<Rightarrow> byte list \<Rightarrow> bool \<Rightarrow> (nat \<Rightarrow> bool) \<Rightarrow> int \<Rightarrow> string option \<Rightarrow> FM \<Rightarrow> (int \<times> FM) option" where
  "fmInit fs pad mallocOk headOk createRet pDirpath fm =
     (case pDirpath of
        None \<Rightarrow> Some (-1, fm)
      | Some d \<Rightarrow>
          if length d \<ge> DIRPATH_MAXLEN then Some (-2, fm)
          else do {
            (ret, fm) \<leftarrow> initDirfileList fs pad mallocOk headOk d fm;
            if ret < 0 then Some (-2, fm)
            else do {
              (ret, fm) \<leftarrow> initDirfileInfo mallocOk fm;
              if ret < 0 then map_option (Pair (-3)) (unInitDirfileList fm)
              else if createRet < 0 then map_option (Pair (-4)) (unInitDirfileList (unInitDirfileInfo fm))
              else Some (0, fm\<lparr>fm_inited := True\<rparr>)
            }
          })"

definition fmUnInit :: "FM \<Rightarrow> FM option" where
  "fmUnInit fm = do {
     fm \<leftarrow> unInitDirfileList (unInitDirfileInfo fm);
     Some (fm\<lparr>fm_inited := False\<rparr>)
   }"

text \<open>\<open>pLen\<close> is never \<open>NULL\<close> in the server; the second component is what it points to.\<close>

definition fmGetFileinfoLength :: "FM \<Rightarrow> int \<Rightarrow> int \<times> int" where
  "fmGetFileinfoLength fm len = (if \<not> fm_inited fm then (-1, len) else (0, int (fileInfoLen fm)))"

definition fmGetFileinfo :: "FM \<Rightarrow> byte list option \<Rightarrow> int \<Rightarrow> (int \<times> byte list option) option" where
  "fmGetFileinfo fm pBuf len =
     (if \<not> fm_inited fm then Some (-1, pBuf)
      else case pBuf of
        None \<Rightarrow> Some (-2, pBuf)
      | Some buf \<Rightarrow>
          if len \<noteq> int (fileInfoLen fm) then Some (int (fileInfoLen fm), pBuf)
          else do {
            info \<leftarrow> pFileInfo fm;
            bs \<leftarrow> rdn info 0 (fileInfoLen fm);
            buf \<leftarrow> wrn buf 0 bs;
            Some (0, Some buf)
          })"

text \<open>\<open>findFileNode\<close> returns the position of the node; outer \<open>None\<close>: it follows an invalid pointer.\<close>

definition findFileNode :: "FM \<Rightarrow> string option \<Rightarrow> nat \<Rightarrow> FM_FILEINFO option option" where
  "findFileNode fm pFilename t =
     (case pFilename of
        None \<Rightarrow> Some None
      | Some f \<Rightarrow>
          if t \<ge> MOCPS_FILETYPE_MAX then Some None
          else case pFileList fm ! t of
            HeadNull \<Rightarrow> Some None
          | HeadList fs \<Rightarrow> Some (find (\<lambda>i. fi_filename (basicInfo i) = f) fs)
          | _ \<Rightarrow> None)"

definition setFileNode :: "string \<Rightarrow> nat \<Rightarrow> (FM_FILEINFO \<Rightarrow> FM_FILEINFO) \<Rightarrow> FM \<Rightarrow> FM" where
  "setFileNode f t g fm = (case pFileList fm ! t of
     HeadList fs \<Rightarrow> fm\<lparr>pFileList := (pFileList fm)[t := HeadList (upd_first (\<lambda>i. fi_filename (basicInfo i) = f) g fs)]\<rparr>
   | _ \<Rightarrow> fm)"

definition openFile :: "FSYS \<Rightarrow> FM \<Rightarrow> FM_FILEINFO \<Rightarrow> (int \<times> FM_FILEINFO) option" where
  "openFile fs fm i =
     (if fi_fp i \<noteq> None \<or> readHdrNum i \<noteq> 0 then Some (-2, i)
      else do {
        d \<leftarrow> spath (fl_dirPath fm) (gSubDirName ! fi_type (basicInfo i));
        filepath \<leftarrow> spath d (fi_filename (basicInfo i));
        if fopen_content fs filepath = None then Some (-3, i)
        else Some (0, i\<lparr>fi_fp := Some filepath, readHdrNum := 1\<rparr>)
      })"

text \<open>\<open>fread\<close> of \<open>length\<close> bytes; a negative \<open>length\<close> is a huge \<open>size_t\<close>.\<close>

definition readFile :: "FSYS \<Rightarrow> FM_FILEINFO \<Rightarrow> int \<Rightarrow> int \<Rightarrow> byte list \<Rightarrow> (int \<times> byte list) option" where
  "readFile fs i offset len buf =
     (case fi_fp i of
        None \<Rightarrow> Some (-1, buf)
      | Some p \<Rightarrow>
          if offset < 0 then Some (-2, buf)
          else let rest = drop (nat offset) (the (fopen_content fs p));
                   got = (if len < 0 then rest else take (nat len) rest)
            in do {
              buf \<leftarrow> wrn buf 0 got;
              if int (length got) \<noteq> len then Some (-3, buf) else Some (0, buf)
            })"

definition fmReadFile ::
    "FSYS \<Rightarrow> MOCPS_BASIC_FILEINFO \<Rightarrow> int \<Rightarrow> int \<Rightarrow> byte list option \<Rightarrow> FM \<Rightarrow> (int \<times> byte list option \<times> FM) option" where
  "fmReadFile fs fileInfo offset len pBuf fm =
     (case pBuf of
        None \<Rightarrow> Some (-1, None, fm)
      | Some buf \<Rightarrow>
          if \<not> in_int32 (offset + len) then None
          else if offset + len > fi_size fileInfo then Some (-2, pBuf, fm)
          else if fi_type fileInfo \<ge> MOCPS_FILETYPE_MAX then Some (-3, pBuf, fm)
          else do {
            pNode \<leftarrow> findFileNode fm (Some (fi_filename fileInfo)) (fi_type fileInfo);
            case pNode of
              None \<Rightarrow> Some (-4, pBuf, fm)
            | Some i \<Rightarrow> do {
                (ret, i) \<leftarrow> (if fi_fp i = None then openFile fs fm i else Some (0, i));
                if ret < 0 then Some (-5, pBuf, fm)
                else do {
                  (ret, buf) \<leftarrow> readFile fs i offset len buf;
                  Some (if ret < 0 then -6 else 0, Some buf,
                    setFileNode (fi_filename fileInfo) (fi_type fileInfo) (\<lambda>_. i) fm)
                }
              }
          })"

definition fmStopReadFile :: "MOCPS_BASIC_FILEINFO \<Rightarrow> FM \<Rightarrow> (int \<times> FM) option" where
  "fmStopReadFile fileInfo fm =
     (if fi_type fileInfo \<ge> MOCPS_FILETYPE_MAX then Some (-2, fm)
      else do {
        pNode \<leftarrow> findFileNode fm (Some (fi_filename fileInfo)) (fi_type fileInfo);
        case pNode of
          None \<Rightarrow> Some (-3, fm)
        | Some i \<Rightarrow>
            if readHdrNum i \<le> 0 then Some (-4, fm)
            else let n = readHdrNum i - 1 in
              Some (0, setFileNode (fi_filename fileInfo) (fi_type fileInfo)
                (\<lambda>i. if n = 0 then i\<lparr>readHdrNum := n, fi_fp := None\<rparr> else i\<lparr>readHdrNum := n\<rparr>) fm)
      })"


section \<open>Listing a directory\<close>

definition subdir :: "string \<Rightarrow> nat \<Rightarrow> string" where
  "subdir d t = d @ ''/'' @ gSubDirName ! t"

text \<open>The regular files of a subdirectory, in the order of the directory.\<close>

definition dir_files :: "FSYS \<Rightarrow> byte list \<Rightarrow> string \<Rightarrow> nat \<Rightarrow> FM_FILEINFO list" where
  "dir_files fs pad d t = map (\<lambda>f. \<lparr>basicInfo = \<lparr>fi_size = stat_size fs (subdir d t @ ''/'' @ f), fi_filename = f,
      fi_type = t, fi_pad = pad\<rparr>, fi_fp = None, readHdrNum = 0\<rparr>)
     (filter (\<lambda>f. f \<noteq> ''.'' \<and> f \<noteq> ''..'' \<and> stat_isreg fs (subdir d t @ ''/'' @ f) = Some True)
       (the (readdir_names fs (subdir d t))))"

text \<open>A served directory: the four subdirectories can be listed, and the paths fit their buffers.\<close>

definition served_dir :: "FSYS \<Rightarrow> string \<Rightarrow> bool" where
  "served_dir fs d \<longleftrightarrow> length d < DIRPATH_MAXLEN \<and>
     (case readdir_names fs d of None \<Rightarrow> False | Some names \<Rightarrow> set gSubDirName \<subseteq> set names) \<and>
     (\<forall>t<4. isDir fs d (gSubDirName ! t) \<and>
       (case readdir_names fs (subdir d t) of None \<Rightarrow> False
        | Some names \<Rightarrow> \<forall>f \<in> set names. length f < FILENAME_MAXLEN \<and> length (subdir d t @ ''/'' @ f) < FILEPATH_MAXLEN))"

lemma gSubDirName_facts [simp]:
  "length gSubDirName = 4" "t < 4 \<Longrightarrow> length (gSubDirName ! t) \<le> 8"
  by (auto simp: gSubDirName_def nth_Cons' split: if_splits)

lemma getSubdirPath_ok:
  assumes "length (fl_dirPath fm) < DIRPATH_MAXLEN" and "t < 4"
  shows "getSubdirPath fm t = Some (0, subdir (fl_dirPath fm) t)"
proof -
  have "length (gSubDirName ! t) \<le> 8" using assms(2) by simp
  then show ?thesis using assms by (simp add: getSubdirPath_def spath_def subdir_def del: gSubDirName_facts)
qed

lemma listFiles_ok:
  assumes "\<And>f. f \<in> set names \<Longrightarrow> length f < FILENAME_MAXLEN \<and> length (sd @ ''/'' @ f) < FILEPATH_MAXLEN"
  shows "listFiles fs pad True sd t names acc = Some (0, acc @ map (\<lambda>f. \<lparr>basicInfo = \<lparr>fi_size = stat_size fs (sd @ ''/'' @ f),
      fi_filename = f, fi_type = t, fi_pad = pad\<rparr>, fi_fp = None, readHdrNum = 0\<rparr>)
     (filter (\<lambda>f. f \<noteq> ''.'' \<and> f \<noteq> ''..'' \<and> stat_isreg fs (sd @ ''/'' @ f) = Some True) names))"
  using assms
proof (induction names arbitrary: acc)
  case (Cons f names)
  have "length f < FILENAME_MAXLEN" "length (sd @ ''/'' @ f) < FILEPATH_MAXLEN" using Cons.prems [of f] by auto
  then have "isRegFile fs sd f \<longleftrightarrow> stat_isreg fs (sd @ ''/'' @ f) = Some True"
    and "stat_isreg fs (sd @ ''/'' @ f) = Some True \<Longrightarrow> getFileInfo fs pad sd f t =
      Some (0, Some \<lparr>basicInfo = \<lparr>fi_size = stat_size fs (sd @ ''/'' @ f), fi_filename = f,
        fi_type = t, fi_pad = pad\<rparr>, fi_fp = None, readHdrNum = 0\<rparr>)"
    by (simp_all add: isRegFile_def snpath_def getFileInfo_def spath_def)
  then show ?case using Cons by simp
qed simp

text \<open>What \<open>getSubDirFilelist\<close> does to the state.\<close>

definition putFiles :: "FSYS \<Rightarrow> byte list \<Rightarrow> nat \<Rightarrow> FM \<Rightarrow> FM" where
  "putFiles fs pad t fm = (let xs = dir_files fs pad (fl_dirPath fm) t in
     if xs = [] then fm else fm\<lparr>pFileList := (pFileList fm)[t := HeadList xs],
       fileNum := (fileNum fm)[t := fileNum fm ! t + length xs]\<rparr>)"

lemma getSubDirFilelist_ok:
  assumes "served_dir fs (fl_dirPath fm)" and "t < 4" and "pFileList fm ! t \<noteq> HeadNull"
  shows "getSubDirFilelist fs pad True t fm = Some (0, putFiles fs pad t fm)"
proof -
  obtain names where n: "readdir_names fs (subdir (fl_dirPath fm) t) = Some names"
    "\<forall>f \<in> set names. length f < FILENAME_MAXLEN \<and> length (subdir (fl_dirPath fm) t @ ''/'' @ f) < FILEPATH_MAXLEN"
    using assms(1,2) by (auto simp: served_dir_def split: option.splits)
  have "length (fl_dirPath fm) < DIRPATH_MAXLEN" using assms(1) by (simp add: served_dir_def)
  then show ?thesis using n assms(2,3) listFiles_ok [of names "subdir (fl_dirPath fm) t" fs pad t "[]"]
    by (simp add: getSubDirFilelist_def getSubdirPath_ok putFiles_def dir_files_def Let_def)
qed

lemma existLoop_dir:
  assumes "k < 4" and "isDir fs d (gSubDirName ! k)"
  shows "existLoop fs d (gSubDirName ! k # names) st = existLoop fs d names (st OR 2 ^ k)"
proof -
  from assms(1) have "k = 0 \<or> k = 1 \<or> k = 2 \<or> k = 3" by auto
  then show ?thesis using assms(2) by (elim disjE) (simp_all add: gSubDirName_def)
qed

lemma existLoop_other: "f \<notin> set gSubDirName \<Longrightarrow> existLoop fs d (f # names) st = existLoop fs d names st"
  by (simp add: gSubDirName_def)

lemma distinct_gSubDirName: "distinct gSubDirName"
  by (simp add: gSubDirName_def)

lemma existLoop_ok:
  assumes "\<And>t. t < 4 \<Longrightarrow> isDir fs d (gSubDirName ! t)"
  shows "fst (existLoop fs d names st) = 0 \<and>
    (\<forall>t<4. bit (snd (existLoop fs d names st)) t \<longleftrightarrow> bit st t \<or> gSubDirName ! t \<in> set names)"
proof (induction names arbitrary: st)
  case (Cons f names)
  show ?case
  proof (cases "f \<in> set gSubDirName")
    case True
    then obtain k where k: "k < 4" "f = gSubDirName ! k" by (auto simp: in_set_conv_nth)
    have same: "t < 4 \<Longrightarrow> gSubDirName ! t = gSubDirName ! k \<longleftrightarrow> t = k" for t
      using k(1) distinct_gSubDirName by (simp add: nth_eq_iff_index_eq)
    have bits: "bit (st OR 2 ^ k) t \<longleftrightarrow> bit st t \<or> t = k" for t
      by (simp add: bit_or_iff bit_exp_iff possible_bit_def)
    show ?thesis unfolding k(2) existLoop_dir [OF k(1) assms [OF k(1)]] using Cons.IH [of "st OR 2 ^ k"]
      by (auto simp: bits same)
  next
    case False
    then have "t < 4 \<Longrightarrow> gSubDirName ! t \<noteq> f" for t by (metis gSubDirName_facts(1) nth_mem)
    then show ?thesis unfolding existLoop_other [OF False] using Cons.IH [of st] by auto
  qed
qed simp

lemma putFiles_simps:
  assumes "length (pFileList fm) = 4" and "length (fileNum fm) = 4" and "t < 4"
  shows "fl_dirPath (putFiles fs pad t fm) = fl_dirPath fm" and "length (pFileList (putFiles fs pad t fm)) = 4"
    and "length (fileNum (putFiles fs pad t fm)) = 4" and "fm_inited (putFiles fs pad t fm) = fm_inited fm"
    and "u \<noteq> t \<Longrightarrow> pFileList (putFiles fs pad t fm) ! u = pFileList fm ! u"
    and "u \<noteq> t \<Longrightarrow> fileNum (putFiles fs pad t fm) ! u = fileNum fm ! u"
    and "pFileList (putFiles fs pad t fm) ! t =
      (let xs = dir_files fs pad (fl_dirPath fm) t in if xs = [] then pFileList fm ! t else HeadList xs)"
    and "fileNum (putFiles fs pad t fm) ! t = fileNum fm ! t + length (dir_files fs pad (fl_dirPath fm) t)"
  using assms by (auto simp: putFiles_def Let_def)

text \<open>The state after the first \<open>n\<close> subdirectories.\<close>

definition listed :: "FSYS \<Rightarrow> byte list \<Rightarrow> string \<Rightarrow> nat \<Rightarrow> FM \<Rightarrow> bool" where
  "listed fs pad d n fm \<longleftrightarrow> fl_dirPath fm = d \<and> length (pFileList fm) = 4 \<and> length (fileNum fm) = 4 \<and>
     (\<forall>t<4. let xs = dir_files fs pad d t in
        pFileList fm ! t = (if t < n \<and> xs \<noteq> [] then HeadList xs else HeadUninit) \<and>
        fileNum fm ! t = (if t < n then length xs else 0))"

lemma listed_Suc:
  assumes "listed fs pad d n fm" and "n < 4"
  shows "listed fs pad d (Suc n) (putFiles fs pad n fm)"
proof -
  have l: "length (pFileList fm) = 4" "length (fileNum fm) = 4" "fl_dirPath fm = d"
    using assms(1) by (simp_all add: listed_def)
  show ?thesis using assms
    unfolding listed_def putFiles_simps(1-4) [OF l(1,2) assms(2)]
    by (auto simp: Let_def less_Suc_eq putFiles_simps [OF l(1,2)])
qed

lemma subdirLoop_ok:
  assumes "listed fs pad d n fm" and "served_dir fs d" and "\<And>t. t < 4 \<Longrightarrow> bit st t" and "n \<le> 4"
  shows "\<exists>fm'. subdirLoop fs pad True st [n..<4] fm = Some (0, fm') \<and> listed fs pad d 4 fm'"
  using assms(1,4)
proof (induction "4 - n" arbitrary: n fm)
  case 0
  then show ?case by simp
next
  case (Suc k)
  then have n: "n < 4" by simp
  have "getSubDirFilelist fs pad True n fm = Some (0, putFiles fs pad n fm)"
    using Suc.prems(1) assms(2) n by (intro getSubDirFilelist_ok) (auto simp: listed_def Let_def)
  moreover have "\<exists>fm'. subdirLoop fs pad True st [Suc n..<4] (putFiles fs pad n fm) = Some (0, fm') \<and> listed fs pad d 4 fm'"
    using Suc.hyps listed_Suc [OF Suc.prems(1) n] n by simp
  ultimately show ?case using assms(3) [OF n] n by (auto simp: upt_conv_Cons)
qed


lemma length_concat_equal:
  "(\<And>i. i < n \<Longrightarrow> length (f i) = m) \<Longrightarrow> length (concat (map f [0..<n])) = n * m"
  by (induction n) simp_all

lemma wrn_mid: "length ys = length zs \<Longrightarrow> off = length xs \<Longrightarrow> wrn (xs @ ys @ ws) off zs = Some (xs @ zs @ ws)"
  by (simp add: wrn_def)

lemma foldM_wrn_blocks:
  assumes "\<And>i. i < n \<Longrightarrow> g i = Some (v i)" and "\<And>i. i < n \<Longrightarrow> length (h (v i)) = m"
    and "off = length pre" and "n * m \<le> length z"
  shows "foldM (\<lambda>i buf. do { f \<leftarrow> g i; wrn buf (off + i * m) (h f) }) [0..<n] (pre @ z) =
    Some (pre @ concat (map (\<lambda>i. h (v i)) [0..<n]) @ drop (n * m) z)"
  using assms(1,2,4)
proof (induction n)
  case 0
  then show ?case by simp
next
  case (Suc n)
  let ?c = "concat (map (\<lambda>i. h (v i)) [0..<n])"
  have len: "length ?c = n * m" using Suc.prems(2) by (intro length_concat_equal) simp
  have z: "drop (n * m) z = take m (drop (n * m) z) @ drop (Suc n * m) z"
    by (metis add.commute append_take_drop_id drop_drop mult_Suc)
  have "wrn (pre @ ?c @ drop (n * m) z) (off + n * m) (h (v n)) = Some (pre @ ?c @ h (v n) @ drop (Suc n * m) z)"
    using wrn_mid [of "take m (drop (n * m) z)" "h (v n)" "off + n * m" "pre @ ?c" "drop (Suc n * m) z"]
      len Suc.prems(2,3) assms(3) by (subst z) simp
  then show ?case using Suc by simp
qed

lemma length_fileinfo_bytes [simp]: "length (fileinfo_bytes b) = 272"
proof -
  have "length (take 4 (xs @ [0, 0, 0, 0 :: byte])) = 4" for xs by (simp only: length_take length_append) simp
  moreover have "length (str_bytes 256 f) = 256" for f by (simp add: str_bytes_def)
  ultimately show ?thesis by (simp only: fileinfo_bytes_def length_append) (simp add: le_bytes_def)
qed

text \<open>The structs of the files of the first \<open>n\<close> subdirectories.\<close>

definition info_bytes :: "FSYS \<Rightarrow> byte list \<Rightarrow> string \<Rightarrow> nat \<Rightarrow> byte list" where
  "info_bytes fs pad d n = concat (map (\<lambda>t. concat (map (\<lambda>i. fileinfo_bytes (basicInfo i)) (dir_files fs pad d t))) [0..<n])"

definition num_files :: "FSYS \<Rightarrow> byte list \<Rightarrow> string \<Rightarrow> nat \<Rightarrow> nat" where
  "num_files fs pad d n = sum_list (map (\<lambda>t. length (dir_files fs pad d t)) [0..<n])"

lemma info_bytes_simps [simp]:
  "info_bytes fs pad d 0 = []"
  "info_bytes fs pad d (Suc n) =
     info_bytes fs pad d n @ concat (map (\<lambda>i. fileinfo_bytes (basicInfo i)) (dir_files fs pad d n))"
  "num_files fs pad d 0 = 0"
  "num_files fs pad d (Suc n) = num_files fs pad d n + length (dir_files fs pad d n)"
  by (simp_all add: info_bytes_def num_files_def)

lemma length_info_bytes: "length (info_bytes fs pad d n) = num_files fs pad d n * 272"
  by (induction n) (simp_all add: length_concat o_def sum_list_triv algebra_simps)

lemma num_files_mono: "m \<le> n \<Longrightarrow> num_files fs pad d m \<le> num_files fs pad d n"
  by (induction n) (auto simp: le_Suc_eq)

lemma listed_sum:
  assumes "listed fs pad d 4 fm" and "n \<le> 4"
  shows "sum_list (take n (fileNum fm)) = num_files fs pad d n"
  using assms(2)
proof (induction n)
  case (Suc n)
  then show ?case using assms(1) by (simp add: listed_def Let_def take_Suc_conv_app_nth)
qed simp

lemma fillInfos_ok:
  assumes "listed fs pad d 4 fm" and "t < 4" and "num_files fs pad d 4 * 272 \<le> k"
  shows "fillInfos fm t (info_bytes fs pad d t @ replicate (k - num_files fs pad d t * 272) 0) =
    Some (info_bytes fs pad d (Suc t) @ replicate (k - num_files fs pad d (Suc t) * 272) 0)"
proof -
  let ?xs = "dir_files fs pad d t"
  have n: "fileNum fm ! t = length ?xs" using assms(1,2) by (simp add: listed_def Let_def)
  have g: "fileNode fm t i = Some (?xs ! i)" if "i < length ?xs" for i
    using assms(1,2) that by (auto simp: listed_def Let_def fileNode_def)
  have le: "num_files fs pad d (Suc t) * 272 \<le> k"
    using num_files_mono [of "Suc t" 4 fs pad d] assms(2,3) by simp
  have "fillInfos fm t (info_bytes fs pad d t @ replicate (k - num_files fs pad d t * 272) 0) =
    Some (info_bytes fs pad d t @ concat (map (\<lambda>i. fileinfo_bytes (basicInfo (?xs ! i))) [0..<length ?xs]) @
      drop (length ?xs * 272) (replicate (k - num_files fs pad d t * 272) 0))"
    unfolding fillInfos_def Let_def n
    by (rule foldM_wrn_blocks [where h = "\<lambda>i. fileinfo_bytes (basicInfo i)" and v = "\<lambda>i. ?xs ! i"])
      (use g le in \<open>simp_all add: listed_sum [OF assms(1)] length_info_bytes less_imp_le [OF assms(2)] algebra_simps\<close>)
  moreover have "map (\<lambda>i. fileinfo_bytes (basicInfo (?xs ! i))) [0..<length ?xs] = map (\<lambda>i. fileinfo_bytes (basicInfo i)) ?xs"
    by (rule nth_equalityI) simp_all
  ultimately show ?thesis by (simp add: algebra_simps)
qed

lemma initDirfileInfo_ok:
  assumes "listed fs pad d 4 fm" and "num_files fs pad d 4 * 272 + FM_MEM_INC_SIZE < 2 ^ 31"
  shows "initDirfileInfo True fm = Some (0, fm\<lparr>sumFileNum := num_files fs pad d 4,
    fileInfoLen := num_files fs pad d 4 * 272,
    pFileInfo := Some (info_bytes fs pad d 4 @ replicate FM_MEM_INC_SIZE 0)\<rparr>)"
proof -
  let ?k = "num_files fs pad d 4 * 272 + FM_MEM_INC_SIZE"
  have sum: "sum_list (fileNum fm) = num_files fs pad d 4"
    using listed_sum [OF assms(1), of 4] assms(1) by (simp add: listed_def)
  define fm' where "fm' = fm\<lparr>sumFileNum := num_files fs pad d 4, fileInfoLen := num_files fs pad d 4 * 272, pFileInfo := None\<rparr>"
  have l: "listed fs pad d 4 fm'" using assms(1) by (simp add: listed_def fm'_def)
  have "foldM (fillInfos fm') [0..<n] (replicate ?k 0) =
      Some (info_bytes fs pad d n @ replicate (?k - num_files fs pad d n * 272) 0)" if "n \<le> 4" for n
    using that
  proof (induction n)
    case (Suc n)
    then show ?case using fillInfos_ok [OF l, of n ?k] by simp
  qed simp
  from this [of 4] show ?thesis using assms(2)
    by (simp add: initDirfileInfo_def sum Let_def fm'_def)
qed


lemma initDirfileList_ok:
  assumes "served_dir fs d"
  shows "\<exists>fm'. initDirfileList fs pad True (\<lambda>_. True) d fm = Some (0, fm') \<and> listed fs pad d 4 fm'"
proof -
  obtain names where n: "readdir_names fs d = Some names" "set gSubDirName \<subseteq> set names"
    using assms by (auto simp: served_dir_def split: option.splits)
  have dirs: "\<And>t. t < 4 \<Longrightarrow> isDir fs d (gSubDirName ! t)" using assms by (simp add: served_dir_def)
  have "gSubDirName ! t \<in> set names" if "t < 4" for t using n(2) that by (auto simp: subset_iff)
  then have st: "getSubdirExistState fs d = (0, snd (existLoop fs d names 0))"
    "\<And>t. t < 4 \<Longrightarrow> bit (snd (existLoop fs d names 0)) t"
    using existLoop_ok [OF dirs, of names 0] n(1) by (auto simp: getSubdirExistState_def prod_eq_iff)
  let ?fm = "fm\<lparr>fl_dirPath := d, pFileList := map (\<lambda>i. if True then HeadUninit else HeadNull) [0..<4], fileNum := replicate 4 0\<rparr>"
  have "listed fs pad d 0 ?fm" by (simp add: listed_def Let_def del: upt_Suc)
  from subdirLoop_ok [OF this assms st(2)] show ?thesis
    by (auto simp: initDirfileList_def st(1) Let_def)
qed

lemma fmInit_ok:
  assumes "served_dir fs d" and "num_files fs pad d 4 * sizeof_BASIC_FILEINFO + FM_MEM_INC_SIZE < 2 ^ 31" and "0 \<le> createRet"
  obtains fm' where "fmInit fs pad True (\<lambda>_. True) createRet (Some d) fm = Some (0, fm')" and "listed fs pad d 4 fm'"
    and "fm_inited fm'" and "fileInfoLen fm' = num_files fs pad d 4 * 272"
    and "pFileInfo fm' = Some (info_bytes fs pad d 4 @ replicate FM_MEM_INC_SIZE 0)"
proof -
  obtain fm1 where fm1: "initDirfileList fs pad True (\<lambda>_. True) d fm = Some (0, fm1)" "listed fs pad d 4 fm1"
    using initDirfileList_ok [OF assms(1)] by blast
  have "length d < DIRPATH_MAXLEN" using assms(1) by (simp add: served_dir_def)
  with fm1 initDirfileInfo_ok [OF fm1(2) assms(2)] assms(3) show ?thesis
    by (intro that [of "fm1\<lparr>sumFileNum := num_files fs pad d 4, fileInfoLen := num_files fs pad d 4 * 272,
        pFileInfo := Some (info_bytes fs pad d 4 @ replicate FM_MEM_INC_SIZE 0), fm_inited := True\<rparr>"])
      (simp_all add: fmInit_def listed_def)
qed

text \<open>
  C18. A served directory is listed completely: \<open>fmInit\<close> succeeds, and the two calls of the interface
  hand out exactly the structs of the regular files of the four subdirectories, in their order.
\<close>

theorem fmInit_lists:
  assumes "served_dir fs d" and "num_files fs pad d 4 * sizeof_BASIC_FILEINFO + FM_MEM_INC_SIZE < 2 ^ 31"
    and "0 \<le> createRet" and "length buf = num_files fs pad d 4 * sizeof_BASIC_FILEINFO"
  shows "\<exists>fm'. fmInit fs pad True (\<lambda>_. True) createRet (Some d) fm = Some (0, fm') \<and>
    fmGetFileinfoLength fm' l = (0, int (length buf)) \<and>
    fmGetFileinfo fm' (Some buf) (int (length buf)) = Some (0, Some (info_bytes fs pad d 4))"
proof -
  obtain fm' where "fmInit fs pad True (\<lambda>_. True) createRet (Some d) fm = Some (0, fm')"
    "fm_inited fm'" "fileInfoLen fm' = num_files fs pad d 4 * 272"
    "pFileInfo fm' = Some (info_bytes fs pad d 4 @ replicate FM_MEM_INC_SIZE 0)"
    using fmInit_ok [OF assms(1-3)] by metis
  with assms(4) show ?thesis by (simp add: fmGetFileinfoLength_def fmGetFileinfo_def length_info_bytes)
qed

section \<open>Reading a file\<close>

text \<open>
  A listed file can be read: for a range inside the file, \<open>fmReadFile\<close> opens the file and returns
  exactly that range, memory-safely.
\<close>

theorem fmReadFile_reads:
  assumes "served_dir fs d" and "num_files fs pad d 4 * sizeof_BASIC_FILEINFO + FM_MEM_INC_SIZE < 2 ^ 31"
    and "0 \<le> createRet" and "t < 4" and "i \<in> set (dir_files fs pad d t)"
    and "fopen_content fs (subdir d t @ ''/'' @ fi_filename (basicInfo i)) = Some c"
    and "fi_size (basicInfo i) = int (length c)" and "off + n \<le> length c" and "off + n < 2 ^ 31" and "n \<le> length buf"
  shows "\<exists>fm1 fm2. fmInit fs pad True (\<lambda>_. True) createRet (Some d) fm = Some (0, fm1) \<and>
    fmReadFile fs (basicInfo i) (int off) (int n) (Some buf) fm1 =
      Some (0, Some (take n (drop off c) @ drop n buf), fm2)"
proof -
  obtain fm1 where fm1: "fmInit fs pad True (\<lambda>_. True) createRet (Some d) fm = Some (0, fm1)" "listed fs pad d 4 fm1"
    using fmInit_ok [OF assms(1-3)] by metis
  let ?f = "fi_filename (basicInfo i)"
  let ?P = "\<lambda>j. fi_filename (basicInfo j) = ?f"
  have i: "fi_type (basicInfo i) = t" "length (subdir d t @ ''/'' @ ?f) < FILEPATH_MAXLEN"
    using assms(1,4,5) by (auto simp: dir_files_def served_dir_def split: option.splits)
  have h: "pFileList fm1 ! t = HeadList (dir_files fs pad d t)" and dp: "fl_dirPath fm1 = d"
    using fm1(2) assms(4,5) by (auto simp: listed_def Let_def)
  obtain j where j: "find ?P (dir_files fs pad d t) = Some j"
    using assms(5) by (cases "find ?P (dir_files fs pad d t)") (auto simp: find_None_iff)
  then have "j \<in> set (dir_files fs pad d t)" "fi_filename (basicInfo j) = ?f" by (auto simp: find_Some_iff)
  then have j': "fi_type (basicInfo j) = t" "fi_fp j = None" "readHdrNum j = 0" "fi_filename (basicInfo j) = ?f"
    by (auto simp: dir_files_def)
  have "spath d (gSubDirName ! t) = Some (subdir d t)"
    using i(2) by (simp add: spath_def subdir_def)
  then have opened: "openFile fs fm1 j = Some (0, j\<lparr>fi_fp := Some (subdir d t @ ''/'' @ ?f), readHdrNum := 1\<rparr>)"
    using i(2) assms(6) j' by (simp add: openFile_def dp spath_def)
  have "readFile fs (j\<lparr>fi_fp := Some (subdir d t @ ''/'' @ ?f), readHdrNum := 1\<rparr>) (int off) (int n) buf =
      Some (0, take n (drop off c) @ drop n buf)"
    using assms(6,8,10) by (simp add: readFile_def Let_def)
  then show ?thesis using fm1(1) opened j h assms(4,7-9) i(1) j'
    by (simp add: fmReadFile_def findFileNode_def in_int32_def)
qed


section \<open>A missing subdirectory\<close>

lemma freeDirfileList_uninit:
  assumes "pFileList fm ! t = HeadUninit" and "t \<in> set ts" and "length (pFileList fm) = 4"
  shows "foldM freeDirfileList ts fm = None"
  using assms
proof (induction ts arbitrary: fm)
  case (Cons u ts)
  show ?case
  proof (cases "u = t")
    case True
    then show ?thesis using Cons.prems(1) by (simp add: freeDirfileList_def)
  next
    case False
    then show ?thesis using Cons by (cases "freeHead (pFileList fm ! u)") (auto simp: freeDirfileList_def)
  qed
qed simp

lemma getSubDirFilelist_others:
  assumes "getSubDirFilelist fs pad mallocOk u fm = Some (r, fm')" and "t \<noteq> u"
  shows "pFileList fm' ! t = pFileList fm ! t" and "length (pFileList fm') = length (pFileList fm)"
  using assms by (auto simp: getSubDirFilelist_def split: bind_splits if_splits option.splits)

text \<open>A missing subdirectory ends the loop with an error, its head node still without a \<open>next\<close> field.\<close>

lemma subdirLoop_missing:
  assumes "t \<in> set ts" and "\<not> bit st t" and "pFileList fm ! t = HeadUninit" and "length (pFileList fm) = 4"
    and "subdirLoop fs pad mallocOk st ts fm = Some (r, fm')"
  shows "r < 0 \<and> pFileList fm' ! t = HeadUninit \<and> length (pFileList fm') = 4"
  using assms
proof (induction ts arbitrary: fm)
  case (Cons u ts)
  show ?case
  proof (cases "bit st u")
    case True
    then obtain r1 fm1 where s: "getSubDirFilelist fs pad mallocOk u fm = Some (r1, fm1)"
      and l: "if r1 < 0 then (r1, fm1) = (r, fm') else subdirLoop fs pad mallocOk st ts fm1 = Some (r, fm')"
      using Cons.prems(5) by (auto split: bind_splits if_splits)
    have "t \<noteq> u" using True Cons.prems(2) by auto
    note o = getSubDirFilelist_others [OF s this]
    show ?thesis using Cons.IH [of fm1] Cons.prems(1-4) l o \<open>t \<noteq> u\<close> by (auto split: if_splits)
  next
    case False
    then show ?thesis using Cons.prems Cons.IH [of "fm\<lparr>fileNum := (fileNum fm)[u := 0]\<rparr>"]
      by (auto simp: createSubDir_def split: bind_splits if_splits)
  qed
qed simp

text \<open>
  When one of the four subdirectories does not exist, \<open>fmInit\<close> does not create it and go on:
  \<open>createSubDir\<close> refuses because the head node of the list is already there, and the cleanup follows
  the \<open>next\<close> field of that node, which was never set. The call has no defined result.
\<close>

theorem fmInit_missing_subdir:
  assumes "length d < DIRPATH_MAXLEN" and "readdir_names fs d = Some names" and "\<And>t. t < 4 \<Longrightarrow> isDir fs d (gSubDirName ! t)"
    and "t < 4" and "gSubDirName ! t \<notin> set names"
  shows "fmInit fs pad mallocOk (\<lambda>_. True) createRet (Some d) fm = None"
proof -
  let ?st = "snd (existLoop fs d names 0)"
  let ?fm = "fm\<lparr>fl_dirPath := d, pFileList := map (\<lambda>i. HeadUninit) [0..<4], fileNum := replicate 4 0\<rparr>"
  have st: "getSubdirExistState fs d = (0, ?st)" "\<not> bit ?st t"
    using existLoop_ok [OF assms(3), of names 0] assms(2,4,5) by (auto simp: getSubdirExistState_def prod_eq_iff)
  have "initDirfileList fs pad mallocOk (\<lambda>_. True) d fm = None"
  proof (cases "subdirLoop fs pad mallocOk ?st [0..<4] ?fm")
    case None
    then show ?thesis by (simp add: initDirfileList_def st(1) del: upt_Suc)
  next
    case (Some x)
    obtain r fm' where x: "x = (r, fm')" by (cases x)
    have "r < 0 \<and> pFileList fm' ! t = HeadUninit \<and> length (pFileList fm') = 4"
      by (rule subdirLoop_missing [OF _ st(2) _ _ Some [unfolded x]]) (use assms(4) in \<open>simp_all del: upt_Suc\<close>)
    then show ?thesis using Some x freeDirfileList_uninit [of fm' t "[0..<4]"] assms(4)
      by (simp add: initDirfileList_def st(1) unInitDirfileList_def del: upt_Suc)
  qed
  then show ?thesis using assms(1) by (simp add: fmInit_def)
qed

text \<open>The same field is followed when the module is stopped and a subdirectory had no regular file.\<close>

lemma fmUnInit_empty_subdir:
  assumes "listed fs pad d 4 fm" and "t < 4" and "dir_files fs pad d t = []"
  shows "fmUnInit fm = None"
proof -
  have "pFileList fm ! t = HeadUninit" "length (pFileList fm) = 4"
    using assms by (auto simp: listed_def Let_def)
  then show ?thesis using freeDirfileList_uninit [of "unInitDirfileInfo fm" t "[0..<4]"] assms(2)
    by (simp add: fmUnInit_def unInitDirfileList_def unInitDirfileInfo_def del: upt_Suc)
qed

section \<open>Witnesses\<close>

definition sample_fs :: "string list \<Rightarrow> FSYS" where
  "sample_fs dirs = \<lparr>readdir_names = (\<lambda>p. if p = ''d'' then Some dirs else if p = ''d/Videos'' then Some [''.'', ''a''] else Some []),
     stat_isdir = (\<lambda>_. Some True), stat_isreg = (\<lambda>p. Some (p = ''d/Videos/a'')), stat_size = (\<lambda>_. 3),
     mkdir_ok = (\<lambda>_. True), fopen_content = (\<lambda>_. Some [7, 8, 9])\<rparr>"

abbreviation FM_initial :: FM where
  "FM_initial \<equiv> \<lparr>fl_dirPath = [], pFileList = replicate 4 HeadNull, fileNum = replicate 4 0, sumFileNum = 0,
     fileInfoLen = 0, pFileInfo = None, fm_inited = False\<rparr>"

lemma less_4: "(t :: nat) < 4 \<longleftrightarrow> t = 0 \<or> t = 1 \<or> t = 2 \<or> t = 3"
  by auto

lemma sample_served: "served_dir (sample_fs gSubDirName) ''d''"
  by (auto simp: served_dir_def sample_fs_def less_4 subdir_def gSubDirName_def isDir_def)

lemma sample_files:
  "dir_files (sample_fs gSubDirName) [] ''d'' 0 =
     [\<lparr>basicInfo = \<lparr>fi_size = 3, fi_filename = ''a'', fi_type = 0, fi_pad = []\<rparr>, fi_fp = None, readHdrNum = 0\<rparr>]"
  "num_files (sample_fs gSubDirName) [] ''d'' 4 = 1"
  by (simp_all add: dir_files_def sample_fs_def subdir_def gSubDirName_def num_files_def eval_nat_numeral)

theorem fmInit_lists_witness:
  "\<exists>fm'. fmInit (sample_fs gSubDirName) [] True (\<lambda>_. True) 0 (Some ''d'') FM_initial = Some (0, fm') \<and>
    fmGetFileinfoLength fm' 0 = (0, 272) \<and>
    fmGetFileinfo fm' (Some (replicate 272 0)) 272 =
      Some (0, Some (info_bytes (sample_fs gSubDirName) [] ''d'' 4))"
  using fmInit_lists [OF sample_served, of "[]" 0 "replicate 272 0"] by (simp add: sample_files)

theorem fmReadFile_reads_witness:
  "\<exists>fm1 fm2. fmInit (sample_fs gSubDirName) [] True (\<lambda>_. True) 0 (Some ''d'') FM_initial = Some (0, fm1) \<and>
    fmReadFile (sample_fs gSubDirName) \<lparr>fi_size = 3, fi_filename = ''a'', fi_type = 0, fi_pad = []\<rparr> 1 2 (Some [0, 0, 5]) fm1 =
      Some (0, Some [8, 9, 5], fm2)"
  using fmReadFile_reads [OF sample_served, of "[]" 0 0 "hd (dir_files (sample_fs gSubDirName) [] ''d'' 0)" "[7, 8, 9]" 1 2 "[0, 0, 5]" FM_initial]
  by (simp add: sample_files) (simp add: sample_fs_def)

theorem fmInit_missing_subdir_witness:
  "fmInit (sample_fs [''Videos'', ''Audios'', ''Others'']) [] True (\<lambda>_. True) 0 (Some ''d'') FM_initial = None"
  by (rule fmInit_missing_subdir [where t = 2 and names = "[''Videos'', ''Audios'', ''Others'']"])
    (simp_all add: sample_fs_def isDir_def gSubDirName_def)

end
