(* ===== verification/MoCpsServer.thy ===== *)
theory MoCpsServer
  imports MoIni MoSearch MoFm MoCri MoConn
begin

text \<open>
  The file server, the second part of \<open>moSdk/Cps/Server/src/moCpsServer.c\<close>: starting and stopping,
  the thread that accepts clients, and the thread that serves the requests of one client.

  The state of the server is the state of its three modules and the listening socket.
  The bodies of the two endless loops, once \<open>select\<close> has reported something to do, are functions.
  The encryption functions copy their input: the calls of the algorithms are disabled by \<open>#if 0\<close>.
\<close>

record SERVER =
  s_cri :: CRI
  s_mgr :: CLIMGR
  s_fm :: FM
  gSockId :: int

section \<open>Configuration\<close>

record CONF_INFO =
  conf_ip :: string
  conf_port :: int
  conf_dirPath :: string

definition parseConfFile ::
    "(string \<Rightarrow> string option) \<Rightarrow> bool \<Rightarrow> string option \<Rightarrow> (int \<times> CONF_INFO option) option" where
  "parseConfFile fopenR mallocOk pConfFilepath =
     (if pConfFilepath = None then Some (-1, None)
      else do {
        pHeadNode \<leftarrow> moUtils_Ini_Init mallocOk mallocOk fopenR pConfFilepath;
        if pHeadNode = None then Some (-2, None)
        else let (ret1, ip) = moUtils_Ini_GetAttrValue (Some ''servInfo'') (Some ''servIp'') (Some []) pHeadNode;
                 (ret2, port) = moUtils_Ini_GetAttrValue (Some ''servInfo'') (Some ''servPort'') (Some []) pHeadNode;
                 (ret3, dir) = moUtils_Ini_GetAttrValue (Some ''servInfo'') (Some ''dirPath'') (Some []) pHeadNode
          in if ret1 < 0 then Some (-3, None)
             else if ret2 < 0 then Some (-4, None)
             else do {
               p \<leftarrow> atoi (the port);
               if ret3 < 0 then Some (-5, None)
               else Some (0, Some \<lparr>conf_ip = copyStr MOCPS_IP_ADDR_MAXLEN (the ip), conf_port = p,
                 conf_dirPath = copyStr DIRPATH_MAXLEN (the dir)\<rparr>)
             }
      })"

section \<open>The listening socket\<close>

text \<open>What the system calls return.\<close>

record SOCKENV =
  socket_ret :: int
  setsockopt_ret :: int
  nonblock_ret :: int
  bind_ret :: int
  listen_ret :: int

definition setSockAttr :: "SOCKENV \<Rightarrow> int" where
  "setSockAttr e = (if setsockopt_ret e < 0 then -1 else if nonblock_ret e < 0 then -2 else 0)"

definition initSocket :: "SOCKENV \<Rightarrow> string option \<Rightarrow> int \<Rightarrow> int \<Rightarrow> int \<times> int" where
  "initSocket e pIp port sock =
     (if pIp = None then (-1, sock)
      else if sock \<noteq> MOCPS_INVALID_SOCKID then (-2, sock)
      else if socket_ret e < 0 then (-3, socket_ret e)
      else if setSockAttr e < 0 then (-4, MOCPS_INVALID_SOCKID)
      else if bind_ret e < 0 then (-5, MOCPS_INVALID_SOCKID)
      else if listen_ret e < 0 then (-6, MOCPS_INVALID_SOCKID)
      else (0, socket_ret e))"

definition uninitSocket :: "int \<Rightarrow> int" where
  "uninitSocket sock = (if sock > 0 then MOCPS_INVALID_SOCKID else sock)"

section \<open>Starting and stopping the server\<close>

text \<open>
  \<open>thrOk\<close> says whether the thread of the client manager exists. It reports that it has stopped at
  the end of its pass; without it \<open>stopCheckHeartbeatThr\<close> waits for ever.
\<close>

definition cliMgrUnInit :: "bool \<Rightarrow> CLIMGR \<Rightarrow> CLIMGR option" where
  "cliMgrUnInit thrOk m =
     (let m = stopRequested m in
      if stopReturns m then cliMgrFree m
      else if thrOk then cliMgrFree (m\<lparr>gCheckHeartbeatThrState := THR_RUNSTATE_STOPED\<rparr>)
      else None)"

record INITENV =
  i_conf :: "string \<Rightarrow> string option"
  i_fs :: FSYS
  i_pad :: "byte list"
  i_malloc :: bool
  i_criThr :: int
  i_mgrThr :: int
  i_fmThr :: int
  i_sock :: SOCKENV

definition moCpsServ_init :: "INITENV \<Rightarrow> string option \<Rightarrow> SERVER \<Rightarrow> (int \<times> SERVER) option" where
  "moCpsServ_init e pConfFilepath s =
     (if pConfFilepath = None then Some (-1, s)
      else do {
        (ret, conf) \<leftarrow> parseConfFile (i_conf e) (i_malloc e) pConfFilepath;
        case conf of
          None \<Rightarrow> Some (-2, s)
        | Some confInfo \<Rightarrow>
            let (ret, cri) = criInit (i_malloc e) (i_criThr e) (s_cri s)
            in if ret < 0 then Some (-3, s\<lparr>s_cri := cri\<rparr>)
            else let (ret, mgr) = cliMgrInit (i_malloc e) (i_mgrThr e) True (s_mgr s)
            in if ret < 0 then Some (-4, s\<lparr>s_cri := criUnInit cri, s_mgr := mgr\<rparr>)
            else do {
              (ret, fm) \<leftarrow> fmInit (i_fs e) (i_pad e) (i_malloc e) (\<lambda>_. i_malloc e) (i_fmThr e)
                (Some (conf_dirPath confInfo)) (s_fm s);
              if ret < 0 then do {
                mgr \<leftarrow> cliMgrUnInit (i_mgrThr e = 0) mgr;
                Some (-5, s\<lparr>s_cri := criUnInit cri, s_mgr := mgr, s_fm := fm\<rparr>)
              }
              else let (ret, sock) = initSocket (i_sock e) (Some (conf_ip confInfo)) (conf_port confInfo) (gSockId s)
              in Some (if ret < 0 then -6 else 0, s\<lparr>s_cri := cri, s_mgr := mgr, s_fm := fm, gSockId := sock\<rparr>)
            }
      })"

definition moCpsServ_unInit :: "bool \<Rightarrow> SERVER \<Rightarrow> SERVER option" where
  "moCpsServ_unInit thrOk s = do {
     fm \<leftarrow> fmUnInit (s_fm s);
     mgr \<leftarrow> cliMgrUnInit thrOk (s_mgr s);
     Some (s\<lparr>gSockId := uninitSocket (gSockId s), s_fm := fm, s_mgr := mgr, s_cri := criUnInit (s_cri s)\<rparr>)
   }"

section \<open>Key agreement\<close>

text \<open>Whatever the four functions do with their arguments, a request has the right format or not.\<close>

definition isRightFormatRequest :: "MOCPS_CTRL_REQUEST \<Rightarrow> bool" where
  "isRightFormatRequest request =
     (if \<not> mark_is (req_mark request) MOCPS_MARK_CLIENT then False
      else if req_cmdId request \<ge> MOCPS_CMDID_MAX then False
      else if moUtils_Check_checkCrc (req_bytes request) (sizeof_REQUEST - 4) (req_crc32 request) < 0 then False
      else True)"

text \<open>Both responses are built in a struct that the caller has cleared.\<close>

definition genErrKeyAgreeResp :: MOCPS_KEYAGREE_RESPONSE where
  "genErrKeyAgreeResp = (
     let resp = \<lparr>ka_mark = mark_field MOCPS_MARK_SERVER, ka_cmdId = MOCPS_CMDID_KEYAGREE,
       ka_crypt = \<lparr>cryptAlgoNo = MOCPS_CRYPT_ALGO_IDLE, cryptKey = replicate 256 0, keyLen = 0\<rparr>, ka_crc32 = 0\<rparr>
     in resp\<lparr>ka_crc32 := snd (moUtils_Check_getCrc (ka_bytes resp) (sizeof_KEYAGREE_RESPONSE - 4) (ka_crc32 resp))\<rparr>)"

text \<open>\<open>rand i\<close> is what the \<open>i\<close>-th call of \<open>rand()\<close> returns.\<close>

definition genRandArray :: "(nat \<Rightarrow> nat) \<Rightarrow> byte list \<Rightarrow> nat \<Rightarrow> byte list option" where
  "genRandArray rand pArray len = foldM (\<lambda>i a. wr a i (word_of_nat (rand i mod 127))) [0..<len] pArray"

definition genRightKeyAgreeResp :: "(nat \<Rightarrow> nat) \<Rightarrow> (int \<times> MOCPS_KEYAGREE_RESPONSE) option" where
  "genRightKeyAgreeResp rand = (
     let cleared = replicate 256 0;
         resp = \<lparr>ka_mark = mark_field MOCPS_MARK_SERVER, ka_cmdId = MOCPS_CMDID_KEYAGREE,
           ka_crypt = \<lparr>cryptAlgoNo = MOCPS_CRYPT_ALGO_DES, cryptKey = cleared, keyLen = 0\<rparr>, ka_crc32 = 0\<rparr>
     in do {
       (key, len) \<leftarrow> (case cryptAlgoNo (ka_crypt resp) of
          MOCPS_CRYPT_ALGO_DES \<Rightarrow> map_option (\<lambda>k. (k, 8)) (genRandArray rand cleared 8)
        | MOCPS_CRYPT_ALGO_DES3 \<Rightarrow> map_option (\<lambda>k. (k, 24)) (genRandArray rand cleared 24)
        | MOCPS_CRYPT_ALGO_AES \<Rightarrow> map_option (\<lambda>k. (k, 24)) (genRandArray rand cleared 24)
        | MOCPS_CRYPT_ALGO_RC4 \<Rightarrow> map_option (\<lambda>k. (k, 256)) (genRandArray rand cleared 256)
        | _ \<Rightarrow> Some (cleared, -2));
       if len < 0 then Some (-2, resp)
       else let resp = resp\<lparr>ka_crypt := (ka_crypt resp)\<lparr>cryptKey := key, keyLen := len\<rparr>\<rparr>
         in Some (0, resp\<lparr>ka_crc32 := snd (moUtils_Check_getCrc (ka_bytes resp) (sizeof_KEYAGREE_RESPONSE - 4) (ka_crc32 resp))\<rparr>)
     })"

text \<open>\<open>rand\<close>, the clock and what \<open>malloc\<close> returns for the two buffers of a reply.\<close>

record SERVENV =
  e_rand :: "nat \<Rightarrow> nat"
  e_clock :: int
  e_mallocBody :: bool
  e_mallocCipher :: bool

definition findMark :: "byte list \<Rightarrow> nat \<Rightarrow> int option" where
  "findMark buf len = moUtils_Search_BF (Some buf) len (Some MOCPS_MARK_CLIENT) (length MOCPS_MARK_CLIENT)"

text \<open>The bytes from offset \<open>ret\<close> on move to the front of the buffer.\<close>

definition moveToFront :: "byte list \<Rightarrow> nat \<Rightarrow> int \<Rightarrow> byte list option" where
  "moveToFront buf len ret = do {
     rest \<leftarrow> rdn buf (nat ret) (len - nat ret);
     wrn buf 0 rest
   }"

definition doKeyAgree ::
    "SERVENV \<Rightarrow> int \<Rightarrow> byte list \<Rightarrow> nat \<Rightarrow> CONN \<Rightarrow> SERVER \<Rightarrow> (int \<times> byte list \<times> CONN \<times> SERVER) option" where
  "doKeyAgree e sock recvBuf recvLen c s = do {
     (readLen, recvBuf, c) \<leftarrow> conn_readn c recvBuf (int recvLen);
     if readLen \<noteq> int recvLen then Some (-2, recvBuf, c, s)
     else do {
       ret \<leftarrow> findMark recvBuf recvLen;
       if ret < 0 then Some (-3, recvBuf, c, s)
       else do {
         (readLen, recvBuf, c) \<leftarrow> (if ret \<noteq> 0 then do {
             recvBuf \<leftarrow> moveToFront recvBuf recvLen ret;
             (n, left, c) \<leftarrow> conn_readn c (drop (recvLen - nat ret) recvBuf) ret;
             Some (n, take (recvLen - nat ret) recvBuf @ left, c)
           } else Some (ret, recvBuf, c));
         if readLen \<noteq> ret then Some (-4, recvBuf, c, s)
         else do {
           bs \<leftarrow> rdn recvBuf 0 sizeof_REQUEST;
           (resp, s) \<leftarrow> (if \<not> isRightFormatRequest (bytes_req bs) then Some (genErrKeyAgreeResp, s)
             else do {
               (_, resp) \<leftarrow> genRightKeyAgreeResp (e_rand e);
               (_, cri) \<leftarrow> criRefreshCryptInfo (ka_crypt resp) sock (s_cri s);
               (_, mgr) \<leftarrow> cliMgrSetState CLIMGR_CLI_STATE_KEYAGREED sock (s_mgr s);
               Some (resp, s\<lparr>s_cri := cri, s_mgr := mgr\<rparr>)
             });
           (writeLen, c) \<leftarrow> conn_writen c (ka_bytes resp) (int sizeof_KEYAGREE_RESPONSE);
           Some (if writeLen \<noteq> int sizeof_KEYAGREE_RESPONSE then -5 else 0, recvBuf, c, s)
         }
       }
     }
   }"

section \<open>Encryption\<close>

definition doDecryptWithDes :: "byte list \<Rightarrow> int \<Rightarrow> byte list \<Rightarrow> nat \<Rightarrow> (int \<times> byte list) option" where
  "doDecryptWithDes pCipher len pPlain off = (if len = 0 then Some (-1, pPlain) else memcpyTo pCipher len pPlain off)"

definition doDecryptWithDes3 :: "byte list \<Rightarrow> int \<Rightarrow> byte list \<Rightarrow> nat \<Rightarrow> (int \<times> byte list) option" where
  "doDecryptWithDes3 pCipher len pPlain off = (if len = 0 then Some (-1, pPlain) else memcpyTo pCipher len pPlain off)"

definition doDecryptWithAes :: "byte list \<Rightarrow> int \<Rightarrow> byte list \<Rightarrow> nat \<Rightarrow> (int \<times> byte list) option" where
  "doDecryptWithAes pCipher len pPlain off = memcpyTo pCipher len pPlain off"

definition doDecryptWithRc4 :: "byte list \<Rightarrow> int \<Rightarrow> byte list \<Rightarrow> nat \<Rightarrow> (int \<times> byte list) option" where
  "doDecryptWithRc4 pCipher len pPlain off = (if len = 0 then Some (-1, pPlain) else memcpyTo pCipher len pPlain off)"

definition doEncryptWithDes :: "byte list \<Rightarrow> int \<Rightarrow> byte list \<Rightarrow> nat \<Rightarrow> (int \<times> byte list) option" where
  "doEncryptWithDes pPlain len pCipher off = (if len = 0 then Some (-1, pCipher) else memcpyTo pPlain len pCipher off)"

definition doEncryptWithDes3 :: "byte list \<Rightarrow> int \<Rightarrow> byte list \<Rightarrow> nat \<Rightarrow> (int \<times> byte list) option" where
  "doEncryptWithDes3 pPlain len pCipher off = (if len = 0 then Some (-1, pCipher) else memcpyTo pPlain len pCipher off)"

definition doEncryptWithAes :: "byte list \<Rightarrow> int \<Rightarrow> byte list \<Rightarrow> nat \<Rightarrow> (int \<times> byte list) option" where
  "doEncryptWithAes pPlain len pCipher off = memcpyTo pPlain len pCipher off"

definition doEncryptWithRc4 :: "byte list \<Rightarrow> int \<Rightarrow> byte list \<Rightarrow> nat \<Rightarrow> (int \<times> byte list) option" where
  "doEncryptWithRc4 pPlain len pCipher off = (if len = 0 then Some (-1, pCipher) else memcpyTo pPlain len pCipher off)"

definition doDecrypt :: "byte list \<Rightarrow> int \<Rightarrow> byte list \<Rightarrow> nat \<Rightarrow> MOCPS_CRYPT_INFO \<Rightarrow> (int \<times> byte list) option" where
  "doDecrypt pCipher len pPlain off info =
     (if len = 0 then Some (-1, pPlain)
      else case cryptAlgoNo info of
        MOCPS_CRYPT_ALGO_DES \<Rightarrow> doDecryptWithDes pCipher len pPlain off
      | MOCPS_CRYPT_ALGO_DES3 \<Rightarrow> doDecryptWithDes3 pCipher len pPlain off
      | MOCPS_CRYPT_ALGO_AES \<Rightarrow> doDecryptWithAes pCipher len pPlain off
      | MOCPS_CRYPT_ALGO_RC4 \<Rightarrow> doDecryptWithRc4 pCipher len pPlain off
      | _ \<Rightarrow> Some (-2, pPlain))"

definition doEncrypt :: "byte list \<Rightarrow> int \<Rightarrow> byte list \<Rightarrow> nat \<Rightarrow> MOCPS_CRYPT_INFO \<Rightarrow> (int \<times> byte list) option" where
  "doEncrypt pPlain len pCipher off info =
     (if len = 0 then Some (-1, pCipher)
      else case cryptAlgoNo info of
        MOCPS_CRYPT_ALGO_DES \<Rightarrow> doEncryptWithDes pPlain len pCipher off
      | MOCPS_CRYPT_ALGO_DES3 \<Rightarrow> doEncryptWithDes3 pPlain len pCipher off
      | MOCPS_CRYPT_ALGO_AES \<Rightarrow> doEncryptWithAes pPlain len pCipher off
      | MOCPS_CRYPT_ALGO_RC4 \<Rightarrow> doEncryptWithRc4 pPlain len pCipher off
      | _ \<Rightarrow> Some (-2, pCipher))"

section \<open>Requests\<close>

definition doRequestHeartbeat :: "SERVENV \<Rightarrow> int \<Rightarrow> SERVER \<Rightarrow> (int \<times> SERVER) option" where
  "doRequestHeartbeat e sock s = do {
     (ret, mgr) \<leftarrow> cliMgrRefreshHeartbeat (e_clock e) sock (s_mgr s);
     Some (if ret < 0 then -1 else 0, s\<lparr>s_mgr := mgr\<rparr>)
   }"

definition doRequestByebye :: "int \<Rightarrow> SERVER \<Rightarrow> (int \<times> SERVER) option" where
  "doRequestByebye sock s = do {
     (ret, cri) \<leftarrow> criDeleteCliInfo sock (s_cri s);
     Some (if ret < 0 then -1 else 0, s\<lparr>s_cri := cri\<rparr>)
   }"

text \<open>The struct of a response, in cleared memory.\<close>

definition genResp :: "u32 \<Rightarrow> int \<Rightarrow> MOCPS_CTRL_RESPONSE_BASIC" where
  "genResp cmd len = (
     let resp = \<lparr>resp_mark = mark_field MOCPS_MARK_SERVER, resp_cmdId = cmd, resp_res = [0, 0, 0, 0],
       bodyLen = word_of_int len, resp_crc32 = 0\<rparr>
     in resp\<lparr>resp_crc32 := snd (moUtils_Check_getCrc (resp_bytes resp) (sizeof_RESPONSE_BASIC - 4) (resp_crc32 resp))\<rparr>)"

definition sendBasic :: "MOCPS_CTRL_RESPONSE_BASIC \<Rightarrow> MOCPS_CRYPT_INFO \<Rightarrow> CONN \<Rightarrow> (int \<times> CONN) option" where
  "sendBasic resp info c = do {
     (_, cipher) \<leftarrow> doEncrypt (resp_bytes resp) (int sizeof_RESPONSE_BASIC) (replicate sizeof_RESPONSE_BASIC 0) 0 info;
     conn_writen c cipher (int sizeof_RESPONSE_BASIC)
   }"

definition doRequestSendDataport ::
    "int \<Rightarrow> MOCPS_CTRL_REQUEST \<Rightarrow> MOCPS_CRYPT_INFO \<Rightarrow> CONN \<Rightarrow> SERVER \<Rightarrow> (int \<times> CONN \<times> SERVER) option" where
  "doRequestSendDataport sock req info c s = do {
     dataport \<leftarrow> mergeChar2Int (req_res req);
     (ret, cri) \<leftarrow> criSetDataSockPort dataport sock (s_cri s);
     if ret < 0 then Some (-2, c, s\<lparr>s_cri := cri\<rparr>)
     else do {
       (writeLen, c) \<leftarrow> sendBasic (genResp MOCPS_CMDID_SEND_DATAPORT 0) info c;
       Some (if writeLen \<noteq> int sizeof_RESPONSE_BASIC then -4 else 0, c, s\<lparr>s_cri := cri\<rparr>)
     }
   }"

text \<open>The loop that asks for the file information until the length fits; \<open>malloc\<close> leaves the buffer as it is.\<close>

partial_function (option) getBody :: "FM \<Rightarrow> bool \<Rightarrow> int \<Rightarrow> (int \<times> int \<times> byte list option) option" where
  "getBody fm mallocOk len =
     (if \<not> mallocOk then Some (-2, len, None)
      else do {
        (ret, pBody) \<leftarrow> fmGetFileinfo fm (Some (replicate (nat len) 0)) len;
        if ret < 0 then Some (-3, len, None)
        else if ret = 0 then Some (0, len, pBody)
        else getBody fm mallocOk ret
      })"

definition doRequestGetFileinfo ::
    "SERVENV \<Rightarrow> MOCPS_CRYPT_INFO \<Rightarrow> CONN \<Rightarrow> SERVER \<Rightarrow> (int \<times> CONN) option" where
  "doRequestGetFileinfo e info c s = (
     let (ret, len) = fmGetFileinfoLength (s_fm s) 0
     in if ret < 0 then Some (-1, c)
        else do {
          (ret, len, pBody) \<leftarrow> (if len > 0 then getBody (s_fm s) (e_mallocBody e) len else Some (0, len, None));
          if ret < 0 then Some (ret, c)
          else do {
            (writeLen, c) \<leftarrow> sendBasic (genResp MOCPS_CMDID_GETFILEINFO len) info c;
            if writeLen \<noteq> int sizeof_RESPONSE_BASIC then Some (-4, c)
            else case pBody of
              None \<Rightarrow> Some (0, c)
            | Some body \<Rightarrow>
                if \<not> e_mallocCipher e then Some (-5, c)
                else do {
                  (_, cipherBody) \<leftarrow> doEncrypt body len (replicate (nat len) 0) 0 info;
                  (writeLen, c) \<leftarrow> conn_writen c cipherBody len;
                  Some (if writeLen \<noteq> len then -5 else 0, c)
                }
          }
        })"

definition doRequest ::
    "SERVENV \<Rightarrow> int \<Rightarrow> MOCPS_CTRL_REQUEST \<Rightarrow> MOCPS_CRYPT_INFO \<Rightarrow> CONN \<Rightarrow> SERVER \<Rightarrow> (int \<times> CONN \<times> SERVER) option" where
  "doRequest e sock req info c s =
     (if req_cmdId req \<ge> MOCPS_CMDID_MAX then Some (-1, c, s)
      else if req_cmdId req = MOCPS_CMDID_HEARTBEAT then map_option (\<lambda>(r, s). (r, c, s)) (doRequestHeartbeat e sock s)
      else if req_cmdId req = MOCPS_CMDID_BYEBYE then map_option (\<lambda>(r, s). (r, c, s)) (doRequestByebye sock s)
      else if req_cmdId req = MOCPS_CMDID_SEND_DATAPORT then doRequestSendDataport sock req info c s
      else if req_cmdId req = MOCPS_CMDID_GETFILEINFO then map_option (\<lambda>(r, c). (r, c, s)) (doRequestGetFileinfo e info c s)
      else if req_cmdId req = MOCPS_CMDID_GETDATA then Some (0, c, s)
      else Some (-2, c, s))"

text \<open>
  \<open>cryptInfo\<close> is copied from the client's record; a copy of memory that \<open>malloc\<close> never initialised
  selects no branch in a defined way.
\<close>

definition doSimpleRequest ::
    "SERVENV \<Rightarrow> int \<Rightarrow> byte list \<Rightarrow> nat \<Rightarrow> CONN \<Rightarrow> SERVER \<Rightarrow> (int \<times> byte list \<times> CONN \<times> SERVER) option" where
  "doSimpleRequest e sock recvBuf recvLen c s = do {
     (ret, info) \<leftarrow> criGetCryptInfo sock (s_cri s);
     if ret < 0 then Some (-2, recvBuf, c, s)
     else do {
       (readLen, req, c) \<leftarrow> conn_readn c (replicate sizeof_REQUEST 0) (int sizeof_REQUEST);
       if readLen \<noteq> int recvLen then Some (-3, recvBuf, c, s)
       else do {
         cryptInfo \<leftarrow> info;
         (ret, recvBuf) \<leftarrow> doDecrypt req (int sizeof_REQUEST) recvBuf 0 cryptInfo;
         if ret < 0 then Some (-4, recvBuf, c, s)
         else do {
           ret \<leftarrow> findMark recvBuf recvLen;
           if ret < 0 then Some (-5, recvBuf, c, s)
           else do {
             (err, recvBuf, c) \<leftarrow> (if ret \<noteq> 0 then do {
                 recvBuf \<leftarrow> moveToFront recvBuf recvLen ret;
                 (readLen, req, c) \<leftarrow> conn_readn c req ret;
                 if readLen \<noteq> ret then Some (-6, recvBuf, c)
                 else do {
                   (ret', recvBuf) \<leftarrow> doDecrypt req readLen recvBuf (recvLen - nat ret) cryptInfo;
                   Some (if ret' < 0 then -7 else 0, recvBuf, c)
                 }
               } else Some (0, recvBuf, c));
             if err < 0 then Some (err, recvBuf, c, s)
             else do {
               bs \<leftarrow> rdn recvBuf 0 recvLen;
               if \<not> isRightFormatRequest (bytes_req bs) then Some (-8, recvBuf, c, s)
               else do {
                 (ret, c, s) \<leftarrow> doRequest e sock (bytes_req bs) cryptInfo c s;
                 Some (if ret < 0 then -9 else 0, recvBuf, c, s)
               }
             }
           }
         }
       }
     }
   }"

section \<open>The threads\<close>

text \<open>The body of the loop of \<open>doCtrlRequestThr\<close> when the socket is readable.\<close>

definition ctrlBody :: "SERVENV \<Rightarrow> int \<Rightarrow> byte list \<Rightarrow> CONN \<Rightarrow> SERVER \<Rightarrow> (byte list \<times> CONN \<times> SERVER) option" where
  "ctrlBody e sock recvBuf c s = do {
     (ret, state) \<leftarrow> cliMgrGetState sock CLIMGR_CLI_STATE_IDLE (s_mgr s);
     if ret < 0 then Some (recvBuf, c, s)
     else if state < CLIMGR_CLI_STATE_KEYAGREED then do {
       (ret, recvBuf, c, s) \<leftarrow> doKeyAgree e sock recvBuf sizeof_REQUEST c s;
       if ret < 0 then Some (recvBuf, c, s)
       else do {
         (_, mgr) \<leftarrow> cliMgrSetState CLIMGR_CLI_STATE_KEYAGREED sock (s_mgr s);
         Some (recvBuf, c, s\<lparr>s_mgr := mgr\<rparr>)
       }
     }
     else do {
       (ret, recvBuf, c, s) \<leftarrow> doSimpleRequest e sock recvBuf sizeof_REQUEST c s;
       Some (recvBuf, c, s)
     }
   }"

text \<open>\<open>n\<close> rounds of the loop; the buffer is cleared when the thread starts.\<close>

fun doCtrlRequestThr :: "nat \<Rightarrow> SERVENV \<Rightarrow> int \<Rightarrow> byte list \<Rightarrow> CONN \<Rightarrow> SERVER \<Rightarrow> (byte list \<times> CONN \<times> SERVER) option" where
  "doCtrlRequestThr 0 e sock recvBuf c s = Some (recvBuf, c, s)"
| "doCtrlRequestThr (Suc n) e sock recvBuf c s = do {
     (recvBuf, c, s) \<leftarrow> ctrlBody e sock recvBuf c s;
     doCtrlRequestThr n e sock recvBuf c s
   }"

text \<open>A connection that \<open>accept\<close> reports, and what the calls for it return.\<close>

record ACCEPTED =
  a_sock :: int
  a_addr :: "32 word"
  a_port :: int
  a_malloc :: bool
  a_create :: int
  a_thId :: nat

definition startCtrlThread :: "ACCEPTED \<Rightarrow> int" where
  "startCtrlThread a = (if a_create a < 0 then -1 else 0)"

text \<open>The body of the loop of \<open>doAcceptThr\<close>.\<close>

definition doAcceptThr ::
    "(32 word \<Rightarrow> string) \<Rightarrow> (string \<Rightarrow> 32 word) \<Rightarrow> ACCEPTED \<Rightarrow> SERVER \<Rightarrow> SERVER option" where
  "doAcceptThr inet_ntoa inet_addr a s =
     (if a_sock a < 0 then Some s
      else let ip = inet_ntoa (a_addr a) in do {
        exist \<leftarrow> criIsCliExist (a_addr a) (s_cri s);
        if exist \<noteq> 0 then do {
          (_, cri) \<leftarrow> criSetDataSocketInfo (a_addr a) (a_sock a) (a_port a) (s_cri s);
          Some (s\<lparr>s_cri := cri\<rparr>)
        }
        else do {
          (_, cri) \<leftarrow> criInsertNewCliInfo inet_addr (a_malloc a) (Some ip) (a_sock a) (a_port a) (s_cri s);
          (ret, mgr) \<leftarrow> cliMgrInsertNewCli inet_addr (a_malloc a) (Some ip) (a_port a) (a_sock a) (s_mgr s);
          (_, cri) \<leftarrow> (if ret < 0 then criDeleteCliInfo (a_sock a) cri else Some (0, cri));
          if startCtrlThread a < 0 then do {
            (_, mgr) \<leftarrow> cliMgrDeleteCli (a_sock a) mgr;
            (_, cri) \<leftarrow> criDeleteCliInfo (a_sock a) cri;
            Some (s\<lparr>s_cri := cri, s_mgr := mgr\<rparr>)
          }
          else do {
            (_, cri) \<leftarrow> criRefreshCtrlThrInfo (a_thId a) (a_sock a) cri;
            Some (s\<lparr>s_cri := cri, s_mgr := mgr\<rparr>)
          }
        }
      })"

definition moCpsServ_startRunning :: "int \<Rightarrow> SERVER \<Rightarrow> int" where
  "moCpsServ_startRunning createRet s = (if gSockId s < 0 then -1 else if createRet < 0 then -2 else 0)"

definition moCpsServ_stopRunning :: "SERVER \<Rightarrow> int \<times> SERVER" where
  "moCpsServ_stopRunning s = (0, s)"

section \<open>Buffers\<close>

text \<open>With one of the four algorithms, both directions copy.\<close>

lemma doDecrypt_copies: "copies info \<Longrightarrow> 0 < len \<Longrightarrow> doDecrypt src len dst off info = memcpyTo src len dst off"
  by (auto simp: copies_def doDecrypt_def doDecryptWithDes_def doDecryptWithDes3_def doDecryptWithAes_def doDecryptWithRc4_def)

lemma doEncrypt_copies: "copies info \<Longrightarrow> 0 < len \<Longrightarrow> doEncrypt src len dst off info = memcpyTo src len dst off"
  by (auto simp: copies_def doEncrypt_def doEncryptWithDes_def doEncryptWithDes3_def doEncryptWithAes_def doEncryptWithRc4_def)

lemma moveToFront_ok:
  "n \<le> 32 \<Longrightarrow> length buf = 32 \<Longrightarrow> moveToFront buf 32 (int n) = Some (drop n buf @ drop (32 - n) buf)"
  by (simp add: moveToFront_def)

section \<open>Finding a request in the stream\<close>

lemma mark_is_field [simp]: "length m < 16 \<Longrightarrow> mark_is (mark_field m) m"
  by (simp add: mark_is_def mark_field_def)

definition good_request :: "MOCPS_CTRL_REQUEST \<Rightarrow> bool" where
  "good_request r \<longleftrightarrow> wf_req r \<and> req_mark r = mark_field MOCPS_MARK_CLIENT \<and> req_cmdId r < MOCPS_CMDID_MAX"

lemma good_request_format: "good_request r \<Longrightarrow> isRightFormatRequest r"
  by (auto simp: good_request_def isRightFormatRequest_def moUtils_Check_checkCrc_def not_le)

abbreviation marked :: "MOCPS_CTRL_REQUEST \<Rightarrow> bool" where
  "marked r \<equiv> wf_req r \<and> req_mark r = mark_field MOCPS_MARK_CLIENT"

lemma findMark_eq: "length buf = 32 \<Longrightarrow> findMark buf 32 = Some (search_spec buf MOCPS_MARK_CLIENT)"
  using moUtils_Search_BF_correct [of 12 buf MOCPS_MARK_CLIENT] by (simp add: findMark_def search_input_def)

lemma occurs_prefix: "occurs (take n xs) pat i \<longleftrightarrow> occurs xs pat i \<and> i + length pat \<le> n"
  by (auto simp: occurs_def take_drop min_def)

lemma occurs_drop: "k \<le> length xs \<Longrightarrow> occurs (drop k xs) pat i \<longleftrightarrow> occurs xs pat (k + i)"
  by (auto simp: occurs_def add.commute)

lemma marked_bytes: "marked r \<Longrightarrow> take 12 (req_bytes r) = MOCPS_MARK_CLIENT"
  by (simp add: req_bytes_def mark_field_def)

text \<open>The first mark stands behind at most 20 bytes.\<close>

definition mark_at :: "nat \<Rightarrow> byte list \<Rightarrow> bool" where
  "mark_at k s \<longleftrightarrow> k \<le> 20 \<and> occurs s MOCPS_MARK_CLIENT k \<and> list_all (\<lambda>i. \<not> occurs s MOCPS_MARK_CLIENT i) [0..<k]"

lemma findMark_at: "mark_at k s \<Longrightarrow> 32 \<le> length s \<Longrightarrow> findMark (take 32 s) 32 = Some (int k)"
  using search_spec_found [of "take 32 s" MOCPS_MARK_CLIENT k]
  by (auto simp: findMark_eq mark_at_def occurs_prefix list_all_iff)

text \<open>
  A socket whose stream is \<open>junk\<close>, a request, and \<open>rest\<close>: what both functions that receive a request
  read, in one or two calls.
\<close>

definition incoming :: "CONN \<Rightarrow> byte list \<Rightarrow> MOCPS_CTRL_REQUEST \<Rightarrow> byte list \<Rightarrow> bool" where
  "incoming c junk r rest \<longleftrightarrow> clean (c_in c) \<and> marked r \<and> stream (c_in c) = junk @ req_bytes r @ rest \<and>
     mark_at (length junk) (stream (c_in c))"

lemma incoming_reads:
  assumes "incoming c junk r rest" and "length buf = 32"
  obtains c1 where "conn_readn c buf 32 = Some (32, take 32 (junk @ req_bytes r), c1)"
    and "findMark (take 32 (junk @ req_bytes r)) 32 = Some (int (length junk))"
    and "c_out c1 = c_out c" and "c_sent c1 = c_sent c" and "clean (c_in c1)"
    and "stream (c_in c1) = drop (32 - length junk) (req_bytes r) @ rest" and "length junk \<le> 20"
proof -
  note i = assms(1) [unfolded incoming_def]
  have l: "length (req_bytes r) = 32" using i by simp
  have k: "length junk \<le> 20" using i by (simp add: mark_at_def)
  have t: "take 32 (stream (c_in c)) = take 32 (junk @ req_bytes r)" using i l by simp
  have d: "drop 32 (stream (c_in c)) = drop (32 - length junk) (req_bytes r) @ rest"
    using i l k by simp
  obtain es where es: "conn_readn c buf (int 32) = Some (int 32, take 32 (stream (c_in c)) @ drop 32 buf, c\<lparr>c_in := es\<rparr>)"
    "clean es" "stream es = drop 32 (stream (c_in c))"
    using conn_readn_clean [of c 32 buf] i l assms(2) by auto
  have "findMark (take 32 (junk @ req_bytes r)) 32 = Some (int (length junk))"
    using findMark_at [of "length junk" "stream (c_in c)", unfolded t] i l by (auto simp del: take_append)
  with es t d k assms(2) show ?thesis by (intro that [of "c\<lparr>c_in := es\<rparr>"]) simp_all
qed

text \<open>The rest of the request behind the part that was moved to the front.\<close>

lemma second_read:
  assumes "wf_req r" and "length junk \<le> 20" and "length buf = 32" and "clean (c_in c)"
    and "stream (c_in c) = drop (32 - length junk) (req_bytes r) @ rest" and "length junk \<le> length buf2"
  obtains c1 where "conn_readn c buf2 (int (length junk)) =
      Some (int (length junk), drop (32 - length junk) (req_bytes r) @ drop (length junk) buf2, c1)"
    and "c_out c1 = c_out c" and "c_sent c1 = c_sent c" and "clean (c_in c1)" and "stream (c_in c1) = rest"
proof -
  have l: "length (drop (32 - length junk) (req_bytes r)) = length junk" using assms(1,2) by simp
  obtain es where "conn_readn c buf2 (int (length junk)) =
      Some (int (length junk), take (length junk) (stream (c_in c)) @ drop (length junk) buf2, c\<lparr>c_in := es\<rparr>)"
    "clean es" "stream es = drop (length junk) (stream (c_in c))"
    using conn_readn_clean [of c "length junk" buf2] assms(4-6) l by auto
  with l assms(5) show ?thesis by (intro that [of "c\<lparr>c_in := es\<rparr>"]) simp_all
qed

lemma front_of_request:
  "wf_req r \<Longrightarrow> length junk \<le> 20 \<Longrightarrow>
   moveToFront (take 32 (junk @ req_bytes r)) 32 (int (length junk)) =
     Some (take (32 - length junk) (req_bytes r) @ drop (32 - length junk) (take 32 (junk @ req_bytes r)))"
  by (subst moveToFront_ok) simp_all

lemma doSimpleRequest_reads:
  assumes "incoming c junk r rest" and "isRightFormatRequest r" and "length buf = 32"
    and "criGetCryptInfo sock (s_cri s) = Some (0, Some info)" and "copies info"
  obtains c1 where "doSimpleRequest e sock buf 32 c s = do {
      (ret, c, s) \<leftarrow> doRequest e sock r info c1 s;
      Some (if ret < 0 then -9 else 0, req_bytes r, c, s) }"
    and "c_out c1 = c_out c" and "c_sent c1 = c_sent c" and "clean (c_in c1)" and "stream (c_in c1) = rest"
proof -
  have wf: "wf_req r" and l: "length (req_bytes r) = 32" using assms(1) by (auto simp: incoming_def)
  define w where "w = take 32 (junk @ req_bytes r)"
  obtain c1 where c1: "conn_readn c (replicate 32 0) 32 = Some (32, w, c1)" "findMark w 32 = Some (int (length junk))"
    "c_out c1 = c_out c" "c_sent c1 = c_sent c" "clean (c_in c1)"
    "stream (c_in c1) = drop (32 - length junk) (req_bytes r) @ rest" "length junk \<le> 20"
    unfolding w_def using incoming_reads [OF assms(1), of "replicate 32 0"] by (metis length_replicate)
  have lw: "length w = 32" using l by (simp add: w_def)
  have d: "doDecrypt w 32 buf 0 info = Some (0, w)"
    using memcpyTo_ok [of 32 w 0 buf] lw assms(3,5) by (simp add: doDecrypt_copies)
  show ?thesis
  proof (cases "junk = []")
    case True
    then have "w = req_bytes r" using l by (simp add: w_def)
    then show ?thesis using True c1 d assms(2,4) l wf by (intro that [of c1]) (simp_all add: doSimpleRequest_def)
  next
    case False
    obtain c2 where c2: "conn_readn c1 w (int (length junk)) =
        Some (int (length junk), drop (32 - length junk) (req_bytes r) @ drop (length junk) w, c2)"
      "c_out c2 = c_out c1" "c_sent c2 = c_sent c1" "clean (c_in c2)" "stream (c_in c2) = rest"
      using second_read [OF wf c1(7) lw c1(5,6), of w] c1(7) lw by auto
    have d2: "doDecrypt (drop (32 - length junk) (req_bytes r) @ drop (length junk) w) (int (length junk))
        (take (32 - length junk) (req_bytes r) @ drop (32 - length junk) w) (32 - length junk) info = Some (0, req_bytes r)"
      using assms(5) False c1(7) l lw by (subst doDecrypt_copies) (auto simp: memcpyTo_ok)
    show ?thesis using c1 c2 d d2 front_of_request [OF wf c1(7), folded w_def] False assms(2,4) l wf
      by (intro that [of c2]) (simp_all add: doSimpleRequest_def)
  qed
qed

section \<open>Replies\<close>

lemma wf_genResp [simp]: "wf_resp (genResp cmd len)"
  by (simp add: genResp_def wf_resp_def mark_field_def Let_def)

lemma sendBasic_ok:
  assumes "copies info" and "wf_resp resp" and "sends c (32 + k)"
  obtains c' where "sendBasic resp info c = Some (32, c')" and "c_in c' = c_in c"
    and "c_sent c' = c_sent c @ resp_bytes resp" and "sends c' k"
proof -
  have "doEncrypt (resp_bytes resp) 32 (replicate 32 0) 0 info = Some (0, resp_bytes resp)"
    using memcpyTo_ok [of 32 "resp_bytes resp" 0 "replicate 32 0"] assms(1,2) by (simp add: doEncrypt_copies)
  then show ?thesis using conn_writen_sends [of c "resp_bytes resp" k] assms(2,3) that
    by (force simp: sendBasic_def)
qed

lemma doRequestGetFileinfo_ok:
  assumes "fm_inited (s_fm s)" and "fileInfoLen (s_fm s) = n" and "pFileInfo (s_fm s) = Some (infos @ spare)"
    and "length infos = n" and "copies info" and "sends c (32 + n)" and "e_mallocBody e" and "e_mallocCipher e"
  obtains c' where "doRequestGetFileinfo e info c s = Some (0, c')" and "c_in c' = c_in c"
    and "c_sent c' = c_sent c @ resp_bytes (genResp MOCPS_CMDID_GETFILEINFO (int n)) @ infos"
proof -
  obtain c1 where c1: "sendBasic (genResp MOCPS_CMDID_GETFILEINFO (int n)) info c = Some (32, c1)" "c_in c1 = c_in c"
    "c_sent c1 = c_sent c @ resp_bytes (genResp MOCPS_CMDID_GETFILEINFO (int n))" "sends c1 n"
    using sendBasic_ok [OF assms(5) wf_genResp assms(6)] by blast
  have len: "fmGetFileinfoLength (s_fm s) 0 = (0, int n)" using assms(1,2) by (simp add: fmGetFileinfoLength_def)
  show ?thesis
  proof (cases "n = 0")
    case True
    then show ?thesis using c1 len assms(4) by (intro that [of c1]) (simp_all add: doRequestGetFileinfo_def)
  next
    case False
    have b: "getBody (s_fm s) True (int n) = Some (0, int n, Some infos)"
      using assms(1-4) by (subst getBody.simps) (simp add: fmGetFileinfo_def)
    have "doEncrypt infos (int n) (replicate n 0) 0 info = Some (0, infos)"
      using memcpyTo_ok [of n infos 0 "replicate n 0"] assms(4,5) False by (simp add: doEncrypt_copies)
    moreover obtain c2 where "conn_writen c1 infos (int n) = Some (int n, c2)" "c_in c2 = c_in c1" "c_sent c2 = c_sent c1 @ infos"
      using conn_writen_sends [of c1 infos 0] c1(4) assms(4) by auto
    ultimately show ?thesis using c1 len b False assms(7,8)
      by (intro that [of c2]) (simp_all add: doRequestGetFileinfo_def)
  qed
qed

text \<open>A client that has agreed on a key: what the two modules know about it.\<close>

definition agreed :: "int \<Rightarrow> MOCPS_CRYPT_INFO \<Rightarrow> SERVER \<Rightarrow> bool" where
  "agreed sock info s \<longleftrightarrow> criGetCryptInfo sock (s_cri s) = Some (0, Some info) \<and> copies info \<and>
     cliMgrGetState sock CLIMGR_CLI_STATE_IDLE (s_mgr s) = Some (0, CLIMGR_CLI_STATE_KEYAGREED)"

lemma ctrlBody_agreed:
  assumes "agreed sock info s"
  shows "ctrlBody e sock buf c s = map_option snd (doSimpleRequest e sock buf sizeof_REQUEST c s)"
  using assms by (cases "doSimpleRequest e sock buf sizeof_REQUEST c s")
    (auto simp: agreed_def ctrlBody_def less_CLIMGR_CLI_STATE_def)

lemma getfileinfo_reply:
  assumes "served_dir fs d" and "num_files fs pad d 4 * sizeof_BASIC_FILEINFO + FM_MEM_INC_SIZE < 2 ^ 31"
    and "0 \<le> createRet" and "fmInit fs pad True (\<lambda>_. True) createRet (Some d) fm0 = Some (0, s_fm s)"
    and "agreed sock info s" and "incoming c junk r rest" and "req_cmdId r = MOCPS_CMDID_GETFILEINFO"
    and "sends c (32 + num_files fs pad d 4 * sizeof_BASIC_FILEINFO)" and "length buf = sizeof_REQUEST"
    and "e_mallocBody e" and "e_mallocCipher e"
  shows "\<exists>c'. ctrlBody e sock buf c s = Some (req_bytes r, c', s) \<and> stream (c_in c') = rest \<and>
    c_sent c' = c_sent c @ resp_bytes (genResp MOCPS_CMDID_GETFILEINFO (int (num_files fs pad d 4 * sizeof_BASIC_FILEINFO))) @
      info_bytes fs pad d 4"
proof -
  let ?n = "num_files fs pad d 4 * 272"
  have "isRightFormatRequest r" using assms(6,7) by (auto simp: incoming_def intro: good_request_format simp: good_request_def)
  then obtain c1 where c1: "doSimpleRequest e sock buf 32 c s = do {
      (ret, c, s) \<leftarrow> doRequest e sock r info c1 s;
      Some (if ret < 0 then -9 else 0, req_bytes r, c, s) }"
    "c_out c1 = c_out c" "c_sent c1 = c_sent c" "stream (c_in c1) = rest"
    using doSimpleRequest_reads [OF assms(6) _ assms(9), of sock s info e] assms(5) unfolding agreed_def by metis
  obtain fm' where "fmInit fs pad True (\<lambda>_. True) createRet (Some d) fm0 = Some (0, fm')"
    "fm_inited fm'" "fileInfoLen fm' = ?n" "pFileInfo fm' = Some (info_bytes fs pad d 4 @ replicate FM_MEM_INC_SIZE 0)"
    using fmInit_ok [OF assms(1-3)] by metis
  with assms(4) have "fm_inited (s_fm s)" "fileInfoLen (s_fm s) = ?n"
    "pFileInfo (s_fm s) = Some (info_bytes fs pad d 4 @ replicate FM_MEM_INC_SIZE 0)" by simp_all
  moreover have "sends c1 (32 + ?n)" using assms(8) c1(2) by (simp add: sends_def)
  ultimately obtain c2 where "doRequestGetFileinfo e info c1 s = Some (0, c2)" "c_in c2 = c_in c1"
    "c_sent c2 = c_sent c1 @ resp_bytes (genResp MOCPS_CMDID_GETFILEINFO (int ?n)) @ info_bytes fs pad d 4"
    using doRequestGetFileinfo_ok [of s ?n "info_bytes fs pad d 4" "replicate FM_MEM_INC_SIZE 0" info c1 e] assms(5,10,11)
    by (auto simp: length_info_bytes agreed_def)
  then show ?thesis using c1 assms(7) ctrlBody_agreed [OF assms(5), of e buf c]
    by (intro exI [of _ c2]) (simp add: doRequest_def)
qed

text \<open>
  C19. A client that asks for the list of files gets it: when the server has listed a directory and
  the client has agreed on a key, a \<open>GETFILEINFO\<close> request is answered with exactly the header that
  announces the length and the structs of all files, however the request arrives in pieces, and
  even behind up to 20 bytes of garbage; the bytes behind the request stay in the stream.
\<close>

theorem getfileinfo_served:
  assumes "served_dir fs d" and "num_files fs pad d 4 * sizeof_BASIC_FILEINFO + FM_MEM_INC_SIZE < 2 ^ 31"
    and "0 \<le> createRet" and "fmInit fs pad True (\<lambda>_. True) createRet (Some d) fm0 = Some (0, s_fm s)"
    and "agreed sock info s" and "incoming c junk r rest" and "req_cmdId r = MOCPS_CMDID_GETFILEINFO"
    and "sends c (32 + num_files fs pad d 4 * sizeof_BASIC_FILEINFO)" and "length buf = sizeof_REQUEST"
    and "e_mallocBody e" and "e_mallocCipher e"
  shows "\<exists>c'. ctrlBody e sock buf c s = Some (req_bytes r, c', s) \<and> stream (c_in c') = rest \<and>
    c_sent c' = c_sent c @ resp_bytes (genResp MOCPS_CMDID_GETFILEINFO (int (num_files fs pad d 4 * sizeof_BASIC_FILEINFO))) @
      info_bytes fs pad d 4"
  by (rule getfileinfo_reply [OF assms])

section \<open>Losing the requests\<close>

lemma doSimpleRequest_lost:
  assumes "clean (c_in c)" and "32 \<le> length (stream (c_in c))" and "length buf = 32"
    and "\<And>i. \<not> occurs (take 32 (stream (c_in c))) MOCPS_MARK_CLIENT i"
    and "criGetCryptInfo sock (s_cri s) = Some (0, Some info)" and "copies info"
  obtains c' where "doSimpleRequest e sock buf 32 c s = Some (-5, take 32 (stream (c_in c)), c', s)"
    and "clean (c_in c')" and "stream (c_in c') = drop 32 (stream (c_in c))" and "c_sent c' = c_sent c"
proof -
  let ?w = "take 32 (stream (c_in c))"
  obtain es where es: "conn_readn c (replicate 32 0) (int 32) = Some (int 32, ?w @ drop 32 (replicate 32 0), c\<lparr>c_in := es\<rparr>)"
    "clean es" "stream es = drop 32 (stream (c_in c))"
    using conn_readn_clean [OF assms(1,2), of "replicate 32 0"] by auto
  have "doDecrypt ?w 32 buf 0 info = Some (0, ?w)"
    using memcpyTo_ok [of 32 ?w 0 buf] assms(2,3,6) by (simp add: doDecrypt_copies)
  moreover have "findMark ?w 32 = Some (-12002)"
    using search_spec_absent [of ?w MOCPS_MARK_CLIENT] assms(2,4) by (simp add: findMark_eq)
  ultimately show ?thesis using es assms(2,5)
    by (intro that [of "c\<lparr>c_in := es\<rparr>"]) (simp_all add: doSimpleRequest_def)
qed

lemma doCtrlRequestThr_lost:
  assumes "agreed sock info s" and "clean (c_in c)" and "32 * n \<le> length (stream (c_in c))" and "length buf = 32"
    and "\<And>k i. k < n \<Longrightarrow> \<not> occurs (take 32 (drop (32 * k) (stream (c_in c)))) MOCPS_MARK_CLIENT i"
  shows "\<exists>buf' c'. doCtrlRequestThr n e sock buf c s = Some (buf', c', s) \<and> c_sent c' = c_sent c \<and>
    stream (c_in c') = drop (32 * n) (stream (c_in c))"
  using assms(2-)
proof (induction n arbitrary: buf c)
  case (Suc n)
  have "32 \<le> length (stream (c_in c))" using Suc.prems(2) by simp
  moreover have "\<not> occurs (take 32 (stream (c_in c))) MOCPS_MARK_CLIENT i" for i using Suc.prems(4) [of 0] by simp
  ultimately obtain c1 where c1: "doSimpleRequest e sock buf 32 c s = Some (-5, take 32 (stream (c_in c)), c1, s)"
    "clean (c_in c1)" "stream (c_in c1) = drop 32 (stream (c_in c))" "c_sent c1 = c_sent c"
    using doSimpleRequest_lost [OF Suc.prems(1) _ Suc.prems(3), of sock s info e] assms(1) unfolding agreed_def by metis
  have "\<not> occurs (take 32 (drop (32 * k) (stream (c_in c1)))) MOCPS_MARK_CLIENT i" if "k < n" for k i
    using Suc.prems(4) [of "Suc k"] that c1(3) by (simp add: add.commute)
  with Suc.IH [OF c1(2), of "take 32 (stream (c_in c))"] Suc.prems(2) c1
  obtain buf' c' where "doCtrlRequestThr n e sock (take 32 (stream (c_in c))) c1 s = Some (buf', c', s)"
    "c_sent c' = c_sent c1" "stream (c_in c') = drop (32 * n) (stream (c_in c1))" by force
  then show ?case using c1 ctrlBody_agreed [OF assms(1), of e buf c] by (auto simp: add.commute)
qed simp

text \<open>
  Between 21 and 31 bytes of garbage are the end of a connection: the mark of the next request
  then crosses the end of the 32 bytes in which it is searched, these bytes are dropped, and
  so it is with every request that follows without a gap. However many requests the client sends,
  the server executes none of them, answers none, and keeps its state.
\<close>

theorem requests_lost:
  assumes "agreed sock info s" and "clean (c_in c)" and "stream (c_in c) = junk @ concat (map req_bytes rs)"
    and "list_all wf_req rs" and "20 < length junk" and "length junk < 32" and "length buf = 32"
    and "\<And>i. occurs (stream (c_in c)) MOCPS_MARK_CLIENT i \<Longrightarrow> i mod 32 = length junk"
  shows "\<exists>buf' c'. doCtrlRequestThr (length rs) e sock buf c s = Some (buf', c', s) \<and> c_sent c' = c_sent c \<and>
    length (stream (c_in c')) = length junk"
proof -
  have "length (concat (map req_bytes rs)) = 32 * length rs"
    using assms(4) by (induction rs) auto
  then have l: "length (stream (c_in c)) = length junk + 32 * length rs" using assms(3) by simp
  have "\<not> occurs (take 32 (drop (32 * k) (stream (c_in c)))) MOCPS_MARK_CLIENT i" if "k < length rs" for k i
  proof
    assume o: "occurs (take 32 (drop (32 * k) (stream (c_in c)))) MOCPS_MARK_CLIENT i"
    then have "i + 12 \<le> 32" "occurs (stream (c_in c)) MOCPS_MARK_CLIENT (32 * k + i)"
      using that l by (auto simp: occurs_prefix occurs_drop)
    then show False using assms(8) [of "32 * k + i"] assms(5) by simp
  qed
  then obtain buf' c' where "doCtrlRequestThr (length rs) e sock buf c s = Some (buf', c', s)" "c_sent c' = c_sent c"
    "stream (c_in c') = drop (32 * length rs) (stream (c_in c))"
    using doCtrlRequestThr_lost [OF assms(1,2) _ assms(7)] l by (metis le_add2)
  then show ?thesis using l by (intro exI [of _ buf'] exI [of _ c']) simp
qed

section \<open>Agreeing on a key\<close>

text \<open>The key that the server makes from \<open>rand\<close>, and its answer.\<close>

definition des_key :: "(nat \<Rightarrow> nat) \<Rightarrow> MOCPS_CRYPT_INFO" where
  "des_key rand = \<lparr>cryptAlgoNo = MOCPS_CRYPT_ALGO_DES,
     cryptKey = map (\<lambda>i. word_of_nat (rand i mod 127)) [0..<8] @ replicate 248 0, keyLen = 8\<rparr>"

definition key_response :: "MOCPS_CRYPT_INFO \<Rightarrow> MOCPS_KEYAGREE_RESPONSE" where
  "key_response info = \<lparr>ka_mark = mark_field MOCPS_MARK_SERVER, ka_cmdId = MOCPS_CMDID_KEYAGREE,
     ka_crypt = info, ka_crc32 = 0\<rparr>"

definition no_key :: MOCPS_CRYPT_INFO where
  "no_key = \<lparr>cryptAlgoNo = MOCPS_CRYPT_ALGO_IDLE, cryptKey = replicate 256 0, keyLen = 0\<rparr>"

lemma wf_keys [simp]: "wf_crypt (des_key rand)" "wf_crypt no_key" "copies (des_key rand)"
  by (simp_all add: des_key_def no_key_def wf_crypt_def in_int32_def copies_def)

lemma wf_key_response [simp]: "wf_crypt info \<Longrightarrow> wf_ka (key_response info)"
  by (simp add: key_response_def wf_ka_def mark_field_def)

lemma genRandArray_eq:
  "n \<le> length a \<Longrightarrow> genRandArray rand a n = Some (map (\<lambda>i. word_of_nat (rand i mod 127)) [0..<n] @ drop n a)"
  by (simp add: genRandArray_def foldM_wr_fill)

lemma genRightKeyAgreeResp_eq: "genRightKeyAgreeResp rand = Some (0, key_response (des_key rand))"
  by (simp add: genRightKeyAgreeResp_def genRandArray_eq key_response_def des_key_def moUtils_Check_getCrc_def Let_def
    del: upt_Suc)

lemma genErrKeyAgreeResp_eq: "genErrKeyAgreeResp = key_response no_key"
  by (simp add: genErrKeyAgreeResp_def key_response_def no_key_def moUtils_Check_getCrc_def Let_def)

lemma doKeyAgree_reads:
  assumes "incoming c junk r rest" and "length buf = 32"
  obtains c1 where "doKeyAgree e sock buf 32 c s = do {
      (resp, s) \<leftarrow> (if \<not> isRightFormatRequest r then Some (key_response no_key, s)
        else do {
          (_, cri) \<leftarrow> criRefreshCryptInfo (des_key (e_rand e)) sock (s_cri s);
          (_, mgr) \<leftarrow> cliMgrSetState CLIMGR_CLI_STATE_KEYAGREED sock (s_mgr s);
          Some (key_response (des_key (e_rand e)), s\<lparr>s_cri := cri, s_mgr := mgr\<rparr>)
        });
      (writeLen, c) \<leftarrow> conn_writen c1 (ka_bytes resp) 288;
      Some (if writeLen \<noteq> 288 then -5 else 0, req_bytes r, c, s) }"
    and "c_out c1 = c_out c" and "c_sent c1 = c_sent c" and "clean (c_in c1)" and "stream (c_in c1) = rest"
proof -
  have wf: "wf_req r" and l: "length (req_bytes r) = 32" using assms(1) by (auto simp: incoming_def)
  define w where "w = take 32 (junk @ req_bytes r)"
  obtain c1 where c1: "conn_readn c buf 32 = Some (32, w, c1)" "findMark w 32 = Some (int (length junk))"
    "c_out c1 = c_out c" "c_sent c1 = c_sent c" "clean (c_in c1)"
    "stream (c_in c1) = drop (32 - length junk) (req_bytes r) @ rest" "length junk \<le> 20"
    unfolding w_def using incoming_reads [OF assms] by metis
  have lw: "length w = 32" using l by (simp add: w_def)
  note resp = genRightKeyAgreeResp_eq genErrKeyAgreeResp_eq
  have ka: "ka_crypt (key_response info) = info" for info by (simp add: key_response_def)
  show ?thesis
  proof (cases "junk = []")
    case True
    then have "w = req_bytes r" using l by (simp add: w_def)
    then show ?thesis using True c1 l wf
      by (intro that [of c1]) (simp_all add: doKeyAgree_def resp ka cong: if_cong)
  next
    case False
    let ?moved = "take (32 - length junk) (req_bytes r) @ drop (32 - length junk) w"
    obtain c2 where c2: "conn_readn c1 (drop (32 - length junk) ?moved) (int (length junk)) =
        Some (int (length junk), drop (32 - length junk) (req_bytes r) @ drop (length junk) (drop (32 - length junk) ?moved), c2)"
      "c_out c2 = c_out c1" "c_sent c2 = c_sent c1" "clean (c_in c2)" "stream (c_in c2) = rest"
      using second_read [OF wf c1(7) lw c1(5,6), of "drop (32 - length junk) ?moved"] c1(7) lw l by auto
    then have "conn_readn c1 (drop (32 - length junk) w) (int (length junk)) =
        Some (int (length junk), drop (32 - length junk) (req_bytes r), c2)"
      using l lw c1(7) by simp
    then show ?thesis using c1 c2(2-) front_of_request [OF wf c1(7), folded w_def] False l lw wf
      by (intro that [of c2]) (simp_all add: doKeyAgree_def resp ka min_def cong: if_cong)
  qed
qed

text \<open>Both modules know the client, which has not agreed on a key yet.\<close>

definition connected :: "int \<Rightarrow> SERVER \<Rightarrow> bool" where
  "connected sock s \<longleftrightarrow> (\<exists>cs. cri_nodes (s_cri s) = Some cs \<and> sock \<in> set (map cri_ctrlSockId cs)) \<and>
     cliMgrGetState sock CLIMGR_CLI_STATE_IDLE (s_mgr s) = Some (0, CLIMGR_CLI_STATE_CTRLSOCKIN)"

lemma setState_keyagreed:
  assumes "cliMgrGetState sock CLIMGR_CLI_STATE_IDLE m = Some (0, st)"
  obtains m' where "cliMgrSetState CLIMGR_CLI_STATE_KEYAGREED sock m = Some (0, m')"
    and "cliMgrGetState sock CLIMGR_CLI_STATE_IDLE m' = Some (0, CLIMGR_CLI_STATE_KEYAGREED)"
proof -
  obtain cs c where "gpCliInfoListHead m = Some cs" "find (\<lambda>c. ctrlSockId c = sock) cs = Some c"
    using assms by (auto simp: cliMgrGetState_def split: bind_splits option.splits)
  then show ?thesis
    by (intro that [of "m\<lparr>gpCliInfoListHead := Some (upd_first (\<lambda>c. ctrlSockId c = sock)
        (\<lambda>c. c\<lparr>cli_state := CLIMGR_CLI_STATE_KEYAGREED\<rparr>) cs)\<rparr>"])
      (simp_all add: cliMgrSetState_def cliMgrGetState_def less_eq_CLIMGR_CLI_STATE_def find_upd_first_same)
qed

lemma key_agreement_reply:
  assumes "connected sock s" and "incoming c junk r rest" and "req_cmdId r < MOCPS_CMDID_MAX"
    and "sends c (sizeof_KEYAGREE_RESPONSE + k)" and "length buf = sizeof_REQUEST"
  obtains c' s' where "ctrlBody e sock buf c s = Some (req_bytes r, c', s')" and "agreed sock (des_key (e_rand e)) s'"
    and "c_sent c' = c_sent c @ ka_bytes (key_response (des_key (e_rand e)))" and "sends c' k"
    and "clean (c_in c')" and "stream (c_in c') = rest"
    and "\<forall>other. other = sock \<or> criGetCryptInfo other (s_cri s') = criGetCryptInfo other (s_cri s)"
proof -
  let ?k = "des_key (e_rand e)"
  obtain cs where cs: "cri_nodes (s_cri s) = Some cs" "sock \<in> set (map cri_ctrlSockId cs)"
    and st: "cliMgrGetState sock CLIMGR_CLI_STATE_IDLE (s_mgr s) = Some (0, CLIMGR_CLI_STATE_CTRLSOCKIN)"
    using assms(1) by (auto simp: connected_def simp del: if_split)
  obtain cri where cri: "criRefreshCryptInfo ?k sock (s_cri s) = Some (0, cri)" "criGetCryptInfo sock cri = Some (0, Some ?k)"
    "\<And>other. other \<noteq> sock \<Longrightarrow> criGetCryptInfo other cri = criGetCryptInfo other (s_cri s)"
    using refreshCrypt_stored [OF cs] by metis
  obtain m1 where m1: "cliMgrSetState CLIMGR_CLI_STATE_KEYAGREED sock (s_mgr s) = Some (0, m1)"
    "cliMgrGetState sock CLIMGR_CLI_STATE_IDLE m1 = Some (0, CLIMGR_CLI_STATE_KEYAGREED)"
    using setState_keyagreed [OF st] by metis
  obtain m2 where m2: "cliMgrSetState CLIMGR_CLI_STATE_KEYAGREED sock m1 = Some (0, m2)"
    "cliMgrGetState sock CLIMGR_CLI_STATE_IDLE m2 = Some (0, CLIMGR_CLI_STATE_KEYAGREED)"
    using setState_keyagreed [OF m1(2)] by metis
  have f: "isRightFormatRequest r"
    using assms(2,3) by (auto simp: incoming_def intro: good_request_format simp: good_request_def)
  obtain c1 where c1: "doKeyAgree e sock buf 32 c s = do {
      (writeLen, c) \<leftarrow> conn_writen c1 (ka_bytes (key_response ?k)) 288;
      Some (if writeLen \<noteq> 288 then -5 else 0, req_bytes r, c, s\<lparr>s_cri := cri, s_mgr := m1\<rparr>) }"
    "c_out c1 = c_out c" "c_sent c1 = c_sent c" "clean (c_in c1)" "stream (c_in c1) = rest"
    using doKeyAgree_reads [OF assms(2,5), of e sock s] f cri(1) m1(1) by (auto simp: split_beta)
  have "sends c1 (length (ka_bytes (key_response ?k)) + k)" using assms(4) c1(2) by (simp add: sends_def)
  then obtain c2 where c2: "conn_writen c1 (ka_bytes (key_response ?k)) 288 = Some (288, c2)" "c_in c2 = c_in c1"
    "c_sent c2 = c_sent c1 @ ka_bytes (key_response ?k)" "sends c2 k"
    using conn_writen_sends [of c1 "ka_bytes (key_response ?k)" k] by auto
  have "ctrlBody e sock buf c s = Some (req_bytes r, c2, s\<lparr>s_cri := cri, s_mgr := m2\<rparr>)"
    using c1(1) c2(1) m2(1) st by (simp add: ctrlBody_def less_CLIMGR_CLI_STATE_def)
  then show ?thesis using c1(3-5) c2 cri(2,3) m2(2)
    by (intro that [of c2 "s\<lparr>s_cri := cri, s_mgr := m2\<rparr>"]) (auto simp: agreed_def)
qed

text \<open>
  The key agreement: the first request of a client, in pieces and behind up to 20 bytes of garbage,
  makes the server choose a DES key, store it for this client and for no other, and send an answer
  from which the client reads the same key.
\<close>

theorem key_agreement:
  assumes "connected sock s" and "incoming c junk r rest" and "req_cmdId r < MOCPS_CMDID_MAX"
    and "sends c sizeof_KEYAGREE_RESPONSE" and "length buf = sizeof_REQUEST"
  shows "\<exists>c' s' msg. ctrlBody e sock buf c s = Some (req_bytes r, c', s') \<and> agreed sock (des_key (e_rand e)) s' \<and>
    c_sent c' = c_sent c @ msg \<and> length msg = sizeof_KEYAGREE_RESPONSE \<and> bytes_ka msg = key_response (des_key (e_rand e)) \<and>
    stream (c_in c') = rest \<and> (\<forall>other. other = sock \<or> criGetCryptInfo other (s_cri s') = criGetCryptInfo other (s_cri s))"
proof -
  have k: "sends c (sizeof_KEYAGREE_RESPONSE + 0)" using assms(4) by simp
  obtain c' s' where "ctrlBody e sock buf c s = Some (req_bytes r, c', s')" "agreed sock (des_key (e_rand e)) s'"
    "c_sent c' = c_sent c @ ka_bytes (key_response (des_key (e_rand e)))" "sends c' 0" "clean (c_in c')" "stream (c_in c') = rest"
    "\<forall>other. other = sock \<or> criGetCryptInfo other (s_cri s') = criGetCryptInfo other (s_cri s)"
    by (rule key_agreement_reply [OF assms(1-3) k assms(5)])
  then show ?thesis
    by (intro exI [of _ c'] exI [of _ s'] exI [of _ "ka_bytes (key_response (des_key (e_rand e)))"]) simp
qed

text \<open>
  A first request with a wrong command is answered as it should be, with the algorithm IDLE; but the
  thread then marks the client as agreed all the same, although no key was ever stored for it: the
  next request is decrypted with a key that is whatever \<open>malloc\<close> left in the client's record.
\<close>

theorem rejected_client_agrees:
  assumes "connected sock s" and "criGetCryptInfo sock (s_cri s) = Some (0, None)" and "incoming c junk r rest"
    and "MOCPS_CMDID_MAX \<le> req_cmdId r" and "sizeof_REQUEST \<le> length rest"
    and "sends c sizeof_KEYAGREE_RESPONSE" and "length buf = sizeof_REQUEST"
  shows "(\<exists>c' s'. ctrlBody e sock buf c s = Some (req_bytes r, c', s') \<and>
      c_sent c' = c_sent c @ ka_bytes (key_response no_key) \<and>
      cliMgrGetState sock CLIMGR_CLI_STATE_IDLE (s_mgr s') = Some (0, CLIMGR_CLI_STATE_KEYAGREED)) \<and>
    doCtrlRequestThr 2 e sock buf c s = None"
proof -
  have st: "cliMgrGetState sock CLIMGR_CLI_STATE_IDLE (s_mgr s) = Some (0, CLIMGR_CLI_STATE_CTRLSOCKIN)"
    using assms(1) by (simp add: connected_def)
  obtain m where m: "cliMgrSetState CLIMGR_CLI_STATE_KEYAGREED sock (s_mgr s) = Some (0, m)"
    "cliMgrGetState sock CLIMGR_CLI_STATE_IDLE m = Some (0, CLIMGR_CLI_STATE_KEYAGREED)"
    using setState_keyagreed [OF st] by metis
  have f: "\<not> isRightFormatRequest r" using assms(4) by (simp add: isRightFormatRequest_def)
  obtain c1 where c1: "doKeyAgree e sock buf 32 c s = do {
      (writeLen, c) \<leftarrow> conn_writen c1 (ka_bytes (key_response no_key)) 288;
      Some (if writeLen \<noteq> 288 then -5 else 0, req_bytes r, c, s) }"
    "c_out c1 = c_out c" "c_sent c1 = c_sent c" "stream (c_in c1) = rest" "clean (c_in c1)"
    using doKeyAgree_reads [OF assms(3,7), of e sock s] f by (auto simp: split_beta)
  have "sends c1 (length (ka_bytes (key_response no_key)) + 0)" using assms(6) c1(2) by (simp add: sends_def)
  then obtain c2 where c2: "conn_writen c1 (ka_bytes (key_response no_key)) 288 = Some (288, c2)" "c_in c2 = c_in c1"
    "c_sent c2 = c_sent c1 @ ka_bytes (key_response no_key)"
    using conn_writen_sends [of c1 "ka_bytes (key_response no_key)" 0] by auto
  obtain es where "conn_readn c2 (replicate 32 0) (int 32) =
      Some (int 32, take 32 (stream (c_in c2)) @ drop 32 (replicate 32 0), c2\<lparr>c_in := es\<rparr>)"
    using conn_readn_clean [of c2 32 "replicate 32 0"] c1(4,5) c2(2) assms(5) by auto
  then have "doSimpleRequest e sock (req_bytes r) 32 c2 (s\<lparr>s_mgr := m\<rparr>) = None"
    using assms(2) by (simp add: doSimpleRequest_def)
  moreover have "ctrlBody e sock buf c s = Some (req_bytes r, c2, s\<lparr>s_mgr := m\<rparr>)"
    using c1 c2 m st by (simp add: ctrlBody_def less_CLIMGR_CLI_STATE_def)
  ultimately show ?thesis using c1(3) c2(3) m(2)
    by (simp add: numeral_2_eq_2 ctrlBody_def less_CLIMGR_CLI_STATE_def)
qed

section \<open>Heartbeats\<close>

text \<open>What the threads of a running server do, one step after the other.\<close>

datatype serv_op =
    Connect ACCEPTED
  | Request SERVENV int "byte list" CONN
  | CheckClients
  | CheckHeartbeats "nat \<Rightarrow> int"

fun serv_exec :: "(32 word \<Rightarrow> string) \<Rightarrow> (string \<Rightarrow> 32 word) \<Rightarrow> serv_op \<Rightarrow> SERVER \<Rightarrow> SERVER option" where
  "serv_exec inet_ntoa inet_addr (Connect a) s = doAcceptThr inet_ntoa inet_addr a s"
| "serv_exec inet_ntoa inet_addr (Request e sock buf c) s = map_option (\<lambda>(_, _, s). s) (ctrlBody e sock buf c s)"
| "serv_exec inet_ntoa inet_addr CheckClients s = do {
     (_, _, cri, mgr) \<leftarrow> criCheckBody (s_cri s) (s_mgr s);
     Some (s\<lparr>s_cri := cri, s_mgr := mgr\<rparr>)
   }"
| "serv_exec inet_ntoa inet_addr (CheckHeartbeats clk) s = do {
     (ns, mgr) \<leftarrow> checkHeartbeatBody clk (s_mgr s);
     cri \<leftarrow> foldM (\<lambda>n cri. map_option snd (recvInvalidCliInfo n cri)) ns (s_cri s);
     Some (s\<lparr>s_cri := cri, s_mgr := mgr\<rparr>)
   }"

text \<open>The manager is initialised and watches the heartbeat of no client.\<close>

definition unwatched :: "CLIMGR \<Rightarrow> bool" where
  "unwatched m \<longleftrightarrow> (\<exists>cs. gpCliInfoListHead m = Some cs \<and> (\<forall>c \<in> set cs. cli_state c \<le> CLIMGR_CLI_STATE_KEYAGREED))"

lemma unwatched_upd:
  assumes "\<And>c. cli_state c \<le> CLIMGR_CLI_STATE_KEYAGREED \<Longrightarrow> cli_state (f c) \<le> CLIMGR_CLI_STATE_KEYAGREED"
    and "\<forall>c \<in> set cs. cli_state c \<le> CLIMGR_CLI_STATE_KEYAGREED"
  shows "\<forall>c \<in> set (upd_first P f cs). cli_state c \<le> CLIMGR_CLI_STATE_KEYAGREED"
  using assms upd_first_elem [of _ P f cs] by metis

lemma unwatched_insert: "cliMgrInsertNewCli ia ok a p k m = Some (r, m') \<Longrightarrow> unwatched m \<Longrightarrow> unwatched m'"
  by (auto simp: cliMgrInsertNewCli_def unwatched_def less_eq_CLIMGR_CLI_STATE_def split: option.splits if_splits bind_splits)

lemma unwatched_refresh: "cliMgrRefreshHeartbeat clk k m = Some (r, m') \<Longrightarrow> unwatched m \<Longrightarrow> unwatched m'"
  using unwatched_upd [of "\<lambda>c. c\<lparr>lastHeartbeatTime := clk\<rparr>"]
  by (fastforce simp: cliMgrRefreshHeartbeat_def unwatched_def split: option.splits)

lemma unwatched_delete: "cliMgrDeleteCli k m = Some (r, m') \<Longrightarrow> unwatched m \<Longrightarrow> unwatched m'"
  using set_del_first by (fastforce simp: cliMgrDeleteCli_def unwatched_def split: option.splits)

lemma unwatched_agreed: "cliMgrSetState CLIMGR_CLI_STATE_KEYAGREED k m = Some (r, m') \<Longrightarrow> unwatched m \<Longrightarrow> unwatched m'"
  using unwatched_upd [of "\<lambda>c. c\<lparr>cli_state := CLIMGR_CLI_STATE_KEYAGREED\<rparr>"]
  by (fastforce simp: cliMgrSetState_def unwatched_def split: option.splits if_splits)

lemmas unwatched_ops = unwatched_insert unwatched_refresh unwatched_delete unwatched_agreed

lemma unwatched_pass: "criCheckPass seen cs m = Some (cs', ks, m') \<Longrightarrow> unwatched m \<Longrightarrow> unwatched m'"
proof (induction cs arbitrary: seen cs' ks m)
  case (Cons c cs)
  show ?case
  proof (cases "ctrlThrState c = THREAD_STATE_DELETING")
    case True
    then obtain r m1 ks' where "cliMgrDeleteCli (cri_ctrlSockId c) m = Some (r, m1)"
      "criCheckPass [] cs m1 = Some (cs', ks', m')"
      using Cons.prems(1) by (auto split: bind_splits)
    then show ?thesis using Cons.IH unwatched_delete Cons.prems(2) by blast
  next
    case False
    then show ?thesis using Cons by simp
  qed
qed simp

lemma unwatched_heartbeats:
  assumes "unwatched m"
  shows "checkHeartbeatBody clk m = Some ([], m\<lparr>gCheckHeartbeatThrState := THR_RUNSTATE_STOPED\<rparr>)"
proof -
  obtain cs where cs: "gpCliInfoListHead m = Some cs" "\<forall>c \<in> set cs. cli_state c \<le> CLIMGR_CLI_STATE_KEYAGREED"
    using assms by (auto simp: unwatched_def)
  have low: "st = CLIMGR_CLI_STATE_IDLE \<or> st = CLIMGR_CLI_STATE_CTRLSOCKIN \<or> st = CLIMGR_CLI_STATE_KEYAGREED"
    if "st \<le> CLIMGR_CLI_STATE_KEYAGREED" for st
    using that by (cases st) (simp_all add: less_eq_CLIMGR_CLI_STATE_def)
  have "checkHeartbeatPass clk k cs = (cs, [])" for k
    using cs(2) by (induction cs) (auto dest: low)
  then show ?thesis using cs(1) by (simp add: checkHeartbeatBody_def)
qed

lemma unwatched_doRequest: "doRequest e sock r info c s = Some (x, c', s') \<Longrightarrow> unwatched (s_mgr s) \<Longrightarrow> unwatched (s_mgr s')"
  by (auto simp: doRequest_def doRequestHeartbeat_def doRequestByebye_def doRequestSendDataport_def
    split: if_splits bind_splits dest: unwatched_refresh)

lemma unwatched_doSimpleRequest:
  "doSimpleRequest e sock buf n c s = Some (x, buf', c', s') \<Longrightarrow> unwatched (s_mgr s) \<Longrightarrow> unwatched (s_mgr s')"
  by (auto simp: doSimpleRequest_def split: if_splits bind_splits) (metis unwatched_doRequest)+

lemma unwatched_doKeyAgree:
  "doKeyAgree e sock buf n c s = Some (x, buf', c', s') \<Longrightarrow> unwatched (s_mgr s) \<Longrightarrow> unwatched (s_mgr s')"
  by (auto simp: doKeyAgree_def split: if_splits bind_splits) (metis unwatched_agreed)+

lemma unwatched_exec:
  assumes "serv_exec inet_ntoa inet_addr op s = Some s'" and "unwatched (s_mgr s)"
  shows "unwatched (s_mgr s')"
proof (cases op)
  case (Connect a)
  then show ?thesis using assms
    by (auto simp: doAcceptThr_def Let_def split: if_splits bind_splits) (metis unwatched_insert unwatched_delete)+
next
  case (Request e sock buf c)
  then show ?thesis using assms
    by (auto simp: ctrlBody_def split: if_splits bind_splits)
      (metis unwatched_doKeyAgree unwatched_doSimpleRequest unwatched_agreed)+
next
  case CheckClients
  then show ?thesis using assms
    by (auto simp: criCheckBody_def split: option.splits bind_splits dest: unwatched_pass)
next
  case (CheckHeartbeats clk)
  then show ?thesis using assms by (auto simp: unwatched_heartbeats unwatched_def)
qed

text \<open>
  The server never notices that a client is gone: no operation ever puts a client into the state
  HEARTBEAT, the only one whose clients the heartbeat check watches. After any sequence of connections, requests
  and checks, the check reports no client, however long ago the last heartbeat was.
\<close>

theorem silent_clients_stay:
  assumes "foldM (serv_exec inet_ntoa inet_addr) ops s = Some s'" and "gpCliInfoListHead (s_mgr s) = Some []"
  shows "checkHeartbeatBody clk (s_mgr s') = Some ([], (s_mgr s')\<lparr>gCheckHeartbeatThrState := THR_RUNSTATE_STOPED\<rparr>)"
proof -
  have "unwatched (s_mgr s)" using assms(2) by (simp add: unwatched_def)
  with assms(1) have "unwatched (s_mgr s')"
    by (induction ops arbitrary: s) (auto split: bind_splits dest: unwatched_exec)
  then show ?thesis by (rule unwatched_heartbeats)
qed

section \<open>Starting again\<close>

text \<open>
  When the listening socket cannot be set up (the address is in use, say), \<open>moCpsServ_init\<close> fails
  with -6 and leaves its modules initialised. No later call can succeed: with any readable
  configuration, and whatever the system does, it fails with -3.
\<close>

theorem init_cannot_be_repeated:
  assumes "moCpsServ_init e (Some p) s = Some (-6, s1)" and "parseConfFile (i_conf e') (i_malloc e') (Some p') = Some (0, Some conf)"
  shows "moCpsServ_init e' (Some p') s1 = Some (-3, s1)"
proof -
  have "gpCriListHead (s_cri s1) \<noteq> None"
    using assms(1)
    by (auto simp: moCpsServ_init_def criInit_def Let_def split: if_splits bind_splits option.splits prod.splits)
  then show ?thesis using assms(2) by (simp add: moCpsServ_init_def criInit_def)
qed

section \<open>Witnesses\<close>

abbreviation sample_req :: "u32 \<Rightarrow> MOCPS_CTRL_REQUEST" where
  "sample_req cmd \<equiv> \<lparr>req_mark = mark_field MOCPS_MARK_CLIENT, isNeedResp = 0, req_cmdId = cmd, req_res = [0, 0, 0, 0], req_crc32 = 0\<rparr>"

abbreviation sample_env :: SERVENV where
  "sample_env \<equiv> \<lparr>e_rand = (\<lambda>i. i), e_clock = 0, e_mallocBody = True, e_mallocCipher = True\<rparr>"

text \<open>A server with one client (socket 5), and a connection that delivers \<open>bs\<close> in two pieces.\<close>

definition sample_server :: "CLIMGR_CLI_STATE \<Rightarrow> MOCPS_CRYPT_INFO option \<Rightarrow> FM \<Rightarrow> SERVER" where
  "sample_server st ki fm = \<lparr>s_cri = \<lparr>gpCriListHead = Some [(sample_cli 5 THREAD_STATE_RUNNING)\<lparr>cryptInfo := ki\<rparr>], criMutexLost = False\<rparr>,
     s_mgr = CLIMGR_initial\<lparr>gpCliInfoListHead := Some [\<lparr>cli_id = 5, cli_addr = ''1.1.1.1'', ctrlPort = 4000, ctrlSockId = 5,
       cli_state = st, lastHeartbeatTime = 0\<rparr>]\<rparr>,
     s_fm = fm, gSockId = 3\<rparr>"

definition sample_conn :: "byte list \<Rightarrow> nat \<Rightarrow> CONN" where
  "sample_conn bs n = \<lparr>c_in = [Arrive (take 20 bs), Recv_err EINTR, Arrive (drop 20 bs)], c_out = replicate n (Accept 100), c_sent = []\<rparr>"

lemma sample_sends: "sends (sample_conn bs n) n"
  by (simp add: sends_def sample_conn_def list_all_iff takers_def map_replicate_const sum_list_replicate)

lemma sample_stream [simp]: "stream (c_in (sample_conn bs n)) = bs"
  by (simp add: sample_conn_def)

lemma sample_clean: "20 < length bs \<Longrightarrow> clean (c_in (sample_conn bs n))"
  by (cases bs) (simp_all add: sample_conn_def)

lemma sample_agreed: "agreed 5 (des_key rand) (sample_server CLIMGR_CLI_STATE_KEYAGREED (Some (des_key rand)) fm)"
  by (simp add: agreed_def sample_server_def criGetCryptInfo_def criLock_def cliMgrGetState_def)

lemma sample_connected: "connected 5 (sample_server CLIMGR_CLI_STATE_CTRLSOCKIN ki fm)"
  by (simp add: connected_def sample_server_def cliMgrGetState_def)

lemma sample_marked: "marked (sample_req cmd)"
  by (simp add: wf_req_def mark_field_def)

lemma sample_incoming: "incoming (sample_conn ([1, 2] @ req_bytes (sample_req cmd) @ rest) n) [1, 2] (sample_req cmd) rest"
proof -
  have m: "mark_at (length [1, 2 :: byte]) ([1, 2] @ req_bytes (sample_req cmd) @ rest)"
    by (simp add: mark_at_def occurs_def req_bytes_def mark_field_def MOCPS_MARK_CLIENT_def upt_conv_Cons)
  have "length (req_bytes (sample_req cmd)) = 32" using sample_marked by simp
  then have "clean (c_in (sample_conn ([1, 2] @ req_bytes (sample_req cmd) @ rest) n))"
    by (intro sample_clean) simp
  then show ?thesis using m sample_marked unfolding incoming_def by simp
qed

theorem getfileinfo_served_witness:
  "\<exists>fm c'. ctrlBody sample_env 5 (replicate 32 0) (sample_conn ([1, 2] @ req_bytes (sample_req 4) @ [9]) 304)
      (sample_server CLIMGR_CLI_STATE_KEYAGREED (Some (des_key (\<lambda>i. i))) fm) =
      Some (req_bytes (sample_req 4), c', sample_server CLIMGR_CLI_STATE_KEYAGREED (Some (des_key (\<lambda>i. i))) fm) \<and>
    stream (c_in c') = [9] \<and>
    c_sent c' = resp_bytes (genResp MOCPS_CMDID_GETFILEINFO 272) @ info_bytes (sample_fs gSubDirName) [] ''d'' 4"
proof -
  obtain fm where fm: "fmInit (sample_fs gSubDirName) [] True (\<lambda>_. True) 0 (Some ''d'') FM_initial = Some (0, fm)"
    using fmInit_ok [OF sample_served, of "[]" 0 FM_initial] by (auto simp: sample_files)
  let ?s = "sample_server CLIMGR_CLI_STATE_KEYAGREED (Some (des_key (\<lambda>i. i))) fm"
  let ?c = "sample_conn ([1, 2] @ req_bytes (sample_req 4) @ [9]) 304"
  have "s_fm ?s = fm" "c_sent ?c = []" by (simp_all add: sample_server_def sample_conn_def)
  moreover have "sends ?c (32 + num_files (sample_fs gSubDirName) [] ''d'' 4 * 272)"
    using sample_sends [of _ 304] by (simp add: sample_files)
  ultimately show ?thesis
    using getfileinfo_served [OF sample_served, of "[]" 0 FM_initial ?s 5 "des_key (\<lambda>i. i)" ?c "[1, 2]" "sample_req 4" "[9]"
        "replicate 32 0" sample_env] sample_incoming [of 4 "[9]" 304] fm
    by (auto simp: sample_files sample_agreed)
qed

theorem key_agreement_witness:
  "\<exists>c' s' msg. ctrlBody sample_env 5 (replicate 32 0) (sample_conn ([1, 2] @ req_bytes (sample_req 0) @ []) 288)
      (sample_server CLIMGR_CLI_STATE_CTRLSOCKIN None FM_initial) = Some (req_bytes (sample_req 0), c', s') \<and>
    agreed 5 (des_key (\<lambda>i. i)) s' \<and> bytes_ka msg = key_response (des_key (\<lambda>i. i)) \<and>
    c_sent c' = c_sent (sample_conn ([1, 2] @ req_bytes (sample_req 0) @ []) 288) @ msg"
  using key_agreement [OF sample_connected [of None FM_initial] sample_incoming [of 0 "[]" 288] _ sample_sends,
      where e = sample_env and buf = "replicate 32 0"]
  by (simp del: append_Nil2 append_Cons append_Nil) blast

theorem rejected_client_agrees_witness:
  "doCtrlRequestThr 2 sample_env 5 (replicate 32 0)
     (sample_conn ([1, 2] @ req_bytes (sample_req 6) @ replicate 32 0) 288)
     (sample_server CLIMGR_CLI_STATE_CTRLSOCKIN None FM_initial) = None"
  by (rule rejected_client_agrees [OF sample_connected _ sample_incoming, THEN conjunct2])
    (simp_all add: sample_sends sample_server_def criGetCryptInfo_def criLock_def)


lemma sample_marks:
  "list_all (\<lambda>i. \<not> occurs (replicate 25 0 @ concat (map req_bytes [sample_req 4])) MOCPS_MARK_CLIENT i \<or> i mod 32 = 25) [0..<46]"
  by code_simp

theorem requests_lost_witness:
  "\<exists>buf' c'. doCtrlRequestThr 1 sample_env 5 (replicate 32 0)
      (sample_conn (replicate 25 0 @ concat (map req_bytes [sample_req 4])) 0)
      (sample_server CLIMGR_CLI_STATE_KEYAGREED (Some (des_key (\<lambda>i. i))) FM_initial) =
    Some (buf', c', sample_server CLIMGR_CLI_STATE_KEYAGREED (Some (des_key (\<lambda>i. i))) FM_initial) \<and> c_sent c' = []"
proof -
  let ?s = "replicate 25 0 @ concat (map req_bytes [sample_req 4])"
  have wf: "wf_req (sample_req 4)" using sample_marked by simp
  have "i mod 32 = 25" if o: "occurs ?s MOCPS_MARK_CLIENT i" for i
  proof -
    have "i < 46" using o wf by (simp add: occurs_def)
    then have "i \<in> set [0..<46]" by simp
    then show ?thesis using sample_marks o unfolding list_all_iff by blast
  qed
  moreover have "clean (c_in (sample_conn ?s 0))" using wf by (intro sample_clean) simp
  ultimately have "\<exists>buf' c'. doCtrlRequestThr (length [sample_req 4]) sample_env 5 (replicate 32 0) (sample_conn ?s 0)
      (sample_server CLIMGR_CLI_STATE_KEYAGREED (Some (des_key (\<lambda>i. i))) FM_initial) =
    Some (buf', c', sample_server CLIMGR_CLI_STATE_KEYAGREED (Some (des_key (\<lambda>i. i))) FM_initial) \<and>
    c_sent c' = c_sent (sample_conn ?s 0) \<and> length (stream (c_in c')) = length (replicate 25 (0 :: byte))"
    by (intro requests_lost [OF sample_agreed]) (simp_all add: wf)
  moreover have "length [sample_req 4] = 1" "c_sent (sample_conn ?s 0) = []" by (simp_all add: sample_conn_def)
  ultimately show ?thesis by metis
qed

abbreviation sample_accepted :: ACCEPTED where
  "sample_accepted \<equiv> \<lparr>a_sock = 6, a_addr = 7, a_port = 4001, a_malloc = True, a_create = 0, a_thId = 9\<rparr>"

theorem silent_clients_stay_witness:
  "\<exists>s'. foldM (serv_exec (\<lambda>_. ''1.1.1.2'') (\<lambda>_. 7)) [Connect sample_accepted, CheckHeartbeats (\<lambda>_. 10 ^ 9)]
      \<lparr>s_cri = \<lparr>gpCriListHead = Some [], criMutexLost = False\<rparr>, s_mgr = CLIMGR_initial\<lparr>gpCliInfoListHead := Some []\<rparr>,
       s_fm = FM_initial, gSockId = 3\<rparr> = Some s' \<and>
    checkHeartbeatBody (\<lambda>_. 10 ^ 12) (s_mgr s') = Some ([], (s_mgr s')\<lparr>gCheckHeartbeatThrState := THR_RUNSTATE_STOPED\<rparr>)"
proof -
  let ?s = "\<lparr>s_cri = \<lparr>gpCriListHead = Some [], criMutexLost = False\<rparr>, s_mgr = CLIMGR_initial\<lparr>gpCliInfoListHead := Some []\<rparr>,
       s_fm = FM_initial, gSockId = 3\<rparr>"
  let ?ops = "[Connect sample_accepted, CheckHeartbeats (\<lambda>_. 10 ^ 9)]"
  have "foldM (serv_exec (\<lambda>_. ''1.1.1.2'') (\<lambda>_. 7)) ?ops ?s \<noteq> None"
    by (simp add: doAcceptThr_def criIsCliExist_def criLock_def criInsertNewCliInfo_def cliMgrInsertNewCli_def
      startCtrlThread_def criRefreshCtrlThrInfo_def criUpdate_def copyStr_def checkHeartbeatBody_def Let_def)
  then obtain s' where "foldM (serv_exec (\<lambda>_. ''1.1.1.2'') (\<lambda>_. 7)) ?ops ?s = Some s'" by blast
  from this silent_clients_stay [OF this, of "\<lambda>_. 10 ^ 12"] show ?thesis by (intro exI [of _ s'] conjI) simp_all
qed

text \<open>The configuration of the comment above \<open>parseConfFile\<close>, and an address that is in use.\<close>

definition sample_init :: "int \<Rightarrow> INITENV" where
  "sample_init b = \<lparr>i_conf = (\<lambda>_. Some (concat (map (\<lambda>l. l @ [CHR 0x0A])
       [''[servInfo]'', ''servIp = 127.0.0.1'', ''servPort = 4096'', ''dirPath = d'']))),
     i_fs = sample_fs gSubDirName, i_pad = [], i_malloc = True, i_criThr = 0, i_mgrThr = 0, i_fmThr = 0,
     i_sock = \<lparr>socket_ret = 3, setsockopt_ret = 0, nonblock_ret = 0, bind_ret = b, listen_ret = 0\<rparr>\<rparr>"

lemma sample_parse:
  "parseConfFile (i_conf (sample_init b)) (i_malloc (sample_init b)) (Some ''conf'') =
   Some (0, Some \<lparr>conf_ip = ''127.0.0.1'', conf_port = 4096, conf_dirPath = ''d''\<rparr>)"
proof -
  have "parseConfFile (\<lambda>_. Some (concat (map (\<lambda>l. l @ [CHR 0x0A])
      [''[servInfo]'', ''servIp = 127.0.0.1'', ''servPort = 4096'', ''dirPath = d'']))) True (Some ''conf'') =
    Some (0, Some \<lparr>conf_ip = ''127.0.0.1'', conf_port = 4096, conf_dirPath = ''d''\<rparr>)"
    by code_simp
  then show ?thesis by (simp add: sample_init_def)
qed

theorem init_cannot_be_repeated_witness:
  "\<exists>s1. moCpsServ_init (sample_init (-1)) (Some ''conf'')
      \<lparr>s_cri = \<lparr>gpCriListHead = None, criMutexLost = False\<rparr>, s_mgr = CLIMGR_initial, s_fm = FM_initial, gSockId = -1\<rparr> = Some (-6, s1) \<and>
    moCpsServ_init (sample_init 0) (Some ''conf'') s1 = Some (-3, s1)"
proof -
  let ?s = "\<lparr>s_cri = \<lparr>gpCriListHead = None, criMutexLost = False\<rparr>, s_mgr = CLIMGR_initial, s_fm = FM_initial, gSockId = -1\<rparr>"
  obtain fm where "fmInit (sample_fs gSubDirName) [] True (\<lambda>_. True) 0 (Some ''d'') FM_initial = Some (0, fm)"
    using fmInit_ok [OF sample_served, of "[]" 0 FM_initial] by (auto simp: sample_files)
  then obtain s1 where s1: "moCpsServ_init (sample_init (-1)) (Some ''conf'') ?s = Some (-6, s1)"
    using sample_parse [of "-1"]
    by (simp add: moCpsServ_init_def) (simp add: sample_init_def criInit_def cliMgrInit_def startCheckHeartbeatThr_def
      initSocket_def setSockAttr_def)
  from this init_cannot_be_repeated [OF this sample_parse] show ?thesis by blast
qed

end
