(* ===== verification/MoBursts.thy ===== *)
theory MoBursts
  imports MoNet
begin

text \<open>
  Sockets that do not block: the data sockets of both clients, and the control socket of the file client. A
  read that finds nothing more to read ends the loop of \<open>readn\<close> early, so it matters where in the stream
  the gaps are. This theory says what \<open>readn\<close> does in front of a gap and at one, and what it means that
  messages arrive in bursts, with gaps only between two messages.
\<close>

section \<open>Reading in front of a gap\<close>

lemma sys_read_append:
  assumes "sys_read k es = Some (x, es')"
  shows "sys_read k (es @ fs) = Some (x, es' @ fs)"
  using assms by (cases es; cases "hd es") auto

lemma readn_loop_front:
  assumes "readn_loop len es buf pos left = Some (r, buf', es')" and "clean es" and "left \<le> int (length (stream es))"
  shows "readn_loop len (es @ fs) buf pos left = Some (r, buf', es' @ fs)"
  using assms
proof (induction len es buf pos left rule: readn_loop.induct)
  case (1 len es buf pos left)
  show ?case
  proof (cases "left > 0")
    case False
    then show ?thesis using 1(3) by (subst (asm) readn_loop.simps, subst readn_loop.simps) simp
  next
    case True
    then obtain x es1 where x: "sys_read (nat left) es = Some (x, es1)"
      using 1(3) by (subst (asm) readn_loop.simps) (auto split: option.splits)
    note xa = sys_read_append [OF x, of fs]
    show ?thesis
    proof (cases x)
      case (Inl e)
      note st = sys_read_error [OF x [unfolded Inl]]
      then have e: "e = EINTR" "clean es1" using 1(4) by auto
      have "readn_loop len es1 buf pos left = Some (r, buf', es')"
        using 1(3) True x Inl e(1) by (subst (asm) readn_loop.simps) simp
      then have "readn_loop len (es1 @ fs) buf pos left = Some (r, buf', es' @ fs)"
        using 1(1) [OF True x refl Inl e(1)] e(2) st(1) 1(5) by simp
      then show ?thesis using True xa Inl e(1) by (subst readn_loop.simps) simp
    next
      case (Inr bs)
      note st = sys_read_bytes [OF x [unfolded Inr]]
      have bs: "bs \<noteq> []" "clean es1" using st(2) 1(4) True by auto
      then obtain b1 where b1: "wrn buf pos bs = Some b1"
        "readn_loop len es1 b1 (pos + length bs) (left - int (length bs)) = Some (r, buf', es')"
        using 1(3) True x Inr by (subst (asm) readn_loop.simps) (auto split: bind_splits)
      have "readn_loop len (es1 @ fs) b1 (pos + length bs) (left - int (length bs)) = Some (r, buf', es' @ fs)"
        using 1(2) [OF True x refl Inr bs(1) b1(1) b1(2)] bs(2) st(1) 1(5) by simp
      then show ?thesis using True xa Inr bs(1) b1(1) by (subst readn_loop.simps) simp
    qed
  qed
qed

lemma readn_front:
  assumes "clean es" and "n \<le> length (stream es)" and "n \<le> length buf"
  obtains es' where "readn (es @ fs) buf (int n) = Some (int n, take n (stream es) @ drop n buf, es' @ fs)"
    and "clean es'" and "stream es' = drop n (stream es)"
proof -
  obtain es' where "readn es buf (int n) = Some (int n, take n (stream es) @ drop n buf, es')" "clean es'" "stream es' = drop n (stream es)"
    using readn_clean [OF assms] by blast
  then show ?thesis using readn_loop_front [of "int n" es buf 0 "int n"] assms(1,2) by (intro that [of es']) (simp_all add: readn_def)
qed

section \<open>Reading at a gap\<close>

lemma readn_loop_gap:
  assumes "clean es" and "int (length (stream es)) < left" and "pos + nat left \<le> length buf"
  shows "readn_loop len (es @ Recv_err EAGAIN # fs) buf pos left =
    Some (len - left + int (length (stream es)), take pos buf @ stream es @ drop (pos + length (stream es)) buf, fs)"
  using assms
proof (induction "length es + length (stream es)" arbitrary: es buf pos left rule: less_induct)
  case less
  have left: "0 < left" using less.prems(2) by linarith
  show ?case
  proof (cases es)
    case Nil
    then show ?thesis using left by (subst readn_loop.simps) simp
  next
    case (Cons e es1)
    show ?thesis
    proof (cases e)
      case (Arrive bs)
      have bs: "bs \<noteq> []" "clean es1" using less.prems(1) Cons Arrive by auto
      have n: "\<not> nat left < length bs" "length bs \<le> nat left" using less.prems(2) Cons Arrive by auto
      let ?b = "take pos buf @ bs @ drop (pos + length bs) buf"
      have w: "wrn buf pos bs = Some ?b" using n(2) less.prems(3) by simp
      have "readn_loop len (es1 @ Recv_err EAGAIN # fs) ?b (pos + length bs) (left - int (length bs)) =
          Some (len - (left - int (length bs)) + int (length (stream es1)),
            take (pos + length bs) ?b @ stream es1 @ drop (pos + length bs + length (stream es1)) ?b, fs)"
        by (rule less.hyps) (use less.prems n bs Cons Arrive in auto)
      moreover have "take (pos + length bs) ?b @ stream es1 @ drop (pos + length bs + length (stream es1)) ?b =
          take pos buf @ (bs @ stream es1) @ drop (pos + length (bs @ stream es1)) buf"
        using n(2) less.prems(3) by (simp add: ac_simps min_def)
      ultimately show ?thesis using left bs(1) n w Cons Arrive
        by (subst readn_loop.simps) (simp add: algebra_simps)
    next
      case (Recv_err x)
      have x: "x = EINTR" "clean es1" using less.prems(1) Cons Recv_err by auto
      have "readn_loop len (es1 @ Recv_err EAGAIN # fs) buf pos left =
          Some (len - left + int (length (stream es1)), take pos buf @ stream es1 @ drop (pos + length (stream es1)) buf, fs)"
        by (rule less.hyps) (use less.prems x Cons Recv_err in auto)
      then show ?thesis using left x Cons Recv_err by (subst readn_loop.simps) simp
    qed
  qed
qed

lemma readn_gap:
  assumes "clean es" and "length (stream es) < n" and "n \<le> length buf"
  shows "readn (es @ Recv_err EAGAIN # fs) buf (int n) =
    Some (int (length (stream es)), stream es @ drop (length (stream es)) buf, fs)"
  using readn_loop_gap [of es "int n" 0 buf "int n" fs] assms by (simp add: readn_def)

section \<open>Messages in bursts\<close>

text \<open>
  \<open>bursts ms rest es\<close>: the script delivers the messages \<open>ms\<close>, cut into pieces in any way, and behind them \<open>rest\<close>;
  a gap comes only in front of a message, never inside one.
\<close>

inductive bursts :: "byte list list \<Rightarrow> byte list \<Rightarrow> recv_event list \<Rightarrow> bool" where
  last: "clean es \<Longrightarrow> stream es = concat ms @ rest \<Longrightarrow> bursts ms rest es"
| gap: "clean es0 \<Longrightarrow> stream es0 = [] \<Longrightarrow> bursts ms rest es \<Longrightarrow> bursts ms rest (es0 @ Recv_err EAGAIN # es)"
| burst: "ms1 \<noteq> [] \<Longrightarrow> clean es1 \<Longrightarrow> stream es1 = concat ms1 \<Longrightarrow> bursts ms2 rest es2 \<Longrightarrow> bursts (ms1 @ ms2) rest (es1 @ es2)"

lemma stream_append [simp]: "stream (es @ fs) = stream es @ stream fs"
  by (simp add: stream_def)

lemma bursts_quiet:
  "bursts ms rest es \<Longrightarrow> clean es0 \<Longrightarrow> stream es0 = [] \<Longrightarrow> bursts ms rest (es0 @ es)"
proof (induction rule: bursts.induct)
  case (last es ms rest)
  then show ?case by (intro bursts.last) simp_all
next
  case (gap es1 ms rest es)
  then show ?case using bursts.gap [of "es0 @ es1" ms rest es] by simp
next
  case (burst ms1 es1 ms2 rest es2)
  then show ?case using bursts.burst [of ms1 "es0 @ es1" ms2 rest es2] by simp
qed

text \<open>In front of a message, there is a gap, or the whole message can be read.\<close>

lemma bursts_next:
  assumes "bursts (m # ms) rest es"
  obtains (gap) es0 es1 where "es = es0 @ Recv_err EAGAIN # es1" and "clean es0" and "stream es0 = []" and "bursts (m # ms) rest es1"
  | (message) es1 es2 tl where "es = es1 @ es2" and "clean es1" and "stream es1 = m @ tl"
      and "\<And>es1'. clean es1' \<Longrightarrow> stream es1' = tl \<Longrightarrow> bursts ms rest (es1' @ es2)"
  using assms
proof (cases rule: bursts.cases)
  case last
  show ?thesis
    by (rule message [of es "[]" "concat ms @ rest"]) (use last in \<open>auto intro: bursts.last\<close>)
next
  case (gap es0 es1)
  then show ?thesis by (intro that(1))
next
  case (burst ms1 es1 ms2 es2)
  then obtain ms1' where ms1: "ms1 = m # ms1'" "ms = ms1' @ ms2" by (cases ms1) auto
  have "bursts ms rest (es1' @ es2)" if "clean es1'" "stream es1' = concat ms1'" for es1'
    using that burst(6) bursts.burst [of ms1' es1' ms2 rest es2] bursts_quiet [of ms2 rest es2 es1'] ms1(2)
    by (cases "ms1' = []") auto
  then show ?thesis using burst ms1(1) by (intro message [of es1 es2 "concat ms1'"]) simp_all
qed

text \<open>The next read that does not get a signal finds nothing.\<close>

fun at_gap :: "recv_event list \<Rightarrow> bool" where
  "at_gap (Recv_err e # es) = (e = EAGAIN \<or> e = EINTR \<and> at_gap es)"
| "at_gap _ = False"

lemma at_gap_quiet: "clean es0 \<Longrightarrow> stream es0 = [] \<Longrightarrow> at_gap (es0 @ Recv_err EAGAIN # es1)"
  by (induction es0 rule: at_gap.induct) auto

lemma at_gap_message: "clean es1 \<Longrightarrow> stream es1 \<noteq> [] \<Longrightarrow> \<not> at_gap (es1 @ es2)"
  by (induction es1 rule: at_gap.induct) auto

lemma at_gap_clean: "clean es \<Longrightarrow> \<not> at_gap es"
  by (induction es rule: at_gap.induct) auto

end
