(* ===== verification/MoDmm.thy ===== *)
theory MoDmm
  imports MoConn MoBursts MoSearch MoCheck MoFile
begin

text \<open>
  The data side of the client, \<open>moSdk/Cps/Client/src/moCpsClient.c\<close>: the functions that decrypt, the
  thread that receives the blocks of a file, and the memory in which the blocks are collected
  (functions \<open>dmm...\<close>).

  \<open>gpDmmData\<close> is \<open>None\<close> for \<open>NULL\<close>. The functions run under \<open>gDmmMutex\<close>; only one thread calls them.
\<close>

type_synonym u64 = "64 word"

abbreviation (input) DMM_SIZE :: nat where "DMM_SIZE \<equiv> 4194304"
abbreviation (input) MOCPS_DATA_BODY_BLK_MAXSIZE :: nat where "MOCPS_DATA_BODY_BLK_MAXSIZE \<equiv> 1024"
abbreviation (input) sizeof_DATA_HEADER :: nat where "sizeof_DATA_HEADER \<equiv> 48"

section \<open>Decryption\<close>

text \<open>All four functions copy; the calls of the ciphers are disabled by \<open>#if 0\<close>.\<close>

definition decryptWithAes :: "byte list \<Rightarrow> byte list \<Rightarrow> nat \<Rightarrow> int \<Rightarrow> (int \<times> byte list) option" where
  "decryptWithAes pCipher pPlain off len = memcpyTo pCipher len pPlain off"

definition decryptWithDes :: "byte list \<Rightarrow> byte list \<Rightarrow> nat \<Rightarrow> int \<Rightarrow> (int \<times> byte list) option" where
  "decryptWithDes pCipher pPlain off len = memcpyTo pCipher len pPlain off"

definition decryptWithDes3 :: "byte list \<Rightarrow> byte list \<Rightarrow> nat \<Rightarrow> int \<Rightarrow> (int \<times> byte list) option" where
  "decryptWithDes3 pCipher pPlain off len = memcpyTo pCipher len pPlain off"

definition decryptWithRc4 :: "byte list \<Rightarrow> byte list \<Rightarrow> nat \<Rightarrow> int \<Rightarrow> (int \<times> byte list) option" where
  "decryptWithRc4 pCipher pPlain off len = memcpyTo pCipher len pPlain off"

definition doDecrypt2Resp :: "MOCPS_CRYPT_INFO \<Rightarrow> byte list \<Rightarrow> byte list \<Rightarrow> nat \<Rightarrow> int \<Rightarrow> (int \<times> byte list) option" where
  "doDecrypt2Resp info pCipher pPlain off len =
     (case cryptAlgoNo info of
        MOCPS_CRYPT_ALGO_AES \<Rightarrow> decryptWithAes pCipher pPlain off len
      | MOCPS_CRYPT_ALGO_DES \<Rightarrow> decryptWithDes pCipher pPlain off len
      | MOCPS_CRYPT_ALGO_DES3 \<Rightarrow> decryptWithDes3 pCipher pPlain off len
      | MOCPS_CRYPT_ALGO_RC4 \<Rightarrow> decryptWithRc4 pCipher pPlain off len
      | _ \<Rightarrow> Some (-2, pPlain))"

lemma doDecrypt2Resp_copies: "copies info \<Longrightarrow> doDecrypt2Resp info src dst off len = memcpyTo src len dst off"
  by (auto simp: copies_def doDecrypt2Resp_def decryptWithAes_def decryptWithDes_def decryptWithDes3_def decryptWithRc4_def)

section \<open>Headers\<close>

text \<open>The layout on a little-endian 64-bit machine, with three bytes of padding at the end.\<close>

record MOCPS_DATA_RESPONSE_HEADER =
  h_mark :: "byte list"
  h_cmdId :: u32
  h_seqId :: u32
  h_totalLen :: u64
  h_curBlkIdx :: u64
  h_curBlkLen :: u32
  h_checksum :: byte
  h_pad :: "byte list"

definition le64 :: "u64 \<Rightarrow> byte list" where
  "le64 w = le32 (ucast w) @ le32 (ucast (drop_bit 32 w))"

definition un_le64 :: "byte list \<Rightarrow> u64" where
  "un_le64 bs = ucast (un_le32 (take 4 bs)) OR push_bit 32 (ucast (un_le32 (take 4 (drop 4 bs))))"

lemma length_le64 [simp]: "length (le64 w) = 8"
  by (simp add: le64_def)

lemma un_le64_le64 [simp]: "un_le64 (le64 w) = w"
proof (rule bit_word_eqI)
  fix n
  assume "n < LENGTH(64)"
  then have "n < 32 \<or> 32 \<le> n \<and> n < 64" by auto
  then show "bit (un_le64 (le64 w)) n = bit w n"
    by (auto simp: un_le64_def le64_def bit_or_iff bit_push_bit_iff bit_ucast_iff bit_drop_bit_eq)
qed

definition hdr_bytes :: "MOCPS_DATA_RESPONSE_HEADER \<Rightarrow> byte list" where
  "hdr_bytes h = h_mark h @ le32 (h_cmdId h) @ le32 (h_seqId h) @ le64 (h_totalLen h) @ le64 (h_curBlkIdx h) @
     le32 (h_curBlkLen h) @ [h_checksum h] @ h_pad h"

definition bytes_hdr :: "byte list \<Rightarrow> MOCPS_DATA_RESPONSE_HEADER" where
  "bytes_hdr bs = \<lparr>h_mark = take 16 bs, h_cmdId = un_le32 (take 4 (drop 16 bs)), h_seqId = un_le32 (take 4 (drop 20 bs)),
     h_totalLen = un_le64 (take 8 (drop 24 bs)), h_curBlkIdx = un_le64 (take 8 (drop 32 bs)),
     h_curBlkLen = un_le32 (take 4 (drop 40 bs)), h_checksum = bs ! 44, h_pad = take 3 (drop 45 bs)\<rparr>"

definition wf_hdr :: "MOCPS_DATA_RESPONSE_HEADER \<Rightarrow> bool" where
  "wf_hdr h \<longleftrightarrow> length (h_mark h) = 16 \<and> length (h_pad h) = 3"

lemma length_hdr_bytes [simp]: "wf_hdr h \<Longrightarrow> length (hdr_bytes h) = 48"
  by (simp add: wf_hdr_def hdr_bytes_def)

lemma bytes_hdr_bytes [simp]: "wf_hdr h \<Longrightarrow> bytes_hdr (hdr_bytes h) = h"
  by (simp add: wf_hdr_def hdr_bytes_def bytes_hdr_def nth_append)

definition isRightFormatHeader :: "MOCPS_DATA_RESPONSE_HEADER \<Rightarrow> bool option" where
  "isRightFormatHeader h =
     (if \<not> mark_is (h_mark h) MOCPS_MARK_SERVER then Some False
      else if h_cmdId h \<ge> MOCPS_CMDID_MAX then Some False
      else do {
        ret \<leftarrow> moUtils_Check_checkSum (Some (hdr_bytes h)) (sizeof_DATA_HEADER - 4) (h_checksum h);
        Some (0 \<le> ret)
      })"

section \<open>Receiving\<close>

text \<open>
  The loop of \<open>recvHeadAndCheck\<close>. \<open>&plain + n\<close> is a pointer \<open>n\<close> whole structs behind \<open>plain\<close>, so the
  bytes that are copied from there are not those of \<open>plain\<close>: the offset is \<open>48 * n\<close> bytes.
\<close>

partial_function (option) recvHead ::
    "MOCPS_CRYPT_INFO \<Rightarrow> byte list \<Rightarrow> nat \<Rightarrow> int \<Rightarrow> CONN \<Rightarrow> (int \<times> MOCPS_DATA_RESPONSE_HEADER option \<times> CONN) option" where
  "recvHead info cipher cipherOffset cipherLen c = do {
     (ret, left, c) \<leftarrow> conn_readn c (drop cipherOffset cipher) cipherLen;
     if ret \<noteq> cipherLen then Some (-1, None, c)
     else do {
       let cipher = take cipherOffset cipher @ left;
       (ret, plain) \<leftarrow> doDecrypt2Resp info (drop cipherOffset cipher) cipher cipherOffset cipherLen;
       if ret < 0 then Some (-2, None, c)
       else do {
         ret \<leftarrow> moUtils_Search_BF (Some plain) sizeof_DATA_HEADER (Some MOCPS_MARK_SERVER) (length MOCPS_MARK_SERVER);
         right \<leftarrow> (if ret = 0 then isRightFormatHeader (bytes_hdr plain) else Some False);
         if right then Some (0, Some (bytes_hdr plain), c)
         else if ret \<le> 0 then do {
           keep \<leftarrow> rdn plain (48 * (sizeof_DATA_HEADER - length MOCPS_MARK_SERVER + 1)) (length MOCPS_MARK_SERVER - 1);
           cipher \<leftarrow> wrn (replicate sizeof_DATA_HEADER 0) 0 keep;
           recvHead info cipher (length MOCPS_MARK_SERVER - 1) (int (sizeof_DATA_HEADER - length MOCPS_MARK_SERVER + 1)) c
         }
         else do {
           keep \<leftarrow> rdn plain (48 * nat ret) (sizeof_DATA_HEADER - nat ret);
           cipher \<leftarrow> wrn (replicate sizeof_DATA_HEADER 0) 0 keep;
           recvHead info cipher (sizeof_DATA_HEADER - nat ret) ret c
         }
       }
     }
   }"

definition recvHeadAndCheck :: "MOCPS_CRYPT_INFO \<Rightarrow> CONN \<Rightarrow> (int \<times> MOCPS_DATA_RESPONSE_HEADER option \<times> CONN) option" where
  "recvHeadAndCheck info c = recvHead info (replicate sizeof_DATA_HEADER 0) 0 (int sizeof_DATA_HEADER) c"

definition recvBody :: "int \<Rightarrow> byte list \<Rightarrow> CONN \<Rightarrow> (int \<times> byte list \<times> CONN) option" where
  "recvBody blkLen pBlk c = do {
     (readLen, pBlk, c) \<leftarrow> conn_readn c pBlk blkLen;
     Some (if readLen \<noteq> blkLen then -2 else 0, pBlk, c)
   }"

section \<open>Collecting blocks\<close>

record DMM =
  gpDmmData :: "byte list option"
  d_seqId :: u32
  d_totalLen :: u64
  d_totalBlkNum :: u64
  d_curSaveBlkNum :: u64

definition clearDatainfo :: "DMM \<Rightarrow> DMM" where
  "clearDatainfo d = d\<lparr>d_seqId := 0, d_totalLen := 0, d_totalBlkNum := 0, d_curSaveBlkNum := 0\<rparr>"

text \<open>\<open>fresh\<close> is what \<open>malloc\<close> returns: \<open>NULL\<close>, or memory with some contents.\<close>

definition dmmInit :: "byte list option \<Rightarrow> DMM \<Rightarrow> int \<times> DMM" where
  "dmmInit fresh d =
     (if gpDmmData d \<noteq> None then (-1, d)
      else if fresh = None then (-2, d)
      else (0, clearDatainfo (d\<lparr>gpDmmData := fresh\<rparr>)))"

definition dmmUnInit :: "DMM \<Rightarrow> DMM" where
  "dmmUnInit d = d\<lparr>gpDmmData := None\<rparr>"

definition dmmClear :: "DMM \<Rightarrow> DMM option" where
  "dmmClear d = do {
     data \<leftarrow> gpDmmData d;
     data \<leftarrow> wrn data 0 (replicate DMM_SIZE 0);
     Some (clearDatainfo (d\<lparr>gpDmmData := Some data\<rparr>))
   }"

text \<open>The loop over the first 16 bytes of the block's place: how many of \<open>n\<close> bytes from \<open>off\<close> on are zero.\<close>

fun zerosAt :: "byte list \<Rightarrow> nat \<Rightarrow> nat \<Rightarrow> nat option" where
  "zerosAt data off 0 = Some 0"
| "zerosAt data off (Suc n) = do {
     b \<leftarrow> rd data off;
     if b = 0 then map_option Suc (zerosAt data (Suc off) n) else Some 0
   }"

definition dmmSaveCurBodyBlk :: "MOCPS_DATA_RESPONSE_HEADER \<Rightarrow> byte list \<Rightarrow> DMM \<Rightarrow> (int \<times> DMM) option" where
  "dmmSaveCurBodyBlk h pCurBlk d =
     (if unat (h_totalLen h) > DMM_SIZE \<or> h_totalLen h = 0 then Some (-1, d)
      else do {
        d \<leftarrow> (if d_seqId d \<noteq> h_seqId h then dmmClear d else Some d);
        data \<leftarrow> gpDmmData d;
        let offset = unat (ucast (h_curBlkIdx h * 1024) :: u32);
        i \<leftarrow> zerosAt data offset 16;
        if i < 16 then Some (0, d)
        else do {
          bs \<leftarrow> rdn pCurBlk 0 (unat (h_curBlkLen h));
          data \<leftarrow> wrn data offset bs;
          Some (0, d\<lparr>gpDmmData := Some data, d_seqId := h_seqId h, d_totalLen := h_totalLen h,
            d_totalBlkNum := (if h_totalLen h div 1024 + h_totalLen h mod 1024 \<noteq> 0 then 1 else 0),
            d_curSaveBlkNum := d_curSaveBlkNum d + 1\<rparr>)
        }
      })"

definition dmmIsCompleteData :: "DMM \<Rightarrow> bool" where
  "dmmIsCompleteData d \<longleftrightarrow> d_totalLen d \<noteq> 0 \<and> d_totalBlkNum d = d_curSaveBlkNum d"

section \<open>The receiving thread\<close>

datatype RECVDATA_STATE = RECVDATA_STATE_RECVHEAD | RECVDATA_STATE_RECVBODY

text \<open>
  The local variables of the thread, the data it shares, and what it has handed to the callback, with
  the length it reports. After \<open>exit(-1)\<close> nothing more happens (\<open>r_exited\<close>).
\<close>

record RECVDATA =
  recvState :: RECVDATA_STATE
  r_header :: MOCPS_DATA_RESPONSE_HEADER
  r_dmm :: DMM
  r_conn :: CONN
  delivered :: "(byte list \<times> u64) list"
  r_exited :: bool

text \<open>The body of the loop when the socket is readable.\<close>

definition recvDataBody :: "MOCPS_CRYPT_INFO \<Rightarrow> RECVDATA \<Rightarrow> RECVDATA option" where
  "recvDataBody info r =
     (if r_exited r then Some r
      else case recvState r of
        RECVDATA_STATE_RECVHEAD \<Rightarrow> do {
          (ret, h, c) \<leftarrow> recvHeadAndCheck info (r_conn r);
          case h of
            None \<Rightarrow> Some (r\<lparr>r_conn := c, r_exited := True\<rparr>)
          | Some header \<Rightarrow> Some (r\<lparr>r_conn := c, r_header := header, recvState := RECVDATA_STATE_RECVBODY\<rparr>)
        }
      | RECVDATA_STATE_RECVBODY \<Rightarrow> do {
          (ret, curBlk, c) \<leftarrow> recvBody (sint (h_curBlkLen (r_header r))) (replicate MOCPS_DATA_BODY_BLK_MAXSIZE 0) (r_conn r);
          if ret < 0 then Some (r\<lparr>r_conn := c, recvState := RECVDATA_STATE_RECVHEAD\<rparr>)
          else do {
            (ret, d) \<leftarrow> dmmSaveCurBodyBlk (r_header r) curBlk (r_dmm r);
            if dmmIsCompleteData d then do {
              data \<leftarrow> gpDmmData d;
              d' \<leftarrow> dmmClear d;
              Some (r\<lparr>r_conn := c, r_dmm := d', delivered := delivered r @ [(data, h_totalLen (r_header r))],
                recvState := RECVDATA_STATE_RECVHEAD\<rparr>)
            }
            else Some (r\<lparr>r_conn := c, r_dmm := d\<rparr>)
          }
        })"

text \<open>
  A pass of the loop: \<open>select\<close> returns 0 while there is nothing to read. In the script this is a gap in front of
  the next byte; the pass lets it go by. Otherwise the socket is readable.
\<close>

fun gapPasses :: "recv_event list \<Rightarrow> recv_event list option" where
  "gapPasses (Recv_err EINTR # es) = gapPasses es"
| "gapPasses (Recv_err EAGAIN # es) = Some es"
| "gapPasses es = None"

definition recvDataTurn :: "MOCPS_CRYPT_INFO \<Rightarrow> RECVDATA \<Rightarrow> RECVDATA option" where
  "recvDataTurn info r =
     (case gapPasses (c_in (r_conn r)) of
        Some es \<Rightarrow> Some (r\<lparr>r_conn := (r_conn r)\<lparr>c_in := es\<rparr>\<rparr>)
      | None \<Rightarrow> recvDataBody info r)"

fun recvDataThr :: "nat \<Rightarrow> MOCPS_CRYPT_INFO \<Rightarrow> RECVDATA \<Rightarrow> RECVDATA option" where
  "recvDataThr 0 info r = Some r"
| "recvDataThr (Suc n) info r = do {
     r \<leftarrow> recvDataTurn info r;
     recvDataThr n info r
   }"

lemma gapPasses_gap: "clean es0 \<Longrightarrow> stream es0 = [] \<Longrightarrow> gapPasses (es0 @ Recv_err EAGAIN # es) = Some es"
  by (induction es0 rule: gapPasses.induct) auto

lemma gapPasses_bytes: "clean es1 \<Longrightarrow> stream es1 \<noteq> [] \<Longrightarrow> gapPasses (es1 @ es2) = None"
  by (induction es1 rule: gapPasses.induct) auto

lemma gapPasses_clean: "clean es \<Longrightarrow> gapPasses es = None"
  by (induction es rule: gapPasses.induct) auto

lemma recvDataTurn_clean: "clean (c_in (r_conn r)) \<Longrightarrow> recvDataTurn info r = recvDataBody info r"
  by (simp add: recvDataTurn_def gapPasses_clean)

lemma conn_readn_front:
  assumes "c_in c = es1 @ es2" and "clean es1" and "n \<le> length (stream es1)" and "n \<le> length buf"
  obtains es1' where "conn_readn c buf (int n) = Some (int n, take n (stream es1) @ drop n buf, c\<lparr>c_in := es1' @ es2\<rparr>)"
    and "clean es1'" and "stream es1' = drop n (stream es1)"
proof -
  obtain es1' where "readn (es1 @ es2) buf (int n) = Some (int n, take n (stream es1) @ drop n buf, es1' @ es2)"
    "clean es1'" "stream es1' = drop n (stream es1)"
    by (rule readn_front [OF assms(2-4)])
  then show ?thesis by (intro that [of es1']) (simp_all add: conn_readn_def assms(1))
qed

lemma conn_readn_gap:
  assumes "c_in c = es1 @ Recv_err EAGAIN # es2" and "clean es1" and "length (stream es1) < n" and "n \<le> length buf"
  shows "conn_readn c buf (int n) = Some (int (length (stream es1)), stream es1 @ drop (length (stream es1)) buf, c\<lparr>c_in := es2\<rparr>)"
  using readn_gap [OF assms(2-4), of es2] by (simp add: conn_readn_def assms(1))

section \<open>A header that arrives\<close>

definition good_header :: "MOCPS_DATA_RESPONSE_HEADER \<Rightarrow> bool" where
  "good_header h \<longleftrightarrow> wf_hdr h \<and> h_mark h = mark_field MOCPS_MARK_SERVER \<and> h_cmdId h < MOCPS_CMDID_MAX \<and>
     h_checksum h = sum_list (take 44 (hdr_bytes h))"

lemma good_header_format: "good_header h \<Longrightarrow> isRightFormatHeader h = Some True"
  by (simp add: good_header_def isRightFormatHeader_def mark_is_def mark_field_def checkSum_eq not_le)

lemma good_header_mark:
  assumes "good_header h"
  shows "moUtils_Search_BF (Some (hdr_bytes h)) 48 (Some MOCPS_MARK_SERVER) 12 = Some 0"
proof -
  have "length (hdr_bytes h) = 48" using assms by (simp add: good_header_def)
  moreover have "occurs (hdr_bytes h) MOCPS_MARK_SERVER 0"
    using assms \<open>length (hdr_bytes h) = 48\<close> by (simp add: good_header_def occurs_def hdr_bytes_def mark_field_def)
  then have "search_spec (hdr_bytes h) MOCPS_MARK_SERVER = int 0" by (rule search_spec_found) simp
  ultimately show ?thesis
    using moUtils_Search_BF_correct [of 12 "hdr_bytes h" MOCPS_MARK_SERVER] by (simp add: search_input_def)
qed

lemma recvHeadAndCheck_good:
  assumes "good_header h" and "copies info" and "c_in c = es1 @ es2" and "clean es1" and "stream es1 = hdr_bytes h @ rest"
  obtains es1' where "recvHeadAndCheck info c = Some (0, Some h, c\<lparr>c_in := es1' @ es2\<rparr>)" and "clean es1'" and "stream es1' = rest"
proof -
  have l: "length (hdr_bytes h) = 48" "bytes_hdr (hdr_bytes h) = h" using assms(1) by (simp_all add: good_header_def)
  obtain es where es: "conn_readn c (replicate 48 0) (int 48) = Some (int 48, take 48 (stream es1) @ drop 48 (replicate 48 0), c\<lparr>c_in := es @ es2\<rparr>)"
    "clean es" "stream es = drop 48 (stream es1)"
    by (rule conn_readn_front [OF assms(3,4), of 48 "replicate 48 0"]) (use assms(5) l in auto)
  then have "conn_readn c (replicate 48 0) 48 = Some (48, hdr_bytes h, c\<lparr>c_in := es @ es2\<rparr>)" "stream es = rest"
    using assms(5) l by simp_all
  moreover have "doDecrypt2Resp info (hdr_bytes h) (hdr_bytes h) 0 48 = Some (0, hdr_bytes h)"
    using memcpyTo_ok [of 48 "hdr_bytes h" 0 "hdr_bytes h"] l assms(2) by (simp add: doDecrypt2Resp_copies)
  ultimately show ?thesis using es(2) l good_header_format [OF assms(1)] good_header_mark [OF assms(1)]
    by (intro that [of es]) (simp_all add: recvHeadAndCheck_def recvHead.simps)
qed

section \<open>A block that arrives\<close>

abbreviation DMM_zero :: DMM where
  "DMM_zero \<equiv> \<lparr>gpDmmData = Some (replicate DMM_SIZE 0), d_seqId = 0, d_totalLen = 0, d_totalBlkNum = 0, d_curSaveBlkNum = 0\<rparr>"

definition placed :: "nat \<Rightarrow> byte list \<Rightarrow> byte list" where
  "placed off blk = replicate off 0 @ blk @ replicate (DMM_SIZE - off - length blk) 0"

lemma zerosAt_replicate: "off + n \<le> N \<Longrightarrow> zerosAt (replicate N 0) off n = Some n"
  by (induction n arbitrary: off) simp_all

lemma zerosAt_out: "length data \<le> off \<Longrightarrow> 0 < n \<Longrightarrow> zerosAt data off n = None"
  by (cases n) simp_all

lemma zerosAt_first: "b \<noteq> 0 \<Longrightarrow> 0 < n \<Longrightarrow> zerosAt (b # bs) 0 n = Some 0"
  by (cases n) simp_all

text \<open>The header of block \<open>i\<close> of a file of \<open>L\<close> bytes.\<close>

definition describes :: "MOCPS_DATA_RESPONSE_HEADER \<Rightarrow> nat \<Rightarrow> nat \<Rightarrow> byte list \<Rightarrow> bool" where
  "describes h L i blk \<longleftrightarrow> good_header h \<and> h_totalLen h = of_nat L \<and> h_curBlkIdx h = of_nat i \<and> h_curBlkLen h = of_nat (length blk)"

lemma blkNum_nonzero:
  assumes "0 < L" and "L \<le> DMM_SIZE"
  shows "(of_nat L :: u64) div 1024 + of_nat L mod 1024 \<noteq> 0"
proof -
  have L: "unat (of_nat L :: u64) = L" using assms(2) by (simp add: unat_of_nat)
  have "L div 1024 \<le> L" "L mod 1024 < 1024" by simp_all
  then have "L div 1024 + L mod 1024 < 2 ^ 64" using assms(2) by simp
  then have "unat ((of_nat L :: u64) div 1024 + of_nat L mod 1024) = L div 1024 + L mod 1024"
    by (simp add: unat_word_ariths(1) unat_div unat_mod L)
  moreover have "L div 1024 + L mod 1024 \<noteq> 0" using assms(1) div_mult_mod_eq [of L 1024] by (metis add_is_0 mult_is_0 less_irrefl)
  ultimately show ?thesis by (metis unat_0)
qed

lemma dmmSave_zero:
  assumes "describes h L i blk" and "0 < L" and "L \<le> DMM_SIZE" and "1024 * i < L" and "length blk \<le> 1024"
    and "length blk \<le> length buf"
  shows "\<exists>d. dmmSaveCurBodyBlk h (blk @ drop (length blk) buf) DMM_zero = Some (0, d) \<and> dmmIsCompleteData d \<and>
    gpDmmData d = Some (placed (1024 * i) blk) \<and> dmmClear d = Some DMM_zero"
proof -
  have L: "unat (of_nat L :: u64) = L" using assms(3) by (simp add: unat_of_nat)
  have Lnz: "(of_nat L :: u64) \<noteq> 0" using L assms(2) by (metis less_irrefl unat_0)
  have i: "i \<le> 4096" "1024 * i + 1024 \<le> DMM_SIZE" using assms(3,4) by auto
  have off: "unat (ucast (of_nat i * 1024 :: u64) :: u32) = 1024 * i"
    using i by (simp add: unsigned_ucast_eq unat_word_ariths(2) unat_of_nat take_bit_eq_mod mult.commute)
  have len: "unat (of_nat (length blk) :: u32) = length blk" using assms(5) by (simp add: unat_of_nat)
  have clear: "dmmClear DMM_zero = Some DMM_zero" by (simp add: dmmClear_def clearDatainfo_def)
  have z: "zerosAt (replicate DMM_SIZE 0) (1024 * i) 16 = Some 16" using i by (intro zerosAt_replicate) simp
  have w: "wrn (replicate DMM_SIZE 0) (1024 * i) blk = Some (placed (1024 * i) blk)"
    using i assms(5) by (simp add: placed_def)
  have lp: "length (placed (1024 * i) blk) = DMM_SIZE" using i assms(5) by (simp add: placed_def)
  have pre: "(if d_seqId DMM_zero \<noteq> h_seqId h then dmmClear DMM_zero else Some DMM_zero) = Some DMM_zero"
    by (simp only: clear if_cancel)
  have save: "dmmSaveCurBodyBlk h (blk @ drop (length blk) buf) DMM_zero =
      Some (0, \<lparr>gpDmmData = Some (placed (1024 * i) blk), d_seqId = h_seqId h, d_totalLen = of_nat L, d_totalBlkNum = 1, d_curSaveBlkNum = 1\<rparr>)"
    unfolding dmmSaveCurBodyBlk_def pre using assms(1,3,6) L Lnz off len z w blkNum_nonzero [OF assms(2,3)]
    by (simp add: describes_def)
  show ?thesis unfolding save using Lnz lp
    by (simp add: dmmIsCompleteData_def dmmClear_def clearDatainfo_def)
qed

text \<open>
  The thread waits for a header, with a cleared memory. For a header with a new sequence number the memory
  need not be cleared, because \<open>dmmSaveCurBodyBlk\<close> then does so.
\<close>

definition ready :: "RECVDATA \<Rightarrow> bool" where
  "ready r \<longleftrightarrow> recvState r = RECVDATA_STATE_RECVHEAD \<and> \<not> r_exited r \<and> r_dmm r = DMM_zero"

definition ready_for :: "MOCPS_DATA_RESPONSE_HEADER \<Rightarrow> RECVDATA \<Rightarrow> bool" where
  "ready_for h r \<longleftrightarrow> recvState r = RECVDATA_STATE_RECVHEAD \<and> \<not> r_exited r \<and>
     (r_dmm r = DMM_zero \<or> d_seqId (r_dmm r) \<noteq> h_seqId h \<and> map_option length (gpDmmData (r_dmm r)) = Some DMM_SIZE)"

lemma dmmClear_any: "map_option length (gpDmmData d) = Some DMM_SIZE \<Longrightarrow> dmmClear d = Some DMM_zero"
  by (auto simp: dmmClear_def clearDatainfo_def wrn_def)

lemma dmmSave_ready:
  assumes "d = DMM_zero \<or> d_seqId d \<noteq> h_seqId h \<and> map_option length (gpDmmData d) = Some DMM_SIZE"
  shows "dmmSaveCurBodyBlk h buf d = dmmSaveCurBodyBlk h buf DMM_zero \<or> unat (h_totalLen h) > DMM_SIZE \<or> h_totalLen h = 0"
proof -
  have z: "(if d_seqId DMM_zero \<noteq> h_seqId h then dmmClear DMM_zero else Some DMM_zero) = Some DMM_zero"
    by (simp add: dmmClear_any)
  show ?thesis
  proof (cases "d = DMM_zero")
    case False
    then have "(if d_seqId d \<noteq> h_seqId h then dmmClear d else Some d) = Some DMM_zero" using assms by (simp add: dmmClear_any)
    then show ?thesis unfolding dmmSaveCurBodyBlk_def z by simp
  qed simp
qed

lemma recvDataThr_add: "recvDataThr (m + n) info r = Option.bind (recvDataThr m info r) (recvDataThr n info)"
  by (induction m arbitrary: r) (auto split: bind_split)

text \<open>The gaps in front of a message pass.\<close>

lemma recvDataThr_gaps:
  assumes "bursts (m # ms) rest (c_in (r_conn r))" and "m \<noteq> []"
  obtains n es1 es2 tl where "recvDataThr n info r = Some (r\<lparr>r_conn := (r_conn r)\<lparr>c_in := es1 @ es2\<rparr>\<rparr>)" and "clean es1"
    and "stream es1 = m @ tl" and "gapPasses (es1 @ es2) = None"
    and "\<And>es1'. clean es1' \<Longrightarrow> stream es1' = tl \<Longrightarrow> bursts ms rest (es1' @ es2)"
proof -
  have "\<exists>n es1 es2 tl. recvDataThr n info r = Some (r\<lparr>r_conn := (r_conn r)\<lparr>c_in := es1 @ es2\<rparr>\<rparr>) \<and> clean es1 \<and> stream es1 = m @ tl \<and>
      (\<forall>es1'. clean es1' \<longrightarrow> stream es1' = tl \<longrightarrow> bursts ms rest (es1' @ es2))"
    using assms(1)
  proof (induction "length (c_in (r_conn r))" arbitrary: r rule: less_induct)
    case less
    from less.prems show ?case
    proof (cases rule: bursts_next)
      case (gap es0 es1)
      let ?r = "r\<lparr>r_conn := (r_conn r)\<lparr>c_in := es1\<rparr>\<rparr>"
      have "recvDataTurn info r = Some ?r" by (simp add: recvDataTurn_def gap(1) gapPasses_gap [OF gap(2,3)])
      moreover obtain n es1' es2 tl where "recvDataThr n info ?r = Some (?r\<lparr>r_conn := (r_conn ?r)\<lparr>c_in := es1' @ es2\<rparr>\<rparr>)" "clean es1'"
        "stream es1' = m @ tl" "\<forall>es. clean es \<longrightarrow> stream es = tl \<longrightarrow> bursts ms rest (es @ es2)"
        using less.hyps [of ?r] gap by auto
      ultimately show ?thesis by (intro exI [of _ "Suc n"] exI [of _ es1'] exI [of _ es2] exI [of _ tl]) simp
    next
      case (message es1 es2 tl)
      have "r\<lparr>r_conn := (r_conn r)\<lparr>c_in := es1 @ es2\<rparr>\<rparr> = r" using message(1) by (cases r) simp
      then show ?thesis using message by (intro exI [of _ 0] exI [of _ es1] exI [of _ es2] exI [of _ tl]) simp
    qed
  qed
  then show ?thesis using that gapPasses_bytes assms(2) by (metis append_is_Nil_conv)
qed

text \<open>Passes of the loop for a header, and for the block behind it.\<close>

lemma recv_block:
  assumes "ready_for h r" and "copies info" and "describes h L i blk" and "0 < L" and "L \<le> DMM_SIZE" and "1024 * i < L"
    and "length blk \<le> 1024" and "blk \<noteq> []" and "bursts (hdr_bytes h # blk # ms) rest (c_in (r_conn r))"
  obtains n r' where "recvDataThr n info r = Some r'" and "ready r'" and "bursts ms rest (c_in (r_conn r'))"
    and "delivered r' = delivered r @ [(placed (1024 * i) blk, of_nat L)]"
proof -
  have r: "recvState r = RECVDATA_STATE_RECVHEAD" "\<not> r_exited r"
    and dm: "r_dmm r = DMM_zero \<or> d_seqId (r_dmm r) \<noteq> h_seqId h \<and> map_option length (gpDmmData (r_dmm r)) = Some DMM_SIZE"
    using assms(1) by (simp_all add: ready_for_def)
  have gh: "good_header h" using assms(3) by (simp add: describes_def)
  then have lh: "length (hdr_bytes h) = 48" by (simp add: good_header_def)
  then have "hdr_bytes h \<noteq> []" by auto
  then obtain n1 es1 es2 tl where 1: "recvDataThr n1 info r = Some (r\<lparr>r_conn := (r_conn r)\<lparr>c_in := es1 @ es2\<rparr>\<rparr>)" "clean es1"
    "stream es1 = hdr_bytes h @ tl" "gapPasses (es1 @ es2) = None"
    "\<And>es. clean es \<Longrightarrow> stream es = tl \<Longrightarrow> bursts (blk # ms) rest (es @ es2)"
    using recvDataThr_gaps [OF assms(9), of info] by metis
  let ?c = "(r_conn r)\<lparr>c_in := es1 @ es2\<rparr>"
  obtain es where es: "recvHeadAndCheck info ?c = Some (0, Some h, ?c\<lparr>c_in := es @ es2\<rparr>)" "clean es" "stream es = tl"
    by (rule recvHeadAndCheck_good [OF gh assms(2) _ 1(2,3), of ?c es2]) simp
  let ?r1 = "r\<lparr>r_conn := (r_conn r)\<lparr>c_in := es @ es2\<rparr>, r_header := h, recvState := RECVDATA_STATE_RECVBODY\<rparr>"
  have head: "recvDataThr (n1 + 1) info r = Some ?r1"
    unfolding recvDataThr_add 1(1) using r 1(4) es(1) by (simp add: recvDataTurn_def recvDataBody_def)
  have "bursts (blk # ms) rest (c_in (r_conn ?r1))" using 1(5) [OF es(2,3)] by simp
  then obtain n2 fs1 fs2 tl2 where 2: "recvDataThr n2 info ?r1 = Some (?r1\<lparr>r_conn := (r_conn ?r1)\<lparr>c_in := fs1 @ fs2\<rparr>\<rparr>)" "clean fs1"
    "stream fs1 = blk @ tl2" "gapPasses (fs1 @ fs2) = None"
    "\<And>es. clean es \<Longrightarrow> stream es = tl2 \<Longrightarrow> bursts ms rest (es @ fs2)"
    using recvDataThr_gaps [OF _ assms(8), of ms rest ?r1 info] by metis
  let ?r2 = "?r1\<lparr>r_conn := (r_conn r)\<lparr>c_in := fs1 @ fs2\<rparr>\<rparr>"
  have len: "sint (h_curBlkLen h) = int (length blk)"
    using assms(3,7) by (simp add: describes_def sint_uint signed_take_bit_int_eq_self unat_of_nat uint_nat)
  let ?buf = "replicate 1024 0 :: byte list"
  obtain gs where gs: "conn_readn (r_conn ?r2) ?buf (int (length blk)) =
      Some (int (length blk), take (length blk) (stream fs1) @ drop (length blk) ?buf, (r_conn ?r2)\<lparr>c_in := gs @ fs2\<rparr>)"
    "clean gs" "stream gs = drop (length blk) (stream fs1)"
    by (rule conn_readn_front [of "r_conn ?r2" fs1 fs2 "length blk" ?buf]) (use 2(2,3) assms(7) in auto)
  have b: "recvBody (int (length blk)) ?buf (r_conn ?r2) = Some (0, blk @ drop (length blk) ?buf, (r_conn ?r2)\<lparr>c_in := gs @ fs2\<rparr>)"
    unfolding recvBody_def gs(1) using 2(3) by simp
  obtain d where d: "dmmSaveCurBodyBlk h (blk @ drop (length blk) ?buf) DMM_zero = Some (0, d)" "dmmIsCompleteData d"
    "gpDmmData d = Some (placed (1024 * i) blk)" "dmmClear d = Some DMM_zero"
    using dmmSave_zero [OF assms(3-7), of ?buf] assms(7) by auto
  have "unat (h_totalLen h) = L" using assms(3,5) by (simp add: describes_def unat_of_nat)
  then have "\<not> (unat (h_totalLen h) > DMM_SIZE \<or> h_totalLen h = 0)" using assms(4,5) by auto
  then have save: "dmmSaveCurBodyBlk h (blk @ drop (length blk) ?buf) (r_dmm r) = Some (0, d)" using dmmSave_ready [OF dm] d(1) by metis
  let ?r3 = "?r1\<lparr>r_conn := (r_conn r)\<lparr>c_in := gs @ fs2\<rparr>, r_dmm := DMM_zero,
    delivered := delivered r @ [(placed (1024 * i) blk, of_nat L)], recvState := RECVDATA_STATE_RECVHEAD\<rparr>"
  have "recvDataBody info ?r2 = Some ?r3"
    using r(2) len b save d assms(3) by (simp add: recvDataBody_def describes_def)
  then have "recvDataTurn info ?r2 = Some ?r3" using 2(4) by (simp add: recvDataTurn_def)
  then have body: "recvDataThr (n2 + 1) info ?r1 = Some ?r3" unfolding recvDataThr_add using 2(1) by simp
  have "recvDataThr ((n1 + 1) + (n2 + 1)) info r = Some ?r3"
    unfolding recvDataThr_add [of "n1 + 1"] head Option.bind.bind_lunit by (rule body)
  moreover have "bursts ms rest (gs @ fs2)" by (rule 2(5)) (use gs 2(3) in auto)
  ultimately show ?thesis using r(2) by (intro that [of "(n1 + 1) + (n2 + 1)" ?r3]) (simp_all add: ready_def)
qed

section \<open>A file that arrives\<close>

lemma ready_for_all: "ready r \<Longrightarrow> ready_for h r"
  by (simp add: ready_def ready_for_def)

lemma recv_blocks:
  assumes "ready r" and "copies info" and "L \<le> DMM_SIZE" and "j \<le> k"
    and "\<And>i. i < k \<Longrightarrow> describes (h i) L i (b i) \<and> 1024 * i < L \<and> length (b i) \<le> 1024 \<and> b i \<noteq> []"
    and "bursts (concat (map (\<lambda>i. [hdr_bytes (h i), b i]) [j..<k])) rest (c_in (r_conn r))"
  shows "\<exists>n r'. recvDataThr n info r = Some r' \<and> ready r' \<and> bursts [] rest (c_in (r_conn r')) \<and>
    delivered r' = delivered r @ map (\<lambda>i. (placed (1024 * i) (b i), of_nat L)) [j..<k]"
  using assms(1,4,6)
proof (induction "k - j" arbitrary: j r)
  case 0
  then show ?case by (intro exI [of _ 0] exI [of _ r]) simp
next
  case (Suc n)
  then have j: "j < k" "[j..<k] = j # [Suc j..<k]" by (simp_all add: upt_conv_Cons)
  have n: "n = k - Suc j" using Suc.hyps(2) by simp
  note b = assms(5) [OF j(1)]
  obtain n1 r1 where r1: "recvDataThr n1 info r = Some r1" "ready r1"
    "bursts (concat (map (\<lambda>i. [hdr_bytes (h i), b i]) [Suc j..<k])) rest (c_in (r_conn r1))"
    "delivered r1 = delivered r @ [(placed (1024 * j) (b j), of_nat L)]"
    by (rule recv_block [OF ready_for_all [OF Suc.prems(1)] assms(2), of "h j" L j "b j"]) (use b assms(3) Suc.prems(3) j(2) in auto)
  obtain n2 r2 where r2: "recvDataThr n2 info r1 = Some r2" "ready r2" "bursts [] rest (c_in (r_conn r2))"
    "delivered r2 = delivered r1 @ map (\<lambda>i. (placed (1024 * i) (b i), of_nat L)) [Suc j..<k]"
    using Suc.hyps(1) [OF n r1(2) _ r1(3)] j(1) by auto
  have "recvDataThr (n1 + n2) info r = Some r2" using r1(1) r2(1) by (simp only: recvDataThr_add bind.bind_lunit)
  with r2 r1(4) j(2) show ?case by (intro exI [of _ "n1 + n2"] exI [of _ r2]) simp
qed

lemma blocks_of_index: "i < length (blocks_of n xs) \<Longrightarrow> n * i < length xs"
proof (induction n xs arbitrary: i rule: blocks_of.induct)
  case (1 n xs)
  have ne: "n \<noteq> 0" "xs \<noteq> []" using 1(2) blocks_of.simps [of 0 xs] by (cases "n = 0"; cases "xs = []"; simp)+
  then have bs: "blocks_of n xs = take n xs # blocks_of n (drop n xs)" by (simp add: blocks_of_step)
  show ?case
  proof (cases i)
    case 0
    then show ?thesis using ne by simp
  next
    case (Suc k)
    then have "n * k < length (drop n xs)" using 1 ne bs by simp
    then show ?thesis using Suc by simp
  qed
qed

text \<open>A gap inside a header ends the program, a gap inside a block loses the block.\<close>

lemma gap_in_header:
  assumes "recvState r = RECVDATA_STATE_RECVHEAD" and "\<not> r_exited r" and "c_in (r_conn r) = es1 @ Recv_err EAGAIN # es2"
    and "clean es1" and "stream es1 \<noteq> []" and "length (stream es1) < 48"
  shows "recvDataTurn info r = Some (r\<lparr>r_conn := (r_conn r)\<lparr>c_in := es2\<rparr>, r_exited := True\<rparr>)"
proof -
  have "conn_readn (r_conn r) (replicate 48 0) (int 48) =
      Some (int (length (stream es1)), stream es1 @ drop (length (stream es1)) (replicate 48 0), (r_conn r)\<lparr>c_in := es2\<rparr>)"
    by (rule conn_readn_gap [OF assms(3,4,6)]) simp
  then have "recvHeadAndCheck info (r_conn r) = Some (-1, None, (r_conn r)\<lparr>c_in := es2\<rparr>)"
    using assms(6) by (simp add: recvHeadAndCheck_def recvHead.simps)
  then show ?thesis using assms(1-3) gapPasses_bytes [OF assms(4,5), of "Recv_err EAGAIN # es2"]
    by (simp add: recvDataTurn_def recvDataBody_def)
qed

lemma gap_in_block:
  assumes "recvState r = RECVDATA_STATE_RECVBODY" and "\<not> r_exited r" and "c_in (r_conn r) = es1 @ Recv_err EAGAIN # es2"
    and "clean es1" and "stream es1 \<noteq> []" and "length (stream es1) < n" and "n \<le> 1024" and "h_curBlkLen (r_header r) = of_nat n"
  shows "recvDataTurn info r = Some (r\<lparr>r_conn := (r_conn r)\<lparr>c_in := es2\<rparr>, recvState := RECVDATA_STATE_RECVHEAD\<rparr>)"
proof -
  have len: "sint (of_nat n :: u32) = int n"
    using assms(7) by (simp add: sint_uint signed_take_bit_int_eq_self unat_of_nat uint_nat)
  have "conn_readn (r_conn r) (replicate 1024 0) (int n) =
      Some (int (length (stream es1)), stream es1 @ drop (length (stream es1)) (replicate 1024 0), (r_conn r)\<lparr>c_in := es2\<rparr>)"
    by (rule conn_readn_gap [OF assms(3,4,6)]) (use assms(7) in simp)
  then show ?thesis using assms(1-3,6,8) len gapPasses_bytes [OF assms(4,5), of "Recv_err EAGAIN # es2"]
    by (simp add: recvDataTurn_def recvDataBody_def recvBody_def)
qed

text \<open>
  C20. A file of at most 1024 bytes reaches the callback if there is no gap inside its header or its block:
  the callback then gets a buffer that starts with exactly the bytes of the file, and its length, and the
  thread is ready for the next header. The memory must have been cleared, or the sequence number be a new
  one. The socket does not block: if the sender pauses inside the header, the program exits, and if it
  pauses inside the block, the file is dropped, and the rest of it is read as a header.
\<close>

theorem small_file_delivered:
  assumes "ready_for h r" and "copies info" and "content \<noteq> []" and "length content \<le> MOCPS_DATA_BODY_BLK_MAXSIZE"
    and "describes h (length content) 0 content"
  shows "(bursts [hdr_bytes h, content] rest (c_in (r_conn r)) \<longrightarrow>
      (\<exists>n r' data. recvDataThr n info r = Some r' \<and> delivered r' = delivered r @ [(data, of_nat (length content))] \<and>
        take (length content) data = content \<and> ready r' \<and> bursts [] rest (c_in (r_conn r')))) \<and>
    (\<forall>k es1 es2. c_in (r_conn r) = es1 @ Recv_err EAGAIN # es2 \<and> clean es1 \<and> stream es1 = take k (hdr_bytes h @ content) \<and>
        0 < k \<and> k \<noteq> sizeof_DATA_HEADER \<and> k < sizeof_DATA_HEADER + length content \<longrightarrow>
      (\<exists>n r'. recvDataThr n info r = Some r' \<and> delivered r' = delivered r \<and> c_in (r_conn r') = es2 \<and>
        (if k < sizeof_DATA_HEADER then r_exited r' else recvState r' = RECVDATA_STATE_RECVHEAD)))"
proof (intro conjI impI allI)
  assume b: "bursts [hdr_bytes h, content] rest (c_in (r_conn r))"
  obtain n r' where "recvDataThr n info r = Some r'" "ready r'" "bursts [] rest (c_in (r_conn r'))"
    "delivered r' = delivered r @ [(placed (1024 * 0) content, of_nat (length content))]"
    by (rule recv_block [OF assms(1,2,5) _ _ _ assms(4,3) b]) (use assms(3,4) in auto)
  then show "\<exists>n r' data. recvDataThr n info r = Some r' \<and> delivered r' = delivered r @ [(data, of_nat (length content))] \<and>
        take (length content) data = content \<and> ready r' \<and> bursts [] rest (c_in (r_conn r'))"
    by (intro exI [of _ n] exI [of _ r']) (simp add: placed_def)
next
  fix k es1 es2
  assume k: "c_in (r_conn r) = es1 @ Recv_err EAGAIN # es2 \<and> clean es1 \<and> stream es1 = take k (hdr_bytes h @ content) \<and>
        0 < k \<and> k \<noteq> 48 \<and> k < 48 + length content"
  have r: "recvState r = RECVDATA_STATE_RECVHEAD" "\<not> r_exited r" using assms(1) by (simp_all add: ready_for_def)
  have gh: "good_header h" "h_curBlkLen h = of_nat (length content)" using assms(5) by (simp_all add: describes_def)
  then have lh: "length (hdr_bytes h) = 48" by (simp add: good_header_def)
  have len: "length (stream es1) = k" using k lh by (auto simp: min_def)
  show "\<exists>n r'. recvDataThr n info r = Some r' \<and> delivered r' = delivered r \<and> c_in (r_conn r') = es2 \<and>
        (if k < 48 then r_exited r' else recvState r' = RECVDATA_STATE_RECVHEAD)"
  proof (cases "k < 48")
    case True
    have "recvDataTurn info r = Some (r\<lparr>r_conn := (r_conn r)\<lparr>c_in := es2\<rparr>, r_exited := True\<rparr>)"
      by (rule gap_in_header [OF r]) (use k len True in auto)
    then show ?thesis using True by (intro exI [of _ 1]) simp
  next
    case False
    then have st: "stream es1 = hdr_bytes h @ take (k - 48) content" using k lh by simp
    obtain es where es: "recvHeadAndCheck info (r_conn r) = Some (0, Some h, (r_conn r)\<lparr>c_in := es @ Recv_err EAGAIN # es2\<rparr>)"
      "clean es" "stream es = take (k - 48) content"
      by (rule recvHeadAndCheck_good [OF gh(1) assms(2), of "r_conn r" es1 "Recv_err EAGAIN # es2"]) (use k st in auto)
    let ?r = "r\<lparr>r_conn := (r_conn r)\<lparr>c_in := es @ Recv_err EAGAIN # es2\<rparr>, r_header := h, recvState := RECVDATA_STATE_RECVBODY\<rparr>"
    have "stream es1 \<noteq> []" using len k by auto
    then have 1: "recvDataTurn info r = Some ?r"
      using k gapPasses_bytes [of es1 "Recv_err EAGAIN # es2"] r es(1) by (simp add: recvDataTurn_def recvDataBody_def)
    have "recvDataTurn info ?r = Some (?r\<lparr>r_conn := (r_conn ?r)\<lparr>c_in := es2\<rparr>, recvState := RECVDATA_STATE_RECVHEAD\<rparr>)"
      by (rule gap_in_block [of _ es es2 "length content"]) (use r(2) es(2,3) k False assms(3,4) gh(2) in auto)
    then show ?thesis using 1 False by (intro exI [of _ "Suc (Suc 0)"]) simp
  qed
qed

text \<open>
  A larger file falls apart: \<open>totalBlkNum\<close> is always 1, because the conditional operator binds
  weaker than the addition, so every block makes the file complete. The callback is called once for
  every block, each time with the length of the whole file, and finds only that block in the buffer,
  at its place; everything else is zero.
\<close>

theorem large_file_in_pieces:
  assumes "ready r" and "copies info" and "length content \<le> DMM_SIZE" and "bs = blocks_of MOCPS_DATA_BODY_BLK_MAXSIZE content"
    and "\<And>i. i < length bs \<Longrightarrow> describes (h i) (length content) i (bs ! i)"
    and "bursts (concat (map (\<lambda>i. [hdr_bytes (h i), bs ! i]) [0..<length bs])) rest (c_in (r_conn r))"
  shows "\<exists>n r'. recvDataThr n info r = Some r' \<and> bursts [] rest (c_in (r_conn r')) \<and>
    delivered r' = delivered r @ map (\<lambda>i. (placed (MOCPS_DATA_BODY_BLK_MAXSIZE * i) (bs ! i), of_nat (length content))) [0..<length bs]"
proof -
  have "1024 * i < length content \<and> length (bs ! i) \<le> 1024 \<and> bs ! i \<noteq> []" if "i < length bs" for i
  proof -
    have "bs ! i \<in> set (blocks_of 1024 content)" using that assms(4) by simp
    then show ?thesis using that blocks_of_index [of i 1024 content] blocks_of_length [of "bs ! i" 1024 content] assms(4) by auto
  qed
  then have "\<exists>n r'. recvDataThr n info r = Some r' \<and> ready r' \<and> bursts [] rest (c_in (r_conn r')) \<and>
      delivered r' = delivered r @ map (\<lambda>i. (placed (1024 * i) (bs ! i), of_nat (length content))) [0..<length bs]"
    using assms(5) by (intro recv_blocks [OF assms(1-3) _ _ assms(6)]) auto
  then show ?thesis by auto
qed

section \<open>Headers that are not checked\<close>

text \<open>
  The length in a header is not checked: a block that claims more than 1024 bytes, and whose
  bytes arrive, is written past the end of the buffer on the stack of the thread.
\<close>

theorem oversized_block_overflows:
  assumes "recvState r = RECVDATA_STATE_RECVBODY" and "\<not> r_exited r" and "h_curBlkLen (r_header r) = of_nat n"
    and "MOCPS_DATA_BODY_BLK_MAXSIZE < n" and "n < 2 ^ 31" and "clean (c_in (r_conn r))" and "n \<le> length (stream (c_in (r_conn r)))"
  shows "recvDataBody info r = None"
proof -
  have "sint (of_nat n :: u32) = int n" using assms(5) by (simp add: sint_uint signed_take_bit_int_eq_self unat_of_nat uint_nat)
  moreover have "readn_loop (int n) (c_in (r_conn r)) (replicate 1024 0) 0 (int n) = None"
    using assms(4,6) by (intro readn_loop_overflow) auto
  ultimately show ?thesis using assms(1-3)
    by (simp add: recvDataBody_def recvBody_def conn_readn_def readn_def)
qed

text \<open>The index of the block is not checked either: a place behind the 4 MB is looked at, and written.\<close>

lemma far_block_overflows:
  assumes "h_curBlkIdx h = of_nat i" and "4096 \<le> i" and "i < 4194304" and "h_totalLen h = of_nat L" and "0 < L" and "L \<le> DMM_SIZE"
  shows "dmmSaveCurBodyBlk h blk DMM_zero = None"
proof -
  have L: "unat (of_nat L :: u64) = L" using assms(6) by (simp add: unat_of_nat)
  have Lnz: "(of_nat L :: u64) \<noteq> 0" using L assms(5) by (metis less_irrefl unat_0)
  have off: "unat (ucast (of_nat i * 1024 :: u64) :: u32) = 1024 * i"
    using assms(3) by (simp add: unsigned_ucast_eq unat_word_ariths(2) unat_of_nat take_bit_eq_mod mult.commute)
  have z: "zerosAt (replicate DMM_SIZE 0) (1024 * i) 16 = None"
    using assms(2) by (intro zerosAt_out) simp_all
  have pre: "(if d_seqId DMM_zero \<noteq> h_seqId h then dmmClear DMM_zero else Some DMM_zero) = Some DMM_zero"
    by (simp add: dmmClear_def clearDatainfo_def)
  show ?thesis unfolding dmmSaveCurBodyBlk_def pre using assms(1,4,6) L Lnz off z by simp
qed

text \<open>
  A header with a total length of 0, or of more than 4 MB, stops the client for good: its block
  is refused, but the thread stays in the state RECVBODY, and swallows everything that follows, headers and
  blocks alike, in pieces of the length of that one block. The callback is never called again.
\<close>

theorem bad_total_length_swallows:
  assumes "recvState r = RECVDATA_STATE_RECVBODY" and "\<not> r_exited r" and "h_curBlkLen (r_header r) = of_nat n"
    and "n \<le> MOCPS_DATA_BODY_BLK_MAXSIZE" and "h_totalLen (r_header r) = 0 \<or> DMM_SIZE < unat (h_totalLen (r_header r))"
    and "d_totalLen (r_dmm r) = 0" and "clean (c_in (r_conn r))" and "m * n \<le> length (stream (c_in (r_conn r)))"
  shows "\<exists>r'. recvDataThr m info r = Some r' \<and> recvState r' = RECVDATA_STATE_RECVBODY \<and>
    delivered r' = delivered r \<and> stream (c_in (r_conn r')) = drop (m * n) (stream (c_in (r_conn r)))"
  using assms
proof (induction m arbitrary: r)
  case (Suc m)
  have len: "sint (of_nat n :: u32) = int n"
    using Suc.prems(4) by (simp add: sint_uint signed_take_bit_int_eq_self unat_of_nat uint_nat)
  obtain es where es: "conn_readn (r_conn r) (replicate 1024 0) (int n) = Some (int n,
      take n (stream (c_in (r_conn r))) @ drop n (replicate 1024 0), (r_conn r)\<lparr>c_in := es\<rparr>)"
    "clean es" "stream es = drop n (stream (c_in (r_conn r)))"
    using conn_readn_clean [OF Suc.prems(7), of n "replicate 1024 0"] Suc.prems(4,8) by auto
  have save: "dmmSaveCurBodyBlk (r_header r) b (r_dmm r) = Some (-1, r_dmm r)" for b
    using Suc.prems(5) by (auto simp: dmmSaveCurBodyBlk_def)
  let ?r = "r\<lparr>r_conn := (r_conn r)\<lparr>c_in := es\<rparr>\<rparr>"
  have 1: "recvDataBody info r = Some ?r"
    using Suc.prems(1-3,6) len es(1) save by (simp add: recvDataBody_def recvBody_def dmmIsCompleteData_def)
  then have 1: "recvDataTurn info r = Some ?r" using recvDataTurn_clean [OF Suc.prems(7)] by simp
  have "\<exists>r'. recvDataThr m info ?r = Some r' \<and> recvState r' = RECVDATA_STATE_RECVBODY \<and>
      delivered r' = delivered ?r \<and> stream (c_in (r_conn r')) = drop (m * n) (stream (c_in (r_conn ?r)))"
    using Suc.prems es by (intro Suc.IH) auto
  then show ?case using 1 es(3) by (auto simp: add.commute)
qed auto

text \<open>
  The memory is not cleared when the module is initialised: if it is not zero by chance, the first block
  of the first file (sequence number 0) counts as written already, and is dropped.
\<close>

lemma first_block_dropped:
  assumes "dmmInit (Some (b # fresh)) d = (0, d1)" and "b \<noteq> 0" and "describes h L 0 blk" and "0 < L" and "L \<le> DMM_SIZE"
    and "h_seqId h = 0"
  shows "dmmSaveCurBodyBlk h buf d1 = Some (0, d1) \<and> \<not> dmmIsCompleteData d1"
proof -
  have L: "unat (of_nat L :: u64) = L" using assms(5) by (simp add: unat_of_nat)
  have Lnz: "(of_nat L :: u64) \<noteq> 0" using L assms(4) by (metis less_irrefl unat_0)
  have z: "zerosAt (b # fresh) 0 16 = Some 0" using assms(2) by (intro zerosAt_first) simp_all
  have d1: "gpDmmData d1 = Some (b # fresh)" "d_seqId d1 = 0" "d_totalLen d1 = 0"
    using assms(1) by (auto simp: dmmInit_def clearDatainfo_def split: if_splits)
  then show ?thesis using assms(3,5,6) L Lnz z
    by (simp add: dmmSaveCurBodyBlk_def describes_def dmmIsCompleteData_def)
qed

section \<open>Witnesses\<close>

definition sample_header :: "u32 \<Rightarrow> nat \<Rightarrow> nat \<Rightarrow> byte list \<Rightarrow> MOCPS_DATA_RESPONSE_HEADER" where
  "sample_header sq L i blk = (
     let h = \<lparr>h_mark = mark_field MOCPS_MARK_SERVER, h_cmdId = MOCPS_CMDID_GETDATA, h_seqId = sq, h_totalLen = of_nat L,
       h_curBlkIdx = of_nat i, h_curBlkLen = of_nat (length blk), h_checksum = 0, h_pad = [0, 0, 0]\<rparr>
     in h\<lparr>h_checksum := sum_list (take 44 (hdr_bytes h))\<rparr>)"

lemma sample_describes: "describes (sample_header sq L i blk) L i blk"
  by (simp add: describes_def good_header_def sample_header_def wf_hdr_def hdr_bytes_def mark_field_def Let_def)

definition sample_receiver :: "RECVDATA_STATE \<Rightarrow> MOCPS_DATA_RESPONSE_HEADER \<Rightarrow> byte list \<Rightarrow> RECVDATA" where
  "sample_receiver st h bs = \<lparr>recvState = st, r_header = h, r_dmm = DMM_zero,
     r_conn = \<lparr>c_in = (if bs = [] then [] else [Recv_err EINTR, Arrive bs]), c_out = [], c_sent = []\<rparr>, delivered = [], r_exited = False\<rparr>"

abbreviation sample_key :: MOCPS_CRYPT_INFO where
  "sample_key \<equiv> \<lparr>cryptAlgoNo = MOCPS_CRYPT_ALGO_DES, cryptKey = replicate 256 0, keyLen = 8\<rparr>"

lemma sample_receiver_facts:
  "ready (sample_receiver RECVDATA_STATE_RECVHEAD h bs)" "stream (c_in (r_conn (sample_receiver st h bs))) = bs"
  "delivered (sample_receiver st h bs) = []" "clean (c_in (r_conn (sample_receiver st h bs)))" "copies sample_key"
  by (simp_all add: ready_def sample_receiver_def copies_def)

text \<open>Two bursts with a gap between the header and the block, and a gap inside the block.\<close>

definition sample_gaps :: "nat \<Rightarrow> RECVDATA" where
  "sample_gaps k = (
     let h = sample_header 7 3 0 [7, 8, 9]; bs = hdr_bytes h @ [7, 8, 9]
     in \<lparr>recvState = RECVDATA_STATE_RECVHEAD, r_header = h, r_dmm = DMM_zero\<lparr>gpDmmData := Some (replicate DMM_SIZE 5)\<rparr>,
       r_conn = \<lparr>c_in = [Recv_err EINTR, Arrive (take k bs), Recv_err EAGAIN, Arrive (drop k bs)], c_out = [], c_sent = []\<rparr>,
       delivered = [], r_exited = False\<rparr>)"

theorem small_file_delivered_witness:
  "(\<exists>n r' data. recvDataThr n sample_key (sample_gaps 48) = Some r' \<and> delivered r' = [(data, 3)] \<and> take 3 data = [7, 8, 9]) \<and>
   (\<exists>n r'. recvDataThr n sample_key (sample_gaps 50) = Some r' \<and> delivered r' = [] \<and> recvState r' = RECVDATA_STATE_RECVHEAD)"
proof -
  let ?h = "sample_header 7 3 0 [7, 8, 9]"
  have d: "describes ?h (length [7, 8, 9 :: byte]) 0 [7, 8, 9]" using sample_describes [of 7 3 0 "[7, 8, 9]"] by (simp add: eval_nat_numeral)
  have lh: "length (hdr_bytes ?h) = 48" using sample_describes [of 7 3 0 "[7, 8, 9]"] by (simp add: describes_def good_header_def)
  have "h_seqId ?h = 7" by (simp add: sample_header_def Let_def)
  then have r: "ready_for ?h (sample_gaps k)" for k by (simp add: ready_for_def sample_gaps_def Let_def)
  have c: "copies sample_key" by (rule sample_receiver_facts(5))
  have th: "(bursts [hdr_bytes ?h, [7, 8, 9]] rest (c_in (r_conn (sample_gaps k))) \<longrightarrow>
      (\<exists>n r' data. recvDataThr n sample_key (sample_gaps k) = Some r' \<and>
        delivered r' = delivered (sample_gaps k) @ [(data, of_nat (length [7, 8, 9 :: byte]))] \<and>
        take (length [7, 8, 9 :: byte]) data = [7, 8, 9] \<and> ready r' \<and> bursts [] rest (c_in (r_conn r')))) \<and>
    (\<forall>j es1 es2. c_in (r_conn (sample_gaps k)) = es1 @ Recv_err EAGAIN # es2 \<and> clean es1 \<and>
        stream es1 = take j (hdr_bytes ?h @ [7, 8, 9]) \<and> 0 < j \<and> j \<noteq> 48 \<and> j < 48 + length [7, 8, 9 :: byte] \<longrightarrow>
      (\<exists>n r'. recvDataThr n sample_key (sample_gaps k) = Some r' \<and> delivered r' = delivered (sample_gaps k) \<and> c_in (r_conn r') = es2 \<and>
        (if j < 48 then r_exited r' else recvState r' = RECVDATA_STATE_RECVHEAD)))" for k rest
    by (rule small_file_delivered [OF r c _ _ d]) simp_all
  have "hdr_bytes ?h \<noteq> []" using lh by auto
  then have "bursts ([hdr_bytes ?h] @ [[7, 8, 9]]) [] ([Recv_err EINTR, Arrive (hdr_bytes ?h)] @ [] @ Recv_err EAGAIN # [Arrive [7, 8, 9]])"
    by (intro bursts.burst bursts.gap bursts.last) simp_all
  then have "bursts [hdr_bytes ?h, [7, 8, 9]] [] (c_in (r_conn (sample_gaps 48)))" using lh by (simp add: sample_gaps_def Let_def)
  then have 1: "\<exists>n r' data. recvDataThr n sample_key (sample_gaps 48) = Some r' \<and>
      delivered r' = delivered (sample_gaps 48) @ [(data, of_nat (length [7, 8, 9 :: byte]))] \<and> take (length [7, 8, 9 :: byte]) data = [7, 8, 9]"
    using th [of "[]" 48] by auto
  have "\<exists>n r'. recvDataThr n sample_key (sample_gaps 50) = Some r' \<and> delivered r' = delivered (sample_gaps 50) \<and>
      c_in (r_conn r') = [Arrive [9]] \<and> (if (50 :: nat) < 48 then r_exited r' else recvState r' = RECVDATA_STATE_RECVHEAD)"
    by (rule mp [OF spec [OF spec [OF spec [OF conjunct2 [OF th [of "[]" 50]], of 50],
        of "[Recv_err EINTR, Arrive (take 50 (hdr_bytes ?h @ [7, 8, 9]))]"], of "[Arrive [9]]"]])
      (use lh in \<open>auto simp: sample_gaps_def Let_def\<close>)
  note 2 = this
  have e: "delivered (sample_gaps k) = []" "length [7, 8, 9 :: byte] = 3" for k by (simp_all add: sample_gaps_def Let_def)
  show ?thesis using 1 2 unfolding e by auto
qed

theorem large_file_in_pieces_witness:
  "\<exists>n r'. recvDataThr n sample_key (sample_receiver RECVDATA_STATE_RECVHEAD (sample_header 0 1025 0 [])
      (hdr_bytes (sample_header 0 1025 0 (replicate 1024 7)) @ replicate 1024 7 @ hdr_bytes (sample_header 0 1025 1 [7]) @ [7])) = Some r' \<and>
    delivered r' = [(placed 0 (replicate 1024 7), 1025), (placed 1024 [7], 1025)]"
proof -
  let ?h = "\<lambda>i. sample_header 0 1025 i ([replicate 1024 7, [7]] ! i)"
  have bs: "[replicate 1024 7, [7]] = blocks_of 1024 (replicate 1025 (7 :: byte))"
    by (simp add: blocks_of_step)
  have "describes (?h i) (length (replicate 1025 (7 :: byte))) i ([replicate 1024 7, [7]] ! i)" for i
    using sample_describes by simp
  then show ?thesis
    using large_file_in_pieces [OF sample_receiver_facts(1,5) _ bs, of ?h "[]" "sample_header 0 1025 0 []"
        "hdr_bytes (sample_header 0 1025 0 (replicate 1024 7)) @ replicate 1024 7 @ hdr_bytes (sample_header 0 1025 1 [7]) @ [7]",
        OF _ _ bursts.last [OF sample_receiver_facts(4)]]
    by (auto simp: sample_receiver_facts(2,3))
qed

theorem oversized_block_overflows_witness:
  "recvDataBody sample_key (sample_receiver RECVDATA_STATE_RECVBODY (sample_header 0 2000 0 (replicate 2000 1)) (replicate 2000 1)) = None"
  by (rule oversized_block_overflows [where n = 2000])
    (simp_all add: sample_receiver_facts sample_receiver_def sample_header_def Let_def)

theorem bad_total_length_swallows_witness:
  "\<exists>r'. recvDataThr 2 sample_key (sample_receiver RECVDATA_STATE_RECVBODY (sample_header 0 0 0 (replicate 48 1))
      (hdr_bytes (sample_header 1 3 0 [7, 8, 9]) @ [7, 8, 9] @ replicate 45 0)) = Some r' \<and>
    recvState r' = RECVDATA_STATE_RECVBODY \<and> delivered r' = []"
proof -
  have "length (hdr_bytes (sample_header 1 3 0 [7, 8, 9])) = 48"
    using sample_describes [of 1 3 0 "[7, 8, 9]"] by (simp add: describes_def good_header_def)
  then show ?thesis
    using bad_total_length_swallows [of "sample_receiver RECVDATA_STATE_RECVBODY (sample_header 0 0 0 (replicate 48 1))
        (hdr_bytes (sample_header 1 3 0 [7, 8, 9]) @ [7, 8, 9] @ replicate 45 0)" 48 2 sample_key]
    by (auto simp: sample_receiver_facts sample_receiver_def sample_header_def Let_def)
qed

end
