(* ===== verification/MoCpsClient.thy ===== *)
theory MoCpsClient
  imports MoIni MoDmm
begin

text \<open>
  The client of the file server, \<open>moSdk/Cps/Client/src/moCpsClient.c\<close> without its data side (see
  \<open>MoDmm\<close>): configuration, sockets, the agreement on a key, the heartbeat thread, starting and
  stopping, and requests with their responses.

  The state holds the global variables, the sockets that are open, the connection of the control
  socket, and for each of the two threads whether it still runs its loop. The calls of the functions
  of the interface are taken one after the other. \<open>None\<close> stands for a function that does not return,
  and for an access to memory outside a buffer.
\<close>

abbreviation (input) CRMM_SIZE :: nat where "CRMM_SIZE \<equiv> 2097152"
abbreviation (input) MOCPS_REQUEST_TYPE_NOTNEED_RESPONSE :: u32 where "MOCPS_REQUEST_TYPE_NOTNEED_RESPONSE \<equiv> 0"
abbreviation (input) MOCPS_REQUEST_TYPE_NEED_RESPONSE :: u32 where "MOCPS_REQUEST_TYPE_NEED_RESPONSE \<equiv> 1"
abbreviation (input) KEYAGREE_TIMEOUT :: int where "KEYAGREE_TIMEOUT \<equiv> 4"

abbreviation (input) MOCPS_CLI_ERR_OK :: int where "MOCPS_CLI_ERR_OK \<equiv> 0"
abbreviation (input) MOCPS_CLI_ERR_INPUT_NULL :: int where "MOCPS_CLI_ERR_INPUT_NULL \<equiv> -1"
abbreviation (input) MOCPS_CLI_ERR_DUP_INIT :: int where "MOCPS_CLI_ERR_DUP_INIT \<equiv> -2"
abbreviation (input) MOCPS_CLI_ERR_PARSECONF_FAILED :: int where "MOCPS_CLI_ERR_PARSECONF_FAILED \<equiv> -3"
abbreviation (input) MOCPS_CLI_ERR_CREATESOCK_FAILED :: int where "MOCPS_CLI_ERR_CREATESOCK_FAILED \<equiv> -4"
abbreviation (input) MOCPS_CLI_ERR_CREATETHR_FAILED :: int where "MOCPS_CLI_ERR_CREATETHR_FAILED \<equiv> -5"
abbreviation (input) MOCPS_CLI_ERR_INVALID_INPUTPARAM :: int where "MOCPS_CLI_ERR_INVALID_INPUTPARAM \<equiv> -6"
abbreviation (input) MOCPS_CLI_ERR_DONOT_INIT :: int where "MOCPS_CLI_ERR_DONOT_INIT \<equiv> -7"
abbreviation (input) MOCPS_CLI_ERR_INTERNAL :: int where "MOCPS_CLI_ERR_INTERNAL \<equiv> -8"
abbreviation (input) MOCPS_CLI_ERR_MALLOC :: int where "MOCPS_CLI_ERR_MALLOC \<equiv> -9"
abbreviation (input) MOCPS_CLI_ERR_ENCRYPT :: int where "MOCPS_CLI_ERR_ENCRYPT \<equiv> -10"
abbreviation (input) MOCPS_CLI_ERR_SEND_REQUEST :: int where "MOCPS_CLI_ERR_SEND_REQUEST \<equiv> -11"
abbreviation (input) MOCPS_CLI_ERR_GET_RESPONSE :: int where "MOCPS_CLI_ERR_GET_RESPONSE \<equiv> -12"
abbreviation (input) MOCPS_CLI_ERR_CREATE_SOCKET :: int where "MOCPS_CLI_ERR_CREATE_SOCKET \<equiv> -13"
abbreviation (input) MOCPS_CLI_ERR_SETSOCKATTR :: int where "MOCPS_CLI_ERR_SETSOCKATTR \<equiv> -14"
abbreviation (input) MOCPS_CLI_ERR_CONN_FAILED :: int where "MOCPS_CLI_ERR_CONN_FAILED \<equiv> -15"

section \<open>State\<close>

datatype CLI_THREAD_STATE = CLI_THREAD_STATE_STOPPED | CLI_THREAD_STATE_RUNNING

record CLIENT =
  gIsInited :: bool
  gMutexLocked :: bool
  gCtrlSockId :: int
  gDataSockId :: int
  callbackSet :: bool
  gHeartbeatThrRunningFlag :: bool
  gHeartbeatThrRunningState :: CLI_THREAD_STATE
  hbAlive :: bool
  gRecvdataThrRunningFlag :: bool
  gRecvdataThrRunningState :: CLI_THREAD_STATE
  rdAlive :: bool
  gCryptInfo :: MOCPS_CRYPT_INFO
  gCrmmData :: "byte list option"
  cl_dmm :: DMM
  openSocks :: "int list"
  ctrlConn :: CONN

section \<open>Configuration\<close>

record MOCPS_CLI_CONFINFO =
  servIp :: string
  servPort :: int
  cliIp :: string
  cliCtrlPort :: int
  cliDataPort :: int

text \<open>A value is copied, whatever its length, to an array of \<open>MOCPS_IP_ADDR_MAXLEN\<close> characters.\<close>

definition confAttr :: "MOUTILS_INI_SECTION_INFO_NODE list option \<Rightarrow> string \<Rightarrow> string \<Rightarrow> (int \<times> string) option" where
  "confAttr secs sec k = (
     let (ret, v) = moUtils_Ini_GetAttrValue (Some sec) (Some k) (Some []) secs
     in if ret < 0 then Some (ret, []) else if MOCPS_IP_ADDR_MAXLEN \<le> length (the v) then None else Some (0, the v))"

definition parseConf ::
    "(string \<Rightarrow> 32 word option) \<Rightarrow> (string \<Rightarrow> string option) \<Rightarrow> bool \<Rightarrow> string option \<Rightarrow> (int \<times> MOCPS_CLI_CONFINFO option) option" where
  "parseConf inet_aton fopenR mallocOk pConfFilepath =
     (if pConfFilepath = None then Some (-1, None)
      else do {
        secs \<leftarrow> moUtils_Ini_Init mallocOk mallocOk fopenR pConfFilepath;
        if secs = None then Some (-2, None)
        else do {
          (ret, sip) \<leftarrow> confAttr secs ''servInfo'' ''servIp'';
          if ret < 0 then Some (-3, None)
          else if isValidIpAddr inet_aton (Some (copyStr MOCPS_IP_ADDR_MAXLEN sip)) = 0 then Some (-4, None)
          else do {
            (ret, tmp) \<leftarrow> confAttr secs ''servInfo'' ''servPort'';
            if ret < 0 then Some (-5, None)
            else do {
              sport \<leftarrow> atoi tmp;
              (ret, cip) \<leftarrow> confAttr secs ''cliInfo'' ''cliIp'';
              if ret < 0 then Some (-6, None)
              else if isValidIpAddr inet_aton (Some (copyStr MOCPS_IP_ADDR_MAXLEN cip)) = 0 then Some (-7, None)
              else do {
                (ret, tmp) \<leftarrow> confAttr secs ''cliInfo'' ''cliDataPort'';
                if ret < 0 then Some (-8, None)
                else do {
                  dport \<leftarrow> atoi tmp;
                  (ret, tmp) \<leftarrow> confAttr secs ''cliInfo'' ''cliCtrlPort'';
                  if ret < 0 then Some (-9, None)
                  else do {
                    cport \<leftarrow> atoi tmp;
                    Some (0, Some \<lparr>servIp = copyStr MOCPS_IP_ADDR_MAXLEN sip, servPort = sport,
                      cliIp = copyStr MOCPS_IP_ADDR_MAXLEN cip, cliCtrlPort = cport, cliDataPort = dport\<rparr>)
                  }
                }
              }
            }
          }
        }
      })"

section \<open>Requests\<close>

definition newReq :: "u32 \<Rightarrow> u32 \<Rightarrow> byte list \<Rightarrow> MOCPS_CTRL_REQUEST" where
  "newReq cmd need res = (
     let req = \<lparr>req_mark = mark_field MOCPS_MARK_CLIENT, isNeedResp = need, req_cmdId = cmd, req_res = res, req_crc32 = 0\<rparr>
     in req\<lparr>req_crc32 := snd (moUtils_Check_getCrc (req_bytes req) (sizeof_REQUEST - 4) (req_crc32 req))\<rparr>)"

text \<open>The encryption functions copy; the calls of the ciphers are disabled by \<open>#if 0\<close>.\<close>

definition encryptWithAes :: "MOCPS_CTRL_REQUEST \<Rightarrow> byte list \<Rightarrow> (int \<times> byte list) option" where
  "encryptWithAes req pCipher = memcpyTo (req_bytes req) (int sizeof_REQUEST) pCipher 0"

definition encryptWithDes :: "MOCPS_CTRL_REQUEST \<Rightarrow> byte list \<Rightarrow> (int \<times> byte list) option" where
  "encryptWithDes req pCipher = memcpyTo (req_bytes req) (int sizeof_REQUEST) pCipher 0"

definition encryptWithDes3 :: "MOCPS_CTRL_REQUEST \<Rightarrow> byte list \<Rightarrow> (int \<times> byte list) option" where
  "encryptWithDes3 req pCipher = memcpyTo (req_bytes req) (int sizeof_REQUEST) pCipher 0"

definition encryptWithRc4 :: "MOCPS_CTRL_REQUEST \<Rightarrow> byte list \<Rightarrow> (int \<times> byte list) option" where
  "encryptWithRc4 req pCipher = memcpyTo (req_bytes req) (int sizeof_REQUEST) pCipher 0"

definition doEncrypt2Req :: "MOCPS_CRYPT_INFO \<Rightarrow> MOCPS_CTRL_REQUEST \<Rightarrow> byte list \<Rightarrow> (int \<times> byte list) option" where
  "doEncrypt2Req info req pCipher =
     (case cryptAlgoNo info of
        MOCPS_CRYPT_ALGO_AES \<Rightarrow> encryptWithAes req pCipher
      | MOCPS_CRYPT_ALGO_DES \<Rightarrow> encryptWithDes req pCipher
      | MOCPS_CRYPT_ALGO_DES3 \<Rightarrow> encryptWithDes3 req pCipher
      | MOCPS_CRYPT_ALGO_RC4 \<Rightarrow> encryptWithRc4 req pCipher
      | _ \<Rightarrow> Some (-2, pCipher))"

section \<open>Sockets\<close>

text \<open>
  What the calls for one socket return: \<open>inProgress\<close> for a failed \<open>connect\<close> with \<open>EINPROGRESS\<close>, the
  two sets of \<open>select\<close>, and \<open>getsockopt\<close> with the error it reports.
\<close>

record CSOCKENV =
  cs_socket :: int
  cs_bind :: int
  cs_setsockopt :: int
  cs_nonblock :: int
  cs_connect :: int
  cs_inProgress :: bool
  cs_select :: int
  cs_wFdSet :: bool
  cs_rFdSet :: bool
  cs_getsockopt :: int
  cs_err :: int

text \<open>The result, \<open>*pSockId\<close>, and the open sockets.\<close>

definition createSockAndBind :: "CSOCKENV \<Rightarrow> int \<Rightarrow> int list \<Rightarrow> int \<times> int \<times> int list" where
  "createSockAndBind e sockId socks =
     (if cs_socket e < 0 then (-2, sockId, socks)
      else if cs_bind e < 0 then (-3, sockId, socks)
      else (0, cs_socket e, cs_socket e # socks))"

definition cliSetSockAttr :: "CSOCKENV \<Rightarrow> int" where
  "cliSetSockAttr e = (if cs_setsockopt e < 0 then -1 else if cs_nonblock e < 0 then -2 else 0)"

definition connect2Server :: "CSOCKENV \<Rightarrow> int" where
  "connect2Server e =
     (if cs_connect e = 0 then 0
      else if \<not> cs_inProgress e then -6
      else if cs_select e < 0 then -1
      else if cs_select e = 0 then -2
      else if \<not> cs_wFdSet e then -5
      else if \<not> cs_rFdSet e then 0
      else if cs_getsockopt e \<noteq> 0 then -3
      else if cs_err e \<noteq> 0 then -4
      else 0)"

definition createDataSocket :: "CSOCKENV \<Rightarrow> CLIENT \<Rightarrow> int \<times> CLIENT" where
  "createDataSocket e c =
     (if gDataSockId c \<noteq> MOCPS_INVALID_SOCKID then (MOCPS_CLI_ERR_OK, c)
      else let (ret, sock, socks) = createSockAndBind e (gDataSockId c) (openSocks c);
               closed = c\<lparr>gDataSockId := MOCPS_INVALID_SOCKID, openSocks := remove1 sock socks\<rparr>
        in if sock < 0 then (MOCPS_CLI_ERR_CREATE_SOCKET, c)
           else if cliSetSockAttr e < 0 then (MOCPS_CLI_ERR_SETSOCKATTR, closed)
           else if connect2Server e < 0 then (MOCPS_CLI_ERR_CONN_FAILED, closed)
           else (MOCPS_CLI_ERR_OK, c\<lparr>gDataSockId := sock, openSocks := socks\<rparr>))"

definition createCtrlSocket :: "CSOCKENV \<Rightarrow> CLIENT \<Rightarrow> int \<times> CLIENT" where
  "createCtrlSocket e c =
     (if gCtrlSockId c \<noteq> MOCPS_INVALID_SOCKID then (MOCPS_CLI_ERR_OK, c)
      else let (ret, sock, socks) = createSockAndBind e (gCtrlSockId c) (openSocks c);
               closed = c\<lparr>gCtrlSockId := MOCPS_INVALID_SOCKID, openSocks := remove1 sock socks\<rparr>
        in if sock < 0 then (MOCPS_CLI_ERR_CREATE_SOCKET, c)
           else if cliSetSockAttr e < 0 then (MOCPS_CLI_ERR_SETSOCKATTR, closed)
           else if connect2Server e < 0 then (MOCPS_CLI_ERR_CONN_FAILED, closed)
           else (MOCPS_CLI_ERR_OK, c\<lparr>gCtrlSockId := sock, openSocks := socks\<rparr>))"

definition destroyDataSocket :: "CLIENT \<Rightarrow> CLIENT" where
  "destroyDataSocket c = c\<lparr>openSocks := (if gDataSockId c > 0 then remove1 (gDataSockId c) (openSocks c) else openSocks c),
     gDataSockId := MOCPS_INVALID_SOCKID\<rparr>"

definition destroyCtrlSocket :: "CLIENT \<Rightarrow> CLIENT" where
  "destroyCtrlSocket c = c\<lparr>openSocks := (if gCtrlSockId c > 0 then remove1 (gCtrlSockId c) (openSocks c) else openSocks c),
     gCtrlSockId := MOCPS_INVALID_SOCKID\<rparr>"

section \<open>Memory for responses\<close>

definition crmmInit :: "bool \<Rightarrow> CLIENT \<Rightarrow> int \<times> CLIENT" where
  "crmmInit mallocOk c =
     (if gCrmmData c \<noteq> None then (-1, c)
      else if \<not> mallocOk then (-2, c)
      else (0, c\<lparr>gCrmmData := Some (replicate CRMM_SIZE 0)\<rparr>))"

definition crmmUnInit :: "CLIENT \<Rightarrow> CLIENT" where
  "crmmUnInit c = c\<lparr>gCrmmData := None\<rparr>"

definition crmmMaxSize :: int where
  "crmmMaxSize = int CRMM_SIZE"

section \<open>Responses\<close>

text \<open>\<open>pBody\<close> is \<open>NULL\<close> (\<open>False\<close>) or points to \<open>gCrmmData\<close> (\<open>True\<close>).\<close>

record MOCPS_CTRL_RESPONSE =
  basicInfo :: MOCPS_CTRL_RESPONSE_BASIC
  pBody :: bool

text \<open>The fixed part of a response; \<open>sel\<close> is what \<open>select\<close> returns.\<close>

definition getBasicResp :: "int \<Rightarrow> u32 \<Rightarrow> CLIENT \<Rightarrow> (int \<times> MOCPS_CTRL_RESPONSE_BASIC option \<times> CLIENT) option" where
  "getBasicResp sel cmdId c =
     (if sel < 0 then Some (-3, None, c)
      else if sel = 0 then Some (-4, None, c)
      else do {
        (readLen, cipher, conn) \<leftarrow> conn_readn (ctrlConn c) (replicate sizeof_RESPONSE_BASIC 0) (int sizeof_RESPONSE_BASIC);
        let c = c\<lparr>ctrlConn := conn\<rparr>;
        if readLen \<noteq> int sizeof_RESPONSE_BASIC then Some (-5, None, c)
        else do {
          pos \<leftarrow> moUtils_Search_BF (Some cipher) sizeof_RESPONSE_BASIC (Some MOCPS_MARK_SERVER) (length MOCPS_MARK_SERVER);
          if pos < 0 then Some (-6, None, c)
          else do {
            (ok, cipher, c) \<leftarrow> (if pos \<noteq> 0 then do {
                part \<leftarrow> rdn cipher (nat pos) (sizeof_RESPONSE_BASIC - nat pos);
                cipher \<leftarrow> wrn cipher 0 part;
                (readLen, left, conn) \<leftarrow> conn_readn (ctrlConn c) (drop (sizeof_RESPONSE_BASIC - nat pos) cipher) pos;
                Some (readLen = pos, take (sizeof_RESPONSE_BASIC - nat pos) cipher @ left, c\<lparr>ctrlConn := conn\<rparr>)
              } else Some (True, cipher, c));
            if \<not> ok then Some (-7, None, c)
            else do {
              (ret, plain) \<leftarrow> doDecrypt2Resp (gCryptInfo c) cipher (replicate sizeof_RESPONSE_BASIC 0) 0 (int sizeof_RESPONSE_BASIC);
              let basic = bytes_resp plain;
              if ret < 0 then Some (-7, None, c)
              else if cmdId \<noteq> resp_cmdId basic then Some (-8, None, c)
              else if moUtils_Check_checkCrc plain (sizeof_RESPONSE_BASIC - 4) (resp_crc32 basic) \<noteq> 0 then Some (-9, None, c)
              else Some (0, Some basic, c)
            }
          }
        }
      })"

text \<open>
  The body; \<open>alloc n\<close> is what \<open>malloc\<close> returns for \<open>n\<close> bytes, with the contents that the memory
  happens to have. A negative length is a huge one for \<open>malloc\<close>, which fails.
\<close>

definition getRespBody ::
    "(nat \<Rightarrow> byte list option) \<Rightarrow> MOCPS_CTRL_RESPONSE \<Rightarrow> CLIENT \<Rightarrow> (int \<times> MOCPS_CTRL_RESPONSE option \<times> CLIENT) option" where
  "getRespBody alloc resp c = (
     let len = sint (bodyLen (basicInfo resp))
     in if len = 0 then Some (0, Some (resp\<lparr>pBody := False\<rparr>), c)
        else if len \<ge> crmmMaxSize then Some (-10, Some resp, c)
        else case (if len < 0 then None else alloc (nat len)) of
          None \<Rightarrow> Some (-11, Some resp, c)
        | Some mem \<Rightarrow> do {
            (ret, bodyCipher, conn) \<leftarrow> conn_readn (ctrlConn c) mem len;
            let c = c\<lparr>ctrlConn := conn\<rparr>;
            if ret < 0 then Some (-12, Some resp, c)
            else do {
              data \<leftarrow> gCrmmData c;
              (ret, data) \<leftarrow> doDecrypt2Resp (gCryptInfo c) bodyCipher data 0 len;
              Some (if ret < 0 then -13 else 0, Some (resp\<lparr>pBody := True\<rparr>), c\<lparr>gCrmmData := Some data\<rparr>)
            }
          })"

definition getRespFromServer ::
    "int \<Rightarrow> (nat \<Rightarrow> byte list option) \<Rightarrow> u32 \<Rightarrow> MOCPS_CTRL_RESPONSE option \<Rightarrow> CLIENT \<Rightarrow>
     (int \<times> MOCPS_CTRL_RESPONSE option \<times> CLIENT) option" where
  "getRespFromServer sel alloc cmdId pCtrlResp c =
     (case pCtrlResp of
        None \<Rightarrow> Some (-1, None, c)
      | Some resp \<Rightarrow> do {
          (ret, basic, c) \<leftarrow> getBasicResp sel cmdId c;
          case basic of
            None \<Rightarrow> Some (ret, pCtrlResp, c)
          | Some b \<Rightarrow> getRespBody alloc (resp\<lparr>basicInfo := b\<rparr>) c
        })"

section \<open>Requests of the client itself\<close>

definition sayByebye2Server :: "bool \<Rightarrow> CLIENT \<Rightarrow> (int \<times> CLIENT) option" where
  "sayByebye2Server mallocOk c = (
     let req = newReq MOCPS_CMDID_BYEBYE MOCPS_REQUEST_TYPE_NOTNEED_RESPONSE [0, 0, 0, 0]
     in if \<not> mallocOk then Some (-1, c)
        else do {
          (ret, pCipher) \<leftarrow> doEncrypt2Req (gCryptInfo c) req (replicate sizeof_REQUEST 0);
          if ret < 0 then Some (-2, c)
          else do {
            (writeLen, conn) \<leftarrow> conn_writen (ctrlConn c) pCipher (int sizeof_REQUEST);
            Some (if writeLen \<noteq> int sizeof_REQUEST then -2 else 0, c\<lparr>ctrlConn := conn\<rparr>)
          }
        })"

definition sendDataport2Server ::
    "bool \<Rightarrow> int \<Rightarrow> (nat \<Rightarrow> byte list option) \<Rightarrow> int \<Rightarrow> CLIENT \<Rightarrow> (int \<times> CLIENT) option" where
  "sendDataport2Server mallocOk sel alloc dataport c = (
     let req = newReq MOCPS_CMDID_SEND_DATAPORT MOCPS_REQUEST_TYPE_NEED_RESPONSE (splitInt2Char (word_of_int dataport))
     in if \<not> mallocOk then Some (-1, c)
        else do {
          (ret, pCipher) \<leftarrow> doEncrypt2Req (gCryptInfo c) req (replicate sizeof_REQUEST 0);
          if ret < 0 then Some (-2, c)
          else do {
            (writeLen, conn) \<leftarrow> conn_writen (ctrlConn c) pCipher (int sizeof_REQUEST);
            let c = c\<lparr>ctrlConn := conn\<rparr>;
            if writeLen \<noteq> int sizeof_REQUEST then Some (-3, c)
            else do {
              (ret, _, c) \<leftarrow> getRespFromServer sel alloc MOCPS_CMDID_SEND_DATAPORT
                (Some \<lparr>basicInfo = bytes_resp (replicate sizeof_RESPONSE_BASIC 0), pBody = False\<rparr>) c;
              Some (if ret < 0 then -4 else 0, c)
            }
          }
        })"

section \<open>The threads\<close>

text \<open>
  \<open>heartBeatThr\<close> first encrypts its request (\<open>None\<close> inside: it returns at once, and leaves its state
  RUNNING), then loops. A turn of the loop sends the request, or sleeps for a second, or ends.
\<close>

definition heartBeatStart :: "bool \<Rightarrow> MOCPS_CRYPT_INFO \<Rightarrow> byte list option option" where
  "heartBeatStart mallocOk info = (
     let req = newReq MOCPS_CMDID_HEARTBEAT MOCPS_REQUEST_TYPE_NOTNEED_RESPONSE [0, 0, 0, 0]
     in if \<not> mallocOk then Some None
        else do {
          (ret, pCipher) \<leftarrow> doEncrypt2Req info req (replicate sizeof_REQUEST 0);
          Some (if ret < 0 then None else Some pCipher)
        })"

record HEARTBEAT =
  waited :: int
  slept :: nat
  hb_client :: CLIENT

definition heartBeatTurn :: "byte list \<Rightarrow> HEARTBEAT \<Rightarrow> HEARTBEAT option" where
  "heartBeatTurn pCipher t = (
     let c = hb_client t
     in if \<not> hbAlive c then Some t
        else if gHeartbeatThrRunningFlag c then
          if waited t \<ge> MOCPS_HEARTBEAT_INTEVAL then do {
            (writeLen, conn) \<leftarrow> conn_writen (ctrlConn c) pCipher (int sizeof_REQUEST);
            let c = c\<lparr>ctrlConn := conn\<rparr>;
            Some (if writeLen \<noteq> int sizeof_REQUEST
              then t\<lparr>hb_client := c\<lparr>gHeartbeatThrRunningFlag := False, gHeartbeatThrRunningState := CLI_THREAD_STATE_STOPPED, hbAlive := False\<rparr>\<rparr>
              else t\<lparr>waited := 0, hb_client := c\<rparr>)
          }
          else Some (t\<lparr>waited := waited t + 1, slept := slept t + 1\<rparr>)
        else Some (t\<lparr>hb_client := c\<lparr>gHeartbeatThrRunningState := CLI_THREAD_STATE_STOPPED, hbAlive := False\<rparr>\<rparr>))"

fun heartBeatThr :: "nat \<Rightarrow> byte list \<Rightarrow> HEARTBEAT \<Rightarrow> HEARTBEAT option" where
  "heartBeatThr 0 pCipher t = Some t"
| "heartBeatThr (Suc n) pCipher t = do {
     t \<leftarrow> heartBeatTurn pCipher t;
     heartBeatThr n pCipher t
   }"

text \<open>
  \<open>thr\<close> is what \<open>pthread_create\<close> returns: 0, or a positive error number, which the code does not take
  for an error.
\<close>

definition createHeartBeatThr :: "int \<Rightarrow> bool \<Rightarrow> CLIENT \<Rightarrow> (int \<times> CLIENT) option" where
  "createHeartBeatThr thr mallocOk c = (
     let c = c\<lparr>gHeartbeatThrRunningFlag := True, gHeartbeatThrRunningState := CLI_THREAD_STATE_RUNNING\<rparr>
     in if thr < 0 then Some (-1, c\<lparr>gHeartbeatThrRunningFlag := False, gHeartbeatThrRunningState := CLI_THREAD_STATE_STOPPED\<rparr>)
        else if thr > 0 then Some (0, c)
        else do {
          cipher \<leftarrow> heartBeatStart mallocOk (gCryptInfo c);
          Some (0, c\<lparr>hbAlive := cipher \<noteq> None\<rparr>)
        })"

text \<open>
  The loop that waits for the state STOPPED: a thread in its loop sees the flag in its next turn;
  without one the state never changes.
\<close>

definition stopHeartBeatThr :: "CLIENT \<Rightarrow> CLIENT option" where
  "stopHeartBeatThr c =
     (if \<not> gHeartbeatThrRunningFlag c then Some c
      else let c = c\<lparr>gHeartbeatThrRunningFlag := False\<rparr>
        in if gHeartbeatThrRunningState c = CLI_THREAD_STATE_STOPPED then Some c
           else if hbAlive c then Some (c\<lparr>gHeartbeatThrRunningState := CLI_THREAD_STATE_STOPPED, hbAlive := False\<rparr>)
           else None)"

definition createRecvDataThr :: "int \<Rightarrow> CLIENT \<Rightarrow> int \<times> CLIENT" where
  "createRecvDataThr thr c = (
     let c = c\<lparr>gRecvdataThrRunningFlag := True, gRecvdataThrRunningState := CLI_THREAD_STATE_RUNNING\<rparr>
     in if thr < 0 then (-1, c\<lparr>gRecvdataThrRunningFlag := False, gRecvdataThrRunningState := CLI_THREAD_STATE_STOPPED\<rparr>)
        else (0, c\<lparr>rdAlive := thr = 0\<rparr>))"

definition stopRecvDataThr :: "CLIENT \<Rightarrow> CLIENT option" where
  "stopRecvDataThr c =
     (if \<not> gRecvdataThrRunningFlag c then Some c
      else let c = c\<lparr>gRecvdataThrRunningFlag := False\<rparr>
        in if gRecvdataThrRunningState c = CLI_THREAD_STATE_STOPPED then Some c
           else if rdAlive c then Some (c\<lparr>gRecvdataThrRunningState := CLI_THREAD_STATE_STOPPED, rdAlive := False\<rparr>)
           else None)"

section \<open>The agreement on a key\<close>

definition decryptKeyAgreeResponse :: "byte list \<Rightarrow> int \<times> MOCPS_KEYAGREE_RESPONSE" where
  "decryptKeyAgreeResponse pRespCipher = (0, bytes_ka pRespCipher)"

definition checkKeyagreeResp :: "MOCPS_KEYAGREE_RESPONSE \<Rightarrow> int" where
  "checkKeyagreeResp resp =
     (if ka_cmdId resp \<noteq> MOCPS_CMDID_KEYAGREE then -1
      else if moUtils_Check_checkCrc (ka_bytes resp) (sizeof_KEYAGREE_RESPONSE - 4) (ka_crc32 resp) < 0 then -2
      else 0)"

text \<open>
  The loop that waits for the response; \<open>sel\<close> holds the results of the calls of \<open>select\<close>. The result is
  negative, or 0 with the response, or 0 without one when the time is over.
\<close>

function keyAgreeWait :: "(nat \<Rightarrow> int) \<Rightarrow> nat \<Rightarrow> CLIENT \<Rightarrow> (int \<times> byte list option \<times> CLIENT) option" where
  "keyAgreeWait sel waitTime c =
     (if int waitTime > KEYAGREE_TIMEOUT then Some (0, None, c)
      else if sel waitTime < 0 then Some (-2, None, c)
      else if sel waitTime = 0 then keyAgreeWait sel (waitTime + 1) c
      else do {
        (readLen, resp, conn) \<leftarrow> conn_readn (ctrlConn c) (replicate sizeof_KEYAGREE_RESPONSE 0) (int sizeof_KEYAGREE_RESPONSE);
        Some (if readLen \<noteq> int sizeof_KEYAGREE_RESPONSE then -3 else 0, Some resp, c\<lparr>ctrlConn := conn\<rparr>)
      })"
  by pat_completeness auto
termination
  by (relation "measure (\<lambda>(sel, t, c). 5 - t)") auto

declare keyAgreeWait.simps [simp del]

definition cliDoKeyAgree :: "(nat \<Rightarrow> int) \<Rightarrow> CLIENT \<Rightarrow> (int \<times> CLIENT) option" where
  "cliDoKeyAgree sel c = do {
     (writeLen, conn) \<leftarrow> conn_writen (ctrlConn c)
       (req_bytes (newReq MOCPS_CMDID_KEYAGREE MOCPS_REQUEST_TYPE_NEED_RESPONSE [0, 0, 0, 0])) (int sizeof_REQUEST);
     let c = c\<lparr>ctrlConn := conn\<rparr>;
     if writeLen \<noteq> int sizeof_REQUEST then Some (-1, c)
     else do {
       (err, resp, c) \<leftarrow> keyAgreeWait sel 0 c;
       if err < 0 then Some (err, c)
       else case resp of
         None \<Rightarrow> Some (-5, c)
       | Some cipher \<Rightarrow>
           let (ret, plain) = decryptKeyAgreeResponse cipher
           in if ret < 0 then Some (-6, c)
              else if checkKeyagreeResp plain < 0 then Some (-7, c)
              else Some (0, c\<lparr>gCryptInfo := ka_crypt plain\<rparr>)
     }
   }"

section \<open>Starting and stopping\<close>

record CLIENV =
  ce_conf :: "string \<Rightarrow> string option"
  ce_inet_aton :: "string \<Rightarrow> 32 word option"
  ce_iniMalloc :: bool
  ce_dmmMalloc :: "byte list option"
  ce_crmmMalloc :: bool
  ce_cipherMalloc :: bool
  ce_alloc :: "nat \<Rightarrow> byte list option"
  ce_ctrlSock :: CSOCKENV
  ce_dataSock :: CSOCKENV
  ce_keySelect :: "nat \<Rightarrow> int"
  ce_respSelect :: int
  ce_hbThr :: int
  ce_rdThr :: int

text \<open>What the error exits of \<open>moCpsCli_init\<close> end with: the memory is freed and the mutex unlocked.\<close>

definition initFailed :: "CLIENT \<Rightarrow> CLIENT" where
  "initFailed c = (let c = crmmUnInit c in c\<lparr>cl_dmm := dmmUnInit (cl_dmm c), gMutexLocked := False\<rparr>)"

text \<open>The exits before and after the start of the heartbeat thread; \<open>destroy\<close> closes the sockets.\<close>

definition byeAndFail :: "CLIENV \<Rightarrow> int \<Rightarrow> (CLIENT \<Rightarrow> CLIENT) \<Rightarrow> CLIENT \<Rightarrow> (int \<times> CLIENT) option" where
  "byeAndFail e err destroy c = do {
     (_, c) \<leftarrow> sayByebye2Server (ce_cipherMalloc e) c;
     Some (err, initFailed (destroy c))
   }"

definition stopAndFail :: "CLIENV \<Rightarrow> int \<Rightarrow> (CLIENT \<Rightarrow> CLIENT) \<Rightarrow> CLIENT \<Rightarrow> (int \<times> CLIENT) option" where
  "stopAndFail e err destroy c = do {
     c \<leftarrow> stopHeartBeatThr c;
     byeAndFail e err destroy c
   }"

text \<open>The steps 5 to 8 of \<open>moCpsCli_init\<close>, when the heartbeat thread has been started.\<close>

definition initHeartbeating :: "CLIENV \<Rightarrow> MOCPS_CLI_CONFINFO \<Rightarrow> CLIENT \<Rightarrow> (int \<times> CLIENT) option" where
  "initHeartbeating e confInfo c = do {
     (ret, c) \<leftarrow> sendDataport2Server (ce_cipherMalloc e) (ce_respSelect e) (ce_alloc e) (cliDataPort confInfo) c;
     if ret < 0 then stopAndFail e MOCPS_CLI_ERR_CREATETHR_FAILED destroyCtrlSocket c
     else let (ret, c) = createDataSocket (ce_dataSock e) c
     in if ret < 0 then stopAndFail e MOCPS_CLI_ERR_CREATESOCK_FAILED destroyCtrlSocket c
     else let (ret, c) = createRecvDataThr (ce_rdThr e) c
     in if ret < 0 then stopAndFail e MOCPS_CLI_ERR_CREATETHR_FAILED (\<lambda>c. destroyDataSocket (destroyCtrlSocket c)) c
     else Some (MOCPS_CLI_ERR_OK, c\<lparr>callbackSet := True, gIsInited := True, gMutexLocked := False\<rparr>)
   }"

text \<open>The steps 3 and 4, when the control socket is connected.\<close>

definition initConnected :: "CLIENV \<Rightarrow> MOCPS_CLI_CONFINFO \<Rightarrow> CLIENT \<Rightarrow> (int \<times> CLIENT) option" where
  "initConnected e confInfo c = do {
     (ret, c) \<leftarrow> cliDoKeyAgree (ce_keySelect e) c;
     if ret < 0 then byeAndFail e MOCPS_CLI_ERR_CREATETHR_FAILED destroyCtrlSocket c
     else do {
       (ret, c) \<leftarrow> createHeartBeatThr (ce_hbThr e) (ce_cipherMalloc e) c;
       if ret < 0 then byeAndFail e MOCPS_CLI_ERR_CREATETHR_FAILED destroyCtrlSocket c
       else initHeartbeating e confInfo c
     }
   }"

definition moCpsCli_init :: "CLIENV \<Rightarrow> string option \<Rightarrow> bool \<Rightarrow> CLIENT \<Rightarrow> (int \<times> CLIENT) option" where
  "moCpsCli_init e pConfFilepath pFunc c =
     (if pConfFilepath = None \<or> \<not> pFunc then Some (MOCPS_CLI_ERR_INPUT_NULL, c)
      else if gMutexLocked c then None
      else let c = c\<lparr>gMutexLocked := True\<rparr>
      in if gIsInited c then Some (MOCPS_CLI_ERR_DUP_INIT, c\<lparr>gMutexLocked := False\<rparr>)
      else let (ret, d) = dmmInit (ce_dmmMalloc e) (cl_dmm c); c = c\<lparr>cl_dmm := d\<rparr>
      in if ret < 0 then Some (MOCPS_CLI_ERR_INTERNAL, c)
      else let (ret, c) = crmmInit (ce_crmmMalloc e) c
      in if ret < 0 then Some (MOCPS_CLI_ERR_INTERNAL, c)
      else do {
        (ret, conf) \<leftarrow> parseConf (ce_inet_aton e) (ce_conf e) (ce_iniMalloc e) pConfFilepath;
        case conf of
          None \<Rightarrow> Some (MOCPS_CLI_ERR_PARSECONF_FAILED, initFailed c)
        | Some confInfo \<Rightarrow>
            let (ret, c) = createCtrlSocket (ce_ctrlSock e) c
            in if ret < 0 then Some (MOCPS_CLI_ERR_CREATESOCK_FAILED, initFailed c)
               else initConnected e confInfo c
      })"

definition moCpsCli_unInit :: "bool \<Rightarrow> CLIENT \<Rightarrow> CLIENT option" where
  "moCpsCli_unInit mallocOk c =
     (if gMutexLocked c then None
      else if \<not> gIsInited c then Some c
      else do {
        c \<leftarrow> stopHeartBeatThr c;
        (_, c) \<leftarrow> sayByebye2Server mallocOk c;
        c \<leftarrow> stopRecvDataThr c;
        let c = crmmUnInit ((destroyDataSocket (destroyCtrlSocket c))\<lparr>callbackSet := False\<rparr>);
        Some (c\<lparr>cl_dmm := dmmUnInit (cl_dmm c), gIsInited := False, gMutexLocked := False\<rparr>)
      })"

section \<open>Requests of the application\<close>

text \<open>The command is an \<open>unsigned char\<close> here.\<close>

definition checkRequestParams :: "byte \<Rightarrow> u32 \<Rightarrow> bool \<Rightarrow> int" where
  "checkRequestParams cmdId need hasResp =
     (if cmdId \<ge> ucast MOCPS_CMDID_MAX then -1
      else if need = MOCPS_REQUEST_TYPE_NEED_RESPONSE \<and> \<not> hasResp then -2
      else 0)"

definition genCtrlReq :: "u32 \<Rightarrow> u32 \<Rightarrow> int \<times> MOCPS_CTRL_REQUEST" where
  "genCtrlReq cmdId need = (
     let req = \<lparr>req_mark = mark_field MOCPS_MARK_CLIENT, isNeedResp = need, req_cmdId = cmdId, req_res = [0, 0, 0, 0], req_crc32 = 0\<rparr>;
         (ret, crc) = moUtils_Check_getCrc (req_bytes req) (sizeof_REQUEST - 4) (req_crc32 req)
     in (if ret < 0 then -2 else 0, req\<lparr>req_crc32 := crc\<rparr>))"

definition sendReq2Server :: "byte list \<Rightarrow> int \<Rightarrow> CLIENT \<Rightarrow> (int \<times> CLIENT) option" where
  "sendReq2Server buf bufLen c = do {
     (writeLen, conn) \<leftarrow> conn_writen (ctrlConn c) buf bufLen;
     Some (if writeLen \<noteq> bufLen then -2 else 0, c\<lparr>ctrlConn := conn\<rparr>)
   }"

definition moCpsCli_sendRequest ::
    "CLIENV \<Rightarrow> u32 \<Rightarrow> u32 \<Rightarrow> MOCPS_CTRL_RESPONSE option \<Rightarrow> CLIENT \<Rightarrow> (int \<times> MOCPS_CTRL_RESPONSE option \<times> CLIENT) option" where
  "moCpsCli_sendRequest e cmdId need pCtrlResp c =
     (if checkRequestParams (ucast cmdId) need (pCtrlResp \<noteq> None) \<noteq> 0 then Some (MOCPS_CLI_ERR_INVALID_INPUTPARAM, pCtrlResp, c)
      else if \<not> gIsInited c then Some (MOCPS_CLI_ERR_DONOT_INIT, pCtrlResp, c)
      else let (ret, req) = genCtrlReq cmdId need
      in if ret \<noteq> 0 then Some (MOCPS_CLI_ERR_INTERNAL, pCtrlResp, c)
      else if \<not> ce_cipherMalloc e then Some (MOCPS_CLI_ERR_MALLOC, pCtrlResp, c)
      else do {
        (ret, pCipher) \<leftarrow> doEncrypt2Req (gCryptInfo c) req (replicate sizeof_REQUEST 0);
        if ret < 0 then Some (MOCPS_CLI_ERR_ENCRYPT, pCtrlResp, c)
        else do {
          (ret, c) \<leftarrow> sendReq2Server pCipher (int sizeof_REQUEST) c;
          if ret < 0 then Some (MOCPS_CLI_ERR_SEND_REQUEST, pCtrlResp, c)
          else if need \<noteq> 0 then do {
            (ret, pCtrlResp, c) \<leftarrow> getRespFromServer (ce_respSelect e) (ce_alloc e) (req_cmdId req) pCtrlResp c;
            Some (if ret < 0 then MOCPS_CLI_ERR_GET_RESPONSE else MOCPS_CLI_ERR_OK, pCtrlResp, c)
          }
          else Some (MOCPS_CLI_ERR_OK, pCtrlResp, c)
        }
      })"


section \<open>Requests and responses that arrive\<close>

lemma wf_newReq [simp]: "length res = 4 \<Longrightarrow> wf_req (newReq cmd need res)"
  by (simp add: newReq_def wf_req_def mark_field_def Let_def)

lemma genCtrlReq_eq: "genCtrlReq cmd need = (0, newReq cmd need [0, 0, 0, 0])"
  by (simp add: genCtrlReq_def newReq_def moUtils_Check_getCrc_def Let_def)

lemma req_cmdId_newReq [simp]: "req_cmdId (newReq cmd need res) = cmd"
  by (simp add: newReq_def Let_def)

lemma doEncrypt2Req_copies:
  assumes "copies info" and "wf_req req"
  shows "doEncrypt2Req info req (replicate 32 0) = Some (0, req_bytes req)"
proof -
  have "memcpyTo (req_bytes req) 32 (replicate 32 0) 0 = Some (0, req_bytes req)"
    using memcpyTo_ok [of 32 "req_bytes req" 0 "replicate 32 0"] assms(2) by simp
  then show ?thesis using assms(1)
    by (auto simp: doEncrypt2Req_def copies_def encryptWithAes_def encryptWithDes_def encryptWithDes3_def encryptWithRc4_def)
qed

lemma doEncrypt2Req_refuses: "\<not> copies info \<Longrightarrow> doEncrypt2Req info req pCipher = Some (-2, pCipher)"
  by (cases "cryptAlgoNo info") (auto simp: copies_def doEncrypt2Req_def)

lemma send_request:
  assumes "sends (ctrlConn c) (32 + k)" and "wf_req req"
  obtains conn where "conn_writen (ctrlConn c) (req_bytes req) 32 = Some (32, conn)" and "c_in conn = c_in (ctrlConn c)"
    and "c_sent conn = c_sent (ctrlConn c) @ req_bytes req" and "sends conn k"
  using conn_writen_sends [of "ctrlConn c" "req_bytes req" k] assms by auto

text \<open>A response to \<open>cmd\<close> with a body.\<close>

definition answers :: "MOCPS_CTRL_RESPONSE_BASIC \<Rightarrow> u32 \<Rightarrow> byte list \<Rightarrow> bool" where
  "answers b cmd body \<longleftrightarrow> wf_resp b \<and> resp_mark b = mark_field MOCPS_MARK_SERVER \<and> resp_cmdId b = cmd \<and>
     sint (bodyLen b) = int (length body) \<and> length body < CRMM_SIZE"

lemma answers_mark:
  assumes "answers b cmd body"
  shows "moUtils_Search_BF (Some (resp_bytes b)) 32 (Some MOCPS_MARK_SERVER) 12 = Some 0"
proof -
  have l: "length (resp_bytes b) = 32" using assms by (simp add: answers_def)
  have "occurs (resp_bytes b) MOCPS_MARK_SERVER 0"
    using assms l by (simp add: answers_def occurs_def resp_bytes_def mark_field_def)
  then have "search_spec (resp_bytes b) MOCPS_MARK_SERVER = int 0" by (rule search_spec_found) simp
  then show ?thesis
    using moUtils_Search_BF_correct [of 12 "resp_bytes b" MOCPS_MARK_SERVER] l by (simp add: search_input_def)
qed

lemma doDecrypt2Resp_all:
  assumes "copies info" and "length src = n" and "n \<le> length dst"
  shows "doDecrypt2Resp info src dst 0 (int n) = Some (0, src @ drop n dst)"
  using memcpyTo_ok [of n src 0 dst] assms by (simp add: doDecrypt2Resp_copies)

lemma getResp_ok:
  assumes "0 < sel" and "copies (gCryptInfo c)" and "answers b cmd body"
    and "clean (c_in (ctrlConn c))" and "stream (c_in (ctrlConn c)) = resp_bytes b @ body @ rest"
    and "gCrmmData c = Some data" and "length data = CRMM_SIZE"
    and "body = [] \<or> (\<exists>mem. alloc (length body) = Some mem \<and> length mem = length body)"
  obtains es where "getRespFromServer sel alloc cmd (Some resp) c =
      Some (0, Some \<lparr>basicInfo = b, pBody = (body \<noteq> [])\<rparr>,
        c\<lparr>ctrlConn := (ctrlConn c)\<lparr>c_in := es\<rparr>, gCrmmData := Some (body @ drop (length body) data)\<rparr>)"
    and "clean es" and "stream es = rest"
proof -
  have b: "length (resp_bytes b) = 32" "bytes_resp (resp_bytes b) = b" "resp_cmdId b = cmd" "sint (bodyLen b) = int (length body)"
    "length body < 2097152"
    using assms(3) by (simp_all add: answers_def)
  obtain es where es: "conn_readn (ctrlConn c) (replicate 32 0) 32 = Some (32, resp_bytes b, (ctrlConn c)\<lparr>c_in := es\<rparr>)"
    "clean es" "stream es = body @ rest"
    using conn_readn_clean [of "ctrlConn c" 32 "replicate 32 0"] assms(4,5) b(1) by auto
  have d: "doDecrypt2Resp (gCryptInfo c) (resp_bytes b) (replicate 32 0) 0 32 = Some (0, resp_bytes b)"
    using doDecrypt2Resp_all [OF assms(2) b(1), of "replicate 32 0"] by simp
  let ?conn = "(ctrlConn c)\<lparr>c_in := es\<rparr>"
  have basic: "getBasicResp sel cmd c = Some (0, Some b, c\<lparr>ctrlConn := ?conn\<rparr>)"
    using assms(1) b(1-3) es(1) d by (simp add: getBasicResp_def answers_mark [OF assms(3)] moUtils_Check_checkCrc_def)
  show ?thesis
  proof (cases "body = []")
    case True
    then show ?thesis using es(2,3) assms(6) b(4) basic
      by (intro that [of es]) (simp_all add: getRespFromServer_def getRespBody_def)
  next
    case False
    then obtain mem where mem: "alloc (length body) = Some mem" "length mem = length body" using assms(8) by blast
    obtain es2 where es2: "conn_readn ?conn mem (int (length body)) = Some (int (length body), body, ?conn\<lparr>c_in := es2\<rparr>)"
      "clean es2" "stream es2 = rest"
      using conn_readn_clean [of ?conn "length body" mem] es mem by auto
    have "doDecrypt2Resp (gCryptInfo c) body data 0 (int (length body)) = Some (0, body @ drop (length body) data)"
      using doDecrypt2Resp_all [OF assms(2) refl, of body data] assms(7) b(5) by simp
    then show ?thesis using es2 assms(6) False mem(1) b(4,5) basic
      by (intro that [of es2]) (simp_all add: getRespFromServer_def getRespBody_def crmmMaxSize_def Let_def)
  qed
qed

lemma sendRequest_ok:
  assumes "cmd < MOCPS_CMDID_MAX" and "gIsInited c" and "copies (gCryptInfo c)" and "ce_cipherMalloc e" and "0 < ce_respSelect e"
    and "sends (ctrlConn c) (32 + k)" and "answers b cmd body"
    and "clean (c_in (ctrlConn c))" and "stream (c_in (ctrlConn c)) = resp_bytes b @ body @ rest"
    and "gCrmmData c = Some data" and "length data = CRMM_SIZE"
    and "body = [] \<or> (\<exists>mem. ce_alloc e (length body) = Some mem \<and> length mem = length body)"
  obtains conn where "moCpsCli_sendRequest e cmd MOCPS_REQUEST_TYPE_NEED_RESPONSE (Some resp) c =
      Some (MOCPS_CLI_ERR_OK, Some \<lparr>basicInfo = b, pBody = (body \<noteq> [])\<rparr>,
        c\<lparr>ctrlConn := conn, gCrmmData := Some (body @ drop (length body) data)\<rparr>)"
    and "c_sent conn = c_sent (ctrlConn c) @ req_bytes (newReq cmd MOCPS_REQUEST_TYPE_NEED_RESPONSE [0, 0, 0, 0])"
    and "clean (c_in conn)" and "stream (c_in conn) = rest" and "sends conn k"
proof -
  let ?req = "newReq cmd MOCPS_REQUEST_TYPE_NEED_RESPONSE [0, 0, 0, 0]"
  have "uint cmd < 6" using assms(1) by (simp add: word_less_def)
  then have "uint (ucast cmd :: byte) < 6" by (simp add: unsigned_ucast_eq take_bit_eq_mod)
  then have p: "checkRequestParams (ucast cmd) MOCPS_REQUEST_TYPE_NEED_RESPONSE True = 0"
    by (simp add: checkRequestParams_def word_le_def)
  obtain conn where conn: "conn_writen (ctrlConn c) (req_bytes ?req) 32 = Some (32, conn)" "c_in conn = c_in (ctrlConn c)"
    "c_sent conn = c_sent (ctrlConn c) @ req_bytes ?req" "sends conn k"
    using send_request [OF assms(6), of ?req] by auto
  let ?c = "c\<lparr>ctrlConn := conn\<rparr>"
  obtain es where es: "getRespFromServer (ce_respSelect e) (ce_alloc e) cmd (Some resp) ?c =
      Some (0, Some \<lparr>basicInfo = b, pBody = (body \<noteq> [])\<rparr>,
        ?c\<lparr>ctrlConn := (ctrlConn ?c)\<lparr>c_in := es\<rparr>, gCrmmData := Some (body @ drop (length body) data)\<rparr>)"
    "clean es" "stream es = rest"
    using getResp_ok [of "ce_respSelect e" ?c b cmd body rest data "ce_alloc e" resp] assms(3,5,7-12) conn(2) by auto
  have e: "doEncrypt2Req (gCryptInfo c) ?req (replicate 32 0) = Some (0, req_bytes ?req)"
    by (rule doEncrypt2Req_copies [OF assms(3)]) simp
  show ?thesis using p conn es assms(2,4) e
    by (intro that [of "conn\<lparr>c_in := es\<rparr>"])
      (simp_all add: moCpsCli_sendRequest_def genCtrlReq_eq sendReq2Server_def sends_def)
qed

text \<open>
  The first \<open>k\<close> bytes of the body arrive without a gap. A gap after them is not noticed: the rest of the
  memory is what \<open>malloc\<close> has returned.
\<close>

lemma getResp_front:
  assumes "0 < sel" and "copies (gCryptInfo c)" and "answers b cmd body" and "body \<noteq> []"
    and "c_in (ctrlConn c) = es1 @ es2" and "clean es1" and "stream es1 = resp_bytes b @ take k body @ rest"
    and "k = length body \<or> k < length body \<and> rest = [] \<and> (\<exists>es3. es2 = Recv_err EAGAIN # es3)"
    and "gCrmmData c = Some data" and "length data = CRMM_SIZE"
    and "alloc (length body) = Some mem" and "length mem = length body"
  obtains es where "getRespFromServer sel alloc cmd (Some resp) c =
      Some (0, Some \<lparr>basicInfo = b, pBody = True\<rparr>,
        c\<lparr>ctrlConn := (ctrlConn c)\<lparr>c_in := es\<rparr>, gCrmmData := Some ((take k body @ drop k mem) @ drop (length body) data)\<rparr>)"
proof -
  have b: "length (resp_bytes b) = 32" "bytes_resp (resp_bytes b) = b" "resp_cmdId b = cmd" "sint (bodyLen b) = int (length body)"
    "length body < 2097152"
    using assms(3) by (simp_all add: answers_def)
  obtain es where es: "conn_readn (ctrlConn c) (replicate 32 0) (int 32) =
      Some (int 32, take 32 (stream es1) @ drop 32 (replicate 32 0), (ctrlConn c)\<lparr>c_in := es @ es2\<rparr>)"
    "clean es" "stream es = drop 32 (stream es1)"
    by (rule conn_readn_front [OF assms(5,6), of 32 "replicate 32 0"]) (use assms(7) b(1) in auto)
  then have r: "conn_readn (ctrlConn c) (replicate 32 0) 32 = Some (32, resp_bytes b, (ctrlConn c)\<lparr>c_in := es @ es2\<rparr>)"
    "stream es = take k body @ rest"
    using assms(7) b(1) by simp_all
  have d: "doDecrypt2Resp (gCryptInfo c) (resp_bytes b) (replicate 32 0) 0 32 = Some (0, resp_bytes b)"
    using doDecrypt2Resp_all [OF assms(2) b(1), of "replicate 32 0"] by simp
  let ?conn = "(ctrlConn c)\<lparr>c_in := es @ es2\<rparr>"
  have basic: "getBasicResp sel cmd c = Some (0, Some b, c\<lparr>ctrlConn := ?conn\<rparr>)"
    using assms(1) b(1-3) r(1) d by (simp add: getBasicResp_def answers_mark [OF assms(3)] moUtils_Check_checkCrc_def)
  let ?part = "take k body @ drop k mem"
  have k: "k \<le> length body" "length ?part = length body" using assms(8,12) by auto
  have "\<exists>fs. conn_readn ?conn mem (int (length body)) = Some (int k, ?part, ?conn\<lparr>c_in := fs\<rparr>)"
  proof (cases "k = length body")
    case True
    then show ?thesis
      using conn_readn_front [of ?conn es es2 "length body" mem] es(2) r(2) assms(12) by auto
  next
    case False
    then obtain es3 where e3: "k < length body" "rest = []" "es2 = Recv_err EAGAIN # es3" using assms(8) by blast
    have lk: "length (stream es) = k" "stream es = take k body" using r(2) e3(1,2) by auto
    have "conn_readn ?conn mem (int (length body)) = Some (int (length (stream es)), stream es @ drop (length (stream es)) mem, ?conn\<lparr>c_in := es3\<rparr>)"
      by (rule conn_readn_gap) (use es(2) lk e3 assms(12) in auto)
    then show ?thesis using lk by auto
  qed
  then obtain fs where fs: "conn_readn ?conn mem (int (length body)) = Some (int k, ?part, ?conn\<lparr>c_in := fs\<rparr>)" by blast
  have "doDecrypt2Resp (gCryptInfo c) ?part data 0 (int (length body)) = Some (0, ?part @ drop (length body) data)"
    using doDecrypt2Resp_all [OF assms(2) k(2), of data] assms(10) b(5) by simp
  then show ?thesis using fs assms(4,9,11) b(4,5) basic
    by (intro that [of fs]) (simp_all add: getRespFromServer_def getRespBody_def crmmMaxSize_def Let_def)
qed

lemma sendRequest_front:
  assumes "cmd < MOCPS_CMDID_MAX" and "gIsInited c" and "copies (gCryptInfo c)" and "ce_cipherMalloc e" and "0 < ce_respSelect e"
    and "sends (ctrlConn c) 32" and "answers b cmd body" and "body \<noteq> []"
    and "c_in (ctrlConn c) = es1 @ es2" and "clean es1" and "stream es1 = resp_bytes b @ take k body @ rest"
    and "k = length body \<or> k < length body \<and> rest = [] \<and> (\<exists>es3. es2 = Recv_err EAGAIN # es3)"
    and "gCrmmData c = Some data" and "length data = CRMM_SIZE"
    and "ce_alloc e (length body) = Some mem" and "length mem = length body"
  obtains conn where "moCpsCli_sendRequest e cmd MOCPS_REQUEST_TYPE_NEED_RESPONSE (Some resp) c =
      Some (MOCPS_CLI_ERR_OK, Some \<lparr>basicInfo = b, pBody = True\<rparr>,
        c\<lparr>ctrlConn := conn, gCrmmData := Some ((take k body @ drop k mem) @ drop (length body) data)\<rparr>)"
    and "c_sent conn = c_sent (ctrlConn c) @ req_bytes (newReq cmd MOCPS_REQUEST_TYPE_NEED_RESPONSE [0, 0, 0, 0])"
proof -
  let ?req = "newReq cmd MOCPS_REQUEST_TYPE_NEED_RESPONSE [0, 0, 0, 0]"
  have "uint cmd < 6" using assms(1) by (simp add: word_less_def)
  then have "uint (ucast cmd :: byte) < 6" by (simp add: unsigned_ucast_eq take_bit_eq_mod)
  then have p: "checkRequestParams (ucast cmd) MOCPS_REQUEST_TYPE_NEED_RESPONSE True = 0"
    by (simp add: checkRequestParams_def word_le_def)
  obtain conn where conn: "conn_writen (ctrlConn c) (req_bytes ?req) 32 = Some (32, conn)" "c_in conn = c_in (ctrlConn c)"
    "c_sent conn = c_sent (ctrlConn c) @ req_bytes ?req"
    using send_request [of c 0 ?req] assms(6) by auto
  let ?c = "c\<lparr>ctrlConn := conn\<rparr>"
  have cin: "c_in (ctrlConn ?c) = es1 @ es2" using conn(2) assms(9) by simp
  obtain es where es: "getRespFromServer (ce_respSelect e) (ce_alloc e) cmd (Some resp) ?c =
      Some (0, Some \<lparr>basicInfo = b, pBody = True\<rparr>,
        ?c\<lparr>ctrlConn := (ctrlConn ?c)\<lparr>c_in := es\<rparr>, gCrmmData := Some ((take k body @ drop k mem) @ drop (length body) data)\<rparr>)"
    by (rule getResp_front [of "ce_respSelect e" ?c b cmd body es1 es2 k rest data "ce_alloc e" mem resp])
      (use assms(3,5,7,8,10-16) cin in simp_all)
  have e: "doEncrypt2Req (gCryptInfo c) ?req (replicate 32 0) = Some (0, req_bytes ?req)"
    by (rule doEncrypt2Req_copies [OF assms(3)]) simp
  show ?thesis using p conn es assms(2,4) e
    by (intro that [of "conn\<lparr>c_in := es\<rparr>"])
      (simp_all add: moCpsCli_sendRequest_def genCtrlReq_eq sendReq2Server_def)
qed

section \<open>Heartbeats\<close>

lemma heartBeatThr_add: "heartBeatThr (m + n) p t = Option.bind (heartBeatThr m p t) (heartBeatThr n p)"
  by (induction m arbitrary: t) (auto split: Option.bind_splits)

lemma heartBeat_period:
  assumes "gHeartbeatThrRunningFlag (hb_client t)" and "hbAlive (hb_client t)" and "waited t = MOCPS_HEARTBEAT_INTEVAL"
    and "sends (ctrlConn (hb_client t)) (32 + k)" and "length p = 32"
  obtains conn where "heartBeatThr 4 p t = Some \<lparr>waited = MOCPS_HEARTBEAT_INTEVAL, slept = slept t + 3, hb_client = (hb_client t)\<lparr>ctrlConn := conn\<rparr>\<rparr>"
    and "c_sent conn = c_sent (ctrlConn (hb_client t)) @ p" and "sends conn k"
proof -
  obtain conn where conn: "conn_writen (ctrlConn (hb_client t)) p 32 = Some (32, conn)"
    "c_sent conn = c_sent (ctrlConn (hb_client t)) @ p" "sends conn k"
    using conn_writen_sends [of "ctrlConn (hb_client t)" p k] assms(4,5) by auto
  have "heartBeatTurn p t = Some (t\<lparr>waited := 0, hb_client := (hb_client t)\<lparr>ctrlConn := conn\<rparr>\<rparr>)"
    using assms(1-3) conn(1) by (simp add: heartBeatTurn_def Let_def)
  moreover have "heartBeatTurn p \<lparr>waited = w, slept = n, hb_client = (hb_client t)\<lparr>ctrlConn := conn\<rparr>\<rparr> =
      Some \<lparr>waited = w + 1, slept = n + 1, hb_client = (hb_client t)\<lparr>ctrlConn := conn\<rparr>\<rparr>" if "w < 3" for w n
    using assms(1,2) that by (simp add: heartBeatTurn_def Let_def)
  ultimately have "heartBeatThr 4 p t = Some \<lparr>waited = 3, slept = slept t + 3, hb_client = (hb_client t)\<lparr>ctrlConn := conn\<rparr>\<rparr>"
    by (cases t) (simp add: eval_nat_numeral)
  then show ?thesis using conn by (intro that [of conn])
qed

text \<open>
  A heartbeat every three seconds: while the thread is not stopped and the connection takes its
  requests, after \<open>n\<close> rounds of its loop exactly \<open>n\<close> heartbeat requests have been sent, whole and in order, and the
  thread has slept for \<open>3 * n\<close> seconds.
\<close>

theorem heartbeat_every_interval:
  assumes "heartBeatStart mallocOk (gCryptInfo (hb_client t)) = Some (Some p)"
    and "gHeartbeatThrRunningFlag (hb_client t)" and "hbAlive (hb_client t)" and "waited t = MOCPS_HEARTBEAT_INTEVAL"
    and "sends (ctrlConn (hb_client t)) (sizeof_REQUEST * n)"
  shows "\<exists>t'. heartBeatThr (4 * n) p t = Some t' \<and> slept t' = slept t + 3 * n \<and> hbAlive (hb_client t') \<and>
    c_sent (ctrlConn (hb_client t')) = c_sent (ctrlConn (hb_client t)) @
      concat (replicate n (req_bytes (newReq MOCPS_CMDID_HEARTBEAT MOCPS_REQUEST_TYPE_NOTNEED_RESPONSE [0, 0, 0, 0])))"
proof -
  let ?b = "req_bytes (newReq 1 0 [0, 0, 0, 0])"
  have "copies (gCryptInfo (hb_client t))"
    using assms(1) by (cases "copies (gCryptInfo (hb_client t))")
      (auto simp: heartBeatStart_def doEncrypt2Req_refuses split: if_splits)
  then have p: "p = ?b" using assms(1) by (auto simp: heartBeatStart_def doEncrypt2Req_copies split: if_splits)
  have lb: "length ?b = 32" by simp
  have "\<exists>t'. heartBeatThr (4 * n) ?b t = Some t' \<and> slept t' = slept t + 3 * n \<and> hbAlive (hb_client t') \<and>
    c_sent (ctrlConn (hb_client t')) = c_sent (ctrlConn (hb_client t)) @ concat (replicate n ?b)"
    using assms(2-)
  proof (induction n arbitrary: t)
    case (Suc n)
    obtain conn where conn: "heartBeatThr 4 ?b t = Some \<lparr>waited = 3, slept = slept t + 3, hb_client = (hb_client t)\<lparr>ctrlConn := conn\<rparr>\<rparr>"
      "c_sent conn = c_sent (ctrlConn (hb_client t)) @ ?b" "sends conn (32 * n)"
      using heartBeat_period [OF Suc.prems(1-3) _ lb, of "32 * n"] Suc.prems(4) by auto
    obtain t' where "heartBeatThr (4 * n) ?b \<lparr>waited = 3, slept = slept t + 3, hb_client = (hb_client t)\<lparr>ctrlConn := conn\<rparr>\<rparr> = Some t'"
      "slept t' = slept t + 3 + 3 * n" "hbAlive (hb_client t')" "c_sent (ctrlConn (hb_client t')) = c_sent conn @ concat (replicate n ?b)"
      using Suc.IH [of "\<lparr>waited = 3, slept = slept t + 3, hb_client = (hb_client t)\<lparr>ctrlConn := conn\<rparr>\<rparr>"] Suc.prems conn(3) by auto
    then show ?case using conn(1,2) heartBeatThr_add [of 4 "4 * n" ?b t] by simp
  qed auto
  then show ?thesis unfolding p .
qed


section \<open>The states of the client\<close>

text \<open>Idle, running, or locked for good: the mutex is not free, no socket is open, and the client is not initialised.\<close>

definition cli_idle :: "CLIENT \<Rightarrow> bool" where
  "cli_idle c \<longleftrightarrow> \<not> gIsInited c \<and> \<not> gMutexLocked c \<and> gCtrlSockId c = MOCPS_INVALID_SOCKID \<and>
     gDataSockId c = MOCPS_INVALID_SOCKID \<and> openSocks c = [] \<and> gCrmmData c = None \<and> gpDmmData (cl_dmm c) = None \<and>
     \<not> callbackSet c \<and> \<not> gHeartbeatThrRunningFlag c \<and> \<not> gRecvdataThrRunningFlag c"

definition cli_running :: "CLIENT \<Rightarrow> bool" where
  "cli_running c \<longleftrightarrow> gIsInited c \<and> \<not> gMutexLocked c \<and> 0 < gCtrlSockId c \<and> 0 < gDataSockId c \<and>
     openSocks c = [gDataSockId c, gCtrlSockId c] \<and> map_option length (gCrmmData c) = Some CRMM_SIZE \<and>
     gpDmmData (cl_dmm c) \<noteq> None \<and> callbackSet c \<and>
     (gHeartbeatThrRunningFlag c \<longrightarrow> gHeartbeatThrRunningState c = CLI_THREAD_STATE_RUNNING) \<and>
     gRecvdataThrRunningFlag c \<and> gRecvdataThrRunningState c = CLI_THREAD_STATE_RUNNING"

definition cli_locked :: "CLIENT \<Rightarrow> bool" where
  "cli_locked c \<longleftrightarrow> \<not> gIsInited c \<and> gMutexLocked c \<and> gCtrlSockId c = MOCPS_INVALID_SOCKID \<and>
     gDataSockId c = MOCPS_INVALID_SOCKID \<and> openSocks c = [] \<and> gCrmmData c = None \<and>
     \<not> callbackSet c \<and> \<not> gHeartbeatThrRunningFlag c \<and> \<not> gRecvdataThrRunningFlag c"

text \<open>
  The functions that only talk to the server change the connection, the key and the contents of the
  memory for responses, and nothing else.
\<close>

definition same_globals :: "CLIENT \<Rightarrow> CLIENT \<Rightarrow> bool" where
  "same_globals c c' \<longleftrightarrow> gIsInited c' = gIsInited c \<and> gMutexLocked c' = gMutexLocked c \<and> gCtrlSockId c' = gCtrlSockId c \<and>
     gDataSockId c' = gDataSockId c \<and> callbackSet c' = callbackSet c \<and>
     gHeartbeatThrRunningFlag c' = gHeartbeatThrRunningFlag c \<and> gHeartbeatThrRunningState c' = gHeartbeatThrRunningState c \<and>
     hbAlive c' = hbAlive c \<and> gRecvdataThrRunningFlag c' = gRecvdataThrRunningFlag c \<and>
     gRecvdataThrRunningState c' = gRecvdataThrRunningState c \<and> rdAlive c' = rdAlive c \<and>
     map_option length (gCrmmData c') = map_option length (gCrmmData c) \<and> cl_dmm c' = cl_dmm c \<and> openSocks c' = openSocks c"

lemma same_globals_refl [simp]: "same_globals c c"
  by (simp add: same_globals_def)

lemma same_globals_upd [simp]:
  "same_globals c (c'\<lparr>ctrlConn := conn\<rparr>) \<longleftrightarrow> same_globals c c'" "same_globals (c\<lparr>ctrlConn := conn\<rparr>) c' \<longleftrightarrow> same_globals c c'"
  "same_globals c (c'\<lparr>gCryptInfo := info\<rparr>) \<longleftrightarrow> same_globals c c'"
  by (simp_all add: same_globals_def)

lemma sayByebye_globals: "sayByebye2Server m c = Some (r, c') \<Longrightarrow> same_globals c c'"
  by (auto simp: sayByebye2Server_def Let_def split: if_splits Option.bind_splits)

lemma keyAgreeWait_globals: "keyAgreeWait sel t c = Some (r, x, c') \<Longrightarrow> same_globals c c'"
proof (induction sel t c rule: keyAgreeWait.induct)
  case (1 sel t c)
  note k = keyAgreeWait.simps [of sel t c]
  show ?case
  proof (cases "int t > 4 \<or> sel t \<noteq> 0")
    case True
    then show ?thesis using 1(2) by (auto simp: k split: if_splits Option.bind_splits)
  next
    case False
    then show ?thesis using 1 by (auto simp: k)
  qed
qed

lemma doKeyAgree_globals: "cliDoKeyAgree sel c = Some (r, c') \<Longrightarrow> same_globals c c'"
  by (auto simp: cliDoKeyAgree_def Let_def split: if_splits Option.bind_splits option.splits prod.splits
    dest!: keyAgreeWait_globals)

lemma memcpyTo_length: "memcpyTo src len dst off = Some (r, dst') \<Longrightarrow> length dst' = length dst"
  by (auto simp: memcpyTo_def wrn_def split: if_splits Option.bind_splits)

lemma doDecrypt2Resp_length: "doDecrypt2Resp info src dst off len = Some (r, dst') \<Longrightarrow> length dst' = length dst"
  by (auto simp: doDecrypt2Resp_def decryptWithAes_def decryptWithDes_def decryptWithDes3_def decryptWithRc4_def
    dest: memcpyTo_length split: MOCPS_CRYPT_ALGO.splits)

lemma getBasicResp_globals: "getBasicResp sel cmd c = Some (r, x, c') \<Longrightarrow> same_globals c c'"
  by (auto simp: getBasicResp_def Let_def split: if_splits Option.bind_splits)

lemma getRespBody_globals: "getRespBody alloc resp c = Some (r, x, c') \<Longrightarrow> same_globals c c'"
  by (auto simp: getRespBody_def Let_def split: if_splits Option.bind_splits option.splits
    dest!: doDecrypt2Resp_length) (auto simp: same_globals_def)

lemma getResp_globals:
  assumes "getRespFromServer sel alloc cmd resp c = Some (r, x, c')"
  shows "same_globals c c'"
proof (cases resp)
  case None
  then show ?thesis using assms by (simp add: getRespFromServer_def)
next
  case (Some q)
  then obtain ret b c1 where c1: "getBasicResp sel cmd c = Some (ret, b, c1)"
    using assms by (auto simp: getRespFromServer_def split: Option.bind_splits)
  then have "c' = c1 \<or> same_globals c1 c'"
    using assms Some by (auto simp: getRespFromServer_def split: option.splits dest: getRespBody_globals)
  then show ?thesis using getBasicResp_globals [OF c1] by (auto simp: same_globals_def)
qed

lemma sendDataport_globals: "sendDataport2Server m sel alloc port c = Some (r, c') \<Longrightarrow> same_globals c c'"
  by (auto simp: sendDataport2Server_def Let_def split: if_splits Option.bind_splits
    dest!: getResp_globals)

lemma sendRequest_globals: "moCpsCli_sendRequest e cmd need resp c = Some (r, x, c') \<Longrightarrow> same_globals c c'"
  by (auto simp: moCpsCli_sendRequest_def sendReq2Server_def genCtrlReq_eq split: if_splits Option.bind_splits
    dest!: getResp_globals)

lemma same_globals_states: "same_globals c c' \<Longrightarrow> cli_idle c' \<longleftrightarrow> cli_idle c" "same_globals c c' \<Longrightarrow> cli_running c' \<longleftrightarrow> cli_running c"
  "same_globals c c' \<Longrightarrow> cli_locked c' \<longleftrightarrow> cli_locked c"
  by (auto simp: same_globals_def cli_idle_def cli_running_def cli_locked_def)

text \<open>
  The kernel gives two open sockets different numbers, and not that of the standard input. An environment is in order
  if the memory suffices, too.
\<close>

definition socks_ok :: "CLIENV \<Rightarrow> bool" where
  "socks_ok e \<longleftrightarrow> cs_socket (ce_ctrlSock e) \<noteq> 0 \<and> cs_socket (ce_dataSock e) \<noteq> 0 \<and>
     cs_socket (ce_dataSock e) \<noteq> cs_socket (ce_ctrlSock e)"

definition mem_ok :: "CLIENV \<Rightarrow> bool" where
  "mem_ok e \<longleftrightarrow> ce_dmmMalloc e \<noteq> None \<and> ce_crmmMalloc e"

definition env_ok :: "CLIENV \<Rightarrow> bool" where
  "env_ok e \<longleftrightarrow> ce_dmmMalloc e \<noteq> None \<and> ce_crmmMalloc e \<and> cs_socket (ce_ctrlSock e) \<noteq> 0 \<and> cs_socket (ce_dataSock e) \<noteq> 0 \<and>
     cs_socket (ce_dataSock e) \<noteq> cs_socket (ce_ctrlSock e)"

lemma env_ok_split: "env_ok e \<longleftrightarrow> mem_ok e \<and> socks_ok e"
  by (auto simp: env_ok_def mem_ok_def socks_ok_def)

lemma createCtrlSocket_cases:
  assumes "createCtrlSocket e c = (r, c')" and "gCtrlSockId c = MOCPS_INVALID_SOCKID" and "cs_socket e \<noteq> 0"
  shows "r < 0 \<and> c' = c \<or> r = 0 \<and> 0 < cs_socket e \<and> c' = c\<lparr>gCtrlSockId := cs_socket e, openSocks := cs_socket e # openSocks c\<rparr>"
  using assms by (auto simp: createCtrlSocket_def createSockAndBind_def Let_def split: if_splits)

lemma createDataSocket_cases:
  assumes "createDataSocket e c = (r, c')" and "gDataSockId c = MOCPS_INVALID_SOCKID" and "cs_socket e \<noteq> 0"
  shows "r < 0 \<and> c' = c \<or> r = 0 \<and> 0 < cs_socket e \<and> c' = c\<lparr>gDataSockId := cs_socket e, openSocks := cs_socket e # openSocks c\<rparr>"
  using assms by (auto simp: createDataSocket_def createSockAndBind_def Let_def split: if_splits)

text \<open>The states in between: the control socket is open, the heartbeat thread may have been started.\<close>

definition cli_between :: "bool \<Rightarrow> CLIENT \<Rightarrow> bool" where
  "cli_between hb c \<longleftrightarrow> \<not> gIsInited c \<and> 0 < gCtrlSockId c \<and> gDataSockId c = MOCPS_INVALID_SOCKID \<and>
     openSocks c = [gCtrlSockId c] \<and> map_option length (gCrmmData c) = Some CRMM_SIZE \<and> gpDmmData (cl_dmm c) \<noteq> None \<and>
     \<not> callbackSet c \<and> \<not> gRecvdataThrRunningFlag c \<and>
     (gHeartbeatThrRunningFlag c \<longrightarrow> hb \<and> gHeartbeatThrRunningState c = CLI_THREAD_STATE_RUNNING)"

lemma cli_between_globals: "same_globals c c' \<Longrightarrow> cli_between hb c' \<longleftrightarrow> cli_between hb c"
  by (auto simp: same_globals_def cli_between_def)

lemma cli_between_failed: "cli_between False c \<Longrightarrow> cli_idle (initFailed (destroyCtrlSocket c))"
  by (simp add: cli_between_def cli_idle_def initFailed_def destroyCtrlSocket_def crmmUnInit_def dmmUnInit_def Let_def)

lemma stopHeartBeat_between: "stopHeartBeatThr c = Some c' \<Longrightarrow> cli_between True c \<Longrightarrow> cli_between False c'"
  by (auto simp: stopHeartBeatThr_def cli_between_def Let_def split: if_splits)

lemma createHeartBeat_between:
  "createHeartBeatThr thr m c = Some (r, c') \<Longrightarrow> cli_between False c \<Longrightarrow> cli_between (r \<ge> 0) c'"
  by (auto simp: createHeartBeatThr_def cli_between_def Let_def split: if_splits Option.bind_splits)

lemma byeAndFail_idle:
  assumes "byeAndFail e err destroyCtrlSocket c = Some (r, c')" and "cli_between False c"
  shows "r = err \<and> cli_idle c'"
proof -
  obtain b c1 where c1: "sayByebye2Server (ce_cipherMalloc e) c = Some (b, c1)" "r = err" "c' = initFailed (destroyCtrlSocket c1)"
    using assms(1) by (auto simp: byeAndFail_def split: Option.bind_splits)
  then have "cli_between False c1" using cli_between_globals [OF sayByebye_globals [OF c1(1)]] assms(2) by blast
  then show ?thesis using c1(2,3) cli_between_failed by simp
qed

lemma stopAndFail_idle:
  assumes "stopAndFail e err destroyCtrlSocket c = Some (r, c')" and "cli_between True c"
  shows "r = err \<and> cli_idle c'"
proof -
  obtain c1 where "stopHeartBeatThr c = Some c1" "byeAndFail e err destroyCtrlSocket c1 = Some (r, c')"
    using assms(1) by (auto simp: stopAndFail_def split: Option.bind_splits)
  then show ?thesis using stopHeartBeat_between byeAndFail_idle assms(2) by blast
qed

text \<open>The data socket is open, too, and the receiving thread could not be started.\<close>

lemma stopAndFail_both:
  assumes "stopAndFail e err (\<lambda>c. destroyDataSocket (destroyCtrlSocket c)) c = Some (r, c')" and "cli_between True c0"
    and "c = c0\<lparr>gDataSockId := s, openSocks := s # openSocks c0, gRecvdataThrRunningFlag := False, gRecvdataThrRunningState := st\<rparr>"
    and "0 < s" and "s \<noteq> gCtrlSockId c0"
  shows "r = err \<and> cli_idle c'"
proof -
  obtain c1 b c2 where c1: "stopHeartBeatThr c = Some c1" "sayByebye2Server (ce_cipherMalloc e) c1 = Some (b, c2)"
    "r = err" "c' = initFailed (destroyDataSocket (destroyCtrlSocket c2))"
    using assms(1) by (auto simp: stopAndFail_def byeAndFail_def split: Option.bind_splits)
  have "same_globals c1 c2" by (rule sayByebye_globals [OF c1(2)])
  moreover have "\<not> gHeartbeatThrRunningFlag c1" "same_globals (c\<lparr>gHeartbeatThrRunningFlag := gHeartbeatThrRunningFlag c1,
      gHeartbeatThrRunningState := gHeartbeatThrRunningState c1, hbAlive := hbAlive c1\<rparr>) c1"
    using c1(1) by (auto simp: stopHeartBeatThr_def Let_def same_globals_def split: if_splits)
  ultimately show ?thesis using c1(3,4) assms(2-5)
    by (simp add: same_globals_def cli_between_def cli_idle_def initFailed_def destroyCtrlSocket_def destroyDataSocket_def
      crmmUnInit_def dmmUnInit_def Let_def)
qed

text \<open>The start of \<open>moCpsCli_init\<close> up to the control socket.\<close>

lemma init_start:
  assumes "cli_idle c" and "env_ok e" and "p \<noteq> None" and f
  obtains c0 where "moCpsCli_init e p f c = do {
      (ret, conf) \<leftarrow> parseConf (ce_inet_aton e) (ce_conf e) (ce_iniMalloc e) p;
      case conf of
        None \<Rightarrow> Some (-3, initFailed c0)
      | Some confInfo \<Rightarrow>
          let (ret, c) = createCtrlSocket (ce_ctrlSock e) c0
          in if ret < 0 then Some (-4, initFailed c) else initConnected e confInfo c }"
    and "gCtrlSockId c0 = -1" and "cli_idle (initFailed c0)" and "gCryptInfo c0 = gCryptInfo c" and "ctrlConn c0 = ctrlConn c"
    and "\<And>s. 0 < s \<Longrightarrow> cli_between False (c0\<lparr>gCtrlSockId := s, openSocks := s # openSocks c0\<rparr>)"
proof -
  obtain d where d: "dmmInit (ce_dmmMalloc e) (cl_dmm c) = (0, d)" "gpDmmData d \<noteq> None"
    using assms(1,2) by (auto simp: dmmInit_def cli_idle_def env_ok_def clearDatainfo_def)
  let ?c0 = "c\<lparr>gMutexLocked := True, cl_dmm := d, gCrmmData := Some (replicate CRMM_SIZE 0)\<rparr>"
  have "crmmInit (ce_crmmMalloc e) (c\<lparr>gMutexLocked := True, cl_dmm := d\<rparr>) = (0, ?c0)"
    using assms(1,2) by (simp add: crmmInit_def cli_idle_def env_ok_def)
  then have "moCpsCli_init e p f c = do {
      (ret, conf) \<leftarrow> parseConf (ce_inet_aton e) (ce_conf e) (ce_iniMalloc e) p;
      case conf of
        None \<Rightarrow> Some (-3, initFailed ?c0)
      | Some confInfo \<Rightarrow>
          let (ret, c) = createCtrlSocket (ce_ctrlSock e) ?c0
          in if ret < 0 then Some (-4, initFailed c) else initConnected e confInfo c }"
    using assms d(1) by (auto simp: moCpsCli_init_def cli_idle_def Let_def)
  moreover have "cli_idle (initFailed ?c0)" "gCtrlSockId ?c0 = -1"
    "\<And>s. 0 < s \<Longrightarrow> cli_between False (?c0\<lparr>gCtrlSockId := s, openSocks := s # openSocks ?c0\<rparr>)"
    using assms(1) d(2) by (simp_all add: cli_idle_def Let_def initFailed_def crmmUnInit_def dmmUnInit_def cli_between_def)
  ultimately show ?thesis by (intro that [of ?c0]) simp_all
qed

lemma initHeartbeating_states:
  assumes "initHeartbeating e confInfo c = Some (r, c')" and "cli_between True c"
    and "cs_socket (ce_dataSock e) \<noteq> 0" and "cs_socket (ce_dataSock e) \<noteq> gCtrlSockId c"
  shows "if r = 0 then cli_running c' else cli_idle c'"
proof -
  obtain r1 c1 where c1: "sendDataport2Server (ce_cipherMalloc e) (ce_respSelect e) (ce_alloc e) (cliDataPort confInfo) c = Some (r1, c1)"
    using assms(1) by (auto simp: initHeartbeating_def split: Option.bind_splits)
  obtain r2 c2 where c2: "createDataSocket (ce_dataSock e) c1 = (r2, c2)" by (cases "createDataSocket (ce_dataSock e) c1")
  have b: "cli_between True c1" "gCtrlSockId c1 = gCtrlSockId c"
    using sendDataport_globals [OF c1] assms(2) cli_between_globals [OF sendDataport_globals [OF c1]] by (simp_all add: same_globals_def)
  have d: "gDataSockId c1 = -1" using b(1) by (simp add: cli_between_def)
  note init = assms(1) [unfolded initHeartbeating_def c1 Option.bind.bind_lunit split_conv c2 Let_def]
  show ?thesis
  proof (cases "r1 < 0 \<or> r2 < 0")
    case True
    then have "\<exists>err \<in> {-5, -4}. stopAndFail e err destroyCtrlSocket c1 = Some (r, c')"
      using init createDataSocket_cases [OF c2 d assms(3)] by (auto split: if_splits)
    then show ?thesis using stopAndFail_idle b(1) by fastforce
  next
    case False
    then have c2': "0 < cs_socket (ce_dataSock e)"
      "c2 = c1\<lparr>gDataSockId := cs_socket (ce_dataSock e), openSocks := cs_socket (ce_dataSock e) # openSocks c1\<rparr>"
      using createDataSocket_cases [OF c2 d assms(3)] by auto
    show ?thesis
    proof (cases "ce_rdThr e < 0")
      case True
      then have "stopAndFail e (-5) (\<lambda>c. destroyDataSocket (destroyCtrlSocket c))
          (c2\<lparr>gRecvdataThrRunningFlag := False, gRecvdataThrRunningState := CLI_THREAD_STATE_STOPPED\<rparr>) = Some (r, c')"
        using init False by (simp add: createRecvDataThr_def)
      then show ?thesis using stopAndFail_both [OF _ b(1), where s = "cs_socket (ce_dataSock e)"] c2' b(2) assms(4) by fastforce
    next
      case thr: False
      then have "r = 0" "c' = c2\<lparr>gRecvdataThrRunningFlag := True, gRecvdataThrRunningState := CLI_THREAD_STATE_RUNNING,
          rdAlive := ce_rdThr e = 0, callbackSet := True, gIsInited := True, gMutexLocked := False\<rparr>"
        using init False by (simp_all add: createRecvDataThr_def)
      then show ?thesis using c2' b by (simp add: cli_running_def cli_between_def)
    qed
  qed
qed

lemma initConnected_states:
  assumes "initConnected e confInfo c = Some (r, c')" and "cli_between False c"
    and "cs_socket (ce_dataSock e) \<noteq> 0" and "cs_socket (ce_dataSock e) \<noteq> gCtrlSockId c"
  shows "if r = 0 then cli_running c' else cli_idle c'"
proof -
  obtain r1 c1 where c1: "cliDoKeyAgree (ce_keySelect e) c = Some (r1, c1)"
    using assms(1) by (auto simp: initConnected_def split: Option.bind_splits)
  have b1: "cli_between False c1" "gCtrlSockId c1 = gCtrlSockId c"
    using doKeyAgree_globals [OF c1] assms(2) cli_between_globals [OF doKeyAgree_globals [OF c1]] by (simp_all add: same_globals_def)
  note init = assms(1) [unfolded initConnected_def c1 Option.bind.bind_lunit split_conv]
  show ?thesis
  proof (cases "r1 < 0")
    case True
    then show ?thesis using init byeAndFail_idle [OF _ b1(1)] by fastforce
  next
    case False
    then obtain r2 c2 where c2: "createHeartBeatThr (ce_hbThr e) (ce_cipherMalloc e) c1 = Some (r2, c2)"
      using init by (auto split: Option.bind_splits)
    have b2: "cli_between (r2 \<ge> 0) c2" "gCtrlSockId c2 = gCtrlSockId c"
      using createHeartBeat_between [OF c2 b1(1)] c2 b1(2)
      by (auto simp: createHeartBeatThr_def Let_def split: if_splits Option.bind_splits)
    note init2 = init [unfolded c2 Option.bind.bind_lunit split_conv]
    show ?thesis
    proof (cases "r2 < 0")
      case True
      then show ?thesis using init2 False b2(1) byeAndFail_idle [of e "-5" c2 r c'] by fastforce
    next
      case r2: False
      then have i3: "initHeartbeating e confInfo c2 = Some (r, c')" using init2 False by simp
      show ?thesis using b2 r2 assms(4) by (intro initHeartbeating_states [OF i3 _ assms(3)]) simp_all
    qed
  qed
qed

lemma init_states:
  assumes "cli_idle c" and "env_ok e" and "moCpsCli_init e p f c = Some (r, c')"
  shows "if r = 0 then cli_running c' else cli_idle c'"
proof (cases "p = None \<or> \<not> f")
  case True
  then show ?thesis using assms by (auto simp: moCpsCli_init_def)
next
  case False
  then obtain c0 where c0: "moCpsCli_init e p f c = do {
      (ret, conf) \<leftarrow> parseConf (ce_inet_aton e) (ce_conf e) (ce_iniMalloc e) p;
      case conf of
        None \<Rightarrow> Some (-3, initFailed c0)
      | Some confInfo \<Rightarrow>
          let (ret, c) = createCtrlSocket (ce_ctrlSock e) c0
          in if ret < 0 then Some (-4, initFailed c) else initConnected e confInfo c }"
    "gCtrlSockId c0 = -1" "cli_idle (initFailed c0)"
    "\<And>s. 0 < s \<Longrightarrow> cli_between False (c0\<lparr>gCtrlSockId := s, openSocks := s # openSocks c0\<rparr>)"
    using init_start [OF assms(1,2), of p f] by blast
  obtain r1 c1 where c1: "createCtrlSocket (ce_ctrlSock e) c0 = (r1, c1)" by (cases "createCtrlSocket (ce_ctrlSock e) c0")
  have cases: "r1 < 0 \<and> c1 = c0 \<or> r1 = 0 \<and> cli_between False c1 \<and> gCtrlSockId c1 = cs_socket (ce_ctrlSock e)"
    using createCtrlSocket_cases [OF c1 c0(2)] c0(4) assms(2) by (auto simp: env_ok_def)
  show ?thesis
  proof (cases "r1 < 0")
    case True
    then have "r \<noteq> 0 \<and> c' = initFailed c0"
      using assms(3) [unfolded c0(1) c1 Let_def] cases True by (auto split: Option.bind_splits option.splits if_splits)
    then show ?thesis using c0(3) by simp
  next
    case r1: False
    then have b: "cli_between False c1" "cs_socket (ce_dataSock e) \<noteq> gCtrlSockId c1" using cases assms(2) by (auto simp: env_ok_def)
    have "r \<noteq> 0 \<and> c' = initFailed c0 \<or> (\<exists>confInfo. initConnected e confInfo c1 = Some (r, c'))"
      using assms(3) [unfolded c0(1) c1 Let_def] r1 by (auto split: Option.bind_splits option.splits if_splits)
    then show ?thesis using c0(3) initConnected_states [OF _ b(1) _ b(2)] assms(2) by (auto simp: env_ok_def)
  qed
qed

lemma unInit_states:
  assumes "cli_running c" and "moCpsCli_unInit m c = Some c'"
  shows "cli_idle c'"
proof -
  obtain c1 b c2 c3 where c: "stopHeartBeatThr c = Some c1" "sayByebye2Server m c1 = Some (b, c2)" "stopRecvDataThr c2 = Some c3"
    "c' = (let c = crmmUnInit ((destroyDataSocket (destroyCtrlSocket c3))\<lparr>callbackSet := False\<rparr>)
       in c\<lparr>cl_dmm := dmmUnInit (cl_dmm c), gIsInited := False, gMutexLocked := False\<rparr>)"
    using assms by (auto simp: moCpsCli_unInit_def cli_running_def Let_def split: Option.bind_splits)
  let ?rest = "\<lambda>c. (gCtrlSockId c, gDataSockId c, openSocks c)"
  have 1: "\<not> gHeartbeatThrRunningFlag c1" "?rest c1 = ?rest c"
    using c(1) by (auto simp: stopHeartBeatThr_def Let_def split: if_splits)
  have 2: "\<not> gHeartbeatThrRunningFlag c2" "?rest c2 = ?rest c1"
    using sayByebye_globals [OF c(2)] 1 by (simp_all add: same_globals_def)
  have "\<not> gHeartbeatThrRunningFlag c3" "\<not> gRecvdataThrRunningFlag c3" "?rest c3 = ?rest c2"
    using c(3) 2 by (auto simp: stopRecvDataThr_def Let_def split: if_splits)
  then show ?thesis using 1(2) 2(2) assms(1) unfolding c(4)
    by (simp add: cli_running_def cli_idle_def destroyCtrlSocket_def destroyDataSocket_def crmmUnInit_def dmmUnInit_def Let_def)
qed

text \<open>Everything that changes the state: the functions of the interface, a turn of the heartbeat thread, a block of data.\<close>

datatype cli_call =
    Call_init CLIENV "string option" bool
  | Call_unInit bool
  | Call_send CLIENV u32 u32 "MOCPS_CTRL_RESPONSE option"
  | Turn_heartbeat "byte list" int
  | Turn_block MOCPS_DATA_RESPONSE_HEADER "byte list"

fun cli_exec :: "cli_call \<Rightarrow> CLIENT \<Rightarrow> CLIENT option" where
  "cli_exec (Call_init e p f) c = map_option snd (moCpsCli_init e p f c)"
| "cli_exec (Call_unInit m) c = moCpsCli_unInit m c"
| "cli_exec (Call_send e cmd need resp) c = map_option (\<lambda>(r, x, c). c) (moCpsCli_sendRequest e cmd need resp c)"
| "cli_exec (Turn_heartbeat p w) c = map_option hb_client (heartBeatTurn p \<lparr>waited = w, slept = 0, hb_client = c\<rparr>)"
| "cli_exec (Turn_block h blk) c =
     (if gpDmmData (cl_dmm c) = None then Some c
      else map_option (\<lambda>(r, d). c\<lparr>cl_dmm := d\<rparr>) (dmmSaveCurBodyBlk h blk (cl_dmm c)))"

fun call_ok :: "cli_call \<Rightarrow> bool" where
  "call_ok (Call_init e p f) = socks_ok e"
| "call_ok _ = True"

lemma dmmSave_keeps: "dmmSaveCurBodyBlk h blk d = Some (r, d') \<Longrightarrow> gpDmmData d \<noteq> None \<Longrightarrow> gpDmmData d' \<noteq> None"
  by (auto simp: dmmSaveCurBodyBlk_def dmmClear_def clearDatainfo_def Let_def split: if_splits Option.bind_splits)

lemma heartBeatTurn_states:
  assumes "heartBeatTurn p t = Some t'"
  shows "cli_idle (hb_client t) \<Longrightarrow> cli_idle (hb_client t')" "cli_running (hb_client t) \<Longrightarrow> cli_running (hb_client t')"
    "cli_locked (hb_client t) \<Longrightarrow> cli_locked (hb_client t')"
  using assms by (auto simp: heartBeatTurn_def Let_def cli_idle_def cli_running_def cli_locked_def split: if_splits Option.bind_splits)

lemma init_no_memory:
  assumes "cli_idle c" and "\<not> mem_ok e" and "moCpsCli_init e p f c = Some (r, c')"
  shows "cli_idle c' \<or> cli_locked c'"
proof (cases "p = None \<or> \<not> f")
  case True
  then show ?thesis using assms(1,3) by (auto simp: moCpsCli_init_def)
next
  case False
  then show ?thesis using assms
    by (cases "ce_dmmMalloc e = None")
      (auto simp: moCpsCli_init_def cli_idle_def cli_locked_def mem_ok_def dmmInit_def crmmInit_def clearDatainfo_def Let_def)
qed

text \<open>Once the client is locked, it stays so, and can neither be started nor be stopped.\<close>

lemma cli_exec_locked:
  assumes "cli_exec q c = Some c'" and "cli_locked c"
  shows "cli_locked c'"
proof (cases q)
  case (Call_init e p f)
  then show ?thesis using assms by (auto simp: moCpsCli_init_def cli_locked_def split: if_splits)
next
  case (Call_unInit m)
  then show ?thesis using assms by (simp add: moCpsCli_unInit_def cli_locked_def)
next
  case (Call_send e cmd need resp)
  then obtain r x where "moCpsCli_sendRequest e cmd need resp c = Some (r, x, c')" using assms(1) by auto
  from same_globals_states(3) [OF sendRequest_globals [OF this]] show ?thesis using assms(2) by simp
next
  case (Turn_heartbeat p w)
  then obtain t' where t': "heartBeatTurn p \<lparr>waited = w, slept = 0, hb_client = c\<rparr> = Some t'" "c' = hb_client t'"
    using assms(1) by auto
  show ?thesis using heartBeatTurn_states(3) [OF t'(1)] assms(2) t'(2) by simp
next
  case (Turn_block h blk)
  then show ?thesis using assms by (auto simp: cli_locked_def split: if_splits)
qed

lemma locked_blocks:
  "cli_locked c \<Longrightarrow> moCpsCli_init e (Some p) True c = None \<and> moCpsCli_unInit m c = None"
  by (simp add: cli_locked_def moCpsCli_init_def moCpsCli_unInit_def)

lemma cli_exec_states:
  assumes "cli_exec q c = Some c'" and "call_ok q" and "cli_idle c \<or> cli_running c"
  shows "cli_idle c' \<or> cli_running c' \<or> cli_locked c' \<and> (\<exists>e p f. q = Call_init e p f \<and> \<not> mem_ok e)"
proof (cases q)
  case (Call_init e p f)
  then obtain r where r: "moCpsCli_init e p f c = Some (r, c')" using assms(1) by auto
  show ?thesis
  proof (cases "cli_idle c")
    case True
    show ?thesis
    proof (cases "mem_ok e")
      case mem: True
      then have "env_ok e" using assms(2) Call_init by (simp add: env_ok_split)
      from init_states [OF True this r] show ?thesis by (auto split: if_splits)
    next
      case False
      then show ?thesis using init_no_memory [OF True _ r] Call_init by blast
    qed
  next
    case False
    then have run: "cli_running c" using assms(3) by simp
    then have "c' = c" using r by (auto simp: moCpsCli_init_def cli_running_def Let_def split: if_splits)
    then show ?thesis using run by simp
  qed
next
  case (Call_unInit m)
  have "moCpsCli_unInit m c = Some c" if "cli_idle c" using that by (simp add: moCpsCli_unInit_def cli_idle_def)
  then show ?thesis using assms(1,3) Call_unInit unInit_states by auto
next
  case (Call_send e cmd need resp)
  then obtain r x where "moCpsCli_sendRequest e cmd need resp c = Some (r, x, c')" using assms(1) by auto
  from same_globals_states [OF sendRequest_globals [OF this]] show ?thesis using assms(3) by blast
next
  case (Turn_heartbeat p w)
  then obtain t' where t': "heartBeatTurn p \<lparr>waited = w, slept = 0, hb_client = c\<rparr> = Some t'" "c' = hb_client t'"
    using assms(1) by auto
  show ?thesis using heartBeatTurn_states [OF t'(1)] assms(3) t'(2) by auto
next
  case (Turn_block h blk)
  then consider "c' = c" | r d where "dmmSaveCurBodyBlk h blk (cl_dmm c) = Some (r, d)" "c' = c\<lparr>cl_dmm := d\<rparr>" "gpDmmData (cl_dmm c) \<noteq> None"
    using assms(1) by (cases "gpDmmData (cl_dmm c) = None") auto
  then show ?thesis
  proof cases
    case 1
    then show ?thesis using assms(3) by blast
  next
    case 2
    then show ?thesis using assms(3) dmmSave_keeps [OF 2(1,3)] by (auto simp: cli_idle_def cli_running_def)
  qed
qed

text \<open>
  C23. All or nothing: after any sequence of calls that return, with turns of the threads in between, the client is
  idle (no socket open, no memory held, the mutex free), or running (two sockets open, both buffers
  allocated, the callback set, the mutex free), or locked for good. It is locked only if the memory has not
  sufficed in a start, and then no call returns that would start or stop it.
\<close>

theorem client_all_or_nothing:
  assumes "cli_idle c" and "list_all call_ok qs" and "foldM cli_exec qs c = Some c'"
  shows "(cli_idle c' \<or> cli_running c' \<or> cli_locked c') \<and>
    (cli_locked c' \<longrightarrow> (\<exists>e p f. Call_init e p f \<in> set qs \<and> \<not> mem_ok e) \<and>
       (\<forall>e p m. moCpsCli_init e (Some p) True c' = None \<and> moCpsCli_unInit m c' = None))"
proof -
  let ?bad = "\<lambda>qs. \<exists>e p f. Call_init e p f \<in> set qs \<and> \<not> mem_ok e"
  have keep: "cli_locked x'" if "foldM cli_exec xs x = Some x'" "cli_locked x" for xs x x'
    using that
  proof (induction xs arbitrary: x)
    case (Cons q xs)
    then show ?case using cli_exec_locked [of q x] by (auto split: Option.bind_splits)
  qed simp
  have "cli_idle c \<or> cli_running c" using assms(1) by simp
  then have "cli_idle c' \<or> cli_running c' \<or> cli_locked c' \<and> ?bad qs" using assms(2,3)
  proof (induction qs arbitrary: c)
    case (Cons q qs)
    then obtain c1 where c1: "cli_exec q c = Some c1" "foldM cli_exec qs c1 = Some c'" by (auto split: Option.bind_splits)
    from cli_exec_states [OF c1(1)] Cons.prems(1,2)
    consider "cli_idle c1 \<or> cli_running c1" | "cli_locked c1" "?bad (q # qs)" by auto
    then show ?case
    proof cases
      case 1
      from Cons.IH [OF this _ c1(2)] Cons.prems(2) show ?thesis by auto
    next
      case 2
      then show ?thesis using keep [OF c1(2)] by blast
    qed
  qed simp
  moreover have "\<not> cli_locked c'" if "cli_idle c' \<or> cli_running c'" using that by (auto simp: cli_idle_def cli_running_def cli_locked_def)
  ultimately show ?thesis using locked_blocks by blast
qed

text \<open>
  When there is no memory for the data, or none for the responses, \<open>moCpsCli_init\<close> returns with the
  mutex locked: every later call of \<open>moCpsCli_init\<close> and of \<open>moCpsCli_unInit\<close> blocks for ever.
\<close>

theorem no_memory_locks_for_ever:
  assumes "cli_idle c" and "ce_dmmMalloc e = None \<or> \<not> ce_crmmMalloc e"
  shows "\<exists>c'. moCpsCli_init e (Some p) True c = Some (MOCPS_CLI_ERR_INTERNAL, c') \<and>
    moCpsCli_init e' (Some p') True c' = None \<and> moCpsCli_unInit m c' = None"
proof -
  obtain c' where c': "moCpsCli_init e (Some p) True c = Some (-8, c')" "gMutexLocked c'"
    using assms
    by (cases "ce_dmmMalloc e = None") (auto simp: moCpsCli_init_def cli_idle_def dmmInit_def crmmInit_def clearDatainfo_def Let_def)
  then show ?thesis by (auto simp: moCpsCli_init_def moCpsCli_unInit_def)
qed

section \<open>Starting against a server\<close>

abbreviation keyagree_req :: MOCPS_CTRL_REQUEST where
  "keyagree_req \<equiv> newReq MOCPS_CMDID_KEYAGREE MOCPS_REQUEST_TYPE_NEED_RESPONSE [0, 0, 0, 0]"

abbreviation dataport_req :: "int \<Rightarrow> MOCPS_CTRL_REQUEST" where
  "dataport_req port \<equiv> newReq MOCPS_CMDID_SEND_DATAPORT MOCPS_REQUEST_TYPE_NEED_RESPONSE (splitInt2Char (word_of_int port))"

lemma wf_dataport_req [simp]: "wf_req (dataport_req port)"
  by (simp add: splitInt2Char_def)

lemma doKeyAgree_ok:
  assumes "sends (ctrlConn c) (32 + k)" and "0 < sel 0" and "clean (c_in (ctrlConn c))"
    and "stream (c_in (ctrlConn c)) = ka_bytes resp @ rest" and "wf_ka resp" and "ka_cmdId resp = MOCPS_CMDID_KEYAGREE"
  obtains conn where "cliDoKeyAgree sel c = Some (0, c\<lparr>ctrlConn := conn, gCryptInfo := ka_crypt resp\<rparr>)"
    and "c_sent conn = c_sent (ctrlConn c) @ req_bytes keyagree_req" and "sends conn k"
    and "clean (c_in conn)" and "stream (c_in conn) = rest"
proof -
  obtain conn where conn: "conn_writen (ctrlConn c) (req_bytes keyagree_req) 32 = Some (32, conn)" "c_in conn = c_in (ctrlConn c)"
    "c_sent conn = c_sent (ctrlConn c) @ req_bytes keyagree_req" "sends conn k"
    using send_request [OF assms(1), of keyagree_req] by auto
  obtain es where es: "conn_readn conn (replicate 288 0) 288 = Some (288, ka_bytes resp, conn\<lparr>c_in := es\<rparr>)"
    "clean es" "stream es = rest"
    using conn_readn_clean [of conn 288 "replicate 288 0"] assms(3-5) conn(2) by auto
  have "keyAgreeWait sel 0 (c\<lparr>ctrlConn := conn\<rparr>) = Some (0, Some (ka_bytes resp), c\<lparr>ctrlConn := conn\<lparr>c_in := es\<rparr>\<rparr>)"
    using assms(2) es(1) by (subst keyAgreeWait.simps) simp
  then show ?thesis using conn es assms(5,6)
    by (intro that [of "conn\<lparr>c_in := es\<rparr>"])
      (simp_all add: cliDoKeyAgree_def decryptKeyAgreeResponse_def checkKeyagreeResp_def moUtils_Check_checkCrc_def sends_def Let_def)
qed

text \<open>A socket that connects at once.\<close>

definition connects :: "CSOCKENV \<Rightarrow> bool" where
  "connects e \<longleftrightarrow> 0 < cs_socket e \<and> 0 \<le> cs_bind e \<and> 0 \<le> cs_setsockopt e \<and> 0 \<le> cs_nonblock e \<and> connect2Server e = 0"

lemma createCtrlSocket_connects:
  "connects e \<Longrightarrow> gCtrlSockId c = -1 \<Longrightarrow>
   createCtrlSocket e c = (0, c\<lparr>gCtrlSockId := cs_socket e, openSocks := cs_socket e # openSocks c\<rparr>)"
  by (simp add: connects_def createCtrlSocket_def createSockAndBind_def cliSetSockAttr_def)

lemma createDataSocket_connects:
  "connects e \<Longrightarrow> gDataSockId c = -1 \<Longrightarrow>
   createDataSocket e c = (0, c\<lparr>gDataSockId := cs_socket e, openSocks := cs_socket e # openSocks c\<rparr>)"
  by (simp add: connects_def createDataSocket_def createSockAndBind_def cliSetSockAttr_def)

text \<open>\<open>moCpsCli_init\<close> up to the point where the key has been received.\<close>

lemma init_keyagreed:
  assumes "cli_idle c" and "env_ok e" and "parseConf (ce_inet_aton e) (ce_conf e) (ce_iniMalloc e) (Some p) = Some (0, Some conf)"
    and "connects (ce_ctrlSock e)" and "0 < ce_keySelect e 0" and "sends (ctrlConn c) (32 + k)" and "clean (c_in (ctrlConn c))"
    and "stream (c_in (ctrlConn c)) = ka_bytes resp @ rest" and "wf_ka resp" and "ka_cmdId resp = MOCPS_CMDID_KEYAGREE"
    and "ce_hbThr e = 0"
  obtains c1 where "moCpsCli_init e (Some p) True c = do {
      (ret, c) \<leftarrow> createHeartBeatThr (ce_hbThr e) (ce_cipherMalloc e) c1;
      if ret < 0 then byeAndFail e (-5) destroyCtrlSocket c else initHeartbeating e conf c }"
    and "cli_between False c1" and "gCtrlSockId c1 = cs_socket (ce_ctrlSock e)" and "gCryptInfo c1 = ka_crypt resp"
    and "c_sent (ctrlConn c1) = c_sent (ctrlConn c) @ req_bytes keyagree_req" and "sends (ctrlConn c1) k"
    and "clean (c_in (ctrlConn c1))" and "stream (c_in (ctrlConn c1)) = rest"
proof -
  obtain c0 where c0: "moCpsCli_init e (Some p) True c = do {
      (ret, conf) \<leftarrow> parseConf (ce_inet_aton e) (ce_conf e) (ce_iniMalloc e) (Some p);
      case conf of
        None \<Rightarrow> Some (-3, initFailed c0)
      | Some confInfo \<Rightarrow>
          let (ret, c) = createCtrlSocket (ce_ctrlSock e) c0
          in if ret < 0 then Some (-4, initFailed c) else initConnected e confInfo c }"
    "gCtrlSockId c0 = -1" "ctrlConn c0 = ctrlConn c"
    "\<And>s. 0 < s \<Longrightarrow> cli_between False (c0\<lparr>gCtrlSockId := s, openSocks := s # openSocks c0\<rparr>)"
    using init_start [OF assms(1,2), of "Some p" True] by blast
  define c2 where "c2 = c0\<lparr>gCtrlSockId := cs_socket (ce_ctrlSock e), openSocks := cs_socket (ce_ctrlSock e) # openSocks c0\<rparr>"
  have b: "cli_between False c2" "ctrlConn c2 = ctrlConn c" "gCtrlSockId c2 = cs_socket (ce_ctrlSock e)"
    using c0(3,4) assms(4) by (simp_all add: c2_def connects_def)
  obtain conn where conn: "cliDoKeyAgree (ce_keySelect e) c2 = Some (0, c2\<lparr>ctrlConn := conn, gCryptInfo := ka_crypt resp\<rparr>)"
    "c_sent conn = c_sent (ctrlConn c) @ req_bytes keyagree_req" "sends conn k" "clean (c_in conn)" "stream (c_in conn) = rest"
    using doKeyAgree_ok [of c2 k "ce_keySelect e" resp rest] assms(5-10) b(2) by auto
  have "moCpsCli_init e (Some p) True c = initConnected e conf c2"
    using c0(1,2) createCtrlSocket_connects [OF assms(4), of c0] assms(3) by (simp add: c2_def)
  moreover have "cli_between False (c2\<lparr>ctrlConn := conn, gCryptInfo := ka_crypt resp\<rparr>)" using b(1) by (simp add: cli_between_def)
  ultimately show ?thesis using conn b(3) by (intro that [of "c2\<lparr>ctrlConn := conn, gCryptInfo := ka_crypt resp\<rparr>"])
      (simp_all add: initConnected_def)
qed

text \<open>
  A key that the client cannot use makes \<open>moCpsCli_init\<close> hang: \<open>checkKeyagreeResp\<close> accepts a response with
  the algorithm IDLE (the answer of a server that refuses), or with an unknown one; the heartbeat
  thread then cannot encrypt its request and ends without setting its state; sending the data
  port fails for the same reason, and \<open>stopHeartBeatThr\<close> waits for a state that nobody sets.
\<close>

theorem unusable_key_hangs:
  assumes "cli_idle c" and "env_ok e" and "parseConf (ce_inet_aton e) (ce_conf e) (ce_iniMalloc e) (Some p) = Some (0, Some conf)"
    and "connects (ce_ctrlSock e)" and "0 < ce_keySelect e 0" and "sends (ctrlConn c) sizeof_REQUEST" and "clean (c_in (ctrlConn c))"
    and "stream (c_in (ctrlConn c)) = ka_bytes resp @ rest" and "wf_ka resp" and "ka_cmdId resp = MOCPS_CMDID_KEYAGREE"
    and "\<not> copies (ka_crypt resp)" and "ce_hbThr e = 0"
  shows "moCpsCli_init e (Some p) True c = None"
proof -
  obtain c1 where c1: "moCpsCli_init e (Some p) True c = do {
      (ret, c) \<leftarrow> createHeartBeatThr (ce_hbThr e) (ce_cipherMalloc e) c1;
      if ret < 0 then byeAndFail e (-5) destroyCtrlSocket c else initHeartbeating e conf c }"
    "gCryptInfo c1 = ka_crypt resp"
    using init_keyagreed [OF assms(1-5) _ assms(7-10,12), of 0] assms(6) by auto
  let ?c = "c1\<lparr>gHeartbeatThrRunningFlag := True, gHeartbeatThrRunningState := CLI_THREAD_STATE_RUNNING, hbAlive := False\<rparr>"
  have "createHeartBeatThr (ce_hbThr e) (ce_cipherMalloc e) c1 = Some (0, ?c)"
    using assms(11,12) c1(2) by (simp add: createHeartBeatThr_def heartBeatStart_def doEncrypt2Req_refuses Let_def)
  moreover have "\<exists>r < 0. sendDataport2Server (ce_cipherMalloc e) (ce_respSelect e) (ce_alloc e) (cliDataPort conf) ?c = Some (r, ?c)"
    using assms(11) c1(2) by (simp add: sendDataport2Server_def doEncrypt2Req_refuses)
  moreover have "stopHeartBeatThr ?c = None" by (simp add: stopHeartBeatThr_def)
  ultimately show ?thesis using c1(1) by (auto simp: initHeartbeating_def stopAndFail_def)
qed

text \<open>The successful start.\<close>

lemma init_ok:
  assumes "cli_idle c" and "env_ok e" and "parseConf (ce_inet_aton e) (ce_conf e) (ce_iniMalloc e) (Some p) = Some (0, Some conf)"
    and "connects (ce_ctrlSock e)" and "connects (ce_dataSock e)" and "0 < ce_keySelect e 0" and "0 < ce_respSelect e"
    and "ce_cipherMalloc e" and "ce_hbThr e = 0" and "ce_rdThr e = 0"
    and "sends (ctrlConn c) (64 + k)" and "clean (c_in (ctrlConn c))" and "stream (c_in (ctrlConn c)) = ka_bytes resp @ resp_bytes b @ rest"
    and "wf_ka resp" and "ka_cmdId resp = MOCPS_CMDID_KEYAGREE" and "copies (ka_crypt resp)" and "answers b MOCPS_CMDID_SEND_DATAPORT []"
  obtains c' where "moCpsCli_init e (Some p) True c = Some (MOCPS_CLI_ERR_OK, c')" and "cli_running c'"
    and "gCryptInfo c' = ka_crypt resp" and "hbAlive c'" and "rdAlive c'"
    and "c_sent (ctrlConn c') = c_sent (ctrlConn c) @ req_bytes keyagree_req @ req_bytes (dataport_req (cliDataPort conf))"
    and "sends (ctrlConn c') k" and "clean (c_in (ctrlConn c'))" and "stream (c_in (ctrlConn c')) = rest"
proof -
  let ?req = "dataport_req (cliDataPort conf)"
  have s64: "sends (ctrlConn c) (32 + (32 + k))" using assms(11) by (simp add: add.assoc [symmetric])
  obtain c1 where c1: "moCpsCli_init e (Some p) True c = do {
      (ret, c) \<leftarrow> createHeartBeatThr (ce_hbThr e) (ce_cipherMalloc e) c1;
      if ret < 0 then byeAndFail e (-5) destroyCtrlSocket c else initHeartbeating e conf c }"
    "cli_between False c1" "gCtrlSockId c1 = cs_socket (ce_ctrlSock e)" "gCryptInfo c1 = ka_crypt resp"
    "c_sent (ctrlConn c1) = c_sent (ctrlConn c) @ req_bytes keyagree_req" "sends (ctrlConn c1) (32 + k)"
    "clean (c_in (ctrlConn c1))" "stream (c_in (ctrlConn c1)) = resp_bytes b @ rest"
    using init_keyagreed [OF assms(1-4,6) s64 assms(12-15,9)] by auto
  let ?c2 = "c1\<lparr>gHeartbeatThrRunningFlag := True, gHeartbeatThrRunningState := CLI_THREAD_STATE_RUNNING, hbAlive := True\<rparr>"
  have hb: "createHeartBeatThr (ce_hbThr e) (ce_cipherMalloc e) c1 = Some (0, ?c2)"
    using assms(8,9,16) c1(4) by (simp add: createHeartBeatThr_def heartBeatStart_def doEncrypt2Req_copies Let_def)
  obtain conn where conn: "conn_writen (ctrlConn ?c2) (req_bytes ?req) 32 = Some (32, conn)" "c_in conn = c_in (ctrlConn c1)"
    "c_sent conn = c_sent (ctrlConn c1) @ req_bytes ?req" "sends conn k"
    using send_request [of ?c2 k ?req] c1(6) by auto
  let ?c3 = "?c2\<lparr>ctrlConn := conn\<rparr>"
  obtain data where data: "gCrmmData ?c3 = Some data" "length data = CRMM_SIZE" using c1(2) by (auto simp: cli_between_def)
  obtain es where es: "getRespFromServer (ce_respSelect e) (ce_alloc e) MOCPS_CMDID_SEND_DATAPORT
      (Some \<lparr>basicInfo = bytes_resp (replicate 32 0), pBody = False\<rparr>) ?c3 =
      Some (0, Some \<lparr>basicInfo = b, pBody = False\<rparr>, ?c3\<lparr>ctrlConn := conn\<lparr>c_in := es\<rparr>, gCrmmData := Some data\<rparr>)" "clean es" "stream es = rest"
    using getResp_ok [OF assms(7), of ?c3 b MOCPS_CMDID_SEND_DATAPORT "[]" rest data "ce_alloc e"
        "\<lparr>basicInfo = bytes_resp (replicate 32 0), pBody = False\<rparr>"] assms(16,17) c1(4,7,8) conn(2) data by auto
  let ?c4 = "?c3\<lparr>ctrlConn := conn\<lparr>c_in := es\<rparr>, gCrmmData := Some data\<rparr>"
  have dp: "sendDataport2Server (ce_cipherMalloc e) (ce_respSelect e) (ce_alloc e) (cliDataPort conf) ?c2 = Some (0, ?c4)"
    using assms(8,16) c1(4) conn(1) es(1) by (simp add: sendDataport2Server_def doEncrypt2Req_copies Let_def)
  have "gDataSockId ?c4 = -1" using c1(2) by (simp add: cli_between_def)
  note ds = createDataSocket_connects [OF assms(5) this]
  let ?c5 = "?c4\<lparr>gDataSockId := cs_socket (ce_dataSock e), openSocks := cs_socket (ce_dataSock e) # openSocks ?c4\<rparr>"
  let ?c' = "?c5\<lparr>gRecvdataThrRunningFlag := True, gRecvdataThrRunningState := CLI_THREAD_STATE_RUNNING, rdAlive := True,
    callbackSet := True, gIsInited := True, gMutexLocked := False\<rparr>"
  have "initHeartbeating e conf ?c2 = Some (0, ?c')"
    using dp ds assms(10) unfolding initHeartbeating_def by (simp add: createRecvDataThr_def)
  then have "moCpsCli_init e (Some p) True c = Some (0, ?c')" using c1(1) hb by simp
  moreover have "cli_running ?c'"
    using c1(2) data assms(5) by (simp add: cli_running_def cli_between_def connects_def)
  ultimately show ?thesis using c1(3-5) conn es(2,3) by (intro that [of ?c']) (simp_all add: sends_def)
qed

section \<open>A body in two pieces\<close>

text \<open>
  The sockets do not block, so \<open>readn\<close> returns what has arrived so far; \<open>getRespFromServer\<close> only looks for a
  negative result. When a part of the body arrives and the rest is late, it reports success, and hands out
  the part, followed by whatever the buffer from \<open>malloc\<close> contained.
\<close>

theorem late_body_accepted:
  assumes "0 < sel" and "copies (gCryptInfo c)" and "answers b cmd (part @ late)" and "part \<noteq> []" and "late \<noteq> []"
    and "c_in (ctrlConn c) = Arrive (resp_bytes b) # Arrive part # Recv_err EAGAIN # es"
    and "gCrmmData c = Some data" and "length data = CRMM_SIZE"
    and "alloc (length (part @ late)) = Some mem" and "length mem = length (part @ late)"
  shows "getRespFromServer sel alloc cmd (Some resp) c = Some (0, Some \<lparr>basicInfo = b, pBody = True\<rparr>,
    c\<lparr>ctrlConn := (ctrlConn c)\<lparr>c_in := es\<rparr>, gCrmmData := Some (part @ drop (length part) mem @ drop (length mem) data)\<rparr>)"
proof -
  define n where "n = length (part @ late)"
  have n: "length part < n" "0 < n" "length mem = n" "alloc n = Some mem" using assms(4,5,9,10) by (auto simp: n_def)
  have b: "length (resp_bytes b) = 32" "bytes_resp (resp_bytes b) = b" "resp_cmdId b = cmd" "sint (bodyLen b) = int n" "n < 2097152"
    using assms(3) by (simp_all add: answers_def n_def)
  let ?conn = "(ctrlConn c)\<lparr>c_in := Arrive part # Recv_err EAGAIN # es\<rparr>"
  have "resp_bytes b \<noteq> []" using b(1) by auto
  then have "conn_readn (ctrlConn c) (replicate 32 0) 32 = Some (32, resp_bytes b, ?conn)"
    using assms(6) b(1) by (simp add: conn_readn_def readn_def readn_loop.simps wrn_def)
  moreover have "doDecrypt2Resp (gCryptInfo c) (resp_bytes b) (replicate 32 0) 0 32 = Some (0, resp_bytes b)"
    using doDecrypt2Resp_all [OF assms(2) b(1), of "replicate 32 0"] by simp
  ultimately have basic: "getBasicResp sel cmd c = Some (0, Some b, c\<lparr>ctrlConn := ?conn\<rparr>)"
    using assms(1) b(1-3) by (simp add: getBasicResp_def answers_mark [OF assms(3)] moUtils_Check_checkCrc_def)
  have body: "conn_readn ?conn mem (int n) = Some (int (length part), part @ drop (length part) mem, ?conn\<lparr>c_in := es\<rparr>)"
    using assms(4) n(1,3) by (simp add: conn_readn_def readn_def readn_loop.simps wrn_def)
  have "doDecrypt2Resp (gCryptInfo c) (part @ drop (length part) mem) data 0 (int n) =
      Some (0, (part @ drop (length part) mem) @ drop n data)"
    using doDecrypt2Resp_all [OF assms(2), of "part @ drop (length part) mem" n data] assms(8) n(1,3) b(5) by simp
  then show ?thesis using basic body assms(7) b(4,5) n(2-4)
    by (simp add: getRespFromServer_def getRespBody_def crmmMaxSize_def Let_def)
qed

section \<open>Witnesses\<close>

definition sample_client :: CLIENT where
  "sample_client = \<lparr>gIsInited = False, gMutexLocked = False, gCtrlSockId = -1, gDataSockId = -1, callbackSet = False,
     gHeartbeatThrRunningFlag = False, gHeartbeatThrRunningState = CLI_THREAD_STATE_STOPPED, hbAlive = False,
     gRecvdataThrRunningFlag = False, gRecvdataThrRunningState = CLI_THREAD_STATE_STOPPED, rdAlive = False,
     gCryptInfo = \<lparr>cryptAlgoNo = MOCPS_CRYPT_ALGO_IDLE, cryptKey = replicate 256 0, keyLen = 0\<rparr>, gCrmmData = None,
     cl_dmm = \<lparr>gpDmmData = None, d_seqId = 0, d_totalLen = 0, d_totalBlkNum = 0, d_curSaveBlkNum = 0\<rparr>, openSocks = [],
     ctrlConn = \<lparr>c_in = [], c_out = [], c_sent = []\<rparr>\<rparr>"

definition sample_sock :: "int \<Rightarrow> CSOCKENV" where
  "sample_sock n = \<lparr>cs_socket = n, cs_bind = 0, cs_setsockopt = 0, cs_nonblock = 0, cs_connect = -1, cs_inProgress = True,
     cs_select = 1, cs_wFdSet = True, cs_rFdSet = False, cs_getsockopt = 0, cs_err = 0\<rparr>"

definition sample_clienv :: "bool \<Rightarrow> CLIENV" where
  "sample_clienv mem = \<lparr>ce_conf = (\<lambda>_. Some (concat (map (\<lambda>l. l @ [CHR 0x0A])
       [''[servInfo]'', ''servIp = 1.1.1.1'', ''servPort = 80'', ''[cliInfo]'', ''cliIp = 1.1.1.2'', ''cliDataPort = 81'', ''cliCtrlPort = 82'']))), ce_inet_aton = (\<lambda>_. Some 0), ce_iniMalloc = True,
     ce_dmmMalloc = (if mem then Some (replicate DMM_SIZE 0) else None), ce_crmmMalloc = True, ce_cipherMalloc = True,
     ce_alloc = (\<lambda>n. Some (replicate n 0)), ce_ctrlSock = sample_sock 3, ce_dataSock = sample_sock 4,
     ce_keySelect = (\<lambda>_. 1), ce_respSelect = 1, ce_hbThr = 0, ce_rdThr = 0\<rparr>"

abbreviation sample_confinfo :: MOCPS_CLI_CONFINFO where
  "sample_confinfo \<equiv> \<lparr>servIp = ''1.1.1.1'', servPort = 80, cliIp = ''1.1.1.2'', cliCtrlPort = 82, cliDataPort = 81\<rparr>"

lemma sample_idle: "cli_idle (sample_client\<lparr>ctrlConn := conn\<rparr>)"
  by (simp add: sample_client_def cli_idle_def)

lemma sample_env_ok: "env_ok (sample_clienv True)"
  by (simp add: sample_clienv_def env_ok_def sample_sock_def)

lemma sample_connects: "0 < n \<Longrightarrow> connects (sample_sock n)"
  by (simp add: sample_sock_def connects_def connect2Server_def)

lemma sample_conf:
  "parseConf (ce_inet_aton (sample_clienv m)) (ce_conf (sample_clienv m)) (ce_iniMalloc (sample_clienv m)) (Some ''c'') =
   Some (0, Some sample_confinfo)"
proof -
  have "parseConf (\<lambda>_. Some 0) (\<lambda>_. Some (concat (map (\<lambda>l. l @ [CHR 0x0A])
      [''[servInfo]'', ''servIp = 1.1.1.1'', ''servPort = 80'', ''[cliInfo]'', ''cliIp = 1.1.1.2'', ''cliDataPort = 81'', ''cliCtrlPort = 82''])))
      True (Some ''c'') = Some (0, Some sample_confinfo)"
    by code_simp
  then show ?thesis by (simp add: sample_clienv_def)
qed

lemma sample_env_simps:
  "ce_ctrlSock (sample_clienv m) = sample_sock 3" "ce_dataSock (sample_clienv m) = sample_sock 4"
  "ce_keySelect (sample_clienv m) = (\<lambda>_. 1)" "ce_respSelect (sample_clienv m) = 1" "ce_cipherMalloc (sample_clienv m)"
  "ce_hbThr (sample_clienv m) = 0" "ce_rdThr (sample_clienv m) = 0" "ce_alloc (sample_clienv m) = (\<lambda>n. Some (replicate n 0))"
  by (simp_all add: sample_clienv_def)

theorem no_memory_locks_for_ever_witness:
  "\<exists>c'. moCpsCli_init (sample_clienv False) (Some ''c'') True sample_client = Some (-8, c') \<and>
    moCpsCli_init (sample_clienv True) (Some ''c'') True c' = None \<and> moCpsCli_unInit True c' = None"
  using no_memory_locks_for_ever [of sample_client "sample_clienv False" "''c''" "sample_clienv True" "''c''" True] sample_idle [of "ctrlConn sample_client"]
  by (simp add: sample_clienv_def)

text \<open>A server that refuses: its response to the key agreement has the algorithm IDLE.\<close>

definition sample_refusal :: MOCPS_KEYAGREE_RESPONSE where
  "sample_refusal = \<lparr>ka_mark = mark_field MOCPS_MARK_SERVER, ka_cmdId = MOCPS_CMDID_KEYAGREE,
     ka_crypt = \<lparr>cryptAlgoNo = MOCPS_CRYPT_ALGO_IDLE, cryptKey = replicate 256 0, keyLen = 0\<rparr>, ka_crc32 = 0\<rparr>"

lemma sample_refusal_facts: "wf_ka sample_refusal" "ka_cmdId sample_refusal = MOCPS_CMDID_KEYAGREE" "\<not> copies (ka_crypt sample_refusal)"
  by (simp_all add: sample_refusal_def wf_ka_def wf_crypt_def mark_field_def copies_def in_int32_def)

theorem unusable_key_hangs_witness:
  "moCpsCli_init (sample_clienv True) (Some ''c'') True
     (sample_client\<lparr>ctrlConn := \<lparr>c_in = [Arrive (ka_bytes sample_refusal)], c_out = replicate 32 (Accept 1), c_sent = []\<rparr>\<rparr>) = None"
proof -
  have "length (ka_bytes sample_refusal) = 288" using sample_refusal_facts(1) by simp
  then have "ka_bytes sample_refusal \<noteq> []" by auto
  then show ?thesis
    by (intro unusable_key_hangs [OF sample_idle sample_env_ok sample_conf _ _ _ _ _ sample_refusal_facts, where rest = "[]"])
      (simp_all add: sample_env_simps sample_connects sends_def takers_def list_all_iff sum_list_replicate map_replicate_const)
qed

theorem heartbeat_every_interval_witness:
  "\<exists>t'. heartBeatThr 8 (req_bytes (newReq 1 0 [0, 0, 0, 0])) \<lparr>waited = 3, slept = 0, hb_client = sample_client\<lparr>
      gHeartbeatThrRunningFlag := True, hbAlive := True, gCryptInfo := sample_key,
      ctrlConn := \<lparr>c_in = [], c_out = replicate 64 (Accept 20), c_sent = []\<rparr>\<rparr>\<rparr> = Some t' \<and> slept t' = 6 \<and>
    length (c_sent (ctrlConn (hb_client t'))) = 64"
proof -
  let ?c = "sample_client\<lparr>gHeartbeatThrRunningFlag := True, hbAlive := True, gCryptInfo := sample_key,
      ctrlConn := \<lparr>c_in = [], c_out = replicate 64 (Accept 20), c_sent = []\<rparr>\<rparr>"
  have "heartBeatStart True (gCryptInfo ?c) = Some (Some (req_bytes (newReq 1 0 [0, 0, 0, 0])))"
    by (simp add: heartBeatStart_def doEncrypt2Req_copies copies_def)
  moreover have "sends (ctrlConn ?c) (32 * 2)"
    by (simp add: sends_def takers_def list_all_iff sum_list_replicate map_replicate_const)
  ultimately show ?thesis
    using heartbeat_every_interval [of True "\<lparr>waited = 3, slept = 0, hb_client = ?c\<rparr>" "req_bytes (newReq 1 0 [0, 0, 0, 0])" 2]
    by (auto simp: numeral_2_eq_2)
qed

text \<open>A server that agrees, and that takes the data port.\<close>

definition sample_agreement :: MOCPS_KEYAGREE_RESPONSE where
  "sample_agreement = \<lparr>ka_mark = mark_field MOCPS_MARK_SERVER, ka_cmdId = MOCPS_CMDID_KEYAGREE, ka_crypt = sample_key, ka_crc32 = 0\<rparr>"

definition sample_taken :: MOCPS_CTRL_RESPONSE_BASIC where
  "sample_taken = \<lparr>resp_mark = mark_field MOCPS_MARK_SERVER, resp_cmdId = MOCPS_CMDID_SEND_DATAPORT, resp_res = [0, 0, 0, 0], bodyLen = 0, resp_crc32 = 0\<rparr>"

lemma sample_agreement_facts: "wf_ka sample_agreement" "ka_cmdId sample_agreement = MOCPS_CMDID_KEYAGREE" "copies (ka_crypt sample_agreement)"
  "answers sample_taken MOCPS_CMDID_SEND_DATAPORT []"
  by (simp_all add: sample_agreement_def wf_ka_def wf_crypt_def mark_field_def copies_def in_int32_def answers_def sample_taken_def wf_resp_def)

definition sample_online :: CLIENT where
  "sample_online = sample_client\<lparr>ctrlConn := \<lparr>c_in = [Arrive (ka_bytes sample_agreement @ resp_bytes sample_taken)],
     c_out = replicate 64 (Accept 1), c_sent = []\<rparr>\<rparr>"

theorem client_all_or_nothing_witness:
  "(\<exists>c'. foldM cli_exec [Call_unInit True, Call_init (sample_clienv True) (Some ''c'') True] sample_online = Some c' \<and> cli_running c') \<and>
   (\<exists>c'. foldM cli_exec [Call_init (sample_clienv False) (Some ''c'') True] sample_online = Some c' \<and>
      cli_locked c' \<and> moCpsCli_unInit True c' = None)"
proof
  have idle: "cli_idle sample_online" unfolding sample_online_def by (rule sample_idle)
  have "length (ka_bytes sample_agreement) = 288" using sample_agreement_facts(1) by simp
  then have ne: "ka_bytes sample_agreement @ resp_bytes sample_taken \<noteq> []" by auto
  have sends: "sends (ctrlConn sample_online) (64 + 0)"
    by (simp add: sample_online_def sends_def takers_def list_all_iff sum_list_replicate map_replicate_const)
  obtain c' where c': "moCpsCli_init (sample_clienv True) (Some ''c'') True sample_online = Some (0, c')" "gIsInited c'"
  proof (rule init_ok [OF idle sample_env_ok sample_conf _ _ _ _ _ _ _ sends _ _ sample_agreement_facts, where rest = "[]"])
    show "clean (c_in (ctrlConn sample_online))" "stream (c_in (ctrlConn sample_online)) = ka_bytes sample_agreement @ resp_bytes sample_taken @ []"
      using ne by (simp_all add: sample_online_def)
  qed (simp_all add: sample_env_simps sample_connects cli_running_def)
  have "moCpsCli_unInit True sample_online = Some sample_online" using idle by (simp add: moCpsCli_unInit_def cli_idle_def)
  then have r: "foldM cli_exec [Call_unInit True, Call_init (sample_clienv True) (Some ''c'') True] sample_online = Some c'"
    using c'(1) by simp
  have ok: "socks_ok (sample_clienv m)" for m by (simp add: socks_ok_def sample_clienv_def sample_sock_def)
  from client_all_or_nothing [OF idle _ r] ok have "cli_idle c' \<or> cli_running c' \<or> cli_locked c'" by simp
  then show "\<exists>c'. foldM cli_exec [Call_unInit True, Call_init (sample_clienv True) (Some ''c'') True] sample_online = Some c' \<and> cli_running c'"
    using r c'(2) by (auto simp: cli_idle_def cli_locked_def)
  obtain d where d: "moCpsCli_init (sample_clienv False) (Some ''c'') True sample_online = Some (-8, d)" "gMutexLocked d"
    using idle by (auto simp: moCpsCli_init_def cli_idle_def sample_clienv_def dmmInit_def Let_def)
  then have q: "foldM cli_exec [Call_init (sample_clienv False) (Some ''c'') True] sample_online = Some d" by simp
  from client_all_or_nothing [OF idle _ q] ok d(2)
  show "\<exists>c'. foldM cli_exec [Call_init (sample_clienv False) (Some ''c'') True] sample_online = Some c' \<and>
      cli_locked c' \<and> moCpsCli_unInit True c' = None"
    using q by (auto simp: cli_idle_def cli_running_def)
qed

definition sample_basic :: MOCPS_CTRL_RESPONSE_BASIC where
  "sample_basic = \<lparr>resp_mark = mark_field MOCPS_MARK_SERVER, resp_cmdId = 4, resp_res = [0, 0, 0, 0], bodyLen = 3, resp_crc32 = 0\<rparr>"

theorem late_body_accepted_witness:
  "\<exists>x. getRespFromServer 1 (\<lambda>n. Some (replicate n 66)) 4 (Some \<lparr>basicInfo = sample_basic, pBody = False\<rparr>)
      (sample_client\<lparr>gCryptInfo := sample_key, gCrmmData := Some (replicate 2097152 0),
        ctrlConn := \<lparr>c_in = [Arrive (resp_bytes sample_basic), Arrive [7], Recv_err EAGAIN, Arrive [8, 9]], c_out = [], c_sent = []\<rparr>\<rparr>) =
      Some (0, Some \<lparr>basicInfo = sample_basic, pBody = True\<rparr>, x) \<and>
    gCrmmData x = Some ([7, 66, 66] @ drop 3 (replicate 2097152 0))"
proof -
  let ?c = "sample_client\<lparr>gCryptInfo := sample_key, gCrmmData := Some (replicate 2097152 0),
      ctrlConn := \<lparr>c_in = [Arrive (resp_bytes sample_basic), Arrive [7], Recv_err EAGAIN, Arrive [8, 9]], c_out = [], c_sent = []\<rparr>\<rparr>"
  have "answers sample_basic 4 ([7] @ [8, 9])"
    by (simp add: answers_def sample_basic_def wf_resp_def mark_field_def)
  then have "getRespFromServer 1 (\<lambda>n. Some (replicate n 66)) 4 (Some \<lparr>basicInfo = sample_basic, pBody = False\<rparr>) ?c =
      Some (0, Some \<lparr>basicInfo = sample_basic, pBody = True\<rparr>, ?c\<lparr>ctrlConn := (ctrlConn ?c)\<lparr>c_in := [Arrive [8, 9]]\<rparr>,
        gCrmmData := Some ([7] @ drop (length [7 :: byte]) (replicate 3 66) @ drop (length (replicate 3 (66 :: byte))) (replicate 2097152 0))\<rparr>)"
    by (rule late_body_accepted [rotated 2]) (simp_all add: copies_def numeral_3_eq_3)
  then show ?thesis by (simp add: numeral_3_eq_3)
qed

end
