(* ===== verification/MoCps.thy ===== *)
theory MoCps
  imports MoCpsServer MoCpsClient
begin

text \<open>
  The client and the server together: what each sends is what the other reads. The theorems run the
  functions of both sides on connections whose input is the output of the other side.
\<close>

section \<open>Requests of the client at the server\<close>

lemma marked_newReq: "length res = 4 \<Longrightarrow> marked (newReq cmd need res)"
  by (simp add: newReq_def Let_def wf_req_def mark_field_def)

lemma incoming_newReq:
  assumes "length res = 4" and "clean (c_in c)" and "stream (c_in c) = req_bytes (newReq cmd need res) @ rest"
  shows "incoming c [] (newReq cmd need res) rest"
proof -
  have "length (req_bytes (newReq cmd need res)) = 32" using assms(1) by simp
  moreover have "take 12 (req_bytes (newReq cmd need res)) = MOCPS_MARK_CLIENT"
    by (rule marked_bytes [OF marked_newReq [OF assms(1)]])
  ultimately have "mark_at 0 (req_bytes (newReq cmd need res) @ rest)" by (simp add: mark_at_def occurs_def)
  then show ?thesis using assms marked_newReq [OF assms(1)] by (simp add: incoming_def)
qed

definition server_dataport :: "int \<Rightarrow> SERVER \<Rightarrow> int option" where
  "server_dataport sock s = map_option dataPort (find (\<lambda>v. cri_ctrlSockId v = sock) (the (cri_nodes (s_cri s))))"

lemma agreed_nodes:
  assumes "agreed sock info s"
  obtains cs v where "cri_nodes (s_cri s) = Some cs" and "find (\<lambda>v. cri_ctrlSockId v = sock) cs = Some v"
  using assms by (auto simp: agreed_def criGetCryptInfo_def criLock_def split: option.splits if_splits)

text \<open>The server stores the data port and answers.\<close>

lemma dataport_reply:
  assumes "agreed sock info s" and "clean (c_in c)" and "0 \<le> port" and "port < 2 ^ 31"
    and "stream (c_in c) = req_bytes (dataport_req port) @ rest" and "sends c (32 + k)" and "length buf = sizeof_REQUEST"
  obtains c' s' where "ctrlBody e sock buf c s = Some (req_bytes (dataport_req port), c', s')" and "agreed sock info s'"
    and "server_dataport sock s' = Some port" and "s_fm s' = s_fm s" and "clean (c_in c')" and "stream (c_in c') = rest" and "sends c' k"
    and "c_sent c' = c_sent c @ resp_bytes (genResp MOCPS_CMDID_SEND_DATAPORT 0)"
proof -
  let ?r = "dataport_req port"
  have l: "length (splitInt2Char (word_of_int port)) = 4" by (simp add: splitInt2Char_def)
  have sp: "sint (word_of_int port :: u32) = port" using assms(3,4) by (intro sint_word_of_int32) (simp add: in_int32_def)
  have m: "mergeChar2Int (req_res ?r) = Some port"
    using merge_split_roundtrip [of "word_of_int port"] assms(3) sp by (simp add: newReq_def Let_def)
  have inc: "incoming c [] ?r rest" using incoming_newReq [OF l assms(2,5)] .
  then have "isRightFormatRequest ?r"
    by (auto simp: incoming_def intro!: good_request_format simp: good_request_def)
  then obtain c1 where c1: "doSimpleRequest e sock buf 32 c s = do {
      (ret, c, s) \<leftarrow> doRequest e sock ?r info c1 s;
      Some (if ret < 0 then -9 else 0, req_bytes ?r, c, s) }"
    "c_out c1 = c_out c" "c_sent c1 = c_sent c" "clean (c_in c1)" "stream (c_in c1) = rest"
    using doSimpleRequest_reads [OF inc _ assms(7), of sock s info e] assms(1) unfolding agreed_def by metis
  obtain cs v where cs: "cri_nodes (s_cri s) = Some cs" "find (\<lambda>v. cri_ctrlSockId v = sock) cs = Some v"
    by (rule agreed_nodes [OF assms(1)])
  obtain ret cri where cri: "criSetDataSockPort port sock (s_cri s) = Some (ret, cri)"
    "cri_nodes cri = Some (upd_first (\<lambda>v. cri_ctrlSockId v = sock) (\<lambda>c. c\<lparr>dataSockId := MOCPS_INVALID_SOCKID, dataPort := port,
       dataThrId := MOCPS_INVALID_THR_ID, dataThrState := THREAD_STATE_DONOT_CREATE\<rparr>) cs)"
    "ret = 0 \<longleftrightarrow> find (\<lambda>v. cri_ctrlSockId v = sock) (the (cri_nodes (s_cri s))) \<noteq> None"
    using dataport.total [OF cs(1), of port sock] by metis
  have v': "find (\<lambda>v. cri_ctrlSockId v = sock) (the (cri_nodes cri)) = Some (v\<lparr>dataSockId := MOCPS_INVALID_SOCKID, dataPort := port,
       dataThrId := MOCPS_INVALID_THR_ID, dataThrState := THREAD_STATE_DONOT_CREATE\<rparr>)"
    using dataport.lookup_same [OF cs(1) cri(1)] cs by simp
  have k: "criGetCryptInfo sock cri = criGetCryptInfo sock (s_cri s)"
    using criGetCryptInfo_lookup [OF cri(2)] criGetCryptInfo_lookup [OF cs(1)] v' cs cri(2) by simp
  have ret: "ret = 0" using cri(3) cs by simp
  have "sends c1 (32 + k)" using assms(6) c1(2) by (simp add: sends_def)
  then obtain c2 where c2: "sendBasic (genResp MOCPS_CMDID_SEND_DATAPORT 0) info c1 = Some (32, c2)" "c_in c2 = c_in c1"
    "c_sent c2 = c_sent c1 @ resp_bytes (genResp MOCPS_CMDID_SEND_DATAPORT 0)" "sends c2 k"
    using sendBasic_ok [of info "genResp MOCPS_CMDID_SEND_DATAPORT 0" c1 k] assms(1) by (auto simp: agreed_def)
  let ?s = "s\<lparr>s_cri := cri\<rparr>"
  have "ctrlBody e sock buf c s = Some (req_bytes ?r, c2, ?s)"
    using ctrlBody_agreed [OF assms(1), of e buf c] c1(1) c2(1) m cri(1) ret
    by (simp add: doRequest_def doRequestSendDataport_def)
  moreover have "agreed sock info ?s" using assms(1) k by (simp add: agreed_def)
  moreover have "server_dataport sock ?s = Some port"
  proof -
    have "server_dataport sock ?s = map_option dataPort (find (\<lambda>v. cri_ctrlSockId v = sock) (the (cri_nodes cri)))"
      by (simp add: server_dataport_def)
    also have "\<dots> = Some port" unfolding v' by simp
    finally show ?thesis .
  qed
  ultimately show ?thesis using c1(3-5) c2 by (intro that [of c2 ?s]) simp_all
qed

section \<open>A session\<close>

text \<open>What the client sends while it starts, and what the server answers.\<close>

definition session_requests :: "int \<Rightarrow> byte list" where
  "session_requests port = req_bytes keyagree_req @ req_bytes (dataport_req port)"

definition session_answers :: "(nat \<Rightarrow> nat) \<Rightarrow> byte list" where
  "session_answers rand = ka_bytes (key_response (des_key rand)) @ resp_bytes (genResp MOCPS_CMDID_SEND_DATAPORT 0)"

lemma answers_genResp:
  assumes "length body < CRMM_SIZE"
  shows "answers (genResp cmd (int (length body))) cmd body"
proof -
  have "sint (word_of_int (int (length body)) :: u32) = int (length body)"
    by (rule sint_word_of_int32) (use assms in \<open>simp add: in_int32_def\<close>)
  then show ?thesis using assms by (simp add: answers_def genResp_def Let_def wf_resp_def mark_field_def)
qed

lemma server_session:
  assumes "connected sock s" and "clean (c_in c)" and "stream (c_in c) = session_requests port @ rest"
    and "sends c 320" and "length buf = sizeof_REQUEST" and "0 \<le> port" and "port < 2 ^ 31"
  obtains buf' c' s' where "doCtrlRequestThr 2 e sock buf c s = Some (buf', c', s')"
    and "agreed sock (des_key (e_rand e)) s'" and "server_dataport sock s' = Some port"
    and "c_sent c' = c_sent c @ session_answers (e_rand e)" and "clean (c_in c')" and "stream (c_in c') = rest"
proof -
  have inc: "incoming c [] keyagree_req (req_bytes (dataport_req port) @ rest)"
    using assms(2,3) by (intro incoming_newReq) (simp_all add: session_requests_def)
  have cm: "req_cmdId keyagree_req < MOCPS_CMDID_MAX" and s: "sends c (288 + 32)" using assms(4) by simp_all
  obtain c1 s1 where c1: "ctrlBody e sock buf c s = Some (req_bytes keyagree_req, c1, s1)" "agreed sock (des_key (e_rand e)) s1"
    "c_sent c1 = c_sent c @ ka_bytes (key_response (des_key (e_rand e)))" "sends c1 32" "clean (c_in c1)"
    "stream (c_in c1) = req_bytes (dataport_req port) @ rest"
    using key_agreement_reply [OF assms(1) inc cm s assms(5), of e] by blast
  have l: "length (req_bytes keyagree_req) = 32" by simp
  have s1: "sends c1 (32 + 0)" using c1(4) by simp
  obtain c2 s2 where "ctrlBody e sock (req_bytes keyagree_req) c1 s1 = Some (req_bytes (dataport_req port), c2, s2)"
    "agreed sock (des_key (e_rand e)) s2" "server_dataport sock s2 = Some port" "clean (c_in c2)" "stream (c_in c2) = rest"
    "c_sent c2 = c_sent c1 @ resp_bytes (genResp MOCPS_CMDID_SEND_DATAPORT 0)"
    using dataport_reply [OF c1(2,5) assms(6,7) c1(6) s1 l, of e] by blast
  then show ?thesis using c1(1,3)
    by (intro that [of "req_bytes (dataport_req port)" c2 s2]) (simp_all add: numeral_2_eq_2 session_answers_def)
qed

text \<open>
  C21. A session starts: when a client that is set up properly and a server that has accepted it read what the
  other sends, in whatever pieces, \<open>moCpsCli_init\<close> returns \<open>OK\<close> with everything running; both sides have the
  same key for each other, and the server knows the data port of the client.
\<close>

theorem session_starts:
  assumes "cli_idle cl" and "env_ok ce" and "parseConf (ce_inet_aton ce) (ce_conf ce) (ce_iniMalloc ce) (Some p) = Some (0, Some conf)"
    and "connects (ce_ctrlSock ce)" and "connects (ce_dataSock ce)" and "0 < ce_keySelect ce 0" and "0 < ce_respSelect ce"
    and "ce_cipherMalloc ce" and "ce_hbThr ce = 0" and "ce_rdThr ce = 0"
    and "sends (ctrlConn cl) 64" and "clean (c_in (ctrlConn cl))" and "stream (c_in (ctrlConn cl)) = session_answers (e_rand se) @ rest"
    and "connected sock s" and "clean (c_in sc)" and "stream (c_in sc) = session_requests (cliDataPort conf) @ rest'"
    and "sends sc 320" and "length buf = sizeof_REQUEST" and "0 \<le> cliDataPort conf" and "cliDataPort conf < 2 ^ 31"
  shows "\<exists>cl' buf' sc' s'. moCpsCli_init ce (Some p) True cl = Some (MOCPS_CLI_ERR_OK, cl') \<and>
    c_sent (ctrlConn cl') = c_sent (ctrlConn cl) @ session_requests (cliDataPort conf) \<and>
    doCtrlRequestThr 2 se sock buf sc s = Some (buf', sc', s') \<and> c_sent sc' = c_sent sc @ session_answers (e_rand se) \<and>
    cli_running cl' \<and> agreed sock (gCryptInfo cl') s' \<and> server_dataport sock s' = Some (cliDataPort conf)"
proof -
  obtain buf' sc' s' where s: "doCtrlRequestThr 2 se sock buf sc s = Some (buf', sc', s')"
    "agreed sock (des_key (e_rand se)) s'" "server_dataport sock s' = Some (cliDataPort conf)"
    "c_sent sc' = c_sent sc @ session_answers (e_rand se)" "clean (c_in sc')" "stream (c_in sc') = rest'"
    by (rule server_session [OF assms(14-20)])
  let ?resp = "key_response (des_key (e_rand se))"
  have resp: "wf_ka ?resp" "ka_cmdId ?resp = MOCPS_CMDID_KEYAGREE" "ka_crypt ?resp = des_key (e_rand se)"
    by simp_all (simp_all add: key_response_def)
  have "copies (ka_crypt ?resp)" using resp(3) by simp
  moreover have "answers (genResp MOCPS_CMDID_SEND_DATAPORT 0) MOCPS_CMDID_SEND_DATAPORT []"
    using answers_genResp [of "[]"] by simp
  moreover have "sends (ctrlConn cl) (64 + 0)"
    "stream (c_in (ctrlConn cl)) = ka_bytes ?resp @ resp_bytes (genResp MOCPS_CMDID_SEND_DATAPORT 0) @ rest"
    using assms(11,13) by (simp_all add: session_answers_def)
  ultimately obtain cl' where "moCpsCli_init ce (Some p) True cl = Some (0, cl')" "cli_running cl'"
    "gCryptInfo cl' = ka_crypt ?resp"
    "c_sent (ctrlConn cl') = c_sent (ctrlConn cl) @ req_bytes keyagree_req @ req_bytes (dataport_req (cliDataPort conf))"
    using init_ok [OF assms(1-10) _ assms(12) _ resp(1,2)] by metis
  then show ?thesis using s resp(3)
    by (intro exI [of _ cl'] exI [of _ buf'] exI [of _ sc'] exI [of _ s']) (simp add: session_requests_def)
qed

text \<open>
  C22. The list of files: when both sides have agreed on a key and the header of the response arrives in one burst,
  \<open>moCpsCli_sendRequest\<close> with \<open>GETFILEINFO\<close> returns \<open>OK\<close> with a response that announces the length of the list. If
  the whole list is there when the client reads it, the memory of the client then holds exactly the structs of all
  files the server has listed. The socket does not block: if only the first \<open>k\<close> bytes of the list are there, the
  client reports \<open>OK\<close> all the same, and behind these bytes stands what \<open>malloc\<close> has returned.
\<close>

theorem fileinfo_exchange:
  assumes "served_dir fs d" and "n = num_files fs pad d 4 * sizeof_BASIC_FILEINFO" and "0 < n" and "n < CRMM_SIZE"
    and "0 \<le> createRet" and "fmInit fs pad True (\<lambda>_. True) createRet (Some d) fm0 = Some (0, s_fm s)"
    and "agreed sock (gCryptInfo cl) s" and "clean (c_in sc)"
    and "stream (c_in sc) = req_bytes (newReq MOCPS_CMDID_GETFILEINFO MOCPS_REQUEST_TYPE_NEED_RESPONSE [0, 0, 0, 0]) @ rest'"
    and "sends sc (32 + n)" and "length buf = sizeof_REQUEST" and "e_mallocBody se" and "e_mallocCipher se"
    and "cli_running cl" and "ce_cipherMalloc ce" and "0 < ce_respSelect ce" and "sends (ctrlConn cl) sizeof_REQUEST"
    and "ce_alloc ce n = Some mem" and "length mem = n"
    and "c_in (ctrlConn cl) = es1 @ es2" and "clean es1"
    and "stream es1 = resp_bytes (genResp MOCPS_CMDID_GETFILEINFO (int n)) @ take k (info_bytes fs pad d 4) @ rest"
    and "k = n \<or> k < n \<and> rest = [] \<and> (\<exists>es3. es2 = Recv_err EAGAIN # es3)"
  shows "\<exists>buf' sc' cl' data. ctrlBody se sock buf sc s = Some (buf', sc', s) \<and>
    c_sent sc' = c_sent sc @ resp_bytes (genResp MOCPS_CMDID_GETFILEINFO (int n)) @ info_bytes fs pad d 4 \<and>
    moCpsCli_sendRequest ce MOCPS_CMDID_GETFILEINFO MOCPS_REQUEST_TYPE_NEED_RESPONSE (Some resp) cl =
      Some (MOCPS_CLI_ERR_OK, Some \<lparr>basicInfo = genResp MOCPS_CMDID_GETFILEINFO (int n), pBody = True\<rparr>, cl') \<and>
    c_sent (ctrlConn cl') = c_sent (ctrlConn cl) @ req_bytes (newReq MOCPS_CMDID_GETFILEINFO MOCPS_REQUEST_TYPE_NEED_RESPONSE [0, 0, 0, 0]) \<and>
    gCrmmData cl' = Some data \<and> take n data = take k (info_bytes fs pad d 4) @ drop k mem \<and>
    (k = n \<longrightarrow> take n data = info_bytes fs pad d 4)"
proof -
  let ?req = "newReq MOCPS_CMDID_GETFILEINFO MOCPS_REQUEST_TYPE_NEED_RESPONSE [0, 0, 0, 0]"
  have li: "length (info_bytes fs pad d 4) = n" by (simp add: assms(2) length_info_bytes)
  have small: "num_files fs pad d 4 * sizeof_BASIC_FILEINFO + FM_MEM_INC_SIZE < 2 ^ 31"
    using assms(2,4) by simp
  have inc: "incoming sc [] ?req rest'" by (rule incoming_newReq [OF _ assms(8,9)]) simp
  obtain sc' where sc': "ctrlBody se sock buf sc s = Some (req_bytes ?req, sc', s)"
    "c_sent sc' = c_sent sc @ resp_bytes (genResp MOCPS_CMDID_GETFILEINFO (int n)) @ info_bytes fs pad d 4"
    using getfileinfo_reply [OF assms(1) small assms(5-7) inc _ assms(10) [unfolded assms(2)] assms(11-13)]
    unfolding assms(2) by auto
  obtain data where data: "gCrmmData cl = Some data" "length data = CRMM_SIZE" and run: "gIsInited cl"
    using assms(14) by (auto simp: cli_running_def)
  have "answers (genResp MOCPS_CMDID_GETFILEINFO (int n)) MOCPS_CMDID_GETFILEINFO (info_bytes fs pad d 4)"
    using answers_genResp [of "info_bytes fs pad d 4" MOCPS_CMDID_GETFILEINFO] li assms(4) by simp
  moreover have "copies (gCryptInfo cl)" using assms(7) by (simp add: agreed_def)
  moreover have "info_bytes fs pad d 4 \<noteq> []" using li assms(3) by auto
  ultimately obtain conn where "moCpsCli_sendRequest ce MOCPS_CMDID_GETFILEINFO MOCPS_REQUEST_TYPE_NEED_RESPONSE (Some resp) cl =
      Some (0, Some \<lparr>basicInfo = genResp MOCPS_CMDID_GETFILEINFO (int n), pBody = True\<rparr>,
        cl\<lparr>ctrlConn := conn, gCrmmData := Some ((take k (info_bytes fs pad d 4) @ drop k mem) @ drop (length (info_bytes fs pad d 4)) data)\<rparr>)"
    "c_sent conn = c_sent (ctrlConn cl) @ req_bytes ?req"
    using sendRequest_front [of MOCPS_CMDID_GETFILEINFO cl ce "genResp MOCPS_CMDID_GETFILEINFO (int n)" "info_bytes fs pad d 4"
        es1 es2 k rest data mem resp] assms(15-23) data run li by (simp, blast)
  moreover have mem: "length (take k (info_bytes fs pad d 4) @ drop k mem) = n" using li assms(19,23) by auto
  moreover have "take n ((take k (info_bytes fs pad d 4) @ drop k mem) @ drop (length (info_bytes fs pad d 4)) data) =
      take k (info_bytes fs pad d 4) @ drop k mem"
    by (metis append_eq_conv_conj mem)
  moreover have "k = n \<Longrightarrow> take k (info_bytes fs pad d 4) @ drop k mem = info_bytes fs pad d 4" using li assms(19) by simp
  ultimately show ?thesis using sc'
    by (intro exI [of _ "req_bytes ?req"], intro exI [of _ sc'], intro exI [of _ "cl\<lparr>ctrlConn := conn,
          gCrmmData := Some ((take k (info_bytes fs pad d 4) @ drop k mem) @ drop (length (info_bytes fs pad d 4)) data)\<rparr>"],
        intro exI [of _ "(take k (info_bytes fs pad d 4) @ drop k mem) @ drop (length (info_bytes fs pad d 4)) data"])
      (use li in \<open>auto simp del: append_assoc\<close>)
qed

section \<open>Witnesses\<close>

lemma sends_replicate: "0 < m \<Longrightarrow> c_out c = replicate n (Accept m) \<Longrightarrow> sends c n"
  by (simp add: sends_def takers_def list_all_iff sum_list_replicate map_replicate_const)

lemma length_session:
  "length (session_requests port) = 64" "length (session_answers rand) = 320"
proof -
  have "length (ka_bytes (key_response (des_key rand))) = 288" "length (resp_bytes (genResp 3 0)) = 32" by simp_all
  then show "length (session_answers rand) = 320" by (simp add: session_answers_def)
  show "length (session_requests port) = 64" by (simp add: session_requests_def)
qed

theorem session_starts_witness:
  "\<exists>cl' buf' sc' s'. moCpsCli_init (sample_clienv True) (Some ''c'') True
      (sample_client\<lparr>ctrlConn := \<lparr>c_in = [Arrive (session_answers (\<lambda>i. i))], c_out = replicate 64 (Accept 5), c_sent = []\<rparr>\<rparr>) = Some (0, cl') \<and>
    doCtrlRequestThr 2 sample_env 5 (replicate 32 0) (sample_conn (session_requests 81) 320)
      (sample_server CLIMGR_CLI_STATE_CTRLSOCKIN None FM_initial) = Some (buf', sc', s') \<and>
    agreed 5 (gCryptInfo cl') s' \<and> server_dataport 5 s' = Some 81"
proof -
  let ?cl = "sample_client\<lparr>ctrlConn := \<lparr>c_in = [Arrive (session_answers (\<lambda>i. i))], c_out = replicate 64 (Accept 5), c_sent = []\<rparr>\<rparr>"
  let ?ce = "sample_clienv True"
  have ne: "session_answers (\<lambda>i. i) \<noteq> []" using length_session(2) [of "\<lambda>i. i"] by auto
  have cl: "cli_idle ?cl" "sends (ctrlConn ?cl) 64" "clean (c_in (ctrlConn ?cl))" "stream (c_in (ctrlConn ?cl)) = session_answers (e_rand sample_env) @ []"
    using ne sends_replicate [of 5 _ 64] by (simp_all add: sample_idle)
  have ce: "connects (ce_ctrlSock ?ce)" "connects (ce_dataSock ?ce)" "0 < ce_keySelect ?ce 0" "0 < ce_respSelect ?ce"
    "ce_cipherMalloc ?ce" "ce_hbThr ?ce = 0" "ce_rdThr ?ce = 0"
    by (simp_all add: sample_env_simps sample_connects)
  have sc: "clean (c_in (sample_conn (session_requests 81) 320))"
    "stream (c_in (sample_conn (session_requests 81) 320)) = session_requests (cliDataPort sample_confinfo) @ []"
    using length_session(1) [of 81] by (simp_all add: sample_clean)
  have port: "0 \<le> cliDataPort sample_confinfo" "cliDataPort sample_confinfo < 2 ^ 31" by simp_all
  have buf: "length (replicate 32 (0 :: byte)) = 32" by simp
  show ?thesis
    using session_starts [OF cl(1) sample_env_ok sample_conf ce cl(2-4) sample_connected [of None FM_initial] sc sample_sends buf port] by auto
qed

definition sample_running :: "CONN \<Rightarrow> CLIENT" where
  "sample_running conn = sample_client\<lparr>gIsInited := True, gCtrlSockId := 3, gDataSockId := 4, callbackSet := True,
     gRecvdataThrRunningFlag := True, gRecvdataThrRunningState := CLI_THREAD_STATE_RUNNING, gCryptInfo := des_key (\<lambda>i. i),
     gCrmmData := Some (replicate CRMM_SIZE 0), cl_dmm := DMM_zero, openSocks := [4, 3], ctrlConn := conn\<rparr>"

lemma sample_running: "cli_running (sample_running conn)" "ctrlConn (sample_running conn) = conn" "gCryptInfo (sample_running conn) = des_key (\<lambda>i. i)"
  by (simp_all add: sample_running_def cli_running_def sample_client_def)

text \<open>The whole list of 272 bytes, and a list whose last 172 bytes are late.\<close>

theorem fileinfo_exchange_witness:
  "(\<exists>fm conn resp cl' data. moCpsCli_sendRequest (sample_clienv True) 4 1 (Some \<lparr>basicInfo = sample_basic, pBody = False\<rparr>) (sample_running conn) =
      Some (0, Some resp, cl') \<and>
    fmInit (sample_fs gSubDirName) [] True (\<lambda>_. True) 0 (Some ''d'') FM_initial = Some (0, fm) \<and>
    gCrmmData cl' = Some data \<and> take 272 data = info_bytes (sample_fs gSubDirName) [] ''d'' 4) \<and>
   (\<exists>fm conn resp cl' data. moCpsCli_sendRequest (sample_clienv True) 4 1 (Some \<lparr>basicInfo = sample_basic, pBody = False\<rparr>) (sample_running conn) =
      Some (0, Some resp, cl') \<and>
    fmInit (sample_fs gSubDirName) [] True (\<lambda>_. True) 0 (Some ''d'') FM_initial = Some (0, fm) \<and>
    gCrmmData cl' = Some data \<and> take 272 data = take 100 (info_bytes (sample_fs gSubDirName) [] ''d'' 4) @ replicate 172 0)"
proof -
  have late: "\<exists>fm conn resp cl' data. moCpsCli_sendRequest (sample_clienv True) 4 1 (Some \<lparr>basicInfo = sample_basic, pBody = False\<rparr>) (sample_running conn) =
      Some (0, Some resp, cl') \<and>
    fmInit (sample_fs gSubDirName) [] True (\<lambda>_. True) 0 (Some ''d'') FM_initial = Some (0, fm) \<and>
    gCrmmData cl' = Some data \<and> take 272 data = take k (info_bytes (sample_fs gSubDirName) [] ''d'' 4) @ replicate (272 - k) 0"
    if k: "k = 272 \<or> k = 100" for k
  proof -
  obtain fm where fm: "fmInit (sample_fs gSubDirName) [] True (\<lambda>_. True) 0 (Some ''d'') FM_initial = Some (0, fm)"
    using fmInit_ok [OF sample_served, of "[]" 0 FM_initial] by (auto simp: sample_files)
  let ?s = "sample_server CLIMGR_CLI_STATE_KEYAGREED (Some (des_key (\<lambda>i. i))) fm"
  let ?req = "req_bytes (newReq 4 1 [0, 0, 0, 0])"
  let ?info = "info_bytes (sample_fs gSubDirName) [] ''d'' 4"
  let ?ans = "resp_bytes (genResp 4 (int 272)) @ take k ?info"
  let ?gap = "[Recv_err EAGAIN]"
  let ?conn = "\<lparr>c_in = [Arrive ?ans] @ ?gap, c_out = replicate 32 (Accept 5), c_sent = []\<rparr>"
  have n: "272 = num_files (sample_fs gSubDirName) [] ''d'' 4 * sizeof_BASIC_FILEINFO" "0 < (272 :: nat)" "(272 :: nat) < CRMM_SIZE"
    by (simp_all add: sample_files)
  have fm': "fmInit (sample_fs gSubDirName) [] True (\<lambda>_. True) 0 (Some ''d'') FM_initial = Some (0, s_fm ?s)"
    using fm by (simp add: sample_server_def)
  have ag: "agreed 5 (gCryptInfo (sample_running ?conn)) ?s" by (simp add: sample_running sample_agreed)
  have lr: "length ?req = 32" by simp
  have sc: "clean (c_in (sample_conn ?req 304))" "stream (c_in (sample_conn ?req 304)) = ?req @ []"
    "sends (sample_conn ?req 304) (32 + 272)"
    using lr sample_sends [of ?req 304] by (simp_all add: sample_clean)
  have se: "e_mallocBody sample_env" "e_mallocCipher sample_env" "length (replicate 32 (0 :: byte)) = 32" by simp_all
  have "length (resp_bytes (genResp 4 (int 272))) = 32" by simp
  then have "?ans \<noteq> []" by (metis append_is_Nil_conv length_greater_0_conv zero_less_numeral)
  then have cl: "sends (ctrlConn (sample_running ?conn)) 32" "c_in (ctrlConn (sample_running ?conn)) = [Arrive ?ans] @ ?gap" "clean [Arrive ?ans]"
    "stream [Arrive ?ans] = resp_bytes (genResp 4 (int 272)) @ take k ?info @ []"
    using sends_replicate [of 5 ?conn 32] by (simp_all add: sample_running del: append_is_Nil_conv)
  have ce: "ce_cipherMalloc (sample_clienv True)" "0 < ce_respSelect (sample_clienv True)"
    "ce_alloc (sample_clienv True) 272 = Some (replicate 272 0)" "length (replicate 272 (0 :: byte)) = 272"
    by (simp_all add: sample_env_simps)
  have gap: "k = 272 \<or> k < 272 \<and> [] = ([] :: byte list) \<and> (\<exists>es3. ?gap = Recv_err EAGAIN # es3)" using k by auto
  have "\<exists>buf' sc' cl' data. ctrlBody sample_env 5 (replicate 32 0) (sample_conn ?req 304) ?s = Some (buf', sc', ?s) \<and>
    c_sent sc' = c_sent (sample_conn ?req 304) @ resp_bytes (genResp 4 (int 272)) @ ?info \<and>
    moCpsCli_sendRequest (sample_clienv True) 4 1 (Some \<lparr>basicInfo = sample_basic, pBody = False\<rparr>) (sample_running ?conn) =
      Some (0, Some \<lparr>basicInfo = genResp 4 (int 272), pBody = True\<rparr>, cl') \<and>
    c_sent (ctrlConn cl') = c_sent (ctrlConn (sample_running ?conn)) @ ?req \<and>
    gCrmmData cl' = Some data \<and> take 272 data = take k ?info @ drop k (replicate 272 0) \<and> (k = 272 \<longrightarrow> take 272 data = ?info)"
    by (rule fileinfo_exchange [OF sample_served n _ fm' ag sc(1,2,3) se(3,1,2) sample_running(1) ce(1,2) cl(1) ce(3,4) cl(2-4) gap]) simp
  then show "\<exists>fm conn resp cl' data. moCpsCli_sendRequest (sample_clienv True) 4 1 (Some \<lparr>basicInfo = sample_basic, pBody = False\<rparr>) (sample_running conn) =
      Some (0, Some resp, cl') \<and>
    fmInit (sample_fs gSubDirName) [] True (\<lambda>_. True) 0 (Some ''d'') FM_initial = Some (0, fm) \<and>
    gCrmmData cl' = Some data \<and> take 272 data = take k ?info @ replicate (272 - k) 0"
    using fm by (auto simp del: take_replicate)
  qed
  have "length (info_bytes (sample_fs gSubDirName) [] ''d'' 4) = 272" by (simp add: length_info_bytes sample_files)
  then show ?thesis using late [of 272] late [of 100] by simp
qed

end
