(* ===== verification/MoCloudUtils.thy ===== *)
theory MoCloudUtils
  imports MoConn
begin

text \<open>
  Helpers of the cloud client, \<open>moProject/moCloud/moCloudUtils\<close> and
  \<open>moProject/moCloud/moCloudClientLib/src/cliUtils.c\<close>: constants, sockets, threads, and the functions
  for checksums and encryption, which are stubs. Most of \<open>moCloudUtils.c\<close> repeats the text of
  \<open>moCpsUtils.c\<close>; \<open>isValidIpAddr\<close>, \<open>readn\<close>, \<open>writen\<close>, \<open>splitInt2Char\<close>, \<open>mergeChar2Int\<close> and \<open>killThread\<close>
  are those of \<open>MoNet\<close>.
\<close>

abbreviation (input) MOCLOUD_MARK_MAXLEN :: nat where "MOCLOUD_MARK_MAXLEN \<equiv> 16"
abbreviation (input) MOCLOUD_HEARTBEAT_INTEVAL :: int where "MOCLOUD_HEARTBEAT_INTEVAL \<equiv> 3"
abbreviation (input) MOCLOUD_INVALID_SOCKID :: int where "MOCLOUD_INVALID_SOCKID \<equiv> -1"
abbreviation (input) MOCLOUD_FILENAME_MAXLEN :: nat where "MOCLOUD_FILENAME_MAXLEN \<equiv> 256"
abbreviation (input) MOCLOUD_FILEPATH_MAXLEN :: nat where "MOCLOUD_FILEPATH_MAXLEN \<equiv> 512"
abbreviation (input) MOCLOUD_USERNAME_MAXLEN :: nat where "MOCLOUD_USERNAME_MAXLEN \<equiv> 32"
abbreviation (input) MOCLOUD_PASSWD_MINLEN :: nat where "MOCLOUD_PASSWD_MINLEN \<equiv> 6"
abbreviation (input) MOCLOUD_PASSWD_MAXLEN :: nat where "MOCLOUD_PASSWD_MAXLEN \<equiv> 16"
abbreviation (input) MOCLOUD_DWLD_TASK_MAX_NUM :: nat where "MOCLOUD_DWLD_TASK_MAX_NUM \<equiv> 8"

definition MOCLOUD_MARK_CLIENT :: "byte list" where
  "MOCLOUD_MARK_CLIENT = map of_char ''MOCLOUD_CLIENT''"

definition MOCLOUD_MARK_SERVER :: "byte list" where
  "MOCLOUD_MARK_SERVER = map of_char ''MOCLOUD_SERVER''"

definition MOCLOUD_MARK_DWLD :: "byte list" where
  "MOCLOUD_MARK_DWLD = map of_char ''MOCLOUD_DWLD''"

lemma cloud_marks [simp]:
  "length MOCLOUD_MARK_CLIENT = 14" "length MOCLOUD_MARK_SERVER = 14" "length MOCLOUD_MARK_DWLD = 12"
  by (simp_all add: MOCLOUD_MARK_CLIENT_def MOCLOUD_MARK_SERVER_def MOCLOUD_MARK_DWLD_def)

section \<open>Files\<close>

text \<open>A file type is an \<open>enum\<close>: 1, 2, 4 and 8 for the four types, 15 for all of them, 16 the maximum.\<close>

abbreviation (input) MOCLOUD_FILETYPE_VIDEO :: nat where "MOCLOUD_FILETYPE_VIDEO \<equiv> 1"
abbreviation (input) MOCLOUD_FILETYPE_ALL :: nat where "MOCLOUD_FILETYPE_ALL \<equiv> 15"
abbreviation (input) MOCLOUD_FILETYPE_MAX :: nat where "MOCLOUD_FILETYPE_MAX \<equiv> 16"

record MOCLOUD_FILEINFO_KEY =
  filetype :: nat
  filename :: string

section \<open>Checks and encryption\<close>

abbreviation (input) CHECKSUM_STUB_VALUE :: byte where "CHECKSUM_STUB_VALUE \<equiv> 10"

definition moCloudUtilsCheck_checksumGetValue :: "byte list \<Rightarrow> nat \<Rightarrow> int \<times> byte" where
  "moCloudUtilsCheck_checksumGetValue pSrc srcLen = (0, CHECKSUM_STUB_VALUE)"

definition moCloudUtilsCheck_checksumCheckValue :: "byte list \<Rightarrow> nat \<Rightarrow> byte \<Rightarrow> int" where
  "moCloudUtilsCheck_checksumCheckValue pSrc srcLen s = (if s = CHECKSUM_STUB_VALUE then 1 else 0)"

text \<open>The CRC is not written, and every value passes the check (the result 0 stands for a failure).\<close>

definition moCloudUtilsCheck_crcGetValue :: "byte list \<Rightarrow> nat \<Rightarrow> u32 \<Rightarrow> int \<times> u32" where
  "moCloudUtilsCheck_crcGetValue pSrc srcLen crc = (0, crc)"

definition moCloudUtilsCheck_crcCheckValue :: "byte list \<Rightarrow> nat \<Rightarrow> u32 \<Rightarrow> int" where
  "moCloudUtilsCheck_crcCheckValue pSrc srcLen crc = 0"

definition moCloudUtilsCrypt_getCipherTxtLen :: "nat \<Rightarrow> int \<times> nat" where
  "moCloudUtilsCrypt_getCipherTxtLen srcLen = (0, srcLen)"

definition moCloudUtilsCrypt_doCrypt :: "byte list \<Rightarrow> nat \<Rightarrow> byte list \<Rightarrow> (int \<times> byte list \<times> nat) option" where
  "moCloudUtilsCrypt_doCrypt pSrc srcLen pDst = do {
     bs \<leftarrow> rdn pSrc 0 srcLen;
     dst \<leftarrow> wrn pDst 0 bs;
     Some (0, dst, srcLen)
   }"

section \<open>Sockets\<close>

text \<open>
  What the system calls for one socket return: \<open>inProgress\<close> for a failed \<open>connect\<close> with
  \<open>EINPROGRESS\<close>, the two sets of \<open>select\<close>, and \<open>getsockopt\<close> with the error it reports.
\<close>

record SOCKENV =
  sk_socket :: int
  sk_setsockopt :: int
  sk_bind :: int
  sk_connect :: int
  sk_inProgress :: bool
  sk_select :: int
  sk_wFdSet :: bool
  sk_rFdSet :: bool
  sk_getsockopt :: int
  sk_err :: int

definition isValidUserPort :: "int \<Rightarrow> int" where
  "isValidUserPort port = (if port \<ge> 1024 \<and> port \<le> 65535 then 1 else 0)"

definition setSockReusable :: "SOCKENV \<Rightarrow> int" where
  "setSockReusable e = (if sk_setsockopt e \<noteq> 0 then -1 else 0)"

text \<open>The result of \<open>ioctl\<close> is not used.\<close>

definition setSock2NonBlock :: "int \<Rightarrow> int" where
  "setSock2NonBlock sockId = (if sockId < 0 then -1 else 0)"

text \<open>The result, \<open>*pSockId\<close>, and the open sockets; \<open>socks\<close> are those that were open before.\<close>

definition createSocket ::
    "(string \<Rightarrow> 32 word option) \<Rightarrow> SOCKENV \<Rightarrow> string \<Rightarrow> int \<Rightarrow> int \<Rightarrow> int list \<Rightarrow> int \<times> int \<times> int list" where
  "createSocket inet_aton e ip port sockId socks =
     (if isValidIpAddr inet_aton (Some ip) = 0 \<or> isValidUserPort port = 0 then (-1, sockId, socks)
      else if sk_socket e < 0 then (-2, sk_socket e, socks)
      else if setSockReusable e < 0 then (-3, MOCLOUD_INVALID_SOCKID, socks)
      else if setSock2NonBlock (sk_socket e) < 0 then (-4, MOCLOUD_INVALID_SOCKID, socks)
      else if sk_bind e \<noteq> 0 then (-5, MOCLOUD_INVALID_SOCKID, socks)
      else (0, sk_socket e, sk_socket e # socks))"

definition connectToServer :: "SOCKENV \<Rightarrow> int" where
  "connectToServer e =
     (if sk_connect e = 0 then 0
      else if \<not> sk_inProgress e then -6
      else if sk_select e < 0 then -1
      else if sk_select e = 0 then -2
      else if \<not> sk_wFdSet e then -5
      else if \<not> sk_rFdSet e then 0
      else if sk_getsockopt e \<noteq> 0 then -3
      else if sk_err e \<noteq> 0 then -4
      else 0)"

definition destroySocket :: "int \<Rightarrow> int list \<Rightarrow> int \<times> int list" where
  "destroySocket sockId socks =
     (if sockId \<noteq> MOCLOUD_INVALID_SOCKID then (MOCLOUD_INVALID_SOCKID, remove1 sockId socks) else (sockId, socks))"

section \<open>Threads\<close>

text \<open>
  \<open>create\<close> is what \<open>pthread_create\<close> returns: 0, or a positive error number. The callers of
  \<open>startThread\<close> take only a negative result for a failure.
\<close>

definition startThread :: "int \<Rightarrow> int" where
  "startThread create = create"

text \<open>A socket is open after \<open>createSocket\<close> exactly if it returns 0, and a created socket is valid.\<close>

lemma createSocket_cases:
  assumes "createSocket inet_aton e ip port sockId socks = (ret, s, socks')"
  shows "ret = 0 \<and> s = sk_socket e \<and> 0 \<le> s \<and> socks' = s # socks \<or> ret < 0 \<and> socks' = socks"
  using assms by (auto simp: createSocket_def split: if_splits)

lemma destroySocket_created [simp]: "0 \<le> s \<Longrightarrow> destroySocket s (s # socks) = (MOCLOUD_INVALID_SOCKID, socks)"
  by (simp add: destroySocket_def)

end
