(* ===== verification/MoCloudBuf.thy ===== *)
theory MoCloudBuf
  imports MoFifo
begin

text \<open>
  The buffers of the cloud client's downloads, from
  \<open>moProject/moCloud/moCloudClientLib/src/cliData.c\<close>. Between the thread that receives data and the
  thread that writes it to a file stands, for every download, a ring of nodes with a head node. Nodes
  are not freed when their data has been written: they are marked as unused and moved to the front,
  and \<open>saveDataToBuffer\<close> takes the last unused one before it asks \<open>malloc\<close> for another.

  Pointers are addresses into a heap of nodes, as in \<open>MoTaskQueue\<close>: \<open>None\<close> is \<open>NULL\<close>, and an access to
  an address that is not allocated has no defined result. The property shows that a buffer is a
  first-in first-out queue.
\<close>

abbreviation (input) MOCLOUD_DATA_UNIT_LEN :: nat where "MOCLOUD_DATA_UNIT_LEN \<equiv> 1024"

type_synonym addr = nat

record DWLD_UNIT_INFO =
  isEof :: byte
  isUsed :: bool
  unitId :: int
  bodyLen :: int
  body :: "byte list"

record DWLD_UNIT_INFO_NODE =
  dataUnitInfo :: DWLD_UNIT_INFO
  nd_prev :: "addr option"
  nd_next :: "addr option"

type_synonym heap = "addr \<Rightarrow> DWLD_UNIT_INFO_NODE option"

text \<open>A head node as \<open>cliDataInit\<close> makes it.\<close>

definition headNode :: DWLD_UNIT_INFO_NODE where
  "headNode = \<lparr>dataUnitInfo = \<lparr>isEof = 0, isUsed = False, unitId = 0, bodyLen = 0, body = replicate MOCLOUD_DATA_UNIT_LEN 0\<rparr>,
     nd_prev = None, nd_next = None\<rparr>"

section \<open>Links\<close>

definition set_prev :: "addr \<Rightarrow> addr \<Rightarrow> heap \<Rightarrow> heap option" where
  "set_prev a v h = (case h a of None \<Rightarrow> None | Some n \<Rightarrow> Some (h(a \<mapsto> n\<lparr>nd_prev := Some v\<rparr>)))"

definition set_next :: "addr \<Rightarrow> addr \<Rightarrow> heap \<Rightarrow> heap option" where
  "set_next a v h = (case h a of None \<Rightarrow> None | Some n \<Rightarrow> Some (h(a \<mapsto> n\<lparr>nd_next := Some v\<rparr>)))"

lemma set_link_simps [simp]:
  "h a = Some n \<Longrightarrow> set_prev a v h = Some (h(a \<mapsto> n\<lparr>nd_prev := Some v\<rparr>))"
  "h a = Some n \<Longrightarrow> set_next a v h = Some (h(a \<mapsto> n\<lparr>nd_next := Some v\<rparr>))"
  by (simp_all add: set_prev_def set_next_def)

section \<open>Saving a unit\<close>

text \<open>The loop that looks for the first node in use, and ends at the head node \<open>hp\<close> when there is none.\<close>

partial_function (option) firstUsed :: "addr \<Rightarrow> heap \<Rightarrow> addr option \<Rightarrow> addr option" where
  "firstUsed hp h pCurNode =
     (case pCurNode of
        None \<Rightarrow> None
      | Some a \<Rightarrow>
          if a = hp then Some hp
          else do {
            n \<leftarrow> h a;
            if isUsed (dataUnitInfo n) then Some a else firstUsed hp h (nd_next n)
          })"

declare firstUsed.simps [code]

text \<open>
  The part of \<open>saveDataToBuffer\<close> that works on the ring. \<open>newNode\<close> is what \<open>malloc\<close> returns, and
  \<open>info\<close> what the code stores in the node, field by field.
\<close>

definition insertUnit :: "addr \<Rightarrow> addr option \<Rightarrow> DWLD_UNIT_INFO \<Rightarrow> heap \<Rightarrow> (int \<times> heap) option" where
  "insertUnit hp newNode info h = do {
     hn \<leftarrow> h hp;
     if nd_next hn = None \<and> nd_prev hn = None then
       (case newNode of
          None \<Rightarrow> Some (-3, h)
        | Some a \<Rightarrow> Some (0, h(hp \<mapsto> hn\<lparr>nd_next := Some a, nd_prev := Some a\<rparr>,
            a \<mapsto> \<lparr>dataUnitInfo = info, nd_prev = Some hp, nd_next = Some hp\<rparr>)))
     else do {
       pCurNode \<leftarrow> firstUsed hp h (nd_next hn);
       cn \<leftarrow> h pCurNode;
       if nd_prev cn = Some hp then
         (case newNode of
            None \<Rightarrow> Some (-4, h)
          | Some a \<Rightarrow> do {
              h \<leftarrow> set_next hp a h;
              let h = h(a \<mapsto> \<lparr>dataUnitInfo = info, nd_prev = Some hp, nd_next = Some pCurNode\<rparr>);
              h \<leftarrow> set_prev pCurNode a h;
              Some (0, h)
            })
       else do {
         p \<leftarrow> nd_prev cn;
         pn \<leftarrow> h p;
         Some (0, h(p \<mapsto> pn\<lparr>dataUnitInfo := info\<rparr>))
       }
     }
   }"

section \<open>Taking a unit\<close>

text \<open>The part of \<open>writeFileThr\<close> between locking and unlocking the mutex, when the thread goes on.\<close>

definition takeUnit :: "addr \<Rightarrow> heap \<Rightarrow> (DWLD_UNIT_INFO option \<times> heap) option" where
  "takeUnit hp h = do {
     hn \<leftarrow> h hp;
     (case nd_prev hn of
        None \<Rightarrow> Some (None, h)
      | Some pLastNode \<Rightarrow> do {
          ln \<leftarrow> h pLastNode;
          let curInfo = dataUnitInfo ln;
          if \<not> isUsed curInfo then Some (None, h)
          else let h = h(pLastNode \<mapsto> ln\<lparr>dataUnitInfo := curInfo\<lparr>isUsed := False\<rparr>\<rparr>) in
            if nd_prev hn = nd_next hn then Some (Some curInfo, h)
            else do {
              pNewLastNode \<leftarrow> nd_prev ln;
              pFirstNode \<leftarrow> nd_next hn;
              h \<leftarrow> set_next hp pLastNode h;
              h \<leftarrow> set_prev hp pNewLastNode h;
              h \<leftarrow> set_next pLastNode pFirstNode h;
              h \<leftarrow> set_prev pLastNode hp h;
              h \<leftarrow> set_prev pFirstNode pLastNode h;
              h \<leftarrow> set_next pNewLastNode hp h;
              Some (Some curInfo, h)
            }
        })
   }"

section \<open>Emptying and freeing a buffer\<close>

text \<open>What \<open>writeFileThr\<close> does with its buffer before it ends: all nodes but the head are freed.\<close>

partial_function (option) dropUnits :: "addr \<Rightarrow> heap \<Rightarrow> heap option" where
  "dropUnits hp h = do {
     hn \<leftarrow> h hp;
     (case nd_next hn of
        None \<Rightarrow> Some (h(hp \<mapsto> hn\<lparr>nd_next := None, nd_prev := None\<rparr>))
      | Some c \<Rightarrow>
          if c = hp then Some (h(hp \<mapsto> hn\<lparr>nd_next := None, nd_prev := None\<rparr>))
          else do {
            cn \<leftarrow> h c;
            dropUnits hp (h(hp \<mapsto> hn\<lparr>nd_next := nd_next cn\<rparr>, c := None))
          })
   }"

declare dropUnits.simps [code]

text \<open>The loop of \<open>cliDataUnInit\<close>, which follows the links until it finds \<open>NULL\<close>; then the head is freed.\<close>

partial_function (option) freeFrom :: "addr option \<Rightarrow> heap \<Rightarrow> heap option" where
  "freeFrom pCurNode h =
     (case pCurNode of
        None \<Rightarrow> Some h
      | Some a \<Rightarrow> do {
          n \<leftarrow> h a;
          freeFrom (nd_next n) (h(a := None))
        })"

declare freeFrom.simps [code]

definition freeUnits :: "addr \<Rightarrow> heap \<Rightarrow> heap option" where
  "freeUnits hp h = do {
     hn \<leftarrow> h hp;
     h \<leftarrow> freeFrom (nd_next hn) h;
     _ \<leftarrow> h hp;
     Some (h(hp := None))
   }"

section \<open>The ring\<close>

text \<open>\<open>dseg h p as q\<close>: the nodes \<open>as\<close> are linked in both directions, between \<open>p\<close> and \<open>q\<close>.\<close>

fun dseg :: "heap \<Rightarrow> addr \<Rightarrow> addr list \<Rightarrow> addr \<Rightarrow> bool" where
  "dseg h p [] q = True"
| "dseg h p (a # as) q =
     (case h a of
        None \<Rightarrow> False
      | Some n \<Rightarrow> nd_prev n = Some p \<and> nd_next n = Some (if as = [] then q else hd as) \<and> dseg h a as q)"

definition ring :: "heap \<Rightarrow> addr \<Rightarrow> addr list \<Rightarrow> bool" where
  "ring h hp as \<longleftrightarrow> distinct (hp # as) \<and> dseg h hp as hp \<and>
     (case h hp of
        None \<Rightarrow> False
      | Some n \<Rightarrow> nd_next n = (if as = [] then None else Some (hd as)) \<and>
          nd_prev n = (if as = [] then None else Some (last as)))"

definition info_at :: "heap \<Rightarrow> addr \<Rightarrow> DWLD_UNIT_INFO" where
  "info_at h a = dataUnitInfo (the (h a))"

lemma dseg_alloc: "dseg h p as q \<Longrightarrow> a \<in> set as \<Longrightarrow> \<exists>n. h a = Some n"
  by (induction as arbitrary: p) (auto split: option.splits)

lemma dseg_cong: "(\<And>a. a \<in> set as \<Longrightarrow> h' a = h a) \<Longrightarrow> dseg h' p as q = dseg h p as q"
  by (induction as arbitrary: p) (auto split: option.splits)

lemma dseg_frame [simp]: "a \<notin> set as \<Longrightarrow> dseg (h(a := v)) p as q = dseg h p as q"
  by (rule dseg_cong) auto

lemma info_at_frame [simp]: "b \<noteq> a \<Longrightarrow> info_at (h(a := v)) b = info_at h b"
  by (simp add: info_at_def)

lemma dseg_append:
  "dseg h p (as @ bs) q \<longleftrightarrow> dseg h p as (if bs = [] then q else hd bs) \<and> dseg h (if as = [] then p else last as) bs q"
  by (induction as arbitrary: p) (auto split: option.splits)

text \<open>A change of the data of a node leaves the links as they are.\<close>

lemma dseg_data:
  "h a = Some n \<Longrightarrow> dseg (h(a \<mapsto> n\<lparr>dataUnitInfo := i\<rparr>)) p as q = dseg h p as q"
  by (induction as arbitrary: p) (auto split: option.splits)

lemma ring_data:
  "h a = Some n \<Longrightarrow> ring (h(a \<mapsto> n\<lparr>dataUnitInfo := i\<rparr>)) hp as = ring h hp as"
  by (auto simp: ring_def dseg_data split: option.splits)

lemma ring_alloc: "ring h hp as \<Longrightarrow> a \<in> set (hp # as) \<Longrightarrow> \<exists>n. h a = Some n"
  using dseg_alloc [of h hp as hp a] by (auto simp: ring_def split: option.splits)

lemma firstUsed_simps [simp]:
  "firstUsed hp h (Some hp) = Some hp"
  "a \<noteq> hp \<Longrightarrow> h a = Some n \<Longrightarrow> isUsed (dataUnitInfo n) \<Longrightarrow> firstUsed hp h (Some a) = Some a"
  "a \<noteq> hp \<Longrightarrow> h a = Some n \<Longrightarrow> \<not> isUsed (dataUnitInfo n) \<Longrightarrow> firstUsed hp h (Some a) = firstUsed hp h (nd_next n)"
  by (subst firstUsed.simps, simp)+

lemma firstUsed_skips:
  assumes "dseg h p us q" and "us \<noteq> []" and "hp \<notin> set us" and "\<And>a. a \<in> set us \<Longrightarrow> \<not> isUsed (info_at h a)"
  shows "firstUsed hp h (Some (hd us)) = firstUsed hp h (Some q)"
  using assms
proof (induction us arbitrary: p)
  case (Cons a us)
  then obtain n where n: "h a = Some n" "nd_next n = Some (if us = [] then q else hd us)" "dseg h a us q"
    by (auto split: option.splits)
  have "\<not> isUsed (dataUnitInfo n)" using Cons.prems(4) [of a] n(1) by (simp add: info_at_def)
  then have "firstUsed hp h (Some a) = firstUsed hp h (Some (if us = [] then q else hd us))"
    using Cons.prems(3) n by simp
  then show ?case using Cons.IH [OF n(3)] Cons.prems(3,4) by (cases "us = []") auto
qed simp

text \<open>The new head of the used nodes, or the head node.\<close>

lemma firstUsed_ring:
  assumes "ring h hp (us @ vs)" and "us @ vs \<noteq> []"
    and "\<And>a. a \<in> set us \<Longrightarrow> \<not> isUsed (info_at h a)" and "\<And>a. a \<in> set vs \<Longrightarrow> isUsed (info_at h a)"
  shows "firstUsed hp h (Some (hd (us @ vs))) = Some (if vs = [] then hp else hd vs)"
proof -
  have d: "hp \<notin> set us" "hp \<notin> set vs" "dseg h hp us (if vs = [] then hp else hd vs)"
    using assms(1) by (auto simp: ring_def dseg_append)
  have v: "firstUsed hp h (Some (hd vs)) = Some (hd vs)" if "vs \<noteq> []"
  proof -
    have "hd vs \<in> set vs" using that by simp
    then obtain n where "h (hd vs) = Some n" using ring_alloc [OF assms(1), of "hd vs"] by auto
    moreover have "hd vs \<noteq> hp" using \<open>hd vs \<in> set vs\<close> d(2) by blast
    ultimately show ?thesis using assms(4) [of "hd vs"] \<open>hd vs \<in> set vs\<close> by (simp add: info_at_def)
  qed
  show ?thesis
  proof (cases "us = []")
    case True
    then show ?thesis using v assms(2) by simp
  next
    case False
    then show ?thesis using firstUsed_skips [OF d(3) False d(1) assms(3)] v by simp
  qed
qed


text \<open>What a unit carries: the end-of-file mark, its number, the length of its data, and the data.\<close>

type_synonym UNIT_DATA = "byte \<times> int \<times> int \<times> byte list"

definition mk_unit :: "UNIT_DATA \<Rightarrow> DWLD_UNIT_INFO" where
  "mk_unit d = (case d of (e, u, n, bs) \<Rightarrow> \<lparr>isEof = e, isUsed = True, unitId = u, bodyLen = n, body = bs\<rparr>)"

definition unit_data :: "DWLD_UNIT_INFO \<Rightarrow> UNIT_DATA" where
  "unit_data i = (isEof i, unitId i, bodyLen i, body i)"

lemma mk_unit_simps [simp]: "isUsed (mk_unit d)" "unit_data (mk_unit d) = d"
  by (simp_all add: mk_unit_def unit_data_def split: prod.splits)

text \<open>\<open>holds h hp xs\<close>: behind the unused nodes stand the ones in use, with the data \<open>xs\<close>, oldest last.\<close>

definition holds :: "heap \<Rightarrow> addr \<Rightarrow> UNIT_DATA list \<Rightarrow> bool" where
  "holds h hp xs \<longleftrightarrow> (\<exists>us vs. ring h hp (us @ vs) \<and> (\<forall>a \<in> set us. \<not> isUsed (info_at h a)) \<and>
     (\<forall>a \<in> set vs. isUsed (info_at h a)) \<and> rev (map (info_at h) vs) = map mk_unit xs)"

lemma holdsI:
  assumes "ring h hp (us @ vs)" and "\<And>a. a \<in> set us \<Longrightarrow> \<not> isUsed (info_at h a)"
    and "\<And>a. a \<in> set vs \<Longrightarrow> isUsed (info_at h a)" and "rev (map (info_at h) vs) = map mk_unit xs"
  shows "holds h hp xs"
  using assms unfolding holds_def by blast

text \<open>A new node goes to the front of the ring.\<close>

lemma ring_push:
  assumes "ring h hp as" and "as \<noteq> []" and "h a = None" and "h hp = Some hn" and "h (hd as) = Some fn"
  shows "ring (h(hp \<mapsto> hn\<lparr>nd_next := Some a\<rparr>, a \<mapsto> \<lparr>dataUnitInfo = i, nd_prev = Some hp, nd_next = Some (hd as)\<rparr>,
    hd as \<mapsto> fn\<lparr>nd_prev := Some a\<rparr>)) hp (a # as)"
proof -
  obtain b bs where as: "as = b # bs" using assms(2) by (cases as) auto
  have "a \<notin> set (hp # as)" using ring_alloc [OF assms(1), of a] assms(3) by auto
  then show ?thesis using assms unfolding as ring_def by (auto split: option.splits)
qed

lemma insertUnit_holds:
  assumes "holds h hp xs" and "h a = None"
  shows "\<exists>h'. insertUnit hp (Some a) (mk_unit i) h = Some (0, h') \<and> holds h' hp (xs @ [i]) \<and>
    dom h' \<subseteq> insert a (dom h)"
proof -
  obtain us vs where r: "ring h hp (us @ vs)" "\<And>a. a \<in> set us \<Longrightarrow> \<not> isUsed (info_at h a)"
    "\<And>a. a \<in> set vs \<Longrightarrow> isUsed (info_at h a)" "rev (map (info_at h) vs) = map mk_unit xs"
    using assms(1) unfolding holds_def by blast
  obtain hn where hn: "h hp = Some hn" using ring_alloc [OF r(1), of hp] by auto
  have fresh: "a \<notin> set (hp # us @ vs)" using ring_alloc [OF r(1), of a] assms(2) by auto
  consider (empty) "us @ vs = []" | (full) "us = []" "vs \<noteq> []" | (reuse) "us \<noteq> []" by blast
  then show ?thesis
  proof cases
    case empty
    let ?h = "h(hp \<mapsto> hn\<lparr>nd_next := Some a, nd_prev := Some a\<rparr>,
      a \<mapsto> \<lparr>dataUnitInfo = mk_unit i, nd_prev = Some hp, nd_next = Some hp\<rparr>)"
    have "insertUnit hp (Some a) (mk_unit i) h = Some (0, ?h)"
      using hn r(1) empty by (simp add: insertUnit_def ring_def)
    moreover have "holds ?h hp (xs @ [i])"
      by (rule holdsI [of _ _ "[]" "[a]"]) (use fresh r(4) empty in \<open>auto simp: ring_def info_at_def\<close>)
    ultimately show ?thesis using hn by auto
  next
    case full
    obtain fn where fn: "h (hd vs) = Some fn" using ring_alloc [OF r(1), of "hd vs"] full by auto
    have prev: "nd_prev fn = Some hp" using r(1) full fn by (cases vs) (auto simp: ring_def)
    have nxt: "nd_next hn = Some (hd vs)" using r(1) full hn by (auto simp: ring_def)
    have cur: "firstUsed hp h (Some (hd vs)) = Some (hd vs)"
      using firstUsed_ring [of h hp us vs, OF r(1) _ r(2,3)] full by simp
    have ne: "hd vs \<noteq> a" "hd vs \<noteq> hp" using fresh full r(1) by (cases vs; auto simp: ring_def)+
    let ?h = "h(hp \<mapsto> hn\<lparr>nd_next := Some a\<rparr>, a \<mapsto> \<lparr>dataUnitInfo = mk_unit i, nd_prev = Some hp, nd_next = Some (hd vs)\<rparr>,
      hd vs \<mapsto> fn\<lparr>nd_prev := Some a\<rparr>)"
    have "insertUnit hp (Some a) (mk_unit i) h = Some (0, ?h)"
      using hn fn nxt prev cur ne fresh by (simp add: insertUnit_def Let_def)
    moreover have info: "info_at ?h b = info_at h b" if "b \<in> set vs" for b
      using that fn hn fresh ne by (auto simp: info_at_def)
    have "holds ?h hp (xs @ [i])"
    proof (rule holdsI [of _ _ "[]" "a # vs"])
      show "ring ?h hp ([] @ a # vs)" using ring_push [OF _ _ assms(2) hn, of vs fn "mk_unit i"] r(1) full fn by simp
      show "rev (map (info_at ?h) (a # vs)) = map mk_unit (xs @ [i])"
        using info r(4) ne by (simp add: info_at_def [of _ a] cong: map_cong)
      show "isUsed (info_at ?h b)" if "b \<in> set (a # vs)" for b
        using that info r(3) ne by (auto simp: info_at_def [of _ a])
    qed simp
    ultimately show ?thesis using hn fn by auto
  next
    case reuse
    define p where "p = last us"
    define cur where "cur = (if vs = [] then hp else hd vs)"
    obtain pn where pn: "h p = Some pn" using ring_alloc [OF r(1), of p] reuse by (auto simp: p_def)
    have "cur \<in> set (hp # us @ vs)" by (simp add: cur_def)
    then obtain cn where cn: "h cur = Some cn" using ring_alloc [OF r(1), of cur] by blast
    have nxt: "nd_next hn = Some (hd (us @ vs))" using r(1) reuse hn by (auto simp: ring_def)
    have prev: "nd_prev cn = Some p"
      using r(1) reuse cn hn by (cases vs) (auto simp: ring_def dseg_append cur_def p_def)
    have "p \<noteq> hp" using r(1) reuse by (auto simp: p_def ring_def)
    moreover have "firstUsed hp h (Some (hd (us @ vs))) = Some cur"
      using firstUsed_ring [of h hp us vs, OF r(1) _ r(2,3)] reuse by (simp add: cur_def)
    ultimately have "insertUnit hp (Some a) (mk_unit i) h = Some (0, h(p \<mapsto> pn\<lparr>dataUnitInfo := mk_unit i\<rparr>))"
      using hn nxt prev cn pn by (simp add: insertUnit_def)
    moreover have "holds (h(p \<mapsto> pn\<lparr>dataUnitInfo := mk_unit i\<rparr>)) hp (xs @ [i])"
    proof (rule holdsI [of _ _ "butlast us" "p # vs"])
      have us: "butlast us @ p # vs = us @ vs" using reuse by (simp add: p_def)
      have "distinct (us @ vs)" using r(1) by (simp add: ring_def)
      then have p: "p \<notin> set (butlast us)" "p \<notin> set vs" unfolding us [symmetric] by auto
      show "ring (h(p \<mapsto> pn\<lparr>dataUnitInfo := mk_unit i\<rparr>)) hp (butlast us @ p # vs)"
        unfolding us using r(1) ring_data [of h p pn] pn by simp
      show "\<not> isUsed (info_at (h(p \<mapsto> pn\<lparr>dataUnitInfo := mk_unit i\<rparr>)) b)" if "b \<in> set (butlast us)" for b
        using that p(1) r(2) [of b] in_set_butlastD [of b us] by (cases "b = p") auto
      show "isUsed (info_at (h(p \<mapsto> pn\<lparr>dataUnitInfo := mk_unit i\<rparr>)) b)" if "b \<in> set (p # vs)" for b
        using that r(3) [of b] by (cases "b = p") (auto simp: info_at_def [of _ p])
      have "info_at (h(p \<mapsto> pn\<lparr>dataUnitInfo := mk_unit i\<rparr>)) b = info_at h b" if "b \<in> set vs" for b
        using that p(2) by (cases "b = p") simp_all
      then have "map (info_at (h(p \<mapsto> pn\<lparr>dataUnitInfo := mk_unit i\<rparr>))) vs = map (info_at h) vs" by (intro map_cong refl)
      then show "rev (map (info_at (h(p \<mapsto> pn\<lparr>dataUnitInfo := mk_unit i\<rparr>))) (p # vs)) = map mk_unit (xs @ [i])"
        using r(4) by (simp add: info_at_def [of _ p] del: map_eq_conv)
    qed
    ultimately show ?thesis using pn by auto
  qed
qed


text \<open>The last node moves to the front.\<close>

lemma ring_rotate:
  assumes "ring h hp (m @ [l])" and "m \<noteq> []" and "h hp = Some hn" and "h l = Some ln"
  obtains h' where "(do {
      h \<leftarrow> set_next hp l h;
      h \<leftarrow> set_prev hp (last m) h;
      h \<leftarrow> set_next l (hd m) h;
      h \<leftarrow> set_prev l hp h;
      h \<leftarrow> set_prev (hd m) l h;
      set_next (last m) hp h
    }) = Some h'" and "ring h' hp (l # m)" and "info_at h' = info_at h" and "dom h' = dom h"
proof (cases "tl m = []")
  case True
  then obtain f where m: "m = [f]" using assms(2) by (cases m) auto
  obtain fn where fn: "h f = Some fn" using ring_alloc [OF assms(1), of f] m by auto
  have d: "f \<noteq> l" "f \<noteq> hp" "l \<noteq> hp" using assms(1) m by (auto simp: ring_def)
  let ?h = "h(hp \<mapsto> hn\<lparr>nd_next := Some l, nd_prev := Some f\<rparr>, l \<mapsto> ln\<lparr>nd_next := Some f, nd_prev := Some hp\<rparr>,
    f \<mapsto> fn\<lparr>nd_prev := Some l, nd_next := Some hp\<rparr>)"
  show ?thesis
  proof (rule that [of ?h])
    show "ring ?h hp (l # m)" using d by (simp add: m ring_def)
    show "info_at ?h = info_at h" using d assms(3,4) fn by (auto simp: info_at_def fun_eq_iff)
    show "dom ?h = dom h" using assms(3,4) fn by auto
  qed (use assms(3,4) fn d in \<open>simp add: m fun_upd_twist\<close>)
next
  case False
  then obtain f mid e where m: "m = f # mid @ [e]" by (metis append_butlast_last_id list.exhaust_sel assms(2))
  obtain fn en where n: "h f = Some fn" "h e = Some en"
    using ring_alloc [OF assms(1), of f] ring_alloc [OF assms(1), of e] m by auto
  have d: "f \<noteq> l" "f \<noteq> hp" "l \<noteq> hp" "e \<noteq> l" "e \<noteq> hp" "e \<noteq> f" "distinct mid"
    "hp \<notin> set mid" "f \<notin> set mid" "e \<notin> set mid" "l \<notin> set mid"
    using assms(1) m by (auto simp: ring_def)
  let ?h = "h(hp \<mapsto> hn\<lparr>nd_next := Some l, nd_prev := Some e\<rparr>, l \<mapsto> ln\<lparr>nd_next := Some f, nd_prev := Some hp\<rparr>,
    f \<mapsto> fn\<lparr>nd_prev := Some l\<rparr>, e \<mapsto> en\<lparr>nd_next := Some hp\<rparr>)"
  show ?thesis
  proof (rule that [of ?h])
    show "ring ?h hp (l # m)" using d assms(1,3,4) n by (auto simp: m ring_def dseg_append hd_append)
    show "info_at ?h = info_at h" using d assms(3,4) n by (auto simp: info_at_def fun_eq_iff)
    show "dom ?h = dom h" using assms(3,4) n by auto
  qed (use assms(3,4) n d in \<open>simp add: m fun_upd_twist\<close>)
qed

lemma takeUnit_empty:
  assumes "holds h hp []"
  shows "takeUnit hp h = Some (None, h)"
proof -
  obtain us where us: "ring h hp us" "\<And>a. a \<in> set us \<Longrightarrow> \<not> isUsed (info_at h a)"
    using assms by (auto simp: holds_def)
  obtain hn where hn: "h hp = Some hn" using ring_alloc [OF us(1), of hp] by auto
  show ?thesis
  proof (cases "us = []")
    case True
    then show ?thesis using us(1) hn by (simp add: takeUnit_def ring_def)
  next
    case False
    obtain ln where "h (last us) = Some ln" using ring_alloc [OF us(1), of "last us"] False by auto
    then show ?thesis using us(1) us(2) [of "last us"] hn False by (simp add: takeUnit_def ring_def info_at_def)
  qed
qed

lemma takeUnit_oldest:
  assumes "holds h hp (x # xs)"
  shows "\<exists>h'. takeUnit hp h = Some (Some (mk_unit x), h') \<and> holds h' hp xs \<and> dom h' = dom h"
proof -
  obtain us vs where r: "ring h hp (us @ vs)" "\<And>a. a \<in> set us \<Longrightarrow> \<not> isUsed (info_at h a)"
    "\<And>a. a \<in> set vs \<Longrightarrow> isUsed (info_at h a)" "rev (map (info_at h) vs) = map mk_unit (x # xs)"
    using assms unfolding holds_def by blast
  obtain ws l where vs: "vs = ws @ [l]" using r(4) by (cases vs rule: rev_cases) auto
  have l: "info_at h l = mk_unit x" "rev (map (info_at h) ws) = map mk_unit xs" using r(4) vs by auto
  obtain hn ln where n: "h hp = Some hn" "h l = Some ln"
    using ring_alloc [OF r(1), of hp] ring_alloc [OF r(1), of l] vs by auto
  let ?h = "h(l \<mapsto> ln\<lparr>dataUnitInfo := (mk_unit x)\<lparr>isUsed := False\<rparr>\<rparr>)"
  have ln: "dataUnitInfo ln = mk_unit x" using l(1) n(2) by (simp add: info_at_def)
  define m where "m = us @ ws"
  have m: "us @ vs = m @ [l]" by (simp add: m_def vs)
  have R: "ring ?h hp (m @ [l])" using r(1) ring_data [of h l ln] n(2) m by simp
  have d: "l \<notin> set m" "l \<noteq> hp" "hp \<notin> set m" "distinct m" using R by (auto simp: ring_def)
  have hn: "nd_prev hn = Some l" "nd_next hn = Some (hd (m @ [l]))" using r(1) n(1) m by (auto simp: ring_def)
  have H: "holds g hp xs" if "ring g hp (l # m)" "info_at g = info_at ?h" for g
  proof (rule holdsI [of _ _ "l # us" ws])
    show "ring g hp ((l # us) @ ws)" using that(1) by (simp add: m_def)
    have s: "info_at g b = info_at h b" if "b \<in> set m" for b
      using that d(1) \<open>info_at g = info_at ?h\<close> by (cases "b = l") simp_all
    show "\<not> isUsed (info_at g b)" if "b \<in> set (l # us)" for b
      using that s [of b] r(2) [of b] \<open>info_at g = info_at ?h\<close> by (cases "b = l") (auto simp: info_at_def [of _ l] m_def)
    show "isUsed (info_at g b)" if "b \<in> set ws" for b
      using that s [of b] r(3) [of b] by (simp add: m_def vs)
    show "rev (map (info_at g) ws) = map mk_unit xs"
      using s l(2) by (simp add: m_def cong: map_cong)
  qed
  show ?thesis
  proof (cases "m = []")
    case True
    have "takeUnit hp h = Some (Some (mk_unit x), ?h)"
      using n ln hn True by (simp add: takeUnit_def Let_def)
    moreover have "holds ?h hp xs" by (rule H) (use R True in simp_all)
    ultimately show ?thesis using n by auto
  next
    case False
    have lm: "last m \<noteq> l" "hd m \<noteq> l" using d(1) False by (metis last_in_set, metis hd_in_set)
    have nl: "nd_prev ln = Some (last m)" using r(1) n False unfolding m by (auto simp: ring_def dseg_append)
    have h1: "?h hp = Some hn" "?h l = Some (ln\<lparr>dataUnitInfo := (mk_unit x)\<lparr>isUsed := False\<rparr>\<rparr>)"
      using n d(2) by simp_all
    obtain g where g: "(do {
        h \<leftarrow> set_next hp l ?h;
        h \<leftarrow> set_prev hp (last m) h;
        h \<leftarrow> set_next l (hd m) h;
        h \<leftarrow> set_prev l hp h;
        h \<leftarrow> set_prev (hd m) l h;
        set_next (last m) hp h
      }) = Some g" "ring g hp (l # m)" "info_at g = info_at ?h" "dom g = dom ?h"
      by (rule ring_rotate [OF R False h1])
    have "takeUnit hp h = Some (Some (mk_unit x), g)"
      using n(1) n(2) ln hn nl lm False g(1)
      by (auto simp: takeUnit_def Let_def split: bind_splits)
    then show ?thesis using H [OF g(2,3)] g(4) n by auto
  qed
qed

section \<open>A buffer is a queue\<close>

text \<open>The two operations on a buffer behind the head node \<open>hp\<close>, with the data that a unit carries.\<close>

definition put_unit :: "addr option \<Rightarrow> UNIT_DATA \<Rightarrow> addr \<times> heap \<Rightarrow> (addr \<times> heap) option" where
  "put_unit newNode d = (\<lambda>(hp, h). do {
     (_, h) \<leftarrow> insertUnit hp newNode (mk_unit d) h;
     Some (hp, h)
   })"

definition get_unit :: "addr \<times> heap \<Rightarrow> (UNIT_DATA option \<times> addr \<times> heap) option" where
  "get_unit = (\<lambda>(hp, h). do {
     (info, h) \<leftarrow> takeUnit hp h;
     Some (map_option unit_data info, hp, h)
   })"

definition holds_units :: "addr \<times> heap \<Rightarrow> UNIT_DATA list \<Rightarrow> bool" where
  "holds_units = (\<lambda>(hp, h) xs. holds h hp xs)"

definition fresh_unit :: "addr option \<Rightarrow> addr \<times> heap \<Rightarrow> bool" where
  "fresh_unit newNode = (\<lambda>(hp, h). case newNode of None \<Rightarrow> False | Some a \<Rightarrow> h a = None)"

lemma put_unit_holds:
  assumes "holds_units s xs" and "fresh_unit c s"
  shows "\<exists>s'. put_unit c x s = Some s' \<and> holds_units s' (xs @ [x])"
proof -
  obtain hp h a where s: "s = (hp, h)" "holds h hp xs" "c = Some a" "h a = None"
    using assms by (cases s) (auto simp: holds_units_def fresh_unit_def split: option.splits)
  then show ?thesis using insertUnit_holds [OF s(2,4), of x] by (auto simp: put_unit_def holds_units_def)
qed

lemma get_unit_Nil: "holds_units s [] \<Longrightarrow> \<exists>s'. get_unit s = Some (None, s') \<and> holds_units s' []"
  using takeUnit_empty by (cases s) (auto simp: holds_units_def get_unit_def)

lemma get_unit_Cons:
  "holds_units s (x # xs) \<Longrightarrow> \<exists>s'. get_unit s = Some (Some x, s') \<and> holds_units s' xs"
  using takeUnit_oldest [of "snd s" "fst s" x xs]
  by (cases s) (auto simp: holds_units_def get_unit_def)

interpretation buffer: fifo holds_units fresh_unit put_unit get_unit
  by unfold_locales (fact put_unit_holds, fact get_unit_Nil, fact get_unit_Cons)

text \<open>
  C27. The buffer of a download is a first-in first-out queue: for every sequence of units saved by
  the receiving thread and taken by the writing thread, no operation follows a pointer to a node that
  is not allocated, and the units taken followed by the ones still waiting are those that waited at
  first followed by those that were saved, in that order - whether a node comes from \<open>malloc\<close> or is one
  whose data has been written.
\<close>

theorem dwld_buffer_fifo:
  assumes "holds_units s xs" and "all_fresh fresh_unit put_unit get_unit ops s"
  shows "\<exists>out s' ys. run_queue put_unit get_unit ops s = Some (out, s') \<and> holds_units s' ys \<and>
    xs @ enqueued ops = out @ ys"
  using assms by (rule buffer.run_fifo)

lemma holds_headNode: "h hp = Some headNode \<Longrightarrow> holds h hp []"
  by (rule holdsI [of _ _ "[]" "[]"]) (simp_all add: ring_def headNode_def)

theorem dwld_buffer_fifo_witness:
  "\<exists>out s' ys. run_queue put_unit get_unit
      [Enq (Some 10) (0, 0, 1, [65]), Enq (Some 20) (0, 1, 1, [66]), Deq, Enq (Some 30) (0, 2, 1, [67])]
      (1, Map.empty(1 \<mapsto> headNode)) = Some (out, s') \<and> holds_units s' ys \<and>
    [(0, 0, 1, [65]), (0, 1, 1, [66]), (0, 2, 1, [67])] = out @ ys"
proof -
  let ?ops = "[Enq (Some 10) (0, 0, 1, [65]), Enq (Some 20) (0, 1, 1, [66]), Deq, Enq (Some 30) (0, 2, 1, [67])]
    :: (addr option, UNIT_DATA) queue_op list"
  let ?s = "(1, Map.empty(1 \<mapsto> headNode)) :: addr \<times> heap"
  have e: "holds_units ?s []" by (simp add: holds_units_def holds_headNode)
  have "all_fresh fresh_unit put_unit get_unit ?ops ?s"
    by (simp add: fresh_unit_def put_unit_def get_unit_def insertUnit_def takeUnit_def headNode_def mk_unit_def Let_def)
  then show ?thesis using dwld_buffer_fifo [OF e, of ?ops] by simp
qed

section \<open>Emptying and freeing\<close>

lemma dropUnits_seg:
  assumes "dseg h p as hp" and "distinct as" and "hp \<notin> set as" and "h hp = Some hn"
    and "nd_next hn = Some (if as = [] then hp else hd as)"
  shows "dropUnits hp h = Some (\<lambda>a. if a \<in> set as then None
    else if a = hp then Some (hn\<lparr>nd_next := None, nd_prev := None\<rparr>) else h a)"
  using assms
proof (induction as arbitrary: h p hn)
  case Nil
  then show ?case by (subst dropUnits.simps) (simp add: fun_upd_def)
next
  case (Cons c as)
  then obtain n where n: "h c = Some n" "nd_next n = Some (if as = [] then hp else hd as)" "dseg h c as hp"
    by (auto split: option.splits)
  have c: "c \<noteq> hp" "c \<notin> set as" using Cons.prems by auto
  let ?hn = "hn\<lparr>nd_next := nd_next n\<rparr>"
  let ?h = "h(hp \<mapsto> ?hn, c := None)"
  have "dropUnits hp h = dropUnits hp ?h"
    using Cons.prems(4,5) n(1) c(1) by (subst dropUnits.simps) simp
  also have "\<dots> = Some (\<lambda>a. if a \<in> set as then None
      else if a = hp then Some (?hn\<lparr>nd_next := None, nd_prev := None\<rparr>) else ?h a)"
  proof (rule Cons.IH [of ?h c ?hn])
    have "dseg ?h c as hp = dseg h c as hp" by (rule dseg_cong) (use Cons.prems(3) c in auto)
    then show "dseg ?h c as hp" using n(3) by simp
  qed (use Cons.prems n c in auto)
  finally show ?case using Cons.prems c by (auto simp: fun_eq_iff)
qed

lemma dropUnits_ring:
  assumes "ring h hp as" and "h hp = Some hn"
  shows "dropUnits hp h = Some (\<lambda>a. if a \<in> set as then None
    else if a = hp then Some (hn\<lparr>nd_next := None, nd_prev := None\<rparr>) else h a)"
proof (cases "as = []")
  case True
  then show ?thesis using assms by (subst dropUnits.simps) (simp add: ring_def fun_upd_def)
next
  case False
  show ?thesis by (rule dropUnits_seg [of h hp]) (use assms False in \<open>auto simp: ring_def\<close>)
qed

lemma dropUnits_empties:
  assumes "holds h hp xs"
  obtains h' where "dropUnits hp h = Some h'" and "holds h' hp []" and "dom h' \<subseteq> dom h"
proof -
  obtain as where r: "ring h hp as" using assms by (auto simp: holds_def)
  obtain hn where hn: "h hp = Some hn" using ring_alloc [OF r, of hp] by auto
  have hp: "hp \<notin> set as" using r by (simp add: ring_def)
  show ?thesis
  proof (rule that [OF dropUnits_ring [OF r hn]])
    show "holds (\<lambda>a. if a \<in> set as then None else if a = hp then Some (hn\<lparr>nd_next := None, nd_prev := None\<rparr>) else h a) hp []"
      by (rule holdsI [of _ _ "[]" "[]"]) (use hp in \<open>simp_all add: ring_def\<close>)
    show "dom (\<lambda>a. if a \<in> set as then None else if a = hp then Some (hn\<lparr>nd_next := None, nd_prev := None\<rparr>) else h a) \<subseteq> dom h"
      using hn by (auto split: if_splits)
  qed
qed

lemma freeFrom_simps [simp]:
  "freeFrom None h = Some h"
  "h a = None \<Longrightarrow> freeFrom (Some a) h = None"
  "h a = Some n \<Longrightarrow> freeFrom (Some a) h = freeFrom (nd_next n) (h(a := None))"
  by (subst freeFrom.simps, simp)+

lemma freeFrom_seg:
  assumes "dseg h p as q" and "distinct as" and "as \<noteq> []"
  shows "freeFrom (Some (hd as)) h = freeFrom (Some q) (\<lambda>a. if a \<in> set as then None else h a)"
  using assms
proof (induction as arbitrary: h p)
  case (Cons c as)
  then obtain n where n: "h c = Some n" "nd_next n = Some (if as = [] then q else hd as)" "dseg h c as q"
    by (auto split: option.splits)
  have c: "c \<notin> set as" using Cons.prems by simp
  have "freeFrom (Some (hd (c # as))) h = freeFrom (Some (if as = [] then q else hd as)) (h(c := None))"
    using n by simp
  also have "\<dots> = freeFrom (Some q) (\<lambda>a. if a \<in> set (c # as) then None else h a)"
  proof (cases "as = []")
    case True
    then have "h(c := None) = (\<lambda>a. if a \<in> set (c # as) then None else h a)" by auto
    then show ?thesis using True by simp
  next
    case False
    have e: "(\<lambda>a. if a \<in> set as then None else (h(c := None)) a) = (\<lambda>a. if a \<in> set (c # as) then None else h a)" by auto
    have "dseg (h(c := None)) c as q" using dseg_frame [OF c] n(3) by blast
    moreover have "distinct as" using Cons.prems(2) by simp
    ultimately have "freeFrom (Some (hd as)) (h(c := None)) =
        freeFrom (Some q) (\<lambda>a. if a \<in> set as then None else (h(c := None)) a)"
      using False by (rule Cons.IH)
    then show ?thesis using False unfolding e by simp
  qed
  finally show ?case .
qed simp

text \<open>
  The loop of \<open>cliDataUnInit\<close> expects a list that ends with \<open>NULL\<close>: on a ring with nodes it frees all of
  them and the head, and then reads the first node again.
\<close>

lemma freeUnits_ring:
  assumes "ring h hp as"
  shows "freeUnits hp h = (if as = [] then Some (h(hp := None)) else None)"
proof -
  obtain hn where hn: "h hp = Some hn" using ring_alloc [OF assms, of hp] by auto
  have hp: "hp \<notin> set as" using assms by (simp add: ring_def)
  show ?thesis
  proof (cases "as = []")
    case True
    then show ?thesis using assms hn by (simp add: freeUnits_def ring_def)
  next
    case False
    let ?h = "\<lambda>a. if a \<in> set as then None else h a"
    have "freeFrom (nd_next hn) h = freeFrom (Some hp) ?h"
      using assms hn False freeFrom_seg [of h hp as hp] by (simp add: ring_def)
    also have "\<dots> = freeFrom (Some (hd as)) (?h(hp := None))"
      using assms hn hp False by (subst freeFrom_simps(3) [of _ hp hn]) (simp_all add: ring_def)
    also have "\<dots> = None" using False by simp
    finally show ?thesis using hn False by (simp add: freeUnits_def)
  qed
qed

end
