(* ===== verification/MoCloudData.thy ===== *)
theory MoCloudData
  imports MoSearch MoCloudUtils MoCloudBuf MoBursts
begin

text \<open>
  The data side of the cloud client, \<open>moProject/moCloud/moCloudClientLib/src/cliData.c\<close>: the thread
  that receives units of the files that are downloaded, the buffers (see \<open>MoCloudBuf\<close>), and for every
  download a thread that writes the units to the local file.

  The data socket is the script of what it delivers (see \<open>MoNet\<close>). A thread is a sequence of turns;
  a turn is one unit received, or one pass of the loop of the writing thread, in which each critical
  section is entered once. \<open>None\<close> stands for an access outside an object, for the use of a pointer that
  is \<open>NULL\<close> or dangling, for an overflow or a division by zero, and for a call that never returns.
\<close>

section \<open>State\<close>

text \<open>
  The thread that writes a file waits for its semaphore, runs its loop, or does not exist;
  \<open>W_BAD\<close> is what \<open>writeFileThrId\<close> denotes when \<open>pthread_create\<close> has failed. The file behind \<open>fd\<close> is known by
  its path. \<open>writeFileThrMutex\<close> says that the mutex has been left locked; a section that locks and unlocks it
  is one step.
\<close>

datatype WRITER = W_NONE | W_WAIT | W_LOOP | W_BAD

record DWLD_FILE_INFO =
  isUsing :: bool
  fileKey :: MOCLOUD_FILEINFO_KEY
  fileLength :: nat
  localFilepath :: string
  fd :: "string option"
  pProgressNotifyFunc :: bool
  thrIdValid :: bool
  writer :: WRITER
  isStopWriteFileThr :: bool
  writeFileThrsem :: nat
  writeFileThrMutex :: bool
  pDwldUnitListHead :: "addr option"

record CLIDATA =
  gDataSockId :: int
  gIsInited :: bool
  recvThr :: bool
  gDwldFileInfo :: "DWLD_FILE_INFO list"
  cheap :: heap
  sockIn :: "recv_event list"
  dataSocks :: "int list"
  disk :: "string \<Rightarrow> byte list option"

definition noTask :: DWLD_FILE_INFO where
  "noTask = \<lparr>isUsing = False, fileKey = \<lparr>filetype = 0, filename = []\<rparr>, fileLength = 0, localFilepath = [],
     fd = None, pProgressNotifyFunc = False, thrIdValid = False, writer = W_NONE, isStopWriteFileThr = False,
     writeFileThrsem = 0, writeFileThrMutex = False, pDwldUnitListHead = None\<rparr>"

text \<open>\<open>gDwldFileInfo[i]\<close>.\<close>

definition getTask :: "int \<Rightarrow> CLIDATA \<Rightarrow> DWLD_FILE_INFO option" where
  "getTask i d = (if i < 0 then None else rd (gDwldFileInfo d) (nat i))"

definition setTask :: "int \<Rightarrow> DWLD_FILE_INFO \<Rightarrow> CLIDATA \<Rightarrow> CLIDATA" where
  "setTask i t d = d\<lparr>gDwldFileInfo := (gDwldFileInfo d)[nat i := t]\<rparr>"

section \<open>Headers\<close>

text \<open>\<open>MOCLOUD_DATA_HEADER\<close> has 36 bytes, three of padding behind \<open>isEof\<close> and three behind \<open>checkSum\<close>.\<close>

abbreviation (input) sizeof_DATA_HEADER :: nat where "sizeof_DATA_HEADER \<equiv> 36"

record MOCLOUD_DATA_HEADER =
  dh_mark :: "byte list"
  dh_fileId :: u32
  dh_isEof :: byte
  dh_unitId :: u32
  dh_bodyLen :: u32
  dh_checkSum :: byte

definition bytes_dhdr :: "byte list \<Rightarrow> MOCLOUD_DATA_HEADER" where
  "bytes_dhdr bs = \<lparr>dh_mark = take 16 bs, dh_fileId = un_le32 (take 4 (drop 16 bs)), dh_isEof = bs ! 20,
     dh_unitId = un_le32 (take 4 (drop 24 bs)), dh_bodyLen = un_le32 (take 4 (drop 28 bs)), dh_checkSum = bs ! 32\<rparr>"

definition dhdr_bytes :: "MOCLOUD_DATA_HEADER \<Rightarrow> byte list" where
  "dhdr_bytes h = dh_mark h @ le32 (dh_fileId h) @ [dh_isEof h, 0, 0, 0] @ le32 (dh_unitId h) @ le32 (dh_bodyLen h) @
     [dh_checkSum h, 0, 0, 0]"

text \<open>A successful read takes bytes from the stream, so the loop below ends.\<close>

lemma readn_loop_consumes:
  "readn_loop len es buf pos left = Some (r, buf', es') \<Longrightarrow>
   length (stream es') \<le> length (stream es) \<and> (r = len \<and> 0 < left \<and> 0 < len \<longrightarrow> length (stream es') < length (stream es))"
proof (induction len es buf pos left rule: readn_loop.induct)
  case (1 len es buf pos left)
  show ?case
  proof (cases "0 < left")
    case False
    then show ?thesis using 1(3) by (subst (asm) readn_loop.simps) simp
  next
    case True
    then obtain x es1 where x: "sys_read (nat left) es = Some (x, es1)"
      using 1(3) by (subst (asm) readn_loop.simps) (auto split: option.splits)
    show ?thesis
    proof (cases x)
      case (Inl e)
      have st: "stream es1 = stream es" using sys_read_error(1) [OF x [unfolded Inl]] by simp
      show ?thesis
      proof (cases e)
        case EINTR
        have "readn_loop len es1 buf pos left = Some (r, buf', es')"
          using 1(3) True x Inl EINTR by (subst (asm) readn_loop.simps) simp
        then show ?thesis using 1(1) [OF True x refl Inl EINTR] st by simp
      qed (use 1(3) True x Inl st in \<open>subst (asm) readn_loop.simps, simp\<close>)+
    next
      case (Inr bs)
      have st: "stream es = bs @ stream es1" using sys_read_bytes(1) [OF x [unfolded Inr]] .
      show ?thesis
      proof (cases "bs = []")
        case True
        then show ?thesis using 1(3) \<open>0 < left\<close> x Inr st by (subst (asm) readn_loop.simps) simp
      next
        case False
        then obtain b1 where b1: "wrn buf pos bs = Some b1"
          "readn_loop len es1 b1 (pos + length bs) (left - int (length bs)) = Some (r, buf', es')"
          using 1(3) True x Inr by (subst (asm) readn_loop.simps) (auto split: bind_splits)
        have "length (stream es') \<le> length (stream es1)"
          using 1(2) [OF True x refl Inr False b1(1) b1(2)] by simp
        then show ?thesis using st False by (cases bs) auto
      qed
    qed
  qed
qed

lemma readn_consumes:
  assumes "readn es buf (int n) = Some (r, buf', es')"
  shows "length (stream es') \<le> length (stream es)"
    and "r = int n \<Longrightarrow> 0 < n \<Longrightarrow> length (stream es') < length (stream es)"
  using readn_loop_consumes [OF assms [unfolded readn_def]] by auto

text \<open>
  The loop of \<open>getDataHeader\<close> on its local variable \<open>tmp\<close>: \<open>len\<close> bytes are read to \<open>tmp + startPos\<close>. The
  stub of the checksum looks at its last argument only.
\<close>

function dataHeaderLoop :: "recv_event list \<Rightarrow> byte list \<Rightarrow> nat \<Rightarrow> nat \<Rightarrow> (int \<times> byte list \<times> recv_event list) option" where
  "dataHeaderLoop es tmp startPos len =
     (case readn es (drop startPos tmp) (int len) of
        None \<Rightarrow> None
      | Some (readLen, part, es') \<Rightarrow>
          if readLen \<noteq> int len then Some (-2, take startPos tmp @ part, es')
          else let tmp = take startPos tmp @ part in
            (case moUtils_Search_BF (Some tmp) sizeof_DATA_HEADER (Some MOCLOUD_MARK_DWLD) (length MOCLOUD_MARK_DWLD) of
               None \<Rightarrow> None
             | Some pos \<Rightarrow>
                 if pos < 0 then
                   (case rdn tmp (sizeof_DATA_HEADER - length MOCLOUD_MARK_DWLD) (length MOCLOUD_MARK_DWLD) of
                      None \<Rightarrow> None
                    | Some mv \<Rightarrow> dataHeaderLoop es' (mv @ drop (length mv) tmp) (length MOCLOUD_MARK_DWLD)
                        (sizeof_DATA_HEADER - length MOCLOUD_MARK_DWLD))
                 else if pos \<noteq> 0 then
                   (case rdn tmp (nat pos) (sizeof_DATA_HEADER - nat pos) of
                      None \<Rightarrow> None
                    | Some mv \<Rightarrow> dataHeaderLoop es' (mv @ drop (length mv) tmp) (nat pos + 1) (nat pos))
                 else if moCloudUtilsCheck_checksumCheckValue tmp (sizeof_DATA_HEADER - 1) (dh_checkSum (bytes_dhdr tmp)) = 0
                 then dataHeaderLoop es' (replicate sizeof_DATA_HEADER 0) 0 sizeof_DATA_HEADER
                 else Some (0, tmp, es')))"
  by pat_completeness auto
termination
proof (relation "measure (\<lambda>(es, tmp, startPos, len). 2 * length (stream es) + (if len = 0 then 1 else 0))", goal_cases)
  case 1
  then show ?case by simp
next
  case (2 es tmp startPos len x readLen y part es' tmp' pos mv)
  then have "readn es (drop startPos tmp) (int len) = Some (int len, part, es')" by simp
  from readn_consumes [OF this] show ?case by auto
next
  case (3 es tmp startPos len x readLen y part es' tmp' pos mv)
  then have "readn es (drop startPos tmp) (int len) = Some (int len, part, es')" by simp
  from readn_consumes [OF this] 3 show ?case by auto
next
  case (4 es tmp startPos len x readLen y part es' tmp' pos)
  then have "readn es (drop startPos tmp) (int len) = Some (int len, part, es')" by simp
  from readn_consumes [OF this] show ?case by auto
qed

declare dataHeaderLoop.simps [simp del]

definition getDataHeader :: "recv_event list \<Rightarrow> (int \<times> MOCLOUD_DATA_HEADER \<times> recv_event list) option" where
  "getDataHeader es = do {
     (ret, tmp, es) \<leftarrow> dataHeaderLoop es (replicate sizeof_DATA_HEADER 0) 0 sizeof_DATA_HEADER;
     Some (ret, bytes_dhdr tmp, es)
   }"

section \<open>Receiving\<close>

definition saveDataToBuffer :: "addr option \<Rightarrow> MOCLOUD_DATA_HEADER \<Rightarrow> byte list \<Rightarrow> CLIDATA \<Rightarrow> (int \<times> CLIDATA) option" where
  "saveDataToBuffer newNode hdr pBody d = do {
     t \<leftarrow> getTask (sint (dh_fileId hdr)) d;
     if writeFileThrMutex t then None
     else if isStopWriteFileThr t then Some (-2, d)
     else do {
       hp \<leftarrow> pDwldUnitListHead t;
       bs \<leftarrow> rdn pBody 0 MOCLOUD_DATA_UNIT_LEN;
       (ret, h) \<leftarrow> insertUnit hp newNode \<lparr>isEof = dh_isEof hdr, isUsed = True, unitId = sint (dh_unitId hdr),
         bodyLen = sint (dh_bodyLen hdr), body = bs\<rparr> (cheap d);
       Some (ret, d\<lparr>cheap := h\<rparr>)
     }
   }"

definition postSem :: "int \<Rightarrow> CLIDATA \<Rightarrow> CLIDATA option" where
  "postSem i d = do {
     t \<leftarrow> getTask i d;
     Some (setTask i (t\<lparr>writeFileThrsem := writeFileThrsem t + 1\<rparr>) d)
   }"

text \<open>
  One pass of the inner loop of \<open>recvDataThr\<close>; the result says whether the loop goes on. \<open>stack\<close> is what
  the local array \<open>body\<close> of 1024 bytes happens to hold.
\<close>

definition recvUnit :: "addr option \<Rightarrow> byte list \<Rightarrow> CLIDATA \<Rightarrow> (bool \<times> CLIDATA) option" where
  "recvUnit newNode stack d = do {
     (ret, hdr, es) \<leftarrow> getDataHeader (sockIn d);
     let d = d\<lparr>sockIn := es\<rparr>;
     if ret < 0 then Some (False, d)
     else do {
       (ret, body, es) \<leftarrow> readn (sockIn d) stack (sint (dh_bodyLen hdr));
       let d = d\<lparr>sockIn := es\<rparr>;
       if ret \<noteq> sint (dh_bodyLen hdr) then Some (False, d)
       else do {
         (ret, d) \<leftarrow> saveDataToBuffer newNode hdr body d;
         if ret \<noteq> 0 then Some (True, d)
         else do {
           d \<leftarrow> postSem (sint (dh_fileId hdr)) d;
           Some (True, d)
         }
       }
     }
   }"

text \<open>
  The two loops of \<open>recvDataThr\<close>. What \<open>pselect\<close> returns is given for each pass of the outer loop, with
  the results of \<open>malloc\<close> and the stack contents for the passes of the inner one that follow.
\<close>

datatype PSELECT = PS_SIGNAL | PS_TIMEOUT | PS_READY "(addr option \<times> byte list) list"

fun recvInner :: "(addr option \<times> byte list) list \<Rightarrow> CLIDATA \<Rightarrow> CLIDATA option" where
  "recvInner [] d = Some d"
| "recvInner ((newNode, stack) # us) d = do {
     (again, d) \<leftarrow> recvUnit newNode stack d;
     if again then recvInner us d else Some d
   }"

fun recvDataThr :: "PSELECT list \<Rightarrow> CLIDATA \<Rightarrow> CLIDATA option" where
  "recvDataThr [] d = Some d"
| "recvDataThr (PS_SIGNAL # ps) d = Some (d\<lparr>recvThr := False\<rparr>)"
| "recvDataThr (PS_TIMEOUT # ps) d = recvDataThr ps d"
| "recvDataThr (PS_READY us # ps) d = do {
     d \<leftarrow> recvInner us d;
     recvDataThr ps d
   }"

definition startRecvDataThr :: "int \<Rightarrow> CLIDATA \<Rightarrow> int \<times> CLIDATA" where
  "startRecvDataThr create d =
     (if startThread create < 0 then (-1, d)
      else (0, d\<lparr>recvThr := startThread create = 0\<rparr>))"

text \<open>\<open>probe\<close>, \<open>sig\<close> and \<open>join\<close> are what the calls of \<open>killThread\<close> return; the thread ends with the signal.\<close>

definition stopRecvDataThr :: "int \<Rightarrow> int \<Rightarrow> int \<Rightarrow> CLIDATA \<Rightarrow> int \<times> CLIDATA" where
  "stopRecvDataThr probe sig join d =
     (if fst (killThread 1 probe sig join) < 0 then (-1, d) else (0, d\<lparr>recvThr := False\<rparr>))"

section \<open>Writing\<close>

text \<open>\<open>fwrite\<close> of \<open>bs\<close> at offset \<open>off\<close> of a file: a gap in front of it is filled with zeros.\<close>

definition write_at :: "nat \<Rightarrow> byte list \<Rightarrow> byte list \<Rightarrow> byte list" where
  "write_at off bs f = take off (f @ replicate (off - length f) 0) @ bs @ drop (off + length bs) f"

text \<open>A call of \<open>pProgressNotifyFunc\<close>: the file, the unit, and the mark of the end.\<close>

datatype NOTE = Notify int int byte

text \<open>
  \<open>room\<close> is how many bytes the disk takes. The progress is only logged, but computing it overflows or
  divides by zero.
\<close>

definition writeFile :: "nat \<Rightarrow> int \<Rightarrow> DWLD_UNIT_INFO \<Rightarrow> CLIDATA \<Rightarrow> (int \<times> NOTE list \<times> CLIDATA) option" where
  "writeFile room i pInfo d = do {
     t \<leftarrow> getTask i d;
     let offset = unitId pInfo * int MOCLOUD_DATA_UNIT_LEN;
     path \<leftarrow> fd t;
     f \<leftarrow> disk d path;
     if \<not> in_int32 offset then None
     else if offset < 0 then Some (-2, [], d)
     else if bodyLen pInfo < 0 then None
     else do {
       bs \<leftarrow> rdn (body pInfo) 0 (nat (bodyLen pInfo));
       let w = take room bs;
       let d = d\<lparr>disk := (disk d)(path \<mapsto> write_at (nat offset) w f)\<rparr>;
       if int (length w) \<noteq> bodyLen pInfo then Some (-3, [], d)
       else if pProgressNotifyFunc t then
         if \<not> in_int32 ((unitId pInfo + 1) * int MOCLOUD_DATA_UNIT_LEN) \<or> fileLength t = 0 then None
         else Some (0, [Notify i (unitId pInfo) 0], d)
       else Some (0, [], d)
     }
   }"

definition isEofFlag :: "byte \<Rightarrow> bool" where
  "isEofFlag e \<longleftrightarrow> e \<noteq> 0"

text \<open>One pass of the loops of \<open>writeFileThr\<close> for the file \<open>i\<close>.\<close>

definition writerTurn :: "nat \<Rightarrow> int \<Rightarrow> CLIDATA \<Rightarrow> (NOTE list \<times> CLIDATA) option" where
  "writerTurn room i d = do {
     t \<leftarrow> getTask i d;
     (case writer t of
        W_WAIT \<Rightarrow>
          Some ([], if writeFileThrsem t > 0
            then setTask i (t\<lparr>writeFileThrsem := writeFileThrsem t - 1, writer := W_LOOP\<rparr>) d else d)
      | W_LOOP \<Rightarrow> do {
          hp \<leftarrow> pDwldUnitListHead t;
          if writeFileThrMutex t then None
          else if isStopWriteFileThr t then do {
            h \<leftarrow> dropUnits hp (cheap d);
            Some ([], setTask i (t\<lparr>isUsing := False, writer := W_NONE\<rparr>) (d\<lparr>cheap := h\<rparr>))
          }
          else do {
            (info, h) \<leftarrow> takeUnit hp (cheap d);
            let d = d\<lparr>cheap := h\<rparr>;
            (case info of
               None \<Rightarrow> Some ([], d)
             | Some curInfo \<Rightarrow>
                 if isEofFlag (isEof curInfo) then
                   if \<not> pProgressNotifyFunc t then None
                   else Some ([Notify i (unitId curInfo) (isEof curInfo)], setTask i (t\<lparr>isStopWriteFileThr := True\<rparr>) d)
                 else do {
                   (ret, nts, d) \<leftarrow> writeFile room i curInfo d;
                   Some (nts, d)
                 })
          }
        }
      | _ \<Rightarrow> Some ([], d))
   }"

text \<open>
  The new thread reads its argument through a pointer to the parameter of \<open>startWriteFileThr\<close>: \<open>early\<close>
  says that it does so before that function returns. \<open>create\<close> is what \<open>pthread_create\<close> returns, never a
  negative number.
\<close>

definition startWriteFileThr :: "int \<Rightarrow> bool \<Rightarrow> int \<Rightarrow> CLIDATA \<Rightarrow> (int \<times> CLIDATA) option" where
  "startWriteFileThr create early i d = do {
     t \<leftarrow> getTask i d;
     if create < 0 then Some (-1, d)
     else if create > 0 then Some (0, setTask i (t\<lparr>thrIdValid := True, writer := W_BAD\<rparr>) d)
     else if \<not> early then None
     else Some (0, setTask i (t\<lparr>thrIdValid := True, writer := W_WAIT\<rparr>) d)
   }"

text \<open>
  \<open>pthread_join\<close> waits for the writing thread, which finds the flag in its next pass, empties the buffer
  and ends. When the writing thread itself is the caller (\<open>self\<close>, by way of \<open>pProgressNotifyFunc\<close>) the join
  fails with \<open>EDEADLK\<close>, and the thread ends later.
\<close>

definition joinWriter :: "bool \<Rightarrow> int \<Rightarrow> CLIDATA \<Rightarrow> CLIDATA option" where
  "joinWriter self i d = do {
     t \<leftarrow> getTask i d;
     if self then Some d
     else (case writer t of
         W_BAD \<Rightarrow> None
       | W_NONE \<Rightarrow> Some d
       | _ \<Rightarrow>
           if writeFileThrMutex t then None
           else do {
             hp \<leftarrow> pDwldUnitListHead t;
             h \<leftarrow> dropUnits hp (cheap d);
             Some (setTask i (t\<lparr>isUsing := False, writer := W_NONE\<rparr>) (d\<lparr>cheap := h\<rparr>))
           })
   }"

definition stopWriteFileThr :: "bool \<Rightarrow> int \<Rightarrow> CLIDATA \<Rightarrow> (int \<times> CLIDATA) option" where
  "stopWriteFileThr self i d = do {
     t \<leftarrow> getTask i d;
     if \<not> thrIdValid t then Some (0, d)
     else do {
       d \<leftarrow> postSem i (setTask i (t\<lparr>isStopWriteFileThr := True\<rparr>) d);
       d \<leftarrow> joinWriter self i d;
       t \<leftarrow> getTask i d;
       Some (0, setTask i (t\<lparr>thrIdValid := False, fd := None\<rparr>) d)
     }
   }"

section \<open>Starting and stopping downloads\<close>

text \<open>\<open>opens\<close> says whether \<open>fopen\<close> succeeds; \<open>wb+\<close> creates the file when it does not exist.\<close>

definition insertFileDwldTask ::
    "bool \<Rightarrow> int \<Rightarrow> bool \<Rightarrow> int \<Rightarrow> MOCLOUD_FILEINFO_KEY \<Rightarrow> nat \<Rightarrow> string option \<Rightarrow> CLIDATA \<Rightarrow> (int \<times> CLIDATA) option" where
  "insertFileDwldTask opens create early i key filesize pLocalFilepath d =
     (case pLocalFilepath of
        None \<Rightarrow> Some (-1, d)
      | Some path \<Rightarrow>
          if i < 0 \<or> i \<ge> int MOCLOUD_DWLD_TASK_MAX_NUM then Some (-1, d)
          else do {
            t \<leftarrow> getTask i d;
            if writeFileThrMutex t then None
            else if \<not> opens then Some (-2, setTask i (t\<lparr>fd := None\<rparr>) d)
            else do {
              let d = (if disk d path = None then d\<lparr>disk := (disk d)(path \<mapsto> [])\<rparr> else d);
              (ret, d) \<leftarrow> startWriteFileThr create early i (setTask i (t\<lparr>fd := Some path, isStopWriteFileThr := False\<rparr>) d);
              t \<leftarrow> getTask i d;
              if ret < 0 then Some (-3, setTask i (t\<lparr>fd := None\<rparr>) d)
              else Some (0, setTask i (t\<lparr>fileKey := key, fileLength := filesize,
                localFilepath := copyStr MOCLOUD_FILEPATH_MAXLEN path\<rparr>) d)
            }
          })"

text \<open>
  The loop that looks for a task that is not in use locks the mutex of every task it looks at, and
  unlocks only that of the one it finds.
\<close>

fun lockFirstFree :: "DWLD_FILE_INFO list \<Rightarrow> (nat option \<times> DWLD_FILE_INFO list) option" where
  "lockFirstFree [] = Some (None, [])"
| "lockFirstFree (t # ts) =
     (if writeFileThrMutex t then None
      else if \<not> isUsing t then Some (Some 0, t\<lparr>isUsing := True\<rparr> # ts)
      else do {
        (k, ts) \<leftarrow> lockFirstFree ts;
        Some (map_option Suc k, t\<lparr>writeFileThrMutex := True\<rparr> # ts)
      })"

definition cliDataStartDwld ::
    "bool \<Rightarrow> int \<Rightarrow> bool \<Rightarrow> MOCLOUD_FILEINFO_KEY \<Rightarrow> nat \<Rightarrow> string option \<Rightarrow> bool \<Rightarrow> int \<Rightarrow> CLIDATA \<Rightarrow> (int \<times> int \<times> CLIDATA) option" where
  "cliDataStartDwld opens create early key filesize pLocalFilepath pProgressNotify pFileId d =
     (if pLocalFilepath = None then Some (-1, pFileId, d)
      else if \<exists>t \<in> set (take MOCLOUD_DWLD_TASK_MAX_NUM (gDwldFileInfo d)). isUsing t \<and> fileKey t = key
      then Some (-2, pFileId, d)
      else do {
        (k, ts) \<leftarrow> lockFirstFree (gDwldFileInfo d);
        let d = d\<lparr>gDwldFileInfo := ts\<rparr>;
        (case k of
           None \<Rightarrow> Some (-3, pFileId, d)
         | Some k \<Rightarrow> do {
             let i = int k;
             (ret, d) \<leftarrow> insertFileDwldTask opens create early i key filesize pLocalFilepath d;
             t \<leftarrow> getTask i d;
             if ret < 0 then Some (-3, pFileId, setTask i (t\<lparr>isUsing := False\<rparr>) d)
             else Some (0, i, setTask i (t\<lparr>pProgressNotifyFunc := pProgressNotify\<rparr>) d)
           })
      })"

definition cliDataStopDwld :: "bool \<Rightarrow> int \<Rightarrow> CLIDATA \<Rightarrow> (int \<times> CLIDATA) option" where
  "cliDataStopDwld self i d =
     (if i < 0 \<or> i \<ge> int MOCLOUD_DWLD_TASK_MAX_NUM then Some (-1, d)
      else do {
        t \<leftarrow> getTask i d;
        if \<not> isUsing t then Some (-2, d)
        else do {
          (_, d) \<leftarrow> stopWriteFileThr self i d;
          t \<leftarrow> getTask i d;
          if writeFileThrMutex t then None
          else Some (0, setTask i (t\<lparr>isUsing := False\<rparr>) d)
        }
      })"

section \<open>Starting and stopping the module\<close>

text \<open>
  The loop of \<open>cliDataInit\<close> over the tasks, all cleared before; \<open>heads\<close> are the nodes that \<open>malloc\<close>
  returns. It stops at the first failure, with the number of tasks that have a head.
\<close>

fun initTasks :: "addr option list \<Rightarrow> nat \<Rightarrow> CLIDATA \<Rightarrow> nat \<times> CLIDATA" where
  "initTasks [] i d = (i, d)"
| "initTasks (None # hs) i d = (i, d)"
| "initTasks (Some a # hs) i d =
     initTasks hs (i + 1) (setTask (int i) (noTask\<lparr>pDwldUnitListHead := Some a\<rparr>) (d\<lparr>cheap := (cheap d)(a \<mapsto> headNode)\<rparr>))"

text \<open>
  The loop that should free the heads when an allocation has failed works on task \<open>i\<close>, whose head is
  \<open>NULL\<close>, instead of task \<open>j\<close>, so that nothing is freed; neither the socket nor the thread is released.
\<close>

definition cliDataInit ::
    "(string \<Rightarrow> 32 word option) \<Rightarrow> SOCKENV \<Rightarrow> int \<Rightarrow> addr option list \<Rightarrow> string \<Rightarrow> int \<Rightarrow> CLIDATA \<Rightarrow> int \<times> CLIDATA" where
  "cliDataInit inet_aton e create heads ip port d =
     (if gIsInited d then (-1, d)
      else let (ret, sock, socks) = createSocket inet_aton e ip port (gDataSockId d) (dataSocks d);
               d = d\<lparr>gDataSockId := sock, dataSocks := socks\<rparr>;
               (sock', socks') = destroySocket (gDataSockId d) (dataSocks d);
               closed = d\<lparr>gDataSockId := sock', dataSocks := socks'\<rparr>
        in if ret < 0 then (-2, d)
           else if connectToServer e < 0 then (-3, closed)
           else let (ret, d) = startRecvDataThr create d
             in if ret < 0 then (-4, closed)
                else let (n, d) = initTasks heads 0 (d\<lparr>gDwldFileInfo := replicate MOCLOUD_DWLD_TASK_MAX_NUM noTask\<rparr>)
                  in if n < MOCLOUD_DWLD_TASK_MAX_NUM then (-5, d) else (0, d\<lparr>gIsInited := True\<rparr>))"

definition freeTask :: "nat \<Rightarrow> CLIDATA \<Rightarrow> CLIDATA option" where
  "freeTask i d = do {
     t \<leftarrow> getTask (int i) d;
     hp \<leftarrow> pDwldUnitListHead t;
     h \<leftarrow> freeUnits hp (cheap d);
     Some (setTask (int i) (t\<lparr>isUsing := False, thrIdValid := False, writeFileThrsem := 0, writeFileThrMutex := False, pDwldUnitListHead := None\<rparr>) (d\<lparr>cheap := h\<rparr>))
   }"

definition cliDataUnInit :: "int \<Rightarrow> int \<Rightarrow> int \<Rightarrow> CLIDATA \<Rightarrow> CLIDATA option" where
  "cliDataUnInit probe sig join d =
     (if gIsInited d then do {
        let (_, d) = stopRecvDataThr probe sig join d;
        d \<leftarrow> foldM (\<lambda>i d. map_option snd (stopWriteFileThr False (int i) d)) [0..<MOCLOUD_DWLD_TASK_MAX_NUM] d;
        d \<leftarrow> foldM freeTask [0..<MOCLOUD_DWLD_TASK_MAX_NUM] d;
        let (sock, socks) = destroySocket (gDataSockId d) (dataSocks d);
        Some (d\<lparr>gDataSockId := sock, dataSocks := socks, gIsInited := False\<rparr>)
      }
      else Some d)"

section \<open>Headers that arrive\<close>

definition good_dhdr :: "MOCLOUD_DATA_HEADER \<Rightarrow> bool" where
  "good_dhdr h \<longleftrightarrow> length (dh_mark h) = 16 \<and> take 12 (dh_mark h) = MOCLOUD_MARK_DWLD \<and> dh_checkSum h = CHECKSUM_STUB_VALUE"

lemma length_dhdr_bytes: "length (dh_mark h) = 16 \<Longrightarrow> length (dhdr_bytes h) = 36"
  by (simp add: dhdr_bytes_def)

lemma bytes_dhdr_bytes: "length (dh_mark h) = 16 \<Longrightarrow> bytes_dhdr (dhdr_bytes h) = h"
  by (simp add: dhdr_bytes_def bytes_dhdr_def nth_append)

lemma search_dwld: "length buf = 36 \<Longrightarrow>
    moUtils_Search_BF (Some buf) sizeof_DATA_HEADER (Some MOCLOUD_MARK_DWLD) (length MOCLOUD_MARK_DWLD) = Some (search_spec buf MOCLOUD_MARK_DWLD)"
  using moUtils_Search_BF_correct [of 12 buf MOCLOUD_MARK_DWLD] by (simp add: search_input_def)

lemma getDataHeader_front:
  assumes "good_dhdr h" and "clean es" and "stream es = dhdr_bytes h @ rest"
  obtains es' where "getDataHeader (es @ fs) = Some (0, h, es' @ fs)" and "clean es'" and "stream es' = rest"
proof -
  have l: "length (dhdr_bytes h) = 36" "bytes_dhdr (dhdr_bytes h) = h"
    using assms(1) by (simp_all add: good_dhdr_def length_dhdr_bytes bytes_dhdr_bytes)
  obtain es' where es': "readn (es @ fs) (replicate 36 0) (int 36) = Some (int 36, take 36 (stream es) @ drop 36 (replicate 36 0), es' @ fs)"
    "clean es'" "stream es' = drop 36 (stream es)"
    by (rule readn_front [OF assms(2), of 36 "replicate 36 0" fs]) (use assms(3) l(1) in auto)
  have "occurs (dhdr_bytes h) MOCLOUD_MARK_DWLD 0"
    using assms(1) l(1) by (simp add: good_dhdr_def occurs_def dhdr_bytes_def)
  then have "search_spec (dhdr_bytes h) MOCLOUD_MARK_DWLD = int 0" by (rule search_spec_found) simp
  then have "getDataHeader (es @ fs) = Some (0, h, es' @ fs)"
    using es'(1) assms(1,3) l search_dwld [OF l(1)]
    by (simp add: getDataHeader_def dataHeaderLoop.simps [of "es @ fs"] good_dhdr_def moCloudUtilsCheck_checksumCheckValue_def Let_def)
  then show ?thesis using es'(2,3) assms(3) l(1) by (intro that) auto
qed

lemma getDataHeader_good:
  assumes "good_dhdr h" and "clean es" and "stream es = dhdr_bytes h @ rest"
  obtains es' where "getDataHeader es = Some (0, h, es')" and "clean es'" and "stream es' = rest"
  by (rule getDataHeader_front [OF assms, of "[]"]) (use that in simp)

text \<open>The socket does not block: a gap inside a header ends the call.\<close>

lemma getDataHeader_gap:
  assumes "clean es" and "length (stream es) < 36"
  shows "\<exists>h. getDataHeader (es @ Recv_err EAGAIN # fs) = Some (-2, h, fs)"
  using readn_gap [of es 36 "replicate 36 0" fs] assms
  by (simp add: getDataHeader_def dataHeaderLoop.simps [of "es @ Recv_err EAGAIN # fs"])

text \<open>
  Looking for the next header overruns the stack: when the mark stands \<open>p\<close> bytes behind the
  start, the loop reads the missing \<open>p\<close> bytes to position \<open>p + 1\<close> of its 36-byte variable instead of
  position \<open>36 - p\<close>. From 18 bytes of garbage on this writes behind the variable.
\<close>

theorem resync_overruns_stack:
  assumes "clean es" and "36 + p \<le> length (stream es)" and "18 \<le> p"
    and "occurs (take 36 (stream es)) MOCLOUD_MARK_DWLD p"
    and "\<And>k. k < p \<Longrightarrow> \<not> occurs (take 36 (stream es)) MOCLOUD_MARK_DWLD k"
  shows "getDataHeader es = None"
proof -
  let ?w = "take 36 (stream es)"
  obtain es' where es': "readn es (replicate 36 0) (int 36) = Some (int 36, ?w @ drop 36 (replicate 36 0), es')"
    "clean es'" "stream es' = drop 36 (stream es)"
    using readn_clean [OF assms(1), of 36 "replicate 36 0"] assms(2) by auto
  have w: "length ?w = 36" using assms(2) by simp
  have p: "p \<le> 24" using assms(4) w by (simp add: occurs_def)
  have f: "search_spec ?w MOCLOUD_MARK_DWLD = int p" by (rule search_spec_found [OF assms(4,5)])
  let ?t = "take (36 - p) (drop p ?w)"
  let ?tmp = "?t @ drop (36 - p) ?w"
  have t: "length ?t = 36 - p" using w p by simp
  have "rdn ?w p (36 - p) = Some ?t" by (rule rdn_in) (use w p in simp)
  then have "getDataHeader es = Option.bind (dataHeaderLoop es' (?t @ drop (length ?t) ?w) (p + 1) p)
      (\<lambda>(ret, tmp, es). Some (ret, bytes_dhdr tmp, es))"
    using es'(1) assms(3) search_dwld [OF w] f unfolding getDataHeader_def
    by (subst dataHeaderLoop.simps) (simp add: Let_def del: take_take drop_take)
  moreover have "readn es' (drop (p + 1) ?tmp) (int p) = None"
    by (rule readn_overflow) (use es'(2,3) assms(2,3) p in auto)
  then have "dataHeaderLoop es' ?tmp (p + 1) p = None" by (subst dataHeaderLoop.simps) simp
  ultimately show ?thesis unfolding t by simp
qed

theorem resync_overruns_stack_witness:
  "getDataHeader [Arrive (replicate 18 0 @ MOCLOUD_MARK_DWLD @ replicate 24 0)] = None"
proof (rule resync_overruns_stack [of _ 18])
  let ?w = "take 36 (stream [Arrive (replicate 18 0 @ MOCLOUD_MARK_DWLD @ replicate 24 0)])"
  show "occurs ?w MOCLOUD_MARK_DWLD 18" by (simp add: occurs_def)
  show "\<not> occurs ?w MOCLOUD_MARK_DWLD k" if "k < 18" for k
  proof
    assume "occurs ?w MOCLOUD_MARK_DWLD k"
    then have "?w ! (k + 0) = MOCLOUD_MARK_DWLD ! 0" unfolding occurs_nth by (auto dest: spec [of _ 0])
    then show False using that by (simp add: MOCLOUD_MARK_DWLD_def nth_append)
  qed
qed simp_all

section \<open>A download\<close>

text \<open>What the server sends for the units \<open>k\<close>, \<open>k + 1\<close>, ... of file \<open>i\<close>.\<close>

definition unit_header :: "int \<Rightarrow> nat \<Rightarrow> nat \<Rightarrow> byte \<Rightarrow> MOCLOUD_DATA_HEADER" where
  "unit_header i k n e = \<lparr>dh_mark = mark_field MOCLOUD_MARK_DWLD, dh_fileId = word_of_int i, dh_isEof = e,
     dh_unitId = word_of_int (int k), dh_bodyLen = word_of_int (int n), dh_checkSum = CHECKSUM_STUB_VALUE\<rparr>"

fun unit_msgs :: "int \<Rightarrow> nat \<Rightarrow> byte list list \<Rightarrow> byte list list" where
  "unit_msgs i k [] = []"
| "unit_msgs i k (b # bs) = (dhdr_bytes (unit_header i k (length b) 0) @ b) # unit_msgs i (Suc k) bs"

lemma unit_header_fields:
  assumes "0 \<le> i" and "i < 8" and "k < 2 ^ 31" and "n \<le> 1024"
  shows "good_dhdr (unit_header i k n e)" "sint (dh_fileId (unit_header i k n e)) = i"
    "sint (dh_unitId (unit_header i k n e)) = int k" "sint (dh_bodyLen (unit_header i k n e)) = int n"
    "dh_isEof (unit_header i k n e) = e"
  using assms sint_word_of_int32 [of "int k"] sint_word_of_int32 [of "int n"]
  by (simp_all add: unit_header_def good_dhdr_def mark_field_def sint_word_of_int32)

text \<open>A unit in the buffer: the array behind the data holds whatever was on the stack.\<close>

definition carries :: "UNIT_DATA \<Rightarrow> nat \<Rightarrow> byte list \<Rightarrow> bool" where
  "carries x k b \<longleftrightarrow> (\<exists>tl. x = (0, int k, int (length b), b @ tl) \<and> length (b @ tl) = 1024)"

fun carry_all :: "UNIT_DATA list \<Rightarrow> nat \<Rightarrow> byte list list \<Rightarrow> bool" where
  "carry_all [] k bs = (bs = [])"
| "carry_all (x # xs) k bs = (case bs of [] \<Rightarrow> False | b # bs \<Rightarrow> carries x k b \<and> carry_all xs (Suc k) bs)"

lemma carry_all_length: "carry_all xs k bs \<Longrightarrow> length xs = length bs"
  by (induction xs k bs rule: carry_all.induct) (auto split: list.splits)

lemma carry_all_snoc: "carry_all xs k bs \<Longrightarrow> carries x (k + length bs) b \<Longrightarrow> carry_all (xs @ [x]) k (bs @ [b])"
  by (induction xs k bs rule: carry_all.induct) (auto split: list.splits)

text \<open>
  The units \<open>bodies\<close> of a file: all of them full but the last, which is not longer, and in all less
  than 2 GB, the limit that the \<open>int\<close> offsets of \<open>writeFile\<close> have.
\<close>

definition units_ok :: "byte list list \<Rightarrow> bool" where
  "units_ok bodies \<longleftrightarrow> (\<forall>b \<in> set (butlast bodies). length b = MOCLOUD_DATA_UNIT_LEN) \<and>
     (\<forall>b \<in> set bodies. length b \<le> MOCLOUD_DATA_UNIT_LEN) \<and> length bodies * MOCLOUD_DATA_UNIT_LEN < 2 ^ 31"

text \<open>
  \<open>downloading i path bodies rest r m d\<close>: \<open>r\<close> units of the file \<open>i\<close> have been received, and \<open>m\<close> of them
  taken from the buffer and written. The others arrive on the socket, in bursts: cut into pieces in any way, with
  gaps between two units.
\<close>

definition downloading :: "int \<Rightarrow> string \<Rightarrow> byte list list \<Rightarrow> byte list \<Rightarrow> nat \<Rightarrow> nat \<Rightarrow> CLIDATA \<Rightarrow> bool" where
  "downloading i path bodies rest r m d \<longleftrightarrow> 0 \<le> i \<and> i < 8 \<and> m \<le> r \<and> r \<le> length bodies \<and>
     length (gDwldFileInfo d) = MOCLOUD_DWLD_TASK_MAX_NUM \<and>
     bursts (unit_msgs i r (drop r bodies)) rest (sockIn d) \<and>
     disk d path = Some (concat (take m bodies)) \<and>
     (\<exists>t hp xs. getTask i d = Some t \<and> isUsing t \<and> thrIdValid t \<and> writer t \<in> {W_WAIT, W_LOOP} \<and>
        (writer t = W_WAIT \<longrightarrow> r \<le> writeFileThrsem t) \<and> \<not> isStopWriteFileThr t \<and> \<not> writeFileThrMutex t \<and>
        fd t = Some path \<and> pProgressNotifyFunc t \<and> 0 < fileLength t \<and> pDwldUnitListHead t = Some hp \<and>
        holds (cheap d) hp xs \<and> carry_all xs m (take (r - m) (drop m bodies)))"

lemma getTask_set [simp]:
  "0 \<le> i \<Longrightarrow> nat i < length (gDwldFileInfo d) \<Longrightarrow> getTask i (setTask i t d) = Some t"
  by (simp add: getTask_def setTask_def)

lemma getTask_upd [simp]:
  "getTask i (d\<lparr>sockIn := a\<rparr>) = getTask i d" "getTask i (d\<lparr>cheap := h\<rparr>) = getTask i d" "getTask i (d\<lparr>disk := f\<rparr>) = getTask i d"
  by (simp_all add: getTask_def)

lemma setTask_fields [simp]:
  "length (gDwldFileInfo (setTask i t d)) = length (gDwldFileInfo d)" "sockIn (setTask i t d) = sockIn d"
  "disk (setTask i t d) = disk d" "cheap (setTask i t d) = cheap d" "gDataSockId (setTask i t d) = gDataSockId d"
  "dataSocks (setTask i t d) = dataSocks d" "gIsInited (setTask i t d) = gIsInited d" "recvThr (setTask i t d) = recvThr d"
  by (simp_all add: setTask_def)

lemma unit_msgs_step:
  "r < length bodies \<Longrightarrow> unit_msgs i r (drop r bodies) =
    (dhdr_bytes (unit_header i r (length (bodies ! r)) 0) @ (bodies ! r)) # unit_msgs i (Suc r) (drop (Suc r) bodies)"
  by (subst Cons_nth_drop_Suc [symmetric]) simp_all

text \<open>In front of a unit there is a gap, or the header and the data can be read.\<close>

lemma unit_next:
  assumes "bursts (unit_msgs i r (drop r bodies)) rest es" and "r < length bodies" and "units_ok bodies" and "0 \<le> i" and "i < 8"
    and "length stack = MOCLOUD_DATA_UNIT_LEN"
  obtains (gap) es1 h where "at_gap es" and "getDataHeader es = Some (-2, h, es1)" and "length es1 < length es"
      and "bursts (unit_msgs i r (drop r bodies)) rest es1"
  | (unit) es1 es2 where "\<not> at_gap es" and "getDataHeader es = Some (0, unit_header i r (length (bodies ! r)) 0, es1)"
      and "readn es1 stack (int (length (bodies ! r))) =
        Some (int (length (bodies ! r)), bodies ! r @ drop (length (bodies ! r)) stack, es2)"
      and "bursts (unit_msgs i (Suc r) (drop (Suc r) bodies)) rest es2"
  using assms(1) unfolding unit_msgs_step [OF assms(2)]
proof (cases rule: bursts_next)
  case (gap es0 es1)
  obtain h where "getDataHeader es = Some (-2, h, es1)"
    using getDataHeader_gap [OF gap(2), of es1] gap(1,3) by auto
  then show ?thesis using gap that(1) [of h es1] at_gap_quiet [OF gap(2,3), of es1] unit_msgs_step [OF assms(2), of i] by simp
next
  case (message es1 es2 tl)
  let ?b = "bodies ! r"
  have b: "length ?b \<le> 1024" "r < 2 ^ 31" using assms(2,3) by (auto simp: units_ok_def)
  note f = unit_header_fields [OF assms(4,5) b(2,1), of 0]
  have ne: "stream es1 \<noteq> []" using message(3) by (simp add: dhdr_bytes_def)
  have st: "stream es1 = dhdr_bytes (unit_header i r (length ?b) 0) @ ?b @ tl" using message(3) by simp
  obtain es3 where es3: "getDataHeader (es1 @ es2) = Some (0, unit_header i r (length ?b) 0, es3 @ es2)" "clean es3" "stream es3 = ?b @ tl"
    by (rule getDataHeader_front [OF f(1) message(2) st])
  obtain es4 where es4: "readn (es3 @ es2) stack (int (length ?b)) = Some (int (length ?b), take (length ?b) (stream es3) @ drop (length ?b) stack, es4 @ es2)"
    "clean es4" "stream es4 = drop (length ?b) (stream es3)"
    by (rule readn_front [OF es3(2), of "length ?b" stack es2]) (use es3(3) b(1) assms(6) in simp_all)
  show ?thesis
    by (rule that(2) [of "es3 @ es2" "es4 @ es2"])
      (use message es3 es4 at_gap_message [OF message(2) ne, of es2] in simp_all)
qed

text \<open>
  A gap inside a unit drops it: the bytes in front of the gap are gone, and the next pass begins in the
  middle of the unit.
\<close>

lemma gap_drops_unit:
  assumes "good_dhdr h" and "sint (dh_bodyLen h) = int (length b)" and "length b \<le> MOCLOUD_DATA_UNIT_LEN"
    and "length stack = MOCLOUD_DATA_UNIT_LEN" and "k < sizeof_DATA_HEADER + length b"
    and "sockIn d = es @ Recv_err EAGAIN # fs" and "clean es" and "stream es = take k (dhdr_bytes h @ b)"
  shows "recvUnit newNode stack d = Some (False, d\<lparr>sockIn := fs\<rparr>)"
proof (cases "k < 36")
  case True
  then have "length (stream es) < 36" using assms(1,8) by (simp add: good_dhdr_def length_dhdr_bytes)
  from getDataHeader_gap [OF assms(7) this, of fs] show ?thesis using assms(6) by (auto simp: recvUnit_def)
next
  case False
  have "stream es = dhdr_bytes h @ take (k - 36) b" using False assms(1,8) by (simp add: good_dhdr_def length_dhdr_bytes)
  then obtain es1 where es1: "getDataHeader (sockIn d) = Some (0, h, es1 @ Recv_err EAGAIN # fs)" "clean es1" "stream es1 = take (k - 36) b"
    using getDataHeader_front [OF assms(1,7), of "take (k - 36) b" "Recv_err EAGAIN # fs"] assms(6) by metis
  have "length (stream es1) < length b" using es1(3) False assms(5) by simp
  from readn_gap [OF es1(2) this, of stack fs] show ?thesis
    using es1(1) \<open>length (stream es1) < length b\<close> assms(2-4) by (simp add: recvUnit_def)
qed

lemma take_drop_snoc: "m \<le> r \<Longrightarrow> r < length xs \<Longrightarrow> take (Suc r - m) (drop m xs) = take (r - m) (drop m xs) @ [xs ! r]"
  by (simp add: Suc_diff_le take_Suc_conv_app_nth)

lemma recvUnit_downloading:
  assumes "downloading i path bodies rest r m d" and "units_ok bodies" and "r < length bodies"
    and "cheap d a = None" and "length stack = MOCLOUD_DATA_UNIT_LEN"
  obtains d' where "recvUnit (Some a) stack d = Some (\<not> at_gap (sockIn d), d')"
    and "downloading i path bodies rest (if at_gap (sockIn d) then r else Suc r) m d'"
    and "at_gap (sockIn d) \<Longrightarrow> length (sockIn d') < length (sockIn d)"
proof -
  obtain t hp xs where t: "getTask i d = Some t" "writer t \<in> {W_WAIT, W_LOOP}" "isUsing t \<and> thrIdValid t \<and> \<not> isStopWriteFileThr t \<and> \<not> writeFileThrMutex t"
    "fd t = Some path" "pProgressNotifyFunc t" "0 < fileLength t" "pDwldUnitListHead t = Some hp"
    "holds (cheap d) hp xs" "carry_all xs m (take (r - m) (drop m bodies))"
    "writer t = W_WAIT \<longrightarrow> r \<le> writeFileThrsem t"
    and i: "0 \<le> i" "i < 8" "m \<le> r" "length (gDwldFileInfo d) = 8" "bursts (unit_msgs i r (drop r bodies)) rest (sockIn d)"
    "disk d path = Some (concat (take m bodies))"
    using assms(1) unfolding downloading_def by blast
  from i(5) assms(3,2) i(1,2) assms(5) show ?thesis
  proof (cases rule: unit_next)
    case (gap es1 h)
    let ?d = "d\<lparr>sockIn := es1\<rparr>"
    have "recvUnit (Some a) stack d = Some (False, ?d)" using gap(2) by (simp add: recvUnit_def)
    moreover have "downloading i path bodies rest r m ?d"
      using assms(1) gap(4) by (auto simp: downloading_def)
    ultimately show ?thesis using gap(1,3) by (intro that [of ?d]) simp_all
  next
    case (unit es1 es2)
    let ?b = "bodies ! r"
    have b: "length ?b \<le> 1024" "r < 2 ^ 31" using assms(2,3) by (auto simp: units_ok_def)
    let ?h = "unit_header i r (length ?b) 0"
    note f = unit_header_fields [OF i(1,2) b(2,1), of 0]
    let ?body = "?b @ drop (length ?b) stack"
    have body: "length ?body = 1024" using b(1) assms(5) by simp
    let ?x = "(0, int r, int (length ?b), ?body)"
    obtain h' where h': "insertUnit hp (Some a) (mk_unit ?x) (cheap d) = Some (0, h')" "holds h' hp (xs @ [?x])"
      using insertUnit_holds [OF t(8) assms(4), of ?x] by auto
    have save: "saveDataToBuffer (Some a) ?h ?body (d\<lparr>sockIn := es2\<rparr>) = Some (0, d\<lparr>sockIn := es2, cheap := h'\<rparr>)"
      using f t(1,3,7) h'(1) body by (simp add: saveDataToBuffer_def mk_unit_def)
    let ?d = "setTask i (t\<lparr>writeFileThrsem := writeFileThrsem t + 1\<rparr>) (d\<lparr>sockIn := es2, cheap := h'\<rparr>)"
    have "recvUnit (Some a) stack d = Some (True, ?d)"
      using unit(2,3) f save t(1) by (simp add: recvUnit_def postSem_def)
    moreover have "carries ?x (m + (r - m)) ?b" using body i(3) by (simp add: carries_def)
    then have "carry_all (xs @ [?x]) m (take (Suc r - m) (drop m bodies))"
      using carry_all_snoc [OF t(9), of ?x ?b] i(3) assms(3) by (simp add: take_drop_snoc)
    then have "downloading i path bodies rest (Suc r) m ?d"
      using i assms(3) unit(4) t h'(2) unfolding downloading_def by auto
    ultimately show ?thesis using unit(1) by (intro that [of ?d]) simp_all
  qed
qed

lemma write_at_end: "length f = off \<Longrightarrow> write_at off bs f = f @ bs"
  by (simp add: write_at_def)

lemma units_before:
  assumes "units_ok bodies" and "m < length bodies"
  shows "length (concat (take m bodies)) = m * MOCLOUD_DATA_UNIT_LEN"
proof -
  have "length b = 1024" if "b \<in> set (take m bodies)" for b
  proof -
    have "take m bodies = take m (butlast bodies)" using assms(2) by (simp add: take_butlast)
    then have "b \<in> set (butlast bodies)" using that by (metis in_set_takeD)
    then show ?thesis using assms(1) by (simp add: units_ok_def)
  qed
  then have "map length (take m bodies) = replicate m 1024"
    using assms(2) by (intro replicate_eqI) auto
  then show ?thesis by (simp add: length_concat sum_list_replicate)
qed

lemma writerTurn_downloading:
  assumes "downloading i path bodies rest r m d" and "units_ok bodies" and "MOCLOUD_DATA_UNIT_LEN \<le> room"
  obtains nts d' m' where "writerTurn room i d = Some (nts, d')" and "downloading i path bodies rest r m' d'"
    and "m \<le> m'" and "m < r \<Longrightarrow> (\<exists>t. getTask i d' = Some t \<and> writer t = W_LOOP)"
    and "m < r \<Longrightarrow> (\<exists>t. getTask i d = Some t \<and> writer t = W_LOOP) \<Longrightarrow> m' = Suc m"
    and "m' = m \<and> nts = [] \<or> m' = Suc m \<and> nts = [Notify i (int m) 0]"
proof -
  obtain t hp xs where t: "getTask i d = Some t" "writer t \<in> {W_WAIT, W_LOOP}" "isUsing t \<and> thrIdValid t \<and> \<not> isStopWriteFileThr t \<and> \<not> writeFileThrMutex t"
    "fd t = Some path" "pProgressNotifyFunc t" "0 < fileLength t" "pDwldUnitListHead t = Some hp"
    "holds (cheap d) hp xs" "carry_all xs m (take (r - m) (drop m bodies))"
    "writer t = W_WAIT \<longrightarrow> r \<le> writeFileThrsem t"
    and i: "0 \<le> i" "i < 8" "m \<le> r" "r \<le> length bodies" "length (gDwldFileInfo d) = 8"
    "bursts (unit_msgs i r (drop r bodies)) rest (sockIn d)" "disk d path = Some (concat (take m bodies))"
    using assms(1) unfolding downloading_def by blast
  consider (wait) "writer t = W_WAIT" "writeFileThrsem t = 0" | (wake) "writer t = W_WAIT" "0 < writeFileThrsem t"
    | (none) "writer t = W_LOOP" "m = r" | (store) "writer t = W_LOOP" "m < r"
    using t(2) i(3) by (cases "writeFileThrsem t"; cases "m = r") auto
  then show ?thesis
  proof cases
    case wait
    then have "writerTurn room i d = Some ([], d)" using t(1) by (simp add: writerTurn_def)
    then show ?thesis by (rule that [OF _ assms(1)]) (use wait t(1,10) in auto)
  next
    case wake
    let ?d = "setTask i (t\<lparr>writeFileThrsem := writeFileThrsem t - 1, writer := W_LOOP\<rparr>) d"
    have "writerTurn room i d = Some ([], ?d)" using t(1) wake by (simp add: writerTurn_def)
    moreover have "downloading i path bodies rest r m ?d"
      using t i by (auto simp: downloading_def)
    ultimately show ?thesis by (rule that) (use wake t(1) i in auto)
  next
    case none
    then have "xs = []" using t(9) by (cases xs) auto
    then have "writerTurn room i d = Some ([], d)"
      using t(1,3,7,8) none takeUnit_empty [of "cheap d" hp] by (simp add: writerTurn_def)
    then show ?thesis by (rule that [OF _ assms(1)]) (use none in auto)
  next
    case store
    let ?b = "bodies ! m"
    have m: "m < length bodies" using store i(4) by simp
    have "take (r - m) (drop m bodies) = ?b # take (r - Suc m) (drop (Suc m) bodies)"
      using store i(4) by (metis Cons_nth_drop_Suc Suc_diff_Suc m take_Suc_Cons)
    then obtain x xs' where x: "xs = x # xs'" "carries x m ?b" "carry_all xs' (Suc m) (take (r - Suc m) (drop (Suc m) bodies))"
      using t(9) by (cases xs) auto
    obtain tl where x': "x = (0, int m, int (length ?b), ?b @ tl)" "length (?b @ tl) = 1024"
      using x(2) by (auto simp: carries_def)
    obtain h' where h': "takeUnit hp (cheap d) = Some (Some (mk_unit x), h')" "holds h' hp xs'"
      using takeUnit_oldest [of "cheap d" hp x xs'] t(8) x(1) by auto
    have b: "length ?b \<le> room" using assms(2,3) m by (auto simp: units_ok_def intro: order_trans)
    have int: "in_int32 (int m * 1024)" "in_int32 ((int m + 1) * 1024)"
      using assms(2) m by (auto simp: units_ok_def)
    have off: "length (concat (take m bodies)) = nat (int m * 1024)" using units_before [OF assms(2) m] by simp
    have cat: "concat (take m bodies) @ ?b = concat (take (Suc m) bodies)" using m by (simp add: take_Suc_conv_app_nth)
    let ?d = "d\<lparr>cheap := h', disk := (disk d)(path \<mapsto> concat (take (Suc m) bodies))\<rparr>"
    have "writeFile room i (mk_unit x) (d\<lparr>cheap := h'\<rparr>) = Some (0, [Notify i (int m) 0], ?d)"
      using t(1,4,5,6) i(7) x' b int write_at_end [OF off, of ?b] cat by (simp add: writeFile_def mk_unit_def Let_def)
    then have "writerTurn room i d = Some ([Notify i (int m) 0], ?d)"
      using t(1,3,7) store(1) h'(1) x'(1) by (simp add: writerTurn_def isEofFlag_def mk_unit_def)
    moreover have "downloading i path bodies rest r (Suc m) ?d"
      using t i h'(2) x(3) store by (auto simp: downloading_def)
    ultimately show ?thesis by (rule that) (use store t(1) in auto)
  qed
qed

lemma writerTurn_ex:
  assumes "downloading i path bodies rest r m d" and "units_ok bodies" and "MOCLOUD_DATA_UNIT_LEN \<le> room"
  shows "\<exists>nts d' m'. writerTurn room i d = Some (nts, d') \<and> downloading i path bodies rest r m' d' \<and> m \<le> m' \<and>
    (m < r \<longrightarrow> (\<exists>t. getTask i d' = Some t \<and> writer t = W_LOOP)) \<and>
    (m < r \<and> (\<exists>t. getTask i d = Some t \<and> writer t = W_LOOP) \<longrightarrow> m' = Suc m)"
  by (rule writerTurn_downloading [OF assms]) blast

text \<open>A download starts with an empty buffer and an empty file.\<close>

definition tasks_ready :: "CLIDATA \<Rightarrow> bool" where
  "tasks_ready d \<longleftrightarrow> length (gDwldFileInfo d) = MOCLOUD_DWLD_TASK_MAX_NUM \<and>
     (\<forall>t \<in> set (gDwldFileInfo d). \<exists>hp. pDwldUnitListHead t = Some hp \<and> holds (cheap d) hp [])"

lemma lockFirstFree_found:
  "lockFirstFree ts = Some (Some k, ts') \<Longrightarrow> k < length ts \<and> \<not> writeFileThrMutex (ts ! k) \<and> \<not> isUsing (ts ! k) \<and>
    ts' = map (\<lambda>t. t\<lparr>writeFileThrMutex := True\<rparr>) (take k ts) @ (ts ! k)\<lparr>isUsing := True\<rparr> # drop (Suc k) ts"
  by (induction ts arbitrary: k ts') (auto split: if_splits bind_splits)

lemma cliDataStartDwld_downloading:
  assumes "cliDataStartDwld True 0 True key filesize (Some path) True fid d = Some (0, i, d')"
    and "tasks_ready d" and "disk d path \<in> {None, Some []}" and "0 < filesize"
    and "bursts (unit_msgs i 0 bodies) rest (sockIn d)"
  shows "downloading i path bodies rest 0 0 d'"
proof -
  obtain k ts where k: "lockFirstFree (gDwldFileInfo d) = Some (Some k, ts)"
    using assms(1) by (auto simp: cliDataStartDwld_def Let_def split: if_splits option.splits bind_splits)
  note kf = lockFirstFree_found [OF k]
  have l: "length (gDwldFileInfo d) = 8" "k < 8" "length ts = 8"
    using assms(2) kf by (simp_all add: tasks_ready_def)
  define t where "t = gDwldFileInfo d ! k"
  define e where "e = d\<lparr>gDwldFileInfo := ts\<rparr>"
  have t: "getTask (int k) e = Some (t\<lparr>isUsing := True\<rparr>)" "\<not> writeFileThrMutex t"
    using l kf by (simp_all add: getTask_def t_def e_def rd_def nth_append)
  have e: "length (gDwldFileInfo e) = 8" "disk e = disk d" "sockIn e = sockIn d" "cheap e = cheap d" using l by (simp_all add: e_def)
  have ed: "e\<lparr>disk := disk d\<rparr> = e" by (cases d) (simp add: e_def)
  have "t \<in> set (gDwldFileInfo d)" using l by (simp add: t_def)
  then obtain hp where hp: "pDwldUnitListHead t = Some hp" "holds (cheap d) hp []"
    using assms(2) by (auto simp: tasks_ready_def)
  have set2: "setTask j a (setTask j b e) = setTask j a e" for j a b e by (simp add: setTask_def)
  have setd: "(setTask j a e)\<lparr>disk := f\<rparr> = setTask j a (e\<lparr>disk := f\<rparr>)" for j a e f by (simp add: setTask_def)
  let ?f = "if disk d path = None then (disk d)(path \<mapsto> []) else disk d"
  let ?t = "t\<lparr>isUsing := True, fd := Some path, isStopWriteFileThr := False, thrIdValid := True, writer := W_WAIT,
    fileKey := key, fileLength := filesize, localFilepath := copyStr MOCLOUD_FILEPATH_MAXLEN path, pProgressNotifyFunc := True\<rparr>"
  have "d' = setTask (int k) ?t (e\<lparr>disk := ?f\<rparr>) \<and> i = int k"
    using assms(1) k l(1,2) t e
    by (auto simp: cliDataStartDwld_def insertFileDwldTask_def startWriteFileThr_def set2 setd ed e_def [symmetric] Let_def split: if_splits)
  then show ?thesis
    using assms(3-5) hp l t(2) e by (auto simp: downloading_def)
qed

text \<open>
  The states that the turns of the receiving thread and of the writing thread lead to, in any order;
  \<open>r\<close> counts the units that have been received, \<open>n\<close> of which are sent. A turn of the receiving thread that
  finds nothing more to read goes back to \<open>pselect\<close>.
\<close>

inductive dl_reach :: "int \<Rightarrow> nat \<Rightarrow> CLIDATA \<Rightarrow> nat \<Rightarrow> CLIDATA \<Rightarrow> bool" for i n d0 where
  start: "dl_reach i n d0 0 d0"
| receive: "dl_reach i n d0 r d \<Longrightarrow> r < n \<Longrightarrow> cheap d a = None \<Longrightarrow> length stack = MOCLOUD_DATA_UNIT_LEN \<Longrightarrow>
    recvUnit (Some a) stack d = Some (again, d') \<Longrightarrow> dl_reach i n d0 (if again then Suc r else r) d'"
| store: "dl_reach i n d0 r d \<Longrightarrow> MOCLOUD_DATA_UNIT_LEN \<le> room \<Longrightarrow>
    writerTurn room i d = Some (nts, d') \<Longrightarrow> dl_reach i n d0 r d'"

lemma dl_reach_downloading:
  assumes "dl_reach i (length bodies) d0 r d" and "downloading i path bodies rest 0 0 d0" and "units_ok bodies"
  shows "\<exists>m. downloading i path bodies rest r m d"
  using assms(1)
proof induction
  case start
  then show ?case using assms(2) by blast
next
  case (receive r d a stack again d')
  then obtain m where m: "downloading i path bodies rest r m d" by blast
  show ?case
    by (rule recvUnit_downloading [OF m assms(3) receive.hyps(2-4)]) (use receive.hyps(5) in auto)
next
  case (store r d room nts d')
  then obtain m where m: "downloading i path bodies rest r m d" by blast
  show ?case
    by (rule writerTurn_downloading [OF m assms(3) store.hyps(2)]) (use store.hyps(3) in auto)
qed

text \<open>
  C28. A download writes the file, when the units arrive without gaps inside a unit. From the moment
  \<open>cliDataStartDwld\<close> returns, in every order of the turns of the two threads, no turn accesses memory outside
  the objects and the local file holds the data of the first \<open>m\<close> units in the order of the file. A turn of the
  receiving thread receives the next unit, unless there is a gap in front of it, which it consumes. Two turns
  of the writing thread bring at least one more of the units received to the file, until it holds all of them.
  The socket does not block, so a gap inside a unit is possible; it drops the unit (\<open>gap_drops_unit\<close>).
\<close>

theorem download_delivers:
  assumes "cliDataStartDwld True 0 True key filesize (Some path) True fid d = Some (0, i, d0)"
    and "tasks_ready d" and "disk d path \<in> {None, Some []}" and "0 < filesize"
    and "bursts (unit_msgs i 0 bodies) rest (sockIn d)" and "units_ok bodies"
    and "dl_reach i (length bodies) d0 r e"
  shows "\<exists>m \<le> r. disk e path = Some (concat (take m bodies)) \<and>
    (r < length bodies \<longrightarrow> (\<forall>a stack. cheap e a = None \<and> length stack = MOCLOUD_DATA_UNIT_LEN \<longrightarrow>
       (\<exists>e'. recvUnit (Some a) stack e = Some (\<not> at_gap (sockIn e), e') \<and>
          (at_gap (sockIn e) \<longrightarrow> length (sockIn e') < length (sockIn e))))) \<and>
    (\<forall>room \<ge> MOCLOUD_DATA_UNIT_LEN. \<exists>n1 e1 n2 e2. writerTurn room i e = Some (n1, e1) \<and>
       writerTurn room i e1 = Some (n2, e2) \<and>
       (\<exists>m' \<ge> min (Suc m) r. disk e2 path = Some (concat (take m' bodies))))"
proof -
  obtain m where m: "downloading i path bodies rest r m e"
    using dl_reach_downloading [OF assms(7) cliDataStartDwld_downloading [OF assms(1-5)] assms(6)] by blast
  have "\<exists>n1 e1 n2 e2. writerTurn room i e = Some (n1, e1) \<and> writerTurn room i e1 = Some (n2, e2) \<and>
      (\<exists>m' \<ge> min (Suc m) r. disk e2 path = Some (concat (take m' bodies)))" if room: "MOCLOUD_DATA_UNIT_LEN \<le> room" for room
  proof -
    from writerTurn_ex [OF m assms(6) room] obtain n1 e1 m1 where 1: "writerTurn room i e = Some (n1, e1)"
      "downloading i path bodies rest r m1 e1" "m \<le> m1"
      "m < r \<longrightarrow> (\<exists>t. getTask i e1 = Some t \<and> writer t = W_LOOP)" by (elim exE conjE)
    from writerTurn_ex [OF 1(2) assms(6) room] obtain n2 e2 m2 where 2: "writerTurn room i e1 = Some (n2, e2)"
      "downloading i path bodies rest r m2 e2" "m1 \<le> m2"
      "m1 < r \<and> (\<exists>t. getTask i e1 = Some t \<and> writer t = W_LOOP) \<longrightarrow> m2 = Suc m1" by (elim exE conjE)
    have "min (Suc m) r \<le> m2"
      using 1(3,4) 2(3,4) by (cases "m1 < r") auto
    then show ?thesis using 1(1) 2(1,2) by (auto simp: downloading_def)
  qed
  moreover have "\<exists>e'. recvUnit (Some a) stack e = Some (\<not> at_gap (sockIn e), e') \<and>
      (at_gap (sockIn e) \<longrightarrow> length (sockIn e') < length (sockIn e))"
    if "r < length bodies" "cheap e a = None" "length stack = MOCLOUD_DATA_UNIT_LEN" for a stack
    by (rule recvUnit_downloading [OF m assms(6) that]) blast
  ultimately show ?thesis using m by (intro exI [of _ m]) (auto simp: downloading_def)
qed

section \<open>A second download\<close>

lemma lockFirstFree_locks:
  "lockFirstFree ts = Some (k, ts') \<Longrightarrow> (\<forall>i \<le> j. isUsing (ts ! i)) \<Longrightarrow> j < length ts \<Longrightarrow>
    length ts' = length ts \<and> ts' ! j = (ts ! j)\<lparr>writeFileThrMutex := True\<rparr> \<and> (\<forall>i. k = Some i \<longrightarrow> j < i)"
proof (induction ts arbitrary: j k ts')
  case (Cons t ts)
  have t: "isUsing t" using Cons.prems(2) by force
  then obtain k1 ts1 where 1: "lockFirstFree ts = Some (k1, ts1)" "k = map_option Suc k1" "ts' = t\<lparr>writeFileThrMutex := True\<rparr> # ts1"
    using Cons.prems(1) by (auto split: if_splits bind_splits)
  have l: "length ts1 = length ts" using 1(1) by (induction ts arbitrary: k1 ts1) (auto split: if_splits bind_splits)
  show ?case
  proof (cases j)
    case 0
    then show ?thesis using 1(2,3) l by auto
  next
    case (Suc i)
    then have "\<forall>n \<le> i. isUsing (ts ! n)" "i < length ts" using Cons.prems(2,3) by auto
    then show ?thesis using Cons.IH [OF 1(1)] 1(2,3) Suc by auto
  qed
qed simp

lemma lockFirstFree_blocks:
  "\<forall>i \<le> j. isUsing (ts ! i) \<Longrightarrow> j < length ts \<Longrightarrow> writeFileThrMutex (ts ! j) \<Longrightarrow> lockFirstFree ts = None"
proof (induction ts arbitrary: j)
  case (Cons t ts)
  have "isUsing t" using Cons.prems(1) by force
  moreover have "lockFirstFree ts = None" if "\<not> writeFileThrMutex t"
  proof (cases j)
    case 0
    then show ?thesis using that Cons.prems by simp
  next
    case (Suc n)
    have "\<forall>i \<le> n. isUsing (ts ! i)" using Cons.prems(1) Suc by auto
    then show ?thesis using Cons.IH [of n] Cons.prems(2,3) Suc by simp
  qed
  ultimately show ?case by auto
qed simp

lemma insertFileDwldTask_keeps:
  assumes "insertFileDwldTask opens create early i key filesize p d = Some (ret, d')" and "0 \<le> j" and "j \<noteq> i" and "0 \<le> i"
  shows "getTask j d' = getTask j d" "sockIn d' = sockIn d" "length (gDwldFileInfo d') = length (gDwldFileInfo d)"
  using assms
  by (auto simp: insertFileDwldTask_def startWriteFileThr_def getTask_def setTask_def rd_def nat_eq_iff Let_def
      split: option.splits if_splits bind_splits)

text \<open>A start that gets past its first check leaves the mutex of every task in front of the one it takes locked.\<close>

lemma cliDataStartDwld_locks:
  assumes "cliDataStartDwld opens create early key filesize p notify fid d = Some (ret, i, d')"
    and "ret \<noteq> -1" and "ret \<noteq> -2" and "\<forall>k \<le> j. isUsing (gDwldFileInfo d ! k)" and "j < length (gDwldFileInfo d)"
  shows "getTask (int j) d' = Some ((gDwldFileInfo d ! j)\<lparr>writeFileThrMutex := True\<rparr>) \<and> sockIn d' = sockIn d \<and>
    length (gDwldFileInfo d') = length (gDwldFileInfo d)"
proof -
  obtain k ts where k: "lockFirstFree (gDwldFileInfo d) = Some (k, ts)"
    using assms(1-3) by (auto simp: cliDataStartDwld_def split: if_splits bind_splits)
  note l = lockFirstFree_locks [OF k assms(4,5)]
  let ?d = "d\<lparr>gDwldFileInfo := ts\<rparr>"
  have j: "getTask (int j) ?d = Some ((gDwldFileInfo d ! j)\<lparr>writeFileThrMutex := True\<rparr>)"
    using l assms(5) by (simp add: getTask_def)
  show ?thesis
  proof (cases k)
    case None
    then have "d' = ?d" using assms(1-3) k by (simp add: cliDataStartDwld_def split: if_splits)
    then show ?thesis using j l by simp
  next
    case (Some n)
    obtain r e t where e: "insertFileDwldTask opens create early (int n) key filesize p ?d = Some (r, e)"
      "getTask (int n) e = Some t"
      "d' = setTask (int n) (t\<lparr>isUsing := False\<rparr>) e \<or> d' = setTask (int n) (t\<lparr>pProgressNotifyFunc := notify\<rparr>) e"
      using assms(1-3) k Some by (auto simp: cliDataStartDwld_def Let_def split: if_splits bind_splits)
    have "j < n" using l Some by simp
    then have "getTask (int j) d' = getTask (int j) e" "sockIn d' = sockIn e" "length (gDwldFileInfo d') = length (gDwldFileInfo e)"
      using e(3) by (auto simp: getTask_def setTask_def rd_def)
    then show ?thesis using insertFileDwldTask_keeps [OF e(1), of "int j"] \<open>j < n\<close> j l by simp
  qed
qed

text \<open>
  C29. Two downloads at a time do not work: \<open>cliDataStartDwld\<close> locks the mutexes of the tasks that are in
  use while it looks for a free one, and does not unlock them. After a second start, whatever its result,
  the next unit of the first file, as soon as it is there, blocks the receiving thread for ever, the thread that writes
  the file blocks, and so do the call that would stop this download and every start of another file.
\<close>

theorem second_download_blocks_first:
  assumes "downloading (int j) path bodies rest r m d" and "units_ok bodies" and "\<forall>k < j. isUsing (gDwldFileInfo d ! k)"
    and "cliDataStartDwld opens create early key filesize (Some p) notify fid d = Some (ret, i, d')" and "ret \<noteq> -2"
  shows "(r < length bodies \<and> length stack = MOCLOUD_DATA_UNIT_LEN \<and> \<not> at_gap (sockIn d) \<longrightarrow> recvUnit newNode stack d' = None) \<and>
    (writer (gDwldFileInfo d ! j) = W_LOOP \<longrightarrow> writerTurn room (int j) d' = None) \<and>
    cliDataStopDwld False (int j) d' = None \<and>
    cliDataStartDwld opens' create' early' key' filesize' (Some p') notify' fid' d' \<in> {None, Some (-2, fid', d')}"
proof -
  obtain t hp where t: "getTask (int j) d = Some t" "writer t \<in> {W_WAIT, W_LOOP}" "isUsing t" "thrIdValid t"
    "\<not> isStopWriteFileThr t" "pDwldUnitListHead t = Some hp"
    and i: "j < 8" "length (gDwldFileInfo d) = 8" "bursts (unit_msgs (int j) r (drop r bodies)) rest (sockIn d)"
    using assms(1) unfolding downloading_def by auto
  have tj: "gDwldFileInfo d ! j = t" using t(1) i(1,2) by (simp add: getTask_def)
  have used: "\<forall>k \<le> j. isUsing (gDwldFileInfo d ! k)" using assms(3) t(3) tj by (auto simp: le_less)
  have ret: "ret \<noteq> -1"
    using assms(4) by (auto simp: cliDataStartDwld_def Let_def split: if_splits option.splits bind_splits)
  have locks: "getTask (int k) d' = Some ((gDwldFileInfo d ! k)\<lparr>writeFileThrMutex := True\<rparr>) \<and> sockIn d' = sockIn d \<and>
    length (gDwldFileInfo d') = 8" if "k \<le> j" for k
    using cliDataStartDwld_locks [OF assms(4) ret assms(5), of k] used that i(1,2) by auto
  let ?t = "t\<lparr>writeFileThrMutex := True\<rparr>"
  have j: "getTask (int j) d' = Some ?t" "sockIn d' = sockIn d" using locks [of j] tj by auto
  have "recvUnit newNode stack d' = None" if l: "r < length bodies" "length stack = MOCLOUD_DATA_UNIT_LEN" "\<not> at_gap (sockIn d)"
  proof -
    let ?b = "bodies ! r"
    have b: "length ?b \<le> 1024" "r < 2 ^ 31" using assms(2) l(1) by (auto simp: units_ok_def)
    have i8: "0 \<le> int j" "int j < 8" using i(1) by auto
    note f = unit_header_fields [OF i8 b(2,1), of 0]
    from i(3) l(1) assms(2) i8 l(2) show ?thesis
    proof (cases rule: unit_next)
      case (unit es1 es2)
      then show ?thesis using f j by (simp add: recvUnit_def saveDataToBuffer_def getTask_def)
    qed (use l(3) in simp)
  qed
  moreover have "writerTurn room (int j) d' = None" if "writer t = W_LOOP"
    using that j(1) t(6) by (simp add: writerTurn_def)
  moreover have "cliDataStopDwld False (int j) d' = None"
    using j(1) i(1) t(2-4) locks [of j]
    by (auto simp: cliDataStopDwld_def stopWriteFileThr_def postSem_def joinWriter_def)
  moreover have "lockFirstFree (gDwldFileInfo d') = None"
  proof (rule lockFirstFree_blocks [of j])
    show "\<forall>k \<le> j. isUsing (gDwldFileInfo d' ! k)"
    proof (intro allI impI)
      fix k assume k: "k \<le> j"
      then show "isUsing (gDwldFileInfo d' ! k)" using locks [OF k] used i(1) by (auto simp: getTask_def)
    qed
  qed (use locks [of j] i(1) in \<open>auto simp: getTask_def\<close>)
  then have "cliDataStartDwld opens' create' early' key' filesize' (Some p') notify' fid' d' \<in> {None, Some (-2, fid', d')}"
    by (simp add: cliDataStartDwld_def)
  ultimately show ?thesis using tj by blast
qed

section \<open>Starting the module\<close>

definition head_nodes :: "addr list \<Rightarrow> heap" where
  "head_nodes as = (\<lambda>a. if a \<in> set as then Some headNode else None)"

lemma head_nodes_at: "(h ++ head_nodes as) a = (if a \<in> set as then Some headNode else h a)"
  by (simp add: head_nodes_def map_add_def)

lemma head_nodes_simps [simp]:
  "h(a \<mapsto> headNode) ++ head_nodes as = h ++ head_nodes (a # as)" "h ++ head_nodes [] = h"
  by (auto simp: head_nodes_def map_add_def fun_eq_iff)

lemma initTasks_all:
  assumes "distinct as" and "i + length as \<le> length (gDwldFileInfo d)"
  shows "initTasks (map Some as) i d = (i + length as, d\<lparr>
     gDwldFileInfo := take i (gDwldFileInfo d) @ map (\<lambda>a. noTask\<lparr>pDwldUnitListHead := Some a\<rparr>) as @ drop (i + length as) (gDwldFileInfo d),
     cheap := cheap d ++ head_nodes as\<rparr>)"
  using assms
proof (induction as arbitrary: i d)
  case Nil
  then show ?case by simp
next
  case (Cons a as)
  let ?d = "setTask (int i) (noTask\<lparr>pDwldUnitListHead := Some a\<rparr>) (d\<lparr>cheap := (cheap d)(a \<mapsto> headNode)\<rparr>)"
  have l: "i < length (gDwldFileInfo d)" using Cons.prems(2) by simp
  have t: "take (Suc i) (gDwldFileInfo ?d) = take i (gDwldFileInfo d) @ [noTask\<lparr>pDwldUnitListHead := Some a\<rparr>]"
    using l by (simp add: setTask_def take_Suc_conv_app_nth)
  have r: "drop (Suc (i + length as)) (gDwldFileInfo ?d) = drop (Suc (i + length as)) (gDwldFileInfo d)"
    by (simp add: setTask_def)
  have "initTasks (map Some as) (i + 1) ?d = (i + 1 + length as, ?d\<lparr>
     gDwldFileInfo := take (i + 1) (gDwldFileInfo ?d) @ map (\<lambda>a. noTask\<lparr>pDwldUnitListHead := Some a\<rparr>) as @ drop (i + 1 + length as) (gDwldFileInfo ?d),
     cheap := cheap ?d ++ head_nodes as\<rparr>)"
    by (rule Cons.IH) (use Cons.prems in simp_all)
  then show ?case using t r by (simp add: setTask_def)
qed

lemma initTasks_stop: "initTasks (map Some as @ None # hs) i d = initTasks (map Some as) i d"
  by (induction as arbitrary: i d) simp_all

lemma initTasks_keeps:
  "dataSocks (snd (initTasks hs i d)) = dataSocks d \<and> recvThr (snd (initTasks hs i d)) = recvThr d \<and>
   gIsInited (snd (initTasks hs i d)) = gIsInited d \<and> gDataSockId (snd (initTasks hs i d)) = gDataSockId d \<and>
   disk (snd (initTasks hs i d)) = disk d \<and> sockIn (snd (initTasks hs i d)) = sockIn d"
  by (induction hs i d rule: initTasks.induct) simp_all

text \<open>What the calls for the socket and the thread return when all goes well.\<close>

definition sock_ok :: "(string \<Rightarrow> 32 word option) \<Rightarrow> SOCKENV \<Rightarrow> string \<Rightarrow> int \<Rightarrow> bool" where
  "sock_ok inet_aton e ip port \<longleftrightarrow> inet_aton ip \<noteq> None \<and> 1024 \<le> port \<and> port \<le> 65535 \<and> 0 \<le> sk_socket e \<and>
     sk_setsockopt e = 0 \<and> sk_bind e = 0 \<and> sk_connect e = 0"

lemma sock_ok_create: "sock_ok inet_aton e ip port \<Longrightarrow>
    createSocket inet_aton e ip port s socks = (0, sk_socket e, sk_socket e # socks) \<and> connectToServer e = 0"
  by (simp add: sock_ok_def createSocket_def connectToServer_def isValidIpAddr_def isValidUserPort_def
      setSockReusable_def setSock2NonBlock_def)

lemma cliDataInit_ready:
  assumes "sock_ok inet_aton e ip port" and "\<not> gIsInited d" and "distinct as" and "length as = MOCLOUD_DWLD_TASK_MAX_NUM"
  obtains d' where "cliDataInit inet_aton e 0 (map Some as) ip port d = (0, d')" and "tasks_ready d'"
    and "gIsInited d'" and "disk d' = disk d" and "sockIn d' = sockIn d"
    and "gDwldFileInfo d' = map (\<lambda>a. noTask\<lparr>pDwldUnitListHead := Some a\<rparr>) as"
    and "cheap d' = cheap d ++ head_nodes as"
proof -
  let ?d = "d\<lparr>gDataSockId := sk_socket e, dataSocks := sk_socket e # dataSocks d, recvThr := True,
    gDwldFileInfo := replicate MOCLOUD_DWLD_TASK_MAX_NUM noTask\<rparr>"
  let ?d' = "(snd (initTasks (map Some as) 0 ?d))\<lparr>gIsInited := True\<rparr>"
  have i: "initTasks (map Some as) 0 ?d = (8, ?d\<lparr>gDwldFileInfo := map (\<lambda>a. noTask\<lparr>pDwldUnitListHead := Some a\<rparr>) as,
      cheap := cheap d ++ head_nodes as\<rparr>)"
    using initTasks_all [OF assms(3), of 0 ?d] assms(4) by simp
  have "cliDataInit inet_aton e 0 (map Some as) ip port d = (0, ?d')"
    using sock_ok_create [OF assms(1)] assms(1,2) i
    by (simp add: cliDataInit_def sock_ok_def startRecvDataThr_def startThread_def Let_def split: prod.split)
  moreover have "tasks_ready ?d'"
    using i assms(4) by (auto simp: tasks_ready_def head_nodes_at intro!: holds_headNode)
  ultimately show ?thesis using i by (intro that [of ?d']) simp_all
qed

text \<open>
  When one of the eight allocations of \<open>cliDataInit\<close> fails, the function reports the error but
  keeps everything it has acquired: the socket stays open, the receiving thread runs, and the heads stay
  allocated. \<open>cliDataUnInit\<close> then does nothing.
\<close>

theorem cliDataInit_failure_leaks:
  assumes "sock_ok inet_aton e ip port" and "\<not> gIsInited d" and "distinct as" and "length as < MOCLOUD_DWLD_TASK_MAX_NUM"
  shows "\<exists>d'. cliDataInit inet_aton e 0 (map Some as @ None # hs) ip port d = (-5, d') \<and>
    sk_socket e \<in> set (dataSocks d') \<and> recvThr d' \<and> (\<forall>a \<in> set as. cheap d' a = Some headNode) \<and>
    cliDataUnInit probe sig join d' = Some d'"
proof -
  let ?d = "d\<lparr>gDataSockId := sk_socket e, dataSocks := sk_socket e # dataSocks d, recvThr := True,
    gDwldFileInfo := replicate MOCLOUD_DWLD_TASK_MAX_NUM noTask\<rparr>"
  let ?d' = "snd (initTasks (map Some as @ None # hs) 0 ?d)"
  have i: "fst (initTasks (map Some as @ None # hs) 0 ?d) = length as"
    "\<forall>a \<in> set as. cheap ?d' a = Some headNode"
    using initTasks_all [OF assms(3), of 0 ?d] assms(4) by (simp_all add: initTasks_stop head_nodes_at)
  have "cliDataInit inet_aton e 0 (map Some as @ None # hs) ip port d = (-5, ?d')"
    using sock_ok_create [OF assms(1)] assms(1,2,4) i(1)
    by (auto simp add: cliDataInit_def sock_ok_def startRecvDataThr_def startThread_def Let_def split: prod.split)
  then show ?thesis
    using i(2) assms(2) initTasks_keeps [of "map Some as @ None # hs" 0 ?d] by (simp add: cliDataUnInit_def)
qed

definition sample_sock :: SOCKENV where
  "sample_sock = \<lparr>sk_socket = 5, sk_setsockopt = 0, sk_bind = 0, sk_connect = 0, sk_inProgress = False, sk_select = 0,
     sk_wFdSet = False, sk_rFdSet = False, sk_getsockopt = 0, sk_err = 0\<rparr>"

definition sample_data :: "recv_event list \<Rightarrow> CLIDATA" where
  "sample_data es = \<lparr>gDataSockId = -1, gIsInited = False, recvThr = False, gDwldFileInfo = [], cheap = Map.empty,
     sockIn = es, dataSocks = [], disk = Map.empty\<rparr>"

lemma sample_sock_ok: "sock_ok (\<lambda>_. Some 0) sample_sock ''127.0.0.1'' 4111"
  by (simp add: sock_ok_def sample_sock_def)

theorem cliDataInit_failure_leaks_witness:
  "\<exists>d'. cliDataInit (\<lambda>_. Some 0) sample_sock 0 [Some 1, Some 2, None] ''127.0.0.1'' 4111 (sample_data []) = (-5, d') \<and>
    5 \<in> set (dataSocks d') \<and> cliDataUnInit 0 0 0 d' = Some d'"
  using cliDataInit_failure_leaks [OF sample_sock_ok, of "sample_data []" "[1, 2]" "[]" 0 0 0]
  by (auto simp: sample_data_def sample_sock_def)

lemma sample_started:
  obtains d d0 where "cliDataStartDwld True 0 True \<lparr>filetype = 1, filename = ''a''\<rparr> 1 (Some ''f'') True 0 d = Some (0, 0, d0)"
    and "tasks_ready d" and "disk d ''f'' = None" and "sockIn d = es" and "sockIn d0 = es"
    and "cheap d0 = Map.empty ++ head_nodes [1, 2, 3, 4, 5, 6, 7, 8]"
proof -
  obtain d where d: "tasks_ready d" "disk d = Map.empty" "sockIn d = es"
    "gDwldFileInfo d = map (\<lambda>a. noTask\<lparr>pDwldUnitListHead := Some a\<rparr>) [1, 2, 3, 4, 5, 6, 7, 8]"
    "cheap d = Map.empty ++ head_nodes [1, 2, 3, 4, 5, 6, 7, 8]"
    using cliDataInit_ready [OF sample_sock_ok, of "sample_data es" "[1, 2, 3, 4, 5, 6, 7, 8]"]
    by (auto simp: sample_data_def)
  obtain d0 where "cliDataStartDwld True 0 True \<lparr>filetype = 1, filename = ''a''\<rparr> 1 (Some ''f'') True 0 d = Some (0, 0, d0)"
    "cheap d0 = cheap d" "sockIn d0 = sockIn d"
    using d(2,4) by (simp add: cliDataStartDwld_def insertFileDwldTask_def startWriteFileThr_def getTask_def setTask_def noTask_def Let_def)
  then show ?thesis using d by (intro that [of d d0]) auto
qed

theorem second_download_blocks_first_witness:
  "\<exists>d0 d'. cliDataStartDwld True 0 True \<lparr>filetype = 1, filename = ''b''\<rparr> 1 (Some ''g'') True 0 d0 = Some (0, 1, d') \<and>
    recvUnit (Some 9) (replicate 1024 0) d' = None \<and> cliDataStopDwld False 0 d' = None"
proof -
  let ?es = "[Arrive (concat (unit_msgs 0 0 [[65]]))]"
  have c: "bursts (unit_msgs 0 0 [[65]]) [] ?es" by (rule bursts.last) (simp_all add: dhdr_bytes_def)
  have na: "\<not> at_gap ?es" by simp
  obtain d where d: "tasks_ready d" "disk d = Map.empty" "sockIn d = ?es"
    "gDwldFileInfo d = map (\<lambda>a. noTask\<lparr>pDwldUnitListHead := Some a\<rparr>) [1, 2, 3, 4, 5, 6, 7, 8]"
    using cliDataInit_ready [OF sample_sock_ok, of "sample_data ?es" "[1, 2, 3, 4, 5, 6, 7, 8]"]
    by (auto simp: sample_data_def)
  note defs = cliDataStartDwld_def insertFileDwldTask_def startWriteFileThr_def getTask_def setTask_def noTask_def Let_def
  obtain d0 where d0: "cliDataStartDwld True 0 True \<lparr>filetype = 1, filename = ''a''\<rparr> 1 (Some ''f'') True 0 d = Some (0, 0, d0)"
    and d': "\<exists>d'. cliDataStartDwld True 0 True \<lparr>filetype = 1, filename = ''b''\<rparr> 1 (Some ''g'') True 0 d0 = Some (0, 1, d')"
    using d(2,4) by (simp add: defs)
  then obtain d' where d': "cliDataStartDwld True 0 True \<lparr>filetype = 1, filename = ''b''\<rparr> 1 (Some ''g'') True 0 d0 = Some (0, 1, d')"
    by blast
  have dl: "downloading (int 0) ''f'' [[65]] [] 0 0 d0"
    by (rule cliDataStartDwld_downloading) (use d0 d(1-3) c in auto)
  have "sockIn d0 = ?es" using d0 d(3) d(2,4) by (auto simp: defs)
  have "recvUnit (Some 9) (replicate 1024 0) d' = None \<and> cliDataStopDwld False 0 d' = None"
    using second_download_blocks_first [OF dl _ _ d', of "replicate 1024 0" "Some 9"] na \<open>sockIn d0 = ?es\<close> by (auto simp: units_ok_def)
  then show ?thesis using d' by blast
qed

text \<open>A gap, the only unit of the file, and the two turns that write it.\<close>

theorem download_delivers_witness:
  "\<exists>d0 e n1 e1 n2 e2. dl_reach 0 1 d0 1 e \<and> writerTurn 1024 0 e = Some (n1, e1) \<and> writerTurn 1024 0 e1 = Some (n2, e2) \<and>
    disk e2 ''f'' = Some [65]"
proof -
  let ?arrive = "[Arrive (concat (unit_msgs 0 0 [[65]]))]"
  let ?es = "[] @ Recv_err EAGAIN # ?arrive"
  have c: "bursts (unit_msgs 0 0 [[65]]) [] ?es"
    by (intro bursts.gap bursts.last) (simp_all add: dhdr_bytes_def)
  obtain d d0 where d: "cliDataStartDwld True 0 True \<lparr>filetype = 1, filename = ''a''\<rparr> 1 (Some ''f'') True 0 d = Some (0, 0, d0)"
    "tasks_ready d" "disk d ''f'' = None" "sockIn d = ?es" "sockIn d0 = ?es"
    "cheap d0 = Map.empty ++ head_nodes [1, 2, 3, 4, 5, 6, 7, 8]"
    by (rule sample_started)
  have u: "units_ok [[65]]" by (simp add: units_ok_def)
  have th: "dl_reach 0 1 d0 r e \<Longrightarrow> \<exists>m \<le> r. disk e ''f'' = Some (concat (take m [[65]])) \<and>
    (r < 1 \<longrightarrow> (\<forall>a stack. cheap e a = None \<and> length stack = MOCLOUD_DATA_UNIT_LEN \<longrightarrow>
       (\<exists>e'. recvUnit (Some a) stack e = Some (\<not> at_gap (sockIn e), e') \<and> (at_gap (sockIn e) \<longrightarrow> length (sockIn e') < length (sockIn e))))) \<and>
    (\<forall>room \<ge> MOCLOUD_DATA_UNIT_LEN. \<exists>n1 e1 n2 e2. writerTurn room 0 e = Some (n1, e1) \<and> writerTurn room 0 e1 = Some (n2, e2) \<and>
       (\<exists>m' \<ge> min (Suc m) r. disk e2 ''f'' = Some (concat (take m' [[65]]))))" for r e
    using download_delivers [OF d(1,2), of "[[65]]" "[]" r e] d(3,4) c u by auto
  have free: "cheap d0 9 = None" using d(6) by (auto simp: head_nodes_def)
  let ?d1 = "d0\<lparr>sockIn := ?arrive\<rparr>"
  obtain h where "getDataHeader (sockIn d0) = Some (-2, h, ?arrive)" using getDataHeader_gap [of "[]" ?arrive] d(5) by auto
  then have "recvUnit (Some 9) (replicate 1024 0) d0 = Some (False, ?d1)" by (simp add: recvUnit_def)
  from dl_reach.receive [OF dl_reach.start _ free _ this, of 1] have r1: "dl_reach 0 1 d0 0 ?d1" by simp
  have "\<exists>e'. recvUnit (Some 9) (replicate 1024 0) ?d1 = Some (True, e')"
    using th [OF r1] free by auto
  then obtain e where "recvUnit (Some 9) (replicate 1024 0) ?d1 = Some (True, e)" by blast
  from dl_reach.receive [OF r1 _ _ _ this] have r2: "dl_reach 0 1 d0 1 e" using free by simp
  from th [OF r2] obtain m where "\<forall>room \<ge> MOCLOUD_DATA_UNIT_LEN. \<exists>n1 e1 n2 e2. writerTurn room 0 e = Some (n1, e1) \<and>
      writerTurn room 0 e1 = Some (n2, e2) \<and> (\<exists>m' \<ge> min (Suc m) 1. disk e2 ''f'' = Some (concat (take m' [[65]])))" by blast
  then obtain n1 e1 n2 e2 m' where w: "writerTurn 1024 0 e = Some (n1, e1)" "writerTurn 1024 0 e1 = Some (n2, e2)"
    "min (Suc m) 1 \<le> m'" "disk e2 ''f'' = Some (concat (take m' [[65]]))" by (meson order_refl)
  then have "disk e2 ''f'' = Some [65]" by (cases m') auto
  then show ?thesis using r2 w(1,2) by blast
qed

section \<open>Units that no download asked for\<close>

text \<open>
  C30. Nothing of a header is checked but its mark and its checksum, for which every byte 10 is good:
  a unit with more than 1024 bytes of data, or for a file number out of range, makes the receiving
  thread write behind its array or read behind the eight tasks.
\<close>

theorem hostile_unit_undefined:
  assumes "good_dhdr h" and "clean (sockIn d)" and "stream (sockIn d) = dhdr_bytes h @ bd @ rest"
    and "sint (dh_bodyLen h) = int (length bd)" and "length stack = MOCLOUD_DATA_UNIT_LEN"
    and "length (gDwldFileInfo d) = MOCLOUD_DWLD_TASK_MAX_NUM"
    and "MOCLOUD_DATA_UNIT_LEN < length bd \<or> sint (dh_fileId h) < 0 \<or> int MOCLOUD_DWLD_TASK_MAX_NUM \<le> sint (dh_fileId h)"
  shows "recvUnit newNode stack d = None"
proof -
  obtain es where es: "getDataHeader (sockIn d) = Some (0, h, es)" "clean es" "stream es = bd @ rest"
    using getDataHeader_good [OF assms(1,2,3)] by auto
  show ?thesis
  proof (cases "MOCLOUD_DATA_UNIT_LEN < length bd")
    case True
    have "readn es stack (int (length bd)) = None"
      by (rule readn_overflow) (use es True assms(5) in auto)
    then show ?thesis using es(1) assms(4) by (simp add: recvUnit_def)
  next
    case False
    then obtain es2 where "readn es stack (int (length bd)) = Some (int (length bd), bd @ drop (length bd) stack, es2)"
      using readn_clean [OF es(2), of "length bd" stack] es(3) assms(5) by auto
    moreover have "getTask (sint (dh_fileId h)) e = None" if "gDwldFileInfo e = gDwldFileInfo d" for e
      using assms(6,7) False that by (auto simp: getTask_def)
    ultimately show ?thesis using es(1) assms(4) by (simp add: recvUnit_def saveDataToBuffer_def)
  qed
qed

theorem hostile_unit_undefined_witness:
  "recvUnit (Some 9) (replicate 1024 0) ((sample_data [Arrive (dhdr_bytes (unit_header 8 0 0 0))])
     \<lparr>gDwldFileInfo := replicate 8 noTask\<rparr>) = None"
proof (rule hostile_unit_undefined [of "unit_header 8 0 0 0" _ "[]" "[]"])
  show "clean (sockIn ((sample_data [Arrive (dhdr_bytes (unit_header 8 0 0 0))])\<lparr>gDwldFileInfo := replicate 8 noTask\<rparr>))"
    by (simp add: sample_data_def dhdr_bytes_def)
qed (simp_all add: good_dhdr_def unit_header_def mark_field_def sample_data_def)

lemma foldM_stay: "(\<And>x. x \<in> set xs \<Longrightarrow> f x s = Some s) \<Longrightarrow> foldM f xs s = Some s"
  by (induction xs) auto

lemma getTask_recvThr [simp]: "getTask i (d\<lparr>recvThr := b\<rparr>) = getTask i d"
  by (simp add: getTask_def)

lemma stopTasks_idle:
  assumes "\<And>i. i < 8 \<Longrightarrow> \<exists>t. getTask (int i) d = Some t \<and> \<not> thrIdValid t"
  shows "foldM (\<lambda>i d. map_option snd (stopWriteFileThr False (int i) d)) [0..<8] d = Some d"
  by (rule foldM_stay) (use assms in \<open>fastforce simp: stopWriteFileThr_def\<close>)

text \<open>
  The loop that frees the buffers, on heads \<open>as\<close> of which only the one of task \<open>i\<close> has a node \<open>a\<close>: it is
  undefined when it gets there.
\<close>

lemma freeTasks_ring:
  assumes "distinct (a # as)" and "length as = 8" and "i < 8"
    and "\<And>j. j < 8 \<Longrightarrow> \<exists>t. getTask (int j) d = Some t \<and> pDwldUnitListHead t = Some (as ! j)"
    and "\<And>j. j < 8 \<Longrightarrow> j \<noteq> i \<Longrightarrow> cheap d (as ! j) = Some headNode" and "ring (cheap d) (as ! i) [a]"
  shows "foldM freeTask [0..<8] d = None"
proof -
  let ?I = "\<lambda>k e. (\<forall>j. k \<le> j \<and> j < 8 \<longrightarrow> getTask (int j) e = getTask (int j) d) \<and>
    (\<forall>j. k \<le> j \<and> j < 8 \<and> j \<noteq> i \<longrightarrow> cheap e (as ! j) = Some headNode) \<and> ring (cheap e) (as ! i) [a]"
  have "\<exists>e. foldM freeTask [0..<i] d = Some e \<and> ?I i e"
  proof (rule foldM_range_inv [where I = "?I"])
    show "?I 0 d" using assms(5,6) by auto
    fix k e
    assume k: "0 \<le> k" "k < i" and I: "?I k e"
    obtain t where t: "getTask (int k) e = Some t" "pDwldUnitListHead t = Some (as ! k)"
      using assms(3) assms(4) [of k] I k(2) by auto
    have hk: "cheap e (as ! k) = Some headNode" using I k assms(3) by auto
    have "as ! k \<in> set as" "as ! i \<in> set as" using k assms(2,3) by auto
    then have ne: "as ! k \<noteq> a" "as ! k \<noteq> as ! i" using assms(1-3) k by (auto simp: nth_eq_iff_index_eq)
    have free: "freeUnits (as ! k) (cheap e) = Some ((cheap e)(as ! k := None))"
      using hk by (simp add: freeUnits_def headNode_def)
    let ?e = "setTask (int k) (t\<lparr>isUsing := False, thrIdValid := False, writeFileThrsem := 0, writeFileThrMutex := False, pDwldUnitListHead := None\<rparr>)
      (e\<lparr>cheap := (cheap e)(as ! k := None)\<rparr>)"
    have "freeTask k e = Some ?e" using t free by (simp add: freeTask_def)
    moreover have "getTask (int j) ?e = getTask (int j) e" if "Suc k \<le> j" for j
      using that by (simp add: getTask_def setTask_def rd_def)
    moreover have "((cheap e)(as ! k := None)) (as ! j) = cheap e (as ! j)" if "Suc k \<le> j" "j < 8" for j
      using that assms(1,2) by (auto simp: nth_eq_iff_index_eq)
    moreover have "ring ((cheap e)(as ! k := None)) (as ! i) [a]"
      using I ne by (auto simp: ring_def split: option.splits)
    ultimately show "\<exists>e'. freeTask k e = Some e' \<and> ?I (Suc k) e'" using I by auto
  qed simp
  then obtain e where e: "foldM freeTask [0..<i] d = Some e" "?I i e" by blast
  obtain t where t: "getTask (int i) e = Some t" "pDwldUnitListHead t = Some (as ! i)"
    using e(2) assms(3) assms(4) [of i] by auto
  have "freeTask i e = None" using t e(2) freeUnits_ring [of "cheap e" "as ! i" "[a]"] by (simp add: freeTask_def)
  moreover have "[0..<8] = [0..<i] @ i # [Suc i..<8]"
    using upt_add_eq_append [of 0 i "8 - i"] upt_conv_Cons [of i 8] assms(3) by simp
  ultimately show ?thesis using e(1) by simp
qed

text \<open>
  A unit for a task that nobody has started is accepted: the flag that would refuse it is cleared at
  first. No thread ever takes it from the buffer, and \<open>cliDataUnInit\<close>, whose loop takes the ring for a list
  that ends with \<open>NULL\<close>, frees the nodes and then follows a link of a freed one.
\<close>

theorem unasked_unit_breaks_uninit:
  assumes "sock_ok inet_aton e ip port" and "\<not> gIsInited d0" and "distinct (a # as)"
    and "length as = MOCLOUD_DWLD_TASK_MAX_NUM" and "cheap d0 a = None"
    and "cliDataInit inet_aton e 0 (map Some as) ip port d0 = (0, d)"
    and "good_dhdr h" and "clean (sockIn d0)" and "stream (sockIn d0) = dhdr_bytes h @ bd @ rest"
    and "sint (dh_bodyLen h) = int (length bd)" and "length bd \<le> MOCLOUD_DATA_UNIT_LEN"
    and "0 \<le> sint (dh_fileId h)" and "sint (dh_fileId h) < int MOCLOUD_DWLD_TASK_MAX_NUM"
    and "length stack = MOCLOUD_DATA_UNIT_LEN"
  shows "\<exists>d'. recvUnit (Some a) stack d = Some (True, d') \<and> cliDataUnInit probe sig join d' = None"
proof -
  have d: "gIsInited d" "sockIn d = sockIn d0"
    "gDwldFileInfo d = map (\<lambda>a. noTask\<lparr>pDwldUnitListHead := Some a\<rparr>) as" "cheap d = cheap d0 ++ head_nodes as"
    using cliDataInit_ready [OF assms(1,2), of as] assms(3,4,6) by auto
  define i where "i = nat (sint (dh_fileId h))"
  have i: "i < 8" "sint (dh_fileId h) = int i" using assms(12,13) by (auto simp: i_def)
  obtain es where es: "getDataHeader (sockIn d) = Some (0, h, es)" "clean es" "stream es = bd @ rest"
    using getDataHeader_good [OF assms(7,8,9)] d(2) by auto
  let ?body = "bd @ drop (length bd) stack"
  obtain es2 where es2: "readn es stack (int (length bd)) = Some (int (length bd), ?body, es2)"
    using readn_clean [OF es(2), of "length bd" stack] es(3) assms(11,14) by auto
  have task: "getTask (int j) d = Some (noTask\<lparr>pDwldUnitListHead := Some (as ! j)\<rparr>)" if "j < 8" for j
    using that d(3) assms(4) by (simp add: getTask_def)
  have heads: "cheap d (as ! j) = Some headNode" if "j < 8" for j using that d(4) assms(4) by (simp add: head_nodes_at)
  let ?info = "\<lparr>isEof = dh_isEof h, isUsed = True, unitId = sint (dh_unitId h), bodyLen = sint (dh_bodyLen h), body = ?body\<rparr>"
  let ?h = "(cheap d)(as ! i \<mapsto> headNode\<lparr>nd_next := Some a, nd_prev := Some a\<rparr>,
      a \<mapsto> \<lparr>dataUnitInfo = ?info, nd_prev = Some (as ! i), nd_next = Some (as ! i)\<rparr>)"
  let ?d = "setTask (int i) (noTask\<lparr>pDwldUnitListHead := Some (as ! i), writeFileThrsem := 1\<rparr>) (d\<lparr>sockIn := es2, cheap := ?h\<rparr>)"
  have ins: "insertUnit (as ! i) (Some a) ?info (cheap d) = Some (0, ?h)"
    using heads [OF i(1)] by (simp add: insertUnit_def headNode_def)
  have "length ?body = 1024" using assms(11,14) by simp
  then have save: "saveDataToBuffer (Some a) h ?body (d\<lparr>sockIn := es2\<rparr>) = Some (0, d\<lparr>sockIn := es2, cheap := ?h\<rparr>)"
    using task [OF i(1)] i(2) ins by (simp add: saveDataToBuffer_def noTask_def)
  then have recv: "recvUnit (Some a) stack d = Some (True, ?d)"
    using es(1) es2 assms(10) task [OF i(1)] i(2) by (simp add: recvUnit_def postSem_def noTask_def)
  define d2 where "d2 = ?d"
  have tasks: "\<exists>t. getTask (int j) d2 = Some t \<and> \<not> thrIdValid t \<and> pDwldUnitListHead t = Some (as ! j)" if "j < 8" for j
    using task [OF that] that d(3) assms(4) unfolding d2_def by (cases "j = i") (auto simp: getTask_def setTask_def noTask_def)
  have ai: "as ! j \<noteq> a" if "j < 8" for j using that assms(3,4) by (auto simp: in_set_conv_nth)
  have heads2: "cheap d2 (as ! j) = Some headNode" if "j < 8" "j \<noteq> i" for j
    using that heads [OF that(1)] ai [OF that(1)] assms(3,4) i(1) unfolding d2_def by (simp add: nth_eq_iff_index_eq)
  have ring2: "ring (cheap d2) (as ! i) [a]" using ai [OF i(1)] unfolding d2_def by (simp add: ring_def)
  have free: "foldM freeTask [0..<8] x = None" if x: "cheap x = cheap d2" "\<And>j. getTask j x = getTask j d2" for x
  proof (rule freeTasks_ring [OF assms(3) _ i(1) _ _ ring2 [folded x(1)]])
    show "\<exists>t. getTask (int j) x = Some t \<and> pDwldUnitListHead t = Some (as ! j)" if "j < 8" for j
      using tasks [OF that] x(2) by auto
    show "cheap x (as ! j) = Some headNode" if "j < 8" "j \<noteq> i" for j using heads2 [OF that] x(1) by simp
  qed (use assms(4) in simp)
  have stop: "foldM (\<lambda>i d. map_option snd (stopWriteFileThr False (int i) d)) [0..<8] x = Some x"
    if x: "\<And>j. getTask j x = getTask j d2" for x
  proof (rule stopTasks_idle)
    show "\<exists>t. getTask (int k) x = Some t \<and> \<not> thrIdValid t" if "k < 8" for k using tasks [OF that] x by auto
  qed
  have "gIsInited d2" using d(1) by (simp add: d2_def)
  then have "cliDataUnInit probe sig join d2 = None"
    using stop [of d2] stop [of "d2\<lparr>recvThr := False\<rparr>"] free [of d2] free [of "d2\<lparr>recvThr := False\<rparr>"]
    by (auto simp: cliDataUnInit_def stopRecvDataThr_def)
  then show ?thesis using recv unfolding d2_def by blast
qed

theorem unasked_unit_breaks_uninit_witness:
  "\<exists>d d'. cliDataInit (\<lambda>_. Some 0) sample_sock 0 (map Some [1, 2, 3, 4, 5, 6, 7, 8]) ''127.0.0.1'' 4111
      (sample_data [Arrive (dhdr_bytes (unit_header 3 0 0 0))]) = (0, d) \<and>
    recvUnit (Some 9) (replicate 1024 0) d = Some (True, d') \<and> cliDataUnInit 0 0 0 d' = None"
proof -
  let ?s = "sample_data [Arrive (dhdr_bytes (unit_header 3 0 0 0))]"
  have c: "clean (sockIn ?s)" by (simp add: sample_data_def dhdr_bytes_def)
  obtain d where d: "cliDataInit (\<lambda>_. Some 0) sample_sock 0 (map Some [1, 2, 3, 4, 5, 6, 7, 8]) ''127.0.0.1'' 4111 ?s = (0, d)"
    using cliDataInit_ready [OF sample_sock_ok, of ?s "[1, 2, 3, 4, 5, 6, 7, 8]"] by (auto simp: sample_data_def)
  have "\<exists>d'. recvUnit (Some 9) (replicate 1024 0) d = Some (True, d') \<and> cliDataUnInit 0 0 0 d' = None"
    by (rule unasked_unit_breaks_uninit [OF sample_sock_ok _ _ _ _ d, where h = "unit_header 3 0 0 0" and bd = "[]" and rest = "[]"])
      (use c in \<open>simp_all add: sample_data_def good_dhdr_def unit_header_def mark_field_def\<close>)
  then show ?thesis using d by blast
qed

end
