(* ===== verification/MoCloudCtrl.thy ===== *)
theory MoCloudCtrl
  imports MoCloudUtils MoIni
begin

text \<open>
  The control side of the cloud client, from
  \<open>moProject/moCloud/moCloudClientLib/src/moCloudClientLib.c\<close>: configuration, requests and responses,
  key agreement, heartbeats, accounts, and the list of files. (The downloads are in \<open>MoCloudTasks\<close>, starting
  and stopping the client in \<open>MoCloudClient\<close>.)

  What the system does is an argument: \<open>sel\<close> are the results of \<open>select\<close> in the turns of a loop, a Boolean
  says whether \<open>malloc\<close> succeeds, a number how many of a loop's calls of \<open>malloc\<close> succeed. A C string is a
  string without its end. The threads and the functions of the interface run one after the other.
\<close>

section \<open>Messages\<close>

abbreviation (input) MOCLOUD_CMDID_KEYAGREE :: u32 where "MOCLOUD_CMDID_KEYAGREE \<equiv> 0"
abbreviation (input) MOCLOUD_CMDID_HEARTBEAT :: u32 where "MOCLOUD_CMDID_HEARTBEAT \<equiv> 10"
abbreviation (input) MOCLOUD_CMDID_SIGNUP :: u32 where "MOCLOUD_CMDID_SIGNUP \<equiv> 11"
abbreviation (input) MOCLOUD_CMDID_LOGIN :: u32 where "MOCLOUD_CMDID_LOGIN \<equiv> 12"
abbreviation (input) MOCLOUD_CMDID_LOGOUT :: u32 where "MOCLOUD_CMDID_LOGOUT \<equiv> 13"
abbreviation (input) MOCLOUD_CMDID_BYEBYE :: u32 where "MOCLOUD_CMDID_BYEBYE \<equiv> 14"
abbreviation (input) MOCLOUD_CMDID_GETFILELIST :: u32 where "MOCLOUD_CMDID_GETFILELIST \<equiv> 20"
abbreviation (input) MOCLOUD_CMDID_DWLD_START :: u32 where "MOCLOUD_CMDID_DWLD_START \<equiv> 31"
abbreviation (input) MOCLOUD_CMDID_DWLD_STOP :: u32 where "MOCLOUD_CMDID_DWLD_STOP \<equiv> 33"
abbreviation (input) MOCLOUD_REQUEST_TYPE_NEED_RESPONSE :: u32 where "MOCLOUD_REQUEST_TYPE_NEED_RESPONSE \<equiv> 1"
abbreviation (input) MOCLOUD_CRYPT_ALGO_RSA :: u32 where "MOCLOUD_CRYPT_ALGO_RSA \<equiv> 4"

abbreviation (input) MOCLOUDCLIENT_ERR_INPUT_NULL :: int where "MOCLOUDCLIENT_ERR_INPUT_NULL \<equiv> -1"
abbreviation (input) MOCLOUDCLIENT_ERR_MALLOC_FAILED :: int where "MOCLOUDCLIENT_ERR_MALLOC_FAILED \<equiv> -8"
abbreviation (input) MOCLOUDCLIENT_ERR_INPUT_INVALID :: int where "MOCLOUDCLIENT_ERR_INPUT_INVALID \<equiv> -9"
abbreviation (input) MOCLOUDCLIENT_ERR_INTERNAL_ERROR :: int where "MOCLOUDCLIENT_ERR_INTERNAL_ERROR \<equiv> -10"
abbreviation (input) MOCLOUDCLIENT_ERR_SEND_REQUEST :: int where "MOCLOUDCLIENT_ERR_SEND_REQUEST \<equiv> -11"
abbreviation (input) MOCLOUDCLIENT_ERR_GETRESP_FAILED :: int where "MOCLOUDCLIENT_ERR_GETRESP_FAILED \<equiv> -12"

abbreviation (input) CTRL_CMD_TIMEOUT :: nat where "CTRL_CMD_TIMEOUT \<equiv> 3"
abbreviation (input) sizeof_CTRL_REQUEST :: nat where "sizeof_CTRL_REQUEST \<equiv> 48"
abbreviation (input) sizeof_CTRL_RESPONSE :: nat where "sizeof_CTRL_RESPONSE \<equiv> 48"
abbreviation (input) sizeof_KEYAGREE_REQUEST :: nat where "sizeof_KEYAGREE_REQUEST \<equiv> 24"
abbreviation (input) sizeof_CLOUD_KEYAGREE_RESPONSE :: nat where "sizeof_CLOUD_KEYAGREE_RESPONSE \<equiv> 292"
abbreviation (input) sizeof_BASIC_FILEINFO :: nat where "sizeof_BASIC_FILEINFO \<equiv> 312"

record MOCLOUD_CTRL_REQUEST =
  cq_mark :: "byte list"
  cq_isNeedResp :: u32
  cq_cmdId :: u32
  cq_addInfo :: "byte list"
  cq_bodyLen :: u32
  cq_crc32 :: u32

definition creq_bytes :: "MOCLOUD_CTRL_REQUEST \<Rightarrow> byte list" where
  "creq_bytes r = cq_mark r @ le32 (cq_isNeedResp r) @ le32 (cq_cmdId r) @ cq_addInfo r @ le32 (cq_bodyLen r) @ le32 (cq_crc32 r)"

record MOCLOUD_CTRL_RESPONSE =
  cr_mark :: "byte list"
  cr_cmdId :: u32
  cr_ret :: u32
  cr_addInfo :: "byte list"
  cr_bodyLen :: u32
  cr_crc32 :: u32

definition bytes_cresp :: "byte list \<Rightarrow> MOCLOUD_CTRL_RESPONSE" where
  "bytes_cresp bs = \<lparr>cr_mark = take 16 bs, cr_cmdId = un_le32 (take 4 (drop 16 bs)), cr_ret = un_le32 (take 4 (drop 20 bs)),
     cr_addInfo = take 16 (drop 24 bs), cr_bodyLen = un_le32 (take 4 (drop 40 bs)), cr_crc32 = un_le32 (take 4 (drop 44 bs))\<rparr>"

definition cresp_bytes :: "MOCLOUD_CTRL_RESPONSE \<Rightarrow> byte list" where
  "cresp_bytes r = cr_mark r @ le32 (cr_cmdId r) @ le32 (cr_ret r) @ cr_addInfo r @ le32 (cr_bodyLen r) @ le32 (cr_crc32 r)"

text \<open>\<open>ck_key\<close> is the union of the keys, as long as its longest one (RC4, 256 bytes).\<close>

record MOCLOUD_CRYPT_INFO =
  ck_algo :: u32
  ck_key :: "byte list"
  ck_keyLen :: u32

definition noCrypt :: MOCLOUD_CRYPT_INFO where
  "noCrypt = \<lparr>ck_algo = 0, ck_key = replicate 256 0, ck_keyLen = 0\<rparr>"

record MOCLOUD_KEYAGREE_RESPONSE =
  cka_mark :: "byte list"
  cka_cmdId :: u32
  cka_ret :: u32
  cka_info :: MOCLOUD_CRYPT_INFO
  cka_crc32 :: u32

definition bytes_cka :: "byte list \<Rightarrow> MOCLOUD_KEYAGREE_RESPONSE" where
  "bytes_cka bs = \<lparr>cka_mark = take 16 bs, cka_cmdId = un_le32 (take 4 (drop 16 bs)), cka_ret = un_le32 (take 4 (drop 20 bs)),
     cka_info = \<lparr>ck_algo = un_le32 (take 4 (drop 24 bs)), ck_key = take 256 (drop 28 bs), ck_keyLen = un_le32 (take 4 (drop 284 bs))\<rparr>,
     cka_crc32 = un_le32 (take 4 (drop 288 bs))\<rparr>"

definition cka_bytes :: "MOCLOUD_KEYAGREE_RESPONSE \<Rightarrow> byte list" where
  "cka_bytes r = cka_mark r @ le32 (cka_cmdId r) @ le32 (cka_ret r) @ le32 (ck_algo (cka_info r)) @ ck_key (cka_info r) @
     le32 (ck_keyLen (cka_info r)) @ le32 (cka_crc32 r)"

text \<open>\<open>MOCLOUD_BASIC_FILEINFO\<close>: four bytes of padding in front of the size, and four at the end.\<close>

record MOCLOUD_BASIC_FILEINFO =
  fi_filetype :: u32
  fi_filename :: "byte list"
  fi_filesize :: "64 word"
  fi_ownerName :: "byte list"
  fi_state :: u32

definition un_le64 :: "byte list \<Rightarrow> 64 word" where
  "un_le64 bs = ucast (un_le32 (take 4 bs)) OR push_bit 32 (ucast (un_le32 (take 4 (drop 4 bs))))"

definition bytes_fileinfo :: "byte list \<Rightarrow> MOCLOUD_BASIC_FILEINFO" where
  "bytes_fileinfo bs = \<lparr>fi_filetype = un_le32 (take 4 bs), fi_filename = take 256 (drop 4 bs),
     fi_filesize = un_le64 (take 8 (drop 264 bs)), fi_ownerName = take 32 (drop 272 bs), fi_state = un_le32 (take 4 (drop 304 bs))\<rparr>"

section \<open>State\<close>

text \<open>
  What a thread identifier denotes: nothing, a thread that runs, one that has ended and can be joined, or
  no thread any more (it has been joined, or its creation failed), when it must not be used.
\<close>

datatype THREAD = THR_INVALID | THR_RUNS | THR_ENDED | THR_BAD

datatype CLI_STATE = CLI_STATE_IDLE | CLI_STATE_NOT_LOGIN | CLI_STATE_LOGIN

record CFG_INFO =
  clientIp :: string
  clientCtrlPort :: int
  clientDataPort :: int
  serverIp :: string
  serverPort :: int
  dwldInfoFile :: string

definition noCfg :: CFG_INFO where
  "noCfg = \<lparr>clientIp = [], clientCtrlPort = 0, clientDataPort = 0, serverIp = [], serverPort = 0, dwldInfoFile = []\<rparr>"

record CLOUD =
  gCfgInfo :: CFG_INFO
  cl_isInited :: bool
  gCtrlSockId :: int
  cl_crypt :: MOCLOUD_CRYPT_INFO
  gHeartbeatThrId :: THREAD
  gCliState :: CLI_STATE
  gpFilelist :: "MOCLOUD_BASIC_FILEINFO list list"
  gCurLoginUsername :: string
  gCurLoginPassword :: string
  gRefreshFilelistSem :: nat
  gRefreshFilelistThId :: THREAD
  gStopRefreshFilelistThr :: bool
  gRefreshFilelistType :: nat
  ctrl :: CONN
  ctrlSocks :: "int list"

section \<open>Configuration\<close>

text \<open>
  \<open>moUtils_Ini_GetAttrValue\<close> copies the value, whatever its length, to a cleared array of 16 bytes; without
  the attribute the array stays empty.
\<close>

definition cfgAttr :: "MOUTILS_INI_SECTION_INFO_NODE list option \<Rightarrow> string \<Rightarrow> string \<Rightarrow> string option" where
  "cfgAttr ini sect k =
     (case moUtils_Ini_GetAttrValue (Some sect) (Some k) (Some []) ini of
        (_, None) \<Rightarrow> None
      | (_, Some v) \<Rightarrow> if length v < MOCPS_IP_ADDR_MAXLEN then Some v else None)"

definition getCfgInfo ::
    "(string \<Rightarrow> 32 word option) \<Rightarrow> (string \<Rightarrow> string option) \<Rightarrow> bool \<Rightarrow> string \<Rightarrow> (int \<times> CFG_INFO) option" where
  "getCfgInfo inet_aton fopenR mem path = do {
     ini \<leftarrow> moUtils_Ini_Init mem mem fopenR (Some path);
     if ini = None then Some (-2, noCfg)
     else do {
       sip \<leftarrow> cfgAttr ini ''servInfo'' ''servIp'';
       let c = noCfg\<lparr>serverIp := sip\<rparr>;
       if isValidIpAddr inet_aton (Some sip) = 0 then Some (-3, c)
       else do {
         cip \<leftarrow> cfgAttr ini ''cliInfo'' ''cliIp'';
         let c = c\<lparr>clientIp := cip\<rparr>;
         if isValidIpAddr inet_aton (Some cip) = 0 then Some (-4, c)
         else do {
           tmp \<leftarrow> cfgAttr ini ''servInfo'' ''servPort'';
           port \<leftarrow> atoi tmp;
           let c = c\<lparr>serverPort := port\<rparr>;
           if isValidUserPort port = 0 then Some (-5, c)
           else do {
             tmp \<leftarrow> cfgAttr ini ''cliInfo'' ''cliCtrlPort'';
             port \<leftarrow> atoi tmp;
             let c = c\<lparr>clientCtrlPort := port\<rparr>;
             if isValidUserPort port = 0 then Some (-6, c)
             else do {
               tmp \<leftarrow> cfgAttr ini ''cliInfo'' ''cliDataPort'';
               port \<leftarrow> atoi tmp;
               let c = c\<lparr>clientDataPort := port\<rparr>;
               if isValidUserPort port = 0 then Some (-7, c)
               else do {
                 tmp \<leftarrow> cfgAttr ini ''dwldInfo'' ''infoFile'';
                 Some (0, c\<lparr>dwldInfoFile := copyStr MOCLOUD_FILEPATH_MAXLEN tmp\<rparr>)
               }
             }
           }
         }
       }
     }
   }"

section \<open>Requests and responses\<close>

text \<open>The field \<open>crc32\<close> keeps the 0 it has been cleared with, because the stub does not write it.\<close>

definition genRequest :: "u32 \<Rightarrow> u32 \<Rightarrow> nat \<Rightarrow> MOCLOUD_CTRL_REQUEST" where
  "genRequest type cmdId len =
     (let r = \<lparr>cq_mark = mark_field MOCLOUD_MARK_CLIENT, cq_isNeedResp = type, cq_cmdId = cmdId,
        cq_addInfo = replicate 16 0, cq_bodyLen = word_of_nat len, cq_crc32 = 0\<rparr>
      in r\<lparr>cq_crc32 := snd (moCloudUtilsCheck_crcGetValue (creq_bytes r) (sizeof_CTRL_REQUEST - 4) (cq_crc32 r))\<rparr>)"

definition getCipherRequestInfo :: "bool \<Rightarrow> MOCLOUD_CTRL_REQUEST \<Rightarrow> (int \<times> byte list) option" where
  "getCipherRequestInfo mem req = do {
     let (ret, cipherLen) = moCloudUtilsCrypt_getCipherTxtLen sizeof_CTRL_REQUEST;
     if ret < 0 then Some (-2, [])
     else if \<not> mem then Some (-3, [])
     else do {
       (ret, bs, cipherLen) \<leftarrow> moCloudUtilsCrypt_doCrypt (creq_bytes req) sizeof_CTRL_REQUEST (replicate cipherLen 0);
       if ret < 0 then Some (-4, []) else Some (0, bs)
     }
   }"

text \<open>
  The loop of \<open>getRespHeader\<close>, with \<open>cnt\<close> turns done. A turn without a response for \<open>cmdId\<close> counts as
  a second, whatever it took; what has been read of another message is dropped.
\<close>

function respHeaderLoop :: "(nat \<Rightarrow> int) \<Rightarrow> u32 \<Rightarrow> nat \<Rightarrow> CONN \<Rightarrow> (int \<times> MOCLOUD_CTRL_RESPONSE option \<times> CONN) option" where
  "respHeaderLoop sel cmdId cnt c =
     (if cnt \<ge> CTRL_CMD_TIMEOUT then Some (-4, None, c)
      else if sel cnt < 0 then Some (-4, None, c)
      else if sel cnt = 0 then respHeaderLoop sel cmdId (cnt + 1) c
      else do {
        let (_, cipherLen) = moCloudUtilsCrypt_getCipherTxtLen sizeof_CTRL_RESPONSE;
        (ret, buf, c) \<leftarrow> conn_readn c (replicate cipherLen 0) (int cipherLen);
        if ret \<noteq> int cipherLen then respHeaderLoop sel cmdId (cnt + 1) c
        else do {
          (ret, tmp, _) \<leftarrow> moCloudUtilsCrypt_doCrypt buf cipherLen (replicate sizeof_CTRL_RESPONSE 0);
          let resp = bytes_cresp tmp;
          if ret < 0 then respHeaderLoop sel cmdId (cnt + 1) c
          else if cr_cmdId resp \<noteq> cmdId \<or> \<not> mark_is (cr_mark resp) MOCLOUD_MARK_SERVER \<or>
              moCloudUtilsCheck_crcCheckValue tmp (sizeof_CTRL_RESPONSE - 4) (cr_crc32 resp) \<noteq> 0
          then respHeaderLoop sel cmdId (cnt + 1) c
          else Some (0, Some resp, c)
        }
      })"
  by pat_completeness auto
termination
  by (relation "measure (\<lambda>(sel, cmdId, cnt, c). 3 - cnt)") auto

declare respHeaderLoop.simps [simp del]

definition getRespHeader :: "bool \<Rightarrow> (nat \<Rightarrow> int) \<Rightarrow> u32 \<Rightarrow> CONN \<Rightarrow> (int \<times> MOCLOUD_CTRL_RESPONSE option \<times> CONN) option" where
  "getRespHeader mem sel cmdId c = (if \<not> mem then Some (-3, None, c) else respHeaderLoop sel cmdId 0 c)"

text \<open>
  What the system does during one exchange: memory for the request and for the response, the results
  of \<open>select\<close>, and for a body that follows, of its \<open>select\<close>, its memory, and the nodes for the files in it.
\<close>

record REQENV =
  rq_mem :: bool
  rq_respMem :: bool
  rq_sel :: "nat \<Rightarrow> int"
  rq_bodySel :: int
  rq_bodyMem :: bool
  rq_nodes :: nat

text \<open>
  Sending a header: 0, or 1 when it could not be encrypted and 2 when it could not be written. The
  functions below have the same steps with error numbers of their own.
\<close>

definition sendHeader :: "bool \<Rightarrow> MOCLOUD_CTRL_REQUEST \<Rightarrow> CONN \<Rightarrow> (nat \<times> CONN) option" where
  "sendHeader mem req c = do {
     (ret, cipher) \<leftarrow> getCipherRequestInfo mem req;
     if ret < 0 then Some (1, c)
     else do {
       (ret, c) \<leftarrow> conn_writen c cipher (int (length cipher));
       Some (if ret \<noteq> int (length cipher) then 2 else 0, c)
     }
   }"

text \<open>
  A request with a body, up to the response: in addition 3 when the result of writing the body is not
  the number \<open>expected\<close>, and 4 when there is no response.
\<close>

definition exchange :: "REQENV \<Rightarrow> u32 \<Rightarrow> byte list \<Rightarrow> int \<Rightarrow> CONN \<Rightarrow> (nat \<times> MOCLOUD_CTRL_RESPONSE option \<times> CONN) option" where
  "exchange e cmdId bodyBytes expected c = do {
     (st, c) \<leftarrow> sendHeader (rq_mem e) (genRequest MOCLOUD_REQUEST_TYPE_NEED_RESPONSE cmdId (length bodyBytes)) c;
     if st \<noteq> 0 then Some (st, None, c)
     else do {
       (ret, c) \<leftarrow> conn_writen c bodyBytes (int (length bodyBytes));
       if ret \<noteq> expected then Some (3, None, c)
       else do {
         (ret, resp, c) \<leftarrow> getRespHeader (rq_respMem e) (rq_sel e) cmdId c;
         Some (if ret < 0 then 4 else 0, resp, c)
       }
     }
   }"

definition disConnectToServer :: "REQENV \<Rightarrow> CONN \<Rightarrow> (int \<times> CONN) option" where
  "disConnectToServer e c = do {
     (st, c) \<leftarrow> sendHeader (rq_mem e) (genRequest MOCLOUD_REQUEST_TYPE_NEED_RESPONSE MOCLOUD_CMDID_BYEBYE 0) c;
     if st \<noteq> 0 then Some (- int st, c)
     else do {
       (ret, _, c) \<leftarrow> getRespHeader (rq_respMem e) (rq_sel e) MOCLOUD_CMDID_BYEBYE c;
       Some (if ret \<noteq> 0 then -3 else 0, c)
     }
   }"

section \<open>Key agreement\<close>

definition genKeyAgreeRequest :: "byte list" where
  "genKeyAgreeRequest = (let r = mark_field MOCLOUD_MARK_CLIENT @ le32 MOCLOUD_CMDID_KEYAGREE @ le32 0
     in take 20 r @ le32 (snd (moCloudUtilsCheck_crcGetValue r (sizeof_KEYAGREE_REQUEST - 4) 0)))"

definition getCipherKeyAgreeReq :: "bool \<Rightarrow> byte list \<Rightarrow> (int \<times> byte list) option" where
  "getCipherKeyAgreeReq mem req = do {
     let (ret, cipherLen) = moCloudUtilsCrypt_getCipherTxtLen sizeof_KEYAGREE_REQUEST;
     if ret < 0 then Some (-2, [])
     else if \<not> mem then Some (-3, [])
     else do {
       (ret, bs, cipherLen) \<leftarrow> moCloudUtilsCrypt_doCrypt req sizeof_KEYAGREE_REQUEST (replicate cipherLen 0);
       if ret < 0 then Some (-4, []) else Some (0, bs)
     }
   }"

text \<open>
  The loop of \<open>getKeyAgreeResp\<close>. Of the response only as many bytes are copied to \<open>resp\<close>, which has
  been cleared, as a \<^emph>\<open>control\<close> response has.
\<close>

function keyAgreeLoop :: "(nat \<Rightarrow> int) \<Rightarrow> nat \<Rightarrow> CONN \<Rightarrow> (int \<times> byte list \<times> CONN) option" where
  "keyAgreeLoop sel cnt c =
     (if cnt \<ge> CTRL_CMD_TIMEOUT then Some (-4, replicate sizeof_CLOUD_KEYAGREE_RESPONSE 0, c)
      else if sel cnt < 0 then Some (-4, replicate sizeof_CLOUD_KEYAGREE_RESPONSE 0, c)
      else if sel cnt = 0 then keyAgreeLoop sel (cnt + 1) c
      else do {
        let (_, cipherLen) = moCloudUtilsCrypt_getCipherTxtLen sizeof_CLOUD_KEYAGREE_RESPONSE;
        (ret, buf, c) \<leftarrow> conn_readn c (replicate cipherLen 0) (int cipherLen);
        if ret \<noteq> int cipherLen then keyAgreeLoop sel (cnt + 1) c
        else do {
          (ret, tmp, _) \<leftarrow> moCloudUtilsCrypt_doCrypt buf cipherLen (replicate sizeof_CLOUD_KEYAGREE_RESPONSE 0);
          let ka = bytes_cka tmp;
          if ret < 0 then keyAgreeLoop sel (cnt + 1) c
          else if cka_cmdId ka \<noteq> MOCLOUD_CMDID_KEYAGREE \<or> \<not> mark_is (cka_mark ka) MOCLOUD_MARK_SERVER \<or>
              moCloudUtilsCheck_crcCheckValue tmp (sizeof_CTRL_RESPONSE - 4) (cka_crc32 ka) \<noteq> 0
          then keyAgreeLoop sel (cnt + 1) c
          else do {
            bs \<leftarrow> rdn tmp 0 sizeof_CTRL_RESPONSE;
            Some (0, bs @ replicate (sizeof_CLOUD_KEYAGREE_RESPONSE - sizeof_CTRL_RESPONSE) 0, c)
          }
        }
      })"
  by pat_completeness auto
termination
  by (relation "measure (\<lambda>(sel, cnt, c). 3 - cnt)") auto

declare keyAgreeLoop.simps [simp del]

definition getKeyAgreeResp :: "bool \<Rightarrow> (nat \<Rightarrow> int) \<Rightarrow> CONN \<Rightarrow> (int \<times> byte list \<times> CONN) option" where
  "getKeyAgreeResp mem sel c =
     (if \<not> mem then Some (-3, replicate sizeof_CLOUD_KEYAGREE_RESPONSE 0, c) else keyAgreeLoop sel 0 c)"

definition doKeyAgree :: "REQENV \<Rightarrow> CLOUD \<Rightarrow> (int \<times> CLOUD) option" where
  "doKeyAgree e s = do {
     (ret, cipher) \<leftarrow> getCipherKeyAgreeReq (rq_mem e) genKeyAgreeRequest;
     if ret < 0 then Some (-2, s)
     else do {
       (ret, c) \<leftarrow> conn_writen (ctrl s) cipher (int (length cipher));
       let s = s\<lparr>ctrl := c\<rparr>;
       if ret \<noteq> int (length cipher) then Some (-3, s)
       else do {
         (ret, bs, c) \<leftarrow> getKeyAgreeResp (rq_respMem e) (rq_sel e) (ctrl s);
         let s = s\<lparr>ctrl := c\<rparr>;
         if ret < 0 then Some (-3, s)
         else Some (0, s\<lparr>cl_crypt := cka_info (bytes_cka bs)\<rparr>)
       }
     }
   }"

section \<open>The list of files\<close>

text \<open>
  \<open>gpFilelist\<close> has a list for every number below 15; those of the single types 1, 2, 4 and 8 are used. The
  loops over the types double \<open>curType\<close>; from 0 they do not end.
\<close>

abbreviation (input) firstType :: "nat \<Rightarrow> nat" where
  "firstType type \<equiv> (if type = MOCLOUD_FILETYPE_ALL then MOCLOUD_FILETYPE_VIDEO else type)"
abbreviation (input) typeLimit :: "nat \<Rightarrow> nat" where
  "typeLimit type \<equiv> (if type = MOCLOUD_FILETYPE_ALL then MOCLOUD_FILETYPE_ALL else type + 1)"

partial_function (option) freeTypes :: "nat \<Rightarrow> nat \<Rightarrow> 'a list list \<Rightarrow> 'a list list option" where
  "freeTypes curType limit fl =
     (if curType < limit then do {
        fl \<leftarrow> wr fl curType [];
        freeTypes (curType * 2) limit fl
      }
      else Some fl)"

declare freeTypes.simps [code]

definition freeLocalFilelist :: "nat \<Rightarrow> 'a list list \<Rightarrow> (int \<times> 'a list list) option" where
  "freeLocalFilelist type fl =
     (if type \<ge> MOCLOUD_FILETYPE_MAX then Some (-1, fl)
      else do {
        fl \<leftarrow> freeTypes (firstType type) (typeLimit type) fl;
        Some (0, fl)
      })"

text \<open>
  The response body, from the select before it on; \<open>None\<close> in the second place when it is not there. A
  negative length makes \<open>malloc\<close> fail.
\<close>

definition getRespBody :: "REQENV \<Rightarrow> int \<Rightarrow> CONN \<Rightarrow> (int \<times> byte list option \<times> CONN) option" where
  "getRespBody e len c =
     (if rq_bodySel e \<le> 0 then Some (-1, None, c)
      else if \<not> rq_bodyMem e \<or> len < 0 then Some (-2, None, c)
      else do {
        (readLen, buf, c) \<leftarrow> conn_readn c (replicate (nat len) 0) len;
        if readLen \<noteq> len then Some (-3, None, c) else Some (0, Some buf, c)
      })"

text \<open>The loop of \<open>setFilelistValue\<close> over the structs of the body; \<open>nodes\<close> calls of \<open>malloc\<close> succeed.\<close>

function fillFilelist ::
    "nat \<Rightarrow> nat \<Rightarrow> byte list \<Rightarrow> MOCLOUD_BASIC_FILEINFO list list \<Rightarrow> (int \<times> MOCLOUD_BASIC_FILEINFO list list) option" where
  "fillFilelist type nodes bs fl =
     (if length bs < sizeof_BASIC_FILEINFO then Some (0, fl)
      else let pCurInfo = bytes_fileinfo (take sizeof_BASIC_FILEINFO bs); t = unat (fi_filetype pCurInfo) in
        if t \<ge> MOCLOUD_FILETYPE_MAX \<or> type \<noteq> MOCLOUD_FILETYPE_ALL \<and> t \<noteq> type
        then fillFilelist type nodes (drop sizeof_BASIC_FILEINFO bs) fl
        else if nodes = 0 then Some (-2, fl)
        else do {
          l \<leftarrow> rd fl t;
          fillFilelist type (nodes - 1) (drop sizeof_BASIC_FILEINFO bs) (fl[t := pCurInfo # l])
        })"
  by pat_completeness auto
termination
  by (relation "measure (\<lambda>(type, nodes, bs, fl). length bs)") auto

declare fillFilelist.simps [simp del]

definition setFilelistValue ::
    "nat \<Rightarrow> byte list \<Rightarrow> nat \<Rightarrow> MOCLOUD_BASIC_FILEINFO list list \<Rightarrow> (int \<times> MOCLOUD_BASIC_FILEINFO list list) option" where
  "setFilelistValue nodes pRespBody type fl =
     (if type < MOCLOUD_FILETYPE_VIDEO \<or> type \<ge> MOCLOUD_FILETYPE_MAX then Some (-1, fl)
      else do {
        (_, fl) \<leftarrow> freeLocalFilelist type fl;
        (ret, fl) \<leftarrow> fillFilelist type nodes pRespBody fl;
        if ret < 0 then do {
          (_, fl) \<leftarrow> freeLocalFilelist type fl;
          Some (ret, fl)
        }
        else Some (ret, fl)
      })"

text \<open>A response without a body leaves the list as it is.\<close>

definition refreshFilelist :: "REQENV \<Rightarrow> nat \<Rightarrow> CLOUD \<Rightarrow> (int \<times> CLOUD) option" where
  "refreshFilelist e type s =
     (if type \<ge> MOCLOUD_FILETYPE_MAX then Some (-1, s)
      else if gCliState s \<noteq> CLI_STATE_LOGIN then Some (-2, s)
      else do {
        let req = (genRequest MOCLOUD_REQUEST_TYPE_NEED_RESPONSE MOCLOUD_CMDID_GETFILELIST 0)
          \<lparr>cq_addInfo := word_of_nat type # replicate 15 0\<rparr>;
        (st, c) \<leftarrow> sendHeader (rq_mem e) req (ctrl s);
        let s = s\<lparr>ctrl := c\<rparr>;
        if st = 1 then Some (-4, s)
        else if st = 2 then Some (-5, s)
        else do {
          (ret, resp, c) \<leftarrow> getRespHeader (rq_respMem e) (rq_sel e) MOCLOUD_CMDID_GETFILELIST (ctrl s);
          let s = s\<lparr>ctrl := c\<rparr>;
          if ret < 0 then Some (-5, s)
          else do {
            r \<leftarrow> resp;
            if cr_bodyLen r = 0 then Some (0, s)
            else do {
              (ret, pRespBody, c) \<leftarrow> getRespBody e (sint (cr_bodyLen r)) (ctrl s);
              let s = s\<lparr>ctrl := c\<rparr>;
              if ret < 0 then Some (-6, s)
              else do {
                bs \<leftarrow> pRespBody;
                (ret, fl) \<leftarrow> setFilelistValue (rq_nodes e) bs type (gpFilelist s);
                Some (if ret < 0 then -7 else 0, s\<lparr>gpFilelist := fl\<rparr>)
              }
            }
          }
        }
      })"

text \<open>
  The copy that \<open>moCloudClient_getFilelist\<close> makes for its caller. \<open>copyNodes\<close> is the inner loop: it says
  whether an allocation failed, and how many can still succeed.
\<close>

fun copyNodes :: "nat \<Rightarrow> 'a list \<Rightarrow> 'a list \<Rightarrow> bool \<times> nat \<times> 'a list" where
  "copyNodes mem [] acc = (True, mem, acc)"
| "copyNodes mem (x # xs) acc = (if mem = 0 then (False, mem, acc) else copyNodes (mem - 1) xs (x # acc))"

partial_function (option) copyTypes :: "nat \<Rightarrow> nat \<Rightarrow> nat \<Rightarrow> bool \<Rightarrow> 'a list list \<Rightarrow> 'a list \<Rightarrow> (bool \<times> 'a list) option" where
  "copyTypes curType limit mem ok fl acc =
     (if curType < limit then do {
        l \<leftarrow> rd fl curType;
        let (ok', mem, acc) = copyNodes mem l acc;
        copyTypes (curType * 2) limit mem (ok \<and> ok') fl acc
      }
      else Some (ok, acc))"

declare copyTypes.simps [code]

definition moCloudClient_getFilelist :: "nat \<Rightarrow> bool \<Rightarrow> nat \<Rightarrow> CLOUD \<Rightarrow> (int \<times> MOCLOUD_BASIC_FILEINFO list) option" where
  "moCloudClient_getFilelist mem isNull type s =
     (if \<not> isNull \<or> type \<ge> MOCLOUD_FILETYPE_MAX \<or> type < MOCLOUD_FILETYPE_VIDEO then Some (MOCLOUDCLIENT_ERR_INPUT_INVALID, [])
      else do {
        (ok, l) \<leftarrow> copyTypes (firstType type) (typeLimit type) mem True (gpFilelist s) [];
        Some (if ok then (0, l) else (MOCLOUDCLIENT_ERR_MALLOC_FAILED, []))
      })"

section \<open>Threads\<close>

text \<open>
  A turn of \<open>heartbeatThr\<close> that is not ended by a signal. \<open>cInfo\<close> is an array of signed characters: a
  negative one becomes a large number of the unsigned \<open>enum\<close>.
\<close>

definition sendHeartbeat :: "bool \<Rightarrow> CONN \<Rightarrow> (int \<times> CONN) option" where
  "sendHeartbeat mem c = do {
     (st, c) \<leftarrow> sendHeader mem (genRequest MOCLOUD_REQUEST_TYPE_NEED_RESPONSE MOCLOUD_CMDID_HEARTBEAT 0) c;
     Some (if st = 1 then -2 else if st = 2 then -3 else 0, c)
   }"

definition doHeartbeatResp :: "MOCLOUD_CTRL_RESPONSE \<Rightarrow> CLOUD \<Rightarrow> int \<times> CLOUD" where
  "doHeartbeatResp resp s =
     (if cr_ret resp = 1 then (0, s)
      else if cr_ret resp = 2 then
        (0, s\<lparr>gRefreshFilelistType := unat (scast (cr_addInfo resp ! 0) :: u32), gRefreshFilelistSem := gRefreshFilelistSem s + 1\<rparr>)
      else (-2, s))"

definition heartbeatTurn :: "REQENV \<Rightarrow> CLOUD \<Rightarrow> CLOUD option" where
  "heartbeatTurn e s = do {
     (ret, c) \<leftarrow> sendHeartbeat (rq_mem e) (ctrl s);
     let s = s\<lparr>ctrl := c\<rparr>;
     if ret < 0 then Some s
     else do {
       (ret, resp, c) \<leftarrow> getRespHeader (rq_respMem e) (rq_sel e) MOCLOUD_CMDID_HEARTBEAT (ctrl s);
       let s = s\<lparr>ctrl := c\<rparr>;
       if ret < 0 then Some s
       else do {
         r \<leftarrow> resp;
         Some (snd (doHeartbeatResp r s))
       }
     }
   }"

text \<open>A turn of \<open>refreshFilelistThr\<close>, when it does not wait for its semaphore.\<close>

definition refreshTurn :: "REQENV \<Rightarrow> CLOUD \<Rightarrow> CLOUD option" where
  "refreshTurn e s =
     (if gRefreshFilelistThId s \<noteq> THR_RUNS \<or> gRefreshFilelistSem s = 0 then Some s
      else let s = s\<lparr>gRefreshFilelistSem := gRefreshFilelistSem s - 1\<rparr> in
        if gStopRefreshFilelistThr s then Some (s\<lparr>gRefreshFilelistThId := THR_ENDED\<rparr>)
        else map_option snd (refreshFilelist e (gRefreshFilelistType s) s))"

text \<open>
  Starting and stopping the two threads. \<open>create\<close> is what \<open>pthread_create\<close> returns, \<open>probe\<close>, \<open>sig\<close> and \<open>join\<close>
  what the calls in \<open>killThread\<close> return.
\<close>

definition startHeartbeatThr :: "int \<Rightarrow> CLOUD \<Rightarrow> int \<times> CLOUD" where
  "startHeartbeatThr create s =
     (if startThread create < 0 then (-1, s\<lparr>gHeartbeatThrId := THR_INVALID\<rparr>)
      else (0, s\<lparr>gHeartbeatThrId := (if startThread create = 0 then THR_RUNS else THR_BAD)\<rparr>))"

definition stopHeartbeatThr :: "int \<Rightarrow> int \<Rightarrow> int \<Rightarrow> CLOUD \<Rightarrow> (int \<times> CLOUD) option" where
  "stopHeartbeatThr probe sig join s =
     (case gHeartbeatThrId s of
        THR_INVALID \<Rightarrow> Some (0, s)
      | THR_BAD \<Rightarrow> None
      | _ \<Rightarrow> if fst (killThread 1 probe sig join) < 0 then Some (-1, s) else Some (0, s\<lparr>gHeartbeatThrId := THR_BAD\<rparr>))"

definition startRefreshFilelistThr :: "int \<Rightarrow> int \<Rightarrow> CLOUD \<Rightarrow> int \<times> CLOUD" where
  "startRefreshFilelistThr semInit create s =
     (if semInit \<noteq> 0 then (-1, s)
      else let s = s\<lparr>gRefreshFilelistSem := 0\<rparr> in
        if create < 0 then (-2, s\<lparr>gRefreshFilelistThId := THR_INVALID\<rparr>)
        else (0, s\<lparr>gRefreshFilelistThId := (if create = 0 then THR_RUNS else THR_BAD), gStopRefreshFilelistThr := False\<rparr>))"

definition stopRefreshFilelistThr :: "CLOUD \<Rightarrow> (int \<times> CLOUD) option" where
  "stopRefreshFilelistThr s =
     (case gRefreshFilelistThId s of
        THR_INVALID \<Rightarrow> Some (0, s)
      | THR_BAD \<Rightarrow> None
      | _ \<Rightarrow> Some (0, s\<lparr>gStopRefreshFilelistThr := True, gRefreshFilelistSem := gRefreshFilelistSem s + 1, gRefreshFilelistThId := THR_BAD\<rparr>))"

section \<open>Accounts\<close>

abbreviation (input) sizeof_body :: nat where "sizeof_body \<equiv> 96"

text \<open>\<open>sprintf\<close> of name and password to the array of \<open>sizeof_body\<close> bytes.\<close>

definition userBody :: "string \<Rightarrow> string \<Rightarrow> byte list option" where
  "userBody name pw = (let t = ''username='' @ name @ '', password='' @ pw
     in if length t < sizeof_body then Some (map of_char t) else None)"

text \<open>The check at the start of both functions: all four comparisons are about the name.\<close>

definition userLenBad :: "string \<Rightarrow> bool" where
  "userLenBad name \<longleftrightarrow> length name = 0 \<or> length name > MOCLOUD_USERNAME_MAXLEN \<or>
     length name < MOCLOUD_PASSWD_MINLEN \<or> length name > MOCLOUD_PASSWD_MAXLEN"

definition exchangeErr :: "nat \<Rightarrow> int" where
  "exchangeErr st = (if st = 1 then MOCLOUDCLIENT_ERR_INTERNAL_ERROR else if st = 4 then MOCLOUDCLIENT_ERR_GETRESP_FAILED
     else MOCLOUDCLIENT_ERR_SEND_REQUEST)"

definition moCloudClient_signUp :: "REQENV \<Rightarrow> string option \<Rightarrow> string option \<Rightarrow> CLOUD \<Rightarrow> (int \<times> CLOUD) option" where
  "moCloudClient_signUp e pUsrName pPasswd s =
     (case (pUsrName, pPasswd) of
        (Some name, Some pw) \<Rightarrow>
          if userLenBad name then Some (MOCLOUDCLIENT_ERR_INPUT_INVALID, s)
          else do {
            bs \<leftarrow> userBody name pw;
            (st, resp, c) \<leftarrow> exchange e MOCLOUD_CMDID_SIGNUP bs (int (length bs)) (ctrl s);
            let s = s\<lparr>ctrl := c\<rparr>;
            if st \<noteq> 0 then Some (exchangeErr st, s)
            else do {
              r \<leftarrow> resp;
              Some (sint (cr_ret r), s)
            }
          }
      | _ \<Rightarrow> Some (MOCLOUDCLIENT_ERR_INPUT_NULL, s))"

text \<open>\<open>strcpy\<close> to the two global arrays has no defined result when the string does not fit.\<close>

definition moCloudClient_logIn :: "REQENV \<Rightarrow> REQENV \<Rightarrow> string option \<Rightarrow> string option \<Rightarrow> CLOUD \<Rightarrow> (int \<times> CLOUD) option" where
  "moCloudClient_logIn e e2 pUsrName pPasswd s =
     (case (pUsrName, pPasswd) of
        (Some name, Some pw) \<Rightarrow>
          if userLenBad name then Some (MOCLOUDCLIENT_ERR_INPUT_INVALID, s)
          else do {
            bs \<leftarrow> userBody name pw;
            (st, resp, c) \<leftarrow> exchange e MOCLOUD_CMDID_LOGIN bs (int (length bs)) (ctrl s);
            let s = s\<lparr>ctrl := c\<rparr>;
            if st \<noteq> 0 then Some (exchangeErr st, s)
            else do {
              r \<leftarrow> resp;
              if cr_ret r \<noteq> 0 then Some (sint (cr_ret r), s)
              else if length name \<ge> MOCLOUD_USERNAME_MAXLEN \<or> length pw \<ge> MOCLOUD_PASSWD_MAXLEN then None
              else do {
                (_, s) \<leftarrow> refreshFilelist e2 MOCLOUD_FILETYPE_ALL
                  (s\<lparr>gCurLoginUsername := name, gCurLoginPassword := pw, gCliState := CLI_STATE_LOGIN\<rparr>);
                Some (sint (cr_ret r), s)
              }
            }
          }
      | _ \<Rightarrow> Some (MOCLOUDCLIENT_ERR_INPUT_NULL, s))"

text \<open>The result of writing the body is compared with the length of the header.\<close>

definition moCloudClient_logOut :: "REQENV \<Rightarrow> CLOUD \<Rightarrow> (int \<times> CLOUD) option" where
  "moCloudClient_logOut e s = do {
     bs \<leftarrow> userBody (gCurLoginUsername s) (gCurLoginPassword s);
     (st, resp, c) \<leftarrow> exchange e MOCLOUD_CMDID_LOGOUT bs (int sizeof_CTRL_REQUEST) (ctrl s);
     let s = s\<lparr>ctrl := c\<rparr>;
     if st \<noteq> 0 then Some (exchangeErr st, s)
     else do {
       r \<leftarrow> resp;
       if cr_ret r \<noteq> 0 then Some (sint (cr_ret r), s)
       else Some (sint (cr_ret r), s\<lparr>gCurLoginUsername := [], gCurLoginPassword := [], gCliState := CLI_STATE_NOT_LOGIN\<rparr>)
     }
   }"

section \<open>Messages as bytes\<close>

definition wf_cresp :: "MOCLOUD_CTRL_RESPONSE \<Rightarrow> bool" where
  "wf_cresp r \<longleftrightarrow> cr_mark r = mark_field MOCLOUD_MARK_SERVER \<and> length (cr_addInfo r) = 16"

lemma length_mark_field [simp]: "length m \<le> 16 \<Longrightarrow> length (mark_field m) = 16"
  by (simp add: mark_field_def)

lemma mark_field_is [simp]: "length m < 16 \<Longrightarrow> mark_is (mark_field m) m"
  by (simp add: mark_field_def mark_is_def take_Cons')

lemma length_cresp_bytes [simp]: "wf_cresp r \<Longrightarrow> length (cresp_bytes r) = 48"
  by (simp add: cresp_bytes_def wf_cresp_def)

lemma bytes_cresp_bytes [simp]: "wf_cresp r \<Longrightarrow> bytes_cresp (cresp_bytes r) = r"
  by (simp add: bytes_cresp_def cresp_bytes_def wf_cresp_def)

lemma length_creq [simp]: "length (creq_bytes (genRequest t cmd n)) = 48"
  by (simp add: creq_bytes_def genRequest_def Let_def)

lemma length_creq_type [simp]: "length (creq_bytes ((genRequest t cmd n)\<lparr>cq_addInfo := x # replicate 15 0\<rparr>)) = 48"
  by (simp add: creq_bytes_def genRequest_def Let_def)

section \<open>Exchanges that work\<close>

definition ready :: "REQENV \<Rightarrow> bool" where
  "ready e \<longleftrightarrow> rq_mem e \<and> rq_respMem e \<and> rq_sel e 0 > 0 \<and> rq_bodySel e > 0 \<and> rq_bodyMem e"

lemma getCipher_ready [simp]:
  "length (creq_bytes r) = 48 \<Longrightarrow> getCipherRequestInfo True r = Some (0, creq_bytes r)"
  by (simp add: getCipherRequestInfo_def moCloudUtilsCrypt_getCipherTxtLen_def moCloudUtilsCrypt_doCrypt_def)

lemma sendHeader_sends:
  assumes "length (creq_bytes r) = 48" and "sends c (48 + k)"
  shows "\<exists>c'. sendHeader True r c = Some (0, c') \<and> c_in c' = c_in c \<and> c_sent c' = c_sent c @ creq_bytes r \<and> sends c' k"
proof -
  obtain c' where "conn_writen c (creq_bytes r) (int (length (creq_bytes r))) = Some (int (length (creq_bytes r)), c')"
    "c_in c' = c_in c" "c_sent c' = c_sent c @ creq_bytes r" "sends c' k"
    using conn_writen_sends [of c "creq_bytes r" k] assms by auto
  then show ?thesis using assms(1) by (simp add: sendHeader_def)
qed

lemma getRespHeader_ready:
  assumes "ready e" and "wf_cresp r" and "clean (c_in c)" and "stream (c_in c) = cresp_bytes r @ rest" and "cr_cmdId r = cmd"
  shows "\<exists>es. getRespHeader (rq_respMem e) (rq_sel e) cmd c = Some (0, Some r, c\<lparr>c_in := es\<rparr>) \<and> clean es \<and> stream es = rest"
proof -
  obtain es where es: "conn_readn c (replicate 48 0) (int 48) = Some (int 48, take 48 (stream (c_in c)) @ drop 48 (replicate 48 0), c\<lparr>c_in := es\<rparr>)"
    "clean es" "stream es = drop 48 (stream (c_in c))"
    by (rule conn_readn_clean [OF assms(3), of 48 "replicate 48 0"]) (use assms(2,4) in simp_all)
  have "take 48 (stream (c_in c)) = cresp_bytes r" using assms(2,4) by simp
  then have "getRespHeader (rq_respMem e) (rq_sel e) cmd c = Some (0, Some r, c\<lparr>c_in := es\<rparr>)"
    using es(1) assms(1,2,5)
    by (simp add: getRespHeader_def respHeaderLoop.simps [of _ _ 0] ready_def moCloudUtilsCrypt_getCipherTxtLen_def
        moCloudUtilsCrypt_doCrypt_def moCloudUtilsCheck_crcCheckValue_def wf_cresp_def)
  then show ?thesis using es assms(2,4) by (intro exI [of _ es]) simp
qed

lemma exchange_ready:
  assumes "ready e" and "wf_cresp r" and "clean (c_in c)" and "stream (c_in c) = cresp_bytes r @ rest" and "cr_cmdId r = cmd"
    and "sends c (48 + (length bs + k))"
  shows "\<exists>c'. exchange e cmd bs (int (length bs)) c = Some (0, Some r, c') \<and> clean (c_in c') \<and> stream (c_in c') = rest \<and>
    c_sent c' = c_sent c @ creq_bytes (genRequest MOCLOUD_REQUEST_TYPE_NEED_RESPONSE cmd (length bs)) @ bs \<and> sends c' k"
proof -
  obtain c1 where 1: "sendHeader True (genRequest MOCLOUD_REQUEST_TYPE_NEED_RESPONSE cmd (length bs)) c = Some (0, c1)"
    "c_in c1 = c_in c" "c_sent c1 = c_sent c @ creq_bytes (genRequest MOCLOUD_REQUEST_TYPE_NEED_RESPONSE cmd (length bs))"
    "sends c1 (length bs + k)"
    using sendHeader_sends [OF length_creq assms(6)] by blast
  obtain c2 where 2: "conn_writen c1 bs (int (length bs)) = Some (int (length bs), c2)"
    "c_in c2 = c_in c1" "c_sent c2 = c_sent c1 @ bs" "sends c2 k"
    using conn_writen_sends [OF 1(4)] by blast
  obtain es where 3: "getRespHeader (rq_respMem e) (rq_sel e) cmd c2 = Some (0, Some r, c2\<lparr>c_in := es\<rparr>)" "clean es" "stream es = rest"
    using getRespHeader_ready [OF assms(1,2) _ _ assms(5), of c2 rest] assms(3,4) 1(2) 2(2) by auto
  show ?thesis
    using 1 2 3 assms(1) by (simp add: exchange_def ready_def sends_def)
qed

lemma getRespBody_ready:
  assumes "ready e" and "clean (c_in c)" and "stream (c_in c) = bs @ rest"
  shows "\<exists>es. getRespBody e (int (length bs)) c = Some (0, Some bs, c\<lparr>c_in := es\<rparr>) \<and> clean es \<and> stream es = rest"
proof -
  obtain es where "conn_readn c (replicate (length bs) 0) (int (length bs)) =
      Some (int (length bs), take (length bs) (stream (c_in c)) @ drop (length bs) (replicate (length bs) 0), c\<lparr>c_in := es\<rparr>)"
    "clean es" "stream es = drop (length bs) (stream (c_in c))"
    by (rule conn_readn_clean [OF assms(2), of "length bs" "replicate (length bs) 0"]) (use assms(3) in simp_all)
  then show ?thesis using assms by (intro exI [of _ es]) (simp add: getRespBody_def ready_def)
qed

section \<open>The lists of files\<close>

text \<open>The files of one type, in the order of the server.\<close>

definition of_type :: "nat \<Rightarrow> MOCLOUD_BASIC_FILEINFO list \<Rightarrow> MOCLOUD_BASIC_FILEINFO list" where
  "of_type t infos = filter (\<lambda>i. unat (fi_filetype i) = t) infos"

lemma of_type_Cons: "of_type t (i # is) = (if unat (fi_filetype i) = t then i # of_type t is else of_type t is)"
  by (simp add: of_type_def)

lemma fillFilelist_all:
  assumes "\<forall>b \<in> set bss. length b = sizeof_BASIC_FILEINFO \<and> unat (fi_filetype (bytes_fileinfo b)) < length fl"
    and "length fl \<le> 15" and "length bss \<le> nodes"
  shows "fillFilelist MOCLOUD_FILETYPE_ALL nodes (concat bss) fl =
    Some (0, map (\<lambda>t. rev (of_type t (map bytes_fileinfo bss)) @ fl ! t) [0..<length fl])"
  using assms
proof (induction bss arbitrary: nodes fl)
  case Nil
  show ?case by (subst fillFilelist.simps) (simp add: of_type_def map_nth)
next
  case (Cons b bss)
  let ?i = "bytes_fileinfo b" let ?t = "unat (fi_filetype ?i)"
  have b: "length b = 312" "?t < length fl" "?t < 16" using Cons.prems by auto
  have "fillFilelist 15 nodes (concat (b # bss)) fl = fillFilelist 15 (nodes - 1) (concat bss) (fl[?t := ?i # fl ! ?t])"
    using b Cons.prems(3) by (subst fillFilelist.simps) (simp add: Let_def)
  also have "\<dots> = Some (0, map (\<lambda>t. rev (of_type t (map bytes_fileinfo bss)) @ fl[?t := ?i # fl ! ?t] ! t) [0..<length fl])"
    using Cons.IH [of "fl[?t := ?i # fl ! ?t]" "nodes - 1"] Cons.prems by auto
  finally show ?case using b(2) by (auto simp: of_type_Cons nth_list_update)
qed

lemma fillFilelist_skip:
  "length b = sizeof_BASIC_FILEINFO \<Longrightarrow> unat (fi_filetype (bytes_fileinfo b)) < length fl \<Longrightarrow> length fl \<le> 15 \<Longrightarrow> 0 < nodes \<Longrightarrow>
   fillFilelist MOCLOUD_FILETYPE_ALL nodes (b @ bs) fl =
     fillFilelist MOCLOUD_FILETYPE_ALL (nodes - 1) bs
       (fl[unat (fi_filetype (bytes_fileinfo b)) := bytes_fileinfo b # fl ! unat (fi_filetype (bytes_fileinfo b))])"
  by (subst fillFilelist.simps) (simp add: Let_def)

lemma freeTypes_all:
  assumes "length fl = 15"
  shows "freeTypes 1 15 fl = Some (fl[1 := [], 2 := [], 4 := [], 8 := []])"
  using assms by (simp add: freeTypes.simps)

lemma copyNodes_all: "length xs \<le> mem \<Longrightarrow> copyNodes mem xs acc = (True, mem - length xs, rev xs @ acc)"
  by (induction mem xs acc rule: copyNodes.induct) auto

text \<open>What \<open>gpFilelist\<close> is after a refresh of all types with the files \<open>infos\<close>.\<close>

definition filled :: "MOCLOUD_BASIC_FILEINFO list \<Rightarrow> MOCLOUD_BASIC_FILEINFO list list \<Rightarrow> MOCLOUD_BASIC_FILEINFO list list" where
  "filled infos fl = map (\<lambda>t. rev (of_type t infos) @ fl[1 := [], 2 := [], 4 := [], 8 := []] ! t) [0..<15]"

lemma setFilelistValue_all:
  assumes "\<forall>b \<in> set bss. length b = sizeof_BASIC_FILEINFO \<and> unat (fi_filetype (bytes_fileinfo b)) < 15"
    and "length fl = 15" and "length bss \<le> nodes"
  shows "setFilelistValue nodes (concat bss) MOCLOUD_FILETYPE_ALL fl = Some (0, filled (map bytes_fileinfo bss) fl)"
proof -
  let ?fl = "fl[1 := [], 2 := [], 4 := [], 8 := []]"
  have "freeLocalFilelist MOCLOUD_FILETYPE_ALL fl = Some (0, ?fl)"
    using freeTypes_all [OF assms(2)] by (simp add: freeLocalFilelist_def)
  moreover have "fillFilelist MOCLOUD_FILETYPE_ALL nodes (concat bss) ?fl = Some (0, filled (map bytes_fileinfo bss) fl)"
    using fillFilelist_all [of bss ?fl nodes] assms by (simp add: filled_def)
  ultimately show ?thesis by (simp add: setFilelistValue_def)
qed

lemma refreshFilelist_ready:
  assumes "ready e" and "gCliState s = CLI_STATE_LOGIN" and "wf_cresp r" and "cr_cmdId r = MOCLOUD_CMDID_GETFILELIST"
    and "sint (cr_bodyLen r) = int (length bs)" and "bs \<noteq> []"
    and "clean (c_in (ctrl s))" and "stream (c_in (ctrl s)) = cresp_bytes r @ bs @ rest" and "sends (ctrl s) (48 + k)"
  shows "\<exists>c. clean (c_in c) \<and> stream (c_in c) = rest \<and> sends c k \<and>
    refreshFilelist e MOCLOUD_FILETYPE_ALL s = do {
      (ret, fl) \<leftarrow> setFilelistValue (rq_nodes e) bs MOCLOUD_FILETYPE_ALL (gpFilelist s);
      Some (if ret < 0 then -7 else 0, s\<lparr>ctrl := c, gpFilelist := fl\<rparr>)
    }"
proof -
  let ?req = "(genRequest MOCLOUD_REQUEST_TYPE_NEED_RESPONSE MOCLOUD_CMDID_GETFILELIST 0)\<lparr>cq_addInfo := 15 # replicate 15 0\<rparr>"
  from sendHeader_sends [OF length_creq_type assms(9), of 15 MOCLOUD_REQUEST_TYPE_NEED_RESPONSE MOCLOUD_CMDID_GETFILELIST 0]
  obtain c1 where 1: "sendHeader True ?req (ctrl s) = Some (0, c1)" "c_in c1 = c_in (ctrl s)" "sends c1 k"
    by (elim exE conjE)
  obtain es where 2: "getRespHeader (rq_respMem e) (rq_sel e) MOCLOUD_CMDID_GETFILELIST c1 = Some (0, Some r, c1\<lparr>c_in := es\<rparr>)"
    "clean es" "stream es = bs @ rest"
    using getRespHeader_ready [OF assms(1,3) _ _ assms(4), of c1 "bs @ rest"] assms(7,8) 1(2) by auto
  obtain es' where 3: "getRespBody e (int (length bs)) (c1\<lparr>c_in := es\<rparr>) = Some (0, Some bs, c1\<lparr>c_in := es'\<rparr>)"
    "clean es'" "stream es' = rest"
    using getRespBody_ready [OF assms(1), of "c1\<lparr>c_in := es\<rparr>" bs rest] 2(2,3) by auto
  have z: "cr_bodyLen r \<noteq> 0" using assms(5,6) by auto
  show ?thesis
    using 1 2 3 z assms(1,2,5)
    by (intro exI [of _ "c1\<lparr>c_in := es'\<rparr>"]) (simp add: refreshFilelist_def ready_def sends_def Let_def split: option.split prod.split)
qed

lemma filled_lists:
  assumes "length fl = 15" and "t \<in> {1, 2, 4, 8}"
  shows "filled infos fl ! t = rev (of_type t infos)"
  using assms by (auto simp: filled_def nth_list_update numeral_2_eq_2)

lemma of_type_length: "length (of_type t infos) \<le> length infos"
  by (simp add: of_type_def)

lemma of_types_length: "length (of_type 1 infos) + length (of_type 2 infos) + length (of_type 4 infos) + length (of_type 8 infos) \<le> length infos"
  by (induction infos) (auto simp: of_type_def)

lemma getFilelist_filled:
  assumes "length fl = 15" and "gpFilelist s = filled infos fl" and "length infos \<le> mem"
  shows "t \<in> {1, 2, 4, 8} \<Longrightarrow> moCloudClient_getFilelist mem True t s = Some (0, of_type t infos)"
    and "moCloudClient_getFilelist mem True MOCLOUD_FILETYPE_ALL s =
      Some (0, of_type 8 infos @ of_type 4 infos @ of_type 2 infos @ of_type 1 infos)"
proof -
  have f: "filled infos fl ! t = rev (of_type t infos)" if "t \<in> {1, 2, 4, 8}" for t
    by (rule filled_lists [OF assms(1) that])
  have l: "length (filled infos fl) = 15" by (simp add: filled_def)
  have r: "rd (filled infos fl) t = Some (rev (of_type t infos))" if "t \<in> {1, 2, 4, 8}" for t
    using f [OF that] l that by auto
  show "moCloudClient_getFilelist mem True t s = Some (0, of_type t infos)" if "t \<in> {1, 2, 4, 8}"
    using that r [OF that] assms(2,3) of_type_length [of t infos]
    by (auto simp: moCloudClient_getFilelist_def copyTypes.simps copyNodes_all)
  show "moCloudClient_getFilelist mem True MOCLOUD_FILETYPE_ALL s =
      Some (0, of_type 8 infos @ of_type 4 infos @ of_type 2 infos @ of_type 1 infos)"
    using r assms(2,3) of_types_length [of infos]
    by (simp add: moCloudClient_getFilelist_def copyTypes.simps copyNodes_all)
qed

section \<open>Logging in\<close>

lemma userBody_ok: "length name + length pw < 76 \<Longrightarrow>
    \<exists>bs. userBody name pw = Some bs \<and> length bs = length name + length pw + 20"
  by (simp add: userBody_def Let_def)

text \<open>
  C31. Logging in, and the list of files: when the server answers the two requests, the client is logged
  in, and whoever asks for the files of one type gets those of the server with this type, in the order
  of the server; who asks for all files gets them sorted by type.
\<close>

theorem login_lists_files:
  assumes "\<not> userLenBad name" and "length pw < MOCLOUD_PASSWD_MAXLEN" and "ready e" and "ready e2"
    and "wf_cresp r1" and "cr_cmdId r1 = MOCLOUD_CMDID_LOGIN" and "cr_ret r1 = 0"
    and "wf_cresp r2" and "cr_cmdId r2 = MOCLOUD_CMDID_GETFILELIST" and "sint (cr_bodyLen r2) = int (length (concat bss))"
    and "bss \<noteq> []" and "length bss \<le> rq_nodes e2"
    and "\<forall>b \<in> set bss. length b = sizeof_BASIC_FILEINFO \<and> unat (fi_filetype (bytes_fileinfo b)) \<in> {1, 2, 4, 8}"
    and "clean (c_in (ctrl s))" and "stream (c_in (ctrl s)) = cresp_bytes r1 @ cresp_bytes r2 @ concat bss @ rest"
    and "sends (ctrl s) (48 + (length name + length pw + 20 + (48 + k)))" and "length (gpFilelist s) = 15"
  shows "\<exists>s'. moCloudClient_logIn e e2 (Some name) (Some pw) s = Some (0, s') \<and> gCliState s' = CLI_STATE_LOGIN \<and>
    stream (c_in (ctrl s')) = rest \<and>
    (\<forall>mem \<ge> length bss. (\<forall>t \<in> {1, 2, 4, 8}. moCloudClient_getFilelist mem True t s' = Some (0, of_type t (map bytes_fileinfo bss))) \<and>
      moCloudClient_getFilelist mem True MOCLOUD_FILETYPE_ALL s' = Some (0,
        of_type 8 (map bytes_fileinfo bss) @ of_type 4 (map bytes_fileinfo bss) @
        of_type 2 (map bytes_fileinfo bss) @ of_type 1 (map bytes_fileinfo bss)))"
proof -
  have nl: "length name \<le> 16" using assms(1) by (auto simp: userLenBad_def)
  obtain bs where bs: "userBody name pw = Some bs" "length bs = length name + length pw + 20"
    using userBody_ok [of name pw] assms(2) nl by auto
  from exchange_ready [OF assms(3,5,14,15,6), of bs "48 + k"] assms(16) bs(2)
  obtain c where 1: "exchange e MOCLOUD_CMDID_LOGIN bs (int (length bs)) (ctrl s) = Some (0, Some r1, c)"
    "clean (c_in c)" "stream (c_in c) = cresp_bytes r2 @ concat bss @ rest" "sends c (48 + k)" by auto
  let ?s = "s\<lparr>ctrl := c, gCurLoginUsername := name, gCurLoginPassword := pw, gCliState := CLI_STATE_LOGIN\<rparr>"
  have ne: "concat bss \<noteq> []" using assms(11,13) by (cases bss) auto
  obtain c2 where 2: "stream (c_in c2) = rest" "refreshFilelist e2 MOCLOUD_FILETYPE_ALL ?s = do {
      (ret, fl) \<leftarrow> setFilelistValue (rq_nodes e2) (concat bss) MOCLOUD_FILETYPE_ALL (gpFilelist ?s);
      Some (if ret < 0 then -7 else 0, ?s\<lparr>ctrl := c2, gpFilelist := fl\<rparr>)}"
    using refreshFilelist_ready [OF assms(4) _ assms(8,9,10) ne, of ?s rest k] 1 by auto
  have 3: "setFilelistValue (rq_nodes e2) (concat bss) MOCLOUD_FILETYPE_ALL (gpFilelist s) =
      Some (0, filled (map bytes_fileinfo bss) (gpFilelist s))"
    by (rule setFilelistValue_all) (use assms(12,13,17) in auto)
  let ?s' = "?s\<lparr>ctrl := c2, gpFilelist := filled (map bytes_fileinfo bss) (gpFilelist s)\<rparr>"
  have "moCloudClient_logIn e e2 (Some name) (Some pw) s = Some (0, ?s')"
    using assms(1,2,7) nl bs 1(1) 2(2) 3 by (simp add: moCloudClient_logIn_def)
  then show ?thesis
    using getFilelist_filled [OF assms(17), of ?s' "map bytes_fileinfo bss"] 2(1) by (intro exI [of _ ?s']) simp
qed

definition sample_cresp :: "u32 \<Rightarrow> nat \<Rightarrow> MOCLOUD_CTRL_RESPONSE" where
  "sample_cresp cmd len = \<lparr>cr_mark = mark_field MOCLOUD_MARK_SERVER, cr_cmdId = cmd, cr_ret = 0, cr_addInfo = replicate 16 0,
     cr_bodyLen = word_of_nat len, cr_crc32 = 0\<rparr>"

definition sample_cloud :: "byte list \<Rightarrow> CLOUD" where
  "sample_cloud bs = \<lparr>gCfgInfo = noCfg, cl_isInited = True, gCtrlSockId = 3, cl_crypt = noCrypt, gHeartbeatThrId = THR_RUNS,
     gCliState = CLI_STATE_NOT_LOGIN, gpFilelist = replicate 15 [], gCurLoginUsername = [], gCurLoginPassword = [],
     gRefreshFilelistSem = 0, gRefreshFilelistThId = THR_RUNS, gStopRefreshFilelistThr = False, gRefreshFilelistType = 16,
     ctrl = \<lparr>c_in = [Arrive bs], c_out = replicate 200 (Accept 1), c_sent = []\<rparr>, ctrlSocks = [3]\<rparr>"

definition sample_env :: REQENV where
  "sample_env = \<lparr>rq_mem = True, rq_respMem = True, rq_sel = (\<lambda>_. 1), rq_bodySel = 1, rq_bodyMem = True, rq_nodes = 9\<rparr>"

lemma sample_cresp_simps [simp]:
  "wf_cresp (sample_cresp cmd n)" "cr_cmdId (sample_cresp cmd n) = cmd" "cr_ret (sample_cresp cmd n) = 0"
  "cr_bodyLen (sample_cresp cmd n) = word_of_nat n" "ready sample_env" "rq_nodes sample_env = 9"
  by (simp_all add: sample_cresp_def wf_cresp_def ready_def sample_env_def)

lemma takers_replicate [simp]: "takers (replicate n (Accept k)) = n"
  by (induction n) auto

lemma sample_cresp_sent [simp]: "cresp_bytes (sample_cresp cmd n) \<noteq> []"
proof -
  have "length (cresp_bytes (sample_cresp cmd n)) = 48" by (rule length_cresp_bytes) simp
  then show ?thesis by (metis list.size(3) zero_neq_numeral)
qed

lemma sample_cloud_simps [simp]:
  "stream (c_in (ctrl (sample_cloud bs))) = bs" "clean (c_in (ctrl (sample_cloud bs))) = (bs \<noteq> [])"
  "sends (ctrl (sample_cloud bs)) n = (n \<le> 200)" "length (gpFilelist (sample_cloud bs)) = 15"
  by (simp_all add: sample_cloud_def sends_def list_all_length)

theorem login_lists_files_witness:
  "\<exists>s' infos. moCloudClient_logIn sample_env sample_env (Some ''nobody'') (Some ''secret'')
      (sample_cloud (cresp_bytes (sample_cresp MOCLOUD_CMDID_LOGIN 0) @ cresp_bytes (sample_cresp MOCLOUD_CMDID_GETFILELIST 312) @
        [2, 0, 0, 0] @ replicate 308 65)) = Some (0, s') \<and>
    length infos = 1 \<and> moCloudClient_getFilelist 5 True 2 s' = Some (0, infos)"
proof -
  let ?b = "[2, 0, 0, 0] @ replicate 308 65 :: byte list"
  let ?r1 = "sample_cresp MOCLOUD_CMDID_LOGIN 0" let ?r2 = "sample_cresp MOCLOUD_CMDID_GETFILELIST 312"
  let ?s = "sample_cloud (cresp_bytes ?r1 @ cresp_bytes ?r2 @ ?b)"
  have t: "unat (fi_filetype (bytes_fileinfo ?b)) = 2" by (simp add: bytes_fileinfo_def un_le32_def)
  obtain s' where s': "moCloudClient_logIn sample_env sample_env (Some ''nobody'') (Some ''secret'') ?s = Some (0, s')"
    "\<forall>mem \<ge> length [?b]. (\<forall>t \<in> {1, 2, 4, 8}. moCloudClient_getFilelist mem True t s' = Some (0, of_type t (map bytes_fileinfo [?b])))"
    using login_lists_files [of "''nobody''" "''secret''" sample_env sample_env ?r1 ?r2 "[?b]" ?s "[]" 0] t
    by (auto simp: userLenBad_def)
  then have "moCloudClient_getFilelist 5 True 2 s' = Some (0, of_type 2 (map bytes_fileinfo [?b]))" by simp
  moreover have "length (of_type 2 (map bytes_fileinfo [?b])) = 1" using t by (simp add: of_type_def)
  ultimately show ?thesis using s'(1) by blast
qed

section \<open>Logging out\<close>

text \<open>
  C32. Logging out works for names and passwords of 28 characters together only: the result of writing
  the body is compared with the length of the header, 48. In all other cases the request is sent and the
  server logs the user out, but the client reports an error and counts as logged in.
\<close>

theorem logOut_needs_28:
  assumes "ready e" and "length (gCurLoginUsername s) + length (gCurLoginPassword s) < 76"
    and "wf_cresp r" and "cr_cmdId r = MOCLOUD_CMDID_LOGOUT" and "cr_ret r = 0"
    and "clean (c_in (ctrl s))" and "stream (c_in (ctrl s)) = cresp_bytes r @ rest"
    and "sends (ctrl s) (48 + (length (gCurLoginUsername s) + length (gCurLoginPassword s) + 20 + k))"
  shows "\<exists>s' bs. userBody (gCurLoginUsername s) (gCurLoginPassword s) = Some bs \<and>
    c_sent (ctrl s') = c_sent (ctrl s) @ creq_bytes (genRequest MOCLOUD_REQUEST_TYPE_NEED_RESPONSE MOCLOUD_CMDID_LOGOUT (length bs)) @ bs \<and>
    (if length (gCurLoginUsername s) + length (gCurLoginPassword s) = 28
     then moCloudClient_logOut e s = Some (0, s') \<and> gCliState s' = CLI_STATE_NOT_LOGIN
     else moCloudClient_logOut e s = Some (MOCLOUDCLIENT_ERR_SEND_REQUEST, s') \<and> gCliState s' = gCliState s \<and>
       gCurLoginUsername s' = gCurLoginUsername s)"
proof -
  obtain bs where bs: "userBody (gCurLoginUsername s) (gCurLoginPassword s) = Some bs"
    "length bs = length (gCurLoginUsername s) + length (gCurLoginPassword s) + 20"
    using userBody_ok [OF assms(2)] by blast
  have sd: "sends (ctrl s) (48 + (length bs + k))" using assms(8) bs(2) by simp
  show ?thesis
  proof (cases "length bs = 48")
    case True
    obtain c where "exchange e MOCLOUD_CMDID_LOGOUT bs (int (length bs)) (ctrl s) = Some (0, Some r, c)"
      "c_sent c = c_sent (ctrl s) @ creq_bytes (genRequest MOCLOUD_REQUEST_TYPE_NEED_RESPONSE MOCLOUD_CMDID_LOGOUT (length bs)) @ bs"
      using exchange_ready [OF assms(1,3,6,7,4) sd] by auto
    then show ?thesis using True bs assms(5) by (simp add: moCloudClient_logOut_def)
  next
    case False
    let ?q = "genRequest MOCLOUD_REQUEST_TYPE_NEED_RESPONSE MOCLOUD_CMDID_LOGOUT (length bs)"
    from sendHeader_sends [OF length_creq sd, of MOCLOUD_REQUEST_TYPE_NEED_RESPONSE MOCLOUD_CMDID_LOGOUT "length bs"]
    obtain c1 where 1: "sendHeader True ?q (ctrl s) = Some (0, c1)" "c_sent c1 = c_sent (ctrl s) @ creq_bytes ?q"
      "sends c1 (length bs + k)" by (elim exE conjE)
    obtain c2 where 2: "conn_writen c1 bs (int (length bs)) = Some (int (length bs), c2)" "c_sent c2 = c_sent c1 @ bs"
      using conn_writen_sends [OF 1(3)] by blast
    have "exchange e MOCLOUD_CMDID_LOGOUT bs 48 (ctrl s) = Some (3, None, c2)"
      using 1(1) 2(1) assms(1) False by (simp add: exchange_def ready_def)
    then show ?thesis using False bs 1(2) 2(2) by (simp add: moCloudClient_logOut_def exchangeErr_def)
  qed
qed

theorem logOut_needs_28_witness:
  "\<exists>s'. moCloudClient_logOut sample_env ((sample_cloud (cresp_bytes (sample_cresp MOCLOUD_CMDID_LOGOUT 0)))
      \<lparr>gCliState := CLI_STATE_LOGIN, gCurLoginUsername := ''nobody'', gCurLoginPassword := ''secret''\<rparr>) = Some (-11, s') \<and>
    gCliState s' = CLI_STATE_LOGIN"
proof -
  let ?r = "sample_cresp MOCLOUD_CMDID_LOGOUT 0"
  let ?s = "(sample_cloud (cresp_bytes ?r))\<lparr>gCliState := CLI_STATE_LOGIN, gCurLoginUsername := ''nobody'', gCurLoginPassword := ''secret''\<rparr>"
  show ?thesis using logOut_needs_28 [of sample_env ?s ?r "[]" 0] by auto
qed

section \<open>Files of no single type\<close>

lemma fillFilelist_15:
  assumes "\<forall>b \<in> set bss. length b = sizeof_BASIC_FILEINFO \<and> unat (fi_filetype (bytes_fileinfo b)) < length fl"
    and "length fl = 15" and "length bss < nodes" and "length b = sizeof_BASIC_FILEINFO" and "unat (fi_filetype (bytes_fileinfo b)) = 15"
  shows "fillFilelist MOCLOUD_FILETYPE_ALL nodes (concat bss @ b @ bs) fl = None"
  using assms
proof (induction bss arbitrary: nodes fl)
  case Nil
  then show ?case by (subst fillFilelist.simps) (simp add: Let_def)
next
  case (Cons x bss)
  have "fillFilelist MOCLOUD_FILETYPE_ALL nodes (x @ concat bss @ b @ bs) fl = fillFilelist MOCLOUD_FILETYPE_ALL (nodes - 1) (concat bss @ b @ bs)
       (fl[unat (fi_filetype (bytes_fileinfo x)) := bytes_fileinfo x # fl ! unat (fi_filetype (bytes_fileinfo x))])"
    by (rule fillFilelist_skip) (use Cons.prems in auto)
  then show ?case using Cons.IH [of _ "nodes - 1"] Cons.prems by auto
qed

text \<open>
  The check of a file's type lets 15 pass, the number for all types, but the array of lists ends at
  14: a list of files from the server that contains such a file makes the client write behind the array.
\<close>

theorem file_type_15_overflows:
  assumes "ready e" and "gCliState s = CLI_STATE_LOGIN" and "wf_cresp r" and "cr_cmdId r = MOCLOUD_CMDID_GETFILELIST"
    and "sint (cr_bodyLen r) = int (length (concat bss @ b @ bs))"
    and "clean (c_in (ctrl s))" and "stream (c_in (ctrl s)) = cresp_bytes r @ concat bss @ b @ bs @ rest" and "sends (ctrl s) (48 + k)"
    and "length (gpFilelist s) = 15" and "length bss < rq_nodes e"
    and "\<forall>b \<in> set bss. length b = sizeof_BASIC_FILEINFO \<and> unat (fi_filetype (bytes_fileinfo b)) < 15"
    and "length b = sizeof_BASIC_FILEINFO" and "unat (fi_filetype (bytes_fileinfo b)) = MOCLOUD_FILETYPE_ALL"
  shows "refreshFilelist e MOCLOUD_FILETYPE_ALL s = None"
proof -
  let ?bs = "concat bss @ b @ bs"
  have ne: "?bs \<noteq> []" using assms(12) by auto
  obtain c where c: "refreshFilelist e MOCLOUD_FILETYPE_ALL s = do {
      (ret, fl) \<leftarrow> setFilelistValue (rq_nodes e) ?bs MOCLOUD_FILETYPE_ALL (gpFilelist s);
      Some (if ret < 0 then -7 else 0, s\<lparr>ctrl := c, gpFilelist := fl\<rparr>)}"
    using refreshFilelist_ready [OF assms(1-4) assms(5) ne assms(6) _ assms(8), of rest] assms(7) by auto
  have "setFilelistValue (rq_nodes e) ?bs MOCLOUD_FILETYPE_ALL (gpFilelist s) = None"
    using fillFilelist_15 [of bss "(gpFilelist s)[1 := [], 2 := [], 4 := [], 8 := []]"] freeTypes_all [OF assms(9)] assms(9-13)
    by (simp add: setFilelistValue_def freeLocalFilelist_def)
  then show ?thesis using c by simp
qed

theorem file_type_15_overflows_witness:
  "refreshFilelist sample_env MOCLOUD_FILETYPE_ALL ((sample_cloud (cresp_bytes (sample_cresp MOCLOUD_CMDID_GETFILELIST 312) @
      [15, 0, 0, 0] @ replicate 308 65))\<lparr>gCliState := CLI_STATE_LOGIN\<rparr>) = None"
proof -
  let ?r = "sample_cresp MOCLOUD_CMDID_GETFILELIST 312"
  show ?thesis
    by (rule file_type_15_overflows [of sample_env _ ?r "[]" "[15, 0, 0, 0] @ replicate 308 65" "[]" "[]" 0])
      (simp_all add: bytes_fileinfo_def un_le32_def)
qed

section \<open>Keys and passwords\<close>

definition wf_cka :: "MOCLOUD_KEYAGREE_RESPONSE \<Rightarrow> bool" where
  "wf_cka r \<longleftrightarrow> cka_mark r = mark_field MOCLOUD_MARK_SERVER \<and> length (ck_key (cka_info r)) = 256"

lemma cka_bytes_facts [simp]:
  assumes "wf_cka r"
  shows "length (cka_bytes r) = 292" "bytes_cka (cka_bytes r) = r"
  using assms by (simp_all add: wf_cka_def cka_bytes_def bytes_cka_def)

lemma un_le32_zeros: "un_le32 (replicate 4 0) = 0"
  by (simp add: un_le32_def)

lemma bytes_cka_front:
  assumes "wf_cka r"
  shows "cka_info (bytes_cka (take 48 (cka_bytes r) @ replicate 244 0)) =
    \<lparr>ck_algo = ck_algo (cka_info r), ck_key = take 20 (ck_key (cka_info r)) @ replicate 236 0, ck_keyLen = 0\<rparr>"
proof -
  have "take 48 (cka_bytes r) = cka_mark r @ le32 (cka_cmdId r) @ le32 (cka_ret r) @ le32 (ck_algo (cka_info r)) @ take 20 (ck_key (cka_info r))"
    using assms by (simp add: cka_bytes_def wf_cka_def)
  then show ?thesis using assms by (simp add: bytes_cka_def wf_cka_def un_le32_zeros)
qed

text \<open>
  The key agreement takes every response for a success, whatever its result says, and keeps only the
  first 20 bytes of the key with the length 0, because it copies as many bytes as a control response has.
\<close>

theorem agreed_key_is_truncated:
  assumes "ready e" and "wf_cka r" and "cka_cmdId r = MOCLOUD_CMDID_KEYAGREE"
    and "clean (c_in (ctrl s))" and "stream (c_in (ctrl s)) = cka_bytes r @ rest" and "sends (ctrl s) (24 + k)"
  shows "\<exists>s'. doKeyAgree e s = Some (0, s') \<and> stream (c_in (ctrl s')) = rest \<and>
    cl_crypt s' = \<lparr>ck_algo = ck_algo (cka_info r), ck_key = take 20 (ck_key (cka_info r)) @ replicate 236 0, ck_keyLen = 0\<rparr>"
proof -
  have l: "length genKeyAgreeRequest = 24" by (simp add: genKeyAgreeRequest_def Let_def)
  have g: "getCipherKeyAgreeReq True genKeyAgreeRequest = Some (0, genKeyAgreeRequest)"
    using l by (simp add: getCipherKeyAgreeReq_def moCloudUtilsCrypt_getCipherTxtLen_def moCloudUtilsCrypt_doCrypt_def)
  obtain c1 where 1: "conn_writen (ctrl s) genKeyAgreeRequest (int (length genKeyAgreeRequest)) = Some (int (length genKeyAgreeRequest), c1)"
    "c_in c1 = c_in (ctrl s)"
    by (rule conn_writen_sends [of "ctrl s" genKeyAgreeRequest k]) (use assms(6) l in auto)
  obtain es where es: "conn_readn c1 (replicate 292 0) (int 292) = Some (int 292, take 292 (stream (c_in c1)) @ drop 292 (replicate 292 0), c1\<lparr>c_in := es\<rparr>)"
    "stream es = drop 292 (stream (c_in c1))"
    by (rule conn_readn_clean [of c1 292 "replicate 292 0"]) (use assms(2,4,5) 1(2) in simp_all)
  have st: "take 292 (stream (c_in c1)) = cka_bytes r" using assms(2,5) 1(2) by simp
  have "keyAgreeLoop (rq_sel e) 0 c1 = Some (0, take 48 (cka_bytes r) @ replicate 244 0, c1\<lparr>c_in := es\<rparr>)"
    using es(1) assms(1-3) st
    by (simp add: keyAgreeLoop.simps [of _ 0] ready_def moCloudUtilsCrypt_getCipherTxtLen_def moCloudUtilsCrypt_doCrypt_def
        moCloudUtilsCheck_crcCheckValue_def wf_cka_def)
  then show ?thesis
    using g 1 es(2) assms(1,2,5) l by (simp add: doKeyAgree_def getKeyAgreeResp_def ready_def bytes_cka_front)
qed

theorem agreed_key_is_truncated_witness:
  "\<exists>s'. doKeyAgree sample_env (sample_cloud (cka_bytes \<lparr>cka_mark = mark_field MOCLOUD_MARK_SERVER, cka_cmdId = 0, cka_ret = 1,
      cka_info = \<lparr>ck_algo = 3, ck_key = replicate 256 7, ck_keyLen = 32\<rparr>, cka_crc32 = 0\<rparr>)) = Some (0, s') \<and>
    ck_keyLen (cl_crypt s') = 0"
proof -
  let ?r = "\<lparr>cka_mark = mark_field MOCLOUD_MARK_SERVER, cka_cmdId = 0, cka_ret = 1,
      cka_info = \<lparr>ck_algo = 3, ck_key = replicate 256 7, ck_keyLen = 32\<rparr>, cka_crc32 = 0\<rparr> :: MOCLOUD_KEYAGREE_RESPONSE"
  have w: "wf_cka ?r" by (simp add: wf_cka_def)
  have c: "cka_bytes ?r \<noteq> []" using cka_bytes_facts(1) [OF w] by (metis list.size(3) zero_neq_numeral)
  show ?thesis using agreed_key_is_truncated [of sample_env ?r "sample_cloud (cka_bytes ?r)" "[]" 0] w c by auto
qed

text \<open>
  The length of the password is not checked. A long one overflows the array on the stack in both
  functions, and one of 16 characters or more the global array once the server has accepted it.
\<close>

theorem long_password_overflows:
  assumes "\<not> userLenBad name" and "ready e" and "wf_cresp r" and "cr_cmdId r = MOCLOUD_CMDID_LOGIN" and "cr_ret r = 0"
    and "clean (c_in (ctrl s))" and "stream (c_in (ctrl s)) = cresp_bytes r @ rest"
    and "sends (ctrl s) (48 + (length name + length pw + 20 + k))"
  shows "(76 \<le> length name + length pw \<longrightarrow> moCloudClient_signUp e (Some name) (Some pw) s = None) \<and>
    (MOCLOUD_PASSWD_MAXLEN \<le> length pw \<longrightarrow> moCloudClient_logIn e e2 (Some name) (Some pw) s = None)"
proof (intro conjI impI)
  show "moCloudClient_signUp e (Some name) (Some pw) s = None" if "76 \<le> length name + length pw"
    using that assms(1) by (simp add: moCloudClient_signUp_def userBody_def Let_def)
  assume pw: "MOCLOUD_PASSWD_MAXLEN \<le> length pw"
  show "moCloudClient_logIn e e2 (Some name) (Some pw) s = None"
  proof (cases "userBody name pw")
    case None
    then show ?thesis using assms(1) by (simp add: moCloudClient_logIn_def)
  next
    case (Some bs)
    then have "length bs = length name + length pw + 20" by (auto simp: userBody_def Let_def split: if_splits)
    then obtain c where "exchange e MOCLOUD_CMDID_LOGIN bs (int (length bs)) (ctrl s) = Some (0, Some r, c)"
      using exchange_ready [OF assms(2,3,6,7,4), of bs k] assms(8) by auto
    then show ?thesis using assms(1,5) pw Some by (simp add: moCloudClient_logIn_def)
  qed
qed

theorem long_password_overflows_witness:
  "moCloudClient_logIn sample_env sample_env (Some ''nobody'') (Some ''0123456789abcdef'')
     (sample_cloud (cresp_bytes (sample_cresp MOCLOUD_CMDID_LOGIN 0))) = None"
proof -
  let ?r = "sample_cresp MOCLOUD_CMDID_LOGIN 0"
  show ?thesis
    using long_password_overflows [of "''nobody''" sample_env ?r "sample_cloud (cresp_bytes ?r)" "[]" "''0123456789abcdef''" 0 sample_env]
    by (simp add: userLenBad_def)
qed

end
