(* ===== verification/MoCloudTasks.thy ===== *)
theory MoCloudTasks
  imports MoCloudUtils
begin

text \<open>
  The journal of downloads of the cloud client, from
  \<open>moProject/moCloud/moCloudClientLib/src/moCloudClientLib.c\<close>: the tasks in memory, and the file that keeps
  them until the next start, a sequence of units of 1336 bytes each with a mark and a checksum.

  The file is a list of units; \<open>infoTorn\<close> says that a part of another unit follows. All accesses are to
  whole units at multiples of their size. The reserved bytes of a unit are left out, because nothing reads
  them. Reading after writing without a positioning call in between, which \<open>initDwldTasksInfo\<close> does, is taken to
  work, as in the GNU C library. The properties show what survives a restart, and what does not.
\<close>

abbreviation (input) sizeof_UNIT_INFO :: nat where "sizeof_UNIT_INFO \<equiv> 1336"
abbreviation (input) INVALID_FILEID :: int where "INVALID_FILEID \<equiv> -1"

record MOCLOUDCLIENT_DWLD_INFO =
  di_key :: MOCLOUD_FILEINFO_KEY
  di_fileLength :: nat
  di_localFilepath :: string
  di_unitId :: int
  di_isDwlding :: bool

record DWLD_FILE_UNIT_INFO =
  u_mark :: "byte list"
  u_isUsing :: bool
  u_dwldInfo :: MOCLOUDCLIENT_DWLD_INFO
  u_checkSum :: byte

record DWLD_TASK_INFO =
  dwldInfo :: MOCLOUDCLIENT_DWLD_INFO
  ti_offset :: nat
  ti_fileId :: int

text \<open>The descriptor, the list behind its head node (\<open>None\<close> when there is no head), and the file.\<close>

record TASKS =
  gDwldInfofileFd :: bool
  gDwldTasks :: "DWLD_TASK_INFO list option"
  infoFile :: "DWLD_FILE_UNIT_INFO list option"
  infoTorn :: bool

definition noUnit :: DWLD_FILE_UNIT_INFO where
  "noUnit = \<lparr>u_mark = replicate 16 0, u_isUsing = False, u_dwldInfo = \<lparr>di_key = \<lparr>filetype = 0, filename = []\<rparr>,
     di_fileLength = 0, di_localFilepath = [], di_unitId = 0, di_isDwlding = False\<rparr>, u_checkSum = 0\<rparr>"

section \<open>Units of the file\<close>

text \<open>\<open>fread\<close> at an offset to a cleared struct, and \<open>fwrite\<close>: a gap in front is filled with zeros.\<close>

definition readUnit :: "nat \<Rightarrow> DWLD_FILE_UNIT_INFO list \<Rightarrow> DWLD_FILE_UNIT_INFO" where
  "readUnit off us = (let k = off div sizeof_UNIT_INFO in if k < length us then us ! k else noUnit)"

definition writeUnit :: "nat \<Rightarrow> DWLD_FILE_UNIT_INFO \<Rightarrow> DWLD_FILE_UNIT_INFO list \<Rightarrow> DWLD_FILE_UNIT_INFO list" where
  "writeUnit off u us = (let k = off div sizeof_UNIT_INFO in take k (us @ replicate (k - length us) noUnit) @ u # drop (k + 1) us)"

text \<open>\<open>strcpy\<close> of the mark over what is in the field.\<close>

definition setMark :: "byte list \<Rightarrow> byte list" where
  "setMark old = MOCLOUD_MARK_DWLD @ [0] @ drop (length MOCLOUD_MARK_DWLD + 1) old"

definition withSum :: "DWLD_FILE_UNIT_INFO \<Rightarrow> DWLD_FILE_UNIT_INFO" where
  "withSum u = u\<lparr>u_checkSum := snd (moCloudUtilsCheck_checksumGetValue [] (sizeof_UNIT_INFO - 1))\<rparr>"

section \<open>Reading the journal\<close>

text \<open>
  The loop of \<open>initDwldTasksInfo\<close>, from offset \<open>off\<close> on; \<open>mem\<close> nodes can be allocated. The result says whether
  the file is good, and gives the units as they are now in the file, and the tasks.
\<close>

fun readTasks :: "nat \<Rightarrow> nat \<Rightarrow> DWLD_FILE_UNIT_INFO list \<Rightarrow> DWLD_TASK_INFO list \<Rightarrow>
    bool \<times> DWLD_FILE_UNIT_INFO list \<times> DWLD_TASK_INFO list" where
  "readTasks mem off [] ts = (True, [], ts)"
| "readTasks mem off (u # us) ts =
     (if \<not> mark_is (u_mark u) MOCLOUD_MARK_DWLD then (False, u # us, ts)
      else if moCloudUtilsCheck_checksumCheckValue [] (sizeof_UNIT_INFO - 1) (u_checkSum u) = 0 then (False, u # us, ts)
      else let u' = (if u_isUsing u \<and> di_isDwlding (u_dwldInfo u)
                     then withSum (u\<lparr>u_dwldInfo := (u_dwldInfo u)\<lparr>di_isDwlding := False\<rparr>\<rparr>) else u)
        in if u_isUsing u then
             if mem = 0 then (False, u' # us, ts)
             else let (ok, us', ts') = readTasks (mem - 1) (off + sizeof_UNIT_INFO) us
                    (\<lparr>dwldInfo = (u_dwldInfo u)\<lparr>di_isDwlding := False\<rparr>, ti_offset = off, ti_fileId = INVALID_FILEID\<rparr> # ts)
               in (ok, u' # us', ts')
           else let (ok, us', ts') = readTasks mem (off + sizeof_UNIT_INFO) us ts in (ok, u' # us', ts'))"

text \<open>
  \<open>opens\<close> and \<open>reopens\<close> say whether the two calls of \<open>fopen\<close> succeed, \<open>head\<close> whether there is memory for the
  head node. A file in a wrong format is cleared.
\<close>

definition initDwldTasksInfo :: "bool \<Rightarrow> bool \<Rightarrow> bool \<Rightarrow> nat \<Rightarrow> TASKS \<Rightarrow> int \<times> TASKS" where
  "initDwldTasksInfo opens reopens head mem d =
     (if gDwldInfofileFd d \<or> gDwldTasks d \<noteq> None then (-1, d)
      else case infoFile d of
          None \<Rightarrow>
            if \<not> opens then (-2, d)
            else if \<not> head then (-3, d\<lparr>infoFile := Some [], infoTorn := False\<rparr>)
            else (0, d\<lparr>gDwldInfofileFd := True, infoFile := Some [], infoTorn := False, gDwldTasks := Some []\<rparr>)
        | Some us \<Rightarrow>
            if \<not> opens then (-4, d)
            else if \<not> head then (-5, d)
            else let (ok, us', ts) = readTasks mem 0 us [] in
              if ok \<and> \<not> infoTorn d then (0, d\<lparr>gDwldInfofileFd := True, infoFile := Some us', gDwldTasks := Some ts\<rparr>)
              else if \<not> reopens then (-6, d\<lparr>infoFile := Some us'\<rparr>)
              else (0, d\<lparr>gDwldInfofileFd := True, infoFile := Some [], infoTorn := False, gDwldTasks := Some []\<rparr>))"

definition uninitDwldTasksInfo :: "TASKS \<Rightarrow> TASKS" where
  "uninitDwldTasksInfo d = d\<lparr>gDwldInfofileFd := False, gDwldTasks := None\<rparr>"

section \<open>Looking tasks up\<close>

text \<open>
  The copies for the caller: the first task, and behind it the others in reverse. Without memory for all
  of them the result is \<open>NULL\<close>.
\<close>

definition copyInfos :: "nat \<Rightarrow> MOCLOUDCLIENT_DWLD_INFO list \<Rightarrow> MOCLOUDCLIENT_DWLD_INFO list" where
  "copyInfos mem xs = (if mem < length xs then [] else case xs of [] \<Rightarrow> [] | x # xs \<Rightarrow> x # rev xs)"

definition moCloudClient_getAllDwldTasks :: "nat \<Rightarrow> TASKS \<Rightarrow> MOCLOUDCLIENT_DWLD_INFO list" where
  "moCloudClient_getAllDwldTasks mem d = (case gDwldTasks d of None \<Rightarrow> [] | Some ts \<Rightarrow> copyInfos mem (map dwldInfo ts))"

definition moCloudClient_getDwldingTasks :: "nat \<Rightarrow> TASKS \<Rightarrow> MOCLOUDCLIENT_DWLD_INFO list" where
  "moCloudClient_getDwldingTasks mem d =
     (case gDwldTasks d of None \<Rightarrow> [] | Some ts \<Rightarrow> copyInfos mem (filter di_isDwlding (map dwldInfo ts)))"

text \<open>The loops of \<open>getFileId\<close> and \<open>getDwldFileInfo\<close> do not go to the next task.\<close>

partial_function (option) getFileIdLoop :: "MOCLOUD_FILEINFO_KEY \<Rightarrow> DWLD_TASK_INFO list \<Rightarrow> (int \<times> int) option" where
  "getFileIdLoop k ts =
     (case ts of
        [] \<Rightarrow> Some (-2, INVALID_FILEID)
      | t # _ \<Rightarrow> if di_key (dwldInfo t) = k then Some (0, ti_fileId t) else getFileIdLoop k ts)"

partial_function (option) getDwldFileInfoLoop :: "MOCLOUD_FILEINFO_KEY \<Rightarrow> DWLD_TASK_INFO list \<Rightarrow> (int \<times> int \<times> string) option" where
  "getDwldFileInfoLoop k ts =
     (case ts of
        [] \<Rightarrow> Some (-2, 0, [])
      | t # _ \<Rightarrow> if di_key (dwldInfo t) = k then Some (0, ti_fileId t, di_localFilepath (dwldInfo t)) else getDwldFileInfoLoop k ts)"

declare getFileIdLoop.simps [code] getDwldFileInfoLoop.simps [code]

definition getFileId :: "MOCLOUD_FILEINFO_KEY \<Rightarrow> TASKS \<Rightarrow> (int \<times> int) option" where
  "getFileId k d = do {
     ts \<leftarrow> gDwldTasks d;
     getFileIdLoop k ts
   }"

definition getDwldFileInfo :: "MOCLOUD_FILEINFO_KEY \<Rightarrow> TASKS \<Rightarrow> (int \<times> int \<times> string) option" where
  "getDwldFileInfo k d = do {
     ts \<leftarrow> gDwldTasks d;
     getDwldFileInfoLoop k ts
   }"

section \<open>Updates\<close>

text \<open>The index of the first, and of the last task with a property.\<close>

definition firstTask :: "(DWLD_TASK_INFO \<Rightarrow> bool) \<Rightarrow> DWLD_TASK_INFO list \<Rightarrow> nat option" where
  "firstTask P ts = find (\<lambda>i. P (ts ! i)) [0..<length ts]"

definition lastTask :: "(DWLD_TASK_INFO \<Rightarrow> bool) \<Rightarrow> DWLD_TASK_INFO list \<Rightarrow> nat option" where
  "lastTask P ts = find (\<lambda>i. P (ts ! i)) (rev [0..<length ts])"

text \<open>
  The part of \<open>setDwldProgress\<close> under the mutex. The second result is the key for which the function then
  calls \<open>moCloudClient_stopDownloadFile\<close>.
\<close>

definition setDwldProgress :: "int \<Rightarrow> int \<Rightarrow> bool \<Rightarrow> TASKS \<Rightarrow> (MOCLOUD_FILEINFO_KEY option \<times> TASKS) option" where
  "setDwldProgress fileId unitId eof d =
     (case gDwldTasks d of
        None \<Rightarrow> Some (None, d)
      | Some ts \<Rightarrow>
          (case firstTask (\<lambda>t. ti_fileId t = fileId) ts of
             None \<Rightarrow> Some (None, d)
           | Some i \<Rightarrow>
               let t = ts ! i in
               if \<not> di_isDwlding (dwldInfo t) then Some (None, d)
               else if \<not> gDwldInfofileFd d then None
               else do {
                 us \<leftarrow> infoFile d;
                 let t = t\<lparr>dwldInfo := (dwldInfo t)\<lparr>di_unitId := unitId\<rparr>\<rparr>;
                 let u = withSum (noUnit\<lparr>u_dwldInfo := dwldInfo t, u_isUsing := \<not> eof, u_mark := setMark (u_mark noUnit)\<rparr>);
                 Some (if eof then Some (di_key (dwldInfo t)) else None,
                   d\<lparr>gDwldTasks := Some (ts[i := t]), infoFile := Some (writeUnit (ti_offset t) u us)\<rparr>)
               }))"

text \<open>
  The third result is \<open>*pStartOffset\<close>. \<open>sizeof(MOCLOUD_DATA_UNIT_LEN)\<close> is the size of the number 1024, an
  \<open>int\<close>. A path of 512 characters or more does not fit.
\<close>

abbreviation (input) sizeof_DATA_UNIT_LEN :: int where "sizeof_DATA_UNIT_LEN \<equiv> 4"

definition getOneDwldNode :: "bool \<Rightarrow> MOCLOUD_FILEINFO_KEY \<Rightarrow> nat \<Rightarrow> string \<Rightarrow> TASKS \<Rightarrow> (int \<times> int \<times> TASKS) option" where
  "getOneDwldNode mem k filesize path d = do {
     ts \<leftarrow> gDwldTasks d;
     if length (filter (\<lambda>t. di_isDwlding (dwldInfo t)) ts) \<ge> MOCLOUD_DWLD_TASK_MAX_NUM then Some (-1, 0, d)
     else (case lastTask (\<lambda>t. di_key (dwldInfo t) = k) ts of
         None \<Rightarrow>
           if \<not> mem then Some (-2, 0, d)
           else if \<not> gDwldInfofileFd d \<or> length path \<ge> MOCLOUD_FILEPATH_MAXLEN then None
           else do {
             us \<leftarrow> infoFile d;
             let n = length (takeWhile u_isUsing us);
             let old = (if n < length us then us ! n else if us = [] then noUnit else last us);
             let info = \<lparr>di_key = k, di_fileLength = filesize, di_localFilepath = path, di_unitId = 0, di_isDwlding = True\<rparr>;
             let u = withSum (old\<lparr>u_mark := setMark (u_mark old), u_isUsing := True, u_dwldInfo := info\<rparr>);
             let off = n * sizeof_UNIT_INFO;
             Some (0, 0, d\<lparr>gDwldTasks := Some (\<lparr>dwldInfo = info, ti_offset = off, ti_fileId = INVALID_FILEID\<rparr> # ts),
               infoFile := Some (writeUnit off u us)\<rparr>)
           }
       | Some i \<Rightarrow>
           let t = ts ! i in
           if di_isDwlding (dwldInfo t) then Some (-3, 0, d)
           else if \<not> gDwldInfofileFd d then None
           else do {
             us \<leftarrow> infoFile d;
             let u = readUnit (ti_offset t) us;
             let u = u\<lparr>u_isUsing := True, u_dwldInfo := (u_dwldInfo u)\<lparr>di_isDwlding := True\<rparr>\<rparr>;
             Some (0, sint (word_of_int (di_unitId (dwldInfo t) * sizeof_DATA_UNIT_LEN) :: u32),
               d\<lparr>gDwldTasks := Some (ts[i := t\<lparr>dwldInfo := (dwldInfo t)\<lparr>di_isDwlding := True\<rparr>\<rparr>]),
                 infoFile := Some (writeUnit (ti_offset t) u us)\<rparr>)
           })
   }"

definition delDwldNode :: "MOCLOUD_FILEINFO_KEY \<Rightarrow> TASKS \<Rightarrow> (int \<times> TASKS) option" where
  "delDwldNode k d = do {
     ts \<leftarrow> gDwldTasks d;
     (case firstTask (\<lambda>t. di_key (dwldInfo t) = k) ts of
        None \<Rightarrow> Some (-1, d)
      | Some i \<Rightarrow>
          if \<not> gDwldInfofileFd d then None
          else do {
            us \<leftarrow> infoFile d;
            let u = readUnit (ti_offset (ts ! i)) us;
            let u = withSum (u\<lparr>u_isUsing := False, u_dwldInfo := (u_dwldInfo u)\<lparr>di_isDwlding := False\<rparr>\<rparr>);
            Some (0, d\<lparr>gDwldTasks := Some (take i ts @ drop (i + 1) ts),
              infoFile := Some (writeUnit (ti_offset (ts ! i)) u us)\<rparr>)
          })
   }"

text \<open>
  \<open>pDwldNode\<close>, the node that \<open>getOneDwldNode\<close> hands out, is the last one with the key; \<open>cliDataStartDwld\<close> stores
  the number of the download there.
\<close>

definition nodeOf :: "MOCLOUD_FILEINFO_KEY \<Rightarrow> TASKS \<Rightarrow> nat option" where
  "nodeOf k d = (case gDwldTasks d of None \<Rightarrow> None | Some ts \<Rightarrow> lastTask (\<lambda>t. di_key (dwldInfo t) = k) ts)"

definition setFileId :: "nat \<Rightarrow> int \<Rightarrow> TASKS \<Rightarrow> TASKS" where
  "setFileId i v d = d\<lparr>gDwldTasks := map_option (\<lambda>ts. ts[i := (ts ! i)\<lparr>ti_fileId := v\<rparr>]) (gDwldTasks d)\<rparr>"

section \<open>The journal agrees with the tasks\<close>

definition good_unit :: "DWLD_FILE_UNIT_INFO \<Rightarrow> bool" where
  "good_unit u \<longleftrightarrow> mark_is (u_mark u) MOCLOUD_MARK_DWLD \<and> u_checkSum u = CHECKSUM_STUB_VALUE"

text \<open>The tasks are the units in use, each at its offset.\<close>

definition journalled :: "DWLD_TASK_INFO list \<Rightarrow> DWLD_FILE_UNIT_INFO list \<Rightarrow> bool" where
  "journalled ts us \<longleftrightarrow> (\<forall>u \<in> set us. good_unit u) \<and> distinct (map ti_offset ts) \<and>
     (\<forall>t \<in> set ts. \<exists>k < length us. ti_offset t = k * sizeof_UNIT_INFO \<and> u_isUsing (us ! k) \<and> u_dwldInfo (us ! k) = dwldInfo t) \<and>
     (\<forall>k < length us. u_isUsing (us ! k) \<longrightarrow> k * sizeof_UNIT_INFO \<in> ti_offset ` set ts)"

definition journal :: "TASKS \<Rightarrow> bool" where
  "journal d \<longleftrightarrow> gDwldInfofileFd d \<and> \<not> infoTorn d \<and>
     (\<exists>ts us. gDwldTasks d = Some ts \<and> infoFile d = Some us \<and> journalled ts us)"

lemma writeUnit_eq:
  "k \<le> length us \<Longrightarrow> writeUnit (k * sizeof_UNIT_INFO) u us = (if k < length us then us[k := u] else us @ [u])"
  by (auto simp: writeUnit_def Let_def upd_conv_take_nth_drop)

lemma readUnit_eq: "k < length us \<Longrightarrow> readUnit (k * sizeof_UNIT_INFO) us = us ! k"
  by (simp add: readUnit_def)

lemma withSum_simps [simp]:
  "u_mark (withSum u) = u_mark u" "u_isUsing (withSum u) = u_isUsing u" "u_dwldInfo (withSum u) = u_dwldInfo u"
  "u_checkSum (withSum u) = CHECKSUM_STUB_VALUE"
  by (simp_all add: withSum_def moCloudUtilsCheck_checksumGetValue_def)

lemma setMark_is [simp]: "mark_is (setMark old) MOCLOUD_MARK_DWLD"
  by (simp add: setMark_def mark_is_def)

lemma journalled_nth:
  assumes "journalled ts us" and "i < length ts"
  obtains k where "k < length us" and "ti_offset (ts ! i) = k * sizeof_UNIT_INFO" and "u_isUsing (us ! k)"
    and "u_dwldInfo (us ! k) = dwldInfo (ts ! i)" and "good_unit (us ! k)"
proof -
  have "ts ! i \<in> set ts" using assms(2) by simp
  then obtain k where "k < length us" "ti_offset (ts ! i) = k * sizeof_UNIT_INFO" "u_isUsing (us ! k)" "u_dwldInfo (us ! k) = dwldInfo (ts ! i)"
    using assms(1) unfolding journalled_def by blast
  moreover have "good_unit (us ! k)" using assms(1) calculation(1) unfolding journalled_def by auto
  ultimately show ?thesis by (rule that)
qed

lemma journalled_other:
  assumes "journalled ts us" and "i < length ts" and "j < length ts" and "i \<noteq> j"
  shows "ti_offset (ts ! i) \<noteq> ti_offset (ts ! j)"
  using assms nth_eq_iff_index_eq [of "map ti_offset ts" i j] unfolding journalled_def by auto

lemma journalled_change:
  assumes "journalled ts us" and "i < length ts" and "ti_offset t = ti_offset (ts ! i)" and "good_unit u" and "u_isUsing u"
    and "u_dwldInfo u = dwldInfo t"
  shows "journalled (ts[i := t]) (writeUnit (ti_offset (ts ! i)) u us)"
proof -
  obtain k where k: "k < length us" "ti_offset (ts ! i) = k * sizeof_UNIT_INFO"
    by (rule journalled_nth [OF assms(1,2)]) blast
  have w: "writeUnit (ti_offset (ts ! i)) u us = us[k := u]" using k by (simp add: writeUnit_eq)
  have m: "map ti_offset (ts[i := t]) = map ti_offset ts"
    using assms(2,3) by (simp add: map_update list_update_same_conv)
  have im: "ti_offset ` set (ts[i := t]) = ti_offset ` set ts" using m by (metis list.set_map)
  have "\<exists>n < length (us[k := u]). ti_offset x = n * sizeof_UNIT_INFO \<and> u_isUsing (us[k := u] ! n) \<and> u_dwldInfo (us[k := u] ! n) = dwldInfo x"
    if x: "x \<in> set (ts[i := t])" for x
  proof -
    obtain j where j: "j < length ts" "x = ts[i := t] ! j" using x by (auto simp: in_set_conv_nth)
    show ?thesis
    proof (cases "j = i")
      case True
      then show ?thesis using j k assms(2,3,5,6) by (intro exI [of _ k]) auto
    next
      case False
      obtain n where n: "n < length us" "ti_offset (ts ! j) = n * sizeof_UNIT_INFO" "u_isUsing (us ! n)" "u_dwldInfo (us ! n) = dwldInfo (ts ! j)"
        by (rule journalled_nth [OF assms(1) j(1)]) blast
      have "n \<noteq> k" using journalled_other [OF assms(1,2) j(1)] False n(2) k(2) by auto
      then show ?thesis using n j(2) False by (intro exI [of _ n]) auto
    qed
  qed
  moreover have "n * sizeof_UNIT_INFO \<in> ti_offset ` set (ts[i := t])"
    if n: "n < length (us[k := u])" "u_isUsing (us[k := u] ! n)" for n
  proof (cases "n = k")
    case True
    then show ?thesis using im k(2) assms(2) by (metis image_eqI nth_mem)
  next
    case False
    then show ?thesis using n im assms(1) unfolding journalled_def by auto
  qed
  moreover have "\<forall>x \<in> set (us[k := u]). good_unit x"
    using assms(1,4) set_update_subset_insert [of us k u] unfolding journalled_def by auto
  moreover have "distinct (map ti_offset (ts[i := t]))" using m assms(1) unfolding journalled_def by simp
  ultimately show ?thesis unfolding journalled_def w by blast
qed

lemma journalled_new:
  assumes "journalled ts us" and "n = length (takeWhile u_isUsing us)" and "good_unit u" and "u_isUsing u"
    and "u_dwldInfo u = dwldInfo t" and "ti_offset t = n * sizeof_UNIT_INFO"
  shows "journalled (t # ts) (writeUnit (n * sizeof_UNIT_INFO) u us)"
proof -
  have n: "n \<le> length us" using assms(2) by (simp add: length_takeWhile_le)
  have free: "\<not> u_isUsing (us ! n)" if "n < length us" using that assms(2) nth_length_takeWhile [of u_isUsing us] by simp
  let ?us = "writeUnit (n * sizeof_UNIT_INFO) u us"
  have w: "?us = (if n < length us then us[n := u] else us @ [u])" by (rule writeUnit_eq [OF n])
  have at: "?us ! n = u" "n < length ?us" using n w by (auto simp: nth_append)
  have old: "?us ! k = us ! k" "k < length ?us" if "k < length us" "k \<noteq> n" for k using that w by (auto simp: nth_append)
  have len: "k < length us \<or> k = n" if "k < length ?us" for k using that w n by (auto split: if_splits)
  have "\<exists>k < length ?us. ti_offset x = k * sizeof_UNIT_INFO \<and> u_isUsing (?us ! k) \<and> u_dwldInfo (?us ! k) = dwldInfo x \<and> k \<noteq> n"
    if x: "x \<in> set ts" for x
  proof -
    obtain k where k: "k < length us" "ti_offset x = k * sizeof_UNIT_INFO" "u_isUsing (us ! k)" "u_dwldInfo (us ! k) = dwldInfo x"
      using x assms(1) unfolding journalled_def by blast
    have "k \<noteq> n" using k(1,3) free by auto
    then show ?thesis using k old [OF k(1)] by (intro exI [of _ k]) auto
  qed
  note tasks = this
  have "n * sizeof_UNIT_INFO \<notin> ti_offset ` set ts" using tasks by force
  moreover have "\<forall>x \<in> set ?us. good_unit x"
    using assms(1,3) set_update_subset_insert [of us n u] unfolding journalled_def w by auto
  moreover have "k * sizeof_UNIT_INFO \<in> ti_offset ` set (t # ts)" if "k < length ?us" "u_isUsing (?us ! k)" for k
    using len [OF that(1)] that(2) old [of k] assms(1,6) unfolding journalled_def by (cases "k = n") auto
  moreover have "\<exists>k < length ?us. ti_offset x = k * sizeof_UNIT_INFO \<and> u_isUsing (?us ! k) \<and> u_dwldInfo (?us ! k) = dwldInfo x"
    if "x \<in> set (t # ts)" for x
    using that tasks [of x] at assms(4-6) by auto
  ultimately show ?thesis using assms(1,6) unfolding journalled_def by auto
qed

lemma journalled_remove:
  assumes "journalled ts us" and "i < length ts" and "good_unit u" and "\<not> u_isUsing u"
  shows "journalled (take i ts @ drop (i + 1) ts) (writeUnit (ti_offset (ts ! i)) u us)"
proof -
  obtain k where k: "k < length us" "ti_offset (ts ! i) = k * sizeof_UNIT_INFO"
    by (rule journalled_nth [OF assms(1,2)]) blast
  have w: "writeUnit (ti_offset (ts ! i)) u us = us[k := u]" using k by (simp add: writeUnit_eq)
  let ?ts = "take i ts @ drop (i + 1) ts"
  have ts: "ts = take i ts @ ts ! i # drop (i + 1) ts" using assms(2) by (simp add: id_take_nth_drop [symmetric])
  have d: "distinct (map ti_offset (take i ts @ ts ! i # drop (i + 1) ts))" using assms(1) ts unfolding journalled_def by simp
  have ne: "ti_offset x \<noteq> k * sizeof_UNIT_INFO" if "x \<in> set ?ts" for x using that d k(2) by force
  have sub: "set ?ts \<subseteq> set ts" by (metis Un_subset_iff set_append set_drop_subset set_take_subset)
  have mem: "x \<in> set ?ts" if "x \<in> set ts" "ti_offset x \<noteq> k * sizeof_UNIT_INFO" for x
    using that ts k(2) by (metis in_set_conv_decomp set_ConsD Un_iff set_append)
  have "\<exists>n < length (us[k := u]). ti_offset x = n * sizeof_UNIT_INFO \<and> u_isUsing (us[k := u] ! n) \<and> u_dwldInfo (us[k := u] ! n) = dwldInfo x"
    if x: "x \<in> set ?ts" for x
  proof -
    obtain n where n: "n < length us" "ti_offset x = n * sizeof_UNIT_INFO" "u_isUsing (us ! n)" "u_dwldInfo (us ! n) = dwldInfo x"
      using x sub assms(1) unfolding journalled_def by blast
    have "n \<noteq> k" using ne [OF x] n(2) by auto
    then show ?thesis using n by (intro exI [of _ n]) auto
  qed
  moreover have "n * sizeof_UNIT_INFO \<in> ti_offset ` set ?ts" if n: "n < length (us[k := u])" "u_isUsing (us[k := u] ! n)" for n
  proof -
    have nk: "n \<noteq> k" using n assms(4) k(1) by auto
    then have "n * sizeof_UNIT_INFO \<in> ti_offset ` set ts" using n assms(1) unfolding journalled_def by auto
    then obtain x where "x \<in> set ts" "ti_offset x = n * sizeof_UNIT_INFO" by auto
    then show ?thesis using mem [of x] nk by force
  qed
  moreover have "\<forall>x \<in> set (us[k := u]). good_unit x"
    using assms(1,3) set_update_subset_insert [of us k u] unfolding journalled_def by auto
  moreover have "distinct (map ti_offset ?ts)" using d by auto
  ultimately show ?thesis unfolding journalled_def w by blast
qed

section \<open>What the loop over the file finds\<close>

abbreviation (input) stopped :: "MOCLOUDCLIENT_DWLD_INFO \<Rightarrow> MOCLOUDCLIENT_DWLD_INFO" where
  "stopped i \<equiv> i\<lparr>di_isDwlding := False\<rparr>"

definition calm :: "DWLD_FILE_UNIT_INFO \<Rightarrow> DWLD_FILE_UNIT_INFO" where
  "calm u = (if u_isUsing u \<and> di_isDwlding (u_dwldInfo u) then withSum (u\<lparr>u_dwldInfo := stopped (u_dwldInfo u)\<rparr>) else u)"

fun tasksOf :: "nat \<Rightarrow> DWLD_FILE_UNIT_INFO list \<Rightarrow> DWLD_TASK_INFO list" where
  "tasksOf off [] = []"
| "tasksOf off (u # us) =
     (if u_isUsing u then [\<lparr>dwldInfo = stopped (u_dwldInfo u), ti_offset = off, ti_fileId = INVALID_FILEID\<rparr>] else []) @
     tasksOf (off + sizeof_UNIT_INFO) us"

lemma calm_simps [simp]:
  "u_isUsing (calm u) = u_isUsing u" "good_unit u \<Longrightarrow> good_unit (calm u)"
  "u_isUsing u \<Longrightarrow> u_dwldInfo (calm u) = stopped (u_dwldInfo u)"
  by (auto simp: calm_def good_unit_def)

lemma readTasks_good:
  "\<forall>u \<in> set us. good_unit u \<Longrightarrow> length (filter u_isUsing us) \<le> mem \<Longrightarrow>
   readTasks mem off us ts = (True, map calm us, rev (tasksOf off us) @ ts)"
proof (induction us arbitrary: mem off ts)
  case (Cons u us)
  have "mark_is (u_mark u) MOCLOUD_MARK_DWLD" "u_checkSum u = 10" using Cons.prems(1) by (auto simp: good_unit_def)
  then show ?case
    using Cons.IH [of "mem - 1" "off + 1336"] Cons.IH [of mem "off + 1336"] Cons.prems
    by (auto simp: calm_def moCloudUtilsCheck_checksumCheckValue_def Let_def)
qed simp

lemma readTasks_bad:
  "\<not> ((\<forall>u \<in> set us. good_unit u) \<and> length (filter u_isUsing us) \<le> mem) \<Longrightarrow> \<exists>us' ts'. readTasks mem off us ts = (False, us', ts')"
proof (induction us arbitrary: mem off ts)
  case (Cons u us)
  show ?case
  proof (cases "good_unit u")
    case False
    then show ?thesis by (auto simp: good_unit_def moCloudUtilsCheck_checksumCheckValue_def)
  next
    case True
    then have g: "mark_is (u_mark u) MOCLOUD_MARK_DWLD" "u_checkSum u = 10" by (auto simp: good_unit_def)
    let ?t = "\<lparr>dwldInfo = stopped (u_dwldInfo u), ti_offset = off, ti_fileId = INVALID_FILEID\<rparr>"
    show ?thesis
    proof (cases "u_isUsing u")
      case used: True
      show ?thesis
      proof (cases mem)
        case 0
        then show ?thesis using g used by (simp add: moCloudUtilsCheck_checksumCheckValue_def Let_def)
      next
        case (Suc m)
        obtain us' ts' where "readTasks m (off + 1336) us (?t # ts) = (False, us', ts')"
          using Cons.IH [of m "off + 1336" "?t # ts"] Cons.prems True used Suc by auto
        then show ?thesis using g used Suc by (simp add: moCloudUtilsCheck_checksumCheckValue_def Let_def)
      qed
    next
      case unused: False
      obtain us' ts' where "readTasks mem (off + 1336) us ts = (False, us', ts')"
        using Cons.IH [of mem "off + 1336" ts] Cons.prems True unused by auto
      then show ?thesis using g unused by (simp add: moCloudUtilsCheck_checksumCheckValue_def Let_def)
    qed
  qed
qed simp

lemma tasksOf_set:
  "set (tasksOf off us) = {\<lparr>dwldInfo = stopped (u_dwldInfo (us ! k)), ti_offset = off + k * sizeof_UNIT_INFO, ti_fileId = INVALID_FILEID\<rparr> |k.
     k < length us \<and> u_isUsing (us ! k)}"
proof (induction us arbitrary: off)
  case (Cons u us)
  have split: "{f k |k. k < length (u # us) \<and> u_isUsing ((u # us) ! k)} =
      (if u_isUsing u then {f 0} else {}) \<union> {f (Suc k) |k. k < length us \<and> u_isUsing (us ! k)}" for f :: "nat \<Rightarrow> DWLD_TASK_INFO"
    by (auto simp: less_Suc_eq_0_disj)
  show ?case
    using Cons.IH [of "off + 1336"]
      split [of "\<lambda>k. \<lparr>dwldInfo = stopped (u_dwldInfo ((u # us) ! k)), ti_offset = off + k * sizeof_UNIT_INFO, ti_fileId = INVALID_FILEID\<rparr>"]
    by (auto simp: algebra_simps)
qed simp

lemma tasksOf_offsets: "distinct (map ti_offset (tasksOf off us)) \<and> (\<forall>t \<in> set (tasksOf off us). off \<le> ti_offset t)"
proof (induction us arbitrary: off)
  case (Cons u us)
  have "\<forall>t \<in> set (tasksOf (off + 1336) us). off + 1336 \<le> ti_offset t" "distinct (map ti_offset (tasksOf (off + 1336) us))"
    using Cons.IH [of "off + 1336"] by auto
  then show ?case by force
qed simp

lemma journalled_calm:
  assumes "\<forall>u \<in> set us. good_unit u"
  shows "journalled (rev (tasksOf 0 us)) (map calm us)"
proof -
  have "distinct (map ti_offset (rev (tasksOf 0 us)))" using tasksOf_offsets [of 0 us] by (simp add: rev_map [symmetric])
  moreover have "\<exists>k < length (map calm us). ti_offset t = k * sizeof_UNIT_INFO \<and> u_isUsing (map calm us ! k) \<and>
      u_dwldInfo (map calm us ! k) = dwldInfo t" if "t \<in> set (rev (tasksOf 0 us))" for t
    using that by (auto simp: tasksOf_set)
  moreover have "k * sizeof_UNIT_INFO \<in> ti_offset ` set (rev (tasksOf 0 us))" if k: "k < length (map calm us)" "u_isUsing (map calm us ! k)" for k
  proof -
    have "\<lparr>dwldInfo = stopped (u_dwldInfo (us ! k)), ti_offset = k * sizeof_UNIT_INFO, ti_fileId = INVALID_FILEID\<rparr> \<in> set (tasksOf 0 us)"
      using k by (auto simp: tasksOf_set)
    then show ?thesis by force
  qed
  ultimately show ?thesis using assms unfolding journalled_def by auto
qed

lemma journal_init:
  assumes "initDwldTasksInfo opens reopens head mem d = (0, d')"
  shows "journal d'"
proof -
  have empty: "journalled [] []" by (simp add: journalled_def)
  show ?thesis
  proof (cases "infoFile d")
    case None
    then show ?thesis using assms empty by (auto simp: initDwldTasksInfo_def journal_def split: if_splits)
  next
    case (Some us)
    show ?thesis
    proof (cases "(\<forall>u \<in> set us. good_unit u) \<and> length (filter u_isUsing us) \<le> mem")
      case True
      then have "readTasks mem 0 us [] = (True, map calm us, rev (tasksOf 0 us))" using readTasks_good [of us mem 0 "[]"] by simp
      then show ?thesis using assms Some empty journalled_calm [of us] True
        by (auto simp: initDwldTasksInfo_def journal_def split: if_splits)
    next
      case False
      then obtain us' ts' where "readTasks mem 0 us [] = (False, us', ts')" using readTasks_bad by blast
      then show ?thesis using assms Some empty by (auto simp: initDwldTasksInfo_def journal_def split: if_splits)
    qed
  qed
qed

section \<open>The operations keep the agreement\<close>

lemma findI: "find P xs = Some i \<Longrightarrow> P i \<and> i \<in> set xs"
  by (auto simp: find_Some_iff in_set_conv_nth)

lemma firstTask_Some: "firstTask P ts = Some i \<Longrightarrow> i < length ts \<and> P (ts ! i)"
  using findI by (fastforce simp: firstTask_def)

lemma lastTask_Some: "lastTask P ts = Some i \<Longrightarrow> i < length ts \<and> P (ts ! i)"
  using findI by (fastforce simp: lastTask_def)

lemma lastTask_None: "lastTask P ts = None \<longleftrightarrow> (\<forall>t \<in> set ts. \<not> P t)"
  by (simp add: lastTask_def find_None_iff all_set_conv_all_nth)

lemma journal_progress:
  assumes "journal d"
  shows "\<exists>d'. setDwldProgress i n False d = Some (None, d') \<and> journal d'"
proof -
  obtain ts us where d: "gDwldInfofileFd d" "\<not> infoTorn d" "gDwldTasks d = Some ts" "infoFile d = Some us" "journalled ts us"
    using assms unfolding journal_def by blast
  show ?thesis
  proof (cases "firstTask (\<lambda>t. ti_fileId t = i) ts")
    case None
    then show ?thesis using d assms by (simp add: setDwldProgress_def)
  next
    case (Some j)
    let ?t = "(ts ! j)\<lparr>dwldInfo := (dwldInfo (ts ! j))\<lparr>di_unitId := n\<rparr>\<rparr>"
    let ?u = "withSum (noUnit\<lparr>u_dwldInfo := dwldInfo ?t, u_isUsing := True, u_mark := setMark (u_mark noUnit)\<rparr>)"
    have j: "j < length ts" using firstTask_Some [OF Some] by simp
    have "journalled (ts[j := ?t]) (writeUnit (ti_offset (ts ! j)) ?u us)"
      by (rule journalled_change [OF d(5) j]) (simp_all add: good_unit_def)
    then show ?thesis using Some d assms by (simp add: setDwldProgress_def journal_def Let_def)
  qed
qed

lemma journal_getOne:
  assumes "journal d" and "length path < MOCLOUD_FILEPATH_MAXLEN"
  shows "\<exists>ret off d'. getOneDwldNode mem k filesize path d = Some (ret, off, d') \<and> journal d'"
proof -
  obtain ts us where d: "gDwldInfofileFd d" "\<not> infoTorn d" "gDwldTasks d = Some ts" "infoFile d = Some us" "journalled ts us"
    using assms(1) unfolding journal_def by blast
  show ?thesis
  proof (cases "lastTask (\<lambda>t. di_key (dwldInfo t) = k) ts")
    case None
    let ?n = "length (takeWhile u_isUsing us)"
    let ?old = "if ?n < length us then us ! ?n else if us = [] then noUnit else last us"
    let ?i = "\<lparr>di_key = k, di_fileLength = filesize, di_localFilepath = path, di_unitId = 0, di_isDwlding = True\<rparr>"
    let ?u = "withSum (?old\<lparr>u_mark := setMark (u_mark ?old), u_isUsing := True, u_dwldInfo := ?i\<rparr>)"
    let ?t = "\<lparr>dwldInfo = ?i, ti_offset = ?n * 1336, ti_fileId = INVALID_FILEID\<rparr>"
    have "journalled (?t # ts) (writeUnit (?n * 1336) ?u us)"
      by (rule journalled_new [OF d(5) refl]) (simp_all add: good_unit_def)
    then show ?thesis using None d assms by (auto simp: getOneDwldNode_def journal_def Let_def)
  next
    case (Some j)
    let ?t = "(ts ! j)\<lparr>dwldInfo := (dwldInfo (ts ! j))\<lparr>di_isDwlding := True\<rparr>\<rparr>"
    let ?u = "readUnit (ti_offset (ts ! j)) us"
    let ?u' = "?u\<lparr>u_isUsing := True, u_dwldInfo := (u_dwldInfo ?u)\<lparr>di_isDwlding := True\<rparr>\<rparr>"
    have j: "j < length ts" using lastTask_Some [OF Some] by simp
    obtain n where n: "n < length us" "ti_offset (ts ! j) = n * sizeof_UNIT_INFO" "u_dwldInfo (us ! n) = dwldInfo (ts ! j)" "good_unit (us ! n)"
      by (rule journalled_nth [OF d(5) j]) blast
    have "?u = us ! n" using n by (simp add: readUnit_eq)
    then have "journalled (ts[j := ?t]) (writeUnit (ti_offset (ts ! j)) ?u' us)"
      using n(3,4) by (intro journalled_change [OF d(5) j]) (simp_all add: good_unit_def)
    then show ?thesis using Some d assms by (simp add: getOneDwldNode_def journal_def Let_def)
  qed
qed

lemma journal_del:
  assumes "journal d"
  shows "\<exists>ret d'. delDwldNode k d = Some (ret, d') \<and> journal d'"
proof -
  obtain ts us where d: "gDwldInfofileFd d" "\<not> infoTorn d" "gDwldTasks d = Some ts" "infoFile d = Some us" "journalled ts us"
    using assms unfolding journal_def by blast
  show ?thesis
  proof (cases "firstTask (\<lambda>t. di_key (dwldInfo t) = k) ts")
    case None
    then show ?thesis using d assms by (simp add: delDwldNode_def)
  next
    case (Some j)
    let ?u = "readUnit (ti_offset (ts ! j)) us"
    let ?u' = "withSum (?u\<lparr>u_isUsing := False, u_dwldInfo := (u_dwldInfo ?u)\<lparr>di_isDwlding := False\<rparr>\<rparr>)"
    have j: "j < length ts" using firstTask_Some [OF Some] by simp
    obtain n where n: "n < length us" "ti_offset (ts ! j) = n * sizeof_UNIT_INFO" "good_unit (us ! n)"
      by (rule journalled_nth [OF d(5) j]) blast
    have "?u = us ! n" using n by (simp add: readUnit_eq)
    then have "journalled (take j ts @ drop (j + 1) ts) (writeUnit (ti_offset (ts ! j)) ?u' us)"
      using n(3) by (intro journalled_remove [OF d(5) j]) (simp_all add: good_unit_def)
    then show ?thesis using Some d assms by (simp add: delDwldNode_def journal_def Let_def)
  qed
qed

section \<open>Looking up the first task\<close>

lemma getDwldFileInfoLoop_head:
  assumes "getDwldFileInfoLoop k ts = Some y"
  shows "ts \<noteq> [] \<longrightarrow> di_key (dwldInfo (hd ts)) = k"
proof (rule getDwldFileInfoLoop.raw_induct [of "\<lambda>k ts y. ts \<noteq> [] \<longrightarrow> di_key (dwldInfo (hd ts)) = k", OF _ assms])
  fix f k ts y
  assume IH: "\<And>k ts y. f k ts = Some y \<Longrightarrow> ts \<noteq> [] \<longrightarrow> di_key (dwldInfo (hd ts)) = k"
    and eq: "(case ts of [] \<Rightarrow> Some (-2, 0, []) | t # _ \<Rightarrow> if di_key (dwldInfo t) = k then Some (0, ti_fileId t, di_localFilepath (dwldInfo t)) else f k ts) = Some y"
  show "ts \<noteq> [] \<longrightarrow> di_key (dwldInfo (hd ts)) = k"
  proof (cases ts)
    case (Cons t us)
    then show ?thesis using eq IH [of k ts y] by (cases "di_key (dwldInfo t) = k") simp_all
  qed simp
qed

section \<open>The number of a download\<close>

lemma journalled_cong:
  assumes "map (\<lambda>t. (ti_offset t, dwldInfo t)) ts = map (\<lambda>t. (ti_offset t, dwldInfo t)) ts'"
  shows "journalled ts us = journalled ts' us"
proof -
  have o: "map ti_offset ts = map ti_offset ts'"
    using arg_cong [OF assms, of "map fst"] by (simp add: comp_def)
  have s: "(\<lambda>t. (ti_offset t, dwldInfo t)) ` set ts = (\<lambda>t. (ti_offset t, dwldInfo t)) ` set ts'"
    using arg_cong [OF assms, of set] by simp
  have e: "(\<forall>t \<in> set zs. P (ti_offset t) (dwldInfo t)) = (\<forall>p \<in> (\<lambda>t. (ti_offset t, dwldInfo t)) ` set zs. P (fst p) (snd p))"
    for P :: "nat \<Rightarrow> MOCLOUDCLIENT_DWLD_INFO \<Rightarrow> bool" and zs by auto
  have "(\<forall>t \<in> set ts. P (ti_offset t) (dwldInfo t)) = (\<forall>t \<in> set ts'. P (ti_offset t) (dwldInfo t))"
    for P :: "nat \<Rightarrow> MOCLOUDCLIENT_DWLD_INFO \<Rightarrow> bool" by (simp only: e s)
  note all = this [of "\<lambda>off i. \<exists>k < length us. off = k * 1336 \<and> u_isUsing (us ! k) \<and> u_dwldInfo (us ! k) = i"]
  have "ti_offset ` set ts = ti_offset ` set ts'" using o by (metis list.set_map)
  then show ?thesis unfolding journalled_def using o all by simp
qed

lemma journal_setFileId:
  assumes "journal d" and "gDwldTasks d = Some ts" and "i < length ts"
  shows "journal (setFileId i v d)"
proof -
  obtain us where us: "infoFile d = Some us" "journalled ts us" using assms(1,2) unfolding journal_def by auto
  have "map (\<lambda>t. (ti_offset t, dwldInfo t)) (ts[i := (ts ! i)\<lparr>ti_fileId := v\<rparr>]) = map (\<lambda>t. (ti_offset t, dwldInfo t)) ts"
    using assms(3) by (simp add: map_update list_update_same_conv)
  from journalled_cong [OF this] us show ?thesis using assms(1,2) by (simp add: journal_def setFileId_def)
qed

section \<open>Restarts\<close>

text \<open>
  What the client does with the journal between its start and its end: \<open>J_start\<close> is a start of a download that
  gets the number \<open>v\<close>, or the resumption of one, \<open>J_progress\<close> is \<open>setDwldProgress\<close> with what the stop it calls at the
  end of a file does with the tasks, and \<open>J_del\<close> is the deletion when a download fails or is stopped.
\<close>

datatype journal_call = J_start bool MOCLOUD_FILEINFO_KEY nat string int | J_progress int int bool | J_del MOCLOUD_FILEINFO_KEY

fun journal_do :: "journal_call \<Rightarrow> TASKS \<Rightarrow> TASKS option" where
  "journal_do (J_start mem k n path v) d = do {
     (ret, _, d) \<leftarrow> getOneDwldNode mem k n path d;
     if ret < 0 then Some d
     else do {
       i \<leftarrow> nodeOf k d;
       Some (setFileId i v d)
     }
   }"
| "journal_do (J_progress i n eof) d = do {
     (stop, d) \<leftarrow> setDwldProgress i n eof d;
     (case stop of
        None \<Rightarrow> Some d
      | Some k \<Rightarrow> do {
          (ret, _, _) \<leftarrow> getDwldFileInfo k d;
          if ret < 0 then Some d else map_option snd (delDwldNode k d)
        })
   }"
| "journal_do (J_del k) d = map_option snd (delDwldNode k d)"

fun journal_call_ok :: "journal_call \<Rightarrow> bool" where
  "journal_call_ok (J_start mem k n path v) = (length path < MOCLOUD_FILEPATH_MAXLEN)"
| "journal_call_ok _ = True"

fun is_eof :: "journal_call \<Rightarrow> bool" where
  "is_eof (J_progress i n eof) = eof"
| "is_eof _ = False"

text \<open>The keys of the tasks. No operation adds a second task for a file.\<close>

definition task_keys :: "TASKS \<Rightarrow> MOCLOUD_FILEINFO_KEY list" where
  "task_keys d = (case gDwldTasks d of None \<Rightarrow> [] | Some ts \<Rightarrow> map (\<lambda>t. di_key (dwldInfo t)) ts)"

lemma keys_update: "di_key (dwldInfo t) = di_key (dwldInfo (ts ! j)) \<Longrightarrow>
    map (\<lambda>t. di_key (dwldInfo t)) (ts[j := t]) = map (\<lambda>t. di_key (dwldInfo t)) ts"
  by (cases "j < length ts") (simp_all add: map_update list_update_same_conv list_update_beyond)

lemma setFileId_keys: "task_keys (setFileId i v d) = task_keys d"
  by (simp add: task_keys_def setFileId_def keys_update split: option.split)

lemma setDwldProgress_keys: "setDwldProgress i n eof d = Some (stop, d') \<Longrightarrow> task_keys d' = task_keys d"
  by (auto simp: setDwldProgress_def task_keys_def keys_update Let_def split: option.splits if_splits bind_splits)

lemma getOneDwldNode_keys:
  assumes "getOneDwldNode mem k n path d = Some (ret, off, d')"
  shows "task_keys d' = task_keys d \<or> k \<notin> set (task_keys d) \<and> task_keys d' = k # task_keys d"
proof (cases "lastTask (\<lambda>t. di_key (dwldInfo t) = k) (the (gDwldTasks d))")
  case None
  then show ?thesis
    using assms lastTask_None [of "\<lambda>t. di_key (dwldInfo t) = k" "the (gDwldTasks d)"]
    by (auto simp: getOneDwldNode_def task_keys_def Let_def split: if_splits bind_splits)
next
  case (Some i)
  then show ?thesis
    using assms by (auto simp: getOneDwldNode_def task_keys_def keys_update Let_def split: if_splits bind_splits)
qed

lemma distinct_without: "distinct xs \<Longrightarrow> distinct (take i xs @ drop (i + 1) xs)"
  by (simp add: set_take_disj_set_drop_if_distinct)

lemma delDwldNode_keys:
  assumes "delDwldNode k d = Some (ret, d')" and "distinct (task_keys d)"
  shows "distinct (task_keys d')"
proof -
  obtain ts where ts: "gDwldTasks d = Some ts" using assms(1) by (auto simp: delDwldNode_def split: bind_splits)
  have "distinct (map (\<lambda>t. di_key (dwldInfo t)) (take i ts @ drop (i + 1) ts))" for i
    using distinct_without [of "map (\<lambda>t. di_key (dwldInfo t)) ts" i] assms(2) ts by (simp add: task_keys_def take_map drop_map)
  then show ?thesis using assms ts by (auto simp: delDwldNode_def task_keys_def Let_def split: option.splits if_splits bind_splits)
qed

lemma getOne_node:
  assumes "getOneDwldNode mem k n path d = Some (ret, off, d')" and "0 \<le> ret"
  shows "\<exists>i ts. nodeOf k d' = Some i \<and> gDwldTasks d' = Some ts \<and> i < length ts"
proof -
  have "k \<in> set (task_keys d')"
  proof (cases "lastTask (\<lambda>t. di_key (dwldInfo t) = k) (the (gDwldTasks d))")
    case None
    then show ?thesis using assms by (auto simp: getOneDwldNode_def task_keys_def Let_def split: if_splits bind_splits)
  next
    case (Some i)
    note l = lastTask_Some [OF this]
    have "k \<in> set (task_keys d)" if "gDwldTasks d \<noteq> None" using l that by (force simp: task_keys_def)
    then show ?thesis using assms Some getOneDwldNode_keys [OF assms(1)] by (auto simp: getOneDwldNode_def split: bind_splits)
  qed
  then obtain ts where ts: "gDwldTasks d' = Some ts" "\<exists>t \<in> set ts. di_key (dwldInfo t) = k"
    by (cases "gDwldTasks d'") (auto simp: task_keys_def)
  then obtain i where "lastTask (\<lambda>t. di_key (dwldInfo t) = k) ts = Some i"
    using lastTask_None [of "\<lambda>t. di_key (dwldInfo t) = k" ts] by (cases "lastTask (\<lambda>t. di_key (dwldInfo t) = k) ts") auto
  then show ?thesis using ts lastTask_Some by (auto simp: nodeOf_def)
qed

text \<open>
  The update at the end of a file: the journal has the unit no longer in use, and the list still has the task,
  until the stop deletes it. The search of the stop returns only when the task is the head of the list.
\<close>

lemma journal_eof:
  assumes "journal d" and "distinct (task_keys d)" and "journal_do (J_progress i n True) d = Some d'"
  shows "journal d' \<and> distinct (task_keys d')"
proof -
  obtain ts us where d: "gDwldInfofileFd d" "\<not> infoTorn d" "gDwldTasks d = Some ts" "infoFile d = Some us" "journalled ts us"
    using assms(1) unfolding journal_def by blast
  show ?thesis
  proof (cases "\<exists>j. firstTask (\<lambda>t. ti_fileId t = i) ts = Some j \<and> di_isDwlding (dwldInfo (ts ! j))")
    case False
    then have "setDwldProgress i n True d = Some (None, d)"
      using d by (auto simp: setDwldProgress_def Let_def split: option.split)
    then show ?thesis using assms by auto
  next
    case True
    then obtain j where j: "firstTask (\<lambda>t. ti_fileId t = i) ts = Some j" "di_isDwlding (dwldInfo (ts ! j))" by blast
    have jl: "j < length ts" using firstTask_Some [OF j(1)] by simp
    let ?k = "di_key (dwldInfo (ts ! j))"
    let ?t = "(ts ! j)\<lparr>dwldInfo := (dwldInfo (ts ! j))\<lparr>di_unitId := n\<rparr>\<rparr>"
    let ?u = "withSum (noUnit\<lparr>u_dwldInfo := dwldInfo ?t, u_isUsing := False, u_mark := setMark (u_mark noUnit)\<rparr>)"
    let ?d = "d\<lparr>gDwldTasks := Some (ts[j := ?t]), infoFile := Some (writeUnit (ti_offset (ts ! j)) ?u us)\<rparr>"
    have p: "setDwldProgress i n True d = Some (Some ?k, ?d)" using j d by (simp add: setDwldProgress_def Let_def)
    obtain r fid path where f: "getDwldFileInfo ?k ?d = Some (r, fid, path)" using assms(3) p by (auto split: bind_splits)
    then have "getDwldFileInfoLoop ?k (ts[j := ?t]) = Some (r, fid, path)" by (simp add: getDwldFileInfo_def)
    from getDwldFileInfoLoop_head [OF this] have "di_key (dwldInfo (hd (ts[j := ?t]))) = ?k" using jl by force
    moreover have "ts[j := ?t] \<noteq> []" "0 < length ts" using jl by auto
    ultimately have "map (\<lambda>t. di_key (dwldInfo t)) (ts[j := ?t]) ! 0 = ?k" by (simp add: hd_conv_nth)
    then have "map (\<lambda>t. di_key (dwldInfo t)) ts ! 0 = map (\<lambda>t. di_key (dwldInfo t)) ts ! j"
      using jl keys_update [of ?t ts j] by simp
    moreover have "0 < length ts" using jl by linarith
    ultimately have j0: "j = 0" using assms(2) d(3) jl nth_eq_iff_index_eq [of "map (\<lambda>t. di_key (dwldInfo t)) ts" 0 j]
      by (simp add: task_keys_def)
    obtain x xs where ts: "ts = x # xs" using jl by (cases ts) auto
    have r: "r = 0" using f ts j0 by (simp add: getDwldFileInfo_def getDwldFileInfoLoop.simps)
    obtain m where m: "m < length us" "ti_offset x = m * sizeof_UNIT_INFO"
      by (rule journalled_nth [OF d(5) jl]) (use j0 ts in auto)
    let ?u' = "withSum (?u\<lparr>u_isUsing := False, u_dwldInfo := (u_dwldInfo ?u)\<lparr>di_isDwlding := False\<rparr>\<rparr>)"
    have first: "firstTask (\<lambda>t. di_key (dwldInfo t) = ?k) (ts[j := ?t]) = Some 0"
      using j0 ts by (simp add: firstTask_def upt_conv_Cons del: upt_Suc)
    have d': "d' = ?d\<lparr>gDwldTasks := Some xs, infoFile := Some (writeUnit (ti_offset x) ?u' us)\<rparr>"
      using assms(3) p f r first d(1) ts j0 m
      by (simp add: delDwldNode_def readUnit_eq writeUnit_eq Let_def)
    have "journalled (take 0 ts @ drop (0 + 1) ts) (writeUnit (ti_offset (ts ! 0)) ?u' us)"
      by (rule journalled_remove [OF d(5)]) (use ts in \<open>simp_all add: good_unit_def\<close>)
    then show ?thesis using d' d(1-3) ts assms(2) by (simp add: journal_def task_keys_def)
  qed
qed

lemma journal_do_keeps:
  assumes "journal d" and "distinct (task_keys d)" and "journal_call_ok c"
  shows "(\<forall>d'. journal_do c d = Some d' \<longrightarrow> journal d' \<and> distinct (task_keys d')) \<and> (\<not> is_eof c \<longrightarrow> journal_do c d \<noteq> None)"
proof (cases c)
  case (J_start mem k n path v)
  obtain ret off d' where g: "getOneDwldNode mem k n path d = Some (ret, off, d')" "journal d'"
    using journal_getOne [OF assms(1), of path mem k n] assms(3) J_start by auto
  have "distinct (task_keys d')" using getOneDwldNode_keys [OF g(1)] assms(2) by auto
  then show ?thesis
    using J_start g getOne_node [OF g(1)] journal_setFileId [OF g(2)] by (cases "ret < 0") (auto simp: setFileId_keys)
next
  case (J_progress i n eof)
  show ?thesis
  proof (cases eof)
    case True
    then show ?thesis using J_progress journal_eof [OF assms(1,2), of i n] by auto
  next
    case False
    obtain d' where "setDwldProgress i n False d = Some (None, d')" "journal d'" using journal_progress [OF assms(1)] by blast
    then show ?thesis using J_progress False setDwldProgress_keys [of i n False d None d'] assms(2) by simp
  qed
next
  case (J_del k)
  obtain ret d' where "delDwldNode k d = Some (ret, d')" "journal d'" using journal_del [OF assms(1)] by blast
  then show ?thesis using J_del delDwldNode_keys [of k d ret d'] assms(2) by simp
qed

lemma journal_dos_keep:
  assumes "journal d" and "distinct (task_keys d)" and "list_all journal_call_ok cs"
  shows "(\<forall>d'. foldM journal_do cs d = Some d' \<longrightarrow> journal d' \<and> distinct (task_keys d')) \<and>
    (list_all (\<lambda>c. \<not> is_eof c) cs \<longrightarrow> foldM journal_do cs d \<noteq> None)"
  using assms
proof (induction cs arbitrary: d)
  case (Cons c cs)
  note k = journal_do_keeps [OF Cons.prems(1,2), of c]
  show ?case
  proof (cases "journal_do c d")
    case None
    then show ?thesis using k Cons.prems(3) by simp
  next
    case (Some d')
    then show ?thesis using k Cons.prems(3) Cons.IH [of d'] by simp
  qed
qed simp

lemma restart:
  assumes "journal d" and "gDwldTasks d = Some ts" and "length ts \<le> mem"
  shows "\<exists>d' ts'. initDwldTasksInfo True reopens True mem (uninitDwldTasksInfo d) = (0, d') \<and> gDwldTasks d' = Some ts' \<and>
    set ts' = (\<lambda>t. t\<lparr>dwldInfo := stopped (dwldInfo t), ti_fileId := INVALID_FILEID\<rparr>) ` set ts \<and> length ts' = length ts"
proof -
  obtain us where d: "\<not> infoTorn d" "infoFile d = Some us" "journalled ts us" using assms(1,2) unfolding journal_def by auto
  let ?f = "\<lambda>t. t\<lparr>dwldInfo := stopped (dwldInfo t), ti_fileId := INVALID_FILEID\<rparr>"
  have good: "\<forall>u \<in> set us. good_unit u" using d(3) unfolding journalled_def by blast
  have dt: "distinct (map ti_offset ts)" using d(3) unfolding journalled_def by blast
  have set: "set (tasksOf 0 us) = ?f ` set ts"
  proof (intro equalityI subsetI)
    fix x assume "x \<in> set (tasksOf 0 us)"
    then obtain k where k: "k < length us" "u_isUsing (us ! k)"
      "x = \<lparr>dwldInfo = stopped (u_dwldInfo (us ! k)), ti_offset = k * sizeof_UNIT_INFO, ti_fileId = INVALID_FILEID\<rparr>"
      by (auto simp: tasksOf_set)
    then obtain t where t: "t \<in> set ts" "ti_offset t = k * sizeof_UNIT_INFO" using d(3) unfolding journalled_def by auto
    then obtain n where "n < length us" "ti_offset t = n * sizeof_UNIT_INFO" "u_dwldInfo (us ! n) = dwldInfo t"
      using d(3) unfolding journalled_def by blast
    then have "x = ?f t" using k(3) t(2) by simp
    then show "x \<in> ?f ` set ts" using t(1) by blast
  next
    fix x assume "x \<in> ?f ` set ts"
    then obtain t where t: "t \<in> set ts" "x = ?f t" by blast
    then obtain k where "k < length us" "ti_offset t = k * sizeof_UNIT_INFO" "u_isUsing (us ! k)" "u_dwldInfo (us ! k) = dwldInfo t"
      using d(3) unfolding journalled_def by blast
    then show "x \<in> set (tasksOf 0 us)" using t(2) unfolding tasksOf_set
      by (intro CollectI exI [of _ k]) (cases t, simp)
  qed
  have ino: "inj_on ti_offset (set (tasksOf 0 us))" "inj_on ti_offset (set ts)"
    using tasksOf_offsets [of 0 us] dt by (simp_all add: distinct_map)
  have inj: "inj_on ?f (set ts)"
  proof (rule inj_onI)
    fix x y assume xy: "x \<in> set ts" "y \<in> set ts" "?f x = ?f y"
    then have "ti_offset (?f x) = ti_offset (?f y)" by simp
    then show "x = y" using ino(2) xy(1,2) by (simp add: inj_on_def)
  qed
  have "length (tasksOf 0 us) = card (set (tasksOf 0 us))" "length ts = card (set ts)"
    using tasksOf_offsets [of 0 us] dt by (simp_all add: distinct_card distinct_map)
  then have len: "length (tasksOf 0 us) = length ts" using set card_image [OF inj] by simp
  have "length (filter u_isUsing us) = length (tasksOf off us)" for off by (induction us arbitrary: off) auto
  then have "length (filter u_isUsing us) \<le> mem" using len assms(3) by simp
  then have "readTasks mem 0 us [] = (True, map calm us, rev (tasksOf 0 us))" using readTasks_good [OF good, of mem 0 "[]"] by simp
  then show ?thesis using d(1,2) set len by (simp add: initDwldTasksInfo_def uninitDwldTasksInfo_def)
qed

text \<open>
  C33. The downloads survive a restart: after any calls that start, resume, update, end and delete downloads, the
  updates at the end of a file included, the next start of the client that has memory for all of them finds in
  the file exactly the tasks there were, with their progress, and none of them running. Without an update at the
  end of a file all these calls return; such an update does not return unless its task is the head of the list.
\<close>

theorem downloads_survive_restart:
  assumes "initDwldTasksInfo opens reopens head mem d0 = (0, d)" and "distinct (task_keys d)" and "list_all journal_call_ok cs"
  shows "(\<forall>d1. foldM journal_do cs d = Some d1 \<longrightarrow> (\<exists>ts. gDwldTasks d1 = Some ts \<and>
      (\<forall>reopens mem. length ts \<le> mem \<longrightarrow> (\<exists>d2 ts2. initDwldTasksInfo True reopens True mem (uninitDwldTasksInfo d1) = (0, d2) \<and>
         gDwldTasks d2 = Some ts2 \<and> length ts2 = length ts \<and>
         set ts2 = (\<lambda>t. t\<lparr>dwldInfo := (dwldInfo t)\<lparr>di_isDwlding := False\<rparr>, ti_fileId := INVALID_FILEID\<rparr>) ` set ts)))) \<and>
    (list_all (\<lambda>c. \<not> is_eof c) cs \<longrightarrow> foldM journal_do cs d \<noteq> None)"
proof -
  note k = journal_dos_keep [OF journal_init [OF assms(1)] assms(2,3)]
  have "\<exists>ts. gDwldTasks d1 = Some ts \<and>
      (\<forall>reopens mem. length ts \<le> mem \<longrightarrow> (\<exists>d2 ts2. initDwldTasksInfo True reopens True mem (uninitDwldTasksInfo d1) = (0, d2) \<and>
         gDwldTasks d2 = Some ts2 \<and> length ts2 = length ts \<and>
         set ts2 = (\<lambda>t. t\<lparr>dwldInfo := (dwldInfo t)\<lparr>di_isDwlding := False\<rparr>, ti_fileId := INVALID_FILEID\<rparr>) ` set ts))"
    if d1: "foldM journal_do cs d = Some d1" for d1
  proof -
    have j: "journal d1" using k d1 by blast
    then obtain ts where ts: "gDwldTasks d1 = Some ts" unfolding journal_def by blast
    show ?thesis using restart [OF j ts] ts by blast
  qed
  then show ?thesis using k by blast
qed

definition noTasks :: TASKS where
  "noTasks = \<lparr>gDwldInfofileFd = False, gDwldTasks = None, infoFile = None, infoTorn = False\<rparr>"

abbreviation (input) key_a :: MOCLOUD_FILEINFO_KEY where "key_a \<equiv> \<lparr>filetype = 1, filename = ''a''\<rparr>"
abbreviation (input) key_b :: MOCLOUD_FILEINFO_KEY where "key_b \<equiv> \<lparr>filetype = 2, filename = ''b''\<rparr>"

text \<open>Two downloads, an update of each, and the end of the second one, which is the head of the list.\<close>

theorem downloads_survive_restart_witness:
  "\<exists>d d1 ts d2 ts2. initDwldTasksInfo True True True 9 noTasks = (0, d) \<and>
    foldM journal_do [J_start True key_a 5 ''x'' 0, J_start True key_b 6 ''y'' 1, J_progress 0 3 False, J_progress 1 7 True] d = Some d1 \<and>
    gDwldTasks d1 = Some ts \<and> map (\<lambda>t. (di_key (dwldInfo t), di_unitId (dwldInfo t))) ts = [(key_a, 3)] \<and>
    initDwldTasksInfo True True True 9 (uninitDwldTasksInfo d1) = (0, d2) \<and> gDwldTasks d2 = Some ts2 \<and>
    set ts2 = (\<lambda>t. t\<lparr>dwldInfo := (dwldInfo t)\<lparr>di_isDwlding := False\<rparr>, ti_fileId := INVALID_FILEID\<rparr>) ` set ts"
proof -
  let ?cs = "[J_start True key_a 5 ''x'' 0, J_start True key_b 6 ''y'' 1, J_progress 0 3 False, J_progress 1 7 True]"
  obtain d where d: "initDwldTasksInfo True True True 9 noTasks = (0, d)" "gDwldTasks d = Some []" "infoFile d = Some []" "gDwldInfofileFd d"
    by (simp add: initDwldTasksInfo_def noTasks_def)
  have ok: "list_all journal_call_ok ?cs" "distinct (task_keys d)" using d(2) by (simp_all add: task_keys_def)
  have "\<exists>d1 ts. foldM journal_do ?cs d = Some d1 \<and> gDwldTasks d1 = Some ts \<and>
      map (\<lambda>t. (di_key (dwldInfo t), di_unitId (dwldInfo t))) ts = [(key_a, 3)]"
    using d(2-4)
    by (simp add: getOneDwldNode_def nodeOf_def setFileId_def setDwldProgress_def getDwldFileInfo_def getDwldFileInfoLoop.simps
        delDwldNode_def lastTask_def firstTask_def writeUnit_def Let_def)
  then obtain d1 ts where d1: "foldM journal_do ?cs d = Some d1" "gDwldTasks d1 = Some ts"
    "map (\<lambda>t. (di_key (dwldInfo t), di_unitId (dwldInfo t))) ts = [(key_a, 3)]" by (elim exE conjE)
  have "length ts = length [(key_a, 3 :: int)]" by (metis d1(3) length_map)
  then have len: "length ts \<le> 9" by simp
  from downloads_survive_restart [OF d(1) ok(2,1), THEN conjunct1, THEN spec, THEN mp, OF d1(1)]
  obtain ts' where ts': "gDwldTasks d1 = Some ts'" "\<forall>reopens mem. length ts' \<le> mem \<longrightarrow> (\<exists>d2 ts2. initDwldTasksInfo True reopens True mem (uninitDwldTasksInfo d1) = (0, d2) \<and>
       gDwldTasks d2 = Some ts2 \<and> length ts2 = length ts' \<and>
       set ts2 = (\<lambda>t. t\<lparr>dwldInfo := (dwldInfo t)\<lparr>di_isDwlding := False\<rparr>, ti_fileId := INVALID_FILEID\<rparr>) ` set ts')"
    by (elim exE conjE)
  have eq: "ts' = ts" using ts'(1) d1(2) by simp
  from ts'(2) [unfolded eq, THEN spec, THEN spec, THEN mp, of 9 True, OF len]
  obtain d2 ts2 where "initDwldTasksInfo True True True 9 (uninitDwldTasksInfo d1) = (0, d2)" "gDwldTasks d2 = Some ts2"
    "set ts2 = (\<lambda>t. t\<lparr>dwldInfo := (dwldInfo t)\<lparr>di_isDwlding := False\<rparr>, ti_fileId := INVALID_FILEID\<rparr>) ` set ts"
    by (elim exE conjE)
  then show ?thesis using d(1) d1
    by (intro exI [of _ d] exI [of _ d1] exI [of _ ts] exI [of _ d2] exI [of _ ts2] conjI)
qed

text \<open>
  Without memory for all its tasks the client starts, too: it takes the journal for a file in a wrong
  format, clears it, and reports a success.
\<close>

theorem no_memory_clears_journal:
  assumes "journal d" and "gDwldTasks d = Some ts" and "mem < length ts"
  shows "\<exists>d'. initDwldTasksInfo True True True mem (uninitDwldTasksInfo d) = (0, d') \<and> gDwldTasks d' = Some [] \<and> infoFile d' = Some []"
proof -
  obtain us where us: "infoFile d = Some us" "journalled ts us" "\<not> infoTorn d" using assms(1,2) unfolding journal_def by auto
  have "length (filter u_isUsing us) = length ts"
  proof -
    obtain d' ts' where r: "initDwldTasksInfo True True True (length ts + length us) (uninitDwldTasksInfo d) = (0, d')" "gDwldTasks d' = Some ts'"
      "length ts' = length ts"
      using restart [OF assms(1,2), of "length ts + length us" True] by auto
    have g: "\<forall>u \<in> set us. good_unit u" using us(2) unfolding journalled_def by blast
    have n: "length (filter u_isUsing us) = length (tasksOf off us)" for off by (induction us arbitrary: off) auto
    have "length (filter u_isUsing us) \<le> length ts + length us" by (rule trans_le_add2) simp
    then have "readTasks (length ts + length us) 0 us [] = (True, map calm us, rev (tasksOf 0 us))" using readTasks_good [OF g, of _ 0 "[]"] by simp
    then have "ts' = rev (tasksOf 0 us)" using r(1,2) us(1,3) by (auto simp: initDwldTasksInfo_def uninitDwldTasksInfo_def split: if_splits)
    then show ?thesis using r(3) n [of 0] by simp
  qed
  then obtain us' ts' where "readTasks mem 0 us [] = (False, us', ts')"
    using readTasks_bad [of us mem 0 "[]"] assms(3) by auto
  then show ?thesis using us(1) by (simp add: initDwldTasksInfo_def uninitDwldTasksInfo_def)
qed

lemma journal_sample:
  "\<exists>d ts. foldM journal_do [J_start True key_a 5 ''x'' 0, J_start True key_b 6 ''y'' 1] (snd (initDwldTasksInfo True True True 9 noTasks)) = Some d \<and>
    journal d \<and> gDwldTasks d = Some ts \<and> length ts = 2"
proof -
  obtain d where d: "initDwldTasksInfo True True True 9 noTasks = (0, d)" "gDwldTasks d = Some []" "infoFile d = Some []" "gDwldInfofileFd d"
    by (simp add: initDwldTasksInfo_def noTasks_def)
  have k: "distinct (task_keys d)" using d(2) by (simp add: task_keys_def)
  obtain d1 where d1: "foldM journal_do [J_start True key_a 5 ''x'' 0, J_start True key_b 6 ''y'' 1] d = Some d1" "journal d1"
    using journal_dos_keep [OF journal_init [OF d(1)] k, of "[J_start True key_a 5 ''x'' 0, J_start True key_b 6 ''y'' 1]"] by auto
  then have "\<exists>ts. gDwldTasks d1 = Some ts \<and> length ts = 2"
    using d(2-4) by (auto simp: getOneDwldNode_def nodeOf_def setFileId_def lastTask_def writeUnit_def Let_def)
  then show ?thesis using d(1) d1 by auto
qed

theorem no_memory_clears_journal_witness:
  "\<exists>d d'. infoFile d \<noteq> Some [] \<and> initDwldTasksInfo True True True 1 (uninitDwldTasksInfo d) = (0, d') \<and> infoFile d' = Some []"
proof -
  obtain d ts where d: "journal d" "gDwldTasks d = Some ts" "length ts = 2" using journal_sample by blast
  then have "infoFile d \<noteq> Some []" unfolding journal_def journalled_def by auto
  then show ?thesis using no_memory_clears_journal [OF d(1,2), of 1] d(3) by auto
qed

text \<open>
  C34. A download that is resumed asks the server for the wrong place: after the unit \<open>m\<close> of a file has been
  written and the client started again, the offset is four bytes per unit instead of 1024.
\<close>

theorem resume_offset_four_bytes:
  assumes "journal d" and "gDwldTasks d = Some (t # ts)" and "ti_fileId t = i" and "di_isDwlding (dwldInfo t)"
    and "\<forall>x \<in> set ts. di_key (dwldInfo x) \<noteq> di_key (dwldInfo t)" and "length ts < mem" and "0 \<le> m" and "m < 2 ^ 29"
  shows "\<exists>d1 d2 d3. setDwldProgress i m False d = Some (None, d1) \<and>
    initDwldTasksInfo True True True mem (uninitDwldTasksInfo d1) = (0, d2) \<and>
    getOneDwldNode True (di_key (dwldInfo t)) n path d2 = Some (0, 4 * m, d3)"
proof -
  let ?k = "di_key (dwldInfo t)"
  obtain d1 where d1: "setDwldProgress i m False d = Some (None, d1)" "journal d1" using journal_progress [OF assms(1)] by blast
  have f: "firstTask (\<lambda>t. ti_fileId t = i) (t # ts) = Some 0" using assms(3) by (simp add: firstTask_def upt_conv_Cons del: upt_Suc)
  let ?t = "t\<lparr>dwldInfo := (dwldInfo t)\<lparr>di_unitId := m\<rparr>\<rparr>"
  obtain us where us: "gDwldInfofileFd d" "infoFile d = Some us" using assms(1) unfolding journal_def by auto
  have ts1: "gDwldTasks d1 = Some (?t # ts)" using d1(1) f us assms(2,4) by (auto simp: setDwldProgress_def Let_def)
  obtain d2 ts2 where d2: "initDwldTasksInfo True True True mem (uninitDwldTasksInfo d1) = (0, d2)" "gDwldTasks d2 = Some ts2"
    "set ts2 = (\<lambda>t. t\<lparr>dwldInfo := stopped (dwldInfo t), ti_fileId := INVALID_FILEID\<rparr>) ` set (?t # ts)"
    using restart [OF d1(2) ts1, of mem True] assms(6) by auto
  have "journal d2" by (rule journal_init [OF d2(1)])
  then obtain us2 where us2: "gDwldInfofileFd d2" "infoFile d2 = Some us2" unfolding journal_def by auto
  have calm2: "\<not> di_isDwlding (dwldInfo x)" if "x \<in> set ts2" for x using that d2(3) by auto
  then have cnt: "filter (\<lambda>t. di_isDwlding (dwldInfo t)) ts2 = []" by (simp add: filter_empty_conv)
  have "\<exists>x \<in> set ts2. di_key (dwldInfo x) = ?k" using d2(3) by force
  then obtain j where j: "lastTask (\<lambda>t. di_key (dwldInfo t) = ?k) ts2 = Some j"
    using lastTask_None [of "\<lambda>t. di_key (dwldInfo t) = ?k" ts2] by fastforce
  note lj = lastTask_Some [OF j]
  have "ts2 ! j \<in> set ts2" using lj by simp
  then have "di_unitId (dwldInfo (ts2 ! j)) = m" "\<not> di_isDwlding (dwldInfo (ts2 ! j))"
    using d2(3) lj assms(5) calm2 by auto
  moreover have "sint (word_of_int (m * 4) :: u32) = 4 * m"
    using assms(7,8) sint_word_of_int32 [of "4 * m"] by (simp add: mult.commute)
  ultimately have "\<exists>d3. getOneDwldNode True ?k n path d2 = Some (0, 4 * m, d3)"
    using j cnt us2 d2(2) by (simp add: getOneDwldNode_def Let_def)
  then show ?thesis using d1(1) d2(1) by blast
qed

theorem resume_offset_four_bytes_witness:
  "\<exists>d d1 d2 d3. setDwldProgress (-1) 7 False d = Some (None, d1) \<and> initDwldTasksInfo True True True 5 (uninitDwldTasksInfo d1) = (0, d2) \<and>
    getOneDwldNode True key_a 5 ''x'' d2 = Some (0, 28, d3)"
proof -
  obtain d where d: "initDwldTasksInfo True True True 9 noTasks = (0, d)" "gDwldTasks d = Some []" "infoFile d = Some []" "gDwldInfofileFd d"
    by (simp add: initDwldTasksInfo_def noTasks_def)
  have j: "journal d" by (rule journal_init [OF d(1)])
  obtain e where e: "getOneDwldNode True key_a 5 ''x'' d = Some (0, 0, e)" "gDwldTasks e = Some [\<lparr>dwldInfo = \<lparr>di_key = key_a,
      di_fileLength = 5, di_localFilepath = ''x'', di_unitId = 0, di_isDwlding = True\<rparr>, ti_offset = 0, ti_fileId = -1\<rparr>]"
    using d(2-4) by (simp add: getOneDwldNode_def lastTask_def Let_def)
  have "journal e" using journal_getOne [OF j, of "''x''" True key_a 5] e(1) by auto
  from resume_offset_four_bytes [OF this e(2), of "-1" 5 7 5 "''x''"] show ?thesis by auto
qed

end
