(* ===== verification/MoFormat.thy ===== *)
theory MoFormat
  imports MoPrelude
begin

text \<open>
  Formatted output of the C library, as far as the program uses it: the directives for decimal numbers,
  strings and the percent sign, without flags and widths. The result is \<open>None\<close> when an argument is missing or has
  another type than its directive, which is undefined in C, and for all other directives.
\<close>

fun digits :: "nat \<Rightarrow> string" where
  "digits n = (if n < 10 then [char_of (48 + n)] else digits (n div 10) @ [char_of (48 + n mod 10)])"

declare digits.simps [simp del]

definition decimal :: "int \<Rightarrow> string" where
  "decimal i = (if i < 0 then CHR ''-'' # digits (nat (- i)) else digits (nat i))"

text \<open>A number with leading zeros, \<open>n\<close> characters wide.\<close>

definition padded :: "nat \<Rightarrow> nat \<Rightarrow> string" where
  "padded n i = replicate (n - length (digits i)) CHR ''0'' @ digits i"

datatype ARG = A_int int | A_str string

fun vformat :: "string \<Rightarrow> ARG list \<Rightarrow> string option" where
  "vformat [] args = Some []"
| "vformat (c # s) args =
     (if c \<noteq> CHR ''%'' then map_option (Cons c) (vformat s args)
      else (case s of
          [] \<Rightarrow> None
        | d # s' \<Rightarrow>
            if d = CHR ''%'' then map_option (Cons c) (vformat s' args)
            else (case args of
                [] \<Rightarrow> None
              | A_int i # args' \<Rightarrow> if d = CHR ''d'' then map_option ((@) (decimal i)) (vformat s' args') else None
              | A_str t # args' \<Rightarrow> if d = CHR ''s'' then map_option ((@) t) (vformat s' args') else None)))"

lemma vformat_prefix: "CHR ''%'' \<notin> set p \<Longrightarrow> vformat (p @ s) args = map_option ((@) p) (vformat s args)"
proof (induction p)
  case Nil
  then show ?case by (cases "vformat s args") simp_all
next
  case (Cons c p)
  then show ?case by (cases "vformat s args") auto
qed

lemma digits_chars: "c \<in> set (digits n) \<Longrightarrow> \<exists>k < 10. c = char_of (48 + k :: nat)"
proof (induction n rule: digits.induct)
  case (1 n)
  show ?case
  proof (cases "n < 10")
    case True
    then show ?thesis using 1(2) by (subst (asm) digits.simps) auto
  next
    case False
    then have "c \<in> set (digits (n div 10)) \<or> c = char_of (48 + n mod 10)" using 1(2) by (subst (asm) digits.simps) auto
    then show ?thesis using 1(1) [OF False] by (auto intro: exI [of _ "n mod 10"])
  qed
qed

lemma digits_no_percent [simp]: "CHR ''%'' \<notin> set (digits n)"
proof
  assume "CHR ''%'' \<in> set (digits n)"
  then obtain k :: nat where k: "k < 10" "CHR ''%'' = char_of (48 + k)" using digits_chars by blast
  then have "of_char (CHR ''%'') = (48 + k) mod 256" by (metis of_char_of)
  then show False using k(1) by simp
qed

lemma decimal_no_percent [simp]: "CHR ''%'' \<notin> set (decimal i)"
  by (simp add: decimal_def)

lemma padded_no_percent [simp]: "CHR ''%'' \<notin> set (padded n i)"
  by (simp add: padded_def)

lemma length_digits_le: "i < 10 ^ n \<Longrightarrow> 0 < n \<Longrightarrow> length (digits i) \<le> n"
proof (induction n arbitrary: i)
  case (Suc n)
  show ?case
  proof (cases "i < 10")
    case True
    then show ?thesis by (subst digits.simps) simp
  next
    case False
    then have "0 < n" using Suc.prems(1) by (cases n) auto
    moreover have "i div 10 < 10 ^ n" using Suc.prems(1) by (simp add: less_mult_imp_div_less mult.commute)
    ultimately show ?thesis using Suc.IH False by (subst digits.simps) simp
  qed
qed simp

lemma length_padded: "i < 10 ^ n \<Longrightarrow> 0 < n \<Longrightarrow> length (padded n i) = n"
  using length_digits_le [of i n] by (simp add: padded_def)

end
