(* ===== verification/MoCloudClient.thy ===== *)
theory MoCloudClient
  imports MoCloudData MoCloudCtrl MoCloudTasks MoFormat
begin

text \<open>
  The interface of the cloud client, from \<open>moProject/moCloud/moCloudClientLib/src/moCloudClientLib.c\<close>: starting
  and stopping the client and its downloads, on top of the control side (\<open>MoCloudCtrl\<close>), the journal
  (\<open>MoCloudTasks\<close>) and the data side (\<open>MoCloudData\<close>). The properties are about all of them together.
\<close>

record APP =
  cl :: CLOUD
  tasks :: TASKS
  cdata :: CLIDATA

section \<open>Requests for downloads\<close>

abbreviation (input) MOCLOUD_DWLDTASKINFO_MAXLEN :: nat where "MOCLOUD_DWLDTASKINFO_MAXLEN \<equiv> 384"

definition dwldBody :: "MOCLOUD_FILEINFO_KEY \<Rightarrow> int \<Rightarrow> int \<Rightarrow> byte list" where
  "dwldBody k startOffset fileId = map of_char (copyStr MOCLOUD_DWLDTASKINFO_MAXLEN
     (''filetype='' @ decimal (int (filetype k)) @ '', filename='' @ filename k @
      '', startOffset='' @ decimal startOffset @ '', fileId='' @ decimal fileId))"

definition doStartDwld :: "REQENV \<Rightarrow> MOCLOUD_FILEINFO_KEY \<Rightarrow> int \<Rightarrow> int \<Rightarrow> CLOUD \<Rightarrow> (int \<times> CLOUD) option" where
  "doStartDwld e k startOffset fileId s = do {
     let bs = dwldBody k startOffset fileId;
     (st, resp, c) \<leftarrow> exchange e MOCLOUD_CMDID_DWLD_START bs (int (length bs)) (ctrl s);
     let s = s\<lparr>ctrl := c\<rparr>;
     if st \<noteq> 0 then Some (- int st, s)
     else do {
       r \<leftarrow> resp;
       Some (if cr_ret r \<noteq> 0 then -5 else 0, s)
     }
   }"

definition doStopDwld :: "REQENV \<Rightarrow> MOCLOUD_FILEINFO_KEY \<Rightarrow> int \<Rightarrow> CLOUD \<Rightarrow> (int \<times> CLOUD) option" where
  "doStopDwld e k fileId s = do {
     let bs = dwldBody k 0 fileId;
     (st, resp, c) \<leftarrow> exchange e MOCLOUD_CMDID_DWLD_STOP bs (int (length bs)) (ctrl s);
     let s = s\<lparr>ctrl := c\<rparr>;
     if st \<noteq> 0 then Some (- int st, s)
     else do {
       r \<leftarrow> resp;
       Some (if cr_ret r \<noteq> 0 then -5 else 0, s)
     }
   }"

section \<open>Starting and stopping downloads\<close>

text \<open>What the system does in one start of a download.\<close>

record STARTENV =
  se_node :: bool
  se_opens :: bool
  se_create :: int
  se_early :: bool
  se_req :: REQENV

definition moCloudClient_startDownloadFile ::
    "STARTENV \<Rightarrow> MOCLOUD_FILEINFO_KEY \<Rightarrow> nat \<Rightarrow> string \<Rightarrow> APP \<Rightarrow> (int \<times> APP) option" where
  "moCloudClient_startDownloadFile e k filesize path a = do {
     (ret, startOffset, ts) \<leftarrow> getOneDwldNode (se_node e) k filesize path (tasks a);
     let a = a\<lparr>tasks := ts\<rparr>;
     if ret < 0 then Some (-1, a)
     else do {
       i \<leftarrow> nodeOf k (tasks a);
       (ret, fileId, d) \<leftarrow> cliDataStartDwld (se_opens e) (se_create e) (se_early e) k filesize (Some path) True INVALID_FILEID (cdata a);
       let a = a\<lparr>cdata := d\<rparr>;
       if ret < 0 then do {
         (_, ts) \<leftarrow> delDwldNode k (tasks a);
         Some (-2, a\<lparr>tasks := ts\<rparr>)
       }
       else do {
         let a = a\<lparr>tasks := setFileId i fileId (tasks a)\<rparr>;
         (ret, s) \<leftarrow> doStartDwld (se_req e) k startOffset fileId (cl a);
         let a = a\<lparr>cl := s\<rparr>;
         if ret < 0 then do {
           (_, d) \<leftarrow> cliDataStopDwld False fileId (cdata a);
           (_, ts) \<leftarrow> delDwldNode k (tasks a);
           Some (-3, a\<lparr>cdata := d, tasks := ts\<rparr>)
         }
         else Some (0, a)
       }
     }
   }"

text \<open>\<open>self\<close>: the function is called by the thread that writes the file, at its end.\<close>

definition moCloudClient_stopDownloadFile :: "bool \<Rightarrow> REQENV \<Rightarrow> MOCLOUD_FILEINFO_KEY \<Rightarrow> bool \<Rightarrow> APP \<Rightarrow> (int \<times> APP) option" where
  "moCloudClient_stopDownloadFile self e k isDelLocalDwldFile a = do {
     (ret, fileId, path) \<leftarrow> getDwldFileInfo k (tasks a);
     if ret < 0 then Some (-1, a)
     else do {
       (_, s) \<leftarrow> doStopDwld e k fileId (cl a);
       (_, d) \<leftarrow> cliDataStopDwld self fileId (cdata a);
       let d = (if isDelLocalDwldFile then d\<lparr>disk := (disk d)(path := None)\<rparr> else d);
       (_, ts) \<leftarrow> delDwldNode k (tasks a);
       Some (0, a\<lparr>cl := s, cdata := d, tasks := ts\<rparr>)
     }
   }"

definition moCloudClient_pauseDownloadFile :: "APP \<Rightarrow> int \<times> APP" where
  "moCloudClient_pauseDownloadFile a = (0, a)"

text \<open>\<open>setDwldProgress\<close>, called by the thread that writes the file.\<close>

definition dwldProgress :: "REQENV \<Rightarrow> NOTE \<Rightarrow> APP \<Rightarrow> APP option" where
  "dwldProgress e nt a = (case nt of Notify fileId unit eof \<Rightarrow> do {
     (stop, ts) \<leftarrow> setDwldProgress fileId unit (eof \<noteq> 0) (tasks a);
     let a = a\<lparr>tasks := ts\<rparr>;
     (case stop of
        None \<Rightarrow> Some a
      | Some k \<Rightarrow> map_option snd (moCloudClient_stopDownloadFile True e k False a))
   })"

text \<open>A turn of the thread that writes file \<open>i\<close>, with the calls of \<open>setDwldProgress\<close> in it.\<close>

definition appWriterTurn :: "nat \<Rightarrow> REQENV \<Rightarrow> int \<Rightarrow> APP \<Rightarrow> APP option" where
  "appWriterTurn room e i a = do {
     (nts, d) \<leftarrow> writerTurn room i (cdata a);
     foldM (dwldProgress e) nts (a\<lparr>cdata := d\<rparr>)
   }"

section \<open>Starting and stopping the client\<close>

text \<open>What the system does in one start of the client.\<close>

record APPENV =
  ap_inet_aton :: "string \<Rightarrow> 32 word option"
  ap_fopenR :: "string \<Rightarrow> string option"
  ap_iniMem :: bool
  ap_opens :: bool
  ap_reopens :: bool
  ap_head :: bool
  ap_nodes :: nat
  ap_ctrlSock :: SOCKENV
  ap_keyReq :: REQENV
  ap_byeReq :: REQENV
  ap_semInit :: int
  ap_refreshThr :: int
  ap_heartbeatThr :: int
  ap_kill :: "int \<times> int \<times> int"
  ap_dataSock :: SOCKENV
  ap_dataThr :: int
  ap_heads :: "addr option list"

definition ctrlClose :: "CLOUD \<Rightarrow> CLOUD" where
  "ctrlClose s = (let (sock, socks) = destroySocket (gCtrlSockId s) (ctrlSocks s) in s\<lparr>gCtrlSockId := sock, ctrlSocks := socks\<rparr>)"

definition bye :: "REQENV \<Rightarrow> CLOUD \<Rightarrow> CLOUD option" where
  "bye e s = do {
     (_, c) \<leftarrow> disConnectToServer e (ctrl s);
     Some (s\<lparr>ctrl := c\<rparr>)
   }"

definition stopHeart :: "int \<times> int \<times> int \<Rightarrow> CLOUD \<Rightarrow> CLOUD option" where
  "stopHeart kl s = map_option snd (stopHeartbeatThr (fst kl) (fst (snd kl)) (snd (snd kl)) s)"

definition closed :: "APP \<Rightarrow> APP" where
  "closed a = a\<lparr>cl := (ctrlClose (cl a))\<lparr>gCfgInfo := noCfg\<rparr>, tasks := uninitDwldTasksInfo (tasks a)\<rparr>"

text \<open>
  The steps of \<open>moCloudClient_init\<close> behind the key agreement. The data side is asked last; when it cannot
  be started, the control side is stopped again.
\<close>

definition initThreads :: "APPENV \<Rightarrow> APP \<Rightarrow> (int \<times> APP) option" where
  "initThreads e a = do {
     let (ret, s) = startRefreshFilelistThr (ap_semInit e) (ap_refreshThr e) (cl a);
     let a = a\<lparr>cl := s\<rparr>;
     if ret < 0 then do {
       s \<leftarrow> bye (ap_byeReq e) (cl a);
       let a = closed (a\<lparr>cl := s\<rparr>);
       Some (-7, a\<lparr>cl := (cl a)\<lparr>cl_crypt := noCrypt\<rparr>\<rparr>)
     }
     else do {
       let (ret, s) = startHeartbeatThr (ap_heartbeatThr e) (cl a);
       let a = a\<lparr>cl := s\<rparr>;
       if ret < 0 then do {
         (_, s) \<leftarrow> stopRefreshFilelistThr (cl a);
         s \<leftarrow> bye (ap_byeReq e) s;
         let a = closed (a\<lparr>cl := s\<rparr>);
         Some (-7, a\<lparr>cl := (cl a)\<lparr>cl_crypt := noCrypt\<rparr>\<rparr>)
       }
       else do {
         let c = gCfgInfo (cl a);
         let (ret, d) = cliDataInit (ap_inet_aton e) (ap_dataSock e) (ap_dataThr e) (ap_heads e) (clientIp c) (clientDataPort c) (cdata a);
         let a = a\<lparr>cdata := d\<rparr>;
         if ret < 0 then do {
           s \<leftarrow> bye (ap_byeReq e) (cl a);
           s \<leftarrow> stopHeart (ap_kill e) s;
           (_, s) \<leftarrow> stopRefreshFilelistThr s;
           let a = closed (a\<lparr>cl := s\<rparr>);
           Some (-13, a\<lparr>cl := (cl a)\<lparr>cl_crypt := noCrypt\<rparr>\<rparr>)
         }
         else Some (0, a\<lparr>cl := (cl a)\<lparr>gCliState := CLI_STATE_NOT_LOGIN, cl_isInited := True\<rparr>\<rparr>)
       }
     }
   }"

text \<open>The path of the configuration file is not \<open>NULL\<close> in the last case.\<close>

definition moCloudClient_init :: "APPENV \<Rightarrow> string option \<Rightarrow> APP \<Rightarrow> (int \<times> APP) option" where
  "moCloudClient_init e pCfgFilepath a =
     (case pCfgFilepath of
        None \<Rightarrow> Some (MOCLOUDCLIENT_ERR_INPUT_NULL, a)
      | Some path \<Rightarrow>
          if cl_isInited (cl a) then Some (-2, a)
          else do {
            (ret, cfg) \<leftarrow> getCfgInfo (ap_inet_aton e) (ap_fopenR e) (ap_iniMem e) path;
            let a = a\<lparr>cl := (cl a)\<lparr>gCliState := CLI_STATE_IDLE, gCfgInfo := cfg\<rparr>\<rparr>;
            if ret < 0 then Some (-3, a)
            else do {
              let (ret, ts) = initDwldTasksInfo (ap_opens e) (ap_reopens e) (ap_head e) (ap_nodes e) (tasks a);
              let a = a\<lparr>tasks := ts\<rparr>;
              if ret < 0 then Some (-14, a)
              else do {
                let (ret, sock, socks) = createSocket (ap_inet_aton e) (ap_ctrlSock e) (clientIp cfg) (clientCtrlPort cfg)
                  (gCtrlSockId (cl a)) (ctrlSocks (cl a));
                let a = a\<lparr>cl := (cl a)\<lparr>gCtrlSockId := sock, ctrlSocks := socks\<rparr>\<rparr>;
                if ret < 0 then Some (-4, a\<lparr>cl := (cl a)\<lparr>gCfgInfo := noCfg\<rparr>, tasks := uninitDwldTasksInfo (tasks a)\<rparr>)
                else if connectToServer (ap_ctrlSock e) < 0 then Some (-5, closed a)
                else do {
                  (ret, s) \<leftarrow> doKeyAgree (ap_keyReq e) (cl a);
                  let a = a\<lparr>cl := s\<rparr>;
                  if ret < 0 then Some (-6, closed a) else initThreads e a
                }
              }
            }
          })"

text \<open>\<open>kd\<close> and \<open>kc\<close> are what the calls return that stop the thread of the data side and the heartbeats.\<close>

definition moCloudClient_unInit :: "int \<times> int \<times> int \<Rightarrow> int \<times> int \<times> int \<Rightarrow> REQENV \<Rightarrow> APP \<Rightarrow> APP option" where
  "moCloudClient_unInit kd kc e a = do {
     d \<leftarrow> cliDataUnInit (fst kd) (fst (snd kd)) (snd (snd kd)) (cdata a);
     let a = a\<lparr>cdata := d\<rparr>;
     s \<leftarrow> bye e (cl a);
     s \<leftarrow> stopHeart kc s;
     (_, s) \<leftarrow> stopRefreshFilelistThr s;
     let a = closed (a\<lparr>cl := s\<rparr>);
     (_, fl) \<leftarrow> freeLocalFilelist MOCLOUD_FILETYPE_ALL (gpFilelist (cl a));
     Some (a\<lparr>cl := (cl a)\<lparr>cl_crypt := noCrypt, cl_isInited := False, gpFilelist := fl, gCliState := CLI_STATE_IDLE\<rparr>\<rparr>)
   }"

section \<open>Looking up a task\<close>

lemma getFileIdLoop_head:
  assumes "getFileIdLoop k ts = Some y"
  shows "ts \<noteq> [] \<longrightarrow> di_key (dwldInfo (hd ts)) = k"
proof (rule getFileIdLoop.raw_induct [of "\<lambda>k ts y. ts \<noteq> [] \<longrightarrow> di_key (dwldInfo (hd ts)) = k", OF _ assms])
  fix f k ts y
  assume IH: "\<And>k ts y. f k ts = Some y \<Longrightarrow> ts \<noteq> [] \<longrightarrow> di_key (dwldInfo (hd ts)) = k"
    and eq: "(case ts of [] \<Rightarrow> Some (-2, INVALID_FILEID) | t # _ \<Rightarrow> if di_key (dwldInfo t) = k then Some (0, ti_fileId t) else f k ts) = Some y"
  show "ts \<noteq> [] \<longrightarrow> di_key (dwldInfo (hd ts)) = k"
  proof (cases ts)
    case (Cons t us)
    then show ?thesis using eq IH [of k ts y] by (cases "di_key (dwldInfo t) = k") simp_all
  qed simp
qed

lemma lookup_stuck:
  assumes "di_key (dwldInfo t) \<noteq> k"
  shows "getDwldFileInfoLoop k (t # ts) = None" and "getFileIdLoop k (t # ts) = None"
  using getDwldFileInfoLoop_head [of k "t # ts"] getFileIdLoop_head [of k "t # ts"] assms
  by (cases "getDwldFileInfoLoop k (t # ts)"; cases "getFileIdLoop k (t # ts)"; simp)+

text \<open>The calls of \<open>setDwldProgress\<close> in the whole client do with the tasks what \<open>J_progress\<close> does.\<close>

lemma dwldProgress_journal:
  assumes "dwldProgress e (Notify i n eof) a = Some b"
  shows "journal_do (J_progress i n (eof \<noteq> 0)) (tasks a) = Some (tasks b)"
  using assms by (auto simp: dwldProgress_def moCloudClient_stopDownloadFile_def Let_def split: bind_splits option.splits if_splits)

text \<open>
  C36. Only the task at the head of the list can be stopped, or can end: a new download is put there, and a
  resumed one keeps its place. The search for a task never gets past the first one of the list. For every other
  file \<open>moCloudClient_stopDownloadFile\<close> does not return, and neither does the notification with which the
  writing thread reports the end of the file; both hold the mutex of the tasks. The file of the head is found.
\<close>

theorem only_first_task_stops:
  assumes "gDwldTasks (tasks a) = Some (t # ts)" and "di_key (dwldInfo t) \<noteq> k"
  shows "moCloudClient_stopDownloadFile self e k del a = None \<and> getFileId k (tasks a) = None \<and>
    (\<forall>i n (eof :: byte) j. firstTask (\<lambda>t. ti_fileId t = i) (t # ts) = Some j \<and> di_key (dwldInfo ((t # ts) ! j)) = k \<and>
       di_isDwlding (dwldInfo ((t # ts) ! j)) \<and> eof \<noteq> 0 \<longrightarrow> dwldProgress e (Notify i n eof) a = None) \<and>
    getFileId (di_key (dwldInfo t)) (tasks a) = Some (0, ti_fileId t)"
proof (intro conjI allI impI)
  have stop: "moCloudClient_stopDownloadFile self' e k del' b = None"
    if "gDwldTasks (tasks b) = Some (x # xs)" "di_key (dwldInfo x) \<noteq> k" for self' del' b x xs
    using that lookup_stuck [OF that(2)] by (simp add: moCloudClient_stopDownloadFile_def getDwldFileInfo_def)
  show "moCloudClient_stopDownloadFile self e k del a = None" by (rule stop [OF assms])
  show "getFileId k (tasks a) = None" using assms lookup_stuck [OF assms(2)] by (simp add: getFileId_def)
  show "getFileId (di_key (dwldInfo t)) (tasks a) = Some (0, ti_fileId t)"
    using assms(1) by (simp add: getFileId_def getFileIdLoop.simps)
  fix i n :: int and eof :: byte and j :: nat
  assume j: "firstTask (\<lambda>t. ti_fileId t = i) (t # ts) = Some j \<and> di_key (dwldInfo ((t # ts) ! j)) = k \<and>
       di_isDwlding (dwldInfo ((t # ts) ! j)) \<and> eof \<noteq> 0"
  then obtain m where m: "j = Suc m" using assms(2) by (cases j) auto
  let ?x = "(ts ! m)\<lparr>dwldInfo := (dwldInfo (ts ! m))\<lparr>di_unitId := n\<rparr>\<rparr>"
  show "dwldProgress e (Notify i n eof) a = None"
    using j m assms stop [of "a\<lparr>tasks := _\<rparr>" t "ts[m := ?x]"]
    by (auto simp: dwldProgress_def setDwldProgress_def Let_def split: option.split)
qed

section \<open>A download and its journal\<close>

lemma firstTask_cong:
  assumes "length ts = length ts'" and "\<And>i. i < length ts \<Longrightarrow> P (ts ! i) = Q (ts' ! i)"
  shows "firstTask P ts = firstTask Q ts'"
  unfolding firstTask_def using assms by (intro find_cong) auto

text \<open>
  \<open>journalling i path bodies rest k r m a\<close>: \<open>r\<close> units of file \<open>i\<close> have been received and \<open>m\<close> written, and the
  journal has the number of the last one under the key of the file.
\<close>

definition journalling :: "int \<Rightarrow> string \<Rightarrow> byte list list \<Rightarrow> byte list \<Rightarrow> MOCLOUD_FILEINFO_KEY \<Rightarrow> nat \<Rightarrow> nat \<Rightarrow> APP \<Rightarrow> bool" where
  "journalling i path bodies rest k r m a \<longleftrightarrow> downloading i path bodies rest r m (cdata a) \<and> journal (tasks a) \<and>
     (\<exists>ts j. gDwldTasks (tasks a) = Some ts \<and> firstTask (\<lambda>t. ti_fileId t = i) ts = Some j \<and> di_isDwlding (dwldInfo (ts ! j)) \<and>
        di_key (dwldInfo (ts ! j)) = k \<and> di_unitId (dwldInfo (ts ! j)) = (if m = 0 then 0 else int m - 1))"

lemma dwldProgress_journalling:
  assumes "journalling i path bodies rest k r m a" and "downloading i path bodies rest r (Suc m) d"
  shows "\<exists>b. dwldProgress e (Notify i (int m) 0) (a\<lparr>cdata := d\<rparr>) = Some b \<and> journalling i path bodies rest k r (Suc m) b \<and> cdata b = d"
proof -
  obtain ts j where t: "journal (tasks a)" "gDwldTasks (tasks a) = Some ts" "firstTask (\<lambda>t. ti_fileId t = i) ts = Some j"
    "di_isDwlding (dwldInfo (ts ! j))" "di_key (dwldInfo (ts ! j)) = k"
    using assms(1) unfolding journalling_def by blast
  obtain d' where d': "setDwldProgress i (int m) False (tasks a) = Some (None, d')" "journal d'"
    using journal_progress [OF t(1)] by blast
  obtain us where us: "gDwldInfofileFd (tasks a)" "infoFile (tasks a) = Some us" using t(1) unfolding journal_def by auto
  let ?t = "(ts ! j)\<lparr>dwldInfo := (dwldInfo (ts ! j))\<lparr>di_unitId := int m\<rparr>\<rparr>"
  have ts': "gDwldTasks d' = Some (ts[j := ?t])" using d'(1) t us by (auto simp: setDwldProgress_def Let_def)
  have j: "j < length ts" using firstTask_Some [OF t(3)] by simp
  have "(ti_fileId (ts[j := ?t] ! n) = i) = (ti_fileId (ts ! n) = i)" if "n < length ts" for n
    using that by (cases "n = j") simp_all
  then have first: "firstTask (\<lambda>t. ti_fileId t = i) (ts[j := ?t]) = Some j"
    using firstTask_cong [of "ts[j := ?t]" ts "\<lambda>t. ti_fileId t = i" "\<lambda>t. ti_fileId t = i"] t(3) by simp
  have "journalling i path bodies rest k r (Suc m) (a\<lparr>cdata := d, tasks := d'\<rparr>)"
    unfolding journalling_def
    by (intro conjI exI [of _ "ts[j := ?t]"] exI [of _ j]) (use assms(2) d'(2) ts' first t(4,5) j in \<open>simp_all\<close>)
  then have "journalling i path bodies rest k r (Suc m) (a\<lparr>cdata := d, tasks := d'\<rparr>) \<and> cdata (a\<lparr>cdata := d, tasks := d'\<rparr>) = d" by simp
  moreover have "dwldProgress e (Notify i (int m) 0) (a\<lparr>cdata := d\<rparr>) = Some (a\<lparr>cdata := d, tasks := d'\<rparr>)"
    using d'(1) by (simp add: dwldProgress_def)
  ultimately show ?thesis by blast
qed

lemma appWriterTurn_journalling:
  assumes "journalling i path bodies rest k r m a" and "units_ok bodies" and "MOCLOUD_DATA_UNIT_LEN \<le> room"
  shows "\<exists>b m'. appWriterTurn room e i a = Some b \<and> journalling i path bodies rest k r m' b \<and> m \<le> m' \<and>
    (m < r \<longrightarrow> (\<exists>t. getTask i (cdata b) = Some t \<and> writer t = W_LOOP)) \<and>
    (m < r \<and> (\<exists>t. getTask i (cdata a) = Some t \<and> writer t = W_LOOP) \<longrightarrow> m' = Suc m)"
proof -
  have dl: "downloading i path bodies rest r m (cdata a)" using assms(1) unfolding journalling_def by blast
  have "\<exists>nts d' m'. writerTurn room i (cdata a) = Some (nts, d') \<and> downloading i path bodies rest r m' d' \<and> m \<le> m' \<and>
    (m < r \<longrightarrow> (\<exists>t. getTask i d' = Some t \<and> writer t = W_LOOP)) \<and>
    (m < r \<and> (\<exists>t. getTask i (cdata a) = Some t \<and> writer t = W_LOOP) \<longrightarrow> m' = Suc m) \<and>
    (m' = m \<and> nts = [] \<or> m' = Suc m \<and> nts = [Notify i (int m) 0])"
    by (rule writerTurn_downloading [OF dl assms(2,3)]) blast
  then obtain nts d' m' where w: "writerTurn room i (cdata a) = Some (nts, d')" "downloading i path bodies rest r m' d'" "m \<le> m'"
    "m < r \<longrightarrow> (\<exists>t. getTask i d' = Some t \<and> writer t = W_LOOP)"
    "m < r \<and> (\<exists>t. getTask i (cdata a) = Some t \<and> writer t = W_LOOP) \<longrightarrow> m' = Suc m"
    "m' = m \<and> nts = [] \<or> m' = Suc m \<and> nts = [Notify i (int m) 0]" by (elim exE conjE)
  have "\<exists>b. appWriterTurn room e i a = Some b \<and> journalling i path bodies rest k r m' b \<and> cdata b = d'"
  proof (cases "nts = []")
    case True
    then have "m' = m" using w(6) by auto
    then have "journalling i path bodies rest k r m (a\<lparr>cdata := d'\<rparr>)" using assms(1) w(2) unfolding journalling_def by simp
    then have "journalling i path bodies rest k r m' (a\<lparr>cdata := d'\<rparr>)" using \<open>m' = m\<close> by simp
    moreover have "appWriterTurn room e i a = Some (a\<lparr>cdata := d'\<rparr>)" using w(1) True by (simp add: appWriterTurn_def)
    ultimately show ?thesis by simp
  next
    case False
    then have n: "m' = Suc m" "nts = [Notify i (int m) 0]" using w(6) by auto
    then show ?thesis using w(1) dwldProgress_journalling [OF assms(1), of d' e] w(2) by (auto simp: appWriterTurn_def)
  qed
  then show ?thesis using w(3-5) by blast
qed

text \<open>The states after turns of the receiving thread and the writing thread of file \<open>i\<close>, in any order.\<close>

inductive app_reach :: "int \<Rightarrow> nat \<Rightarrow> APP \<Rightarrow> nat \<Rightarrow> APP \<Rightarrow> bool" for i n a0 where
  start: "app_reach i n a0 0 a0"
| receive: "app_reach i n a0 r a \<Longrightarrow> r < n \<Longrightarrow> cheap (cdata a) x = None \<Longrightarrow> length stack = MOCLOUD_DATA_UNIT_LEN \<Longrightarrow>
    recvUnit (Some x) stack (cdata a) = Some (again, d) \<Longrightarrow> app_reach i n a0 (if again then Suc r else r) (a\<lparr>cdata := d\<rparr>)"
| store: "app_reach i n a0 r a \<Longrightarrow> MOCLOUD_DATA_UNIT_LEN \<le> room \<Longrightarrow> appWriterTurn room e i a = Some b \<Longrightarrow> app_reach i n a0 r b"

lemma app_reach_journalling:
  assumes "app_reach i (length bodies) a0 r a" and "journalling i path bodies rest k 0 0 a0" and "units_ok bodies"
  shows "\<exists>m. journalling i path bodies rest k r m a"
  using assms(1)
proof induction
  case start
  then show ?case using assms(2) by blast
next
  case (receive r a x stack again d)
  then obtain m where m: "journalling i path bodies rest k r m a" by blast
  then have dl: "downloading i path bodies rest r m (cdata a)" unfolding journalling_def by blast
  have "downloading i path bodies rest (if again then Suc r else r) m d"
    by (rule recvUnit_downloading [OF dl assms(3) receive.hyps(2-4)]) (use receive.hyps(5) in auto)
  then have "journalling i path bodies rest k (if again then Suc r else r) m (a\<lparr>cdata := d\<rparr>)"
    using m unfolding journalling_def by simp
  then show ?case by blast
next
  case (store r a room e b)
  then obtain m where "journalling i path bodies rest k r m a" by blast
  from appWriterTurn_journalling [OF this assms(3) store.hyps(2), of e] show ?case using store.hyps(3) by auto
qed


lemma getOneDwldNode_new:
  assumes "getOneDwldNode mem k filesize path d = Some (ret, off, d')" and "0 \<le> ret" and "journal d"
    and "gDwldTasks d = Some ts" and "\<forall>t \<in> set ts. di_key (dwldInfo t) \<noteq> k"
  obtains t where "gDwldTasks d' = Some (t # ts)" and "di_key (dwldInfo t) = k" and "di_isDwlding (dwldInfo t)"
    and "di_unitId (dwldInfo t) = 0" and "journal d'" and "nodeOf k d' = Some 0"
proof -
  have n: "lastTask (\<lambda>t. di_key (dwldInfo t) = k) ts = None" using assms(5) by (simp add: lastTask_None)
  have p: "length path < MOCLOUD_FILEPATH_MAXLEN"
    using assms(1,2,4) n by (auto simp: getOneDwldNode_def split: if_splits)
  have j: "journal d'" using journal_getOne [OF assms(3) p, of mem k filesize] assms(1) by auto
  obtain t where t: "gDwldTasks d' = Some (t # ts)" "di_key (dwldInfo t) = k" "di_isDwlding (dwldInfo t)" "di_unitId (dwldInfo t) = 0"
    using assms(1,2,4) n by (auto simp: getOneDwldNode_def Let_def split: if_splits bind_splits)
  obtain m where m: "lastTask (\<lambda>t. di_key (dwldInfo t) = k) (t # ts) = Some m"
    using lastTask_None [of "\<lambda>t. di_key (dwldInfo t) = k" "t # ts"] t(2) by fastforce
  have "m = 0"
  proof (rule ccontr)
    assume "m \<noteq> 0"
    then have "(t # ts) ! m \<in> set ts" using lastTask_Some [OF m] by (cases m) auto
    then show False using lastTask_Some [OF m] assms(5) by auto
  qed
  then have "nodeOf k d' = Some 0" using m t(1) by (simp add: nodeOf_def)
  then show ?thesis using t j by (intro that)
qed

lemma startDownload_journalling:
  assumes "moCloudClient_startDownloadFile e k filesize path a0 = Some (0, a)"
    and "se_opens e" and "se_create e = 0" and "se_early e"
    and "journal (tasks a0)" and "gDwldTasks (tasks a0) = Some ts" and "\<forall>t \<in> set ts. di_key (dwldInfo t) \<noteq> k"
    and "tasks_ready (cdata a0)" and "disk (cdata a0) path \<in> {None, Some []}" and "0 < filesize"
    and "gDwldTasks (tasks a) = Some (t # ts)"
    and "bursts (unit_msgs (ti_fileId t) 0 bodies) rest (sockIn (cdata a0))"
  shows "journalling (ti_fileId t) path bodies rest k 0 0 a"
proof -
  obtain ret off T where g: "getOneDwldNode (se_node e) k filesize path (tasks a0) = Some (ret, off, T)" "0 \<le> ret"
    using assms(1) by (auto simp: moCloudClient_startDownloadFile_def Let_def split: if_splits bind_splits)
  obtain x where x: "gDwldTasks T = Some (x # ts)" "di_key (dwldInfo x) = k" "di_isDwlding (dwldInfo x)"
    "di_unitId (dwldInfo x) = 0" "journal T" "nodeOf k T = Some 0"
    by (rule getOneDwldNode_new [OF g assms(5-7)])
  obtain r i d where c: "cliDataStartDwld True 0 True k filesize (Some path) True INVALID_FILEID (cdata a0) = Some (r, i, d)" "0 \<le> r"
    using assms(1-4) g x(6) by (auto simp: moCloudClient_startDownloadFile_def Let_def split: if_splits bind_splits)
  obtain r3 s where s: "doStartDwld (se_req e) k off i (cl a0) = Some (r3, s)" "0 \<le> r3"
    using assms(1-4) g x(6) c by (auto simp: moCloudClient_startDownloadFile_def Let_def split: if_splits bind_splits)
  have a: "a = a0\<lparr>cdata := d, tasks := setFileId 0 i T, cl := s\<rparr>"
    using assms(1-4) g x(6) c s by (simp add: moCloudClient_startDownloadFile_def Let_def)
  have t: "t = x\<lparr>ti_fileId := i\<rparr>" using assms(11) x(1) by (simp add: a setFileId_def)
  have r: "r = 0" using c by (auto simp: cliDataStartDwld_def Let_def split: if_splits bind_splits option.splits)
  have "downloading i path bodies rest 0 0 d"
    by (rule cliDataStartDwld_downloading [OF c(1) [unfolded r] assms(8-10)]) (use assms(12) t in simp)
  moreover have "journal (setFileId 0 i T)" by (rule journal_setFileId [OF x(5,1)]) simp
  moreover have "firstTask (\<lambda>t. ti_fileId t = i) (t # ts) = Some 0"
    by (simp add: firstTask_def t upt_conv_Cons del: upt_Suc)
  ultimately show ?thesis using assms(11) x(2-4) t unfolding journalling_def by (auto simp: a)
qed

text \<open>The file holds the first \<open>m\<close> units, and the journal the number of the last of them, in a unit in use.\<close>

definition file_and_journal :: "string \<Rightarrow> byte list list \<Rightarrow> MOCLOUD_FILEINFO_KEY \<Rightarrow> nat \<Rightarrow> APP \<Rightarrow> bool" where
  "file_and_journal path bodies k m b \<longleftrightarrow> disk (cdata b) path = Some (concat (take m bodies)) \<and>
     (\<exists>us. infoFile (tasks b) = Some us \<and>
        (\<exists>u \<in> set us. u_isUsing u \<and> di_key (u_dwldInfo u) = k \<and> di_unitId (u_dwldInfo u) = (if m = 0 then 0 else int m - 1)))"

lemma journalling_file:
  assumes "journalling i path bodies rest k r m b"
  shows "m \<le> r \<and> file_and_journal path bodies k m b"
proof -
  obtain xs j where j: "downloading i path bodies rest r m (cdata b)" "journal (tasks b)" "gDwldTasks (tasks b) = Some xs"
    "firstTask (\<lambda>x. ti_fileId x = i) xs = Some j" "di_key (dwldInfo (xs ! j)) = k"
    "di_unitId (dwldInfo (xs ! j)) = (if m = 0 then 0 else int m - 1)"
    using assms unfolding journalling_def by blast
  obtain us where us: "infoFile (tasks b) = Some us" "journalled xs us" using j(2,3) unfolding journal_def by auto
  have "j < length xs" using firstTask_Some [OF j(4)] by simp
  then obtain n where n: "n < length us" "u_isUsing (us ! n)" "u_dwldInfo (us ! n) = dwldInfo (xs ! j)"
    using us(2) unfolding journalled_def by (meson nth_mem)
  then have "\<exists>u \<in> set us. u_isUsing u \<and> di_key (u_dwldInfo u) = k \<and> di_unitId (u_dwldInfo u) = (if m = 0 then 0 else int m - 1)"
    using j(5,6) by (intro bexI [of _ "us ! n"]) simp_all
  moreover have "m \<le> r" "disk (cdata b) path = Some (concat (take m bodies))" using j(1) unfolding downloading_def by blast+
  ultimately show ?thesis using us(1) unfolding file_and_journal_def by blast
qed

text \<open>
  C35. The journal keeps up with the file, when the units arrive without gaps inside a unit: when a new download
  has been started, then after any turns of the receiving and the writing thread the file holds the first \<open>m\<close>
  units the server sent, and the unit of the journal that is in use for this file has the number of the last of
  them. Two turns of the writing thread return, and bring at least one more of the units received to the file
  and to the journal.
\<close>

theorem progress_is_journalled:
  assumes "moCloudClient_startDownloadFile e k filesize path a0 = Some (0, a)"
    and "se_opens e" and "se_create e = 0" and "se_early e"
    and "journal (tasks a0)" and "gDwldTasks (tasks a0) = Some ts" and "\<forall>t \<in> set ts. di_key (dwldInfo t) \<noteq> k"
    and "tasks_ready (cdata a0)" and "disk (cdata a0) path \<in> {None, Some []}" and "0 < filesize"
    and "gDwldTasks (tasks a) = Some (t # ts)"
    and "bursts (unit_msgs (ti_fileId t) 0 bodies) rest (sockIn (cdata a0))"
    and "units_ok bodies" and "app_reach (ti_fileId t) (length bodies) a r b"
  shows "\<exists>m \<le> r. file_and_journal path bodies k m b \<and>
    (\<forall>room e e'. MOCLOUD_DATA_UNIT_LEN \<le> room \<longrightarrow>
       (\<exists>b1 b2. appWriterTurn room e (ti_fileId t) b = Some b1 \<and> appWriterTurn room e' (ti_fileId t) b1 = Some b2 \<and>
          (\<exists>m' \<ge> min (Suc m) r. m' \<le> r \<and> file_and_journal path bodies k m' b2)))"
proof -
  obtain m where m: "journalling (ti_fileId t) path bodies rest k r m b"
    using app_reach_journalling [OF assms(14) startDownload_journalling [OF assms(1-12)] assms(13)] by blast
  have "\<exists>b1 b2. appWriterTurn room e (ti_fileId t) b = Some b1 \<and> appWriterTurn room e' (ti_fileId t) b1 = Some b2 \<and>
      (\<exists>m' \<ge> min (Suc m) r. m' \<le> r \<and> file_and_journal path bodies k m' b2)" if room: "MOCLOUD_DATA_UNIT_LEN \<le> room" for room e e'
  proof -
    from appWriterTurn_journalling [OF m assms(13) room, of e] obtain b1 m1 where 1: "appWriterTurn room e (ti_fileId t) b = Some b1"
      "journalling (ti_fileId t) path bodies rest k r m1 b1" "m \<le> m1"
      "m < r \<longrightarrow> (\<exists>x. getTask (ti_fileId t) (cdata b1) = Some x \<and> writer x = W_LOOP)" by (elim exE conjE)
    from appWriterTurn_journalling [OF 1(2) assms(13) room, of e'] obtain b2 m2 where 2: "appWriterTurn room e' (ti_fileId t) b1 = Some b2"
      "journalling (ti_fileId t) path bodies rest k r m2 b2" "m1 \<le> m2"
      "m1 < r \<and> (\<exists>x. getTask (ti_fileId t) (cdata b1) = Some x \<and> writer x = W_LOOP) \<longrightarrow> m2 = Suc m1" by (elim exE conjE)
    have "min (Suc m) r \<le> m2" using 1(3,4) 2(3,4) by (cases "m1 < r") auto
    then show ?thesis using 1(1) 2(1) journalling_file [OF 2(2)] by blast
  qed
  then show ?thesis using journalling_file [OF m] by blast
qed

section \<open>Starting and stopping the client\<close>

definition same_ctrl :: "CLOUD \<Rightarrow> CLOUD \<Rightarrow> bool" where
  "same_ctrl s s' \<longleftrightarrow> ctrlSocks s' = ctrlSocks s \<and> gCtrlSockId s' = gCtrlSockId s \<and> cl_isInited s' = cl_isInited s"

lemma same_ctrl_trans [trans]: "same_ctrl s s' \<Longrightarrow> same_ctrl s' s'' \<Longrightarrow> same_ctrl s s''"
  by (simp add: same_ctrl_def)

lemma bye_eq: "bye e s = Some s' \<Longrightarrow> s' = s\<lparr>ctrl := ctrl s'\<rparr>"
  by (auto simp: bye_def split: bind_splits)

lemma doKeyAgree_same: "doKeyAgree e s = Some (r, s') \<Longrightarrow> same_ctrl s s'"
  by (auto simp: doKeyAgree_def same_ctrl_def Let_def split: bind_splits if_splits)

lemma bye_same: "bye e s = Some s' \<Longrightarrow> same_ctrl s s'"
  by (drule bye_eq, erule ssubst) (simp add: same_ctrl_def)

lemma stopHeart_same: "stopHeart kl s = Some s' \<Longrightarrow> same_ctrl s s' \<and> gRefreshFilelistThId s' = gRefreshFilelistThId s"
  by (auto simp: stopHeart_def stopHeartbeatThr_def same_ctrl_def split: THREAD.splits if_splits)

lemma stopRefresh_same: "stopRefreshFilelistThr s = Some (r, s') \<Longrightarrow> same_ctrl s s'"
  by (auto simp: stopRefreshFilelistThr_def same_ctrl_def split: THREAD.splits)

lemma starts_same:
  "startRefreshFilelistThr i c s = (r, s') \<Longrightarrow> same_ctrl s s'" "startHeartbeatThr c s = (r, s') \<Longrightarrow> same_ctrl s s'"
  by (auto simp: startRefreshFilelistThr_def startHeartbeatThr_def same_ctrl_def Let_def split: if_splits)

lemma closed_same:
  assumes "same_ctrl s0 (cl a)" and "0 \<le> gCtrlSockId s0" and "ctrlSocks s0 = gCtrlSockId s0 # socks"
  shows "ctrlSocks (cl (closed a)) = socks" and "cl_isInited (cl (closed a)) = cl_isInited s0" and "gDwldTasks (tasks (closed a)) = None"
  using assms by (simp_all add: closed_def ctrlClose_def same_ctrl_def uninitDwldTasksInfo_def)

lemma initTasks_number:
  "fst (initTasks hs n d) = n + length (takeWhile (\<lambda>h. h \<noteq> None) hs)"
  by (induction hs n d rule: initTasks.induct) simp_all

lemma cliDataInit_outcome:
  assumes "cliDataInit inet_aton e create heads ip port d = (ret, d')" and "\<not> gIsInited d"
  shows "ret = 0 \<and> gIsInited d' \<and> dataSocks d' = gDataSockId d' # dataSocks d \<and> recvThr d' = (startThread create = 0) \<or>
    ret < 0 \<and> \<not> gIsInited d' \<and> (dataSocks d' = dataSocks d \<and> recvThr d' = recvThr d \<or>
      length (takeWhile (\<lambda>h. h \<noteq> None) heads) < MOCLOUD_DWLD_TASK_MAX_NUM \<and>
      dataSocks d' = gDataSockId d' # dataSocks d \<and> recvThr d' = (startThread create = 0))"
proof -
  obtain r sock socks where c: "createSocket inet_aton e ip port (gDataSockId d) (dataSocks d) = (r, sock, socks)" by (metis prod_cases3)
  define x where "x = (d\<lparr>gDataSockId := sock, dataSocks := socks, recvThr := startThread create = 0,
      gDwldFileInfo := replicate MOCLOUD_DWLD_TASK_MAX_NUM noTask\<rparr>)"
  define y where "y = snd (initTasks heads 0 x)"
  have y: "dataSocks y = socks" "recvThr y = (startThread create = 0)" "\<not> gIsInited y" "gDataSockId y = sock"
    using initTasks_keeps [of heads 0 x] assms(2) by (simp_all add: y_def x_def)
  let ?n = "length (takeWhile (\<lambda>h. h \<noteq> None) heads)"
  have i: "initTasks heads 0 x = (?n, y)"
    using initTasks_number [of heads 0 x] by (simp add: y_def prod_eq_iff)
  show ?thesis
  proof (cases "r < 0 \<or> connectToServer e < 0 \<or> startThread create < 0")
    case True
    then show ?thesis
      using assms createSocket_cases [OF c] c by (auto simp: cliDataInit_def startRecvDataThr_def Let_def split: if_splits prod.splits)
  next
    case False
    then have "cliDataInit inet_aton e create heads ip port d = (if ?n < MOCLOUD_DWLD_TASK_MAX_NUM then (-5, y) else (0, y\<lparr>gIsInited := True\<rparr>))"
      using c assms(2) i by (simp add: cliDataInit_def startRecvDataThr_def x_def Let_def split: prod.split)
    then show ?thesis using False assms(1) y createSocket_cases [OF c] by (auto split: if_splits)
  qed
qed

text \<open>What a failed start leaves on the data side: nothing, unless one of the eight allocations has failed.\<close>

definition data_closed :: "APPENV \<Rightarrow> int \<Rightarrow> CLIDATA \<Rightarrow> CLIDATA \<Rightarrow> bool" where
  "data_closed e ret d d' \<longleftrightarrow> \<not> gIsInited d' \<and> (dataSocks d' = dataSocks d \<and> recvThr d' = recvThr d \<or>
     ret = -13 \<and> length (takeWhile (\<lambda>h. h \<noteq> None) (ap_heads e)) < MOCLOUD_DWLD_TASK_MAX_NUM \<and>
     dataSocks d' = gDataSockId d' # dataSocks d \<and> recvThr d' = (startThread (ap_dataThr e) = 0))"

lemma data_closed_same: "\<not> gIsInited d \<Longrightarrow> data_closed e ret d d"
  by (simp add: data_closed_def)

lemma closed_cdata [simp]: "cdata (closed a) = cdata a"
  by (simp add: closed_def)

lemma initThreads_outcome:
  assumes "initThreads e a = Some (ret, b)" and "same_ctrl s0 (cl a)" and "0 \<le> gCtrlSockId s0" and "ctrlSocks s0 = gCtrlSockId s0 # socks"
    and "\<not> gIsInited (cdata a)"
  shows "ret = 0 \<and> cl_isInited (cl b) \<and> gCliState (cl b) = CLI_STATE_NOT_LOGIN \<and> tasks b = tasks a \<and> same_ctrl s0 ((cl b)\<lparr>cl_isInited := cl_isInited s0\<rparr>) \<and>
      gIsInited (cdata b) \<and> dataSocks (cdata b) = gDataSockId (cdata b) # dataSocks (cdata a) \<and> recvThr (cdata b) = (startThread (ap_dataThr e) = 0) \<or>
    ret < 0 \<and> ctrlSocks (cl b) = socks \<and> cl_isInited (cl b) = cl_isInited s0 \<and> gDwldTasks (tasks b) = None \<and>
      data_closed e ret (cdata a) (cdata b)"
proof -
  note cs = closed_same [OF _ assms(3,4)]
  obtain r1 s1 where 1: "startRefreshFilelistThr (ap_semInit e) (ap_refreshThr e) (cl a) = (r1, s1)" by fastforce
  obtain r2 s2 where 2: "startHeartbeatThr (ap_heartbeatThr e) s1 = (r2, s2)" by fastforce
  have s1: "same_ctrl s0 s1" using same_ctrl_trans [OF assms(2)] starts_same(1) [OF 1] by blast
  have s2: "same_ctrl s0 s2" using same_ctrl_trans [OF s1] starts_same(2) [OF 2] by blast
  obtain r3 d where 3: "cliDataInit (ap_inet_aton e) (ap_dataSock e) (ap_dataThr e) (ap_heads e) (clientIp (gCfgInfo s2))
     (clientDataPort (gCfgInfo s2)) (cdata a) = (r3, d)" by fastforce
  note d = cliDataInit_outcome [OF 3 assms(5)]
  consider "r1 < 0" | "0 \<le> r1" "r2 < 0" | "0 \<le> r1" "0 \<le> r2" "r3 < 0" | "0 \<le> r1" "0 \<le> r2" "0 \<le> r3" by linarith
  then show ?thesis
  proof cases
    case 1
    obtain s where "bye (ap_byeReq e) s1 = Some s" "ret = -7" "b = (closed (a\<lparr>cl := s\<rparr>))\<lparr>cl := (cl (closed (a\<lparr>cl := s\<rparr>)))\<lparr>cl_crypt := noCrypt\<rparr>\<rparr>"
      using assms(1) 1 \<open>startRefreshFilelistThr _ _ _ = _\<close> by (auto simp: initThreads_def Let_def split: bind_splits)
    then show ?thesis using cs [of "a\<lparr>cl := s\<rparr>"] same_ctrl_trans [OF s1 bye_same] data_closed_same [OF assms(5)] by simp
  next
    case 2
    obtain r s s' where "stopRefreshFilelistThr s2 = Some (r, s)" "bye (ap_byeReq e) s = Some s'" "ret = -7"
      "b = (closed (a\<lparr>cl := s'\<rparr>))\<lparr>cl := (cl (closed (a\<lparr>cl := s'\<rparr>)))\<lparr>cl_crypt := noCrypt\<rparr>\<rparr>"
      using assms(1) 2 1 \<open>startHeartbeatThr _ _ = _\<close> by (auto simp: initThreads_def Let_def split: bind_splits)
    then show ?thesis using cs [of "a\<lparr>cl := s'\<rparr>"] same_ctrl_trans [OF same_ctrl_trans [OF s2 stopRefresh_same] bye_same] data_closed_same [OF assms(5)] by simp
  next
    case 3
    obtain r s s' s'' where "bye (ap_byeReq e) s2 = Some s" "stopHeart (ap_kill e) s = Some s'" "stopRefreshFilelistThr s' = Some (r, s'')"
      "ret = -13" "b = (closed (a\<lparr>cdata := d, cl := s''\<rparr>))\<lparr>cl := (cl (closed (a\<lparr>cdata := d, cl := s''\<rparr>)))\<lparr>cl_crypt := noCrypt\<rparr>\<rparr>"
      using assms(1) 3 1 2 \<open>cliDataInit _ _ _ _ _ _ _ = _\<close> by (auto simp: initThreads_def Let_def split: bind_splits)
    moreover from calculation have "same_ctrl s0 s''"
      using same_ctrl_trans [OF same_ctrl_trans [OF same_ctrl_trans [OF s2 bye_same] conjunct1 [OF stopHeart_same]] stopRefresh_same] by blast
    moreover have "data_closed e (-13) (cdata a) d" using d 3 by (auto simp: data_closed_def)
    ultimately show ?thesis using cs [of "a\<lparr>cdata := d, cl := s''\<rparr>"] by simp
  next
    case 4
    have "ret = 0" "b = a\<lparr>cdata := d, cl := s2\<lparr>gCliState := CLI_STATE_NOT_LOGIN, cl_isInited := True\<rparr>\<rparr>"
      using assms(1) 4 1 2 3 by (auto simp: initThreads_def Let_def)
    then show ?thesis using s2 d 4 by (simp add: same_ctrl_def)
  qed
qed

text \<open>The steps of \<open>moCloudClient_init\<close> behind the creation of the control socket.\<close>

lemma init_behind_socket:
  assumes "(if connectToServer (ap_ctrlSock e) < 0 then Some (-5, closed a1)
        else do {
          (ret, s) \<leftarrow> doKeyAgree (ap_keyReq e) (cl a1);
          let a = a1\<lparr>cl := s\<rparr>;
          if ret < 0 then Some (-6, closed a) else initThreads e a
        }) = Some (ret, b)"
    and "0 \<le> gCtrlSockId (cl a1)" and "ctrlSocks (cl a1) = gCtrlSockId (cl a1) # socks" and "\<not> cl_isInited (cl a1)"
    and "\<not> gIsInited (cdata a1)"
  shows "ret = 0 \<and> cl_isInited (cl b) \<and> gCliState (cl b) = CLI_STATE_NOT_LOGIN \<and> tasks b = tasks a1 \<and>
      ctrlSocks (cl b) = gCtrlSockId (cl b) # socks \<and> gIsInited (cdata b) \<and>
      dataSocks (cdata b) = gDataSockId (cdata b) # dataSocks (cdata a1) \<and> recvThr (cdata b) = (startThread (ap_dataThr e) = 0) \<or>
    ret < 0 \<and> \<not> cl_isInited (cl b) \<and> gDwldTasks (tasks b) = None \<and> ctrlSocks (cl b) = socks \<and>
      data_closed e ret (cdata a1) (cdata b)"
proof (cases "connectToServer (ap_ctrlSock e) < 0")
  case True
  then show ?thesis using assms(1,4) closed_same [OF _ assms(2,3), of a1] data_closed_same [OF assms(5)] by (auto simp: same_ctrl_def)
next
  case False
  then obtain r s' where g: "doKeyAgree (ap_keyReq e) (cl a1) = Some (r, s')" using assms(1) by (auto split: bind_splits)
  note sm = doKeyAgree_same [OF g]
  show ?thesis
  proof (cases "r < 0")
    case True
    then show ?thesis
      using False g assms(1,4) closed_same [OF _ assms(2,3), of "a1\<lparr>cl := s'\<rparr>"] sm data_closed_same [OF assms(5)] by auto
  next
    case rok: False
    then have "initThreads e (a1\<lparr>cl := s'\<rparr>) = Some (ret, b)" using False g assms(1) by simp
    from initThreads_outcome [OF this _ assms(2,3)] sm assms(5) show ?thesis using assms(2-4) by (auto simp: same_ctrl_def)
  qed
qed

text \<open>
  C37. A start of the client works or closes what it has opened, with one exception. With a success the journal is
  loaded, the user not logged in, and there are two sockets more: the control socket, and the data socket with its
  receiving thread (when the system has created it). With an error there is no list of tasks, the control side
  has no socket more, and neither has the data side: except when one of the eight allocations of \<open>cliDataInit\<close>
  has failed, where the function returns -13 and the data socket and the thread stay.
\<close>

theorem init_works_or_closes:
  assumes "moCloudClient_init e path a = Some (ret, b)" and "\<not> cl_isInited (cl a)" and "gDwldTasks (tasks a) = None" and "\<not> gDwldInfofileFd (tasks a)"
    and "\<not> gIsInited (cdata a)"
  shows "ret = 0 \<and> cl_isInited (cl b) \<and> gCliState (cl b) = CLI_STATE_NOT_LOGIN \<and> gDwldTasks (tasks b) \<noteq> None \<and>
      ctrlSocks (cl b) = gCtrlSockId (cl b) # ctrlSocks (cl a) \<and> gIsInited (cdata b) \<and>
      dataSocks (cdata b) = gDataSockId (cdata b) # dataSocks (cdata a) \<and> recvThr (cdata b) = (startThread (ap_dataThr e) = 0) \<or>
    ret < 0 \<and> \<not> cl_isInited (cl b) \<and> gDwldTasks (tasks b) = None \<and> ctrlSocks (cl b) = ctrlSocks (cl a) \<and>
      data_closed e ret (cdata a) (cdata b)"
proof (cases path)
  case None
  then show ?thesis using assms data_closed_same [OF assms(5)] by (auto simp: moCloudClient_init_def)
next
  case (Some p)
  obtain r0 cfg where c: "getCfgInfo (ap_inet_aton e) (ap_fopenR e) (ap_iniMem e) p = Some (r0, cfg)"
    using assms(1,2) Some by (auto simp: moCloudClient_init_def split: bind_splits)
  obtain r1 ts where t: "initDwldTasksInfo (ap_opens e) (ap_reopens e) (ap_head e) (ap_nodes e) (tasks a) = (r1, ts)" by fastforce
  have ts: "r1 < 0 \<and> gDwldTasks ts = None \<or> r1 = 0 \<and> gDwldTasks ts \<noteq> None"
    using t assms(3,4) by (auto simp: initDwldTasksInfo_def Let_def split: if_splits option.splits prod.splits)
  obtain r2 sock socks where k: "createSocket (ap_inet_aton e) (ap_ctrlSock e) (clientIp cfg) (clientCtrlPort cfg)
      (gCtrlSockId (cl a)) (ctrlSocks (cl a)) = (r2, sock, socks)" by (metis prod_cases3)
  note ks = createSocket_cases [OF k]
  define a1 where "a1 = a\<lparr>tasks := ts, cl := (cl a)\<lparr>gCliState := CLI_STATE_IDLE, gCfgInfo := cfg, gCtrlSockId := sock, ctrlSocks := socks\<rparr>\<rparr>"
  consider "r0 < 0" | "0 \<le> r0" "r1 < 0" | "0 \<le> r0" "0 \<le> r1" "r2 < 0" | "0 \<le> r0" "0 \<le> r1" "0 \<le> r2" by linarith
  then show ?thesis
  proof cases
    case 1 then show ?thesis using assms c Some data_closed_same [OF assms(5)] by (auto simp: moCloudClient_init_def)
  next
    case 2 then show ?thesis using assms c t ts Some data_closed_same [OF assms(5)] by (auto simp: moCloudClient_init_def)
  next
    case 3 then show ?thesis using assms c t k ks Some data_closed_same [OF assms(5)] by (auto simp: moCloudClient_init_def uninitDwldTasksInfo_def)
  next
    case 4
    then have s: "0 \<le> gCtrlSockId (cl a1)" "ctrlSocks (cl a1) = gCtrlSockId (cl a1) # ctrlSocks (cl a)" "\<not> cl_isInited (cl a1)"
      using ks assms(2) by (auto simp: a1_def)
    have i: "moCloudClient_init e path a = (if connectToServer (ap_ctrlSock e) < 0 then Some (-5, closed a1)
        else do {
          (ret, s) \<leftarrow> doKeyAgree (ap_keyReq e) (cl a1);
          let a = a1\<lparr>cl := s\<rparr>;
          if ret < 0 then Some (-6, closed a) else initThreads e a
        })"
      using 4 assms(2) c t k Some by (simp add: moCloudClient_init_def a1_def)
    from init_behind_socket [OF i [symmetric, unfolded assms(1)] s] assms(5) show ?thesis using ts 4 by (auto simp: a1_def)
  qed
qed

text \<open>
  The client can be stopped once only, although the function does not ask whether it is running: the
  second call joins a thread that has been joined, unless something has started it again.
\<close>

theorem second_unInit_undefined:
  assumes "moCloudClient_unInit kd kc e a = Some b" and "gRefreshFilelistThId (cl a) = THR_RUNS"
  shows "moCloudClient_unInit kd' kc' e' b = None"
proof -
  obtain s where "gRefreshFilelistThId (cl b) = gRefreshFilelistThId s" "\<exists>r s0. stopRefreshFilelistThr s0 = Some (r, s) \<and> gRefreshFilelistThId s0 = THR_RUNS"
  proof -
    obtain d s1 s2 r s where u: "bye e (cl a) = Some s1" "stopHeart kc s1 = Some s2" "stopRefreshFilelistThr s2 = Some (r, s)"
      "gRefreshFilelistThId (cl b) = gRefreshFilelistThId s"
      using assms(1) by (auto simp: moCloudClient_unInit_def Let_def closed_def ctrlClose_def split: bind_splits prod.splits)
    have "gRefreshFilelistThId s1 = THR_RUNS" using bye_eq [OF u(1)] assms(2) by (metis CLOUD.select_convs(11) CLOUD.surjective CLOUD.update_convs(14))
    then show ?thesis using that u stopHeart_same [OF u(2)] by auto
  qed
  then have bad: "gRefreshFilelistThId (cl b) = THR_BAD" by (auto simp: stopRefreshFilelistThr_def)
  have "do {
      s \<leftarrow> bye e' (cl b);
      s \<leftarrow> stopHeart kc' s;
      stopRefreshFilelistThr s
    } = None"
  proof (cases "bye e' (cl b)")
    case (Some s)
    show ?thesis
    proof (cases "stopHeart kc' s")
      case (Some s2)
      have "gRefreshFilelistThId s = THR_BAD" using bye_eq [OF \<open>bye e' (cl b) = Some s\<close>] bad
        by (metis CLOUD.select_convs(11) CLOUD.surjective CLOUD.update_convs(14))
      then have "gRefreshFilelistThId s2 = THR_BAD" using stopHeart_same [OF Some] by simp
      then show ?thesis using Some \<open>bye e' (cl b) = Some s\<close> by (simp add: stopRefreshFilelistThr_def)
    qed (use Some in simp)
  qed simp
  then show ?thesis unfolding moCloudClient_unInit_def by (cases "cliDataUnInit (fst kd') (fst (snd kd')) (snd (snd kd')) (cdata b)") (auto split: bind_splits)
qed


section \<open>The properties at concrete inputs\<close>

definition sample_task :: "MOCLOUD_FILEINFO_KEY \<Rightarrow> nat \<Rightarrow> int \<Rightarrow> DWLD_TASK_INFO" where
  "sample_task k off i = \<lparr>dwldInfo = \<lparr>di_key = k, di_fileLength = 5, di_localFilepath = ''f'', di_unitId = 0, di_isDwlding = True\<rparr>,
     ti_offset = off, ti_fileId = i\<rparr>"

definition sample_app :: "byte list \<Rightarrow> recv_event list \<Rightarrow> APP" where
  "sample_app bs es = \<lparr>cl = sample_cloud bs, tasks = noTasks, cdata = sample_data es\<rparr>"

theorem only_first_task_stops_witness:
  "\<exists>a. gDwldTasks (tasks a) = Some [sample_task key_b 1336 1, sample_task key_a 0 0] \<and>
    moCloudClient_stopDownloadFile False sample_env key_a False a = None \<and> dwldProgress sample_env (Notify 0 4 1) a = None \<and>
    getFileId key_b (tasks a) = Some (0, 1)"
proof -
  let ?a = "(sample_app [] [])\<lparr>tasks := noTasks\<lparr>gDwldTasks := Some [sample_task key_b 1336 1, sample_task key_a 0 0]\<rparr>\<rparr>"
  have f: "firstTask (\<lambda>t. ti_fileId t = 0) [sample_task key_b 1336 1, sample_task key_a 0 0] = Some 1"
    by (simp add: firstTask_def sample_task_def upt_rec)
  have "moCloudClient_stopDownloadFile False sample_env key_a False ?a = None \<and> getFileId key_a (tasks ?a) = None \<and>
    (\<forall>i n (eof :: byte) j. firstTask (\<lambda>t. ti_fileId t = i) [sample_task key_b 1336 1, sample_task key_a 0 0] = Some j \<and>
       di_key (dwldInfo ([sample_task key_b 1336 1, sample_task key_a 0 0] ! j)) = key_a \<and>
       di_isDwlding (dwldInfo ([sample_task key_b 1336 1, sample_task key_a 0 0] ! j)) \<and> eof \<noteq> 0 \<longrightarrow>
       dwldProgress sample_env (Notify i n eof) ?a = None) \<and>
    getFileId (di_key (dwldInfo (sample_task key_b 1336 1))) (tasks ?a) = Some (0, ti_fileId (sample_task key_b 1336 1))"
    by (rule only_first_task_stops) (simp_all add: sample_task_def)
  then show ?thesis using f by (intro exI [of _ ?a]) (auto simp: sample_task_def)
qed

definition sample_start :: STARTENV where
  "sample_start = \<lparr>se_node = True, se_opens = True, se_create = 0, se_early = True, se_req = sample_env\<rparr>"

text \<open>A file of one unit of one byte: the unit is received behind a gap, then written.\<close>

theorem progress_is_journalled_witness:
  "\<exists>a0 a t b b1 b2. moCloudClient_startDownloadFile sample_start key_a 1 ''f'' a0 = Some (0, a) \<and> gDwldTasks (tasks a) = Some [t] \<and>
    app_reach (ti_fileId t) 1 a 1 b \<and> appWriterTurn 1024 sample_env (ti_fileId t) b = Some b1 \<and>
    appWriterTurn 1024 sample_env (ti_fileId t) b1 = Some b2 \<and> file_and_journal ''f'' [[65]] key_a 1 b2"
proof -
  let ?arrive = "[Arrive (concat (unit_msgs 0 0 [[65]]))]"
  let ?es = "[] @ Recv_err EAGAIN # ?arrive"
  have c: "bursts (unit_msgs 0 0 [[65]]) [] ?es"
    by (intro bursts.gap bursts.last) (simp_all add: dhdr_bytes_def)
  obtain d where d: "tasks_ready d" "disk d = Map.empty" "sockIn d = ?es" "cheap d = Map.empty ++ head_nodes [1, 2, 3, 4, 5, 6, 7, 8]"
    "gDwldFileInfo d = map (\<lambda>a. noTask\<lparr>pDwldUnitListHead := Some a\<rparr>) [1, 2, 3, 4, 5, 6, 7, 8]"
    using cliDataInit_ready [OF sample_sock_ok, of "sample_data ?es" "[1, 2, 3, 4, 5, 6, 7, 8]"]
    by (auto simp: sample_data_def)
  obtain d0 where d0: "cliDataStartDwld True 0 True key_a 1 (Some ''f'') True (-1) d = Some (0, 0, d0)" "cheap d0 = cheap d" "sockIn d0 = sockIn d"
    using d(2,5) by (simp add: cliDataStartDwld_def insertFileDwldTask_def startWriteFileThr_def getTask_def setTask_def noTask_def Let_def)
  obtain T where T: "initDwldTasksInfo True True True 9 noTasks = (0, T)" "gDwldTasks T = Some []" "infoFile T = Some []" "gDwldInfofileFd T"
    by (simp add: initDwldTasksInfo_def noTasks_def)
  have j: "journal T" by (rule journal_init [OF T(1)])
  let ?s0 = "(sample_app (cresp_bytes (sample_cresp MOCLOUD_CMDID_DWLD_START 0)) [])\<lparr>tasks := T, cdata := d\<rparr>"
  let ?bs = "dwldBody key_a 0 0"
  have "length ?bs \<le> 100" by (simp add: dwldBody_def decimal_def copyStr_def digits.simps)
  then obtain c' where x: "exchange sample_env MOCLOUD_CMDID_DWLD_START ?bs (int (length ?bs)) (ctrl (cl ?s0)) =
      Some (0, Some (sample_cresp MOCLOUD_CMDID_DWLD_START 0), c')"
    using exchange_ready [of sample_env "sample_cresp MOCLOUD_CMDID_DWLD_START 0" "ctrl (cl ?s0)" "[]" MOCLOUD_CMDID_DWLD_START ?bs 0]
    by (auto simp: sample_app_def)
  obtain T1 where T1: "getOneDwldNode True key_a 1 ''f'' T = Some (0, 0, T1)" "nodeOf key_a T1 = Some 0"
    "\<exists>t. gDwldTasks T1 = Some [t]"
    using T(2-4) by (simp add: getOneDwldNode_def nodeOf_def lastTask_def Let_def)
  then obtain t where t: "gDwldTasks T1 = Some [t]" by blast
  let ?s1 = "?s0\<lparr>cdata := d0, tasks := setFileId 0 0 T1, cl := (cl ?s0)\<lparr>ctrl := c'\<rparr>\<rparr>"
  have st: "moCloudClient_startDownloadFile sample_start key_a 1 ''f'' ?s0 = Some (0, ?s1)"
    using T1(1,2) d0(1) x by (simp add: moCloudClient_startDownloadFile_def sample_start_def doStartDwld_def Let_def)
  have ts: "gDwldTasks (tasks ?s1) = Some [t\<lparr>ti_fileId := 0\<rparr>]" using t by (simp add: setFileId_def)
  have u: "units_ok [[65]]" by (simp add: units_ok_def)
  have dl: "downloading 0 ''f'' [[65]] [] 0 0 d0"
    by (rule cliDataStartDwld_downloading [OF d0(1)]) (use d(1-3) c in auto)
  let ?d1 = "d0\<lparr>sockIn := ?arrive\<rparr>"
  have dl1: "downloading 0 ''f'' [[65]] [] 0 0 ?d1"
    using dl bursts.last [of ?arrive "unit_msgs 0 0 [[65]]" "[]"] by (auto simp: downloading_def dhdr_bytes_def)
  have free: "cheap d0 9 = None" using d(4) d0(2) by (auto simp: head_nodes_def)
  obtain h where "getDataHeader (sockIn d0) = Some (-2, h, ?arrive)" using getDataHeader_gap [of "[]" ?arrive] d(3) d0(3) by auto
  then have gap: "recvUnit (Some 9) (replicate 1024 0) d0 = Some (False, ?d1)" by (simp add: recvUnit_def)
  have r0: "app_reach 0 1 ?s1 0 (?s1\<lparr>cdata := ?d1\<rparr>)"
    using app_reach.receive [where x = 9 and stack = "replicate 1024 0" and again = False and d = ?d1, OF app_reach.start [of 0 1 ?s1]] gap free
    by simp
  obtain e where e: "recvUnit (Some 9) (replicate 1024 0) ?d1 = Some (True, e)"
    by (rule recvUnit_downloading [OF dl1 u, of 9 "replicate 1024 0"]) (use free in simp_all)
  have r: "app_reach 0 1 ?s1 1 (?s1\<lparr>cdata := e\<rparr>)"
    using app_reach.receive [where x = 9 and stack = "replicate 1024 0" and again = True and d = e, OF r0] e free by simp
  obtain m where m: "\<forall>room e1 e2. MOCLOUD_DATA_UNIT_LEN \<le> room \<longrightarrow>
       (\<exists>b1 b2. appWriterTurn room e1 0 (?s1\<lparr>cdata := e\<rparr>) = Some b1 \<and> appWriterTurn room e2 0 b1 = Some b2 \<and>
          (\<exists>m' \<ge> min (Suc m) 1. m' \<le> 1 \<and> file_and_journal ''f'' [[65]] key_a m' b2))"
    using progress_is_journalled [OF st _ _ _ _ _ _ _ _ _ ts, of "[[65]]" "[]" 1 "?s1\<lparr>cdata := e\<rparr>"] T(2) j d(1-3) c u r
    by (auto simp: sample_start_def)
  from m [rule_format, of 1024 sample_env sample_env] obtain b1 b2 m' where b: "appWriterTurn 1024 sample_env 0 (?s1\<lparr>cdata := e\<rparr>) = Some b1"
    "appWriterTurn 1024 sample_env 0 b1 = Some b2" "min (Suc m) 1 \<le> m'" "m' \<le> 1" "file_and_journal ''f'' [[65]] key_a m' b2" by auto
  have t0: "ti_fileId (t\<lparr>ti_fileId := 0\<rparr>) = 0" by simp
  have m': "m' = 1" using b(3,4) by simp
  show ?thesis
    by (intro exI conjI, rule st, rule ts, unfold t0, rule r, rule b(1), rule b(2), rule b(5) [unfolded m'])
qed

definition sample_cfg :: string where
  "sample_cfg = ''[servInfo]'' @ [CHR 0x0A] @ ''servIp=1.2.3.4'' @ [CHR 0x0A] @ ''servPort=4111'' @ [CHR 0x0A] @
     ''[cliInfo]'' @ [CHR 0x0A] @ ''cliIp=1.2.3.5'' @ [CHR 0x0A] @ ''cliCtrlPort=4112'' @ [CHR 0x0A] @ ''cliDataPort=4113'' @ [CHR 0x0A] @
     ''[dwldInfo]'' @ [CHR 0x0A] @ ''infoFile=x'' @ [CHR 0x0A]"

lemma sample_cfg_ok: "getCfgInfo (\<lambda>_. Some 0) (\<lambda>_. Some sample_cfg) True ''c'' =
  Some (0, \<lparr>clientIp = ''1.2.3.5'', clientCtrlPort = 4112, clientDataPort = 4113, serverIp = ''1.2.3.4'', serverPort = 4111, dwldInfoFile = ''x''\<rparr>)"
  by code_simp


definition sample_appenv :: "int \<Rightarrow> APPENV" where
  "sample_appenv conn = \<lparr>ap_inet_aton = (\<lambda>_. Some 0), ap_fopenR = (\<lambda>_. Some sample_cfg), ap_iniMem = True, ap_opens = True,
     ap_reopens = True, ap_head = True, ap_nodes = 9, ap_ctrlSock = sample_sock\<lparr>sk_connect := conn\<rparr>, ap_keyReq = sample_env,
     ap_byeReq = sample_env, ap_semInit = 0, ap_refreshThr = 0, ap_heartbeatThr = 0, ap_kill = (0, 0, 0),
     ap_dataSock = sample_sock, ap_dataThr = 0, ap_heads = map Some [1, 2, 3, 4, 5, 6, 7, 8]\<rparr>"

text \<open>The server cannot be reached.\<close>

theorem init_works_or_closes_witness:
  "(\<exists>b. moCloudClient_init (sample_appenv (-1)) (Some ''c'') ((sample_app [] [])\<lparr>cl := (sample_cloud [])\<lparr>cl_isInited := False\<rparr>\<rparr>) = Some (-5, b) \<and>
    \<not> cl_isInited (cl b) \<and> ctrlSocks (cl b) = [3] \<and> dataSocks (cdata b) = [])"
proof -
  let ?a = "(sample_app [] [])\<lparr>cl := (sample_cloud [])\<lparr>cl_isInited := False\<rparr>\<rparr>"
  obtain b where b: "moCloudClient_init (sample_appenv (-1)) (Some ''c'') ?a = Some (-5, b)"
    by (simp add: moCloudClient_init_def sample_cfg_ok sample_appenv_def sample_app_def noTasks_def initDwldTasksInfo_def
        createSocket_def connectToServer_def sample_sock_def isValidIpAddr_def isValidUserPort_def setSockReusable_def
        setSock2NonBlock_def Let_def)
  have "ctrlSocks (cl ?a) = [3]" by (simp add: sample_cloud_def)
  then show ?thesis using b init_works_or_closes [OF b] by (auto simp: sample_app_def noTasks_def sample_data_def data_closed_def)
qed

theorem second_unInit_undefined_witness:
  "\<exists>b. moCloudClient_unInit (0, 0, 0) (0, 0, 0) (sample_env\<lparr>rq_mem := False\<rparr>) (sample_app [] []) = Some b \<and>
    moCloudClient_unInit (0, 0, 0) (0, 0, 0) (sample_env\<lparr>rq_mem := False\<rparr>) b = None"
proof -
  obtain b where b: "moCloudClient_unInit (0, 0, 0) (0, 0, 0) (sample_env\<lparr>rq_mem := False\<rparr>) (sample_app [] []) = Some b"
    by (simp add: moCloudClient_unInit_def sample_app_def sample_data_def cliDataUnInit_def bye_def disConnectToServer_def sendHeader_def
        getCipherRequestInfo_def moCloudUtilsCrypt_getCipherTxtLen_def stopHeart_def stopHeartbeatThr_def killThread_def sample_cloud_def
        stopRefreshFilelistThr_def closed_def ctrlClose_def destroySocket_def freeLocalFilelist_def sample_env_def freeTypes_all [of "replicate 15 []", simplified] Let_def)
  show ?thesis using second_unInit_undefined [OF b] b by (simp add: sample_app_def sample_cloud_def)
qed

end
