(* ===== verification/MoLogger.thy ===== *)
theory MoLogger
  imports MoIni MoFormat
begin

text \<open>
  The logger, from \<open>moSdk/Logger/src\<close>: \<open>moLogger.c\<close> and \<open>utils.c\<close>, and the functions of \<open>iniParser.c\<close> that its
  caller sees. That file is a copy of the parser of \<open>MoIni\<close> but for the end of \<open>iniParserInit\<close>, so the functions
  below it are those of \<open>MoIni\<close>. The messages about the logger itself, which are switched off, are left out.

  The logger keeps a pointer to the sections of its configuration file, which may be \<open>NULL\<close> or point to
  memory that has been freed. What it writes is a state of its own: the files and the standard output.
\<close>

abbreviation (input) MO_LOGGER_CONF_FILENAME :: string where "MO_LOGGER_CONF_FILENAME \<equiv> ''moLoggerConf.ini''"
abbreviation (input) MO_LOGGER_MAX_LOG_LEN :: nat where "MO_LOGGER_MAX_LOG_LEN \<equiv> 1024"
abbreviation (input) MO_LOGGER_MAX_DIRPATH_LEN :: nat where "MO_LOGGER_MAX_DIRPATH_LEN \<equiv> 256"
abbreviation (input) MO_LOGGER_TIME_LEN :: nat where "MO_LOGGER_TIME_LEN \<equiv> 20"
abbreviation (input) ATTR_LEVEL :: string where "ATTR_LEVEL \<equiv> ''level''"
abbreviation (input) ATTR_LOCALFILE :: string where "ATTR_LOCALFILE \<equiv> ''localfile''"

datatype INI_PTR = INI_NULL | INI_LIST "MOUTILS_INI_SECTION_INFO_NODE list" | INI_FREED

record LOGGER =
  lg_isInited :: bool
  gpSecHeadNode :: INI_PTR
  gFileDir :: string
  gInitCnt :: "32 word"

record LOG_OUT =
  lo_files :: "string \<Rightarrow> string option"
  lo_stdout :: string

section \<open>Levels, time and directories\<close>

definition isValidLevel :: "int \<Rightarrow> bool" where
  "isValidLevel level \<longleftrightarrow> level \<ge> 0 \<and> level \<le> 4"

definition gStrValue :: "string list" where
  "gStrValue = [''debug'', ''info'', ''warn'', ''error'', ''fatal'']"

definition getLevelFromValue :: "string option \<Rightarrow> int" where
  "getLevelFromValue pLevel =
     (case pLevel of
        None \<Rightarrow> -1
      | Some l \<Rightarrow> (case find (\<lambda>i. l = gStrValue ! i) [0..<length gStrValue] of None \<Rightarrow> -2 | Some i \<Rightarrow> int i))"

record TM =
  tm_year :: nat
  tm_mon :: nat
  tm_mday :: nat
  tm_hour :: nat
  tm_min :: nat
  tm_sec :: nat

text \<open>The buffer of the caller has \<open>MO_LOGGER_TIME_LEN\<close> bytes.\<close>

definition getCurTime :: "TM \<Rightarrow> string option" where
  "getCurTime t =
     (let s = padded 4 (tm_year t + 1900) @ ''-'' @ padded 2 (tm_mon t + 1) @ ''-'' @ padded 2 (tm_mday t) @ ''/'' @
        padded 2 (tm_hour t) @ '':'' @ padded 2 (tm_min t) @ '':'' @ padded 2 (tm_sec t)
      in if length s < MO_LOGGER_TIME_LEN then Some s else None)"

text \<open>\<open>opendir\<close> gives the names in a directory that can be opened.\<close>

definition isConfFileExist :: "(string \<Rightarrow> string list option) \<Rightarrow> string option \<Rightarrow> bool" where
  "isConfFileExist opendir dir =
     (case dir of
        None \<Rightarrow> False
      | Some d \<Rightarrow> (case opendir d of None \<Rightarrow> False | Some names \<Rightarrow> list_ex (\<lambda>n. n = MO_LOGGER_CONF_FILENAME) names))"

section \<open>The configuration file\<close>

text \<open>When the file is not well-formed, its sections are freed, and the pointer to them is returned.\<close>

definition iniParserInit :: "bool \<Rightarrow> bool \<Rightarrow> (string \<Rightarrow> string option) \<Rightarrow> string option \<Rightarrow> INI_PTR option" where
  "iniParserInit secNodeOk attrNodeOk fopenR filepath =
     (case filepath of
        None \<Rightarrow> Some INI_NULL
      | Some p \<Rightarrow>
          (case InitSecInfoList secNodeOk attrNodeOk of
             None \<Rightarrow> Some INI_NULL
           | Some secs \<Rightarrow>
               (case fopenR p of
                  None \<Rightarrow> Some INI_NULL
                | Some f \<Rightarrow> do {
                    (ret, secs) \<leftarrow> GetSectionList secNodeOk attrNodeOk (Some f) (Some secs);
                    Some (if ret \<noteq> 0 then INI_FREED else case secs of None \<Rightarrow> INI_NULL | Some l \<Rightarrow> INI_LIST l)
                  })))"

text \<open>The result is the return value and the buffer \<open>pAttrValue\<close>.\<close>

definition iniParserGetAttrValue :: "string option \<Rightarrow> string option \<Rightarrow> string \<Rightarrow> INI_PTR \<Rightarrow> (int \<times> string) option" where
  "iniParserGetAttrValue pSecName pAttrKey pAttrValue pSecInfoHeadNode =
     (case pSecInfoHeadNode of
        INI_FREED \<Rightarrow> None
      | INI_NULL \<Rightarrow> Some (-1, pAttrValue)
      | INI_LIST secs \<Rightarrow>
          (case (pSecName, pAttrKey) of
             (Some name, Some k) \<Rightarrow>
               (case find (\<lambda>s. name = sectionName s) secs of
                  None \<Rightarrow> Some (-3, pAttrValue)
                | Some s \<Rightarrow>
                    (case find (\<lambda>a. k = key a) (attrs s) of
                       None \<Rightarrow> Some (-4, pAttrValue)
                     | Some a \<Rightarrow> Some (0, value a)))
           | _ \<Rightarrow> Some (-2, pAttrValue)))"

definition iniParserUnInit :: "INI_PTR \<Rightarrow> int option" where
  "iniParserUnInit pSecInfoHeadNode = (case pSecInfoHeadNode of INI_FREED \<Rightarrow> None | INI_NULL \<Rightarrow> Some (-1) | INI_LIST _ \<Rightarrow> Some 0)"

section \<open>Starting and stopping\<close>

record LOGGERENV =
  le_opendir :: "string \<Rightarrow> string list option"
  le_mem :: bool
  le_iniMem :: bool
  le_fopenR :: "string \<Rightarrow> string option"

definition moLoggerInit :: "LOGGERENV \<Rightarrow> string option \<Rightarrow> LOGGER \<Rightarrow> (int \<times> LOGGER) option" where
  "moLoggerInit e fileDir s =
     (case fileDir of
        None \<Rightarrow> Some (-1, s)
      | Some dir \<Rightarrow>
          if lg_isInited s then
            if dir = gFileDir s then Some (0, s\<lparr>gInitCnt := gInitCnt s + 1\<rparr>) else Some (-2, s)
          else if \<not> isConfFileExist (le_opendir e) (Some dir) then Some (-3, s)
          else if \<not> le_mem e then Some (-4, s)
          else do {
            p \<leftarrow> iniParserInit (le_iniMem e) (le_iniMem e) (le_fopenR e) (Some (dir @ ''/'' @ MO_LOGGER_CONF_FILENAME));
            let s = s\<lparr>gpSecHeadNode := p\<rparr>;
            if p = INI_NULL then Some (-5, s)
            else if length dir \<ge> MO_LOGGER_MAX_DIRPATH_LEN then None
            else Some (0, s\<lparr>gFileDir := dir, gInitCnt := gInitCnt s + 1, lg_isInited := True\<rparr>)
          })"

definition moLoggerUnInit :: "LOGGER \<Rightarrow> (int \<times> LOGGER) option" where
  "moLoggerUnInit s =
     (if lg_isInited s then
        let s = s\<lparr>gInitCnt := gInitCnt s - 1\<rparr> in
        if gInitCnt s = 0 then do {
          _ \<leftarrow> iniParserUnInit (gpSecHeadNode s);
          Some (0, s\<lparr>gpSecHeadNode := INI_NULL, gFileDir := [], lg_isInited := False\<rparr>)
        }
        else Some (0, s)
      else Some (0, s))"

section \<open>Writing\<close>

text \<open>
  \<open>opensA\<close> says whether a file can be opened for appending. The message is the format of a second format;
  \<open>snprintf\<close> cuts both texts to fit their buffers. The standard output gets the whole buffer.
\<close>

definition appendFile :: "string \<Rightarrow> string \<Rightarrow> LOG_OUT \<Rightarrow> LOG_OUT" where
  "appendFile path text out = out\<lparr>lo_files := (lo_files out)(path \<mapsto> (case lo_files out path of None \<Rightarrow> [] | Some c \<Rightarrow> c) @ text)\<rparr>"

definition logger ::
    "(string \<Rightarrow> bool) \<Rightarrow> TM \<Rightarrow> string option \<Rightarrow> int \<Rightarrow> string \<Rightarrow> string \<Rightarrow> int \<Rightarrow> string \<Rightarrow> ARG list \<Rightarrow> LOGGER \<Rightarrow> LOG_OUT \<Rightarrow> LOG_OUT option" where
  "logger opensA tm moduleName level filename funcname line fmt args s out =
     (case moduleName of
        None \<Rightarrow> Some out
      | Some name \<Rightarrow>
          if \<not> isValidLevel level then Some out
          else if \<not> lg_isInited s then Some out
          else do {
            (ret, v) \<leftarrow> iniParserGetAttrValue (Some name) (Some ATTR_LEVEL) [] (gpSecHeadNode s);
            if ret \<noteq> 0 then Some out
            else let configLevel = getLevelFromValue (Some v) in
              if configLevel < 0 then Some out
              else if level \<ge> configLevel then do {
                (ret, filepath) \<leftarrow> iniParserGetAttrValue (Some name) (Some ATTR_LOCALFILE) [] (gpSecHeadNode s);
                curTimeStr \<leftarrow> getCurTime tm;
                let fmtbuf = take (MO_LOGGER_MAX_LOG_LEN - 1) (curTimeStr @ ''['' @ gStrValue ! nat level @ '']:'' @ filename @ '', '' @
                  funcname @ '', '' @ decimal line @ ''  '' @ fmt);
                text \<leftarrow> vformat fmtbuf args;
                let curLoginfo = take (MO_LOGGER_MAX_LOG_LEN - 1) text;
                if ret = 0 then Some (if opensA filepath then appendFile filepath curLoginfo out else out)
                else Some (out\<lparr>lo_stdout := lo_stdout out @ curLoginfo @ replicate (MO_LOGGER_MAX_LOG_LEN - length curLoginfo) NUL\<rparr>)
              }
              else Some out
          })"


section \<open>Filtering messages\<close>

lemma iniParserGetAttrValue_eq:
  "iniParserGetAttrValue (Some n) (Some k) b (INI_LIST secs) =
     (case moUtils_Ini_GetAttrValue (Some n) (Some k) (Some b) (Some secs) of (r, v) \<Rightarrow> map_option (Pair r) v)"
  by (auto simp: iniParserGetAttrValue_def moUtils_Ini_GetAttrValue_def split: option.splits)

lemma done_ok_start: "well_formed is \<Longrightarrow> done_ok [] is"
  by (simp add: well_formed_def done_ok_def cur_name_def)

lemma iniParserInit_file:
  assumes "list_all2 renders ls is" and "list_all good_line ls" and "well_formed is" and "fopenR p = Some (file_text ls)"
  shows "iniParserInit True True fopenR (Some p) = Some (INI_LIST (build [] is))"
  using sectionLoop_file [OF assms(1,2) done_ok_start [OF assms(3)]] assms(4)
  by (simp add: iniParserInit_def InitSecInfoList_def GetSectionList_def cur_name_def)

lemma lookup_file:
  assumes "well_formed is"
  shows "(m, k, v) \<in> set (assigned [] is) \<Longrightarrow> iniParserGetAttrValue (Some m) (Some k) b (INI_LIST (build [] is)) = Some (0, v)"
    and "m \<in> set (section_names is) \<Longrightarrow> (\<And>v. (m, k, v) \<notin> set (assigned [] is)) \<Longrightarrow>
      iniParserGetAttrValue (Some m) (Some k) b (INI_LIST (build [] is)) = Some (-4, b)"
proof -
  note ok = done_ok_start [OF assms]
  have n: "map sectionName (build [] is) = section_names is" using build_names [OF ok] by simp
  have t: "triples (build [] is) = assigned [] is" using build_triples [OF ok] by (simp add: cur_name_def)
  have d: "distinct (map sectionName (build [] is))" "distinct (map (\<lambda>(s, k, v). (s, k)) (triples (build [] is)))"
    using assms by (simp_all add: n t well_formed_def)
  show "(m, k, v) \<in> set (assigned [] is) \<Longrightarrow> iniParserGetAttrValue (Some m) (Some k) b (INI_LIST (build [] is)) = Some (0, v)"
    using lookup_triples(1) [OF d, of m k v b] by (simp add: iniParserGetAttrValue_eq t)
  show "m \<in> set (section_names is) \<Longrightarrow> (\<And>v. (m, k, v) \<notin> set (assigned [] is)) \<Longrightarrow>
      iniParserGetAttrValue (Some m) (Some k) b (INI_LIST (build [] is)) = Some (-4, b)"
    using lookup_triples(2) [OF d, of m k b] by (simp add: iniParserGetAttrValue_eq t n)
qed

lemma getLevelFromValue_name: "c < 5 \<Longrightarrow> getLevelFromValue (Some (gStrValue ! c)) = int c"
proof -
  assume "c < 5"
  then have "c \<in> {0, 1, 2, 3, 4}" by auto
  then show ?thesis by (auto simp: getLevelFromValue_def gStrValue_def upt_rec)
qed

lemma gStrValue_no_percent: "l < 5 \<Longrightarrow> CHR ''%'' \<notin> set (gStrValue ! l)"
proof -
  assume "l < 5"
  then have "l \<in> {0, 1, 2, 3, 4}" by auto
  then show ?thesis by (auto simp: gStrValue_def)
qed

lemma getCurTime_no_percent: "getCurTime tm = Some t \<Longrightarrow> CHR ''%'' \<notin> set t"
  by (auto simp: getCurTime_def Let_def split: if_splits)

text \<open>What a message looks like in front of its text.\<close>

definition log_head :: "string \<Rightarrow> int \<Rightarrow> string \<Rightarrow> string \<Rightarrow> int \<Rightarrow> string" where
  "log_head t level filename funcname line =
     t @ ''['' @ gStrValue ! nat level @ '']:'' @ filename @ '', '' @ funcname @ '', '' @ decimal line @ ''  ''"

lemma log_head_no_percent:
  "getCurTime tm = Some t \<Longrightarrow> isValidLevel l \<Longrightarrow> CHR ''%'' \<notin> set (filename @ funcname) \<Longrightarrow>
    CHR ''%'' \<notin> set (log_head t l filename funcname line)"
  using getCurTime_no_percent [of tm t] gStrValue_no_percent [of "nat l"]
  by (auto simp: log_head_def isValidLevel_def nat_less_iff)

text \<open>
  C24. A message is written exactly if its level is at least the level that the configuration file gives
  to its module: to the end of the module's file if it has one, and else to the standard output, with
  its time, level and place in front of it. A message below the level changes nothing.
\<close>

theorem logger_filters:
  assumes "moLoggerInit e (Some dir) s0 = Some (0, s)" and "\<not> lg_isInited s0" and "le_iniMem e"
    and "le_fopenR e (dir @ ''/'' @ MO_LOGGER_CONF_FILENAME) = Some (file_text ls)"
    and "list_all2 renders ls is" and "list_all good_line ls" and "well_formed is"
    and "(m, ATTR_LEVEL, gStrValue ! c) \<in> set (assigned [] is)" and "c < 5" and "m \<in> set (section_names is)" and "isValidLevel l"
    and "getCurTime tm = Some t" and "CHR ''%'' \<notin> set (filename @ funcname)" and "vformat fmt args = Some msg"
    and "length (log_head t l filename funcname line @ fmt) < MO_LOGGER_MAX_LOG_LEN"
    and "length (log_head t l filename funcname line @ msg) < MO_LOGGER_MAX_LOG_LEN"
  shows "(l < int c \<longrightarrow> logger opensA tm (Some m) l filename funcname line fmt args s out = Some out) \<and>
    (int c \<le> l \<longrightarrow>
       (\<forall>path. (m, ATTR_LOCALFILE, path) \<in> set (assigned [] is) \<longrightarrow> logger opensA tm (Some m) l filename funcname line fmt args s out =
          Some (if opensA path then appendFile path (log_head t l filename funcname line @ msg) out else out)) \<and>
       ((\<forall>path. (m, ATTR_LOCALFILE, path) \<notin> set (assigned [] is)) \<longrightarrow>
          (\<exists>n. logger opensA tm (Some m) l filename funcname line fmt args s out =
            Some (out\<lparr>lo_stdout := lo_stdout out @ log_head t l filename funcname line @ msg @ replicate (Suc n) NUL\<rparr>))))"
proof -
  let ?h = "log_head t l filename funcname line"
  have s: "gpSecHeadNode s = INI_LIST (build [] is)" "lg_isInited s"
    using assms(1-3) iniParserInit_file [OF assms(5-7), of "le_fopenR e", OF assms(4)]
    by (auto simp: moLoggerInit_def Let_def split: if_splits)
  note lv = lookup_file(1) [OF assms(7,8), of "[]"]
  have f: "vformat (?h @ fmt) args = Some (?h @ msg)"
    using vformat_prefix [OF log_head_no_percent [OF assms(12,11,13)]] assms(14) by simp
  have k: "take 1023 (?h @ fmt) = ?h @ fmt" "take 1023 (?h @ msg) = ?h @ msg" using assms(15,16) by simp_all
  have k': "take 1023 (t @ ''['' @ gStrValue ! nat l @ '']:'' @ filename @ '', '' @ funcname @ '', '' @ decimal line @ ''  '' @ fmt) = ?h @ fmt"
    using k(1) by (simp add: log_head_def)
  have len: "min (length ?h + length msg) 1023 = length ?h + length msg" using assms(16) by simp
  have run: "logger opensA tm (Some m) l filename funcname line fmt args s out =
     (if int c \<le> l then do {
        (ret, filepath) \<leftarrow> iniParserGetAttrValue (Some m) (Some ATTR_LOCALFILE) [] (INI_LIST (build [] is));
        if ret = 0 then Some (if opensA filepath then appendFile filepath (?h @ msg) out else out)
        else Some (out\<lparr>lo_stdout := lo_stdout out @ (?h @ msg) @ replicate (1024 - length (?h @ msg)) NUL\<rparr>)
      } else Some out)"
    unfolding logger_def using assms(9,11,12) s lv f
    by (simp add: k(2) len getLevelFromValue_name k' [unfolded append_Cons append_Nil] Let_def del: take_append cong: if_cong)
  show ?thesis
  proof (intro conjI impI allI)
    assume "l < int c"
    then show "logger opensA tm (Some m) l filename funcname line fmt args s out = Some out" by (simp add: run)
  next
    fix path assume "int c \<le> l" "(m, ATTR_LOCALFILE, path) \<in> set (assigned [] is)"
    then show "logger opensA tm (Some m) l filename funcname line fmt args s out =
          Some (if opensA path then appendFile path (?h @ msg) out else out)"
      using lookup_file(1) [OF assms(7), of m ATTR_LOCALFILE path "[]"] by (simp add: run)
  next
    assume a: "int c \<le> l" "\<forall>path. (m, ATTR_LOCALFILE, path) \<notin> set (assigned [] is)"
    have "1024 - length (?h @ msg) = Suc (1023 - length (?h @ msg))" using assms(16) by simp
    then show "\<exists>n. logger opensA tm (Some m) l filename funcname line fmt args s out =
            Some (out\<lparr>lo_stdout := lo_stdout out @ ?h @ msg @ replicate (Suc n) NUL\<rparr>)"
      using lookup_file(2) [OF assms(7,10), of ATTR_LOCALFILE "[]"] a
      by (intro exI [of _ "1023 - length (?h @ msg)"]) (simp add: run)
  qed
qed

section \<open>Users of the logger\<close>

datatype lg_call = LG_init LOGGERENV "string option" | LG_unInit

fun lg_do :: "lg_call \<Rightarrow> LOGGER \<Rightarrow> (int \<times> LOGGER) option" where
  "lg_do (LG_init e dir) s = moLoggerInit e dir s"
| "lg_do LG_unInit s = moLoggerUnInit s"

text \<open>The calls with their results.\<close>

fun lg_run :: "lg_call list \<Rightarrow> LOGGER \<Rightarrow> ((lg_call \<times> int) list \<times> LOGGER) option" where
  "lg_run [] s = Some ([], s)"
| "lg_run (c # cs) s = do {
     (r, s) \<leftarrow> lg_do c s;
     (h, s) \<leftarrow> lg_run cs s;
     Some ((c, r) # h, s)
   }"

text \<open>The specification: how many users there are after the calls.\<close>

fun users :: "(lg_call \<times> int) list \<Rightarrow> nat \<Rightarrow> nat" where
  "users [] n = n"
| "users ((LG_init e dir, r) # h) n = users h (if r = 0 then n + 1 else n)"
| "users ((LG_unInit, r) # h) n = users h (n - 1)"

definition lg_fresh :: LOGGER where
  "lg_fresh = \<lparr>lg_isInited = False, gpSecHeadNode = INI_NULL, gFileDir = [], gInitCnt = 0\<rparr>"

definition lg_inv :: "nat \<Rightarrow> LOGGER \<Rightarrow> bool" where
  "lg_inv n s \<longleftrightarrow> lg_isInited s = (n \<noteq> 0) \<and> unat (gInitCnt s) = n \<and> (gpSecHeadNode s = INI_NULL) = (n = 0) \<and> (n = 0 \<longrightarrow> gFileDir s = [])"

lemma lg_do_inv:
  assumes "lg_do c s = Some (r, s')" and "lg_inv n s" and "n + 1 < 2 ^ 32"
  shows "lg_inv (users [(c, r)] n) s'"
proof (cases c)
  case (LG_init e dir)
  have u: "unat (gInitCnt s + 1) = n + 1"
    using assms(2,3) unat_add_lem [of "gInitCnt s" 1] by (simp add: lg_inv_def)
  show ?thesis using assms(1,2) LG_init u
    by (auto simp: moLoggerInit_def lg_inv_def Let_def split: option.splits if_splits bind_splits)
next
  case LG_unInit
  show ?thesis
  proof (cases "lg_isInited s")
    case True
    then have n: "n \<noteq> 0" "unat (gInitCnt s) = n" "gInitCnt s \<noteq> 0" using assms(2) by (auto simp: lg_inv_def)
    then have u: "unat (gInitCnt s - 1) = n - 1" by (simp add: unat_minus_one)
    then have z: "(gInitCnt s - 1 = 0) = (n = 1)" using n(1) by (metis One_nat_def Suc_pred diff_self_eq_0 neq0_conv unat_eq_zero)
    show ?thesis using assms(1,2) LG_unInit True u z n(1)
      by (auto simp: moLoggerUnInit_def lg_inv_def Let_def split: if_splits bind_splits)
  next
    case False
    then show ?thesis using assms(1,2) LG_unInit by (auto simp: moLoggerUnInit_def lg_inv_def)
  qed
qed

lemma users_step: "users ((c, r) # h) n = users h (users [(c, r)] n)" "users [(c, r)] n \<le> n + 1"
  by (cases c; simp)+

lemma lg_run_inv:
  "lg_run cs s = Some (h, s') \<Longrightarrow> lg_inv n s \<Longrightarrow> n + length cs < 2 ^ 32 \<Longrightarrow> lg_inv (users h n) s'"
proof (induction cs arbitrary: s h n)
  case (Cons c cs)
  then obtain r s1 h' where r: "lg_do c s = Some (r, s1)" "lg_run cs s1 = Some (h', s')" "h = (c, r) # h'"
    by (auto split: bind_splits)
  have "lg_inv (users [(c, r)] n) s1" by (rule lg_do_inv [OF r(1) Cons.prems(2)]) (use Cons.prems(3) in simp)
  moreover have "users [(c, r)] n + length cs < 2 ^ 32" using Cons.prems(3) users_step(2) [of c r n] by simp
  ultimately show ?case using Cons.IH [OF r(2)] r(3) users_step(1) by metis
qed simp

text \<open>
  The specification of what is in memory: the start that has begun the current session, when there is one. A
  start that finds no user begins a session, and the stop of the last user ends it.
\<close>

fun session :: "(lg_call \<times> int) list \<Rightarrow> nat \<Rightarrow> (LOGGERENV \<times> string) option \<Rightarrow> (LOGGERENV \<times> string) option" where
  "session [] n x = x"
| "session ((LG_init e None, r) # h) n x = session h (if r = 0 then n + 1 else n) x"
| "session ((LG_init e (Some dir), r) # h) n x = session h (if r = 0 then n + 1 else n) (if r = 0 \<and> n = 0 then Some (e, dir) else x)"
| "session ((LG_unInit, r) # h) n x = session h (n - 1) (if n \<le> 1 then None else x)"

text \<open>The file that a start may read, if it can be opened, is well-formed, and the path fits its array.\<close>

definition conf_path :: "string \<Rightarrow> string" where
  "conf_path dir = dir @ ''/'' @ MO_LOGGER_CONF_FILENAME"

fun conf_ok :: "lg_call \<Rightarrow> bool" where
  "conf_ok (LG_init e (Some dir)) = (length dir < MO_LOGGER_MAX_DIRPATH_LEN \<and>
     (case le_fopenR e (conf_path dir) of None \<Rightarrow> True | Some f \<Rightarrow>
        (case sectionLoop True True f [] [] of None \<Rightarrow> False | Some (ret, secs) \<Rightarrow> ret = 0)))"
| "conf_ok _ = True"

definition reads :: "LOGGERENV \<times> string \<Rightarrow> LOGGER \<Rightarrow> bool" where
  "reads x s \<longleftrightarrow> (\<exists>f secs. le_fopenR (fst x) (conf_path (snd x)) = Some f \<and> sectionLoop True True f [] [] = Some (0, secs) \<and>
     gpSecHeadNode s = INI_LIST secs \<and> gFileDir s = snd x)"

definition sec_inv :: "nat \<Rightarrow> (LOGGERENV \<times> string) option \<Rightarrow> LOGGER \<Rightarrow> bool" where
  "sec_inv n x s \<longleftrightarrow> (n \<noteq> 0 \<longrightarrow> (\<exists>y. x = Some y \<and> reads y s))"

lemma iniParserInit_conf:
  assumes "conf_ok (LG_init e (Some dir))"
  shows "iniParserInit m m (le_fopenR e) (Some (conf_path dir)) = Some INI_NULL \<or>
    (\<exists>f secs. iniParserInit m m (le_fopenR e) (Some (conf_path dir)) = Some (INI_LIST secs) \<and>
       le_fopenR e (conf_path dir) = Some f \<and> sectionLoop True True f [] [] = Some (0, secs))"
proof (cases m)
  case True
  then show ?thesis using assms
    by (auto simp: iniParserInit_def InitSecInfoList_def GetSectionList_def split: option.splits)
qed (simp add: iniParserInit_def InitSecInfoList_def)

lemma lg_do_sections:
  assumes "lg_inv n s" and "sec_inv n x s" and "conf_ok c"
  shows "\<exists>r s'. lg_do c s = Some (r, s') \<and> sec_inv (users [(c, r)] n) (session [(c, r)] n x) s'"
proof (cases c)
  case (LG_init e d)
  show ?thesis
  proof (cases d)
    case None
    then show ?thesis using LG_init assms(2) by (simp add: moLoggerInit_def)
  next
    case (Some dir)
    show ?thesis
    proof (cases "lg_isInited s")
      case True
      then have "n \<noteq> 0" using assms(1) by (simp add: lg_inv_def)
      then show ?thesis using assms(2) LG_init Some True by (auto simp: moLoggerInit_def sec_inv_def reads_def)
    next
      case False
      then have n: "n = 0" using assms(1) by (simp add: lg_inv_def)
      note i = iniParserInit_conf [OF assms(3) [unfolded LG_init Some], of "le_iniMem e"]
      have l: "length dir < MO_LOGGER_MAX_DIRPATH_LEN" using assms(3) LG_init Some by simp
      show ?thesis
      proof (cases "isConfFileExist (le_opendir e) (Some dir) \<and> le_mem e")
        case early: False
        then show ?thesis using n False LG_init Some by (auto simp: moLoggerInit_def sec_inv_def)
      next
        case run: True
        from i show ?thesis
        proof (elim disjE exE conjE)
          assume "iniParserInit (le_iniMem e) (le_iniMem e) (le_fopenR e) (Some (conf_path dir)) = Some INI_NULL"
          then have "moLoggerInit e (Some dir) s = Some (-5, s\<lparr>gpSecHeadNode := INI_NULL\<rparr>)"
            using run False by (simp add: moLoggerInit_def conf_path_def)
          then show ?thesis using LG_init Some n by (simp add: sec_inv_def)
        next
          fix f secs
          assume f: "iniParserInit (le_iniMem e) (le_iniMem e) (le_fopenR e) (Some (conf_path dir)) = Some (INI_LIST secs)"
            "le_fopenR e (conf_path dir) = Some f" "sectionLoop True True f [] [] = Some (0, secs)"
          let ?s = "s\<lparr>gpSecHeadNode := INI_LIST secs, gFileDir := dir, gInitCnt := gInitCnt s + 1, lg_isInited := True\<rparr>"
          have "moLoggerInit e (Some dir) s = Some (0, ?s)"
            using f(1) run False l by (simp add: moLoggerInit_def conf_path_def)
          then show ?thesis using LG_init Some n f(2,3)
            by (intro exI [of _ 0] exI [of _ ?s]) (auto simp: sec_inv_def reads_def)
        qed
      qed
    qed
  qed
next
  case LG_unInit
  show ?thesis
  proof (cases "lg_isInited s")
    case False
    then have "n = 0" using assms(1) by (simp add: lg_inv_def)
    then show ?thesis using False LG_unInit by (simp add: moLoggerUnInit_def sec_inv_def)
  next
    case True
    then have n: "n \<noteq> 0" "unat (gInitCnt s) = n" "gInitCnt s \<noteq> 0" using assms(1) by (auto simp: lg_inv_def)
    then have u: "unat (gInitCnt s - 1) = n - 1" by (simp add: unat_minus_one)
    then have z: "(gInitCnt s - 1 = 0) = (n = 1)" using n(1) by (metis One_nat_def Suc_pred diff_self_eq_0 neq0_conv unat_eq_zero)
    obtain y secs where y: "x = Some y" "reads y s" "gpSecHeadNode s = INI_LIST secs"
      using assms(2) n(1) by (auto simp: sec_inv_def reads_def)
    show ?thesis
    proof (cases "n = 1")
      case last: True
      then show ?thesis using LG_unInit True z y by (simp add: moLoggerUnInit_def iniParserUnInit_def sec_inv_def Let_def)
    next
      case False
      then show ?thesis using LG_unInit True z y n(1) by (simp add: moLoggerUnInit_def sec_inv_def reads_def Let_def)
    qed
  qed
qed

lemma session_step: "session ((c, r) # h) n x = session h (users [(c, r)] n) (session [(c, r)] n x)"
proof (cases c)
  case (LG_init e d)
  then show ?thesis by (cases d) simp_all
qed simp

lemma lg_run_sections:
  assumes "lg_inv n s" and "sec_inv n x s" and "list_all conf_ok cs" and "n + length cs < 2 ^ 32"
  shows "\<exists>h s'. lg_run cs s = Some (h, s') \<and> sec_inv (users h n) (session h n x) s'"
  using assms
proof (induction cs arbitrary: s n x)
  case (Cons c cs)
  obtain r s1 where r: "lg_do c s = Some (r, s1)" "sec_inv (users [(c, r)] n) (session [(c, r)] n x) s1"
    using lg_do_sections [OF Cons.prems(1,2), of c] Cons.prems(3) by auto
  have "lg_inv (users [(c, r)] n) s1" by (rule lg_do_inv [OF r(1) Cons.prems(1)]) (use Cons.prems(4) in simp)
  moreover have "users [(c, r)] n + length cs < 2 ^ 32" using Cons.prems(4) users_step(2) [of c r n] by simp
  ultimately obtain h s' where "lg_run cs s1 = Some (h, s')"
    "sec_inv (users h (users [(c, r)] n)) (session h (users [(c, r)] n) (session [(c, r)] n x)) s'"
    using Cons.IH [of "users [(c, r)] n" s1 "session [(c, r)] n x"] r(2) Cons.prems(3) by auto
  then show ?case using r(1) session_step [of c r h n x] users_step(1) [of c r h n]
    by (intro exI [of _ "(c, r) # h"] exI [of _ s']) simp
qed simp

text \<open>
  C25. The logger counts its users: after any calls that return, it is initialised exactly if more users have
  started it than stopped it, where stopping a logger that is not initialised has no effect; with the last user
  the pointer to the sections and the directory are forgotten. When every configuration file that the calls may
  read is well-formed, all the calls return, and while there are users the sections of the file that the first of
  them had read are in memory. (With a file in a wrong format they are not: C26.)
\<close>

theorem logger_counts_users:
  assumes "length cs < 2 ^ 32"
  shows "(\<forall>h s. lg_run cs lg_fresh = Some (h, s) \<longrightarrow> unat (gInitCnt s) = users h 0 \<and> lg_isInited s = (0 < users h 0) \<and>
      (gpSecHeadNode s \<noteq> INI_NULL) = (0 < users h 0) \<and> (users h 0 = 0 \<longrightarrow> s = lg_fresh)) \<and>
    (list_all conf_ok cs \<longrightarrow> (\<exists>h s. lg_run cs lg_fresh = Some (h, s) \<and>
      (0 < users h 0 \<longrightarrow> (\<exists>e dir f secs. session h 0 None = Some (e, dir) \<and> le_fopenR e (conf_path dir) = Some f \<and>
         sectionLoop True True f [] [] = Some (0, secs) \<and> gpSecHeadNode s = INI_LIST secs \<and> gFileDir s = dir))))"
proof (intro conjI allI impI)
  have i0: "lg_inv 0 lg_fresh" by (simp add: lg_inv_def lg_fresh_def)
  {
    fix h s assume r: "lg_run cs lg_fresh = Some (h, s)"
    have i: "lg_inv (users h 0) s" using lg_run_inv [OF r i0] assms by simp
    then show "unat (gInitCnt s) = users h 0" "lg_isInited s = (0 < users h 0)" "(gpSecHeadNode s \<noteq> INI_NULL) = (0 < users h 0)"
      by (auto simp: lg_inv_def)
    show "s = lg_fresh" if "users h 0 = 0"
      using i that by (cases s) (auto simp: lg_inv_def lg_fresh_def unat_eq_zero)
  }
  assume ok: "list_all conf_ok cs"
  have "sec_inv 0 None lg_fresh" by (simp add: sec_inv_def)
  from lg_run_sections [OF i0 this ok] assms obtain h s where
    "lg_run cs lg_fresh = Some (h, s)" "sec_inv (users h 0) (session h 0 None) s" by auto
  then show "\<exists>h s. lg_run cs lg_fresh = Some (h, s) \<and>
      (0 < users h 0 \<longrightarrow> (\<exists>e dir f secs. session h 0 None = Some (e, dir) \<and> le_fopenR e (conf_path dir) = Some f \<and>
         sectionLoop True True f [] [] = Some (0, secs) \<and> gpSecHeadNode s = INI_LIST secs \<and> gFileDir s = dir))"
    by (intro exI [of _ h] exI [of _ s]) (auto simp: sec_inv_def reads_def)
qed

section \<open>A wrong configuration file\<close>

text \<open>
  C26. A configuration file in a wrong format is taken for a good one: the start of the logger succeeds
  with a pointer to sections that have been freed, and the first message with a valid level, and
  stopping the logger, too, use them.
\<close>

theorem wrong_config_dangles:
  assumes "\<not> lg_isInited s0" and "isConfFileExist (le_opendir e) (Some dir)" and "le_mem e" and "le_iniMem e"
    and "le_fopenR e (dir @ ''/'' @ MO_LOGGER_CONF_FILENAME) = Some f" and "sectionLoop True True f [] [] = Some (ret, secs)" and "ret \<noteq> 0"
    and "length dir < MO_LOGGER_MAX_DIRPATH_LEN" and "gInitCnt s0 = 0"
  shows "\<exists>s. moLoggerInit e (Some dir) s0 = Some (0, s) \<and> moLoggerUnInit s = None \<and>
    (\<forall>opensA tm m l filename funcname line fmt args out. isValidLevel l \<longrightarrow>
       logger opensA tm (Some m) l filename funcname line fmt args s out = None)"
proof -
  have p: "iniParserInit True True (le_fopenR e) (Some (dir @ ''/'' @ MO_LOGGER_CONF_FILENAME)) = Some INI_FREED"
    using assms(5-7) by (simp add: iniParserInit_def InitSecInfoList_def GetSectionList_def)
  let ?s = "s0\<lparr>gpSecHeadNode := INI_FREED, gFileDir := dir, gInitCnt := gInitCnt s0 + 1, lg_isInited := True\<rparr>"
  have "moLoggerInit e (Some dir) s0 = Some (0, ?s)" using assms p by (simp add: moLoggerInit_def Let_def)
  moreover have "moLoggerUnInit ?s = None" using assms(9) by (simp add: moLoggerUnInit_def iniParserUnInit_def)
  moreover have "logger opensA tm (Some m) l filename funcname line fmt args ?s out = None" if "isValidLevel l"
    for opensA tm m l filename funcname line fmt args out
    using that by (simp add: logger_def iniParserGetAttrValue_def)
  ultimately show ?thesis by blast
qed


section \<open>The properties at concrete inputs\<close>

definition sample_lines :: "string list" where
  "sample_lines = [''[net]'', ''level = warn'', ''localfile=log.txt'']"

definition sample_items :: "item list" where
  "sample_items = [Section ''net'', Attr ''level'' ''warn'', Attr ''localfile'' ''log.txt'']"

definition sample_logenv :: "string \<Rightarrow> LOGGERENV" where
  "sample_logenv f = \<lparr>le_opendir = (\<lambda>_. Some [''a'', ''moLoggerConf.ini'']), le_mem = True, le_iniMem = True, le_fopenR = (\<lambda>_. Some f)\<rparr>"

definition sample_tm :: TM where
  "sample_tm = \<lparr>tm_year = 117, tm_mon = 9, tm_mday = 5, tm_hour = 7, tm_min = 30, tm_sec = 2\<rparr>"

lemma sample_time: "getCurTime sample_tm = Some ''2017-10-05/07:30:02''"
  by code_simp

lemma sample_renders: "list_all2 renders sample_lines sample_items"
proof -
  have t: "is_token ''level''" "is_token ''warn''" "is_token ''localfile''" "is_token ''log.txt''"
    by (simp_all add: is_token_def is_blank_def)
  have "renders ''[net]'' (Section ''net'')"
    by (simp add: line_end_def) (intro exI [of _ "[]"], simp add: line_end_def)
  moreover have "renders ''level = warn'' (Attr ''level'' ''warn'')"
    unfolding renders.simps
    by (intro conjI exI [of _ "[]"] exI [of _ "'' ''"] t) (simp_all add: line_end_def is_blank_def)
  moreover have "renders ''localfile=log.txt'' (Attr ''localfile'' ''log.txt'')"
    unfolding renders.simps by (intro conjI exI [of _ "[]"] t) (simp_all add: line_end_def)
  ultimately show ?thesis by (simp add: sample_lines_def sample_items_def)
qed

definition sample_out :: LOG_OUT where "sample_out = \<lparr>lo_files = Map.empty, lo_stdout = []\<rparr>"

theorem logger_filters_witness:
  "\<exists>s. moLoggerInit (sample_logenv (file_text sample_lines)) (Some ''d'') lg_fresh = Some (0, s) \<and>
    logger (\<lambda>_. True) sample_tm (Some ''net'') 1 ''a.c'' ''f'' 12 ''%d left'' [A_int 5] s sample_out = Some sample_out \<and>
    logger (\<lambda>_. True) sample_tm (Some ''net'') 3 ''a.c'' ''f'' 12 ''%d left'' [A_int 5] s sample_out =
      Some (appendFile ''log.txt'' ''2017-10-05/07:30:02[error]:a.c, f, 12  5 left'' sample_out)"
proof -
  note r = sample_renders
  have g: "list_all good_line sample_lines" by (simp add: sample_lines_def good_line_def)
  have w: "well_formed sample_items" by (simp add: well_formed_def sample_items_def)
  let ?e = "sample_logenv (file_text sample_lines)"
  let ?s = "lg_fresh\<lparr>gpSecHeadNode := INI_LIST (build [] sample_items), gFileDir := ''d'', gInitCnt := 1, lg_isInited := True\<rparr>"
  have i: "moLoggerInit ?e (Some ''d'') lg_fresh = Some (0, ?s)"
    using iniParserInit_file [OF r g w, of "\<lambda>_. Some (file_text sample_lines)" "''d/moLoggerConf.ini''"]
    by (simp add: moLoggerInit_def sample_logenv_def lg_fresh_def isConfFileExist_def)
  have f: "vformat ''%d left'' [A_int 5] = Some ''5 left''" by code_simp
  have h: "log_head ''2017-10-05/07:30:02'' 3 ''a.c'' ''f'' 12 = ''2017-10-05/07:30:02[error]:a.c, f, 12  ''"
    "log_head ''2017-10-05/07:30:02'' 1 ''a.c'' ''f'' 12 = ''2017-10-05/07:30:02[info]:a.c, f, 12  ''"
    by code_simp+
  have a: "(''net'', ''level'', gStrValue ! 2) \<in> set (assigned [] sample_items)" "''net'' \<in> set (section_names sample_items)"
    "(''net'', ''localfile'', ''log.txt'') \<in> set (assigned [] sample_items)"
    by (simp_all add: sample_items_def gStrValue_def)
  have th: "(l < int 2 \<longrightarrow> logger (\<lambda>_. True) sample_tm (Some ''net'') l ''a.c'' ''f'' 12 ''%d left'' [A_int 5] ?s sample_out = Some sample_out) \<and>
    (int 2 \<le> l \<longrightarrow> logger (\<lambda>_. True) sample_tm (Some ''net'') l ''a.c'' ''f'' 12 ''%d left'' [A_int 5] ?s sample_out =
      Some (appendFile ''log.txt'' (log_head ''2017-10-05/07:30:02'' l ''a.c'' ''f'' 12 @ ''5 left'') sample_out))"
    if "l = 1 \<or> l = 3" for l
    using logger_filters [OF i _ _ _ r g w a(1) _ a(2) _ sample_time _ f, of l "''a.c''" "''f''" 12 "\<lambda>_. True" sample_out] a(3) h that
    by (auto simp: sample_logenv_def lg_fresh_def isValidLevel_def)
  show ?thesis using i th [of 1] th [of 3] h(1) by auto
qed

theorem logger_counts_users_witness:
  "\<exists>h s. lg_run [LG_init (sample_logenv (file_text sample_lines)) (Some ''d''), LG_init (sample_logenv []) (Some ''d''),
      LG_init (sample_logenv []) (Some ''x''), LG_unInit] lg_fresh = Some (h, s) \<and> users h 0 = 1 \<and> lg_isInited s \<and>
      gpSecHeadNode s = INI_LIST (build [] sample_items) \<and> gFileDir s = ''d''"
proof -
  let ?e = "sample_logenv (file_text sample_lines)"
  have g: "list_all good_line sample_lines" by (simp add: sample_lines_def good_line_def)
  have w: "well_formed sample_items" by (simp add: well_formed_def sample_items_def)
  let ?cs = "[LG_init ?e (Some ''d''), LG_init (sample_logenv []) (Some ''d''), LG_init (sample_logenv []) (Some ''x''), LG_unInit]"
  have f: "sectionLoop True True (file_text sample_lines) [] [] = Some (0, build [] sample_items)"
    using sectionLoop_file [OF sample_renders g done_ok_start [OF w]] by (simp add: cur_name_def)
  have e: "sectionLoop True True [] [] [] = Some (0, [])" by code_simp
  have ok: "list_all conf_ok ?cs" using f e by (simp add: sample_logenv_def)
  obtain h s where r: "lg_run ?cs lg_fresh = Some (h, s)" "users h 0 = 1" "session h 0 None = Some (?e, ''d'')"
    using iniParserInit_file [OF sample_renders g w, of "\<lambda>_. Some (file_text sample_lines)" "''d/moLoggerConf.ini''"]
    by (simp add: moLoggerInit_def moLoggerUnInit_def sample_logenv_def lg_fresh_def isConfFileExist_def Let_def)
  have "length ?cs < 2 ^ 32" by simp
  from logger_counts_users [OF this] ok r obtain secs where "lg_isInited s" "gpSecHeadNode s = INI_LIST secs" "gFileDir s = ''d''"
    "sectionLoop True True (file_text sample_lines) [] [] = Some (0, secs)" by (auto simp: sample_logenv_def)
  then show ?thesis using r(1,2) f by (intro exI [of _ h] exI [of _ s]) simp
qed

theorem wrong_config_dangles_witness:
  "\<exists>s. moLoggerInit (sample_logenv ''x'') (Some ''d'') lg_fresh = Some (0, s) \<and> moLoggerUnInit s = None"
proof -
  have "sectionLoop True True ''x'' [] [] = Some (-4, [])" by code_simp
  then show ?thesis
    using wrong_config_dangles [of lg_fresh "sample_logenv ''x''" "''d''" "''x''" "-4" "[]"]
    by (auto simp: lg_fresh_def sample_logenv_def isConfFileExist_def)
qed

end
