(* ===== verification/MoHttp.thy ===== *)
theory MoHttp
  imports MoIni
begin

text \<open>
  The web server of the face recognition program, \<open>moProject/moFaceRec/moFaceRec/src/httpServer.c\<close>, on top of
  the vendored library mongoose: the lists of endpoints, the way of a request from the event handler over a
  pair of sockets to a worker thread, and the way of the response back through the broadcast of the library.

  Functions are numbers, and \<open>NULL\<close> is \<open>None\<close>. The regular expressions of the system are parameters: \<open>regcomp\<close>
  says whether a pattern is good, \<open>regexec\<close> whether it matches. What the library has parsed of a request is a
  record, and what is sent on a connection is the list of the calls that send. Of the library, only the loop
  that calls the callback of a broadcast is modelled. The pair of sockets takes and gives whole structs: it is a
  stream, of which \<open>read\<close> may give less, and the worker does not ask how much it has got.
\<close>

record HSEpNode =
  cMethod :: string
  cURL :: string
  stRegex :: string
  pApiFunc :: nat
  pCheckFunc :: "nat option"

record WORK_REQUEST =
  wr_conn_id :: "64 word"
  wr_token :: string
  wr_remoteIp :: string
  wr_url :: string
  wr_method :: string
  wr_query :: string
  wr_data :: string
  wr_apiFunc :: nat
  wr_checkFunc :: "nat option"
  wr_mutex :: nat

text \<open>The lists, the counter of connections, and what is in the pair of sockets.\<close>

record HTTPSER =
  gHSEpList :: "HSEpNode list"
  gWSEpList :: "string list"
  s_next_id :: "64 word"
  workQueue :: "WORK_REQUEST list"

section \<open>URLs\<close>

definition urlMatch :: "string option \<Rightarrow> string option \<Rightarrow> int" where
  "urlMatch curUrl cmpUrl =
     (case (curUrl, cmpUrl) of
        (Some cur, Some cmp) \<Rightarrow>
          if length cur > length cmp then -2
          else if take 7 cmp = ''http://'' then
            (case strchr (drop 7 cmp) CHR ''/'' of
               None \<Rightarrow> -3
             | Some p \<Rightarrow> if cur = drop (7 + p) cmp then 0 else -4)
          else if cur = cmp then 0 else -4
      | _ \<Rightarrow> -1)"

definition getPureUrl :: "string option \<Rightarrow> int \<times> string option" where
  "getPureUrl url =
     (case url of
        None \<Rightarrow> (-1, None)
      | Some u \<Rightarrow>
          if take 7 u = ''http://'' then
            (case strchr (drop 7 u) CHR ''/'' of
               None \<Rightarrow> (-2, Some u)
             | Some p \<Rightarrow> (0, Some (drop (7 + p) u)))
          else (0, Some u))"

section \<open>Endpoints\<close>

text \<open>\<open>strncpy\<close> to a cleared array of \<open>n\<close> bytes, whose last byte stays 0.\<close>

definition copyN :: "nat \<Rightarrow> string \<Rightarrow> string" where
  "copyN n s = take (n - 1) s"

text \<open>The first endpoint of the method and URL gets the new function.\<close>

fun setApiFunc :: "string \<Rightarrow> string \<Rightarrow> nat \<Rightarrow> HSEpNode list \<Rightarrow> HSEpNode list option" where
  "setApiFunc method url apiFunc [] = None"
| "setApiFunc method url apiFunc (n # ns) =
     (if method = cMethod n \<and> url = cURL n then Some (n\<lparr>pApiFunc := apiFunc\<rparr> # ns)
      else map_option (Cons n) (setApiFunc method url apiFunc ns))"

text \<open>
  The pattern has room for 255 characters. \<open>mem\<close> says whether \<open>hs_malloc\<close> succeeds, which the function does
  not ask.
\<close>

definition httpSerAddEndpoint ::
    "(string \<Rightarrow> bool) \<Rightarrow> bool \<Rightarrow> string option \<Rightarrow> string option \<Rightarrow> nat option \<Rightarrow> nat option \<Rightarrow> HTTPSER \<Rightarrow> (int \<times> HTTPSER) option" where
  "httpSerAddEndpoint regcomp mem method url apiFunc checkFunc s =
     (case (method, url, apiFunc) of
        (Some m, Some u, Some f) \<Rightarrow>
          let urlRegular = ''^'' @ u @ ''$'' in
          if length urlRegular \<ge> 256 then None
          else (case setApiFunc m u f (gHSEpList s) of
              Some ns \<Rightarrow> Some (0, s\<lparr>gHSEpList := ns\<rparr>)
            | None \<Rightarrow>
                if \<not> mem then None
                else if \<not> regcomp urlRegular then Some (-1, s)
                else Some (0, s\<lparr>gHSEpList := gHSEpList s @ [\<lparr>cMethod = copyN 8 m, cURL = copyN 128 u, stRegex = urlRegular,
                  pApiFunc = f, pCheckFunc = checkFunc\<rparr>]\<rparr>))
      | _ \<Rightarrow> Some (-1, s))"

definition webSktAddEndpoint :: "bool \<Rightarrow> string option \<Rightarrow> HTTPSER \<Rightarrow> (int \<times> HTTPSER) option" where
  "webSktAddEndpoint mem url s =
     (case url of
        None \<Rightarrow> Some (-1, s)
      | Some u \<Rightarrow>
          if list_ex (\<lambda>c. u = c) (gWSEpList s) then Some (0, s)
          else if \<not> mem then None
          else Some (0, s\<lparr>gWSEpList := gWSEpList s @ [copyN 128 u]\<rparr>))"

definition httpSerDeinit :: "HTTPSER \<Rightarrow> HTTPSER" where
  "httpSerDeinit s = s\<lparr>gHSEpList := [], gWSEpList := []\<rparr>"

section \<open>Events\<close>

text \<open>A handshake is accepted for the URLs in the list.\<close>

definition onHandshake :: "string \<Rightarrow> HTTPSER \<Rightarrow> bool option" where
  "onHandshake uri s = (if length uri \<ge> 256 then None else Some (list_ex (\<lambda>c. uri = c) (gWSEpList s)))"

text \<open>
  The number of a new connection. The addition to the pointer when it is 0 does not change the counter.
\<close>

definition onAccept :: "HTTPSER \<Rightarrow> 64 word \<times> HTTPSER" where
  "onAccept s = (let i = s_next_id s + 1 in (if i = 0 then 1 else i, s\<lparr>s_next_id := i\<rparr>))"

record HTTP_MESSAGE =
  hm_uri :: string
  hm_method :: string
  hm_query :: string
  hm_body :: string
  hm_token :: "string option"
  hm_realIp :: "string option"
  hm_peerIp :: string

text \<open>
  The parts of the request are copied to arrays in the struct for the worker, as long as they are; \<open>None\<close> means that
  one does not fit, or that the URL has no end in its array. A request without an endpoint is served by the library.
  \<open>written\<close> says whether the struct could be written to the pair of sockets. The mutex of an endpoint, which the worker
  gets a pointer to, is named by the place of the endpoint in the list.
\<close>

definition onHttpRequest ::
    "(string \<Rightarrow> string \<Rightarrow> bool) \<Rightarrow> bool \<Rightarrow> bool \<Rightarrow> 64 word \<Rightarrow> HTTP_MESSAGE \<Rightarrow> HTTPSER \<Rightarrow> (bool \<times> HTTPSER) option" where
  "onHttpRequest regexec mem written user_data hm s =
     (if length (hm_uri hm) \<ge> 256 \<or> length (hm_method hm) > 8 \<or> length (hm_query hm) > 128 then None
      else if \<not> mem then None
      else if (case hm_token hm of None \<Rightarrow> False | Some t \<Rightarrow> length t > 512) then None
      else if (case hm_realIp hm of None \<Rightarrow> length (hm_peerIp hm) \<ge> 32 | Some t \<Rightarrow> length t > 32) then None
      else do {
        let token = (case hm_token hm of None \<Rightarrow> [] | Some t \<Rightarrow> t);
        let ip = (case hm_realIp hm of None \<Rightarrow> hm_peerIp hm | Some t \<Rightarrow> t);
        url \<leftarrow> snd (getPureUrl (Some (hm_uri hm)));
        (case find (\<lambda>k. hm_method hm = cMethod (gHSEpList s ! k) \<and> regexec (stRegex (gHSEpList s ! k)) url) [0..<length (gHSEpList s)] of
           None \<Rightarrow> Some (True, s)
         | Some k \<Rightarrow>
             let n = gHSEpList s ! k; req = \<lparr>wr_conn_id = user_data, wr_token = token, wr_remoteIp = ip, wr_url = url, wr_method = hm_method hm,
               wr_query = hm_query hm, wr_data = hm_body hm, wr_apiFunc = pApiFunc n, wr_checkFunc = pCheckFunc n, wr_mutex = k\<rparr>
             in Some (False, if written then s\<lparr>workQueue := workQueue s @ [req]\<rparr> else s))
      })"

section \<open>Workers\<close>

text \<open>
  A worker thread is at \<open>read\<close>, or has got past it and waits for the mutex of the endpoint, or is in the callback of the
  server. Its variable \<open>req\<close> is cleared at first, and keeps the last request.
\<close>

datatype WSTAGE = W_READ | W_LOCK | W_CALL

record WORKER =
  w_stage :: WSTAGE
  w_req :: "WORK_REQUEST option"

text \<open>The ten threads, the server, the mutexes that are locked, and the requests the callback has been called with.\<close>

record SERVE_POOL =
  p_workers :: "WORKER list"
  ser :: HTTPSER
  p_locked :: "nat \<Rightarrow> bool"
  p_calls :: "WORK_REQUEST list"

definition startWorkers :: "HTTPSER \<Rightarrow> SERVE_POOL" where
  "startWorkers s = \<lparr>p_workers = replicate 10 \<lparr>w_stage = W_READ, w_req = None\<rparr>, ser = s, p_locked = (\<lambda>_. False), p_calls = []\<rparr>"

text \<open>
  A step of worker \<open>k\<close>, \<open>None\<close> when it has to wait. A thread that fails to read goes on with what is in its
  variable. The callback returns.
\<close>

definition workerStep :: "bool \<Rightarrow> nat \<Rightarrow> SERVE_POOL \<Rightarrow> SERVE_POOL option" where
  "workerStep readOk k p =
     (if k < length (p_workers p) then
        let w = p_workers p ! k in
        (case w_stage w of
           W_READ \<Rightarrow>
             if readOk then
               (case workQueue (ser p) of
                  [] \<Rightarrow> None
                | q # qs \<Rightarrow> Some (p\<lparr>p_workers := (p_workers p)[k := \<lparr>w_stage = W_LOCK, w_req = Some q\<rparr>], ser := (ser p)\<lparr>workQueue := qs\<rparr>\<rparr>))
             else Some (if w_req w = None then p else p\<lparr>p_workers := (p_workers p)[k := w\<lparr>w_stage := W_LOCK\<rparr>]\<rparr>)
         | W_LOCK \<Rightarrow> do {
             q \<leftarrow> w_req w;
             if p_locked p (wr_mutex q) then None
             else Some (p\<lparr>p_workers := (p_workers p)[k := w\<lparr>w_stage := W_CALL\<rparr>], p_locked := (p_locked p)(wr_mutex q := True), p_calls := p_calls p @ [q]\<rparr>)
           }
         | W_CALL \<Rightarrow> do {
             q \<leftarrow> w_req w;
             Some (p\<lparr>p_workers := (p_workers p)[k := w\<lparr>w_stage := W_READ\<rparr>], p_locked := (p_locked p)(wr_mutex q := False)\<rparr>)
           })
      else None)"

text \<open>
  The states that the event thread and the workers lead to, in any order, when every \<open>read\<close> gives a whole struct;
  \<open>acc\<close> are the requests that have been written to the pair of sockets.
\<close>

inductive serve_reach :: "(string \<Rightarrow> string \<Rightarrow> bool) \<Rightarrow> HTTPSER \<Rightarrow> WORK_REQUEST list \<Rightarrow> SERVE_POOL \<Rightarrow> bool" for regexec s0 where
  start: "workQueue s0 = [] \<Longrightarrow> serve_reach regexec s0 [] (startWorkers s0)"
| request: "serve_reach regexec s0 acc p \<Longrightarrow> onHttpRequest regexec mem written i hm (ser p) = Some (b, s') \<Longrightarrow>
    serve_reach regexec s0 (acc @ drop (length (workQueue (ser p))) (workQueue s')) (p\<lparr>ser := s'\<rparr>)"
| work: "serve_reach regexec s0 acc p \<Longrightarrow> workerStep True k p = Some p' \<Longrightarrow> serve_reach regexec s0 acc p'"

section \<open>Responses\<close>

datatype HTTPOUT = Head int | Chunk string | LastChunk

record HCONN =
  user_data :: "64 word"
  sent :: "HTTPOUT list"
  sendAndClose :: bool

record WORK_RESULT =
  wres_conn_id :: "64 word"
  wres_status :: int
  wres_reqData :: bool
  wres_result :: "string option"

fun on_work_complete :: "HCONN list \<Rightarrow> WORK_RESULT \<Rightarrow> HCONN list \<times> WORK_RESULT" where
  "on_work_complete [] res = ([], res)"
| "on_work_complete (c # cs) res =
     (if user_data c \<noteq> 0 \<and> user_data c = wres_conn_id res then
        let body = (case wres_result res of None \<Rightarrow> [] | Some r \<Rightarrow> if r \<noteq> [] then [Chunk r] else []);
            c' = c\<lparr>sent := sent c @ Head (wres_status res) # body @ [LastChunk], sendAndClose := True\<rparr>;
            (cs', res') = on_work_complete cs (res\<lparr>wres_reqData := False, wres_result := None\<rparr>)
        in (c' # cs', res')
      else let (cs', res') = on_work_complete cs res in (c # cs', res'))"

text \<open>The library calls the callback of a broadcast once for each connection, the listening one included.\<close>

fun callAll :: "nat \<Rightarrow> HCONN list \<Rightarrow> WORK_RESULT \<Rightarrow> HCONN list \<times> WORK_RESULT" where
  "callAll 0 conns res = (conns, res)"
| "callAll (Suc n) conns res = (let (conns, res) = on_work_complete conns res in callAll n conns res)"

definition mg_mgr_handle_ctl_sock :: "HCONN list \<Rightarrow> WORK_RESULT \<Rightarrow> HCONN list \<times> WORK_RESULT" where
  "mg_mgr_handle_ctl_sock conns res = callAll (length conns) conns res"

definition httpSerDoResponse :: "64 word \<Rightarrow> bool \<Rightarrow> int \<Rightarrow> string option \<Rightarrow> HCONN list \<Rightarrow> HCONN list" where
  "httpSerDoResponse handle reqData status result conns =
     fst (mg_mgr_handle_ctl_sock conns \<lparr>wres_conn_id = handle, wres_status = status, wres_reqData = reqData, wres_result = result\<rparr>)"

section \<open>The URL of a request\<close>

text \<open>
  The two functions for URLs agree: a URL matches exactly if it is what is left of the other one without
  its server.
\<close>

theorem urlMatch_pure: "(urlMatch (Some cur) url = 0) = (getPureUrl url = (0, Some cur))"
proof (cases url)
  case (Some u)
  show ?thesis
  proof (cases "length cur > length u")
    case True
    then have "cur \<noteq> drop n u" for n by (metis length_drop diff_le_self linorder_not_le)
    then show ?thesis using True Some by (auto simp: urlMatch_def getPureUrl_def split: option.splits)
  next
    case False
    then show ?thesis using Some by (auto simp: urlMatch_def getPureUrl_def split: option.splits)
  qed
qed (simp add: urlMatch_def getPureUrl_def)

section \<open>The list of endpoints is a map\<close>

definition endpoint :: "string \<Rightarrow> string \<Rightarrow> HTTPSER \<Rightarrow> (nat \<times> nat option) option" where
  "endpoint m u s = map_option (\<lambda>n. (pApiFunc n, pCheckFunc n)) (find (\<lambda>n. m = cMethod n \<and> u = cURL n) (gHSEpList s))"

definition endpoints_ok :: "HTTPSER \<Rightarrow> bool" where
  "endpoints_ok s \<longleftrightarrow> distinct (map (\<lambda>n. (cMethod n, cURL n)) (gHSEpList s)) \<and> (\<forall>n \<in> set (gHSEpList s). stRegex n = ''^'' @ cURL n @ ''$'')"

lemma setApiFunc_None: "setApiFunc m u f ns = None \<longleftrightarrow> (\<forall>n \<in> set ns. (cMethod n, cURL n) \<noteq> (m, u))"
  by (induction ns) auto

lemma setApiFunc_Some:
  assumes "setApiFunc m u f ns = Some ns'"
  shows "map (\<lambda>n. (cMethod n, cURL n, stRegex n, pCheckFunc n)) ns' = map (\<lambda>n. (cMethod n, cURL n, stRegex n, pCheckFunc n)) ns"
    and "\<exists>n. find (\<lambda>n. m = cMethod n \<and> u = cURL n) ns = Some n \<and> find (\<lambda>n. m = cMethod n \<and> u = cURL n) ns' = Some (n\<lparr>pApiFunc := f\<rparr>)"
    and "(m', u') \<noteq> (m, u) \<Longrightarrow> find (\<lambda>n. m' = cMethod n \<and> u' = cURL n) ns' = find (\<lambda>n. m' = cMethod n \<and> u' = cURL n) ns"
  using assms by (induction ns arbitrary: ns') (auto split: if_splits)

lemma find_append: "find P (xs @ ys) = (case find P xs of None \<Rightarrow> find P ys | Some x \<Rightarrow> Some x)"
  by (induction xs) auto

text \<open>
  C38. Adding an endpoint whose method and URL fit their arrays updates a map: the URL gets the new function, all
  other endpoints stay as they were, and no method and URL is there twice. The function that checks the parameters
  is taken the first time only.
\<close>

theorem endpoints_are_a_map:
  assumes "endpoints_ok s" and "length m < 8" and "length u < 128" and "regcomp (''^'' @ u @ ''$'')"
  shows "\<exists>s'. httpSerAddEndpoint regcomp True (Some m) (Some u) (Some f) chk s = Some (0, s') \<and> endpoints_ok s' \<and>
    endpoint m u s' = Some (f, case endpoint m u s of None \<Rightarrow> chk | Some (_, old) \<Rightarrow> old) \<and>
    (\<forall>m' u'. (m', u') \<noteq> (m, u) \<longrightarrow> endpoint m' u' s' = endpoint m' u' s)"
proof (cases "setApiFunc m u f (gHSEpList s)")
  case None
  let ?n = "\<lparr>cMethod = m, cURL = u, stRegex = ''^'' @ u @ ''$'', pApiFunc = f, pCheckFunc = chk\<rparr>"
  let ?s = "s\<lparr>gHSEpList := gHSEpList s @ [?n]\<rparr>"
  have fresh: "\<forall>n \<in> set (gHSEpList s). (cMethod n, cURL n) \<noteq> (m, u)" using None by (simp add: setApiFunc_None)
  have "httpSerAddEndpoint regcomp True (Some m) (Some u) (Some f) chk s = Some (0, ?s)"
    using None assms(2-4) by (simp add: httpSerAddEndpoint_def copyN_def)
  moreover have "endpoints_ok ?s" using assms(1) fresh by (auto simp: endpoints_ok_def)
  moreover have no: "find (\<lambda>n. m = cMethod n \<and> u = cURL n) (gHSEpList s) = None" using fresh by (auto simp: find_None_iff)
  then have "endpoint m u ?s = Some (f, case endpoint m u s of None \<Rightarrow> chk | Some (_, old) \<Rightarrow> old)"
    by (simp add: endpoint_def find_append)
  moreover have "endpoint m' u' ?s = endpoint m' u' s" if "(m', u') \<noteq> (m, u)" for m' u'
    using that by (auto simp: endpoint_def find_append split: option.split)
  ultimately show ?thesis by blast
next
  case (Some ns)
  note st = setApiFunc_Some [OF Some]
  let ?s = "s\<lparr>gHSEpList := ns\<rparr>"
  have "httpSerAddEndpoint regcomp True (Some m) (Some u) (Some f) chk s = Some (0, ?s)"
    using Some assms(3) by (simp add: httpSerAddEndpoint_def)
  moreover have "endpoints_ok ?s"
  proof -
    have "map (\<lambda>n. (cMethod n, cURL n)) ns = map (\<lambda>n. (cMethod n, cURL n)) (gHSEpList s)"
      using arg_cong [OF st(1), of "map (\<lambda>(a, b, c, d). (a, b))"] by (simp add: comp_def)
    moreover have "map (\<lambda>n. (cURL n, stRegex n)) ns = map (\<lambda>n. (cURL n, stRegex n)) (gHSEpList s)"
      using arg_cong [OF st(1), of "map (\<lambda>(a, b, c, d). (b, c))"] by (simp add: comp_def)
    then have "(\<lambda>n. (cURL n, stRegex n)) ` set ns = (\<lambda>n. (cURL n, stRegex n)) ` set (gHSEpList s)" by (metis list.set_map)
    then have "\<forall>n \<in> set ns. \<exists>n' \<in> set (gHSEpList s). cURL n = cURL n' \<and> stRegex n = stRegex n'" by (auto simp: set_eq_iff image_iff)
    ultimately show ?thesis using assms(1) by (auto simp: endpoints_ok_def)
  qed
  moreover have "endpoint m u ?s = Some (f, case endpoint m u s of None \<Rightarrow> chk | Some (_, old) \<Rightarrow> old)"
    using st(2) by (auto simp: endpoint_def)
  moreover have "endpoint m' u' ?s = endpoint m' u' s" if "(m', u') \<noteq> (m, u)" for m' u'
    using st(3) [OF that] by (simp add: endpoint_def)
  ultimately show ?thesis by blast
qed


section \<open>From the request to the worker\<close>

text \<open>What a worker waits to call, the mutex it holds, and how many steps its request still needs.\<close>

definition w_waits :: "WORKER \<Rightarrow> WORK_REQUEST list" where
  "w_waits w = (case (w_stage w, w_req w) of (W_LOCK, Some q) \<Rightarrow> [q] | _ \<Rightarrow> [])"

definition w_holds :: "WORKER \<Rightarrow> nat list" where
  "w_holds w = (case (w_stage w, w_req w) of (W_CALL, Some q) \<Rightarrow> [wr_mutex q] | _ \<Rightarrow> [])"

definition w_rank :: "WORKER \<Rightarrow> nat" where
  "w_rank w = (case w_stage w of W_READ \<Rightarrow> 0 | W_LOCK \<Rightarrow> 2 | W_CALL \<Rightarrow> 1)"

definition waiting :: "SERVE_POOL \<Rightarrow> WORK_REQUEST list" where
  "waiting p = concat (map w_waits (p_workers p))"

definition in_callback :: "SERVE_POOL \<Rightarrow> nat list" where
  "in_callback p = concat (map w_holds (p_workers p))"

definition todo :: "SERVE_POOL \<Rightarrow> nat" where
  "todo p = 3 * length (workQueue (ser p)) + sum_list (map w_rank (p_workers p))"

definition serve_inv :: "WORK_REQUEST list \<Rightarrow> SERVE_POOL \<Rightarrow> bool" where
  "serve_inv acc p \<longleftrightarrow> mset (p_calls p) + mset (waiting p) + mset (workQueue (ser p)) = mset acc \<and>
     (\<forall>m. count (mset (in_callback p)) m = (if p_locked p m then 1 else 0)) \<and>
     (\<forall>w \<in> set (p_workers p). w_stage w \<noteq> W_READ \<longrightarrow> w_req w \<noteq> None) \<and> p_workers p \<noteq> []"

lemma mset_concat_update:
  assumes "k < length ws"
  shows "mset (concat (map f (ws[k := w]))) + mset (f (ws ! k)) = mset (concat (map f ws)) + mset (f w)"
  unfolding upd_conv_take_nth_drop [OF assms] by (subst (3) id_take_nth_drop [OF assms]) simp

lemma sum_list_rank_update:
  assumes "k < length ws"
  shows "sum_list (map f (ws[k := w])) + f (ws ! k) = sum_list (map f ws) + (f w :: nat)"
  unfolding upd_conv_take_nth_drop [OF assms] by (subst (3) id_take_nth_drop [OF assms]) simp

lemma set_update_all: "\<forall>x \<in> set xs. P x \<Longrightarrow> P y \<Longrightarrow> \<forall>x \<in> set (xs[k := y]). P x"
  using set_update_subset_insert [of xs k y] by blast

lemma workerStep_inv:
  assumes "serve_inv acc p" and "workerStep True k p = Some p'"
  shows "serve_inv acc p' \<and> todo p = Suc (todo p')"
proof -
  have k: "k < length (p_workers p)" using assms(2) by (simp add: workerStep_def split: if_splits)
  define w where "w = p_workers p ! k"
  have w: "w \<in> set (p_workers p)" using k by (simp add: w_def)
  note up = mset_concat_update [OF k, of w_waits, folded w_def] mset_concat_update [OF k, of w_holds, folded w_def]
    sum_list_rank_update [OF k, of w_rank, folded w_def]
  note inv = assms(1) [unfolded serve_inv_def]
  show ?thesis
  proof (cases "w_stage w")
    case W_READ
    then obtain q qs where q: "workQueue (ser p) = q # qs"
      "p' = p\<lparr>p_workers := (p_workers p)[k := \<lparr>w_stage = W_LOCK, w_req = Some q\<rparr>], ser := (ser p)\<lparr>workQueue := qs\<rparr>\<rparr>"
      using assms(2) k by (auto simp: workerStep_def w_def Let_def split: list.splits)
    have f: "w_waits w = []" "w_holds w = []" "w_rank w = 0" using W_READ by (simp_all add: w_waits_def w_holds_def w_rank_def)
    show ?thesis
      using inv q up [of "\<lparr>w_stage = W_LOCK, w_req = Some q\<rparr>"] f
        set_update_all [of "p_workers p" "\<lambda>w. w_stage w \<noteq> W_READ \<longrightarrow> w_req w \<noteq> None" "\<lparr>w_stage = W_LOCK, w_req = Some q\<rparr>" k]
      by (simp add: serve_inv_def todo_def waiting_def in_callback_def w_waits_def w_holds_def w_rank_def)
  next
    case W_LOCK
    then obtain q where q: "w_req w = Some q" "\<not> p_locked p (wr_mutex q)"
      "p' = p\<lparr>p_workers := (p_workers p)[k := w\<lparr>w_stage := W_CALL\<rparr>], p_locked := (p_locked p)(wr_mutex q := True), p_calls := p_calls p @ [q]\<rparr>"
      using assms(2) k by (auto simp: workerStep_def w_def Let_def split: if_splits bind_splits)
    have f: "w_waits w = [q]" "w_holds w = []" "w_rank w = 2" using W_LOCK q(1) by (simp_all add: w_waits_def w_holds_def w_rank_def)
    let ?w = "w\<lparr>w_stage := W_CALL\<rparr>"
    have g: "w_waits ?w = []" "w_holds ?w = [wr_mutex q]" "w_rank ?w = 1" using q(1) by (simp_all add: w_waits_def w_holds_def w_rank_def)
    have "mset (waiting p) = add_mset q (mset (waiting p'))" "mset (in_callback p') = add_mset (wr_mutex q) (mset (in_callback p))"
      "todo p = Suc (todo p')"
      using up [of ?w] f g q(3) by (simp_all add: waiting_def in_callback_def todo_def)
    moreover have "\<forall>w \<in> set (p_workers p'). w_stage w \<noteq> W_READ \<longrightarrow> w_req w \<noteq> None"
      using inv q(1,3) set_update_all [of "p_workers p" "\<lambda>w. w_stage w \<noteq> W_READ \<longrightarrow> w_req w \<noteq> None" ?w k] by simp
    ultimately show ?thesis using inv q(2,3) unfolding serve_inv_def by simp
  next
    case W_CALL
    then obtain q where q: "w_req w = Some q"
      "p' = p\<lparr>p_workers := (p_workers p)[k := w\<lparr>w_stage := W_READ\<rparr>], p_locked := (p_locked p)(wr_mutex q := False)\<rparr>"
      using assms(2) k by (auto simp: workerStep_def w_def Let_def split: bind_splits)
    have f: "w_waits w = []" "w_holds w = [wr_mutex q]" "w_rank w = 1" using W_CALL q(1) by (simp_all add: w_waits_def w_holds_def w_rank_def)
    let ?w = "w\<lparr>w_stage := W_READ\<rparr>"
    have g: "w_waits ?w = []" "w_holds ?w = []" "w_rank ?w = 0" by (simp_all add: w_waits_def w_holds_def w_rank_def)
    have h: "mset (in_callback p') + {#wr_mutex q#} = mset (in_callback p)"
      using up(2) [of ?w] f g q(2) by (simp add: in_callback_def)
    have "count (mset (in_callback p')) m = (if p_locked p' m then 1 else 0)" for m
    proof -
      have "count (mset (in_callback p)) m = (if p_locked p m then 1 else 0)" using inv by blast
      then show ?thesis using q(2) unfolding h [symmetric] by (auto split: if_splits)
    qed
    moreover have "\<forall>w \<in> set (p_workers p'). w_stage w \<noteq> W_READ \<longrightarrow> w_req w \<noteq> None"
      using inv q(2) set_update_all [of "p_workers p" "\<lambda>w. w_stage w \<noteq> W_READ \<longrightarrow> w_req w \<noteq> None" ?w k] by simp
    moreover have "mset (waiting p') = mset (waiting p)" "todo p = Suc (todo p')"
      using up(1,3) [of ?w] f g q(2) by (simp_all add: waiting_def todo_def)
    ultimately show ?thesis using inv q(2) unfolding serve_inv_def by simp
  qed
qed

lemma onHttpRequest_queue:
  "onHttpRequest regexec mem written i hm s = Some (b, s') \<Longrightarrow> \<exists>qs. s' = s\<lparr>workQueue := workQueue s @ qs\<rparr>"
  by (auto simp: onHttpRequest_def Let_def split: if_splits option.splits bind_splits intro: exI [of _ "[]"])

lemma serve_reach_inv: "serve_reach regexec s0 acc p \<Longrightarrow> serve_inv acc p"
proof (induction rule: serve_reach.induct)
  case start
  then show ?case
    by (simp add: serve_inv_def startWorkers_def waiting_def in_callback_def w_waits_def w_holds_def map_replicate_const)
next
  case (request acc p mem written i hm b s')
  from onHttpRequest_queue [OF request.hyps(2)] obtain qs where "s' = (ser p)\<lparr>workQueue := workQueue (ser p) @ qs\<rparr>" ..
  then show ?case using request.IH by (simp add: serve_inv_def waiting_def in_callback_def flip: union_assoc)
next
  case (work acc p k p')
  then show ?case using workerStep_inv by blast
qed

text \<open>When no worker can move, all of them are at \<open>read\<close> and there is nothing to read.\<close>

lemma stuck_done:
  assumes "serve_inv acc p" and "\<forall>k. workerStep True k p = None"
  shows "mset (p_calls p) = mset acc"
proof -
  note inv = assms(1) [unfolded serve_inv_def]
  have "w_stage w \<noteq> W_CALL" if w: "w \<in> set (p_workers p)" for w
  proof
    assume c: "w_stage w = W_CALL"
    obtain k where k: "k < length (p_workers p)" "w = p_workers p ! k" using w by (auto simp: in_set_conv_nth)
    have "w_req w \<noteq> None" using inv w c by auto
    moreover have "workerStep True k p = None" using assms(2) by blast
    ultimately show False using k c by (auto simp: workerStep_def Let_def)
  qed
  note nocall = this
  then have "in_callback p = []" by (auto simp: in_callback_def w_holds_def split: WSTAGE.split)
  then have free: "\<not> p_locked p m" for m using inv by (metis count_empty mset.simps(1) zero_neq_one)
  have read: "w_stage w = W_READ" if w: "w \<in> set (p_workers p)" for w
  proof (rule ccontr)
    assume "w_stage w \<noteq> W_READ"
    then have l: "w_stage w = W_LOCK" using nocall [OF w] by (cases "w_stage w") auto
    obtain k where k: "k < length (p_workers p)" "w = p_workers p ! k" using w by (auto simp: in_set_conv_nth)
    have "w_req w \<noteq> None" using inv w l by auto
    moreover have "workerStep True k p = None" using assms(2) by blast
    ultimately show False using k l free by (auto simp: workerStep_def Let_def)
  qed
  then have w0: "waiting p = []" by (auto simp: waiting_def w_waits_def)
  have "0 < length (p_workers p)" using inv by simp
  then have "w_stage (p_workers p ! 0) = W_READ" using read by simp
  moreover have "workerStep True 0 p = None" using assms(2) by blast
  ultimately have "workQueue (ser p) = []"
    using \<open>0 < length (p_workers p)\<close> by (auto simp: workerStep_def Let_def split: list.splits)
  then show ?thesis using inv w0 by simp
qed

lemma find_first_index:
  assumes "\<And>x. x \<in> set ns \<Longrightarrow> \<not> P x" and "P n"
  shows "find (\<lambda>k. P ((ns @ n # ns') ! k)) [0..<length (ns @ n # ns')] = Some (length ns)"
proof -
  have "[0..<length (ns @ n # ns')] = [0..<length ns] @ length ns # [Suc (length ns)..<length (ns @ n # ns')]"
    using upt_add_eq_append [of 0 "length ns" "Suc (length ns')"] upt_conv_Cons [of "length ns" "length ns + Suc (length ns')"] by simp
  moreover have "find (\<lambda>k. P ((ns @ n # ns') ! k)) ([0..<length ns] @ length ns # ks) = Some (length ns)" for ks
  proof -
    have "find (\<lambda>k. P ((ns @ n # ns') ! k)) [0..<length ns] = None"
      unfolding find_None_iff using assms(1) by (auto simp: nth_append)
    then show ?thesis unfolding find_append using assms(2) by simp
  qed
  ultimately show ?thesis by simp
qed

definition hm_fits :: "HTTP_MESSAGE \<Rightarrow> bool" where
  "hm_fits hm \<longleftrightarrow> length (hm_uri hm) < 256 \<and> length (hm_method hm) \<le> 8 \<and> length (hm_query hm) \<le> 128 \<and>
     (\<forall>t. hm_token hm = Some t \<longrightarrow> length t \<le> 512) \<and> (\<forall>t. hm_realIp hm = Some t \<longrightarrow> length t \<le> 32) \<and> length (hm_peerIp hm) < 32"

text \<open>
  C39. A request whose parts fit their arrays is handed to the first endpoint with its method whose pattern matches
  its URL, with the functions of that endpoint, the body, and the number of the connection. Ten workers serve the
  requests, in every order of their steps and those of the event thread, when every \<open>read\<close> gives a whole struct: at any
  time every request handed over has either been called once, or waits in one worker or in the pair of sockets, and
  no two workers are in callbacks of the same endpoint. Without new requests the workers stop after \<open>todo\<close> steps, and
  then the callback has been called exactly once for each request. In which order is not determined.
\<close>

theorem http_request_served:
  assumes "serve_reach regexec s0 acc p" and "gHSEpList (ser p) = ns @ n # ns'" and "hm_fits hm"
    and "getPureUrl (Some (hm_uri hm)) = (ret, Some url)" and "hm_method hm = cMethod n" and "regexec (stRegex n) url"
    and "\<forall>x \<in> set ns. \<not> (hm_method hm = cMethod x \<and> regexec (stRegex x) url)"
  shows "\<exists>s' q. onHttpRequest regexec True True i hm (ser p) = Some (False, s') \<and> serve_reach regexec s0 (acc @ [q]) (p\<lparr>ser := s'\<rparr>) \<and>
    wr_conn_id q = i \<and> wr_url q = url \<and> wr_method q = cMethod n \<and> wr_data q = hm_body hm \<and> wr_query q = hm_query hm \<and>
    wr_apiFunc q = pApiFunc n \<and> wr_checkFunc q = pCheckFunc n \<and> wr_mutex q = length ns \<and>
    (\<forall>acc' p'. serve_reach regexec s0 (acc @ q # acc') p' \<longrightarrow>
       mset (p_calls p') + mset (waiting p') + mset (workQueue (ser p')) = mset (acc @ q # acc') \<and> distinct (in_callback p') \<and>
       (\<forall>k p''. workerStep True k p' = Some p'' \<longrightarrow> todo p' = Suc (todo p'')) \<and>
       ((\<forall>k. workerStep True k p' = None) \<longrightarrow> mset (p_calls p') = mset (acc @ q # acc')))"
proof -
  let ?q = "\<lparr>wr_conn_id = i, wr_token = (case hm_token hm of None \<Rightarrow> [] | Some t \<Rightarrow> t),
    wr_remoteIp = (case hm_realIp hm of None \<Rightarrow> hm_peerIp hm | Some t \<Rightarrow> t), wr_url = url, wr_method = hm_method hm,
    wr_query = hm_query hm, wr_data = hm_body hm, wr_apiFunc = pApiFunc n, wr_checkFunc = pCheckFunc n, wr_mutex = length ns\<rparr>"
  let ?s = "(ser p)\<lparr>workQueue := workQueue (ser p) @ [?q]\<rparr>"
  have f: "find (\<lambda>k. hm_method hm = cMethod (gHSEpList (ser p) ! k) \<and> regexec (stRegex (gHSEpList (ser p) ! k)) url)
      [0..<length (gHSEpList (ser p))] = Some (length ns)"
    unfolding assms(2) by (rule find_first_index) (use assms(5-7) in auto)
  have n: "gHSEpList (ser p) ! length ns = n" by (simp add: assms(2))
  have fit: "\<not> (length (hm_uri hm) \<ge> 256 \<or> length (hm_method hm) > 8 \<or> length (hm_query hm) > 128)"
    "\<not> (case hm_token hm of None \<Rightarrow> False | Some t \<Rightarrow> length t > 512)"
    "\<not> (case hm_realIp hm of None \<Rightarrow> length (hm_peerIp hm) \<ge> 32 | Some t \<Rightarrow> length t > 32)"
    using assms(3) by (auto simp: hm_fits_def split: option.split)
  have r: "onHttpRequest regexec True True i hm (ser p) = Some (False, ?s)"
    unfolding onHttpRequest_def if_not_P [OF fit(1)] if_not_P [OF fit(2)] if_not_P [OF fit(3)] using assms(4) f n by (simp add: Let_def)
  have reach: "serve_reach regexec s0 (acc @ [?q]) (p\<lparr>ser := ?s\<rparr>)"
    using serve_reach.request [OF assms(1) r] by simp
  have "mset (p_calls p') + mset (waiting p') + mset (workQueue (ser p')) = mset (acc @ ?q # acc') \<and> distinct (in_callback p') \<and>
       (\<forall>k p''. workerStep True k p' = Some p'' \<longrightarrow> todo p' = Suc (todo p'')) \<and>
       ((\<forall>k. workerStep True k p' = None) \<longrightarrow> mset (p_calls p') = mset (acc @ ?q # acc'))"
    if reach': "serve_reach regexec s0 (acc @ ?q # acc') p'" for acc' p'
  proof -
    note inv = serve_reach_inv [OF reach']
    have "distinct (in_callback p')" unfolding distinct_count_atmost_1
    proof
      fix m
      have "count (mset (in_callback p')) m = (if p_locked p' m then 1 else 0)" using inv unfolding serve_inv_def by blast
      moreover have "m \<in> set (in_callback p') \<longleftrightarrow> count (mset (in_callback p')) m \<noteq> 0" by (metis count_eq_zero_iff set_mset_mset)
      ultimately show "count (mset (in_callback p')) m = (if m \<in> set (in_callback p') then 1 else 0)" by simp
    qed
    then show ?thesis using inv stuck_done [OF inv] workerStep_inv [OF inv] unfolding serve_inv_def by blast
  qed
  then show ?thesis using r reach assms(5)
    by (intro exI [of _ ?s] exI [of _ ?q]) simp
qed

text \<open>A worker that fails to read calls the callback again with the last request, whose body the first call has released.\<close>

theorem failed_read_repeats_request:
  assumes "k < length (p_workers p)" and "p_workers p ! k = \<lparr>w_stage = W_READ, w_req = Some q\<rparr>" and "\<not> p_locked p (wr_mutex q)"
  shows "foldM (\<lambda>b. workerStep b k) [False, True, True] p = Some (p\<lparr>p_calls := p_calls p @ [q]\<rparr>)"
proof -
  have same: "(p_workers p)[k := \<lparr>w_stage = W_READ, w_req = Some q\<rparr>] = p_workers p"
    using list_update_id [of "p_workers p" k] assms(2) by simp
  have "(p_locked p)(wr_mutex q := False) = p_locked p" using assms(3) by (simp add: fun_eq_iff)
  then show ?thesis using assms same by (cases p) (simp add: workerStep_def Let_def)
qed

section \<open>From the response to the connection\<close>

lemma on_work_complete_others: "wres_conn_id res \<notin> user_data ` set cs \<Longrightarrow> on_work_complete cs res = (cs, res)"
  by (induction cs) auto

lemma on_work_complete_one:
  assumes "wres_conn_id res \<notin> user_data ` set (pre @ post)" and "user_data c = wres_conn_id res" and "user_data c \<noteq> 0"
  shows "on_work_complete (pre @ c # post) res =
    (pre @ c\<lparr>sent := sent c @ Head (wres_status res) #
        (case wres_result res of None \<Rightarrow> [] | Some r \<Rightarrow> if r \<noteq> [] then [Chunk r] else []) @ [LastChunk], sendAndClose := True\<rparr> # post,
      res\<lparr>wres_reqData := False, wres_result := None\<rparr>)"
  using assms by (induction pre) (auto simp: on_work_complete_others Let_def)

lemma callAll_empty:
  assumes "wres_conn_id res \<notin> user_data ` set (pre @ post)" and "user_data c = wres_conn_id res" and "user_data c \<noteq> 0"
    and "wres_result res = None" and "sendAndClose c"
  shows "fst (callAll n (pre @ c # post) res) =
    pre @ c\<lparr>sent := sent c @ concat (replicate n [Head (wres_status res), LastChunk])\<rparr> # post"
  using assms
proof (induction n arbitrary: c res)
  case (Suc n)
  let ?c = "c\<lparr>sent := sent c @ [Head (wres_status res), LastChunk], sendAndClose := True\<rparr>"
  let ?r = "res\<lparr>wres_reqData := False, wres_result := None\<rparr>"
  have "on_work_complete (pre @ c # post) res = (pre @ ?c # post, ?r)"
    using on_work_complete_one [OF Suc.prems(1-3)] Suc.prems(4) by simp
  then have "fst (callAll (Suc n) (pre @ c # post) res) = fst (callAll n (pre @ ?c # post) ?r)" by simp
  also have "\<dots> = pre @ ?c\<lparr>sent := sent ?c @ concat (replicate n [Head (wres_status ?r), LastChunk])\<rparr> # post"
    by (rule Suc.IH) (use Suc.prems in simp_all)
  finally show ?case using Suc.prems(5) by simp
qed simp

text \<open>
  C40. The response goes to the connection of the request only, but not once: a broadcast calls the function
  that sends it for every connection of the server, and the function looks for the connection itself. A client gets the
  response, and behind it an empty response for every other connection, the listening one included.
\<close>

theorem response_repeated:
  assumes "conns = pre @ c # post" and "user_data c = h" and "h \<noteq> 0" and "h \<notin> user_data ` set (pre @ post)" and "t \<noteq> []"
  shows "httpSerDoResponse h d st (Some t) conns =
    pre @ c\<lparr>sent := sent c @ [Head st, Chunk t, LastChunk] @ concat (replicate (length conns - 1) [Head st, LastChunk]),
      sendAndClose := True\<rparr> # post"
proof -
  let ?r = "\<lparr>wres_conn_id = h, wres_status = st, wres_reqData = d, wres_result = Some t\<rparr>"
  let ?c = "c\<lparr>sent := sent c @ [Head st, Chunk t, LastChunk], sendAndClose := True\<rparr>"
  let ?r' = "?r\<lparr>wres_reqData := False, wres_result := None\<rparr>"
  have n: "length conns = Suc (length conns - 1)" using assms(1) by simp
  have "on_work_complete conns ?r = (pre @ ?c # post, ?r')"
    unfolding assms(1) by (subst on_work_complete_one) (use assms(2-5) in auto)
  then have "httpSerDoResponse h d st (Some t) conns = fst (callAll (length conns - 1) (pre @ ?c # post) ?r')"
    unfolding httpSerDoResponse_def mg_mgr_handle_ctl_sock_def by (subst n) simp
  also have "\<dots> = pre @ ?c\<lparr>sent := sent ?c @ concat (replicate (length conns - 1) [Head (wres_status ?r'), LastChunk])\<rparr> # post"
    by (rule callAll_empty) (use assms(2-4) in simp_all)
  finally show ?thesis by simp
qed

section \<open>The properties at concrete inputs\<close>

definition sample_ser :: HTTPSER where
  "sample_ser = \<lparr>gHSEpList = [], gWSEpList = [], s_next_id = 0, workQueue = []\<rparr>"

theorem endpoints_are_a_map_witness:
  "\<exists>s'. httpSerAddEndpoint (\<lambda>_. True) True (Some ''POST'') (Some ''/capture'') (Some 7) (Some 8) sample_ser = Some (0, s') \<and>
    endpoint ''POST'' ''/capture'' s' = Some (7, Some 8) \<and> endpoint ''GET'' ''/'' s' = None"
proof -
  have "endpoints_ok sample_ser" "endpoint m u sample_ser = None" for m u by (simp_all add: endpoints_ok_def endpoint_def sample_ser_def)
  then show ?thesis using endpoints_are_a_map [of sample_ser "''POST''" "''/capture''" "\<lambda>_. True" 7 "Some 8"] by auto
qed

definition sample_hm :: HTTP_MESSAGE where
  "sample_hm = \<lparr>hm_uri = ''http://h/capture'', hm_method = ''POST'', hm_query = [], hm_body = ''{}'', hm_token = None, hm_realIp = None,
     hm_peerIp = ''1.2.3.4''\<rparr>"

text \<open>One request: worker 3 reads it, takes the mutex and calls, and returns.\<close>

theorem http_request_served_witness:
  "\<exists>s s' q p'. httpSerAddEndpoint (\<lambda>_. True) True (Some ''POST'') (Some ''/capture'') (Some 7) (Some 8) sample_ser = Some (0, s) \<and>
    onHttpRequest (\<lambda>p u. p = ''^'' @ u @ ''$'') True True 5 sample_hm s = Some (False, s') \<and>
    wr_url q = ''/capture'' \<and> wr_apiFunc q = 7 \<and> wr_data q = ''{}'' \<and>
    foldM (\<lambda>k. workerStep True k) [3, 3, 3] ((startWorkers s)\<lparr>ser := s'\<rparr>) = Some p' \<and> p_calls p' = [q] \<and> todo p' = 0"
proof -
  let ?n = "\<lparr>cMethod = ''POST'', cURL = ''/capture'', stRegex = ''^/capture$'', pApiFunc = 7, pCheckFunc = Some 8\<rparr>"
  let ?s = "sample_ser\<lparr>gHSEpList := [?n]\<rparr>"
  let ?re = "\<lambda>p u. p = ''^'' @ u @ ''$''"
  have add: "httpSerAddEndpoint (\<lambda>_. True) True (Some ''POST'') (Some ''/capture'') (Some 7) (Some 8) sample_ser = Some (0, ?s)"
    by (simp add: httpSerAddEndpoint_def sample_ser_def copyN_def)
  have u: "getPureUrl (Some (hm_uri sample_hm)) = (0, Some ''/capture'')" by code_simp
  have fits: "hm_fits sample_hm" by (simp add: hm_fits_def sample_hm_def)
  have st: "serve_reach ?re ?s [] (startWorkers ?s)" by (rule serve_reach.start) (simp add: sample_ser_def)
  have eps: "gHSEpList (ser (startWorkers ?s)) = [] @ ?n # []" by (simp add: startWorkers_def)
  from http_request_served [OF st eps fits u, of 5] obtain s' q where q:
    "onHttpRequest ?re True True 5 sample_hm (ser (startWorkers ?s)) = Some (False, s')"
    "serve_reach ?re ?s ([] @ [q]) ((startWorkers ?s)\<lparr>ser := s'\<rparr>)" "wr_url q = ''/capture''" "wr_apiFunc q = 7" "wr_data q = ''{}''"
    "\<forall>acc' p'. serve_reach ?re ?s ([] @ q # acc') p' \<longrightarrow>
       mset (p_calls p') + mset (waiting p') + mset (workQueue (ser p')) = mset ([] @ q # acc') \<and> distinct (in_callback p') \<and>
       (\<forall>k p''. workerStep True k p' = Some p'' \<longrightarrow> todo p' = Suc (todo p'')) \<and>
       ((\<forall>k. workerStep True k p' = None) \<longrightarrow> mset (p_calls p') = mset ([] @ q # acc'))"
    by (auto simp: sample_hm_def)
  obtain q0 where s': "s' = ?s\<lparr>workQueue := [q0]\<rparr>"
    using q(1) fits u by (auto simp: onHttpRequest_def startWorkers_def sample_ser_def sample_hm_def upt_rec Let_def split: bind_splits)
  let ?p0 = "(startWorkers ?s)\<lparr>ser := s'\<rparr>"
  have r0: "serve_reach ?re ?s [q] ?p0" using q(2) by simp
  have "\<exists>p1 p2 p3. workerStep True 3 ?p0 = Some p1 \<and> workerStep True 3 p1 = Some p2 \<and> workerStep True 3 p2 = Some p3 \<and> todo p3 = 0 \<and> p_calls p3 = [q0]"
    by (auto simp: workerStep_def startWorkers_def s' todo_def w_rank_def Let_def dest!: subsetD [OF set_update_subset_insert])
  then obtain p1 p2 p3 where p: "workerStep True 3 ?p0 = Some p1" "workerStep True 3 p1 = Some p2" "workerStep True 3 p2 = Some p3"
    "todo p3 = 0" "p_calls p3 = [q0]" by blast
  have r3: "serve_reach ?re ?s ([] @ q # []) p3"
    using serve_reach.work [OF serve_reach.work [OF serve_reach.work [OF r0 p(1)] p(2)] p(3)] by simp
  have "workerStep True k p3 = None" for k
    using q(6) r3 p(4) by (cases "workerStep True k p3") auto
  then have "mset (p_calls p3) = mset ([] @ q # [])" using q(6) r3 by blast
  then have "p_calls p3 = [q]" using p(5) by simp
  then show ?thesis using add q(1,3-5) p(1-4)
    by (intro exI [of _ ?s] exI [of _ s'] exI [of _ q] exI [of _ p3]) (simp add: startWorkers_def)
qed

theorem response_repeated_witness:
  "httpSerDoResponse 1 True 200 (Some ''ok'') [\<lparr>user_data = 0, sent = [], sendAndClose = False\<rparr>, \<lparr>user_data = 1, sent = [], sendAndClose = False\<rparr>] =
    [\<lparr>user_data = 0, sent = [], sendAndClose = False\<rparr>, \<lparr>user_data = 1, sent = [Head 200, Chunk ''ok'', LastChunk, Head 200, LastChunk], sendAndClose = True\<rparr>]"
  using response_repeated [of "[\<lparr>user_data = 0, sent = [], sendAndClose = False\<rparr>, \<lparr>user_data = 1, sent = [], sendAndClose = False\<rparr>]"
    "[\<lparr>user_data = 0, sent = [], sendAndClose = False\<rparr>]" "\<lparr>user_data = 1, sent = [], sendAndClose = False\<rparr>" "[]" 1 "''ok''" True 200]
  by simp

end
