(* ===== verification/Spec2Isabelle.thy ===== *)
theory Spec2Isabelle
  imports MoPrelude MoFifo MoSearch MoSort MoCheck MoDES MoFile MoBase64 MoRC4 MoTaskQueue MoThreadPool MoMD5 MoIni MoNet MoNodes MoCliMgr MoCri MoFm MoCpsProto MoConn MoCpsServer MoBursts MoDmm MoCpsClient MoCps MoCloudUtils MoCloudBuf MoCloudData MoCloudCtrl MoCloudTasks MoCloudClient MoFormat MoLogger MoHttp
begin

text \<open>
  A verification of the moCodes SDK (\<open>src/moSdk\<close>): a C library with searching, sorting, checksums,
  ciphers, digests, file helpers, a parser of configuration files, a logger and a thread pool, and a file
  server with its client (CPS) on top of them; of the client of the cloud storage
  (\<open>src/moProject/moCloud/moCloudClientLib\<close>), which uses the SDK; and of the web server of the face
  recognition program (\<open>src/moProject/moFaceRec\<close>).

  \<^bold>\<open>The program.\<close> \<open>Utils\<close> holds the helpers (search, checksums, files, configuration files, thread
  pool), \<open>Sort\<close> the sorting algorithms, \<open>Crypto\<close> the ciphers DES, triple DES and RC4, the encoding
  BASE64 and the digest MD5, \<open>Logger\<close> the logger every module calls. \<open>Cps\<close> is the file server: a server
  process lists the files of a directory (\<open>fileMgr.c\<close>), keeps its clients in two lists (\<open>cliMgr.c\<close>, for
  states and heartbeats, and the running information in \<open>moCpsServer.c\<close>), accepts connections in one
  thread and serves every client in another; a client process agrees with it on a key, sends heartbeats
  in a thread of its own, sends requests and waits for their responses, and receives files as
  blocks on a second socket in a third thread. The cloud client agrees with its server on a key,
  logs users in and out, keeps the server's list of files, and downloads up to eight files at a time:
  one thread receives the units of all of them, one thread for each file writes them, and a journal on
  the disk keeps the downloads until the next start.

  \<^bold>\<open>Which theory models what.\<close> A theory follows the order of the file it translates; functions,
  types and global variables keep their names. Where two files use the same name for different
  functions, the one of the client has the prefix \<open>cli\<close>.
    \<^item> \<open>MoPrelude\<close>: arrays with checked access (\<open>rd\<close>, \<open>wr\<close>, \<open>rdn\<close>, \<open>wrn\<close>), \<open>foldM\<close> for counting loops,
      32-bit integers. \<open>MoBits\<close>: bytes as lists of bits. \<open>MoNodes\<close>: linked lists of records that are
      updated by key, with the locale \<open>node_update\<close> that both client lists interpret.
    \<^item> \<open>MoSearch\<close>: \<open>Utils/Search/src/search.c\<close>. \<open>MoSort\<close>: \<open>Sort/src/moSort.c\<close>. \<open>MoCheck\<close>:
      \<open>Utils/Check/src/checksum.c\<close>. \<open>MoFile\<close>: \<open>Utils/File/src/file.c\<close>. \<open>MoIni\<close>:
      \<open>Utils/Conf/Ini/src/iniParser.c\<close>.
    \<^item> \<open>MoCrypt\<close>: the constants of \<open>moCrypt.h\<close>. \<open>MoDES\<close>, \<open>MoRC4\<close>, \<open>MoBase64\<close>, \<open>MoMD5\<close>: the four
      directories of \<open>Crypto\<close>, files included.
    \<^item> \<open>MoTaskQueue\<close>, \<open>MoThreadPool\<close>: \<open>Utils/ThreadPool/src/taskQueue.c\<close> and \<open>thMgr.c\<close>. The queue lives on
      an explicit heap; the pool is a step relation in which work threads, users and the stopping
      owner interleave freely.
    \<^item> \<open>MoNet\<close>: \<open>Cps/Utils/src/moCpsUtils.c\<close>. \<open>MoCpsProto\<close>: the messages of \<open>moCpsUtils.h\<close> as bytes, and the
      CRC stubs. \<open>MoConn\<close>: connections, and the library functions both sides use.
    \<^item> \<open>MoCliMgr\<close>: \<open>Cps/Server/src/cliMgr.c\<close>. \<open>MoCri\<close>: the running information in \<open>moCpsServer.c\<close>.
      \<open>MoFm\<close>: \<open>Cps/Server/src/fileMgr.c\<close>. \<open>MoCpsServer\<close>: the rest of \<open>moCpsServer.c\<close>.
    \<^item> \<open>MoFifo\<close>: first-in first-out queues, with the locale \<open>fifo\<close> that the queue of tasks and the
      buffers of the cloud client interpret.
    \<^item> \<open>MoBursts\<close>: scripts of sockets that do not block, for the clients: what a read does in front of a gap (\<open>EAGAIN\<close>)
      and at one, and messages that arrive in bursts with gaps only between messages.
    \<^item> \<open>MoDmm\<close>: the data side of \<open>Cps/Client/src/moCpsClient.c\<close>. \<open>MoCpsClient\<close>: its other side.
      \<open>MoCps\<close>: the theorems about both processes.
    \<^item> \<open>MoCloudUtils\<close>: what \<open>moCloudUtils\<close> and \<open>cliUtils.c\<close> have beside the functions of \<open>MoNet\<close>.
      \<open>MoCloudBuf\<close>: the rings of units between the threads of \<open>cliData.c\<close>, on an explicit heap.
      \<open>MoCloudData\<close>: the rest of \<open>cliData.c\<close>.
    \<^item> \<open>MoCloudCtrl\<close>: the control side of \<open>moCloudClientLib.c\<close> (configuration, key agreement, requests,
      accounts, lists of files, heartbeats). \<open>MoCloudTasks\<close>: its journal of downloads. \<open>MoCloudClient\<close>: starting
      and stopping downloads and the client, with the theorems about all its parts.
    \<^item> \<open>MoFormat\<close>: the output of \<open>printf\<close>. \<open>MoLogger\<close>: \<open>Logger/src\<close>. \<open>MoHttp\<close>: \<open>moFaceRec/src/httpServer.c\<close>.

  \<^bold>\<open>How the code is modelled.\<close> Arrays are lists with a fixed length; \<open>None\<close> is an access outside of
  one, another undefined operation, or a call that never returns, so that a theorem with \<open>Some\<close> on
  the right says that the code returns and is memory-safe. Integers have their width (words, or
  \<open>int\<close> with the wrap-around written out). Error codes are the numbers the code returns. A module with
  global variables is a record that its operations take and return. A section under a mutex is one
  step. Calls of the logger are left out of the other theories, whose state they do not change. What the system does is an argument: the contents of files, the results of \<open>malloc\<close>,
  \<open>pthread_create\<close>, \<open>select\<close> and the socket calls, and for a connection the script of the pieces in which
  bytes arrive and are accepted, with interruptions and failures. Endless loops of threads are
  functions of the number of their turns, or step relations; loops that may not end otherwise are
  \<open>partial_function (option)\<close>, and the theorems that they end are stated with \<open>Some\<close>.

  \<^bold>\<open>What is shown.\<close>
    \<^item> Functional correctness: the search algorithms find the first occurrence (with the limits
      their byte tables have), the sorts sort, DES computes the bit-level cipher over the tables of the source (two
      entries of which differ from the standard), MD5 and BASE64 and RC4 agree with reference definitions, configuration files are read as they are written.
    \<^item> Round trips: the ciphers and BASE64 in memory and on files.
    \<^item> The thread pool: no invalid access, every task once, and that stopping ends.
    \<^item> The protocol: reading and writing of whole messages, the invariants of the client lists, the
      answers of the server (for requests behind garbage, too), the delivery of a file to the callback (when no gap
      falls inside its header or block), and for both sides together, the start of a session and the list of files from the disk of the
      server to the memory of the client.
    \<^item> The states of the client: after any calls it is idle or running, or locked for good after a start without memory.
    \<^item> The cloud client: the rings refine queues, a file is delivered whatever the order of the turns
      of the threads when no gap falls inside a unit, the journal keeps up with the file and survives a restart, and after a login the lists
      of files are those the server sent.
    \<^item> The logger filters messages by the level of their module and counts its users. The endpoints of the web
      server are a map, and a request reaches the functions of its endpoint: ten workers interleave freely, and each request is
      called exactly once when every read gives a whole struct.
    \<^item> Where the code fails: theorems with the exact condition, listed as findings (messages lost at a gap of a socket
      that does not block, lost requests,
      deadlocks, overflows of buffers on headers that are not checked, large files in pieces, a second
      download that blocks the first, a logout that works for 28 characters only, a logger that uses
      freed memory after a mistake in its configuration, responses that are sent several times).

  \<^bold>\<open>Bounds.\<close> Patterns up to 256 bytes for the search, up to 255 for Boyer-Moore: beyond, the tables of bytes
  overflow, and a theorem shows what happens. Arrays of up to \<open>2 ^ 31\<close> elements for selection and bubble
  sort, whose counters start negative beyond. Messages over a socket need at most as many accepting calls of the kernel as they have
  bytes (\<open>sends\<close>). Reads end because every call uses up a part of the script. A download has units that
  together stay below \<open>2 ^ 31\<close> bytes (\<open>units_ok\<close>), the range of the offsets in the code.

  \<^bold>\<open>Not modelled.\<close> Functions that only print or only release a copy given to the caller, calls under
  \<open>#if 0\<close>, and the programs that only call the libraries. \<open>moCloudUtils.c\<close> repeats functions of \<open>moCpsUtils.c\<close>, and the
  parser of the logger the one in \<open>Utils/Conf/Ini\<close>; they share its models. Outside of these parts: the server of the cloud
  storage (C++ around MySQL and SQLite), the rest of \<open>moFaceRec\<close> (C++ around a camera, the vendored web server mongoose, but for
  the loop that \<open>MoHttp\<close> names, the headers of ffmpeg and a closed library), \<open>moNvr\<close> (a draft that does not compile and calls
  functions that are declared only), \<open>moTool\<close> (C++), the test programs, and the demonstration programs in \<open>moDemos\<close>, most of
  whose lines are generated by gSOAP. These vendored and generated files are most of the lines of the repository.
\<close>

end
